(* ===== verification/Prelude.thy ===== *)
theory Prelude
  imports Complex_Main "HOL-Library.AList" "HOL-Library.Char_ord" "HOL-Library.List_Lexorder"
begin

text \<open>
  Shared vocabulary of the development.

  \<^item> Python dictionaries keep insertion order. They are association lists: \<open>map_of\<close> is
    \<open>d.get\<close>, \<open>AList.update\<close> is \<open>d[k] = v\<close> (in place for a present key, at the end for a
    new one), \<open>AList.delete\<close> is \<open>d.pop(k, None)\<close>, and \<open>dkeys\<close> is the iteration order.
  \<^item> Strings are lists of characters (code points below 256), ordered by code point.
  \<^item> Floating point clock readings, costs and fractions are exact rationals: the sources only
    add, subtract, scale and compare them; rounding is outside the model.
  \<^item> A raised exception is \<open>Inl\<close> of an error value, a normal return is \<open>Inr\<close>.
  \<^item> A sequence of validation checks is a list of (failure condition, error) pairs, of which the
    first that fails is reported.
\<close>

named_theorems result_simps \<open>inversion of the result monad\<close>
named_theorems dict_simps \<open>lookups after dictionary updates\<close>

subsection \<open>Types\<close>

type_synonym ('k, 'v) dict = "('k \<times> 'v) list"
type_synonym time = rat
type_synonym agent = string

abbreviation dget :: "('k, 'v) dict \<Rightarrow> 'k \<Rightarrow> 'v option" where
  "dget \<equiv> map_of"

abbreviation dput :: "'k \<Rightarrow> 'v \<Rightarrow> ('k, 'v) dict \<Rightarrow> ('k, 'v) dict" where
  "dput \<equiv> AList.update"

abbreviation dpop :: "'k \<Rightarrow> ('k, 'v) dict \<Rightarrow> ('k, 'v) dict" where
  "dpop \<equiv> AList.delete"

abbreviation dkeys :: "('k, 'v) dict \<Rightarrow> 'k list" where
  "dkeys \<equiv> List.map fst"

text \<open>\<open>d.get(k, default)\<close>.\<close>

definition dget_or :: "('k, 'v) dict \<Rightarrow> 'k \<Rightarrow> 'v \<Rightarrow> 'v" where
  "dget_or d k v = (case dget d k of None \<Rightarrow> v | Some w \<Rightarrow> w)"

subsection \<open>Dictionaries\<close>

text \<open>Lookups stay lookups: they are not turned into membership of the association list.\<close>

declare map_of_eq_Some_iff [simp del] Some_eq_map_of_iff [simp del]

lemma dget_dput [simp, dict_simps]: "dget (dput k v d) k' = (if k' = k then Some v else dget d k')"
  by (simp add: update_conv)

lemma dget_dpop [simp, dict_simps]: "dget (dpop k d) k' = (if k' = k then None else dget d k')"
  by (simp add: delete_conv)

lemma dget_or_dput [simp, dict_simps]:
  "dget_or (dput k v d) k' w = (if k' = k then v else dget_or d k' w)"
  by (simp add: dget_or_def)

lemma dget_or_dpop [simp, dict_simps]:
  "dget_or (dpop k d) k' w = (if k' = k then w else dget_or d k' w)"
  by (simp add: dget_or_def)

lemma dget_or_Nil [simp]: "dget_or [] k v = v"
  by (simp add: dget_or_def)

lemma set_dkeys_dput [simp]: "set (dkeys (dput k v d)) = insert k (set (dkeys d))"
  by (auto simp: update_keys simp del: set_map)

lemma distinct_dkeys_dput [simp]: "distinct (dkeys (dput k v d)) = distinct (dkeys d)"
  by (simp add: update_keys)

lemma set_dkeys_dpop [simp]: "set (dkeys (dpop k d)) = set (dkeys d) - {k}"
  by (auto simp: delete_keys simp del: set_map)

lemma distinct_dkeys_dpop [simp]: "distinct (dkeys d) \<Longrightarrow> distinct (dkeys (dpop k d))"
  by (simp add: distinct_delete)

lemma dget_None_iff: "dget d k = None \<longleftrightarrow> k \<notin> set (dkeys d)"
  by (simp add: map_of_eq_None_iff)

lemma dget_Some_key: "dget d k = Some v \<Longrightarrow> k \<in> set (dkeys d)"
  by (metis dget_None_iff option.distinct(1))

lemma dget_Some_in: "dget d k = Some v \<Longrightarrow> (k, v) \<in> set d"
  by (rule map_of_SomeD)

text \<open>A dictionary comprehension that keeps the entries whose value satisfies a test.\<close>

lemma dget_filter_values:
  "distinct (dkeys d) \<Longrightarrow>
   dget (filter (\<lambda>(k, v). P v) d) k =
     (case dget d k of None \<Rightarrow> None | Some v \<Rightarrow> if P v then Some v else None)"
  by (induction d) (auto simp: image_iff dget_None_iff split: option.splits)

lemma distinct_dkeys_filter [simp]:
  "distinct (dkeys d) \<Longrightarrow> distinct (dkeys (filter P d))"
  by (rule distinct_map_filter)

subsection \<open>Results\<close>

definition rbind :: "'e + 'a \<Rightarrow> ('a \<Rightarrow> 'e + 'b) \<Rightarrow> 'e + 'b" where
  "rbind r f = (case r of Inl e \<Rightarrow> Inl e | Inr x \<Rightarrow> f x)"

lemma rbind_simps [simp]: "rbind (Inl e) f = Inl e" "rbind (Inr x) f = f x"
  by (simp_all add: rbind_def)

lemma rbind_eq_Inr [result_simps]: "rbind r f = Inr y \<longleftrightarrow> (\<exists>x. r = Inr x \<and> f x = Inr y)"
  by (cases r) auto

lemma rbind_eq_Inl [result_simps]:
  "rbind r f = Inl e \<longleftrightarrow> r = Inl e \<or> (\<exists>x. r = Inr x \<and> f x = Inl e)"
  by (cases r) auto

definition is_ok :: "'e + 'a \<Rightarrow> bool" where
  "is_ok r = (case r of Inl _ \<Rightarrow> False | Inr _ \<Rightarrow> True)"

lemma is_ok_simps [simp]: "is_ok (Inr x)" "\<not> is_ok (Inl e)"
  by (simp_all add: is_ok_def)

lemma is_okE: "is_ok r \<Longrightarrow> (\<And>x. r = Inr x \<Longrightarrow> P) \<Longrightarrow> P"
  by (cases r) auto

text \<open>The first failing check of a validator.\<close>

fun first_error :: "(bool \<times> 'e) list \<Rightarrow> 'e option" where
  "first_error [] = None"
| "first_error ((failed, e) # cs) = (if failed then Some e else first_error cs)"

lemma first_error_append [simp]:
  "first_error (xs @ ys) = (case first_error xs of None \<Rightarrow> first_error ys | Some e \<Rightarrow> Some e)"
  by (induction xs rule: first_error.induct) auto

lemma first_error_None: "first_error cs = None \<longleftrightarrow> list_all (\<lambda>c. \<not> fst c) cs"
  by (induction cs rule: first_error.induct) auto

definition guard_with :: "'a \<Rightarrow> (bool \<times> 'e) list \<Rightarrow> 'e + 'a" where
  "guard_with x cs = (case first_error cs of None \<Rightarrow> Inr x | Some e \<Rightarrow> Inl e)"

lemma guard_with_Inr [result_simps]:
  "guard_with x cs = Inr y \<longleftrightarrow> y = x \<and> list_all (\<lambda>c. \<not> fst c) cs"
  by (auto simp: guard_with_def first_error_None[symmetric] split: option.splits)

lemma guard_with_Inl [result_simps]:
  "guard_with x cs = Inl e \<longleftrightarrow> first_error cs = Some e"
  by (auto simp: guard_with_def split: option.splits)

subsection \<open>Python strings\<close>

text \<open>
  \<open>str.isspace\<close> on code points below 256: tab to carriage return, the four separators, blank,
  next line and no-break space. A \<open>NotBlankStr\<close> has at least one other character.
\<close>

definition py_isspace :: "char \<Rightarrow> bool" where
  "py_isspace c \<longleftrightarrow> (let n = (of_char c :: nat) in
     9 \<le> n \<and> n \<le> 13 \<or> 28 \<le> n \<and> n \<le> 32 \<or> n = 133 \<or> n = 160)"

definition not_blank :: "string \<Rightarrow> bool" where
  "not_blank s \<longleftrightarrow> list_ex (\<lambda>c. \<not> py_isspace c) s"

definition opt_not_blank :: "string option \<Rightarrow> bool" where
  "opt_not_blank x = (case x of None \<Rightarrow> True | Some s \<Rightarrow> not_blank s)"

lemma not_blank_Nil [simp]: "\<not> not_blank []"
  by (simp add: not_blank_def)

lemma not_blank_nonempty: "not_blank s \<Longrightarrow> s \<noteq> []"
  by auto

lemma opt_not_blank_simps [simp]: "opt_not_blank None" "opt_not_blank (Some s) = not_blank s"
  by (simp_all add: opt_not_blank_def)

lemma not_blank_append [simp]: "not_blank (xs @ ys) \<longleftrightarrow> not_blank xs \<or> not_blank ys"
  by (simp add: not_blank_def)

subsection \<open>Lists\<close>

lemma distinct_snoc [simp]: "distinct (xs @ [x]) \<longleftrightarrow> distinct xs \<and> x \<notin> set xs"
  by auto

lemma distinct_subset_length:
  "distinct xs \<Longrightarrow> set xs \<subseteq> set ys \<Longrightarrow> length xs \<le> length ys"
  by (metis card_length card_mono distinct_card finite_set order_trans)

text \<open>\<open>deque(maxlen=n).append\<close>: a full deque drops its oldest element.\<close>

definition deque_append :: "nat \<Rightarrow> 'a list \<Rightarrow> 'a \<Rightarrow> 'a list" where
  "deque_append maxlen xs x = drop (length xs + 1 - maxlen) (xs @ [x])"

lemma deque_append_drop: "deque_append n (drop (length xs - n) xs) x = drop (length (xs @ [x]) - n) (xs @ [x])"
  by (cases "length xs < n") (auto simp: deque_append_def Suc_diff_le)

lemma sorted_wrt_neq: "sorted_wrt (\<noteq>) xs \<longleftrightarrow> distinct xs"
  by (induction xs) auto

lemma find_rev_unique:
  "distinct (List.map f xs) \<Longrightarrow> x \<in> set xs \<Longrightarrow> find (\<lambda>y. f y = f x) (rev xs) = Some x"
proof (induction xs rule: rev_induct)
  case (snoc y ys)
  then show ?case by (cases "y = x") auto
qed simp

end
