(* ===== verification/State_Machine.thy ===== *)
theory State_Machine
  imports Prelude
begin

text \<open>
  The generic validated state machine of \<^verbatim>\<open>src/src/synthorg/core/state_machine.py\<close>, used by
  the task lifecycle, the Kanban columns and the sprint lifecycle. The class is a record with the
  frozen transition table and the display label; \<open>mk_machine\<close> is its constructor with the
  coverage check, \<open>sm_allowed\<close>, \<open>sm_is_terminal\<close> and \<open>sm_validate\<close> are its methods.
  Structured logging is not modelled.

  The locale \<open>covered_machine\<close> is what a client of a successfully constructed machine relies on:
  every state has an entry. It is interpreted once per transition table of the program.
\<close>

datatype 's sm_error =
    MissingEntries "'s set"
  | NoEntry 's
  | InvalidTransition 's 's "'s set"

record 's machine =
  transitions :: "('s, 's set) dict"
  m_name :: string
  display_label :: string

definition mk_machine ::
  "('s, 's set) dict \<Rightarrow> string \<Rightarrow> 's set option \<Rightarrow> string option \<Rightarrow> 's sm_error + 's machine" where
  "mk_machine table name all_states label =
     (let missing = (case all_states of None \<Rightarrow> {} | Some states \<Rightarrow> states - set (dkeys table))
      in if missing \<noteq> {} then Inl (MissingEntries missing)
         else Inr \<lparr>transitions = table, m_name = name,
                display_label = (case label of
                    Some l \<Rightarrow> if l \<noteq> [] then l
                      else List.map (\<lambda>c. if c = CHR ''_'' then CHR '' '' else c) name
                  | None \<Rightarrow> List.map (\<lambda>c. if c = CHR ''_'' then CHR '' '' else c) name)\<rparr>)"

definition sm_allowed :: "'s machine \<Rightarrow> 's \<Rightarrow> 's set option" where
  "sm_allowed m current = dget (transitions m) current"

definition sm_is_terminal :: "'s machine \<Rightarrow> 's \<Rightarrow> bool" where
  "sm_is_terminal m s = (case dget (transitions m) s of None \<Rightarrow> False | Some targets \<Rightarrow> targets = {})"

definition sm_validate :: "'s machine \<Rightarrow> 's \<Rightarrow> 's \<Rightarrow> 's sm_error + unit" where
  "sm_validate m current target =
     (case dget (transitions m) current of
        None \<Rightarrow> Inl (NoEntry current)
      | Some allowed \<Rightarrow>
          if target \<notin> allowed then Inl (InvalidTransition current target allowed) else Inr ())"

text \<open>One accepted transition, and a walk along accepted transitions.\<close>

definition sm_step :: "'s machine \<Rightarrow> 's \<Rightarrow> 's \<Rightarrow> bool" where
  "sm_step m s t \<longleftrightarrow> sm_validate m s t = Inr ()"

fun sm_walk :: "'s machine \<Rightarrow> 's \<Rightarrow> 's list \<Rightarrow> bool" where
  "sm_walk m s [] = True"
| "sm_walk m s (t # ts) = (sm_step m s t \<and> sm_walk m t ts)"

inductive sm_reach :: "'s machine \<Rightarrow> 's \<Rightarrow> 's \<Rightarrow> bool" for m s where
  reach_refl: "sm_reach m s s"
| reach_step: "sm_reach m s t \<Longrightarrow> sm_step m t u \<Longrightarrow> sm_reach m s u"

subsection \<open>Lemmas that hold for any machine\<close>

lemma sm_step_iff: "sm_step m s t \<longleftrightarrow> (\<exists>T. dget (transitions m) s = Some T \<and> t \<in> T)"
  by (auto simp: sm_step_def sm_validate_def split: option.splits if_splits)

lemma sm_terminal_no_step: "sm_is_terminal m s \<Longrightarrow> \<not> sm_step m s t"
  by (auto simp: sm_step_iff sm_is_terminal_def split: option.splits)

lemma sm_reach_trans: "sm_reach m s t \<Longrightarrow> sm_reach m t u \<Longrightarrow> sm_reach m s u"
  by (rotate_tac 1, induction rule: sm_reach.induct) (auto intro: sm_reach.intros)

lemma sm_step_reach: "sm_step m s t \<Longrightarrow> sm_reach m s t"
  by (rule reach_step [OF reach_refl])

lemma sm_walk_reach: "sm_walk m s ts \<Longrightarrow> t \<in> set (s # ts) \<Longrightarrow> sm_reach m s t"
  by (induction ts arbitrary: s) (auto intro: reach_refl sm_reach_trans [OF sm_step_reach])

lemma sm_walk_append [simp]:
  "sm_walk m s (ts @ us) \<longleftrightarrow> sm_walk m s ts \<and> sm_walk m (last (s # ts)) us"
  by (induction ts arbitrary: s) auto

text \<open>A walk that never enters \<open>A\<close> stays inside any set closed under the steps outside \<open>A\<close>.\<close>

lemma sm_walk_avoid:
  assumes "sm_walk m s ts" and "s \<in> S" and "set ts \<inter> A = {}"
    and "\<And>x y. x \<in> S \<Longrightarrow> sm_step m x y \<Longrightarrow> y \<notin> A \<Longrightarrow> y \<in> S"
  shows "set ts \<subseteq> S"
  using assms by (induction ts arbitrary: s) auto

lemma mk_machine_Inr:
  "mk_machine table name (Some states) label = Inr m \<Longrightarrow>
   transitions m = table \<and> states \<subseteq> set (dkeys table)"
  by (auto simp: mk_machine_def Let_def split: if_splits)

subsection \<open>The contract of a covered table\<close>

locale covered_machine =
  fixes m :: "'s machine"
  assumes covered: "dget (transitions m) s \<noteq> None"
begin

lemma never_config_error: "sm_validate m s t \<noteq> Inl (NoEntry u)"
  using covered [of s] by (auto simp: sm_validate_def split: option.splits if_splits)

lemma step_or_invalid:
  "sm_step m s t \<or> (\<exists>T. sm_validate m s t = Inl (InvalidTransition s t T) \<and> t \<notin> T)"
  using covered [of s] by (auto simp: sm_step_def sm_validate_def split: option.splits)

lemma terminal_iff: "sm_is_terminal m s \<longleftrightarrow> (\<forall>t. \<not> sm_step m s t)"
  using covered [of s] by (auto simp: sm_is_terminal_def sm_step_iff split: option.splits)

lemma terminal_absorbing: "sm_reach m s t \<Longrightarrow> sm_is_terminal m s \<Longrightarrow> t = s"
  by (induction rule: sm_reach.induct) (auto simp: terminal_iff)

lemma walk_stops_at_terminal:
  assumes "sm_walk m s (ts @ t # us)" and "sm_is_terminal m t"
  shows "us = []"
  using assms terminal_iff by (cases us) auto

end

end
