(* ===== verification/Task_Model.thy ===== *)
theory Task_Model
  imports State_Machine
begin

text \<open>
  The task domain model: \<^verbatim>\<open>core/enums.py\<close> (the enumerations a task uses),
  \<^verbatim>\<open>core/task_transitions.py\<close> (the lifecycle table) and \<^verbatim>\<open>core/task.py\<close> (the frozen
  \<open>Task\<close> model with its validators and \<open>with_transition\<close>).

  A validator returns the first error it raises; \<open>model_validate\<close> runs the field constraints and
  then the after-validators in the order the class declares them. \<open>datetime.fromisoformat\<close> is
  the argument \<open>isofmt\<close>: the theorems hold whatever set of deadline strings it accepts.
  Metadata values are opaque strings, since no code here looks inside.
\<close>

datatype TaskStatus =
    CREATED | ASSIGNED | IN_PROGRESS | IN_REVIEW | COMPLETED | BLOCKED | FAILED
  | INTERRUPTED | SUSPENDED | CANCELLED | REJECTED | AUTH_REQUIRED

definition VALID_TRANSITIONS :: "(TaskStatus, TaskStatus set) dict" where
  "VALID_TRANSITIONS =
   [(CREATED, {ASSIGNED, REJECTED}),
    (ASSIGNED, {IN_PROGRESS, AUTH_REQUIRED, BLOCKED, CANCELLED, FAILED, INTERRUPTED, SUSPENDED}),
    (IN_PROGRESS, {IN_REVIEW, AUTH_REQUIRED, BLOCKED, CANCELLED, FAILED, INTERRUPTED, SUSPENDED}),
    (IN_REVIEW, {COMPLETED, IN_PROGRESS, BLOCKED, CANCELLED}),
    (AUTH_REQUIRED, {ASSIGNED, CANCELLED}),
    (BLOCKED, {ASSIGNED}),
    (FAILED, {ASSIGNED}),
    (INTERRUPTED, {ASSIGNED}),
    (SUSPENDED, {ASSIGNED}),
    (COMPLETED, {}),
    (CANCELLED, {}),
    (REJECTED, {})]"

definition all_task_statuses :: "TaskStatus set" where
  "all_task_statuses =
    {CREATED, ASSIGNED, IN_PROGRESS, IN_REVIEW, COMPLETED, BLOCKED, FAILED,
     INTERRUPTED, SUSPENDED, CANCELLED, REJECTED, AUTH_REQUIRED}"

definition task_machine :: "TaskStatus machine" where
  "task_machine = \<lparr>transitions = VALID_TRANSITIONS, m_name = ''task_status'',
                   display_label = ''task status''\<rparr>"

definition validate_transition :: "TaskStatus \<Rightarrow> TaskStatus \<Rightarrow> TaskStatus sm_error + unit" where
  "validate_transition current target = sm_validate task_machine current target"

datatype TaskType = DEVELOPMENT | DESIGN | RESEARCH | REVIEW | MEETING | ADMIN
datatype Priority = CRITICAL | HIGH | MEDIUM | LOW
datatype Complexity = SIMPLE | MEDIUM_COMPLEXITY | COMPLEX | EPIC
datatype TaskStructure = SEQUENTIAL | PARALLEL | MIXED
datatype CoordinationTopology = SAS | CENTRALIZED | DECENTRALIZED | CONTEXT_DEPENDENT | AUTO
datatype TaskSource = INTERNAL | CLIENT | SIMULATION

datatype ArtifactType = CODE | TESTS | DOCUMENTATION

record ExpectedArtifact =
  ea_type :: ArtifactType
  ea_path :: string

record AcceptanceCriterion =
  ac_description :: string
  ac_met :: bool

record Task =
  t_id :: "string"
  t_title :: "string"
  t_description :: "string"
  t_type :: "TaskType"
  t_priority :: "Priority"
  t_project :: "string"
  t_created_by :: "string"
  t_assigned_to :: "string option"
  t_reviewers :: "string list"
  t_dependencies :: "string list"
  t_artifacts_expected :: "ExpectedArtifact list"
  t_acceptance_criteria :: "AcceptanceCriterion list"
  t_estimated_complexity :: "Complexity"
  t_budget_limit :: "rat"
  t_deadline :: "string option"
  t_max_retries :: "int"
  t_status :: "TaskStatus"
  t_parent_task_id :: "string option"
  t_delegation_chain :: "string list"
  t_task_structure :: "TaskStructure option"
  t_coordination_topology :: "CoordinationTopology"
  t_source :: "TaskSource option"
  t_middleware_override :: "string list option"
  t_metadata :: "(string, string) dict"

text \<open>
  A value of an untyped \<open>dict[str, object]\<close> payload, as Pydantic sees it after coercion;
  \<open>POther\<close> is a value that no field type accepts.
\<close>

datatype pyval =
    PNone | PStr string | PInt int | PFloat rat | PStrs "string list"
  | PArtifacts "ExpectedArtifact list" | PCriteria "AcceptanceCriterion list" | PType TaskType | PPriority Priority
  | PComplexity Complexity | PStatus TaskStatus | PStructure TaskStructure
  | PTopology CoordinationTopology | PSource TaskSource | PMeta "(string, string) dict" | POther

definition task_model_fields :: "string list" where
  "task_model_fields =
    [''id'', ''title'', ''description'', ''type'',
     ''priority'', ''project'', ''created_by'', ''assigned_to'',
     ''reviewers'', ''dependencies'', ''artifacts_expected'', ''acceptance_criteria'',
     ''estimated_complexity'', ''budget_limit'', ''deadline'', ''max_retries'',
     ''status'', ''parent_task_id'', ''delegation_chain'', ''task_structure'',
     ''coordination_topology'', ''source'', ''middleware_override'', ''metadata'']"

text \<open>
  One key of the payload written over the dumped task; \<open>None\<close> when the value has the wrong type.
  An unknown key is ignored, which is the default of a Pydantic model.
\<close>

definition set_field :: "string \<Rightarrow> pyval \<Rightarrow> Task \<Rightarrow> Task option" where
  "set_field f v t = (
     if f = ''id'' then (case v of PStr x \<Rightarrow> Some (t\<lparr>t_id := x\<rparr>) | _ \<Rightarrow> None) else
     if f = ''title'' then (case v of PStr x \<Rightarrow> Some (t\<lparr>t_title := x\<rparr>) | _ \<Rightarrow> None) else
     if f = ''description'' then (case v of PStr x \<Rightarrow> Some (t\<lparr>t_description := x\<rparr>) | _ \<Rightarrow> None) else
     if f = ''type'' then (case v of PType x \<Rightarrow> Some (t\<lparr>t_type := x\<rparr>) | _ \<Rightarrow> None) else
     if f = ''priority'' then (case v of PPriority x \<Rightarrow> Some (t\<lparr>t_priority := x\<rparr>) | _ \<Rightarrow> None) else
     if f = ''project'' then (case v of PStr x \<Rightarrow> Some (t\<lparr>t_project := x\<rparr>) | _ \<Rightarrow> None) else
     if f = ''created_by'' then (case v of PStr x \<Rightarrow> Some (t\<lparr>t_created_by := x\<rparr>) | _ \<Rightarrow> None) else
     if f = ''assigned_to'' then (case v of PNone \<Rightarrow> Some (t\<lparr>t_assigned_to := None\<rparr>) | PStr x \<Rightarrow> Some (t\<lparr>t_assigned_to := Some x\<rparr>) | _ \<Rightarrow> None) else
     if f = ''reviewers'' then (case v of PStrs x \<Rightarrow> Some (t\<lparr>t_reviewers := x\<rparr>) | _ \<Rightarrow> None) else
     if f = ''dependencies'' then (case v of PStrs x \<Rightarrow> Some (t\<lparr>t_dependencies := x\<rparr>) | _ \<Rightarrow> None) else
     if f = ''artifacts_expected'' then (case v of PArtifacts x \<Rightarrow> Some (t\<lparr>t_artifacts_expected := x\<rparr>) | _ \<Rightarrow> None) else
     if f = ''acceptance_criteria'' then (case v of PCriteria x \<Rightarrow> Some (t\<lparr>t_acceptance_criteria := x\<rparr>) | _ \<Rightarrow> None) else
     if f = ''estimated_complexity'' then (case v of PComplexity x \<Rightarrow> Some (t\<lparr>t_estimated_complexity := x\<rparr>) | _ \<Rightarrow> None) else
     if f = ''budget_limit'' then (case v of PFloat x \<Rightarrow> Some (t\<lparr>t_budget_limit := x\<rparr>) | _ \<Rightarrow> None) else
     if f = ''deadline'' then (case v of PNone \<Rightarrow> Some (t\<lparr>t_deadline := None\<rparr>) | PStr x \<Rightarrow> Some (t\<lparr>t_deadline := Some x\<rparr>) | _ \<Rightarrow> None) else
     if f = ''max_retries'' then (case v of PInt x \<Rightarrow> Some (t\<lparr>t_max_retries := x\<rparr>) | _ \<Rightarrow> None) else
     if f = ''status'' then (case v of PStatus x \<Rightarrow> Some (t\<lparr>t_status := x\<rparr>) | _ \<Rightarrow> None) else
     if f = ''parent_task_id'' then (case v of PNone \<Rightarrow> Some (t\<lparr>t_parent_task_id := None\<rparr>) | PStr x \<Rightarrow> Some (t\<lparr>t_parent_task_id := Some x\<rparr>) | _ \<Rightarrow> None) else
     if f = ''delegation_chain'' then (case v of PStrs x \<Rightarrow> Some (t\<lparr>t_delegation_chain := x\<rparr>) | _ \<Rightarrow> None) else
     if f = ''task_structure'' then (case v of PNone \<Rightarrow> Some (t\<lparr>t_task_structure := None\<rparr>) | PStructure x \<Rightarrow> Some (t\<lparr>t_task_structure := Some x\<rparr>) | _ \<Rightarrow> None) else
     if f = ''coordination_topology'' then (case v of PTopology x \<Rightarrow> Some (t\<lparr>t_coordination_topology := x\<rparr>) | _ \<Rightarrow> None) else
     if f = ''source'' then (case v of PNone \<Rightarrow> Some (t\<lparr>t_source := None\<rparr>) | PSource x \<Rightarrow> Some (t\<lparr>t_source := Some x\<rparr>) | _ \<Rightarrow> None) else
     if f = ''middleware_override'' then (case v of PNone \<Rightarrow> Some (t\<lparr>t_middleware_override := None\<rparr>) | PStrs x \<Rightarrow> Some (t\<lparr>t_middleware_override := Some x\<rparr>) | _ \<Rightarrow> None) else
     if f = ''metadata'' then (case v of PMeta x \<Rightarrow> Some (t\<lparr>t_metadata := x\<rparr>) | _ \<Rightarrow> None) else
     Some t)"

fun apply_overrides :: "(string, pyval) dict \<Rightarrow> Task \<Rightarrow> Task option" where
  "apply_overrides [] t = Some t"
| "apply_overrides ((f, v) # ovs) t =
     (case set_field f v t of None \<Rightarrow> None | Some t' \<Rightarrow> apply_overrides ovs t')"

subsection \<open>Validators\<close>

datatype task_error =
    FieldConstraint
  | DeadlineBlank | DeadlineFormat
  | SelfDependency | DuplicateDependencies | DuplicateReviewers
  | OwnParent | DuplicateChain | AssigneeInChain
  | CreatedWithAssignee | AssigneeRequired TaskStatus
  | StatusOverride
  | BadTransition "TaskStatus sm_error"

text \<open>The declared field constraints: \<open>NotBlankStr\<close>, \<open>ge=0\<close>.\<close>

definition field_constraints :: "Task \<Rightarrow> bool" where
  "field_constraints t \<longleftrightarrow>
     not_blank (t_id t) \<and> not_blank (t_title t) \<and> not_blank (t_description t) \<and>
     not_blank (t_project t) \<and> not_blank (t_created_by t) \<and> opt_not_blank (t_assigned_to t) \<and>
     list_all not_blank (t_reviewers t) \<and> list_all not_blank (t_dependencies t) \<and>
     list_all (\<lambda>a. not_blank (ea_path a)) (t_artifacts_expected t) \<and>
     list_all (\<lambda>c. not_blank (ac_description c)) (t_acceptance_criteria t) \<and>
     0 \<le> t_budget_limit t \<and> 0 \<le> t_max_retries t \<and> opt_not_blank (t_parent_task_id t) \<and>
     list_all not_blank (t_delegation_chain t) \<and>
     (case t_middleware_override t of None \<Rightarrow> True | Some ms \<Rightarrow> list_all not_blank ms)"

definition validate_deadline_format :: "(string \<Rightarrow> bool) \<Rightarrow> Task \<Rightarrow> (bool \<times> task_error) list" where
  "validate_deadline_format isofmt t =
     (case t_deadline t of
        None \<Rightarrow> []
      | Some d \<Rightarrow> [(\<not> not_blank d, DeadlineBlank), (\<not> isofmt d, DeadlineFormat)])"

definition validate_collections :: "Task \<Rightarrow> (bool \<times> task_error) list" where
  "validate_collections t =
     [(t_id t \<in> set (t_dependencies t), SelfDependency),
      (length (t_dependencies t) \<noteq> card (set (t_dependencies t)), DuplicateDependencies),
      (length (t_reviewers t) \<noteq> card (set (t_reviewers t)), DuplicateReviewers)]"

definition validate_delegation_fields :: "Task \<Rightarrow> (bool \<times> task_error) list" where
  "validate_delegation_fields t =
     [(t_parent_task_id t \<noteq> None \<and> t_parent_task_id t = Some (t_id t), OwnParent),
      (length (t_delegation_chain t) \<noteq> card (set (t_delegation_chain t)), DuplicateChain),
      (case t_assigned_to t of None \<Rightarrow> False | Some a \<Rightarrow> a \<in> set (t_delegation_chain t),
       AssigneeInChain)]"

definition requires_assignee :: "TaskStatus set" where
  "requires_assignee = {ASSIGNED, IN_PROGRESS, IN_REVIEW, COMPLETED, AUTH_REQUIRED}"

definition validate_assignment_consistency :: "Task \<Rightarrow> (bool \<times> task_error) list" where
  "validate_assignment_consistency t =
     [(t_status t = CREATED \<and> t_assigned_to t \<noteq> None, CreatedWithAssignee),
      (t_status t \<in> requires_assignee \<and> t_assigned_to t = None, AssigneeRequired (t_status t))]"

definition model_validate :: "(string \<Rightarrow> bool) \<Rightarrow> Task \<Rightarrow> task_error + Task" where
  "model_validate isofmt t = guard_with t
     ((\<not> field_constraints t, FieldConstraint)
      # validate_deadline_format isofmt t @ validate_collections t
        @ validate_delegation_fields t @ validate_assignment_consistency t)"

definition with_transition ::
  "(string \<Rightarrow> bool) \<Rightarrow> Task \<Rightarrow> TaskStatus \<Rightarrow> (string, pyval) dict \<Rightarrow> task_error + Task" where
  "with_transition isofmt t target overrides =
     (if ''status'' \<in> set (dkeys overrides) then Inl StatusOverride
      else case validate_transition (t_status t) target of
             Inl e \<Rightarrow> Inl (BadTransition e)
           | Inr _ \<Rightarrow>
               (case apply_overrides overrides t of
                  None \<Rightarrow> Inl FieldConstraint
                | Some payload \<Rightarrow> model_validate isofmt (payload\<lparr>t_status := target\<rparr>)))"

text \<open>The declarative meaning of a valid task.\<close>

definition valid_task :: "(string \<Rightarrow> bool) \<Rightarrow> Task \<Rightarrow> bool" where
  "valid_task isofmt t \<longleftrightarrow>
     field_constraints t \<and>
     (\<forall>d. t_deadline t = Some d \<longrightarrow> not_blank d \<and> isofmt d) \<and>
     t_id t \<notin> set (t_dependencies t) \<and> distinct (t_dependencies t) \<and> distinct (t_reviewers t) \<and>
     t_parent_task_id t \<noteq> Some (t_id t) \<and> distinct (t_delegation_chain t) \<and>
     (\<forall>a. t_assigned_to t = Some a \<longrightarrow> a \<notin> set (t_delegation_chain t)) \<and>
     (t_status t = CREATED \<longrightarrow> t_assigned_to t = None) \<and>
     (t_status t \<in> requires_assignee \<longrightarrow> t_assigned_to t \<noteq> None)"

subsection \<open>The lifecycle table\<close>

lemma TaskStatus_cases_simps [simp]: "s \<in> all_task_statuses"
  by (cases s) (simp_all add: all_task_statuses_def)

lemma task_machine_constructed:
  "mk_machine VALID_TRANSITIONS ''task_status'' (Some all_task_statuses) (Some ''task status'')
     = Inr task_machine"
  by (simp add: mk_machine_def task_machine_def all_task_statuses_def VALID_TRANSITIONS_def)

interpretation task: covered_machine task_machine
proof
  fix s show "dget (transitions task_machine) s \<noteq> None"
    by (cases s) (simp_all add: task_machine_def VALID_TRANSITIONS_def)
qed

lemma task_step_simps:
  "sm_step task_machine CREATED t \<longleftrightarrow> t \<in> {ASSIGNED, REJECTED}"
  "sm_step task_machine ASSIGNED t \<longleftrightarrow>
     t \<in> {IN_PROGRESS, AUTH_REQUIRED, BLOCKED, CANCELLED, FAILED, INTERRUPTED, SUSPENDED}"
  "sm_step task_machine IN_PROGRESS t \<longleftrightarrow>
     t \<in> {IN_REVIEW, AUTH_REQUIRED, BLOCKED, CANCELLED, FAILED, INTERRUPTED, SUSPENDED}"
  "sm_step task_machine IN_REVIEW t \<longleftrightarrow> t \<in> {COMPLETED, IN_PROGRESS, BLOCKED, CANCELLED}"
  "sm_step task_machine AUTH_REQUIRED t \<longleftrightarrow> t \<in> {ASSIGNED, CANCELLED}"
  "sm_step task_machine BLOCKED t \<longleftrightarrow> t = ASSIGNED"
  "sm_step task_machine FAILED t \<longleftrightarrow> t = ASSIGNED"
  "sm_step task_machine INTERRUPTED t \<longleftrightarrow> t = ASSIGNED"
  "sm_step task_machine SUSPENDED t \<longleftrightarrow> t = ASSIGNED"
  "\<not> sm_step task_machine COMPLETED t"
  "\<not> sm_step task_machine CANCELLED t"
  "\<not> sm_step task_machine REJECTED t"
  by (simp_all add: sm_step_iff task_machine_def VALID_TRANSITIONS_def)

lemma task_step_into:
  "sm_step task_machine s COMPLETED \<longleftrightarrow> s = IN_REVIEW"
  "sm_step task_machine s IN_REVIEW \<longleftrightarrow> s = IN_PROGRESS"
  "sm_step task_machine s CREATED \<longleftrightarrow> False"
  "sm_step task_machine s CANCELLED \<longleftrightarrow> s \<in> {ASSIGNED, IN_PROGRESS, IN_REVIEW, AUTH_REQUIRED}"
  by (cases s; simp add: task_step_simps)+

lemma task_terminal_iff: "sm_is_terminal task_machine s \<longleftrightarrow> s \<in> {COMPLETED, CANCELLED, REJECTED}"
  by (cases s) (simp_all add: sm_is_terminal_def task_machine_def VALID_TRANSITIONS_def)

lemma task_reach_assigned: "s \<notin> {COMPLETED, CANCELLED, REJECTED} \<Longrightarrow> sm_reach task_machine s ASSIGNED"
proof (cases s)
  case IN_PROGRESS
  have "sm_reach task_machine IN_PROGRESS BLOCKED" "sm_step task_machine BLOCKED ASSIGNED"
    by (rule sm_step_reach, simp_all add: task_step_simps)
  with IN_PROGRESS show ?thesis by (auto intro: reach_step)
next
  case IN_REVIEW
  have "sm_reach task_machine IN_REVIEW BLOCKED" "sm_step task_machine BLOCKED ASSIGNED"
    by (rule sm_step_reach, simp_all add: task_step_simps)
  with IN_REVIEW show ?thesis by (auto intro: reach_step)
qed (auto intro!: sm_step_reach reach_refl simp: task_step_simps)

lemma task_assigned_completes: "sm_reach task_machine ASSIGNED COMPLETED"
proof -
  have "sm_walk task_machine ASSIGNED [IN_PROGRESS, IN_REVIEW, COMPLETED]"
    by (simp add: task_step_simps)
  then show ?thesis by (rule sm_walk_reach) simp
qed

subsection \<open>Validators and transitions\<close>

lemma length_eq_card_iff: "length xs = card (set xs) \<longleftrightarrow> distinct xs"
  by (metis card_distinct distinct_card)

lemma model_validate_Inr: "model_validate isofmt t = Inr t' \<longleftrightarrow> t' = t \<and> valid_task isofmt t"
  unfolding model_validate_def guard_with_Inr valid_task_def
  by (auto simp: validate_deadline_format_def validate_collections_def
      validate_delegation_fields_def validate_assignment_consistency_def length_eq_card_iff
      split: option.splits)

lemma model_validate_valid: "valid_task isofmt t \<Longrightarrow> model_validate isofmt t = Inr t"
  by (simp add: model_validate_Inr)

lemma model_validate_invalid: "\<not> valid_task isofmt t \<Longrightarrow> \<exists>e. model_validate isofmt t = Inl e"
  by (cases "model_validate isofmt t") (auto simp: model_validate_Inr)

lemma apply_overrides_frame:
  assumes "\<And>f v t t'. set_field f v t = Some t' \<Longrightarrow> f \<noteq> g \<Longrightarrow> sel t' = sel t"
    and "apply_overrides ovs t = Some t'" and "g \<notin> set (dkeys ovs)"
  shows "sel t' = sel t"
  using assms(2,3) by (induction ovs t rule: apply_overrides.induct)
    (auto split: option.splits dest: assms(1))

lemma set_field_id: "set_field f v t = Some t' \<Longrightarrow> f \<noteq> ''id'' \<Longrightarrow> t_id t' = t_id t"
  by (auto simp: set_field_def split: if_splits pyval.splits)

lemma set_field_status: "set_field f v t = Some t' \<Longrightarrow> f \<noteq> ''status'' \<Longrightarrow> t_status t' = t_status t"
  by (auto simp: set_field_def split: if_splits pyval.splits)

lemma set_field_created_by:
  "set_field f v t = Some t' \<Longrightarrow> f \<noteq> ''created_by'' \<Longrightarrow> t_created_by t' = t_created_by t"
  by (auto simp: set_field_def split: if_splits pyval.splits)

lemma apply_overrides_id:
  "apply_overrides ovs t = Some t' \<Longrightarrow> ''id'' \<notin> set (dkeys ovs) \<Longrightarrow> t_id t' = t_id t"
  by (rule apply_overrides_frame [where g = "''id''"]) (rule set_field_id)

lemma apply_overrides_status:
  "apply_overrides ovs t = Some t' \<Longrightarrow> ''status'' \<notin> set (dkeys ovs) \<Longrightarrow> t_status t' = t_status t"
  by (rule apply_overrides_frame [where g = "''status''"]) (rule set_field_status)

lemma apply_overrides_created_by:
  "apply_overrides ovs t = Some t' \<Longrightarrow> ''created_by'' \<notin> set (dkeys ovs) \<Longrightarrow> t_created_by t' = t_created_by t"
  by (rule apply_overrides_frame [where g = "''created_by''"]) (rule set_field_created_by)

lemma with_transition_Inr:
  assumes "with_transition isofmt t target ovs = Inr t'"
  shows "sm_step task_machine (t_status t) target" "t_status t' = target" "valid_task isofmt t'"
    "\<exists>p. apply_overrides ovs t = Some p \<and> t' = p\<lparr>t_status := target\<rparr>"
    "''status'' \<notin> set (dkeys ovs)"
  using assms
  by (auto simp: with_transition_def validate_transition_def sm_step_def model_validate_Inr
      split: if_splits sum.splits option.splits)

lemma with_transition_no_overrides:
  "with_transition isofmt t target [] = Inr t' \<longleftrightarrow>
     sm_step task_machine (t_status t) target \<and> t' = t\<lparr>t_status := target\<rparr> \<and> valid_task isofmt t'"
  by (auto simp: with_transition_def validate_transition_def sm_step_def model_validate_Inr
      split: sum.splits)

lemma valid_task_set_status:
  "valid_task isofmt t \<Longrightarrow> sm_step task_machine (t_status t) s \<Longrightarrow>
   valid_task isofmt (t\<lparr>t_status := s\<rparr>) \<longleftrightarrow> (s \<in> requires_assignee \<longrightarrow> t_assigned_to t \<noteq> None)"
  by (cases s) (auto simp: valid_task_def field_constraints_def requires_assignee_def task_step_into)

text \<open>Only the assignment check looks at the status.\<close>

lemma validators_ignore_status [simp]:
  "field_constraints (t\<lparr>t_status := s\<rparr>) = field_constraints t"
  "validate_deadline_format isofmt (t\<lparr>t_status := s\<rparr>) = validate_deadline_format isofmt t"
  "validate_collections (t\<lparr>t_status := s\<rparr>) = validate_collections t"
  "validate_delegation_fields (t\<lparr>t_status := s\<rparr>) = validate_delegation_fields t"
  by (simp_all add: field_constraints_def validate_deadline_format_def validate_collections_def
      validate_delegation_fields_def split: option.split)

lemma model_validate_needs_assignee:
  assumes "valid_task isofmt t" and "s \<in> requires_assignee" and "t_assigned_to t = None"
  shows "model_validate isofmt (t\<lparr>t_status := s\<rparr>) = Inl (AssigneeRequired s)"
proof -
  have "model_validate isofmt t = Inr t" using assms(1) by (simp add: model_validate_Inr)
  then have pre: "field_constraints t" "first_error (validate_deadline_format isofmt t) = None"
    "first_error (validate_collections t) = None" "first_error (validate_delegation_fields t) = None"
    by (simp_all add: model_validate_def guard_with_Inr first_error_None)
  have "first_error (validate_assignment_consistency (t\<lparr>t_status := s\<rparr>)) = Some (AssigneeRequired s)"
    using assms(2,3) by (simp add: validate_assignment_consistency_def)
  with pre show ?thesis
    by (simp add: model_validate_def guard_with_def)
qed

text \<open>A concrete unassigned task, used by the witnesses.\<close>

definition sample_task :: Task where
  "sample_task =
     \<lparr>t_id = ''task-1'', t_title = ''T'', t_description = ''D'', t_type = DEVELOPMENT,
      t_priority = Priority.MEDIUM, t_project = ''P'', t_created_by = ''ceo'', t_assigned_to = None,
      t_reviewers = [], t_dependencies = [''task-0''], t_artifacts_expected = [],
      t_acceptance_criteria = [], t_estimated_complexity = SIMPLE, t_budget_limit = 0,
      t_deadline = None, t_max_retries = 1, t_status = CREATED, t_parent_task_id = None,
      t_delegation_chain = [], t_task_structure = None, t_coordination_topology = AUTO,
      t_source = None, t_middleware_override = None, t_metadata = []\<rparr>"

lemma sample_task_valid: "valid_task isofmt sample_task"
  by (simp add: valid_task_def field_constraints_def sample_task_def not_blank_def py_isspace_def
      requires_assignee_def)

subsection \<open>Properties\<close>

text \<open>
  C5: a task that starts in CREATED is completed only through the full lifecycle: any sequence of
  accepted transitions that ends in COMPLETED ends with IN_PROGRESS, IN_REVIEW, COMPLETED, and the
  task was ASSIGNED before.
\<close>

theorem completed_only_after_review:
  assumes "sm_walk task_machine CREATED ts" and "last (CREATED # ts) = COMPLETED"
  shows "\<exists>us. ts = us @ [IN_PROGRESS, IN_REVIEW, COMPLETED] \<and> ASSIGNED \<in> set us"
proof -
  obtain us1 where 1: "ts = us1 @ [COMPLETED]"
    using assms(2) by (cases ts rule: rev_cases) auto
  with assms(1) have "last (CREATED # us1) = IN_REVIEW" by (simp add: task_step_into del: last.simps)
  then obtain us2 where 2: "us1 = us2 @ [IN_REVIEW]"
    by (cases us1 rule: rev_cases) auto
  with 1 assms(1) have "last (CREATED # us2) = IN_PROGRESS" by (simp add: task_step_into del: last.simps)
  then obtain us3 where 3: "us2 = us3 @ [IN_PROGRESS]"
    by (cases us2 rule: rev_cases) auto
  with 1 2 assms(1) have w: "sm_walk task_machine CREATED (us3 @ [IN_PROGRESS])" by simp
  have "ASSIGNED \<in> set us3"
  proof (rule ccontr)
    assume "ASSIGNED \<notin> set us3"
    with w have "set (us3 @ [IN_PROGRESS]) \<subseteq> {CREATED, REJECTED}"
      by (intro sm_walk_avoid [where A = "{ASSIGNED}"]) (auto simp: task_step_simps)
    then show False by simp
  qed
  with 1 2 3 show ?thesis by simp
qed

theorem completed_only_after_review_witness:
  "\<exists>us. [ASSIGNED, BLOCKED, ASSIGNED, IN_PROGRESS, IN_REVIEW, COMPLETED]
         = us @ [IN_PROGRESS, IN_REVIEW, COMPLETED] \<and> ASSIGNED \<in> set us"
  by (rule completed_only_after_review) (simp_all add: task_step_simps)

text \<open>
  The lifecycle has no dead ends: COMPLETED is reachable from every status except the two
  terminal failure statuses CANCELLED and REJECTED, and no terminal status can be left.
\<close>

theorem lifecycle_no_dead_ends:
  "(sm_reach task_machine s COMPLETED \<longleftrightarrow> s \<noteq> CANCELLED \<and> s \<noteq> REJECTED) \<and>
   (sm_is_terminal task_machine s \<longleftrightarrow> {t. sm_reach task_machine s t} = {s})"
proof (cases "s \<in> {COMPLETED, CANCELLED, REJECTED}")
  case True
  then have "sm_is_terminal task_machine s" by (simp add: task_terminal_iff)
  then have "sm_reach task_machine s t \<longleftrightarrow> t = s" for t
    using task.terminal_absorbing by (auto intro: reach_refl)
  with True show ?thesis by (auto simp: task_terminal_iff)
next
  case False
  then have "sm_reach task_machine s COMPLETED"
    by (rule sm_reach_trans [OF task_reach_assigned task_assigned_completes])
  with False show ?thesis by (auto simp: task_terminal_iff)
qed

text \<open>
  \<open>Task.with_transition\<close> without overrides on a valid task: an edge missing from the table is
  reported as such, a target that needs an assignee is refused when there is none, and otherwise
  the result is the same task with the new status; these are all the outcomes.
\<close>

theorem with_transition_outcomes:
  assumes "valid_task isofmt t"
  shows "with_transition isofmt t s [] =
     (if \<not> sm_step task_machine (t_status t) s
      then Inl (BadTransition (InvalidTransition (t_status t) s
                  (the (sm_allowed task_machine (t_status t)))))
      else if s \<in> requires_assignee \<and> t_assigned_to t = None then Inl (AssigneeRequired s)
      else Inr (t\<lparr>t_status := s\<rparr>))"
proof (cases "sm_step task_machine (t_status t) s")
  case False
  then show ?thesis
    using task.covered [of "t_status t"]
    by (auto simp: with_transition_def validate_transition_def sm_validate_def sm_allowed_def
        sm_step_iff split: option.splits)
next
  case True
  then have ok: "validate_transition (t_status t) s = Inr ()"
    by (simp add: sm_step_def validate_transition_def)
  show ?thesis
  proof (cases "s \<in> requires_assignee \<and> t_assigned_to t = None")
    case False
    with True assms have "valid_task isofmt (t\<lparr>t_status := s\<rparr>)"
      by (auto simp: valid_task_set_status)
    with True ok False show ?thesis
      by (auto simp: with_transition_def model_validate_Inr)
  next
    case bad: True
    with True ok model_validate_needs_assignee [OF assms] show ?thesis
      by (simp add: with_transition_def)
  qed
qed

theorem with_transition_outcomes_witness:
  "with_transition (\<lambda>_. True) sample_task REJECTED [] = Inr (sample_task\<lparr>t_status := REJECTED\<rparr>) \<and>
   with_transition (\<lambda>_. True) sample_task ASSIGNED [] = Inl (AssigneeRequired ASSIGNED)"
  using with_transition_outcomes [OF sample_task_valid, of "\<lambda>_. True" REJECTED]
    with_transition_outcomes [OF sample_task_valid, of "\<lambda>_. True" ASSIGNED]
  by (simp add: sample_task_def task_step_simps requires_assignee_def)

text \<open>
  C4: whatever overrides are passed, a task returned by \<open>Task.with_transition\<close> is valid, has the
  target status, came over an edge of the lifecycle table, and keeps its id and its creator
  unless those fields are overridden.
\<close>

theorem with_transition_sound:
  assumes "with_transition isofmt t s ovs = Inr t'"
  shows "valid_task isofmt t' \<and> t_status t' = s \<and> sm_step task_machine (t_status t) s \<and>
     (''id'' \<notin> set (dkeys ovs) \<longrightarrow> t_id t' = t_id t) \<and>
     (''created_by'' \<notin> set (dkeys ovs) \<longrightarrow> t_created_by t' = t_created_by t)"
proof -
  obtain p where p: "apply_overrides ovs t = Some p" "t' = p\<lparr>t_status := s\<rparr>"
    using with_transition_Inr(4) [OF assms] by blast
  show ?thesis
    using with_transition_Inr(1-3) [OF assms] p apply_overrides_id [OF p(1)]
      apply_overrides_created_by [OF p(1)] by auto
qed

theorem with_transition_sound_witness:
  "with_transition (\<lambda>_. True) sample_task ASSIGNED [(''assigned_to'', PStr ''bob'')] =
     Inr (sample_task\<lparr>t_status := ASSIGNED, t_assigned_to := Some ''bob''\<rparr>) \<and>
   valid_task (\<lambda>_. True) (sample_task\<lparr>t_status := ASSIGNED, t_assigned_to := Some ''bob''\<rparr>)"
proof -
  let ?t' = "sample_task\<lparr>t_status := ASSIGNED, t_assigned_to := Some ''bob''\<rparr>"
  have "with_transition (\<lambda>_. True) sample_task ASSIGNED [(''assigned_to'', PStr ''bob'')] = Inr ?t'"
    by (simp add: with_transition_def validate_transition_def sm_validate_def task_machine_def
        VALID_TRANSITIONS_def sample_task_def set_field_def model_validate_Inr valid_task_def
        field_constraints_def not_blank_def py_isspace_def requires_assignee_def)
  with with_transition_sound [OF this] show ?thesis by simp
qed

end
