(* ===== verification/Task_Repo.thy ===== *)
theory Task_Repo
  imports Task_Model
begin

text \<open>
  The SQLite task repository, \<^verbatim>\<open>SQLiteTaskRepository\<close> of
  \<^verbatim>\<open>persistence/sqlite/repositories.py\<close>. A table is a dictionary from the primary key to a row
  with the twenty-one columns of \<^verbatim>\<open>schema.sql\<close>; \<open>task_to_row\<close> is what \<open>save\<close> binds to the
  statement and \<open>row_to_task\<close> what \<open>_row_to_task\<close> rebuilds. The JSON text of a list column is
  represented by the list itself and the text of an enum column by the enum value. A database error is
  an input: with \<open>fault\<close> set the statement raises \<open>QueryError\<close> and changes nothing. An integer that
  does not fit the 64 bits of a SQLite \<open>INTEGER\<close> makes the driver raise while it binds the row, so such
  a save is one of the faults and never one that succeeds.

  The locale \<open>task_store\<close> is what the task engine relies on; the repository is its instance.
\<close>

datatype repo_error = QueryError

record task_row =
  r_id :: "string"
  r_title :: "string"
  r_description :: "string"
  r_type :: "TaskType"
  r_priority :: "Priority"
  r_project :: "string"
  r_created_by :: "string"
  r_assigned_to :: "string option"
  r_status :: "TaskStatus"
  r_estimated_complexity :: "Complexity"
  r_budget_limit :: "rat"
  r_deadline :: "string option"
  r_max_retries :: "int"
  r_parent_task_id :: "string option"
  r_task_structure :: "TaskStructure option"
  r_coordination_topology :: "CoordinationTopology"
  r_reviewers :: "string list"
  r_dependencies :: "string list"
  r_artifacts_expected :: "ExpectedArtifact list"
  r_acceptance_criteria :: "AcceptanceCriterion list"
  r_delegation_chain :: "string list"

type_synonym task_table = "(string, task_row) dict"

definition task_to_row :: "Task \<Rightarrow> task_row" where
  "task_to_row t =
     \<lparr>r_id = t_id t, r_title = t_title t, r_description = t_description t,
      r_type = t_type t, r_priority = t_priority t, r_project = t_project t,
      r_created_by = t_created_by t, r_assigned_to = t_assigned_to t, r_status = t_status t,
      r_estimated_complexity = t_estimated_complexity t, r_budget_limit = t_budget_limit t, r_deadline = t_deadline t,
      r_max_retries = t_max_retries t, r_parent_task_id = t_parent_task_id t, r_task_structure = t_task_structure t,
      r_coordination_topology = t_coordination_topology t, r_reviewers = t_reviewers t, r_dependencies = t_dependencies t,
      r_artifacts_expected = t_artifacts_expected t, r_acceptance_criteria = t_acceptance_criteria t, r_delegation_chain = t_delegation_chain t\<rparr>"

definition row_fields :: "task_row \<Rightarrow> Task" where
  "row_fields r =
     \<lparr>t_id = r_id r, t_title = r_title r, t_description = r_description r,
      t_type = r_type r, t_priority = r_priority r, t_project = r_project r,
      t_created_by = r_created_by r, t_assigned_to = r_assigned_to r, t_reviewers = r_reviewers r,
      t_dependencies = r_dependencies r, t_artifacts_expected = r_artifacts_expected r, t_acceptance_criteria = r_acceptance_criteria r,
      t_estimated_complexity = r_estimated_complexity r, t_budget_limit = r_budget_limit r, t_deadline = r_deadline r,
      t_max_retries = r_max_retries r, t_status = r_status r, t_parent_task_id = r_parent_task_id r,
      t_delegation_chain = r_delegation_chain r, t_task_structure = r_task_structure r, t_coordination_topology = r_coordination_topology r,
      t_source = None, t_middleware_override = None, t_metadata = []\<rparr>"

definition row_to_task :: "(string \<Rightarrow> bool) \<Rightarrow> task_row \<Rightarrow> repo_error + Task" where
  "row_to_task isofmt r =
     (case model_validate isofmt (row_fields r) of Inl _ \<Rightarrow> Inl QueryError | Inr t \<Rightarrow> Inr t)"

definition repo_save :: "bool \<Rightarrow> Task \<Rightarrow> task_table \<Rightarrow> repo_error + task_table" where
  "repo_save fault t tbl =
     (if fault then Inl QueryError else Inr (dput (t_id t) (task_to_row t) tbl))"

definition repo_get ::
  "bool \<Rightarrow> (string \<Rightarrow> bool) \<Rightarrow> string \<Rightarrow> task_table \<Rightarrow> repo_error + Task option" where
  "repo_get fault isofmt task_id tbl =
     (if fault then Inl QueryError
      else case dget tbl task_id of
             None \<Rightarrow> Inr None
           | Some r \<Rightarrow> (case row_to_task isofmt r of Inl e \<Rightarrow> Inl e | Inr t \<Rightarrow> Inr (Some t)))"

definition repo_delete :: "bool \<Rightarrow> string \<Rightarrow> task_table \<Rightarrow> repo_error + (bool \<times> task_table)" where
  "repo_delete fault task_id tbl =
     (if fault then Inl QueryError else Inr (dget tbl task_id \<noteq> None, dpop task_id tbl))"

text \<open>The \<open>WHERE\<close> clauses of \<open>list_tasks\<close> and \<open>count_tasks\<close>.\<close>

definition row_matches ::
  "TaskStatus option \<Rightarrow> string option \<Rightarrow> string option \<Rightarrow> task_row \<Rightarrow> bool" where
  "row_matches status assigned_to project r \<longleftrightarrow>
     (case status of None \<Rightarrow> True | Some s \<Rightarrow> r_status r = s) \<and>
     (case assigned_to of None \<Rightarrow> True | Some a \<Rightarrow> r_assigned_to r = Some a) \<and>
     (case project of None \<Rightarrow> True | Some p \<Rightarrow> r_project r = p)"

text \<open>
  \<open>LIMIT\<close> and \<open>OFFSET\<close>: a negative limit is no limit, a negative offset is zero.
\<close>

definition sql_limit :: "int option \<Rightarrow> int \<Rightarrow> 'a list \<Rightarrow> 'a list" where
  "sql_limit limit offset xs =
     (let ys = (if offset \<noteq> 0 then drop (nat offset) xs else xs)
      in case limit of None \<Rightarrow> ys | Some n \<Rightarrow> if n < 0 then ys else take (nat n) ys)"

definition rows_to_tasks :: "(string \<Rightarrow> bool) \<Rightarrow> task_row list \<Rightarrow> repo_error + Task list" where
  "rows_to_tasks isofmt rs =
     foldr (\<lambda>r acc. rbind (row_to_task isofmt r) (\<lambda>t. rbind acc (\<lambda>ts. Inr (t # ts)))) rs (Inr [])"

definition repo_list ::
  "bool \<Rightarrow> (string \<Rightarrow> bool) \<Rightarrow> TaskStatus option \<Rightarrow> string option \<Rightarrow> string option \<Rightarrow>
   int option \<Rightarrow> int \<Rightarrow> task_table \<Rightarrow> repo_error + Task list" where
  "repo_list fault isofmt status assigned_to project limit offset tbl =
     (if fault then Inl QueryError
      else rows_to_tasks isofmt
             (sql_limit limit offset
               (sort_key r_id (filter (row_matches status assigned_to project) (List.map snd tbl)))))"

definition repo_count ::
  "bool \<Rightarrow> TaskStatus option \<Rightarrow> string option \<Rightarrow> string option \<Rightarrow> task_table \<Rightarrow> repo_error + int" where
  "repo_count fault status assigned_to project tbl =
     (if fault then Inl QueryError
      else Inr (int (length (filter (row_matches status assigned_to project) (List.map snd tbl)))))"

text \<open>
  What survives a round trip through the table: the columns do not include \<open>source\<close>,
  \<open>middleware_override\<close> and \<open>metadata\<close>.
\<close>

definition stored_task :: "Task \<Rightarrow> Task" where
  "stored_task t = t\<lparr>t_source := None, t_middleware_override := None, t_metadata := []\<rparr>"

definition valid_table :: "(string \<Rightarrow> bool) \<Rightarrow> task_table \<Rightarrow> bool" where
  "valid_table isofmt tbl \<longleftrightarrow>
     distinct (dkeys tbl) \<and> list_all (\<lambda>(k, r). r_id r = k \<and> valid_task isofmt (row_fields r)) tbl"

subsection \<open>Lemmas\<close>

lemma row_fields_task_to_row: "row_fields (task_to_row t) = stored_task t"
  by (simp add: row_fields_def task_to_row_def stored_task_def)

lemma valid_stored_task: "valid_task isofmt t \<Longrightarrow> valid_task isofmt (stored_task t)"
  by (simp add: valid_task_def field_constraints_def stored_task_def)

lemma stored_task_fields [simp]:
  "t_id (stored_task t) = t_id t" "t_status (stored_task t) = t_status t"
  "t_created_by (stored_task t) = t_created_by t" "t_assigned_to (stored_task t) = t_assigned_to t"
  by (simp_all add: stored_task_def)

lemma r_id_task_to_row [simp]: "r_id (task_to_row t) = t_id t"
  by (simp add: task_to_row_def)

lemma t_id_row_fields [simp]: "t_id (row_fields r) = r_id r"
  by (simp add: row_fields_def)

lemma stored_row_fields [simp]: "stored_task (row_fields r) = row_fields r"
  by (simp add: row_fields_def stored_task_def)

lemma row_to_task_Inr: "row_to_task isofmt r = Inr t \<longleftrightarrow> t = row_fields r \<and> valid_task isofmt t"
  by (auto simp: row_to_task_def model_validate_Inr model_validate_valid split: sum.splits)

lemma row_to_task_saved:
  "valid_task isofmt t \<Longrightarrow> row_to_task isofmt (task_to_row t) = Inr (stored_task t)"
  by (simp add: row_to_task_Inr row_fields_task_to_row valid_stored_task)

lemma valid_table_get:
  assumes "valid_table isofmt tbl" and "dget tbl k = Some r"
  shows "r_id r = k" "valid_task isofmt (row_fields r)"
  using assms dget_Some_in [OF assms(2)] by (auto simp: valid_table_def list_all_iff)

lemma in_dput: "(k, v) \<in> set (dput k' v' d) \<Longrightarrow> k = k' \<and> v = v' \<or> (k, v) \<in> set d"
  by (induction d) (auto split: if_splits)

lemma in_dpop: "(k, v) \<in> set (dpop k' d) \<Longrightarrow> k \<noteq> k' \<and> (k, v) \<in> set d"
  by (auto simp: AList.delete_eq)

lemma valid_table_save:
  "valid_table isofmt tbl \<Longrightarrow> valid_task isofmt t \<Longrightarrow>
   valid_table isofmt (dput (t_id t) (task_to_row t) tbl)"
  by (auto simp: valid_table_def list_all_iff row_fields_task_to_row valid_stored_task dest!: in_dput)

lemma valid_table_delete: "valid_table isofmt tbl \<Longrightarrow> valid_table isofmt (dpop k tbl)"
  by (auto simp: valid_table_def list_all_iff dest!: in_dpop)

lemma repo_get_valid:
  assumes "valid_table isofmt tbl" and "\<not> fault"
  shows "repo_get fault isofmt k tbl = Inr (map_option row_fields (dget tbl k))"
proof (cases "dget tbl k")
  case None
  with assms(2) show ?thesis by (simp add: repo_get_def)
next
  case (Some r)
  then have "row_to_task isofmt r = Inr (row_fields r)"
    using valid_table_get(2) [OF assms(1)] by (simp add: row_to_task_Inr)
  with Some assms(2) show ?thesis by (simp add: repo_get_def)
qed

lemma rows_to_tasks_valid:
  "(\<And>r. r \<in> set rs \<Longrightarrow> valid_task isofmt (row_fields r)) \<Longrightarrow>
   rows_to_tasks isofmt rs = Inr (List.map row_fields rs)"
proof (induction rs)
  case Nil
  show ?case by (simp add: rows_to_tasks_def)
next
  case (Cons r rs)
  have "row_to_task isofmt r = Inr (row_fields r)"
    using Cons.prems by (simp add: row_to_task_Inr)
  moreover have "rows_to_tasks isofmt rs = Inr (List.map row_fields rs)"
    using Cons by simp
  ultimately show ?case by (simp add: rows_to_tasks_def)
qed

subsection \<open>The contract the engine relies on\<close>

locale task_store =
  fixes get :: "'s \<Rightarrow> string \<Rightarrow> Task option"
    and save :: "Task \<Rightarrow> 's \<Rightarrow> 's"
    and delete :: "string \<Rightarrow> 's \<Rightarrow> 's"
    and invar :: "'s \<Rightarrow> bool"
    and ok :: "Task \<Rightarrow> bool"
    and stored :: "Task \<Rightarrow> Task"
  assumes get_save: "invar s \<Longrightarrow> ok t \<Longrightarrow>
      get (save t s) k = (if k = t_id t then Some (stored t) else get s k)"
    and get_delete: "invar s \<Longrightarrow> get (delete j s) k = (if k = j then None else get s k)"
    and invar_save: "invar s \<Longrightarrow> ok t \<Longrightarrow> invar (save t s)"
    and invar_delete: "invar s \<Longrightarrow> invar (delete j s)"
    and get_ok: "invar s \<Longrightarrow> get s k = Some t \<Longrightarrow> ok t \<and> t_id t = k \<and> stored t = t"
begin

lemma invar_saves: "invar s \<Longrightarrow> list_all ok ts \<Longrightarrow> invar (fold save ts s)"
  by (induction ts arbitrary: s) (auto simp: invar_save)

text \<open>The last write of an id wins.\<close>

lemma get_after_saves:
  "invar s \<Longrightarrow> list_all ok ts \<Longrightarrow>
   get (fold save ts s) k =
     (case find (\<lambda>t. t_id t = k) (rev ts) of Some t \<Rightarrow> Some (stored t) | None \<Rightarrow> get s k)"
proof (induction ts rule: rev_induct)
  case Nil
  then show ?case by simp
next
  case (snoc t ts)
  then show ?case by (auto simp: get_save invar_saves)
qed

text \<open>Writing back what was read changes nothing a reader can see.\<close>

lemma resave_unchanged: "invar s \<Longrightarrow> get s k = Some t \<Longrightarrow> get (save t s) = get s"
  using get_ok [of s k t] by (auto simp: get_save)

end

definition sqlite_get :: "(string \<Rightarrow> bool) \<Rightarrow> task_table \<Rightarrow> string \<Rightarrow> Task option" where
  "sqlite_get isofmt tbl k = (case repo_get False isofmt k tbl of Inl _ \<Rightarrow> None | Inr x \<Rightarrow> x)"

definition sqlite_save :: "Task \<Rightarrow> task_table \<Rightarrow> task_table" where
  "sqlite_save t tbl = (case repo_save False t tbl of Inl _ \<Rightarrow> tbl | Inr tbl' \<Rightarrow> tbl')"

definition sqlite_delete :: "string \<Rightarrow> task_table \<Rightarrow> task_table" where
  "sqlite_delete k tbl = (case repo_delete False k tbl of Inl _ \<Rightarrow> tbl | Inr (_, tbl') \<Rightarrow> tbl')"

lemmas sqlite_defs = sqlite_save_def sqlite_delete_def repo_save_def repo_delete_def

lemma sqlite_get_valid: "valid_table isofmt tbl \<Longrightarrow> sqlite_get isofmt tbl k = map_option row_fields (dget tbl k)"
  by (simp add: sqlite_get_def repo_get_valid)

interpretation sqlite: task_store "sqlite_get isofmt" sqlite_save sqlite_delete "valid_table isofmt"
    "valid_task isofmt" stored_task for isofmt
proof (unfold_locales, goal_cases)
  case (1 s t k)
  then show ?case
    by (simp add: sqlite_get_valid sqlite_defs valid_table_save row_fields_task_to_row)
next
  case (2 s j k)
  then show ?case by (simp add: sqlite_get_valid sqlite_defs valid_table_delete)
next
  case (3 s t)
  then show ?case by (simp add: sqlite_defs valid_table_save)
next
  case (4 s j)
  then show ?case by (simp add: sqlite_defs valid_table_delete)
next
  case (5 s k t)
  then show ?case using valid_table_get by (auto simp: sqlite_get_valid)
qed

subsection \<open>Properties\<close>

text \<open>
  C6: saving a valid task and reading it back gives the task without its \<open>source\<close>,
  \<open>middleware_override\<close> and \<open>metadata\<close>, which the table does not store: the round trip is lossless
  exactly when those three fields have their defaults. Every other id is unaffected.
\<close>

theorem task_save_get_roundtrip:
  assumes "valid_task isofmt t" and "repo_save False t tbl = Inr tbl'"
  shows "repo_get False isofmt (t_id t) tbl' =
           Inr (Some (t\<lparr>t_source := None, t_middleware_override := None, t_metadata := []\<rparr>)) \<and>
         (repo_get False isofmt (t_id t) tbl' = Inr (Some t) \<longleftrightarrow>
            t_source t = None \<and> t_middleware_override t = None \<and> t_metadata t = []) \<and>
         (\<forall>k. k \<noteq> t_id t \<longrightarrow> repo_get False isofmt k tbl' = repo_get False isofmt k tbl)"
proof -
  have tbl': "tbl' = dput (t_id t) (task_to_row t) tbl"
    using assms(2) by (simp add: repo_save_def)
  have get: "repo_get False isofmt (t_id t) tbl' = Inr (Some (stored_task t))"
    using row_to_task_saved [OF assms(1)] by (simp add: tbl' repo_get_def)
  have "stored_task t = t \<longleftrightarrow>
      t_source t = None \<and> t_middleware_override t = None \<and> t_metadata t = []"
    by (cases t) (auto simp: stored_task_def)
  then show ?thesis using get by (simp add: stored_task_def tbl' repo_get_def)
qed

theorem task_save_get_roundtrip_witness:
  "repo_get False (\<lambda>_. True) ''task-1'' [(''task-1'', task_to_row (sample_task\<lparr>t_source := Some CLIENT\<rparr>))]
     = Inr (Some sample_task)"
proof -
  let ?t = "sample_task\<lparr>t_source := Some CLIENT\<rparr>"
  have v: "valid_task (\<lambda>_. True) ?t"
    using sample_task_valid by (simp add: valid_task_def field_constraints_def)
  have s: "repo_save False ?t [] = Inr [(''task-1'', task_to_row ?t)]"
    by (simp add: repo_save_def sample_task_def)
  show ?thesis
    using task_save_get_roundtrip [OF v s] by (simp add: sample_task_def)
qed

text \<open>
  Paginated listing of a valid table is a window of the full listing: a page of \<open>k\<close> tasks
  followed by the offset-only query for the rest is the whole list, in the order of the ids, and
  \<open>count_tasks\<close> is its length.
\<close>

theorem list_pages_partition:
  assumes "valid_table isofmt tbl" and "0 \<le> k"
  shows "\<exists>page rest.
     repo_list False isofmt st a pr (Some k) 0 tbl = Inr page \<and>
     repo_list False isofmt st a pr None k tbl = Inr rest \<and>
     repo_list False isofmt st a pr None 0 tbl = Inr (page @ rest) \<and>
     repo_count False st a pr tbl = Inr (int (length (page @ rest))) \<and>
     sorted (List.map t_id (page @ rest))"
proof -
  let ?rs = "sort_key r_id (filter (row_matches st a pr) (List.map snd tbl))"
  have v: "\<And>r. r \<in> set ?rs \<Longrightarrow> valid_task isofmt (row_fields r)"
    using assms(1) by (auto simp: valid_table_def list_all_iff)
  have conv: "rows_to_tasks isofmt xs = Inr (List.map row_fields xs)" if "set xs \<subseteq> set ?rs" for xs
    using v that by (intro rows_to_tasks_valid) blast
  have "List.map t_id (List.map row_fields ?rs) = List.map r_id ?rs" by simp
  then have "sorted (List.map t_id (List.map row_fields ?rs))" by (simp only: sorted_sort_key)
  moreover have "repo_list False isofmt st a pr (Some k) 0 tbl
      = Inr (List.map row_fields (take (nat k) ?rs))"
    using assms(2) conv [of "take (nat k) ?rs"]
    by (simp add: repo_list_def sql_limit_def set_take_subset [of _ ?rs, simplified])
  moreover have "repo_list False isofmt st a pr None k tbl
      = Inr (List.map row_fields (drop (nat k) ?rs))"
    using conv [of "drop (nat k) ?rs"] conv [of ?rs]
    by (simp add: repo_list_def sql_limit_def set_drop_subset [of _ ?rs, simplified])
  moreover have "repo_list False isofmt st a pr None 0 tbl = Inr (List.map row_fields ?rs)"
    using conv [of ?rs] by (simp add: repo_list_def sql_limit_def)
  moreover have "repo_count False st a pr tbl = Inr (int (length (List.map row_fields ?rs)))"
    by (simp add: repo_count_def)
  ultimately show ?thesis
    by (intro exI [of _ "List.map row_fields (take (nat k) ?rs)"]
          exI [of _ "List.map row_fields (drop (nat k) ?rs)"])
      (simp add: map_append [symmetric] del: map_append)
qed

theorem list_pages_partition_witness:
  "\<exists>page rest.
     repo_list False (\<lambda>_. True) (Some CREATED) None None (Some 1) 0
       [(''task-1'', task_to_row sample_task)] = Inr page \<and>
     repo_list False (\<lambda>_. True) (Some CREATED) None None None 1
       [(''task-1'', task_to_row sample_task)] = Inr rest \<and>
     repo_list False (\<lambda>_. True) (Some CREATED) None None None 0
       [(''task-1'', task_to_row sample_task)] = Inr (page @ rest) \<and>
     repo_count False (Some CREATED) None None [(''task-1'', task_to_row sample_task)]
       = Inr (int (length (page @ rest))) \<and>
     sorted (List.map t_id (page @ rest))"
proof -
  have "valid_table (\<lambda>_. True) [(''task-1'', task_to_row sample_task)]"
    using valid_stored_task [OF sample_task_valid]
    by (simp add: valid_table_def row_fields_task_to_row) (simp add: sample_task_def)
  then show ?thesis by (rule list_pages_partition) simp
qed

end
