(* ===== verification/Task_Engine.thy ===== *)
theory Task_Engine
  imports Task_Repo
begin

text \<open>
  The single-writer task engine: \<^verbatim>\<open>engine/task_engine_version.py\<close> (optimistic versions),
  \<^verbatim>\<open>engine/task_engine_models.py\<close> (mutation requests and results),
  \<^verbatim>\<open>engine/task_engine_apply.py\<close> (one function per mutation) and the sequential processing of
  \<^verbatim>\<open>engine/task_engine_loops.py\<close> (\<open>_process_one\<close>, \<open>_processing_loop\<close>,
  \<open>_fail_remaining_futures\<close>).

  The state is the task table and the version dictionary. What the environment decides for one
  mutation (the fresh id and which repository statements fail) is the record \<open>env\<close>. An
  \<open>apply\<close> function returns the exception or the result together with the new state.
\<close>

subsection \<open>Version tracker\<close>

type_synonym versions = "(string, int) dict"

datatype version_error = VersionTooSmall int | TaskVersionConflict string int int

definition vt_seed :: "string \<Rightarrow> versions \<Rightarrow> versions" where
  "vt_seed task_id vs = (if dget vs task_id = None then dput task_id 1 vs else vs)"

definition vt_set_initial :: "string \<Rightarrow> int \<Rightarrow> versions \<Rightarrow> version_error + versions" where
  "vt_set_initial task_id version vs =
     (if version < 1 then Inl (VersionTooSmall version) else Inr (dput task_id version vs))"

definition vt_get :: "string \<Rightarrow> versions \<Rightarrow> int" where
  "vt_get task_id vs = dget_or vs task_id 0"

definition vt_bump :: "string \<Rightarrow> versions \<Rightarrow> int \<times> versions" where
  "vt_bump task_id vs =
     (let vs1 = vt_seed task_id vs; version = vt_get task_id vs1 + 1
      in (version, dput task_id version vs1))"

definition vt_remove :: "string \<Rightarrow> versions \<Rightarrow> versions" where
  "vt_remove task_id vs = dpop task_id vs"

definition vt_check :: "string \<Rightarrow> int option \<Rightarrow> versions \<Rightarrow> (version_error + unit) \<times> versions" where
  "vt_check task_id expected_version vs =
     (case expected_version of
        None \<Rightarrow> (Inr (), vs)
      | Some expected \<Rightarrow>
          let vs1 = vt_seed task_id vs; current = vt_get task_id vs1
          in if current \<noteq> expected then (Inl (TaskVersionConflict task_id expected current), vs1)
             else (Inr (), vs1))"

subsection \<open>Requests and results\<close>

record CreateTaskData =
  d_title :: string
  d_description :: string
  d_type :: TaskType
  d_priority :: Priority
  d_project :: string
  d_created_by :: string
  d_assigned_to :: "string option"
  d_dependencies :: "string list"
  d_estimated_complexity :: Complexity
  d_budget_limit :: rat

text \<open>The field constraints of \<open>CreateTaskData\<close> with the two length limits.\<close>

definition valid_create_data :: "CreateTaskData \<Rightarrow> bool" where
  "valid_create_data d \<longleftrightarrow>
     not_blank (d_title d) \<and> length (d_title d) \<le> 256 \<and>
     not_blank (d_description d) \<and> length (d_description d) \<le> 4096 \<and>
     not_blank (d_project d) \<and> not_blank (d_created_by d) \<and> opt_not_blank (d_assigned_to d) \<and>
     list_all not_blank (d_dependencies d) \<and> 0 \<le> d_budget_limit d"

datatype TaskMutation =
    CreateTaskMutation (request_id: string) (requested_by: string) (task_data: CreateTaskData)
  | UpdateTaskMutation (request_id: string) (requested_by: string) (m_task_id: string)
      (updates: "(string, pyval) dict") (expected_version: "int option")
  | TransitionTaskMutation (request_id: string) (requested_by: string) (m_task_id: string)
      (target_status: TaskStatus) (m_reason: string) (overrides: "(string, pyval) dict")
      (expected_version: "int option")
  | DeleteTaskMutation (request_id: string) (requested_by: string) (m_task_id: string)
  | CancelTaskMutation (request_id: string) (requested_by: string) (m_task_id: string)
      (m_reason: string)

datatype TaskErrorCode = NotFound | VersionConflict | Validation | InternalError

datatype mutation_error =
    TaskNotFound string
  | Conflict version_error
  | InvalidTaskData task_error
  | InvalidUpdateData task_error
  | TransitionRejected task_error
  | ProcessingFailed
  | ShutDown

record TaskMutationResult =
  res_request_id :: string
  res_success :: bool
  res_task :: "Task option"
  res_version :: int
  res_previous_status :: "TaskStatus option"
  res_error :: "mutation_error option"
  res_error_code :: "TaskErrorCode option"

definition immutable_fields :: "string set" where
  "immutable_fields = {''id'', ''created_by'', ''status''}"

text \<open>\<open>_reject_immutable_fields\<close> and \<open>_reject_immutable_overrides\<close>.\<close>

definition reject_immutable :: "(string, pyval) dict \<Rightarrow> bool" where
  "reject_immutable payload \<longleftrightarrow>
     set (dkeys payload) - set task_model_fields \<noteq> {} \<or> set (dkeys payload) \<inter> immutable_fields \<noteq> {}"

definition expected_ok :: "int option \<Rightarrow> bool" where
  "expected_ok e = (case e of None \<Rightarrow> True | Some v \<Rightarrow> 1 \<le> v)"

fun valid_mutation :: "TaskMutation \<Rightarrow> bool" where
  "valid_mutation (CreateTaskMutation rid rby d) =
     (not_blank rid \<and> not_blank rby \<and> valid_create_data d)"
| "valid_mutation (UpdateTaskMutation rid rby tid ups ev) =
     (not_blank rid \<and> not_blank rby \<and> not_blank tid \<and> distinct (dkeys ups) \<and>
      \<not> reject_immutable ups \<and> expected_ok ev)"
| "valid_mutation (TransitionTaskMutation rid rby tid s reason ovs ev) =
     (not_blank rid \<and> not_blank rby \<and> not_blank tid \<and> not_blank reason \<and> distinct (dkeys ovs) \<and>
      \<not> reject_immutable ovs \<and> expected_ok ev)"
| "valid_mutation (DeleteTaskMutation rid rby tid) = (not_blank rid \<and> not_blank rby \<and> not_blank tid)"
| "valid_mutation (CancelTaskMutation rid rby tid reason) =
     (not_blank rid \<and> not_blank rby \<and> not_blank tid \<and> not_blank reason)"

definition check_consistency :: "TaskMutationResult \<Rightarrow> bool" where
  "check_consistency r \<longleftrightarrow>
     \<not> (res_success r \<and> res_error r \<noteq> None) \<and> \<not> (\<not> res_success r \<and> res_error r = None) \<and>
     \<not> (res_success r \<and> res_error_code r \<noteq> None) \<and> \<not> (\<not> res_success r \<and> res_error_code r = None)"

definition failure :: "string \<Rightarrow> mutation_error \<Rightarrow> TaskErrorCode \<Rightarrow> TaskMutationResult" where
  "failure rid e code =
     \<lparr>res_request_id = rid, res_success = False, res_task = None, res_version = 0,
      res_previous_status = None, res_error = Some e, res_error_code = Some code\<rparr>"

definition success ::
  "string \<Rightarrow> Task option \<Rightarrow> int \<Rightarrow> TaskStatus option \<Rightarrow> TaskMutationResult" where
  "success rid t v prev =
     \<lparr>res_request_id = rid, res_success = True, res_task = t, res_version = v,
      res_previous_status = prev, res_error = None, res_error_code = None\<rparr>"

definition not_found_result :: "string \<Rightarrow> string \<Rightarrow> TaskMutationResult" where
  "not_found_result rid task_id = failure rid (TaskNotFound task_id) NotFound"

subsection \<open>Applying one mutation\<close>

record env =
  new_id :: string
  get_fault :: bool
  save_fault :: bool
  delete_fault :: bool

record engine =
  tasks :: task_table
  versions :: versions

datatype engine_exn = Persistence repo_error | VersionValue version_error

type_synonym applied = "(engine_exn + TaskMutationResult) \<times> engine"

text \<open>\<open>Task(...)\<close> with the defaults of the fields \<open>apply_create\<close> does not pass.\<close>

definition created_task :: "string \<Rightarrow> CreateTaskData \<Rightarrow> Task" where
  "created_task task_id d =
     \<lparr>t_id = task_id, t_title = d_title d, t_description = d_description d, t_type = d_type d,
      t_priority = d_priority d, t_project = d_project d, t_created_by = d_created_by d,
      t_assigned_to = d_assigned_to d, t_reviewers = [], t_dependencies = d_dependencies d,
      t_artifacts_expected = [], t_acceptance_criteria = [],
      t_estimated_complexity = d_estimated_complexity d, t_budget_limit = d_budget_limit d,
      t_deadline = None, t_max_retries = 1, t_status = CREATED, t_parent_task_id = None,
      t_delegation_chain = [], t_task_structure = None, t_coordination_topology = AUTO,
      t_source = None, t_middleware_override = None, t_metadata = []\<rparr>"

definition apply_create ::
  "(string \<Rightarrow> bool) \<Rightarrow> env \<Rightarrow> string \<Rightarrow> CreateTaskData \<Rightarrow> engine \<Rightarrow> applied" where
  "apply_create isofmt ev rid d es =
     (let task_id = ''task-'' @ new_id ev in
      case model_validate isofmt (created_task task_id d) of
        Inl e \<Rightarrow> (Inr (failure rid (InvalidTaskData e) Validation), es)
      | Inr task \<Rightarrow>
          (case repo_save (save_fault ev) task (tasks es) of
             Inl e \<Rightarrow> (Inl (Persistence e), es)
           | Inr tbl \<Rightarrow>
               (case vt_set_initial task_id 1 (versions es) of
                  Inl e \<Rightarrow> (Inl (VersionValue e), es\<lparr>tasks := tbl\<rparr>)
                | Inr vs \<Rightarrow>
                    (Inr (success rid (Some task) 1 None), es\<lparr>tasks := tbl, versions := vs\<rparr>))))"

text \<open>The tail shared by update, transition and cancel: save, then bump the version.\<close>

definition save_and_bump ::
  "env \<Rightarrow> string \<Rightarrow> string \<Rightarrow> Task \<Rightarrow> Task \<Rightarrow> engine \<Rightarrow> applied" where
  "save_and_bump ev rid task_id old updated es =
     (case repo_save (save_fault ev) updated (tasks es) of
        Inl e \<Rightarrow> (Inl (Persistence e), es)
      | Inr tbl \<Rightarrow>
          let (version, vs) = vt_bump task_id (versions es)
          in (Inr (success rid (Some updated) version (Some (t_status old))),
              es\<lparr>tasks := tbl, versions := vs\<rparr>))"

definition apply_update ::
  "(string \<Rightarrow> bool) \<Rightarrow> env \<Rightarrow> string \<Rightarrow> string \<Rightarrow> (string, pyval) dict \<Rightarrow> int option \<Rightarrow> engine \<Rightarrow> applied" where
  "apply_update isofmt ev rid task_id ups expected es =
     (case repo_get (get_fault ev) isofmt task_id (tasks es) of
        Inl e \<Rightarrow> (Inl (Persistence e), es)
      | Inr None \<Rightarrow> (Inr (not_found_result rid task_id), es)
      | Inr (Some task) \<Rightarrow>
          (case vt_check task_id expected (versions es) of
             (Inl e, vs) \<Rightarrow> (Inr (failure rid (Conflict e) VersionConflict), es\<lparr>versions := vs\<rparr>)
           | (Inr _, vs) \<Rightarrow>
               let es1 = es\<lparr>versions := vs\<rparr> in
               if ups = []
               then (Inr (success rid (Some task) (vt_get task_id vs) (Some (t_status task))), es1)
               else
                 (case (case apply_overrides ups task of
                          None \<Rightarrow> Inl FieldConstraint | Some merged \<Rightarrow> model_validate isofmt merged) of
                    Inl e \<Rightarrow> (Inr (failure rid (InvalidUpdateData e) Validation), es1)
                  | Inr updated \<Rightarrow> save_and_bump ev rid task_id task updated es1)))"

definition apply_transition ::
  "(string \<Rightarrow> bool) \<Rightarrow> env \<Rightarrow> string \<Rightarrow> string \<Rightarrow> TaskStatus \<Rightarrow> (string, pyval) dict \<Rightarrow> int option \<Rightarrow>
   engine \<Rightarrow> applied" where
  "apply_transition isofmt ev rid task_id target ovs expected es =
     (case repo_get (get_fault ev) isofmt task_id (tasks es) of
        Inl e \<Rightarrow> (Inl (Persistence e), es)
      | Inr None \<Rightarrow> (Inr (not_found_result rid task_id), es)
      | Inr (Some task) \<Rightarrow>
          (case vt_check task_id expected (versions es) of
             (Inl e, vs) \<Rightarrow> (Inr (failure rid (Conflict e) VersionConflict), es\<lparr>versions := vs\<rparr>)
           | (Inr _, vs) \<Rightarrow>
               let es1 = es\<lparr>versions := vs\<rparr> in
               (case with_transition isofmt task target ovs of
                  Inl e \<Rightarrow> (Inr (failure rid (TransitionRejected e) Validation), es1)
                | Inr updated \<Rightarrow> save_and_bump ev rid task_id task updated es1)))"

definition apply_delete :: "env \<Rightarrow> string \<Rightarrow> string \<Rightarrow> engine \<Rightarrow> applied" where
  "apply_delete ev rid task_id es =
     (case repo_delete (delete_fault ev) task_id (tasks es) of
        Inl e \<Rightarrow> (Inl (Persistence e), es)
      | Inr (deleted, tbl) \<Rightarrow>
          if \<not> deleted then (Inr (not_found_result rid task_id), es\<lparr>tasks := tbl\<rparr>)
          else (Inr (success rid None 0 None),
                es\<lparr>tasks := tbl, versions := vt_remove task_id (versions es)\<rparr>))"

definition apply_cancel ::
  "(string \<Rightarrow> bool) \<Rightarrow> env \<Rightarrow> string \<Rightarrow> string \<Rightarrow> engine \<Rightarrow> applied" where
  "apply_cancel isofmt ev rid task_id es =
     (case repo_get (get_fault ev) isofmt task_id (tasks es) of
        Inl e \<Rightarrow> (Inl (Persistence e), es)
      | Inr None \<Rightarrow> (Inr (not_found_result rid task_id), es)
      | Inr (Some task) \<Rightarrow>
          (case with_transition isofmt task CANCELLED [] of
             Inl e \<Rightarrow> (Inr (failure rid (TransitionRejected e) Validation), es)
           | Inr updated \<Rightarrow> save_and_bump ev rid task_id task updated es))"

fun dispatch :: "(string \<Rightarrow> bool) \<Rightarrow> env \<Rightarrow> TaskMutation \<Rightarrow> engine \<Rightarrow> applied" where
  "dispatch isofmt ev (CreateTaskMutation rid _ d) es = apply_create isofmt ev rid d es"
| "dispatch isofmt ev (UpdateTaskMutation rid _ tid ups e) es = apply_update isofmt ev rid tid ups e es"
| "dispatch isofmt ev (TransitionTaskMutation rid _ tid s _ ovs e) es =
     apply_transition isofmt ev rid tid s ovs e es"
| "dispatch isofmt ev (DeleteTaskMutation rid _ tid) es = apply_delete ev rid tid es"
| "dispatch isofmt ev (CancelTaskMutation rid _ tid _) es = apply_cancel isofmt ev rid tid es"

subsection \<open>Sequential processing\<close>

text \<open>
  \<open>_process_one\<close> resolves the caller's future: with the result of the dispatch, or with an
  internal failure when an exception escaped.
\<close>

definition process_one ::
  "(string \<Rightarrow> bool) \<Rightarrow> env \<Rightarrow> TaskMutation \<Rightarrow> engine \<Rightarrow> TaskMutationResult \<times> engine" where
  "process_one isofmt ev m es =
     (case dispatch isofmt ev m es of
        (Inl _, es') \<Rightarrow> (failure (request_id m) ProcessingFailed InternalError, es')
      | (Inr r, es') \<Rightarrow> (r, es'))"

text \<open>The queue is drained in order; each mutation comes with what the environment does to it.\<close>

fun processing_loop ::
  "(string \<Rightarrow> bool) \<Rightarrow> (TaskMutation \<times> env) list \<Rightarrow> engine \<Rightarrow> TaskMutationResult list \<times> engine" where
  "processing_loop isofmt [] es = ([], es)"
| "processing_loop isofmt ((m, ev) # q) es =
     (let (r, es1) = process_one isofmt ev m es; (rs, es2) = processing_loop isofmt q es1
      in (r # rs, es2))"

definition shutdown_result :: "TaskMutation \<Rightarrow> TaskMutationResult" where
  "shutdown_result m = failure (request_id m) ShutDown InternalError"

text \<open>
  \<open>_fail_remaining_futures\<close> after a drain timeout: the in-flight mutation first, then the queue;
  an already resolved future keeps its result.
\<close>

definition fail_remaining_futures ::
  "(TaskMutation \<times> TaskMutationResult option) option \<Rightarrow> (TaskMutation \<times> TaskMutationResult option) list
   \<Rightarrow> (TaskMutation \<times> TaskMutationResult) list" where
  "fail_remaining_futures in_flight queue =
     (let resolve = (\<lambda>(m, fut). (m, case fut of None \<Rightarrow> shutdown_result m | Some r \<Rightarrow> r))
      in (case in_flight of None \<Rightarrow> [] | Some e \<Rightarrow> [resolve e]) @ List.map resolve queue)"

subsection \<open>Versions\<close>

lemma vt_get_seed: "vt_get k (vt_seed j vs) = (if k = j \<and> dget vs j = None then 1 else vt_get k vs)"
  by (simp add: vt_get_def vt_seed_def)

lemma vt_bump_eq:
  "fst (vt_bump k vs) = (if dget vs k = None then 2 else vt_get k vs + 1)"
  "vt_get j (snd (vt_bump k vs)) = (if j = k then fst (vt_bump k vs) else vt_get j vs)"
  by (auto simp: vt_bump_def vt_get_seed Let_def vt_get_def vt_seed_def)

lemma vt_check_ok:
  "vt_check k e vs = (Inr u, vs') \<Longrightarrow> e = Some v \<Longrightarrow> vt_get k vs' = v \<and> dget vs' k \<noteq> None"
  by (auto simp: vt_check_def Let_def vt_get_def vt_seed_def dget_or_def split: if_splits option.splits)

lemma vt_check_state: "snd (vt_check k e vs) = (if e = None then vs else vt_seed k vs)"
  by (auto simp: vt_check_def Let_def split: option.splits)

text \<open>Tracked versions are at least one.\<close>

definition versions_ok :: "versions \<Rightarrow> bool" where
  "versions_ok vs \<longleftrightarrow> distinct (dkeys vs) \<and> list_all (\<lambda>(k, v). 1 \<le> v) vs"

lemma versions_ok_get: "versions_ok vs \<Longrightarrow> dget vs k = Some v \<Longrightarrow> 1 \<le> v"
  by (auto simp: versions_ok_def list_all_iff dest!: dget_Some_in)

lemma versions_ok_put: "versions_ok vs \<Longrightarrow> 1 \<le> v \<Longrightarrow> versions_ok (dput k v vs)"
  by (auto simp: versions_ok_def list_all_iff dest!: in_dput)

lemma versions_ok_seed: "versions_ok vs \<Longrightarrow> versions_ok (vt_seed k vs)"
  by (simp add: vt_seed_def versions_ok_put)

lemma vt_get_nonneg: "versions_ok vs \<Longrightarrow> 0 \<le> vt_get k vs"
  using versions_ok_get by (fastforce simp: vt_get_def dget_or_def split: option.splits)

lemma versions_ok_bump: "versions_ok vs \<Longrightarrow> versions_ok (snd (vt_bump k vs))"
  by (simp add: vt_bump_def Let_def versions_ok_put versions_ok_seed vt_get_nonneg)

lemma versions_ok_check: "versions_ok vs \<Longrightarrow> versions_ok (snd (vt_check k e vs))"
  by (simp add: vt_check_state versions_ok_seed)

lemma versions_ok_remove: "versions_ok vs \<Longrightarrow> versions_ok (vt_remove k vs)"
  by (auto simp: versions_ok_def vt_remove_def list_all_iff dest!: in_dpop)

subsection \<open>What a mutation can do to the engine\<close>

text \<open>
  Every \<open>apply\<close> function either leaves the table alone, stores one valid task under its id, or
  removes one id. The relation \<open>table_change\<close> is this contract, labelled with the kind of change;
  the invariants below are proved from it alone.
\<close>

datatype change = NoWrite | Created string | Written string | Deleted string

definition unchanged_versions :: "string \<Rightarrow> engine \<Rightarrow> engine \<Rightarrow> bool" where
  "unchanged_versions k es es' \<longleftrightarrow>
     versions es' = versions es \<or> versions es' = vt_seed k (versions es)"

inductive table_change :: "(string \<Rightarrow> bool) \<Rightarrow> change \<Rightarrow> engine \<Rightarrow> engine \<Rightarrow> bool" for isofmt where
  no_write: "tasks es' = tasks es \<Longrightarrow> unchanged_versions k es es' \<Longrightarrow>
    table_change isofmt NoWrite es es'"
| created: "valid_task isofmt t \<Longrightarrow> t_status t = CREATED \<Longrightarrow>
    table_change isofmt (Created (t_id t)) es
      (es\<lparr>tasks := dput (t_id t) (task_to_row t) (tasks es), versions := dput (t_id t) 1 (versions es)\<rparr>)"
| written: "repo_get False isofmt k (tasks es) = Inr (Some old) \<Longrightarrow> valid_task isofmt t \<Longrightarrow>
    t_id t = t_id old \<Longrightarrow> t_created_by t = t_created_by old \<Longrightarrow>
    t_status t = t_status old \<or> sm_step task_machine (t_status old) (t_status t) \<Longrightarrow>
    vs = versions es \<or> vs = vt_seed k (versions es) \<Longrightarrow>
    table_change isofmt (Written k) es
      (es\<lparr>tasks := dput (t_id t) (task_to_row t) (tasks es), versions := snd (vt_bump k vs)\<rparr>)"
| deleted: "table_change isofmt (Deleted k) es
      (es\<lparr>tasks := dpop k (tasks es), versions := vt_remove k (versions es)\<rparr>)"

inductive_cases table_changeE: "table_change isofmt c es es'"

fun change_of :: "env \<Rightarrow> TaskMutation \<Rightarrow> change" where
  "change_of ev (CreateTaskMutation _ _ _) = Created (''task-'' @ new_id ev)"
| "change_of ev (DeleteTaskMutation _ _ k) = Deleted k"
| "change_of ev (UpdateTaskMutation _ _ k _ _) = Written k"
| "change_of ev (TransitionTaskMutation _ _ k _ _ _ _) = Written k"
| "change_of ev (CancelTaskMutation _ _ k _) = Written k"

abbreviation changes_to :: "(string \<Rightarrow> bool) \<Rightarrow> change \<Rightarrow> engine \<Rightarrow> engine \<Rightarrow> bool" where
  "changes_to isofmt c es es' \<equiv> table_change isofmt NoWrite es es' \<or> table_change isofmt c es es'"

lemma table_change_refl: "table_change isofmt NoWrite es es"
  by (rule no_write [where k = "[]"]) (simp_all add: unchanged_versions_def)

lemma repo_get_not_fault: "repo_get f isofmt k tbl = Inr x \<Longrightarrow> \<not> f \<and> repo_get False isofmt k tbl = Inr x"
  by (cases f) (simp_all add: repo_get_def)

lemma save_and_bump_change:
  assumes "repo_get False isofmt k (tasks es) = Inr (Some old)"
    and "valid_task isofmt t" "t_id t = t_id old" "t_created_by t = t_created_by old"
    and "t_status t = t_status old \<or> sm_step task_machine (t_status old) (t_status t)"
    and "vs = versions es \<or> vs = vt_seed k (versions es)"
  shows "changes_to isofmt (Written k) es (snd (save_and_bump ev rid k old t (es\<lparr>versions := vs\<rparr>)))"
proof (cases "save_fault ev")
  case True
  then show ?thesis
    using assms(6) no_write [of "es\<lparr>versions := vs\<rparr>" es k isofmt]
    by (simp add: save_and_bump_def repo_save_def unchanged_versions_def)
next
  case False
  then have "snd (save_and_bump ev rid k old t (es\<lparr>versions := vs\<rparr>)) =
    es\<lparr>tasks := dput (t_id t) (task_to_row t) (tasks es), versions := snd (vt_bump k vs)\<rparr>"
    by (simp add: save_and_bump_def repo_save_def split: prod.splits)
  with written [OF assms] show ?thesis by simp
qed

lemma vt_check_vs: "vt_check k e vs = (x, vs') \<Longrightarrow> vs' = vs \<or> vs' = vt_seed k vs"
  by (auto simp: vt_check_def Let_def split: option.splits if_splits)

lemma apply_create_change:
  "changes_to isofmt (Created (''task-'' @ new_id ev)) es (snd (apply_create isofmt ev rid d es))"
proof -
  let ?t = "created_task (''task-'' @ new_id ev) d"
  show ?thesis
  proof (cases "model_validate isofmt ?t")
    case (Inl e)
    then show ?thesis by (simp add: apply_create_def table_change_refl)
  next
    case (Inr t)
    then have t: "t = ?t" "valid_task isofmt t" by (simp_all add: model_validate_Inr)
    show ?thesis
    proof (cases "save_fault ev")
      case True
      with Inr show ?thesis by (simp add: apply_create_def repo_save_def table_change_refl)
    next
      case False
      have "t_id t = ''task-'' @ new_id ev" "t_status t = CREATED"
        by (simp_all add: t(1) created_task_def)
      with created [OF t(2), of es] False Inr show ?thesis
        by (simp add: apply_create_def repo_save_def vt_set_initial_def Let_def)
    qed
  qed
qed

lemma apply_delete_change: "changes_to isofmt (Deleted k) es (snd (apply_delete ev rid k es))"
  using deleted [of isofmt k es] table_change_refl [of isofmt es]
  by (auto simp: apply_delete_def repo_delete_def dget_None_iff)

lemma not_reject_immutable:
  "\<not> reject_immutable ovs \<Longrightarrow>
   ''id'' \<notin> set (dkeys ovs) \<and> ''created_by'' \<notin> set (dkeys ovs) \<and> ''status'' \<notin> set (dkeys ovs)"
  unfolding reject_immutable_def immutable_fields_def by blast

lemma apply_update_change:
  assumes "\<not> reject_immutable ups"
  shows "changes_to isofmt (Written k) es (snd (apply_update isofmt ev rid k ups e es))"
proof (cases "repo_get (get_fault ev) isofmt k (tasks es)")
  case (Inl x)
  then show ?thesis by (simp add: apply_update_def table_change_refl)
next
  case get: (Inr x)
  show ?thesis
  proof (cases x)
    case None
    with get show ?thesis by (simp add: apply_update_def table_change_refl)
  next
    case (Some task)
    obtain c vs where chk: "vt_check k e (versions es) = (c, vs)" by fastforce
    let ?es1 = "es\<lparr>versions := vs\<rparr>"
    have kept: "table_change isofmt NoWrite es ?es1"
      using vt_check_vs [OF chk] by (intro no_write [where k = k]) (auto simp: unchanged_versions_def)
    have written: "changes_to isofmt (Written k) es (snd (save_and_bump ev rid k task t ?es1))"
      if "apply_overrides ups task = Some t" "valid_task isofmt t" for t
      using that not_reject_immutable [OF assms] vt_check_vs [OF chk]
        repo_get_not_fault [OF get [unfolded Some]]
        apply_overrides_id [OF that(1)] apply_overrides_created_by [OF that(1)]
        apply_overrides_status [OF that(1)]
      by (intro save_and_bump_change) simp_all
    show ?thesis
      using get Some chk kept written
      by (simp add: apply_update_def Let_def model_validate_Inr split: sum.split option.split)
  qed
qed

lemma apply_transition_change:
  assumes "\<not> reject_immutable ovs"
  shows "changes_to isofmt (Written k) es (snd (apply_transition isofmt ev rid k s ovs e es))"
proof (cases "repo_get (get_fault ev) isofmt k (tasks es)")
  case (Inl x)
  then show ?thesis by (simp add: apply_transition_def table_change_refl)
next
  case get: (Inr x)
  show ?thesis
  proof (cases x)
    case None
    with get show ?thesis by (simp add: apply_transition_def table_change_refl)
  next
    case (Some task)
    obtain c vs where chk: "vt_check k e (versions es) = (c, vs)" by fastforce
    let ?es1 = "es\<lparr>versions := vs\<rparr>"
    have kept: "table_change isofmt NoWrite es ?es1"
      using vt_check_vs [OF chk] by (intro no_write [where k = k]) (auto simp: unchanged_versions_def)
    have written: "changes_to isofmt (Written k) es (snd (save_and_bump ev rid k task t ?es1))"
      if w: "with_transition isofmt task s ovs = Inr t" for t
    proof -
      obtain p where p: "apply_overrides ovs task = Some p" "t = p\<lparr>t_status := s\<rparr>"
        using with_transition_Inr(4) [OF w] by blast
      show ?thesis
        using with_transition_Inr(1-3) [OF w] p(2) not_reject_immutable [OF assms]
          vt_check_vs [OF chk] repo_get_not_fault [OF get [unfolded Some]]
          apply_overrides_id [OF p(1)] apply_overrides_created_by [OF p(1)]
        by (intro save_and_bump_change) simp_all
    qed
    show ?thesis
      using get Some chk kept written
      by (simp add: apply_transition_def Let_def split: sum.split)
  qed
qed

lemma apply_cancel_change: "changes_to isofmt (Written k) es (snd (apply_cancel isofmt ev rid k es))"
proof (cases "repo_get (get_fault ev) isofmt k (tasks es)")
  case (Inl x)
  then show ?thesis by (simp add: apply_cancel_def table_change_refl)
next
  case get: (Inr x)
  show ?thesis
  proof (cases x)
    case None
    with get show ?thesis by (simp add: apply_cancel_def table_change_refl)
  next
    case (Some task)
    have written: "changes_to isofmt (Written k) es (snd (save_and_bump ev rid k task t es))"
      if w: "with_transition isofmt task CANCELLED [] = Inr t" for t
      using w repo_get_not_fault [OF get [unfolded Some]]
        save_and_bump_change [of isofmt k es task t "versions es" ev rid]
      by (auto simp: with_transition_no_overrides)
    show ?thesis
      using get Some written by (simp add: apply_cancel_def table_change_refl split: sum.split)
  qed
qed

lemma dispatch_change:
  "valid_mutation m \<Longrightarrow> changes_to isofmt (change_of ev m) es (snd (dispatch isofmt ev m es))"
  using apply_create_change [of isofmt es ev]
  by (cases m) (simp_all add: apply_update_change apply_transition_change
      apply_delete_change apply_cancel_change)

lemma process_one_change:
  "valid_mutation m \<Longrightarrow> changes_to isofmt (change_of ev m) es (snd (process_one isofmt ev m es))"
  using dispatch_change [of m isofmt es ev]
  by (auto simp: process_one_def split: prod.splits sum.splits)

subsection \<open>Invariants\<close>

definition engine_ok :: "(string \<Rightarrow> bool) \<Rightarrow> engine \<Rightarrow> bool" where
  "engine_ok isofmt es \<longleftrightarrow> valid_table isofmt (tasks es) \<and> versions_ok (versions es)"

text \<open>The task a reader sees under an id.\<close>

definition lookup_task :: "(string \<Rightarrow> bool) \<Rightarrow> engine \<Rightarrow> string \<Rightarrow> Task option" where
  "lookup_task isofmt es k = sqlite_get isofmt (tasks es) k"

lemma table_change_ok:
  assumes "table_change isofmt c es es'" and "engine_ok isofmt es"
  shows "engine_ok isofmt es'"
  using assms
proof cases
  case (no_write k)
  with assms(2) show ?thesis
    by (auto simp: engine_ok_def unchanged_versions_def versions_ok_seed)
next
  case (created t)
  with assms(2) show ?thesis by (simp add: engine_ok_def valid_table_save versions_ok_put)
next
  case (written k old t vs)
  moreover have "versions_ok vs"
    using written(8) assms(2) by (auto simp: engine_ok_def versions_ok_seed)
  ultimately show ?thesis
    using assms(2) valid_table_save [of isofmt "tasks es" t] by (simp add: engine_ok_def versions_ok_bump)
next
  case (deleted k)
  with assms(2) show ?thesis by (simp add: engine_ok_def valid_table_delete versions_ok_remove)
qed

lemma process_one_ok:
  "valid_mutation m \<Longrightarrow> engine_ok isofmt es \<Longrightarrow> engine_ok isofmt (snd (process_one isofmt ev m es))"
  using process_one_change table_change_ok by blast

lemma lookup_task_valid:
  "engine_ok isofmt es \<Longrightarrow> lookup_task isofmt es k = map_option row_fields (dget (tasks es) k)"
  by (simp add: engine_ok_def lookup_task_def sqlite_get_valid)

text \<open>How one change affects the task stored under a key that is not created by it.\<close>

lemma table_change_lookup:
  assumes "table_change isofmt c es es'" and "engine_ok isofmt es" and "c \<noteq> Created k"
    and "lookup_task isofmt es' k = Some t'"
  shows "\<exists>t. lookup_task isofmt es k = Some t \<and> t_created_by t' = t_created_by t \<and>
    (t_status t' = t_status t \<or> sm_step task_machine (t_status t) (t_status t'))"
proof -
  have ok': "engine_ok isofmt es'" by (rule table_change_ok [OF assms(1,2)])
  from assms(1) show ?thesis
  proof cases
    case (no_write j)
    with assms(2,4) ok' show ?thesis by (auto simp: lookup_task_valid)
  next
    case (created t)
    with assms(2-4) ok' show ?thesis by (auto simp: lookup_task_valid)
  next
    case (written j old t vs)
    have old: "dget (tasks es) j = Some r \<Longrightarrow> old = row_fields r \<and> r_id r = j" for r
      using written(3) assms(2) valid_table_get(1) [of isofmt "tasks es" j r]
      by (auto simp: engine_ok_def repo_get_valid)
    obtain r where r: "dget (tasks es) j = Some r"
      using written(3) by (auto simp: repo_get_def split: option.splits)
    have tid: "t_id t = j" "lookup_task isofmt es j = Some old"
      using old [OF r] r written(5) assms(2) by (simp_all add: lookup_task_valid)
    show ?thesis
    proof (cases "k = j")
      case True
      have "t' = stored_task t"
        using assms(4) ok' True tid(1) by (simp add: lookup_task_valid written(2) row_fields_task_to_row)
      with True tid written(6,7) show ?thesis by (auto simp: written)
    next
      case False
      with assms(2,4) ok' tid(1) show ?thesis by (auto simp: lookup_task_valid written(2))
    qed
  next
    case (deleted j)
    with assms(2,4) ok' show ?thesis by (auto simp: lookup_task_valid split: if_splits)
  qed
qed

text \<open>Versions of a task that is neither deleted nor created never go down.\<close>

lemma table_change_version:
  assumes "table_change isofmt c es es'" and "c \<noteq> Deleted k" and "c \<noteq> Created k"
    and "dget (versions es) k = Some v"
  shows "\<exists>v'. dget (versions es') k = Some v' \<and> v \<le> v' \<and>
    (dget (tasks es) k \<noteq> None \<longrightarrow> dget (tasks es') k \<noteq> None)"
  using assms
  by (cases rule: table_change.cases)
    (auto simp: unchanged_versions_def vt_seed_def vt_bump_def vt_get_def dget_or_def vt_remove_def
      Let_def split: if_splits)

subsection \<open>Results\<close>

lemma failure_consistent [simp]: "check_consistency (failure rid e c)" "res_request_id (failure rid e c) = rid"
  by (simp_all add: check_consistency_def failure_def)

lemma success_consistent [simp]: "check_consistency (success rid t v p)" "res_request_id (success rid t v p) = rid"
  by (simp_all add: check_consistency_def success_def)

lemma failure_success_simps [simp]:
  "\<not> res_success (failure rid e c)" "res_success (success rid t v p)"
  by (simp_all add: failure_def success_def)

abbreviation result_ok :: "string \<Rightarrow> engine_exn + TaskMutationResult \<Rightarrow> bool" where
  "result_ok rid x \<equiv> (case x of Inl _ \<Rightarrow> True | Inr r \<Rightarrow> check_consistency r \<and> res_request_id r = rid)"

lemma save_and_bump_result:
  "fst (save_and_bump ev rid k old t es) = Inr r \<Longrightarrow> check_consistency r \<and> res_request_id r = rid"
  by (auto simp: save_and_bump_def split: sum.splits prod.splits)

lemma dispatch_result: "result_ok (request_id m) (fst (dispatch isofmt ev m es))"
proof (cases m)
  case (UpdateTaskMutation rid b k ups e)
  then show ?thesis
    by (auto simp: apply_update_def not_found_result_def Let_def
        dest!: save_and_bump_result split: sum.split option.split prod.split)
next
  case (TransitionTaskMutation rid b k s re ovs e)
  then show ?thesis
    by (auto simp: apply_transition_def not_found_result_def Let_def
        dest!: save_and_bump_result split: sum.split option.split prod.split)
qed (auto simp: apply_create_def apply_delete_def apply_cancel_def not_found_result_def Let_def
    dest!: save_and_bump_result split: sum.split option.split prod.split)

lemma process_one_result:
  "check_consistency (fst (process_one isofmt ev m es)) \<and>
   res_request_id (fst (process_one isofmt ev m es)) = request_id m"
  using dispatch_result [of m isofmt ev es] by (auto simp: process_one_def split: sum.splits prod.splits)

lemma processing_loop_invariant_aux:
  "engine_ok isofmt es \<Longrightarrow> list_all (valid_mutation \<circ> fst) q \<Longrightarrow>
   engine_ok isofmt (snd (processing_loop isofmt q es))"
proof (induction isofmt q es rule: processing_loop.induct)
  case (2 isofmt m ev q es)
  then show ?case
    using process_one_ok [of m isofmt es ev] by (auto split: prod.splits)
qed simp

subsection \<open>Properties\<close>

text \<open>
  C1: processing any queue of well-formed mutations, with any pattern of database failures, keeps
  the engine invariant (every stored row is a valid task under its own id, every tracked version
  is at least one), and answers every request exactly once, in order, with its own request id and
  a consistent success/error pair.
\<close>

theorem processing_loop_invariant:
  assumes "engine_ok isofmt es" and "list_all (valid_mutation \<circ> fst) q"
  shows "engine_ok isofmt (snd (processing_loop isofmt q es)) \<and>
    List.map res_request_id (fst (processing_loop isofmt q es)) = List.map (request_id \<circ> fst) q \<and>
    list_all check_consistency (fst (processing_loop isofmt q es))"
  using assms
proof (induction q arbitrary: es)
  case Nil
  then show ?case by simp
next
  case (Cons x q)
  obtain m ev where x: "x = (m, ev)" by fastforce
  obtain r es1 where one: "process_one isofmt ev m es = (r, es1)" by fastforce
  obtain rs es2 where rest: "processing_loop isofmt q es1 = (rs, es2)" by fastforce
  have "engine_ok isofmt es1"
    using process_one_ok [of m isofmt es ev] Cons.prems one x by simp
  with Cons.IH [of es1] Cons.prems rest process_one_result [of isofmt ev m es] one x
  show ?case by simp
qed

definition sample_engine :: engine where
  "sample_engine = \<lparr>tasks = [(''task-1'', task_to_row sample_task)], versions = [(''task-1'', 1)]\<rparr>"

definition sample_env :: env where
  "sample_env = \<lparr>new_id = ''2'', get_fault = False, save_fault = False, delete_fault = False\<rparr>"

lemma sample_engine_ok: "engine_ok isofmt sample_engine"
  using valid_stored_task [OF sample_task_valid]
  by (simp add: engine_ok_def sample_engine_def valid_table_def versions_ok_def row_fields_task_to_row)
    (simp add: sample_task_def)

theorem processing_loop_invariant_witness:
  "engine_ok (\<lambda>_. True) (snd (processing_loop (\<lambda>_. True)
     [(DeleteTaskMutation ''r1'' ''u'' ''task-1'', sample_env),
      (CancelTaskMutation ''r2'' ''u'' ''task-1'' ''why'', sample_env)] sample_engine))"
  using processing_loop_invariant [OF sample_engine_ok,
      of "[(DeleteTaskMutation ''r1'' ''u'' ''task-1'', sample_env),
           (CancelTaskMutation ''r2'' ''u'' ''task-1'' ''why'', sample_env)]" "\<lambda>_. True"]
  by (simp add: not_blank_def py_isspace_def)

text \<open>
  C3: whatever well-formed mutations are processed, a task that is there before and after (under
  an id that no creation of the run reuses) has the same creator, and its status moved along edges
  of the lifecycle table only.
\<close>

theorem engine_respects_lifecycle:
  assumes "engine_ok isofmt es" and "list_all (valid_mutation \<circ> fst) q"
    and "k \<notin> (\<lambda>(m, ev). ''task-'' @ new_id ev) ` set q"
    and "lookup_task isofmt (snd (processing_loop isofmt q es)) k = Some t'"
  shows "\<exists>t. lookup_task isofmt es k = Some t \<and> t_created_by t' = t_created_by t \<and>
    sm_reach task_machine (t_status t) (t_status t')"
  using assms
proof (induction q arbitrary: es)
  case Nil
  then show ?case by (auto intro: reach_refl)
next
  case (Cons x q)
  obtain m ev where x: "x = (m, ev)" by fastforce
  obtain r es1 where one: "process_one isofmt ev m es = (r, es1)" by fastforce
  have ok1: "engine_ok isofmt es1"
    using process_one_ok [of m isofmt es ev] Cons.prems one x by simp
  have later: "lookup_task isofmt (snd (processing_loop isofmt q es1)) k = Some t'"
    using Cons.prems(4) one x by (simp split: prod.splits)
  obtain t1 where t1: "lookup_task isofmt es1 k = Some t1" "t_created_by t' = t_created_by t1"
      "sm_reach task_machine (t_status t1) (t_status t')"
    using Cons.IH [OF ok1 _ _ later] Cons.prems(2,3) x by auto
  have "change_of ev m \<noteq> Created k"
    using Cons.prems(3) x by (cases m) auto
  moreover have "changes_to isofmt (change_of ev m) es es1"
    using process_one_change [of m isofmt es ev] Cons.prems(2) one x by simp
  ultimately obtain t where "lookup_task isofmt es k = Some t" "t_created_by t1 = t_created_by t"
      "t_status t1 = t_status t \<or> sm_step task_machine (t_status t) (t_status t1)"
    using table_change_lookup [OF _ Cons.prems(1) _ t1(1)] by blast
  with t1 show ?case by (metis sm_reach_trans sm_step_reach)
qed

text \<open>A run over the sample engine: reject the task, then try to cancel it.\<close>

lemma sample_reject:
  "process_one (\<lambda>_. True) sample_env
     (TransitionTaskMutation ''r'' ''u'' ''task-1'' REJECTED ''no'' [] (Some 1)) sample_engine =
   (success ''r'' (Some (sample_task\<lparr>t_status := REJECTED\<rparr>)) 2 (Some CREATED),
    \<lparr>tasks = [(''task-1'', task_to_row (sample_task\<lparr>t_status := REJECTED\<rparr>))],
     versions = [(''task-1'', 2)]\<rparr>)"
proof -
  have get: "repo_get False (\<lambda>_. True) ''task-1'' (tasks sample_engine) = Inr (Some sample_task)"
    using row_to_task_saved [OF sample_task_valid]
    by (simp add: repo_get_def sample_engine_def) (simp add: sample_task_def stored_task_def)
  have "with_transition (\<lambda>_. True) sample_task REJECTED [] = Inr (sample_task\<lparr>t_status := REJECTED\<rparr>)"
    using valid_task_set_status [OF sample_task_valid, of REJECTED]
    by (simp add: with_transition_no_overrides task_step_simps sample_task_def requires_assignee_def)
  with get show ?thesis
    by (simp add: process_one_def apply_transition_def sample_env_def vt_check_def sample_engine_def
        vt_seed_def vt_get_def dget_or_def Let_def save_and_bump_def repo_save_def vt_bump_def)
      (simp add: sample_task_def)
qed

theorem engine_respects_lifecycle_witness:
  "\<exists>t. lookup_task (\<lambda>_. True) sample_engine ''task-1'' = Some t \<and> ''ceo'' = t_created_by t \<and>
    sm_reach task_machine (t_status t) REJECTED"
proof -
  let ?q = "[(TransitionTaskMutation ''r'' ''u'' ''task-1'' REJECTED ''no'' [] (Some 1), sample_env)]"
  let ?t' = "sample_task\<lparr>t_status := REJECTED\<rparr>"
  have fin: "snd (processing_loop (\<lambda>_. True) ?q sample_engine) =
      \<lparr>tasks = [(''task-1'', task_to_row ?t')], versions = [(''task-1'', 2)]\<rparr>"
    by (simp add: sample_reject)
  have v: "valid_task (\<lambda>_. True) ?t'"
    using valid_task_set_status [OF sample_task_valid, of REJECTED]
    by (simp add: task_step_simps sample_task_def requires_assignee_def)
  have "lookup_task (\<lambda>_. True) (snd (processing_loop (\<lambda>_. True) ?q sample_engine)) ''task-1''
      = Some (stored_task ?t')"
    unfolding fin by (simp add: lookup_task_def sqlite_get_def repo_get_def row_to_task_saved [OF v])
  from engine_respects_lifecycle [OF sample_engine_ok _ _ this]
  show ?thesis
    by (simp add: reject_immutable_def expected_ok_def not_blank_def py_isspace_def sample_env_def)
      (simp add: sample_task_def stored_task_def)
qed

text \<open>A request that names the version it expects, and one that then writes the task.\<close>

fun expects :: "string \<Rightarrow> int \<Rightarrow> TaskMutation \<Rightarrow> bool" where
  "expects k v (UpdateTaskMutation _ _ k' _ e) = (k' = k \<and> e = Some v)"
| "expects k v (TransitionTaskMutation _ _ k' _ _ _ e) = (k' = k \<and> e = Some v)"
| "expects k v _ = False"

fun empty_update :: "TaskMutation \<Rightarrow> bool" where
  "empty_update (UpdateTaskMutation _ _ _ ups _) = (ups = [])"
| "empty_update _ = False"

lemma save_and_bump_success:
  assumes "save_and_bump ev rid k old t es = (Inr r, es')" and "dget (tasks es) k \<noteq> None"
    and "dget (versions es) k = Some v"
  shows "dget (versions es') k = Some (v + 1) \<and> dget (tasks es') k \<noteq> None"
  using assms
  by (auto simp: save_and_bump_def repo_save_def vt_bump_def vt_seed_def vt_get_def dget_or_def Let_def
      split: if_splits)

lemma versioned_success:
  assumes "process_one isofmt ev m es = (r, es')" and "res_success r"
    and "expects k v m" and "\<not> empty_update m"
  shows "dget (versions es') k = Some (v + 1) \<and> dget (tasks es') k \<noteq> None"
proof -
  have row: "repo_get f isofmt k (tasks es) = Inr (Some t) \<Longrightarrow> dget (tasks es) k \<noteq> None" for f t
    by (auto simp: repo_get_def split: if_splits option.splits)
  have chk: "vt_check k (Some v) (versions es) = (Inr u, vs) \<Longrightarrow> dget vs k = Some v" for u vs
    by (auto simp: vt_check_def vt_seed_def vt_get_def dget_or_def Let_def split: if_splits option.splits)
  have wr: "save_and_bump ev rid k old t (es\<lparr>versions := vs\<rparr>) = (Inr r, es') \<Longrightarrow>
      repo_get f isofmt k (tasks es) = Inr (Some x) \<Longrightarrow>
      vt_check k (Some v) (versions es) = (Inr u, vs) \<Longrightarrow> ?thesis" for rid old t vs f x u
    using save_and_bump_success [of ev rid k old t "es\<lparr>versions := vs\<rparr>" r es' v] row chk by simp
  have ok: "dispatch isofmt ev m es = (Inr r, es')"
    using assms(1,2) by (auto simp: process_one_def split: sum.splits prod.splits)
  show ?thesis
  proof (cases m)
    case (UpdateTaskMutation rid b k' ups e)
    with assms(3,4) ok assms(2) show ?thesis
      by (auto simp: apply_update_def not_found_result_def Let_def
          split: sum.splits option.splits prod.splits dest: wr)
  next
    case (TransitionTaskMutation rid b k' s re ovs e)
    with assms(3,4) ok assms(2) show ?thesis
      by (auto simp: apply_transition_def not_found_result_def Let_def
          split: sum.splits option.splits prod.splits dest: wr)
  qed (use assms(3) in simp_all)
qed

lemma versioned_conflict:
  assumes "engine_ok isofmt es" and "\<not> get_fault ev" and "expects k v m"
    and "dget (tasks es) k \<noteq> None" and "dget (versions es) k = Some w" and "w \<noteq> v"
  shows "res_error_code (fst (process_one isofmt ev m es)) = Some VersionConflict \<and>
    tasks (snd (process_one isofmt ev m es)) = tasks es"
proof -
  obtain t where get: "repo_get (get_fault ev) isofmt k (tasks es) = Inr (Some t)"
    using assms(1,2,4) by (auto simp: engine_ok_def repo_get_valid)
  have "vt_check k (Some v) (versions es) = (Inl (TaskVersionConflict k v w), versions es)"
    using assms(5,6) by (simp add: vt_check_def vt_seed_def vt_get_def dget_or_def)
  with get assms(3) show ?thesis
    by (cases m) (simp_all add: process_one_def apply_update_def apply_transition_def failure_def)
qed

lemma loop_versions:
  assumes "engine_ok isofmt es" and "list_all (valid_mutation \<circ> fst) q"
    and "\<And>m ev. (m, ev) \<in> set q \<Longrightarrow> change_of ev m \<noteq> Deleted k \<and> change_of ev m \<noteq> Created k"
    and "dget (versions es) k = Some v" and "dget (tasks es) k \<noteq> None"
  shows "\<exists>w. dget (versions (snd (processing_loop isofmt q es))) k = Some w \<and> v \<le> w \<and>
    dget (tasks (snd (processing_loop isofmt q es))) k \<noteq> None"
  using assms
proof (induction q arbitrary: es v)
  case Nil
  then show ?case by simp
next
  case (Cons x q)
  obtain m ev where x: "x = (m, ev)" by fastforce
  obtain r es1 where one: "process_one isofmt ev m es = (r, es1)" by fastforce
  have ok1: "engine_ok isofmt es1"
    using process_one_ok [of m isofmt es ev] Cons.prems(1,2) one x by simp
  have "changes_to isofmt (change_of ev m) es es1"
    using process_one_change [of m isofmt es ev] Cons.prems(2) one x by simp
  then obtain c where c: "table_change isofmt c es es1" "c = NoWrite \<or> c = change_of ev m" by blast
  have "c \<noteq> Deleted k" "c \<noteq> Created k"
    using c(2) Cons.prems(3) [of m ev] x by auto
  from table_change_version [OF c(1) this Cons.prems(4)] Cons.prems(5)
  obtain v1 where v1: "dget (versions es1) k = Some v1" "v \<le> v1" "dget (tasks es1) k \<noteq> None" by blast
  have "list_all (valid_mutation \<circ> fst) q" using Cons.prems(2) by (simp add: comp_def)
  from Cons.IH [OF ok1 this _ v1(1,3)] Cons.prems(3) v1(2) one x show ?case
    by (force split: prod.splits)
qed

text \<open>
  C2: no lost updates. After an update or transition that expected version \<open>v\<close> of a task has
  succeeded, any later request that still expects \<open>v\<close> for the task is refused with a version
  conflict and writes nothing, whatever mutations were processed in between, as long as the task
  was not deleted or created anew.
\<close>

theorem no_lost_update:
  assumes "engine_ok isofmt es" and "valid_mutation m1" and "expects k v m1" and "\<not> empty_update m1"
    and "process_one isofmt ev1 m1 es = (r1, es1)" and "res_success r1"
    and "list_all (valid_mutation \<circ> fst) q"
    and "\<And>m ev. (m, ev) \<in> set q \<Longrightarrow> change_of ev m \<noteq> Deleted k \<and> change_of ev m \<noteq> Created k"
    and "es2 = snd (processing_loop isofmt q es1)"
    and "expects k v m2" and "\<not> get_fault ev2"
  shows "res_error_code (fst (process_one isofmt ev2 m2 es2)) = Some VersionConflict \<and>
    tasks (snd (process_one isofmt ev2 m2 es2)) = tasks es2"
proof -
  have ok1: "engine_ok isofmt es1" using process_one_ok [OF assms(2,1), of ev1] assms(5) by simp
  have ok2: "engine_ok isofmt es2"
    using processing_loop_invariant_aux [OF ok1 assms(7)] by (simp add: assms(9))
  obtain w where "dget (versions es2) k = Some w" "v + 1 \<le> w" "dget (tasks es2) k \<noteq> None"
    using loop_versions [OF ok1 assms(7,8)] versioned_success [OF assms(5,6,3,4)] assms(9) by blast
  then show ?thesis using versioned_conflict [OF ok2 assms(11,10)] by simp
qed

theorem no_lost_update_witness:
  "res_error_code (fst (process_one (\<lambda>_. True) sample_env
     (TransitionTaskMutation ''r2'' ''u'' ''task-1'' ASSIGNED ''go'' [] (Some 1))
     \<lparr>tasks = [(''task-1'', task_to_row (sample_task\<lparr>t_status := REJECTED\<rparr>))],
      versions = [(''task-1'', 2)]\<rparr>)) = Some VersionConflict"
  by (rule no_lost_update [where q = "[]" and k = "''task-1''" and v = 1,
        OF sample_engine_ok _ _ _ sample_reject, THEN conjunct1])
    (simp_all add: reject_immutable_def expected_ok_def not_blank_def py_isspace_def sample_env_def)

text \<open>
  Cancelling an existing task without database faults succeeds exactly when its status is
  ASSIGNED, IN_PROGRESS, IN_REVIEW or AUTH_REQUIRED; in every other status (a task that is only
  created, blocked, failed, interrupted or suspended included) the request is refused with a
  validation error and the table is unchanged.
\<close>

theorem cancel_outcome:
  assumes "engine_ok isofmt es" and "\<not> get_fault ev" and "\<not> save_fault ev"
    and "lookup_task isofmt es k = Some t"
  shows "(res_success (fst (process_one isofmt ev (CancelTaskMutation rid u k why) es)) \<longleftrightarrow>
      t_status t \<in> {ASSIGNED, IN_PROGRESS, IN_REVIEW, AUTH_REQUIRED}) \<and>
    lookup_task isofmt (snd (process_one isofmt ev (CancelTaskMutation rid u k why) es)) k =
      Some (if t_status t \<in> {ASSIGNED, IN_PROGRESS, IN_REVIEW, AUTH_REQUIRED}
            then t\<lparr>t_status := CANCELLED\<rparr> else t)"
proof -
  have get: "repo_get (get_fault ev) isofmt k (tasks es) = Inr (Some t)"
    using assms(1,2,4) by (simp add: engine_ok_def repo_get_valid lookup_task_valid)
  have t: "valid_task isofmt t" "stored_task t = t" "t_id t = k"
    using sqlite.get_ok [of isofmt "tasks es" k t] assms(1,4)
    by (simp_all add: lookup_task_def engine_ok_def)
  show ?thesis
  proof (cases "t_status t \<in> {ASSIGNED, IN_PROGRESS, IN_REVIEW, AUTH_REQUIRED}")
    case True
    then have step: "sm_step task_machine (t_status t) CANCELLED" by (simp add: task_step_into)
    have v: "valid_task isofmt (t\<lparr>t_status := CANCELLED\<rparr>)"
      using valid_task_set_status [OF t(1) step] by (simp add: requires_assignee_def)
    then have "with_transition isofmt t CANCELLED [] = Inr (t\<lparr>t_status := CANCELLED\<rparr>)"
      using step by (simp add: with_transition_no_overrides)
    moreover have "stored_task (t\<lparr>t_status := CANCELLED\<rparr>) = t\<lparr>t_status := CANCELLED\<rparr>"
      using t(2) by (cases t) (simp add: stored_task_def)
    ultimately show ?thesis
      using True get assms(3) t(3) row_to_task_saved [OF v]
      by (simp add: process_one_def apply_cancel_def save_and_bump_def repo_save_def lookup_task_def
          sqlite_get_def repo_get_def split: prod.splits)
  next
    case False
    then have "\<not> sm_step task_machine (t_status t) CANCELLED" by (simp add: task_step_into)
    then have "\<exists>e. with_transition isofmt t CANCELLED [] = Inl e"
      by (cases "with_transition isofmt t CANCELLED []") (simp_all add: with_transition_no_overrides)
    with False get assms(4) show ?thesis by (auto simp: process_one_def apply_cancel_def)
  qed
qed

lemma sample_lookup: "lookup_task (\<lambda>_. True) sample_engine ''task-1'' = Some sample_task"
  using row_to_task_saved [OF sample_task_valid]
  by (simp add: lookup_task_def sqlite_get_def repo_get_def sample_engine_def)
    (simp add: sample_task_def stored_task_def)

theorem cancel_outcome_witness:
  "\<not> res_success (fst (process_one (\<lambda>_. True) sample_env
      (CancelTaskMutation ''r'' ''u'' ''task-1'' ''stop'') sample_engine))"
  using cancel_outcome [OF sample_engine_ok _ _ sample_lookup, of sample_env "''r''" "''u''" "''stop''"]
  by (simp add: sample_env_def sample_task_def)

text \<open>
  A creation request that names an assignee is always refused with a validation error: the
  new task has status CREATED, for which \<open>Task\<close> does not allow an assignee. A request without one
  succeeds when its data are valid and the fresh id is not among its dependencies, and the stored
  task then has version one.
\<close>

theorem create_outcome:
  assumes "valid_create_data d" and "\<not> save_fault ev"
  shows "(d_assigned_to d \<noteq> None \<longrightarrow>
      res_error_code (fst (process_one isofmt ev (CreateTaskMutation rid u d) es)) = Some Validation \<and>
      snd (process_one isofmt ev (CreateTaskMutation rid u d) es) = es) \<and>
    (d_assigned_to d = None \<and> distinct (d_dependencies d) \<and>
       ''task-'' @ new_id ev \<notin> set (d_dependencies d) \<longrightarrow>
      res_success (fst (process_one isofmt ev (CreateTaskMutation rid u d) es)) \<and>
      lookup_task isofmt (snd (process_one isofmt ev (CreateTaskMutation rid u d) es))
        (''task-'' @ new_id ev) = Some (created_task (''task-'' @ new_id ev) d) \<and>
      vt_get (''task-'' @ new_id ev)
        (versions (snd (process_one isofmt ev (CreateTaskMutation rid u d) es))) = 1)"
proof (intro conjI impI)
  let ?t = "created_task (''task-'' @ new_id ev) d"
  assume "d_assigned_to d \<noteq> None"
  then have "\<not> valid_task isofmt ?t" by (auto simp: valid_task_def created_task_def)
  from model_validate_invalid [OF this]
  show "res_error_code (fst (process_one isofmt ev (CreateTaskMutation rid u d) es)) = Some Validation"
    and "snd (process_one isofmt ev (CreateTaskMutation rid u d) es) = es"
    by (auto simp: process_one_def apply_create_def failure_def)
next
  let ?id = "''task-'' @ new_id ev"
  let ?t = "created_task ?id d"
  assume *: "d_assigned_to d = None \<and> distinct (d_dependencies d) \<and> ?id \<notin> set (d_dependencies d)"
  have v: "valid_task isofmt ?t"
    using * assms(1) by (simp add: valid_task_def created_task_def field_constraints_def
        valid_create_data_def requires_assignee_def) (simp add: not_blank_def py_isspace_def)
  have st: "stored_task ?t = ?t" "t_id ?t = ?id" by (simp_all add: stored_task_def created_task_def)
  have run: "process_one isofmt ev (CreateTaskMutation rid u d) es = (success rid (Some ?t) 1 None,
      es\<lparr>tasks := dput ?id (task_to_row ?t) (tasks es), versions := dput ?id 1 (versions es)\<rparr>)"
    using assms(2) model_validate_valid [OF v] st(2)
    by (simp add: process_one_def apply_create_def repo_save_def vt_set_initial_def Let_def)
  show "res_success (fst (process_one isofmt ev (CreateTaskMutation rid u d) es))"
    by (simp add: run)
  show "vt_get ?id (versions (snd (process_one isofmt ev (CreateTaskMutation rid u d) es))) = 1"
    unfolding run by (simp add: vt_get_def)
  show "lookup_task isofmt (snd (process_one isofmt ev (CreateTaskMutation rid u d) es)) ?id = Some ?t"
    unfolding run using row_to_task_saved [OF v] st(1)
    by (simp add: lookup_task_def sqlite_get_def repo_get_def)
qed

definition sample_create :: CreateTaskData where
  "sample_create = \<lparr>d_title = ''T'', d_description = ''D'', d_type = DESIGN, d_priority = LOW,
     d_project = ''P'', d_created_by = ''ceo'', d_assigned_to = Some ''bob'', d_dependencies = [],
     d_estimated_complexity = SIMPLE, d_budget_limit = 5\<rparr>"

theorem create_outcome_witness:
  "res_error_code (fst (process_one (\<lambda>_. True) sample_env
      (CreateTaskMutation ''r'' ''u'' sample_create) sample_engine)) = Some Validation"
  using create_outcome [of sample_create sample_env "\<lambda>_. True" "''r''" "''u''" sample_engine]
  by (simp add: sample_create_def sample_env_def valid_create_data_def not_blank_def py_isspace_def)

subsection \<open>Walks through the engine\<close>

text \<open>A transition request along an edge of the lifecycle, for a task with an assignee, goes through.\<close>

lemma transition_success:
  assumes "engine_ok isofmt es" and "lookup_task isofmt es k = Some t" and "\<not> get_fault ev" and "\<not> save_fault ev"
    and "sm_step task_machine (t_status t) s" and "t_assigned_to t \<noteq> None"
    and m: "valid_mutation (TransitionTaskMutation rid u k s why [] None)"
    and run: "process_one isofmt ev (TransitionTaskMutation rid u k s why [] None) es = (r, es')"
  shows "res_success r" "lookup_task isofmt es' k = Some (t\<lparr>t_status := s\<rparr>)" "engine_ok isofmt es'"
proof -
  have get: "repo_get (get_fault ev) isofmt k (tasks es) = Inr (Some t)"
    using assms(1-3) by (simp add: engine_ok_def repo_get_valid lookup_task_valid)
  have t: "valid_task isofmt t" "stored_task t = t" "t_id t = k"
    using sqlite.get_ok [of isofmt "tasks es" k t] assms(1,2) by (simp_all add: lookup_task_def engine_ok_def)
  have v: "valid_task isofmt (t\<lparr>t_status := s\<rparr>)" using valid_task_set_status [OF t(1) assms(5)] assms(6) by simp
  have "with_transition isofmt t s [] = Inr (t\<lparr>t_status := s\<rparr>)"
    using assms(5) v by (simp add: with_transition_no_overrides)
  moreover have "stored_task (t\<lparr>t_status := s\<rparr>) = t\<lparr>t_status := s\<rparr>" using t(2) by (cases t) (simp add: stored_task_def)
  ultimately have "process_one isofmt ev (TransitionTaskMutation rid u k s why [] None) es =
      (success rid (Some (t\<lparr>t_status := s\<rparr>)) (fst (vt_bump k (versions es))) (Some (t_status t)),
       es\<lparr>tasks := dput k (task_to_row (t\<lparr>t_status := s\<rparr>)) (tasks es), versions := snd (vt_bump k (versions es))\<rparr>)"
    using get assms(4) t(3)
    by (simp add: process_one_def apply_transition_def save_and_bump_def repo_save_def vt_check_def split: prod.splits)
  moreover note row_to_task_saved [OF v] \<open>stored_task (t\<lparr>t_status := s\<rparr>) = t\<lparr>t_status := s\<rparr>\<close>
  ultimately show "res_success r" "lookup_task isofmt es' k = Some (t\<lparr>t_status := s\<rparr>)"
    using run by (auto simp: lookup_task_def sqlite_get_def repo_get_def)
  show "engine_ok isofmt es'" using process_one_ok [OF m assms(1)] run by (metis snd_conv)
qed

lemma walk_through_engine:
  assumes "engine_ok isofmt es" and "lookup_task isofmt es k = Some t" and "t_assigned_to t \<noteq> None"
    and "sm_walk task_machine (t_status t) (List.map fst steps)"
    and "list_all (\<lambda>(s, rid, u, why, ev). \<not> get_fault ev \<and> \<not> save_fault ev \<and>
        valid_mutation (TransitionTaskMutation rid u k s why [] None)) steps"
    and "processing_loop isofmt (List.map (\<lambda>(s, rid, u, why, ev). (TransitionTaskMutation rid u k s why [] None, ev)) steps) es = (rs, es')"
  shows "list_all res_success rs \<and> lookup_task isofmt es' k = Some (t\<lparr>t_status := last (t_status t # List.map fst steps)\<rparr>)"
  using assms
proof (induction steps arbitrary: es t rs)
  case (Cons st steps)
  obtain s rid u why ev where st: "st = (s, rid, u, why, ev)" by (cases st) auto
  obtain r es1 where one: "process_one isofmt ev (TransitionTaskMutation rid u k s why [] None) es = (r, es1)"
    by (cases "process_one isofmt ev (TransitionTaskMutation rid u k s why [] None) es")
  have step: "sm_step task_machine (t_status t) s" "sm_walk task_machine s (List.map fst steps)"
    using Cons.prems(4) by (simp_all add: st)
  have here: "\<not> get_fault ev" "\<not> save_fault ev" "valid_mutation (TransitionTaskMutation rid u k s why [] None)"
    using Cons.prems(5) by (simp_all add: st)
  note ok = transition_success [OF Cons.prems(1,2) here(1,2) step(1) Cons.prems(3) here(3) one]
  obtain rs1 where rest: "processing_loop isofmt (List.map (\<lambda>(s, rid, u, why, ev).
      (TransitionTaskMutation rid u k s why [] None, ev)) steps) es1 = (rs1, es')" "rs = r # rs1"
    using Cons.prems(6) one by (auto simp: st split: prod.splits)
  have "list_all res_success rs1 \<and> lookup_task isofmt es' k =
      Some (t\<lparr>t_status := s, t_status := last (s # List.map fst steps)\<rparr>)"
  proof -
    have tail: "list_all (\<lambda>(s, rid, u, why, ev). \<not> get_fault ev \<and> \<not> save_fault ev \<and>
        valid_mutation (TransitionTaskMutation rid u k s why [] None)) steps"
      using Cons.prems(5) unfolding list.pred_inject by blast
    show ?thesis using Cons.IH [OF ok(3,2) _ _ tail rest(1)] step(2) Cons.prems(3) by simp
  qed
  then show ?case using ok(1) rest(2) by (simp add: st)
qed simp

end
