(* ===== verification/Task_Execution.thy ===== *)
theory Task_Execution
  imports Task_Model
begin

text \<open>
  The runtime wrapper of a task, \<^verbatim>\<open>engine/task_execution.py\<close>: the frozen \<open>TaskExecution\<close> with its
  transition log, cost totals and timestamps, and the \<open>TokenUsage\<close> arithmetic it uses from
  \<^verbatim>\<open>providers/models.py\<close>. The clock reading is an argument of a transition. An execution is
  driven by a list of events, each a transition or the cost of one turn.
\<close>

record TokenUsage =
  input_tokens :: int
  output_tokens :: int
  cost :: rat

definition total_tokens :: "TokenUsage \<Rightarrow> int" where
  "total_tokens u = input_tokens u + output_tokens u"

definition ZERO_TOKEN_USAGE :: TokenUsage where
  "ZERO_TOKEN_USAGE = \<lparr>input_tokens = 0, output_tokens = 0, cost = 0\<rparr>"

definition add_token_usage :: "TokenUsage \<Rightarrow> TokenUsage \<Rightarrow> TokenUsage" where
  "add_token_usage a b =
     \<lparr>input_tokens = input_tokens a + input_tokens b,
      output_tokens = output_tokens a + output_tokens b, cost = cost a + cost b\<rparr>"

record StatusTransition =
  from_status :: TaskStatus
  to_status :: TaskStatus
  timestamp :: time
  reason :: string

record TaskExecution =
  x_task :: Task
  x_status :: TaskStatus
  transition_log :: "StatusTransition list"
  accumulated_cost :: TokenUsage
  turn_count :: int
  retry_count :: int
  started_at :: "time option"
  completed_at :: "time option"

definition TERMINAL_STATUSES :: "TaskStatus set" where
  "TERMINAL_STATUSES = fst ` set (filter (\<lambda>(s, targets). targets = {}) VALID_TRANSITIONS)"

definition is_terminal :: "TaskExecution \<Rightarrow> bool" where
  "is_terminal e \<longleftrightarrow> x_status e \<in> TERMINAL_STATUSES"

definition from_task :: "Task \<Rightarrow> int \<Rightarrow> TaskExecution" where
  "from_task t retries =
     \<lparr>x_task = t, x_status = t_status t, transition_log = [], accumulated_cost = ZERO_TOKEN_USAGE,
      turn_count = 0, retry_count = retries, started_at = None, completed_at = None\<rparr>"

definition build_transition_updates ::
  "TaskExecution \<Rightarrow> TaskStatus \<Rightarrow> StatusTransition \<Rightarrow> time \<Rightarrow> TaskExecution" where
  "build_transition_updates e target transition now =
     (let e1 = e\<lparr>x_status := target, transition_log := transition_log e @ [transition]\<rparr>;
          e2 = (if target = IN_PROGRESS \<and> started_at e = None then e1\<lparr>started_at := Some now\<rparr> else e1)
      in if target \<in> TERMINAL_STATUSES then e2\<lparr>completed_at := Some now\<rparr> else e2)"

datatype exec_error = ExecBadTransition "TaskStatus sm_error" | ExecutionState

definition exec_transition ::
  "TaskStatus \<Rightarrow> string \<Rightarrow> time \<Rightarrow> TaskExecution \<Rightarrow> exec_error + TaskExecution" where
  "exec_transition target why now e =
     (case validate_transition (x_status e) target of
        Inl err \<Rightarrow> Inl (ExecBadTransition err)
      | Inr _ \<Rightarrow>
          Inr (build_transition_updates e target
            \<lparr>from_status = x_status e, to_status = target, timestamp = now, reason = why\<rparr> now))"

definition with_cost :: "TokenUsage \<Rightarrow> TaskExecution \<Rightarrow> exec_error + TaskExecution" where
  "with_cost usage e =
     (if is_terminal e then Inl ExecutionState
      else Inr (e\<lparr>accumulated_cost := add_token_usage (accumulated_cost e) usage,
                  turn_count := turn_count e + 1\<rparr>))"

definition to_task_snapshot :: "TaskExecution \<Rightarrow> Task" where
  "to_task_snapshot e = (x_task e)\<lparr>t_status := x_status e\<rparr>"

datatype exec_event = Transition TaskStatus string time | Turn TokenUsage

fun exec_step :: "exec_event \<Rightarrow> TaskExecution \<Rightarrow> exec_error + TaskExecution" where
  "exec_step (Transition target why now) e = exec_transition target why now e"
| "exec_step (Turn usage) e = with_cost usage e"

fun exec_run :: "exec_event list \<Rightarrow> TaskExecution \<Rightarrow> exec_error + TaskExecution" where
  "exec_run [] e = Inr e"
| "exec_run (ev # evs) e = rbind (exec_step ev e) (exec_run evs)"

subsection \<open>Lemmas\<close>

lemma TERMINAL_STATUSES_eq: "TERMINAL_STATUSES = {COMPLETED, CANCELLED, REJECTED}"
  by (simp add: TERMINAL_STATUSES_def VALID_TRANSITIONS_def insert_commute)

lemma is_terminal_iff: "is_terminal e \<longleftrightarrow> sm_is_terminal task_machine (x_status e)"
  by (simp add: is_terminal_def TERMINAL_STATUSES_eq task_terminal_iff)

lemma exec_run_append: "exec_run (xs @ ys) e = rbind (exec_run xs e) (exec_run ys)"
  by (induction xs arbitrary: e) (auto simp: rbind_def split: sum.splits)

fun turns :: "exec_event list \<Rightarrow> TokenUsage list" where
  "turns [] = []"
| "turns (Turn u # evs) = u # turns evs"
| "turns (Transition _ _ _ # evs) = turns evs"

lemma turns_append [simp]: "turns (xs @ ys) = turns xs @ turns ys"
  by (induction xs rule: turns.induct) auto

text \<open>The audit log of an execution that began in status \<open>s0\<close>.\<close>

definition log_ok :: "TaskStatus \<Rightarrow> TaskExecution \<Rightarrow> bool" where
  "log_ok s0 e \<longleftrightarrow>
     sm_walk task_machine s0 (List.map to_status (transition_log e)) \<and>
     List.map from_status (transition_log e)
       = butlast (s0 # List.map to_status (transition_log e)) \<and>
     x_status e = last (s0 # List.map to_status (transition_log e)) \<and>
     started_at e = map_option timestamp (find (\<lambda>r. to_status r = IN_PROGRESS) (transition_log e)) \<and>
     (completed_at e \<noteq> None \<longleftrightarrow> transition_log e \<noteq> [] \<and> is_terminal e)"

lemma find_append: "find P (xs @ ys) = (case find P xs of None \<Rightarrow> find P ys | Some x \<Rightarrow> Some x)"
  by (induction xs) auto

lemma butlast_snoc_cons: "butlast (a # xs @ [b]) = butlast (a # xs) @ [last (a # xs)]"
  by (metis append_Cons append_butlast_last_id butlast_snoc list.distinct(1))

lemma log_ok_transition:
  assumes "log_ok s0 e" and "exec_transition target why now e = Inr e'"
  shows "log_ok s0 e'"
proof -
  have step: "sm_step task_machine (x_status e) target"
    using assms(2) by (auto simp: exec_transition_def validate_transition_def sm_step_def split: sum.splits)
  let ?r = "\<lparr>from_status = x_status e, to_status = target, timestamp = now, reason = why\<rparr>"
  have e': "e' = build_transition_updates e target ?r now"
    using assms(2) by (simp add: exec_transition_def split: sum.splits)
  have "\<not> is_terminal e"
    using step by (auto simp: is_terminal_iff dest: sm_terminal_no_step)
  then have "completed_at e = None" using assms(1) by (auto simp: log_ok_def)
  then show ?thesis
    using assms(1) step
    by (auto simp: log_ok_def e' build_transition_updates_def Let_def is_terminal_def find_append
        butlast_snoc_cons split: option.splits)
qed

lemma log_ok_cost: "log_ok s0 e \<Longrightarrow> with_cost u e = Inr e' \<Longrightarrow> log_ok s0 e'"
  by (auto simp: log_ok_def with_cost_def is_terminal_def split: if_splits)

definition exec_inv :: "Task \<Rightarrow> int \<Rightarrow> exec_event list \<Rightarrow> TaskExecution \<Rightarrow> bool" where
  "exec_inv t retries evs e \<longleftrightarrow>
     log_ok (t_status t) e \<and> x_task e = t \<and> retry_count e = retries \<and>
     turn_count e = int (length (turns evs)) \<and>
     accumulated_cost e = foldl add_token_usage ZERO_TOKEN_USAGE (turns evs)"

lemma exec_inv_step:
  assumes "exec_inv t n evs e" and "exec_step ev e = Inr e'"
  shows "exec_inv t n (evs @ [ev]) e'"
proof (cases ev)
  case (Transition target why now)
  then have *: "exec_transition target why now e = Inr e'" using assms(2) by simp
  then have "x_task e' = x_task e" "retry_count e' = retry_count e" "turn_count e' = turn_count e"
    "accumulated_cost e' = accumulated_cost e"
    by (auto simp: exec_transition_def build_transition_updates_def Let_def split: sum.splits if_splits)
  with assms(1) Transition log_ok_transition [OF _ *] show ?thesis by (simp add: exec_inv_def)
next
  case (Turn u)
  then have *: "with_cost u e = Inr e'" using assms(2) by simp
  with assms(1) Turn log_ok_cost [OF _ *] show ?thesis
    by (auto simp: exec_inv_def with_cost_def split: if_splits)
qed

lemma exec_inv_run: "exec_run evs (from_task t n) = Inr e \<Longrightarrow> exec_inv t n evs e"
proof (induction evs arbitrary: e rule: rev_induct)
  case Nil
  then show ?case by (auto simp: exec_inv_def log_ok_def from_task_def is_terminal_def)
next
  case (snoc ev evs)
  then obtain e1 where "exec_run evs (from_task t n) = Inr e1" "exec_step ev e1 = Inr e"
    by (auto simp: exec_run_append rbind_eq_Inr)
  with snoc.IH show ?case using exec_inv_step by blast
qed

lemma foldl_add_token_usage:
  "input_tokens (foldl add_token_usage a us) = input_tokens a + sum_list (List.map input_tokens us)"
  "output_tokens (foldl add_token_usage a us) = output_tokens a + sum_list (List.map output_tokens us)"
  "cost (foldl add_token_usage a us) = cost a + sum_list (List.map cost us)"
  by (induction us arbitrary: a) (simp_all add: add_token_usage_def)

lemma sum_list_total_tokens:
  "sum_list (List.map total_tokens us)
     = sum_list (List.map input_tokens us) + sum_list (List.map output_tokens us)"
  by (induction us) (simp_all add: total_tokens_def)

subsection \<open>Properties\<close>

text \<open>
  After any accepted sequence of transitions and turns, the transition log is a gapless walk
  along the lifecycle table from the task's status to the current one; \<open>started_at\<close> is the time of
  the first entry into IN_PROGRESS, \<open>completed_at\<close> is set exactly when a transition reached a
  terminal status, and turn count and totals are those of the recorded turns.
\<close>

theorem execution_audit_trail:
  assumes "exec_run evs (from_task t n) = Inr e"
  shows "sm_walk task_machine (t_status t) (List.map to_status (transition_log e)) \<and>
    List.map from_status (transition_log e)
      = butlast (t_status t # List.map to_status (transition_log e)) \<and>
    x_status e = last (t_status t # List.map to_status (transition_log e)) \<and>
    started_at e = map_option timestamp (find (\<lambda>r. to_status r = IN_PROGRESS) (transition_log e)) \<and>
    (completed_at e \<noteq> None \<longleftrightarrow> transition_log e \<noteq> [] \<and> is_terminal e) \<and>
    turn_count e = int (length (turns evs)) \<and>
    total_tokens (accumulated_cost e) = sum_list (List.map total_tokens (turns evs)) \<and>
    cost (accumulated_cost e) = sum_list (List.map cost (turns evs))"
  using exec_inv_run [OF assms] unfolding exec_inv_def log_ok_def
  by (simp add: total_tokens_def [of "foldl _ _ _"] foldl_add_token_usage ZERO_TOKEN_USAGE_def
      sum_list_total_tokens)

text \<open>A concrete run: assign, start, one turn, fail.\<close>

definition sample_events :: "exec_event list" where
  "sample_events = [Transition ASSIGNED ''a'' 1, Transition IN_PROGRESS ''b'' 2,
     Turn \<lparr>input_tokens = 10, output_tokens = 5, cost = 3\<rparr>, Transition IN_REVIEW ''c'' 3]"

lemma sample_run:
  "exec_run sample_events (from_task sample_task 0) =
     Inr \<lparr>x_task = sample_task, x_status = IN_REVIEW,
       transition_log =
         [\<lparr>from_status = CREATED, to_status = ASSIGNED, timestamp = 1, reason = ''a''\<rparr>,
          \<lparr>from_status = ASSIGNED, to_status = IN_PROGRESS, timestamp = 2, reason = ''b''\<rparr>,
          \<lparr>from_status = IN_PROGRESS, to_status = IN_REVIEW, timestamp = 3, reason = ''c''\<rparr>],
       accumulated_cost = \<lparr>input_tokens = 10, output_tokens = 5, cost = 3\<rparr>,
       turn_count = 1, retry_count = 0, started_at = Some 2, completed_at = None\<rparr>"
  by (simp add: sample_events_def exec_transition_def validate_transition_def sm_validate_def
      task_machine_def VALID_TRANSITIONS_def build_transition_updates_def TERMINAL_STATUSES_eq
      from_task_def with_cost_def is_terminal_def add_token_usage_def ZERO_TOKEN_USAGE_def)
    (simp add: sample_task_def)

theorem execution_audit_trail_witness:
  "sm_walk task_machine CREATED [ASSIGNED, IN_PROGRESS, IN_REVIEW] \<and>
   sum_list (List.map cost (turns sample_events)) = 3"
  using execution_audit_trail [OF sample_run] by (simp add: sample_task_def)

text \<open>
  A terminal execution is frozen: every further transition and every further cost record is
  an error.
\<close>

theorem terminal_execution_frozen:
  assumes "is_terminal e"
  shows "\<exists>err. exec_step ev e = Inl err"
proof (cases ev)
  case (Transition target why now)
  have "\<not> sm_step task_machine (x_status e) target"
    using assms by (simp add: is_terminal_iff sm_terminal_no_step)
  then show ?thesis
    using Transition by (cases "validate_transition (x_status e) target")
      (auto simp: exec_transition_def validate_transition_def sm_step_def)
qed (use assms in \<open>simp add: with_cost_def\<close>)

theorem terminal_execution_frozen_witness:
  "\<exists>err. exec_step (Turn ZERO_TOKEN_USAGE) (from_task (sample_task\<lparr>t_status := REJECTED\<rparr>) 0) = Inl err"
  by (rule terminal_execution_frozen) (simp add: is_terminal_def from_task_def TERMINAL_STATUSES_eq)

text \<open>
  \<open>to_task_snapshot\<close> copies the status without running the validators: the snapshot of a valid
  task is valid exactly when the current status does not need an assignee the task lacks. In
  particular an unassigned task that was moved to ASSIGNED gives an invalid snapshot.
\<close>

theorem snapshot_validity:
  assumes "valid_task isofmt t" and "exec_run evs (from_task t n) = Inr e"
  shows "valid_task isofmt (to_task_snapshot e) \<longleftrightarrow>
    (x_status e \<in> requires_assignee \<longrightarrow> t_assigned_to t \<noteq> None)"
proof -
  have inv: "x_task e = t" "sm_walk task_machine (t_status t) (List.map to_status (transition_log e))"
    "x_status e = last (t_status t # List.map to_status (transition_log e))"
    using exec_inv_run [OF assms(2)] by (auto simp: exec_inv_def log_ok_def)
  have "x_status e = CREATED \<Longrightarrow> t_status t = CREATED"
    using inv(2,3) by (cases "List.map to_status (transition_log e)" rule: rev_cases)
      (auto simp: task_step_into)
  with assms(1) inv(1) show ?thesis
    by (auto simp: to_task_snapshot_def valid_task_def)
qed

theorem snapshot_validity_witness:
  "valid_task (\<lambda>_. True) sample_task \<and>
   (\<exists>e. exec_run sample_events (from_task sample_task 0) = Inr e \<and>
        \<not> valid_task (\<lambda>_. True) (to_task_snapshot e))"
  using sample_task_valid snapshot_validity [OF sample_task_valid sample_run, of "\<lambda>_. True"]
  by (simp add: sample_run requires_assignee_def) (simp add: sample_task_def)

end
