(* ===== verification/Hierarchy.thy ===== *)
theory Hierarchy
  imports Prelude
begin

text \<open>
  The organization chart: reporting lines, teams and departments of \<^verbatim>\<open>core/company.py\<close> and the
  \<open>HierarchyResolver\<close> of \<^verbatim>\<open>communication/delegation/hierarchy.py\<close>. The resolver folds the
  departments into two dictionaries (supervisor of an agent, reports of a supervisor), refuses a
  cyclic chart and answers queries by walking up the supervisor links.

  The cycle check is total and is proved terminating; the walks of the queries are plain
  \<open>while\<close> loops, hence \<open>partial_function (option)\<close> where \<open>None\<close> is a walk that does not end; that
  they end on every constructed resolver is proved. The locale \<open>org_chart\<close> is what the resolver
  promises its clients.
\<close>

subsection \<open>Company structure\<close>

record ReportingLine =
  subordinate :: agent
  supervisor :: agent
  subordinate_id :: "string option"
  supervisor_id :: "string option"

definition subordinate_key :: "ReportingLine \<Rightarrow> agent" where
  "subordinate_key l = (case subordinate_id l of Some i \<Rightarrow> i | None \<Rightarrow> subordinate l)"

definition supervisor_key :: "ReportingLine \<Rightarrow> agent" where
  "supervisor_key l = (case supervisor_id l of Some i \<Rightarrow> i | None \<Rightarrow> supervisor l)"

record Team =
  lead :: agent
  members :: "agent list"

record Department =
  head :: "agent option"
  head_id :: "string option"
  teams :: "Team list"
  reporting_lines :: "ReportingLine list"

subsection \<open>Construction\<close>

record charts =
  supervisor_of :: "(agent, agent) dict"
  reports_of :: "(agent, agent list) dict"

text \<open>\<open>supervisor_of[sub] = sup; reports_of.setdefault(sup, []).append(sub)\<close>.\<close>

definition assign :: "agent \<Rightarrow> agent \<Rightarrow> charts \<Rightarrow> charts" where
  "assign sub boss h =
     \<lparr>supervisor_of = dput sub boss (supervisor_of h),
      reports_of = dput boss (dget_or (reports_of h) boss [] @ [sub]) (reports_of h)\<rparr>"

definition link_lead :: "agent option \<Rightarrow> Team \<Rightarrow> charts \<Rightarrow> charts" where
  "link_lead dh tm h = (case dh of
     None \<Rightarrow> h
   | Some boss \<Rightarrow>
       if boss \<noteq> [] \<and> lead tm \<noteq> boss \<and> dget (supervisor_of h) (lead tm) = None
       then assign (lead tm) boss h else h)"

definition link_member :: "Team \<Rightarrow> agent \<Rightarrow> charts \<Rightarrow> charts" where
  "link_member tm m h =
     (if m = lead tm then h
      else if dget (supervisor_of h) m = None then assign m (lead tm) h
      else h)"

definition link_team :: "agent option \<Rightarrow> Team \<Rightarrow> charts \<Rightarrow> charts" where
  "link_team dh tm h = fold (link_member tm) (members tm) (link_lead dh tm h)"

definition link_line :: "ReportingLine \<Rightarrow> charts \<Rightarrow> charts" where
  "link_line l h =
     (let sub = subordinate_key l; boss = supervisor_key l; old_sup = dget (supervisor_of h) sub in
      if old_sup = Some boss then h
      else assign sub boss (case old_sup of
          None \<Rightarrow> h
        | Some old \<Rightarrow> h\<lparr>reports_of := dput old (filter (\<lambda>r. r \<noteq> sub) (dget_or (reports_of h) old []))
            (reports_of h)\<rparr>))"

definition link_department :: "Department \<Rightarrow> charts \<Rightarrow> charts" where
  "link_department d h = fold link_line (reporting_lines d) (fold (link_team (head d)) (teams d) h)"

definition empty_charts :: charts where
  "empty_charts = \<lparr>supervisor_of = [], reports_of = []\<rparr>"

definition link_company :: "Department list \<Rightarrow> charts" where
  "link_company ds = fold link_department ds empty_charts"

subsection \<open>Cycle detection\<close>

text \<open>The agent the walk started from and the agent where it closed the cycle.\<close>

datatype hierarchy_error = HierarchyResolutionError agent agent

text \<open>
  The inner \<open>while\<close> loop: it stops at the top of the chart or at an agent whose chain was already
  walked (\<open>Inr\<close> of the agents passed), or raises at an agent of the present walk (\<open>Inl\<close>).
\<close>

function detect_walk :: "(agent, agent) dict \<Rightarrow> agent set \<Rightarrow> agent set \<Rightarrow> agent option \<Rightarrow> agent + agent set" where
  "detect_walk boss visited in_stack None = Inr in_stack"
| "detect_walk boss visited in_stack (Some c) =
     (if c \<in> visited then Inr in_stack
      else if c \<in> in_stack then Inl c
      else detect_walk boss visited (insert c in_stack) (dget boss c))"
  by pat_completeness auto
termination
proof (relation "measure (\<lambda>(boss, visited, in_stack, c).
    case c of None \<Rightarrow> 0 | Some _ \<Rightarrow> Suc (card (set (dkeys boss) - in_stack)))")
  fix boss :: "(agent, agent) dict" and visited in_stack :: "agent set" and c :: agent
  assume new: "c \<notin> in_stack"
  have "card (set (dkeys boss) - insert c in_stack) < card (set (dkeys boss) - in_stack)"
    if "c \<in> set (dkeys boss)"
    using that new by (intro psubset_card_mono) auto
  then show "((boss, visited, insert c in_stack, dget boss c), (boss, visited, in_stack, Some c))
      \<in> measure (\<lambda>(boss, visited, in_stack, c).
          case c of None \<Rightarrow> 0 | Some _ \<Rightarrow> Suc (card (set (dkeys boss) - in_stack)))"
    by (auto simp del: set_map split: option.split dest: dget_Some_key)
qed simp

fun detect_from :: "(agent, agent) dict \<Rightarrow> agent list \<Rightarrow> agent set \<Rightarrow> hierarchy_error + unit" where
  "detect_from boss [] visited = Inr ()"
| "detect_from boss (a # as) visited =
     (if a \<in> visited then detect_from boss as visited
      else case detect_walk boss visited {} (Some a) of
             Inl c \<Rightarrow> Inl (HierarchyResolutionError a c)
           | Inr in_stack \<Rightarrow> detect_from boss as (visited \<union> in_stack))"

definition detect_cycles :: "(agent, agent) dict \<Rightarrow> hierarchy_error + unit" where
  "detect_cycles boss = detect_from boss (dkeys boss) {}"

definition HierarchyResolver :: "Department list \<Rightarrow> hierarchy_error + charts" where
  "HierarchyResolver ds = (let h = link_company ds in
     case detect_cycles (supervisor_of h) of Inl e \<Rightarrow> Inl e | Inr _ \<Rightarrow> Inr h)"

definition known_agents :: "charts \<Rightarrow> agent set" where
  "known_agents h = set (dkeys (supervisor_of h)) \<union> set (List.map snd (supervisor_of h)) \<union> set (dkeys (reports_of h))"

subsection \<open>Queries\<close>

definition get_supervisor :: "charts \<Rightarrow> agent \<Rightarrow> agent option" where
  "get_supervisor h a = dget (supervisor_of h) a"

definition get_direct_reports :: "charts \<Rightarrow> agent \<Rightarrow> agent list" where
  "get_direct_reports h a = dget_or (reports_of h) a []"

definition is_direct_report :: "charts \<Rightarrow> agent \<Rightarrow> agent \<Rightarrow> bool" where
  "is_direct_report h boss sub \<longleftrightarrow> sub \<in> set (get_direct_reports h boss)"

partial_function (option) is_subordinate :: "charts \<Rightarrow> agent \<Rightarrow> agent \<Rightarrow> bool option" where
  "is_subordinate h boss current = (case dget (supervisor_of h) current of
     None \<Rightarrow> Some False
   | Some c \<Rightarrow> if c = boss then Some True else is_subordinate h boss c)"

partial_function (option) ancestors_loop :: "charts \<Rightarrow> agent list \<Rightarrow> agent \<Rightarrow> agent list option" where
  "ancestors_loop h ancestors current = (case dget (supervisor_of h) current of
     None \<Rightarrow> Some ancestors
   | Some c \<Rightarrow> ancestors_loop h (ancestors @ [c]) c)"

definition get_ancestors :: "charts \<Rightarrow> agent \<Rightarrow> agent list option" where
  "get_ancestors h a = ancestors_loop h [] a"

definition get_lowest_common_manager :: "charts \<Rightarrow> agent \<Rightarrow> agent \<Rightarrow> agent option option" where
  "get_lowest_common_manager h a b =
     (if a = b then Some (if a \<in> known_agents h then Some a else None)
      else Option.bind (get_ancestors h a) (\<lambda>as. Option.bind (get_ancestors h b) (\<lambda>bs.
        Some (if a \<in> set bs then Some a
              else if b \<in> set as then Some b
              else List.find (\<lambda>c. c \<in> set bs) as))))"

partial_function (option) depth_loop :: "charts \<Rightarrow> agent \<Rightarrow> int \<Rightarrow> agent \<Rightarrow> int option option" where
  "depth_loop h from_agent depth current = (case dget (supervisor_of h) current of
     None \<Rightarrow> Some None
   | Some c \<Rightarrow> if c = from_agent then Some (Some (depth + 1)) else depth_loop h from_agent (depth + 1) c)"

definition get_delegation_depth :: "charts \<Rightarrow> agent \<Rightarrow> agent \<Rightarrow> int option option" where
  "get_delegation_depth h from_agent to_agent = depth_loop h from_agent 0 to_agent"

subsection \<open>The two dictionaries agree\<close>

text \<open>Every agent is listed once under its supervisor and nowhere else.\<close>

definition valid_charts :: "charts \<Rightarrow> bool" where
  "valid_charts h \<longleftrightarrow> distinct (dkeys (supervisor_of h)) \<and> (\<forall>m. distinct (get_direct_reports h m)) \<and>
     (\<forall>m a. a \<in> set (get_direct_reports h m) \<longleftrightarrow> get_supervisor h a = Some m)"

lemmas chart_defs = get_direct_reports_def get_supervisor_def

lemma assign_valid:
  assumes "distinct (dkeys (supervisor_of h))" and "\<And>m. distinct (get_direct_reports h m)"
    and "\<And>m a. a \<in> set (get_direct_reports h m) \<longleftrightarrow> a \<noteq> sub \<and> get_supervisor h a = Some m"
  shows "valid_charts (assign sub boss h)"
  using assms by (simp add: valid_charts_def assign_def chart_defs)

lemma assign_new_valid:
  assumes "valid_charts h" and "dget (supervisor_of h) sub = None"
  shows "valid_charts (assign sub boss h)"
  using assms by (intro assign_valid) (auto simp: valid_charts_def chart_defs)

lemma link_lead_valid: "valid_charts h \<Longrightarrow> valid_charts (link_lead dh tm h)"
  by (auto simp: link_lead_def assign_new_valid split: option.split)

lemma link_member_valid: "valid_charts h \<Longrightarrow> valid_charts (link_member tm m h)"
  by (auto simp: link_member_def assign_new_valid)

lemma link_line_valid:
  assumes "valid_charts h"
  shows "valid_charts (link_line l h)"
proof (cases "dget (supervisor_of h) (subordinate_key l)")
  case None
  then show ?thesis using assms assign_new_valid by (simp add: link_line_def Let_def)
next
  case (Some old)
  let ?h = "h\<lparr>reports_of := dput old (filter (\<lambda>r. r \<noteq> subordinate_key l) (dget_or (reports_of h) old []))
    (reports_of h)\<rparr>"
  have "valid_charts (assign (subordinate_key l) (supervisor_key l) ?h)"
    using assms Some by (intro assign_valid) (auto simp: valid_charts_def chart_defs)
  then show ?thesis using assms Some by (simp add: link_line_def Let_def)
qed

lemma fold_keeps: "(\<And>x s. x \<in> set xs \<Longrightarrow> P s \<Longrightarrow> P (f x s)) \<Longrightarrow> P s \<Longrightarrow> P (fold f xs s)"
  by (induction xs arbitrary: s) auto

lemmas fold_keeps_valid = fold_keeps [where P = valid_charts]

lemma link_team_valid: "valid_charts h \<Longrightarrow> valid_charts (link_team dh tm h)"
  unfolding link_team_def by (simp add: fold_keeps_valid link_member_valid link_lead_valid)

lemma link_department_valid: "valid_charts h \<Longrightarrow> valid_charts (link_department d h)"
  unfolding link_department_def by (simp add: fold_keeps_valid link_line_valid link_team_valid)

lemma link_company_valid: "valid_charts (link_company ds)"
proof -
  have "valid_charts empty_charts" by (simp add: valid_charts_def empty_charts_def chart_defs)
  then show ?thesis unfolding link_company_def by (simp add: fold_keeps_valid link_department_valid)
qed

subsection \<open>Cycle detection finds exactly the cycles\<close>

text \<open>The supervision relation: \<open>(a, m)\<close> when \<open>m\<close> is the supervisor of \<open>a\<close>.\<close>

definition up :: "(agent, agent) dict \<Rightarrow> (agent \<times> agent) set" where
  "up d = {(a, m). dget d a = Some m}"

lemma up_iff [simp]: "(a, m) \<in> up d \<longleftrightarrow> dget d a = Some m"
  by (simp add: up_def)

lemma finite_up: "finite (up d)"
proof (rule finite_subset)
  show "up d \<subseteq> set d" by (auto dest: dget_Some_in)
qed simp

lemma up_det: "(a, x) \<in> up d \<Longrightarrow> (a, y) \<in> up d \<Longrightarrow> x = y"
  by simp

lemma acc_step: "(\<And>m. dget d a = Some m \<Longrightarrow> m \<in> Wellfounded.acc ((up d)\<inverse>)) \<Longrightarrow> a \<in> Wellfounded.acc ((up d)\<inverse>)"
  by (rule accI) simp

lemma detect_walk_Inr:
  "detect_walk d visited in_stack cur = Inr out \<Longrightarrow> visited \<subseteq> Wellfounded.acc ((up d)\<inverse>) \<Longrightarrow>
   in_stack \<subseteq> out \<and> out \<subseteq> in_stack \<union> Wellfounded.acc ((up d)\<inverse>) \<and>
   (\<forall>c. cur = Some c \<longrightarrow> c \<in> Wellfounded.acc ((up d)\<inverse>) \<and> c \<in> visited \<union> out)"
proof (induction d visited in_stack cur rule: detect_walk.induct)
  case (2 d visited in_stack c)
  show ?case
  proof (cases "c \<in> visited \<or> c \<in> in_stack")
    case False
    then have ih: "insert c in_stack \<subseteq> out"
      "out \<subseteq> insert c in_stack \<union> Wellfounded.acc ((up d)\<inverse>)"
      "\<And>m. dget d c = Some m \<Longrightarrow> m \<in> Wellfounded.acc ((up d)\<inverse>)"
      using 2 by auto
    then show ?thesis using acc_step [of d c] by auto
  qed (use 2 in \<open>auto split: if_splits\<close>)
qed auto

lemma detect_walk_Inl:
  "detect_walk d visited in_stack cur = Inl z \<Longrightarrow>
   (\<forall>s \<in> in_stack. \<forall>c. cur = Some c \<longrightarrow> (s, c) \<in> (up d)\<^sup>+) \<Longrightarrow> (z, z) \<in> (up d)\<^sup>+"
proof (induction d visited in_stack cur rule: detect_walk.induct)
  case (2 d visited in_stack c)
  show ?case
  proof (cases "c \<in> in_stack \<or> c \<in> visited")
    case False
    then have "detect_walk d visited (insert c in_stack) (dget d c) = Inl z" using 2(2) by simp
    moreover have "\<forall>s \<in> insert c in_stack. \<forall>m. dget d c = Some m \<longrightarrow> (s, m) \<in> (up d)\<^sup>+"
      using 2(3) by (auto intro: trancl_into_trancl)
    ultimately show ?thesis using 2(1) False by blast
  qed (use 2 in \<open>auto split: if_splits\<close>)
qed auto

lemma detect_from_Inr:
  "detect_from d as visited = Inr u \<Longrightarrow> visited \<subseteq> Wellfounded.acc ((up d)\<inverse>) \<Longrightarrow>
   set as \<subseteq> Wellfounded.acc ((up d)\<inverse>)"
proof (induction d as visited rule: detect_from.induct)
  case (2 d a as visited)
  show ?case
  proof (cases "a \<in> visited")
    case False
    then obtain out where "detect_walk d visited {} (Some a) = Inr out"
      "detect_from d as (visited \<union> out) = Inr u"
      using 2(3) by (auto split: sum.splits)
    then show ?thesis
      using detect_walk_Inr [of d visited "{}" "Some a" out] 2(2) [OF False] 2(4) by simp
  qed (use 2 in auto)
qed simp

lemma detect_from_Inl:
  "detect_from d as visited = Inl (HierarchyResolutionError a z) \<Longrightarrow> a \<in> set as \<and> (z, z) \<in> (up d)\<^sup>+"
  by (induction d as visited rule: detect_from.induct)
    (auto simp del: detect_walk.simps split: if_splits sum.splits dest: detect_walk_Inl)

lemma detect_cycles_iff: "detect_cycles d = Inr () \<longleftrightarrow> acyclic (up d)"
proof
  assume ok: "detect_cycles d = Inr ()"
  have keys: "set (dkeys d) \<subseteq> Wellfounded.acc ((up d)\<inverse>)"
    using detect_from_Inr [of d "dkeys d" "{}"] ok by (simp add: detect_cycles_def)
  have "x \<in> Wellfounded.acc ((up d)\<inverse>)" for x
  proof (cases "dget d x")
    case None then show ?thesis by (auto intro: acc_step)
  next
    case (Some m) then show ?thesis using keys dget_Some_key [OF Some] by blast
  qed
  then have "wf ((up d)\<inverse>)" by (simp add: wf_iff_acc)
  then show "acyclic (up d)" using wf_acyclic acyclic_converse by blast
next
  assume ac: "acyclic (up d)"
  show "detect_cycles d = Inr ()"
  proof (cases "detect_cycles d")
    case (Inl e)
    obtain a z where "e = HierarchyResolutionError a z" by (cases e) auto
    then have "(z, z) \<in> (up d)\<^sup>+" using Inl by (auto simp: detect_cycles_def dest: detect_from_Inl)
    then show ?thesis using ac by (simp add: acyclic_def)
  qed simp
qed

subsection \<open>The contract of the resolver\<close>

locale org_chart =
  fixes make :: "'c \<Rightarrow> 'e + 'h"
    and links :: "'h \<Rightarrow> ('a \<times> 'a) set"
    and reports :: "'h \<Rightarrow> 'a \<Rightarrow> 'a list"
  assumes made_finite: "make c = Inr h \<Longrightarrow> finite (links h)"
    and made_acyclic: "make c = Inr h \<Longrightarrow> acyclic (links h)"
    and made_single: "make c = Inr h \<Longrightarrow> single_valued (links h)"
    and made_reports: "make c = Inr h \<Longrightarrow> a \<in> set (reports h m) \<longleftrightarrow> (a, m) \<in> links h"
begin

lemma made_wf: "make c = Inr h \<Longrightarrow> wf ((links h)\<inverse>)"
  using made_finite made_acyclic finite_acyclic_wf_converse by blast

lemma not_above_itself: "make c = Inr h \<Longrightarrow> (a, a) \<notin> (links h)\<^sup>+"
  using made_acyclic by (auto simp: acyclic_def)

lemma no_mutual_supervision:
  "make c = Inr h \<Longrightarrow> (a, m) \<in> (links h)\<^sup>+ \<Longrightarrow> (m, a) \<notin> (links h)\<^sup>+"
  using not_above_itself by (metis trancl_trans)

lemma report_below: "make c = Inr h \<Longrightarrow> a \<in> set (reports h m) \<Longrightarrow> (a, m) \<in> (links h)\<^sup>+"
  using made_reports by blast

lemma managers_linear:
  "make c = Inr h \<Longrightarrow> (a, m) \<in> (links h)\<^sup>* \<Longrightarrow> (a, n) \<in> (links h)\<^sup>* \<Longrightarrow>
   (m, n) \<in> (links h)\<^sup>* \<or> (n, m) \<in> (links h)\<^sup>*"
  by (rule single_valued_confluent [OF made_single])

end

lemma HierarchyResolver_iff: "HierarchyResolver ds = Inr h \<longleftrightarrow> h = link_company ds \<and> acyclic (up (supervisor_of h))"
  by (auto simp: HierarchyResolver_def Let_def detect_cycles_iff [symmetric] split: sum.splits)

lemma single_valued_up: "single_valued (up d)"
  by (auto simp: single_valued_def)

interpretation chart: org_chart HierarchyResolver "\<lambda>h. up (supervisor_of h)" get_direct_reports
proof unfold_locales
  fix ds h a m
  assume made: "HierarchyResolver ds = Inr h"
  then have "valid_charts h" using link_company_valid by (simp add: HierarchyResolver_iff)
  then show "a \<in> set (get_direct_reports h m) \<longleftrightarrow> (a, m) \<in> up (supervisor_of h)"
    by (simp add: valid_charts_def get_supervisor_def)
qed (simp_all add: finite_up single_valued_up HierarchyResolver_iff)

subsection \<open>Walking up\<close>

lemma above_step:
  assumes "dget d a = Some c"
  shows "(a, m) \<in> (up d)\<^sup>+ \<longleftrightarrow> m = c \<or> (c, m) \<in> (up d)\<^sup>+"
proof -
  have "(a, m) \<in> (up d)\<^sup>+ \<longleftrightarrow> (c, m) \<in> (up d)\<^sup>*"
    using assms by (subst trancl_unfold_left) auto
  then show ?thesis by (auto simp: rtrancl_eq_or_trancl)
qed

lemma above_top: "dget d a = None \<Longrightarrow> (a, m) \<notin> (up d)\<^sup>+"
  by (auto dest!: tranclD)

lemma relpow_step: "dget d a = Some c \<Longrightarrow> (a, m) \<in> up d ^^ Suc k \<longleftrightarrow> (c, m) \<in> up d ^^ k"
  by (auto simp: relpow_commute [symmetric])

lemma relpow_top: "dget d a = None \<Longrightarrow> (a, m) \<notin> up d ^^ Suc k"
  by (auto simp: relpow_commute [symmetric])

lemma relpow_self:
  assumes "wf ((up d)\<inverse>)"
  shows "(m, m) \<in> up d ^^ j \<longleftrightarrow> j = 0"
proof -
  have "(m, m) \<notin> (up d)\<^sup>+"
    using wf_acyclic [OF assms] by (simp add: acyclic_def trancl_converse)
  then show ?thesis by (cases j) (auto simp: trancl_power simp del: relpow.simps(2))
qed

lemma is_subordinate_eq:
  assumes "wf ((up (supervisor_of h))\<inverse>)"
  shows "is_subordinate h m a = Some ((a, m) \<in> (up (supervisor_of h))\<^sup>+)"
  using assms
proof (induction a rule: wf_induct_rule)
  case (less a)
  show ?case
    using less by (cases "dget (supervisor_of h) a")
      (auto simp: is_subordinate.simps [of h m a] above_step above_top)
qed

lemma ancestors_loop_eq:
  assumes "wf ((up (supervisor_of h))\<inverse>)"
  shows "\<exists>l. ancestors_loop h acc a = Some (acc @ l) \<and> set l = {m. (a, m) \<in> (up (supervisor_of h))\<^sup>+} \<and>
    sorted_wrt (\<lambda>x y. (x, y) \<in> (up (supervisor_of h))\<^sup>+) l"
  using assms
proof (induction a arbitrary: acc rule: wf_induct_rule)
  case (less a)
  show ?case
  proof (cases "dget (supervisor_of h) a")
    case None
    then show ?thesis by (simp add: ancestors_loop.simps [of h acc a] above_top)
  next
    case (Some c)
    then obtain l where "ancestors_loop h (acc @ [c]) c = Some ((acc @ [c]) @ l)"
      "set l = {m. (c, m) \<in> (up (supervisor_of h))\<^sup>+}"
      "sorted_wrt (\<lambda>x y. (x, y) \<in> (up (supervisor_of h))\<^sup>+) l"
      using less [of c "acc @ [c]"] by auto
    then show ?thesis
      using Some by (intro exI [of _ "c # l"]) (auto simp: ancestors_loop.simps [of h acc a] above_step)
  qed
qed

lemma get_ancestors_eq:
  assumes "wf ((up (supervisor_of h))\<inverse>)"
  obtains l where "get_ancestors h a = Some l" "set l = {m. (a, m) \<in> (up (supervisor_of h))\<^sup>+}"
    "sorted_wrt (\<lambda>x y. (x, y) \<in> (up (supervisor_of h))\<^sup>+) l"
  using ancestors_loop_eq [OF assms, of "[]" a] by (auto simp: get_ancestors_def)

lemma depth_loop_eq:
  assumes "wf ((up (supervisor_of h))\<inverse>)"
  shows "\<exists>r. depth_loop h m k a = Some r \<and>
    (\<forall>n. r = Some n \<longleftrightarrow> k < n \<and> (a, m) \<in> up (supervisor_of h) ^^ nat (n - k))"
  using assms
proof (induction a arbitrary: k rule: wf_induct_rule)
  case (less a)
  have suc: "nat (n - k) = Suc (nat (n - (k + 1)))" if "k < n" for n using that by simp
  show ?case
  proof (cases "dget (supervisor_of h) a")
    case None
    then show ?thesis by (auto simp: depth_loop.simps [of h m k a] suc relpow_top simp del: relpow.simps)
  next
    case (Some c)
    have key: "(a, m) \<in> up (supervisor_of h) ^^ nat (n - k) \<longleftrightarrow> (c, m) \<in> up (supervisor_of h) ^^ nat (n - (k + 1))"
      if "k < n" for n
      by (simp only: suc [OF that] relpow_step [OF Some])
    show ?thesis
    proof (cases "c = m")
      case True
      then have "k < n \<and> (a, m) \<in> up (supervisor_of h) ^^ nat (n - k) \<longleftrightarrow> n = k + 1" for n
        using key [of n] relpow_self [OF assms, of m "nat (n - (k + 1))"] by auto
      then show ?thesis using Some True by (auto simp: depth_loop.simps [of h m k a])
    next
      case False
      have "(c, m) \<notin> up (supervisor_of h) ^^ nat (n - (k + 1))" if "n \<le> k + 1" for n
        using False that by simp
      then have "k < n \<and> (a, m) \<in> up (supervisor_of h) ^^ nat (n - k) \<longleftrightarrow>
          k + 1 < n \<and> (c, m) \<in> up (supervisor_of h) ^^ nat (n - (k + 1))" for n
        using key [of n] by (cases "n \<le> k + 1") auto
      then show ?thesis
        using less [of c "k + 1"] Some False by (simp add: depth_loop.simps [of h m k a])
    qed
  qed
qed

text \<open>Managers in common, the agents themselves included.\<close>

definition common_managers :: "charts \<Rightarrow> agent \<Rightarrow> agent \<Rightarrow> agent set" where
  "common_managers h a b = {m. (a, m) \<in> (up (supervisor_of h))\<^sup>* \<and> (b, m) \<in> (up (supervisor_of h))\<^sup>*}"

lemma find_sorted:
  "sorted_wrt R xs \<Longrightarrow> List.find P xs = Some x \<Longrightarrow> y \<in> set xs \<Longrightarrow> P y \<Longrightarrow> y = x \<or> R x y"
  by (induction xs) (auto split: if_splits)

lemma lowest_common_manager_cases:
  assumes "wf ((up (supervisor_of h))\<inverse>)" and "a \<noteq> b"
  shows "\<exists>r. get_lowest_common_manager h a b = Some r \<and> (r = None \<longleftrightarrow> common_managers h a b = {}) \<and>
    (\<forall>m. r = Some m \<longrightarrow> m \<in> common_managers h a b \<and>
      (\<forall>n \<in> common_managers h a b. (m, n) \<in> (up (supervisor_of h))\<^sup>*))"
proof -
  let ?U = "up (supervisor_of h)"
  obtain as where a: "get_ancestors h a = Some as" "set as = {m. (a, m) \<in> ?U\<^sup>+}" "sorted_wrt (\<lambda>x y. (x, y) \<in> ?U\<^sup>+) as"
    using get_ancestors_eq [OF assms(1)] by blast
  obtain bs where b: "get_ancestors h b = Some bs" "set bs = {m. (b, m) \<in> ?U\<^sup>+}"
    using get_ancestors_eq [OF assms(1)] by blast
  note star = rtrancl_eq_or_trancl
  note ev = get_lowest_common_manager_def common_managers_def
  consider "(b, a) \<in> ?U\<^sup>+" | "(b, a) \<notin> ?U\<^sup>+" "(a, b) \<in> ?U\<^sup>+" | "(b, a) \<notin> ?U\<^sup>+" "(a, b) \<notin> ?U\<^sup>+" by blast
  then show ?thesis
  proof cases
    case 1
    then show ?thesis using a b assms(2) by (auto simp: ev star)
  next
    case 2
    then show ?thesis using a b assms(2) by (auto simp: ev star)
  next
    case 3
    have common: "common_managers h a b = {m \<in> set as. m \<in> set bs}"
      using 3 assms(2) a(2) b(2) by (auto simp: common_managers_def star)
    have val: "get_lowest_common_manager h a b = Some (List.find (\<lambda>c. c \<in> set bs) as)"
      using 3 a b assms(2) by (simp add: get_lowest_common_manager_def)
    show ?thesis
      unfolding val common
    proof (intro exI conjI allI impI ballI)
      fix m assume found: "List.find (\<lambda>c. c \<in> set bs) as = Some m"
      then show "m \<in> {m \<in> set as. m \<in> set bs}" by (auto simp: find_Some_iff)
      show "(m, n) \<in> ?U\<^sup>*" if "n \<in> {m \<in> set as. m \<in> set bs}" for n
        using find_sorted [OF a(3) found] that by (auto simp: star)
    qed (auto simp: find_None_iff)
  qed
qed

subsection \<open>Priority of the sources\<close>

text \<open>
  What a department's teams claim, in the order of the loop, and what its reporting lines say.
\<close>

definition lead_claims :: "agent option \<Rightarrow> Team \<Rightarrow> (agent \<times> agent) list" where
  "lead_claims dh tm = (case dh of None \<Rightarrow> [] | Some b \<Rightarrow> if b \<noteq> [] \<and> lead tm \<noteq> b then [(lead tm, b)] else [])"

definition member_claims :: "Team \<Rightarrow> (agent \<times> agent) list" where
  "member_claims tm = [(m, lead tm). m \<leftarrow> members tm, m \<noteq> lead tm]"

definition team_claims :: "Department \<Rightarrow> (agent \<times> agent) list" where
  "team_claims d = [c. tm \<leftarrow> teams d, c \<leftarrow> lead_claims (head d) tm @ member_claims tm]"

definition line_claims :: "Department \<Rightarrow> (agent \<times> agent) list" where
  "line_claims d = [(subordinate_key l, supervisor_key l). l \<leftarrow> reporting_lines d]"

lemma supervisor_assign [simp]: "dget (supervisor_of (assign a m h)) = (dget (supervisor_of h)) (a \<mapsto> m)"
  by (auto simp: assign_def)

lemma supervisor_link_lead:
  "dget (supervisor_of (link_lead dh tm h)) = map_of (lead_claims dh tm) ++ dget (supervisor_of h)"
  by (auto simp: link_lead_def lead_claims_def map_add_def fun_eq_iff split: option.splits)

lemma supervisor_link_members:
  "dget (supervisor_of (fold (link_member tm) ms h)) =
     map_of [(m, lead tm). m \<leftarrow> ms, m \<noteq> lead tm] ++ dget (supervisor_of h)"
  by (induction ms arbitrary: h)
    (auto simp: link_member_def map_add_def fun_eq_iff split: option.splits)

lemma supervisor_link_team:
  "dget (supervisor_of (link_team dh tm h)) =
     map_of (lead_claims dh tm @ member_claims tm) ++ dget (supervisor_of h)"
  by (simp add: link_team_def supervisor_link_members supervisor_link_lead member_claims_def)

lemma supervisor_link_teams:
  "dget (supervisor_of (fold (link_team dh) tms h)) =
     map_of [c. tm \<leftarrow> tms, c \<leftarrow> lead_claims dh tm @ member_claims tm] ++ dget (supervisor_of h)"
  by (induction tms arbitrary: h) (simp_all add: supervisor_link_team)

lemma supervisor_link_lines:
  "dget (supervisor_of (fold link_line ls h)) =
     dget (supervisor_of h) ++ map_of (rev [(subordinate_key l, supervisor_key l). l \<leftarrow> ls])"
proof (induction ls arbitrary: h)
  case (Cons l ls)
  have "dget (supervisor_of (link_line l h)) = dget (supervisor_of h) ++ [subordinate_key l \<mapsto> supervisor_key l]"
    by (auto simp: link_line_def Let_def fun_eq_iff map_add_def split: option.splits)
  then show ?case
    using Cons [of "link_line l h"] by (auto simp: fun_eq_iff map_add_def split: option.splits)
qed simp

lemma supervisor_link_departments:
  "dget (supervisor_of h) = map_of C ++ map_of (rev L) \<Longrightarrow>
   dget (supervisor_of (fold link_department ds h)) =
     map_of (C @ concat (List.map team_claims ds)) ++ map_of (rev (L @ concat (List.map line_claims ds)))"
proof (induction ds arbitrary: h C L)
  case (Cons d ds)
  have "dget (supervisor_of (link_department d h)) =
      map_of (C @ team_claims d) ++ map_of (rev (L @ line_claims d))"
    using Cons(2) by (simp add: link_department_def supervisor_link_lines supervisor_link_teams
        team_claims_def line_claims_def)
  from Cons(1) [OF this] show ?case by simp
qed simp

subsection \<open>Properties\<close>

text \<open>
  C11: a resolver is constructed exactly for the companies whose supervision links have no cycle;
  otherwise construction raises an error that names an agent on a cycle and the agent whose walk
  found it.
\<close>

theorem hierarchy_cycle_check:
  "((\<exists>h. HierarchyResolver ds = Inr h) \<longleftrightarrow> acyclic (up (supervisor_of (link_company ds)))) \<and>
   (HierarchyResolver ds = Inl (HierarchyResolutionError a z) \<longrightarrow>
     (z, z) \<in> (up (supervisor_of (link_company ds)))\<^sup>+ \<and> get_supervisor (link_company ds) a \<noteq> None)"
proof (intro conjI impI)
  show "(\<exists>h. HierarchyResolver ds = Inr h) \<longleftrightarrow> acyclic (up (supervisor_of (link_company ds)))"
    by (simp add: HierarchyResolver_iff)
  assume "HierarchyResolver ds = Inl (HierarchyResolutionError a z)"
  then have "detect_from (supervisor_of (link_company ds)) (dkeys (supervisor_of (link_company ds))) {} =
      Inl (HierarchyResolutionError a z)"
    by (simp add: HierarchyResolver_def detect_cycles_def Let_def split: sum.splits)
  from detect_from_Inl [OF this]
  show "(z, z) \<in> (up (supervisor_of (link_company ds)))\<^sup>+" "get_supervisor (link_company ds) a \<noteq> None"
    by (auto simp: get_supervisor_def dget_None_iff)
qed

definition cyclic_company :: "Department list" where
  "cyclic_company = [\<lparr>head = None, head_id = None, teams = [\<lparr>lead = ''a'', members = [''b'']\<rparr>],
     reporting_lines = [\<lparr>subordinate = ''a'', supervisor = ''b'', subordinate_id = None, supervisor_id = None\<rparr>]\<rparr>]"

definition sample_company :: "Department list" where
  "sample_company = [\<lparr>head = Some ''cto'', head_id = None,
     teams = [\<lparr>lead = ''lead1'', members = [''dev1'', ''dev2'']\<rparr>, \<lparr>lead = ''lead2'', members = [''lead2'', ''dev3'']\<rparr>],
     reporting_lines = [\<lparr>subordinate = ''dev2'', supervisor = ''cto'', subordinate_id = None, supervisor_id = None\<rparr>]\<rparr>]"

lemmas build_simps = link_company_def link_department_def link_team_def link_lead_def link_member_def
  link_line_def assign_def empty_charts_def subordinate_key_def supervisor_key_def dget_or_def Let_def

lemma sample_charts:
  "link_company sample_company =
     \<lparr>supervisor_of = [(''lead1'', ''cto''), (''dev1'', ''lead1''), (''dev2'', ''cto''), (''lead2'', ''cto''), (''dev3'', ''lead2'')],
      reports_of = [(''cto'', [''lead1'', ''lead2'', ''dev2'']), (''lead1'', [''dev1'']), (''lead2'', [''dev3''])]\<rparr>"
  by (simp add: sample_company_def build_simps)

lemma sample_resolver: "HierarchyResolver sample_company = Inr (link_company sample_company)"
  by (simp add: HierarchyResolver_def detect_cycles_def sample_charts)

theorem hierarchy_cycle_check_witness:
  "(''b'', ''b'') \<in> (up (supervisor_of (link_company cyclic_company)))\<^sup>+"
  using hierarchy_cycle_check [of cyclic_company "''b''" "''b''"]
  by (simp add: HierarchyResolver_def detect_cycles_def cyclic_company_def build_simps)

text \<open>
  The two dictionaries of the resolver describe the same chart: an agent occurs in the reports
  of a supervisor exactly when that is its supervisor, and it occurs once, whatever teams and
  reporting lines (overrides included) the company has.
\<close>

theorem reports_match_supervisors:
  "(is_direct_report (link_company ds) m a \<longleftrightarrow> get_supervisor (link_company ds) a = Some m) \<and>
   distinct (get_direct_reports (link_company ds) m)"
  using link_company_valid [of ds] by (simp add: valid_charts_def is_direct_report_def)

text \<open>
  C12: the queries end on every constructed resolver and answer the transitive supervision relation:
  \<open>is_subordinate\<close> holds exactly for the agents below, \<open>get_ancestors\<close> lists exactly the agents
  above, each before those above it, and \<open>get_delegation_depth\<close> is the number of links between.
\<close>

theorem hierarchy_queries:
  assumes "HierarchyResolver ds = Inr h"
  shows "is_subordinate h m a = Some ((a, m) \<in> (up (supervisor_of h))\<^sup>+) \<and>
    (\<exists>l. get_ancestors h a = Some l \<and> set l = {m. (a, m) \<in> (up (supervisor_of h))\<^sup>+} \<and>
       sorted_wrt (\<lambda>x y. (x, y) \<in> (up (supervisor_of h))\<^sup>+) l \<and> distinct l) \<and>
    (\<exists>r. get_delegation_depth h m a = Some r \<and>
       (\<forall>n. r = Some n \<longleftrightarrow> 0 < n \<and> (a, m) \<in> up (supervisor_of h) ^^ nat n))"
proof -
  note wf = chart.made_wf [OF assms]
  obtain l where l: "get_ancestors h a = Some l" "set l = {m. (a, m) \<in> (up (supervisor_of h))\<^sup>+}"
    "sorted_wrt (\<lambda>x y. (x, y) \<in> (up (supervisor_of h))\<^sup>+) l"
    using get_ancestors_eq [OF wf] by blast
  have "sorted_wrt (\<noteq>) l"
    by (rule sorted_wrt_mono_rel [OF _ l(3)]) (use chart.not_above_itself [OF assms] in blast)
  then have "distinct l" by (simp add: sorted_wrt_neq)
  then show ?thesis
    using l is_subordinate_eq [OF wf] depth_loop_eq [OF wf, of m 0 a]
    by (simp add: get_delegation_depth_def)
qed

theorem hierarchy_queries_witness:
  "is_subordinate (link_company sample_company) ''cto'' ''dev1'' = Some True \<and>
   is_subordinate (link_company sample_company) ''lead2'' ''dev1'' = Some False"
  using hierarchy_queries [OF sample_resolver, of "''cto''" "''dev1''"]
    hierarchy_queries [OF sample_resolver, of "''lead2''" "''dev1''"]
  by (simp add: sample_charts above_step above_top)

text \<open>
  The lowest common manager of two agents always is computed; it is a manager of both (the
  agents themselves count), and every other common manager is above it; there is none exactly when
  the agents share no manager; and the result does not depend on the order of the arguments.
\<close>

theorem lowest_common_manager_correct:
  assumes "HierarchyResolver ds = Inr h" and "a \<noteq> b"
  shows "(\<exists>r. get_lowest_common_manager h a b = Some r \<and> (r = None \<longleftrightarrow> common_managers h a b = {}) \<and>
      (\<forall>m. r = Some m \<longrightarrow> m \<in> common_managers h a b \<and>
        (\<forall>n \<in> common_managers h a b. (m, n) \<in> (up (supervisor_of h))\<^sup>*))) \<and>
    get_lowest_common_manager h b a = get_lowest_common_manager h a b"
proof -
  let ?U = "up (supervisor_of h)"
  note wf = chart.made_wf [OF assms(1)]
  obtain r where r: "get_lowest_common_manager h a b = Some r" "r = None \<longleftrightarrow> common_managers h a b = {}"
    "\<And>m. r = Some m \<Longrightarrow> m \<in> common_managers h a b \<and> (\<forall>n \<in> common_managers h a b. (m, n) \<in> ?U\<^sup>*)"
    using lowest_common_manager_cases [OF wf assms(2)] by blast
  obtain s where s: "get_lowest_common_manager h b a = Some s" "s = None \<longleftrightarrow> common_managers h a b = {}"
    "\<And>m. s = Some m \<Longrightarrow> m \<in> common_managers h a b \<and> (\<forall>n \<in> common_managers h a b. (m, n) \<in> ?U\<^sup>*)"
    using lowest_common_manager_cases [OF wf assms(2) [symmetric]]
    by (auto simp: common_managers_def conj_commute)
  have "r = s"
  proof (cases r)
    case (Some m)
    then obtain n where n: "s = Some n" using r(2) s(2) by (cases s) auto
    have "(m, n) \<in> ?U\<^sup>*" "(n, m) \<in> ?U\<^sup>*" using r(3) [OF Some] s(3) [OF n] by blast+
    then have "m = n"
      using chart.no_mutual_supervision [OF assms(1)] by (auto simp: rtrancl_eq_or_trancl)
    then show ?thesis using Some n by simp
  qed (use r(2) s(2) in auto)
  then show ?thesis using r s by auto
qed

theorem lowest_common_manager_correct_witness:
  "get_lowest_common_manager (link_company sample_company) ''dev1'' ''dev3'' =
   get_lowest_common_manager (link_company sample_company) ''dev3'' ''dev1''"
  using lowest_common_manager_correct [OF sample_resolver, of "''dev1''" "''dev3''"] by simp

text \<open>
  Who supervises whom: the last explicit reporting line of an agent in the company decides,
  over every department; without one, the first claim of the teams in document order decides,
  where each team claims its lead for the department head and then its members for the lead. So
  reporting lines override everything, while between team membership and department head the
  order of the document decides.
\<close>

theorem supervisor_priority:
  "get_supervisor (link_company ds) a =
     (map_of (concat (List.map team_claims ds)) ++ map_of (rev (concat (List.map line_claims ds)))) a"
  using supervisor_link_departments [of empty_charts "[]" "[]" ds]
  by (simp add: get_supervisor_def link_company_def empty_charts_def)

end
