(* ===== verification/Loop_Prevention.thy ===== *)
theory Loop_Prevention
  imports Prelude
begin

text \<open>
  The delegation loop guards of \<^verbatim>\<open>communication/loop_prevention/\<close>: the pure ancestry and depth
  checks, the deduplicator, the per-pair sliding-window rate limiter, the per-pair circuit breaker
  with exponential backoff and its persistence, and the guard that runs them in order; with their
  configuration from \<^verbatim>\<open>communication/config.py\<close>.

  Every reading of the monotonic clock is an argument. A message text is represented by the values
  it interpolates. The locale \<open>loop_mechanism\<close> is the contract the guard relies on for each of the
  three stateful mechanisms.
\<close>

subsection \<open>Configuration and outcomes\<close>

record RateLimitConfig =
  max_per_pair_per_minute :: int
  burst_allowance :: int

record CircuitBreakerConfig =
  bounce_threshold :: int
  cooldown_seconds :: int
  max_cooldown_seconds :: int

record LoopPreventionConfig =
  max_delegation_depth :: int
  rate_limit :: RateLimitConfig
  dedup_window_seconds :: int
  circuit_breaker :: CircuitBreakerConfig

definition valid_rate_config :: "RateLimitConfig \<Rightarrow> bool" where
  "valid_rate_config c \<longleftrightarrow> 0 < max_per_pair_per_minute c \<and> 0 \<le> burst_allowance c"

definition valid_breaker_config :: "CircuitBreakerConfig \<Rightarrow> bool" where
  "valid_breaker_config c \<longleftrightarrow>
     0 < bounce_threshold c \<and> 0 < cooldown_seconds c \<and> 0 < max_cooldown_seconds c \<and>
     \<not> max_cooldown_seconds c < cooldown_seconds c"

definition valid_loop_config :: "LoopPreventionConfig \<Rightarrow> bool" where
  "valid_loop_config c \<longleftrightarrow>
     0 < max_delegation_depth c \<and> valid_rate_config (rate_limit c) \<and>
     0 < dedup_window_seconds c \<and> valid_breaker_config (circuit_breaker c)"

datatype guard_message =
    EmptyMessage
  | InChain agent "agent list"
  | DepthReached nat int
  | DuplicateDelegation agent agent string int
  | RateExceeded agent agent nat int
  | CircuitOpen agent agent time

record GuardCheckOutcome =
  passed :: bool
  mechanism :: string
  message :: guard_message

definition valid_outcome :: "GuardCheckOutcome \<Rightarrow> bool" where
  "valid_outcome r \<longleftrightarrow>
     \<not> (passed r \<and> message r \<noteq> EmptyMessage) \<and> \<not> (\<not> passed r \<and> message r = EmptyMessage)"

definition pass_outcome :: "string \<Rightarrow> GuardCheckOutcome" where
  "pass_outcome mech = \<lparr>passed = True, mechanism = mech, message = EmptyMessage\<rparr>"

definition block_outcome :: "string \<Rightarrow> guard_message \<Rightarrow> GuardCheckOutcome" where
  "block_outcome mech msg = \<lparr>passed = False, mechanism = mech, message = msg\<rparr>"

datatype guard_error = BlankAgent string | BadMaxDepth int

type_synonym 's checked = "(guard_error + GuardCheckOutcome) \<times> 's"

subsection \<open>Pure checks\<close>

definition pair_key :: "agent \<Rightarrow> agent \<Rightarrow> guard_error + (agent \<times> agent)" where
  "pair_key a b =
     (if \<not> not_blank a then Inl (BlankAgent a)
      else if \<not> not_blank b then Inl (BlankAgent b)
      else Inr (min a b, max a b))"

definition check_ancestry :: "agent list \<Rightarrow> agent \<Rightarrow> GuardCheckOutcome" where
  "check_ancestry delegation_chain delegatee_id =
     (if delegatee_id \<in> set delegation_chain
      then block_outcome ''ancestry'' (InChain delegatee_id delegation_chain)
      else pass_outcome ''ancestry'')"

definition check_delegation_depth :: "agent list \<Rightarrow> int \<Rightarrow> guard_error + GuardCheckOutcome" where
  "check_delegation_depth delegation_chain max_depth =
     (if max_depth \<le> 0 then Inl (BadMaxDepth max_depth)
      else if int (length delegation_chain) \<ge> max_depth
      then Inr (block_outcome ''max_depth'' (DepthReached (length delegation_chain) max_depth))
      else Inr (pass_outcome ''max_depth''))"

subsection \<open>Deduplication\<close>

type_synonym dedup_key = "agent \<times> agent \<times> string"
type_synonym dedup = "(dedup_key, time) dict"

definition purge_expired :: "int \<Rightarrow> time \<Rightarrow> dedup \<Rightarrow> dedup" where
  "purge_expired window now recs = filter (\<lambda>(k, ts). \<not> ts \<le> now - of_int window) recs"

definition dedup_check :: "int \<Rightarrow> time \<Rightarrow> agent \<Rightarrow> agent \<Rightarrow> string \<Rightarrow> dedup \<Rightarrow> dedup checked" where
  "dedup_check window now delegator delegatee task_id recs =
     (let recs1 = purge_expired window now recs in
      case dget recs1 (delegator, delegatee, task_id) of
        Some _ \<Rightarrow>
          (Inr (block_outcome ''dedup'' (DuplicateDelegation delegator delegatee task_id window)), recs1)
      | None \<Rightarrow> (Inr (pass_outcome ''dedup''), recs1))"

definition dedup_record :: "int \<Rightarrow> time \<Rightarrow> time \<Rightarrow> agent \<Rightarrow> agent \<Rightarrow> string \<Rightarrow> dedup \<Rightarrow> dedup" where
  "dedup_record window now stamp delegator delegatee task_id recs =
     dput (delegator, delegatee, task_id) stamp (purge_expired window now recs)"

subsection \<open>Rate limit\<close>

type_synonym rates = "(agent \<times> agent, time list) dict"

definition rate_window :: time where
  "rate_window = 60"

definition rate_cap :: "RateLimitConfig \<Rightarrow> int" where
  "rate_cap c = max_per_pair_per_minute c + burst_allowance c"

definition rate_check :: "RateLimitConfig \<Rightarrow> time \<Rightarrow> agent \<Rightarrow> agent \<Rightarrow> rates \<Rightarrow> rates checked" where
  "rate_check c now delegator delegatee ts =
     (case pair_key delegator delegatee of
        Inl e \<Rightarrow> (Inl e, ts)
      | Inr key \<Rightarrow>
          let recent = filter (\<lambda>t. t > now - rate_window) (dget_or ts key []);
              ts1 = (if recent \<noteq> [] then dput key recent ts else dpop key ts)
          in if int (length recent) \<ge> rate_cap c
             then (Inr (block_outcome ''rate_limit''
                     (RateExceeded delegator delegatee (length recent) (rate_cap c))), ts1)
             else (Inr (pass_outcome ''rate_limit''), ts1))"

definition rate_record :: "time \<Rightarrow> agent \<Rightarrow> agent \<Rightarrow> rates \<Rightarrow> guard_error + rates" where
  "rate_record now delegator delegatee ts =
     (case pair_key delegator delegatee of
        Inl e \<Rightarrow> Inl e
      | Inr key \<Rightarrow>
          let recent = filter (\<lambda>t. t > now - rate_window) (dget_or ts key [])
          in Inr (dput key (recent @ [now]) ts))"

subsection \<open>Circuit breaker\<close>

datatype CircuitBreakerState = CLOSED | OPEN

record PairState =
  bounce_count :: int
  opened_at :: "time option"
  trip_count :: int

definition new_pair :: PairState where
  "new_pair = \<lparr>bounce_count = 0, opened_at = None, trip_count = 0\<rparr>"

record breaker =
  pairs :: "(agent \<times> agent, PairState) dict"
  dirty :: "(agent \<times> agent) set"

definition compute_cooldown :: "CircuitBreakerConfig \<Rightarrow> int \<Rightarrow> time" where
  "compute_cooldown c trips =
     (if trips \<le> 0 then of_int (cooldown_seconds c)
      else let exponent = min (trips - 1) 63; backoff = cooldown_seconds c * 2 ^ nat exponent
           in min (of_int backoff) (of_int (max_cooldown_seconds c)))"

text \<open>\<open>get_state\<close> on the state of one pair: an expired cooldown closes the circuit and resets it.\<close>

definition get_state ::
  "CircuitBreakerConfig \<Rightarrow> time \<Rightarrow> agent \<Rightarrow> agent \<Rightarrow> breaker \<Rightarrow> (guard_error + CircuitBreakerState) \<times> breaker" where
  "get_state c now delegator delegatee b =
     (case pair_key delegator delegatee of
        Inl e \<Rightarrow> (Inl e, b)
      | Inr key \<Rightarrow>
          (case dget (pairs b) key of
             None \<Rightarrow> (Inr CLOSED, b)
           | Some p \<Rightarrow>
               (case opened_at p of
                  None \<Rightarrow> (Inr CLOSED, b)
                | Some opened \<Rightarrow>
                    if now - opened < compute_cooldown c (trip_count p) then (Inr OPEN, b)
                    else (Inr CLOSED,
                          b\<lparr>pairs := dput key (p\<lparr>bounce_count := 0, opened_at := None\<rparr>) (pairs b),
                            dirty := insert key (dirty b)\<rparr>))))"

definition breaker_check ::
  "CircuitBreakerConfig \<Rightarrow> time \<Rightarrow> agent \<Rightarrow> agent \<Rightarrow> breaker \<Rightarrow> breaker checked" where
  "breaker_check c now delegator delegatee b =
     (case get_state c now delegator delegatee b of
        (Inl e, b1) \<Rightarrow> (Inl e, b1)
      | (Inr CLOSED, b1) \<Rightarrow> (Inr (pass_outcome ''circuit_breaker''), b1)
      | (Inr OPEN, b1) \<Rightarrow>
          let cooldown = (case pair_key delegator delegatee of
                  Inl _ \<Rightarrow> of_int (cooldown_seconds c)
                | Inr key \<Rightarrow> (case dget (pairs b1) key of
                      None \<Rightarrow> of_int (cooldown_seconds c)
                    | Some p \<Rightarrow> compute_cooldown c (trip_count p)))
          in (Inr (block_outcome ''circuit_breaker'' (CircuitOpen delegator delegatee cooldown)), b1))"

definition breaker_record ::
  "CircuitBreakerConfig \<Rightarrow> time \<Rightarrow> time \<Rightarrow> agent \<Rightarrow> agent \<Rightarrow> breaker \<Rightarrow> guard_error + breaker" where
  "breaker_record c now stamp delegator delegatee b =
     (case get_state c now delegator delegatee b of
        (Inl e, b1) \<Rightarrow> Inl e
      | (Inr OPEN, b1) \<Rightarrow> Inr b1
      | (Inr CLOSED, b1) \<Rightarrow>
          (case pair_key delegator delegatee of
             Inl e \<Rightarrow> Inl e
           | Inr key \<Rightarrow>
               let p = dget_or (pairs b1) key new_pair;
                   p1 = p\<lparr>bounce_count := bounce_count p + 1\<rparr>
               in if bounce_count p1 \<ge> bounce_threshold c
                  then Inr (b1\<lparr>pairs := dput key (p1\<lparr>trip_count := trip_count p1 + 1,
                                                    opened_at := Some stamp\<rparr>) (pairs b1),
                              dirty := insert key (dirty b1)\<rparr>)
                  else Inr (b1\<lparr>pairs := dput key p1 (pairs b1)\<rparr>)))"

text \<open>
  Persistence. A repository is a map from pairs to saved states. \<open>load_state\<close> restores every
  record; \<open>persist_dirty\<close> saves the dirty pairs whose save succeeds and keeps the others dirty.
\<close>

type_synonym breaker_repo = "(agent \<times> agent, PairState) dict"

definition load_state :: "breaker_repo option \<Rightarrow> breaker \<Rightarrow> breaker" where
  "load_state repo b =
     (case repo of
        None \<Rightarrow> b
      | Some recs \<Rightarrow> b\<lparr>pairs := fold (\<lambda>(key, p). dput key p) recs (pairs b)\<rparr>)"

definition persist_dirty ::
  "(agent \<times> agent \<Rightarrow> bool) \<Rightarrow> breaker_repo option \<Rightarrow> (agent \<times> agent) list \<Rightarrow> breaker
   \<Rightarrow> breaker_repo option \<times> breaker" where
  "persist_dirty save_ok repo order b =
     (case repo of
        None \<Rightarrow> (None, b\<lparr>dirty := {}\<rparr>)
      | Some recs \<Rightarrow>
          let (recs', d') = fold (\<lambda>key (r, d).
                (case dget (pairs b) key of
                   None \<Rightarrow> (r, d - {key})
                 | Some p \<Rightarrow> if save_ok key then (dput key p r, d - {key}) else (r, d)))
              order (recs, dirty b)
          in (Some recs', b\<lparr>dirty := d'\<rparr>))"

subsection \<open>The guard\<close>

record guard =
  g_dedup :: dedup
  g_rates :: rates
  g_breaker :: breaker

text \<open>The clock readings of one guard call, in the order the mechanisms take them.\<close>

record readings =
  at_dedup :: time
  at_dedup_stamp :: time
  at_rate :: time
  at_breaker :: time
  at_breaker_stamp :: time

definition guard_check ::
  "LoopPreventionConfig \<Rightarrow> readings \<Rightarrow> agent list \<Rightarrow> agent \<Rightarrow> agent \<Rightarrow> string \<Rightarrow> guard \<Rightarrow> guard checked" where
  "guard_check c now delegation_chain delegator delegatee task_id g =
     (let o1 = check_ancestry delegation_chain delegatee in
      if \<not> passed o1 then (Inr o1, g)
      else case check_delegation_depth delegation_chain (max_delegation_depth c) of
        Inl e \<Rightarrow> (Inl e, g)
      | Inr o2 \<Rightarrow>
        if \<not> passed o2 then (Inr o2, g)
        else case dedup_check (dedup_window_seconds c) (at_dedup now) delegator delegatee task_id (g_dedup g) of
          (Inl e, d) \<Rightarrow> (Inl e, g\<lparr>g_dedup := d\<rparr>)
        | (Inr o3, d) \<Rightarrow>
          let g1 = g\<lparr>g_dedup := d\<rparr> in
          if \<not> passed o3 then (Inr o3, g1)
          else case rate_check (rate_limit c) (at_rate now) delegator delegatee (g_rates g1) of
            (Inl e, r) \<Rightarrow> (Inl e, g1\<lparr>g_rates := r\<rparr>)
          | (Inr o4, r) \<Rightarrow>
            let g2 = g1\<lparr>g_rates := r\<rparr> in
            if \<not> passed o4 then (Inr o4, g2)
            else case breaker_check (circuit_breaker c) (at_breaker now) delegator delegatee (g_breaker g2) of
              (Inl e, b) \<Rightarrow> (Inl e, g2\<lparr>g_breaker := b\<rparr>)
            | (Inr o5, b) \<Rightarrow>
              let g3 = g2\<lparr>g_breaker := b\<rparr> in
              if \<not> passed o5 then (Inr o5, g3) else (Inr (pass_outcome ''all_passed''), g3))"

definition guard_record ::
  "LoopPreventionConfig \<Rightarrow> readings \<Rightarrow> agent \<Rightarrow> agent \<Rightarrow> string \<Rightarrow> guard \<Rightarrow> (guard_error + unit) \<times> guard" where
  "guard_record c now delegator delegatee task_id g =
     (let g1 = g\<lparr>g_dedup := dedup_record (dedup_window_seconds c) (at_dedup now) (at_dedup_stamp now)
                             delegator delegatee task_id (g_dedup g)\<rparr> in
      case rate_record (at_rate now) delegator delegatee (g_rates g1) of
        Inl e \<Rightarrow> (Inl e, g1)
      | Inr r \<Rightarrow>
          let g2 = g1\<lparr>g_rates := r\<rparr> in
          (case breaker_record (circuit_breaker c) (at_breaker now) (at_breaker_stamp now)
                  delegator delegatee (g_breaker g2) of
             Inl e \<Rightarrow> (Inl e, g2)
           | Inr b \<Rightarrow> (Inr (), g2\<lparr>g_breaker := b\<rparr>)))"

subsection \<open>Lemmas\<close>

lemma outcome_simps [simp]:
  "passed (pass_outcome m)" "\<not> passed (block_outcome m x)"
  "mechanism (pass_outcome m) = m" "mechanism (block_outcome m x) = m"
  "valid_outcome (pass_outcome m)" "valid_outcome (block_outcome m x) \<longleftrightarrow> x \<noteq> EmptyMessage"
  by (simp_all add: pass_outcome_def block_outcome_def valid_outcome_def)

lemma pair_key_sym: "pair_key a b = Inr k \<longleftrightarrow> pair_key b a = Inr k"
  by (auto simp: pair_key_def min_def max_def split: if_splits)

lemma pair_key_Inr: "not_blank a \<Longrightarrow> not_blank b \<Longrightarrow> pair_key a b = Inr (min a b, max a b)"
  by (simp add: pair_key_def)

lemma pair_key_eq_iff:
  "pair_key a b = Inr k \<Longrightarrow> pair_key a' b' = Inr k \<longleftrightarrow> {a', b'} = {a, b}"
  by (auto simp: pair_key_def min_def max_def doubleton_eq_iff split: if_splits)

lemma dget_purge:
  "distinct (dkeys recs) \<Longrightarrow> dget (purge_expired w now recs) k =
     (case dget recs k of None \<Rightarrow> None | Some ts \<Rightarrow> if ts \<le> now - of_int w then None else Some ts)"
  using dget_filter_values [of recs "\<lambda>ts. \<not> ts \<le> now - of_int w" k]
  by (auto simp: purge_expired_def split: option.splits)

lemma distinct_purge [simp]: "distinct (dkeys recs) \<Longrightarrow> distinct (dkeys (purge_expired w now recs))"
  by (simp add: purge_expired_def)

lemma purge_twice: "purge_expired w now (purge_expired w now recs) = purge_expired w now recs"
  by (simp add: purge_expired_def)

text \<open>The outcome of a check, once known to be no error.\<close>

definition allows :: "'s checked \<Rightarrow> bool" where
  "allows r \<longleftrightarrow> (case fst r of Inl _ \<Rightarrow> False | Inr x \<Rightarrow> passed x)"

lemma allows_simps [simp]: "\<not> allows (Inl e, s)" "allows (Inr x, s) = passed x"
  by (simp_all add: allows_def)

lemma dedup_allows_iff:
  "distinct (dkeys recs) \<Longrightarrow> allows (dedup_check w now a b t recs) \<longleftrightarrow>
     (\<forall>ts. dget recs (a, b, t) = Some ts \<longrightarrow> ts \<le> now - of_int w)"
  by (auto simp: dedup_check_def Let_def dget_purge split: option.splits)

lemma rate_allows_iff:
  "allows (rate_check c now a b ts) \<longleftrightarrow>
     (\<exists>key. pair_key a b = Inr key \<and>
        int (length (filter (\<lambda>t. t > now - rate_window) (dget_or ts key []))) < rate_cap c)"
  by (auto simp: rate_check_def Let_def split: sum.splits)

lemma rate_check_stored:
  "pair_key a b = Inr key \<Longrightarrow> dget_or (snd (rate_check c now a b ts)) k [] =
     (if k = key then filter (\<lambda>t. t > now - rate_window) (dget_or ts key []) else dget_or ts k [])"
  by (auto simp: rate_check_def Let_def)

lemma get_state_closed:
  assumes "pair_key a b = Inr key" and "dget (pairs br) key = Some p"
  shows "fst (get_state c now a b br) = Inr OPEN \<longleftrightarrow>
    (\<exists>ts. opened_at p = Some ts \<and> now - ts < compute_cooldown c (trip_count p))"
  using assms by (auto simp: get_state_def split: option.splits)

lemma get_state_total: "pair_key a b = Inr key \<Longrightarrow> \<exists>st b1. get_state c now a b br = (Inr st, b1)"
  by (auto simp: get_state_def split: option.splits)

lemma breaker_allows_iff:
  "pair_key a b = Inr key \<Longrightarrow> allows (breaker_check c now a b br) \<longleftrightarrow>
     (\<forall>p ts. dget (pairs br) key = Some p \<and> opened_at p = Some ts \<longrightarrow>
        compute_cooldown c (trip_count p) \<le> now - ts)"
  by (auto simp: breaker_check_def get_state_def Let_def split: option.splits)

subsection \<open>The contract of a stateful mechanism\<close>

locale loop_mechanism =
  fixes check :: "time \<Rightarrow> agent \<Rightarrow> agent \<Rightarrow> string \<Rightarrow> 's \<Rightarrow> 's checked"
    and mech :: string
  assumes check_outcome: "fst (check now a b t s) = Inr r \<Longrightarrow> valid_outcome r \<and> mechanism r = mech"
    and check_total: "not_blank a \<Longrightarrow> not_blank b \<Longrightarrow> \<exists>r. fst (check now a b t s) = Inr r"
    and check_again: "check now a b t (snd (check now a b t s)) = check now a b t s"
begin

text \<open>Asking again at the same instant never changes the answer or the state.\<close>

lemma check_repeat: "((\<lambda>s. snd (check now a b t s)) ^^ Suc n) s = snd (check now a b t s)"
proof (induction n)
  case (Suc n)
  then show ?case by (simp add: check_again)
qed simp

lemma blocked_has_reason:
  assumes "not_blank a" and "not_blank b" and "\<not> allows (check now a b t s)"
  shows "\<exists>r. fst (check now a b t s) = Inr r \<and> \<not> passed r \<and> mechanism r = mech \<and> message r \<noteq> EmptyMessage"
proof -
  obtain r where r: "fst (check now a b t s) = Inr r" using check_total [OF assms(1,2)] by blast
  with assms(3) check_outcome [OF r] show ?thesis by (auto simp: allows_def valid_outcome_def)
qed

end

interpretation dedup: loop_mechanism "dedup_check w" "''dedup''" for w
  by unfold_locales (auto simp: dedup_check_def Let_def purge_twice split: option.splits)

interpretation rate: loop_mechanism "\<lambda>now a b _. rate_check c now a b" "''rate_limit''" for c
proof (unfold_locales, goal_cases)
  case (3 now a b t s)
  show ?case
  proof (cases "pair_key a b")
    case (Inr key)
    let ?r = "filter (\<lambda>t. t > now - rate_window) (dget_or s key [])"
    have "dget_or (snd (rate_check c now a b s)) key [] = ?r" by (simp add: rate_check_stored [OF Inr])
    moreover have "snd (rate_check c now a b s) = (if ?r \<noteq> [] then dput key ?r s else dpop key s)"
      using Inr by (simp add: rate_check_def Let_def)
    ultimately show ?thesis using Inr by (auto simp: rate_check_def Let_def delete_idem)
  qed (simp add: rate_check_def)
qed (auto simp: rate_check_def Let_def pair_key_Inr split: sum.splits if_splits)

interpretation breaker: loop_mechanism "\<lambda>now a b _. breaker_check c now a b" "''circuit_breaker''" for c
proof (unfold_locales, goal_cases)
  case (1 now a b t s r)
  then show ?case
    by (auto simp: breaker_check_def get_state_def Let_def split: sum.splits option.splits if_splits)
next
  case (2 a b now t s)
  then show ?case
    by (auto simp: breaker_check_def get_state_def pair_key_Inr Let_def split: option.splits)
next
  case (3 now a b t s)
  show ?case
    by (cases "pair_key a b")
      (auto simp: breaker_check_def get_state_def Let_def split: option.splits)
qed

text \<open>On valid input the guard never raises.\<close>

lemma guard_check_total:
  assumes "valid_loop_config c" and "not_blank a" and "not_blank b"
  shows "\<exists>r. fst (guard_check c now chain a b t g) = Inr r \<and> valid_outcome r"
proof -
  obtain r3 d where 3: "dedup_check (dedup_window_seconds c) (at_dedup now) a b t (g_dedup g) = (Inr r3, d)"
    using dedup.check_total [OF assms(2,3)] by (metis prod.collapse)
  obtain r4 ts where 4: "rate_check (rate_limit c) (at_rate now) a b (g_rates g) = (Inr r4, ts)"
    using rate.check_total [OF assms(2,3), of "rate_limit c"] by (metis prod.collapse)
  obtain r5 br where 5: "breaker_check (circuit_breaker c) (at_breaker now) a b (g_breaker g) = (Inr r5, br)"
    using breaker.check_total [OF assms(2,3), of "circuit_breaker c"] by (metis prod.collapse)
  have "valid_outcome r3" "valid_outcome r4" "valid_outcome r5"
    using dedup.check_outcome [of "dedup_window_seconds c" "at_dedup now" a b t "g_dedup g"]
      rate.check_outcome [of "rate_limit c" "at_rate now" a b "g_rates g"]
      breaker.check_outcome [of "circuit_breaker c" "at_breaker now" a b "g_breaker g"] 3 4 5 by auto
  then show ?thesis
    using assms(1) 3 4 5
    by (simp add: guard_check_def check_ancestry_def check_delegation_depth_def valid_loop_config_def Let_def)
qed

lemma guard_record_total:
  assumes "not_blank a" and "not_blank b"
  obtains g' where "guard_record c now a b t g = (Inr (), g')"
    "g_dedup g' = dedup_record (dedup_window_seconds c) (at_dedup now) (at_dedup_stamp now) a b t (g_dedup g)"
proof -
  note key = pair_key_Inr [OF assms]
  obtain st b1 where st: "get_state (circuit_breaker c) (at_breaker now) a b (g_breaker g) = (Inr st, b1)"
    using get_state_total [OF key] by blast
  have "\<exists>br. breaker_record (circuit_breaker c) (at_breaker now) (at_breaker_stamp now) a b (g_breaker g) = Inr br"
    by (cases st) (auto simp: breaker_record_def st key Let_def)
  then obtain br where
    "breaker_record (circuit_breaker c) (at_breaker now) (at_breaker_stamp now) a b (g_breaker g) = Inr br" ..
  then show ?thesis
    using that by (simp add: guard_record_def rate_record_def key Let_def)
qed

lemma guard_check_dedup:
  "distinct (dkeys (g_dedup g)) \<Longrightarrow>
   distinct (dkeys (g_dedup (snd (guard_check c now chain a b t g)))) \<and>
   (allows (guard_check c now chain a b t g) \<longrightarrow>
      g_dedup (snd (guard_check c now chain a b t g)) = purge_expired (dedup_window_seconds c) (at_dedup now) (g_dedup g))"
  by (auto simp: guard_check_def dedup_check_def Let_def split: sum.splits prod.splits option.splits)

subsection \<open>Sliding-window runs of the rate limiter\<close>

text \<open>
  A run of attempts: each is checked at one clock reading and, when it passes, recorded at a later
  one. \<open>accepted\<close> collects the recorded readings of one pair.
\<close>

record attempt =
  at_check :: time
  at_record :: time
  a_from :: agent
  a_to :: agent

definition rate_attempt :: "RateLimitConfig \<Rightarrow> attempt \<Rightarrow> rates \<Rightarrow> rates \<times> bool" where
  "rate_attempt c x ts =
     (let r = rate_check c (at_check x) (a_from x) (a_to x) ts in
      if allows r
      then (case rate_record (at_record x) (a_from x) (a_to x) (snd r) of
              Inl _ \<Rightarrow> (snd r, False) | Inr ts' \<Rightarrow> (ts', True))
      else (snd r, False))"

fun accepted :: "RateLimitConfig \<Rightarrow> agent \<times> agent \<Rightarrow> attempt list \<Rightarrow> rates \<Rightarrow> time list" where
  "accepted c key [] ts = []"
| "accepted c key (x # xs) ts =
     (let (ts', ok) = rate_attempt c x ts in
      (if ok \<and> pair_key (a_from x) (a_to x) = Inr key then [at_record x] else []) @ accepted c key xs ts')"

text \<open>Clock readings of a run never go back.\<close>

fun in_order :: "time \<Rightarrow> attempt list \<Rightarrow> bool" where
  "in_order t [] = True"
| "in_order t (x # xs) = (t \<le> at_check x \<and> at_check x \<le> at_record x \<and> in_order (at_record x) xs)"

definition in_window :: "time \<Rightarrow> time list \<Rightarrow> time list" where
  "in_window w ts = filter (\<lambda>t. w - rate_window < t \<and> t \<le> w) ts"

definition window_inv :: "RateLimitConfig \<Rightarrow> agent \<times> agent \<Rightarrow> time list \<Rightarrow> time \<Rightarrow> rates \<Rightarrow> bool" where
  "window_inv c key hist now ts \<longleftrightarrow>
     (\<forall>w. int (length (in_window w hist)) \<le> rate_cap c) \<and>
     (\<forall>t \<in> set hist. t \<le> now) \<and>
     (\<exists>prune \<le> now. dget_or ts key [] = filter (\<lambda>t. t > prune - rate_window) hist)"

lemma rate_attempt_other:
  "pair_key (a_from x) (a_to x) \<noteq> Inr key \<Longrightarrow> dget_or (fst (rate_attempt c x ts)) key [] = dget_or ts key []"
  by (cases "pair_key (a_from x) (a_to x)")
    (auto simp: rate_attempt_def Let_def rate_check_def rate_record_def)

lemma rate_attempt_same:
  assumes "pair_key (a_from x) (a_to x) = Inr key"
  shows "let recent = filter (\<lambda>t. t > at_check x - rate_window) (dget_or ts key []) in
    if int (length recent) < rate_cap c
    then snd (rate_attempt c x ts) \<and> dget_or (fst (rate_attempt c x ts)) key [] =
           filter (\<lambda>t. t > at_record x - rate_window) recent @ [at_record x]
    else \<not> snd (rate_attempt c x ts) \<and> dget_or (fst (rate_attempt c x ts)) key [] = recent"
  using assms rate_check_stored [OF assms, of c "at_check x" ts key]
  by (auto simp: rate_attempt_def Let_def rate_allows_iff rate_record_def)

lemma filter_later:
  "p \<le> q \<Longrightarrow> filter (\<lambda>t. t > q - rate_window) (filter (\<lambda>t. t > p - rate_window) hist)
     = filter (\<lambda>t. t > q - (rate_window :: time)) hist"
  by (induction hist) auto

lemma window_inv_step:
  assumes "window_inv c key hist now ts" and "now \<le> at_check x" and "at_check x \<le> at_record x"
  shows "window_inv c key
    (hist @ (if snd (rate_attempt c x ts) \<and> pair_key (a_from x) (a_to x) = Inr key then [at_record x] else []))
    (at_record x) (fst (rate_attempt c x ts))"
proof -
  obtain prune where prune: "prune \<le> now" "dget_or ts key [] = filter (\<lambda>t. t > prune - rate_window) hist"
    and cap: "\<And>w. int (length (in_window w hist)) \<le> rate_cap c" and past: "\<And>t. t \<in> set hist \<Longrightarrow> t \<le> now"
    using assms(1) by (auto simp: window_inv_def)
  let ?recent = "filter (\<lambda>t. t > at_check x - rate_window) hist"
  show ?thesis
  proof (cases "pair_key (a_from x) (a_to x) = Inr key \<and> int (length ?recent) < rate_cap c")
    case True
    have rec: "filter (\<lambda>t. t > at_check x - rate_window) (dget_or ts key []) = ?recent"
      using filter_later [of prune "at_check x" hist] prune assms(2) by simp
    have step: "snd (rate_attempt c x ts)"
      "dget_or (fst (rate_attempt c x ts)) key [] =
         filter (\<lambda>t. t > at_record x - rate_window) (hist @ [at_record x])"
      using rate_attempt_same [of x key ts c] True rec filter_later [OF assms(3), of hist]
      by (simp_all add: Let_def rate_window_def)
    have "int (length (in_window w (hist @ [at_record x]))) \<le> rate_cap c" for w
    proof (cases "at_record x \<le> w")
      case True': True
      have "length (in_window w hist) \<le> length ?recent"
        unfolding in_window_def using True' assms(3)
        by (induction hist) (auto intro: le_SucI)
      with True show ?thesis by (simp add: in_window_def)
    next
      case False
      with cap [of w] show ?thesis by (simp add: in_window_def)
    qed
    moreover have "\<forall>t \<in> set (hist @ [at_record x]). t \<le> at_record x"
      using past assms(2,3) by force
    moreover have "\<exists>prune \<le> at_record x. dget_or (fst (rate_attempt c x ts)) key [] =
        filter (\<lambda>t. t > prune - rate_window) (hist @ [at_record x])"
      using step(2) by blast
    ultimately show ?thesis using True step(1) unfolding window_inv_def by simp
  next
    case False
    have "\<exists>q \<le> at_record x. dget_or (fst (rate_attempt c x ts)) key [] = filter (\<lambda>t. t > q - rate_window) hist"
    proof (cases "pair_key (a_from x) (a_to x) = Inr key")
      case True
      with False rate_attempt_same [OF True, of ts c] filter_later [of prune "at_check x" hist] prune assms(2,3)
      show ?thesis by (intro exI [of _ "at_check x"]) (simp add: Let_def)
    next
      case other: False
      with rate_attempt_other [OF other, of c ts] prune assms(2,3) show ?thesis
        by (intro exI [of _ prune]) simp
    qed
    moreover have "\<not> (snd (rate_attempt c x ts) \<and> pair_key (a_from x) (a_to x) = Inr key)"
      using False rate_attempt_same [of x key ts c] filter_later [of prune "at_check x" hist] prune assms(2)
      by (auto simp: Let_def)
    moreover have "\<forall>t \<in> set hist. t \<le> at_record x" using past assms(2,3) by force
    ultimately show ?thesis using cap by (auto simp: window_inv_def)
  qed
qed

lemma window_inv_run:
  "window_inv c key hist now ts \<Longrightarrow> in_order now xs \<Longrightarrow>
   int (length (in_window w (hist @ accepted c key xs ts))) \<le> rate_cap c"
proof (induction xs arbitrary: hist now ts)
  case Nil
  then show ?case by (simp add: window_inv_def)
next
  case (Cons x xs)
  let ?new = "if snd (rate_attempt c x ts) \<and> pair_key (a_from x) (a_to x) = Inr key then [at_record x] else []"
  have "window_inv c key (hist @ ?new) (at_record x) (fst (rate_attempt c x ts))"
    using window_inv_step [OF Cons.prems(1)] Cons.prems(2) by simp
  from Cons.IH [OF this] Cons.prems(2) show ?case
    by (simp add: case_prod_beta)
qed

subsection \<open>Runs of the circuit breaker\<close>

text \<open>One recorded delegation between two agents, in either direction.\<close>

record bounce =
  b_now :: time
  b_stamp :: time
  b_swap :: bool

fun breaker_records ::
  "CircuitBreakerConfig \<Rightarrow> agent \<Rightarrow> agent \<Rightarrow> bounce list \<Rightarrow> breaker \<Rightarrow> guard_error + breaker" where
  "breaker_records c a b [] br = Inr br"
| "breaker_records c a b (x # xs) br =
     rbind (if b_swap x then breaker_record c (b_now x) (b_stamp x) b a br
            else breaker_record c (b_now x) (b_stamp x) a b br) (breaker_records c a b xs)"

lemma breaker_record_sym:
  assumes "pair_key a b = Inr key"
  shows "breaker_record c now stamp b a br = breaker_record c now stamp a b br"
proof -
  have "pair_key b a = pair_key a b" using assms pair_key_sym [of a b key] by simp
  then show ?thesis by (simp only: breaker_record_def get_state_def)
qed

definition pair_of :: "breaker \<Rightarrow> agent \<times> agent \<Rightarrow> PairState" where
  "pair_of br key = dget_or (pairs br) key new_pair"

lemma get_state_unopened:
  "pair_key a b = Inr key \<Longrightarrow> opened_at (pair_of br key) = None \<Longrightarrow> get_state c now a b br = (Inr CLOSED, br)"
  by (auto simp: get_state_def pair_of_def dget_or_def new_pair_def split: option.splits)

lemma breaker_record_closed:
  assumes "pair_key a b = Inr key" and "opened_at (pair_of br key) = None"
  shows "\<exists>br'. breaker_record c now stamp a b br = Inr br' \<and>
    pair_of br' key =
      (let p = pair_of br key; n = bounce_count p + 1 in
       if n \<ge> bounce_threshold c
       then \<lparr>bounce_count = n, opened_at = Some stamp, trip_count = trip_count p + 1\<rparr>
       else p\<lparr>bounce_count := n\<rparr>)"
  using assms by (auto simp: breaker_record_def get_state_unopened Let_def pair_of_def)

lemma breaker_records_count:
  assumes "pair_key a b = Inr key" and "opened_at (pair_of br key) = None"
    and "bounce_count (pair_of br key) + int (length xs) < bounce_threshold c"
  shows "\<exists>br'. breaker_records c a b xs br = Inr br' \<and>
    pair_of br' key = (pair_of br key)\<lparr>bounce_count := bounce_count (pair_of br key) + int (length xs)\<rparr>"
  using assms(2,3)
proof (induction xs arbitrary: br)
  case Nil
  then show ?case by simp
next
  case (Cons x xs)
  obtain br1 where br1: "breaker_record c (b_now x) (b_stamp x) a b br = Inr br1"
    "pair_of br1 key = (pair_of br key)\<lparr>bounce_count := bounce_count (pair_of br key) + 1\<rparr>"
    using breaker_record_closed [OF assms(1) Cons.prems(1), of c "b_now x" "b_stamp x"] Cons.prems(2)
    by (auto simp: Let_def)
  from Cons.IH [of br1] br1 Cons.prems show ?case
    by (auto simp: breaker_record_sym [OF assms(1)] algebra_simps)
qed

lemma breaker_records_append:
  "breaker_records c a b (xs @ ys) br = rbind (breaker_records c a b xs br) (breaker_records c a b ys)"
  by (induction xs arbitrary: br) (auto simp: rbind_def split: sum.splits)

lemma compute_cooldown_pos: "valid_breaker_config c \<Longrightarrow> 0 < compute_cooldown c n"
  by (auto simp: compute_cooldown_def valid_breaker_config_def Let_def)

subsection \<open>Properties\<close>

text \<open>
  The rate limiter's promise. In any run of attempts whose clock readings do not go back, the
  accepted delegations of a pair (counted in both directions) within any window of sixty seconds
  are at most the configured rate plus the burst allowance.
\<close>

theorem rate_limit_window_bound:
  assumes "valid_rate_config c" and "in_order start xs"
  shows "int (length (in_window w (accepted c key xs []))) \<le> max_per_pair_per_minute c + burst_allowance c"
proof -
  have "window_inv c key [] start []"
    using assms(1) by (auto simp: window_inv_def in_window_def valid_rate_config_def rate_cap_def)
  from window_inv_run [OF this assms(2), of w] show ?thesis by (simp add: rate_cap_def)
qed

theorem rate_limit_window_bound_witness:
  "int (length (in_window 3 (accepted \<lparr>max_per_pair_per_minute = 1, burst_allowance = 0\<rparr> (''a'', ''b'')
     [\<lparr>at_check = 1, at_record = 1, a_from = ''a'', a_to = ''b''\<rparr>,
      \<lparr>at_check = 2, at_record = 2, a_from = ''b'', a_to = ''a''\<rparr>] []))) \<le> 1"
  using rate_limit_window_bound [of "\<lparr>max_per_pair_per_minute = 1, burst_allowance = 0\<rparr>" 0
      "[\<lparr>at_check = 1, at_record = 1, a_from = ''a'', a_to = ''b''\<rparr>,
        \<lparr>at_check = 2, at_record = 2, a_from = ''b'', a_to = ''a''\<rparr>]" 3 "(''a'', ''b'')"]
  by (simp add: valid_rate_config_def)

text \<open>
  The circuit opens after exactly \<open>bounce_threshold\<close> recorded delegations of a fresh pair,
  whatever their directions; from then on a check is refused for exactly the cooldown of the first
  trip after the last recorded delegation, in both directions.
\<close>

theorem circuit_opens_at_threshold:
  assumes "valid_breaker_config c" and "pair_key a b = Inr key" and "dget (pairs br) key = None"
    and "int (length xs) + 1 = bounce_threshold c"
  shows "\<exists>br1 br2. breaker_records c a b xs br = Inr br1 \<and> (\<forall>now. allows (breaker_check c now a b br1)) \<and>
    breaker_records c a b (xs @ [x]) br = Inr br2 \<and>
    (\<forall>now. allows (breaker_check c now a b br2) \<longleftrightarrow> b_stamp x + of_int (cooldown_seconds c) \<le> now) \<and>
    (\<forall>now. allows (breaker_check c now b a br2) \<longleftrightarrow> b_stamp x + of_int (cooldown_seconds c) \<le> now)"
proof -
  have fresh: "pair_of br key = new_pair" using assms(3) by (simp add: pair_of_def dget_or_def)
  obtain br1 where br1: "breaker_records c a b xs br = Inr br1"
    "pair_of br1 key = new_pair\<lparr>bounce_count := int (length xs)\<rparr>"
    using breaker_records_count [OF assms(2), of br xs c] assms(4) by (auto simp: fresh new_pair_def)
  obtain br2 where br2: "breaker_record c (b_now x) (b_stamp x) a b br1 = Inr br2"
    "pair_of br2 key = \<lparr>bounce_count = int (length xs) + 1, opened_at = Some (b_stamp x), trip_count = 1\<rparr>"
    using breaker_record_closed [OF assms(2), of br1 c "b_now x" "b_stamp x"] assms(4)
    by (auto simp: br1(2) new_pair_def)
  have all: "breaker_records c a b (xs @ [x]) br = Inr br2"
    using br1(1) br2(1) by (simp add: breaker_records_append breaker_record_sym [OF assms(2)])
  have cd: "compute_cooldown c 1 = of_int (cooldown_seconds c)"
    using assms(1) by (simp add: compute_cooldown_def valid_breaker_config_def min_def)
  have closed: "allows (breaker_check c now a b br1)" for now
    using br1(2) by (auto simp: breaker_allows_iff [OF assms(2)] pair_of_def dget_or_def new_pair_def)
  have key': "pair_key b a = Inr key" using assms(2) by (simp add: pair_key_sym)
  have p2: "dget (pairs br2) key =
      Some \<lparr>bounce_count = int (length xs) + 1, opened_at = Some (b_stamp x), trip_count = 1\<rparr>"
    using br2(2) by (auto simp: pair_of_def dget_or_def new_pair_def split: option.splits)
  have "allows (breaker_check c now a b br2) \<longleftrightarrow> b_stamp x + of_int (cooldown_seconds c) \<le> now"
    and "allows (breaker_check c now b a br2) \<longleftrightarrow> b_stamp x + of_int (cooldown_seconds c) \<le> now" for now
    by (auto simp: breaker_allows_iff [OF assms(2)] breaker_allows_iff [OF key'] p2 cd)
  with br1(1) closed all show ?thesis by blast
qed

definition sample_breaker_config :: CircuitBreakerConfig where
  "sample_breaker_config = \<lparr>bounce_threshold = 2, cooldown_seconds = 300, max_cooldown_seconds = 3600\<rparr>"

theorem circuit_opens_at_threshold_witness:
  "\<exists>br1 br2. breaker_records sample_breaker_config ''a'' ''b'' [\<lparr>b_now = 1, b_stamp = 1, b_swap = False\<rparr>]
       \<lparr>pairs = [], dirty = {}\<rparr> = Inr br1 \<and> (\<forall>now. allows (breaker_check sample_breaker_config now ''a'' ''b'' br1)) \<and>
     breaker_records sample_breaker_config ''a'' ''b'' ([\<lparr>b_now = 1, b_stamp = 1, b_swap = False\<rparr>] @
       [\<lparr>b_now = 5, b_stamp = 5, b_swap = True\<rparr>]) \<lparr>pairs = [], dirty = {}\<rparr> = Inr br2 \<and>
     (\<forall>now. allows (breaker_check sample_breaker_config now ''a'' ''b'' br2) \<longleftrightarrow> 305 \<le> now) \<and>
     (\<forall>now. allows (breaker_check sample_breaker_config now ''b'' ''a'' br2) \<longleftrightarrow> 305 \<le> now)"
  using circuit_opens_at_threshold [of sample_breaker_config "''a''" "''b''" "(''a'', ''b'')"
      "\<lparr>pairs = [], dirty = {}\<rparr>" "[\<lparr>b_now = 1, b_stamp = 1, b_swap = False\<rparr>]"
      "\<lparr>b_now = 5, b_stamp = 5, b_swap = True\<rparr>"]
  by (simp add: sample_breaker_config_def valid_breaker_config_def pair_key_def not_blank_def
      py_isspace_def min_def max_def del: breaker_records.simps)

text \<open>
  The cooldown is the exponential backoff \<open>cooldown * 2 ^ (trips - 1)\<close> capped at the maximum:
  it never decreases with the number of trips and stays between the base and the maximum. The
  exponent's own cap at 63 changes nothing as long as the maximum is at most
  \<open>cooldown * 2 ^ 63\<close>.
\<close>

theorem cooldown_backoff:
  assumes "valid_breaker_config c"
  shows "of_int (cooldown_seconds c) \<le> compute_cooldown c n \<and>
    compute_cooldown c n \<le> of_int (max_cooldown_seconds c) \<and>
    (m \<le> n \<longrightarrow> compute_cooldown c m \<le> compute_cooldown c n) \<and>
    (1 \<le> n \<and> max_cooldown_seconds c \<le> cooldown_seconds c * 2 ^ 63 \<longrightarrow>
       compute_cooldown c n = of_int (min (cooldown_seconds c * 2 ^ nat (n - 1)) (max_cooldown_seconds c)))"
proof -
  let ?e = "\<lambda>n. cooldown_seconds c * 2 ^ nat (min (n - 1) 63)"
  have pos: "0 < cooldown_seconds c" "cooldown_seconds c \<le> max_cooldown_seconds c"
    using assms by (auto simp: valid_breaker_config_def)
  have form: "compute_cooldown c k = of_int (min (?e k) (max_cooldown_seconds c))" for k
    using pos by (cases "k \<le> 0") (auto simp: compute_cooldown_def Let_def of_int_min)
  have base: "cooldown_seconds c \<le> ?e k" for k
    using pos(1) by (simp add: mult_le_cancel_left1)
  have mono: "m \<le> n \<Longrightarrow> ?e m \<le> ?e n"
    using pos(1) by (intro mult_left_mono power_increasing) (auto simp: nat_mono)
  have big: "min (?e n) (max_cooldown_seconds c) = min (cooldown_seconds c * 2 ^ nat (n - 1)) (max_cooldown_seconds c)"
    if "1 \<le> n" "max_cooldown_seconds c \<le> cooldown_seconds c * 2 ^ 63"
  proof (cases "n - 1 \<le> 63")
    case False
    then have le: "cooldown_seconds c * 2 ^ 63 \<le> cooldown_seconds c * 2 ^ nat (n - 1)"
      using pos(1) by (intro mult_left_mono power_increasing) auto
    have "nat (min (n - 1) 63) = 63" using False by simp
    then show ?thesis
      by (simp only: min.absorb2 [OF that(2)] min.absorb2 [OF order_trans [OF that(2) le]])
  qed simp
  have "m \<le> n \<longrightarrow> compute_cooldown c m \<le> compute_cooldown c n"
    unfolding form of_int_le_iff by (intro impI min.mono mono) auto
  moreover have "of_int (cooldown_seconds c) \<le> compute_cooldown c n \<and>
      compute_cooldown c n \<le> of_int (max_cooldown_seconds c)"
    unfolding form of_int_le_iff using pos(2) base [of n] by simp
  ultimately show ?thesis using big unfolding form by simp
qed

theorem cooldown_backoff_witness:
  "compute_cooldown sample_breaker_config 3 = 1200 \<and> compute_cooldown sample_breaker_config 9 = 3600"
  using cooldown_backoff [of sample_breaker_config 3 1] cooldown_backoff [of sample_breaker_config 9 1]
  by (simp add: sample_breaker_config_def valid_breaker_config_def)

text \<open>
  The guard lets a delegation through exactly when all five mechanisms do: the delegatee is
  not in the chain, the chain is shorter than the maximum depth, the same delegation was not
  recorded within the window, the pair is below its rate and its circuit is not open; when it is
  refused, the outcome names the mechanism and carries a reason, and the chain checks change no
  state.
\<close>

theorem guard_check_iff:
  assumes "valid_loop_config c" and "not_blank a" and "not_blank b" and "distinct (dkeys (g_dedup g))"
  shows "(allows (guard_check c now chain a b t g) \<longleftrightarrow>
      b \<notin> set chain \<and> int (length chain) < max_delegation_depth c \<and>
      (\<forall>ts. dget (g_dedup g) (a, b, t) = Some ts \<longrightarrow> ts + of_int (dedup_window_seconds c) \<le> at_dedup now) \<and>
      int (length (filter (\<lambda>ts. ts > at_rate now - 60) (dget_or (g_rates g) (min a b, max a b) [])))
        < rate_cap (rate_limit c) \<and>
      (\<forall>p ts. dget (pairs (g_breaker g)) (min a b, max a b) = Some p \<and> opened_at p = Some ts \<longrightarrow>
        ts + compute_cooldown (circuit_breaker c) (trip_count p) \<le> at_breaker now)) \<and>
    (\<exists>r. fst (guard_check c now chain a b t g) = Inr r \<and> valid_outcome r \<and>
      (\<not> passed r \<longrightarrow> mechanism r \<in> {''ancestry'', ''max_depth'', ''dedup'', ''rate_limit'', ''circuit_breaker''}))"
proof -
  have key: "pair_key a b = Inr (min a b, max a b)" using assms(2,3) by (rule pair_key_Inr)
  have depth: "0 < max_delegation_depth c" using assms(1) by (simp add: valid_loop_config_def)
  obtain r3 d where d: "dedup_check (dedup_window_seconds c) (at_dedup now) a b t (g_dedup g) = (Inr r3, d)"
    using dedup.check_total [OF assms(2,3)] by (metis prod.collapse)
  obtain r4 ts where r: "rate_check (rate_limit c) (at_rate now) a b (g_rates g) = (Inr r4, ts)"
    using rate.check_total [OF assms(2,3), of "rate_limit c"] by (metis prod.collapse)
  obtain r5 br where br: "breaker_check (circuit_breaker c) (at_breaker now) a b (g_breaker g) = (Inr r5, br)"
    using breaker.check_total [OF assms(2,3), of "circuit_breaker c"] by (metis prod.collapse)
  have out: "valid_outcome r3 \<and> mechanism r3 = ''dedup''" "valid_outcome r4 \<and> mechanism r4 = ''rate_limit''"
    "valid_outcome r5 \<and> mechanism r5 = ''circuit_breaker''"
    using dedup.check_outcome [of "dedup_window_seconds c" "at_dedup now" a b t "g_dedup g"]
      rate.check_outcome [of "rate_limit c" "at_rate now" a b "g_rates g"]
      breaker.check_outcome [of "circuit_breaker c" "at_breaker now" a b "g_breaker g"] d r br by auto
  have p3: "passed r3 \<longleftrightarrow> (\<forall>x. dget (g_dedup g) (a, b, t) = Some x \<longrightarrow>
      x + of_int (dedup_window_seconds c) \<le> at_dedup now)"
    using dedup_allows_iff [OF assms(4), of "dedup_window_seconds c" "at_dedup now" a b t] d
    by (simp add: le_diff_eq)
  have p4: "passed r4 \<longleftrightarrow>
      int (length (filter (\<lambda>x. x > at_rate now - 60) (dget_or (g_rates g) (min a b, max a b) [])))
        < rate_cap (rate_limit c)"
    using rate_allows_iff [of "rate_limit c" "at_rate now" a b "g_rates g"] r key
    by (simp add: rate_window_def)
  have p5: "passed r5 \<longleftrightarrow> (\<forall>p x. dget (pairs (g_breaker g)) (min a b, max a b) = Some p \<and>
      opened_at p = Some x \<longrightarrow> x + compute_cooldown (circuit_breaker c) (trip_count p) \<le> at_breaker now)"
    using breaker_allows_iff [OF key, of "circuit_breaker c" "at_breaker now" "g_breaker g"] br
    by (simp add: le_diff_eq add.commute)
  show ?thesis
    using depth d r br out
    by (simp add: guard_check_def check_ancestry_def check_delegation_depth_def Let_def p3 [symmetric]
        p4 [symmetric] p5 [symmetric])
qed

definition sample_loop_config :: LoopPreventionConfig where
  "sample_loop_config = \<lparr>max_delegation_depth = 5, rate_limit = \<lparr>max_per_pair_per_minute = 10, burst_allowance = 3\<rparr>,
     dedup_window_seconds = 60, circuit_breaker = sample_breaker_config\<rparr>"

definition new_guard :: guard where
  "new_guard = \<lparr>g_dedup = [], g_rates = [], g_breaker = \<lparr>pairs = [], dirty = {}\<rparr>\<rparr>"

definition sample_readings :: readings where
  "sample_readings = \<lparr>at_dedup = 1, at_dedup_stamp = 1, at_rate = 1, at_breaker = 1, at_breaker_stamp = 1\<rparr>"

lemma sample_loop_config_valid: "valid_loop_config sample_loop_config"
  by (simp add: sample_loop_config_def sample_breaker_config_def valid_loop_config_def valid_rate_config_def
      valid_breaker_config_def)

theorem guard_check_iff_witness:
  "allows (guard_check sample_loop_config sample_readings [''ceo''] ''cto'' ''dev'' ''t'' new_guard) \<and>
   \<not> allows (guard_check sample_loop_config sample_readings [''ceo''] ''cto'' ''ceo'' ''t'' new_guard)"
  using guard_check_iff [OF sample_loop_config_valid, of "''cto''" "''dev''" new_guard sample_readings
      "[''ceo'']" "''t''"]
    guard_check_iff [OF sample_loop_config_valid, of "''cto''" "''ceo''" new_guard sample_readings
      "[''ceo'']" "''t''"]
  by (simp add: new_guard_def not_blank_def py_isspace_def sample_loop_config_def rate_cap_def)

text \<open>
  A delegation that was recorded blocks its exact repetition (same delegator, delegatee and
  task) for exactly the deduplication window after its stamp; recording it does not change the
  verdict on any other delegation at a later reading.
\<close>

theorem dedup_window_exact:
  assumes "distinct (dkeys recs)" and "now0 \<le> now"
  shows "(allows (dedup_check w now a b t (dedup_record w now0 stamp a b t recs)) \<longleftrightarrow>
      stamp + of_int w \<le> now) \<and>
    ((a', b', t') \<noteq> (a, b, t) \<longrightarrow>
      allows (dedup_check w now a' b' t' (dedup_record w now0 stamp a b t recs))
        = allows (dedup_check w now a' b' t' recs))"
proof -
  have d: "distinct (dkeys (dedup_record w now0 stamp a b t recs))"
    using assms(1) by (simp add: dedup_record_def)
  have "\<And>ts. ts \<le> now0 - of_int w \<Longrightarrow> ts \<le> now - of_int w" using assms(2) by linarith
  then show ?thesis
    unfolding dedup_allows_iff [OF d] dedup_allows_iff [OF assms(1)]
    using assms(1) by (auto simp: dedup_record_def dget_purge le_diff_eq split: option.splits)
qed

theorem dedup_window_exact_witness:
  "\<not> allows (dedup_check 60 30 ''a'' ''b'' ''t'' (dedup_record 60 0 0 ''a'' ''b'' ''t'' [])) \<and>
   allows (dedup_check 60 60 ''a'' ''b'' ''t'' (dedup_record 60 0 0 ''a'' ''b'' ''t'' []))"
  using dedup_window_exact [of "[]" 0 30 60 "''a''" "''b''" "''t''" 0 "''a''" "''b''" "''t''"]
    dedup_window_exact [of "[]" 0 60 60 "''a''" "''b''" "''t''" 0 "''a''" "''b''" "''t''"] by simp

text \<open>
  After a restart the persisted \<open>opened_at\<close> of the old process is compared with the clock of
  the new one. A circuit that was opened at reading \<open>T\<close> and reloaded refuses the pair at every
  reading below \<open>T\<close> plus the cooldown; when the new monotonic clock starts from zero this lasts
  \<open>T\<close> longer than the maximum cooldown allows.
\<close>

theorem restart_extends_cooldown:
  assumes "valid_breaker_config c" and "pair_key a b = Inr key" and "opened_at p = Some T"
  shows "(allows (breaker_check c now a b (load_state (Some [(key, p)]) \<lparr>pairs = [], dirty = {}\<rparr>)) \<longleftrightarrow>
      T + compute_cooldown c (trip_count p) \<le> now) \<and>
    (now < T \<longrightarrow>
      \<not> allows (breaker_check c now a b (load_state (Some [(key, p)]) \<lparr>pairs = [], dirty = {}\<rparr>)))"
proof -
  have iff: "allows (breaker_check c now a b (load_state (Some [(key, p)]) \<lparr>pairs = [], dirty = {}\<rparr>)) \<longleftrightarrow>
      T + compute_cooldown c (trip_count p) \<le> now"
    using assms(3) by (auto simp: breaker_allows_iff [OF assms(2)] load_state_def le_diff_eq add.commute)
  show ?thesis
    unfolding iff using compute_cooldown_pos [OF assms(1), of "trip_count p"] by auto
qed

theorem restart_extends_cooldown_witness:
  "\<not> allows (breaker_check sample_breaker_config 86399 ''a'' ''b''
      (load_state (Some [((''a'', ''b''), \<lparr>bounce_count = 2, opened_at = Some 86400, trip_count = 1\<rparr>)])
         \<lparr>pairs = [], dirty = {}\<rparr>))"
  by (rule restart_extends_cooldown [where T = 86400, THEN conjunct2, THEN mp])
    (simp_all add: sample_breaker_config_def valid_breaker_config_def pair_key_def not_blank_def
      py_isspace_def min_def max_def)

end
