(* ===== verification/Delegation.thy ===== *)
theory Delegation
  imports Task_Model Hierarchy Loop_Prevention
begin

text \<open>
  Hierarchical delegation, \<^verbatim>\<open>communication/delegation/\<close>: the authority validator, the entity
  alignment guard, the bounded record store and the service that runs authority check, loop guard
  and entity guard, creates the sub-task and records it.

  The service call is split where the code suspends: \<open>delegate_begin\<close> is what runs before the
  \<open>await\<close> of the entity guard, \<open>delegate_finish\<close> what runs after it, and \<open>delegate\<close> is the call
  without interleaving. Clock readings, fresh identifiers, the timestamp and the ontology's answer
  are arguments. \<open>None\<close> is a call that does not return, which only the hierarchy walk could cause.
\<close>

subsection \<open>Authority\<close>

record HierarchyConfig =
  enforce_chain_of_command :: bool
  allow_skip_level :: bool

record AgentIdentity =
  ag_name :: agent
  ag_role :: string
  can_delegate_to :: "string list"

datatype authority_reason =
    NoReason
  | NotBelow bool agent agent  \<comment> \<open>skip-level wording, delegatee, delegator\<close>
  | RoleNotPermitted string "string list"

record AuthorityCheckResult =
  allowed :: bool
  reason :: authority_reason

definition authority_ok :: AuthorityCheckResult where
  "authority_ok = \<lparr>allowed = True, reason = NoReason\<rparr>"

definition check_hierarchy ::
  "charts \<Rightarrow> HierarchyConfig \<Rightarrow> AgentIdentity \<Rightarrow> AgentIdentity \<Rightarrow> AuthorityCheckResult option" where
  "check_hierarchy h cfg delegator delegatee =
     (let denied = \<lparr>allowed = False, reason = NotBelow (allow_skip_level cfg) (ag_name delegatee) (ag_name delegator)\<rparr> in
      if is_direct_report h (ag_name delegator) (ag_name delegatee) then Some authority_ok
      else if allow_skip_level cfg then
        Option.bind (is_subordinate h (ag_name delegator) (ag_name delegatee))
          (\<lambda>is_sub. Some (if is_sub then authority_ok else denied))
      else Some denied)"

definition check_role_permissions :: "AgentIdentity \<Rightarrow> AgentIdentity \<Rightarrow> AuthorityCheckResult" where
  "check_role_permissions delegator delegatee =
     (let roles = can_delegate_to delegator in
      if roles = [] then authority_ok
      else if ag_role delegatee \<in> set roles then authority_ok
      else \<lparr>allowed = False, reason = RoleNotPermitted (ag_role delegatee) roles\<rparr>)"

definition validate_authority ::
  "charts \<Rightarrow> HierarchyConfig \<Rightarrow> AgentIdentity \<Rightarrow> AgentIdentity \<Rightarrow> AuthorityCheckResult option" where
  "validate_authority h cfg delegator delegatee =
     (let roles = check_role_permissions delegator delegatee in
      if enforce_chain_of_command cfg then
        Option.bind (check_hierarchy h cfg delegator delegatee)
          (\<lambda>r. Some (if \<not> allowed r then r else roles))
      else Some roles)"

subsection \<open>Requests, results and records\<close>

record DelegationRequest =
  delegator_id :: agent
  delegatee_id :: agent
  rq_task :: Task
  refinement :: string
  constraints :: "string list"
  rq_entity_versions :: "(string, int) dict option"

definition valid_request :: "(string \<Rightarrow> bool) \<Rightarrow> DelegationRequest \<Rightarrow> bool" where
  "valid_request isofmt rq \<longleftrightarrow> not_blank (delegator_id rq) \<and> not_blank (delegatee_id rq) \<and>
     valid_task isofmt (rq_task rq) \<and> list_all not_blank (constraints rq) \<and> delegator_id rq \<noteq> delegatee_id rq"

record DelegationRecord =
  dr_id :: string
  dr_delegator :: agent
  dr_delegatee :: agent
  dr_original_task :: string
  dr_delegated_task :: string
  dr_timestamp :: time
  dr_refinement :: string
  dr_entity_versions :: "(string, int) dict option"

definition valid_record :: "DelegationRecord \<Rightarrow> bool" where
  "valid_record r \<longleftrightarrow> not_blank (dr_id r) \<and> not_blank (dr_delegator r) \<and> not_blank (dr_delegatee r) \<and>
     not_blank (dr_original_task r) \<and> not_blank (dr_delegated_task r)"

subsection \<open>Entity alignment guard\<close>

datatype GuardMode = NONE | STAMP | VALIDATE | ENFORCE

text \<open>A mismatch: entity, version known to the delegator, current version if there is one.\<close>

type_synonym mismatch = "string \<times> int \<times> int option"

datatype entity_message = NoMessage | ManifestUnavailable | NoEntities | StaleVersions "mismatch list"

record EntityGuardOutcome =
  eg_passed :: bool
  eg_mechanism :: string
  eg_message :: entity_message
  eg_versions :: "(string, int) dict option"

definition entity_outcome :: "bool \<Rightarrow> entity_message \<Rightarrow> (string, int) dict option \<Rightarrow> EntityGuardOutcome" where
  "entity_outcome ok msg vs =
     \<lparr>eg_passed = ok, eg_mechanism = ''entity_alignment'', eg_message = msg, eg_versions = vs\<rparr>"

definition mismatches :: "(string, int) dict \<Rightarrow> (string, int) dict option \<Rightarrow> mismatch list" where
  "mismatches manifest known = (case known of
     None \<Rightarrow> []
   | Some vs \<Rightarrow> [(name, ver, dget manifest name). (name, ver) \<leftarrow> vs, dget manifest name \<noteq> Some ver])"

text \<open>The manifest is \<open>None\<close> when the ontology backend raised.\<close>

definition entity_check ::
  "GuardMode \<Rightarrow> (string, int) dict option \<Rightarrow> DelegationRequest \<Rightarrow> EntityGuardOutcome" where
  "entity_check mode retrieved rq =
     (if mode = NONE then entity_outcome True NoMessage None
      else if retrieved = None \<and> mode = ENFORCE then entity_outcome False ManifestUnavailable None
      else let manifest = (case retrieved of None \<Rightarrow> [] | Some m \<Rightarrow> m) in
        if mode = STAMP then entity_outcome True NoMessage (Some manifest)
        else let mm = mismatches manifest (rq_entity_versions rq) in
          if mode = VALIDATE then entity_outcome True NoMessage (Some manifest)
          else if manifest = [] then entity_outcome False NoEntities (Some manifest)
          else if mm \<noteq> [] then entity_outcome False (StaleVersions mm) (Some manifest)
          else entity_outcome True NoMessage (Some manifest))"

subsection \<open>Record store\<close>

record record_store =
  rs_records :: "DelegationRecord list"
  rs_maxlen :: nat
  rs_eviction_warned :: bool

definition new_record_store :: "int \<Rightarrow> record_store option" where
  "new_record_store max_records =
     (if max_records < 1 then None
      else Some \<lparr>rs_records = [], rs_maxlen = nat max_records, rs_eviction_warned = False\<rparr>)"

definition record_sync :: "DelegationRecord \<Rightarrow> record_store \<Rightarrow> record_store" where
  "record_sync r s =
     s\<lparr>rs_eviction_warned := rs_eviction_warned s \<or> length (rs_records s) = rs_maxlen s,
       rs_records := deque_append (rs_maxlen s) (rs_records s) r\<rparr>"

definition clear_records :: "record_store \<Rightarrow> record_store" where
  "clear_records s = s\<lparr>rs_records := [], rs_eviction_warned := False\<rparr>"

datatype range_error = BadTimeRange time time

definition validate_time_range :: "time option \<Rightarrow> time option \<Rightarrow> range_error + unit" where
  "validate_time_range s e = (case (s, e) of
     (Some x, Some y) \<Rightarrow> if x \<ge> y then Inl (BadTimeRange x y) else Inr ()
   | _ \<Rightarrow> Inr ())"

definition filter_records ::
  "DelegationRecord list \<Rightarrow> agent option \<Rightarrow> agent option \<Rightarrow> time option \<Rightarrow> time option \<Rightarrow> DelegationRecord list" where
  "filter_records rs from to s e = filter (\<lambda>r.
     (case from of None \<Rightarrow> True | Some a \<Rightarrow> dr_delegator r = a) \<and>
     (case to of None \<Rightarrow> True | Some a \<Rightarrow> dr_delegatee r = a) \<and>
     (case s of None \<Rightarrow> True | Some x \<Rightarrow> dr_timestamp r \<ge> x) \<and>
     (case e of None \<Rightarrow> True | Some x \<Rightarrow> dr_timestamp r < x)) rs"

definition get_records_as_delegator ::
  "agent \<Rightarrow> time option \<Rightarrow> time option \<Rightarrow> record_store \<Rightarrow> range_error + DelegationRecord list" where
  "get_records_as_delegator a s e st =
     rbind (validate_time_range s e) (\<lambda>_. Inr (filter_records (rs_records st) (Some a) None s e))"

definition get_records_as_delegatee ::
  "agent \<Rightarrow> time option \<Rightarrow> time option \<Rightarrow> record_store \<Rightarrow> range_error + DelegationRecord list" where
  "get_records_as_delegatee a s e st =
     rbind (validate_time_range s e) (\<lambda>_. Inr (filter_records (rs_records st) None (Some a) s e))"

definition get_all_records :: "time option \<Rightarrow> time option \<Rightarrow> record_store \<Rightarrow> range_error + DelegationRecord list" where
  "get_all_records s e st =
     rbind (validate_time_range s e) (\<lambda>_. Inr (filter_records (rs_records st) None None s e))"

subsection \<open>The service\<close>

datatype rejection = ByAuthority authority_reason | ByGuard guard_message | ByEntity entity_message

record DelegationResult =
  success :: bool
  delegated_task :: "Task option"
  rejection_reason :: "rejection option"
  blocked_by :: "string option"

definition rejected :: "rejection \<Rightarrow> string \<Rightarrow> DelegationResult" where
  "rejected why who = \<lparr>success = False, delegated_task = None, rejection_reason = Some why, blocked_by = Some who\<rparr>"

definition succeeded :: "Task \<Rightarrow> DelegationResult" where
  "succeeded t = \<lparr>success = True, delegated_task = Some t, rejection_reason = None, blocked_by = None\<rparr>"

datatype delegation_error =
    DelegatorMismatch agent agent
  | DelegateeMismatch agent agent
  | GuardFailed guard_error
  | DelegationError agent agent string  \<comment> \<open>delegator, delegatee, original task\<close>
  | RecordInvalid

record service =
  sv_guard :: guard
  sv_audit_trail :: "DelegationRecord list"
  sv_record_store :: "record_store option"

text \<open>What the service is constructed with.\<close>

record service_config =
  sc_hierarchy :: charts
  sc_authority :: HierarchyConfig
  sc_loop :: LoopPreventionConfig
  sc_entity_mode :: "GuardMode option"

text \<open>What one call reads from its environment.\<close>

record call_env =
  ev_check :: readings
  ev_record :: readings
  ev_manifest :: "(string, int) dict option"
  ev_task_hex :: string
  ev_record_id :: string
  ev_timestamp :: time

definition validate_identity :: "DelegationRequest \<Rightarrow> AgentIdentity \<Rightarrow> AgentIdentity \<Rightarrow> delegation_error + unit" where
  "validate_identity rq delegator delegatee = guard_with ()
     [(delegator_id rq \<noteq> ag_name delegator, DelegatorMismatch (delegator_id rq) (ag_name delegator)),
      (delegatee_id rq \<noteq> ag_name delegatee, DelegateeMismatch (delegatee_id rq) (ag_name delegatee))]"

definition nl :: string where
  "nl = [CHR 0x0A]"

fun join_lines :: "string list \<Rightarrow> string" where
  "join_lines [] = []"
| "join_lines [l] = l"
| "join_lines (l # ls) = l @ nl @ join_lines ls"

definition sub_task_description :: "DelegationRequest \<Rightarrow> string" where
  "sub_task_description rq =
     (let d0 = t_description (rq_task rq);
          d1 = (if refinement rq \<noteq> [] then d0 @ nl @ nl @ ''Delegation context: '' @ refinement rq else d0) in
      if constraints rq \<noteq> []
      then d1 @ nl @ nl @ ''Constraints:'' @ nl @ join_lines (List.map (\<lambda>c. ''- '' @ c) (constraints rq))
      else d1)"

definition sub_task :: "DelegationRequest \<Rightarrow> string \<Rightarrow> Task" where
  "sub_task rq hex =
     (let original = rq_task rq in
      \<lparr>t_id = ''del-'' @ take 12 hex, t_title = t_title original, t_description = sub_task_description rq,
       t_type = t_type original, t_priority = t_priority original, t_project = t_project original,
       t_created_by = delegator_id rq, t_assigned_to = None, t_reviewers = t_reviewers original,
       t_dependencies = t_dependencies original, t_artifacts_expected = t_artifacts_expected original,
       t_acceptance_criteria = t_acceptance_criteria original,
       t_estimated_complexity = t_estimated_complexity original, t_budget_limit = t_budget_limit original,
       t_deadline = t_deadline original, t_max_retries = t_max_retries original, t_status = CREATED,
       t_parent_task_id = Some (t_id original),
       t_delegation_chain = t_delegation_chain original @ [delegator_id rq],
       t_task_structure = None, t_coordination_topology = AUTO, t_source = None,
       t_middleware_override = None, t_metadata = []\<rparr>)"

definition create_sub_task :: "(string \<Rightarrow> bool) \<Rightarrow> DelegationRequest \<Rightarrow> string \<Rightarrow> delegation_error + Task" where
  "create_sub_task isofmt rq hex = (case model_validate isofmt (sub_task rq hex) of
     Inl _ \<Rightarrow> Inl (DelegationError (delegator_id rq) (delegatee_id rq) (t_id (rq_task rq)))
   | Inr t \<Rightarrow> Inr t)"

definition record_delegation ::
  "service_config \<Rightarrow> call_env \<Rightarrow> DelegationRequest \<Rightarrow> Task \<Rightarrow> (string, int) dict option \<Rightarrow> service \<Rightarrow>
     (delegation_error + unit) \<times> service" where
  "record_delegation sc ev rq sub versions sv =
     (case guard_record (sc_loop sc) (ev_record ev) (delegator_id rq) (delegatee_id rq) (t_id (rq_task rq)) (sv_guard sv) of
        (Inl e, g) \<Rightarrow> (Inl (GuardFailed e), sv\<lparr>sv_guard := g\<rparr>)
      | (Inr _, g) \<Rightarrow>
          let rec = \<lparr>dr_id = ev_record_id ev, dr_delegator = delegator_id rq, dr_delegatee = delegatee_id rq,
                     dr_original_task = t_id (rq_task rq), dr_delegated_task = t_id sub,
                     dr_timestamp = ev_timestamp ev, dr_refinement = refinement rq,
                     dr_entity_versions = versions\<rparr> in
          if \<not> valid_record rec then (Inl RecordInvalid, sv\<lparr>sv_guard := g\<rparr>)
          else (Inr (), sv\<lparr>sv_guard := g, sv_audit_trail := sv_audit_trail sv @ [rec],
                          sv_record_store := map_option (record_sync rec) (sv_record_store sv)\<rparr>))"

text \<open>Steps 1 and 2: \<open>Some\<close> result ends the call, \<open>None\<close> goes on to the entity guard.\<close>

definition delegate_begin ::
  "service_config \<Rightarrow> call_env \<Rightarrow> DelegationRequest \<Rightarrow> AgentIdentity \<Rightarrow> AgentIdentity \<Rightarrow> service \<Rightarrow>
     ((delegation_error + DelegationResult option) \<times> service) option" where
  "delegate_begin sc ev rq delegator delegatee sv =
     (case validate_identity rq delegator delegatee of
        Inl e \<Rightarrow> Some (Inl e, sv)
      | Inr _ \<Rightarrow> Option.bind (validate_authority (sc_hierarchy sc) (sc_authority sc) delegator delegatee) (\<lambda>auth.
          if \<not> allowed auth then Some (Inr (Some (rejected (ByAuthority (reason auth)) ''authority'')), sv)
          else case guard_check (sc_loop sc) (ev_check ev) (t_delegation_chain (rq_task rq)) (delegator_id rq)
                      (delegatee_id rq) (t_id (rq_task rq)) (sv_guard sv) of
                 (Inl e, g) \<Rightarrow> Some (Inl (GuardFailed e), sv\<lparr>sv_guard := g\<rparr>)
               | (Inr outcome, g) \<Rightarrow>
                   if \<not> passed outcome
                   then Some (Inr (Some (rejected (ByGuard (message outcome)) (mechanism outcome))), sv\<lparr>sv_guard := g\<rparr>)
                   else Some (Inr None, sv\<lparr>sv_guard := g\<rparr>)))"

text \<open>Step 3, the entity guard when there is one, and step 4.\<close>

definition create_and_record ::
  "(string \<Rightarrow> bool) \<Rightarrow> service_config \<Rightarrow> call_env \<Rightarrow> DelegationRequest \<Rightarrow> (string, int) dict option \<Rightarrow> service \<Rightarrow>
     (delegation_error + DelegationResult) \<times> service" where
  "create_and_record isofmt sc ev rq versions sv =
     (case create_sub_task isofmt rq (ev_task_hex ev) of
        Inl e \<Rightarrow> (Inl e, sv)
      | Inr t \<Rightarrow> (case record_delegation sc ev rq t versions sv of
            (Inl e, sv') \<Rightarrow> (Inl e, sv')
          | (Inr _, sv') \<Rightarrow> (Inr (succeeded t), sv')))"

definition delegate_finish ::
  "(string \<Rightarrow> bool) \<Rightarrow> service_config \<Rightarrow> call_env \<Rightarrow> DelegationRequest \<Rightarrow> service \<Rightarrow>
     (delegation_error + DelegationResult) \<times> service" where
  "delegate_finish isofmt sc ev rq sv =
     (case sc_entity_mode sc of
        None \<Rightarrow> create_and_record isofmt sc ev rq None sv
      | Some mode \<Rightarrow>
          let r = entity_check mode (ev_manifest ev) rq in
          if \<not> eg_passed r then (Inr (rejected (ByEntity (eg_message r)) (eg_mechanism r)), sv)
          else create_and_record isofmt sc ev rq (eg_versions r) sv)"

definition delegate ::
  "(string \<Rightarrow> bool) \<Rightarrow> service_config \<Rightarrow> call_env \<Rightarrow> DelegationRequest \<Rightarrow> AgentIdentity \<Rightarrow> AgentIdentity \<Rightarrow> service \<Rightarrow>
     ((delegation_error + DelegationResult) \<times> service) option" where
  "delegate isofmt sc ev rq delegator delegatee sv =
     Option.bind (delegate_begin sc ev rq delegator delegatee sv) (\<lambda>(r, sv').
       case r of
         Inl e \<Rightarrow> Some (Inl e, sv')
       | Inr (Some res) \<Rightarrow> Some (Inr res, sv')
       | Inr None \<Rightarrow> Some (delegate_finish isofmt sc ev rq sv'))"

definition reject_delegated_task :: "(string \<Rightarrow> bool) \<Rightarrow> Task \<Rightarrow> task_error + Task" where
  "reject_delegated_task isofmt t = with_transition isofmt t REJECTED []"

definition get_audit_trail :: "service \<Rightarrow> DelegationRecord list" where
  "get_audit_trail sv = sv_audit_trail sv"

subsection \<open>Authority is decided by the chart\<close>

lemma authority_ok_simps [simp]: "allowed authority_ok" "reason authority_ok = NoReason"
  by (simp_all add: authority_ok_def)

definition role_permitted :: "AgentIdentity \<Rightarrow> AgentIdentity \<Rightarrow> bool" where
  "role_permitted a b \<longleftrightarrow> can_delegate_to a = [] \<or> ag_role b \<in> set (can_delegate_to a)"

lemma check_role_allowed: "allowed (check_role_permissions a b) \<longleftrightarrow> role_permitted a b"
  by (simp add: check_role_permissions_def role_permitted_def Let_def)

lemma check_hierarchy_made:
  assumes "HierarchyResolver ds = Inr h"
  obtains r where "check_hierarchy h cfg a b = Some r"
    "allowed r \<longleftrightarrow> (if allow_skip_level cfg then (ag_name b, ag_name a) \<in> (up (supervisor_of h))\<^sup>+
       else get_supervisor h (ag_name b) = Some (ag_name a))"
    "\<not> allowed r \<Longrightarrow> reason r = NotBelow (allow_skip_level cfg) (ag_name b) (ag_name a)"
proof -
  have direct: "is_direct_report h m x \<longleftrightarrow> get_supervisor h x = Some m" for m x
    using chart.made_reports [OF assms] by (simp add: is_direct_report_def get_supervisor_def)
  have "\<exists>r. check_hierarchy h cfg a b = Some r \<and>
      (allowed r \<longleftrightarrow> (if allow_skip_level cfg then (ag_name b, ag_name a) \<in> (up (supervisor_of h))\<^sup>+
         else get_supervisor h (ag_name b) = Some (ag_name a))) \<and>
      (\<not> allowed r \<longrightarrow> reason r = NotBelow (allow_skip_level cfg) (ag_name b) (ag_name a))"
    using is_subordinate_eq [OF chart.made_wf [OF assms]]
    by (auto simp: check_hierarchy_def Let_def direct get_supervisor_def)
  then show ?thesis using that by blast
qed

text \<open>The abstract meaning of the authority check.\<close>

definition may_delegate :: "charts \<Rightarrow> HierarchyConfig \<Rightarrow> AgentIdentity \<Rightarrow> AgentIdentity \<Rightarrow> bool" where
  "may_delegate h cfg a b \<longleftrightarrow> role_permitted a b \<and>
     (enforce_chain_of_command cfg \<longrightarrow>
        (if allow_skip_level cfg then (ag_name b, ag_name a) \<in> (up (supervisor_of h))\<^sup>+
         else get_supervisor h (ag_name b) = Some (ag_name a)))"

lemma validate_authority_made:
  assumes "HierarchyResolver ds = Inr h"
  obtains r where "validate_authority h cfg a b = Some r" "allowed r \<longleftrightarrow> may_delegate h cfg a b"
    "\<not> allowed r \<Longrightarrow> reason r \<noteq> NoReason"
proof -
  obtain r where r: "check_hierarchy h cfg a b = Some r"
    "allowed r \<longleftrightarrow> (if allow_skip_level cfg then (ag_name b, ag_name a) \<in> (up (supervisor_of h))\<^sup>+
       else get_supervisor h (ag_name b) = Some (ag_name a))"
    "\<not> allowed r \<Longrightarrow> reason r = NotBelow (allow_skip_level cfg) (ag_name b) (ag_name a)"
    using check_hierarchy_made [OF assms] by blast
  have roles: "\<not> allowed (check_role_permissions a b) \<Longrightarrow> reason (check_role_permissions a b) \<noteq> NoReason"
    by (auto simp: check_role_permissions_def Let_def split: if_splits)
  show ?thesis
  proof (cases "enforce_chain_of_command cfg")
    case True
    then show ?thesis
      using r roles by (intro that [of "if \<not> allowed r then r else check_role_permissions a b"])
        (auto simp: validate_authority_def Let_def may_delegate_def check_role_allowed)
  next
    case False
    then show ?thesis
      using roles by (intro that [of "check_role_permissions a b"])
        (auto simp: validate_authority_def Let_def may_delegate_def check_role_allowed)
  qed
qed

subsection \<open>The contract of the loop guard\<close>

locale chain_guard =
  fixes check :: "'n \<Rightarrow> agent list \<Rightarrow> agent \<Rightarrow> agent \<Rightarrow> string \<Rightarrow> 's \<Rightarrow> 's checked"
    and limit :: int
  assumes pass_chain: "allows (check now chain a b t s) \<Longrightarrow> b \<notin> set chain \<and> int (length chain) < limit"
begin

lemma extended_chain:
  assumes "allows (check now chain a b t s)" and "a \<noteq> b" and "distinct chain" and "a \<notin> set chain"
  shows "distinct (chain @ [a])" "b \<notin> set (chain @ [a])" "int (length (chain @ [a])) \<le> limit"
  using pass_chain [OF assms(1)] assms(2-4) by auto

end

interpretation loop_guard: chain_guard "guard_check c" "max_delegation_depth c" for c
proof
  fix now chain a b t g
  assume ok: "allows (guard_check c now chain a b t g)"
  have "b \<notin> set chain" using ok
    by (rule contrapos_pp) (simp add: guard_check_def check_ancestry_def)
  moreover have "int (length chain) < max_delegation_depth c" using ok
    by (rule contrapos_pp) (auto simp: guard_check_def check_ancestry_def check_delegation_depth_def Let_def)
  ultimately show "b \<notin> set chain \<and> int (length chain) < max_delegation_depth c" by simp
qed

subsection \<open>The sub-task\<close>

lemma not_blank_sub_task_description:
  "not_blank (t_description (rq_task rq)) \<Longrightarrow> not_blank (sub_task_description rq)"
  by (simp add: sub_task_description_def Let_def)

lemma not_blank_del: "not_blank (''del-'' @ x)"
  by (simp add: not_blank_def py_isspace_def)

lemma sub_task_valid_iff:
  assumes "valid_request isofmt rq"
  shows "valid_task isofmt (sub_task rq hex) \<longleftrightarrow>
    delegator_id rq \<notin> set (t_delegation_chain (rq_task rq)) \<and>
    t_id (rq_task rq) \<noteq> ''del-'' @ take 12 hex \<and>
    ''del-'' @ take 12 hex \<notin> set (t_dependencies (rq_task rq))"
proof -
  have t: "valid_task isofmt (rq_task rq)" and d: "not_blank (delegator_id rq)"
    using assms by (simp_all add: valid_request_def)
  have f: "field_constraints (sub_task rq hex)"
    using t d not_blank_sub_task_description [of rq] not_blank_del [of "take 12 hex"]
    by (simp add: sub_task_def field_constraints_def valid_task_def Let_def)
  show ?thesis
    unfolding valid_task_def using t f
    by (auto simp: sub_task_def valid_task_def requires_assignee_def Let_def)
qed

lemma create_sub_task_valid:
  "valid_task isofmt (sub_task rq hex) \<Longrightarrow> create_sub_task isofmt rq hex = Inr (sub_task rq hex)"
  by (simp add: create_sub_task_def model_validate_valid)

lemma create_sub_task_invalid:
  "\<not> valid_task isofmt (sub_task rq hex) \<Longrightarrow> create_sub_task isofmt rq hex =
     Inl (DelegationError (delegator_id rq) (delegatee_id rq) (t_id (rq_task rq)))"
  using model_validate_invalid [of isofmt "sub_task rq hex"] by (auto simp: create_sub_task_def)

subsection \<open>Steps of the service\<close>

definition audit_record :: "call_env \<Rightarrow> DelegationRequest \<Rightarrow> (string, int) dict option \<Rightarrow> DelegationRecord" where
  "audit_record ev rq versions =
     \<lparr>dr_id = ev_record_id ev, dr_delegator = delegator_id rq, dr_delegatee = delegatee_id rq,
      dr_original_task = t_id (rq_task rq), dr_delegated_task = ''del-'' @ take 12 (ev_task_hex ev),
      dr_timestamp = ev_timestamp ev, dr_refinement = refinement rq, dr_entity_versions = versions\<rparr>"

lemma t_id_sub_task: "t_id (sub_task rq hex) = ''del-'' @ take 12 hex"
  by (simp add: sub_task_def Let_def)

lemma valid_audit_record:
  "valid_request isofmt rq \<Longrightarrow> not_blank (ev_record_id ev) \<Longrightarrow> valid_record (audit_record ev rq vs)"
  using not_blank_del [of "take 12 (ev_task_hex ev)"]
  by (simp add: valid_record_def audit_record_def valid_request_def valid_task_def field_constraints_def)

text \<open>A valid request whose sub-task is valid is recorded: guard, audit trail and store.\<close>

lemma create_and_record_ok:
  assumes "valid_request isofmt rq" and "not_blank (ev_record_id ev)"
    and "valid_task isofmt (sub_task rq (ev_task_hex ev))"
  obtains g where
    "guard_record (sc_loop sc) (ev_record ev) (delegator_id rq) (delegatee_id rq) (t_id (rq_task rq)) (sv_guard sv) = (Inr (), g)"
    "create_and_record isofmt sc ev rq vs sv =
       (Inr (succeeded (sub_task rq (ev_task_hex ev))),
        sv\<lparr>sv_guard := g, sv_audit_trail := sv_audit_trail sv @ [audit_record ev rq vs],
           sv_record_store := map_option (record_sync (audit_record ev rq vs)) (sv_record_store sv)\<rparr>)"
proof -
  obtain g where g: "guard_record (sc_loop sc) (ev_record ev) (delegator_id rq) (delegatee_id rq)
      (t_id (rq_task rq)) (sv_guard sv) = (Inr (), g)"
    using assms(1) guard_record_total by (metis valid_request_def)
  have rec: "\<lparr>dr_id = ev_record_id ev, dr_delegator = delegator_id rq, dr_delegatee = delegatee_id rq,
      dr_original_task = t_id (rq_task rq), dr_delegated_task = t_id (sub_task rq (ev_task_hex ev)),
      dr_timestamp = ev_timestamp ev, dr_refinement = refinement rq, dr_entity_versions = vs\<rparr> = audit_record ev rq vs"
    by (simp add: audit_record_def t_id_sub_task)
  show ?thesis
    using that [OF g] valid_audit_record [OF assms(1,2), of vs]
    by (simp add: create_and_record_def create_sub_task_valid [OF assms(3)] record_delegation_def g rec Let_def)
qed

lemma create_and_record_fails:
  "\<not> valid_task isofmt (sub_task rq (ev_task_hex ev)) \<Longrightarrow>
   create_and_record isofmt sc ev rq vs sv =
     (Inl (DelegationError (delegator_id rq) (delegatee_id rq) (t_id (rq_task rq))), sv)"
  by (simp add: create_and_record_def create_sub_task_invalid)

text \<open>The entity guard, if configured, lets the request pass.\<close>

definition entity_passes :: "service_config \<Rightarrow> call_env \<Rightarrow> DelegationRequest \<Rightarrow> bool" where
  "entity_passes sc ev rq \<longleftrightarrow> (case sc_entity_mode sc of None \<Rightarrow> True
     | Some mode \<Rightarrow> eg_passed (entity_check mode (ev_manifest ev) rq))"

definition entity_versions_of :: "service_config \<Rightarrow> call_env \<Rightarrow> DelegationRequest \<Rightarrow> (string, int) dict option" where
  "entity_versions_of sc ev rq = (case sc_entity_mode sc of None \<Rightarrow> None
     | Some mode \<Rightarrow> eg_versions (entity_check mode (ev_manifest ev) rq))"

lemma entity_check_mechanism: "eg_mechanism (entity_check mode m rq) = ''entity_alignment''"
  by (simp add: entity_check_def entity_outcome_def Let_def)

lemma delegate_finish_passes:
  "entity_passes sc ev rq \<Longrightarrow>
   delegate_finish isofmt sc ev rq sv = create_and_record isofmt sc ev rq (entity_versions_of sc ev rq) sv"
  by (simp add: delegate_finish_def entity_passes_def entity_versions_of_def Let_def split: option.splits)

lemma delegate_finish_blocks:
  "\<not> entity_passes sc ev rq \<Longrightarrow>
   \<exists>why. delegate_finish isofmt sc ev rq sv = (Inr (rejected (ByEntity why) ''entity_alignment''), sv)"
  by (auto simp: delegate_finish_def entity_passes_def entity_check_mechanism Let_def split: option.splits)

text \<open>What the first half of a call does, on matching identities.\<close>

lemma delegate_begin_cases:
  assumes made: "HierarchyResolver ds = Inr (sc_hierarchy sc)" and cfg: "valid_loop_config (sc_loop sc)"
    and rq: "valid_request isofmt rq" and ids: "delegator_id rq = ag_name a" "delegatee_id rq = ag_name b"
  obtains
    (denied) why where "\<not> may_delegate (sc_hierarchy sc) (sc_authority sc) a b"
      "delegate_begin sc ev rq a b sv = Some (Inr (Some (rejected (ByAuthority why) ''authority'')), sv)"
  | (blocked) outcome g where "may_delegate (sc_hierarchy sc) (sc_authority sc) a b"
      "guard_check (sc_loop sc) (ev_check ev) (t_delegation_chain (rq_task rq)) (delegator_id rq) (delegatee_id rq)
         (t_id (rq_task rq)) (sv_guard sv) = (Inr outcome, g)" "\<not> passed outcome"
      "delegate_begin sc ev rq a b sv =
         Some (Inr (Some (rejected (ByGuard (message outcome)) (mechanism outcome))), sv\<lparr>sv_guard := g\<rparr>)"
  | (passes) outcome g where "may_delegate (sc_hierarchy sc) (sc_authority sc) a b"
      "guard_check (sc_loop sc) (ev_check ev) (t_delegation_chain (rq_task rq)) (delegator_id rq) (delegatee_id rq)
         (t_id (rq_task rq)) (sv_guard sv) = (Inr outcome, g)" "passed outcome"
      "delegate_begin sc ev rq a b sv = Some (Inr None, sv\<lparr>sv_guard := g\<rparr>)"
proof -
  have id_ok: "validate_identity rq a b = Inr ()" using ids by (simp add: validate_identity_def guard_with_def)
  obtain r where r: "validate_authority (sc_hierarchy sc) (sc_authority sc) a b = Some r"
    "allowed r \<longleftrightarrow> may_delegate (sc_hierarchy sc) (sc_authority sc) a b"
    using validate_authority_made [OF made] by blast
  obtain outcome g where g: "guard_check (sc_loop sc) (ev_check ev) (t_delegation_chain (rq_task rq)) (delegator_id rq)
      (delegatee_id rq) (t_id (rq_task rq)) (sv_guard sv) = (Inr outcome, g)"
    using guard_check_total [OF cfg, of "delegator_id rq" "delegatee_id rq"] rq by (metis prod.collapse valid_request_def)
  show ?thesis
    using that r g by (cases "allowed r"; cases "passed outcome") (simp_all add: delegate_begin_def id_ok)
qed

lemma delegate_begin_mismatch:
  "delegator_id rq \<noteq> ag_name a \<or> delegatee_id rq \<noteq> ag_name b \<Longrightarrow>
   \<exists>e. delegate_begin sc ev rq a b sv = Some (Inl e, sv)"
  by (auto simp: delegate_begin_def validate_identity_def guard_with_def)

lemma rejected_simps [simp]:
  "\<not> success (rejected why who)" "blocked_by (rejected why who) = Some who"
  "rejection_reason (rejected why who) = Some why" "delegated_task (rejected why who) = None"
  by (simp_all add: rejected_def)

lemma succeeded_simps [simp]:
  "success (succeeded t)" "delegated_task (succeeded t) = Some t" "blocked_by (succeeded t) = None"
  by (simp_all add: succeeded_def)

text \<open>The conditions under which a delegation goes through.\<close>

definition accepts ::
  "(string \<Rightarrow> bool) \<Rightarrow> service_config \<Rightarrow> call_env \<Rightarrow> DelegationRequest \<Rightarrow> AgentIdentity \<Rightarrow> AgentIdentity \<Rightarrow> guard \<Rightarrow> bool" where
  "accepts isofmt sc ev rq a b g \<longleftrightarrow>
     may_delegate (sc_hierarchy sc) (sc_authority sc) a b \<and>
     allows (guard_check (sc_loop sc) (ev_check ev) (t_delegation_chain (rq_task rq)) (delegator_id rq)
       (delegatee_id rq) (t_id (rq_task rq)) g) \<and>
     entity_passes sc ev rq \<and>
     delegator_id rq \<notin> set (t_delegation_chain (rq_task rq)) \<and>
     t_id (rq_task rq) \<noteq> ''del-'' @ take 12 (ev_task_hex ev) \<and>
     ''del-'' @ take 12 (ev_task_hex ev) \<notin> set (t_dependencies (rq_task rq))"

lemma delegate_accepted:
  assumes made: "HierarchyResolver ds = Inr (sc_hierarchy sc)" and cfg: "valid_loop_config (sc_loop sc)"
    and rq: "valid_request isofmt rq" and ids: "delegator_id rq = ag_name a" "delegatee_id rq = ag_name b"
    and fresh: "not_blank (ev_record_id ev)" and acc: "accepts isofmt sc ev rq a b (sv_guard sv)"
  shows "\<exists>sv'. delegate isofmt sc ev rq a b sv = Some (Inr (succeeded (sub_task rq (ev_task_hex ev))), sv') \<and>
    valid_task isofmt (sub_task rq (ev_task_hex ev)) \<and>
    sv_audit_trail sv' = sv_audit_trail sv @ [audit_record ev rq (entity_versions_of sc ev rq)]"
  using made cfg rq ids
proof (cases rule: delegate_begin_cases [where ev = ev and sv = sv])
  case (passes outcome g)
  let ?sv = "sv\<lparr>sv_guard := g\<rparr>"
  have val: "valid_task isofmt (sub_task rq (ev_task_hex ev))"
    using acc sub_task_valid_iff [OF rq, of "ev_task_hex ev"] unfolding accepts_def by blast
  obtain g' where "create_and_record isofmt sc ev rq (entity_versions_of sc ev rq) ?sv =
     (Inr (succeeded (sub_task rq (ev_task_hex ev))),
      ?sv\<lparr>sv_guard := g', sv_audit_trail := sv_audit_trail ?sv @ [audit_record ev rq (entity_versions_of sc ev rq)],
         sv_record_store := map_option (record_sync (audit_record ev rq (entity_versions_of sc ev rq)))
           (sv_record_store ?sv)\<rparr>)"
    using create_and_record_ok [OF rq fresh val] by blast
  moreover have "entity_passes sc ev rq" using acc by (simp add: accepts_def)
  ultimately show ?thesis using passes val by (simp add: delegate_def delegate_finish_passes)
qed (use acc in \<open>simp_all add: accepts_def\<close>)

lemma delegate_not_accepted:
  assumes made: "HierarchyResolver ds = Inr (sc_hierarchy sc)" and cfg: "valid_loop_config (sc_loop sc)"
    and rq: "valid_request isofmt rq" and ids: "delegator_id rq = ag_name a" "delegatee_id rq = ag_name b"
    and acc: "\<not> accepts isofmt sc ev rq a b (sv_guard sv)"
  shows "\<exists>r sv'. delegate isofmt sc ev rq a b sv = Some (r, sv') \<and>
    sv_audit_trail sv' = sv_audit_trail sv \<and> sv_record_store sv' = sv_record_store sv \<and>
    ((\<exists>why who. r = Inr (rejected why who)) \<or>
     r = Inl (DelegationError (delegator_id rq) (delegatee_id rq) (t_id (rq_task rq))))"
  using made cfg rq ids
proof (cases rule: delegate_begin_cases [where ev = ev and sv = sv])
  case (passes outcome g)
  have fin: "delegate isofmt sc ev rq a b sv = Some (delegate_finish isofmt sc ev rq (sv\<lparr>sv_guard := g\<rparr>))"
    using passes by (simp add: delegate_def)
  show ?thesis
  proof (cases "entity_passes sc ev rq")
    case False
    then show ?thesis using delegate_finish_blocks [of sc ev rq isofmt "sv\<lparr>sv_guard := g\<rparr>"] fin by fastforce
  next
    case True
    then have "\<not> valid_task isofmt (sub_task rq (ev_task_hex ev))"
      using acc passes sub_task_valid_iff [OF rq, of "ev_task_hex ev"] unfolding accepts_def by simp
    then show ?thesis using True fin by (simp add: delegate_finish_passes create_and_record_fails)
  qed
qed (auto simp: delegate_def)

text \<open>
  C8: a delegation call of matching identities always returns. It succeeds exactly when the
  authority check, the loop guard and the entity guard pass and the extended chain is free of
  repetition (with a fresh sub-task id); then the result carries the sub-task and exactly one audit
  record is appended. In every other case the audit trail and the record store are unchanged, and
  the call is either a rejection with a reason and the blocking mechanism or a \<open>DelegationError\<close>.
\<close>

theorem delegate_outcome:
  assumes made: "HierarchyResolver ds = Inr (sc_hierarchy sc)" and cfg: "valid_loop_config (sc_loop sc)"
    and rq: "valid_request isofmt rq" and ids: "delegator_id rq = ag_name a" "delegatee_id rq = ag_name b"
    and fresh: "not_blank (ev_record_id ev)"
  shows "\<exists>r sv'. delegate isofmt sc ev rq a b sv = Some (r, sv') \<and>
    (if accepts isofmt sc ev rq a b (sv_guard sv)
     then r = Inr (succeeded (sub_task rq (ev_task_hex ev))) \<and>
       valid_task isofmt (sub_task rq (ev_task_hex ev)) \<and>
       sv_audit_trail sv' = sv_audit_trail sv @ [audit_record ev rq (entity_versions_of sc ev rq)]
     else sv_audit_trail sv' = sv_audit_trail sv \<and> sv_record_store sv' = sv_record_store sv \<and>
       ((\<exists>why who. r = Inr (rejected why who)) \<or>
        r = Inl (DelegationError (delegator_id rq) (delegatee_id rq) (t_id (rq_task rq)))))"
  using delegate_accepted [OF assms, of sv] delegate_not_accepted [OF made cfg rq ids, of ev sv]
  by (cases "accepts isofmt sc ev rq a b (sv_guard sv)") auto

definition sample_request :: "agent \<Rightarrow> agent \<Rightarrow> DelegationRequest" where
  "sample_request a b = \<lparr>delegator_id = a, delegatee_id = b, rq_task = sample_task, refinement = ''be quick'',
     constraints = [''no rewrites''], rq_entity_versions = None\<rparr>"

definition sample_agent :: "agent \<Rightarrow> AgentIdentity" where
  "sample_agent a = \<lparr>ag_name = a, ag_role = ''developer'', can_delegate_to = []\<rparr>"

definition sample_service_config :: service_config where
  "sample_service_config = \<lparr>sc_hierarchy = link_company sample_company,
     sc_authority = \<lparr>enforce_chain_of_command = True, allow_skip_level = False\<rparr>,
     sc_loop = sample_loop_config, sc_entity_mode = None\<rparr>"

definition sample_env :: call_env where
  "sample_env = \<lparr>ev_check = sample_readings, ev_record = sample_readings, ev_manifest = None,
     ev_task_hex = ''0123456789abcdef'', ev_record_id = ''r1'', ev_timestamp = 1\<rparr>"

definition new_service :: service where
  "new_service = \<lparr>sv_guard = new_guard, sv_audit_trail = [], sv_record_store = None\<rparr>"

lemma sample_request_valid:
  "not_blank a \<Longrightarrow> not_blank b \<Longrightarrow> a \<noteq> b \<Longrightarrow> valid_request isofmt (sample_request a b)"
  using sample_task_valid [of isofmt]
  by (simp add: valid_request_def sample_request_def not_blank_def py_isspace_def)

lemma sample_accepts: "accepts isofmt sample_service_config sample_env (sample_request ''lead1'' ''dev1'')
    (sample_agent ''lead1'') (sample_agent ''dev1'') new_guard"
proof -
  have "allows (guard_check sample_loop_config sample_readings [] ''lead1'' ''dev1'' ''task-1'' new_guard)"
    by (simp add: guard_check_def check_ancestry_def check_delegation_depth_def sample_loop_config_def
        sample_readings_def new_guard_def dedup_check_def purge_expired_def rate_check_def pair_key_def
        not_blank_def py_isspace_def rate_cap_def breaker_check_def get_state_def)
  then show ?thesis
    by (simp add: accepts_def may_delegate_def role_permitted_def sample_service_config_def sample_agent_def
        sample_charts get_supervisor_def sample_request_def sample_env_def entity_passes_def sample_task_def)
qed

lemma sample_delegation_pre:
  "HierarchyResolver sample_company = Inr (sc_hierarchy sample_service_config)"
  "valid_loop_config (sc_loop sample_service_config)"
  "valid_request (\<lambda>_. True) (sample_request ''lead1'' ''dev1'')"
  "delegator_id (sample_request ''lead1'' ''dev1'') = ag_name (sample_agent ''lead1'')"
  "delegatee_id (sample_request ''lead1'' ''dev1'') = ag_name (sample_agent ''dev1'')"
  "not_blank (ev_record_id sample_env)" "sv_guard new_service = new_guard" "sv_audit_trail new_service = []"
  "ev_task_hex sample_env = ''0123456789abcdef''"
  using sample_loop_config_valid sample_request_valid [of "''lead1''" "''dev1''" "\<lambda>_. True"] sample_resolver
  by (simp_all add: sample_service_config_def sample_agent_def sample_request_def sample_env_def
      new_service_def not_blank_def py_isspace_def)

theorem delegate_outcome_witness:
  "\<exists>sv'. delegate (\<lambda>_. True) sample_service_config sample_env (sample_request ''lead1'' ''dev1'')
     (sample_agent ''lead1'') (sample_agent ''dev1'') new_service =
     Some (Inr (succeeded (sub_task (sample_request ''lead1'' ''dev1'') ''0123456789abcdef'')), sv') \<and>
     length (sv_audit_trail sv') = 1"
  using delegate_outcome [OF sample_delegation_pre(1-6), of new_service] sample_accepts [of "\<lambda>_. True"]
  by (auto simp: sample_delegation_pre(7-9))

text \<open>
  Repeated delegation: the sub-task of a successful delegation is delegated again, after whatever
  else happened to it that keeps its chain, by any agents, in any service state.
\<close>

inductive delegated ::
  "(string \<Rightarrow> bool) \<Rightarrow> service_config \<Rightarrow> agent list \<Rightarrow> nat \<Rightarrow> agent list \<Rightarrow> bool"
  for isofmt :: "string \<Rightarrow> bool" and sc :: service_config and chain :: "agent list" where
  start: "delegated isofmt sc chain 0 chain"
| again: "delegated isofmt sc chain n (t_delegation_chain (rq_task rq)) \<Longrightarrow>
    delegate isofmt sc ev rq a b sv = Some (Inr res, sv') \<Longrightarrow> delegated_task res = Some t \<Longrightarrow>
    delegated isofmt sc chain (Suc n) (t_delegation_chain t)"

lemma delegate_begin_result:
  "delegate_begin sc ev rq a b sv = Some (Inr (Some res), sv1) \<Longrightarrow> delegated_task res = None"
  by (auto simp: delegate_begin_def split: sum.splits Option.bind_splits prod.splits if_splits)

lemma delegate_begin_allows:
  "delegate_begin sc ev rq a b sv = Some (Inr None, sv1) \<Longrightarrow>
   allows (guard_check (sc_loop sc) (ev_check ev) (t_delegation_chain (rq_task rq)) (delegator_id rq)
     (delegatee_id rq) (t_id (rq_task rq)) (sv_guard sv))"
  by (auto simp: delegate_begin_def split: sum.splits Option.bind_splits prod.splits if_splits)

text \<open>What any successful call guarantees, whatever the hierarchy.\<close>

lemma delegate_task_chain:
  assumes "delegate isofmt sc ev rq a b sv = Some (Inr res, sv')" and "delegated_task res = Some t"
  shows "valid_task isofmt t" "t_delegation_chain t = t_delegation_chain (rq_task rq) @ [delegator_id rq]"
    "int (length (t_delegation_chain t)) \<le> max_delegation_depth (sc_loop sc)"
    "delegatee_id rq \<notin> set (t_delegation_chain (rq_task rq))"
proof -
  obtain r sv1 where r: "delegate_begin sc ev rq a b sv = Some (r, sv1)"
    using assms(1) by (cases "delegate_begin sc ev rq a b sv") (auto simp: delegate_def)
  have b: "r = Inr None"
    using assms r delegate_begin_result [of sc ev rq a b sv res sv1]
    by (auto simp: delegate_def split: sum.splits option.splits)
  then have f: "delegate_finish isofmt sc ev rq sv1 = (Inr res, sv')"
    using assms(1) r by (simp add: delegate_def)
  have pass: "entity_passes sc ev rq"
    using f assms(2) delegate_finish_blocks [of sc ev rq isofmt sv1] by fastforce
  have val: "valid_task isofmt (sub_task rq (ev_task_hex ev))"
  proof (rule ccontr)
    assume "\<not> ?thesis"
    then show False using f pass by (simp add: delegate_finish_passes create_and_record_fails)
  qed
  then have "t = sub_task rq (ev_task_hex ev) \<and> valid_task isofmt t"
    using f pass assms(2)
    by (auto simp: delegate_finish_passes create_and_record_def create_sub_task_valid split: prod.splits sum.splits)
  then show "valid_task isofmt t" and c: "t_delegation_chain t = t_delegation_chain (rq_task rq) @ [delegator_id rq]"
    by (auto simp: sub_task_def Let_def)
  have "allows (guard_check (sc_loop sc) (ev_check ev) (t_delegation_chain (rq_task rq)) (delegator_id rq)
      (delegatee_id rq) (t_id (rq_task rq)) (sv_guard sv))"
    using delegate_begin_allows r b by blast
  from loop_guard.pass_chain [OF this] c
  show "int (length (t_delegation_chain t)) \<le> max_delegation_depth (sc_loop sc)"
    "delegatee_id rq \<notin> set (t_delegation_chain (rq_task rq))" by auto
qed

text \<open>
  C7: however often a task is delegated on, its chain never repeats an agent, grows by exactly one
  agent per delegation and never exceeds the configured maximum depth; so at most that many
  delegations in a row can succeed.
\<close>

theorem delegation_depth_bounded:
  assumes "delegated isofmt sc chain n chain'" and "0 < n"
  shows "length chain' = length chain + n \<and> take (length chain) chain' = chain \<and> distinct chain' \<and>
    int (length chain') \<le> max_delegation_depth (sc_loop sc)"
  using assms
proof (induction rule: delegated.induct)
  case (again n rq ev a b sv res sv' t)
  note step = delegate_task_chain [OF again.hyps(2,3)]
  have "length (t_delegation_chain (rq_task rq)) = length chain + n \<and>
      take (length chain) (t_delegation_chain (rq_task rq)) = chain"
    using again.hyps(1) again.IH by (cases "n = 0") (auto elim: delegated.cases)
  then show ?case using step by (auto simp: valid_task_def)
qed simp

theorem delegation_depth_bounded_witness:
  "int (length [''lead1'']) \<le> max_delegation_depth (sc_loop sample_service_config)"
proof -
  obtain sv' where "delegate (\<lambda>_. True) sample_service_config sample_env (sample_request ''lead1'' ''dev1'')
      (sample_agent ''lead1'') (sample_agent ''dev1'') new_service =
      Some (Inr (succeeded (sub_task (sample_request ''lead1'' ''dev1'') (ev_task_hex sample_env))), sv')"
    using delegate_accepted [OF sample_delegation_pre(1-6), of new_service] sample_accepts
    by (auto simp: sample_delegation_pre(7))
  then have "delegated (\<lambda>_. True) sample_service_config [] (Suc 0)
      (t_delegation_chain (sub_task (sample_request ''lead1'' ''dev1'') (ev_task_hex sample_env)))"
    by (rule delegated.again [rotated]) (simp_all add: sample_request_def sample_task_def delegated.start)
  from delegation_depth_bounded [OF this] show ?thesis
    by (simp add: sub_task_def sample_request_def sample_task_def)
qed

text \<open>
  The entity guard only ever refuses in enforcing mode, and there it passes exactly when the
  manifest was retrieved, is not empty and gives every entity version the delegator knows; a
  refusal has a message and a pass has none.
\<close>

theorem entity_guard_decision:
  "(eg_passed (entity_check mode retrieved rq) \<longleftrightarrow>
     mode = ENFORCE \<longrightarrow> (\<exists>m. retrieved = Some m \<and> m \<noteq> [] \<and>
       (\<forall>known name ver. rq_entity_versions rq = Some known \<and> (name, ver) \<in> set known \<longrightarrow> dget m name = Some ver))) \<and>
   (eg_passed (entity_check mode retrieved rq) \<longleftrightarrow> eg_message (entity_check mode retrieved rq) = NoMessage)"
proof -
  have mm: "mismatches m known = [] \<longleftrightarrow>
      (\<forall>vs name ver. known = Some vs \<and> (name, ver) \<in> set vs \<longrightarrow> dget m name = Some ver)" for m known
    by (auto simp: mismatches_def split: option.splits if_splits)
  show ?thesis
    by (cases mode; cases retrieved) (auto simp: entity_check_def entity_outcome_def Let_def mm)
qed

theorem entity_guard_decision_witness:
  "\<not> eg_passed (entity_check ENFORCE (Some [(''Task'', 3)]) ((sample_request ''a'' ''b'')\<lparr>rq_entity_versions := Some [(''Task'', 2)]\<rparr>)) \<and>
   eg_passed (entity_check ENFORCE (Some [(''Task'', 3)]) ((sample_request ''a'' ''b'')\<lparr>rq_entity_versions := Some [(''Task'', 3)]\<rparr>))"
  using entity_guard_decision [of ENFORCE "Some [(''Task'', 3)]"
      "(sample_request ''a'' ''b'')\<lparr>rq_entity_versions := Some [(''Task'', 2)]\<rparr>"]
    entity_guard_decision [of ENFORCE "Some [(''Task'', 3)]"
      "(sample_request ''a'' ''b'')\<lparr>rq_entity_versions := Some [(''Task'', 3)]\<rparr>"]
  by simp

subsection \<open>Interleaved calls\<close>

lemma guard_check_duplicate:
  assumes "b \<notin> set chain" and "int (length chain) < max_delegation_depth c" and "not_blank a" and "not_blank b"
    and "\<not> allows (dedup_check (dedup_window_seconds c) (at_dedup now) a b t (g_dedup g))"
  obtains outcome g' where "guard_check c now chain a b t g = (Inr outcome, g')" "\<not> passed outcome"
    "mechanism outcome = ''dedup''"
proof -
  obtain r where r: "fst (dedup_check (dedup_window_seconds c) (at_dedup now) a b t (g_dedup g)) = Inr r"
    "\<not> passed r" "mechanism r = ''dedup''"
    using dedup.blocked_has_reason [OF assms(3-5)] by blast
  then obtain d where "dedup_check (dedup_window_seconds c) (at_dedup now) a b t (g_dedup g) = (Inr r, d)"
    by (metis prod.collapse)
  then show ?thesis
    using assms(1,2) r(2,3)
    by (intro that [of r "g\<lparr>g_dedup := d\<rparr>"])
      (simp_all add: guard_check_def check_ancestry_def check_delegation_depth_def Let_def)
qed

lemma delegate_finish_ok:
  assumes "valid_request isofmt rq" and "not_blank (ev_record_id ev)" and "entity_passes sc ev rq"
    and "valid_task isofmt (sub_task rq (ev_task_hex ev))"
  shows "\<exists>sv'. delegate_finish isofmt sc ev rq sv = (Inr (succeeded (sub_task rq (ev_task_hex ev))), sv') \<and>
    sv_audit_trail sv' = sv_audit_trail sv @ [audit_record ev rq (entity_versions_of sc ev rq)] \<and>
    g_dedup (sv_guard sv') = dedup_record (dedup_window_seconds (sc_loop sc)) (at_dedup (ev_record ev))
      (at_dedup_stamp (ev_record ev)) (delegator_id rq) (delegatee_id rq) (t_id (rq_task rq)) (g_dedup (sv_guard sv))"
proof -
  obtain g where g: "guard_record (sc_loop sc) (ev_record ev) (delegator_id rq) (delegatee_id rq) (t_id (rq_task rq))
      (sv_guard sv) = (Inr (), g)"
    "create_and_record isofmt sc ev rq (entity_versions_of sc ev rq) sv =
       (Inr (succeeded (sub_task rq (ev_task_hex ev))),
        sv\<lparr>sv_guard := g, sv_audit_trail := sv_audit_trail sv @ [audit_record ev rq (entity_versions_of sc ev rq)],
           sv_record_store := map_option (record_sync (audit_record ev rq (entity_versions_of sc ev rq)))
             (sv_record_store sv)\<rparr>)"
    using create_and_record_ok [OF assms(1,2,4)] by blast
  have nb: "not_blank (delegator_id rq)" "not_blank (delegatee_id rq)" using assms(1) by (simp_all add: valid_request_def)
  have "g_dedup g = dedup_record (dedup_window_seconds (sc_loop sc)) (at_dedup (ev_record ev))
      (at_dedup_stamp (ev_record ev)) (delegator_id rq) (delegatee_id rq) (t_id (rq_task rq)) (g_dedup (sv_guard sv))"
    using guard_record_total [OF nb, of "sc_loop sc" "ev_record ev" "t_id (rq_task rq)" "sv_guard sv"] g(1) by auto
  then show ?thesis using g(2) by (simp add: delegate_finish_passes [OF assms(3)])
qed

text \<open>
  The checks and the recording of a delegation are separated by the \<open>await\<close> of the entity
  guard. When two calls of the same request both run their checks before either records, both
  succeed and leave two audit records, whereas the second call, run after the first has returned
  and within the deduplication window, is refused as a duplicate.
\<close>

theorem interleaved_duplicates_pass:
  assumes rq: "valid_request isofmt rq"
    and env: "not_blank (ev_record_id ev1)" "not_blank (ev_record_id ev2)"
      "entity_passes sc ev1 rq" "entity_passes sc ev2 rq"
      "valid_task isofmt (sub_task rq (ev_task_hex ev1))" "valid_task isofmt (sub_task rq (ev_task_hex ev2))"
    and keys: "distinct (dkeys (g_dedup (sv_guard sv)))"
    and first: "delegate_begin sc ev1 rq a b sv = Some (Inr None, sv1)"
    and second: "delegate_begin sc ev2 rq a b sv1 = Some (Inr None, sv2)"
    and window: "at_dedup (ev_check ev2) < at_dedup_stamp (ev_record ev1) + of_int (dedup_window_seconds (sc_loop sc))"
  shows "(\<exists>sv3 sv4. delegate_finish isofmt sc ev1 rq sv2 = (Inr (succeeded (sub_task rq (ev_task_hex ev1))), sv3) \<and>
      delegate_finish isofmt sc ev2 rq sv3 = (Inr (succeeded (sub_task rq (ev_task_hex ev2))), sv4) \<and>
      sv_audit_trail sv4 = sv_audit_trail sv2 @ [audit_record ev1 rq (entity_versions_of sc ev1 rq),
        audit_record ev2 rq (entity_versions_of sc ev2 rq)]) \<and>
    (\<exists>sv3 why sv4. delegate_finish isofmt sc ev1 rq sv1 = (Inr (succeeded (sub_task rq (ev_task_hex ev1))), sv3) \<and>
      delegate_begin sc ev2 rq a b sv3 = Some (Inr (Some (rejected (ByGuard why) ''dedup'')), sv4))"
proof
  obtain sv3 where 3: "delegate_finish isofmt sc ev1 rq sv2 = (Inr (succeeded (sub_task rq (ev_task_hex ev1))), sv3)"
    "sv_audit_trail sv3 = sv_audit_trail sv2 @ [audit_record ev1 rq (entity_versions_of sc ev1 rq)]"
    using delegate_finish_ok [OF rq env(1,3,5)] by blast
  then show "\<exists>sv3 sv4. delegate_finish isofmt sc ev1 rq sv2 = (Inr (succeeded (sub_task rq (ev_task_hex ev1))), sv3) \<and>
      delegate_finish isofmt sc ev2 rq sv3 = (Inr (succeeded (sub_task rq (ev_task_hex ev2))), sv4) \<and>
      sv_audit_trail sv4 = sv_audit_trail sv2 @ [audit_record ev1 rq (entity_versions_of sc ev1 rq),
        audit_record ev2 rq (entity_versions_of sc ev2 rq)]"
    using delegate_finish_ok [OF rq env(2,4,6), of sv3] by auto
next
  let ?c = "sc_loop sc" and ?t = "t_id (rq_task rq)" and ?chain = "t_delegation_chain (rq_task rq)"
  obtain sv3 where 3: "delegate_finish isofmt sc ev1 rq sv1 = (Inr (succeeded (sub_task rq (ev_task_hex ev1))), sv3)"
    "g_dedup (sv_guard sv3) = dedup_record (dedup_window_seconds ?c) (at_dedup (ev_record ev1))
      (at_dedup_stamp (ev_record ev1)) (delegator_id rq) (delegatee_id rq) ?t (g_dedup (sv_guard sv1))"
    using delegate_finish_ok [OF rq env(1,3,5), of sv1] by blast
  have ids: "validate_identity rq a b = Inr ()"
    using first by (auto simp: delegate_begin_def split: sum.splits)
  obtain auth where auth: "validate_authority (sc_hierarchy sc) (sc_authority sc) a b = Some auth" "allowed auth"
    using first ids by (auto simp: delegate_begin_def split: Option.bind_splits if_splits)
  have sv1: "sv_guard sv1 = snd (guard_check ?c (ev_check ev1) ?chain (delegator_id rq) (delegatee_id rq) ?t (sv_guard sv))"
    using first ids auth by (auto simp: delegate_begin_def split: prod.splits sum.splits if_splits)
  have "distinct (dkeys (g_dedup (sv_guard sv3)))"
    using guard_check_dedup [OF keys] by (simp add: 3(2) sv1 dedup_record_def)
  then have "\<not> allows (dedup_check (dedup_window_seconds ?c) (at_dedup (ev_check ev2)) (delegator_id rq) (delegatee_id rq)
      ?t (g_dedup (sv_guard sv3)))"
    using window by (auto simp: dedup_allows_iff 3(2) dedup_record_def)
  then obtain outcome g where g: "guard_check ?c (ev_check ev2) ?chain (delegator_id rq) (delegatee_id rq) ?t (sv_guard sv3)
      = (Inr outcome, g)" "\<not> passed outcome" "mechanism outcome = ''dedup''"
    using loop_guard.pass_chain [OF delegate_begin_allows [OF first]] rq
    by (auto simp: valid_request_def elim: guard_check_duplicate)
  then have "delegate_begin sc ev2 rq a b sv3 =
      Some (Inr (Some (rejected (ByGuard (message outcome)) ''dedup'')), sv3\<lparr>sv_guard := g\<rparr>)"
    using ids auth by (simp add: delegate_begin_def)
  then show "\<exists>sv3 why sv4. delegate_finish isofmt sc ev1 rq sv1 = (Inr (succeeded (sub_task rq (ev_task_hex ev1))), sv3) \<and>
      delegate_begin sc ev2 rq a b sv3 = Some (Inr (Some (rejected (ByGuard why) ''dedup'')), sv4)"
    using 3(1) by blast
qed

definition stamping_config :: service_config where
  "stamping_config = sample_service_config\<lparr>sc_entity_mode := Some STAMP\<rparr>"

definition sample_env2 :: call_env where
  "sample_env2 = sample_env\<lparr>ev_task_hex := ''fedcba9876543210'', ev_record_id := ''r2''\<rparr>"

lemma stamping_begin:
  assumes "ev_check ev = sample_readings"
  shows "delegate_begin stamping_config ev (sample_request ''lead1'' ''dev1'') (sample_agent ''lead1'')
    (sample_agent ''dev1'') new_service = Some (Inr None, new_service)"
proof -
  have g: "guard_check sample_loop_config sample_readings [] ''lead1'' ''dev1'' ''task-1'' new_guard =
      (Inr (pass_outcome ''all_passed''), new_guard)"
    by (simp add: guard_check_def check_ancestry_def check_delegation_depth_def sample_loop_config_def
        sample_readings_def new_guard_def dedup_check_def purge_expired_def rate_check_def pair_key_def
        not_blank_def py_isspace_def rate_cap_def breaker_check_def get_state_def)
  have h: "validate_authority (link_company sample_company) \<lparr>enforce_chain_of_command = True, allow_skip_level = False\<rparr>
      (sample_agent ''lead1'') (sample_agent ''dev1'') = Some authority_ok"
    by (simp add: validate_authority_def check_hierarchy_def check_role_permissions_def sample_agent_def sample_charts
        is_direct_report_def get_direct_reports_def dget_or_def)
  have i: "validate_identity (sample_request ''lead1'' ''dev1'') (sample_agent ''lead1'') (sample_agent ''dev1'') = Inr ()"
    by (simp add: validate_identity_def sample_request_def sample_agent_def guard_with_def)
  show ?thesis
    by (simp add: delegate_begin_def i stamping_config_def sample_service_config_def h)
      (simp add: assms sample_request_def sample_task_def new_service_def g)
qed

theorem interleaved_duplicates_pass_witness:
  "\<exists>sv3 sv4 t1 t2. delegate_finish (\<lambda>_. True) stamping_config sample_env (sample_request ''lead1'' ''dev1'') new_service
       = (Inr (succeeded t1), sv3) \<and>
     delegate_finish (\<lambda>_. True) stamping_config sample_env2 (sample_request ''lead1'' ''dev1'') sv3 = (Inr (succeeded t2), sv4) \<and>
     length (sv_audit_trail sv4) = 2"
proof -
  have valid: "valid_task (\<lambda>_. True) (sub_task (sample_request ''lead1'' ''dev1'') hex)" if "hex \<in> {''0123456789abcdef'', ''fedcba9876543210''}" for hex
    using that sub_task_valid_iff [OF sample_delegation_pre(3)] by (auto simp: sample_request_def sample_task_def)
  have env: "not_blank (ev_record_id sample_env)" "not_blank (ev_record_id sample_env2)"
    "entity_passes stamping_config sample_env (sample_request ''lead1'' ''dev1'')"
    "entity_passes stamping_config sample_env2 (sample_request ''lead1'' ''dev1'')"
    "valid_task (\<lambda>_. True) (sub_task (sample_request ''lead1'' ''dev1'') (ev_task_hex sample_env))"
    "valid_task (\<lambda>_. True) (sub_task (sample_request ''lead1'' ''dev1'') (ev_task_hex sample_env2))"
    "distinct (dkeys (g_dedup (sv_guard new_service)))"
    "at_dedup (ev_check sample_env2) < at_dedup_stamp (ev_record sample_env) + of_int (dedup_window_seconds (sc_loop stamping_config))"
    "ev_check sample_env = sample_readings" "ev_check sample_env2 = sample_readings" "sv_audit_trail new_service = []"
    using valid by (simp_all add: sample_env_def sample_env2_def stamping_config_def sample_service_config_def
        entity_passes_def entity_check_def entity_outcome_def not_blank_def py_isspace_def new_service_def new_guard_def
        sample_readings_def sample_loop_config_def)
  from interleaved_duplicates_pass [OF sample_delegation_pre(3) env(1-7) stamping_begin [OF env(9)]
      stamping_begin [OF env(10)] env(8)]
  show ?thesis unfolding env(11) by (auto simp: numeral_2_eq_2)
qed

subsection \<open>Bounded store\<close>

lemma record_sync_fold:
  "0 < rs_maxlen s \<Longrightarrow> rs_records s = drop (length h - rs_maxlen s) h \<Longrightarrow>
   rs_records (fold record_sync rs s) = drop (length (h @ rs) - rs_maxlen s) (h @ rs)"
proof (induction rs arbitrary: s h)
  case (Cons r rs)
  have "rs_records (record_sync r s) = drop (length (h @ [r]) - rs_maxlen s) (h @ [r])"
    using Cons.prems using deque_append_drop [of "rs_maxlen s" h r] by (simp add: record_sync_def)
  then show ?case using Cons.IH [of "record_sync r s" "h @ [r]"] Cons.prems by (simp add: record_sync_def)
qed simp

text \<open>
  The record store keeps exactly the last \<open>max_records\<close> delegations in order, and the
  delegator's query returns those of them the agent sent within the half-open time range.
\<close>

theorem record_store_keeps_latest:
  assumes "new_record_store m = Some s0" and "s = fold record_sync rs s0"
  shows "rs_records s = drop (length rs - nat m) rs \<and> length (rs_records s) \<le> nat m \<and>
    (x < y \<longrightarrow> get_records_as_delegator a (Some x) (Some y) s =
       Inr (filter (\<lambda>r. dr_delegator r = a \<and> x \<le> dr_timestamp r \<and> dr_timestamp r < y) (drop (length rs - nat m) rs)))"
proof -
  have s0: "rs_records s0 = []" "rs_maxlen s0 = nat m" "0 < rs_maxlen s0"
    using assms(1) by (auto simp: new_record_store_def split: if_splits)
  then have "rs_records s = drop (length rs - nat m) rs"
    using record_sync_fold [of s0 "[]" rs] assms(2) by simp
  then show ?thesis
    by (simp add: get_records_as_delegator_def validate_time_range_def filter_records_def)
qed

theorem record_store_keeps_latest_witness:
  "\<exists>s0. new_record_store 1 = Some s0 \<and>
     length (rs_records (fold record_sync [audit_record sample_env (sample_request ''a'' ''b'') None,
        audit_record sample_env (sample_request ''c'' ''d'') None] s0)) \<le> 1"
  using record_store_keeps_latest [of 1 _ _ "[audit_record sample_env (sample_request ''a'' ''b'') None,
        audit_record sample_env (sample_request ''c'' ''d'') None]"]
  by (fastforce simp: new_record_store_def)

end
