(* ===== verification/Dependency_Graph.thy ===== *)
theory Dependency_Graph
  imports Task_Model
begin

text \<open>
  The subtask dependency graph of \<^verbatim>\<open>engine/decomposition/dag.py\<close>: construction of the two
  adjacency dictionaries, reference check, iterative depth-first cycle check, Kahn's topological
  sort with a min-heap and the computation of parallel groups.

  A Python list used as a stack is a list whose head is the top. A \<open>heapq\<close> heap is the list of its
  elements, from which \<open>heappop\<close> takes the least; the arrangement inside the heap is not
  observable. The \<open>in_degree\<close> dictionary, which the code only reads and writes at subtask ids, is a
  function with default zero.
\<close>

subsection \<open>Graph\<close>

record SubtaskDefinition =
  sd_id :: string
  sd_title :: string
  sd_description :: string
  sd_dependencies :: "string list"
  sd_estimated_complexity :: Complexity
  sd_required_skills :: "string list"
  sd_required_tags :: "string list"
  sd_required_role :: "string option"

record DependencyGraph =
  dg_subtasks :: "SubtaskDefinition list"
  subtask_ids :: "string list"
  adjacency :: "(string, string list) dict"
  reverse_adjacency :: "(string, string list) dict"

definition add_edge :: "string \<Rightarrow> string \<Rightarrow> (string, string list) dict \<Rightarrow> (string, string list) dict" where
  "add_edge sid dep forward = (case dget forward dep of
     None \<Rightarrow> forward
   | Some l \<Rightarrow> dput dep (l @ [sid]) forward)"

definition mk_graph :: "SubtaskDefinition list \<Rightarrow> DependencyGraph" where
  "mk_graph subs =
     (let ids = List.map sd_id subs;
          forward = fold (\<lambda>s f. fold (add_edge (sd_id s)) (sd_dependencies s) f) subs
                      (fold (\<lambda>i. dput i []) ids []);
          reverse = fold (\<lambda>s. dput (sd_id s) (sd_dependencies s)) subs [] in
      \<lparr>dg_subtasks = subs, subtask_ids = ids, adjacency = forward, reverse_adjacency = reverse\<rparr>)"

datatype decomposition_error =
    UnknownDependency string string
  | CycleDetected string string
  | CycleInSort
  | CycleInGroups

subsection \<open>Validation\<close>

fun check_missing_references :: "string set \<Rightarrow> SubtaskDefinition list \<Rightarrow> decomposition_error + unit" where
  "check_missing_references ids [] = Inr ()"
| "check_missing_references ids (s # ss) =
     (case List.find (\<lambda>d. d \<notin> ids) (sd_dependencies s) of
        Some d \<Rightarrow> Inl (UnknownDependency (sd_id s) d)
      | None \<Rightarrow> check_missing_references ids ss)"

definition deps_in :: "(string, string list) dict \<Rightarrow> string \<Rightarrow> string list" where
  "deps_in radj n = dget_or radj n []"

text \<open>
  The inner \<open>while stack\<close> loop and one pass of its body, on the visited set, the on-stack set and
  the stack.
\<close>

type_synonym dfs_state = "string set \<times> string set \<times> (string \<times> nat) list"

fun dfs_step :: "(string, string list) dict \<Rightarrow> dfs_state \<Rightarrow> decomposition_error + dfs_state" where
  "dfs_step radj (visited, in_stack, []) = Inr (visited, in_stack, [])"
| "dfs_step radj (visited, in_stack, (node, idx) # rest) =
     (let visited' = (if idx = 0 then insert node visited else visited);
          in_stack' = (if idx = 0 then insert node in_stack else in_stack);
          deps = deps_in radj node in
      if idx < length deps then
        let dep = deps ! idx in
        if dep \<in> in_stack' then Inl (CycleDetected node dep)
        else if dep \<notin> visited' then Inr (visited', in_stack', (dep, 0) # (node, idx + 1) # rest)
        else Inr (visited', in_stack', (node, idx + 1) # rest)
      else Inr (visited', in_stack' - {node}, rest))"

partial_function (option) dfs_loop ::
  "(string, string list) dict \<Rightarrow> dfs_state \<Rightarrow> (decomposition_error + string set \<times> string set) option" where
  "dfs_loop radj st =
     (if snd (snd st) = [] then Some (Inr (fst st, fst (snd st)))
      else case dfs_step radj st of
             Inl e \<Rightarrow> Some (Inl e)
           | Inr st' \<Rightarrow> dfs_loop radj st')"

fun check_cycles_from ::
  "(string, string list) dict \<Rightarrow> string list \<Rightarrow> string set \<Rightarrow> string set \<Rightarrow> (decomposition_error + unit) option" where
  "check_cycles_from radj [] visited in_stack = Some (Inr ())"
| "check_cycles_from radj (start # starts) visited in_stack =
     (if start \<in> visited then check_cycles_from radj starts visited in_stack
      else Option.bind (dfs_loop radj (visited, in_stack, [(start, 0)])) (\<lambda>r. case r of
        Inl e \<Rightarrow> Some (Inl e)
      | Inr (visited', in_stack') \<Rightarrow> check_cycles_from radj starts visited' in_stack'))"

definition check_cycles :: "DependencyGraph \<Rightarrow> (decomposition_error + unit) option" where
  "check_cycles g = check_cycles_from (reverse_adjacency g) (subtask_ids g) {} {}"

definition validate_graph :: "DependencyGraph \<Rightarrow> (decomposition_error + unit) option" where
  "validate_graph g = (case check_missing_references (set (subtask_ids g)) (dg_subtasks g) of
     Inl e \<Rightarrow> Some (Inl e)
   | Inr _ \<Rightarrow> check_cycles g)"

subsection \<open>Topological sort\<close>

type_synonym degrees = "string \<Rightarrow> int"

definition in_degrees :: "SubtaskDefinition list \<Rightarrow> degrees" where
  "in_degrees subs = fold (\<lambda>s deg. fold (\<lambda>_ deg. deg(sd_id s := deg (sd_id s) + 1)) (sd_dependencies s) deg)
     subs (\<lambda>_. 0)"

definition heappop :: "string list \<Rightarrow> string \<times> string list" where
  "heappop h = (let m = Min (set h) in (m, remove1 m h))"

definition relax :: "string \<Rightarrow> degrees \<times> string list \<Rightarrow> degrees \<times> string list" where
  "relax d = (\<lambda>(deg, heap). let deg' = deg(d := deg d - 1) in
     (deg', if deg' d = 0 then d # heap else heap))"

definition dependents :: "(string, string list) dict \<Rightarrow> string set" where
  "dependents adj = \<Union> (set ` snd ` set adj)"

definition kahn_measure :: "(string, string list) dict \<Rightarrow> degrees \<Rightarrow> string list \<Rightarrow> nat" where
  "kahn_measure adj deg heap = length heap + (\<Sum>s \<in> dependents adj. nat (deg s))"

lemma finite_dependents [simp]: "finite (dependents adj)"
  by (simp add: dependents_def)

lemma dependents_get: "set (dget_or adj n []) \<subseteq> dependents adj"
proof (cases "dget adj n")
  case (Some l)
  then show ?thesis using dget_Some_in [OF Some] by (force simp: dependents_def dget_or_def)
qed (simp add: dget_or_def)

lemma relax_measure:
  assumes "d \<in> dependents adj"
  shows "kahn_measure adj (fst (relax d (deg, heap))) (snd (relax d (deg, heap))) \<le> kahn_measure adj deg heap"
proof -
  let ?D = "dependents adj" and ?deg = "deg(d := deg d - 1)"
  have "(\<Sum>s \<in> ?D. nat (?deg s)) = nat (deg d - 1) + (\<Sum>s \<in> ?D - {d}. nat (?deg s))"
    using assms by (subst sum.remove [of _ d]) auto
  also have "(\<Sum>s \<in> ?D - {d}. nat (?deg s)) = (\<Sum>s \<in> ?D - {d}. nat (deg s))"
    by (rule sum.cong) auto
  finally have new: "(\<Sum>s \<in> ?D. nat (?deg s)) = nat (deg d - 1) + (\<Sum>s \<in> ?D - {d}. nat (deg s))" .
  have old: "(\<Sum>s \<in> ?D. nat (deg s)) = nat (deg d) + (\<Sum>s \<in> ?D - {d}. nat (deg s))"
    using assms by (subst sum.remove [of _ d]) auto
  show ?thesis
    using new old by (auto simp: kahn_measure_def relax_def Let_def simp del: fun_upd_apply)
      (auto simp: fun_upd_same)
qed

lemma relax_fold_measure:
  "set ds \<subseteq> dependents adj \<Longrightarrow>
   kahn_measure adj (fst (fold relax ds p)) (snd (fold relax ds p)) \<le> kahn_measure adj (fst p) (snd p)"
proof (induction ds arbitrary: p)
  case (Cons d ds)
  then have "kahn_measure adj (fst (fold relax ds (relax d p))) (snd (fold relax ds (relax d p)))
      \<le> kahn_measure adj (fst (relax d p)) (snd (relax d p))" by simp
  also have "\<dots> \<le> kahn_measure adj (fst p) (snd p)"
    using relax_measure [of d adj "fst p" "snd p"] Cons.prems by simp
  finally show ?case by simp
qed simp

lemma heappop_length: "h \<noteq> [] \<Longrightarrow> length h = Suc (length (snd (heappop h)))"
proof -
  assume "h \<noteq> []"
  then have "Min (set h) \<in> set h" by simp
  then show ?thesis
    using \<open>h \<noteq> []\<close> by (simp add: heappop_def Let_def length_remove1)
qed

function kahn_loop :: "(string, string list) dict \<Rightarrow> degrees \<Rightarrow> string list \<Rightarrow> string list \<Rightarrow> string list" where
  "kahn_loop adj deg heap result =
     (if heap = [] then result
      else let (node, heap') = heappop heap;
               (deg'', heap'') = fold relax (dget_or adj node []) (deg, heap')
           in kahn_loop adj deg'' heap'' (result @ [node]))"
  by pat_completeness auto
termination
proof (relation "measure (\<lambda>(adj, deg, heap, result). kahn_measure adj deg heap)")
  fix adj :: "(string, string list) dict" and deg deg'' :: degrees and heap heap' heap'' result :: "string list"
    and node :: string and p q
  assume ne: "heap \<noteq> []" and p: "p = heappop heap" "(node, heap') = p"
    and q: "q = fold relax (dget_or adj node []) (deg, heap')" "(deg'', heap'') = q"
  have "kahn_measure adj deg'' heap'' \<le> kahn_measure adj deg heap'"
    using relax_fold_measure [OF dependents_get, of adj node "(deg, heap')"] q by (metis fst_conv snd_conv)
  also have "\<dots> < kahn_measure adj deg heap"
    using heappop_length [OF ne] p by (metis add_less_mono1 kahn_measure_def lessI snd_conv)
  finally show "((adj, deg'', heap'', result @ [node]), (adj, deg, heap, result))
      \<in> measure (\<lambda>(adj, deg, heap, result). kahn_measure adj deg heap)" by simp
qed simp

declare kahn_loop.simps [simp del]

definition topological_sort :: "DependencyGraph \<Rightarrow> decomposition_error + string list" where
  "topological_sort g = (case check_missing_references (set (subtask_ids g)) (dg_subtasks g) of
     Inl e \<Rightarrow> Inl e
   | Inr _ \<Rightarrow>
       let deg = in_degrees (dg_subtasks g);
           result = kahn_loop (adjacency g) deg (filter (\<lambda>s. deg s = 0) (subtask_ids g)) [] in
       if length result \<noteq> length (subtask_ids g) then Inl CycleInSort else Inr result)"

subsection \<open>Parallel groups\<close>

definition release :: "(string, string list) dict \<Rightarrow> string \<Rightarrow> degrees \<Rightarrow> degrees" where
  "release adj node deg = fold (\<lambda>d deg. deg(d := deg d - 1)) (dget_or adj node []) deg"

function groups_loop ::
  "(string, string list) dict \<Rightarrow> degrees \<Rightarrow> string list \<Rightarrow> string list list \<Rightarrow> decomposition_error + string list list" where
  "groups_loop adj deg remaining groups =
     (if remaining = [] then Inr groups
      else let ready = sort (filter (\<lambda>s. deg s = 0) remaining) in
           if ready = [] then Inl CycleInGroups
           else groups_loop adj (fold (release adj) ready deg) (filter (\<lambda>s. s \<notin> set ready) remaining)
                  (groups @ [ready]))"
  by pat_completeness auto
termination
proof (relation "measure (\<lambda>(adj, deg, remaining, groups). length remaining)")
  fix adj :: "(string, string list) dict" and deg :: degrees and remaining ready :: "string list" and groups
  assume r: "ready = sort (filter (\<lambda>s. deg s = 0) remaining)" and ne: "ready \<noteq> []"
  have "set ready = {s \<in> set remaining. deg s = 0}" using r by simp
  with ne obtain s where "s \<in> set remaining" "s \<in> set ready"
    by (cases ready) auto
  then have "length (filter (\<lambda>s. s \<notin> set ready) remaining) < length remaining"
    by (metis length_filter_less)
  then show "((adj, fold (release adj) ready deg, filter (\<lambda>s. s \<notin> set ready) remaining, groups @ [ready]),
      (adj, deg, remaining, groups)) \<in> measure (\<lambda>(adj, deg, remaining, groups). length remaining)" by simp
qed simp

declare groups_loop.simps [simp del]

definition parallel_groups :: "DependencyGraph \<Rightarrow> decomposition_error + string list list" where
  "parallel_groups g = (case check_missing_references (set (subtask_ids g)) (dg_subtasks g) of
     Inl e \<Rightarrow> Inl e
   | Inr _ \<Rightarrow> groups_loop (adjacency g) (in_degrees (dg_subtasks g)) (remdups (subtask_ids g)) [])"

definition get_dependents :: "DependencyGraph \<Rightarrow> string \<Rightarrow> string list" where
  "get_dependents g i = sort (dget_or (adjacency g) i [])"

definition get_dependencies :: "DependencyGraph \<Rightarrow> string \<Rightarrow> string list" where
  "get_dependencies g i = sort (dget_or (reverse_adjacency g) i [])"

subsection \<open>The dependency relation\<close>

text \<open>\<open>(d, n)\<close> when \<open>n\<close> depends on \<open>d\<close>: in a reverse adjacency, and in a list of subtasks.\<close>

definition rel :: "(string, string list) dict \<Rightarrow> (string \<times> string) set" where
  "rel radj = {(d, n). d \<in> set (deps_in radj n)}"

definition needs :: "SubtaskDefinition list \<Rightarrow> (string \<times> string) set" where
  "needs subs = {(d, sd_id s) |d s. s \<in> set subs \<and> d \<in> set (sd_dependencies s)}"

lemma rel_iff [simp]: "(d, n) \<in> rel radj \<longleftrightarrow> d \<in> set (deps_in radj n)"
  by (simp add: rel_def)

lemma fold_dput_other: "n \<notin> k ` set xs \<Longrightarrow> dget (fold (\<lambda>x. dput (k x) (v x)) xs d) n = dget d n"
  by (induction xs arbitrary: d) auto

lemma fold_dput_get:
  "distinct (List.map k xs) \<Longrightarrow> x \<in> set xs \<Longrightarrow> dget (fold (\<lambda>x. dput (k x) (v x)) xs d) (k x) = Some (v x)"
  by (induction xs arbitrary: d) (auto simp: fold_dput_other)

definition unique_ids :: "SubtaskDefinition list \<Rightarrow> bool" where
  "unique_ids subs \<longleftrightarrow> distinct (List.map sd_id subs)"

lemma deps_in_graph:
  "unique_ids subs \<Longrightarrow> s \<in> set subs \<Longrightarrow> deps_in (reverse_adjacency (mk_graph subs)) (sd_id s) = sd_dependencies s"
  using fold_dput_get [of sd_id subs s sd_dependencies "[]"]
  by (simp add: unique_ids_def deps_in_def mk_graph_def Let_def dget_or_def)

lemma deps_in_outside:
  "n \<notin> sd_id ` set subs \<Longrightarrow> deps_in (reverse_adjacency (mk_graph subs)) n = []"
  using fold_dput_other [of n sd_id subs sd_dependencies "[]"]
  by (simp add: deps_in_def mk_graph_def Let_def dget_or_def)

lemma rel_graph:
  assumes "unique_ids subs"
  shows "rel (reverse_adjacency (mk_graph subs)) = needs subs"
proof (intro set_eqI iffI)
  fix p assume p: "p \<in> rel (reverse_adjacency (mk_graph subs))"
  obtain d n where dn: "p = (d, n)" by (cases p)
  then have "d \<in> set (deps_in (reverse_adjacency (mk_graph subs)) n)" using p by simp
  moreover from this obtain s where "s \<in> set subs" "n = sd_id s"
    using deps_in_outside [of n subs] by (cases "n \<in> sd_id ` set subs") auto
  ultimately show "p \<in> needs subs" using dn deps_in_graph [OF assms] by (auto simp: needs_def)
qed (use deps_in_graph [OF assms] in \<open>auto simp: needs_def\<close>)

lemma graph_simps [simp]:
  "dg_subtasks (mk_graph subs) = subs" "subtask_ids (mk_graph subs) = List.map sd_id subs"
  by (simp_all add: mk_graph_def Let_def)

lemma check_missing_references_iff:
  "check_missing_references ids subs = Inr () \<longleftrightarrow> (\<forall>s \<in> set subs. set (sd_dependencies s) \<subseteq> ids)"
proof (induction subs)
  case (Cons s ss)
  show ?case
  proof (cases "List.find (\<lambda>d. d \<notin> ids) (sd_dependencies s)")
    case None
    then have "set (sd_dependencies s) \<subseteq> ids" by (auto simp: find_None_iff)
    then show ?thesis using None Cons by simp
  next
    case (Some d)
    then have "d \<in> set (sd_dependencies s)" "d \<notin> ids" by (auto simp: find_Some_iff)
    then show ?thesis using Some by auto
  qed
qed simp

text \<open>Every dependency names a subtask.\<close>

definition closed :: "SubtaskDefinition list \<Rightarrow> bool" where
  "closed subs \<longleftrightarrow> (\<forall>s \<in> set subs. set (sd_dependencies s) \<subseteq> sd_id ` set subs)"

lemma check_missing_closed: "check_missing_references (sd_id ` set subs) subs = Inr () \<longleftrightarrow> closed subs"
  by (simp add: check_missing_references_iff closed_def)

subsection \<open>Depth-first search\<close>

fun below :: "(string, string list) dict \<Rightarrow> string set \<Rightarrow> string \<Rightarrow> (string \<times> nat) list \<Rightarrow> bool" where
  "below radj fin m [] = True"
| "below radj fin m ((n, i) # rest) \<longleftrightarrow>
     0 < i \<and> i \<le> length (deps_in radj n) \<and> deps_in radj n ! (i - 1) = m \<and>
     (\<forall>j < i - 1. deps_in radj n ! j \<in> fin) \<and> below radj fin n rest"

text \<open>
  The invariant: the finished nodes lead to no cycle, the stack is a path of dependencies, and the
  dependencies before the index of an entry are finished (or the entry above it).
\<close>

fun dfs_inv :: "(string, string list) dict \<Rightarrow> dfs_state \<Rightarrow> bool" where
  "dfs_inv radj (visited, in_stack, []) \<longleftrightarrow> in_stack = {} \<and> visited \<subseteq> Wellfounded.acc (rel radj)"
| "dfs_inv radj (visited, in_stack, (n, i) # rest) \<longleftrightarrow>
     i \<le> length (deps_in radj n) \<and> (\<forall>j < i. deps_in radj n ! j \<in> visited - in_stack) \<and>
     below radj (visited - in_stack) n rest \<and> distinct (n # List.map fst rest) \<and>
     in_stack = (if i = 0 then fst ` set rest else insert n (fst ` set rest)) \<and>
     in_stack \<subseteq> visited \<and> (i = 0 \<longrightarrow> n \<notin> visited) \<and> visited - in_stack \<subseteq> Wellfounded.acc (rel radj)"

lemma below_mono: "below radj fin m st \<Longrightarrow> fin \<subseteq> fin' \<Longrightarrow> below radj fin' m st"
  by (induction st arbitrary: m) (auto split: prod.splits, blast)

lemma below_path: "below radj fin m st \<Longrightarrow> x \<in> fst ` set st \<Longrightarrow> (m, x) \<in> (rel radj)\<^sup>+"
proof (induction st arbitrary: m)
  case (Cons p st)
  obtain n i where p: "p = (n, i)" by (cases p)
  have edge: "(m, n) \<in> rel radj" using Cons.prems p by (auto simp: in_set_conv_nth intro!: exI [of _ "i - 1"])
  show ?case
  proof (cases "x = n")
    case True
    then show ?thesis using edge by blast
  next
    case False
    then have "(n, x) \<in> (rel radj)\<^sup>+" using Cons p by auto
    then show ?thesis using edge by (rule trancl_into_trancl2 [rotated])
  qed
qed simp

lemma dfs_step_error:
  assumes "dfs_inv radj st" and "dfs_step radj st = Inl e"
  obtains node dep where "e = CycleDetected node dep" "(dep, node) \<in> rel radj" "(node, dep) \<in> (rel radj)\<^sup>*"
proof -
  obtain visited in_stack n i rest where st: "st = (visited, in_stack, (n, i) # rest)"
    using assms(2) by (cases "(radj, st)" rule: dfs_step.cases) auto
  let ?dep = "deps_in radj n ! i"
  have i: "i < length (deps_in radj n)" and e: "e = CycleDetected n ?dep"
    and on: "?dep \<in> insert n (fst ` set rest)" and b: "below radj (visited - in_stack) n rest"
    using assms st by (auto simp: Let_def split: if_splits)
  have edge: "(?dep, n) \<in> rel radj" using i by simp
  have "(n, ?dep) \<in> (rel radj)\<^sup>*"
    using on below_path [OF b, of ?dep] by (cases "?dep = n") (auto intro: trancl_into_rtrancl)
  then show ?thesis using that e edge by blast
qed

text \<open>
  The invariant at a non-empty stack in terms of the finished nodes and the nodes below the top,
  and after entering the top node.
\<close>

lemma dfs_inv_top:
  assumes "dfs_inv radj (visited, in_stack, (n, i) # rest)"
  obtains fin low where "fin = visited - in_stack" "low = fst ` set rest"
    "i \<le> length (deps_in radj n)" "\<forall>j < i. deps_in radj n ! j \<in> fin" "below radj fin n rest"
    "n \<notin> low" "distinct (List.map fst rest)" "low \<subseteq> visited" "fin \<subseteq> Wellfounded.acc (rel radj)"
    "insert n visited = insert n (fin \<union> low)" "n \<notin> fin" "fin \<inter> low = {}"
    "(if i = 0 then insert n visited else visited) = insert n visited"
    "(if i = 0 then insert n in_stack else in_stack) = insert n low"
  using assms by (intro that [of "visited - in_stack" "fst ` set rest"]) (auto split: if_splits)

lemma dfs_inv_make:
  assumes "i \<le> length (deps_in radj n)" "\<forall>j < i. deps_in radj n ! j \<in> fin" "below radj fin n rest"
    "n \<notin> fst ` set rest" "distinct (List.map fst rest)" "fin \<inter> insert n (fst ` set rest) = {}"
    "fin \<subseteq> Wellfounded.acc (rel radj)"
    and "in_stack = (if i = 0 then fst ` set rest else insert n (fst ` set rest))" "visited = fin \<union> in_stack"
  shows "dfs_inv radj (visited, in_stack, (n, i) # rest)"
proof -
  have "visited - in_stack = fin" using assms(6,8,9) by (auto split: if_splits)
  then show ?thesis using assms by (auto split: if_splits)
qed

lemma dfs_pop_inv:
  assumes inv: "dfs_inv radj (visited, in_stack, (n, i) # rest)" and i: "\<not> i < length (deps_in radj n)"
  shows "dfs_inv radj (insert n visited, insert n (fst ` set rest) - {n}, rest)"
proof -
  obtain fin low where f: "low = fst ` set rest" "i \<le> length (deps_in radj n)" "\<forall>j < i. deps_in radj n ! j \<in> fin"
    "below radj fin n rest" "n \<notin> low" "distinct (List.map fst rest)" "fin \<subseteq> Wellfounded.acc (rel radj)"
    "insert n visited = insert n (fin \<union> low)" "n \<notin> fin" "fin \<inter> low = {}"
    using dfs_inv_top [OF inv] by metis
  have acc: "n \<in> Wellfounded.acc (rel radj)"
  proof (rule accI)
    fix d assume "(d, n) \<in> rel radj"
    then have "d \<in> fin" using f(2,3) i by (metis in_set_conv_nth le_neq_implies_less rel_iff)
    then show "d \<in> Wellfounded.acc (rel radj)" using f(7) by blast
  qed
  show ?thesis
  proof (cases rest)
    case Nil
    then show ?thesis using f(1,7,8) acc by simp
  next
    case (Cons p r)
    obtain m k where p: "p = (m, k)" by (cases p)
    have b: "0 < k" "k \<le> length (deps_in radj m)" "deps_in radj m ! (k - 1) = n"
      "\<forall>j < k - 1. deps_in radj m ! j \<in> fin" "below radj fin m r"
      using f(4) Cons p by auto
    have deps: "\<forall>j < k. deps_in radj m ! j \<in> insert n fin"
    proof (intro allI impI)
      fix j assume "j < k"
      then show "deps_in radj m ! j \<in> insert n fin" using b(1,3,4) by (cases "j = k - 1") auto
    qed
    have "below radj (insert n fin) m r" using b(5) by (rule below_mono) auto
    moreover have low: "insert n (fst ` set rest) - {n} = low" "low = insert m (fst ` set r)"
      using f(1,5) Cons p by auto
    moreover have "m \<notin> fst ` set r" "distinct (List.map fst r)" using f(6) Cons p by auto
    moreover have "insert n fin \<inter> insert m (fst ` set r) = {}" using f(5,9,10) low(2) by blast
    moreover have "insert n fin \<subseteq> Wellfounded.acc (rel radj)" using f(7) acc by simp
    moreover have "insert n visited = insert n fin \<union> low" using f(8) by simp
    ultimately show ?thesis
      unfolding low(1) unfolding Cons p using b(1,2) deps
      by (intro dfs_inv_make [where fin = "insert n fin"]) simp_all
  qed
qed

lemma dfs_push_inv:
  assumes inv: "dfs_inv radj (visited, in_stack, (n, i) # rest)" and i: "i < length (deps_in radj n)"
    and dep: "deps_in radj n ! i \<notin> insert n visited"
  shows "dfs_inv radj (insert n visited, insert n (fst ` set rest), (deps_in radj n ! i, 0) # (n, i + 1) # rest)"
proof -
  obtain fin low where f: "low = fst ` set rest" "\<forall>j < i. deps_in radj n ! j \<in> fin"
    "below radj fin n rest" "n \<notin> low" "distinct (List.map fst rest)" "fin \<subseteq> Wellfounded.acc (rel radj)"
    "insert n visited = insert n (fin \<union> low)" "n \<notin> fin" "fin \<inter> low = {}"
    using dfs_inv_top [OF inv] by metis
  show ?thesis
    using f i dep by (intro dfs_inv_make [where fin = fin]) auto
qed

lemma dfs_next_inv:
  assumes inv: "dfs_inv radj (visited, in_stack, (n, i) # rest)" and i: "i < length (deps_in radj n)"
    and dep: "deps_in radj n ! i \<in> insert n visited" "deps_in radj n ! i \<notin> insert n (fst ` set rest)"
  shows "dfs_inv radj (insert n visited, insert n (fst ` set rest), (n, i + 1) # rest)"
proof -
  obtain fin low where f: "low = fst ` set rest" "\<forall>j < i. deps_in radj n ! j \<in> fin"
    "below radj fin n rest" "n \<notin> low" "distinct (List.map fst rest)" "fin \<subseteq> Wellfounded.acc (rel radj)"
    "insert n visited = insert n (fin \<union> low)" "n \<notin> fin" "fin \<inter> low = {}"
    using dfs_inv_top [OF inv] by metis
  have "deps_in radj n ! i \<in> fin" using dep f(1,7) by blast
  then have "\<forall>j < i + 1. deps_in radj n ! j \<in> fin" using f(2) by (simp add: less_Suc_eq)
  then show ?thesis
    using f i by (intro dfs_inv_make [where fin = fin]) auto
qed

definition dfs_measure :: "(string, string list) dict \<Rightarrow> string set \<Rightarrow> dfs_state \<Rightarrow> nat" where
  "dfs_measure radj U = (\<lambda>(visited, in_stack, stack).
     (\<Sum>x \<in> U - (visited \<union> fst ` set stack). length (deps_in radj x) + 2) +
     (\<Sum>(n, i) \<leftarrow> stack. length (deps_in radj n) + 1 - i))"

definition touched :: "dfs_state \<Rightarrow> string set" where
  "touched = (\<lambda>(visited, in_stack, stack). visited \<union> fst ` set stack)"

lemma dfs_step_progress:
  assumes inv: "dfs_inv radj (visited, in_stack, (n, i) # rest)" and U: "finite U" "set (deps_in radj n) \<subseteq> U"
    and ok: "dfs_step radj (visited, in_stack, (n, i) # rest) = Inr st'"
  shows "dfs_inv radj st' \<and> dfs_measure radj U st' < dfs_measure radj U (visited, in_stack, (n, i) # rest) \<and>
    touched (visited, in_stack, (n, i) # rest) \<subseteq> touched st'"
proof -
  let ?dep = "deps_in radj n ! i" and ?v = "insert n visited" and ?s = "insert n (fst ` set rest)"
  have "(if i = 0 then insert n visited else visited) = ?v" "(if i = 0 then insert n in_stack else in_stack) = ?s"
    using dfs_inv_top [OF inv] by metis+
  note step = ok [unfolded dfs_step.simps Let_def this]
  have le: "i \<le> length (deps_in radj n)" using inv by simp
  consider (pop) "\<not> i < length (deps_in radj n)" "st' = (?v, ?s - {n}, rest)"
    | (push) "i < length (deps_in radj n)" "?dep \<notin> ?v" "st' = (?v, ?s, (?dep, 0) # (n, i + 1) # rest)"
    | (adv) "i < length (deps_in radj n)" "?dep \<in> ?v" "?dep \<notin> ?s" "st' = (?v, ?s, (n, i + 1) # rest)"
    using step by (auto split: if_splits)
  then show ?thesis
  proof cases
    case pop
    then show ?thesis using dfs_pop_inv [OF inv] le by (auto simp: dfs_measure_def touched_def)
  next
    case push
    let ?R = "U - (visited \<union> fst ` set ((n, i) # rest))"
    have "?dep \<in> ?R" using push(1,2) inv U(2) by (auto split: if_splits)
    moreover have R: "U - (?v \<union> fst ` set ((?dep, 0) # (n, i + 1) # rest)) = ?R - {?dep}" by auto
    ultimately have "(\<Sum>x \<in> ?R. length (deps_in radj x) + 2) =
        length (deps_in radj ?dep) + 2 + (\<Sum>x \<in> ?R - {?dep}. length (deps_in radj x) + 2)"
      using U(1) by (simp add: sum.remove)
    moreover have "dfs_measure radj U st' = (\<Sum>x \<in> ?R - {?dep}. length (deps_in radj x) + 2) +
        (length (deps_in radj ?dep) + 1 + ((length (deps_in radj n) - i) +
          (\<Sum>(n, i) \<leftarrow> rest. length (deps_in radj n) + 1 - i)))"
      unfolding push(3) dfs_measure_def prod.case R by simp
    moreover have "dfs_measure radj U (visited, in_stack, (n, i) # rest) = (\<Sum>x \<in> ?R. length (deps_in radj x) + 2) +
        ((length (deps_in radj n) + 1 - i) + (\<Sum>(n, i) \<leftarrow> rest. length (deps_in radj n) + 1 - i))"
      unfolding dfs_measure_def prod.case by simp
    ultimately have "dfs_measure radj U st' < dfs_measure radj U (visited, in_stack, (n, i) # rest)"
      using push(1) by linarith
    then show ?thesis
      using push(3) dfs_push_inv [OF inv push(1,2)] by (auto simp: touched_def)
  next
    case adv
    then show ?thesis using dfs_next_inv [OF inv] by (auto simp: dfs_measure_def touched_def)
  qed
qed

lemma dfs_loop_ok:
  assumes "dfs_inv radj st" and "finite U" and "\<And>n. set (deps_in radj n) \<subseteq> U"
  shows "(\<exists>v. dfs_loop radj st = Some (Inr (v, {})) \<and> touched st \<subseteq> v \<and> v \<subseteq> Wellfounded.acc (rel radj)) \<or>
    (\<exists>node dep. dfs_loop radj st = Some (Inl (CycleDetected node dep)) \<and>
       (dep, node) \<in> rel radj \<and> (node, dep) \<in> (rel radj)\<^sup>*)"
  using assms(1)
proof (induction "dfs_measure radj U st" arbitrary: st rule: less_induct)
  case less
  obtain visited in_stack stack where st: "st = (visited, in_stack, stack)" by (cases st)
  show ?case
  proof (cases stack)
    case Nil
    then have inv: "in_stack = {}" "visited \<subseteq> Wellfounded.acc (rel radj)" using less.prems st by simp_all
    have "dfs_loop radj (visited, {}, []) = Some (Inr (visited, {}))" by (subst dfs_loop.simps) simp
    then show ?thesis using st Nil inv by (auto simp: touched_def)
  next
    case (Cons p rest)
    obtain n i where p: "p = (n, i)" by (cases p)
    show ?thesis
    proof (cases "dfs_step radj st")
      case (Inl e)
      then have "dfs_loop radj st = Some (Inl e)" using st Cons by (subst dfs_loop.simps) simp
      then show ?thesis using dfs_step_error [OF less.prems Inl] by metis
    next
      case (Inr st')
      then have "dfs_loop radj st = dfs_loop radj st'" using st Cons by (subst dfs_loop.simps) simp
      then show ?thesis
        using dfs_step_progress [OF less.prems [unfolded st Cons p] assms(2,3) Inr [unfolded st Cons p]]
          less.hyps [of st'] st Cons p by auto
    qed
  qed
qed

lemma check_cycles_from_ok:
  assumes "finite U" and "\<And>n. set (deps_in radj n) \<subseteq> U" and "visited \<subseteq> Wellfounded.acc (rel radj)"
  shows "(check_cycles_from radj starts visited {} = Some (Inr ()) \<and> set starts \<subseteq> Wellfounded.acc (rel radj)) \<or>
    (\<exists>node dep. check_cycles_from radj starts visited {} = Some (Inl (CycleDetected node dep)) \<and>
       (dep, node) \<in> rel radj \<and> (node, dep) \<in> (rel radj)\<^sup>*)"
  using assms(3)
proof (induction starts arbitrary: visited)
  case (Cons s ss)
  show ?case
  proof (cases "s \<in> visited")
    case True
    then show ?thesis using Cons by auto
  next
    case False
    then have "dfs_inv radj (visited, {}, [(s, 0)])" using Cons.prems by simp
    from dfs_loop_ok [OF this assms(1,2)]
    consider v where "dfs_loop radj (visited, {}, [(s, 0)]) = Some (Inr (v, {}))" "s \<in> v" "v \<subseteq> Wellfounded.acc (rel radj)"
      | node dep where "dfs_loop radj (visited, {}, [(s, 0)]) = Some (Inl (CycleDetected node dep))"
        "(dep, node) \<in> rel radj" "(node, dep) \<in> (rel radj)\<^sup>*"
      by (auto simp: touched_def)
    then show ?thesis
    proof cases
      case 1
      then show ?thesis using False Cons.IH [of v] by auto
    next
      case 2
      then show ?thesis using False by simp
    qed
  qed
qed simp

lemma check_cycles_ok:
  assumes "unique_ids subs"
  shows "(check_cycles (mk_graph subs) = Some (Inr ()) \<and> wf (needs subs)) \<or>
    (\<exists>node dep. check_cycles (mk_graph subs) = Some (Inl (CycleDetected node dep)) \<and>
       (dep, node) \<in> needs subs \<and> (node, dep) \<in> (needs subs)\<^sup>*)"
proof -
  let ?radj = "reverse_adjacency (mk_graph subs)" and ?U = "\<Union> (set ` sd_dependencies ` set subs)"
  have U: "set (deps_in ?radj n) \<subseteq> ?U" for n
    using deps_in_outside [of n subs] deps_in_graph [OF assms] by (cases "n \<in> sd_id ` set subs") auto
  have all: "n \<in> Wellfounded.acc (rel ?radj)" if "sd_id ` set subs \<subseteq> Wellfounded.acc (rel ?radj)" for n
  proof (cases "n \<in> sd_id ` set subs")
    case False
    show ?thesis by (rule accI) (simp add: deps_in_outside [OF False])
  qed (use that in blast)
  have "finite ?U" by simp
  from check_cycles_from_ok [OF this U, of "{}" "List.map sd_id subs"]
  show ?thesis
    using all by (auto simp: check_cycles_def rel_graph [OF assms] wf_iff_acc)
qed

subsection \<open>Counting open dependencies\<close>

text \<open>
  The degree of a subtask is the number of its dependencies that are not processed yet, with
  repetition; the subtasks ready for processing are those with degree zero.
\<close>

definition pending :: "(string \<Rightarrow> string list) \<Rightarrow> string set \<Rightarrow> degrees" where
  "pending D P x = int (length (filter (\<lambda>d. d \<notin> P) (D x)))"

definition ready_set :: "(string \<Rightarrow> string list) \<Rightarrow> string list \<Rightarrow> string set \<Rightarrow> string set" where
  "ready_set D ids P = {x \<in> set ids. x \<notin> P \<and> set (D x) \<subseteq> P}"

lemma pending_zero: "pending D P x = 0 \<longleftrightarrow> set (D x) \<subseteq> P"
  by (auto simp: pending_def filter_empty_conv)

lemma finite_ready_set [simp]: "finite (ready_set D ids P)"
  by (simp add: ready_set_def)

lemma filter_insert_count:
  "n \<notin> P \<Longrightarrow> length (filter (\<lambda>d. d \<notin> P) xs) = length (filter (\<lambda>d. d \<notin> insert n P) xs) + count_list xs n"
  by (induction xs) auto

lemma pending_insert: "n \<notin> P \<Longrightarrow> pending D (insert n P) x = pending D P x - int (count_list (D x) n)"
  using filter_insert_count [of n P "D x"] by (simp add: pending_def)

lemma release_eq: "release adj n deg = (\<lambda>x. deg x - int (count_list (dget_or adj n []) x))"
proof -
  have "fold (\<lambda>d deg. deg(d := deg d - 1)) ds deg = (\<lambda>x. deg x - int (count_list ds x))" for ds and deg :: degrees
    by (induction ds arbitrary: deg) (auto simp: fun_eq_iff)
  then show ?thesis by (simp add: release_def)
qed

lemma relax_fold:
  assumes "\<And>x. int (count_list ds x) \<le> deg x"
  shows "fst (fold relax ds (deg, heap)) = (\<lambda>x. deg x - int (count_list ds x)) \<and>
    set (snd (fold relax ds (deg, heap))) = set heap \<union> {x \<in> set ds. deg x = int (count_list ds x)} \<and>
    (distinct heap \<and> set heap \<inter> set ds = {} \<longrightarrow> distinct (snd (fold relax ds (deg, heap))))"
  using assms
proof (induction ds arbitrary: deg heap)
  case (Cons d ds)
  define deg' where "deg' = deg(d := deg d - 1)"
  define heap' where "heap' = (if deg d = 1 then d # heap else heap)"
  have le: "int (count_list ds x) \<le> deg' x" for x using Cons.prems [of x] by (auto simp: deg'_def split: if_splits)
  have step: "fold relax (d # ds) (deg, heap) = fold relax ds (deg', heap')"
    by (simp add: relax_def Let_def deg'_def heap'_def)
  have once: "d \<notin> set ds" if "deg d = 1"
    using le [of d] that by (simp add: deg'_def count_list_0_iff)
  have "(\<lambda>x. deg' x - int (count_list ds x)) = (\<lambda>x. deg x - int (count_list (d # ds) x))"
    by (auto simp: fun_eq_iff deg'_def)
  moreover have "set heap' \<union> {x \<in> set ds. deg' x = int (count_list ds x)} =
      set heap \<union> {x \<in> set (d # ds). deg x = int (count_list (d # ds) x)}"
    using once le [of d] by (auto simp: deg'_def heap'_def count_list_0_iff split: if_splits)
  moreover have "distinct heap \<and> set heap \<inter> set (d # ds) = {} \<longrightarrow> distinct heap' \<and> set heap' \<inter> set ds = {}"
    using once by (auto simp: heap'_def)
  ultimately show ?case using Cons.IH [of deg' heap', OF le] unfolding step by metis
qed simp

text \<open>
  Orders in which every element is the least of those ready at its turn, and sequences of groups
  which are, each, everything ready at its turn.
\<close>

definition greedy :: "(string \<Rightarrow> string list) \<Rightarrow> string list \<Rightarrow> string list \<Rightarrow> bool" where
  "greedy D ids r \<longleftrightarrow> (\<forall>i < length r. r ! i \<in> ready_set D ids (set (take i r)) \<and>
     (\<forall>x \<in> ready_set D ids (set (take i r)). r ! i \<le> x))"

definition layered :: "(string \<Rightarrow> string list) \<Rightarrow> string list \<Rightarrow> string list list \<Rightarrow> bool" where
  "layered D ids gs \<longleftrightarrow> (\<forall>i < length gs. gs ! i \<noteq> [] \<and>
     gs ! i = sorted_list_of_set (ready_set D ids (set (concat (take i gs)))))"

lemma greedy_snoc:
  "greedy D ids (r @ [x]) \<longleftrightarrow> greedy D ids r \<and> x \<in> ready_set D ids (set r) \<and> (\<forall>y \<in> ready_set D ids (set r). x \<le> y)"
  by (auto simp: greedy_def nth_append less_Suc_eq)

lemma greedy_closed:
  assumes "greedy D ids r" and "x \<in> set r"
  shows "set (D x) \<subseteq> set r"
proof -
  obtain i where "i < length r" "x = r ! i" using assms(2) by (auto simp: in_set_conv_nth)
  then have "set (D x) \<subseteq> set (take i r)" using assms(1) by (auto simp: greedy_def ready_set_def)
  then show ?thesis using set_take_subset by fastforce
qed

lemma greedy_distinct: "greedy D ids r \<Longrightarrow> distinct r \<and> set r \<subseteq> set ids"
  by (induction r rule: rev_induct) (auto simp: greedy_snoc ready_set_def)

text \<open>An order that lists every node after its dependencies leaves no room for a cycle.\<close>

lemma greedy_wf:
  assumes "greedy D ids r" and "\<And>x. x \<notin> set r \<Longrightarrow> D x = []"
  shows "wf {(d, x). d \<in> set (D x)}"
proof (rule wf_subset [OF wf_measure])
  show "{(d, x). d \<in> set (D x)} \<subseteq> measure (\<lambda>x. length (takeWhile (\<lambda>y. y \<noteq> x) r))"
  proof clarify
    fix d x assume d: "d \<in> set (D x)"
    then have "x \<in> set r" using assms(2) by fastforce
    then obtain i where i: "i < length r" "r ! i = x" by (auto simp: in_set_conv_nth)
    then have "d \<in> set (take i r)" using assms(1) d by (auto simp: greedy_def ready_set_def)
    then obtain j where j: "j < i" "r ! j = d" using i(1) by (auto simp: in_set_conv_nth)
    have dist: "distinct r" using greedy_distinct [OF assms(1)] by blast
    have idx: "length (takeWhile (\<lambda>y. y \<noteq> r ! k) r) = k" if "k < length r" for k
    proof -
      have "takeWhile (\<lambda>y. y \<noteq> r ! k) r = take k r"
        using dist that by (intro takeWhile_eq_take_P_nth) (auto simp: nth_eq_iff_index_eq)
      then show ?thesis using that by simp
    qed
    show "(d, x) \<in> measure (\<lambda>x. length (takeWhile (\<lambda>y. y \<noteq> x) r))"
      using idx [of i] idx [of j] i j by simp
  qed
qed

lemma layered_snoc:
  "layered D ids (gs @ [g]) \<longleftrightarrow> layered D ids gs \<and> g \<noteq> [] \<and> g = sorted_list_of_set (ready_set D ids (set (concat gs)))"
  by (auto simp: layered_def nth_append less_Suc_eq)

lemma layered_distinct: "layered D ids gs \<Longrightarrow> distinct (concat gs) \<and> set (concat gs) \<subseteq> set ids"
proof (induction gs rule: rev_induct)
  case (snoc g gs)
  then have g: "distinct g" "set g = ready_set D ids (set (concat gs))" by (auto simp: layered_snoc)
  then have "set g \<inter> set (concat gs) = {}" "set g \<subseteq> set ids" by (auto simp: ready_set_def)
  then show ?case using snoc g(1) by (auto simp: layered_snoc)
qed simp

lemma concat_nth_member: "x \<in> set (concat xss) \<Longrightarrow> \<exists>i. i < length xss \<and> x \<in> set (xss ! i)"
  by (metis UN_E in_set_conv_nth set_concat)

lemma layered_wf:
  assumes "layered D ids gs" and "\<And>x. x \<notin> set (concat gs) \<Longrightarrow> D x = []"
  shows "wf {(d, x). d \<in> set (D x)}"
proof (rule wf_subset [OF wf_measure])
  show "{(d, x). d \<in> set (D x)} \<subseteq> measure (\<lambda>x. length (takeWhile (\<lambda>g. x \<notin> set g) gs))"
  proof clarify
    fix d x assume d: "d \<in> set (D x)"
    then have "x \<in> set (concat gs)" using assms(2) by fastforce
    then obtain i where i: "i < length gs" "x \<in> set (gs ! i)" by (metis concat_nth_member)
    then have "x \<in> ready_set D ids (set (concat (take i gs)))" using assms(1) by (auto simp: layered_def)
    then have x: "x \<notin> set (concat (take i gs))" "set (D x) \<subseteq> set (concat (take i gs))" by (auto simp: ready_set_def)
    have "gs ! k \<in> set (take i gs)" if "k < i" for k
      using that i(1) by (metis in_set_conv_nth length_take min_less_iff_conj nth_take order_less_trans)
    then have "takeWhile (\<lambda>g. x \<notin> set g) gs = take i gs"
      using i(2) x(1) by (intro takeWhile_eq_take_P_nth) (simp_all add: set_concat)
    then have ix: "length (takeWhile (\<lambda>g. x \<notin> set g) gs) = i" using i(1) by simp
    have "d \<in> set (concat (take i gs))" using x(2) d by blast
    then obtain j where j: "j < i" "d \<in> set (gs ! j)"
      using i(1) by (metis concat_nth_member length_take min.strict_boundedE nth_take)
    have "length (takeWhile (\<lambda>g. d \<notin> set g) gs) \<le> j"
    proof (rule ccontr)
      assume "\<not> ?thesis"
      then have "j < length (takeWhile (\<lambda>g. d \<notin> set g) gs)" by simp
      then have "gs ! j \<in> set (takeWhile (\<lambda>g. d \<notin> set g) gs)" by (metis nth_mem takeWhile_nth)
      then show False using j(2) by (auto dest: set_takeWhileD)
    qed
    then show "(d, x) \<in> measure (\<lambda>x. length (takeWhile (\<lambda>g. x \<notin> set g) gs))" using ix j(1) by simp
  qed
qed

subsection \<open>The contract of a dependency graph\<close>

locale dependency_provider =
  fixes ok :: "'p \<Rightarrow> bool"
    and nodes :: "'p \<Rightarrow> string list"
    and D :: "'p \<Rightarrow> string \<Rightarrow> string list"
    and adj :: "'p \<Rightarrow> (string, string list) dict"
  assumes nodes_distinct: "ok p \<Longrightarrow> distinct (nodes p)"
    and deps_closed: "ok p \<Longrightarrow> set (D p x) \<subseteq> set (nodes p)"
    and deps_outside: "ok p \<Longrightarrow> x \<notin> set (nodes p) \<Longrightarrow> D p x = []"
    and adj_count: "ok p \<Longrightarrow> n \<in> set (nodes p) \<Longrightarrow> count_list (dget_or (adj p) n []) x = count_list (D p x) n"
begin

lemma release_pending:
  assumes "ok p" and "distinct ns" and "set ns \<subseteq> set (nodes p)" and "set ns \<inter> P = {}"
  shows "fold (release (adj p)) ns (pending (D p) P) = pending (D p) (P \<union> set ns)"
  using assms(2-4)
proof (induction ns arbitrary: P)
  case (Cons n ns)
  have "release (adj p) n (pending (D p) P) = pending (D p) (insert n P)"
    using Cons.prems by (auto simp: release_eq pending_insert adj_count [OF assms(1)])
  moreover have "fold (release (adj p)) ns (pending (D p) (insert n P)) = pending (D p) (insert n P \<union> set ns)"
    using Cons by (intro Cons.IH) auto
  ultimately show ?case by simp
qed simp

text \<open>A set of processed nodes from which nothing is ready is everything, unless there is a cycle.\<close>

lemma stuck_complete:
  assumes "ok p" and "wf {(d, x). d \<in> set (D p x)}" and "ready_set (D p) (nodes p) P = {}"
  shows "set (nodes p) \<subseteq> P"
proof (rule ccontr)
  assume "\<not> set (nodes p) \<subseteq> P"
  then obtain y where "y \<in> set (nodes p) - P" by blast
  then obtain x where x: "x \<in> set (nodes p) - P" "\<And>d. d \<in> set (D p x) \<Longrightarrow> d \<notin> set (nodes p) - P"
    using wfE_min [OF assms(2), of y "set (nodes p) - P"] by auto
  then have "x \<in> ready_set (D p) (nodes p) P" using deps_closed [OF assms(1), of x] by (auto simp: ready_set_def)
  then show False using assms(3) by blast
qed

lemma kahn_step:
  assumes p: "ok p" and g: "greedy (D p) (nodes p) result" and heap: "distinct heap" "heap \<noteq> []"
    "set heap = ready_set (D p) (nodes p) (set result)" and pop: "heappop heap = (node, heap')"
    and fold: "fold relax (dget_or (adj p) node []) (pending (D p) (set result), heap') = (deg'', heap'')"
  shows "deg'' = pending (D p) (set (result @ [node]))" "distinct heap''"
    "set heap'' = ready_set (D p) (nodes p) (set (result @ [node]))" "greedy (D p) (nodes p) (result @ [node])"
proof -
  let ?P = "set result" and ?ds = "dget_or (adj p) node []"
  have node: "node = Min (set heap)" "heap' = remove1 node heap" using pop by (auto simp: heappop_def Let_def)
  then have ready: "node \<in> ready_set (D p) (nodes p) ?P" "\<forall>y \<in> ready_set (D p) (nodes p) ?P. node \<le> y"
    using heap by (metis List.finite_set Min_in set_empty, metis List.finite_set Min_le)
  then have n: "node \<in> set (nodes p)" "node \<notin> ?P" "set (D p node) \<subseteq> ?P" by (auto simp: ready_set_def)
  have cnt: "count_list ?ds x = count_list (D p x) node" for x using adj_count [OF p n(1)] by simp
  have le: "int (count_list ?ds x) \<le> pending (D p) ?P x" for x
    using filter_insert_count [OF n(2), of "D p x"] by (simp add: cnt pending_def)
  have in_ds: "x \<in> set ?ds \<longleftrightarrow> node \<in> set (D p x)" for x using cnt [of x] by (metis count_list_0_iff)
  have heap': "set heap' = ready_set (D p) (nodes p) ?P - {node}" "distinct heap'"
    using heap(1,3) node(2) by auto
  have disj: "set heap' \<inter> set ?ds = {}" using n(2) by (auto simp: heap'(1) in_ds ready_set_def)
  note rf = relax_fold [of ?ds "pending (D p) ?P" heap', OF le, unfolded fold fst_conv snd_conv]
  have ins: "set (result @ [node]) = insert node ?P" by simp
  show "deg'' = pending (D p) (set (result @ [node]))"
    using rf unfolding ins by (auto simp: cnt pending_insert [OF n(2)] fun_eq_iff)
  show "distinct heap''" using rf disj heap'(2) by blast
  show "greedy (D p) (nodes p) (result @ [node])" using g ready by (simp add: greedy_snoc)
  have zero: "pending (D p) ?P x = int (count_list ?ds x) \<longleftrightarrow> set (D p x) \<subseteq> insert node ?P" for x
    using pending_insert [OF n(2), of "D p" x] pending_zero [of "D p" "insert node ?P" x] by (simp add: cnt)
  have new: "x \<in> ready_set (D p) (nodes p) (insert node ?P)" if "x \<in> set ?ds" "set (D p x) \<subseteq> insert node ?P" for x
  proof -
    have "x \<in> set (nodes p)" using that(1) deps_outside [OF p, of x] by (fastforce simp: in_ds)
    moreover have "x \<notin> ?P" using that(1) greedy_closed [OF g] n(2) by (auto simp: in_ds)
    moreover have "x \<noteq> node" using that(1) n(2,3) by (auto simp: in_ds)
    ultimately show ?thesis using that(2) by (auto simp: ready_set_def)
  qed
  have "set heap'' = (ready_set (D p) (nodes p) ?P - {node}) \<union> {x \<in> set ?ds. set (D p x) \<subseteq> insert node ?P}"
    using rf by (simp add: zero heap'(1))
  also have "\<dots> = ready_set (D p) (nodes p) (insert node ?P)"
  proof (intro equalityI subsetI)
    fix x assume "x \<in> ready_set (D p) (nodes p) (insert node ?P)"
    then show "x \<in> (ready_set (D p) (nodes p) ?P - {node}) \<union> {x \<in> set ?ds. set (D p x) \<subseteq> insert node ?P}"
      by (auto simp: ready_set_def in_ds)
  next
    fix x assume "x \<in> (ready_set (D p) (nodes p) ?P - {node}) \<union> {x \<in> set ?ds. set (D p x) \<subseteq> insert node ?P}"
    then show "x \<in> ready_set (D p) (nodes p) (insert node ?P)"
      using new [of x] by (auto simp: ready_set_def)
  qed
  finally show "set heap'' = ready_set (D p) (nodes p) (set (result @ [node]))" unfolding ins .
qed

lemma kahn_loop_ok:
  assumes "ok p" and "deg = pending (D p) (set result)" and "distinct heap"
    and "set heap = ready_set (D p) (nodes p) (set result)" and "greedy (D p) (nodes p) result"
  shows "greedy (D p) (nodes p) (kahn_loop (adj p) deg heap result) \<and>
    ready_set (D p) (nodes p) (set (kahn_loop (adj p) deg heap result)) = {}"
  using assms(2-5)
proof (induction "adj p" deg heap result rule: kahn_loop.induct)
  case (1 deg heap result)
  show ?case
  proof (cases "heap = []")
    case True
    then have "kahn_loop (adj p) deg heap result = result" by (subst kahn_loop.simps) simp
    then show ?thesis using 1 True by simp
  next
    case False
    obtain node heap' where pop: "heappop heap = (node, heap')" by (cases "heappop heap")
    obtain deg'' heap'' where f: "fold relax (dget_or (adj p) node []) (deg, heap') = (deg'', heap'')"
      by (cases "fold relax (dget_or (adj p) node []) (deg, heap')")
    have step: "kahn_loop (adj p) deg heap result = kahn_loop (adj p) deg'' heap'' (result @ [node])"
      using False pop f by (subst kahn_loop.simps) simp
    note next_inv = kahn_step [OF assms(1) 1(5) 1(3) False 1(4) pop f [unfolded 1(2)]]
    show ?thesis
      unfolding step using 1(1) [OF False pop [symmetric] refl f [symmetric] refl] next_inv by blast
  qed
qed

lemma groups_loop_ok:
  assumes "ok p" and "deg = pending (D p) (set (concat groups))"
    and "remaining = filter (\<lambda>x. x \<notin> set (concat groups)) (nodes p)" and "layered (D p) (nodes p) groups"
  shows "(\<exists>gs. groups_loop (adj p) deg remaining groups = Inr gs \<and> layered (D p) (nodes p) gs \<and>
      set (nodes p) \<subseteq> set (concat gs)) \<or>
    (groups_loop (adj p) deg remaining groups = Inl CycleInGroups \<and>
      (\<exists>P. ready_set (D p) (nodes p) P = {} \<and> \<not> set (nodes p) \<subseteq> P))"
  using assms(2-4)
proof (induction "adj p" deg remaining groups rule: groups_loop.induct)
  case (1 deg remaining groups)
  let ?P = "set (concat groups)" and ?ready = "sort (filter (\<lambda>s. deg s = 0) remaining)"
  have sr: "set ?ready = ready_set (D p) (nodes p) ?P"
    by (auto simp: 1(2,3) pending_zero ready_set_def)
  have "distinct (filter (\<lambda>s. deg s = 0) remaining)" using nodes_distinct [OF assms(1)] 1(3) by simp
  then have ready: "?ready = sorted_list_of_set (ready_set (D p) (nodes p) ?P)" "distinct ?ready"
    using sorted_list_of_set_sort_remdups [of "filter (\<lambda>s. deg s = 0) remaining"] sr
    by (simp_all add: distinct_remdups_id)
  consider "remaining = []" | "remaining \<noteq> []" "?ready = []" | "remaining \<noteq> []" "?ready \<noteq> []" by blast
  then show ?case
  proof cases
    case 1
    then have "set (nodes p) \<subseteq> ?P" using \<open>remaining = filter _ _\<close> by (auto simp: filter_empty_conv)
    moreover have "groups_loop (adj p) deg remaining groups = Inr groups" using 1 by (subst groups_loop.simps) simp
    ultimately show ?thesis using \<open>layered _ _ groups\<close> by blast
  next
    case 2
    then have "groups_loop (adj p) deg remaining groups = Inl CycleInGroups" by (subst groups_loop.simps) simp
    moreover have "\<not> set (nodes p) \<subseteq> ?P" using 2(1) \<open>remaining = filter _ _\<close> by (auto simp: filter_empty_conv)
    moreover have "ready_set (D p) (nodes p) ?P = {}" using sr 2(2) by simp
    ultimately show ?thesis by blast
  next
    case 3
    let ?deg = "fold (release (adj p)) ?ready deg" and ?rem = "filter (\<lambda>s. s \<notin> set ?ready) remaining"
    have sub: "set ?ready \<subseteq> set (nodes p)" "set ?ready \<inter> ?P = {}" unfolding sr by (auto simp: ready_set_def)
    have "?deg = pending (D p) (set (concat (groups @ [?ready])))"
      unfolding 1(2) using release_pending [OF assms(1) ready(2) sub, unfolded 1(2)] by simp
    moreover have "?rem = filter (\<lambda>x. x \<notin> set (concat (groups @ [?ready]))) (nodes p)"
      unfolding 1(3) filter_filter by (rule filter_cong) auto
    moreover have "layered (D p) (nodes p) (groups @ [?ready])" using 1(4) 3(2) ready(1) by (simp add: layered_snoc)
    moreover have "groups_loop (adj p) deg remaining groups = groups_loop (adj p) ?deg ?rem (groups @ [?ready])"
      using 3 by (subst groups_loop.simps) (simp add: Let_def)
    ultimately show ?thesis using 1(1) [OF 3(1) refl 3(2)] by simp
  qed
qed

end

subsection \<open>The graph of a decomposition provides it\<close>

lemma fold_add_edge:
  "dget (fold (add_edge sid) deps f) n = map_option (\<lambda>l. l @ replicate (count_list deps n) sid) (dget f n)"
proof (induction deps arbitrary: f)
  case Nil
  show ?case by (cases "dget f n") simp_all
qed (auto simp: add_edge_def option.map_comp comp_def replicate_append_same split: option.splits)

lemma fold_edges:
  "dget (fold (\<lambda>s f. fold (add_edge (sd_id s)) (sd_dependencies s) f) subs f) n =
   map_option (\<lambda>l. l @ concat (List.map (\<lambda>s. replicate (count_list (sd_dependencies s) n) (sd_id s)) subs)) (dget f n)"
proof (induction subs arbitrary: f)
  case Nil
  show ?case by (cases "dget f n") simp_all
qed (simp add: fold_add_edge option.map_comp comp_def)

lemma adjacency_graph:
  assumes "n \<in> sd_id ` set subs"
  shows "dget_or (adjacency (mk_graph subs)) n [] =
    concat (List.map (\<lambda>s. replicate (count_list (sd_dependencies s) n) (sd_id s)) subs)"
proof -
  have "dget (fold (\<lambda>i. dput i []) ids d) n = (if n \<in> set ids then Some [] else dget d n)"
    for ids and d :: "(string, string list) dict"
    by (induction ids arbitrary: d) auto
  then show ?thesis using assms by (simp add: mk_graph_def Let_def fold_edges dget_or_def)
qed

lemma count_adjacency:
  assumes "unique_ids subs" and "n \<in> sd_id ` set subs"
  shows "count_list (dget_or (adjacency (mk_graph subs)) n []) x =
    count_list (deps_in (reverse_adjacency (mk_graph subs)) x) n"
proof -
  have none: "count_list (concat (List.map (\<lambda>s. replicate (count_list (sd_dependencies s) n) (sd_id s)) ss)) x = 0"
    if "x \<notin> sd_id ` set ss" for ss
    using that by (auto simp: count_list_0_iff)
  have some: "count_list (concat (List.map (\<lambda>s. replicate (count_list (sd_dependencies s) n) (sd_id s)) ss)) (sd_id s) =
      count_list (sd_dependencies s) n" if "distinct (List.map sd_id ss)" "s \<in> set ss" for s ss
    using that
  proof (induction ss)
    case (Cons t ss)
    have rep: "count_list (replicate k a) b = (if a = b then k else 0)" for k and a b :: string
      by (induction k) auto
    show ?case
    proof (cases "s = t")
      case True
      then have "sd_id t \<notin> sd_id ` set ss" using Cons.prems by auto
      then have "count_list (concat (List.map (\<lambda>s. replicate (count_list (sd_dependencies s) n) (sd_id s)) ss)) (sd_id t) = 0"
        by (auto simp: count_list_0_iff)
      then show ?thesis using True by (simp add: rep)
    next
      case False
      then have "sd_id t \<noteq> sd_id s" using Cons.prems by auto
      then show ?thesis using Cons False by (simp add: rep)
    qed
  qed simp
  show ?thesis
    unfolding adjacency_graph [OF assms(2)]
  proof (cases "x \<in> sd_id ` set subs")
    case True
    then obtain s where "s \<in> set subs" "x = sd_id s" by blast
    then show "count_list (concat (List.map (\<lambda>s. replicate (count_list (sd_dependencies s) n) (sd_id s)) subs)) x =
        count_list (deps_in (reverse_adjacency (mk_graph subs)) x) n"
      using some assms(1) deps_in_graph [OF assms(1)] by (auto simp: unique_ids_def)
  next
    case False
    then show "count_list (concat (List.map (\<lambda>s. replicate (count_list (sd_dependencies s) n) (sd_id s)) subs)) x =
        count_list (deps_in (reverse_adjacency (mk_graph subs)) x) n"
      using none by (simp add: deps_in_outside)
  qed
qed

interpretation graph: dependency_provider "\<lambda>subs. unique_ids subs \<and> closed subs" "List.map sd_id"
  "\<lambda>subs. deps_in (reverse_adjacency (mk_graph subs))" "\<lambda>subs. adjacency (mk_graph subs)"
proof unfold_locales
  fix subs x assume ok: "unique_ids subs \<and> closed subs"
  show "set (deps_in (reverse_adjacency (mk_graph subs)) x) \<subseteq> set (List.map sd_id subs)"
  proof (cases "x \<in> sd_id ` set subs")
    case True
    then obtain s where "s \<in> set subs" "x = sd_id s" by blast
    then show ?thesis using ok by (simp add: deps_in_graph closed_def)
  qed (simp add: deps_in_outside)
qed (auto simp: unique_ids_def deps_in_outside intro: count_adjacency)

lemma in_degrees_sum:
  "in_degrees subs x = (\<Sum>s \<leftarrow> subs. if sd_id s = x then int (length (sd_dependencies s)) else 0)"
proof -
  have inner: "fold (\<lambda>_ deg. deg(i := deg i + 1)) ds deg = deg(i := deg i + int (length ds))" for i ds and deg :: degrees
    by (induction ds arbitrary: deg) auto
  have "fold (\<lambda>s deg. fold (\<lambda>_ deg. deg(sd_id s := deg (sd_id s) + 1)) (sd_dependencies s) deg) subs deg x =
      deg x + (\<Sum>s \<leftarrow> subs. if sd_id s = x then int (length (sd_dependencies s)) else 0)" for deg :: degrees
    by (induction subs arbitrary: deg) (simp_all add: inner)
  then show ?thesis by (simp add: in_degrees_def)
qed

lemma in_degrees_pending:
  assumes "unique_ids subs"
  shows "in_degrees subs = pending (deps_in (reverse_adjacency (mk_graph subs))) {}"
proof
  fix x
  have none: "(\<Sum>s \<leftarrow> ss. if sd_id s = x then int (length (sd_dependencies s)) else 0) = 0" if "x \<notin> sd_id ` set ss" for ss
    using that by (induction ss) auto
  have some: "(\<Sum>s \<leftarrow> ss. if sd_id s = x then int (length (sd_dependencies s)) else 0) = int (length (sd_dependencies t))"
    if "distinct (List.map sd_id ss)" "t \<in> set ss" "sd_id t = x" for ss t
    using that
  proof (induction ss)
    case (Cons s ss)
    show ?case
    proof (cases "s = t")
      case True
      then have "x \<notin> sd_id ` set ss" using Cons.prems by auto
      then show ?thesis using True Cons.prems none by simp
    next
      case False
      then have "sd_id s \<noteq> x" using Cons.prems by auto
      then show ?thesis using Cons False by simp
    qed
  qed simp
  show "in_degrees subs x = pending (deps_in (reverse_adjacency (mk_graph subs))) {} x"
  proof (cases "x \<in> sd_id ` set subs")
    case True
    then obtain t where "t \<in> set subs" "x = sd_id t" by blast
    then show ?thesis
      using some [of subs t] assms by (simp add: in_degrees_sum pending_def deps_in_graph unique_ids_def)
  next
    case False
    then show ?thesis using none by (simp add: in_degrees_sum pending_def deps_in_outside)
  qed
qed

lemma finite_needs: "finite (needs subs)"
proof -
  have "needs subs = (\<Union>s \<in> set subs. (\<lambda>d. (d, sd_id s)) ` set (sd_dependencies s))" by (auto simp: needs_def)
  then show ?thesis by simp
qed

lemma acyclic_needs_iff: "acyclic (needs subs) \<longleftrightarrow> wf (needs subs)"
  using finite_needs finite_acyclic_wf wf_acyclic by blast

lemma rel_graph': "unique_ids subs \<Longrightarrow>
  {(d, x). d \<in> set (deps_in (reverse_adjacency (mk_graph subs)) x)} = needs subs"
  using rel_graph by (simp add: rel_def)

subsection \<open>Properties\<close>

lemma validate_graph_outcome:
  assumes "unique_ids subs" and "closed subs"
  shows "\<exists>r. validate_graph (mk_graph subs) = Some r \<and> (r = Inr () \<longleftrightarrow> acyclic (needs subs))"
proof -
  have val: "validate_graph (mk_graph subs) = check_cycles (mk_graph subs)"
    using check_missing_closed [of subs] assms(2) by (simp add: validate_graph_def)
  from check_cycles_ok [OF assms(1)] show ?thesis
  proof (elim disjE exE conjE)
    fix node dep
    assume c: "check_cycles (mk_graph subs) = Some (Inl (CycleDetected node dep))" "(dep, node) \<in> needs subs"
      "(node, dep) \<in> (needs subs)\<^sup>*"
    have "(dep, dep) \<in> (needs subs)\<^sup>+" using c(2,3) by (rule rtrancl_into_trancl2)
    then show ?thesis using c(1) by (auto simp: val acyclic_def)
  qed (simp add: val acyclic_needs_iff)
qed

text \<open>
  Validation of a graph with unique ids always ends, and succeeds exactly when every dependency
  names a subtask and the dependencies have no cycle; a reported cycle is one: the named edge is a
  dependency and lies on a cycle.
\<close>

theorem validate_graph_correct:
  assumes "unique_ids subs"
  shows "\<exists>r. validate_graph (mk_graph subs) = Some r \<and> (r = Inr () \<longleftrightarrow> closed subs \<and> acyclic (needs subs)) \<and>
    (\<forall>node dep. r = Inl (CycleDetected node dep) \<longrightarrow>
       (dep, node) \<in> needs subs \<and> (node, dep) \<in> (needs subs)\<^sup>*)"
proof (cases "check_missing_references (set (List.map sd_id subs)) subs")
  case (Inl e)
  then have "\<not> closed subs" using check_missing_closed [of subs] by auto
  moreover have "e \<noteq> CycleDetected node dep" for node dep
  proof -
    have "check_missing_references ids ss \<noteq> Inl (CycleDetected node dep)" for ids ss
      by (induction ss) (auto split: option.splits)
    then show ?thesis using Inl by auto
  qed
  ultimately show ?thesis using Inl by (simp add: validate_graph_def)
next
  case (Inr u)
  then have closed: "closed subs" using check_missing_closed [of subs] by simp
  have val: "validate_graph (mk_graph subs) = check_cycles (mk_graph subs)" using Inr by (simp add: validate_graph_def)
  from check_cycles_ok [OF assms] show ?thesis
  proof (elim disjE exE conjE)
    assume "check_cycles (mk_graph subs) = Some (Inr ())" "wf (needs subs)"
    then show ?thesis using closed by (simp add: val acyclic_needs_iff)
  next
    fix node dep
    assume c: "check_cycles (mk_graph subs) = Some (Inl (CycleDetected node dep))" "(dep, node) \<in> needs subs"
      "(node, dep) \<in> (needs subs)\<^sup>*"
    have "(dep, dep) \<in> (needs subs)\<^sup>+" using c(2,3) by (rule rtrancl_into_trancl2)
    then have "\<not> acyclic (needs subs)" by (auto simp: acyclic_def)
    then show ?thesis using c by (simp add: val)
  qed
qed

definition sample_subtask :: "string \<Rightarrow> string list \<Rightarrow> SubtaskDefinition" where
  "sample_subtask i ds = \<lparr>sd_id = i, sd_title = ''t'', sd_description = ''d'', sd_dependencies = ds,
     sd_estimated_complexity = SIMPLE, sd_required_skills = [], sd_required_tags = [], sd_required_role = None\<rparr>"

definition diamond :: "SubtaskDefinition list" where
  "diamond = [sample_subtask ''d'' [''b'', ''c''], sample_subtask ''c'' [''a''], sample_subtask ''b'' [''a''],
     sample_subtask ''a'' []]"

lemma diamond_ok: "unique_ids diamond" "closed diamond"
  by (simp_all add: diamond_def sample_subtask_def unique_ids_def closed_def)

lemma diamond_needs: "needs diamond = {(''b'', ''d''), (''c'', ''d''), (''a'', ''c''), (''a'', ''b'')}"
proof -
  have "needs subs = set [(d, sd_id s). s \<leftarrow> subs, d \<leftarrow> sd_dependencies s]" for subs by (auto simp: needs_def)
  then show ?thesis by (simp add: diamond_def sample_subtask_def insert_commute)
qed

lemma diamond_acyclic: "acyclic (needs diamond)"
proof -
  have "needs diamond \<subseteq> measure (\<lambda>x. if x = ''a'' then 0 else if x = ''d'' then 2 else 1)"
    unfolding diamond_needs by auto
  then show ?thesis using wf_acyclic wf_measure wf_subset by blast
qed

theorem validate_graph_correct_witness: "validate_graph (mk_graph diamond) = Some (Inr ())"
  using validate_graph_correct [OF diamond_ok(1)] diamond_ok(2) diamond_acyclic by auto

text \<open>
  C9: on a graph with unique ids and known dependencies the topological sort succeeds exactly when
  there is no cycle. The order it returns lists every subtask once, every one after all its
  dependencies, and each is the least, by id, of those that are ready at its turn; so the result
  does not depend on the order of the subtasks.
\<close>

theorem topological_sort_correct:
  assumes "unique_ids subs" and "closed subs"
  shows "(acyclic (needs subs) \<longrightarrow> (\<exists>r. topological_sort (mk_graph subs) = Inr r \<and> distinct r \<and> set r = sd_id ` set subs \<and>
      (\<forall>i < length r. \<forall>d. (d, r ! i) \<in> needs subs \<longrightarrow> d \<in> set (take i r)) \<and>
      (\<forall>i < length r. \<forall>x. x \<in> sd_id ` set subs - set (take i r) \<and> (\<forall>d. (d, x) \<in> needs subs \<longrightarrow> d \<in> set (take i r)) \<longrightarrow> r ! i \<le> x))) \<and>
    (\<not> acyclic (needs subs) \<longrightarrow> topological_sort (mk_graph subs) = Inl CycleInSort)"
proof -
  let ?D = "deps_in (reverse_adjacency (mk_graph subs))" and ?ids = "List.map sd_id subs"
  have ok: "unique_ids subs \<and> closed subs" using assms by simp
  note rel = rel_graph' [OF assms(1)]
  have D: "d \<in> set (?D x) \<longleftrightarrow> (d, x) \<in> needs subs" for d x using rel by auto
  define r where "r = kahn_loop (adjacency (mk_graph subs)) (in_degrees subs) (filter (\<lambda>s. in_degrees subs s = 0) ?ids) []"
  have "set (filter (\<lambda>s. in_degrees subs s = 0) ?ids) = ready_set ?D ?ids (set [])"
    by (auto simp: in_degrees_pending [OF assms(1)] pending_zero ready_set_def)
  moreover have "distinct (filter (\<lambda>s. in_degrees subs s = 0) ?ids)" using graph.nodes_distinct [OF ok] by simp
  ultimately have r: "greedy ?D ?ids r" "ready_set ?D ?ids (set r) = {}"
    using graph.kahn_loop_ok [OF ok, of "in_degrees subs" "[]"] in_degrees_pending [OF assms(1)]
    by (simp_all add: r_def greedy_def)
  have dist: "distinct r" "set r \<subseteq> set ?ids" using greedy_distinct [OF r(1)] by simp_all
  have len: "length r = length ?ids \<longleftrightarrow> set r = set ?ids"
    using dist graph.nodes_distinct [OF ok] by (metis List.finite_set card_subset_eq distinct_card)
  have "acyclic (needs subs) \<longleftrightarrow> set r = set ?ids"
  proof
    assume "acyclic (needs subs)"
    then have "wf {(d, x). d \<in> set (?D x)}" using rel by (simp add: acyclic_needs_iff)
    then show "set r = set ?ids" using graph.stuck_complete [OF ok _ r(2)] dist(2) by blast
  next
    assume "set r = set ?ids"
    then have "wf {(d, x). d \<in> set (?D x)}"
      using greedy_wf [OF r(1)] graph.deps_outside [OF ok] by blast
    then show "acyclic (needs subs)" using rel by (simp add: acyclic_needs_iff)
  qed
  moreover have "topological_sort (mk_graph subs) = (if length r \<noteq> length ?ids then Inl CycleInSort else Inr r)"
    using check_missing_closed [of subs] assms(2) by (simp add: topological_sort_def r_def Let_def)
  moreover have "\<forall>i < length r. \<forall>d. (d, r ! i) \<in> needs subs \<longrightarrow> d \<in> set (take i r)"
  proof (intro allI impI)
    fix i d assume i: "i < length r" and d: "(d, r ! i) \<in> needs subs"
    have "set (?D (r ! i)) \<subseteq> set (take i r)" using r(1) i by (simp add: greedy_def ready_set_def)
    then show "d \<in> set (take i r)" using d D by blast
  qed
  moreover have "r ! i \<le> x" if "i < length r" "x \<in> sd_id ` set subs - set (take i r)"
      "\<forall>d. (d, x) \<in> needs subs \<longrightarrow> d \<in> set (take i r)" for i x
  proof -
    have "x \<in> ready_set ?D ?ids (set (take i r))" using that D by (auto simp: ready_set_def)
    then show ?thesis using r(1) that(1) by (simp add: greedy_def)
  qed
  ultimately show ?thesis using dist(1) len by auto
qed

theorem topological_sort_correct_witness: "\<exists>r. topological_sort (mk_graph diamond) = Inr r \<and> length r = 4"
proof -
  obtain r where "topological_sort (mk_graph diamond) = Inr r" "distinct r" "set r = sd_id ` set diamond"
    using topological_sort_correct [OF diamond_ok] diamond_acyclic by blast
  moreover from this have "length r = card (sd_id ` set diamond)" using distinct_card by metis
  ultimately show ?thesis by (simp add: diamond_def sample_subtask_def)
qed

text \<open>
  C10: on such a graph the parallel groups exist exactly when there is no cycle; they partition the
  subtasks, no group is empty, and each group is the sorted list of exactly those subtasks that are
  in no earlier group and whose dependencies all are in earlier groups.
\<close>

theorem parallel_groups_correct:
  assumes "unique_ids subs" and "closed subs"
  shows "(acyclic (needs subs) \<longrightarrow> (\<exists>gs. parallel_groups (mk_graph subs) = Inr gs \<and> distinct (concat gs) \<and>
      set (concat gs) = sd_id ` set subs \<and>
      (\<forall>i < length gs. gs ! i \<noteq> [] \<and> gs ! i = sorted_list_of_set
        {x \<in> sd_id ` set subs. x \<notin> set (concat (take i gs)) \<and> (\<forall>d. (d, x) \<in> needs subs \<longrightarrow> d \<in> set (concat (take i gs)))}))) \<and>
    (\<not> acyclic (needs subs) \<longrightarrow> parallel_groups (mk_graph subs) = Inl CycleInGroups)"
proof -
  let ?D = "deps_in (reverse_adjacency (mk_graph subs))" and ?ids = "List.map sd_id subs"
  have ok: "unique_ids subs \<and> closed subs" using assms by simp
  note rel = rel_graph' [OF assms(1)]
  have ready: "ready_set ?D ?ids P = {x \<in> sd_id ` set subs. x \<notin> P \<and> (\<forall>d. (d, x) \<in> needs subs \<longrightarrow> d \<in> P)}" for P
    using rel by (auto simp: ready_set_def)
  let ?out = "groups_loop (adjacency (mk_graph subs)) (in_degrees subs) ?ids []"
  have val: "parallel_groups (mk_graph subs) = ?out"
    using check_missing_closed [of subs] assms(2) graph.nodes_distinct [OF ok]
    by (simp add: parallel_groups_def distinct_remdups_id)
  have "(\<exists>gs. ?out = Inr gs \<and> layered ?D ?ids gs \<and> set ?ids \<subseteq> set (concat gs)) \<or>
      (?out = Inl CycleInGroups \<and> (\<exists>P. ready_set ?D ?ids P = {} \<and> \<not> set ?ids \<subseteq> P))"
    by (rule graph.groups_loop_ok [OF ok]) (simp_all add: in_degrees_pending [OF assms(1)] layered_def)
  then show ?thesis
  proof (elim disjE exE conjE)
    fix gs assume gs: "?out = Inr gs" "layered ?D ?ids gs" "set ?ids \<subseteq> set (concat gs)"
    note dist = layered_distinct [OF gs(2)]
    have "wf {(d, x). d \<in> set (?D x)}"
      using layered_wf [OF gs(2)] gs(3) graph.deps_outside [OF ok] by blast
    then show ?thesis using gs dist rel by (auto simp: val layered_def ready acyclic_needs_iff)
  next
    fix P assume "?out = Inl CycleInGroups" "ready_set ?D ?ids P = {}" "\<not> set ?ids \<subseteq> P"
    then show ?thesis using graph.stuck_complete [OF ok] rel by (auto simp: val acyclic_needs_iff)
  qed
qed

theorem parallel_groups_correct_witness:
  "\<exists>gs. parallel_groups (mk_graph diamond) = Inr gs \<and> set (concat gs) = {''a'', ''b'', ''c'', ''d''}"
  using parallel_groups_correct [OF diamond_ok] diamond_acyclic by (auto simp: diamond_def sample_subtask_def)

end
