(* ===== verification/Python_Text.thy ===== *)
theory Python_Text
  imports Prelude
begin

text \<open>
  Python's text operations on code points below 256: \<open>str.strip\<close>, case conversion as far as
  comparisons with ASCII words see it, formatting of numbers and \<open>repr\<close>, and the pieces of regular expressions that several components
  use (word characters, word boundaries, literals matched without case).
\<close>

subsection \<open>Characters\<close>

definition is_word :: "char \<Rightarrow> bool" where
  "is_word c \<longleftrightarrow> (let n = (of_char c :: nat) in
     48 \<le> n \<and> n \<le> 57 \<or> 65 \<le> n \<and> n \<le> 90 \<or> n = 95 \<or> 97 \<le> n \<and> n \<le> 122 \<or>
     n \<in> {170, 178, 179, 181, 185, 186, 188, 189, 190} \<or> 192 \<le> n \<and> n \<noteq> 215 \<and> n \<noteq> 247)"

definition is_digit :: "char \<Rightarrow> bool" where
  "is_digit c \<longleftrightarrow> (let n = (of_char c :: nat) in 48 \<le> n \<and> n \<le> 57)"

definition ascii_lower :: "char \<Rightarrow> char" where
  "ascii_lower c = (let n = (of_char c :: nat) in if 65 \<le> n \<and> n \<le> 90 then char_of (n + 32) else c)"

text \<open>\<open>str.casefold\<close>; the micro sign, whose folding leaves the range, is kept.\<close>

definition fold_char :: "char \<Rightarrow> string" where
  "fold_char c = (let n = (of_char c :: nat) in
     if 65 \<le> n \<and> n \<le> 90 \<or> 192 \<le> n \<and> n \<le> 222 \<and> n \<noteq> 215 then [char_of (n + 32)]
     else if n = 223 then ''ss'' else [c])"

definition casefold :: "string \<Rightarrow> string" where
  "casefold s = concat (List.map fold_char s)"

subsection \<open>Stripping\<close>

definition py_lstrip :: "string \<Rightarrow> string" where
  "py_lstrip s = dropWhile py_isspace s"

definition py_strip :: "string \<Rightarrow> string" where
  "py_strip s = rev (py_lstrip (rev (py_lstrip s)))"

subsection \<open>Matching\<close>

text \<open>\<open>\b\<close> between the character before a position and the rest of the text.\<close>

definition boundary :: "char option \<Rightarrow> string \<Rightarrow> bool" where
  "boundary prev rest \<longleftrightarrow>
     (case prev of None \<Rightarrow> False | Some c \<Rightarrow> is_word c) \<noteq> (case rest of [] \<Rightarrow> False | c # _ \<Rightarrow> is_word c)"

fun skip_lit :: "string \<Rightarrow> char option \<Rightarrow> string \<Rightarrow> (char option \<times> string) option" where
  "skip_lit [] prev rest = Some (prev, rest)"
| "skip_lit (l # ls) prev [] = None"
| "skip_lit (l # ls) prev (c # cs) = (if ascii_lower c = l then skip_lit ls (Some c) cs else None)"

text \<open>\<open>str.partition\<close>: the text before and after the first occurrence, \<open>None\<close> without one.\<close>

fun partition_at :: "string \<Rightarrow> string \<Rightarrow> (string \<times> string) option" where
  "partition_at sep [] = (if sep = [] then Some ([], []) else None)"
| "partition_at sep (c # cs) =
     (if take (length sep) (c # cs) = sep then Some ([], drop (length sep) (c # cs))
      else map_option (\<lambda>(a, b). (c # a, b)) (partition_at sep cs))"

text \<open>\<open>str.split(sep)\<close> on one character.\<close>

fun split_on :: "char \<Rightarrow> string \<Rightarrow> string list" where
  "split_on sep [] = [[]]"
| "split_on sep (c # cs) =
     (case split_on sep cs of
        [] \<Rightarrow> [[c]]
      | w # ws \<Rightarrow> if c = sep then [] # w # ws else (c # w) # ws)"

subsection \<open>Formatting\<close>

definition digit_char :: "nat \<Rightarrow> char" where
  "digit_char n = char_of (48 + n)"

fun decimal :: "nat \<Rightarrow> string" where
  "decimal n = (if n < 10 then [digit_char n] else decimal (n div 10) @ [digit_char (n mod 10)])"

declare decimal.simps [simp del]

definition py_str_int :: "int \<Rightarrow> string" where
  "py_str_int i = (if i < 0 then CHR ''-'' # decimal (nat (- i)) else decimal (nat i))"

text \<open>\<open>f"{x:.0f}"\<close>: the nearest integer, halves to the even one; the sign of the value is kept.\<close>

definition round_half_even :: "rat \<Rightarrow> int" where
  "round_half_even x = (let k = \<lfloor>x\<rfloor>; r = x - of_int k in
     if r < 1 / 2 then k else if r > 1 / 2 then k + 1 else if even k then k else k + 1)"

definition py_fmt0 :: "rat \<Rightarrow> string" where
  "py_fmt0 x = (if x < 0 then CHR ''-'' # decimal (nat (round_half_even (- x))) else decimal (nat (round_half_even x)))"

text \<open>
  \<open>repr\<close> of a string: single quotes unless only the double ones are free, backslash escapes, and two
  hexadecimal digits for characters that are not printable.
\<close>

definition repr_char :: "char \<Rightarrow> char \<Rightarrow> string" where
  "repr_char q c = (let n = (of_char c :: nat); hex = (\<lambda>k. (''0123456789abcdef'') ! k) in
     if c = q \<or> n = 92 then [CHR 0x5C, c]
     else if n = 9 then [CHR 0x5C, CHR ''t''] else if n = 10 then [CHR 0x5C, CHR ''n'']
     else if n = 13 then [CHR 0x5C, CHR ''r'']
     else if n < 32 \<or> 127 \<le> n \<and> n \<le> 160 \<or> n = 173 then [CHR 0x5C, CHR ''x'', hex (n div 16), hex (n mod 16)]
     else [c])"

definition py_repr :: "string \<Rightarrow> string" where
  "py_repr s = (let q = (if CHR 0x27 \<in> set s \<and> CHR 0x22 \<notin> set s then CHR 0x22 else CHR 0x27) in
     q # concat (List.map (repr_char q) s) @ [q])"

subsection \<open>Lemmas\<close>

lemma split_on_nonempty: "split_on sep s \<noteq> []"
  by (induction s) (auto split: list.splits)

lemma skip_lit_suffix: "skip_lit l prev rest = Some (p, r) \<Longrightarrow> length rest = length l + length r"
  by (induction l prev rest rule: skip_lit.induct) (auto split: if_splits)

lemma py_strip_Nil [simp]: "py_strip [] = []"
  by (simp add: py_strip_def py_lstrip_def)

lemma py_strip_spaces: "list_all py_isspace s \<Longrightarrow> py_strip s = []"
  by (auto simp: py_strip_def py_lstrip_def list_all_iff dropWhile_eq_Nil_conv dest: set_dropWhileD)

lemma py_lstrip_app: "list_all py_isspace a \<Longrightarrow> py_lstrip (a @ s) = py_lstrip s"
  by (induction a) (auto simp: py_lstrip_def)

lemma py_strip_pad:
  assumes "list_all py_isspace a" and "list_all py_isspace b" and "s \<noteq> []" and "\<not> py_isspace (hd s)" and "\<not> py_isspace (last s)"
  shows "py_strip (a @ s @ b) = s"
proof -
  have l: "py_lstrip (a @ s @ b) = s @ b" using assms(1,3,4) by (cases s) (auto simp: py_lstrip_app, simp add: py_lstrip_def)
  have r: "py_lstrip (rev b @ rev s) = rev s"
    using assms(2,3,5) by (cases "rev s") (auto simp: py_lstrip_app list_all_iff, auto simp: py_lstrip_def hd_rev dest: arg_cong [where f = hd])
  show ?thesis unfolding py_strip_def l by (simp add: r)
qed

lemma py_strip_id: "s \<noteq> [] \<Longrightarrow> \<not> py_isspace (hd s) \<Longrightarrow> \<not> py_isspace (last s) \<Longrightarrow> py_strip s = s"
  using py_strip_pad [of "[]" "[]" s] by simp

lemma not_blank_strip: "not_blank s \<longleftrightarrow> py_strip s \<noteq> []"
proof
  assume "not_blank s"
  then have "dropWhile py_isspace s \<noteq> []" by (auto simp: not_blank_def list_ex_iff dropWhile_eq_Nil_conv)
  then have "\<exists>c \<in> set (dropWhile py_isspace s). \<not> py_isspace c" using hd_dropWhile hd_in_set by blast
  then show "py_strip s \<noteq> []" by (auto simp: py_strip_def py_lstrip_def dropWhile_eq_Nil_conv)
next
  assume "py_strip s \<noteq> []"
  then show "not_blank s" using py_strip_spaces by (auto simp: not_blank_def list_ex_iff list_all_iff)
qed

subsection \<open>Joining\<close>

text \<open>\<open>sep.join(parts)\<close>.\<close>

fun py_join :: "string \<Rightarrow> string list \<Rightarrow> string" where
  "py_join sep [] = []"
| "py_join sep [x] = x"
| "py_join sep (x # xs) = x @ sep @ py_join sep xs"

end
