(* ===== verification/Decomposition.thy ===== *)
theory Decomposition
  imports Dependency_Graph Python_Text
begin

text \<open>
  Task decomposition, \<^verbatim>\<open>engine/decomposition/\<close>: the plan and result models with their validators,
  the manual strategy, the structure classifier, the service that turns a plan into child tasks,
  and the status rollup of a parent task.

  The strategy is an argument of the service, as in the code; the manual strategy is one. The
  regular expressions of the classifier are matched by an explicit matcher for the three kinds of
  pieces they use, on code points below 256.
\<close>

subsection \<open>Plans and results\<close>

definition valid_subtask :: "SubtaskDefinition \<Rightarrow> bool" where
  "valid_subtask s \<longleftrightarrow> not_blank (sd_id s) \<and> not_blank (sd_title s) \<and> not_blank (sd_description s) \<and>
     list_all not_blank (sd_dependencies s) \<and> list_all not_blank (sd_required_skills s) \<and>
     list_all not_blank (sd_required_tags s) \<and> opt_not_blank (sd_required_role s) \<and>
     sd_id s \<notin> set (sd_dependencies s)"

record DecompositionPlan =
  plan_parent_task_id :: string
  plan_subtasks :: "SubtaskDefinition list"
  plan_task_structure :: TaskStructure
  plan_coordination_topology :: CoordinationTopology

datatype plan_error = NoSubtasks | DuplicateSubtaskIds | UnknownReferences string "string list"

fun first_unknown :: "string set \<Rightarrow> SubtaskDefinition list \<Rightarrow> plan_error option" where
  "first_unknown ids [] = None"
| "first_unknown ids (s # ss) =
     (let missing = filter (\<lambda>d. d \<notin> ids) (sd_dependencies s) in
      if missing \<noteq> [] then Some (UnknownReferences (sd_id s) missing) else first_unknown ids ss)"

definition validate_subtasks :: "DecompositionPlan \<Rightarrow> plan_error option" where
  "validate_subtasks p =
     (let subs = plan_subtasks p; ids = List.map sd_id subs in
      if subs = [] then Some NoSubtasks
      else if length ids \<noteq> card (set ids) then Some DuplicateSubtaskIds
      else first_unknown (set ids) subs)"

definition valid_plan :: "DecompositionPlan \<Rightarrow> bool" where
  "valid_plan p \<longleftrightarrow> not_blank (plan_parent_task_id p) \<and> list_all valid_subtask (plan_subtasks p) \<and>
     validate_subtasks p = None"

record DecompositionContext =
  max_subtasks :: int
  max_depth :: int
  current_depth :: int

definition valid_context :: "DecompositionContext \<Rightarrow> bool" where
  "valid_context c \<longleftrightarrow> 1 \<le> max_subtasks c \<and> 1 \<le> max_depth c \<and> 0 \<le> current_depth c"

record DecompositionResult =
  res_plan :: DecompositionPlan
  res_created_tasks :: "Task list"
  res_dependency_edges :: "(string \<times> string) list"

datatype result_error = TaskCountMismatch | TaskIdMismatch | UnknownEdgeIds

definition validate_plan_task_consistency :: "DecompositionResult \<Rightarrow> result_error option" where
  "validate_plan_task_consistency r =
     (let task_ids = t_id ` set (res_created_tasks r); plan_ids = sd_id ` set (plan_subtasks (res_plan r)) in
      first_error
        [(length (res_created_tasks r) \<noteq> length (plan_subtasks (res_plan r)), TaskCountMismatch),
         (task_ids \<noteq> plan_ids, TaskIdMismatch),
         (\<not> (\<Union>(a, b) \<in> set (res_dependency_edges r). {a, b}) \<subseteq> task_ids, UnknownEdgeIds)])"

subsection \<open>Manual strategy\<close>

datatype strategy_error =
    ParentMismatch string string
  | DepthExceeded int int
  | TooManySubtasks nat int
  | StrategyFailed

definition manual_decompose :: "DecompositionPlan \<Rightarrow> Task \<Rightarrow> DecompositionContext \<Rightarrow> strategy_error + DecompositionPlan" where
  "manual_decompose plan task ctx =
     (if plan_parent_task_id plan \<noteq> t_id task then Inl (ParentMismatch (plan_parent_task_id plan) (t_id task))
      else if current_depth ctx \<ge> max_depth ctx then Inl (DepthExceeded (current_depth ctx) (max_depth ctx))
      else if int (length (plan_subtasks plan)) > max_subtasks ctx
           then Inl (TooManySubtasks (length (plan_subtasks plan)) (max_subtasks ctx))
      else Inr plan)"

subsection \<open>Structure classifier\<close>

text \<open>
  The pieces of the patterns: a literal matched without case, \<open>\s+\<close>, \<open>\d+\<close> and \<open>\b\<close>. No piece
  after \<open>\s+\<close> starts with white space, so matching it greedily is exact.
\<close>

datatype piece = Lit string | Spaces | Digits | Boundary

fun skip_while :: "(char \<Rightarrow> bool) \<Rightarrow> char option \<Rightarrow> string \<Rightarrow> char option \<times> string" where
  "skip_while P prev [] = (prev, [])"
| "skip_while P prev (c # cs) = (if P c then skip_while P (Some c) cs else (prev, c # cs))"

definition skip_some :: "(char \<Rightarrow> bool) \<Rightarrow> string \<Rightarrow> (char option \<times> string) option" where
  "skip_some P rest = (case rest of
     [] \<Rightarrow> None
   | c # cs \<Rightarrow> if P c then Some (skip_while P (Some c) cs) else None)"

fun match_here :: "piece list \<Rightarrow> char option \<Rightarrow> string \<Rightarrow> bool" where
  "match_here [] prev rest = True"
| "match_here (Boundary # ps) prev rest = (boundary prev rest \<and> match_here ps prev rest)"
| "match_here (Lit l # ps) prev rest = (case skip_lit l prev rest of None \<Rightarrow> False | Some (p, r) \<Rightarrow> match_here ps p r)"
| "match_here (Spaces # ps) prev rest = (case skip_some py_isspace rest of None \<Rightarrow> False | Some (p, r) \<Rightarrow> match_here ps p r)"
| "match_here (Digits # ps) prev rest = (case skip_some is_digit rest of None \<Rightarrow> False | Some (p, r) \<Rightarrow> match_here ps p r)"

fun search_from :: "piece list \<Rightarrow> char option \<Rightarrow> string \<Rightarrow> bool" where
  "search_from ps prev [] = match_here ps prev []"
| "search_from ps prev (c # cs) = (match_here ps prev (c # cs) \<or> search_from ps (Some c) cs)"

definition pattern_search :: "piece list \<Rightarrow> string \<Rightarrow> bool" where
  "pattern_search ps text = search_from ps None text"

definition SEQUENTIAL_PATTERNS :: "piece list list" where
  "SEQUENTIAL_PATTERNS =
     [[Boundary, Lit ''then'', Boundary], [Boundary, Lit ''after'', Boundary], [Boundary, Lit ''before'', Boundary],
      [Boundary, Lit ''first'', Boundary], [Boundary, Lit ''next'', Boundary], [Boundary, Lit ''finally'', Boundary],
      [Boundary, Lit ''step'', Spaces, Digits], [Boundary, Lit ''phase'', Spaces, Digits]]"

definition PARALLEL_PATTERNS :: "piece list list" where
  "PARALLEL_PATTERNS =
     [[Boundary, Lit ''independently'', Boundary], [Boundary, Lit ''in'', Spaces, Lit ''parallel'', Boundary],
      [Boundary, Lit ''concurrently'', Boundary], [Boundary, Lit ''simultaneously'', Boundary],
      [Boundary, Lit ''separately'', Boundary]]"

definition ARTIFACT_COUNT_THRESHOLD :: nat where
  "ARTIFACT_COUNT_THRESHOLD = 4"

definition score_language :: "piece list list \<Rightarrow> Task \<Rightarrow> int" where
  "score_language pats t =
     (let texts = (t_title t @ '' '' @ t_description t) # List.map ac_description (t_acceptance_criteria t) in
      (\<Sum>text \<leftarrow> texts. int (length (filter (\<lambda>p. pattern_search p text) pats))))"

definition score_structural_sequential :: "Task \<Rightarrow> int" where
  "score_structural_sequential t =
     (if length (t_artifacts_expected t) \<le> ARTIFACT_COUNT_THRESHOLD then 1 else 0) +
     (if t_dependencies t \<noteq> [] then 1 else 0)"

definition score_structural_parallel :: "Task \<Rightarrow> int" where
  "score_structural_parallel t =
     (if length (t_artifacts_expected t) > ARTIFACT_COUNT_THRESHOLD then 1 else 0) +
     (if t_dependencies t = [] then 1 else 0)"

definition classify :: "Task \<Rightarrow> TaskStructure" where
  "classify t = (case t_task_structure t of
     Some s \<Rightarrow> s
   | None \<Rightarrow>
       let seq_language = score_language SEQUENTIAL_PATTERNS t;
           par_language = score_language PARALLEL_PATTERNS t;
           sequential_score = seq_language + score_structural_sequential t;
           parallel_score = par_language + score_structural_parallel t in
       if seq_language > 0 \<and> par_language > 0 then MIXED
       else if parallel_score > sequential_score then PARALLEL
       else if sequential_score > 0 then SEQUENTIAL
       else SEQUENTIAL)"

subsection \<open>Service\<close>

datatype decompose_error =
    StrategyError strategy_error
  | GraphError decomposition_error
  | ChildInvalid task_error
  | ResultInvalid result_error

definition child_task :: "Task \<Rightarrow> SubtaskDefinition \<Rightarrow> Task" where
  "child_task task s =
     \<lparr>t_id = sd_id s, t_title = sd_title s, t_description = sd_description s, t_type = t_type task,
      t_priority = t_priority task, t_project = t_project task, t_created_by = t_created_by task,
      t_assigned_to = None, t_reviewers = [], t_dependencies = sd_dependencies s, t_artifacts_expected = [],
      t_acceptance_criteria = [], t_estimated_complexity = sd_estimated_complexity s, t_budget_limit = 0,
      t_deadline = None, t_max_retries = 1, t_status = CREATED, t_parent_task_id = Some (t_id task),
      t_delegation_chain = t_delegation_chain task, t_task_structure = None, t_coordination_topology = AUTO,
      t_source = None, t_middleware_override = None, t_metadata = []\<rparr>"

fun create_children :: "(string \<Rightarrow> bool) \<Rightarrow> Task \<Rightarrow> SubtaskDefinition list \<Rightarrow> task_error + Task list" where
  "create_children isofmt task [] = Inr []"
| "create_children isofmt task (s # ss) =
     rbind (model_validate isofmt (child_task task s)) (\<lambda>t.
     rbind (create_children isofmt task ss) (\<lambda>ts. Inr (t # ts)))"

definition dependency_edges_of :: "SubtaskDefinition list \<Rightarrow> (string \<times> string) list" where
  "dependency_edges_of subs = [(dep, sd_id s). s \<leftarrow> subs, dep \<leftarrow> sd_dependencies s]"

definition decompose_task ::
  "(string \<Rightarrow> bool) \<Rightarrow> (Task \<Rightarrow> DecompositionContext \<Rightarrow> strategy_error + DecompositionPlan) \<Rightarrow> Task \<Rightarrow>
     DecompositionContext \<Rightarrow> (decompose_error + DecompositionResult) option" where
  "decompose_task isofmt strategy task ctx =
     (let structure = classify task in
      case strategy task ctx of
        Inl e \<Rightarrow> Some (Inl (StrategyError e))
      | Inr plan0 \<Rightarrow>
          let plan = (if plan_task_structure plan0 \<noteq> structure then plan0\<lparr>plan_task_structure := structure\<rparr> else plan0) in
          Option.bind (validate_graph (mk_graph (plan_subtasks plan))) (\<lambda>r. case r of
            Inl e \<Rightarrow> Some (Inl (GraphError e))
          | Inr _ \<Rightarrow>
              (case create_children isofmt task (plan_subtasks plan) of
                 Inl e \<Rightarrow> Some (Inl (ChildInvalid e))
               | Inr ts \<Rightarrow>
                   let result = \<lparr>res_plan = plan, res_created_tasks = ts,
                                 res_dependency_edges = dependency_edges_of (plan_subtasks plan)\<rparr> in
                   (case validate_plan_task_consistency result of
                      Some e \<Rightarrow> Some (Inl (ResultInvalid e))
                    | None \<Rightarrow> Some (Inr result)))))"

subsection \<open>Status rollup\<close>

record SubtaskStatusRollup =
  ru_parent_task_id :: string
  ru_total :: int
  ru_completed :: int
  ru_failed :: int
  ru_in_progress :: int
  ru_blocked :: int
  ru_cancelled :: int
  ru_suspended :: int

definition validate_counts :: "SubtaskStatusRollup \<Rightarrow> bool" where
  "validate_counts r \<longleftrightarrow> \<not> ru_completed r + ru_failed r + ru_in_progress r + ru_blocked r + ru_cancelled r + ru_suspended r
     > ru_total r"

definition derived_parent_status :: "SubtaskStatusRollup \<Rightarrow> TaskStatus" where
  "derived_parent_status r =
     (if ru_total r = 0 then CREATED
      else if ru_completed r = ru_total r then COMPLETED
      else if ru_cancelled r = ru_total r then CANCELLED
      else if ru_failed r > 0 then FAILED
      else if ru_in_progress r > 0 then IN_PROGRESS
      else if ru_blocked r > 0 then BLOCKED
      else if ru_suspended r > 0 then SUSPENDED
      else if ru_completed r + ru_cancelled r = ru_total r then CANCELLED
      else IN_PROGRESS)"

definition rollup_compute :: "string \<Rightarrow> TaskStatus list \<Rightarrow> SubtaskStatusRollup option" where
  "rollup_compute parent statuses =
     (let total = length statuses;
          r = (if total = 0
               then \<lparr>ru_parent_task_id = parent, ru_total = 0, ru_completed = 0, ru_failed = 0, ru_in_progress = 0,
                     ru_blocked = 0, ru_cancelled = 0, ru_suspended = 0\<rparr>
               else \<lparr>ru_parent_task_id = parent, ru_total = int total,
                     ru_completed = int (count_list statuses COMPLETED), ru_failed = int (count_list statuses FAILED),
                     ru_in_progress = int (count_list statuses IN_PROGRESS), ru_blocked = int (count_list statuses BLOCKED),
                     ru_cancelled = int (count_list statuses CANCELLED), ru_suspended = int (count_list statuses SUSPENDED)\<rparr>) in
      if not_blank parent \<and> validate_counts r then Some r else None)"

subsection \<open>Lemmas\<close>

lemma count_list_all: "count_list xs x = length xs \<longleftrightarrow> set xs \<subseteq> {x}"
  using count_le_length [of _ x] by (induction xs) (auto simp: le_Suc_eq, metis Suc_n_not_le_n)

lemma count_list_two:
  assumes "a \<noteq> b"
  shows "count_list xs a + count_list xs b = length xs \<longleftrightarrow> set xs \<subseteq> {a, b}"
proof -
  have le: "count_list ys a + count_list ys b \<le> length ys" for ys
    using assms by (induction ys) auto
  show ?thesis
  proof (induction xs)
    case (Cons x xs)
    then show ?case using assms le [of xs] by auto
  qed simp
qed

lemma first_unknown_None: "first_unknown ids subs = None \<longleftrightarrow> (\<forall>s \<in> set subs. set (sd_dependencies s) \<subseteq> ids)"
  by (induction subs) (auto simp: Let_def filter_empty_conv)

lemma validate_subtasks_None:
  "validate_subtasks p = None \<longleftrightarrow>
     plan_subtasks p \<noteq> [] \<and> unique_ids (plan_subtasks p) \<and> closed (plan_subtasks p)"
  by (auto simp: validate_subtasks_def Let_def first_unknown_None unique_ids_def closed_def
      simp flip: length_eq_card_iff)

lemma child_task_valid_iff:
  assumes "valid_task isofmt task" and "valid_subtask s"
  shows "valid_task isofmt (child_task task s) \<longleftrightarrow> distinct (sd_dependencies s) \<and> sd_id s \<noteq> t_id task"
  using assms
  by (auto simp: valid_task_def field_constraints_def child_task_def valid_subtask_def requires_assignee_def)

lemma create_children_Inr:
  "create_children isofmt task subs = Inr ts \<longleftrightarrow>
     ts = List.map (child_task task) subs \<and> (\<forall>s \<in> set subs. valid_task isofmt (child_task task s))"
  by (induction subs arbitrary: ts) (auto simp: rbind_eq_Inr model_validate_Inr)

lemma edges_needs: "set (dependency_edges_of subs) = needs subs"
  by (auto simp: dependency_edges_of_def needs_def)

lemma result_consistent:
  "plan_subtasks plan = subs \<Longrightarrow> closed subs \<Longrightarrow> validate_plan_task_consistency
     \<lparr>res_plan = plan, res_created_tasks = List.map (child_task task) subs,
      res_dependency_edges = dependency_edges_of subs\<rparr> = None"
  by (force simp: validate_plan_task_consistency_def Let_def edges_needs needs_def closed_def child_task_def image_image)

lemma decompose_success:
  assumes "decompose_task isofmt strategy task ctx = Some (Inr res)" and "strategy task ctx = Inr plan"
  shows "res_created_tasks res = List.map (child_task task) (plan_subtasks plan)"
    and "list_all (valid_task isofmt) (res_created_tasks res)"
proof -
  obtain v where v: "validate_graph (mk_graph (plan_subtasks plan)) = Some v"
    using assms by (auto simp: decompose_task_def Let_def bind_eq_Some_conv split: if_splits)
  obtain u where u: "v = Inr u" using assms v by (cases v) (auto simp: decompose_task_def Let_def split: if_splits)
  obtain ts where ts: "create_children isofmt task (plan_subtasks plan) = Inr ts"
    using assms v u by (cases "create_children isofmt task (plan_subtasks plan)")
      (auto simp: decompose_task_def Let_def split: if_splits)
  have "res_created_tasks res = ts"
    using assms v u ts by (auto simp: decompose_task_def Let_def split: if_splits option.splits)
  then show "res_created_tasks res = List.map (child_task task) (plan_subtasks plan)"
    and "list_all (valid_task isofmt) (res_created_tasks res)"
    using ts by (auto simp: create_children_Inr list_all_iff)
qed

lemma decompose_result:
  assumes "valid_task isofmt task" and "strategy task ctx = Inr plan" and "valid_plan plan"
  shows "\<exists>r. decompose_task isofmt strategy task ctx = Some r \<and>
    (is_ok r \<longleftrightarrow> acyclic (needs (plan_subtasks plan)) \<and>
       (\<forall>s \<in> set (plan_subtasks plan). distinct (sd_dependencies s) \<and> sd_id s \<noteq> t_id task)) \<and>
    (\<forall>res. r = Inr res \<longrightarrow>
       res_created_tasks res = List.map (child_task task) (plan_subtasks plan) \<and>
       (\<forall>t \<in> set (res_created_tasks res). valid_task isofmt t \<and> t_parent_task_id t = Some (t_id task)) \<and>
       set (res_dependency_edges res) = needs (plan_subtasks plan) \<and>
       plan_task_structure (res_plan res) = classify task)"
proof -
  let ?subs = "plan_subtasks plan"
  let ?plan = "if plan_task_structure plan \<noteq> classify task then plan\<lparr>plan_task_structure := classify task\<rparr> else plan"
  have ok: "unique_ids ?subs" "closed ?subs" using assms(3) by (simp_all add: valid_plan_def validate_subtasks_None)
  have child: "valid_task isofmt (child_task task s) \<longleftrightarrow> distinct (sd_dependencies s) \<and> sd_id s \<noteq> t_id task"
    if "s \<in> set ?subs" for s
    using that child_task_valid_iff [OF assms(1)] assms(3) by (auto simp: valid_plan_def list_all_iff)
  have p: "plan_subtasks ?plan = ?subs" "plan_task_structure ?plan = classify task" by simp_all
  obtain v where v: "validate_graph (mk_graph ?subs) = Some v" "v = Inr () \<longleftrightarrow> acyclic (needs ?subs)"
    using validate_graph_outcome [OF ok] by blast
  show ?thesis
  proof (cases v)
    case (Inl e)
    then show ?thesis using v assms(2) by (simp add: decompose_task_def Let_def p)
  next
    case (Inr u)
    then have ac: "acyclic (needs ?subs)" using v by simp
    show ?thesis
    proof (cases "create_children isofmt task ?subs")
      case (Inl e)
      then have "\<not> (\<forall>s \<in> set ?subs. valid_task isofmt (child_task task s))"
        using create_children_Inr [of isofmt task ?subs] by force
      then have "\<not> (\<forall>s \<in> set ?subs. distinct (sd_dependencies s) \<and> sd_id s \<noteq> t_id task)" using child by blast
      then show ?thesis using Inl Inr v assms(2) by (simp add: decompose_task_def Let_def p)
    next
      case (Inr ts)
      then have ts: "ts = List.map (child_task task) ?subs" "\<forall>s \<in> set ?subs. valid_task isofmt (child_task task s)"
        by (simp_all add: create_children_Inr)
      let ?res = "\<lparr>res_plan = ?plan, res_created_tasks = ts, res_dependency_edges = dependency_edges_of ?subs\<rparr>"
      have "validate_plan_task_consistency ?res = None"
        using result_consistent [OF p(1) ok(2), of task] unfolding ts(1) .
      then have "decompose_task isofmt strategy task ctx = Some (Inr ?res)"
        using Inr \<open>v = Inr u\<close> v(1) assms(2) by (simp add: decompose_task_def Let_def p)
      then show ?thesis using ac ts child by (auto simp: edges_needs child_task_def)
    qed
  qed
qed

subsection \<open>Properties\<close>

text \<open>
  Decomposing a valid task by a valid plan always returns. It succeeds exactly when the
  dependencies have no cycle, no subtask lists a dependency twice and no subtask has the id of the
  parent; then there is one valid child task per subtask, in order and linked to the parent, the
  edges are exactly the dependencies, and the plan carries the structure of the classifier.
\<close>

theorem decompose_outcome:
  assumes "valid_task isofmt task" and "strategy task ctx = Inr plan" and "valid_plan plan"
  shows "\<exists>r. decompose_task isofmt strategy task ctx = Some r \<and>
    (is_ok r \<longleftrightarrow> acyclic (needs (plan_subtasks plan)) \<and>
       (\<forall>s \<in> set (plan_subtasks plan). distinct (sd_dependencies s) \<and> sd_id s \<noteq> t_id task)) \<and>
    (\<forall>res. r = Inr res \<longrightarrow>
       res_created_tasks res = List.map (child_task task) (plan_subtasks plan) \<and>
       (\<forall>t \<in> set (res_created_tasks res). valid_task isofmt t \<and> t_parent_task_id t = Some (t_id task)) \<and>
       set (res_dependency_edges res) = needs (plan_subtasks plan) \<and>
       plan_task_structure (res_plan res) = classify task)"
  by (rule decompose_result) (rule assms)+

definition sample_plan :: DecompositionPlan where
  "sample_plan = \<lparr>plan_parent_task_id = ''task-1'', plan_subtasks = diamond, plan_task_structure = PARALLEL,
     plan_coordination_topology = AUTO\<rparr>"

definition sample_context :: DecompositionContext where
  "sample_context = \<lparr>max_subtasks = 10, max_depth = 3, current_depth = 0\<rparr>"

lemma sample_plan_valid: "valid_plan sample_plan"
  by (simp add: valid_plan_def sample_plan_def validate_subtasks_None diamond_ok)
    (simp add: diamond_def sample_subtask_def valid_subtask_def not_blank_def py_isspace_def)

lemma sample_manual: "manual_decompose sample_plan sample_task sample_context = Inr sample_plan"
  by (simp add: manual_decompose_def sample_plan_def sample_task_def sample_context_def diamond_def)

lemma sample_decomposes:
  "\<exists>res. decompose_task (\<lambda>_. True) (manual_decompose sample_plan) sample_task sample_context = Some (Inr res)"
proof -
  obtain r where r: "decompose_task (\<lambda>_. True) (manual_decompose sample_plan) sample_task sample_context = Some r"
    "is_ok r \<longleftrightarrow> acyclic (needs (plan_subtasks sample_plan)) \<and>
       (\<forall>s \<in> set (plan_subtasks sample_plan). distinct (sd_dependencies s) \<and> sd_id s \<noteq> t_id sample_task)"
    using decompose_result [where strategy = "manual_decompose sample_plan" and isofmt = "\<lambda>_. True",
        OF sample_task_valid sample_manual sample_plan_valid] by metis
  have "is_ok r"
    using r(2) diamond_acyclic by (simp add: sample_plan_def sample_task_def) (simp add: diamond_def sample_subtask_def)
  then obtain res where "r = Inr res" by (rule is_okE)
  then show ?thesis using r(1) by simp
qed

theorem decompose_outcome_witness:
  "\<exists>res. decompose_task (\<lambda>_. True) (manual_decompose sample_plan) sample_task sample_context = Some (Inr res) \<and>
     List.map t_id (res_created_tasks res) = [''d'', ''c'', ''b'', ''a'']"
proof -
  obtain res where res: "decompose_task (\<lambda>_. True) (manual_decompose sample_plan) sample_task sample_context = Some (Inr res)"
    using sample_decomposes by blast
  have "res_created_tasks res = List.map (child_task sample_task) (plan_subtasks sample_plan)"
    using decompose_outcome [where strategy = "manual_decompose sample_plan" and isofmt = "\<lambda>_. True",
        OF sample_task_valid sample_manual sample_plan_valid] res by auto
  then show ?thesis
    using res by (simp add: sample_plan_def diamond_def sample_subtask_def child_task_def)
qed

text \<open>
  The rollup of any list of statuses is well-formed, and the parent status it derives is
  COMPLETED exactly when all subtasks are, a terminal status exactly when all subtasks are completed
  or cancelled, and FAILED as soon as one subtask failed (unless all completed or all cancelled). A
  rejected subtask keeps the parent IN_PROGRESS although every subtask is terminal.
\<close>

theorem rollup_derived_status:
  assumes "not_blank parent" and "ss \<noteq> []"
  shows "\<exists>r. rollup_compute parent ss = Some r \<and>
    (derived_parent_status r = COMPLETED \<longleftrightarrow> set ss = {COMPLETED}) \<and>
    (sm_is_terminal task_machine (derived_parent_status r) \<longleftrightarrow> set ss \<subseteq> {COMPLETED, CANCELLED}) \<and>
    (derived_parent_status r = FAILED \<longleftrightarrow> FAILED \<in> set ss) \<and>
    (REJECTED \<in> set ss \<and> set ss \<subseteq> {COMPLETED, CANCELLED, REJECTED} \<longrightarrow> derived_parent_status r = IN_PROGRESS)"
proof -
  let ?n = "\<lambda>x. count_list ss x"
  have sum: "?n COMPLETED + ?n FAILED + ?n IN_PROGRESS + ?n BLOCKED + ?n CANCELLED + ?n SUSPENDED \<le> length ss"
    by (induction ss) auto
  have one: "?n x = length ss \<longleftrightarrow> set ss = {x}" for x
    using count_list_all [of ss x] assms(2) by (simp add: subset_singleton_iff)
  have two: "?n COMPLETED + ?n CANCELLED = length ss \<longleftrightarrow> set ss \<subseteq> {COMPLETED, CANCELLED}"
    by (rule count_list_two) simp
  have pos: "0 < ?n x \<longleftrightarrow> x \<in> set ss" for x by (metis bot_nat_0.not_eq_extremum count_list_0_iff)
  obtain r where r: "rollup_compute parent ss = Some r" "ru_total r = int (length ss)" "ru_completed r = int (?n COMPLETED)"
    "ru_failed r = int (?n FAILED)" "ru_in_progress r = int (?n IN_PROGRESS)" "ru_blocked r = int (?n BLOCKED)"
    "ru_cancelled r = int (?n CANCELLED)" "ru_suspended r = int (?n SUSPENDED)"
    using assms sum by (simp add: rollup_compute_def validate_counts_def Let_def)
  have two': "int (?n COMPLETED) + int (?n CANCELLED) = int (length ss) \<longleftrightarrow> set ss \<subseteq> {COMPLETED, CANCELLED}"
    using two by linarith
  have d: "derived_parent_status r =
      (if set ss = {COMPLETED} then COMPLETED else if set ss = {CANCELLED} then CANCELLED
       else if FAILED \<in> set ss then FAILED else if IN_PROGRESS \<in> set ss then IN_PROGRESS
       else if BLOCKED \<in> set ss then BLOCKED else if SUSPENDED \<in> set ss then SUSPENDED
       else if set ss \<subseteq> {COMPLETED, CANCELLED} then CANCELLED else IN_PROGRESS)"
    unfolding derived_parent_status_def r(2-8) two' of_nat_eq_iff one of_nat_0_less_iff pos using assms(2) by simp
  show ?thesis
    using r(1) by (intro exI [of _ r]) (auto simp: d task_terminal_iff)
qed

theorem rollup_derived_status_witness:
  "\<exists>r. rollup_compute ''p'' [COMPLETED, REJECTED] = Some r \<and> derived_parent_status r = IN_PROGRESS"
  using rollup_derived_status [of "''p''" "[COMPLETED, REJECTED]"] by (auto simp: not_blank_def py_isspace_def)

end
