(* ===== verification/Workflow.thy ===== *)
theory Workflow
  imports Task_Model
begin

text \<open>
  The workflow layers on top of the task lifecycle, \<^verbatim>\<open>engine/workflow/\<close>: Kanban columns with their
  bridge to task statuses and the work-in-progress limits (\<^verbatim>\<open>kanban_columns.py\<close>,
  \<^verbatim>\<open>kanban_board.py\<close>), and sprints with lifecycle, backlog and velocity (\<^verbatim>\<open>sprint_lifecycle.py\<close>,
  \<^verbatim>\<open>sprint_backlog.py\<close>, \<^verbatim>\<open>sprint_velocity.py\<close>).

  Both lifecycles are instances of the generic state machine. \<open>model_copy(update=...)\<close> does not run
  the validators of a model, so it is a plain record update here. \<open>datetime.fromisoformat\<close> is the
  argument \<open>iso_time\<close>, which gives the instant of a well-formed string.
\<close>

subsection \<open>Kanban columns\<close>

datatype KanbanColumn = BACKLOG | READY | IN_PROGRESS_COLUMN | REVIEW | DONE

definition COLUMN_TO_STATUSES :: "(KanbanColumn, TaskStatus set) dict" where
  "COLUMN_TO_STATUSES =
     [(BACKLOG, {CREATED}), (READY, {ASSIGNED}), (IN_PROGRESS_COLUMN, {IN_PROGRESS}), (REVIEW, {IN_REVIEW}),
      (DONE, {COMPLETED})]"

definition STATUS_TO_COLUMN :: "(TaskStatus, KanbanColumn option) dict" where
  "STATUS_TO_COLUMN =
     [(CREATED, Some BACKLOG), (ASSIGNED, Some READY), (IN_PROGRESS, Some IN_PROGRESS_COLUMN),
      (IN_REVIEW, Some REVIEW), (COMPLETED, Some DONE), (BLOCKED, None), (FAILED, None), (INTERRUPTED, None),
      (SUSPENDED, None), (CANCELLED, None), (REJECTED, None), (AUTH_REQUIRED, None)]"

definition VALID_COLUMN_TRANSITIONS :: "(KanbanColumn, KanbanColumn set) dict" where
  "VALID_COLUMN_TRANSITIONS =
     [(BACKLOG, {READY, DONE}), (READY, {IN_PROGRESS_COLUMN, BACKLOG}),
      (IN_PROGRESS_COLUMN, {REVIEW, BACKLOG, READY}), (REVIEW, {DONE, IN_PROGRESS_COLUMN}), (DONE, {})]"

definition column_machine :: "KanbanColumn machine" where
  "column_machine = \<lparr>transitions = VALID_COLUMN_TRANSITIONS, m_name = ''kanban_column'', display_label = ''Kanban column''\<rparr>"

definition COLUMN_MOVE_STATUS_PATH :: "(KanbanColumn \<times> KanbanColumn, TaskStatus list) dict" where
  "COLUMN_MOVE_STATUS_PATH =
     [((BACKLOG, READY), [ASSIGNED]),
      ((BACKLOG, DONE), [ASSIGNED, IN_PROGRESS, IN_REVIEW, COMPLETED]),
      ((READY, IN_PROGRESS_COLUMN), [IN_PROGRESS]),
      ((READY, BACKLOG), [BLOCKED, ASSIGNED, BLOCKED]),
      ((IN_PROGRESS_COLUMN, REVIEW), [IN_REVIEW]),
      ((IN_PROGRESS_COLUMN, BACKLOG), [BLOCKED, ASSIGNED, BLOCKED]),
      ((IN_PROGRESS_COLUMN, READY), [BLOCKED, ASSIGNED]),
      ((REVIEW, DONE), [COMPLETED]),
      ((REVIEW, IN_PROGRESS_COLUMN), [IN_PROGRESS])]"

definition validate_column_transition :: "KanbanColumn \<Rightarrow> KanbanColumn \<Rightarrow> KanbanColumn sm_error + unit" where
  "validate_column_transition current target = sm_validate column_machine current target"

datatype path_error = NoStatusPath KanbanColumn KanbanColumn

definition resolve_task_transitions :: "KanbanColumn \<Rightarrow> KanbanColumn \<Rightarrow> path_error + TaskStatus list" where
  "resolve_task_transitions from_column to_column =
     (case dget COLUMN_MOVE_STATUS_PATH (from_column, to_column) of
        None \<Rightarrow> Inl (NoStatusPath from_column to_column)
      | Some path \<Rightarrow> Inr path)"

subsection \<open>Work-in-progress limits\<close>

record KanbanWipLimit =
  wl_column :: KanbanColumn
  wl_limit :: int

record KanbanConfig =
  wip_limits :: "KanbanWipLimit list"
  enforce_wip :: bool

definition valid_kanban_config :: "KanbanConfig \<Rightarrow> bool" where
  "valid_kanban_config c \<longleftrightarrow>
     list_all (\<lambda>w. 1 \<le> wl_limit w \<and> wl_limit w \<le> 100) (wip_limits c) \<and>
     distinct (List.map wl_column (wip_limits c)) \<and> list_all (\<lambda>w. wl_column w \<noteq> DONE) (wip_limits c)"

record WipCheckResult =
  wip_allowed :: bool
  wip_column :: KanbanColumn
  wip_current_count :: int
  wip_limit :: "int option"

fun find_column_limit :: "KanbanWipLimit list \<Rightarrow> KanbanColumn \<Rightarrow> int option" where
  "find_column_limit [] c = None"
| "find_column_limit (w # ws) c = (if wl_column w = c then Some (wl_limit w) else find_column_limit ws c)"

definition check_wip_limit :: "KanbanConfig \<Rightarrow> KanbanColumn \<Rightarrow> (KanbanColumn, int) dict \<Rightarrow> WipCheckResult" where
  "check_wip_limit c target counts =
     (let current = dget_or counts target 0 in
      case find_column_limit (wip_limits c) target of
        None \<Rightarrow> \<lparr>wip_allowed = True, wip_column = target, wip_current_count = current, wip_limit = None\<rparr>
      | Some l \<Rightarrow>
          let new_count = current + 1 in
          if new_count > l \<and> enforce_wip c
          then \<lparr>wip_allowed = False, wip_column = target, wip_current_count = current, wip_limit = Some l\<rparr>
          else \<lparr>wip_allowed = True, wip_column = target, wip_current_count = current, wip_limit = Some l\<rparr>)"

subsection \<open>Sprints\<close>

datatype SprintStatus = PLANNING | ACTIVE | SPRINT_IN_REVIEW | RETROSPECTIVE | SPRINT_COMPLETED

definition VALID_SPRINT_TRANSITIONS :: "(SprintStatus, SprintStatus set) dict" where
  "VALID_SPRINT_TRANSITIONS =
     [(PLANNING, {ACTIVE}), (ACTIVE, {SPRINT_IN_REVIEW}), (SPRINT_IN_REVIEW, {RETROSPECTIVE}),
      (RETROSPECTIVE, {SPRINT_COMPLETED}), (SPRINT_COMPLETED, {})]"

definition sprint_machine :: "SprintStatus machine" where
  "sprint_machine = \<lparr>transitions = VALID_SPRINT_TRANSITIONS, m_name = ''sprint_lifecycle'', display_label = ''sprint''\<rparr>"

definition validate_sprint_transition :: "SprintStatus \<Rightarrow> SprintStatus \<Rightarrow> SprintStatus sm_error + unit" where
  "validate_sprint_transition current target = sm_validate sprint_machine current target"

record Sprint =
  sp_id :: string
  sp_name :: string
  sp_goal :: string
  sp_status :: SprintStatus
  sp_number :: int
  sp_duration_days :: int
  sp_start_date :: "string option"
  sp_end_date :: "string option"
  sp_task_ids :: "string list"
  sp_completed_task_ids :: "string list"
  sp_committed :: rat
  sp_completed :: rat

definition sprint_fields :: "Sprint \<Rightarrow> bool" where
  "sprint_fields s \<longleftrightarrow> not_blank (sp_id s) \<and> not_blank (sp_name s) \<and> 1 \<le> sp_number s \<and> sp_number s \<le> 100000 \<and>
     1 \<le> sp_duration_days s \<and> sp_duration_days s \<le> 90 \<and> list_all not_blank (sp_task_ids s) \<and>
     list_all not_blank (sp_completed_task_ids s) \<and> 0 \<le> sp_committed s \<and> sp_committed s \<le> 100000 \<and>
     0 \<le> sp_completed s \<and> sp_completed s \<le> 100000"

definition valid_date :: "(string \<Rightarrow> time option) \<Rightarrow> string option \<Rightarrow> bool" where
  "valid_date iso_time d = (case d of None \<Rightarrow> True | Some s \<Rightarrow> not_blank s \<and> iso_time s \<noteq> None)"

definition date_ordering :: "(string \<Rightarrow> time option) \<Rightarrow> Sprint \<Rightarrow> bool" where
  "date_ordering iso_time s = (case (sp_start_date s, sp_end_date s) of
     (Some a, Some b) \<Rightarrow> (case (iso_time a, iso_time b) of (Some x, Some y) \<Rightarrow> \<not> y < x | _ \<Rightarrow> True)
   | _ \<Rightarrow> True)"

definition task_collections :: "Sprint \<Rightarrow> bool" where
  "task_collections s \<longleftrightarrow> distinct (sp_task_ids s) \<and> distinct (sp_completed_task_ids s) \<and>
     set (sp_completed_task_ids s) \<subseteq> set (sp_task_ids s)"

definition status_date_requirements :: "Sprint \<Rightarrow> bool" where
  "status_date_requirements s \<longleftrightarrow>
     (sp_status s \<in> {ACTIVE, SPRINT_IN_REVIEW, RETROSPECTIVE, SPRINT_COMPLETED} \<longrightarrow> sp_start_date s \<noteq> None) \<and>
     (sp_status s = SPRINT_COMPLETED \<longrightarrow> sp_end_date s \<noteq> None)"

definition valid_sprint :: "(string \<Rightarrow> time option) \<Rightarrow> Sprint \<Rightarrow> bool" where
  "valid_sprint iso_time s \<longleftrightarrow> sprint_fields s \<and> valid_date iso_time (sp_start_date s) \<and> valid_date iso_time (sp_end_date s) \<and>
     date_ordering iso_time s \<and> task_collections s \<and> \<not> sp_completed s > sp_committed s \<and> status_date_requirements s"

datatype sprint_error =
    StatusInOverrides | DisallowedOverrides "string set" | BadSprintTransition "SprintStatus sm_error"
  | WrongStatus SprintStatus | TaskDuplicate string | TaskNotFound string | TaskAlreadyCompleted string
  | NegativePoints rat | ExceedsCommitted rat rat | NotCompleted SprintStatus | InvalidWindow int

definition set_dates :: "(string, string option) dict \<Rightarrow> Sprint \<Rightarrow> Sprint" where
  "set_dates ovs s =
     (let s1 = (case dget ovs ''start_date'' of None \<Rightarrow> s | Some d \<Rightarrow> s\<lparr>sp_start_date := d\<rparr>) in
      case dget ovs ''end_date'' of None \<Rightarrow> s1 | Some d \<Rightarrow> s1\<lparr>sp_end_date := d\<rparr>)"

definition sprint_transition :: "Sprint \<Rightarrow> SprintStatus \<Rightarrow> (string, string option) dict \<Rightarrow> sprint_error + Sprint" where
  "sprint_transition s target ovs =
     (let disallowed = set (dkeys ovs) - {''start_date'', ''end_date''} in
      if ''status'' \<in> set (dkeys ovs) then Inl StatusInOverrides
      else if disallowed \<noteq> {} then Inl (DisallowedOverrides disallowed)
      else case validate_sprint_transition (sp_status s) target of
             Inl e \<Rightarrow> Inl (BadSprintTransition e)
           | Inr _ \<Rightarrow> Inr ((set_dates ovs s)\<lparr>sp_status := target\<rparr>))"

definition add_task_to_sprint :: "Sprint \<Rightarrow> string \<Rightarrow> rat \<Rightarrow> sprint_error + Sprint" where
  "add_task_to_sprint s task_id points =
     guard_with (s\<lparr>sp_task_ids := sp_task_ids s @ [task_id], sp_committed := sp_committed s + points\<rparr>)
       [(sp_status s \<noteq> PLANNING, WrongStatus (sp_status s)),
        (task_id \<in> set (sp_task_ids s), TaskDuplicate task_id),
        (points < 0, NegativePoints points)]"

definition remove_task_from_sprint :: "Sprint \<Rightarrow> string \<Rightarrow> sprint_error + Sprint" where
  "remove_task_from_sprint s task_id =
     guard_with (s\<lparr>sp_task_ids := filter (\<lambda>t. t \<noteq> task_id) (sp_task_ids s),
                   sp_completed_task_ids := filter (\<lambda>t. t \<noteq> task_id) (sp_completed_task_ids s)\<rparr>)
       [(sp_status s = SPRINT_COMPLETED, WrongStatus (sp_status s)),
        (task_id \<notin> set (sp_task_ids s), TaskNotFound task_id)]"

definition validate_completion_preconditions :: "Sprint \<Rightarrow> string \<Rightarrow> rat \<Rightarrow> (bool \<times> sprint_error) list" where
  "validate_completion_preconditions s task_id points =
     [(sp_status s \<notin> {ACTIVE, SPRINT_IN_REVIEW}, WrongStatus (sp_status s)),
      (task_id \<notin> set (sp_task_ids s), TaskNotFound task_id),
      (task_id \<in> set (sp_completed_task_ids s), TaskAlreadyCompleted task_id),
      (points < 0, NegativePoints points),
      (sp_completed s + points > sp_committed s, ExceedsCommitted (sp_completed s + points) (sp_committed s))]"

definition complete_task_in_sprint :: "Sprint \<Rightarrow> string \<Rightarrow> rat \<Rightarrow> sprint_error + Sprint" where
  "complete_task_in_sprint s task_id points =
     guard_with (s\<lparr>sp_completed_task_ids := sp_completed_task_ids s @ [task_id], sp_completed := sp_completed s + points\<rparr>)
       (validate_completion_preconditions s task_id points)"

subsection \<open>Velocity\<close>

record VelocityRecord =
  vr_sprint_id :: string
  vr_sprint_number :: int
  vr_committed :: rat
  vr_completed :: rat
  vr_duration_days :: int
  vr_task_completion_count :: "int option"
  vr_wall_clock_seconds :: "rat option"
  vr_budget_consumed :: "rat option"

definition completion_ratio :: "VelocityRecord \<Rightarrow> rat" where
  "completion_ratio v = (if vr_committed v = 0 then 0 else vr_completed v / vr_committed v)"

definition record_velocity ::
  "Sprint \<Rightarrow> int option \<Rightarrow> rat option \<Rightarrow> rat option \<Rightarrow> sprint_error + VelocityRecord" where
  "record_velocity s count wall budget =
     (if sp_status s \<noteq> SPRINT_COMPLETED then Inl (NotCompleted (sp_status s))
      else Inr \<lparr>vr_sprint_id = sp_id s, vr_sprint_number = sp_number s, vr_committed = sp_committed s,
                vr_completed = sp_completed s, vr_duration_days = sp_duration_days s,
                vr_task_completion_count = count, vr_wall_clock_seconds = wall, vr_budget_consumed = budget\<rparr>)"

definition calculate_average_velocity :: "VelocityRecord list \<Rightarrow> int \<Rightarrow> sprint_error + rat" where
  "calculate_average_velocity rs window =
     (if window < 1 then Inl (InvalidWindow window)
      else if rs = [] then Inr 0
      else let recent = drop (length rs - nat window) rs in
           Inr ((\<Sum>r \<leftarrow> recent. vr_completed r) / of_nat (length recent)))"

subsection \<open>Lemmas\<close>

interpretation column: covered_machine column_machine
proof
  fix s show "dget (transitions column_machine) s \<noteq> None"
    by (cases s) (simp_all add: column_machine_def VALID_COLUMN_TRANSITIONS_def)
qed

interpretation sprint: covered_machine sprint_machine
proof
  fix s show "dget (transitions sprint_machine) s \<noteq> None"
    by (cases s) (simp_all add: sprint_machine_def VALID_SPRINT_TRANSITIONS_def)
qed

lemma sprint_step_simps:
  "sm_step sprint_machine PLANNING t \<longleftrightarrow> t = ACTIVE" "sm_step sprint_machine ACTIVE t \<longleftrightarrow> t = SPRINT_IN_REVIEW"
  "sm_step sprint_machine SPRINT_IN_REVIEW t \<longleftrightarrow> t = RETROSPECTIVE"
  "sm_step sprint_machine RETROSPECTIVE t \<longleftrightarrow> t = SPRINT_COMPLETED" "\<not> sm_step sprint_machine SPRINT_COMPLETED t"
  by (simp_all add: sm_step_iff sprint_machine_def VALID_SPRINT_TRANSITIONS_def)

lemma sprint_step_target: "sm_step sprint_machine s t \<Longrightarrow> t \<noteq> PLANNING"
  by (cases s) (auto simp: sprint_step_simps)

lemma status_to_column_total: "dget STATUS_TO_COLUMN s \<noteq> None"
  by (cases s) (simp_all add: STATUS_TO_COLUMN_def)

lemma check_wip_allowed_iff:
  "wip_allowed (check_wip_limit c target counts) \<longleftrightarrow>
     (\<forall>l. enforce_wip c \<and> find_column_limit (wip_limits c) target = Some l \<longrightarrow> dget_or counts target 0 + 1 \<le> l)"
  by (auto simp: check_wip_limit_def Let_def split: option.splits)

lemma average_velocity_bounds:
  assumes "calculate_average_velocity rs w = Inr v" and "rs \<noteq> []" and "\<And>r. r \<in> set rs \<Longrightarrow> lo \<le> vr_completed r \<and> vr_completed r \<le> hi"
  shows "lo \<le> v \<and> v \<le> hi"
proof -
  let ?recent = "drop (length rs - nat w) rs"
  have w: "1 \<le> w" and v: "v = (\<Sum>r \<leftarrow> ?recent. vr_completed r) / of_nat (length ?recent)"
    using assms(1,2) by (auto simp: calculate_average_velocity_def Let_def split: if_splits)
  have n: "0 < length ?recent" using w assms(2) by simp
  have "of_nat (length xs) * lo \<le> (\<Sum>r \<leftarrow> xs. vr_completed r) \<and> (\<Sum>r \<leftarrow> xs. vr_completed r) \<le> of_nat (length xs) * hi"
    if "set xs \<subseteq> set rs" for xs
    using that by (induction xs) (auto simp: algebra_simps intro!: add_mono dest!: assms(3))
  from this [OF set_drop_subset [of "length rs - nat w"]] n show ?thesis
    unfolding v by (simp add: field_simps)
qed

lemma sprint_transition_plain:
  "sprint_transition s target [] = Inr s' \<longleftrightarrow>
     sm_step sprint_machine (sp_status s) target \<and> s' = s\<lparr>sp_status := target\<rparr>"
  by (auto simp: sprint_transition_def set_dates_def validate_sprint_transition_def sm_step_def Let_def split: sum.splits)

lemma status_path_walk:
  assumes "resolve_task_transitions a b = Inr path" and "dget COLUMN_TO_STATUSES a = Some {s0}"
  shows "sm_walk task_machine s0 path" "path \<noteq> []"
    "dget STATUS_TO_COLUMN (last path) = Some (if b = BACKLOG then None else Some b)"
  using assms
  by (cases a; cases b; auto simp: resolve_task_transitions_def COLUMN_MOVE_STATUS_PATH_def COLUMN_TO_STATUSES_def
      STATUS_TO_COLUMN_def task_step_simps)+

lemma on_board: "dget STATUS_TO_COLUMN s = Some (Some a) \<Longrightarrow> dget COLUMN_TO_STATUSES a = Some {s}"
  by (cases s) (auto simp: STATUS_TO_COLUMN_def COLUMN_TO_STATUSES_def)

subsection \<open>Properties\<close>

text \<open>
  The Kanban layer agrees with the task lifecycle. A status path is defined exactly for the
  allowed column moves; from the status of the source column it is a walk of the task lifecycle, and
  it ends in the target column, except that a move back to BACKLOG ends off the board. Statuses and
  columns correspond one to one on the board.
\<close>

theorem kanban_follows_lifecycle:
  "(is_ok (resolve_task_transitions a b) \<longleftrightarrow> sm_step column_machine a b) \<and>
   (resolve_task_transitions a b = Inr path \<longrightarrow>
      (\<exists>s0. dget COLUMN_TO_STATUSES a = Some {s0} \<and> sm_walk task_machine s0 path \<and> path \<noteq> [] \<and>
         dget STATUS_TO_COLUMN (last path) = Some (if b = BACKLOG then None else Some b))) \<and>
   (dget STATUS_TO_COLUMN s = Some (Some a) \<longleftrightarrow> (\<exists>S. dget COLUMN_TO_STATUSES a = Some S \<and> s \<in> S))"
proof (intro conjI)
  show "is_ok (resolve_task_transitions a b) \<longleftrightarrow> sm_step column_machine a b"
    by (cases a; cases b)
      (simp_all add: resolve_task_transitions_def COLUMN_MOVE_STATUS_PATH_def sm_step_iff column_machine_def
        VALID_COLUMN_TRANSITIONS_def)
  show "resolve_task_transitions a b = Inr path \<longrightarrow>
      (\<exists>s0. dget COLUMN_TO_STATUSES a = Some {s0} \<and> sm_walk task_machine s0 path \<and> path \<noteq> [] \<and>
         dget STATUS_TO_COLUMN (last path) = Some (if b = BACKLOG then None else Some b))"
    using status_path_walk [of a b path] by (cases a) (simp_all add: COLUMN_TO_STATUSES_def)
  show "dget STATUS_TO_COLUMN s = Some (Some a) \<longleftrightarrow> (\<exists>S. dget COLUMN_TO_STATUSES a = Some S \<and> s \<in> S)"
    by (cases a; cases s) (simp_all add: STATUS_TO_COLUMN_def COLUMN_TO_STATUSES_def)
qed

theorem kanban_follows_lifecycle_witness:
  "sm_walk task_machine CREATED [ASSIGNED, IN_PROGRESS, IN_REVIEW, COMPLETED]"
  using kanban_follows_lifecycle [of BACKLOG DONE "[ASSIGNED, IN_PROGRESS, IN_REVIEW, COMPLETED]" CREATED]
  by (simp add: resolve_task_transitions_def COLUMN_MOVE_STATUS_PATH_def COLUMN_TO_STATUSES_def del: sm_walk.simps)

text \<open>
  The backlog operations keep a sprint valid: removing and completing tasks always do, so the
  points delivered never exceed the points committed and every completed task is in the backlog;
  adding a task does exactly when its id is not blank and the committed points stay within their
  bound, neither of which is checked.
\<close>

theorem backlog_keeps_sprint_valid:
  assumes "valid_sprint iso_time s"
  shows "(remove_task_from_sprint s t = Inr s' \<longrightarrow> valid_sprint iso_time s' \<and> t \<notin> set (sp_task_ids s')) \<and>
    (complete_task_in_sprint s t p = Inr s' \<longrightarrow> valid_sprint iso_time s' \<and> t \<in> set (sp_completed_task_ids s') \<and>
       sp_completed s' \<le> sp_committed s') \<and>
    (add_task_to_sprint s t p = Inr s' \<longrightarrow>
       (valid_sprint iso_time s' \<longleftrightarrow> not_blank t \<and> sp_committed s + p \<le> 100000))"
proof (intro conjI impI)
  assume "remove_task_from_sprint s t = Inr s'"
  then have s': "s' = s\<lparr>sp_task_ids := filter (\<lambda>x. x \<noteq> t) (sp_task_ids s),
      sp_completed_task_ids := filter (\<lambda>x. x \<noteq> t) (sp_completed_task_ids s)\<rparr>"
    by (simp add: remove_task_from_sprint_def guard_with_Inr)
  show "valid_sprint iso_time s'" "t \<notin> set (sp_task_ids s')"
    using assms by (auto simp: s' valid_sprint_def sprint_fields_def date_ordering_def task_collections_def
        status_date_requirements_def list_all_iff)
next
  assume c: "complete_task_in_sprint s t p = Inr s'"
  then have s': "s' = s\<lparr>sp_completed_task_ids := sp_completed_task_ids s @ [t], sp_completed := sp_completed s + p\<rparr>"
    and pre: "t \<in> set (sp_task_ids s)" "t \<notin> set (sp_completed_task_ids s)" "0 \<le> p" "sp_completed s + p \<le> sp_committed s"
    by (auto simp: complete_task_in_sprint_def validate_completion_preconditions_def guard_with_Inr)
  show "valid_sprint iso_time s'" "t \<in> set (sp_completed_task_ids s')" "sp_completed s' \<le> sp_committed s'"
    using assms pre by (auto simp: s' valid_sprint_def sprint_fields_def date_ordering_def task_collections_def
        status_date_requirements_def list_all_iff)
next
  assume "add_task_to_sprint s t p = Inr s'"
  then have s': "s' = s\<lparr>sp_task_ids := sp_task_ids s @ [t], sp_committed := sp_committed s + p\<rparr>"
    and pre: "t \<notin> set (sp_task_ids s)" "0 \<le> p"
    by (auto simp: add_task_to_sprint_def guard_with_Inr)
  show "valid_sprint iso_time s' \<longleftrightarrow> not_blank t \<and> sp_committed s + p \<le> 100000"
    using assms pre by (auto simp: s' valid_sprint_def sprint_fields_def date_ordering_def task_collections_def
        status_date_requirements_def list_all_iff)
qed

definition sample_sprint :: Sprint where
  "sample_sprint = \<lparr>sp_id = ''s1'', sp_name = ''S'', sp_goal = [], sp_status = PLANNING, sp_number = 1, sp_duration_days = 14,
     sp_start_date = None, sp_end_date = None, sp_task_ids = [''t1''], sp_completed_task_ids = [], sp_committed = 5,
     sp_completed = 0\<rparr>"

lemma sample_sprint_valid: "valid_sprint iso_time sample_sprint"
  by (simp add: valid_sprint_def sprint_fields_def sample_sprint_def valid_date_def date_ordering_def task_collections_def
      status_date_requirements_def not_blank_def py_isspace_def)

theorem backlog_keeps_sprint_valid_witness:
  "\<exists>s'. add_task_to_sprint sample_sprint ''t2'' 3 = Inr s' \<and> valid_sprint (\<lambda>_. None) s'"
  using backlog_keeps_sprint_valid [OF sample_sprint_valid, where t = "''t2''" and p = 3]
  by (simp add: add_task_to_sprint_def guard_with_def sample_sprint_def not_blank_def py_isspace_def)

text \<open>
  A sprint moves only along PLANNING, ACTIVE, IN_REVIEW, RETROSPECTIVE, COMPLETED, one step at a
  time. The transition does not run the validators: without overrides the new sprint is valid
  exactly when the start date is set and, on completion, the end date too, so a sprint can become
  ACTIVE without the start date that status requires.
\<close>

theorem sprint_transition_outcome:
  assumes "valid_sprint iso_time s"
  shows "((\<exists>s'. sprint_transition s target [] = Inr s') \<longleftrightarrow>
      (sp_status s, target) \<in> {(PLANNING, ACTIVE), (ACTIVE, SPRINT_IN_REVIEW), (SPRINT_IN_REVIEW, RETROSPECTIVE),
        (RETROSPECTIVE, SPRINT_COMPLETED)}) \<and>
    (sprint_transition s target [] = Inr s' \<longrightarrow> s' = s\<lparr>sp_status := target\<rparr> \<and>
      (valid_sprint iso_time s' \<longleftrightarrow> sp_start_date s \<noteq> None \<and> (target = SPRINT_COMPLETED \<longrightarrow> sp_end_date s \<noteq> None)))"
proof
  show "(\<exists>s'. sprint_transition s target [] = Inr s') \<longleftrightarrow>
      (sp_status s, target) \<in> {(PLANNING, ACTIVE), (ACTIVE, SPRINT_IN_REVIEW), (SPRINT_IN_REVIEW, RETROSPECTIVE),
        (RETROSPECTIVE, SPRINT_COMPLETED)}"
    unfolding sprint_transition_plain by (cases "sp_status s") (auto simp: sprint_step_simps)
  show "sprint_transition s target [] = Inr s' \<longrightarrow> s' = s\<lparr>sp_status := target\<rparr> \<and>
      (valid_sprint iso_time s' \<longleftrightarrow> sp_start_date s \<noteq> None \<and> (target = SPRINT_COMPLETED \<longrightarrow> sp_end_date s \<noteq> None))"
    using assms sprint_step_target [of "sp_status s" target] unfolding sprint_transition_plain
    by (cases target) (auto simp: valid_sprint_def sprint_fields_def date_ordering_def task_collections_def
        status_date_requirements_def)
qed

theorem sprint_transition_outcome_witness:
  "\<exists>s'. sprint_transition sample_sprint ACTIVE [] = Inr s' \<and> \<not> valid_sprint (\<lambda>_. None) s'"
  using sprint_transition_outcome [OF sample_sprint_valid, where target = ACTIVE]
  by (simp add: sample_sprint_def) metis

end
