(* ===== verification/Audit_Chain.thy ===== *)
theory Audit_Chain
  imports Prelude "HOL-Library.Sublist"
begin

text \<open>
  The tamper-evident audit trail, \<^verbatim>\<open>observability/audit_chain/\<close>: the hash chain, its integrity
  check, the verifier, the timestamp provider with its fallback and the logging sink.

  Bytes are strings. \<open>hashlib.sha256(...).hexdigest()\<close> is the argument \<open>sha\<close>, the raw digest
  \<open>digest\<close>, \<open>datetime.isoformat\<close> the argument \<open>isofmt\<close> on timestamps of any type and \<open>json.dumps\<close>
  the argument \<open>dumps\<close>. Signing, signature verification and the timestamp authority are backends
  behind protocols and arguments too. Nothing is assumed of \<open>sha\<close> but the format of its values; a
  collision is an explicit hypothesis about the inputs of the two chains that are compared.
\<close>

subsection \<open>Chain\<close>

record 't ChainEntry =
  ce_position :: nat
  ce_event_hash :: string
  ce_previous_hash :: string
  ce_payload :: string
  ce_signature :: string
  ce_timestamp :: 't

record 't HashChain =
  hc_entries :: "'t ChainEntry list"
  hc_initial_hash :: string
  hc_tail_hash :: string

definition new_chain :: "string \<Rightarrow> 't HashChain" where
  "new_chain initial = \<lparr>hc_entries = [], hc_initial_hash = initial, hc_tail_hash = initial\<rparr>"

definition hex_digit :: "nat \<Rightarrow> char" where
  "hex_digit n = (''0123456789abcdef'') ! n"

fun hex :: "string \<Rightarrow> string" where
  "hex [] = []"
| "hex (c # cs) = hex_digit (of_char c div 16) # hex_digit (of_char c mod 16) # hex cs"

definition link_input :: "('t \<Rightarrow> string) \<Rightarrow> string \<Rightarrow> string \<Rightarrow> string \<Rightarrow> 't \<Rightarrow> string" where
  "link_input isofmt previous_hash event_hash signature timestamp =
     previous_hash @ CHR ''|'' # event_hash @ CHR ''|'' # hex signature @ CHR ''|'' # isofmt timestamp"

definition link_hash :: "(string \<Rightarrow> string) \<Rightarrow> ('t \<Rightarrow> string) \<Rightarrow> string \<Rightarrow> string \<Rightarrow> string \<Rightarrow> 't \<Rightarrow> string" where
  "link_hash sha isofmt previous_hash event_hash signature timestamp =
     sha (link_input isofmt previous_hash event_hash signature timestamp)"

definition chain_append ::
  "(string \<Rightarrow> string) \<Rightarrow> ('t \<Rightarrow> string) \<Rightarrow> string \<Rightarrow> string \<Rightarrow> 't \<Rightarrow> 't HashChain \<Rightarrow> 't HashChain" where
  "chain_append sha isofmt event_data signature timestamp c =
     (let event_hash = sha event_data;
          entry = \<lparr>ce_position = length (hc_entries c), ce_event_hash = event_hash, ce_previous_hash = hc_tail_hash c,
                   ce_payload = event_data, ce_signature = signature, ce_timestamp = timestamp\<rparr> in
      c\<lparr>hc_entries := hc_entries c @ [entry],
        hc_tail_hash := link_hash sha isofmt (hc_tail_hash c) event_hash signature timestamp\<rparr>)"

text \<open>The loop of \<open>verify_integrity\<close>: the expected tail, or \<open>None\<close> at the first broken link.\<close>

fun chain_walk :: "(string \<Rightarrow> string) \<Rightarrow> ('t \<Rightarrow> string) \<Rightarrow> string \<Rightarrow> 't ChainEntry list \<Rightarrow> string option" where
  "chain_walk sha isofmt expected [] = Some expected"
| "chain_walk sha isofmt expected (e # es) =
     (if ce_previous_hash e \<noteq> expected then None
      else chain_walk sha isofmt (link_hash sha isofmt expected (ce_event_hash e) (ce_signature e) (ce_timestamp e)) es)"

definition verify_integrity :: "(string \<Rightarrow> string) \<Rightarrow> ('t \<Rightarrow> string) \<Rightarrow> 't HashChain \<Rightarrow> bool" where
  "verify_integrity sha isofmt c \<longleftrightarrow> chain_walk sha isofmt (hc_initial_hash c) (hc_entries c) = Some (hc_tail_hash c)"

subsection \<open>Verifier\<close>

record ChainVerificationResult =
  cv_valid :: bool
  cv_entries_checked :: nat
  cv_first_break_position :: "nat option"

fun first_break :: "(string \<Rightarrow> string) \<Rightarrow> ('t \<Rightarrow> string) \<Rightarrow> string \<Rightarrow> 't ChainEntry list \<Rightarrow> nat option" where
  "first_break sha isofmt expected [] = None"
| "first_break sha isofmt expected (e # es) =
     (if ce_previous_hash e \<noteq> expected then Some (ce_position e)
      else first_break sha isofmt (link_hash sha isofmt expected (ce_event_hash e) (ce_signature e) (ce_timestamp e)) es)"

definition broken_at :: "nat \<Rightarrow> nat \<Rightarrow> ChainVerificationResult" where
  "broken_at checked pos = \<lparr>cv_valid = False, cv_entries_checked = checked, cv_first_break_position = Some pos\<rparr>"

text \<open>
  The signature check of an entry may raise, as the signer may; the loop stops at the first entry whose check raises
  or fails.
\<close>

fun check_signatures :: "(string \<Rightarrow> string \<Rightarrow> 'x + bool) \<Rightarrow> 't ChainEntry list \<Rightarrow> 'x + 't ChainEntry option" where
  "check_signatures check_sig [] = Inr None"
| "check_signatures check_sig (e # es) =
     (case check_sig (ce_payload e) (ce_signature e) of
        Inl x \<Rightarrow> Inl x
      | Inr ok \<Rightarrow> if \<not> ok then Inr (Some e) else check_signatures check_sig es)"

definition verify_chain ::
  "(string \<Rightarrow> string) \<Rightarrow> ('t \<Rightarrow> string) \<Rightarrow> (string \<Rightarrow> string \<Rightarrow> 'x + bool) \<Rightarrow> 't HashChain \<Rightarrow> 'x + ChainVerificationResult" where
  "verify_chain sha isofmt check_sig c =
     (let entries = hc_entries c in
      if entries = [] then Inr \<lparr>cv_valid = True, cv_entries_checked = 0, cv_first_break_position = None\<rparr>
      else if \<not> verify_integrity sha isofmt c then
        (case first_break sha isofmt (hc_initial_hash c) entries of
           Some pos \<Rightarrow> Inr (broken_at pos pos)
         | None \<Rightarrow> Inr (broken_at (length entries) (ce_position (last entries) + 1)))
      else case check_signatures check_sig entries of
             Inl x \<Rightarrow> Inl x
           | Inr (Some e) \<Rightarrow> Inr (broken_at (ce_position e) (ce_position e))
           | Inr None \<Rightarrow> Inr \<lparr>cv_valid = True, cv_entries_checked = length entries, cv_first_break_position = None\<rparr>)"

definition chain_accepted :: "'x + ChainVerificationResult \<Rightarrow> bool" where
  "chain_accepted r \<longleftrightarrow> (case r of Inl _ \<Rightarrow> False | Inr v \<Rightarrow> cv_valid v)"

subsection \<open>Timestamps\<close>

datatype TimestampSource = Signed | Fallback | Local_Clock

record 't TimestampResult =
  tr_timestamp :: 't
  tr_source :: TimestampSource

text \<open>
  The answer of the timestamp authority: a token, one of the three incident exceptions (hash, nonce
  or signature), a memory or recursion error, or any other exception.
\<close>

datatype 't tsa_reply = Token 't | Incident | Exhausted | Failure

text \<open>What the sink distinguishes of a raised exception: memory and recursion errors, or others.\<close>

datatype sink_error = Fatal | Ordinary

definition get_timestamp ::
  "string \<Rightarrow> (string \<Rightarrow> 't tsa_reply) \<Rightarrow> 't \<Rightarrow> string option \<Rightarrow> sink_error + 't TimestampResult" where
  "get_timestamp default_payload request now binding_payload =
     (case request (case binding_payload of Some p \<Rightarrow> p | None \<Rightarrow> default_payload) of
        Token t \<Rightarrow> Inr \<lparr>tr_timestamp = t, tr_source = Signed\<rparr>
      | Incident \<Rightarrow> Inl Ordinary
      | Exhausted \<Rightarrow> Inl Fatal
      | Failure \<Rightarrow> Inr \<lparr>tr_timestamp = now, tr_source = Fallback\<rparr>)"

definition local_clock :: "'t \<Rightarrow> string option \<Rightarrow> sink_error + 't TimestampResult" where
  "local_clock now binding_payload = Inr \<lparr>tr_timestamp = now, tr_source = Local_Clock\<rparr>"

subsection \<open>Sink\<close>

text \<open>
  An emit has three parts: it filters and serialises the log record; a job on the signing thread
  signs the data, reads the tail hash and has the digest of tail, data and signature timestamped;
  the caller waits for the job and appends under its lock. The job's outcome is the exception it
  raised (or the time-out of the wait, an ordinary exception) or what it signed, the tail it bound
  and the timestamp.
\<close>

datatype log_value = LStr string | LNum rat

record LogRecord =
  lr_thread :: string
  lr_message :: string
  lr_levelname :: string
  lr_created :: rat
  lr_module :: string
  lr_extra :: "(string, log_value) dict"

definition audited :: "LogRecord \<Rightarrow> bool" where
  "audited r \<longleftrightarrow> \<not> prefix ''audit-sign'' (lr_thread r) \<and>
     (prefix ''security.'' (lr_message r) \<or> prefix ''tool.registry.integrity.'' (lr_message r))"

definition extra_keys :: "string list" where
  "extra_keys = [''tool_name'', ''expected_hash'', ''actual_hash'', ''correlation_id'', ''principal'', ''resource'',
     ''action_type'', ''error'']"

definition event_payload :: "LogRecord \<Rightarrow> (string, log_value) dict" where
  "event_payload r = fold (\<lambda>k d. case dget (lr_extra r) k of None \<Rightarrow> d | Some v \<Rightarrow> dput k v d) extra_keys
     [(''event'', LStr (lr_message r)), (''level'', LStr (lr_levelname r)), (''timestamp'', LNum (lr_created r)),
      (''module'', LStr (lr_module r))]"

record 't signed_job =
  job_data :: string
  job_signature :: string
  job_tail :: string
  job_binding :: string
  job_timestamp :: "'t TimestampResult"

definition build_binding_payload :: "(string \<Rightarrow> string) \<Rightarrow> string \<Rightarrow> string \<Rightarrow> string \<Rightarrow> string" where
  "build_binding_payload digest tail_hash event_data signature =
     digest (tail_hash @ CHR 0x00 # event_data @ CHR 0x00 # signature)"

definition sign_and_timestamp ::
  "(string \<Rightarrow> string) \<Rightarrow> (string \<Rightarrow> sink_error + string) \<Rightarrow> (string option \<Rightarrow> sink_error + 't TimestampResult) \<Rightarrow>
   string \<Rightarrow> 't HashChain \<Rightarrow> sink_error + 't signed_job" where
  "sign_and_timestamp digest sign provider data c =
     (case sign data of Inl x \<Rightarrow> Inl x | Inr signature \<Rightarrow>
      let binding = build_binding_payload digest (hc_tail_hash c) data signature in
      case provider (Some binding) of Inl x \<Rightarrow> Inl x | Inr ts \<Rightarrow>
      Inr \<lparr>job_data = data, job_signature = signature, job_tail = hc_tail_hash c, job_binding = binding,
           job_timestamp = ts\<rparr>)"

datatype append_status = Status_Signed | Status_Fallback | Status_Error

text \<open>
  The sink's state: the chain and the calls of the append callback (status, chain depth, and the
  timestamp, which is \<open>None\<close> for the literal \<open>0.0\<close> of an error).
\<close>

record 't AuditChainSink =
  sk_chain :: "'t HashChain"
  sk_callbacks :: "(append_status \<times> nat \<times> 't option) list"

definition finish_emit ::
  "(string \<Rightarrow> string) \<Rightarrow> ('t \<Rightarrow> string) \<Rightarrow> sink_error + 't signed_job \<Rightarrow> 't AuditChainSink \<Rightarrow>
   't AuditChainSink \<times> sink_error option" where
  "finish_emit sha isofmt outcome s =
     (case outcome of
        Inl Fatal \<Rightarrow> (s, Some Fatal)
      | Inl Ordinary \<Rightarrow> (s\<lparr>sk_callbacks := sk_callbacks s @ [(Status_Error, 0, None)]\<rparr>, None)
      | Inr j \<Rightarrow>
          let ts = job_timestamp j;
              c = chain_append sha isofmt (job_data j) (job_signature j) (tr_timestamp ts) (sk_chain s);
              status = (if tr_source ts = Signed then Status_Signed else Status_Fallback) in
          (s\<lparr>sk_chain := c, sk_callbacks := sk_callbacks s @ [(status, length (hc_entries c), Some (tr_timestamp ts))]\<rparr>, None))"

text \<open>An emit whose job runs and whose append happens with no other emit in between.\<close>

definition emit ::
  "(string \<Rightarrow> string) \<Rightarrow> (string \<Rightarrow> string) \<Rightarrow> ('t \<Rightarrow> string) \<Rightarrow> ((string, log_value) dict \<Rightarrow> string) \<Rightarrow>
   (string \<Rightarrow> sink_error + string) \<Rightarrow> (string option \<Rightarrow> sink_error + 't TimestampResult) \<Rightarrow> bool \<Rightarrow> LogRecord \<Rightarrow>
   't AuditChainSink \<Rightarrow> 't AuditChainSink \<times> sink_error option" where
  "emit digest sha isofmt dumps sign provider timed_out r s =
     (if \<not> audited r then (s, None)
      else finish_emit sha isofmt
             (if timed_out then Inl Ordinary
              else sign_and_timestamp digest sign provider (dumps (event_payload r)) (sk_chain s)) s)"

subsection \<open>Lemmas\<close>

text \<open>
  The format of a hex digest and of an ISO timestamp: no separator in them, and a timestamp is
  determined by its ISO form.
\<close>

definition plain_formats :: "(string \<Rightarrow> string) \<Rightarrow> ('t \<Rightarrow> string) \<Rightarrow> bool" where
  "plain_formats sha isofmt \<longleftrightarrow> inj isofmt \<and> (\<forall>x. CHR ''|'' \<notin> set (sha x)) \<and> (\<forall>t. CHR ''|'' \<notin> set (isofmt t))"

text \<open>The hash inputs of a chain's links.\<close>

definition link_inputs :: "('t \<Rightarrow> string) \<Rightarrow> 't ChainEntry list \<Rightarrow> string set" where
  "link_inputs isofmt es =
     (\<lambda>e. link_input isofmt (ce_previous_hash e) (ce_event_hash e) (ce_signature e) (ce_timestamp e)) ` set es"

definition no_collision :: "(string \<Rightarrow> string) \<Rightarrow> string set \<Rightarrow> bool" where
  "no_collision sha X \<longleftrightarrow> inj_on sha X"

lemma split_first: "a @ x # b = a' @ x # b' \<Longrightarrow> x \<notin> set a \<Longrightarrow> x \<notin> set a' \<Longrightarrow> a = a' \<and> b = b'"
  by (induction a arbitrary: a') (auto simp: Cons_eq_append_conv append_eq_Cons_conv)

lemma split_last: "a @ x # b = a' @ x # b' \<Longrightarrow> x \<notin> set b \<Longrightarrow> x \<notin> set b' \<Longrightarrow> a = a' \<and> b = b'"
  using split_first [of "rev b" x "rev a" "rev b'" "rev a'"]
  by (metis append.assoc append_Cons append_Nil rev.simps(2) rev_append rev_rev_ident set_rev)

lemma hex_digit_inj: "i < 16 \<Longrightarrow> j < 16 \<Longrightarrow> hex_digit i = hex_digit j \<longleftrightarrow> i = j"
proof -
  have "distinct ''0123456789abcdef''" "length ''0123456789abcdef'' = 16" by simp_all
  then show "i < 16 \<Longrightarrow> j < 16 \<Longrightarrow> hex_digit i = hex_digit j \<longleftrightarrow> i = j"
    unfolding hex_digit_def by (metis nth_eq_iff_index_eq)
qed

lemma of_char_small: "(of_char c :: nat) < 256"
  by (metis of_char_mod_256 mod_less_divisor zero_less_numeral)

lemma hex_digit_not_bar: "i < 16 \<Longrightarrow> hex_digit i \<noteq> CHR ''|'' \<and> hex_digit i \<noteq> CHR ''g''"
proof -
  assume "i < 16"
  then have "hex_digit i \<in> set ''0123456789abcdef''" unfolding hex_digit_def by (intro nth_mem) simp
  then show ?thesis by auto
qed

lemma hex_chars: "c \<in> set (hex xs) \<Longrightarrow> c \<noteq> CHR ''|'' \<and> c \<noteq> CHR ''g''"
  by (induction xs) (auto simp: hex_digit_not_bar of_char_small less_mult_imp_div_less)

lemma hex_inj: "hex xs = hex ys \<longleftrightarrow> xs = ys"
proof (induction xs arbitrary: ys)
  case Nil
  then show ?case by (cases ys) auto
next
  case (Cons x xs)
  have eq: "(of_char x :: nat) = of_char y"
    if "of_char x div 16 = (of_char y div 16 :: nat)" "of_char x mod 16 = (of_char y mod 16 :: nat)" for y
    using that by (metis div_mult_mod_eq)
  have bound: "(of_char z :: nat) div 16 < 16" for z using of_char_small [of z] by (intro less_mult_imp_div_less) simp
  show ?case using Cons eq by (cases ys) (auto simp: hex_digit_inj bound)
qed

lemma link_input_inj:
  assumes "plain_formats sha isofmt" and "CHR ''|'' \<notin> set p" and "CHR ''|'' \<notin> set p'"
    and "link_input isofmt p eh sig ts = link_input isofmt p' eh' sig' ts'"
  shows "p = p' \<and> eh = eh' \<and> sig = sig' \<and> ts = ts'"
proof -
  have nobar: "CHR ''|'' \<notin> set (isofmt t)" "CHR ''|'' \<notin> set (hex x)" for t x
    using assms(1) hex_chars by (auto simp: plain_formats_def)
  have a: "p = p'" "eh @ CHR ''|'' # hex sig @ CHR ''|'' # isofmt ts = eh' @ CHR ''|'' # hex sig' @ CHR ''|'' # isofmt ts'"
    using split_first [OF assms(4) [unfolded link_input_def] assms(2,3)] by simp_all
  have b: "eh @ CHR ''|'' # hex sig = eh' @ CHR ''|'' # hex sig'" "isofmt ts = isofmt ts'"
    using split_last [of "eh @ CHR ''|'' # hex sig" "CHR ''|''" "isofmt ts" "eh' @ CHR ''|'' # hex sig'" "isofmt ts'"] a(2) nobar
    by simp_all
  have "eh = eh'" "hex sig = hex sig'" using split_last [OF b(1)] nobar by simp_all
  then show ?thesis using a(1) b(2) assms(1) by (simp add: hex_inj plain_formats_def inj_eq)
qed

lemma chain_walk_snoc:
  "chain_walk sha isofmt i (es @ [e]) = Some t \<longleftrightarrow>
     chain_walk sha isofmt i es = Some (ce_previous_hash e) \<and>
     t = link_hash sha isofmt (ce_previous_hash e) (ce_event_hash e) (ce_signature e) (ce_timestamp e)"
  by (induction es arbitrary: i) auto

text \<open>The fields of an entry that the links cover.\<close>

definition linked :: "'t ChainEntry \<Rightarrow> string \<times> string \<times> string \<times> 't" where
  "linked e = (ce_previous_hash e, ce_event_hash e, ce_signature e, ce_timestamp e)"

lemma chain_walk_nobar:
  "plain_formats sha isofmt \<Longrightarrow> CHR ''|'' \<notin> set i \<Longrightarrow> chain_walk sha isofmt i es = Some t \<Longrightarrow> CHR ''|'' \<notin> set t"
  by (cases es rule: rev_cases) (auto simp: chain_walk_snoc link_hash_def plain_formats_def)

lemma chain_walk_unique:
  assumes "plain_formats sha isofmt" and "CHR ''|'' \<notin> set i" and "i \<notin> range sha"
    and "no_collision sha (link_inputs isofmt es \<union> link_inputs isofmt es')"
    and "chain_walk sha isofmt i es = Some t" and "chain_walk sha isofmt i es' = Some t"
  shows "List.map linked es = List.map linked es'"
  using assms(4-6)
proof (induction es arbitrary: es' t rule: rev_induct)
  case Nil
  then show ?case using assms(3) by (cases es' rule: rev_cases) (auto simp: chain_walk_snoc link_hash_def)
next
  case (snoc e es)
  obtain f fs where es': "es' = fs @ [f]"
    using snoc.prems assms(3) by (cases es' rule: rev_cases) (auto simp: chain_walk_snoc link_hash_def)
  have w: "chain_walk sha isofmt i es = Some (ce_previous_hash e)" "chain_walk sha isofmt i fs = Some (ce_previous_hash f)"
    and t: "sha (link_input isofmt (ce_previous_hash e) (ce_event_hash e) (ce_signature e) (ce_timestamp e)) =
      sha (link_input isofmt (ce_previous_hash f) (ce_event_hash f) (ce_signature f) (ce_timestamp f))"
    using snoc.prems(2,3) es' by (auto simp: chain_walk_snoc link_hash_def)
  have nc: "no_collision sha (link_inputs isofmt es \<union> link_inputs isofmt fs)"
    using snoc.prems(1) es' unfolding no_collision_def link_inputs_def by (auto intro: inj_on_subset)
  have t': "link_input isofmt (ce_previous_hash e) (ce_event_hash e) (ce_signature e) (ce_timestamp e) =
      link_input isofmt (ce_previous_hash f) (ce_event_hash f) (ce_signature f) (ce_timestamp f)"
    by (rule inj_onD [OF snoc.prems(1) [unfolded no_collision_def] t]) (simp_all add: link_inputs_def es')
  note same = link_input_inj [OF assms(1) chain_walk_nobar [OF assms(1,2) w(1)] chain_walk_nobar [OF assms(1,2) w(2)] t']
  then show ?case using snoc.IH [OF nc w(1)] w(2) es' by (simp add: linked_def)
qed

lemma verify_append:
  "verify_integrity sha isofmt (chain_append sha isofmt d sig ts c) = verify_integrity sha isofmt c"
  by (simp add: verify_integrity_def chain_append_def Let_def chain_walk_snoc)

lemma append_all_verifies:
  "verify_integrity sha isofmt c \<Longrightarrow> verify_integrity sha isofmt (fold (\<lambda>(d, sig, ts). chain_append sha isofmt d sig ts) evs c)"
  by (induction evs arbitrary: c) (auto simp: verify_append)

lemma append_all_initial:
  "hc_initial_hash (fold (\<lambda>(d, sig, ts). chain_append sha isofmt d sig ts) evs c) = hc_initial_hash c"
  by (induction evs arbitrary: c) (auto simp: chain_append_def Let_def)

lemma verify_new: "verify_integrity sha isofmt (new_chain i)"
  by (simp add: verify_integrity_def new_chain_def)

lemma chain_walk_linked: "List.map linked es = List.map linked es' \<Longrightarrow> chain_walk sha isofmt i es = chain_walk sha isofmt i es'"
proof (induction es arbitrary: es' i)
  case (Cons e es)
  then show ?case by (cases es') (auto simp: linked_def)
qed simp

lemma check_signatures_all:
  "check_signatures check_sig es = Inr None \<longleftrightarrow> list_all (\<lambda>e. check_sig (ce_payload e) (ce_signature e) = Inr True) es"
  by (induction es) (auto split: sum.splits)

lemma verify_chain_accepted:
  "chain_accepted (verify_chain sha isofmt check_sig c) \<longleftrightarrow> hc_entries c = [] \<or>
     verify_integrity sha isofmt c \<and> list_all (\<lambda>e. check_sig (ce_payload e) (ce_signature e) = Inr True) (hc_entries c)"
  by (auto simp: verify_chain_def chain_accepted_def Let_def broken_at_def check_signatures_all [symmetric] split: option.splits sum.splits)

lemma emit_outcome:
  "audited r \<Longrightarrow> sign (dumps (event_payload r)) = Inr signature \<Longrightarrow>
   provider (Some (build_binding_payload digest (hc_tail_hash (sk_chain s)) (dumps (event_payload r)) signature)) = Inr ts \<Longrightarrow>
   emit digest sha isofmt dumps sign provider False r s =
     (s\<lparr>sk_chain := chain_append sha isofmt (dumps (event_payload r)) signature (tr_timestamp ts) (sk_chain s),
        sk_callbacks := sk_callbacks s @ [(if tr_source ts = Signed then Status_Signed else Status_Fallback,
          Suc (length (hc_entries (sk_chain s))), Some (tr_timestamp ts))]\<rparr>, None)"
  by (simp add: emit_def finish_emit_def sign_and_timestamp_def Let_def) (simp add: chain_append_def Let_def)

subsection \<open>Properties\<close>

text \<open>
  C31: tamper evidence. A chain built by appends verifies. Any other chain with the same genesis and tail hash verifies
  exactly when it has the same event hashes, links, signatures and timestamps in the same number and order, unless
  two different link inputs of the two chains collide under the hash. The full verifier accepts it exactly when
  moreover the signature check of every entry succeeds on the stored payload, or when all entries are gone: an
  emptied chain is accepted whatever its tail hash says. No check reads the stored position, and only the
  signature check reads the stored payload.
\<close>

theorem chain_tamper_evident:
  assumes "plain_formats sha isofmt" and "CHR ''|'' \<notin> set g" and "g \<notin> range sha"
    and c: "c = fold (\<lambda>(d, sig, ts). chain_append sha isofmt d sig ts) evs (new_chain g)"
    and "hc_initial_hash c' = g" and "hc_tail_hash c' = hc_tail_hash c"
    and nc: "no_collision sha (link_inputs isofmt (hc_entries c') \<union> link_inputs isofmt (hc_entries c))"
  shows "verify_integrity sha isofmt c \<and>
    (verify_integrity sha isofmt c' \<longleftrightarrow> List.map linked (hc_entries c') = List.map linked (hc_entries c)) \<and>
    (chain_accepted (verify_chain sha isofmt check_sig c') \<longleftrightarrow>
       hc_entries c' = [] \<or>
       List.map linked (hc_entries c') = List.map linked (hc_entries c) \<and>
       list_all (\<lambda>e. check_sig (ce_payload e) (ce_signature e) = Inr True) (hc_entries c')) \<and>
    chain_accepted (verify_chain sha isofmt check_sig (c'\<lparr>hc_entries := List.map (\<lambda>e. e\<lparr>ce_position := k e\<rparr>) (hc_entries c')\<rparr>)) =
      chain_accepted (verify_chain sha isofmt check_sig c') \<and>
    verify_integrity sha isofmt (c'\<lparr>hc_entries := List.map (\<lambda>e. e\<lparr>ce_payload := x e\<rparr>) (hc_entries c')\<rparr>) = verify_integrity sha isofmt c'"
proof -
  have v: "verify_integrity sha isofmt c" unfolding c by (rule append_all_verifies [OF verify_new])
  have i: "hc_initial_hash c = g" unfolding c append_all_initial by (simp add: new_chain_def)
  have walk: "chain_walk sha isofmt g (hc_entries c) = Some (hc_tail_hash c)"
    using v i by (simp add: verify_integrity_def)
  have same: "verify_integrity sha isofmt c' \<longleftrightarrow> List.map linked (hc_entries c') = List.map linked (hc_entries c)"
  proof
    assume "verify_integrity sha isofmt c'"
    then have "chain_walk sha isofmt g (hc_entries c') = Some (hc_tail_hash c)"
      using assms(5,6) by (simp add: verify_integrity_def)
    then show "List.map linked (hc_entries c') = List.map linked (hc_entries c)"
      by (rule chain_walk_unique [OF assms(1-3) nc _ walk])
  next
    assume "List.map linked (hc_entries c') = List.map linked (hc_entries c)"
    from chain_walk_linked [OF this, of sha isofmt g] walk show "verify_integrity sha isofmt c'"
      using assms(5,6) by (simp add: verify_integrity_def)
  qed
  have "List.map linked (List.map (\<lambda>e. e\<lparr>ce_position := k e\<rparr>) (hc_entries c')) = List.map linked (hc_entries c')"
    "List.map linked (List.map (\<lambda>e. e\<lparr>ce_payload := x e\<rparr>) (hc_entries c')) = List.map linked (hc_entries c')"
    by (simp_all add: linked_def comp_def)
  note walks = this [THEN chain_walk_linked, of sha isofmt "hc_initial_hash c'"]
  have pos: "verify_integrity sha isofmt (c'\<lparr>hc_entries := List.map (\<lambda>e. e\<lparr>ce_position := k e\<rparr>) (hc_entries c')\<rparr>) = verify_integrity sha isofmt c'"
    and pay: "verify_integrity sha isofmt (c'\<lparr>hc_entries := List.map (\<lambda>e. e\<lparr>ce_payload := x e\<rparr>) (hc_entries c')\<rparr>) = verify_integrity sha isofmt c'"
    using walks by (simp_all add: verify_integrity_def)
  show ?thesis unfolding verify_chain_accepted pay using v same pos by (simp add: list_all_iff)
qed

lemma hex_plain: "plain_formats hex hex" "''genesis'' \<notin> range hex" "no_collision hex X"
proof -
  show "plain_formats hex hex" using hex_chars by (auto simp: plain_formats_def inj_def hex_inj)
  show "no_collision hex X" by (simp add: no_collision_def inj_on_def hex_inj)
  show "''genesis'' \<notin> range hex"
  proof
    assume "''genesis'' \<in> range hex"
    then obtain x where "''genesis'' = hex x" by blast
    then have "CHR ''g'' \<in> set (hex x)" by (metis list.set_intros(1))
    then show False using hex_chars by blast
  qed
qed

theorem chain_tamper_evident_witness:
  "let c = chain_append hex hex ''a'' ''s'' ''1'' (new_chain ''genesis''); c' = c\<lparr>hc_entries := []\<rparr> in
   verify_integrity hex hex c \<and> \<not> verify_integrity hex hex c' \<and>
   chain_accepted (verify_chain hex hex (\<lambda>p sig. Inr True :: string + bool) c')"
  using chain_tamper_evident [OF hex_plain(1) _ hex_plain(2) refl _ _ hex_plain(3),
      of "(chain_append hex hex ''a'' ''s'' ''1'' (new_chain ''genesis''))\<lparr>hc_entries := []\<rparr>" "[(''a'', ''s'', ''1'')]"
        "\<lambda>p sig. Inr True :: string + bool"]
  by (simp add: chain_append_def new_chain_def Let_def)

text \<open>
  The timestamp binding of the sink. A job whose append follows it directly binds the tail its
  entry is linked to. When the signing thread runs the jobs of two concurrent emits before either
  caller has appended, both appends succeed and the chain verifies as before, but the second entry
  is linked to the tail after the first entry, while its timestamp binds the tail before it.
\<close>

theorem binding_tail_race:
  assumes "sign_and_timestamp digest sign provider d1 (sk_chain s) = Inr j1"
    and "sign_and_timestamp digest sign provider d2 (sk_chain s) = Inr j2"
  shows "let c = sk_chain s; c1 = sk_chain (fst (finish_emit sha isofmt (Inr j1) s));
      c2 = sk_chain (fst (finish_emit sha isofmt (Inr j2) (fst (finish_emit sha isofmt (Inr j1) s)))) in
    job_binding j1 = build_binding_payload digest (ce_previous_hash (last (hc_entries c1))) d1 (job_signature j1) \<and>
    job_binding j2 = build_binding_payload digest (hc_tail_hash c) d2 (job_signature j2) \<and>
    ce_previous_hash (last (hc_entries c2)) =
      link_hash sha isofmt (hc_tail_hash c) (sha d1) (job_signature j1) (tr_timestamp (job_timestamp j1)) \<and>
    length (hc_entries c2) = length (hc_entries c) + 2 \<and>
    verify_integrity sha isofmt c2 = verify_integrity sha isofmt c"
proof -
  have j: "job_binding j1 = build_binding_payload digest (hc_tail_hash (sk_chain s)) d1 (job_signature j1)"
    "job_binding j2 = build_binding_payload digest (hc_tail_hash (sk_chain s)) d2 (job_signature j2)" "job_data j1 = d1"
    using assms by (auto simp: sign_and_timestamp_def Let_def split: sum.splits)
  have c2: "sk_chain (fst (finish_emit sha isofmt (Inr j) s')) =
      chain_append sha isofmt (job_data j) (job_signature j) (tr_timestamp (job_timestamp j)) (sk_chain s')" for j s'
    by (simp add: finish_emit_def Let_def)
  show ?thesis unfolding c2 Let_def verify_append using j by (simp add: chain_append_def Let_def)
qed

theorem binding_tail_race_witness:
  "(let s = \<lparr>sk_chain = new_chain ''genesis'', sk_callbacks = []\<rparr>; provider = local_clock ''1'';
        j1 = Inr \<lparr>job_data = ''a'', job_signature = ''a'', job_tail = ''genesis'',
          job_binding = build_binding_payload hex ''genesis'' ''a'' ''a'', job_timestamp = \<lparr>tr_timestamp = ''1'', tr_source = Local_Clock\<rparr>\<rparr> in
      sign_and_timestamp hex Inr provider ''a'' (sk_chain s) = j1 \<and>
      length (hc_entries (sk_chain (fst (finish_emit hex hex j1 (fst (finish_emit hex hex j1 s)))))) = 2)"
proof -
  define s :: "string AuditChainSink" where "s = \<lparr>sk_chain = new_chain ''genesis'', sk_callbacks = []\<rparr>"
  define j where "j = \<lparr>job_data = ''a'', job_signature = ''a'', job_tail = ''genesis'',
    job_binding = build_binding_payload hex ''genesis'' ''a'' ''a'', job_timestamp = \<lparr>tr_timestamp = ''1'', tr_source = Local_Clock\<rparr>\<rparr>"
  have a: "sign_and_timestamp hex Inr (local_clock ''1'') ''a'' (sk_chain s) = Inr j"
    by (simp add: s_def j_def sign_and_timestamp_def local_clock_def new_chain_def Let_def)
  have "length (hc_entries (sk_chain s)) = 0" by (simp add: s_def new_chain_def)
  then have "length (hc_entries (sk_chain (fst (finish_emit hex hex (Inr j) (fst (finish_emit hex hex (Inr j) s)))))) = 2"
    using binding_tail_race [OF a a, of hex hex] unfolding Let_def by simp
  then show ?thesis using a unfolding Let_def s_def j_def by simp
qed

end
