(* ===== verification/Condition_Eval.thy ===== *)
theory Condition_Eval
  imports Python_Text
begin

text \<open>
  The condition language of workflow nodes, \<^verbatim>\<open>engine/workflow/condition_eval.py\<close>: atoms, tokenizer,
  recursive-descent parser and the public \<open>evaluate_condition\<close>.

  A context value is what the evaluator sees of a Python object: its \<open>str\<close> and its truth value. The
  position \<open>pos\<close> in the token list is the list of the remaining tokens. A \<open>ValueError\<close> of the parser
  is \<open>Inl\<close>, and so is the \<open>RecursionError\<close> of the interpreter: the functions that recurse take the
  number of stack frames that are left, and raise it when there is none for the next call. Expressions are evaluated while they are parsed, as in the code; the reference is a
  syntax tree with the usual meaning, printed with the parentheses precedence needs.
\<close>

subsection \<open>Atoms\<close>

datatype ctx_value = CtxValue (cv_str: string) (cv_truthy: bool)

type_synonym ctx_map = "(string, ctx_value) dict"

definition compare :: "bool \<Rightarrow> string \<times> string \<Rightarrow> ctx_map \<Rightarrow> bool" where
  "compare negated kv ctx =
     (let key = py_strip (fst kv); val = py_strip (snd kv) in
      if key = [] \<or> val = [] then False
      else case dget ctx key of
             None \<Rightarrow> negated
           | Some v \<Rightarrow> if negated then cv_str v \<noteq> val else cv_str v = val)"

definition eval_comparison :: "string \<Rightarrow> ctx_map \<Rightarrow> bool option" where
  "eval_comparison expr ctx =
     (case partition_at ''!='' expr of
        Some kv \<Rightarrow> Some (compare True kv ctx)
      | None \<Rightarrow> (case partition_at ''=='' expr of
          Some kv \<Rightarrow> Some (compare False kv ctx)
        | None \<Rightarrow> None))"

definition eval_atom :: "string \<Rightarrow> ctx_map \<Rightarrow> bool" where
  "eval_atom e ctx =
     (let expr = py_strip e; lower = List.map ascii_lower expr in
      if expr = [] then False
      else if lower = ''true'' then True
      else if lower = ''false'' then False
      else case eval_comparison expr ctx of
             Some r \<Rightarrow> r
           | None \<Rightarrow> (case dget ctx expr of None \<Rightarrow> False | Some v \<Rightarrow> cv_truthy v))"

subsection \<open>Tokenizer\<close>

definition keyword_match :: "string \<Rightarrow> char option \<Rightarrow> string \<Rightarrow> (char option \<times> string) option" where
  "keyword_match kw prev rest =
     (case skip_lit kw prev rest of
        None \<Rightarrow> None
      | Some (p, r) \<Rightarrow> if boundary prev rest \<and> boundary p r then Some (p, r) else None)"

text \<open>\<open>\b(AND|OR|NOT)\b\<close> without case at a position: the keyword in capitals and what follows it.\<close>

definition keyword_at :: "char option \<Rightarrow> string \<Rightarrow> (string \<times> char option \<times> string) option" where
  "keyword_at prev rest =
     (case keyword_match ''and'' prev rest of
        Some (p, r) \<Rightarrow> Some (''AND'', p, r)
      | None \<Rightarrow> (case keyword_match ''or'' prev rest of
          Some (p, r) \<Rightarrow> Some (''OR'', p, r)
        | None \<Rightarrow> (case keyword_match ''not'' prev rest of
            Some (p, r) \<Rightarrow> Some (''NOT'', p, r)
          | None \<Rightarrow> None)))"

lemma keyword_at_shorter: "keyword_at prev rest = Some (kw, p, r) \<Longrightarrow> length r < length rest"
  by (auto simp: keyword_at_def keyword_match_def dest!: skip_lit_suffix split: option.splits if_splits)

definition flush :: "string \<Rightarrow> string list" where
  "flush acc = (let atom = py_strip acc in if atom = [] then [] else [atom])"

definition is_paren :: "char \<Rightarrow> bool" where
  "is_paren c \<longleftrightarrow> c = CHR ''('' \<or> c = CHR '')''"

function tokenize_from :: "char option \<Rightarrow> string \<Rightarrow> string \<Rightarrow> string list" where
  "tokenize_from prev acc rest =
     (case rest of
        [] \<Rightarrow> flush acc
      | c # cs \<Rightarrow>
          if is_paren c then flush acc @ [c] # tokenize_from (Some c) [] cs
          else (case keyword_at prev rest of
                  Some (kw, p, r) \<Rightarrow> flush acc @ kw # tokenize_from p [] r
                | None \<Rightarrow> tokenize_from (Some c) (acc @ [c]) cs))"
  by pat_completeness auto
termination
  by (relation "measure (\<lambda>(prev, acc, rest). length rest)") (auto dest: keyword_at_shorter)

declare tokenize_from.simps [simp del]

definition tokenize :: "string \<Rightarrow> string list" where
  "tokenize expression = tokenize_from None [] expression"

fun compound_from :: "char option \<Rightarrow> string \<Rightarrow> bool" where
  "compound_from prev [] = False"
| "compound_from prev (c # cs) = (is_paren c \<or> keyword_at prev (c # cs) \<noteq> None \<or> compound_from (Some c) cs)"

definition has_compound_operators :: "string \<Rightarrow> bool" where
  "has_compound_operators expression = compound_from None expression"

subsection \<open>Parser\<close>

text \<open>
  Every call of a Python function takes a frame of the interpreter's stack. The first argument of a parser is the
  number of frames that are left when it is called: with none left the call raises \<open>RecursionError\<close>. The two loops
  run in the frame of their function. An atom takes the frame of \<open>_eval_atom\<close> and, unless it is blank or a
  literal, one more for \<open>_eval_comparison\<close>.
\<close>

datatype parse_error = MissingOperand | UnclosedParenthesis | UnexpectedToken string | RecursionError

type_synonym parsed = "parse_error + bool \<times> string list"

definition atom_frames :: "string \<Rightarrow> nat" where
  "atom_frames e = (if py_strip e = [] \<or> List.map ascii_lower (py_strip e) \<in> {''true'', ''false''} then 1 else 2)"

definition call_eval_atom :: "nat \<Rightarrow> string \<Rightarrow> ctx_map \<Rightarrow> parse_error + bool" where
  "call_eval_atom n e ctx = (if n < atom_frames e then Inl RecursionError else Inr (eval_atom e ctx))"

function parse_or :: "nat \<Rightarrow> ctx_map \<Rightarrow> string list \<Rightarrow> parsed"
  and or_loop :: "nat \<Rightarrow> ctx_map \<Rightarrow> bool \<Rightarrow> string list \<Rightarrow> parsed"
  and parse_and :: "nat \<Rightarrow> ctx_map \<Rightarrow> string list \<Rightarrow> parsed"
  and and_loop :: "nat \<Rightarrow> ctx_map \<Rightarrow> bool \<Rightarrow> string list \<Rightarrow> parsed"
  and parse_not :: "nat \<Rightarrow> ctx_map \<Rightarrow> string list \<Rightarrow> parsed"
  and parse_atom_token :: "nat \<Rightarrow> ctx_map \<Rightarrow> string list \<Rightarrow> parsed"
where
  "parse_or n ctx ts =
     (if n = 0 then Inl RecursionError
      else case parse_and (n - 1) ctx ts of Inl e \<Rightarrow> Inl e | Inr (v, r) \<Rightarrow> or_loop (n - 1) ctx v r)"
| "or_loop n ctx left ts =
     (case ts of
        [] \<Rightarrow> Inr (left, [])
      | t # r \<Rightarrow>
          if t = ''OR''
          then (case parse_and n ctx r of Inl e \<Rightarrow> Inl e | Inr (right, r') \<Rightarrow> or_loop n ctx (left \<or> right) r')
          else Inr (left, ts))"
| "parse_and n ctx ts =
     (if n = 0 then Inl RecursionError
      else case parse_not (n - 1) ctx ts of Inl e \<Rightarrow> Inl e | Inr (v, r) \<Rightarrow> and_loop (n - 1) ctx v r)"
| "and_loop n ctx left ts =
     (case ts of
        [] \<Rightarrow> Inr (left, [])
      | t # r \<Rightarrow>
          if t = ''AND''
          then (case parse_not n ctx r of Inl e \<Rightarrow> Inl e | Inr (right, r') \<Rightarrow> and_loop n ctx (left \<and> right) r')
          else Inr (left, ts))"
| "parse_not n ctx ts =
     (if n = 0 then Inl RecursionError
      else case ts of
        [] \<Rightarrow> parse_atom_token (n - 1) ctx []
      | t # r \<Rightarrow>
          if t = ''NOT'' then (case parse_not (n - 1) ctx r of Inl e \<Rightarrow> Inl e | Inr (v, r') \<Rightarrow> Inr (\<not> v, r'))
          else parse_atom_token (n - 1) ctx ts)"
| "parse_atom_token n ctx ts =
     (if n = 0 then Inl RecursionError
      else case ts of
        [] \<Rightarrow> Inl MissingOperand
      | t # r \<Rightarrow>
          if t = ''('' then
            (case parse_or (n - 1) ctx r of
               Inl e \<Rightarrow> Inl e
             | Inr (v, r') \<Rightarrow> (case r' of
                 [] \<Rightarrow> Inl UnclosedParenthesis
               | c # r'' \<Rightarrow> if c \<noteq> '')'' then Inl UnclosedParenthesis else Inr (v, r'')))
          else if t = ''AND'' \<or> t = ''OR'' \<or> t = ''NOT'' \<or> t = '')'' then Inl (UnexpectedToken t)
          else (case call_eval_atom (n - 1) t ctx of Inl e \<Rightarrow> Inl e | Inr v \<Rightarrow> Inr (v, r)))"
  by pat_completeness auto

text \<open>
  Termination: every parser consumes at least one token, so the loops work on shorter and shorter
  lists. The levels order the calls that do not consume anything.
\<close>

lemmas parse_pinduct = parse_or_or_loop_parse_and_and_loop_parse_not_parse_atom_token.pinduct
abbreviation parse_dom
  where "parse_dom \<equiv> parse_or_or_loop_parse_and_and_loop_parse_not_parse_atom_token_dom"

lemma parse_shorter:
  "parse_dom (Inl (Inl (n, ctx, ts))) \<Longrightarrow> (\<forall>v r. parse_or n ctx ts = Inr (v, r) \<longrightarrow> length r < length ts)"
  "parse_dom (Inl (Inr (Inl (n, ctx, l, ts)))) \<Longrightarrow> (\<forall>v r. or_loop n ctx l ts = Inr (v, r) \<longrightarrow> length r \<le> length ts)"
  "parse_dom (Inl (Inr (Inr (n, ctx, ts)))) \<Longrightarrow> (\<forall>v r. parse_and n ctx ts = Inr (v, r) \<longrightarrow> length r < length ts)"
  "parse_dom (Inr (Inl (n, ctx, l, ts))) \<Longrightarrow> (\<forall>v r. and_loop n ctx l ts = Inr (v, r) \<longrightarrow> length r \<le> length ts)"
  "parse_dom (Inr (Inr (Inl (n, ctx, ts)))) \<Longrightarrow> (\<forall>v r. parse_not n ctx ts = Inr (v, r) \<longrightarrow> length r < length ts)"
  "parse_dom (Inr (Inr (Inr (n, ctx, ts)))) \<Longrightarrow> (\<forall>v r. parse_atom_token n ctx ts = Inr (v, r) \<longrightarrow> length r < length ts)"
proof (induction n ctx ts and n ctx l ts and n ctx ts and n ctx l ts and n ctx ts and n ctx ts rule: parse_pinduct)
  case (1 n ctx ts)
  then show ?case by (fastforce simp: parse_or.psimps split: sum.splits if_splits)
next
  case (2 n ctx l ts)
  then show ?case by (fastforce simp: or_loop.psimps split: sum.splits list.splits if_splits)
next
  case (3 n ctx ts)
  then show ?case by (fastforce simp: parse_and.psimps split: sum.splits if_splits)
next
  case (4 n ctx l ts)
  then show ?case by (fastforce simp: and_loop.psimps split: sum.splits list.splits if_splits)
next
  case (5 n ctx ts)
  then show ?case by (fastforce simp: parse_not.psimps split: sum.splits list.splits if_splits)
next
  case (6 n ctx ts)
  then show ?case by (fastforce simp: parse_atom_token.psimps split: sum.splits list.splits if_splits)
qed

fun parse_measure where
  "parse_measure (Inl (Inl (n, ctx, ts))) = (length ts, 4::nat)"
| "parse_measure (Inl (Inr (Inl (n, ctx, l, ts)))) = (length ts, 0)"
| "parse_measure (Inl (Inr (Inr (n, ctx, ts)))) = (length ts, 3)"
| "parse_measure (Inr (Inl (n, ctx, l, ts))) = (length ts, 0)"
| "parse_measure (Inr (Inr (Inl (n, ctx, ts)))) = (length ts, 2)"
| "parse_measure (Inr (Inr (Inr (n, ctx, ts)))) = (length ts, 1)"

termination parse_or
proof (relation "inv_image (less_than <*lex*> less_than) parse_measure", goal_cases)
qed (auto dest: parse_shorter(3) parse_shorter(5))

declare parse_or.simps [simp del] or_loop.simps [simp del] parse_and.simps [simp del] and_loop.simps [simp del]
  parse_not.simps [simp del] parse_atom_token.simps [simp del]

lemmas parse_simps = parse_or.simps or_loop.simps parse_and.simps and_loop.simps parse_not.simps parse_atom_token.simps

lemma no_frames [simp]:
  "parse_or 0 ctx ts = Inl RecursionError" "parse_and 0 ctx ts = Inl RecursionError"
  "parse_not 0 ctx ts = Inl RecursionError" "parse_atom_token 0 ctx ts = Inl RecursionError"
  by (simp_all add: parse_simps)

subsection \<open>Evaluation\<close>

definition MAX_TOKEN_COUNT :: nat where
  "MAX_TOKEN_COUNT = 256"

definition KEYWORDS :: "string set" where
  "KEYWORDS = {''and'', ''or'', ''not''}"

text \<open>
  \<open>expr.upper() in _KEYWORDS\<close> is decided on small letters here; the two agree on code points below 256.
  \<open>_has_compound_operators\<close> and \<open>_tokenize\<close> each take one frame.
\<close>

definition evaluate_inner :: "nat \<Rightarrow> string \<Rightarrow> ctx_map \<Rightarrow> parse_error + bool" where
  "evaluate_inner n expr ctx =
     (if n = 0 then Inl RecursionError
      else if \<not> has_compound_operators expr \<or> List.map ascii_lower expr \<in> KEYWORDS then call_eval_atom n expr ctx
      else let tokens = tokenize expr in
        if tokens = [] then Inr False
        else if length tokens > MAX_TOKEN_COUNT then Inr False
        else case parse_or n ctx tokens of
               Inl e \<Rightarrow> Inl e
             | Inr (result, rest) \<Rightarrow> if rest \<noteq> [] then Inr False else Inr result)"

text \<open>The first argument is the number of frames left while \<open>evaluate_condition\<close> runs; it re-raises \<open>RecursionError\<close> only.\<close>

definition evaluate_condition :: "nat \<Rightarrow> string \<Rightarrow> ctx_map \<Rightarrow> parse_error + bool" where
  "evaluate_condition n expression ctx =
     (let expr = py_strip expression in
      if expr = [] then Inr False
      else if n = 0 then Inl RecursionError
      else case evaluate_inner (n - 1) expr ctx of
             Inl RecursionError \<Rightarrow> Inl RecursionError
           | Inl _ \<Rightarrow> Inr False
           | Inr b \<Rightarrow> Inr b)"

subsection \<open>The reference grammar\<close>

datatype cexp = CAtom string | CNot cexp | CAnd cexp cexp | COr cexp cexp

fun sem :: "cexp \<Rightarrow> ctx_map \<Rightarrow> bool" where
  "sem (CAtom a) ctx = eval_atom a ctx"
| "sem (CNot e) ctx = (\<not> sem e ctx)"
| "sem (CAnd a b) ctx = (sem a ctx \<and> sem b ctx)"
| "sem (COr a b) ctx = (sem a ctx \<or> sem b ctx)"

definition operators :: "string set" where
  "operators = {''AND'', ''OR'', ''NOT'', ''('', '')''}"

text \<open>
  \<open>derives p e ts\<close>: the tokens \<open>ts\<close> read as \<open>e\<close> at level \<open>p\<close>, where 0 is a disjunction, 1 a conjunction
  and 2 a negation, an atom or a group; the binary operators associate to the left.
\<close>

inductive derives :: "nat \<Rightarrow> cexp \<Rightarrow> string list \<Rightarrow> bool" where
  d_atom: "t \<notin> operators \<Longrightarrow> derives 2 (CAtom t) [t]"
| d_group: "derives 0 e us \<Longrightarrow> derives 2 e (''('' # us @ ['')''])"
| d_not: "derives 2 e us \<Longrightarrow> derives 2 (CNot e) (''NOT'' # us)"
| d_and: "derives 1 a us \<Longrightarrow> derives 2 b vs \<Longrightarrow> derives 1 (CAnd a b) (us @ ''AND'' # vs)"
| d_up1: "derives 2 e us \<Longrightarrow> derives 1 e us"
| d_or: "derives 0 a us \<Longrightarrow> derives 1 b vs \<Longrightarrow> derives 0 (COr a b) (us @ ''OR'' # vs)"
| d_up0: "derives 1 e us \<Longrightarrow> derives 0 e us"

lemma loop_stop:
  "ts = [] \<or> hd ts \<noteq> ''AND'' \<Longrightarrow> and_loop n ctx l ts = Inr (l, ts)"
  "ts = [] \<or> hd ts \<noteq> ''OR'' \<Longrightarrow> or_loop n ctx l ts = Inr (l, ts)"
  by (auto simp: and_loop.simps or_loop.simps split: list.splits)

lemma loop_go:
  "or_loop n ctx l (''OR'' # q) = (case parse_and n ctx q of Inl e \<Rightarrow> Inl e | Inr (v, r) \<Rightarrow> or_loop n ctx (l \<or> v) r)"
  "and_loop n ctx l (''AND'' # q) = (case parse_not n ctx q of Inl e \<Rightarrow> Inl e | Inr (v, r) \<Rightarrow> and_loop n ctx (l \<and> v) r)"
  by (simp_all add: or_loop.simps [of n ctx l "''OR'' # q"] and_loop.simps [of n ctx l "''AND'' # q"])

text \<open>Frames for the groups and negations of a token list: four for a parenthesis, one for a negation.\<close>

definition nesting :: "string list \<Rightarrow> nat" where
  "nesting ts = 4 * count_list ts ''('' + count_list ts ''NOT''"

lemma nesting_simps [simp]: "nesting (us @ ts) = nesting us + nesting ts" "nesting [] = 0"
  by (simp_all add: nesting_def)

lemma nesting_Cons: "nesting (t # ts) = (if t = ''('' then 4 else if t = ''NOT'' then 1 else 0) + nesting ts"
  by (simp add: nesting_def)

lemma atom_frames_le: "1 \<le> atom_frames t" "atom_frames t \<le> 2"
  by (simp_all add: atom_frames_def)

lemma parse_complete:
  "derives p e us \<Longrightarrow>
     (p = 2 \<longrightarrow> (\<forall>r n. nesting us + 4 \<le> n \<longrightarrow> parse_not n ctx (us @ r) = Inr (sem e ctx, r))) \<and>
     (p = 1 \<longrightarrow> (\<forall>r n. nesting us + 5 \<le> n \<longrightarrow> parse_and n ctx (us @ r) = and_loop (n - 1) ctx (sem e ctx) r)) \<and>
     (p = 0 \<longrightarrow> (\<forall>r n. nesting us + 6 \<le> n \<longrightarrow> r = [] \<or> hd r \<noteq> ''AND'' \<longrightarrow>
        parse_or n ctx (us @ r) = or_loop (n - 1) ctx (sem e ctx) r))"
proof (induction rule: derives.induct)
  case (d_atom t)
  have "\<not> n - Suc (Suc 0) < atom_frames t" if "4 \<le> n" for n using that atom_frames_le(2) [of t] by linarith
  then show ?case using d_atom
    by (auto simp: parse_not.simps parse_atom_token.simps operators_def call_eval_atom_def nesting_Cons)
next
  case (d_group e us)
  then show ?case by (simp add: parse_not.simps parse_atom_token.simps loop_stop nesting_Cons)
next
  case (d_not e us)
  then show ?case by (simp add: parse_not.simps [of _ _ "''NOT'' # _"] nesting_Cons)
next
  case (d_and a us b vs)
  then show ?case by (simp add: and_loop.simps nesting_Cons)
next
  case (d_or a us b vs)
  then show ?case by (simp add: loop_stop or_loop.simps nesting_Cons)
next
  case (d_up1 e us)
  then show ?case by (simp add: parse_and.simps)
next
  case (d_up0 e us)
  then show ?case by (simp add: parse_or.simps loop_stop)
qed

lemma parse_group:
  "parse_atom_token (Suc n) ctx (''('' # q) = Inr (v, r) \<longleftrightarrow> parse_or n ctx q = Inr (v, '')'' # r)"
proof (cases "parse_or n ctx q")
  case (Inr x)
  then obtain w q' where x: "parse_or n ctx q = Inr (w, q')" by (cases x) auto
  show ?thesis
  proof (cases q')
    case Nil
    then show ?thesis by (simp add: parse_atom_token.simps x)
  next
    case (Cons c r')
    then show ?thesis by (cases "c = '')''") (simp_all add: parse_atom_token.simps x)
  qed
qed (simp add: parse_atom_token.simps)

lemma parse_sound:
  "parse_or n ctx ts = Inr (v, r) \<Longrightarrow> \<exists>e us. ts = us @ r \<and> derives 0 e us \<and> v = sem e ctx"
  "or_loop n ctx l ts = Inr (v, r) \<Longrightarrow> derives 0 e0 us0 \<Longrightarrow> l = sem e0 ctx \<Longrightarrow>
     \<exists>e us. us0 @ ts = us @ r \<and> derives 0 e us \<and> v = sem e ctx"
  "parse_and n ctx ts = Inr (v, r) \<Longrightarrow> \<exists>e us. ts = us @ r \<and> derives 1 e us \<and> v = sem e ctx"
  "and_loop n ctx l ts = Inr (v, r) \<Longrightarrow> derives 1 e0 us0 \<Longrightarrow> l = sem e0 ctx \<Longrightarrow>
     \<exists>e us. us0 @ ts = us @ r \<and> derives 1 e us \<and> v = sem e ctx"
  "parse_not n ctx ts = Inr (v, r) \<Longrightarrow> \<exists>e us. ts = us @ r \<and> derives 2 e us \<and> v = sem e ctx"
  "parse_atom_token n ctx ts = Inr (v, r) \<Longrightarrow> \<exists>e us. ts = us @ r \<and> derives 2 e us \<and> v = sem e ctx"
proof (induction n ctx ts and n ctx l ts and n ctx ts and n ctx l ts and n ctx ts and n ctx ts
    arbitrary: v r and v r e0 us0 and v r and v r e0 us0 and v r and v r
    rule: parse_or_or_loop_parse_and_and_loop_parse_not_parse_atom_token.induct)
  case (1 n ctx ts)
  obtain w q where a: "n \<noteq> 0" "parse_and (n - 1) ctx ts = Inr (w, q)" "or_loop (n - 1) ctx w q = Inr (v, r)"
    using "1.prems" by (auto simp: parse_or.simps split: sum.splits if_splits)
  obtain e us where e: "ts = us @ q" "derives 1 e us" "w = sem e ctx" using "1.IH"(1) [OF a(1,2)] by blast
  show ?case using "1.IH"(2) [OF a(1,2) refl a(3) d_up0 [OF e(2)] e(3)] e(1) by auto
next
  case (2 n ctx l ts)
  show ?case
  proof (cases "ts = [] \<or> hd ts \<noteq> ''OR''")
    case True
    then show ?thesis using "2.prems" by (auto simp: loop_stop)
  next
    case False
    then obtain q where ts: "ts = ''OR'' # q" by (cases ts) auto
    obtain w q' where a: "parse_and n ctx q = Inr (w, q')" "or_loop n ctx (l \<or> w) q' = Inr (v, r)"
      using "2.prems"(1) by (auto simp: ts or_loop.simps split: sum.splits)
    obtain e us where e: "q = us @ q'" "derives 1 e us" "w = sem e ctx" using "2.IH"(1) [OF ts refl a(1)] by blast
    have "derives 0 (COr e0 e) (us0 @ ''OR'' # us)" "(l \<or> w) = sem (COr e0 e) ctx"
      using "2.prems"(2,3) e by (auto intro: d_or)
    from "2.IH"(2) [OF ts refl a(1) refl a(2) this] show ?thesis by (simp add: ts e(1))
  qed
next
  case (3 n ctx ts)
  obtain w q where a: "n \<noteq> 0" "parse_not (n - 1) ctx ts = Inr (w, q)" "and_loop (n - 1) ctx w q = Inr (v, r)"
    using "3.prems" by (auto simp: parse_and.simps split: sum.splits if_splits)
  obtain e us where e: "ts = us @ q" "derives 2 e us" "w = sem e ctx" using "3.IH"(1) [OF a(1,2)] by blast
  show ?case using "3.IH"(2) [OF a(1,2) refl a(3) d_up1 [OF e(2)] e(3)] e(1) by auto
next
  case (4 n ctx l ts)
  show ?case
  proof (cases "ts = [] \<or> hd ts \<noteq> ''AND''")
    case True
    then show ?thesis using "4.prems" by (auto simp: loop_stop)
  next
    case False
    then obtain q where ts: "ts = ''AND'' # q" by (cases ts) auto
    obtain w q' where a: "parse_not n ctx q = Inr (w, q')" "and_loop n ctx (l \<and> w) q' = Inr (v, r)"
      using "4.prems"(1) by (auto simp: ts and_loop.simps split: sum.splits)
    obtain e us where e: "q = us @ q'" "derives 2 e us" "w = sem e ctx" using "4.IH"(1) [OF ts refl a(1)] by blast
    have "derives 1 (CAnd e0 e) (us0 @ ''AND'' # us)" "(l \<and> w) = sem (CAnd e0 e) ctx"
      using d_and [OF "4.prems"(2) e(2)] "4.prems"(3) e(3) by simp_all
    from "4.IH"(2) [OF ts refl a(1) refl a(2) this] show ?thesis by (simp add: ts e(1))
  qed
next
  case (5 n ctx ts)
  have n: "n \<noteq> 0" using "5.prems" by (cases "n = 0") simp_all
  show ?case
  proof (cases "ts \<noteq> [] \<and> hd ts = ''NOT''")
    case True
    then obtain q where ts: "ts = ''NOT'' # q" by (cases ts) auto
    obtain w where a: "parse_not (n - 1) ctx q = Inr (w, r)" "v = (\<not> w)"
      using "5.prems" n by (auto simp: ts parse_not.simps [of n ctx "''NOT'' # q"] split: sum.splits)
    from "5.IH"(2) [OF n ts refl a(1)] obtain e us where "q = us @ r" "derives 2 e us" "w = sem e ctx" by blast
    then have "ts = (''NOT'' # us) @ r" "derives 2 (CNot e) (''NOT'' # us)" "v = sem (CNot e) ctx"
      using d_not [of e us] a(2) ts by simp_all
    then show ?thesis by blast
  next
    case False
    then have "parse_atom_token (n - 1) ctx ts = Inr (v, r)" using "5.prems" n by (auto simp: parse_not.simps split: list.splits)
    then show ?thesis using "5.IH"(1,3) [OF n] False by (cases ts) auto
  qed
next
  case (6 n ctx ts)
  have n: "n \<noteq> 0" using "6.prems" by (cases "n = 0") simp_all
  obtain t q where ts: "ts = t # q" using "6.prems" n by (cases ts) (auto simp: parse_atom_token.simps)
  show ?case
  proof (cases "t = ''(''")
    case True
    then have a: "parse_or (n - 1) ctx q = Inr (v, '')'' # r)" using "6.prems" parse_group [of "n - 1"] n by (simp add: ts)
    from "6.IH" [OF n ts True a] obtain e us where "q = us @ '')'' # r" "derives 0 e us" "v = sem e ctx" by blast
    then have "ts = (''('' # us @ ['')'']) @ r" "derives 2 e (''('' # us @ ['')''])" "v = sem e ctx"
      using d_group [of e us] ts True by simp_all
    then show ?thesis by blast
  next
    case False
    then have "t \<notin> operators" "v = sem (CAtom t) ctx" "q = r"
      using "6.prems" n by (auto simp: ts parse_atom_token.simps operators_def call_eval_atom_def split: if_splits)
    then have "ts = [t] @ r" "derives 2 (CAtom t) [t]" "v = sem (CAtom t) ctx" using d_atom [of t] ts by simp_all
    then show ?thesis by blast
  qed
qed

text \<open>What a parser leaves needs no more frames than what it was given.\<close>

lemma parse_rest_nesting:
  "parse_and n ctx ts = Inr (v, r) \<Longrightarrow> nesting r \<le> nesting ts" "parse_not n ctx ts = Inr (v, r) \<Longrightarrow> nesting r \<le> nesting ts"
  using parse_sound(3) [of n ctx ts v r] parse_sound(5) [of n ctx ts v r] by auto

lemma parse_recursion:
  "parse_or n ctx ts = Inl RecursionError \<Longrightarrow> n < nesting ts + 6"
  "or_loop n ctx l ts = Inl RecursionError \<Longrightarrow> n < nesting ts + 5"
  "parse_and n ctx ts = Inl RecursionError \<Longrightarrow> n < nesting ts + 5"
  "and_loop n ctx l ts = Inl RecursionError \<Longrightarrow> n < nesting ts + 4"
  "parse_not n ctx ts = Inl RecursionError \<Longrightarrow> n < nesting ts + 4"
  "parse_atom_token n ctx ts = Inl RecursionError \<Longrightarrow> n < nesting ts + 3"
proof (induction n ctx ts and n ctx l ts and n ctx ts and n ctx l ts and n ctx ts and n ctx ts
    rule: parse_or_or_loop_parse_and_and_loop_parse_not_parse_atom_token.induct)
  case (1 n ctx ts)
  show ?case
  proof (cases "parse_and (n - 1) ctx ts")
    case (Inl e)
    then show ?thesis using "1.IH"(1) "1.prems" by (cases "n = 0") (auto simp: parse_or.simps)
  next
    case (Inr x)
    then obtain w q where x: "parse_and (n - 1) ctx ts = Inr (w, q)" by (cases x) auto
    then show ?thesis using "1.IH"(2) [OF _ x refl] "1.prems" parse_rest_nesting(1) [OF x]
      by (cases "n = 0") (auto simp: parse_or.simps)
  qed
next
  case (2 n ctx l ts)
  then obtain q where ts: "ts = ''OR'' # q" using loop_stop(2) [of ts n ctx l] by (cases ts) auto
  show ?case
  proof (cases "parse_and n ctx q")
    case (Inl e)
    then show ?thesis using "2.IH"(1) [OF ts refl] "2.prems" by (auto simp: loop_go ts nesting_Cons)
  next
    case (Inr x)
    then obtain w r where x: "parse_and n ctx q = Inr (w, r)" by (cases x) auto
    then show ?thesis using "2.IH"(2) [OF ts refl x refl] "2.prems" parse_rest_nesting(1) [OF x]
      by (auto simp: loop_go ts nesting_Cons)
  qed
next
  case (3 n ctx ts)
  show ?case
  proof (cases "parse_not (n - 1) ctx ts")
    case (Inl e)
    then show ?thesis using "3.IH"(1) "3.prems" by (cases "n = 0") (auto simp: parse_and.simps)
  next
    case (Inr x)
    then obtain w q where x: "parse_not (n - 1) ctx ts = Inr (w, q)" by (cases x) auto
    then show ?thesis using "3.IH"(2) [OF _ x refl] "3.prems" parse_rest_nesting(2) [OF x]
      by (cases "n = 0") (auto simp: parse_and.simps)
  qed
next
  case (4 n ctx l ts)
  then obtain q where ts: "ts = ''AND'' # q" using loop_stop(1) [of ts n ctx l] by (cases ts) auto
  show ?case
  proof (cases "parse_not n ctx q")
    case (Inl e)
    then show ?thesis using "4.IH"(1) [OF ts refl] "4.prems" by (auto simp: loop_go ts nesting_Cons)
  next
    case (Inr x)
    then obtain w r where x: "parse_not n ctx q = Inr (w, r)" by (cases x) auto
    then show ?thesis using "4.IH"(2) [OF ts refl x refl] "4.prems" parse_rest_nesting(2) [OF x]
      by (auto simp: loop_go ts nesting_Cons)
  qed
next
  case (5 n ctx ts)
  then show ?case
    by (fastforce simp: parse_not.simps [of n ctx ts] nesting_Cons split: list.splits if_splits sum.splits)
next
  case (6 n ctx ts)
  show ?case
  proof (cases "n = 0 \<or> ts = []")
    case True
    then show ?thesis using "6.prems" by (auto simp: parse_atom_token.simps split: if_splits)
  next
    case False
    then obtain t q where ts: "n \<noteq> 0" "ts = t # q" by (cases ts) auto
    show ?thesis
    proof (cases "t = ''(''")
      case True
      then show ?thesis using "6.IH" [OF ts True] "6.prems" ts
        by (cases "parse_or (n - 1) ctx q") (auto simp: parse_atom_token.simps [of n] nesting_Cons split: list.splits if_splits)
    next
      case False
      then have "n - 1 < atom_frames t"
        using "6.prems" ts by (auto simp: parse_atom_token.simps call_eval_atom_def split: if_splits)
      then show ?thesis using atom_frames_le(2) [of t] by linarith
    qed
  qed
qed

text \<open>More frames change nothing but a \<open>RecursionError\<close>.\<close>

lemma parse_more_frames:
  "parse_or n ctx ts \<noteq> Inl RecursionError \<Longrightarrow> n \<le> k \<Longrightarrow> parse_or k ctx ts = parse_or n ctx ts"
  "or_loop n ctx l ts \<noteq> Inl RecursionError \<Longrightarrow> n \<le> k \<Longrightarrow> or_loop k ctx l ts = or_loop n ctx l ts"
  "parse_and n ctx ts \<noteq> Inl RecursionError \<Longrightarrow> n \<le> k \<Longrightarrow> parse_and k ctx ts = parse_and n ctx ts"
  "and_loop n ctx l ts \<noteq> Inl RecursionError \<Longrightarrow> n \<le> k \<Longrightarrow> and_loop k ctx l ts = and_loop n ctx l ts"
  "parse_not n ctx ts \<noteq> Inl RecursionError \<Longrightarrow> n \<le> k \<Longrightarrow> parse_not k ctx ts = parse_not n ctx ts"
  "parse_atom_token n ctx ts \<noteq> Inl RecursionError \<Longrightarrow> n \<le> k \<Longrightarrow> parse_atom_token k ctx ts = parse_atom_token n ctx ts"
proof (induction n ctx ts and n ctx l ts and n ctx ts and n ctx l ts and n ctx ts and n ctx ts
    arbitrary: k and k and k and k and k and k
    rule: parse_or_or_loop_parse_and_and_loop_parse_not_parse_atom_token.induct)
  case (1 n ctx ts)
  have n: "n \<noteq> 0" "k \<noteq> 0" "n - 1 \<le> k - 1" using "1.prems" by (cases "n = 0"; auto)+
  show ?case
  proof (cases "parse_and (n - 1) ctx ts")
    case (Inl e)
    then show ?thesis using "1.IH"(1) [OF n(1) _ n(3)] "1.prems"(1) n by (simp add: parse_or.simps)
  next
    case (Inr x)
    then obtain w q where x: "parse_and (n - 1) ctx ts = Inr (w, q)" by (cases x) auto
    then show ?thesis using "1.IH"(1) [OF n(1) _ n(3)] "1.IH"(2) [OF n(1) x refl _ n(3)] "1.prems"(1) n by (simp add: parse_or.simps)
  qed
next
  case (2 n ctx l ts)
  show ?case
  proof (cases "ts = [] \<or> hd ts \<noteq> ''OR''")
    case False
    then obtain q where ts: "ts = ''OR'' # q" by (cases ts) auto
    show ?thesis
    proof (cases "parse_and n ctx q")
      case (Inl e)
      then show ?thesis using "2.IH"(1) [OF ts refl _ "2.prems"(2)] "2.prems"(1) by (simp add: loop_go ts)
    next
      case (Inr x)
      then obtain w r where x: "parse_and n ctx q = Inr (w, r)" by (cases x) auto
      then show ?thesis
        using "2.IH"(1) [OF ts refl _ "2.prems"(2)] "2.IH"(2) [OF ts refl x refl _ "2.prems"(2)] "2.prems"(1) by (simp add: loop_go ts)
    qed
  qed (simp add: loop_stop)
next
  case (3 n ctx ts)
  have n: "n \<noteq> 0" "k \<noteq> 0" "n - 1 \<le> k - 1" using "3.prems" by (cases "n = 0"; auto)+
  show ?case
  proof (cases "parse_not (n - 1) ctx ts")
    case (Inl e)
    then show ?thesis using "3.IH"(1) [OF n(1) _ n(3)] "3.prems"(1) n by (simp add: parse_and.simps)
  next
    case (Inr x)
    then obtain w q where x: "parse_not (n - 1) ctx ts = Inr (w, q)" by (cases x) auto
    then show ?thesis using "3.IH"(1) [OF n(1) _ n(3)] "3.IH"(2) [OF n(1) x refl _ n(3)] "3.prems"(1) n by (simp add: parse_and.simps)
  qed
next
  case (4 n ctx l ts)
  show ?case
  proof (cases "ts = [] \<or> hd ts \<noteq> ''AND''")
    case False
    then obtain q where ts: "ts = ''AND'' # q" by (cases ts) auto
    show ?thesis
    proof (cases "parse_not n ctx q")
      case (Inl e)
      then show ?thesis using "4.IH"(1) [OF ts refl _ "4.prems"(2)] "4.prems"(1) by (simp add: loop_go ts)
    next
      case (Inr x)
      then obtain w r where x: "parse_not n ctx q = Inr (w, r)" by (cases x) auto
      then show ?thesis
        using "4.IH"(1) [OF ts refl _ "4.prems"(2)] "4.IH"(2) [OF ts refl x refl _ "4.prems"(2)] "4.prems"(1) by (simp add: loop_go ts)
    qed
  qed (simp add: loop_stop)
next
  case (5 n ctx ts)
  have n: "n \<noteq> 0" "k \<noteq> 0" using "5.prems" by (cases "n = 0"; auto)+
  show ?case
  proof (cases ts)
    case Nil
    then show ?thesis using "5.IH"(1) [OF n(1), of "k - 1"] "5.prems" n by (simp add: parse_not.simps [of n] parse_not.simps [of k])
  next
    case (Cons t q)
    then show ?thesis using "5.IH"(2) [OF n(1) Cons, of "k - 1"] "5.IH"(3) [OF n(1) Cons, of "k - 1"] "5.prems" n
      by (cases "parse_not (n - 1) ctx q") (auto simp: parse_not.simps [of n _ "t # q"] parse_not.simps [of k _ "t # q"] split: if_splits)
  qed
next
  case (6 n ctx ts)
  have n: "n \<noteq> 0" "k \<noteq> 0" using "6.prems" by (cases "n = 0"; auto)+
  show ?case
  proof (cases ts)
    case Nil
    then show ?thesis using n by (simp add: parse_atom_token.simps)
  next
    case (Cons t q)
    show ?thesis
    proof (cases "t = ''(''")
      case True
      then show ?thesis using "6.IH" [OF n(1) Cons True, of "k - 1"] "6.prems" n
        by (cases "parse_or (n - 1) ctx q") (auto simp: Cons parse_atom_token.simps)
    next
      case False
      then show ?thesis using "6.prems" n
        by (auto simp: Cons parse_atom_token.simps call_eval_atom_def split: if_splits)
    qed
  qed
qed

subsection \<open>Printing\<close>

text \<open>The tokens of an expression with the groups that precedence and association need.\<close>

definition group_if :: "bool \<Rightarrow> string list \<Rightarrow> string list" where
  "group_if b ts = (if b then ''('' # ts @ ['')''] else ts)"

fun toks :: "nat \<Rightarrow> cexp \<Rightarrow> string list" where
  "toks p (CAtom a) = [a]"
| "toks p (CNot e) = ''NOT'' # toks 2 e"
| "toks p (CAnd a b) = group_if (p > 1) (toks 1 a @ ''AND'' # toks 2 b)"
| "toks p (COr a b) = group_if (p > 0) (toks 0 a @ ''OR'' # toks 1 b)"

fun render :: "string list \<Rightarrow> string" where
  "render [] = []"
| "render [t] = t"
| "render (t # ts) = t @ CHR '' '' # render ts"

fun atoms :: "cexp \<Rightarrow> string list" where
  "atoms (CAtom a) = [a]"
| "atoms (CNot e) = atoms e"
| "atoms (CAnd a b) = atoms a @ atoms b"
| "atoms (COr a b) = atoms a @ atoms b"

text \<open>An atom that can be printed as it is: trimmed, not empty, without keywords and parentheses.\<close>

definition plain_atom :: "string \<Rightarrow> bool" where
  "plain_atom a \<longleftrightarrow> a \<noteq> [] \<and> \<not> py_isspace (hd a) \<and> \<not> py_isspace (last a) \<and> \<not> has_compound_operators a"

lemma derives_lift: "derives 2 e ts \<Longrightarrow> p \<le> 2 \<Longrightarrow> derives p e ts" "derives 1 e ts \<Longrightarrow> p \<le> 1 \<Longrightarrow> derives p e ts"
proof -
  show one: "p \<le> 1 \<Longrightarrow> derives p e ts" if "derives 1 e ts" for p
    using that d_up0 by (cases "p = 0") (auto simp: le_Suc_eq)
  show "derives 2 e ts \<Longrightarrow> p \<le> 2 \<Longrightarrow> derives p e ts"
    using d_up1 [of e ts] one [of p] by (cases "p = 2") auto
qed

lemma derives_group_if:
  "derives q e ts \<Longrightarrow> q \<le> 1 \<Longrightarrow> p \<le> 2 \<Longrightarrow> derives p e (group_if (p > q) ts)"
proof -
  assume a: "derives q e ts" "q \<le> 1" "p \<le> 2"
  have zero: "derives 0 e ts" using a(1,2) d_up0 by (cases "q = 0") (auto simp: le_Suc_eq)
  show "derives p e (group_if (p > q) ts)"
  proof (cases "p > q")
    case True
    then show ?thesis using derives_lift(1) [OF d_group [OF zero] a(3)] by (simp add: group_if_def)
  next
    case False
    then show ?thesis using a(1,2) zero derives_lift(2) [of e ts p] by (cases "q = 0"; cases "p = 0") (auto simp: group_if_def le_Suc_eq not_less)
  qed
qed

lemma derives_toks: "set (atoms e) \<inter> operators = {} \<Longrightarrow> p \<le> 2 \<Longrightarrow> derives p e (toks p e)"
proof (induction e arbitrary: p)
  case (CAtom a)
  then show ?case using derives_lift(1) [OF d_atom] by simp
next
  case (CNot e)
  then show ?case using derives_lift(1) [OF d_not] by simp
next
  case (CAnd a b)
  then show ?case using derives_group_if [OF d_and, of a "toks 1 a" b "toks 2 b" p] by (simp add: Int_Un_distrib2)
next
  case (COr a b)
  then show ?case using derives_group_if [OF d_or, of a "toks 0 a" b "toks 1 b" p] by (simp add: Int_Un_distrib2)
qed

text \<open>The tokenizer undoes the printer.\<close>

definition sep :: "string \<Rightarrow> bool" where
  "sep b \<longleftrightarrow> (case b of [] \<Rightarrow> True | c # _ \<Rightarrow> c = CHR '' '')"

definition nonword :: "char option \<Rightarrow> bool" where
  "nonword prev \<longleftrightarrow> (case prev of None \<Rightarrow> True | Some c \<Rightarrow> \<not> is_word c)"

lemma space_facts [simp]: "ascii_lower (CHR '' '') = CHR '' ''" "\<not> is_word (CHR '' '')" "py_isspace (CHR '' '')"
  "\<not> is_paren (CHR '' '')"
  by (simp_all add: ascii_lower_def is_word_def py_isspace_def is_paren_def)

lemma skip_lit_sep:
  "sep b \<Longrightarrow> CHR '' '' \<notin> set kw \<Longrightarrow>
   skip_lit kw prev (a @ b) = map_option (\<lambda>(p, r). (p, r @ b)) (skip_lit kw prev a)"
  by (induction kw prev a rule: skip_lit.induct) (auto simp: sep_def split: list.splits)

lemma boundary_sep: "sep b \<Longrightarrow> boundary prev (a @ b) = boundary prev a"
  by (cases a; cases b) (auto simp: boundary_def sep_def)

lemma keyword_match_sep:
  "sep b \<Longrightarrow> CHR '' '' \<notin> set kw \<Longrightarrow>
   keyword_match kw prev (a @ b) = map_option (\<lambda>(p, r). (p, r @ b)) (keyword_match kw prev a)"
  by (auto simp: keyword_match_def skip_lit_sep boundary_sep split: option.splits)

lemma keyword_at_sep:
  "sep b \<Longrightarrow> keyword_at prev (a @ b) = map_option (\<lambda>(kw, p, r). (kw, p, r @ b)) (keyword_at prev a)"
  by (simp add: keyword_at_def keyword_match_sep split: option.splits)

lemma keyword_at_space: "keyword_at prev (CHR '' '' # s) = None"
  by (simp add: keyword_at_def keyword_match_def)

lemma skip_lit_prev: "kw \<noteq> [] \<Longrightarrow> skip_lit kw prev s = skip_lit kw prev' s"
  by (cases kw; cases s) auto

lemma boundary_nonword: "nonword prev \<Longrightarrow> boundary prev s = boundary None s"
  by (auto simp: boundary_def nonword_def split: option.splits)

lemma keyword_match_nonword: "kw \<noteq> [] \<Longrightarrow> nonword prev \<Longrightarrow> keyword_match kw prev s = keyword_match kw None s"
  by (simp add: keyword_match_def boundary_nonword skip_lit_prev [of kw prev s None] split: option.splits)

lemma keyword_at_nonword: "nonword prev \<Longrightarrow> keyword_at prev s = keyword_at None s"
  unfolding keyword_at_def by (simp add: keyword_match_nonword cong: option.case_cong)

lemma compound_from_nonword: "nonword prev \<Longrightarrow> compound_from prev a = compound_from None a"
  by (cases a) (simp_all add: keyword_at_nonword)

lemma tokenize_space: "tokenize_from prev acc (CHR '' '' # s) = tokenize_from (Some (CHR '' '')) (acc @ '' '') s"
  by (simp add: tokenize_from.simps [of prev acc "CHR '' '' # s"] keyword_at_space)

lemma tokenize_plain:
  "\<not> compound_from prev a \<Longrightarrow> sep b \<Longrightarrow>
   tokenize_from prev acc (a @ b) = tokenize_from (if a = [] then prev else Some (last a)) (acc @ a) b"
proof (induction a arbitrary: prev acc)
  case (Cons c cs)
  have "tokenize_from prev acc ((c # cs) @ b) = tokenize_from (Some c) (acc @ [c]) (cs @ b)"
    using Cons.prems keyword_at_sep [of b prev "c # cs"]
    by (cases "keyword_at prev (c # cs)") (simp_all add: tokenize_from.simps [of prev acc "c # cs @ b"])
  also have "\<dots> = tokenize_from (if cs = [] then Some c else Some (last cs)) (acc @ c # cs) b"
    using Cons.IH [of "Some c" "acc @ [c]"] Cons.prems by simp
  finally show ?case by simp
qed simp

lemma keyword_letters:
  "ascii_lower (CHR ''A'') = CHR ''a''" "ascii_lower (CHR ''N'') = CHR ''n''" "ascii_lower (CHR ''D'') = CHR ''d''"
  "ascii_lower (CHR ''O'') = CHR ''o''" "ascii_lower (CHR ''R'') = CHR ''r''" "ascii_lower (CHR ''T'') = CHR ''t''"
  by code_simp+

lemma keyword_tokens:
  assumes "nonword prev"
  shows "keyword_at prev ''AND'' = Some (''AND'', Some (CHR ''D''), [])"
    and "keyword_at prev ''OR'' = Some (''OR'', Some (CHR ''R''), [])"
    and "keyword_at prev ''NOT'' = Some (''NOT'', Some (CHR ''T''), [])"
  using assms
  by (simp_all add: keyword_at_def keyword_match_def boundary_nonword keyword_letters)
    (simp_all add: boundary_def is_word_def)

lemma tokenize_operator:
  assumes "u \<in> operators" and "nonword prev" and "sep b"
  shows "\<exists>p. \<forall>acc. tokenize_from prev acc (u @ b) = flush acc @ u # tokenize_from p [] b"
proof -
  consider "u = ''(''" | "u = '')''" | p where "keyword_at prev u = Some (u, p, [])" "\<not> is_paren (hd u)" "u \<noteq> []"
  proof -
    have "\<not> is_paren (hd ''AND'')" "\<not> is_paren (hd ''OR'')" "\<not> is_paren (hd ''NOT'')" by (simp_all add: is_paren_def)
    then show thesis using that assms(1) keyword_tokens [OF assms(2)] unfolding operators_def by blast
  qed
  then show ?thesis
  proof cases
    case 1
    have "tokenize_from prev acc (u @ b) = flush acc @ u # tokenize_from (Some (CHR ''('')) [] b" for acc
      by (simp add: tokenize_from.simps [of prev acc "CHR ''('' # b"] is_paren_def 1)
    then show ?thesis by blast
  next
    case 2
    have "tokenize_from prev acc (u @ b) = flush acc @ u # tokenize_from (Some (CHR '')'')) [] b" for acc
      by (simp add: tokenize_from.simps [of prev acc "CHR '')'' # b"] is_paren_def 2)
    then show ?thesis by blast
  next
    case (3 p)
    have "tokenize_from prev acc (u @ b) = flush acc @ u # tokenize_from p [] b" for acc
    proof -
      obtain c cs where u: "u = c # cs" using 3(3) by (cases u) auto
      have "keyword_at prev (c # cs @ b) = Some (u, p, b)" using 3(1) keyword_at_sep [OF assms(3), of prev u] by (simp add: u)
      then show ?thesis using 3(2) by (simp add: u tokenize_from.simps [of prev acc "c # cs @ b"])
    qed
    then show ?thesis by blast
  qed
qed

lemma flush_facts:
  "list_all py_isspace acc \<Longrightarrow> flush acc = []"
  "list_all py_isspace acc \<Longrightarrow> list_all py_isspace acc' \<Longrightarrow> plain_atom a \<Longrightarrow> flush (acc @ a @ acc') = [a]"
  by (simp_all add: flush_def py_strip_spaces py_strip_pad plain_atom_def)

definition printable :: "string list \<Rightarrow> bool" where
  "printable ts \<longleftrightarrow> (\<forall>t \<in> set ts. plain_atom t \<or> t \<in> operators) \<and>
     successively (\<lambda>x y. x \<in> operators \<or> y \<in> operators) ts"

lemma tokenize_render:
  "printable ts \<Longrightarrow> nonword prev \<Longrightarrow> list_all py_isspace acc \<Longrightarrow> tokenize_from prev acc (render ts) = ts"
proof (induction ts arbitrary: prev acc rule: render.induct)
  case 1
  then show ?case by (simp add: tokenize_from.simps flush_facts)
next
  case (2 t)
  show ?case
  proof (cases "t \<in> operators")
    case True
    then obtain p where "tokenize_from prev acc (t @ []) = flush acc @ t # tokenize_from p [] []"
      using tokenize_operator [OF True "2.prems"(2), of "[]"] by (auto simp: sep_def)
    then show ?thesis using "2.prems"(3) by (simp add: tokenize_from.simps [of p] flush_facts)
  next
    case False
    then have a: "plain_atom t" using "2.prems"(1) by (simp add: printable_def)
    have "\<not> compound_from prev t"
      using a compound_from_nonword [OF "2.prems"(2)] by (simp add: plain_atom_def has_compound_operators_def)
    from tokenize_plain [OF this, of "[]" acc] flush_facts(2) [OF "2.prems"(3) _ a, of "[]"]
    show ?thesis by (simp add: sep_def tokenize_from.simps [of _ _ "[]"])
  qed
next
  case (3 t u us)
  have pr: "printable (u # us)" using "3.prems"(1) by (simp add: printable_def)
  have s: "sep (CHR '' '' # render (u # us))" "nonword (Some (CHR '' ''))" by (simp_all add: sep_def nonword_def)
  show ?case
  proof (cases "t \<in> operators")
    case True
    then obtain p where "tokenize_from prev acc (t @ CHR '' '' # render (u # us)) =
        flush acc @ t # tokenize_from p [] (CHR '' '' # render (u # us))"
      using tokenize_operator [OF True "3.prems"(2) s(1)] by blast
    then show ?thesis using "3.prems"(3) "3.IH" [OF pr s(2), of "'' ''"] by (simp add: flush_facts tokenize_space)
  next
    case False
    then have a: "plain_atom t" "u \<in> operators" using "3.prems"(1) by (simp_all add: printable_def)
    have nc: "\<not> compound_from prev t"
      using a compound_from_nonword [OF "3.prems"(2)] by (simp add: plain_atom_def has_compound_operators_def)
    obtain b where b: "render (u # us) = u @ b" "sep b" by (cases us) (auto simp: sep_def)
    have "tokenize_from prev acc (t @ CHR '' '' # render (u # us)) = tokenize_from (Some (CHR '' '')) (acc @ t @ '' '') (render (u # us))"
      using tokenize_plain [OF nc s(1)] by (simp add: tokenize_space)
    also have "\<dots> = flush (acc @ t @ '' '') @ tokenize_from (Some (CHR '' '')) [] (render (u # us))"
    proof -
      obtain p where "tokenize_from (Some (CHR '' '')) x (u @ b) = flush x @ u # tokenize_from p [] b" for x
        using tokenize_operator [OF a(2) s(2) b(2)] by blast
      then show ?thesis unfolding b(1) by (simp add: flush_facts)
    qed
    also have "\<dots> = t # u # us"
      using flush_facts(2) [OF "3.prems"(3) _ a(1), of "'' ''"] "3.IH" [OF pr s(2), of "[]"] by simp
    finally show ?thesis by simp
  qed
qed

lemma plain_not_operator: "plain_atom a \<Longrightarrow> a \<notin> operators"
proof
  assume a: "plain_atom a" "a \<in> operators"
  have "has_compound_operators a"
    using a(2) keyword_tokens [of None]
    by (auto simp: operators_def has_compound_operators_def is_paren_def nonword_def)
  then show False using a(1) by (simp add: plain_atom_def)
qed

lemma operator_facts [simp]:
  "''AND'' \<in> operators" "''OR'' \<in> operators" "''NOT'' \<in> operators" "''('' \<in> operators" "'')'' \<in> operators"
  by (simp_all add: operators_def)

lemma printable_simps:
  "printable [t] \<longleftrightarrow> plain_atom t \<or> t \<in> operators"
  "u \<in> operators \<Longrightarrow> printable (u # ts) \<longleftrightarrow> printable ts"
  "u \<in> operators \<Longrightarrow> printable (ts @ u # us) \<longleftrightarrow> printable ts \<and> printable us"
  by (auto simp: printable_def successively_append_iff successively_Cons)

lemma printable_toks: "list_all plain_atom (atoms e) \<Longrightarrow> printable (toks p e)"
proof (induction e arbitrary: p)
  case (CAnd a b)
  then show ?case using printable_simps(3) [of "'')''" _ "[]"]
    by (simp add: group_if_def printable_simps) (simp add: printable_def)
next
  case (COr a b)
  then show ?case using printable_simps(3) [of "'')''" _ "[]"]
    by (simp add: group_if_def printable_simps) (simp add: printable_def)
qed (simp_all add: printable_simps)

lemma toks_nonempty: "0 < length (toks p e)"
  by (cases e) (auto simp: group_if_def)

lemma toks_two: "(\<forall>a. e \<noteq> CAtom a) \<Longrightarrow> 2 \<le> length (toks p e)"
proof (cases e)
  case (CNot x)
  then show ?thesis using toks_nonempty [of 2 x] by (simp add: Suc_le_eq)
next
  case (CAnd x y)
  then show ?thesis using toks_nonempty [of 1 x] by (simp add: group_if_def Suc_le_eq)
next
  case (COr x y)
  then show ?thesis using toks_nonempty [of 0 x] by (simp add: group_if_def Suc_le_eq)
qed simp

lemma token_ends: "plain_atom t \<or> t \<in> operators \<Longrightarrow> t \<noteq> [] \<and> \<not> py_isspace (hd t) \<and> \<not> py_isspace (last t)"
  unfolding plain_atom_def operators_def by (elim disjE conjE insertE emptyE) (simp_all add: py_isspace_def)

lemma printable_ends:
  "printable ts \<Longrightarrow> ts \<noteq> [] \<Longrightarrow> render ts \<noteq> [] \<and> \<not> py_isspace (hd (render ts)) \<and> \<not> py_isspace (last (render ts))"
proof (induction ts rule: render.induct)
  case (2 t)
  then show ?case using token_ends [of t] by (simp add: printable_simps)
next
  case (3 t u us)
  have "plain_atom t \<or> t \<in> operators" "printable (u # us)" using "3.prems"(1) by (simp_all add: printable_def)
  then show ?case using "3.IH" token_ends [of t] by (simp add: hd_append)
qed simp

lemma compound_tokens: "\<not> compound_from prev s \<Longrightarrow> tokenize_from prev acc s = flush (acc @ s)"
  using tokenize_plain [of prev s "[]" acc] by (simp add: sep_def tokenize_from.simps [of _ _ "[]"])

lemma flush_short: "length (flush s) \<le> 1"
  by (simp add: flush_def Let_def)

lemma render_space: "2 \<le> length ts \<Longrightarrow> CHR '' '' \<in> set (render ts)"
  by (cases ts rule: render.cases) auto

lemma space_not_keyword: "CHR '' '' \<in> set s \<Longrightarrow> List.map ascii_lower s \<notin> KEYWORDS"
proof -
  assume "CHR '' '' \<in> set s"
  then have "CHR '' '' \<in> set (List.map ascii_lower s)" by (metis image_eqI list.set_map space_facts(1))
  then show ?thesis unfolding KEYWORDS_def by auto
qed

lemma parse_grammar:
  assumes "nesting ts + 6 \<le> n"
  shows "parse_or n ctx ts = Inr (v, []) \<longleftrightarrow> (\<exists>e. derives 0 e ts \<and> sem e ctx = v)"
proof
  assume "parse_or n ctx ts = Inr (v, [])"
  then show "\<exists>e. derives 0 e ts \<and> sem e ctx = v" using parse_sound(1) [of n ctx ts v "[]"] by auto
next
  assume "\<exists>e. derives 0 e ts \<and> sem e ctx = v"
  then obtain e where e: "derives 0 e ts" "sem e ctx = v" by blast
  have "parse_or n ctx (ts @ []) = or_loop (n - 1) ctx (sem e ctx) []" using parse_complete [OF e(1), of ctx] assms by blast
  then show "parse_or n ctx ts = Inr (v, [])" using loop_stop(2) [of "[]" "n - 1" ctx] e(2) by simp
qed

lemma parse_any_frames:
  assumes "parse_or n ctx ts \<noteq> Inl RecursionError"
  shows "parse_or n ctx ts = Inr (v, []) \<longleftrightarrow> (\<exists>e. derives 0 e ts \<and> sem e ctx = v)"
  using parse_grammar [of ts "max n (nesting ts + 6)" ctx v] parse_more_frames(1) [OF assms, of "max n (nesting ts + 6)"] by simp

text \<open>Whether an expression goes to the compound parser.\<close>

definition is_compound :: "string \<Rightarrow> bool" where
  "is_compound expr \<longleftrightarrow> has_compound_operators expr \<and> List.map ascii_lower expr \<notin> KEYWORDS"

lemma derives_nonempty: "derives p e ts \<Longrightarrow> ts \<noteq> []"
  by (induction rule: derives.induct) auto

lemma evaluate_compound:
  assumes "is_compound expr"
  shows "case evaluate_inner n expr ctx of
      Inl RecursionError \<Rightarrow> n < nesting (tokenize expr) + 6
    | Inl _ \<Rightarrow> \<not> (\<exists>e. derives 0 e (tokenize expr) \<and> sem e ctx)
    | Inr b \<Rightarrow> b \<longleftrightarrow> length (tokenize expr) \<le> 256 \<and> (\<exists>e. derives 0 e (tokenize expr) \<and> sem e ctx)"
proof (cases "n = 0 \<or> tokenize expr = [] \<or> 256 < length (tokenize expr)")
  case True
  then show ?thesis using assms derives_nonempty [of 0 _ "tokenize expr"]
    by (auto simp: evaluate_inner_def is_compound_def Let_def MAX_TOKEN_COUNT_def)
next
  case False
  then have inner: "evaluate_inner n expr ctx = (case parse_or n ctx (tokenize expr) of Inl e \<Rightarrow> Inl e
      | Inr (result, rest) \<Rightarrow> if rest \<noteq> [] then Inr False else Inr result)"
    using assms by (simp add: evaluate_inner_def is_compound_def MAX_TOKEN_COUNT_def)
  show ?thesis
  proof (cases "parse_or n ctx (tokenize expr) = Inl RecursionError")
    case True
    then show ?thesis using parse_recursion(1) by (simp add: inner)
  next
    case rec: False
    obtain G where G: "(\<exists>e. derives 0 e (tokenize expr) \<and> sem e ctx) = G" by blast
    have "parse_or n ctx (tokenize expr) = Inr (True, []) \<longleftrightarrow> G" using parse_any_frames [OF rec, of True] G by simp
    then show ?thesis using False rec unfolding G
      by (cases "parse_or n ctx (tokenize expr)") (auto simp: inner split: parse_error.splits if_splits)
  qed
qed

subsection \<open>Properties\<close>

text \<open>Frames that are enough for an expression.\<close>

definition frames_enough :: "string \<Rightarrow> nat" where
  "frames_enough s = (if is_compound (py_strip s) then nesting (tokenize (py_strip s)) + 7 else 3)"

text \<open>
  C16: the evaluator implements its grammar. A compound expression of at most 256 tokens is true exactly when
  its tokens can be read as an expression of the reference grammar that is true (negation binds stronger than
  conjunction, conjunction stronger than disjunction); malformed and too long expressions are false. Every
  other expression, a lone keyword included, is an atom, and a blank one is false. The only exception that
  leaves the evaluator is \<open>RecursionError\<close>, and only when the stack has fewer frames left than seven, four for
  each opening parenthesis and one for each negation (three for an atom).
\<close>

theorem condition_grammar:
  "case evaluate_condition n s ctx of
     Inl x \<Rightarrow> x = RecursionError \<and> n < frames_enough s
   | Inr b \<Rightarrow> b = (let expr = py_strip s in
       if \<not> not_blank s then False
       else if is_compound expr
            then length (tokenize expr) \<le> 256 \<and> (\<exists>e. derives 0 e (tokenize expr) \<and> sem e ctx)
       else eval_atom expr ctx)"
proof (cases "py_strip s = [] \<or> n = 0")
  case True
  then show ?thesis by (auto simp: evaluate_condition_def not_blank_strip frames_enough_def Let_def)
next
  case False
  then have b: "not_blank s" by (simp add: not_blank_strip)
  show ?thesis
  proof (cases "is_compound (py_strip s)")
    case True
    then show ?thesis using evaluate_compound [OF True, where n = "n - 1" and ctx = ctx] False b
      by (cases "evaluate_inner (n - 1) (py_strip s) ctx")
        (auto simp: evaluate_condition_def Let_def frames_enough_def split: parse_error.splits)
  next
    case atom: False
    then have "evaluate_inner (n - 1) (py_strip s) ctx = (if n = 1 then Inl RecursionError else call_eval_atom (n - 1) (py_strip s) ctx)"
      using False by (auto simp: evaluate_inner_def is_compound_def)
    then show ?thesis using False b atom atom_frames_le(2) [of "py_strip s"]
      by (auto simp: evaluate_condition_def call_eval_atom_def Let_def frames_enough_def)
  qed
qed

text \<open>
  Printing and evaluating agree. An expression tree with plain atoms, printed with the
  parentheses that precedence needs and a space between tokens, evaluates to its meaning, if it has
  at most 256 tokens and the stack has enough frames.
\<close>

theorem condition_roundtrip:
  assumes "list_all plain_atom (atoms e)" and "length (toks 0 e) \<le> 256" and "nesting (toks 0 e) + 7 \<le> n"
  shows "evaluate_condition n (render (toks 0 e)) ctx = Inr (sem e ctx)"
proof -
  let ?s = "render (toks 0 e)"
  have pr: "printable (toks 0 e)" by (rule printable_toks [OF assms(1)])
  have strip: "py_strip ?s = ?s" "?s \<noteq> []"
    using printable_ends [OF pr] toks_nonempty [of 0 e] py_strip_id [of ?s] by auto
  have tok: "tokenize ?s = toks 0 e" using tokenize_render [OF pr, of None "[]"] by (simp add: tokenize_def nonword_def)
  show ?thesis
  proof (cases "\<exists>a. e = CAtom a")
    case True
    then obtain a where e: "e = CAtom a" "plain_atom a" using assms(1) by auto
    moreover have "atom_frames a \<le> n - Suc 0" "n \<noteq> 0" "n \<noteq> 1" using assms(3) atom_frames_le(2) [of a] by linarith+
    ultimately show ?thesis using strip
      by (simp add: evaluate_condition_def evaluate_inner_def plain_atom_def call_eval_atom_def not_less)
  next
    case False
    then have two: "2 \<le> length (toks 0 e)" using toks_two by blast
    have "has_compound_operators ?s"
    proof (rule ccontr)
      assume "\<not> has_compound_operators ?s"
      then have "tokenize ?s = flush ?s" using compound_tokens [of None ?s "[]"] by (simp add: has_compound_operators_def tokenize_def)
      then show False using flush_short [of ?s] tok two by simp
    qed
    then have c: "is_compound ?s" using space_not_keyword [OF render_space [OF two]] by (simp add: is_compound_def)
    have "set (atoms e) \<inter> operators = {}" using assms(1) plain_not_operator by (auto simp: list_all_iff)
    from derives_toks [OF this, of 0] have "parse_or (n - 1) ctx (toks 0 e) = Inr (sem e ctx, [])"
      using parse_grammar [of "toks 0 e" "n - 1" ctx] assms(3) by auto
    then show ?thesis using c strip tok assms(2,3) toks_nonempty [of 0 e]
      by (auto simp: evaluate_condition_def evaluate_inner_def is_compound_def MAX_TOKEN_COUNT_def Let_def)
  qed
qed

theorem condition_roundtrip_witness:
  "evaluate_condition 12 ''NOT ( a OR b ) AND c'' [(''b'', CtxValue ''1'' True), (''c'', CtxValue ''1'' True)] = Inr False \<and>
   evaluate_condition 8 ''NOT a OR b AND c'' [(''b'', CtxValue ''1'' True), (''c'', CtxValue ''1'' True)] = Inr True"
proof -
  have plain: "plain_atom ''a''" "plain_atom ''b''" "plain_atom ''c''"
    by code_simp+
  show ?thesis
    using condition_roundtrip [of "CAnd (CNot (COr (CAtom ''a'') (CAtom ''b''))) (CAtom ''c'')"
        12 "[(''b'', CtxValue ''1'' True), (''c'', CtxValue ''1'' True)]"]
      condition_roundtrip [of "COr (CNot (CAtom ''a'')) (CAnd (CAtom ''b'') (CAtom ''c''))"
        8 "[(''b'', CtxValue ''1'' True), (''c'', CtxValue ''1'' True)]"] plain
    by (simp add: nesting_def group_if_def eval_atom_def eval_comparison_def py_strip_def py_lstrip_def py_isspace_def ascii_lower_def Let_def)
qed

text \<open>Nesting within the limit of 256 tokens that the default stack of 1000 frames does not carry.\<close>

lemma deep_nesting_raises: "evaluate_condition 998 (List.replicate 250 (CHR ''('')) [] = Inl RecursionError"
  by code_simp

end
