(* ===== verification/Rate_Limits.thy ===== *)
theory Rate_Limits
  imports Python_Text
begin

text \<open>
  The per-operation limiters of the API, \<^verbatim>\<open>api/rate_limits/\<close>: the sliding-window store with its
  garbage collection (\<^verbatim>\<open>in_memory.py\<close>), the guard that asks it (\<^verbatim>\<open>guard.py\<close>, \<^verbatim>\<open>_subject.py\<close>) and the
  in-flight store (\<^verbatim>\<open>in_memory_inflight.py\<close>) with the middleware around it.

  A call of a store holds its per-key lock only across code that does not suspend, so calls are atomic
  steps and the locks are left out; concurrency is the order of the steps. Clock readings are
  arguments. The reference for the sliding window is the full history of admitted requests.
\<close>

subsection \<open>Sliding window\<close>

record bucket =
  timestamps :: "time list"
  window_seconds :: int

record window_store =
  buckets :: "(string, bucket) dict"
  acquires_since_gc :: int

definition new_window_store :: window_store where
  "new_window_store = \<lparr>buckets = [], acquires_since_gc = 0\<rparr>"

definition GC_EVERY_N_ACQUIRES :: int where
  "GC_EVERY_N_ACQUIRES = 1024"

definition MIN_GC_HORIZON_SECONDS :: int where
  "MIN_GC_HORIZON_SECONDS = 60"

record RateLimitOutcome =
  rl_allowed :: bool
  retry_after_seconds :: "rat option"
  remaining :: int

definition valid_outcome :: "RateLimitOutcome \<Rightarrow> bool" where
  "valid_outcome r \<longleftrightarrow>
     (case retry_after_seconds r of None \<Rightarrow> True | Some x \<Rightarrow> 0 \<le> x) \<and> 0 \<le> remaining r \<and>
     \<not> (rl_allowed r \<and> retry_after_seconds r \<noteq> None) \<and> \<not> (\<not> rl_allowed r \<and> retry_after_seconds r = None)"

datatype limit_error = BadMaxRequests | BadWindowSeconds | BadMaxInflight

definition empty_bucket :: bucket where
  "empty_bucket = \<lparr>timestamps = [], window_seconds = MIN_GC_HORIZON_SECONDS\<rparr>"

text \<open>The critical section of \<open>acquire\<close>: the outcome and the new bucket.\<close>

definition hit :: "int \<Rightarrow> int \<Rightarrow> time \<Rightarrow> bucket \<Rightarrow> RateLimitOutcome \<times> bucket" where
  "hit max_requests window now b0 =
     (let b = b0\<lparr>window_seconds := max (window_seconds b0) window\<rparr>;
          cutoff = now - of_int window;
          ts = dropWhile (\<lambda>t. t \<le> cutoff) (timestamps b) in
      if int (length ts) \<ge> max_requests
      then (\<lparr>rl_allowed = False, retry_after_seconds = Some (max (ts ! 0 + of_int window - now) (1 / 1000)), remaining = 0\<rparr>,
            b\<lparr>timestamps := ts\<rparr>)
      else let ts' = ts @ [now] in
           (\<lparr>rl_allowed = True, retry_after_seconds = None, remaining = max (max_requests - int (length ts')) 0\<rparr>,
            b\<lparr>timestamps := ts'\<rparr>))"

definition is_cold :: "time \<Rightarrow> bucket \<Rightarrow> bool" where
  "is_cold now b \<longleftrightarrow>
     (let horizon = max (window_seconds b * 2) MIN_GC_HORIZON_SECONDS; cutoff = now - of_int horizon in
      timestamps b = [] \<or> last (timestamps b) \<le> cutoff)"

definition gc_cold_buckets :: "time \<Rightarrow> window_store \<Rightarrow> window_store" where
  "gc_cold_buckets now s =
     (let dead = List.map fst (filter (\<lambda>(k, b). is_cold now b) (buckets s)) in
      s\<lparr>buckets := fold dpop dead (buckets s)\<rparr>)"

definition window_acquire ::
  "int \<Rightarrow> int \<Rightarrow> string \<Rightarrow> time \<Rightarrow> time \<Rightarrow> window_store \<Rightarrow> (limit_error + RateLimitOutcome) \<times> window_store" where
  "window_acquire max_requests window key now gc_now s =
     (if max_requests \<le> 0 then (Inl BadMaxRequests, s)
      else if window \<le> 0 then (Inl BadWindowSeconds, s)
      else
        let (outcome, b) = hit max_requests window now (dget_or (buckets s) key empty_bucket);
            s1 = s\<lparr>buckets := dput key b (buckets s), acquires_since_gc := acquires_since_gc s + 1\<rparr> in
        (Inr outcome,
         if acquires_since_gc s1 \<ge> GC_EVERY_N_ACQUIRES
         then gc_cold_buckets gc_now (s1\<lparr>acquires_since_gc := 0\<rparr>) else s1))"

definition close_window :: "window_store \<Rightarrow> window_store" where
  "close_window s = s\<lparr>buckets := [], acquires_since_gc := 0\<rparr>"

subsection \<open>Guard\<close>

datatype KeyPolicy = ByUser | ByIp | ByUserOrIp

definition extract_subject_key :: "string option \<Rightarrow> string \<Rightarrow> KeyPolicy \<Rightarrow> string" where
  "extract_subject_key user_id client_ip policy =
     (case policy of
        ByUser \<Rightarrow> (case user_id of None \<Rightarrow> ''ip:'' @ client_ip | Some u \<Rightarrow> ''user:'' @ u)
      | ByIp \<Rightarrow> ''ip:'' @ client_ip
      | ByUserOrIp \<Rightarrow> (case user_id of Some u \<Rightarrow> ''user:'' @ u | None \<Rightarrow> ''ip:'' @ client_ip))"

definition bucket_key :: "string \<Rightarrow> string \<Rightarrow> string" where
  "bucket_key operation subject = operation @ '':'' @ subject"

record rate_policy =
  operation :: string
  default_max :: int
  default_window :: int
  key_policy :: KeyPolicy

datatype policy_error = EmptyOperation | NonPositiveMax | NonPositiveWindow

text \<open>The factory of a guard; an unknown key policy cannot be written here.\<close>

definition per_op_rate_limit :: "string \<Rightarrow> int \<Rightarrow> int \<Rightarrow> KeyPolicy \<Rightarrow> policy_error + rate_policy" where
  "per_op_rate_limit op max_requests window key =
     (let stripped = py_strip op in
      if stripped = [] then Inl EmptyOperation
      else if max_requests \<le> 0 then Inl NonPositiveMax
      else if window \<le> 0 then Inl NonPositiveWindow
      else Inr \<lparr>operation = stripped, default_max = max_requests, default_window = window, key_policy = key\<rparr>)"

record rate_config =
  enabled :: bool
  overrides :: "(string, int \<times> int) dict"

datatype verdict = Pass | ServiceUnavailable | Denied int | GuardError limit_error

definition raise_denied :: "rat option \<Rightarrow> int" where
  "raise_denied retry_after = (let s = (case retry_after of Some r \<Rightarrow> \<lceil>r\<rceil> | None \<Rightarrow> 1) in max s 1)"

definition rate_guard ::
  "rate_policy \<Rightarrow> rate_config option \<Rightarrow> string option \<Rightarrow> string \<Rightarrow> time \<Rightarrow> time \<Rightarrow> window_store option \<Rightarrow>
   verdict \<times> window_store option" where
  "rate_guard p config user_id client_ip now gc_now store =
     (if (case config of Some c \<Rightarrow> \<not> enabled c | None \<Rightarrow> False) then (Pass, store)
      else case (store, config) of
             (Some s, Some c) \<Rightarrow>
               let (limit_max, limit_window) =
                     (case dget (overrides c) (operation p) of Some limit \<Rightarrow> limit | None \<Rightarrow> (default_max p, default_window p)) in
               if limit_max \<le> 0 \<or> limit_window \<le> 0 then (Pass, store)
               else
                 let key = bucket_key (operation p) (extract_subject_key user_id client_ip (key_policy p)) in
                 (case window_acquire limit_max limit_window key now gc_now s of
                    (Inl e, s') \<Rightarrow> (GuardError e, Some s')
                  | (Inr outcome, s') \<Rightarrow>
                      if rl_allowed outcome then (Pass, Some s')
                      else (Denied (raise_denied (retry_after_seconds outcome)), Some s'))
           | _ \<Rightarrow> (ServiceUnavailable, store))"

subsection \<open>In-flight limit\<close>

record inflight_store =
  counters :: "(string, int) dict"
  permits_since_gc :: int

definition new_inflight_store :: inflight_store where
  "new_inflight_store = \<lparr>counters = [], permits_since_gc = 0\<rparr>"

definition gc_cold_counters :: "inflight_store \<Rightarrow> inflight_store" where
  "gc_cold_counters s =
     (let dead = List.map fst (filter (\<lambda>(k, n). n \<le> 0) (counters s)) in s\<lparr>counters := fold dpop dead (counters s)\<rparr>)"

definition MIN_RETRY_AFTER_SECONDS :: int where
  "MIN_RETRY_AFTER_SECONDS = 1"

datatype inflight_error = ConcurrencyLimitExceeded int | InvalidMaxInflight

definition acquire_or_raise :: "int \<Rightarrow> string \<Rightarrow> inflight_store \<Rightarrow> (inflight_error + unit) \<times> inflight_store" where
  "acquire_or_raise max_inflight key s =
     (let current = dget_or (counters s) key 0 in
      if current \<ge> max_inflight then (Inl (ConcurrencyLimitExceeded MIN_RETRY_AFTER_SECONDS), s)
      else let s1 = s\<lparr>counters := dput key (current + 1) (counters s), permits_since_gc := permits_since_gc s + 1\<rparr> in
           (Inr (), if permits_since_gc s1 \<ge> GC_EVERY_N_ACQUIRES
                    then gc_cold_counters (s1\<lparr>permits_since_gc := 0\<rparr>) else s1))"

definition inflight_acquire :: "int \<Rightarrow> string \<Rightarrow> inflight_store \<Rightarrow> (inflight_error + unit) \<times> inflight_store" where
  "inflight_acquire max_inflight key s =
     (if max_inflight \<le> 0 then (Inl InvalidMaxInflight, s) else acquire_or_raise max_inflight key s)"

definition inflight_release :: "string \<Rightarrow> inflight_store \<Rightarrow> inflight_store" where
  "inflight_release key s =
     (let current = dget_or (counters s) key 0 in
      if current \<le> 0 then s\<lparr>counters := dput key 0 (counters s)\<rparr>
      else s\<lparr>counters := dput key (current - 1) (counters s)\<rparr>)"

definition close_inflight :: "inflight_store \<Rightarrow> inflight_store" where
  "close_inflight s = s\<lparr>counters := [], permits_since_gc := 0\<rparr>"

text \<open>
  The middleware up to the permit: the route's annotation (absent on routes that did not opt in), its
  defensive check, the master switch, the wiring, the override and the permit. The annotation's shape and
  types are those of \<open>inflight_policy\<close>.
\<close>

record inflight_policy =
  if_operation :: string
  default_inflight :: int
  if_key_policy :: KeyPolicy

record inflight_config =
  if_enabled :: bool
  if_overrides :: "(string, int) dict"

datatype entry = Uncapped | Permit string | NotWired | Malformed | Refused inflight_error

definition malformed_policy :: "inflight_policy \<Rightarrow> bool" where
  "malformed_policy p \<longleftrightarrow> if_operation p = [] \<or> if_operation p \<noteq> py_strip (if_operation p) \<or> default_inflight p \<le> 0"

definition inflight_enter ::
  "inflight_policy option \<Rightarrow> inflight_config option \<Rightarrow> string option \<Rightarrow> string \<Rightarrow> inflight_store option \<Rightarrow>
   entry \<times> inflight_store option" where
  "inflight_enter policy config user_id client_ip store =
     (case policy of
        None \<Rightarrow> (Uncapped, store)
      | Some p \<Rightarrow>
          if malformed_policy p then (Malformed, store)
          else if (case config of Some c \<Rightarrow> \<not> if_enabled c | None \<Rightarrow> False) then (Uncapped, store)
          else case (store, config) of
                 (Some s, Some c) \<Rightarrow>
                   let max_inflight = dget_or (if_overrides c) (if_operation p) (default_inflight p) in
                   if max_inflight \<le> 0 then (Uncapped, store)
                   else
                     let key = bucket_key (if_operation p) (extract_subject_key user_id client_ip (if_key_policy p)) in
                     (case inflight_acquire max_inflight key s of
                        (Inl e, s') \<Rightarrow> (Refused e, Some s')
                      | (Inr _, s') \<Rightarrow> (Permit key, Some s'))
               | _ \<Rightarrow> (NotWired, store))"

subsection \<open>The history specification\<close>

type_synonym limits = "string \<Rightarrow> int \<times> int"

type_synonym request = "string \<times> time \<times> time"

definition valid_limits :: "limits \<Rightarrow> bool" where
  "valid_limits lims \<longleftrightarrow> (\<forall>k. 0 < fst (lims k) \<and> 0 < snd (lims k))"

text \<open>Requests in the order of the clock: the key, the reading in the critical section and the one of a sweep.\<close>

fun ordered :: "time \<Rightarrow> request list \<Rightarrow> bool" where
  "ordered t [] = True"
| "ordered t ((k, now, gc_now) # rs) = (t \<le> now \<and> now \<le> gc_now \<and> ordered gc_now rs)"

fun clock_end :: "time \<Rightarrow> request list \<Rightarrow> time" where
  "clock_end t [] = t"
| "clock_end t ((k, now, gc_now) # rs) = clock_end gc_now rs"

fun window_run :: "limits \<Rightarrow> request list \<Rightarrow> window_store \<Rightarrow> (limit_error + RateLimitOutcome) list \<times> window_store" where
  "window_run lims [] s = ([], s)"
| "window_run lims ((k, now, gc_now) # rs) s =
     (let (r, s1) = window_acquire (fst (lims k)) (snd (lims k)) k now gc_now s; (os, s2) = window_run lims rs s1
      in (r # os, s2))"

definition in_window :: "int \<Rightarrow> time \<Rightarrow> time list \<Rightarrow> time list" where
  "in_window w now h = filter (\<lambda>t. now - of_int w < t) h"

definition spec_hit :: "int \<Rightarrow> int \<Rightarrow> time \<Rightarrow> time list \<Rightarrow> RateLimitOutcome \<times> time list" where
  "spec_hit cap w now h =
     (let recent = in_window w now h in
      if int (length recent) \<ge> cap
      then (\<lparr>rl_allowed = False, retry_after_seconds = Some (max (hd recent + of_int w - now) (1 / 1000)), remaining = 0\<rparr>, h)
      else (\<lparr>rl_allowed = True, retry_after_seconds = None, remaining = cap - int (length recent) - 1\<rparr>, h @ [now]))"

fun spec_run :: "limits \<Rightarrow> request list \<Rightarrow> (string \<Rightarrow> time list) \<Rightarrow> RateLimitOutcome list \<times> (string \<Rightarrow> time list)" where
  "spec_run lims [] h = ([], h)"
| "spec_run lims ((k, now, gc_now) # rs) h =
     (let (r, hk) = spec_hit (fst (lims k)) (snd (lims k)) now (h k); (os, h2) = spec_run lims rs (h(k := hk))
      in (r # os, h2))"

subsection \<open>Lemmas\<close>

lemma dget_dpops: "dget (fold dpop ks d) k = (if k \<in> set ks then None else dget d k)"
  by (induction ks arbitrary: d) auto

lemma distinct_dpops: "distinct (dkeys d) \<Longrightarrow> distinct (dkeys (fold dpop ks d))"
  by (induction ks arbitrary: d) auto

lemma dead_keys:
  assumes "distinct (dkeys d)"
  shows "k \<in> set (List.map fst (filter (\<lambda>(k, b). P b) d)) \<longleftrightarrow> (\<exists>b. dget d k = Some b \<and> P b)"
proof
  assume "k \<in> set (List.map fst (filter (\<lambda>(k, b). P b) d))"
  then obtain b where "(k, b) \<in> set d" "P b" by auto
  then show "\<exists>b. dget d k = Some b \<and> P b" using map_of_is_SomeI [OF assms] by blast
next
  assume "\<exists>b. dget d k = Some b \<and> P b"
  then obtain b where "(k, b) \<in> set d" "P b" using dget_Some_in by metis
  then show "k \<in> set (List.map fst (filter (\<lambda>(k, b). P b) d))" by (auto simp: image_iff intro!: bexI [of _ "(k, b)"])
qed

lemma dget_sweep:
  "distinct (dkeys d) \<Longrightarrow> dget (fold dpop (List.map fst (filter (\<lambda>(k, b). P b) d)) d) k =
     (case dget d k of None \<Rightarrow> None | Some b \<Rightarrow> if P b then None else Some b)"
  unfolding dget_dpops dead_keys by (auto split: option.splits)

lemma in_window_later: "in_window w now xs = in_window w now ys \<Longrightarrow> now \<le> now' \<Longrightarrow> in_window w now' xs = in_window w now' ys"
proof -
  assume a: "in_window w now xs = in_window w now ys" "now \<le> now'"
  have "in_window w now' zs = in_window w now' (in_window w now zs)" for zs
    using a(2) by (auto simp: in_window_def intro: filter_cong)
  then show ?thesis using a(1) by metis
qed

lemma sorted_dropWhile: "sorted (xs :: time list) \<Longrightarrow> dropWhile (\<lambda>t. t \<le> c) xs = filter (\<lambda>t. c < t) xs"
  by (induction xs) (auto simp: filter_id_conv order.strict_trans2 intro!: filter_True [symmetric])

text \<open>What a run keeps of the store: sorted buckets of admitted requests, never more than allowed.\<close>

definition bucket_ok :: "int \<times> int \<Rightarrow> time \<Rightarrow> bucket \<Rightarrow> bool" where
  "bucket_ok l now b \<longleftrightarrow> sorted (timestamps b) \<and> (\<forall>t \<in> set (timestamps b). t \<le> now) \<and>
     int (length (timestamps b)) \<le> fst l \<and> (timestamps b \<noteq> [] \<longrightarrow> snd l \<le> window_seconds b)"

definition store_ok :: "limits \<Rightarrow> time \<Rightarrow> window_store \<Rightarrow> bool" where
  "store_ok lims now s \<longleftrightarrow> distinct (dkeys (buckets s)) \<and> (\<forall>k b. dget (buckets s) k = Some b \<longrightarrow> bucket_ok (lims k) now b)"

abbreviation bucket_of :: "window_store \<Rightarrow> string \<Rightarrow> bucket" where
  "bucket_of s k \<equiv> dget_or (buckets s) k empty_bucket"

lemma bucket_ok_later: "bucket_ok l now b \<Longrightarrow> now \<le> now' \<Longrightarrow> bucket_ok l now' b"
  by (auto simp: bucket_ok_def)

lemma store_ok_bucket: "store_ok lims now s \<Longrightarrow> valid_limits lims \<Longrightarrow> bucket_ok (lims k) now (bucket_of s k)"
  by (auto simp: store_ok_def dget_or_def empty_bucket_def bucket_ok_def valid_limits_def less_imp_le split: option.splits)

lemma sorted_last: "sorted xs \<Longrightarrow> (t :: time) \<in> set xs \<Longrightarrow> t \<le> last xs"
  by (cases xs rule: rev_cases) (auto simp: sorted_append)

lemma in_window_idem: "in_window w now (in_window w now xs) = in_window w now xs"
  by (simp add: in_window_def)

lemma in_window_snoc: "0 < w \<Longrightarrow> in_window w now (h @ [now]) = in_window w now h @ [now]"
  by (simp add: in_window_def)

lemma hit_eq:
  assumes "bucket_ok l now b" and "0 < fst l"
  shows "hit (fst l) (snd l) now b =
    (let recent = in_window (snd l) now (timestamps b); w' = max (window_seconds b) (snd l) in
     if int (length recent) \<ge> fst l
     then (\<lparr>rl_allowed = False, retry_after_seconds = Some (max (hd recent + of_int (snd l) - now) (1 / 1000)), remaining = 0\<rparr>,
           \<lparr>timestamps = recent, window_seconds = w'\<rparr>)
     else (\<lparr>rl_allowed = True, retry_after_seconds = None, remaining = fst l - int (length recent) - 1\<rparr>,
           \<lparr>timestamps = recent @ [now], window_seconds = w'\<rparr>))"
proof -
  let ?r = "in_window (snd l) now (timestamps b)"
  have r: "dropWhile (\<lambda>t. t \<le> now - of_int (snd l)) (timestamps b) = ?r"
    using assms(1) sorted_dropWhile by (simp add: bucket_ok_def in_window_def)
  show ?thesis
  proof (cases "int (length ?r) \<ge> fst l")
    case True
    then have "?r \<noteq> []" using assms(2) by auto
    then show ?thesis using True by (simp add: hit_def r Let_def hd_conv_nth)
  next
    case False
    then show ?thesis by (simp add: hit_def r Let_def max_def)
  qed
qed

lemma hit_spec:
  assumes "bucket_ok l now b" and "0 < fst l" and "0 < snd l" and "in_window (snd l) now (timestamps b) = in_window (snd l) now h"
  shows "fst (hit (fst l) (snd l) now b) = fst (spec_hit (fst l) (snd l) now h)"
    and "in_window (snd l) now (timestamps (snd (hit (fst l) (snd l) now b))) =
      in_window (snd l) now (snd (spec_hit (fst l) (snd l) now h))"
    and "bucket_ok l now (snd (hit (fst l) (snd l) now b))"
proof -
  show "fst (hit (fst l) (snd l) now b) = fst (spec_hit (fst l) (snd l) now h)"
    by (simp add: hit_eq [OF assms(1,2)] spec_hit_def Let_def assms(4))
  show "in_window (snd l) now (timestamps (snd (hit (fst l) (snd l) now b))) =
      in_window (snd l) now (snd (spec_hit (fst l) (snd l) now h))"
    using assms(3,4) by (simp add: hit_eq [OF assms(1,2)] spec_hit_def Let_def in_window_snoc in_window_idem)
  have "int (length (in_window (snd l) now (timestamps b))) \<le> fst l"
    using assms(1) length_filter_le [of _ "timestamps b"] unfolding in_window_def bucket_ok_def by (meson of_nat_mono order.trans)
  then show "bucket_ok l now (snd (hit (fst l) (snd l) now b))"
    using assms(1) by (auto simp: hit_eq [OF assms(1,2)] Let_def bucket_ok_def in_window_def sorted_append sorted_wrt_filter)
qed

text \<open>The simulation: store and history agree inside the window of every key.\<close>

definition simulates :: "limits \<Rightarrow> time \<Rightarrow> window_store \<Rightarrow> (string \<Rightarrow> time list) \<Rightarrow> bool" where
  "simulates lims now s h \<longleftrightarrow> store_ok lims now s \<and>
     (\<forall>k. in_window (snd (lims k)) now (timestamps (bucket_of s k)) = in_window (snd (lims k)) now (h k))"

lemma simulates_later: "simulates lims now s h \<Longrightarrow> now \<le> now' \<Longrightarrow> simulates lims now' s h"
  unfolding simulates_def store_ok_def using in_window_later bucket_ok_later by blast

lemma gc_simulates:
  assumes "simulates lims now s h" and "valid_limits lims"
  shows "simulates lims now (gc_cold_buckets now s) h"
proof -
  have d: "distinct (dkeys (buckets s))" using assms(1) by (simp add: simulates_def store_ok_def)
  have get: "dget (buckets (gc_cold_buckets now s)) k =
      (case dget (buckets s) k of None \<Rightarrow> None | Some b \<Rightarrow> if is_cold now b then None else Some b)" for k
    using dget_sweep [OF d, of "is_cold now" k] by (simp add: gc_cold_buckets_def)
  have cold: "in_window (snd (lims k)) now (timestamps b) = []" if "dget (buckets s) k = Some b" "is_cold now b" for k b
  proof (cases "timestamps b = []")
    case False
    have ok: "bucket_ok (lims k) now b" using assms(1) that(1) by (simp add: simulates_def store_ok_def)
    have "t \<le> last (timestamps b)" if "t \<in> set (timestamps b)" for t
      using ok that sorted_last by (auto simp: bucket_ok_def)
    moreover have "last (timestamps b) \<le> now - of_int (max (window_seconds b * 2) 60)"
      using that(2) False by (simp add: is_cold_def MIN_GC_HORIZON_SECONDS_def)
    moreover have "(of_int (snd (lims k)) :: rat) \<le> of_int (max (window_seconds b * 2) 60)"
      using ok False assms(2) by (intro of_int_le_iff [THEN iffD2]) (auto simp: bucket_ok_def valid_limits_def)
    ultimately show ?thesis unfolding in_window_def filter_empty_conv by fastforce
  qed (simp add: in_window_def)
  have "in_window (snd (lims k)) now (timestamps (bucket_of (gc_cold_buckets now s) k)) =
      in_window (snd (lims k)) now (timestamps (bucket_of s k))" for k
    using cold [of k] by (auto simp: dget_or_def get empty_bucket_def in_window_def split: option.splits)
  moreover have "distinct (dkeys (buckets (gc_cold_buckets now s)))" using d distinct_dpops by (simp add: gc_cold_buckets_def Let_def)
  ultimately show ?thesis using assms(1) by (auto simp: simulates_def store_ok_def get split: option.splits if_splits)
qed

lemma hit_simulates:
  assumes sim: "simulates lims now s h" and "valid_limits lims"
    and run: "hit (fst (lims k)) (snd (lims k)) now (bucket_of s k) = (r, b)"
    and spec: "spec_hit (fst (lims k)) (snd (lims k)) now (h k) = (r', hk)"
  shows "r = r'" and "simulates lims now (s\<lparr>buckets := dput k b (buckets s), acquires_since_gc := n\<rparr>) (h(k := hk))"
proof -
  have l: "0 < fst (lims k)" "0 < snd (lims k)" using assms(2) by (simp_all add: valid_limits_def)
  have ok: "bucket_ok (lims k) now (bucket_of s k)" using sim assms(2) store_ok_bucket by (simp add: simulates_def)
  have eq: "in_window (snd (lims k)) now (timestamps (bucket_of s k)) = in_window (snd (lims k)) now (h k)"
    using sim by (simp add: simulates_def)
  note facts = hit_spec [OF ok l eq, unfolded run spec fst_conv snd_conv]
  show "r = r'" by (rule facts(1))
  show "simulates lims now (s\<lparr>buckets := dput k b (buckets s), acquires_since_gc := n\<rparr>) (h(k := hk))"
    using sim facts(2,3) by (auto simp: simulates_def store_ok_def)
qed

lemma acquire_simulates:
  assumes sim: "simulates lims t s h" and "t \<le> now" and "now \<le> gc_now" and lims: "valid_limits lims"
    and run: "window_acquire (fst (lims k)) (snd (lims k)) k now gc_now s = (r, s')"
    and spec: "spec_hit (fst (lims k)) (snd (lims k)) now (h k) = (r', hk)"
  shows "r = Inr r'" and "simulates lims gc_now s' (h(k := hk))"
proof -
  have l: "0 < fst (lims k)" "0 < snd (lims k)" using lims by (simp_all add: valid_limits_def)
  obtain q b where hit: "hit (fst (lims k)) (snd (lims k)) now (bucket_of s k) = (q, b)"
    by (cases "hit (fst (lims k)) (snd (lims k)) now (bucket_of s k)")
  note step = hit_simulates [OF simulates_later [OF sim assms(2)] lims hit spec]
  show "r = Inr r'" using run l step(1) by (auto simp: window_acquire_def hit Let_def)
  show "simulates lims gc_now s' (h(k := hk))"
    using run l simulates_later [OF step(2) assms(3)] gc_simulates [OF simulates_later [OF step(2) assms(3)] lims]
    by (auto simp: window_acquire_def hit Let_def split: if_splits)
qed

lemma run_simulates:
  assumes "simulates lims t s h" and "ordered t reqs" and "valid_limits lims"
    and "window_run lims reqs s = (os, s')" and "spec_run lims reqs h = (os', h')"
  shows "os = List.map Inr os' \<and> simulates lims (clock_end t reqs) s' h'"
  using assms
proof (induction reqs arbitrary: t s h os os')
  case (Cons q reqs)
  obtain k now gc_now where q: "q = (k, now, gc_now)" by (cases q) auto
  obtain r s1 where a: "window_acquire (fst (lims k)) (snd (lims k)) k now gc_now s = (r, s1)" by fastforce
  obtain r' hk where b: "spec_hit (fst (lims k)) (snd (lims k)) now (h k) = (r', hk)" by fastforce
  obtain os1 where c: "window_run lims reqs s1 = (os1, s')" "os = r # os1"
    using Cons.prems(4) by (auto simp: q a split: prod.splits)
  obtain os2 where d: "spec_run lims reqs (h(k := hk)) = (os2, h')" "os' = r' # os2"
    using Cons.prems(5) by (auto simp: q b split: prod.splits)
  have t: "t \<le> now" "now \<le> gc_now" "ordered gc_now reqs" using Cons.prems(2) by (simp_all add: q)
  note step = acquire_simulates [OF Cons.prems(1) t(1,2) Cons.prems(3) a b]
  show ?case using Cons.IH [OF step(2) t(3) Cons.prems(3) c(1) d(1)] step(1) c(2) d(2) by (simp add: q)
qed auto

lemma simulates_init: "simulates lims t new_window_store (\<lambda>_. [])"
  by (simp add: simulates_def store_ok_def new_window_store_def empty_bucket_def dget_or_def)

text \<open>The times of the admitted requests of a key.\<close>

definition admitted :: "string \<Rightarrow> request list \<Rightarrow> (limit_error + RateLimitOutcome) list \<Rightarrow> time list" where
  "admitted k reqs os = [now. ((k', now, _), r) \<leftarrow> zip reqs os, k' = k \<and> (\<exists>x. r = Inr x \<and> rl_allowed x)]"

lemma spec_history:
  "spec_run lims reqs h = (os, h') \<Longrightarrow> h' k = h k @ admitted k reqs (List.map Inr os)"
proof (induction reqs arbitrary: h os)
  case (Cons q reqs)
  obtain j now gc_now where q: "q = (j, now, gc_now)" by (cases q) auto
  obtain r hj where b: "spec_hit (fst (lims j)) (snd (lims j)) now (h j) = (r, hj)" by fastforce
  obtain os1 where c: "spec_run lims reqs (h(j := hj)) = (os1, h')" "os = r # os1"
    using Cons.prems by (auto simp: q b split: prod.splits)
  have "hj = h j @ (if rl_allowed r then [now] else [])"
    using b by (auto simp: spec_hit_def Let_def split: if_splits)
  then show ?case using Cons.IH [OF c(1)] c(2) by (simp add: q admitted_def)
qed (simp add: admitted_def)

definition window_bounded :: "int \<times> int \<Rightarrow> time list \<Rightarrow> bool" where
  "window_bounded l h \<longleftrightarrow> (\<forall>x. int (length (filter (\<lambda>t. x < t \<and> t \<le> x + of_int (snd l)) h)) \<le> fst l)"

lemma spec_hit_bounded:
  assumes "window_bounded l h" and "0 < fst l" and "spec_hit (fst l) (snd l) now h = (r, h')"
  shows "window_bounded l h'"
  unfolding window_bounded_def
proof
  fix x :: time
  let ?P = "\<lambda>t. x < t \<and> t \<le> x + of_int (snd l)"
  have old: "int (length (filter ?P h)) \<le> fst l" using assms(1) by (simp add: window_bounded_def)
  show "int (length (filter ?P h')) \<le> fst l"
  proof (cases "rl_allowed r \<and> ?P now")
    case False
    then have "filter ?P h' = filter ?P h" using assms(3) by (auto simp: spec_hit_def Let_def split: if_splits)
    then show ?thesis using old by simp
  next
    case True
    have r: "int (length (in_window (snd l) now h)) < fst l" "h' = h @ [now]"
      using assms(3) True by (auto simp: spec_hit_def Let_def split: if_splits)
    have "length (filter ?P h) = length (filter ?P (in_window (snd l) now h))"
      unfolding in_window_def filter_filter using True by (intro arg_cong [of _ _ length] filter_cong) auto
    also have "\<dots> \<le> length (in_window (snd l) now h)" by simp
    finally show ?thesis using r True by simp
  qed
qed

lemma spec_run_bounded:
  "spec_run lims reqs h = (os, h') \<Longrightarrow> valid_limits lims \<Longrightarrow> window_bounded (lims k) (h k) \<Longrightarrow> window_bounded (lims k) (h' k)"
proof (induction reqs arbitrary: h os)
  case (Cons q reqs)
  obtain j now gc_now where q: "q = (j, now, gc_now)" by (cases q) auto
  obtain r hj where b: "spec_hit (fst (lims j)) (snd (lims j)) now (h j) = (r, hj)" by fastforce
  obtain os1 where c: "spec_run lims reqs (h(j := hj)) = (os1, h')"
    using Cons.prems by (auto simp: q b split: prod.splits)
  have "window_bounded (lims k) ((h(j := hj)) k)"
    using Cons.prems(2,3) spec_hit_bounded [OF _ _ b] by (auto simp: valid_limits_def)
  then show ?case using Cons.IH [OF c] Cons.prems(2) by blast
qed simp

lemma ordered_append: "ordered t (reqs @ qs) \<longleftrightarrow> ordered t reqs \<and> ordered (clock_end t reqs) qs"
  by (induction t reqs rule: ordered.induct) auto

text \<open>After a denial the oldest request leaves the window when the returned delay has passed.\<close>

lemma acquire_retry:
  assumes sim: "simulates lims t s h" and lims: "valid_limits lims" and "t \<le> now" and "now \<le> gc_now" and "gc_now \<le> now'"
    and run: "window_acquire (fst (lims k)) (snd (lims k)) k now gc_now s = (Inr r, s')"
    and denied: "\<not> rl_allowed r" "retry_after_seconds r = Some d" and wait: "now + d \<le> now'"
  shows "\<exists>r'. fst (window_acquire (fst (lims k)) (snd (lims k)) k now' gc_now' s') = Inr r' \<and> rl_allowed r'"
proof -
  let ?w = "snd (lims k)"
  have l: "0 < fst (lims k)" "0 < ?w" using lims by (simp_all add: valid_limits_def)
  have sim': "simulates lims now s h" by (rule simulates_later [OF sim assms(3)])
  have ok: "bucket_ok (lims k) now (bucket_of s k)" using sim' lims store_ok_bucket by (simp add: simulates_def)
  let ?recent = "in_window ?w now (timestamps (bucket_of s k))"
  have eq: "?recent = in_window ?w now (h k)" using sim' by (simp add: simulates_def)
  obtain r1 hk where spec: "spec_hit (fst (lims k)) ?w now (h k) = (r1, hk)" by fastforce
  note step = acquire_simulates [OF sim assms(3,4) lims run spec]
  have r: "int (length ?recent) \<ge> fst (lims k)" "d = max (hd ?recent + of_int ?w - now) (1 / 1000)" "hk = h k"
    using spec step(1) denied by (auto simp: spec_hit_def Let_def eq split: if_splits)
  have cap: "int (length ?recent) \<le> fst (lims k)"
    using ok length_filter_le [of _ "timestamps (bucket_of s k)"] unfolding in_window_def bucket_ok_def
    by (meson of_nat_mono order.trans)
  obtain x xs where recent: "?recent = x # xs" using r(1) l(1) by (cases ?recent) auto
  have "in_window ?w now' (h k) = in_window ?w now' ?recent"
    using in_window_later [of ?w now "h k" ?recent now'] eq assms(4,5) by (simp add: in_window_idem)
  also have "\<dots> = in_window ?w now' xs"
  proof -
    have "x + of_int ?w - now \<le> d" using r(2) unfolding recent by simp
    then have "\<not> now' - of_int ?w < x" using wait by simp
    then show ?thesis unfolding recent by (simp add: in_window_def)
  qed
  finally have "length (in_window ?w now' (h k)) \<le> length xs" by (simp add: in_window_def)
  then have small: "int (length (in_window ?w now' (h k))) < fst (lims k)" using cap by (simp add: recent)
  obtain r2 hk2 where spec2: "spec_hit (fst (lims k)) ?w now' (h k) = (r2, hk2)" by fastforce
  have a: "rl_allowed r2" using spec2 small by (auto simp: spec_hit_def Let_def)
  have sim2: "simulates lims gc_now s' h" using step(2) r(3) by simp
  have "fst (window_acquire (fst (lims k)) ?w k now' (max now' gc_now') s') = Inr r2"
    using acquire_simulates(1) [OF sim2 assms(5) _ lims _ spec2, of "max now' gc_now'"] by (metis max.cobounded1 prod.collapse)
  moreover have "fst (window_acquire (fst (lims k)) ?w k now' (max now' gc_now') s') = fst (window_acquire (fst (lims k)) ?w k now' gc_now' s')"
    by (simp add: window_acquire_def Let_def split: prod.splits)
  ultimately show ?thesis using a by simp
qed

subsection \<open>Properties of the sliding window\<close>

text \<open>
  C15: the store refines the full history. For fixed limits per key and requests in clock order, the
  outcomes (admission, delay and remaining slots) of any run of the store, with its pruned buckets and
  its sweeps, are those of a limiter that remembers every admitted request for ever.
\<close>

theorem window_store_refines:
  assumes "ordered t reqs" and "valid_limits lims"
  shows "fst (window_run lims reqs new_window_store) = List.map Inr (fst (spec_run lims reqs (\<lambda>_. [])))"
  using run_simulates [OF simulates_init assms, of "fst (window_run lims reqs new_window_store)"] by (metis prod.collapse)

text \<open>
  For every key and every time span of its window length, a run of the store admits at most the
  allowed number of requests.
\<close>

theorem window_limit:
  assumes "ordered t reqs" and "valid_limits lims"
  shows "int (length (filter (\<lambda>now. x < now \<and> now \<le> x + of_int (snd (lims k)))
      (admitted k reqs (fst (window_run lims reqs new_window_store))))) \<le> fst (lims k)"
proof -
  obtain os h where spec: "spec_run lims reqs (\<lambda>_. []) = (os, h)" by fastforce
  have os: "fst (window_run lims reqs new_window_store) = List.map Inr os"
    using run_simulates [OF simulates_init assms _ spec, of "fst (window_run lims reqs new_window_store)"] by (metis prod.collapse)
  have "window_bounded (lims k) (h k)"
    using spec_run_bounded [OF spec assms(2)] assms(2) by (simp add: window_bounded_def valid_limits_def less_imp_le)
  then show ?thesis using spec_history [OF spec, of k] by (simp add: os window_bounded_def)
qed

lemma acquire_denied_delay:
  assumes "window_acquire m w k now gc_now s = (Inr r, s')" "\<not> rl_allowed r" "0 < m" "0 < w"
  shows "\<exists>d. retry_after_seconds r = Some d"
proof -
  obtain b where "hit m w now (dget_or (buckets s) k empty_bucket) = (r, b)"
    using assms(1,3,4) by (cases "hit m w now (dget_or (buckets s) k empty_bucket)") (simp add: window_acquire_def Let_def)
  then show ?thesis using assms(2) by (auto simp: hit_def Let_def split: if_splits)
qed

text \<open>The limit the guard applies to its operation.\<close>

definition limit_of :: "rate_policy \<Rightarrow> rate_config \<Rightarrow> int \<times> int" where
  "limit_of p c = (case dget (overrides c) (operation p) of Some l \<Rightarrow> l | None \<Rightarrow> (default_max p, default_window p))"

text \<open>
  The delay of a refusal is enough. When, after any run of the store, the guard refuses a request
  with \<open>Retry-After: n\<close> and the client repeats it as its next request at least \<open>n\<close> seconds later, the
  guard lets it pass.
\<close>

theorem retry_after_suffices:
  assumes "ordered t (reqs @ [(k, now, gc_now), (k, now', gc_now')])" and "valid_limits lims"
    and "k = bucket_key (operation p) (extract_subject_key user_id client_ip (key_policy p))"
    and "lims k = limit_of p c"
    and "rate_guard p (Some c) user_id client_ip now gc_now (Some (snd (window_run lims reqs new_window_store))) = (Denied n, Some s)"
    and "now + of_int n \<le> now'"
  shows "fst (rate_guard p (Some c) user_id client_ip now' gc_now' (Some s)) = Pass"
proof -
  let ?s = "snd (window_run lims reqs new_window_store)"
  have ord: "ordered t reqs" "clock_end t reqs \<le> now" "now \<le> gc_now" "gc_now \<le> now'"
    using assms(1) by (simp_all add: ordered_append)
  obtain h where sim: "simulates lims (clock_end t reqs) ?s h"
    using run_simulates [OF simulates_init ord(1) assms(2)] by (metis prod.collapse)
  have pos: "0 < fst (lims k)" "0 < snd (lims k)" using assms(2) by (simp_all add: valid_limits_def)
  have unfold: "rate_guard p (Some c) user_id client_ip u g (Some s0) =
      (if \<not> enabled c then (Pass, Some s0)
       else case window_acquire (fst (lims k)) (snd (lims k)) k u g s0 of
         (Inl e, s') \<Rightarrow> (GuardError e, Some s')
       | (Inr r, s') \<Rightarrow> if rl_allowed r then (Pass, Some s') else (Denied (raise_denied (retry_after_seconds r)), Some s'))" for u g s0
  proof -
    have "(case dget (overrides c) (operation p) of Some l \<Rightarrow> l | None \<Rightarrow> (default_max p, default_window p)) =
        (fst (lims k), snd (lims k))" using assms(4) by (simp add: limit_of_def)
    then show ?thesis using pos by (cases "lims k") (simp add: rate_guard_def assms(3) [symmetric] Let_def)
  qed
  obtain r where r: "window_acquire (fst (lims k)) (snd (lims k)) k now gc_now ?s = (Inr r, s)" "\<not> rl_allowed r"
      "n = raise_denied (retry_after_seconds r)" "enabled c"
    using assms(5) unfolding unfold
    by (cases "window_acquire (fst (lims k)) (snd (lims k)) k now gc_now ?s"; cases "fst (window_acquire (fst (lims k)) (snd (lims k)) k now gc_now ?s)")
      (simp_all split: if_splits)
  obtain d where d: "retry_after_seconds r = Some d" using acquire_denied_delay [OF r(1,2) pos] by blast
  have "\<lceil>d\<rceil> \<le> n" using r(3) d by (simp add: raise_denied_def)
  then have "d \<le> of_int n" by (simp add: ceiling_le_iff)
  then have "now + d \<le> now'" using assms(6) by simp
  from acquire_retry [OF sim assms(2) ord(2-4) r(1,2) d this, of gc_now']
  obtain r' where "fst (window_acquire (fst (lims k)) (snd (lims k)) k now' gc_now' s) = Inr r'" "rl_allowed r'" by blast
  then show ?thesis unfolding unfold using r(4) by (auto split: prod.splits)
qed


text \<open>A concrete run: one request per minute and key.\<close>

definition sample_limits :: limits where
  "sample_limits k = (1, 60)"

definition sample_requests :: "request list" where
  "sample_requests = [(''op:ip:h'', 0, 1), (''op:ip:h'', 2, 3), (''op:ip:g'', 4, 4), (''op:ip:h'', 61, 61)]"

lemma sample_limits_valid: "valid_limits sample_limits"
  by (simp add: valid_limits_def sample_limits_def)

theorem window_store_refines_witness:
  "ordered 0 sample_requests \<and> valid_limits sample_limits \<and>
   fst (window_run sample_limits sample_requests new_window_store) =
     List.map Inr (fst (spec_run sample_limits sample_requests (\<lambda>_. []))) \<and>
   List.map rl_allowed (fst (spec_run sample_limits sample_requests (\<lambda>_. []))) = [True, False, True, True]"
proof -
  have o: "ordered 0 sample_requests" by (simp add: sample_requests_def)
  have "List.map rl_allowed (fst (spec_run sample_limits sample_requests (\<lambda>_. []))) = [True, False, True, True]"
    by (simp add: sample_requests_def sample_limits_def spec_hit_def in_window_def)
  then show ?thesis using o sample_limits_valid window_store_refines [OF o sample_limits_valid] by blast
qed

theorem window_limit_witness:
  "ordered 0 sample_requests \<and> valid_limits sample_limits \<and>
   int (length (filter (\<lambda>now. 0 < now \<and> now \<le> 0 + of_int (snd (sample_limits ''op:ip:h'')))
      (admitted ''op:ip:h'' sample_requests (fst (window_run sample_limits sample_requests new_window_store))))) \<le> 1"
proof -
  have o: "ordered 0 sample_requests" by (simp add: sample_requests_def)
  show ?thesis
    using o sample_limits_valid window_limit [OF o sample_limits_valid, of 0 "''op:ip:h''"] by (simp add: sample_limits_def)
qed

definition sample_policy :: rate_policy where
  "sample_policy = \<lparr>operation = ''op'', default_max = 1, default_window = 60, key_policy = ByIp\<rparr>"

definition sample_rate_config :: rate_config where
  "sample_rate_config = \<lparr>enabled = True, overrides = []\<rparr>"

theorem retry_after_suffices_witness:
  "\<exists>n s. rate_guard sample_policy (Some sample_rate_config) None ''h'' 2 3
      (Some (snd (window_run sample_limits [(''op:ip:h'', 0, 1)] new_window_store))) = (Denied n, Some s) \<and>
    n = 58 \<and> fst (rate_guard sample_policy (Some sample_rate_config) None ''h'' 60 61 (Some s)) = Pass"
proof -
  let ?s = "\<lparr>buckets = [(''op:ip:h'', \<lparr>timestamps = [0], window_seconds = 60\<rparr>)], acquires_since_gc = 1\<rparr>"
  let ?s2 = "\<lparr>buckets = [(''op:ip:h'', \<lparr>timestamps = [0], window_seconds = 60\<rparr>)], acquires_since_gc = 2\<rparr>"
  have run: "snd (window_run sample_limits [(''op:ip:h'', 0, 1)] new_window_store) = ?s"
    by (simp add: sample_limits_def window_acquire_def new_window_store_def hit_def empty_bucket_def
        MIN_GC_HORIZON_SECONDS_def GC_EVERY_N_ACQUIRES_def)
  have key: "''op:ip:h'' = bucket_key (operation sample_policy) (extract_subject_key None ''h'' (key_policy sample_policy))"
    by (simp add: bucket_key_def sample_policy_def extract_subject_key_def)
  have denied: "rate_guard sample_policy (Some sample_rate_config) None ''h'' 2 3
      (Some (snd (window_run sample_limits [(''op:ip:h'', 0, 1)] new_window_store))) = (Denied 58, Some ?s2)"
    unfolding run by (simp add: rate_guard_def key [symmetric] sample_rate_config_def)
      (simp add: sample_policy_def window_acquire_def hit_def dget_or_def GC_EVERY_N_ACQUIRES_def raise_denied_def)
  have "fst (rate_guard sample_policy (Some sample_rate_config) None ''h'' 60 61 (Some ?s2)) = Pass"
    by (rule retry_after_suffices [where t = 0, OF _ sample_limits_valid key _ denied])
      (simp_all add: limit_of_def sample_policy_def sample_rate_config_def sample_limits_def)
  then show ?thesis using denied by blast
qed

subsection \<open>In-flight permits\<close>

text \<open>The store beside the number of requests that hold a permit, by key: enter, be refused, leave.\<close>

inductive inflight_step :: "(string \<Rightarrow> int) \<Rightarrow> inflight_store \<times> (string \<Rightarrow> nat) \<Rightarrow> inflight_store \<times> (string \<Rightarrow> nat) \<Rightarrow> bool"
  for cap where
  enter: "inflight_acquire (cap k) k s = (Inr (), s') \<Longrightarrow> inflight_step cap (s, h) (s', h(k := Suc (h k)))"
| refuse: "inflight_acquire (cap k) k s = (Inl e, s') \<Longrightarrow> inflight_step cap (s, h) (s', h)"
| leave: "0 < h k \<Longrightarrow> inflight_step cap (s, h) (inflight_release k s, h(k := h k - 1))"

definition permits_ok :: "(string \<Rightarrow> int) \<Rightarrow> inflight_store \<Rightarrow> (string \<Rightarrow> nat) \<Rightarrow> bool" where
  "permits_ok cap s h \<longleftrightarrow> distinct (dkeys (counters s)) \<and>
     (\<forall>k. dget_or (counters s) k 0 = int (h k) \<and> (h k = 0 \<or> int (h k) \<le> cap k))"

lemma gc_keeps_counters:
  assumes "distinct (dkeys (counters s))"
  shows "distinct (dkeys (counters (gc_cold_counters s)))"
    and "0 \<le> dget_or (counters s) k 0 \<Longrightarrow> dget_or (counters (gc_cold_counters s)) k 0 = dget_or (counters s) k 0"
  using assms dget_sweep [OF assms, of "\<lambda>n. n \<le> 0" k]
  by (auto simp: gc_cold_counters_def Let_def dget_or_def distinct_dpops split: option.splits)

lemma acquire_permits:
  assumes "permits_ok cap s h" and "inflight_acquire (cap k) k s = (r, s')"
  shows "r = Inr () \<Longrightarrow> permits_ok cap s' (h(k := Suc (h k)))" and "r \<noteq> Inr () \<Longrightarrow> s' = s"
    and "0 < cap k \<Longrightarrow> r = (if int (h k) < cap k then Inr () else Inl (ConcurrencyLimitExceeded MIN_RETRY_AFTER_SECONDS))"
proof -
  have cur: "dget_or (counters s) k 0 = int (h k)" and d: "distinct (dkeys (counters s))"
    using assms(1) by (simp_all add: permits_ok_def)
  let ?s1 = "s\<lparr>counters := dput k (int (h k) + 1) (counters s), permits_since_gc := permits_since_gc s + 1\<rparr>"
  let ?s2 = "?s1\<lparr>permits_since_gc := 0\<rparr>"
  have "permits_ok cap ?s1 (h(k := Suc (h k)))" if "int (h k) < cap k"
    using assms(1) that by (auto simp: permits_ok_def)
  moreover have "permits_ok cap (gc_cold_counters ?s2) (h(k := Suc (h k)))" if "int (h k) < cap k"
  proof -
    have d2: "distinct (dkeys (counters ?s2))" using d by simp
    have "dget_or (counters (gc_cold_counters ?s2)) k' 0 = dget_or (counters ?s2) k' 0" for k'
      using gc_keeps_counters(2) [OF d2, of k'] assms(1) by (simp add: permits_ok_def)
    then show ?thesis using gc_keeps_counters(1) [OF d2] assms(1) that by (auto simp: permits_ok_def)
  qed
  ultimately show "r = Inr () \<Longrightarrow> permits_ok cap s' (h(k := Suc (h k)))"
    using assms(2) by (auto simp: inflight_acquire_def acquire_or_raise_def Let_def cur split: if_splits)
  show "r \<noteq> Inr () \<Longrightarrow> s' = s" and "0 < cap k \<Longrightarrow> r = (if int (h k) < cap k then Inr () else Inl (ConcurrencyLimitExceeded MIN_RETRY_AFTER_SECONDS))"
    using assms(2) by (auto simp: inflight_acquire_def acquire_or_raise_def Let_def cur split: if_splits)
qed

lemma release_permits: "permits_ok cap s h \<Longrightarrow> 0 < h k \<Longrightarrow> permits_ok cap (inflight_release k s) (h(k := h k - 1))"
proof -
  assume a: "permits_ok cap s h" "0 < h k"
  have k: "dget_or (counters s) k 0 = int (h k)" "int (h k) \<le> cap k" using a by (auto simp: permits_ok_def dest: spec [of _ k])
  have "counters (inflight_release k s) = dput k (int (h k - 1)) (counters s)"
    using k a(2) by (simp add: inflight_release_def Let_def of_nat_diff)
  then show ?thesis using a k(2) by (simp add: permits_ok_def)
qed

lemma inflight_step_permits: "inflight_step cap c c' \<Longrightarrow> permits_ok cap (fst c) (snd c) \<Longrightarrow> permits_ok cap (fst c') (snd c')"
proof (induction rule: inflight_step.induct)
  case (enter k s s' h)
  then show ?case using acquire_permits(1) [of cap s h k "Inr ()" s'] by (simp add: fun_upd_def)
next
  case (refuse k s e s' h)
  then show ?case using acquire_permits(2) [of cap s h k "Inl e" s'] by simp
next
  case (leave h k s)
  then show ?case using release_permits [of cap s h k] by (simp add: fun_upd_def)
qed

text \<open>
  In every reachable state of the in-flight limiter a key's counter is the number of requests that hold
  its permit (so sweeps lose none), that number never exceeds the cap, and the next request is admitted
  exactly when it is below the cap; otherwise it is refused with a delay of one second.
\<close>

theorem inflight_cap_respected:
  assumes "(inflight_step cap)\<^sup>*\<^sup>* (new_inflight_store, \<lambda>_. 0) (s, h)" and "0 < cap k"
  shows "dget_or (counters s) k 0 = int (h k) \<and> int (h k) \<le> cap k \<and>
    fst (inflight_acquire (cap k) k s) = (if int (h k) < cap k then Inr () else Inl (ConcurrencyLimitExceeded 1))"
proof -
  have "permits_ok cap (fst (s, h)) (snd (s, h))" using assms(1)
  proof (induction rule: rtranclp_induct)
    case base
    then show ?case by (simp add: permits_ok_def new_inflight_store_def)
  next
    case (step c c')
    then show ?case using inflight_step_permits by blast
  qed
  then have ok: "permits_ok cap s h" by simp
  then have "dget_or (counters s) k 0 = int (h k)" and "int (h k) \<le> cap k"
    using assms(2) by (auto simp: permits_ok_def dest: spec [of _ k])
  then show ?thesis
    using acquire_permits(3) [OF ok prod.collapse [symmetric] assms(2)] by (simp add: MIN_RETRY_AFTER_SECONDS_def)
qed

theorem inflight_cap_respected_witness:
  "fst (inflight_acquire 1 ''op:ip:h'' \<lparr>counters = [(''op:ip:h'', 1)], permits_since_gc = 1\<rparr>) = Inl (ConcurrencyLimitExceeded 1)"
proof -
  let ?h = "(\<lambda>_. 0)(''op:ip:h'' := Suc 0)"
  have "inflight_step (\<lambda>_. 1) (new_inflight_store, \<lambda>_. 0) (\<lparr>counters = [(''op:ip:h'', 1)], permits_since_gc = 1\<rparr>, ?h)"
    using inflight_step.enter [of "\<lambda>_. 1" "''op:ip:h''" new_inflight_store "\<lparr>counters = [(''op:ip:h'', 1)], permits_since_gc = 1\<rparr>" "\<lambda>_. 0"]
    by (simp add: inflight_acquire_def acquire_or_raise_def new_inflight_store_def GC_EVERY_N_ACQUIRES_def)
  then show ?thesis using inflight_cap_respected [of "\<lambda>_. 1" _ ?h "''op:ip:h''", OF r_into_rtranclp] by simp
qed

end
