(* ===== verification/Calendar.thy ===== *)
theory Calendar
  imports Prelude "HOL-Library.Product_Lexorder"
begin

text \<open>
  Timezone-aware datetimes in UTC as Python has them: the fields of \<^verbatim>\<open>datetime\<close> in the proleptic
  Gregorian calendar, compared field by field, with differences through ordinal day numbers. Years are not
  bounded.
\<close>

subsection \<open>Datetimes\<close>

datatype datetime = DateTime (yr: int) (mo: int) (dy: int) (hr: int) (mi: int) (sec: rat)

definition dt_key :: "datetime \<Rightarrow> int \<times> int \<times> int \<times> int \<times> int \<times> rat" where
  "dt_key d = (yr d, mo d, dy d, hr d, mi d, sec d)"

lemma dt_key_inj [simp]: "dt_key a = dt_key b \<longleftrightarrow> a = b"
  by (cases a; cases b) (simp add: dt_key_def)

instantiation datetime :: linorder
begin

definition less_eq_datetime :: "datetime \<Rightarrow> datetime \<Rightarrow> bool" where
  "less_eq_datetime a b \<longleftrightarrow> dt_key a \<le> dt_key b"

definition less_datetime :: "datetime \<Rightarrow> datetime \<Rightarrow> bool" where
  "less_datetime a b \<longleftrightarrow> dt_key a < dt_key b"

instance
  by standard (auto simp: less_eq_datetime_def less_datetime_def less_le)

end

definition is_leap :: "int \<Rightarrow> bool" where
  "is_leap y \<longleftrightarrow> y mod 4 = 0 \<and> (y mod 100 \<noteq> 0 \<or> y mod 400 = 0)"

definition days_in_month :: "int \<Rightarrow> int \<Rightarrow> int" where
  "days_in_month y m = (if m = 2 then if is_leap y then 29 else 28 else if m \<in> {4, 6, 9, 11} then 30 else 31)"

definition days_before_month :: "int \<Rightarrow> int \<Rightarrow> int" where
  "days_before_month y m = sum_list (List.map (days_in_month y) [1..m - 1])"

definition days_before_year :: "int \<Rightarrow> int" where
  "days_before_year y = (let k = y - 1 in k * 365 + k div 4 - k div 100 + k div 400)"

definition toordinal :: "datetime \<Rightarrow> int" where
  "toordinal d = days_before_year (yr d) + days_before_month (yr d) (mo d) + dy d"

text \<open>Seconds since a fixed day; the difference of two datetimes is the difference of these.\<close>

definition epoch :: "datetime \<Rightarrow> rat" where
  "epoch d = of_int (86400 * toordinal d + 3600 * hr d + 60 * mi d) + sec d"

definition valid_datetime :: "datetime \<Rightarrow> bool" where
  "valid_datetime d \<longleftrightarrow> 1 \<le> mo d \<and> mo d \<le> 12 \<and> 1 \<le> dy d \<and> dy d \<le> days_in_month (yr d) (mo d) \<and>
     0 \<le> hr d \<and> hr d < 24 \<and> 0 \<le> mi d \<and> mi d < 60 \<and> 0 \<le> sec d \<and> sec d < 60"

text \<open>Adding a day, an hour or a minute.\<close>

definition next_month :: "datetime \<Rightarrow> datetime" where
  "next_month d = DateTime (yr d + (if mo d = 12 then 1 else 0)) (mo d mod 12 + 1) (dy d) (hr d) (mi d) (sec d)"

definition next_day :: "datetime \<Rightarrow> datetime" where
  "next_day d =
     (if dy d < days_in_month (yr d) (mo d) then DateTime (yr d) (mo d) (dy d + 1) (hr d) (mi d) (sec d)
      else next_month (DateTime (yr d) (mo d) 1 (hr d) (mi d) (sec d)))"

definition next_hour :: "datetime \<Rightarrow> datetime" where
  "next_hour d =
     (if hr d < 23 then DateTime (yr d) (mo d) (dy d) (hr d + 1) (mi d) (sec d)
      else next_day (DateTime (yr d) (mo d) (dy d) 0 (mi d) (sec d)))"

definition next_minute :: "datetime \<Rightarrow> datetime" where
  "next_minute d =
     (if mi d < 59 then DateTime (yr d) (mo d) (dy d) (hr d) (mi d + 1) (sec d)
      else next_hour (DateTime (yr d) (mo d) (dy d) (hr d) 0 (sec d)))"

subsection \<open>Lemmas\<close>

lemma days_before_next_month: "1 \<le> m \<Longrightarrow> days_before_month y (m + 1) = days_before_month y m + days_in_month y m"
  by (simp add: days_before_month_def upto_rec2)

lemma days_before_year_end: "days_before_month y 12 + 31 = (if is_leap y then 366 else 365)"
  by (simp add: days_before_month_def days_in_month_def upto_rec1)

lemma div_step:
  fixes y n :: int
  assumes "1 < n"
  shows "y div n = (y - 1) div n + (if n dvd y then 1 else 0)"
proof (cases "n dvd y")
  case True
  then obtain k where k: "y = n * k" by (auto simp: dvd_def)
  then have "y - 1 = n * (k - 1) + (n - 1)" by (simp add: algebra_simps)
  then have "(y - 1) div n = k - 1" using assms int_div_pos_eq [of "y - 1" n "k - 1" "n - 1"] by simp
  then show ?thesis using True k assms by simp
next
  case False
  then have "0 < y mod n" using assms by (simp add: dvd_eq_mod_eq_0 order_less_le)
  moreover have "y mod n - 1 < n" using assms pos_mod_bound [of n y] by linarith
  ultimately have "(y - 1) div n = y div n" using int_div_pos_eq [of "y - 1" n "y div n" "y mod n - 1"] by simp
  then show ?thesis using False by simp
qed

lemma leap_count:
  "(c \<longrightarrow> b) \<Longrightarrow> (b \<longrightarrow> a) \<Longrightarrow>
     x + 365 + (if a then 1 else 0) - (if b then 1 else 0) + (if c then 1 else 0) = x + (if a \<and> (\<not> b \<or> c) then 366 else 365 :: int)"
  by (cases a; cases b; cases c) simp_all

lemma days_before_next_year: "days_before_year (y + 1) = days_before_year y + (if is_leap y then 366 else 365)"
proof -
  have dvd: "400 dvd y \<longrightarrow> 100 dvd y" "100 dvd y \<longrightarrow> 4 dvd y"
    by (rule impI, rule dvd_trans [of _ 400], simp, assumption) (rule impI, rule dvd_trans [of _ 100], simp, assumption)
  have leap: "is_leap y \<longleftrightarrow> 4 dvd y \<and> (\<not> 100 dvd y \<or> 400 dvd y)" by (simp only: is_leap_def dvd_eq_mod_eq_0)
  have "days_before_year (y + 1) = y * 365 + y div 4 - y div 100 + y div 400" by (simp add: days_before_year_def)
  also have "\<dots> = days_before_year y + 365 + (if 4 dvd y then 1 else 0) - (if 100 dvd y then 1 else 0) + (if 400 dvd y then 1 else 0)"
    unfolding div_step [of 4 y, simplified] div_step [of 100 y, simplified] div_step [of 400 y, simplified]
    by (simp add: days_before_year_def Let_def)
  also have "\<dots> = days_before_year y + (if is_leap y then 366 else 365)" unfolding leap using dvd by (rule leap_count)
  finally show ?thesis .
qed

lemma toordinal_next_month:
  assumes "1 \<le> mo d" and "mo d \<le> 12"
  shows "toordinal (next_month d) = toordinal d + days_in_month (yr d) (mo d)"
proof (cases "mo d = 12")
  case True
  then show ?thesis
    using days_before_year_end [of "yr d"] days_before_next_year [of "yr d"]
    by (simp add: next_month_def toordinal_def days_in_month_def days_before_month_def)
next
  case False
  then show ?thesis using assms days_before_next_month [of "mo d" "yr d"] by (simp add: next_month_def toordinal_def add.commute)
qed

lemma epoch_next_month:
  "1 \<le> mo d \<Longrightarrow> mo d \<le> 12 \<Longrightarrow> epoch (next_month d) = epoch d + 86400 * of_int (days_in_month (yr d) (mo d))"
  using toordinal_next_month [of d] by (simp add: epoch_def) (simp add: next_month_def algebra_simps)

lemma epoch_next_day:
  assumes "valid_datetime d"
  shows "epoch (next_day d) = epoch d + 86400"
proof (cases "dy d < days_in_month (yr d) (mo d)")
  case True
  then show ?thesis by (simp add: next_day_def epoch_def toordinal_def algebra_simps)
next
  case False
  then have "dy d = days_in_month (yr d) (mo d)" using assms by (simp add: valid_datetime_def)
  then show ?thesis using False assms
    by (simp add: next_day_def epoch_next_month valid_datetime_def) (simp add: epoch_def toordinal_def algebra_simps)
qed

lemma epoch_next_hour: "valid_datetime d \<Longrightarrow> epoch (next_hour d) = epoch d + 3600"
  using epoch_next_day [of "DateTime (yr d) (mo d) (dy d) 0 (mi d) (sec d)"]
  by (auto simp: next_hour_def epoch_def toordinal_def valid_datetime_def algebra_simps)

lemma epoch_next_minute: "valid_datetime d \<Longrightarrow> epoch (next_minute d) = epoch d + 60"
  using epoch_next_hour [of "DateTime (yr d) (mo d) (dy d) (hr d) 0 (sec d)"]
  by (auto simp: next_minute_def epoch_def toordinal_def valid_datetime_def algebra_simps)

end
