(* ===== verification/Quota.thy ===== *)
theory Quota
  imports Calendar
begin

text \<open>
  Provider quotas, \<^verbatim>\<open>budget/quota.py\<close>, \<^verbatim>\<open>budget/quota_tracker.py\<close> and \<^verbatim>\<open>budget/degradation.py\<close>: calendar
  windows, the usage counters that rotate_usage with them, the pre-flight check, snapshots and the three
  degradation strategies. The methods of the tracker hold a lock across code that does not suspend, so each is
  one step; the clock is an argument. The checks of the owning event loop are left out.
\<close>

subsection \<open>Models\<close>

datatype QuotaWindow = PER_MINUTE | PER_HOUR | PER_DAY | PER_MONTH

record QuotaLimit =
  q_window :: QuotaWindow
  max_requests :: int
  max_tokens :: int

definition valid_limit :: "QuotaLimit \<Rightarrow> bool" where
  "valid_limit q \<longleftrightarrow> 0 \<le> max_requests q \<and> 0 \<le> max_tokens q \<and> \<not> (max_requests q = 0 \<and> max_tokens q = 0)"

datatype ProviderCostModel = PER_TOKEN | SUBSCRIPTION | LOCAL

record SubscriptionConfig =
  plan_name :: string
  cost_model :: ProviderCostModel
  monthly_cost :: rat
  quotas :: "QuotaLimit list"

definition valid_subscription :: "SubscriptionConfig \<Rightarrow> bool" where
  "valid_subscription c \<longleftrightarrow> not_blank (plan_name c) \<and> 0 \<le> monthly_cost c \<and> list_all valid_limit (quotas c) \<and>
     distinct (List.map q_window (quotas c)) \<and> \<not> (cost_model c = LOCAL \<and> monthly_cost c > 0)"

datatype DegradationAction = FALLBACK | QUEUE | ALERT

record DegradationConfig =
  strategy :: DegradationAction
  fallback_providers :: "string list"
  queue_max_wait_seconds :: int

record QuotaSnapshot =
  snap_provider :: string
  snap_window :: QuotaWindow
  requests_used :: int
  requests_limit :: int
  tokens_used :: int
  tokens_limit :: int
  window_resets_at :: datetime
  captured_at :: datetime

definition requests_remaining :: "QuotaSnapshot \<Rightarrow> int option" where
  "requests_remaining s = (if requests_limit s = 0 then None else Some (max 0 (requests_limit s - requests_used s)))"

definition tokens_remaining :: "QuotaSnapshot \<Rightarrow> int option" where
  "tokens_remaining s = (if tokens_limit s = 0 then None else Some (max 0 (tokens_limit s - tokens_used s)))"

definition is_exhausted :: "QuotaSnapshot \<Rightarrow> bool" where
  "is_exhausted s \<longleftrightarrow>
     (requests_limit s > 0 \<and> requests_used s \<ge> requests_limit s) \<or> (tokens_limit s > 0 \<and> tokens_used s \<ge> tokens_limit s)"

definition effective_cost_per_1k :: "rat \<Rightarrow> rat \<Rightarrow> ProviderCostModel \<Rightarrow> rat" where
  "effective_cost_per_1k input output m = (if m \<in> {SUBSCRIPTION, LOCAL} then 0 else input + output)"

subsection \<open>Windows\<close>

fun window_start :: "QuotaWindow \<Rightarrow> datetime \<Rightarrow> datetime" where
  "window_start PER_MINUTE d = DateTime (yr d) (mo d) (dy d) (hr d) (mi d) 0"
| "window_start PER_HOUR d = DateTime (yr d) (mo d) (dy d) (hr d) 0 0"
| "window_start PER_DAY d = DateTime (yr d) (mo d) (dy d) 0 0 0"
| "window_start PER_MONTH d = DateTime (yr d) (mo d) 1 0 0 0"

fun window_end :: "QuotaWindow \<Rightarrow> datetime \<Rightarrow> datetime" where
  "window_end PER_MINUTE start = next_minute start"
| "window_end PER_HOUR start = next_hour start"
| "window_end PER_DAY start = next_day start"
| "window_end PER_MONTH start = next_month start"

subsection \<open>Tracker\<close>

record WindowUsage =
  requests :: int
  tokens :: int
  usage_start :: datetime

type_synonym usage = "(QuotaWindow, WindowUsage) dict"

record tracker =
  subscriptions :: "(string, SubscriptionConfig) dict"
  usage_of :: "(string, usage) dict"

definition initial_usage :: "datetime \<Rightarrow> QuotaLimit list \<Rightarrow> usage" where
  "initial_usage now qs =
     fold (\<lambda>q u. dput (q_window q) \<lparr>requests = 0, tokens = 0, usage_start = window_start (q_window q) now\<rparr> u) qs []"

definition new_tracker :: "datetime \<Rightarrow> (string, SubscriptionConfig) dict \<Rightarrow> tracker" where
  "new_tracker now subs =
     \<lparr>subscriptions = subs,
      usage_of = fold (\<lambda>(p, c) u. if quotas c = [] then u else dput p (initial_usage now (quotas c)) u) subs []\<rparr>"

datatype quota_error = NegativeRequests | NegativeTokens | NegativeEstimate

definition rotate_usage :: "int \<Rightarrow> int \<Rightarrow> datetime \<Rightarrow> QuotaWindow \<Rightarrow> WindowUsage \<Rightarrow> WindowUsage" where
  "rotate_usage r t now w current =
     (let expected_start = window_start w now in
      if expected_start \<noteq> usage_start current
      then \<lparr>requests = r, tokens = t, usage_start = expected_start\<rparr>
      else \<lparr>requests = requests current + r, tokens = tokens current + t, usage_start = usage_start current\<rparr>)"

definition record_usage :: "string \<Rightarrow> int \<Rightarrow> int \<Rightarrow> datetime \<Rightarrow> tracker \<Rightarrow> (quota_error + unit) \<times> tracker" where
  "record_usage p r t now s =
     (if r < 0 then (Inl NegativeRequests, s)
      else if t < 0 then (Inl NegativeTokens, s)
      else case dget (usage_of s) p of
             None \<Rightarrow> (Inr (), s)
           | Some u \<Rightarrow> (Inr (), s\<lparr>usage_of := dput p (List.map (\<lambda>(w, cur). (w, rotate_usage r t now w cur)) u) (usage_of s)\<rparr>))"

definition is_window_exhausted :: "WindowUsage \<Rightarrow> QuotaLimit \<Rightarrow> int \<Rightarrow> bool" where
  "is_window_exhausted u q estimated \<longleftrightarrow>
     (max_requests q > 0 \<and> requests u \<ge> max_requests q) \<or> (max_tokens q > 0 \<and> tokens u + estimated > max_tokens q)"

text \<open>The text of a reason as its parts: the window, and the figures that are over their limits.\<close>

record exhaustion =
  ex_window :: QuotaWindow
  ex_requests :: "(int \<times> int) option"
  ex_tokens :: "(int \<times> int) option"

definition build_exhaustion_reason :: "QuotaWindow \<Rightarrow> WindowUsage \<Rightarrow> QuotaLimit \<Rightarrow> int \<Rightarrow> exhaustion" where
  "build_exhaustion_reason w u q estimated =
     (let projected = tokens u + estimated in
      \<lparr>ex_window = w,
       ex_requests = (if max_requests q > 0 \<and> requests u \<ge> max_requests q then Some (requests u, max_requests q) else None),
       ex_tokens = (if max_tokens q > 0 \<and> projected > max_tokens q then Some (projected, max_tokens q) else None)\<rparr>)"

record QuotaCheckResult =
  q_allowed :: bool
  q_provider :: string
  q_reasons :: "exhaustion list"
  exhausted_windows :: "QuotaWindow list"

definition always_allowed_result :: "string \<Rightarrow> QuotaCheckResult" where
  "always_allowed_result p = \<lparr>q_allowed = True, q_provider = p, q_reasons = [], exhausted_windows = []\<rparr>"

definition valid_check_result :: "QuotaCheckResult \<Rightarrow> bool" where
  "valid_check_result r \<longleftrightarrow> \<not> (\<not> q_allowed r \<and> q_reasons r = []) \<and> \<not> (q_allowed r \<and> exhausted_windows r \<noteq> [])"

definition quota_map :: "SubscriptionConfig \<Rightarrow> QuotaWindow \<Rightarrow> QuotaLimit option" where
  "quota_map c w = dget (rev (List.map (\<lambda>q. (q_window q, q)) (quotas c))) w"

definition over_limit :: "SubscriptionConfig \<Rightarrow> int \<Rightarrow> datetime \<Rightarrow> QuotaWindow \<times> WindowUsage \<Rightarrow> exhaustion option" where
  "over_limit c estimated now wu =
     (let (w, u) = wu in
      if window_start w now \<noteq> usage_start u then None
      else case quota_map c w of
             None \<Rightarrow> None
           | Some q \<Rightarrow> if is_window_exhausted u q estimated then Some (build_exhaustion_reason w u q estimated) else None)"

definition check_quota :: "string \<Rightarrow> int \<Rightarrow> datetime \<Rightarrow> tracker \<Rightarrow> quota_error + QuotaCheckResult" where
  "check_quota p estimated now s =
     (if estimated < 0 then Inl NegativeEstimate
      else case dget (usage_of s) p of
             None \<Rightarrow> Inr (always_allowed_result p)
           | Some u \<Rightarrow>
               (case dget (subscriptions s) p of
                  None \<Rightarrow> Inr (always_allowed_result p)
                | Some c \<Rightarrow>
                    let reasons = List.map_filter (over_limit c estimated now) u in
                    if reasons \<noteq> []
                    then Inr \<lparr>q_allowed = False, q_provider = p, q_reasons = reasons, exhausted_windows = List.map ex_window reasons\<rparr>
                    else Inr (always_allowed_result p)))"

definition snapshot_of :: "string \<Rightarrow> SubscriptionConfig \<Rightarrow> datetime \<Rightarrow> QuotaWindow \<times> WindowUsage \<Rightarrow> QuotaSnapshot option" where
  "snapshot_of p c now wu =
     (let (w, u) = wu in
      case quota_map c w of
        None \<Rightarrow> None
      | Some q \<Rightarrow>
          let expected_start = window_start w now; rotated = (expected_start \<noteq> usage_start u) in
          Some \<lparr>snap_provider = p, snap_window = w,
                requests_used = (if rotated then 0 else requests u), requests_limit = max_requests q,
                tokens_used = (if rotated then 0 else tokens u), tokens_limit = max_tokens q,
                window_resets_at = window_end w expected_start, captured_at = now\<rparr>)"

definition get_snapshot :: "string \<Rightarrow> QuotaWindow option \<Rightarrow> datetime \<Rightarrow> tracker \<Rightarrow> QuotaSnapshot list" where
  "get_snapshot p window now s =
     (case (dget (usage_of s) p, dget (subscriptions s) p) of
        (Some u, Some c) \<Rightarrow>
          List.map_filter (snapshot_of p c now) (filter (\<lambda>(w, _). window = None \<or> window = Some w) u)
      | _ \<Rightarrow> [])"

definition get_all_snapshots :: "(string \<Rightarrow> datetime) \<Rightarrow> tracker \<Rightarrow> (string \<times> QuotaSnapshot list) list" where
  "get_all_snapshots clock s = List.map (\<lambda>p. (p, get_snapshot p None (clock p) s)) (dkeys (usage_of s))"

definition peek_quota_available :: "datetime \<Rightarrow> tracker \<Rightarrow> (string \<times> bool) list" where
  "peek_quota_available now s =
     List.map_filter (\<lambda>(p, u). case dget (subscriptions s) p of None \<Rightarrow> None
                      | Some c \<Rightarrow> Some (p, List.map_filter (over_limit c 1 now) u = [])) (usage_of s)"

subsection \<open>Degradation\<close>

record DegradationResult =
  original_provider :: string
  effective_provider :: string
  action_taken :: DegradationAction
  wait_seconds :: rat

datatype degradation_error = QuotaAlert string | NoFallbackConfigured string | FallbacksExhausted string "string list" |
  NoResetTime string | MaxWaitExceeded string rat | StillExhausted string | CheckError quota_error

text \<open>The checks of the fallbacks read the clock one after the other.\<close>

fun try_fallbacks :: "string \<Rightarrow> int \<Rightarrow> (nat \<Rightarrow> datetime) \<Rightarrow> nat \<Rightarrow> tracker \<Rightarrow> string list \<Rightarrow> string list \<Rightarrow>
    degradation_error + DegradationResult" where
  "try_fallbacks p est clock i s tried [] = Inl (FallbacksExhausted p tried)"
| "try_fallbacks p est clock i s tried (f # fs) =
     (case check_quota f est (clock i) s of
        Inl _ \<Rightarrow> try_fallbacks p est clock (Suc i) s (tried @ [f]) fs
      | Inr r \<Rightarrow>
          if q_allowed r
          then Inr \<lparr>original_provider = p, effective_provider = f, action_taken = FALLBACK, wait_seconds = 0\<rparr>
          else try_fallbacks p est clock (Suc i) s (tried @ [f]) fs)"

definition resolve_fallback :: "string \<Rightarrow> DegradationConfig \<Rightarrow> int \<Rightarrow> (nat \<Rightarrow> datetime) \<Rightarrow> tracker \<Rightarrow>
    degradation_error + DegradationResult" where
  "resolve_fallback p cfg est clock s =
     (if fallback_providers cfg = [] then Inl (NoFallbackConfigured p)
      else try_fallbacks p est clock 0 s [] (fallback_providers cfg))"

definition extract_reset_times :: "QuotaSnapshot list \<Rightarrow> QuotaWindow list \<Rightarrow> datetime list" where
  "extract_reset_times snaps ws = List.map window_resets_at (filter (\<lambda>s. snap_window s \<in> set ws) snaps)"

definition compute_queue_delay :: "string \<Rightarrow> QuotaWindow list \<Rightarrow> int \<Rightarrow> datetime \<Rightarrow> datetime \<Rightarrow> tracker \<Rightarrow>
    degradation_error + rat" where
  "compute_queue_delay p ws max_wait snap_now now s =
     (let reset_times = extract_reset_times (get_snapshot p None snap_now s) ws in
      if reset_times = [] then Inl (NoResetTime p)
      else let soonest = Min (set reset_times); delay = epoch soonest - epoch now in
           if delay \<le> 0 then Inr 0
           else if delay > of_int max_wait then Inl (MaxWaitExceeded p delay)
           else Inr delay)"

definition recheck_after_wait :: "string \<Rightarrow> int \<Rightarrow> rat \<Rightarrow> datetime \<Rightarrow> tracker \<Rightarrow> degradation_error + DegradationResult" where
  "recheck_after_wait p est delay now s =
     (case check_quota p est now s of
        Inl e \<Rightarrow> Inl (CheckError e)
      | Inr r \<Rightarrow>
          if \<not> q_allowed r then Inl (StillExhausted p)
          else Inr \<lparr>original_provider = p, effective_provider = p, action_taken = QUEUE, wait_seconds = delay\<rparr>)"

text \<open>\<open>s'\<close> is the tracker after the sleep, in which others may have recorded usage.\<close>

definition resolve_queue :: "string \<Rightarrow> QuotaCheckResult \<Rightarrow> DegradationConfig \<Rightarrow> int \<Rightarrow> (nat \<Rightarrow> datetime) \<Rightarrow> tracker \<Rightarrow> tracker \<Rightarrow>
    degradation_error + DegradationResult" where
  "resolve_queue p res cfg est clock s s' =
     (case compute_queue_delay p (exhausted_windows res) (queue_max_wait_seconds cfg) (clock 0) (clock 1) s of
        Inl e \<Rightarrow> Inl e
      | Inr delay \<Rightarrow> recheck_after_wait p est delay (clock 2) s')"

definition resolve_degradation :: "string \<Rightarrow> QuotaCheckResult \<Rightarrow> DegradationConfig \<Rightarrow> int \<Rightarrow> (nat \<Rightarrow> datetime) \<Rightarrow> tracker \<Rightarrow> tracker \<Rightarrow>
    degradation_error + DegradationResult" where
  "resolve_degradation p res cfg est clock s s' =
     (case strategy cfg of
        FALLBACK \<Rightarrow> resolve_fallback p cfg est clock s
      | QUEUE \<Rightarrow> resolve_queue p res cfg est clock s s'
      | ALERT \<Rightarrow> Inl (QuotaAlert p))"

subsection \<open>Calendar windows\<close>

lemma window_contains:
  assumes "valid_datetime d"
  shows "epoch (window_start w d) \<le> epoch d" and "epoch d < epoch (window_end w (window_start w d))"
    and "valid_datetime (window_start w d)"
proof -
  show valid: "valid_datetime (window_start w d)"
    using assms by (cases w) (auto simp: valid_datetime_def)
  have pos: "0 \<le> (of_int (hr d) :: rat)" "(of_int (hr d) :: rat) \<le> 23" "0 \<le> (of_int (mi d) :: rat)" "(of_int (mi d) :: rat) \<le> 59"
      "1 \<le> (of_int (dy d) :: rat)" "(of_int (dy d) :: rat) \<le> of_int (days_in_month (yr d) (mo d))" "0 \<le> sec d" "sec d < 60"
    using assms by (auto simp: valid_datetime_def simp flip: of_int_le_iff)
  then show "epoch (window_start w d) \<le> epoch d"
    by (cases w) (simp_all add: epoch_def toordinal_def)
  have "epoch d < epoch (window_start w d) + (case w of PER_MINUTE \<Rightarrow> 60 | PER_HOUR \<Rightarrow> 3600 | PER_DAY \<Rightarrow> 86400
      | PER_MONTH \<Rightarrow> 86400 * of_int (days_in_month (yr d) (mo d)))"
    using pos by (cases w) (simp_all add: epoch_def toordinal_def)
  also have "\<dots> = epoch (window_end w (window_start w d))"
    using valid assms by (cases w) (simp_all add: epoch_next_minute epoch_next_hour epoch_next_day epoch_next_month valid_datetime_def)
  finally show "epoch d < epoch (window_end w (window_start w d))" .
qed

lemma window_passed:
  "valid_datetime d' \<Longrightarrow> epoch (window_end w (window_start w d)) \<le> epoch d' \<Longrightarrow> window_start w d' \<noteq> window_start w d"
  using window_contains(2) [of d' w] by auto

lemma window_start_mono: "a \<le> b \<Longrightarrow> window_start w a \<le> window_start w b"
  by (cases w; cases a; cases b) (auto simp: less_eq_datetime_def dt_key_def)

subsection \<open>The history of usage\<close>

type_synonym usage_event = "string \<times> int \<times> int \<times> datetime"

text \<open>What a calendar window of a provider saw: the sums over the recorded events of that window.\<close>

definition in_calendar_window :: "string \<Rightarrow> QuotaWindow \<Rightarrow> datetime \<Rightarrow> usage_event list \<Rightarrow> usage_event list" where
  "in_calendar_window p w start es = filter (\<lambda>(p', r, t, ti). p' = p \<and> window_start w ti = start) es"

definition total_requests :: "usage_event list \<Rightarrow> int" where
  "total_requests es = sum_list (List.map (\<lambda>(p, r, t, ti). r) es)"

definition total_tokens :: "usage_event list \<Rightarrow> int" where
  "total_tokens es = sum_list (List.map (\<lambda>(p, r, t, ti). t) es)"

fun usage_run :: "usage_event list \<Rightarrow> tracker \<Rightarrow> tracker" where
  "usage_run [] s = s"
| "usage_run ((p, r, t, ti) # es) s = usage_run es (snd (record_usage p r t ti s))"

text \<open>Events in clock order, between two readings, with counts that are not negative.\<close>

fun usage_events :: "datetime \<Rightarrow> usage_event list \<Rightarrow> datetime \<Rightarrow> bool" where
  "usage_events t0 [] t1 \<longleftrightarrow> t0 \<le> t1"
| "usage_events t0 ((p, r, t, ti) # es) t1 \<longleftrightarrow> t0 \<le> ti \<and> 0 \<le> r \<and> 0 \<le> t \<and> usage_events ti es t1"

text \<open>A counter agrees with the history: it was started no later than now and holds the sums of its window.\<close>

definition counter_ok :: "string \<Rightarrow> QuotaWindow \<Rightarrow> usage_event list \<Rightarrow> datetime \<Rightarrow> WindowUsage \<Rightarrow> bool" where
  "counter_ok p w h now u \<longleftrightarrow> usage_start u \<le> window_start w now \<and>
     (\<forall>(p', r, t, ti) \<in> set h. p' = p \<longrightarrow> window_start w ti \<le> usage_start u) \<and>
     requests u = total_requests (in_calendar_window p w (usage_start u) h) \<and>
     tokens u = total_tokens (in_calendar_window p w (usage_start u) h)"

definition tracker_ok :: "usage_event list \<Rightarrow> datetime \<Rightarrow> tracker \<Rightarrow> bool" where
  "tracker_ok h now s \<longleftrightarrow> (\<forall>p u w c. dget (usage_of s) p = Some u \<longrightarrow> dget u w = Some c \<longrightarrow> counter_ok p w h now c)"

lemma counter_later: "counter_ok p w h now u \<Longrightarrow> now \<le> now' \<Longrightarrow> counter_ok p w h now' u"
  using window_start_mono [of now now' w] order.trans [of "usage_start u" "window_start w now" "window_start w now'"]
  by (simp add: counter_ok_def)

lemma usage_window_snoc: "in_calendar_window p w st (h @ [(p', r, t, ti)]) =
    in_calendar_window p w st h @ (if p' = p \<and> window_start w ti = st then [(p', r, t, ti)] else [])"
  by (simp add: in_calendar_window_def)

lemma totals_snoc [simp]:
  "total_requests (es @ [(p, r, t, ti)]) = total_requests es + r" "total_tokens (es @ [(p, r, t, ti)]) = total_tokens es + t"
  "total_requests [] = 0" "total_tokens [] = 0" "total_requests [(p, r, t, ti)] = r" "total_tokens [(p, r, t, ti)] = t"
  by (simp_all add: total_requests_def total_tokens_def)

lemma counter_fresh:
  assumes "counter_ok p w h now u" and "usage_start u \<noteq> window_start w now"
  shows "in_calendar_window p w (window_start w now) h = []"
proof -
  have "usage_start u < window_start w now" using assms by (simp add: counter_ok_def order.strict_iff_order)
  then have "window_start w ti \<noteq> window_start w now" if "(p, r, t, ti) \<in> set h" for r t ti
    using assms(1) that by (fastforce simp: counter_ok_def)
  then show ?thesis by (auto simp: in_calendar_window_def filter_empty_conv)
qed

lemma counter_rotate:
  assumes "counter_ok p w h now u"
  shows "counter_ok p w (h @ [(p, r, t, now)]) now (rotate_usage r t now w u)"
proof (cases "usage_start u = window_start w now")
  case True
  then show ?thesis using assms by (auto simp: counter_ok_def rotate_usage_def usage_window_snoc Let_def)
next
  case False
  have "\<forall>(p', r, t, ti) \<in> set h. p' = p \<longrightarrow> window_start w ti \<le> window_start w now"
    using assms unfolding counter_ok_def by (blast intro: order.trans)
  then show ?thesis using assms False counter_fresh [OF assms False]
    by (auto simp: counter_ok_def rotate_usage_def usage_window_snoc Let_def)
qed

lemma counter_other:
  assumes "counter_ok p w h now u" and "p' \<noteq> p"
  shows "counter_ok p w (h @ [(p', r, t, ti)]) now u"
  using assms by (auto simp: counter_ok_def usage_window_snoc)

lemma record_ok:
  assumes "tracker_ok h t0 s" and "t0 \<le> ti" and "0 \<le> r" and "0 \<le> t"
  shows "tracker_ok (h @ [(p, r, t, ti)]) ti (snd (record_usage p r t ti s))"
  unfolding tracker_ok_def
proof (intro allI impI)
  fix p' u w c assume l: "dget (usage_of (snd (record_usage p r t ti s))) p' = Some u" "dget u w = Some c"
  have upd: "dget (List.map (\<lambda>(w, cur). (w, f w cur)) v) w = map_option (f w) (dget v w)" for f :: "QuotaWindow \<Rightarrow> WindowUsage \<Rightarrow> WindowUsage" and v
    by (induction v) auto
  show "counter_ok p' w (h @ [(p, r, t, ti)]) ti c"
  proof (cases "p' = p")
    case True
    then obtain v cur where "dget (usage_of s) p = Some v" "dget v w = Some cur" "c = rotate_usage r t ti w cur"
      using l assms(3,4) by (auto simp: record_usage_def upd split: option.splits)
    moreover have "counter_ok p w h ti cur" if "dget (usage_of s) p = Some v" "dget v w = Some cur" for v cur
      using that assms(1,2) counter_later unfolding tracker_ok_def by blast
    ultimately show ?thesis using True counter_rotate by simp
  next
    case False
    then have "dget (usage_of s) p' = Some u"
      using l(1) assms(3,4) by (auto simp: record_usage_def split: option.splits)
    then have "counter_ok p' w h ti c" using l(2) assms(1,2) counter_later unfolding tracker_ok_def by blast
    then show ?thesis using False counter_other by simp
  qed
qed

lemma usage_events_le: "usage_events t0 es t1 \<Longrightarrow> t0 \<le> t1"
  by (induction t0 es t1 rule: usage_events.induct) auto

lemma run_ok: "tracker_ok h t0 s \<Longrightarrow> usage_events t0 es t1 \<Longrightarrow> tracker_ok (h @ es) t1 (usage_run es s)"
proof (induction es arbitrary: h t0 s)
  case Nil
  then have "t0 \<le> t1" by simp
  then show ?case using Nil(1) counter_later unfolding tracker_ok_def by fastforce
next
  case (Cons e es)
  obtain p r t ti where e: "e = (p, r, t, ti)" by (cases e)
  show ?case using Cons.IH [OF record_ok [of h t0 s ti r t p]] Cons.prems by (simp add: e)
qed


subsection \<open>Configured windows\<close>

definition windows_ok :: "tracker \<Rightarrow> bool" where
  "windows_ok s \<longleftrightarrow> (\<forall>p c. dget (subscriptions s) p = Some c \<longrightarrow> quotas c \<noteq> [] \<longrightarrow> valid_subscription c \<longrightarrow>
     (\<exists>u. dget (usage_of s) p = Some u \<and> dkeys u = List.map q_window (quotas c)))"

lemma initial_usage_keys: "distinct (List.map q_window qs) \<Longrightarrow> dkeys (initial_usage now qs) = List.map q_window qs"
proof -
  have new: "k \<notin> set (dkeys d) \<Longrightarrow> dput k v d = d @ [(k, v)]" for k v and d :: usage
    by (induction d) auto
  have "distinct (dkeys d @ List.map q_window qs) \<Longrightarrow>
      dkeys (fold (\<lambda>q u. dput (q_window q) \<lparr>requests = 0, tokens = 0, usage_start = window_start (q_window q) now\<rparr> u) qs d)
        = dkeys d @ List.map q_window qs" for d
    by (induction qs arbitrary: d) (auto simp: new)
  then show "distinct (List.map q_window qs) \<Longrightarrow> ?thesis" by (simp add: initial_usage_def)
qed

lemma initial_usage_zero: "dget (initial_usage now qs) w = Some c \<Longrightarrow> c = \<lparr>requests = 0, tokens = 0, usage_start = window_start w now\<rparr>"
proof -
  have "dget (fold (\<lambda>q u. dput (q_window q) \<lparr>requests = 0, tokens = 0, usage_start = window_start (q_window q) now\<rparr> u) qs d) w = Some c \<Longrightarrow>
      dget d w = Some c \<or> c = \<lparr>requests = 0, tokens = 0, usage_start = window_start w now\<rparr>" for d
    by (induction qs arbitrary: d) (fastforce split: if_splits)+
  then show "dget (initial_usage now qs) w = Some c \<Longrightarrow> ?thesis" by (force simp: initial_usage_def)
qed

lemma new_tracker_usage:
  assumes "distinct (dkeys subs)"
  shows "dget (usage_of (new_tracker now subs)) p =
    (case dget subs p of None \<Rightarrow> None | Some c \<Rightarrow> if quotas c = [] then None else Some (initial_usage now (quotas c)))"
proof -
  let ?f = "\<lambda>(p, c) u. if quotas c = [] then u else dput p (initial_usage now (quotas c)) u"
  have "distinct (dkeys subs) \<Longrightarrow> dget (fold ?f subs d) p =
      (case dget subs p of None \<Rightarrow> dget d p | Some c \<Rightarrow> if quotas c = [] then dget d p else Some (initial_usage now (quotas c)))" for d
  proof (induction subs arbitrary: d)
    case (Cons x subs)
    then have "fst x = p \<Longrightarrow> dget subs p = None" by (auto simp: dget_None_iff)
    then show ?case using Cons by (cases x) (auto split: option.splits)
  qed simp
  then show ?thesis using assms by (simp add: new_tracker_def split: option.splits)
qed

lemma new_tracker_ok: "distinct (dkeys subs) \<Longrightarrow> tracker_ok [] now (new_tracker now subs)"
  by (auto simp: tracker_ok_def new_tracker_usage counter_ok_def in_calendar_window_def dest!: initial_usage_zero split: option.splits if_splits)

lemma new_tracker_windows: "distinct (dkeys subs) \<Longrightarrow> windows_ok (new_tracker now subs)"
  unfolding windows_ok_def
proof (intro allI impI)
  fix p c assume a: "distinct (dkeys subs)" "dget (subscriptions (new_tracker now subs)) p = Some c" "quotas c \<noteq> []" "valid_subscription c"
  have "dget subs p = Some c" using a(2) by (simp add: new_tracker_def)
  then have "dget (usage_of (new_tracker now subs)) p = Some (initial_usage now (quotas c))"
    using new_tracker_usage [OF a(1)] a(3) by simp
  then show "\<exists>u. dget (usage_of (new_tracker now subs)) p = Some u \<and> dkeys u = List.map q_window (quotas c)"
    using initial_usage_keys a(4) by (simp add: valid_subscription_def)
qed

lemma record_windows:
  assumes "windows_ok s"
  shows "windows_ok (snd (record_usage p r t ti s))" "subscriptions (snd (record_usage p r t ti s)) = subscriptions s"
proof -
  have "dkeys (List.map (\<lambda>(w, cur). (w, f w cur)) u) = dkeys u" for f :: "QuotaWindow \<Rightarrow> WindowUsage \<Rightarrow> WindowUsage" and u
    by (induction u) auto
  then have "\<exists>v. dget (usage_of (snd (record_usage p r t ti s))) p' = Some v \<and> dkeys v = dkeys u"
    if "dget (usage_of s) p' = Some u" for p' u
    using that by (cases "p' = p") (simp_all add: record_usage_def split: option.splits)
  moreover show "subscriptions (snd (record_usage p r t ti s)) = subscriptions s"
    by (simp add: record_usage_def split: option.splits)
  ultimately show "windows_ok (snd (record_usage p r t ti s))" using assms unfolding windows_ok_def by metis
qed

lemma run_windows: "windows_ok s \<Longrightarrow> windows_ok (usage_run es s) \<and> subscriptions (usage_run es s) = subscriptions s"
  by (induction es s rule: usage_run.induct) (simp_all add: record_windows)

lemma quota_map_unique: "valid_subscription c \<Longrightarrow> q \<in> set (quotas c) \<Longrightarrow> quota_map c (q_window q) = Some q"
  unfolding quota_map_def by (rule map_of_is_SomeI) (auto simp: valid_subscription_def o_def rev_map [symmetric])

lemma counter_exists:
  assumes "windows_ok s" and "dget (subscriptions s) p = Some c" and "valid_subscription c" and "q \<in> set (quotas c)"
  obtains u x where "dget (usage_of s) p = Some u" and "distinct (dkeys u)" and "dget u (q_window q) = Some x"
proof -
  obtain u where u: "dget (usage_of s) p = Some u" "dkeys u = List.map q_window (quotas c)"
    using assms unfolding windows_ok_def by fastforce
  then have "q_window q \<in> set (dkeys u)" using assms(4) by simp
  then obtain x where "dget u (q_window q) = Some x" by (metis dget_None_iff not_None_eq)
  then show ?thesis using that u assms(3) by (simp add: valid_subscription_def)
qed

lemma filter_key: "distinct (dkeys u) \<Longrightarrow> dget u w = Some x \<Longrightarrow> filter (\<lambda>(w', _). w = w') u = [(w, x)]"
proof (induction u)
  case (Cons e u)
  then show ?case
    by (cases e) (auto simp: filter_empty_conv rev_image_eqI split: if_splits)
qed simp

subsection \<open>Properties of the counters\<close>

text \<open>
  The counters of a calendar window are exact. After any usage recorded in clock order, the snapshot of a
  configured window shows the sums over exactly the events of the provider in the current window, whatever
  windows have passed in between.
\<close>

theorem quota_usage_exact:
  assumes "distinct (dkeys subs)" and "dget subs p = Some c" and "valid_subscription c" and "q \<in> set (quotas c)"
    and "usage_events t0 es now" and "w = q_window q"
  shows "get_snapshot p (Some w) now (usage_run es (new_tracker t0 subs)) =
    [\<lparr>snap_provider = p, snap_window = w,
      requests_used = total_requests (in_calendar_window p w (window_start w now) es), requests_limit = max_requests q,
      tokens_used = total_tokens (in_calendar_window p w (window_start w now) es), tokens_limit = max_tokens q,
      window_resets_at = window_end w (window_start w now), captured_at = now\<rparr>]"
proof -
  let ?s = "usage_run es (new_tracker t0 subs)"
  have ok: "tracker_ok es now ?s" using run_ok [OF new_tracker_ok [OF assms(1)] assms(5)] by simp
  have subs: "windows_ok ?s" "dget (subscriptions ?s) p = Some c"
    using run_windows [OF new_tracker_windows [OF assms(1)]] assms(2) by (simp_all add: new_tracker_def)
  obtain u x where u: "dget (usage_of ?s) p = Some u" "distinct (dkeys u)" "dget u w = Some x"
    using counter_exists [OF subs assms(3,4)] assms(6) by blast
  have x: "counter_ok p w es now x" using ok u by (simp add: tracker_ok_def)
  have "get_snapshot p (Some w) now ?s = List.map_filter (snapshot_of p c now) [(w, x)]"
    using u subs filter_key [OF u(2,3)] by (simp add: get_snapshot_def)
  then show ?thesis
    using x counter_fresh [OF x] quota_map_unique [OF assms(3,4)] assms(6)
    by (auto simp: List.map_filter_def snapshot_of_def Let_def counter_ok_def)
qed

text \<open>
  Clients that ask first. A call of a client is two events, the check and, after an allowed check, the record of one
  request; the calls of several clients interleave in any way, so that others may record between the two. The state
  is the list of the providers of the calls that were allowed and have not recorded yet, the recorded events and the
  tracker.
\<close>

datatype quota_event = Ask string int datetime | Use string int datetime

type_synonym clients = "string list \<times> usage_event list \<times> tracker"

fun client_step :: "quota_event \<Rightarrow> clients \<Rightarrow> clients" where
  "client_step (Ask p est now) (pend, h, s) =
     (case check_quota p est now s of
        Inl _ \<Rightarrow> (pend, h, s)
      | Inr r \<Rightarrow> (if q_allowed r then p # pend else pend, h, s))"
| "client_step (Use p t now) (pend, h, s) =
     (if p \<in> set pend then (remove1 p pend, h @ [(p, 1, t, now)], snd (record_usage p 1 t now s)) else (pend, h, s))"

fun event_time :: "quota_event \<Rightarrow> datetime" where
  "event_time (Ask p est now) = now"
| "event_time (Use p t now) = now"

fun event_tokens_ok :: "quota_event \<Rightarrow> bool" where
  "event_tokens_ok (Ask p est now) = True"
| "event_tokens_ok (Use p t now) = (0 \<le> t)"

text \<open>At most \<open>m\<close> calls to the provider are between their check and their record at any time.\<close>

fun overlap_at_most :: "nat \<Rightarrow> string \<Rightarrow> quota_event list \<Rightarrow> clients \<Rightarrow> bool" where
  "overlap_at_most m p [] cl = True"
| "overlap_at_most m p (ev # evs) cl = (count_list (fst (client_step ev cl)) p \<le> m \<and> overlap_at_most m p evs (client_step ev cl))"

lemma allowed_below:
  assumes "check_quota p est now s = Inr r" and "q_allowed r" and "dget (usage_of s) p = Some u" and "dget (subscriptions s) p = Some c"
    and "dget u w = Some x" and "quota_map c w = Some q" and "usage_start x = window_start w now"
  shows "\<not> is_window_exhausted x q est"
proof -
  have "List.map_filter (over_limit c est now) u = []"
    using assms(1-4) by (auto simp: check_quota_def Let_def split: if_splits)
  then have "over_limit c est now (w, x) = None"
    using dget_Some_in [OF assms(5)] by (auto simp: List.map_filter_def filter_empty_conv)
  then show ?thesis using assms(6,7) by (auto simp: over_limit_def split: if_splits)
qed

text \<open>An allowed check at \<open>t1\<close> finds room in the window of every later time.\<close>

lemma room_after_check:
  assumes ok: "tracker_ok h t0 s" "windows_ok s" "dget (subscriptions s) p = Some c" "valid_subscription c" "q \<in> set (quotas c)"
    and pos: "0 < max_requests q" and chk: "check_quota p est t1 s = Inr r" "q_allowed r" and time: "t0 \<le> t1" "t1 \<le> t2"
  shows "total_requests (in_calendar_window p (q_window q) (window_start (q_window q) t2) h) < max_requests q"
proof -
  let ?w = "q_window q"
  obtain u x where u: "dget (usage_of s) p = Some u" "dget u ?w = Some x"
    using counter_exists [OF ok(2-5)] by blast
  then have x: "counter_ok p ?w h t2 x" "counter_ok p ?w h t0 x" using ok(1) time counter_later [OF _ order.trans [OF time]]
    unfolding tracker_ok_def by blast+
  show ?thesis
  proof (cases "usage_start x = window_start ?w t2")
    case True
    have "usage_start x \<le> window_start ?w t1" using x(2) window_start_mono [OF time(1), of ?w] order.trans by (fastforce simp: counter_ok_def)
    then have "usage_start x = window_start ?w t1" using True window_start_mono [OF time(2), of ?w] by (simp add: order.antisym)
    then have "\<not> is_window_exhausted x q est"
      using allowed_below [OF chk u(1) ok(3) u(2) quota_map_unique [OF ok(4,5)]] by simp
    then show ?thesis using x(1) True pos by (simp add: is_window_exhausted_def counter_ok_def)
  next
    case False
    then show ?thesis using counter_fresh [OF x(1)] pos by simp
  qed
qed

text \<open>
  The invariant for a bound: every window is within it, and the calls on their way still fit into the window of any later time.
\<close>

definition fits :: "string \<Rightarrow> QuotaLimit \<Rightarrow> int \<Rightarrow> datetime \<Rightarrow> clients \<Rightarrow> bool" where
  "fits p q b t0 cl = (case cl of (pend, h, s) \<Rightarrow> tracker_ok h t0 s \<and> windows_ok s \<and>
     (\<forall>st. total_requests (in_calendar_window p (q_window q) st h) \<le> b) \<and>
     (\<forall>t \<ge> t0. total_requests (in_calendar_window p (q_window q) (window_start (q_window q) t) h) + int (count_list pend p) \<le> b))"

lemma tracker_later: "tracker_ok h t0 s \<Longrightarrow> t0 \<le> t1 \<Longrightarrow> tracker_ok h t1 s"
  using counter_later unfolding tracker_ok_def by blast

lemma count_remove1: "count_list (remove1 x xs) y = (if x = y then count_list xs y - 1 else count_list xs y)"
  by (induction xs) (auto simp: count_list_0_iff Suc_diff_Suc)

lemma fits_ask:
  assumes "fits p q (max_requests q + int m - 1) t0 (pend, h, s)" and "dget (subscriptions s) p = Some c" and "valid_subscription c"
    and "q \<in> set (quotas c)" and "0 < max_requests q" and "t0 \<le> now"
    and "count_list (fst (client_step (Ask p' est now) (pend, h, s))) p \<le> m"
  shows "fits p q (max_requests q + int m - 1) now (client_step (Ask p' est now) (pend, h, s))"
proof -
  have I: "tracker_ok h t0 s" "windows_ok s" using assms(1) by (simp_all add: fits_def)
  have later: "fits p q (max_requests q + int m - 1) now (pend, h, s)"
    using assms(1) tracker_later [OF I(1) assms(6)] order.trans [OF assms(6)] by (auto simp: fits_def)
  show ?thesis
  proof (cases "\<exists>r. check_quota p' est now s = Inr r \<and> q_allowed r \<and> p' = p")
    case True
    then obtain r where r: "check_quota p est now s = Inr r" "q_allowed r" "p' = p" by blast
    have "total_requests (in_calendar_window p (q_window q) (window_start (q_window q) t) h) < max_requests q" if "now \<le> t" for t
      by (rule room_after_check [OF I assms(2-5) r(1,2) assms(6) that])
    then show ?thesis using later assms(7) r by (fastforce simp: fits_def)
  next
    case False
    then show ?thesis using later by (auto simp: fits_def split: sum.splits)
  qed
qed

lemma fits_use:
  assumes "fits p q b t0 (pend, h, s)" and "t0 \<le> now" and "0 \<le> t"
  shows "fits p q b now (client_step (Use p' t now) (pend, h, s))"
proof (cases "p' \<in> set pend")
  case True
  have I: "tracker_ok h t0 s" "windows_ok s" using assms(1) by (simp_all add: fits_def)
  have new: "tracker_ok (h @ [(p', 1, t, now)]) now (snd (record_usage p' 1 t now s))" "windows_ok (snd (record_usage p' 1 t now s))"
    using record_ok [OF I(1) assms(2), of 1 t p'] record_windows [OF I(2)] assms(3) by simp_all
  have cnt: "total_requests (in_calendar_window p (q_window q) (window_start (q_window q) u) h) + int (count_list pend p) \<le> b" if "now \<le> u" for u
    using assms(1) order.trans [OF assms(2) that] by (simp add: fits_def)
  have pend: "p' = p \<Longrightarrow> 0 < count_list pend p" using True by (metis count_list_0_iff gr0I)
  show ?thesis using True new assms(1) cnt cnt [OF order.refl] pend
    by (fastforce simp: fits_def usage_window_snoc count_remove1)
next
  case False
  then show ?thesis using assms(1) tracker_later [OF _ assms(2)] order.trans [OF assms(2)] by (auto simp: fits_def)
qed

lemma fits_run:
  assumes "valid_subscription c" and "q \<in> set (quotas c)" and "0 < max_requests q"
    and "fits p q (max_requests q + int m - 1) t0 cl" and "dget (subscriptions (snd (snd cl))) p = Some c"
    and "sorted (t0 # List.map event_time evs)" and "list_all event_tokens_ok evs" and "overlap_at_most m p evs cl"
  shows "\<exists>t. fits p q (max_requests q + int m - 1) t (fold client_step evs cl)"
  using assms(4-8)
proof (induction evs arbitrary: t0 cl)
  case (Cons ev evs)
  obtain pend h s where cl: "cl = (pend, h, s)" by (cases cl)
  have time: "t0 \<le> event_time ev" "sorted (event_time ev # List.map event_time evs)" using Cons.prems(3) by auto
  have "fits p q (max_requests q + int m - 1) (event_time ev) (client_step ev cl)"
  proof (cases ev)
    case (Ask p' est now)
    then show ?thesis using fits_ask [OF Cons.prems(1) [unfolded cl] _ assms(1-3), of now p' est] Cons.prems(2,5) time cl by simp
  next
    case (Use p' t now)
    then show ?thesis using fits_use [OF Cons.prems(1) [unfolded cl], of now t p'] Cons.prems(4) time cl by simp
  qed
  moreover have "dget (subscriptions (snd (snd (client_step ev cl)))) p = Some c"
    using Cons.prems(2) by (cases ev) (auto simp: cl record_usage_def Let_def split: sum.splits option.splits)
  ultimately show ?case using Cons.IH [OF _ _ time(2)] Cons.prems(4,5) by simp
qed auto

text \<open>
  C28: clients that record a request only after an allowed check overshoot a request limit by at most the calls that
  overlap. However the checks and records of any number of clients interleave, when at most \<open>m\<close> calls to the
  provider are between their check and their record at any time, no calendar window of the provider ever sees more than
  \<open>max_requests + m - 1\<close> requests, also when a window turns between a check and its record; calls that do not
  overlap (\<open>m = 1\<close>) never exceed the limit. The witness shows a run of two overlapping calls that does exceed it.
\<close>

theorem quota_overshoot_bounded:
  assumes "distinct (dkeys subs)" and "dget subs p = Some c" and "valid_subscription c" and "q \<in> set (quotas c)"
    and "0 < max_requests q" and "sorted (t0 # List.map event_time evs)" and "list_all event_tokens_ok evs"
    and "0 < m" and "overlap_at_most m p evs ([], [], new_tracker t0 subs)"
  shows "total_requests (in_calendar_window p (q_window q) st (fst (snd (fold client_step evs ([], [], new_tracker t0 subs)))))
    \<le> max_requests q + int m - 1"
proof -
  have "fits p q (max_requests q + int m - 1) t0 ([], [], new_tracker t0 subs)"
    using new_tracker_ok [OF assms(1)] new_tracker_windows [OF assms(1)] assms(5,8) by (simp add: fits_def in_calendar_window_def)
  moreover have "dget (subscriptions (snd (snd ([], [], new_tracker t0 subs)))) p = Some c" using assms(2) by (simp add: new_tracker_def)
  ultimately obtain t where "fits p q (max_requests q + int m - 1) t (fold client_step evs ([], [], new_tracker t0 subs))"
    using fits_run [OF assms(3-5) _ _ assms(6,7,9)] by blast
  then show ?thesis by (auto simp: fits_def split: prod.splits)
qed

subsection \<open>Degradation\<close>

lemma check_denied:
  assumes "check_quota p est now s = Inr r" and "\<not> q_allowed r"
  obtains u c where "dget (usage_of s) p = Some u" and "dget (subscriptions s) p = Some c"
    and "exhausted_windows r = List.map ex_window (List.map_filter (over_limit c est now) u)" and "0 \<le> est"
  using assms by (auto simp: check_quota_def always_allowed_result_def Let_def split: if_splits option.splits)

lemma over_limit_window: "over_limit c est now (w, x) = Some e \<Longrightarrow> ex_window e = w \<and> usage_start x = window_start w now"
  by (auto simp: over_limit_def build_exhaustion_reason_def Let_def split: if_splits option.splits)

lemma over_limit_start:
  "over_limit c est t (w, x) \<noteq> None \<longleftrightarrow>
     window_start w t = usage_start x \<and> (\<exists>q. quota_map c w = Some q \<and> is_window_exhausted x q est)"
  by (auto simp: over_limit_def split: option.splits)

lemma over_limit_later:
  assumes "counter_ok p w h t1 x" and "t1 \<le> t2"
  shows "over_limit c est t2 (w, x) \<noteq> None \<longleftrightarrow> over_limit c est t1 (w, x) \<noteq> None \<and> window_start w t2 = window_start w t1"
proof -
  have le: "window_start w t1 \<le> window_start w t2" by (rule window_start_mono [OF assms(2)])
  have "usage_start x \<le> window_start w t1" using assms(1) by (simp add: counter_ok_def)
  then have "window_start w t2 = usage_start x \<longleftrightarrow> window_start w t1 = usage_start x \<and> window_start w t2 = window_start w t1"
    using le order.antisym by metis
  then show ?thesis unfolding over_limit_start by blast
qed

lemma map_filter_empty: "List.map_filter f xs = [] \<longleftrightarrow> (\<forall>x \<in> set xs. f x = None)"
  by (auto simp: List.map_filter_def filter_empty_conv)

lemma recheck_iff:
  assumes "tracker_ok h t1 s" and "windows_ok s" and "\<forall>p c. dget (subscriptions s) p = Some c \<longrightarrow> valid_subscription c \<and> quotas c \<noteq> []"
    and "check_quota p est t1 s = Inr r" and "\<not> q_allowed r" and "t1 \<le> t2"
  shows "(\<exists>d. recheck_after_wait p est delay t2 s = Inr d) \<longleftrightarrow> (\<forall>w \<in> set (exhausted_windows r). window_start w t2 \<noteq> window_start w t1)"
proof -
  obtain u c where u: "dget (usage_of s) p = Some u" "dget (subscriptions s) p = Some c" "0 \<le> est"
      "exhausted_windows r = List.map ex_window (List.map_filter (over_limit c est t1) u)"
    using check_denied [OF assms(4,5)] by blast
  have d: "distinct (dkeys u)"
  proof -
    have v: "valid_subscription c" "quotas c \<noteq> []" using assms(3) u(2) by blast+
    then obtain u' where "dget (usage_of s) p = Some u'" "dkeys u' = List.map q_window (quotas c)"
      using assms(2) u(2) unfolding windows_ok_def by blast
    then show ?thesis using u(1) v(1) by (simp add: valid_subscription_def)
  qed
  have later: "over_limit c est t2 (w, x) \<noteq> None \<longleftrightarrow> over_limit c est t1 (w, x) \<noteq> None \<and> window_start w t2 = window_start w t1"
    if "(w, x) \<in> set u" for w x
    using over_limit_later [OF _ assms(6)] map_of_is_SomeI [OF d that] assms(1) u(1) unfolding tracker_ok_def by blast
  have "(\<exists>d. recheck_after_wait p est delay t2 s = Inr d) \<longleftrightarrow> List.map_filter (over_limit c est t2) u = []"
    using u(1-3) by (auto simp: recheck_after_wait_def check_quota_def always_allowed_result_def Let_def)
  also have "\<dots> \<longleftrightarrow> (\<forall>(w, x) \<in> set u. over_limit c est t1 (w, x) \<noteq> None \<longrightarrow> window_start w t2 \<noteq> window_start w t1)"
    unfolding map_filter_empty
  proof (rule ball_cong [OF refl])
    fix z assume z: "z \<in> set u"
    obtain w x where wx: "z = (w, x)" by (cases z)
    show "(over_limit c est t2 z = None) = (case z of (w, x) \<Rightarrow> over_limit c est t1 (w, x) \<noteq> None \<longrightarrow> window_start w t2 \<noteq> window_start w t1)"
      using later [OF z [unfolded wx]] unfolding wx prod.case by blast
  qed
  also have "\<dots> \<longleftrightarrow> (\<forall>w \<in> set (exhausted_windows r). window_start w t2 \<noteq> window_start w t1)"
    unfolding u(4) List.map_filter_def using over_limit_window by fastforce
  finally show ?thesis .
qed

text \<open>
  What the queue strategy can achieve. Without usage recorded meanwhile, the request is granted after
  the wait exactly when every window that was exhausted has turned; in particular it is granted when a single
  window was exhausted and the recheck is not before the reset time the delay was computed from.
\<close>

theorem queue_resolution:
  assumes "distinct (dkeys subs)" and "\<forall>p c. dget subs p = Some c \<longrightarrow> valid_subscription c \<and> quotas c \<noteq> []"
    and "usage_events t0 es t1" and "s = usage_run es (new_tracker t0 subs)"
    and "check_quota p est t1 s = Inr r" and "\<not> q_allowed r" and "t1 \<le> t2" and "valid_datetime t2"
  shows "((\<exists>d. recheck_after_wait p est delay t2 s = Inr d) \<longleftrightarrow>
       (\<forall>w \<in> set (exhausted_windows r). window_start w t2 \<noteq> window_start w t1)) \<and>
    (\<forall>w. exhausted_windows r = [w] \<and> epoch (window_end w (window_start w t1)) \<le> epoch t2 \<longrightarrow>
       (\<exists>d. recheck_after_wait p est delay t2 s = Inr d))"
proof -
  have ok: "tracker_ok es t1 s" using run_ok [OF new_tracker_ok [OF assms(1)] assms(3)] assms(4) by simp
  have win: "windows_ok s" "subscriptions s = subs"
    using run_windows [OF new_tracker_windows [OF assms(1)]] assms(4) by (simp_all add: new_tracker_def)
  have "(\<exists>d. recheck_after_wait p est delay t2 s = Inr d) \<longleftrightarrow> (\<forall>w \<in> set (exhausted_windows r). window_start w t2 \<noteq> window_start w t1)"
    using recheck_iff [OF ok win(1) _ assms(5-7)] assms(2) win(2) by simp
  then show ?thesis using window_passed [OF assms(8)] by simp
qed

text \<open>The fallback strategy takes the first provider of the list that passes its check.\<close>

lemma try_fallbacks_first:
  "try_fallbacks p est clock i s tried fs =
     (case List.find (\<lambda>(j, f). \<exists>r. check_quota f est (clock (i + j)) s = Inr r \<and> q_allowed r) (enumerate 0 fs) of
        Some (j, f) \<Rightarrow> Inr \<lparr>original_provider = p, effective_provider = f, action_taken = FALLBACK, wait_seconds = 0\<rparr>
      | None \<Rightarrow> Inl (FallbacksExhausted p (tried @ fs)))"
proof -
  have "try_fallbacks p est clock (i + k) s tried fs =
     (case List.find (\<lambda>(j, f). \<exists>r. check_quota f est (clock (i + j)) s = Inr r \<and> q_allowed r) (enumerate k fs) of
        Some (j, f) \<Rightarrow> Inr \<lparr>original_provider = p, effective_provider = f, action_taken = FALLBACK, wait_seconds = 0\<rparr>
      | None \<Rightarrow> Inl (FallbacksExhausted p (tried @ fs)))" for k
  proof (induction fs arbitrary: k tried)
    case (Cons f fs)
    show ?case using Cons [of "Suc k" "tried @ [f]"] by (cases "check_quota f est (clock (i + k)) s") (auto split: option.splits)
  qed simp
  from this [of 0] show ?thesis by simp
qed

text \<open>In a window without recorded usage the estimate is not compared with the token limit.\<close>

lemma fresh_window_ignores_estimate:
  assumes "0 \<le> est" and "dget (usage_of s) p = Some u" and "\<forall>(w, x) \<in> set u. window_start w now \<noteq> usage_start x"
  shows "check_quota p est now s = Inr (always_allowed_result p)"
proof -
  have "over_limit c est now z = None" if "z \<in> set u" for c z
    using assms(3) that by (cases z) (auto simp: over_limit_def)
  then have "List.map_filter (over_limit c est now) u = []" for c by (simp add: map_filter_empty)
  then show ?thesis using assms(1,2) by (simp add: check_quota_def split: option.splits)
qed

text \<open>A concrete provider with two requests a minute.\<close>

definition sample_time :: "rat \<Rightarrow> datetime" where
  "sample_time x = DateTime 2026 2 28 23 59 x"

definition sample_limit :: QuotaLimit where
  "sample_limit = \<lparr>q_window = PER_MINUTE, max_requests = 2, max_tokens = 100\<rparr>"

definition sample_subscription :: SubscriptionConfig where
  "sample_subscription = \<lparr>plan_name = ''basic'', cost_model = PER_TOKEN, monthly_cost = 0, quotas = [sample_limit]\<rparr>"

definition sample_subs :: "(string, SubscriptionConfig) dict" where
  "sample_subs = [(''m'', sample_subscription)]"

definition sample_usage :: "usage_event list" where
  "sample_usage = [(''m'', 1, 10, sample_time 1), (''m'', 1, 20, sample_time 2)]"

lemma sample_subscription_valid:
  "distinct (dkeys sample_subs)" "dget sample_subs ''m'' = Some sample_subscription" "valid_subscription sample_subscription"
  "sample_limit \<in> set (quotas sample_subscription)"
  by (simp_all add: sample_subs_def sample_subscription_def valid_subscription_def not_blank_def py_isspace_def
      sample_limit_def valid_limit_def)

lemma sample_time_le [simp]: "sample_time x \<le> sample_time y \<longleftrightarrow> x \<le> y"
  by (simp add: sample_time_def less_eq_datetime_def dt_key_def)

theorem quota_usage_exact_witness:
  "List.map requests_used (get_snapshot ''m'' (Some PER_MINUTE) (sample_time 3) (usage_run sample_usage (new_tracker (sample_time 0) sample_subs))) = [2]"
proof -
  have e: "usage_events (sample_time 0) sample_usage (sample_time 3)" by (simp add: sample_usage_def)
  have w: "PER_MINUTE = q_window sample_limit" by (simp add: sample_limit_def)
  have "total_requests (in_calendar_window ''m'' PER_MINUTE (window_start PER_MINUTE (sample_time 3)) sample_usage) = 2"
    by (simp add: total_requests_def in_calendar_window_def sample_usage_def sample_time_def)
  then show ?thesis unfolding quota_usage_exact [OF sample_subscription_valid e w] by simp
qed

definition overlapping_calls :: "quota_event list" where
  "overlapping_calls = [Ask ''m'' 1 (sample_time 1), Use ''m'' 1 (sample_time 2), Ask ''m'' 1 (sample_time 3), Ask ''m'' 1 (sample_time 4),
     Use ''m'' 1 (sample_time 5), Use ''m'' 1 (sample_time 6), Ask ''m'' 1 (sample_time 7), Use ''m'' 1 (sample_time 8)]"

theorem quota_overshoot_bounded_witness:
  "let n = total_requests (in_calendar_window ''m'' PER_MINUTE (window_start PER_MINUTE (sample_time 0))
     (fst (snd (fold client_step overlapping_calls ([], [], new_tracker (sample_time 0) sample_subs))))) in
   n \<le> max_requests sample_limit + 1 \<and> n > max_requests sample_limit"
proof -
  have "sorted (sample_time 0 # List.map event_time overlapping_calls)" "list_all event_tokens_ok overlapping_calls"
    "overlap_at_most 2 ''m'' overlapping_calls ([], [], new_tracker (sample_time 0) sample_subs)" by code_simp+
  moreover have "total_requests (in_calendar_window ''m'' PER_MINUTE (window_start PER_MINUTE (sample_time 0))
     (fst (snd (fold client_step overlapping_calls ([], [], new_tracker (sample_time 0) sample_subs))))) > max_requests sample_limit" by code_simp
  ultimately show ?thesis
    using quota_overshoot_bounded [OF sample_subscription_valid, of "sample_time 0" overlapping_calls 2 "window_start PER_MINUTE (sample_time 0)"]
    by (simp add: sample_limit_def)
qed

theorem queue_resolution_witness:
  "\<exists>d. recheck_after_wait ''m'' 1 57 (DateTime 2026 3 1 0 0 0) (usage_run sample_usage (new_tracker (sample_time 0) sample_subs)) = Inr d"
proof -
  let ?s = "usage_run sample_usage (new_tracker (sample_time 0) sample_subs)"
  define r where "r = \<lparr>q_allowed = False, q_provider = ''m'', q_reasons = [\<lparr>ex_window = PER_MINUTE, ex_requests = Some (2, 2), ex_tokens = None\<rparr>],
    exhausted_windows = [PER_MINUTE]\<rparr>"
  have s: "?s = \<lparr>subscriptions = sample_subs, usage_of = [(''m'', [(PER_MINUTE, \<lparr>requests = 2, tokens = 30, usage_start = window_start PER_MINUTE (sample_time 3)\<rparr>)])]\<rparr>"
    by (simp add: sample_usage_def new_tracker_def sample_subs_def sample_subscription_def sample_limit_def initial_usage_def
        record_usage_def rotate_usage_def sample_time_def)
  have chk: "check_quota ''m'' 1 (sample_time 3) ?s = Inr r"
    unfolding s by (simp add: check_quota_def sample_subs_def sample_subscription_def List.map_filter_def over_limit_def quota_map_def
        sample_limit_def is_window_exhausted_def build_exhaustion_reason_def r_def)
  have subs: "\<forall>p c. dget sample_subs p = Some c \<longrightarrow> valid_subscription c \<and> quotas c \<noteq> []"
    using sample_subscription_valid(3) by (simp add: sample_subs_def) (simp add: sample_subscription_def)
  have r: "\<not> q_allowed r" "exhausted_windows r = [PER_MINUTE]" by (simp_all add: r_def)
  have e: "usage_events (sample_time 0) sample_usage (sample_time 3)" by (simp add: sample_usage_def)
  have t: "sample_time 3 \<le> DateTime 2026 3 1 0 0 0" "valid_datetime (DateTime 2026 3 1 0 0 0)"
    by (simp_all add: sample_time_def less_eq_datetime_def dt_key_def valid_datetime_def days_in_month_def)
  have "epoch (window_end PER_MINUTE (window_start PER_MINUTE (sample_time 3))) \<le> epoch (DateTime 2026 3 1 0 0 0)"
    by (simp add: sample_time_def next_minute_def next_hour_def next_day_def next_month_def days_in_month_def is_leap_def)
  then show ?thesis
    using queue_resolution [OF sample_subscription_valid(1) subs e refl chk r(1) t, of 57] r(2) by blast
qed

end
