(* ===== verification/Assignment.thy ===== *)
theory Assignment
  imports Hierarchy Decomposition "HOL-Library.Product_Lexorder" "HOL-Library.Multiset"
begin

text \<open>
  Choosing agents for tasks: the scorer and the routing of decomposed tasks (\<^verbatim>\<open>engine/routing/\<close>), the six
  assignment strategies with their registry and service (\<^verbatim>\<open>engine/assignment/\<close>), on the parts of an agent's
  identity they read (\<^verbatim>\<open>core/agent.py\<close>, \<^verbatim>\<open>core/role.py\<close>). Texts of reasons are left out, and scores are exact
  rationals. The locale \<open>assignment_strategy\<close> is what the service relies on.
\<close>

subsection \<open>Agents\<close>

datatype SeniorityLevel = JUNIOR | MID | SENIOR | LEAD | PRINCIPAL | DIRECTOR | VP | C_SUITE

datatype AgentStatus = ACTIVE | ONBOARDING | ON_LEAVE | TERMINATED

record Skill =
  skill_id :: string
  tags :: "string list"
  proficiency :: rat

record AgentIdentity =
  a_id :: string
  a_name :: string
  a_role :: string
  a_level :: SeniorityLevel
  a_primary :: "Skill list"
  a_secondary :: "Skill list"
  a_status :: AgentStatus

definition valid_agent :: "AgentIdentity \<Rightarrow> bool" where
  "valid_agent a \<longleftrightarrow> not_blank (a_id a) \<and> not_blank (a_name a) \<and> not_blank (a_role a) \<and>
     (\<forall>s \<in> set (a_primary a @ a_secondary a). 0 \<le> proficiency s \<and> proficiency s \<le> 1) \<and>
     distinct (List.map skill_id (a_primary a)) \<and> distinct (List.map skill_id (a_secondary a)) \<and>
     set (List.map skill_id (a_primary a)) \<inter> set (List.map skill_id (a_secondary a)) = {}"

subsection \<open>Scorer\<close>

definition SENIORITY_COMPLEXITY :: "SeniorityLevel \<Rightarrow> Complexity list" where
  "SENIORITY_COMPLEXITY l =
     (case l of JUNIOR \<Rightarrow> [SIMPLE] | MID \<Rightarrow> [SIMPLE, MEDIUM_COMPLEXITY] | SENIOR \<Rightarrow> [MEDIUM_COMPLEXITY, COMPLEX]
      | LEAD \<Rightarrow> [COMPLEX, EPIC] | PRINCIPAL \<Rightarrow> [COMPLEX, EPIC] | DIRECTOR \<Rightarrow> [EPIC] | VP \<Rightarrow> [EPIC] | C_SUITE \<Rightarrow> [EPIC])"

record candidate =
  c_agent :: AgentIdentity
  c_score :: rat
  c_matched :: "string list"

definition by_id :: "Skill list \<Rightarrow> (string, Skill) dict" where
  "by_id ss = rev (List.map (\<lambda>s. (skill_id s, s)) ss)"

definition proficiency_sum :: "(string, Skill) dict \<Rightarrow> string list \<Rightarrow> rat" where
  "proficiency_sum d ids = sum_list (List.map (\<lambda>i. proficiency (the (dget d i))) ids)"

definition matched_tags :: "(string, Skill) dict \<Rightarrow> string list \<Rightarrow> string list" where
  "matched_tags d ids = concat (List.map (\<lambda>i. tags (the (dget d i))) ids)"

definition score_skill_tiers :: "AgentIdentity \<Rightarrow> SubtaskDefinition \<Rightarrow> rat \<times> string list" where
  "score_skill_tiers a st =
     (let required = remdups (sd_required_skills st) in
      if required = [] then (0, [])
      else
        let primary_by_id = by_id (a_primary a); secondary_by_id = by_id (a_secondary a);
            primary_matched = sort (filter (\<lambda>i. i \<in> set (dkeys primary_by_id)) required);
            secondary_matched = sort (filter (\<lambda>i. i \<in> set (dkeys secondary_by_id) \<and> i \<notin> set primary_matched) required);
            n = of_nat (length required);
            primary_contrib = proficiency_sum primary_by_id primary_matched / n * (4 / 10);
            secondary_contrib = proficiency_sum secondary_by_id secondary_matched / n * (2 / 10);
            tag_bonus = (if sd_required_tags st \<noteq> [] \<and>
                set (sd_required_tags st) \<subseteq> set (matched_tags primary_by_id primary_matched @ matched_tags secondary_by_id secondary_matched)
              then 1 / 10 else 0) in
        (primary_contrib + secondary_contrib + tag_bonus, primary_matched @ secondary_matched))"

definition score_role :: "AgentIdentity \<Rightarrow> SubtaskDefinition \<Rightarrow> rat" where
  "score_role a st =
     (case sd_required_role st of
        Some r \<Rightarrow> if casefold (a_role a) = casefold r then 2 / 10 else 0 | None \<Rightarrow> 0)"

definition score_seniority_alignment :: "AgentIdentity \<Rightarrow> SubtaskDefinition \<Rightarrow> rat" where
  "score_seniority_alignment a st =
     (if sd_estimated_complexity st \<in> set (SENIORITY_COMPLEXITY (a_level a)) then 2 / 10 else 0)"

definition score :: "AgentIdentity \<Rightarrow> SubtaskDefinition \<Rightarrow> candidate" where
  "score a st =
     (if a_status a \<noteq> ACTIVE then \<lparr>c_agent = a, c_score = 0, c_matched = []\<rparr>
      else
        let (tiers, matched) = score_skill_tiers a st;
            total = min (tiers + score_role a st + score_seniority_alignment a st) 1 in
        \<lparr>c_agent = a, c_score = total, c_matched = matched\<rparr>)"

definition valid_candidate :: "candidate \<Rightarrow> bool" where
  "valid_candidate c \<longleftrightarrow> 0 \<le> c_score c \<and> c_score c \<le> 1"

subsection \<open>Requests and results\<close>

record AgentWorkload =
  w_agent_id :: string
  active_task_count :: int
  total_cost :: rat

record AssignmentRequest =
  r_task :: Task
  available_agents :: "AgentIdentity list"
  workloads :: "AgentWorkload list"
  min_score :: rat
  required_skills :: "string list"
  required_role :: "string option"
  max_concurrent_tasks :: "int option"
  project_team :: "string list"

definition valid_request :: "AssignmentRequest \<Rightarrow> bool" where
  "valid_request r \<longleftrightarrow> available_agents r \<noteq> [] \<and> distinct (List.map a_id (available_agents r)) \<and>
     list_all valid_agent (available_agents r) \<and> distinct (List.map w_agent_id (workloads r)) \<and>
     list_all (\<lambda>w. 0 \<le> active_task_count w \<and> 0 \<le> total_cost w) (workloads r) \<and> 0 \<le> min_score r \<and> min_score r \<le> 1 \<and>
     (case max_concurrent_tasks r of None \<Rightarrow> True | Some n \<Rightarrow> 1 \<le> n)"

datatype strategy_name = MANUAL | ROLE_BASED | LOAD_BALANCED | COST_OPTIMIZED | HIERARCHICAL | AUCTION

record AssignmentResult =
  res_task_id :: string
  strategy_used :: strategy_name
  selected :: "candidate option"
  alternatives :: "candidate list"

datatype assign_error = StatusNotAssignable TaskStatus | NoDesignatedAgent | DesignatedNotFound string |
  DesignatedNotActive string | SelectedAmongAlternatives

text \<open>Construction of a result, with its validator.\<close>

definition make_result :: "string \<Rightarrow> strategy_name \<Rightarrow> candidate option \<Rightarrow> candidate list \<Rightarrow> assign_error + AssignmentResult" where
  "make_result tid strat sel alts =
     (case sel of
        Some c \<Rightarrow> if \<exists>alt \<in> set alts. a_id (c_agent alt) = a_id (c_agent c) then Inl SelectedAmongAlternatives
                  else Inr \<lparr>res_task_id = tid, strategy_used = strat, selected = sel, alternatives = alts\<rparr>
      | None \<Rightarrow> Inr \<lparr>res_task_id = tid, strategy_used = strat, selected = None, alternatives = alts\<rparr>)"

subsection \<open>Strategies\<close>

definition build_subtask_definition :: "AssignmentRequest \<Rightarrow> SubtaskDefinition" where
  "build_subtask_definition r =
     \<lparr>sd_id = t_id (r_task r), sd_title = t_title (r_task r), sd_description = t_description (r_task r), sd_dependencies = [],
      sd_estimated_complexity = t_estimated_complexity (r_task r), sd_required_skills = required_skills r,
      sd_required_tags = [], sd_required_role = required_role r\<rparr>"

definition workload_map :: "AssignmentRequest \<Rightarrow> (string, int) dict" where
  "workload_map r = rev (List.map (\<lambda>w. (w_agent_id w, active_task_count w)) (workloads r))"

definition cost_map :: "AssignmentRequest \<Rightarrow> (string, rat) dict" where
  "cost_map r = rev (List.map (\<lambda>w. (w_agent_id w, total_cost w)) (workloads r))"

definition at_capacity :: "AssignmentRequest \<Rightarrow> AgentIdentity \<Rightarrow> bool" where
  "at_capacity r a \<longleftrightarrow>
     (case max_concurrent_tasks r of
        None \<Rightarrow> False | Some n \<Rightarrow> workloads r \<noteq> [] \<and> dget_or (workload_map r) (a_id a) 0 \<ge> n)"

definition eligible :: "AssignmentRequest \<Rightarrow> SubtaskDefinition \<Rightarrow> candidate list" where
  "eligible r st =
     filter (\<lambda>c. c_score c \<ge> min_score r)
       (List.map (\<lambda>a. score a st) (filter (\<lambda>a. a_status a = ACTIVE \<and> \<not> at_capacity r a) (available_agents r)))"

text \<open>Python's stable descending sort.\<close>

definition score_and_filter_candidates :: "AssignmentRequest \<Rightarrow> SubtaskDefinition \<Rightarrow> candidate list" where
  "score_and_filter_candidates r st = sort_key (\<lambda>c. - c_score c) (eligible r st)"

abbreviation ranked :: "AssignmentRequest \<Rightarrow> candidate list" where
  "ranked r \<equiv> score_and_filter_candidates r (build_subtask_definition r)"

definition find_designated_agent :: "AssignmentRequest \<Rightarrow> assign_error + AgentIdentity" where
  "find_designated_agent r =
     (case t_assigned_to (r_task r) of
        None \<Rightarrow> Inl NoDesignatedAgent
      | Some d \<Rightarrow>
          (case (case List.find (\<lambda>a. a_id a = d) (available_agents r) of
                   Some a \<Rightarrow> Some a | None \<Rightarrow> List.find (\<lambda>a. a_name a = d) (available_agents r)) of
             None \<Rightarrow> Inl (DesignatedNotFound d)
           | Some a \<Rightarrow> if a_status a \<noteq> ACTIVE then Inl (DesignatedNotActive (a_name a)) else Inr a))"

definition manual_assign :: "AssignmentRequest \<Rightarrow> assign_error + AssignmentResult" where
  "manual_assign r =
     (case find_designated_agent r of
        Inl e \<Rightarrow> Inl e
      | Inr a \<Rightarrow> make_result (t_id (r_task r)) MANUAL (Some \<lparr>c_agent = a, c_score = 1, c_matched = []\<rparr>) [])"

definition role_based_assign :: "AssignmentRequest \<Rightarrow> assign_error + AssignmentResult" where
  "role_based_assign r =
     (case ranked r of
        [] \<Rightarrow> make_result (t_id (r_task r)) ROLE_BASED None []
      | c # cs \<Rightarrow> make_result (t_id (r_task r)) ROLE_BASED (Some c) cs)"

definition covers :: "(string, 'v) dict \<Rightarrow> candidate list \<Rightarrow> bool" where
  "covers d cs \<longleftrightarrow> d \<noteq> [] \<and> (\<forall>c \<in> set cs. a_id (c_agent c) \<in> set (dkeys d))"

definition rank_candidates_by_workload :: "AssignmentRequest \<Rightarrow> candidate list \<Rightarrow> candidate list" where
  "rank_candidates_by_workload r cs =
     (if covers (workload_map r) cs
      then sort_key (\<lambda>c. (the (dget (workload_map r) (a_id (c_agent c))), - c_score c)) cs else cs)"

definition load_balanced_assign :: "AssignmentRequest \<Rightarrow> assign_error + AssignmentResult" where
  "load_balanced_assign r =
     (case rank_candidates_by_workload r (ranked r) of
        [] \<Rightarrow> make_result (t_id (r_task r)) LOAD_BALANCED None []
      | c # cs \<Rightarrow> make_result (t_id (r_task r)) LOAD_BALANCED (Some c) (sort_key (\<lambda>c. - c_score c) cs))"

definition rank_candidates_by_cost :: "AssignmentRequest \<Rightarrow> candidate list \<Rightarrow> candidate list" where
  "rank_candidates_by_cost r cs =
     (if covers (cost_map r) cs
      then sort_key (\<lambda>c. (the (dget (cost_map r) (a_id (c_agent c))), - c_score c)) cs else cs)"

definition cost_optimized_assign :: "AssignmentRequest \<Rightarrow> assign_error + AssignmentResult" where
  "cost_optimized_assign r =
     (case rank_candidates_by_cost r (ranked r) of
        [] \<Rightarrow> make_result (t_id (r_task r)) COST_OPTIMIZED None []
      | c # cs \<Rightarrow> make_result (t_id (r_task r)) COST_OPTIMIZED (Some c) cs)"

definition bid :: "AssignmentRequest \<Rightarrow> candidate list \<Rightarrow> candidate \<Rightarrow> rat" where
  "bid r cs c =
     c_score c * (if covers (workload_map r) cs then 1 / (1 + of_int (the (dget (workload_map r) (a_id (c_agent c))))) else 1)"

definition compute_bids :: "AssignmentRequest \<Rightarrow> candidate list \<Rightarrow> (candidate \<times> rat) list" where
  "compute_bids r cs = List.map (\<lambda>c. (c, bid r cs c)) cs"

definition select_winner :: "AssignmentRequest \<Rightarrow> (candidate \<times> rat) list \<Rightarrow> assign_error + AssignmentResult" where
  "select_winner r bids =
     (case sort_key (\<lambda>(c, b). (- b, - c_score c)) bids of
        [] \<Rightarrow> make_result (t_id (r_task r)) AUCTION None []
      | w # rest \<Rightarrow> make_result (t_id (r_task r)) AUCTION (Some (fst w)) (sort_key (\<lambda>c. - c_score c) (List.map fst rest)))"

definition auction_assign :: "AssignmentRequest \<Rightarrow> assign_error + AssignmentResult" where
  "auction_assign r = select_winner r (compute_bids r (ranked r))"

definition resolve_delegator :: "AssignmentRequest \<Rightarrow> agent" where
  "resolve_delegator r =
     (if t_delegation_chain (r_task r) \<noteq> [] then last (t_delegation_chain (r_task r)) else t_created_by (r_task r))"

definition is_known_delegator :: "charts \<Rightarrow> agent \<Rightarrow> bool" where
  "is_known_delegator h d \<longleftrightarrow> get_direct_reports h d \<noteq> [] \<or> get_supervisor h d \<noteq> None"

text \<open>\<open>is_subordinate\<close> ends on every constructed resolver.\<close>

definition filter_by_hierarchy :: "charts \<Rightarrow> AssignmentRequest \<Rightarrow> agent \<Rightarrow> AgentIdentity list" where
  "filter_by_hierarchy h r d =
     (let direct = filter (\<lambda>a. a_name a \<in> set (get_direct_reports h d)) (available_agents r) in
      if direct \<noteq> [] then direct
      else filter (\<lambda>a. is_subordinate h d (a_name a) = Some True) (available_agents r))"

definition hierarchical_assign :: "charts \<Rightarrow> AssignmentRequest \<Rightarrow> assign_error + AssignmentResult" where
  "hierarchical_assign h r =
     (let d = resolve_delegator r; none = make_result (t_id (r_task r)) HIERARCHICAL None [] in
      if \<not> is_known_delegator h d then none
      else let subs = filter_by_hierarchy h r d in
           if subs = [] then none
           else case ranked (r\<lparr>available_agents := subs, project_team := []\<rparr>) of
                  [] \<Rightarrow> none
                | c # cs \<Rightarrow> make_result (t_id (r_task r)) HIERARCHICAL (Some c) cs)"

definition build_strategy_map :: "charts option \<Rightarrow> strategy_name \<Rightarrow> (AssignmentRequest \<Rightarrow> assign_error + AssignmentResult) option" where
  "build_strategy_map hierarchy n =
     (case n of
        MANUAL \<Rightarrow> Some manual_assign | ROLE_BASED \<Rightarrow> Some role_based_assign | LOAD_BALANCED \<Rightarrow> Some load_balanced_assign
      | COST_OPTIMIZED \<Rightarrow> Some cost_optimized_assign | AUCTION \<Rightarrow> Some auction_assign
      | HIERARCHICAL \<Rightarrow> map_option hierarchical_assign hierarchy)"

subsection \<open>Service\<close>

definition ASSIGNABLE_STATUSES :: "TaskStatus set" where
  "ASSIGNABLE_STATUSES = {CREATED, FAILED, INTERRUPTED, SUSPENDED}"

definition service_assign ::
  "strategy_name \<Rightarrow> (AssignmentRequest \<Rightarrow> assign_error + AssignmentResult) \<Rightarrow> AssignmentRequest \<Rightarrow> assign_error + AssignmentResult" where
  "service_assign name strategy r =
     (if t_status (r_task r) \<notin> ASSIGNABLE_STATUSES then Inl (StatusNotAssignable (t_status (r_task r)))
      else if project_team r \<noteq> [] then
        let filtered = filter (\<lambda>a. a_id a \<in> set (project_team r)) (available_agents r) in
        if filtered = [] then make_result (t_id (r_task r)) name None []
        else strategy (r\<lparr>available_agents := filtered\<rparr>)
      else strategy r)"

subsection \<open>Routing\<close>

record AutoTopologyConfig =
  sequential_override :: CoordinationTopology
  parallel_default :: CoordinationTopology
  mixed_default :: CoordinationTopology
  parallel_artifact_threshold :: int

definition valid_topology_config :: "AutoTopologyConfig \<Rightarrow> bool" where
  "valid_topology_config c \<longleftrightarrow> sequential_override c \<noteq> AUTO \<and> parallel_default c \<noteq> AUTO \<and> mixed_default c \<noteq> AUTO \<and>
     1 \<le> parallel_artifact_threshold c"

definition select_topology :: "AutoTopologyConfig \<Rightarrow> Task \<Rightarrow> DecompositionPlan \<Rightarrow> CoordinationTopology" where
  "select_topology cfg task plan =
     (if t_coordination_topology task \<noteq> AUTO then t_coordination_topology task
      else case plan_task_structure plan of
             SEQUENTIAL \<Rightarrow> sequential_override cfg
           | PARALLEL \<Rightarrow> if int (length (t_artifacts_expected task)) > parallel_artifact_threshold cfg then DECENTRALIZED else parallel_default cfg
           | MIXED \<Rightarrow> mixed_default cfg)"

record RoutingDecision =
  rd_subtask_id :: string
  selected_candidate :: candidate
  rd_alternatives :: "candidate list"
  rd_topology :: CoordinationTopology

record RoutingResult =
  parent_task_id :: string
  decisions :: "RoutingDecision list"
  unroutable :: "string list"

datatype routing_error = ParentTaskMismatch | SelectedInAlternatives string | DuplicateDecisions | DuplicateUnroutable | OverlappingSubtasks

definition make_routing_result :: "string \<Rightarrow> RoutingDecision list \<Rightarrow> string list \<Rightarrow> routing_error + RoutingResult" where
  "make_routing_result pid ds un =
     (if \<not> distinct (List.map rd_subtask_id ds) then Inl DuplicateDecisions
      else if \<not> distinct un then Inl DuplicateUnroutable
      else if set (List.map rd_subtask_id ds) \<inter> set un \<noteq> {} then Inl OverlappingSubtasks
      else Inr \<lparr>parent_task_id = pid, decisions = ds, unroutable = un\<rparr>)"

definition viable :: "rat \<Rightarrow> AgentIdentity list \<Rightarrow> SubtaskDefinition \<Rightarrow> candidate list" where
  "viable threshold agents st = sort_key (\<lambda>c. - c_score c) (filter (\<lambda>c. c_score c \<ge> threshold) (List.map (\<lambda>a. score a st) agents))"

fun route_subtasks :: "rat \<Rightarrow> AgentIdentity list \<Rightarrow> CoordinationTopology \<Rightarrow> SubtaskDefinition list \<Rightarrow>
    RoutingDecision list \<Rightarrow> string list \<Rightarrow> routing_error + RoutingDecision list \<times> string list" where
  "route_subtasks threshold agents topo [] ds un = Inr (ds, un)"
| "route_subtasks threshold agents topo (st # sts) ds un =
     (case viable threshold agents st of
        [] \<Rightarrow> route_subtasks threshold agents topo sts ds (un @ [sd_id st])
      | c # cs \<Rightarrow>
          if \<exists>alt \<in> set cs. a_id (c_agent alt) = a_id (c_agent c) then Inl (SelectedInAlternatives (sd_id st))
          else route_subtasks threshold agents topo sts
                 (ds @ [\<lparr>rd_subtask_id = sd_id st, selected_candidate = c, rd_alternatives = cs, rd_topology = topo\<rparr>]) un)"

definition route :: "AutoTopologyConfig \<Rightarrow> rat \<Rightarrow> DecompositionPlan \<Rightarrow> AgentIdentity list \<Rightarrow> Task \<Rightarrow> routing_error + RoutingResult" where
  "route cfg threshold plan agents parent =
     (if t_id parent \<noteq> plan_parent_task_id plan then Inl ParentTaskMismatch
      else if agents = [] then make_routing_result (plan_parent_task_id plan) [] (List.map sd_id (plan_subtasks plan))
      else case route_subtasks threshold agents (select_topology cfg parent plan) (plan_subtasks plan) [] [] of
             Inl e \<Rightarrow> Inl e
           | Inr (ds, un) \<Rightarrow> make_routing_result (plan_parent_task_id plan) ds un)"

subsection \<open>Scores\<close>

lemma by_id_get: "distinct (List.map skill_id ss) \<Longrightarrow> s \<in> set ss \<Longrightarrow> dget (by_id ss) (skill_id s) = Some s"
  unfolding by_id_def by (rule map_of_is_SomeI) (auto simp: o_def rev_map [symmetric])

lemma dkeys_by_id: "dkeys (by_id ss) = rev (List.map skill_id ss)"
  by (simp add: by_id_def rev_map o_def)

lemma proficiency_sum_bounds:
  assumes "distinct (List.map skill_id ss)" and "\<forall>s \<in> set ss. 0 \<le> proficiency s \<and> proficiency s \<le> 1"
    and "set ids \<subseteq> set (List.map skill_id ss)"
  shows "0 \<le> proficiency_sum (by_id ss) ids" and "proficiency_sum (by_id ss) ids \<le> of_nat (length ids)"
proof -
  have "0 \<le> proficiency (the (dget (by_id ss) i)) \<and> proficiency (the (dget (by_id ss) i)) \<le> 1" if "i \<in> set ids" for i
  proof -
    obtain s where "s \<in> set ss" "i = skill_id s" using assms(3) \<open>i \<in> set ids\<close> by auto
    then show ?thesis using by_id_get [OF assms(1)] assms(2) by simp
  qed
  then show "0 \<le> proficiency_sum (by_id ss) ids" "proficiency_sum (by_id ss) ids \<le> of_nat (length ids)"
    unfolding proficiency_sum_def by (induction ids) (auto simp: add_mono)
qed

lemma share_bound:
  fixes a b :: rat
  assumes "0 \<le> a" "a \<le> of_nat p" "0 \<le> b" "b \<le> of_nat q" "p + q \<le> n" "0 < n"
  shows "0 \<le> a / of_nat n * (4 / 10) + b / of_nat n * (2 / 10)" and "a / of_nat n * (4 / 10) + b / of_nat n * (2 / 10) \<le> 4 / 10"
proof -
  have n: "(0 :: rat) < of_nat n" using assms(6) by simp
  show "0 \<le> a / of_nat n * (4 / 10) + b / of_nat n * (2 / 10)" using assms(1,3) n by simp
  define x y where "x = a / of_nat n" and "y = b / of_nat n"
  have "of_nat p + of_nat q \<le> (of_nat n :: rat)" using assms(5) by (metis of_nat_add of_nat_le_iff)
  then have "a + b \<le> of_nat n" using assms(2,4) by linarith
  then have "(a + b) / of_nat n \<le> 1" using n by simp
  then have "x + y \<le> 1" and "0 \<le> y" using assms(3) n by (simp_all add: x_def y_def add_divide_distrib)
  then show "a / of_nat n * (4 / 10) + b / of_nat n * (2 / 10) \<le> 4 / 10" by (simp add: x_def [symmetric] y_def [symmetric])
qed

lemma filter_lengths: "length (filter P xs) + length (filter (\<lambda>x. Q x \<and> \<not> P x) xs) \<le> length xs"
  by (induction xs) auto

lemma tiers_bounds:
  assumes "valid_agent a"
  shows "0 \<le> fst (score_skill_tiers a st)" and "fst (score_skill_tiers a st) \<le> 5 / 10"
proof -
  let ?req = "remdups (sd_required_skills st)"
  let ?P = "\<lambda>i. i \<in> set (dkeys (by_id (a_primary a)))" and ?S = "\<lambda>i. i \<in> set (dkeys (by_id (a_secondary a)))"
  let ?pm = "sort (filter ?P ?req)"
  let ?sm = "sort (filter (\<lambda>i. ?S i \<and> i \<notin> set ?pm) ?req)"
  have sm: "length ?sm = length (filter (\<lambda>i. ?S i \<and> \<not> ?P i) ?req)"
    by (simp, rule arg_cong [where f = length], rule filter_cong) auto
  have prof: "\<forall>s \<in> set (a_primary a). 0 \<le> proficiency s \<and> proficiency s \<le> 1" "\<forall>s \<in> set (a_secondary a). 0 \<le> proficiency s \<and> proficiency s \<le> 1"
      "distinct (List.map skill_id (a_primary a))" "distinct (List.map skill_id (a_secondary a))"
    using assms by (auto simp: valid_agent_def)
  have len: "length ?pm + length ?sm \<le> length ?req" unfolding sm using filter_lengths [of ?P ?req ?S] by simp
  have p: "set ?pm \<subseteq> set (List.map skill_id (a_primary a))" and s: "set ?sm \<subseteq> set (List.map skill_id (a_secondary a))" unfolding dkeys_by_id by auto
  have "0 \<le> fst (score_skill_tiers a st) \<and> fst (score_skill_tiers a st) \<le> 5 / 10"
  proof (cases "?req = []")
    case False
    then have pos: "0 < length ?req" by blast
    note b = share_bound [OF proficiency_sum_bounds [OF prof(3,1) p] proficiency_sum_bounds [OF prof(4,2) s] len pos]
    have "fst (score_skill_tiers a st) = proficiency_sum (by_id (a_primary a)) ?pm / of_nat (length ?req) * (4 / 10) +
        proficiency_sum (by_id (a_secondary a)) ?sm / of_nat (length ?req) * (2 / 10) +
        (if sd_required_tags st \<noteq> [] \<and> set (sd_required_tags st) \<subseteq> set (matched_tags (by_id (a_primary a)) ?pm @ matched_tags (by_id (a_secondary a)) ?sm)
         then 1 / 10 else 0)"
      using False unfolding score_skill_tiers_def Let_def by (simp only: if_False fst_conv)
    then show ?thesis using b by (auto split: if_splits)
  qed (simp add: score_skill_tiers_def)
  then show "0 \<le> fst (score_skill_tiers a st)" "fst (score_skill_tiers a st) \<le> 5 / 10" by simp_all
qed

lemma score_agent [simp]: "c_agent (score a st) = a"
  by (simp add: score_def split: prod.splits)

lemma score_value:
  assumes "valid_agent a"
  shows "0 \<le> c_score (score a st)" and "c_score (score a st) \<le> 9 / 10"
proof -
  have "0 \<le> score_role a st" "score_role a st \<le> 2 / 10" "0 \<le> score_seniority_alignment a st" "score_seniority_alignment a st \<le> 2 / 10"
    by (auto simp: score_role_def score_seniority_alignment_def split: option.splits)
  then show "0 \<le> c_score (score a st)" "c_score (score a st) \<le> 9 / 10"
    using tiers_bounds [OF assms, of st] by (auto simp: score_def Let_def split: prod.splits)
qed


subsection \<open>Candidates\<close>

lemma sort_key_head:
  assumes "sort_key f xs = y # ys"
  shows "mset (y # ys) = mset xs" and "y \<in> set xs" and "\<forall>z \<in> set xs. f y \<le> f z"
proof -
  show "mset (y # ys) = mset xs" using assms by (metis mset_sort)
  have "set (y # ys) = set xs" using assms by (metis set_sort)
  moreover have "sorted (List.map f (y # ys))" using assms by (metis sorted_sort_key)
  ultimately show "y \<in> set xs" "\<forall>z \<in> set xs. f y \<le> f z" by auto
qed

abbreviation cand_id :: "candidate \<Rightarrow> string" where
  "cand_id c \<equiv> a_id (c_agent c)"

lemma eligible_iff:
  "c \<in> set (eligible r st) \<longleftrightarrow>
     (\<exists>a \<in> set (available_agents r). a_status a = ACTIVE \<and> \<not> at_capacity r a \<and> c = score a st \<and> min_score r \<le> c_score c)"
  by (auto simp: eligible_def)

lemma eligible_distinct: "valid_request r \<Longrightarrow> distinct (List.map cand_id (eligible r st))"
proof -
  assume "valid_request r"
  then have "distinct (List.map a_id (filter P (available_agents r)))" for P by (simp add: valid_request_def distinct_map_filter)
  then show ?thesis by (simp add: eligible_def distinct_map_filter o_def)
qed

lemma mset_ranked: "mset (ranked r) = mset (eligible r (build_subtask_definition r))"
  by (simp add: score_and_filter_candidates_def)

lemma ranked_iff:
  "c \<in> set (ranked r) \<longleftrightarrow> (\<exists>a \<in> set (available_agents r). a_status a = ACTIVE \<and> \<not> at_capacity r a \<and>
     c = score a (build_subtask_definition r) \<and> min_score r \<le> c_score c)"
  using mset_ranked [of r] eligible_iff by (metis mset_eq_setD)

lemma ranked_distinct: "valid_request r \<Longrightarrow> distinct (List.map cand_id (ranked r))"
  using eligible_distinct mset_ranked by (metis mset_eq_imp_distinct_iff mset_map)

lemma make_result_split:
  assumes "valid_request r" and "mset (c # alts) = mset (ranked r)"
  shows "make_result tid n (Some c) alts = Inr \<lparr>res_task_id = tid, strategy_used = n, selected = Some c, alternatives = alts\<rparr>"
proof -
  have "distinct (List.map cand_id (c # alts))"
    using ranked_distinct [OF assms(1)] assms(2) by (metis mset_eq_imp_distinct_iff mset_map)
  then show ?thesis by (simp add: make_result_def image_iff) metis
qed

subsection \<open>What the service relies on\<close>

locale assignment_strategy =
  fixes strategy :: "AssignmentRequest \<Rightarrow> assign_error + AssignmentResult"
  assumes only_available: "valid_request r \<Longrightarrow> strategy r = Inr res \<Longrightarrow> selected res = Some c \<Longrightarrow>
      c_agent c \<in> set (available_agents r) \<and> a_status (c_agent c) = ACTIVE"
    and names_task: "strategy r = Inr res \<Longrightarrow> res_task_id res = t_id (r_task r)"
begin

lemma service_sound:
  assumes "valid_request r" and "service_assign n strategy r = Inr res" and "selected res = Some c"
  shows "c_agent c \<in> set (available_agents r) \<and> a_status (c_agent c) = ACTIVE \<and> t_status (r_task r) \<in> ASSIGNABLE_STATUSES \<and>
    (project_team r \<noteq> [] \<longrightarrow> cand_id c \<in> set (project_team r)) \<and> res_task_id res = t_id (r_task r)"
proof -
  have st: "t_status (r_task r) \<in> ASSIGNABLE_STATUSES" using assms(2) by (auto simp: service_assign_def split: if_splits)
  let ?f = "filter (\<lambda>a. a_id a \<in> set (project_team r)) (available_agents r)"
  show ?thesis
  proof (cases "project_team r = []")
    case True
    then show ?thesis using assms st only_available [OF assms(1)] names_task by (auto simp: service_assign_def)
  next
    case False
    then have "?f \<noteq> []" and run: "strategy (r\<lparr>available_agents := ?f\<rparr>) = Inr res"
      using assms(2,3) st by (auto simp: service_assign_def make_result_def Let_def split: if_splits)
    then have "valid_request (r\<lparr>available_agents := ?f\<rparr>)"
      using assms(1) by (auto simp: valid_request_def distinct_map_filter list_all_iff)
    from only_available [OF this run assms(3)] names_task [OF run] show ?thesis using st by auto
  qed
qed

end

text \<open>A strategy that ranks the eligible candidates: it always answers, with all of them.\<close>

locale scored_strategy = assignment_strategy +
  assumes complete: "valid_request r \<Longrightarrow> \<exists>res. strategy r = Inr res \<and>
      (case selected res of None \<Rightarrow> ranked r = [] \<and> alternatives res = [] | Some c \<Rightarrow> mset (c # alternatives res) = mset (ranked r))"
begin

lemma selects_exactly:
  "valid_request r \<Longrightarrow> strategy r = Inr res \<Longrightarrow> selected res = None \<longleftrightarrow> ranked r = []"
  using complete [of r] by (auto split: option.splits)

end

lemma ranked_available:
  "valid_request r \<Longrightarrow> c \<in> set (ranked r) \<Longrightarrow> c_agent c \<in> set (available_agents r) \<and> a_status (c_agent c) = ACTIVE"
  by (auto simp: ranked_iff)

text \<open>Every ranking of the candidates gives such a strategy.\<close>

lemma scored_by_ranking:
  assumes "\<And>r. valid_request r \<Longrightarrow> (strategy r = make_result (t_id (r_task r)) n None [] \<and> ranked r = []) \<or>
      (\<exists>c alts. strategy r = make_result (t_id (r_task r)) n (Some c) alts \<and> mset (c # alts) = mset (ranked r))"
    and "\<And>r res. strategy r = Inr res \<Longrightarrow> res_task_id res = t_id (r_task r)"
  shows "scored_strategy strategy"
proof
  fix r res c assume a: "valid_request r" "strategy r = Inr res" "selected res = Some c"
  from assms(1) [OF a(1)] show "c_agent c \<in> set (available_agents r) \<and> a_status (c_agent c) = ACTIVE"
  proof (elim disjE exE conjE)
    fix d alts assume d: "strategy r = make_result (t_id (r_task r)) n (Some d) alts" "mset (d # alts) = mset (ranked r)"
    then have "c = d" using a(2,3) make_result_split [OF a(1) d(2)] by simp
    moreover have "d \<in> set (ranked r)" using d(2) by (metis list.set_intros(1) mset_eq_setD)
    ultimately show ?thesis using ranked_available [OF a(1)] by simp
  qed (use a in \<open>simp add: make_result_def\<close>)
next
  fix r assume v: "valid_request r"
  from assms(1) [OF v] show "\<exists>res. strategy r = Inr res \<and>
      (case selected res of None \<Rightarrow> ranked r = [] \<and> alternatives res = [] | Some c \<Rightarrow> mset (c # alternatives res) = mset (ranked r))"
  proof (elim disjE exE conjE)
    fix d alts assume d: "strategy r = make_result (t_id (r_task r)) n (Some d) alts" "mset (d # alts) = mset (ranked r)"
    then show ?thesis using make_result_split [OF v d(2)] by simp
  qed (simp add: make_result_def)
qed (rule assms(2))

lemma make_result_task: "make_result tid n sel alts = Inr res \<Longrightarrow> res_task_id res = tid"
  by (auto simp: make_result_def split: option.splits if_splits)


lemma mset_rank_workload: "mset (rank_candidates_by_workload r cs) = mset cs"
  by (simp add: rank_candidates_by_workload_def)

lemma mset_rank_cost: "mset (rank_candidates_by_cost r cs) = mset cs"
  by (simp add: rank_candidates_by_cost_def)

interpretation role_based: scored_strategy role_based_assign
proof (rule scored_by_ranking)
  show "(role_based_assign r = make_result (t_id (r_task r)) ROLE_BASED None [] \<and> ranked r = []) \<or>
      (\<exists>c alts. role_based_assign r = make_result (t_id (r_task r)) ROLE_BASED (Some c) alts \<and> mset (c # alts) = mset (ranked r))" for r
    by (cases "ranked r") (simp add: role_based_assign_def, unfold role_based_assign_def, simp, blast)
qed (auto simp: role_based_assign_def dest: make_result_task split: list.splits)

interpretation load_balanced: scored_strategy load_balanced_assign
proof (rule scored_by_ranking)
  show "(load_balanced_assign r = make_result (t_id (r_task r)) LOAD_BALANCED None [] \<and> ranked r = []) \<or>
      (\<exists>c alts. load_balanced_assign r = make_result (t_id (r_task r)) LOAD_BALANCED (Some c) alts \<and> mset (c # alts) = mset (ranked r))" for r
  proof (cases "rank_candidates_by_workload r (ranked r)")
    case Nil
    then show ?thesis using mset_rank_workload [of r "ranked r"] by (simp add: load_balanced_assign_def)
  next
    case (Cons c cs)
    then have "mset (c # sort_key (\<lambda>c. - c_score c) cs) = mset (ranked r)" using mset_rank_workload [of r "ranked r"] by simp
    moreover have "load_balanced_assign r = make_result (t_id (r_task r)) LOAD_BALANCED (Some c) (sort_key (\<lambda>c. - c_score c) cs)"
      using Cons by (simp add: load_balanced_assign_def)
    ultimately show ?thesis by blast
  qed
qed (auto simp: load_balanced_assign_def dest: make_result_task split: list.splits)

interpretation cost_optimized: scored_strategy cost_optimized_assign
proof (rule scored_by_ranking)
  show "(cost_optimized_assign r = make_result (t_id (r_task r)) COST_OPTIMIZED None [] \<and> ranked r = []) \<or>
      (\<exists>c alts. cost_optimized_assign r = make_result (t_id (r_task r)) COST_OPTIMIZED (Some c) alts \<and> mset (c # alts) = mset (ranked r))" for r
  proof (cases "rank_candidates_by_cost r (ranked r)")
    case Nil
    then show ?thesis using mset_rank_cost [of r "ranked r"] by (simp add: cost_optimized_assign_def)
  next
    case (Cons c cs)
    then have "mset (c # cs) = mset (ranked r)" using mset_rank_cost [of r "ranked r"] by simp
    moreover have "cost_optimized_assign r = make_result (t_id (r_task r)) COST_OPTIMIZED (Some c) cs"
      using Cons by (simp add: cost_optimized_assign_def)
    ultimately show ?thesis by blast
  qed
qed (auto simp: cost_optimized_assign_def dest: make_result_task split: list.splits)

abbreviation bid_order :: "AssignmentRequest \<Rightarrow> (candidate \<times> rat) list" where
  "bid_order r \<equiv> sort_key (\<lambda>(c, b). (- b, - c_score c)) (compute_bids r (ranked r))"

lemma mset_bids: "mset (List.map fst (bid_order r)) = mset (ranked r)"
proof -
  have "mset (List.map fst (bid_order r)) = mset (List.map fst (compute_bids r (ranked r)))" by simp
  also have "List.map fst (compute_bids r (ranked r)) = ranked r" by (simp add: compute_bids_def o_def)
  finally show ?thesis .
qed

interpretation auction: scored_strategy auction_assign
proof (rule scored_by_ranking)
  show "(auction_assign r = make_result (t_id (r_task r)) AUCTION None [] \<and> ranked r = []) \<or>
      (\<exists>c alts. auction_assign r = make_result (t_id (r_task r)) AUCTION (Some c) alts \<and> mset (c # alts) = mset (ranked r))" for r
  proof (cases "bid_order r")
    case Nil
    then show ?thesis using mset_bids [of r] by (simp add: auction_assign_def select_winner_def)
  next
    case (Cons w rest)
    then have "mset (fst w # sort_key (\<lambda>c. - c_score c) (List.map fst rest)) = mset (ranked r)" using mset_bids [of r] by simp
    moreover have "auction_assign r = make_result (t_id (r_task r)) AUCTION (Some (fst w)) (sort_key (\<lambda>c. - c_score c) (List.map fst rest))"
      using Cons by (simp add: auction_assign_def select_winner_def)
    ultimately show ?thesis by blast
  qed
qed (auto simp: auction_assign_def select_winner_def dest: make_result_task split: list.splits)

lemma find_in_set: "List.find P xs = Some x \<Longrightarrow> x \<in> set xs"
  by (auto simp: find_Some_iff)

interpretation manual: assignment_strategy manual_assign
proof
  fix r res c assume "manual_assign r = Inr res" "selected res = Some c"
  then have "find_designated_agent r = Inr (c_agent c)"
    by (auto simp: manual_assign_def make_result_def split: sum.splits)
  then show "c_agent c \<in> set (available_agents r) \<and> a_status (c_agent c) = ACTIVE"
    by (auto simp: find_designated_agent_def dest!: find_in_set split: option.splits if_splits)
qed (auto simp: manual_assign_def dest: make_result_task split: sum.splits)

lemma hierarchical_selects:
  assumes "valid_request r" and "hierarchical_assign h r = Inr res" and "selected res = Some c"
  shows "c_agent c \<in> set (filter_by_hierarchy h r (resolve_delegator r))" and "a_status (c_agent c) = ACTIVE"
proof -
  let ?subs = "filter_by_hierarchy h r (resolve_delegator r)" and ?r = "r\<lparr>available_agents := filter_by_hierarchy h r (resolve_delegator r), project_team := []\<rparr>"
  obtain d ds where d: "ranked ?r = d # ds" "?subs \<noteq> []" and res: "make_result (t_id (r_task r)) HIERARCHICAL (Some d) ds = Inr res"
    using assms(2,3) by (auto simp: hierarchical_assign_def make_result_def Let_def split: if_splits list.splits)
  have "d \<in> set (ranked ?r)" using d by simp
  moreover have "d = c" using res assms(3) by (auto simp: make_result_def split: if_splits)
  ultimately have "c_agent c \<in> set ?subs \<and> a_status (c_agent c) = ACTIVE" by (auto simp: ranked_iff)
  then show "c_agent c \<in> set ?subs" "a_status (c_agent c) = ACTIVE" by simp_all
qed

lemma filter_by_hierarchy_subset: "set (filter_by_hierarchy h r d) \<subseteq> set (available_agents r)"
  by (auto simp: filter_by_hierarchy_def Let_def)

interpretation hierarchical: assignment_strategy "hierarchical_assign h" for h
proof
  fix r res c assume "valid_request r" "hierarchical_assign h r = Inr res" "selected res = Some c"
  then show "c_agent c \<in> set (available_agents r) \<and> a_status (c_agent c) = ACTIVE"
    using hierarchical_selects filter_by_hierarchy_subset by blast
qed (auto simp: hierarchical_assign_def Let_def dest: make_result_task split: list.splits if_splits)

lemma any_strategy: "build_strategy_map h n = Some strategy \<Longrightarrow> assignment_strategy strategy"
  by (cases n) (auto simp: build_strategy_map_def manual.assignment_strategy_axioms role_based.assignment_strategy_axioms
      load_balanced.assignment_strategy_axioms cost_optimized.assignment_strategy_axioms auction.assignment_strategy_axioms
      hierarchical.assignment_strategy_axioms)

lemma assign_transition:
  assumes "valid_task isofmt t" and "t_status t \<in> ASSIGNABLE_STATUSES" and "not_blank a"
  shows "with_transition isofmt t ASSIGNED [(''assigned_to'', PStr a)] =
    (if a \<in> set (t_delegation_chain t) then Inl AssigneeInChain else Inr (t\<lparr>t_assigned_to := Some a, t_status := ASSIGNED\<rparr>))"
proof -
  let ?t = "t\<lparr>t_assigned_to := Some a, t_status := ASSIGNED\<rparr>"
  have ok: "validate_transition (t_status t) ASSIGNED = Inr ()"
    using assms(2) by (auto simp: ASSIGNABLE_STATUSES_def validate_transition_def sm_validate_def task_machine_def VALID_TRANSITIONS_def)
  have "with_transition isofmt t ASSIGNED [(''assigned_to'', PStr a)] = model_validate isofmt ?t"
    using assms(3) by (simp add: with_transition_def ok set_field_def)
  also have "\<dots> = (if a \<in> set (t_delegation_chain t) then Inl AssigneeInChain else Inr ?t)"
    using assms(1,3)
    by (auto simp: model_validate_def guard_with_def valid_task_def field_constraints_def validate_deadline_format_def validate_collections_def
        validate_delegation_fields_def validate_assignment_consistency_def distinct_card opt_not_blank_def split: option.splits)
  finally show ?thesis .
qed


definition best_answer :: "(candidate \<Rightarrow> rat \<times> rat) \<Rightarrow> AssignmentRequest \<Rightarrow> AssignmentResult \<Rightarrow> bool" where
  "best_answer key r res \<longleftrightarrow>
     (case selected res of
        None \<Rightarrow> ranked r = [] \<and> alternatives res = []
      | Some c \<Rightarrow> mset (c # alternatives res) = mset (ranked r) \<and> (\<forall>d \<in> set (ranked r). key c \<le> key d))"

lemma best_of_head:
  assumes "valid_request r" and "mset (c # alts) = mset (ranked r)" and "\<forall>d \<in> set (ranked r). key c \<le> key d"
    and "strategy r = make_result (t_id (r_task r)) n (Some c) alts"
  shows "\<exists>res. strategy r = Inr res \<and> best_answer key r res"
  using make_result_split [OF assms(1,2)] assms(2-4) by (simp add: best_answer_def)

lemma best_of_none:
  "ranked r = [] \<Longrightarrow> strategy r = make_result (t_id (r_task r)) n None [] \<Longrightarrow> \<exists>res. strategy r = Inr res \<and> best_answer key r res"
  by (simp add: best_answer_def make_result_def)

lemma ranked_order: "ranked r = c # cs \<Longrightarrow> \<forall>d \<in> set (ranked r). - c_score c \<le> - c_score d"
proof -
  assume c: "ranked r = c # cs"
  have "set (ranked r) = set (eligible r (build_subtask_definition r))" by (simp add: score_and_filter_candidates_def)
  then show ?thesis
    using sort_key_head(3) [of "\<lambda>c. - c_score c" "eligible r (build_subtask_definition r)" c cs] c
    unfolding score_and_filter_candidates_def by blast
qed

lemma role_based_best:
  assumes "valid_request r"
  shows "\<exists>res. role_based_assign r = Inr res \<and> best_answer (\<lambda>c. (0, - c_score c)) r res"
proof (cases "ranked r")
  case Nil
  then show ?thesis by (intro best_of_none) (simp_all add: role_based_assign_def)
next
  case (Cons c cs)
  show ?thesis
    by (rule best_of_head [OF assms, of c cs]) (use Cons ranked_order [OF Cons] in \<open>simp_all add: role_based_assign_def less_eq_prod_def\<close>)
qed

lemma load_balanced_best:
  assumes "valid_request r"
  shows "\<exists>res. load_balanced_assign r = Inr res \<and>
    best_answer (\<lambda>c. (if covers (workload_map r) (ranked r) then of_int (the (dget (workload_map r) (cand_id c))) else 0, - c_score c)) r res"
proof (cases "rank_candidates_by_workload r (ranked r)")
  case Nil
  then show ?thesis using mset_rank_workload [of r "ranked r"] by (intro best_of_none) (simp_all add: load_balanced_assign_def)
next
  case (Cons c cs)
  let ?alts = "sort_key (\<lambda>c. - c_score c) cs"
  have m: "mset (c # ?alts) = mset (ranked r)" using Cons mset_rank_workload [of r "ranked r"] by simp
  have k: "\<forall>d \<in> set (ranked r). (if covers (workload_map r) (ranked r) then rat_of_int (the (dget (workload_map r) (cand_id c))) else 0, - c_score c) \<le>
      (if covers (workload_map r) (ranked r) then of_int (the (dget (workload_map r) (cand_id d))) else 0, - c_score d)"
  proof (cases "covers (workload_map r) (ranked r)")
    case True
    then show ?thesis
      using Cons sort_key_head(3) [of "\<lambda>c. (the (dget (workload_map r) (cand_id c)), - c_score c)" "ranked r" c cs]
      by (simp add: rank_candidates_by_workload_def less_eq_prod_def)
  next
    case False
    then show ?thesis using Cons ranked_order [of r c cs] by (simp add: rank_candidates_by_workload_def less_eq_prod_def)
  qed
  show ?thesis by (rule best_of_head [OF assms m k]) (simp add: load_balanced_assign_def Cons)
qed

lemma cost_optimized_best:
  assumes "valid_request r"
  shows "\<exists>res. cost_optimized_assign r = Inr res \<and>
    best_answer (\<lambda>c. (if covers (cost_map r) (ranked r) then the (dget (cost_map r) (cand_id c)) else 0, - c_score c)) r res"
proof (cases "rank_candidates_by_cost r (ranked r)")
  case Nil
  then show ?thesis using mset_rank_cost [of r "ranked r"] by (intro best_of_none) (simp_all add: cost_optimized_assign_def)
next
  case (Cons c cs)
  have m: "mset (c # cs) = mset (ranked r)" using Cons mset_rank_cost [of r "ranked r"] by simp
  have k: "\<forall>d \<in> set (ranked r). (if covers (cost_map r) (ranked r) then the (dget (cost_map r) (cand_id c)) else 0, - c_score c) \<le>
      (if covers (cost_map r) (ranked r) then the (dget (cost_map r) (cand_id d)) else 0, - c_score d)"
  proof (cases "covers (cost_map r) (ranked r)")
    case True
    then show ?thesis
      using Cons sort_key_head(3) [of "\<lambda>c. (the (dget (cost_map r) (cand_id c)), - c_score c)" "ranked r" c cs]
      by (simp add: rank_candidates_by_cost_def)
  next
    case False
    then show ?thesis using Cons ranked_order [of r c cs] by (simp add: rank_candidates_by_cost_def less_eq_prod_def)
  qed
  show ?thesis by (rule best_of_head [OF assms m k]) (simp add: cost_optimized_assign_def Cons)
qed

lemma auction_best:
  assumes "valid_request r"
  shows "\<exists>res. auction_assign r = Inr res \<and> best_answer (\<lambda>c. (- bid r (ranked r) c, - c_score c)) r res"
proof (cases "bid_order r")
  case Nil
  then show ?thesis using mset_bids [of r] by (intro best_of_none) (simp_all add: auction_assign_def select_winner_def)
next
  case (Cons w rest)
  let ?alts = "sort_key (\<lambda>c. - c_score c) (List.map fst rest)"
  have m: "mset (fst w # ?alts) = mset (ranked r)" using Cons mset_bids [of r] by simp
  note hd = sort_key_head [OF Cons]
  have w: "snd w = bid r (ranked r) (fst w)" using hd(2) by (auto simp: compute_bids_def)
  have k: "\<forall>d \<in> set (ranked r). (- bid r (ranked r) (fst w), - c_score (fst w)) \<le> (- bid r (ranked r) d, - c_score d)"
    using hd(3) by (auto simp: compute_bids_def case_prod_unfold w)
  show ?thesis by (rule best_of_head [OF assms m k]) (simp add: auction_assign_def select_winner_def Cons)
qed

subsection \<open>Properties\<close>

text \<open>
  C29: whatever strategy of the registry is configured, an agent the service selects is active, one of the
  available agents and a member of the project team if there is one; the task's status admits assignment, and
  moving the valid task to ASSIGNED with that agent succeeds unless the agent's id is in the task's delegation
  chain, which is refused.
\<close>

theorem assignment_service_sound:
  assumes "valid_request r" and "build_strategy_map h n = Some strategy" and "service_assign n strategy r = Inr res"
    and "selected res = Some c" and "valid_task isofmt (r_task r)"
  shows "c_agent c \<in> set (available_agents r) \<and> a_status (c_agent c) = ACTIVE \<and>
    (project_team r \<noteq> [] \<longrightarrow> cand_id c \<in> set (project_team r)) \<and>
    with_transition isofmt (r_task r) ASSIGNED [(''assigned_to'', PStr (cand_id c))] =
      (if cand_id c \<in> set (t_delegation_chain (r_task r)) then Inl AssigneeInChain
       else Inr ((r_task r)\<lparr>t_assigned_to := Some (cand_id c), t_status := ASSIGNED\<rparr>))"
proof -
  note s = assignment_strategy.service_sound [OF any_strategy [OF assms(2)] assms(1,3,4)]
  then have "not_blank (cand_id c)" using assms(1) by (auto simp: valid_request_def valid_agent_def list_all_iff)
  then show ?thesis using s assign_transition [OF assms(5)] by simp
qed

text \<open>
  The strategies choose the best. On every valid request each of the four scoring strategies answers; it
  selects nobody exactly when no active agent below the capacity reaches the minimal score, lists all other
  eligible agents as alternatives, and its choice is first in its own order: the highest score, the fewest active
  tasks, the lowest cost or the highest bid, ties going to the higher score (when the workload data covers the
  candidates).
\<close>

theorem scored_strategies_choose_best:
  assumes "valid_request r"
    and "(strategy, key) \<in> {(role_based_assign, \<lambda>c. (0, - c_score c)),
      (load_balanced_assign, \<lambda>c. (if covers (workload_map r) (ranked r) then of_int (the (dget (workload_map r) (cand_id c))) else 0, - c_score c)),
      (cost_optimized_assign, \<lambda>c. (if covers (cost_map r) (ranked r) then the (dget (cost_map r) (cand_id c)) else 0, - c_score c)),
      (auction_assign, \<lambda>c. (- bid r (ranked r) c, - c_score c))}"
  shows "\<exists>res. strategy r = Inr res \<and>
    (case selected res of
       None \<Rightarrow> ranked r = [] \<and> alternatives res = []
     | Some c \<Rightarrow> mset (c # alternatives res) = mset (ranked r) \<and> (\<forall>d \<in> set (ranked r). key c \<le> key d))"
proof -
  have "\<exists>res. strategy r = Inr res \<and> best_answer key r res"
    using assms(2) role_based_best [OF assms(1)] load_balanced_best [OF assms(1)] cost_optimized_best [OF assms(1)] auction_best [OF assms(1)]
    by (elim insertE) simp_all
  then show ?thesis by (simp add: best_answer_def)
qed

text \<open>
  Scores stay between 0 and 0.9. The tiers overlap at most once, so the cap at 1 is never reached, and a
  minimal score above 0.9 leaves every task unassigned by the scoring strategies.
\<close>

theorem score_range:
  assumes "valid_agent a"
  shows "0 \<le> c_score (score a st) \<and> c_score (score a st) \<le> 9 / 10 \<and>
    (\<forall>r res. valid_request r \<and> 9 / 10 < min_score r \<and> role_based_assign r = Inr res \<longrightarrow> selected res = None)"
proof -
  have "ranked r = []" if r: "valid_request r" "9 / 10 < min_score r" for r
  proof (rule ccontr)
    assume "ranked r \<noteq> []"
    then obtain c where "c \<in> set (ranked r)" by (meson list.set_sel(1))
    then obtain b where "b \<in> set (available_agents r)" "min_score r \<le> c_score (score b (build_subtask_definition r))"
      by (auto simp: ranked_iff)
    moreover have "c_score (score b (build_subtask_definition r)) \<le> 9 / 10"
      using score_value(2) r(1) \<open>b \<in> _\<close> by (simp add: valid_request_def list_all_iff)
    ultimately show False using r(2) by simp
  qed
  then show ?thesis using score_value [OF assms] role_based.selects_exactly by blast
qed

text \<open>
  The hierarchical strategy only selects agents below the delegator (the last of the delegation chain, else the
  creator), and a direct report whenever one is available.
\<close>

theorem hierarchical_selects_subordinates:
  assumes "HierarchyResolver ds = Inr h" and "valid_request r" and "hierarchical_assign h r = Inr res" and "selected res = Some c"
    and "d = resolve_delegator r"
  shows "(a_name (c_agent c), d) \<in> (up (supervisor_of h))\<^sup>+ \<and>
    ((\<exists>a \<in> set (available_agents r). a_name a \<in> set (get_direct_reports h d)) \<longrightarrow> a_name (c_agent c) \<in> set (get_direct_reports h d))"
proof -
  have c: "c_agent c \<in> set (filter_by_hierarchy h r d)" using hierarchical_selects(1) [OF assms(2-4)] assms(5) by simp
  have direct: "x \<in> set (get_direct_reports h d) \<Longrightarrow> (x, d) \<in> (up (supervisor_of h))\<^sup>+" for x
    using chart.report_below [OF assms(1)] by blast
  have "is_subordinate h d x = Some True \<longleftrightarrow> (x, d) \<in> (up (supervisor_of h))\<^sup>+" for x
    using is_subordinate_eq [OF chart.made_wf [OF assms(1)]] by simp
  then show ?thesis using c direct by (auto simp: filter_by_hierarchy_def Let_def filter_empty_conv split: if_splits)
qed


text \<open>What a routing decision promises.\<close>

definition decision_ok :: "rat \<Rightarrow> AgentIdentity list \<Rightarrow> SubtaskDefinition list \<Rightarrow> CoordinationTopology \<Rightarrow> RoutingDecision \<Rightarrow> bool" where
  "decision_ok threshold agents sts topo d \<longleftrightarrow>
     (\<exists>st \<in> set sts. sd_id st = rd_subtask_id d \<and> selected_candidate d = score (c_agent (selected_candidate d)) st \<and>
        c_agent (selected_candidate d) \<in> set agents \<and> threshold \<le> c_score (selected_candidate d) \<and>
        (\<forall>a \<in> set agents. c_score (score a st) \<le> c_score (selected_candidate d))) \<and> rd_topology d = topo"

lemma viable_distinct: "distinct (List.map a_id agents) \<Longrightarrow> distinct (List.map cand_id (viable threshold agents st))"
proof -
  assume "distinct (List.map a_id agents)"
  then have "distinct (List.map cand_id (filter P (List.map (\<lambda>a. score a st) agents)))" for P
    by (simp add: distinct_map_filter o_def)
  moreover have "mset (viable threshold agents st) = mset (filter (\<lambda>c. c_score c \<ge> threshold) (List.map (\<lambda>a. score a st) agents))"
    by (simp add: viable_def)
  ultimately show ?thesis by (metis mset_eq_imp_distinct_iff mset_map)
qed

lemma viable_head:
  assumes "viable threshold agents st = c # cs"
  shows "\<exists>a \<in> set agents. c = score a st" and "threshold \<le> c_score c" and "\<forall>a \<in> set agents. c_score (score a st) \<le> c_score c"
proof -
  note h = sort_key_head [OF assms [unfolded viable_def]]
  show "\<exists>a \<in> set agents. c = score a st" and t: "threshold \<le> c_score c" using h(2) by auto
  show "\<forall>a \<in> set agents. c_score (score a st) \<le> c_score c"
  proof
    fix a assume "a \<in> set agents"
    then show "c_score (score a st) \<le> c_score c" using h(3) t by (cases "threshold \<le> c_score (score a st)") auto
  qed
qed

lemma route_subtasks_ok:
  assumes "distinct (List.map a_id agents)" and "set sts \<subseteq> set all" and "list_all (decision_ok threshold agents all topo) ds"
  shows "\<exists>ds' un'. route_subtasks threshold agents topo sts ds un = Inr (ds', un') \<and> list_all (decision_ok threshold agents all topo) ds' \<and>
    mset (List.map rd_subtask_id ds' @ un') = mset (List.map rd_subtask_id ds @ un @ List.map sd_id sts)"
  using assms(2,3)
proof (induction sts arbitrary: ds un)
  case (Cons st sts)
  show ?case
  proof (cases "viable threshold agents st")
    case Nil
    then show ?thesis using Cons.IH [of ds "un @ [sd_id st]"] Cons.prems by simp
  next
    case (Cons c cs)
    let ?d = "\<lparr>rd_subtask_id = sd_id st, selected_candidate = c, rd_alternatives = cs, rd_topology = topo\<rparr>"
    note v = viable_head [OF Cons]
    have "decision_ok threshold agents all topo ?d" using v Cons.prems(1) by (auto simp: decision_ok_def)
    moreover have "\<not> (\<exists>alt \<in> set cs. cand_id alt = cand_id c)"
      using viable_distinct [OF assms(1), of threshold st] Cons by (simp add: image_iff) metis
    ultimately show ?thesis using Cons.IH [of "ds @ [?d]" un] Cons.prems Cons by simp
  qed
qed simp

text \<open>
  Routing a valid plan over agents with distinct ids always succeeds, reports every subtask exactly once, as a
  decision or as unroutable, and a decision names an agent of the pool with the best score, not below the threshold;
  its topology is concrete.
\<close>

theorem routing_partitions_plan:
  assumes "valid_plan plan" and "distinct (List.map a_id agents)" and "t_id parent = plan_parent_task_id plan" and "valid_topology_config cfg"
  shows "\<exists>res. route cfg threshold plan agents parent = Inr res \<and>
    mset (List.map rd_subtask_id (decisions res) @ unroutable res) = mset (List.map sd_id (plan_subtasks plan)) \<and>
    (\<forall>d \<in> set (decisions res). rd_topology d \<noteq> AUTO \<and>
       (\<exists>st \<in> set (plan_subtasks plan). sd_id st = rd_subtask_id d \<and> threshold \<le> c_score (selected_candidate d) \<and>
          (\<exists>a \<in> set agents. selected_candidate d = score a st) \<and> (\<forall>a \<in> set agents. c_score (score a st) \<le> c_score (selected_candidate d))))"
proof -
  let ?sts = "plan_subtasks plan" and ?topo = "select_topology cfg parent plan"
  have dist: "distinct (List.map sd_id ?sts)" using assms(1)
    by (auto simp: valid_plan_def validate_subtasks_def Let_def card_distinct split: if_splits)
  have topo: "?topo \<noteq> AUTO" using assms(4) by (auto simp: select_topology_def valid_topology_config_def split: TaskStructure.splits)
  obtain ds un where run: "route_subtasks threshold agents ?topo ?sts [] [] = Inr (ds, un)"
      "list_all (decision_ok threshold agents ?sts ?topo) ds" "mset (List.map rd_subtask_id ds @ un) = mset (List.map sd_id ?sts)"
    using route_subtasks_ok [OF assms(2) order.refl, where ds = "[]" and un = "[]"] by fastforce
  have d: "distinct (List.map rd_subtask_id ds @ un)" using dist run(3) by (metis mset_eq_imp_distinct_iff)
  then have mk: "make_routing_result (plan_parent_task_id plan) ds un = Inr \<lparr>parent_task_id = plan_parent_task_id plan, decisions = ds, unroutable = un\<rparr>"
    by (auto simp: make_routing_result_def)
  show ?thesis
  proof (cases "agents = []")
    case True
    then show ?thesis using assms(3) dist by (simp add: route_def make_routing_result_def)
  next
    case False
    then have "route cfg threshold plan agents parent = Inr \<lparr>parent_task_id = plan_parent_task_id plan, decisions = ds, unroutable = un\<rparr>"
      using assms(3) run(1) mk by (simp add: route_def)
    then show ?thesis using run(2,3) topo by (fastforce simp: list_all_iff decision_ok_def)
  qed
qed


subsection \<open>Witnesses\<close>

definition sample_agent :: "string \<Rightarrow> SeniorityLevel \<Rightarrow> AgentIdentity" where
  "sample_agent n l = \<lparr>a_id = n @ ''-id'', a_name = n, a_role = ''dev'', a_level = l, a_primary = [], a_secondary = [], a_status = ACTIVE\<rparr>"

definition sample_request :: AssignmentRequest where
  "sample_request = \<lparr>r_task = sample_task\<lparr>t_created_by := ''cto''\<rparr>,
     available_agents = [sample_agent ''lead1'' SENIOR, sample_agent ''dev1'' JUNIOR], workloads = [], min_score = 0,
     required_skills = [], required_role = None, max_concurrent_tasks = None, project_team = []\<rparr>"

lemma sample_assignment_valid: "valid_request sample_request"
  by (simp add: valid_request_def sample_request_def sample_agent_def valid_agent_def not_blank_def py_isspace_def)

lemma sample_scores:
  "ranked sample_request = [score (sample_agent ''dev1'' JUNIOR) (build_subtask_definition sample_request),
     score (sample_agent ''lead1'' SENIOR) (build_subtask_definition sample_request)]"
  by (simp add: score_and_filter_candidates_def eligible_def sample_request_def at_capacity_def sample_agent_def score_def
      score_skill_tiers_def score_role_def score_seniority_alignment_def build_subtask_definition_def SENIORITY_COMPLEXITY_def sample_task_def)

theorem assignment_service_sound_witness:
  "with_transition (\<lambda>_. True) (r_task sample_request) ASSIGNED [(''assigned_to'', PStr ''dev1-id'')] =
     Inr ((r_task sample_request)\<lparr>t_assigned_to := Some ''dev1-id'', t_status := ASSIGNED\<rparr>)"
proof -
  let ?c = "score (sample_agent ''dev1'' JUNIOR) (build_subtask_definition sample_request)"
  let ?res = "\<lparr>res_task_id = ''task-1'', strategy_used = ROLE_BASED, selected = Some ?c,
    alternatives = [score (sample_agent ''lead1'' SENIOR) (build_subtask_definition sample_request)]\<rparr>"
  have run: "service_assign ROLE_BASED role_based_assign sample_request = Inr ?res"
    unfolding service_assign_def role_based_assign_def sample_scores
    by (simp add: ASSIGNABLE_STATUSES_def make_result_def sample_agent_def) (simp add: sample_request_def sample_task_def)
  have "valid_task (\<lambda>_. True) (r_task sample_request)"
    using sample_task_valid [of "\<lambda>_. True"]
    by (simp add: sample_request_def valid_task_def field_constraints_def not_blank_def py_isspace_def sample_task_def)
  then show ?thesis
    using assignment_service_sound [OF sample_assignment_valid _ run, of None ?c "\<lambda>_. True"]
    by (simp add: build_strategy_map_def sample_agent_def) (simp add: sample_request_def sample_task_def)
qed

theorem scored_strategies_choose_best_witness:
  "\<exists>res. role_based_assign sample_request = Inr res \<and> selected res \<noteq> None"
  using scored_strategies_choose_best [OF sample_assignment_valid, of role_based_assign "\<lambda>c. (0, - c_score c)"]
  by (auto simp: sample_scores split: option.splits)

theorem score_range_witness: "c_score (score (sample_agent ''dev1'' JUNIOR) (build_subtask_definition sample_request)) \<le> 9 / 10"
  using score_range [of "sample_agent ''dev1'' JUNIOR"] sample_assignment_valid by (simp add: valid_request_def sample_request_def)

theorem hierarchical_selects_subordinates_witness:
  "\<exists>res c. hierarchical_assign (link_company sample_company) sample_request = Inr res \<and> selected res = Some c \<and>
     (a_name (c_agent c), ''cto'') \<in> (up (supervisor_of (link_company sample_company)))\<^sup>+"
proof -
  let ?h = "link_company sample_company" and ?lead = "sample_agent ''lead1'' SENIOR"
  let ?c = "score ?lead (build_subtask_definition sample_request)"
  let ?res = "\<lparr>res_task_id = ''task-1'', strategy_used = HIERARCHICAL, selected = Some ?c, alternatives = []\<rparr>"
  have d: "resolve_delegator sample_request = ''cto''" by (simp add: resolve_delegator_def sample_request_def sample_task_def)
  have "filter_by_hierarchy ?h sample_request ''cto'' = [?lead]"
    by (simp add: filter_by_hierarchy_def sample_charts get_direct_reports_def sample_request_def sample_agent_def dget_or_def)
  moreover have "ranked (sample_request\<lparr>available_agents := [?lead], project_team := []\<rparr>) = [?c]"
    by (simp add: score_and_filter_candidates_def eligible_def at_capacity_def build_subtask_definition_def sample_request_def
        sample_agent_def score_def score_skill_tiers_def score_role_def score_seniority_alignment_def)
  ultimately have run: "hierarchical_assign ?h sample_request = Inr ?res"
    by (simp add: hierarchical_assign_def d is_known_delegator_def sample_charts get_direct_reports_def dget_or_def make_result_def)
      (simp add: sample_request_def sample_task_def)
  then show ?thesis
    using hierarchical_selects_subordinates [OF sample_resolver sample_assignment_valid run, of ?c "''cto''"] d by auto
qed

theorem routing_partitions_plan_witness:
  "\<exists>res. route \<lparr>sequential_override = SAS, parallel_default = CENTRALIZED, mixed_default = CONTEXT_DEPENDENT, parallel_artifact_threshold = 4\<rparr>
     (1 / 10) sample_plan [sample_agent ''dev1'' JUNIOR] sample_task = Inr res"
  using routing_partitions_plan [OF sample_plan_valid, of "[sample_agent ''dev1'' JUNIOR]" sample_task
      "\<lparr>sequential_override = SAS, parallel_default = CENTRALIZED, mixed_default = CONTEXT_DEPENDENT, parallel_artifact_threshold = 4\<rparr>" "1 / 10"]
  by (auto simp: sample_task_def sample_plan_def valid_topology_config_def)

subsection \<open>Manual assignment\<close>

text \<open>A valid CREATED task has no assignee, so the manual strategy always refuses it, although the status is assignable.\<close>

lemma manual_never_assigns_created:
  "valid_task isofmt (r_task r) \<Longrightarrow> t_status (r_task r) = CREATED \<Longrightarrow> manual_assign r = Inl NoDesignatedAgent"
  by (simp add: manual_assign_def find_designated_agent_def valid_task_def)

end
