(* ===== verification/Approvals.thy ===== *)
theory Approvals
  imports Python_Text
begin

text \<open>
  Human approvals. The approval item with its validators (\<^verbatim>\<open>core/approval.py\<close>), the SQLite repository
  (\<^verbatim>\<open>persistence/sqlite/approval_repo.py\<close>) as a table of decoded rows, and the approval store
  (\<^verbatim>\<open>api/approval_store.py\<close>): a cache in front of an optional repository, with lazy expiration.

  Every operation but \<open>save\<close> holds the store's lock from beginning to end and is one function; \<open>save\<close>
  gives the lock back while the repository writes and is split into \<open>save_begin\<close>, \<open>save_commit\<close> and
  \<open>save_finish\<close>, so that interleavings are sequences of these. What the database does to a call (a
  failed read, a refused or failed write, a cancellation with or without the commit) is an argument.
  Datetimes are exact rationals; the expiry callback is not modelled.
\<close>

subsection \<open>Items\<close>

datatype ApprovalStatus = PENDING | APPROVED | REJECTED | EXPIRED

datatype ApprovalRiskLevel = RISK_LOW | RISK_MEDIUM | RISK_HIGH | RISK_CRITICAL

record ApprovalItem =
  ap_id :: string
  ap_action_type :: string
  ap_title :: string
  ap_description :: string
  ap_requested_by :: string
  ap_risk_level :: ApprovalRiskLevel
  ap_status :: ApprovalStatus
  ap_created_at :: time
  ap_expires_at :: "time option"
  ap_decided_at :: "time option"
  ap_decided_by :: "string option"
  ap_decision_reason :: "string option"
  ap_task_id :: "string option"
  ap_evidence_package :: "string option"
  ap_metadata :: "(string, string) dict"

definition item_fields :: "ApprovalItem \<Rightarrow> bool" where
  "item_fields i \<longleftrightarrow> not_blank (ap_id i) \<and> not_blank (ap_action_type i) \<and> not_blank (ap_title i) \<and>
     not_blank (ap_description i) \<and> not_blank (ap_requested_by i) \<and> opt_not_blank (ap_decided_by i) \<and>
     opt_not_blank (ap_decision_reason i) \<and> opt_not_blank (ap_task_id i)"

datatype item_error = FieldError | DecisionFieldsMissing | RejectionReasonMissing | DecisionFieldsSet | ExpiryNotAfterCreation

definition validate_decision_fields :: "ApprovalItem \<Rightarrow> item_error option" where
  "validate_decision_fields i =
     (if ap_status i \<in> {APPROVED, REJECTED} then
        if ap_decided_at i = None \<or> ap_decided_by i = None then Some DecisionFieldsMissing
        else if ap_status i = REJECTED \<and> (ap_decision_reason i = None \<or> ap_decision_reason i = Some []) then Some RejectionReasonMissing
        else None
      else if ap_decided_at i \<noteq> None \<or> ap_decided_by i \<noteq> None then Some DecisionFieldsSet
      else None)"

definition validate_expiry :: "ApprovalItem \<Rightarrow> item_error option" where
  "validate_expiry i =
     (case ap_expires_at i of None \<Rightarrow> None | Some e \<Rightarrow> if e \<le> ap_created_at i then Some ExpiryNotAfterCreation else None)"

definition item_check :: "ApprovalItem \<Rightarrow> item_error option" where
  "item_check i =
     (if \<not> item_fields i then Some FieldError
      else case validate_decision_fields i of Some e \<Rightarrow> Some e | None \<Rightarrow> validate_expiry i)"

definition valid_item :: "ApprovalItem \<Rightarrow> bool" where
  "valid_item i \<longleftrightarrow> item_check i = None"

subsection \<open>The repository\<close>

datatype store_error = ConflictError | ConstraintViolationError | QueryError | CancelledError

text \<open>What becomes of one write: it lands, fails with an error, or is cancelled before or after the commit.\<close>

datatype write_outcome = Written | Refused | Failed | Cancelled bool

type_synonym approval_table = "(string, ApprovalItem) dict"

text \<open>The upsert keeps the \<open>created_at\<close> of a row that exists already.\<close>

definition approval_upsert :: "ApprovalItem \<Rightarrow> approval_table \<Rightarrow> approval_table" where
  "approval_upsert i tbl =
     dput (ap_id i) (case dget tbl (ap_id i) of None \<Rightarrow> i | Some old \<Rightarrow> i\<lparr>ap_created_at := ap_created_at old\<rparr>) tbl"

definition approval_save :: "write_outcome \<Rightarrow> ApprovalItem \<Rightarrow> approval_table \<Rightarrow> (store_error + unit) \<times> approval_table" where
  "approval_save w i tbl =
     (case w of
        Written \<Rightarrow> (Inr (), approval_upsert i tbl)
      | Refused \<Rightarrow> (Inl ConstraintViolationError, tbl)
      | Failed \<Rightarrow> (Inl QueryError, tbl)
      | Cancelled landed \<Rightarrow> (Inl CancelledError, if landed then approval_upsert i tbl else tbl))"

definition approval_get :: "bool \<Rightarrow> string \<Rightarrow> approval_table \<Rightarrow> store_error + ApprovalItem option" where
  "approval_get fault k tbl =
     (if fault then Inl QueryError
      else case dget tbl k of
             None \<Rightarrow> Inr None
           | Some i \<Rightarrow> if valid_item i then Inr (Some i) else Inl QueryError)"

definition approval_matches ::
  "ApprovalStatus option \<Rightarrow> ApprovalRiskLevel option \<Rightarrow> string option \<Rightarrow> ApprovalItem \<Rightarrow> bool" where
  "approval_matches st rl act i \<longleftrightarrow>
     (case st of None \<Rightarrow> True | Some s \<Rightarrow> ap_status i = s) \<and>
     (case rl of None \<Rightarrow> True | Some r \<Rightarrow> ap_risk_level i = r) \<and>
     (case act of None \<Rightarrow> True | Some a \<Rightarrow> ap_action_type i = a)"

definition approval_list ::
  "bool \<Rightarrow> ApprovalStatus option \<Rightarrow> ApprovalRiskLevel option \<Rightarrow> string option \<Rightarrow> approval_table \<Rightarrow> store_error + ApprovalItem list" where
  "approval_list fault st rl act tbl =
     (let rows = sort_key (\<lambda>i. - ap_created_at i) (filter (approval_matches st rl act) (List.map snd tbl)) in
      if fault \<or> list_ex (\<lambda>i. \<not> valid_item i) rows then Inl QueryError else Inr rows)"

subsection \<open>The store\<close>

record approval_store =
  items :: approval_table
  approval_repo :: "approval_table option"
  saves_in_flight :: "string set"

text \<open>The faults of one call: of its read, of the expiry write per item, and of its own write.\<close>

record store_env =
  read_fault :: bool
  expiry_write :: "string \<Rightarrow> write_outcome"
  item_write :: write_outcome

definition repo_write :: "write_outcome \<Rightarrow> ApprovalItem \<Rightarrow> approval_store \<Rightarrow> (store_error + unit) \<times> approval_store" where
  "repo_write w i s =
     (case approval_repo s of
        None \<Rightarrow> (Inr (), s)
      | Some tbl \<Rightarrow> (case approval_save w i tbl of (r, tbl') \<Rightarrow> (r, s\<lparr>approval_repo := Some tbl'\<rparr>)))"

definition cache_put :: "ApprovalItem \<Rightarrow> approval_store \<Rightarrow> approval_store" where
  "cache_put i s = s\<lparr>items := dput (ap_id i) i (items s)\<rparr>"

text \<open>Cache lookup with a fall-through to the repository that fills the cache.\<close>

definition load_item :: "bool \<Rightarrow> string \<Rightarrow> approval_store \<Rightarrow> (store_error + ApprovalItem option) \<times> approval_store" where
  "load_item fault k s =
     (case dget (items s) k of
        Some i \<Rightarrow> (Inr (Some i), s)
      | None \<Rightarrow>
         (case approval_repo s of
            None \<Rightarrow> (Inr None, s)
          | Some tbl \<Rightarrow>
             (case approval_get fault k tbl of
                Inl e \<Rightarrow> (Inl e, s)
              | Inr None \<Rightarrow> (Inr None, s)
              | Inr (Some i) \<Rightarrow> (Inr (Some i), cache_put i s))))"

definition has_expired :: "time \<Rightarrow> ApprovalItem \<Rightarrow> bool" where
  "has_expired now i \<longleftrightarrow> ap_status i = PENDING \<and> (case ap_expires_at i of None \<Rightarrow> False | Some e \<Rightarrow> now \<ge> e)"

definition check_expiration_locked ::
  "time \<Rightarrow> write_outcome \<Rightarrow> ApprovalItem \<Rightarrow> approval_store \<Rightarrow> (store_error + ApprovalItem) \<times> approval_store" where
  "check_expiration_locked now w i s =
     (if has_expired now i then
        (let expired = i\<lparr>ap_status := EXPIRED\<rparr> in
         case repo_write w expired s of
           (Inl e, s') \<Rightarrow> (Inl e, s')
         | (Inr _, s') \<Rightarrow> (Inr expired, cache_put expired s'))
      else (Inr i, s))"

definition store_add :: "store_env \<Rightarrow> ApprovalItem \<Rightarrow> approval_store \<Rightarrow> (store_error + unit) \<times> approval_store" where
  "store_add env i s =
     (if dget (items s) (ap_id i) \<noteq> None then (Inl ConflictError, s)
      else case approval_repo s of
             None \<Rightarrow> (Inr (), cache_put i s)
           | Some tbl \<Rightarrow>
              (case approval_get (read_fault env) (ap_id i) tbl of
                 Inl e \<Rightarrow> (Inl e, s)
               | Inr (Some existing) \<Rightarrow> (Inl ConflictError, cache_put existing s)
               | Inr None \<Rightarrow>
                  (case repo_write (item_write env) i s of
                     (Inl e, s') \<Rightarrow> (Inl (if e = ConstraintViolationError then ConflictError else e), s')
                   | (Inr _, s') \<Rightarrow> (Inr (), cache_put i s'))))"

definition store_get :: "store_env \<Rightarrow> time \<Rightarrow> string \<Rightarrow> approval_store \<Rightarrow> (store_error + ApprovalItem option) \<times> approval_store" where
  "store_get env now k s =
     (case load_item (read_fault env) k s of
        (Inl e, s') \<Rightarrow> (Inl e, s')
      | (Inr None, s') \<Rightarrow> (Inr None, s')
      | (Inr (Some i), s') \<Rightarrow>
          (case check_expiration_locked now (expiry_write env k) i s' of
             (Inl e, s'') \<Rightarrow> (Inl e, s'')
           | (Inr j, s'') \<Rightarrow> (Inr (Some j), s'')))"

text \<open>Expiration of the listed items, one after the other; the first error ends the call.\<close>

fun check_all :: "store_env \<Rightarrow> time \<Rightarrow> ApprovalItem list \<Rightarrow> approval_store \<Rightarrow> (store_error + ApprovalItem list) \<times> approval_store" where
  "check_all env now [] s = (Inr [], s)"
| "check_all env now (i # is) s =
     (case check_expiration_locked now (expiry_write env (ap_id i)) i s of
        (Inl e, s') \<Rightarrow> (Inl e, s')
      | (Inr j, s') \<Rightarrow>
          (case check_all env now is s' of
             (Inl e, s'') \<Rightarrow> (Inl e, s'')
           | (Inr js, s'') \<Rightarrow> (Inr (j # js), s'')))"

definition store_list_items ::
  "store_env \<Rightarrow> time \<Rightarrow> ApprovalStatus option \<Rightarrow> ApprovalRiskLevel option \<Rightarrow> string option \<Rightarrow> approval_store
   \<Rightarrow> (store_error + ApprovalItem list) \<times> approval_store" where
  "store_list_items env now st rl act s =
     (case approval_repo s of
        Some tbl \<Rightarrow>
          (case approval_list (read_fault env) st rl act tbl of
             Inl e \<Rightarrow> (Inl e, s)
           | Inr rows \<Rightarrow>
              (case check_all env now rows (fold cache_put rows s) of
                 (Inl e, s') \<Rightarrow> (Inl e, s')
               | (Inr js, s') \<Rightarrow> (Inr (filter (approval_matches st rl None) js), s')))
      | None \<Rightarrow>
          (case check_all env now (List.map snd (items s)) s of
             (Inl e, s') \<Rightarrow> (Inl e, s')
           | (Inr js, s') \<Rightarrow> (Inr (filter (approval_matches st rl act) js), s')))"

definition save_if_pending ::
  "store_env \<Rightarrow> time \<Rightarrow> ApprovalItem \<Rightarrow> approval_store \<Rightarrow> (store_error + ApprovalItem option) \<times> approval_store" where
  "save_if_pending env now i s =
     (if ap_id i \<in> saves_in_flight s then (Inr None, s)
      else case load_item (read_fault env) (ap_id i) s of
             (Inl e, s1) \<Rightarrow> (Inl e, s1)
           | (Inr None, s1) \<Rightarrow> (Inr None, s1)
           | (Inr (Some cur), s1) \<Rightarrow>
               (case check_expiration_locked now (expiry_write env (ap_id i)) cur s1 of
                  (Inl e, s2) \<Rightarrow> (Inl e, s2)
                | (Inr cur', s2) \<Rightarrow>
                    if ap_status cur' \<noteq> PENDING then (Inr None, s2)
                    else case repo_write (item_write env) i s2 of
                           (Inl e, s3) \<Rightarrow> (Inl e, if e = CancelledError then s3\<lparr>items := dpop (ap_id i) (items s3)\<rparr> else s3)
                         | (Inr _, s3) \<Rightarrow> (Inr (Some i), cache_put i s3)))"

subsubsection \<open>The three parts of \<open>save\<close>\<close>

text \<open>Under the lock: \<open>Inr True\<close> when the slot was claimed, \<open>Inr False\<close> when the call returns \<open>None\<close>.\<close>

definition save_begin :: "store_env \<Rightarrow> ApprovalItem \<Rightarrow> approval_store \<Rightarrow> (store_error + bool) \<times> approval_store" where
  "save_begin env i s =
     (case load_item (read_fault env) (ap_id i) s of
        (Inl e, s1) \<Rightarrow> (Inl e, s1)
      | (Inr None, s1) \<Rightarrow> (Inr False, s1)
      | (Inr (Some _), s1) \<Rightarrow>
          if ap_id i \<in> saves_in_flight s1 then (Inr False, s1)
          else (Inr True, s1\<lparr>saves_in_flight := insert (ap_id i) (saves_in_flight s1)\<rparr>))"

text \<open>Without the lock: the repository write. An error skips \<open>save_finish\<close> and frees the slot.\<close>

definition save_commit :: "store_env \<Rightarrow> ApprovalItem \<Rightarrow> approval_store \<Rightarrow> (store_error + unit) \<times> approval_store" where
  "save_commit env i s =
     (case repo_write (item_write env) i s of
        (Inl e, s') \<Rightarrow>
          (Inl e, s'\<lparr>items := (if e = CancelledError then dpop (ap_id i) (items s') else items s'),
                     saves_in_flight := saves_in_flight s' - {ap_id i}\<rparr>)
      | (Inr _, s') \<Rightarrow> (Inr (), s'))"

definition save_finish :: "ApprovalItem \<Rightarrow> approval_store \<Rightarrow> approval_store" where
  "save_finish i s = (cache_put i s)\<lparr>saves_in_flight := saves_in_flight s - {ap_id i}\<rparr>"

text \<open>A whole call of \<open>save\<close> that nothing interrupts.\<close>

definition store_save :: "store_env \<Rightarrow> ApprovalItem \<Rightarrow> approval_store \<Rightarrow> (store_error + ApprovalItem option) \<times> approval_store" where
  "store_save env i s =
     (case save_begin env i s of
        (Inl e, s1) \<Rightarrow> (Inl e, s1)
      | (Inr False, s1) \<Rightarrow> (Inr None, s1)
      | (Inr True, s1) \<Rightarrow>
          (case save_commit env i s1 of
             (Inl e, s2) \<Rightarrow> (Inl e, s2)
           | (Inr _, s2) \<Rightarrow> (Inr (Some i), save_finish i s2)))"

definition new_store :: "approval_table option \<Rightarrow> approval_store" where
  "new_store r = \<lparr>items = [], approval_repo = r, saves_in_flight = {}\<rparr>"

subsection \<open>The cache and the repository\<close>

definition in_step :: "time \<Rightarrow> ApprovalItem \<Rightarrow> ApprovalItem \<Rightarrow> bool" where
  "in_step now c r \<longleftrightarrow> (\<exists>x. r = c\<lparr>ap_created_at := x\<rparr>) \<or>
     has_expired now c \<and> (\<exists>x. r = c\<lparr>ap_status := EXPIRED, ap_created_at := x\<rparr>)"

definition keyed :: "approval_table \<Rightarrow> bool" where
  "keyed tbl \<longleftrightarrow> distinct (dkeys tbl) \<and> (\<forall>k i. dget tbl k = Some i \<longrightarrow> ap_id i = k)"

definition store_inv :: "time \<Rightarrow> approval_store \<Rightarrow> bool" where
  "store_inv now s \<longleftrightarrow> keyed (items s) \<and>
     (case approval_repo s of
        None \<Rightarrow> True
      | Some tbl \<Rightarrow> keyed tbl \<and>
          (\<forall>k c. dget (items s) k = Some c \<longrightarrow> (\<exists>r. dget tbl k = Some r \<and> in_step now c r)))"

text \<open>The item as a restart would find it.\<close>

definition durable :: "approval_store \<Rightarrow> string \<Rightarrow> ApprovalItem option" where
  "durable s k = (case approval_repo s of None \<Rightarrow> dget (items s) k | Some tbl \<Rightarrow> dget tbl k)"

definition keeps_decisions :: "approval_store \<Rightarrow> approval_store \<Rightarrow> bool" where
  "keeps_decisions s s' \<longleftrightarrow> (\<forall>k r. durable s k = Some r \<longrightarrow> ap_status r \<noteq> PENDING \<longrightarrow> durable s' k = Some r)"

lemma keeps_refl [simp]: "keeps_decisions s s"
  by (simp add: keeps_decisions_def)

lemma keeps_trans: "keeps_decisions s s' \<Longrightarrow> keeps_decisions s' s'' \<Longrightarrow> keeps_decisions s s''"
  by (auto simp: keeps_decisions_def)

lemma has_expired_mono: "has_expired t i \<Longrightarrow> t \<le> t' \<Longrightarrow> has_expired t' i"
  by (auto simp: has_expired_def split: option.splits)

lemma in_step_refl [simp]: "in_step now i i" "in_step now i (i\<lparr>ap_created_at := x\<rparr>)"
  by (auto simp: in_step_def intro: exI [of _ "ap_created_at i"])

lemma in_step_mono: "in_step t c r \<Longrightarrow> t \<le> t' \<Longrightarrow> in_step t' c r"
  by (auto simp: in_step_def intro: has_expired_mono)

lemma store_inv_mono: "store_inv t s \<Longrightarrow> t \<le> t' \<Longrightarrow> store_inv t' s"
  by (fastforce simp: store_inv_def intro: in_step_mono split: option.splits)

lemma keyed_put [simp]: "keyed tbl \<Longrightarrow> ap_id i = k \<Longrightarrow> keyed (dput k i tbl)"
  by (simp add: keyed_def)

lemma keyed_pop [simp]: "keyed tbl \<Longrightarrow> keyed (dpop k tbl)"
  by (simp add: keyed_def)

lemma keyed_upsert [simp]: "keyed tbl \<Longrightarrow> keyed (approval_upsert i tbl)"
  by (auto simp: approval_upsert_def split: option.splits)

lemma keyed_values: "keyed tbl \<Longrightarrow> i \<in> set (List.map snd tbl) \<Longrightarrow> dget tbl (ap_id i) = Some i"
proof -
  assume k: "keyed tbl" and "i \<in> set (List.map snd tbl)"
  then obtain a where "(a, i) \<in> set tbl" by auto
  then have "dget tbl a = Some i" using k by (simp add: keyed_def map_of_is_SomeI)
  then show "dget tbl (ap_id i) = Some i" using k by (auto simp: keyed_def)
qed

lemma distinct_ids: "keyed tbl \<Longrightarrow> distinct (List.map ap_id (filter P (List.map snd tbl)))"
proof -
  assume "keyed tbl"
  then have "List.map ap_id (List.map snd tbl) = dkeys tbl" "distinct (dkeys tbl)"
    by (auto simp: keyed_def map_of_is_SomeI)
  then show ?thesis by (metis distinct_map_filter)
qed

lemma dget_upsert:
  "dget (approval_upsert i tbl) k =
     (if k = ap_id i then Some (case dget tbl k of None \<Rightarrow> i | Some old \<Rightarrow> i\<lparr>ap_created_at := ap_created_at old\<rparr>) else dget tbl k)"
  by (simp add: approval_upsert_def)

lemma not_expired_in_step: "in_step now c r \<Longrightarrow> \<not> has_expired now c \<Longrightarrow> ap_status r = ap_status c"
  by (auto simp add: in_step_def)

lemma store_inv_cached:
  assumes "store_inv now s" and "dget (items s) k = Some c"
  shows "ap_id c = k" "\<exists>r. durable s k = Some r \<and> in_step now c r"
  using assms by (auto simp: store_inv_def keyed_def durable_def split: option.splits)

lemma repo_write_shape:
  assumes "repo_write w i s = (r, s')"
  shows "items s' = items s \<and> saves_in_flight s' = saves_in_flight s"
  using assms by (auto simp: repo_write_def split: option.splits prod.splits)

lemma repo_write_durable:
  assumes "repo_write w i s = (r, s')" and "approval_repo s = Some tbl"
  shows "approval_repo s' = Some tbl \<or> approval_repo s' = Some (approval_upsert i tbl)"
    and "r = Inr () \<Longrightarrow> approval_repo s' = Some (approval_upsert i tbl)"
  using assms by (auto simp: repo_write_def approval_save_def split: write_outcome.splits if_splits)

lemma repo_write_None: "approval_repo s = None \<Longrightarrow> repo_write w i s = (r, s') \<longleftrightarrow> r = Inr () \<and> s' = s"
  by (auto simp: repo_write_def)

lemma repo_write_Inl: "repo_write w i s = (Inl e, s') \<Longrightarrow> \<exists>tbl. approval_repo s' = Some tbl"
  by (auto simp: repo_write_def split: option.splits prod.splits)

lemma durable_pop: "approval_repo s = Some tbl \<Longrightarrow> durable (s\<lparr>items := c\<rparr>) = durable s"
  by (simp add: durable_def fun_eq_iff)

lemma keeps_durable: "durable s' = durable s \<Longrightarrow> keeps_decisions s s'"
  by (simp add: keeps_decisions_def)

lemma load_item_inv:
  assumes "store_inv now s" and "load_item f k s = (r, s')"
  shows "store_inv now s' \<and> durable s' = durable s \<and>
    (\<forall>i. r = Inr (Some i) \<longrightarrow> dget (items s') k = Some i)"
  using assms
  by (auto simp: load_item_def store_inv_def keyed_def durable_def fun_eq_iff cache_put_def approval_get_def
      split: option.splits sum.splits if_splits)

text \<open>Writing an expired or decided version over an item in step with its row.\<close>

lemma write_cached_inv:
  assumes inv: "store_inv now s" and c: "dget (items s) (ap_id i) = Some c"
    and pend: "ap_status c = PENDING" and new: "has_expired now c \<and> i = c\<lparr>ap_status := EXPIRED\<rparr> \<or> \<not> has_expired now c"
    and w: "repo_write w i s = (r, s')"
  shows "keeps_decisions s s' \<and> (approval_repo s \<noteq> None \<longrightarrow> has_expired now c \<longrightarrow> store_inv now s') \<and>
     (r \<noteq> Inl CancelledError \<longrightarrow> r \<noteq> Inr () \<longrightarrow> s' = s) \<and>
     store_inv now (s'\<lparr>items := dpop (ap_id i) (items s')\<rparr>) \<and>
     (r = Inr () \<longrightarrow> store_inv now (cache_put i s') \<and> keeps_decisions s (cache_put i s'))"
proof (cases "approval_repo s")
  case None
  with w have r: "r = Inr ()" "s' = s" by (simp_all add: repo_write_None)
  show ?thesis using inv c pend None unfolding r
    by (auto simp: store_inv_def keeps_decisions_def durable_def cache_put_def)
next
  case (Some tbl)
  obtain row where row: "dget tbl (ap_id i) = Some row" "in_step now c row"
    using inv c Some by (auto simp: store_inv_def)
  have same: "i\<lparr>ap_created_at := ap_created_at row\<rparr> = row" if "ap_status row \<noteq> PENDING"
    using that new pend row(2) by (auto simp: in_step_def)
  have kept: "dget (approval_upsert i tbl) k = Some q" if "dget tbl k = Some q" "ap_status q \<noteq> PENDING" for k q
    using that row same by (auto simp: dget_upsert)
  have up: "store_inv now (s\<lparr>items := items', approval_repo := Some (approval_upsert i tbl)\<rparr>)"
    if "keyed items'" "\<And>k d. dget items' k = Some d \<Longrightarrow> k \<noteq> ap_id i \<Longrightarrow> dget (items s) k = Some d"
      "\<And>d. dget items' (ap_id i) = Some d \<Longrightarrow> in_step now d (i\<lparr>ap_created_at := ap_created_at row\<rparr>)" for items'
    using inv that Some row(1) by (fastforce simp: store_inv_def dget_upsert)
  have shape: "items s' = items s" using repo_write_shape [OF w] by simp
  consider "s' = s" "r \<noteq> Inr ()" | "s' = s\<lparr>approval_repo := Some (approval_upsert i tbl)\<rparr>" "r = Inr () \<or> r = Inl CancelledError"
    using w Some by (auto simp: repo_write_def approval_save_def split: write_outcome.splits if_splits)
  then show ?thesis
  proof cases
    case 1
    then show ?thesis using inv Some by (auto simp: store_inv_def)
  next
    case 2
    have "has_expired now c \<Longrightarrow> store_inv now s'"
      using up [of "items s"] inv c new unfolding 2(1) by (fastforce simp: store_inv_def in_step_def)
    moreover have "store_inv now (s'\<lparr>items := dpop (ap_id i) (items s')\<rparr>)"
      using up [of "dpop (ap_id i) (items s)"] inv unfolding 2(1) by (simp add: store_inv_def)
    moreover have "store_inv now (cache_put i s')"
      using up [of "dput (ap_id i) i (items s)"] inv unfolding 2(1) cache_put_def by (simp add: store_inv_def)
    ultimately show ?thesis using 2 kept Some by (auto simp: keeps_decisions_def durable_def cache_put_def)
  qed
qed

lemma check_expiration_inv:
  assumes inv: "store_inv now s" and c: "dget (items s) (ap_id i) = Some i"
    and ch: "check_expiration_locked now w i s = (r, s')"
  shows "store_inv now s' \<and> keeps_decisions s s' \<and> (approval_repo s' = None \<longleftrightarrow> approval_repo s = None) \<and>
    (\<forall>k. k \<noteq> ap_id i \<longrightarrow> dget (items s') k = dget (items s) k) \<and>
    (\<forall>j. r = Inr j \<longrightarrow> dget (items s') (ap_id i) = Some j \<and> \<not> has_expired now j \<and> ap_id j = ap_id i)"
proof (cases "has_expired now i")
  case False
  then show ?thesis using inv c ch by (auto simp: check_expiration_locked_def Let_def)
next
  case True
  let ?e = "i\<lparr>ap_status := EXPIRED\<rparr>"
  obtain q s1 where w: "repo_write w ?e s = (q, s1)" by (rule prod.exhaust)
  have P: "ap_status i = PENDING" using True by (simp add: has_expired_def)
  note wc = write_cached_inv [OF inv _ P _ w, simplified, OF c] True
  have sh: "items s1 = items s" "approval_repo s1 = None \<longleftrightarrow> approval_repo s = None"
    using w repo_write_shape [OF w] by (auto simp: repo_write_def split: option.splits prod.splits)
  show ?thesis
  proof (cases q)
    case (Inl e)
    then have "approval_repo s \<noteq> None" using w by (cases "approval_repo s") (auto simp: repo_write_None)
    then show ?thesis using wc ch w True Inl sh by (auto simp: check_expiration_locked_def Let_def)
  next
    case (Inr u)
    then show ?thesis using wc ch w True sh
      by (auto simp: check_expiration_locked_def Let_def cache_put_def has_expired_def)
  qed
qed

lemma check_all_inv:
  assumes "store_inv now s" and "\<forall>i \<in> set is. dget (items s) (ap_id i) = Some i" and "distinct (List.map ap_id is)"
    and "check_all env now is s = (r, s')"
  shows "store_inv now s' \<and> keeps_decisions s s'"
  using assms
proof (induction "is" arbitrary: s r s')
  case (Cons i "is")
  obtain q s1 where q: "check_expiration_locked now (expiry_write env (ap_id i)) i s = (q, s1)" by (rule prod.exhaust)
  have c: "store_inv now s1" "keeps_decisions s s1" "\<forall>k. k \<noteq> ap_id i \<longrightarrow> dget (items s1) k = dget (items s) k"
    using check_expiration_inv [OF Cons.prems(1) _ q] Cons.prems(2) by auto
  show ?case
  proof (cases q)
    case (Inl e)
    then show ?thesis using Cons.prems(4) q c by simp
  next
    case (Inr j)
    obtain q2 s2 where q2: "check_all env now is s1 = (q2, s2)" by (rule prod.exhaust)
    have keep: "\<forall>k \<in> set is. dget (items s1) (ap_id k) = Some k" using Cons.prems(2,3) c(3) by (auto simp: image_iff)
    have "store_inv now s2 \<and> keeps_decisions s1 s2"
      using Cons.IH [OF c(1) keep _ q2] Cons.prems(3) by simp
    moreover have "s' = s2" using Cons.prems(4) q q2 Inr by (auto split: sum.splits)
    ultimately show ?thesis using c keeps_trans by blast
  qed
qed simp

lemma fill_cache_inv:
  assumes "store_inv now s" and "approval_repo s = Some tbl" and "\<forall>i \<in> set rows. dget tbl (ap_id i) = Some i"
  shows "store_inv now (fold cache_put rows s) \<and> approval_repo (fold cache_put rows s) = Some tbl \<and>
    (distinct (List.map ap_id rows) \<longrightarrow> (\<forall>i \<in> set rows. dget (items (fold cache_put rows s)) (ap_id i) = Some i)) \<and>
    (\<forall>k. k \<notin> ap_id ` set rows \<longrightarrow> dget (items (fold cache_put rows s)) k = dget (items s) k)"
  using assms
proof (induction rows arbitrary: s)
  case (Cons i rows)
  have "store_inv now (cache_put i s)" "approval_repo (cache_put i s) = Some tbl"
    using Cons.prems by (auto simp: store_inv_def cache_put_def)
  from Cons.IH [OF this] Cons.prems(3) show ?case by (auto simp: cache_put_def)
qed simp

subsection \<open>Runs\<close>

datatype approval_op =
    Add ApprovalItem
  | Get string
  | ListItems "ApprovalStatus option" "ApprovalRiskLevel option" "string option"
  | Decide ApprovalItem
  | Save ApprovalItem

fun approval_step :: "time \<times> store_env \<times> approval_op \<Rightarrow> approval_store \<Rightarrow> approval_store" where
  "approval_step (now, env, Add i) s = snd (store_add env i s)"
| "approval_step (now, env, Get k) s = snd (store_get env now k s)"
| "approval_step (now, env, ListItems st rl act) s = snd (store_list_items env now st rl act s)"
| "approval_step (now, env, Decide i) s = snd (save_if_pending env now i s)"
| "approval_step (now, env, Save i) s = snd (store_save env i s)"

lemma store_add_inv:
  assumes inv: "store_inv now s"
  shows "store_inv now (snd (store_add env i s)) \<and> keeps_decisions s (snd (store_add env i s))"
proof (cases "dget (items s) (ap_id i)")
  case None
  note fresh = None
  show ?thesis
  proof (cases "approval_repo s")
    case None
    then show ?thesis using inv fresh
      by (auto simp: store_add_def store_inv_def cache_put_def keeps_decisions_def durable_def)
  next
    case (Some tbl)
    show ?thesis
    proof (cases "dget tbl (ap_id i)")
      case None
      then show ?thesis
        using inv fresh Some
        by (auto simp: store_add_def store_inv_def cache_put_def keeps_decisions_def durable_def approval_get_def
            repo_write_def approval_save_def dget_upsert split: write_outcome.splits)
    next
      case (Some j)
      then have "ap_id j = ap_id i" using inv \<open>approval_repo s = Some tbl\<close> by (auto simp: store_inv_def keyed_def)
      then show ?thesis
        using inv fresh Some \<open>approval_repo s = Some tbl\<close>
        by (auto simp: store_add_def store_inv_def cache_put_def keeps_decisions_def durable_def approval_get_def)
    qed
  qed
qed (use inv in \<open>simp add: store_add_def\<close>)

text \<open>What a client that files items relies on: an accepted item is new, found afterwards, and disturbs no other.\<close>

locale approval_sink =
  fixes add :: "'e \<Rightarrow> ApprovalItem \<Rightarrow> 's \<Rightarrow> (store_error + unit) \<times> 's" and find_item :: "'s \<Rightarrow> string \<Rightarrow> ApprovalItem option"
  assumes add_fresh: "add env i s = (Inr (), s') \<Longrightarrow> find_item s (ap_id i) = None"
    and add_found: "add env i s = (Inr (), s') \<Longrightarrow> find_item s' (ap_id i) = Some i"
    and add_others: "add env i s = (Inr (), s') \<Longrightarrow> k \<noteq> ap_id i \<Longrightarrow> find_item s' k = find_item s k"
begin

lemma add_twice:
  assumes "add e1 i s = (Inr (), s1)" and "add e2 j s1 = (Inr (), s2)"
  shows "ap_id i \<noteq> ap_id j \<and> find_item s2 (ap_id i) = Some i"
proof -
  have "ap_id i \<noteq> ap_id j" using add_fresh [OF assms(2)] add_found [OF assms(1)] by auto
  then show ?thesis using add_found [OF assms(1)] add_others [OF assms(2), of "ap_id i"] by simp
qed

end

interpretation store: approval_sink store_add durable
  by unfold_locales
    (auto simp: store_add_def durable_def cache_put_def approval_get_def repo_write_def approval_save_def approval_upsert_def
      split: option.splits if_splits sum.splits prod.splits write_outcome.splits)

lemma store_get_inv:
  assumes inv: "store_inv now s" and g: "store_get env now k s = (r, s')"
  shows "store_inv now s' \<and> keeps_decisions s s' \<and>
    (\<forall>j. r = Inr (Some j) \<longrightarrow> dget (items s') k = Some j \<and> \<not> has_expired now j)"
proof -
  obtain q s1 where l: "load_item (read_fault env) k s = (q, s1)" by (rule prod.exhaust)
  note li = load_item_inv [OF inv l]
  show ?thesis
  proof (cases "\<exists>i. q = Inr (Some i)")
    case True
    then obtain i where i: "q = Inr (Some i)" by blast
    obtain q2 s2 where c: "check_expiration_locked now (expiry_write env k) i s1 = (q2, s2)" by (rule prod.exhaust)
    have k: "ap_id i = k" "dget (items s1) (ap_id i) = Some i" using li i store_inv_cached(1) by auto
    from check_expiration_inv [OF _ k(2) c] li show ?thesis
      using g l c i k(1) keeps_durable [of s1 s] by (auto simp: store_get_def intro: keeps_trans split: sum.splits)
  next
    case False
    then show ?thesis using g l li keeps_durable [of s1 s] by (auto simp: store_get_def split: sum.splits option.splits)
  qed
qed

lemma store_list_inv:
  assumes inv: "store_inv now s"
  shows "store_inv now (snd (store_list_items env now st rl act s)) \<and> keeps_decisions s (snd (store_list_items env now st rl act s))"
proof (cases "approval_repo s")
  case None
  obtain r s' where c: "check_all env now (List.map snd (items s)) s = (r, s')" by (rule prod.exhaust)
  have key: "keyed (items s)" using inv by (simp add: store_inv_def)
  have ids: "List.map ap_id (List.map snd (items s)) = dkeys (items s)"
    using key by (auto simp: keyed_def map_of_is_SomeI)
  have "store_inv now s' \<and> keeps_decisions s s'"
    by (rule check_all_inv [OF inv _ _ c]) (use key keyed_values in \<open>auto simp: keyed_def ids simp del: map_map\<close>)
  then show ?thesis using None c by (auto simp: store_list_items_def split: sum.splits)
next
  case (Some tbl)
  show ?thesis
  proof (cases "approval_list (read_fault env) st rl act tbl")
    case (Inl e)
    then show ?thesis using inv Some by (simp add: store_list_items_def)
  next
    case (Inr rows)
    have key: "keyed tbl" using inv Some by (simp add: store_inv_def)
    have rows: "set rows \<subseteq> set (List.map snd tbl)" "distinct (List.map ap_id rows)"
      using Inr distinct_ids [OF key]
      by (auto simp: approval_list_def Let_def distinct_map inj_on_def split: if_splits)
    have vals: "\<forall>i \<in> set rows. dget tbl (ap_id i) = Some i" using rows(1) key keyed_values by blast
    note f = fill_cache_inv [OF inv Some vals]
    obtain r s' where c: "check_all env now rows (fold cache_put rows s) = (r, s')" by (rule prod.exhaust)
    have "store_inv now s' \<and> keeps_decisions (fold cache_put rows s) s'"
      using check_all_inv [OF _ _ rows(2) c] f rows(2) by blast
    moreover have "keeps_decisions s (fold cache_put rows s)" using f Some by (simp add: keeps_decisions_def durable_def)
    ultimately show ?thesis using Some Inr c keeps_trans by (auto simp: store_list_items_def split: sum.splits)
  qed
qed

lemma save_if_pending_inv:
  assumes inv: "store_inv now s" and g: "save_if_pending env now i s = (r, s')"
  shows "store_inv now s' \<and> keeps_decisions s s' \<and>
    (r = Inr (Some i) \<longrightarrow> (\<exists>c. durable s (ap_id i) = Some c \<and> ap_status c = PENDING))"
proof (cases "ap_id i \<in> saves_in_flight s")
  case False
  obtain q s1 where l: "load_item (read_fault env) (ap_id i) s = (q, s1)" by (rule prod.exhaust)
  note li = load_item_inv [OF inv l]
  show ?thesis
  proof (cases "\<exists>c. q = Inr (Some c)")
    case True
    then obtain c where c: "q = Inr (Some c)" by blast
    have k: "ap_id c = ap_id i" "dget (items s1) (ap_id c) = Some c" using li c store_inv_cached(1) by auto
    obtain q2 s2 where ch: "check_expiration_locked now (expiry_write env (ap_id i)) c s1 = (q2, s2)" by (rule prod.exhaust)
    note ci = check_expiration_inv [OF conjunct1 [OF li] k(2) ch]
    have s2: "store_inv now s2" "keeps_decisions s s2" using ci li keeps_trans keeps_durable by blast+
    show ?thesis
    proof (cases "\<exists>d. q2 = Inr d \<and> ap_status d = PENDING")
      case True
      then obtain d where d: "q2 = Inr d" "ap_status d = PENDING" by blast
      then have e: "dget (items s2) (ap_id i) = Some d" "\<not> has_expired now d" using ci k(1) by auto
      obtain q3 s3 where w: "repo_write (item_write env) i s2 = (q3, s3)" by (rule prod.exhaust)
      note wi = write_cached_inv [OF s2(1) e(1) d(2) _ w]
      have "s2 = s1" using ch d by (auto simp: check_expiration_locked_def Let_def split: if_splits prod.splits sum.splits)
      then obtain row where row: "durable s (ap_id i) = Some row" "ap_status row = PENDING"
        using store_inv_cached(2) [OF s2(1) e(1)] not_expired_in_step e(2) d(2) li by fastforce
      have call: "(r, s') = (case q3 of Inl e \<Rightarrow> (Inl e, if e = CancelledError then s3\<lparr>items := dpop (ap_id i) (items s3)\<rparr> else s3)
          | Inr _ \<Rightarrow> (Inr (Some i), cache_put i s3))"
        using g False l c ch d w by (simp add: save_if_pending_def)
      show ?thesis
      proof (cases q3)
        case (Inl err)
        then obtain tbl where "approval_repo s3 = Some tbl" using w repo_write_Inl by blast
        then have "durable (s3\<lparr>items := dpop (ap_id i) (items s3)\<rparr>) = durable s3" by (rule durable_pop)
        then show ?thesis using call Inl wi e(2) s2 by (auto simp: keeps_decisions_def)
      next
        case (Inr u)
        then show ?thesis using call wi e(2) s2 row keeps_trans by auto
      qed
    next
      case False2: False
      then show ?thesis using g False l c ch s2 by (auto simp: save_if_pending_def split: sum.splits)
    qed
  next
    case False2: False
    then show ?thesis using g False l li keeps_durable [of s1 s] by (auto simp: save_if_pending_def split: sum.splits option.splits)
  qed
qed (use g inv in \<open>auto simp: save_if_pending_def\<close>)

lemma store_save_inv:
  assumes inv: "store_inv now s"
  shows "store_inv now (snd (store_save env i s)) \<and> (\<forall>k. k \<noteq> ap_id i \<longrightarrow> durable (snd (store_save env i s)) k = durable s k)"
proof (cases "\<exists>s1. save_begin env i s = (Inr True, s1)")
  case True
  then obtain s1 c s0 where s1: "save_begin env i s = (Inr True, s1)" "load_item (read_fault env) (ap_id i) s = (Inr (Some c), s0)"
      "s1 = s0\<lparr>saves_in_flight := insert (ap_id i) (saves_in_flight s0)\<rparr>"
    by (auto simp: save_begin_def split: prod.splits sum.splits option.splits if_splits)
  have s0: "store_inv now s0" "durable s0 = durable s" "dget (items s0) (ap_id i) = Some c" using load_item_inv [OF inv s1(2)] by auto
  show ?thesis
  proof (cases "approval_repo s0")
    case None
    then show ?thesis using s0 s1
      by (auto simp: store_save_def save_commit_def save_finish_def repo_write_def store_inv_def cache_put_def durable_def fun_eq_iff)
  next
    case (Some tbl)
    then show ?thesis using s0 s1
      by (cases "item_write env")
        (auto simp: store_save_def save_commit_def save_finish_def repo_write_def approval_save_def store_inv_def cache_put_def durable_def
          fun_eq_iff dget_upsert split: option.splits if_splits)
  qed
next
  case False
  obtain q s0 where l: "load_item (read_fault env) (ap_id i) s = (q, s0)" by (rule prod.exhaust)
  have "snd (store_save env i s) = s0" using False l
    by (auto simp: store_save_def save_begin_def split: sum.splits option.splits if_splits)
  then show ?thesis using load_item_inv [OF inv l] by simp
qed

text \<open>The ids that a run overwrites with \<open>save\<close>.\<close>

definition saved_ids :: "(time \<times> store_env \<times> approval_op) list \<Rightarrow> string set" where
  "saved_ids steps = {ap_id i | i. \<exists>now env. (now, env, Save i) \<in> set steps}"

definition keeps_decision :: "string \<Rightarrow> approval_store \<Rightarrow> approval_store \<Rightarrow> bool" where
  "keeps_decision k s s' \<longleftrightarrow> (\<forall>r. durable s k = Some r \<longrightarrow> ap_status r \<noteq> PENDING \<longrightarrow> durable s' k = Some r)"

lemma approval_step_inv:
  assumes "store_inv now s"
  shows "store_inv now (approval_step (now, env, op) s) \<and> (k \<notin> saved_ids [(now, env, op)] \<longrightarrow> keeps_decision k s (approval_step (now, env, op) s))"
  using assms store_add_inv store_list_inv store_save_inv
    store_get_inv [OF assms surjective_pairing] save_if_pending_inv [OF assms surjective_pairing]
  by (cases op) (simp_all add: keeps_decisions_def keeps_decision_def saved_ids_def)

lemma approval_run_inv:
  "store_inv t s \<Longrightarrow> sorted (t # List.map fst steps) \<Longrightarrow> k \<notin> saved_ids steps \<Longrightarrow>
   store_inv (last (t # List.map fst steps)) (fold approval_step steps s) \<and> keeps_decision k s (fold approval_step steps s)"
proof (induction steps arbitrary: t s)
  case (Cons step steps)
  obtain now env op where st: "step = (now, env, op)" by (cases step)
  have k: "k \<notin> saved_ids [(now, env, op)]" "k \<notin> saved_ids steps" using Cons.prems(3) by (auto simp: saved_ids_def st)
  have "store_inv now s" using Cons.prems store_inv_mono st by auto
  then have s1: "store_inv now (approval_step step s)" "keeps_decision k s (approval_step step s)"
    using approval_step_inv k(1) st by auto
  have "store_inv (last (now # List.map fst steps)) (fold approval_step steps (approval_step step s)) \<and>
      keeps_decision k (approval_step step s) (fold approval_step steps (approval_step step s))"
    by (rule Cons.IH [OF s1(1) _ k(2)]) (use Cons.prems(2) st in simp)
  then show ?case using s1(2) st by (auto simp: keeps_decision_def)
qed (simp add: keeps_decision_def)

lemma store_inv_new: "keyed tbl \<Longrightarrow> store_inv t (new_store (Some tbl))" "store_inv t (new_store None)"
  by (simp_all add: store_inv_def new_store_def keyed_def)

lemma get_decided:
  assumes inv: "store_inv now s" and r: "durable s k = Some r" "ap_status r \<noteq> PENDING"
    and calm: "\<not> read_fault env" "expiry_write env k = Written" "valid_item r"
  shows "\<exists>x. fst (store_get env now k s) = Inr (Some (r\<lparr>ap_created_at := x\<rparr>))"
proof (cases "dget (items s) k")
  case None
  then obtain tbl where tbl: "approval_repo s = Some tbl" using r by (auto simp: durable_def split: option.splits)
  have "\<not> has_expired now r" using r(2) by (simp add: has_expired_def)
  then have "fst (store_get env now k s) = Inr (Some r)"
    using None tbl r calm
    by (simp add: store_get_def load_item_def approval_get_def durable_def check_expiration_locked_def)
  then show ?thesis by (metis ApprovalItem.surjective ApprovalItem.update_convs(8))
next
  case (Some c)
  have c: "ap_id c = k" "in_step now c r" using store_inv_cached [OF inv Some] r(1) by auto
  show ?thesis
  proof (cases "has_expired now c")
    case True
    then have "ap_status c = PENDING" by (simp add: has_expired_def)
    then obtain x where x: "r = c\<lparr>ap_status := EXPIRED, ap_created_at := x\<rparr>" using c(2) r(2) by (auto simp: in_step_def)
    have "fst (store_get env now k s) = Inr (Some (c\<lparr>ap_status := EXPIRED\<rparr>))"
      using True Some calm(2)
      by (auto simp: store_get_def load_item_def check_expiration_locked_def Let_def repo_write_def approval_save_def split: option.splits)
    moreover have "c\<lparr>ap_status := EXPIRED\<rparr> = r\<lparr>ap_created_at := ap_created_at c\<rparr>" unfolding x by simp
    ultimately show ?thesis by metis
  next
    case False
    then obtain x where x: "r = c\<lparr>ap_created_at := x\<rparr>" using c(2) by (auto simp: in_step_def)
    have "fst (store_get env now k s) = Inr (Some c)"
      using False Some by (auto simp: store_get_def load_item_def check_expiration_locked_def)
    moreover have "c = r\<lparr>ap_created_at := ap_created_at c\<rparr>" unfolding x by simp
    ultimately show ?thesis by metis
  qed
qed

text \<open>
  C21: a decision on an approval is final unless \<open>save\<close> overwrites it. In any sequence of additions, reads, listings,
  conditional saves of any id and whole \<open>save\<close> calls for other ids, each with any database faults and
  cancellations and with a clock that does not go back, an item that is approved, rejected or expired in durable storage
  stays there unchanged. From then on a read without faults returns it (with the cached creation time), and no
  conditional save of its id succeeds. (\<open>save\<close> of the id itself replaces the item whatever its status; what happens
  when its parts interleave with other calls is shown below.)
\<close>

theorem decision_is_final:
  assumes "store_inv t s" and "sorted (t # List.map fst steps)" and "k \<notin> saved_ids steps" and "s' = fold approval_step steps s"
    and "durable s k = Some r" and "ap_status r \<noteq> PENDING" and "last (t # List.map fst steps) \<le> now"
  shows "durable s' k = Some r \<and>
    (\<not> read_fault env \<and> expiry_write env k = Written \<and> valid_item r \<longrightarrow>
       (\<exists>x. fst (store_get env now k s') = Inr (Some (r\<lparr>ap_created_at := x\<rparr>)))) \<and>
    (\<forall>i. ap_id i = k \<longrightarrow> fst (save_if_pending env now i s') \<noteq> Inr (Some i))"
proof -
  have inv: "store_inv now s'" and d: "durable s' k = Some r"
    using approval_run_inv [OF assms(1-3)] store_inv_mono [OF _ assms(7)] assms(4-6) by (auto simp: keeps_decision_def)
  show ?thesis
    using d get_decided [OF inv d assms(6)] save_if_pending_inv [OF inv surjective_pairing] assms(6) by fastforce
qed

subsection \<open>A save in flight\<close>

lemma repo_write_Written [simp]:
  "approval_repo s = Some tbl \<Longrightarrow> repo_write Written i s = (Inr (), s\<lparr>approval_repo := Some (approval_upsert i tbl)\<rparr>)"
  by (simp add: repo_write_def approval_save_def)

text \<open>
  \<open>save\<close> and lazy expiration. While a save of an item is in flight, a second save and a conditional
  save of the same id write nothing. A read is not stopped: when the cached item has passed its expiry, a
  read between the repository write and the cache update of the save overwrites the committed row with
  EXPIRED, and the save then caches its own item, so cache and repository disagree. The same read after
  the save has finished leaves both with the saved decision.
\<close>

theorem save_expiry_race:
  assumes "approval_repo s = Some tbl" and "dget (items s) (ap_id i) = Some c" and "dget tbl (ap_id i) = Some r"
    and "ap_id c = ap_id i" and "has_expired now c" and "ap_status i \<noteq> PENDING" and "ap_id i \<notin> saves_in_flight s"
    and "item_write env = Written" and "expiry_write env (ap_id i) = Written"
    and "s1 = snd (save_begin env i s)" and "s2 = snd (save_commit env i s1)"
    and "s3 = save_finish i (snd (store_get env now (ap_id i) s2))"
    and "s4 = snd (store_get env now (ap_id i) (save_finish i s2))"
  shows "(\<forall>j. ap_id j = ap_id i \<longrightarrow>
       save_if_pending env now j s1 = (Inr None, s1) \<and> save_begin env j s1 = (Inr False, s1)) \<and>
    dget (items s3) (ap_id i) = Some i \<and> map_option ap_status (durable s3 (ap_id i)) = Some EXPIRED \<and>
    dget (items s4) (ap_id i) = Some i \<and> durable s4 (ap_id i) = Some (i\<lparr>ap_created_at := ap_created_at r\<rparr>)"
proof -
  have begin1: "save_begin env i s = (Inr True, s\<lparr>saves_in_flight := insert (ap_id i) (saves_in_flight s)\<rparr>)"
    using assms by (simp add: save_begin_def load_item_def)
  have s1: "s1 = s\<lparr>saves_in_flight := insert (ap_id i) (saves_in_flight s)\<rparr>" using begin1 assms by simp
  have s2: "s2 = s1\<lparr>approval_repo := Some (approval_upsert i tbl)\<rparr>"
    using assms(1,8) by (simp add: assms(11) s1 save_commit_def)
  have excl: "save_if_pending env now j s1 = (Inr None, s1) \<and> save_begin env j s1 = (Inr False, s1)" if "ap_id j = ap_id i" for j
    using that assms(2) by (simp add: s1 save_if_pending_def save_begin_def load_item_def)
  have "\<not> has_expired now i" using assms(6) by (simp add: has_expired_def)
  then have s4: "s4 = save_finish i s2"
    by (simp add: assms(13) store_get_def load_item_def save_finish_def cache_put_def check_expiration_locked_def)
  have "store_get env now (ap_id i) s2 = (Inr (Some (c\<lparr>ap_status := EXPIRED\<rparr>)),
      cache_put (c\<lparr>ap_status := EXPIRED\<rparr>) (s2\<lparr>approval_repo := Some (approval_upsert (c\<lparr>ap_status := EXPIRED\<rparr>) (approval_upsert i tbl))\<rparr>))"
    using assms(2,5,9) by (simp add: s2 s1 store_get_def load_item_def check_expiration_locked_def Let_def)
  then show ?thesis
    using excl assms(3,4) by (simp add: s4 s1 s2 assms(12) save_finish_def cache_put_def durable_def dget_upsert)
qed

subsection \<open>Examples\<close>

definition sample_item :: ApprovalItem where
  "sample_item = \<lparr>ap_id = ''a1'', ap_action_type = ''deploy:staging'', ap_title = ''T'', ap_description = ''D'',
     ap_requested_by = ''dev'', ap_risk_level = RISK_HIGH, ap_status = PENDING, ap_created_at = 0, ap_expires_at = Some 100,
     ap_decided_at = None, ap_decided_by = None, ap_decision_reason = None, ap_task_id = None,
     ap_evidence_package = None, ap_metadata = []\<rparr>"

definition approved_item :: ApprovalItem where
  "approved_item = sample_item\<lparr>ap_status := APPROVED, ap_decided_at := Some 50, ap_decided_by := Some ''boss''\<rparr>"

definition calm_env :: store_env where
  "calm_env = \<lparr>read_fault = False, expiry_write = (\<lambda>_. Written), item_write = Written\<rparr>"

theorem decision_is_final_witness:
  "fst (save_if_pending calm_env 300 sample_item
     (fold approval_step [(200, calm_env, Get ''a1''), (250, calm_env, Add sample_item), (260, calm_env, Save (sample_item\<lparr>ap_id := ''a2''\<rparr>))]
        (new_store (Some [(''a1'', approved_item)])))) \<noteq> Inr (Some sample_item)"
proof -
  have "store_inv 100 (new_store (Some [(''a1'', approved_item)]))"
    by (rule store_inv_new) (simp add: keyed_def approved_item_def sample_item_def)
  moreover have "durable (new_store (Some [(''a1'', approved_item)])) ''a1'' = Some approved_item"
    by (simp add: durable_def new_store_def)
  ultimately show ?thesis
    using decision_is_final [of 100 _ "[(200, calm_env, Get ''a1''), (250, calm_env, Add sample_item), (260, calm_env, Save (sample_item\<lparr>ap_id := ''a2''\<rparr>))]"
        "''a1''" _ approved_item 300 calm_env]
    by (simp add: approved_item_def sample_item_def saved_ids_def)
qed

theorem save_expiry_race_witness:
  "let s = \<lparr>items = [(''a1'', sample_item)], approval_repo = Some [(''a1'', sample_item)], saves_in_flight = {}\<rparr>;
       s2 = snd (save_commit calm_env approved_item (snd (save_begin calm_env approved_item s)));
       s3 = save_finish approved_item (snd (store_get calm_env 100 ''a1'' s2))
   in dget (items s3) ''a1'' = Some approved_item \<and> map_option ap_status (durable s3 ''a1'') = Some EXPIRED"
proof -
  have "ap_id approved_item = ''a1''" "has_expired 100 sample_item" "ap_status approved_item \<noteq> PENDING"
    by (simp_all add: approved_item_def sample_item_def has_expired_def)
  then show ?thesis
    using save_expiry_race [of "\<lparr>items = [(''a1'', sample_item)], approval_repo = Some [(''a1'', sample_item)], saves_in_flight = {}\<rparr>"
        "[(''a1'', sample_item)]" approved_item sample_item sample_item 100 calm_env, OF _ _ _ _ _ _ _ _ _ refl refl refl refl]
    by (simp add: calm_env_def sample_item_def)
qed

end
