(* ===== verification/Approval_Timeouts.thy ===== *)
theory Approval_Timeouts
  imports Approvals
begin

text \<open>
  Approval time-outs (\<^verbatim>\<open>security/timeout/\<close>): the four policies with their configurations and validators,
  the risk classifier of action types, the checker that applies a policy to a pending item, and the
  scheduler that polls the approval store. Clock readings are arguments. The texts of the reasons are
  the code's, since they are stored as decision reasons; \<open>None\<close> in \<open>classify\<close>'s map means HIGH.
\<close>

subsection \<open>Risk levels and actions\<close>

definition risk_value :: "ApprovalRiskLevel \<Rightarrow> string" where
  "risk_value r = (case r of RISK_LOW \<Rightarrow> ''low'' | RISK_MEDIUM \<Rightarrow> ''medium'' | RISK_HIGH \<Rightarrow> ''high'' | RISK_CRITICAL \<Rightarrow> ''critical'')"

text \<open>\<open>ApprovalRiskLevel(value)\<close>; \<open>None\<close> is the ValueError.\<close>

definition risk_of_value :: "string \<Rightarrow> ApprovalRiskLevel option" where
  "risk_of_value v = find (\<lambda>r. risk_value r = v) [RISK_LOW, RISK_MEDIUM, RISK_HIGH, RISK_CRITICAL]"

definition DEFAULT_RISK_MAP :: "(string, ApprovalRiskLevel) dict" where
  "DEFAULT_RISK_MAP =
     [(''deploy:production'', RISK_CRITICAL), (''db:admin'', RISK_CRITICAL), (''org:fire'', RISK_CRITICAL),
      (''deploy:staging'', RISK_HIGH), (''db:mutate'', RISK_HIGH), (''code:delete'', RISK_HIGH), (''vcs:push'', RISK_HIGH),
      (''comms:external'', RISK_HIGH), (''budget:exceed'', RISK_HIGH),
      (''code:create'', RISK_MEDIUM), (''code:write'', RISK_MEDIUM), (''code:refactor'', RISK_MEDIUM),
      (''vcs:commit'', RISK_MEDIUM), (''arch:decide'', RISK_MEDIUM), (''org:hire'', RISK_MEDIUM),
      (''org:promote'', RISK_MEDIUM), (''budget:spend'', RISK_MEDIUM),
      (''code:read'', RISK_LOW), (''vcs:read'', RISK_LOW), (''test:run'', RISK_LOW), (''test:write'', RISK_LOW),
      (''docs:write'', RISK_LOW), (''vcs:branch'', RISK_LOW), (''comms:internal'', RISK_LOW), (''db:query'', RISK_LOW),
      (''memory:read'', RISK_LOW)]"

text \<open>The constructor's merge with custom entries, and \<open>classify\<close>.\<close>

definition risk_map :: "(string, ApprovalRiskLevel) dict option \<Rightarrow> (string, ApprovalRiskLevel) dict" where
  "risk_map custom = (case custom of None \<Rightarrow> DEFAULT_RISK_MAP | Some m \<Rightarrow> AList.updates (List.map fst m) (List.map snd m) DEFAULT_RISK_MAP)"

definition tier_classify :: "(string, ApprovalRiskLevel) dict option \<Rightarrow> string \<Rightarrow> ApprovalRiskLevel" where
  "tier_classify custom act = dget_or (risk_map custom) act RISK_HIGH"

datatype TimeoutActionType = WAIT | APPROVE | DENY | ESCALATE

definition timeout_action_value :: "TimeoutActionType \<Rightarrow> string" where
  "timeout_action_value a = (case a of WAIT \<Rightarrow> ''wait'' | APPROVE \<Rightarrow> ''approve'' | DENY \<Rightarrow> ''deny'' | ESCALATE \<Rightarrow> ''escalate'')"

record TimeoutAction =
  ta_action :: TimeoutActionType
  ta_reason :: string
  ta_escalate_to :: "string option"

datatype timeout_error = ActionInvalid | UnknownRiskLevel | NotPending | NonPositiveTimeout

definition valid_timeout_action :: "TimeoutAction \<Rightarrow> bool" where
  "valid_timeout_action a \<longleftrightarrow> not_blank (ta_reason a) \<and> opt_not_blank (ta_escalate_to a) \<and>
     (ta_action a = ESCALATE \<longleftrightarrow> ta_escalate_to a \<noteq> None)"

definition mk_action :: "TimeoutActionType \<Rightarrow> string \<Rightarrow> string option \<Rightarrow> timeout_error + TimeoutAction" where
  "mk_action a why to = guard_with \<lparr>ta_action = a, ta_reason = why, ta_escalate_to = to\<rparr>
     [(\<not> valid_timeout_action \<lparr>ta_action = a, ta_reason = why, ta_escalate_to = to\<rparr>, ActionInvalid)]"

subsection \<open>Configurations\<close>

record TierConfig =
  tier_timeout_minutes :: rat
  tier_on_timeout :: TimeoutActionType
  tier_actions :: "string list"

record EscalationStep =
  step_role :: string
  step_timeout_minutes :: rat

datatype ApprovalTimeoutConfig =
    WaitForeverConfig
  | DenyOnTimeoutConfig rat
  | TieredTimeoutConfig "(string, TierConfig) dict"
  | EscalationChainConfig "EscalationStep list" TimeoutActionType

definition valid_tier :: "TierConfig \<Rightarrow> bool" where
  "valid_tier c \<longleftrightarrow> tier_timeout_minutes c > 0 \<and> tier_on_timeout c \<noteq> ESCALATE"

definition valid_step :: "EscalationStep \<Rightarrow> bool" where
  "valid_step st \<longleftrightarrow> not_blank (step_role st) \<and> step_timeout_minutes st > 0"

definition valid_timeout_config :: "ApprovalTimeoutConfig \<Rightarrow> bool" where
  "valid_timeout_config c =
     (case c of
        WaitForeverConfig \<Rightarrow> True
      | DenyOnTimeoutConfig m \<Rightarrow> m > 0
      | TieredTimeoutConfig tiers \<Rightarrow> distinct (dkeys tiers) \<and> list_all (\<lambda>(k, t). valid_tier t \<and> risk_of_value k \<noteq> None) tiers
      | EscalationChainConfig chain a \<Rightarrow> chain \<noteq> [] \<and> list_all valid_step chain \<and> a \<noteq> ESCALATE)"

subsection \<open>Policies\<close>

datatype TimeoutPolicy =
    WaitForeverPolicy
  | DenyOnTimeoutPolicy rat
  | TieredTimeoutPolicy "(string, TierConfig) dict" "string \<Rightarrow> ApprovalRiskLevel"
  | EscalationChainPolicy "EscalationStep list" TimeoutActionType

definition create_timeout_policy :: "ApprovalTimeoutConfig \<Rightarrow> timeout_error + TimeoutPolicy" where
  "create_timeout_policy c =
     (case c of
        WaitForeverConfig \<Rightarrow> Inr WaitForeverPolicy
      | DenyOnTimeoutConfig m \<Rightarrow> if m * 60 \<le> 0 then Inl NonPositiveTimeout else Inr (DenyOnTimeoutPolicy (m * 60))
      | TieredTimeoutConfig tiers \<Rightarrow> Inr (TieredTimeoutPolicy tiers (tier_classify None))
      | EscalationChainConfig chain a \<Rightarrow> Inr (EscalationChainPolicy chain a))"

text \<open>The first tier that lists the action type explicitly.\<close>

definition explicit_tier :: "(string, TierConfig) dict \<Rightarrow> string \<Rightarrow> (string \<times> TierConfig) option" where
  "explicit_tier tiers act = find (\<lambda>(k, c). tier_actions c \<noteq> [] \<and> act \<in> set (tier_actions c)) tiers"

definition deny_action :: "rat \<Rightarrow> rat \<Rightarrow> timeout_error + TimeoutAction" where
  "deny_action timeout elapsed =
     (if elapsed < timeout then mk_action WAIT (''Waiting -- '' @ py_fmt0 elapsed @ ''s of '' @ py_fmt0 timeout @ ''s elapsed'') None
      else mk_action DENY (''Auto-denied after '' @ py_fmt0 elapsed @ ''s (timeout: '' @ py_fmt0 timeout @ ''s)'') None)"

definition tier_action :: "ApprovalRiskLevel \<Rightarrow> TierConfig option \<Rightarrow> rat \<Rightarrow> timeout_error + TimeoutAction" where
  "tier_action risk tier elapsed =
     (case tier of
        None \<Rightarrow> mk_action WAIT (''No tier config for risk level '' @ py_repr (risk_value risk) @ '' -- waiting'') None
      | Some c \<Rightarrow>
          (let timeout = tier_timeout_minutes c * 60 in
           if elapsed < timeout then
             mk_action WAIT (''Tier '' @ risk_value risk @ '': '' @ py_fmt0 elapsed @ ''s of '' @ py_fmt0 timeout @ ''s elapsed'') None
           else
             (let eff = (if tier_on_timeout c = APPROVE \<and> risk \<in> {RISK_HIGH, RISK_CRITICAL} then DENY else tier_on_timeout c)
              in mk_action eff (''Tier '' @ risk_value risk @ '' timeout: auto-'' @ timeout_action_value eff @ '' after '' @ py_fmt0 elapsed @ ''s'') None)))"

definition tiered_action ::
  "(string, TierConfig) dict \<Rightarrow> (string \<Rightarrow> ApprovalRiskLevel) \<Rightarrow> string \<Rightarrow> rat \<Rightarrow> timeout_error + TimeoutAction" where
  "tiered_action tiers classify act elapsed =
     (case explicit_tier tiers act of
        Some (k, c) \<Rightarrow>
          (case risk_of_value k of
             None \<Rightarrow> Inl UnknownRiskLevel
           | Some risk \<Rightarrow> tier_action risk (Some c) elapsed)
      | None \<Rightarrow> (let risk = classify act in tier_action risk (dget tiers (risk_value risk)) elapsed))"

fun chain_action ::
  "TimeoutActionType \<Rightarrow> rat \<Rightarrow> nat \<Rightarrow> rat \<Rightarrow> EscalationStep list \<Rightarrow> timeout_error + TimeoutAction" where
  "chain_action exhausted elapsed idx cum [] =
     mk_action exhausted (''Escalation chain exhausted after '' @ py_fmt0 elapsed @ ''s -- '' @ timeout_action_value exhausted) None"
| "chain_action exhausted elapsed idx cum (st # chain) =
     (let step_end = cum + step_timeout_minutes st * 60 in
      if elapsed < step_end then
        if idx = 0 then
          mk_action WAIT (''Waiting at '' @ py_repr (step_role st) @ '' -- '' @ py_fmt0 elapsed @ ''s of '' @ py_fmt0 step_end @ ''s elapsed'') None
        else
          mk_action ESCALATE (''Escalated to '' @ py_repr (step_role st) @ '' -- '' @ py_fmt0 elapsed @ ''s elapsed'') (Some (step_role st))
      else chain_action exhausted elapsed (idx + 1) step_end chain)"

definition determine_action :: "TimeoutPolicy \<Rightarrow> ApprovalItem \<Rightarrow> rat \<Rightarrow> timeout_error + TimeoutAction" where
  "determine_action p item elapsed =
     (case p of
        WaitForeverPolicy \<Rightarrow> mk_action WAIT ''Wait-forever policy -- no automatic action'' None
      | DenyOnTimeoutPolicy timeout \<Rightarrow> deny_action timeout elapsed
      | TieredTimeoutPolicy tiers classify \<Rightarrow> tiered_action tiers classify (ap_action_type item) elapsed
      | EscalationChainPolicy chain exhausted \<Rightarrow>
          if chain = [] then mk_action exhausted ''Empty escalation chain -- applying exhausted action'' None
          else chain_action exhausted elapsed 0 0 chain)"

subsection \<open>The checker\<close>

definition timeout_check :: "TimeoutPolicy \<Rightarrow> time \<Rightarrow> ApprovalItem \<Rightarrow> timeout_error + TimeoutAction" where
  "timeout_check p now item =
     (if ap_status item \<noteq> PENDING then Inl NotPending
      else case determine_action p item (now - ap_created_at item) of
             Inl _ \<Rightarrow> Inr \<lparr>ta_action = WAIT, ta_reason = ''Policy evaluation error -- defaulting to WAIT'', ta_escalate_to = None\<rparr>
           | Inr a \<Rightarrow> Inr a)"

definition decided :: "ApprovalStatus \<Rightarrow> time \<Rightarrow> TimeoutAction \<Rightarrow> ApprovalItem \<Rightarrow> ApprovalItem" where
  "decided st at' a item = item\<lparr>ap_status := st, ap_decided_at := Some at', ap_decided_by := Some ''timeout_policy'',
     ap_decision_reason := Some (ta_reason a)\<rparr>"

definition check_and_resolve ::
  "TimeoutPolicy \<Rightarrow> time \<Rightarrow> time \<Rightarrow> ApprovalItem \<Rightarrow> timeout_error + ApprovalItem \<times> TimeoutAction" where
  "check_and_resolve p now now' item =
     rbind (timeout_check p now item) (\<lambda>a. Inr
       (case ta_action a of APPROVE \<Rightarrow> decided APPROVED now' a item | DENY \<Rightarrow> decided REJECTED now' a item | _ \<Rightarrow> item, a))"

subsection \<open>The scheduler\<close>








subsection \<open>Policies\<close>

lemma not_blank_Cons [simp]: "not_blank (c # cs) \<longleftrightarrow> \<not> py_isspace c \<or> not_blank cs"
  by (simp add: not_blank_def)

lemma mk_action_Inr:
  "mk_action a why to = Inr x \<longleftrightarrow>
     x = \<lparr>ta_action = a, ta_reason = why, ta_escalate_to = to\<rparr> \<and> valid_timeout_action x"
  by (auto simp: mk_action_def result_simps)

lemma mk_action_ok [simp]:
  "not_blank why \<Longrightarrow> opt_not_blank to \<Longrightarrow> (a = ESCALATE \<longleftrightarrow> to \<noteq> None) \<Longrightarrow>
   mk_action a why to = Inr \<lparr>ta_action = a, ta_reason = why, ta_escalate_to = to\<rparr>"
  by (auto simp: mk_action_Inr valid_timeout_action_def)

lemma risk_of_value [simp]: "risk_of_value (risk_value r) = Some r"
  by (cases r) (simp_all add: risk_of_value_def risk_value_def)

lemma explicit_tier_Some:
  "explicit_tier tiers act = Some (k, c) \<Longrightarrow> (k, c) \<in> set tiers \<and> act \<in> set (tier_actions c)"
  by (auto simp: explicit_tier_def find_Some_iff in_set_conv_nth)

definition eff_action :: "ApprovalRiskLevel \<Rightarrow> TierConfig \<Rightarrow> TimeoutActionType" where
  "eff_action risk c = (if tier_on_timeout c = APPROVE \<and> risk \<in> {RISK_HIGH, RISK_CRITICAL} then DENY else tier_on_timeout c)"

lemma tier_action_ok:
  assumes "\<And>c. tier = Some c \<Longrightarrow> valid_tier c"
  shows "\<exists>a. tier_action risk tier elapsed = Inr a \<and> valid_timeout_action a \<and>
    ta_action a = (case tier of None \<Rightarrow> WAIT | Some c \<Rightarrow> if elapsed < tier_timeout_minutes c * 60 then WAIT else eff_action risk c)"
proof (cases tier)
  case None
  then show ?thesis
    by (simp add: tier_action_def py_isspace_def valid_timeout_action_def)
next
  case (Some c)
  then have "eff_action risk c \<noteq> ESCALATE" using assms by (auto simp: valid_tier_def eff_action_def)
  then show ?thesis
    unfolding Some tier_action_def Let_def option.case eff_action_def [symmetric]
    by (simp add: py_isspace_def valid_timeout_action_def)
qed

text \<open>The tier an action type falls into: an explicit one, else the one of its risk level.\<close>

definition tier_for :: "(string, TierConfig) dict \<Rightarrow> (string \<Rightarrow> ApprovalRiskLevel) \<Rightarrow> string \<Rightarrow> (ApprovalRiskLevel \<times> TierConfig) option" where
  "tier_for tiers classify act =
     (case explicit_tier tiers act of
        Some (k, c) \<Rightarrow> map_option (\<lambda>r. (r, c)) (risk_of_value k)
      | None \<Rightarrow> map_option (\<lambda>c. (classify act, c)) (dget tiers (risk_value (classify act))))"

lemma tiered_action_ok:
  assumes "valid_timeout_config (TieredTimeoutConfig tiers)"
  shows "\<exists>a. tiered_action tiers classify act elapsed = Inr a \<and> valid_timeout_action a \<and>
    ta_action a = (case tier_for tiers classify act of
       None \<Rightarrow> WAIT | Some (risk, c) \<Rightarrow> if elapsed < tier_timeout_minutes c * 60 then WAIT else eff_action risk c)"
proof (cases "explicit_tier tiers act")
  case None
  have v: "\<And>c. dget tiers (risk_value (classify act)) = Some c \<Longrightarrow> valid_tier c"
    using assms by (auto simp: valid_timeout_config_def list_all_iff dest: dget_Some_in)
  show ?thesis using tier_action_ok [of "dget tiers (risk_value (classify act))", OF v] None
    by (cases "dget tiers (risk_value (classify act))") (simp_all add: tiered_action_def tier_for_def Let_def)
next
  case (Some kc)
  obtain k c where kc: "kc = (k, c)" by (cases kc)
  then have kv: "valid_tier c" "risk_of_value k \<noteq> None"
    using assms explicit_tier_Some [of tiers act k c] Some by (auto simp: valid_timeout_config_def list_all_iff)
  then obtain risk where "risk_of_value k = Some risk" by blast
  then show ?thesis using tier_action_ok [of "Some c" risk] kv Some kc by (simp add: tiered_action_def tier_for_def)
qed

lemma chain_action_ok:
  assumes "list_all valid_step chain" and "exhausted \<noteq> ESCALATE"
  shows "\<exists>a. chain_action exhausted elapsed idx cum chain = Inr a \<and> valid_timeout_action a"
  using assms(1)
proof (induction chain arbitrary: idx cum)
  case Nil
  then show ?case using assms(2) by (simp add: py_isspace_def valid_timeout_action_def)
next
  case (Cons st chain)
  then show ?case by (auto simp: Let_def py_isspace_def valid_timeout_action_def valid_step_def)
qed

lemma determine_action_ok:
  assumes "valid_timeout_config c" and "create_timeout_policy c = Inr p"
  shows "\<exists>a. determine_action p item elapsed = Inr a \<and> valid_timeout_action a"
proof (cases c)
  case WaitForeverConfig
  then show ?thesis using assms by (auto simp: create_timeout_policy_def determine_action_def py_isspace_def valid_timeout_action_def)
next
  case (DenyOnTimeoutConfig m)
  then show ?thesis using assms
    by (auto simp: create_timeout_policy_def determine_action_def deny_action_def py_isspace_def valid_timeout_action_def split: if_splits)
next
  case (TieredTimeoutConfig tiers)
  then show ?thesis using assms tiered_action_ok by (fastforce simp: create_timeout_policy_def determine_action_def)
next
  case (EscalationChainConfig chain a)
  then show ?thesis using assms chain_action_ok [of chain a]
    by (auto simp: create_timeout_policy_def determine_action_def valid_timeout_config_def)
qed

text \<open>
  Time-outs decide with valid data. A valid configuration always gives a policy. Applied to a valid
  pending item at any time, the policy returns a valid action without an exception, and the checker
  returns a valid item: pending and unchanged for WAIT and ESCALATE, approved or rejected by
  \<open>timeout_policy\<close> with the action's reason otherwise.
\<close>

theorem timeout_resolution_valid:
  assumes "valid_timeout_config c" and "valid_item item" and "ap_status item = PENDING"
  shows "\<exists>p a j. create_timeout_policy c = Inr p \<and> determine_action p item (now - ap_created_at item) = Inr a \<and>
    check_and_resolve p now now' item = Inr (j, a) \<and> valid_timeout_action a \<and> valid_item j \<and>
    j = (case ta_action a of APPROVE \<Rightarrow> decided APPROVED now' a item | DENY \<Rightarrow> decided REJECTED now' a item | _ \<Rightarrow> item)"
proof -
  obtain p where p: "create_timeout_policy c = Inr p"
    using assms(1) by (cases c) (auto simp: create_timeout_policy_def valid_timeout_config_def)
  obtain a where a: "determine_action p item (now - ap_created_at item) = Inr a" "valid_timeout_action a"
    using determine_action_ok [OF assms(1) p] by blast
  have "valid_item (decided st now' a item)" if "st \<in> {APPROVED, REJECTED}" for st
    using that assms(2,3) a(2) not_blank_nonempty
    by (auto simp: valid_item_def item_check_def item_fields_def decided_def valid_timeout_action_def py_isspace_def
        validate_decision_fields_def validate_expiry_def split: if_splits option.splits)
  then show ?thesis using p a assms(2,3)
    by (auto simp: check_and_resolve_def timeout_check_def split: TimeoutActionType.splits)
qed

text \<open>
  What the tiers approve by themselves. An item is auto-approved exactly when the tier it falls into
  (the first tier listing its action type, else the tier of its classified risk) is the low or medium
  one, says APPROVE and has timed out. An action type that no tier lists and that is classified HIGH or
  CRITICAL, or not known at all, is never approved.
\<close>

theorem tiered_auto_approval:
  assumes "valid_timeout_config (TieredTimeoutConfig tiers)"
    and "create_timeout_policy (TieredTimeoutConfig tiers) = Inr p" and "determine_action p item elapsed = Inr a"
  shows "(ta_action a = APPROVE \<longleftrightarrow>
      (\<exists>risk c. tier_for tiers (tier_classify None) (ap_action_type item) = Some (risk, c) \<and>
         risk \<in> {RISK_LOW, RISK_MEDIUM} \<and> tier_on_timeout c = APPROVE \<and> tier_timeout_minutes c * 60 \<le> elapsed)) \<and>
    (explicit_tier tiers (ap_action_type item) = None \<and>
       (tier_classify None (ap_action_type item) \<in> {RISK_HIGH, RISK_CRITICAL} \<or>
        ap_action_type item \<notin> set (dkeys DEFAULT_RISK_MAP)) \<longrightarrow> ta_action a \<noteq> APPROVE)"
proof -
  have p: "p = TieredTimeoutPolicy tiers (tier_classify None)" using assms(2) by (simp add: create_timeout_policy_def)
  have act: "ta_action a = (case tier_for tiers (tier_classify None) (ap_action_type item) of
       None \<Rightarrow> WAIT | Some (risk, c) \<Rightarrow> if elapsed < tier_timeout_minutes c * 60 then WAIT else eff_action risk c)"
    using tiered_action_ok [OF assms(1), of "tier_classify None" "ap_action_type item" elapsed] assms(3)
    by (simp add: p determine_action_def)
  have iff: "ta_action a = APPROVE \<longleftrightarrow>
      (\<exists>risk c. tier_for tiers (tier_classify None) (ap_action_type item) = Some (risk, c) \<and>
         risk \<in> {RISK_LOW, RISK_MEDIUM} \<and> tier_on_timeout c = APPROVE \<and> tier_timeout_minutes c * 60 \<le> elapsed)"
  proof (cases "tier_for tiers (tier_classify None) (ap_action_type item)")
    case (Some rc)
    obtain risk c where "rc = (risk, c)" by (cases rc)
    then show ?thesis using act Some by (cases risk) (auto simp: eff_action_def)
  qed (use act in simp)
  have unknown: "tier_classify None k = RISK_HIGH" if "k \<notin> set (dkeys DEFAULT_RISK_MAP)" for k
    using that by (simp add: tier_classify_def risk_map_def dget_or_def map_of_eq_None_iff split: option.splits) (metis dget_Some_key list.set_map)
  show ?thesis using iff unknown by (auto simp: tier_for_def)
qed

subsection \<open>Escalation chains\<close>

text \<open>Seconds until the first \<open>n\<close> steps of a chain have timed out.\<close>

definition chain_end :: "EscalationStep list \<Rightarrow> nat \<Rightarrow> rat" where
  "chain_end chain n = (\<Sum>st \<leftarrow> take n chain. step_timeout_minutes st * 60)"

lemma chain_end_simps [simp]:
  "chain_end chain 0 = 0" "chain_end (st # chain) (Suc n) = step_timeout_minutes st * 60 + chain_end chain n"
  by (simp_all add: chain_end_def)

definition chain_target :: "TimeoutActionType \<Rightarrow> EscalationStep list \<Rightarrow> nat \<Rightarrow> TimeoutActionType \<times> string option" where
  "chain_target exhausted chain i =
     (if i = length chain then (exhausted, None) else if i = 0 then (WAIT, None) else (ESCALATE, Some (step_role (chain ! i))))"

lemma chain_action_steps:
  assumes "list_all valid_step chain" and "exhausted \<noteq> ESCALATE" and "chain_action exhausted elapsed idx cum chain = Inr a"
    and "i \<le> length chain" and "i = 0 \<or> cum + chain_end chain i \<le> elapsed"
    and "i = length chain \<or> elapsed < cum + chain_end chain (Suc i)"
  shows "ta_action a = (if i = length chain then exhausted else if idx + i = 0 then WAIT else ESCALATE) \<and>
    ta_escalate_to a = (if i = length chain \<or> idx + i = 0 then None else Some (step_role (chain ! i)))"
  using assms
proof (induction chain arbitrary: idx cum i)
  case Nil
  then show ?case by (auto simp: mk_action_Inr)
next
  case (Cons st chain)
  show ?case
  proof (cases i)
    case 0
    then show ?thesis using Cons.prems by (auto simp: Let_def mk_action_Inr add.assoc split: if_splits)
  next
    case (Suc n)
    have pos: "0 \<le> chain_end chain n" 
      unfolding chain_end_def using Cons.prems(1)
      by (intro sum_list_nonneg) (auto simp: list_all_iff valid_step_def less_imp_le dest!: in_set_takeD)
    have late: "\<not> elapsed < cum + step_timeout_minutes st * 60"
      using Cons.prems(5) Suc pos by simp
    have "ta_action a = (if n = length chain then exhausted else if idx + 1 + n = 0 then WAIT else ESCALATE) \<and>
      ta_escalate_to a = (if n = length chain \<or> idx + 1 + n = 0 then None else Some (step_role (chain ! n)))"
      by (rule Cons.IH [of "idx + 1" "cum + step_timeout_minutes st * 60"])
        (use Cons.prems Suc late in \<open>auto simp: Let_def add.assoc\<close>)
    then show ?thesis using Suc by auto
  qed
qed

text \<open>
  Escalation chains. With a valid chain, the time since creation falls into exactly one step: before
  the end of the first step the policy waits, during a later step it escalates to that step's role, and
  once the sum of all time-outs has passed it applies the final action.
\<close>

theorem escalation_chain_steps:
  assumes "valid_timeout_config (EscalationChainConfig chain exhausted)"
    and "create_timeout_policy (EscalationChainConfig chain exhausted) = Inr p" and "determine_action p item elapsed = Inr a"
  shows "\<exists>!i. i \<le> length chain \<and> (i = 0 \<or> chain_end chain i \<le> elapsed) \<and> (i = length chain \<or> elapsed < chain_end chain (Suc i)) \<and>
    (ta_action a, ta_escalate_to a) = chain_target exhausted chain i"
proof -
  have v: "chain \<noteq> []" "list_all valid_step chain" "exhausted \<noteq> ESCALATE"
    using assms(1) by (auto simp: valid_timeout_config_def)
  have p: "p = EscalationChainPolicy chain exhausted"
    using assms(2) by (simp add: create_timeout_policy_def)
  have run: "chain_action exhausted elapsed 0 0 chain = Inr a" using assms(3) v(1) by (simp add: p determine_action_def)
  let ?in = "\<lambda>i. i \<le> length chain \<and> (i = 0 \<or> chain_end chain i \<le> elapsed) \<and> (i = length chain \<or> elapsed < chain_end chain (Suc i))"
  have mono: "chain_end chain i \<le> chain_end chain j" if "i \<le> j" for i j
  proof -
    define d where "d = j - i"
    have d: "j = i + d" using that by (simp add: d_def)
    have "0 \<le> (\<Sum>st \<leftarrow> take d (drop i chain). step_timeout_minutes st * 60)"
      using v(2) by (intro sum_list_nonneg) (auto simp: list_all_iff valid_step_def less_imp_le dest!: in_set_takeD in_set_dropD)
    then show ?thesis by (simp add: chain_end_def d take_add)
  qed
  define i where "i = (LEAST i. i = length chain \<or> elapsed < chain_end chain (Suc i))"
  have i: "i = length chain \<or> elapsed < chain_end chain (Suc i)" unfolding i_def by (rule LeastI [of _ "length chain"]) simp
  have "i \<le> length chain" unfolding i_def by (rule Least_le) simp
  moreover have "i = 0 \<or> chain_end chain i \<le> elapsed"
    using not_less_Least [of "i - 1" "\<lambda>i. i = length chain \<or> elapsed < chain_end chain (Suc i)"] unfolding i_def [symmetric] by (cases i) auto
  ultimately have here: "?in i" using i by blast
  have target: "(ta_action a, ta_escalate_to a) = chain_target exhausted chain i"
    using chain_action_steps [OF v(2,3) run, of i] here by (simp add: chain_target_def)
  have unique: "j = k" if "?in j" "?in k" for j k
    using that mono [of "Suc j" k] mono [of "Suc k" j] by (cases j k rule: linorder_cases) auto
  show ?thesis
  proof (rule ex1I [of _ i])
    show "i \<le> length chain \<and> (i = 0 \<or> chain_end chain i \<le> elapsed) \<and> (i = length chain \<or> elapsed < chain_end chain (Suc i)) \<and>
      (ta_action a, ta_escalate_to a) = chain_target exhausted chain i" using here target by blast
  qed (use unique here in blast)
qed

subsection \<open>A tick of the scheduler\<close>


definition expire :: "time \<Rightarrow> ApprovalItem \<Rightarrow> ApprovalItem" where
  "expire now i = (if has_expired now i then i\<lparr>ap_status := EXPIRED\<rparr> else i)"


definition agree_off :: "string set \<Rightarrow> approval_store \<Rightarrow> approval_store \<Rightarrow> bool" where
  "agree_off K s s' \<longleftrightarrow> saves_in_flight s' = saves_in_flight s \<and> (approval_repo s' = None \<longleftrightarrow> approval_repo s = None) \<and>
     (\<forall>k. k \<notin> K \<longrightarrow> dget (items s') k = dget (items s) k \<and> durable s' k = durable s k)"

lemma agree_off_refl [simp]: "agree_off K s s"
  by (simp add: agree_off_def)







lemma decided_fields [simp]: "ap_id (decided st t a i) = ap_id i" "ap_created_at (decided st t a i) = ap_created_at i"
  by (simp_all add: decided_def)





lemma expire_facts [simp]:
  "ap_id (expire now r) = ap_id r" "\<not> has_expired now (expire now r)"
  "ap_status (expire now r) = PENDING \<longleftrightarrow> ap_status r = PENDING \<and> \<not> has_expired now r"
  by (auto simp: expire_def has_expired_def)







subsection \<open>Examples\<close>

definition sample_tiers :: "(string, TierConfig) dict" where
  "sample_tiers =
     [(''low'', \<lparr>tier_timeout_minutes = 1, tier_on_timeout = APPROVE, tier_actions = [''deploy:production'']\<rparr>),
      (''high'', \<lparr>tier_timeout_minutes = 1, tier_on_timeout = APPROVE, tier_actions = []\<rparr>)]"

definition sample_chain :: "EscalationStep list" where
  "sample_chain = [\<lparr>step_role = ''lead'', step_timeout_minutes = 1\<rparr>, \<lparr>step_role = ''cto'', step_timeout_minutes = 2\<rparr>]"

lemma sample_item_valid: "valid_item sample_item" "ap_status sample_item = PENDING"
  by (simp_all add: valid_item_def item_check_def item_fields_def validate_decision_fields_def validate_expiry_def
      sample_item_def py_isspace_def)

lemma sample_tiers_valid: "valid_timeout_config (TieredTimeoutConfig sample_tiers)"
  by (simp add: valid_timeout_config_def sample_tiers_def valid_tier_def risk_of_value_def risk_value_def)

lemma sample_chain_valid: "valid_timeout_config (EscalationChainConfig sample_chain DENY)"
  by (simp add: valid_timeout_config_def sample_chain_def valid_step_def py_isspace_def)

theorem timeout_resolution_valid_witness:
  "\<exists>p a j. create_timeout_policy (DenyOnTimeoutConfig 1) = Inr p \<and> check_and_resolve p 90 95 sample_item = Inr (j, a) \<and> valid_item j"
  using timeout_resolution_valid [of "DenyOnTimeoutConfig 1", OF _ sample_item_valid, of 90 95] by (auto simp: valid_timeout_config_def)

theorem tiered_auto_approval_witness:
  "\<exists>p a. create_timeout_policy (TieredTimeoutConfig sample_tiers) = Inr p \<and>
     determine_action p (sample_item\<lparr>ap_action_type := ''deploy:production''\<rparr>) 60 = Inr a \<and> ta_action a = APPROVE"
proof -
  let ?i = "sample_item\<lparr>ap_action_type := ''deploy:production''\<rparr>"
  obtain p where p: "create_timeout_policy (TieredTimeoutConfig sample_tiers) = Inr p" by (simp add: create_timeout_policy_def)
  obtain a where a: "determine_action p ?i 60 = Inr a" using determine_action_ok [OF sample_tiers_valid p] by blast
  have "tier_for sample_tiers (tier_classify None) (ap_action_type ?i) = Some (RISK_LOW, snd (hd sample_tiers))"
    by (simp add: tier_for_def explicit_tier_def sample_tiers_def risk_of_value_def risk_value_def)
  then show ?thesis using tiered_auto_approval [OF sample_tiers_valid p a] p a by (auto simp: sample_tiers_def)
qed

theorem escalation_chain_steps_witness:
  "\<exists>p a. create_timeout_policy (EscalationChainConfig sample_chain DENY) = Inr p \<and>
     determine_action p sample_item 100 = Inr a \<and> ta_action a = ESCALATE \<and> ta_escalate_to a = Some ''cto''"
proof -
  obtain p where p: "create_timeout_policy (EscalationChainConfig sample_chain DENY) = Inr p" by (simp add: create_timeout_policy_def)
  obtain a where a: "determine_action p sample_item 100 = Inr a" using determine_action_ok [OF sample_chain_valid p] by blast
  obtain i where i: "i \<le> length sample_chain" "i = 0 \<or> chain_end sample_chain i \<le> 100"
    "i = length sample_chain \<or> 100 < chain_end sample_chain (Suc i)" "(ta_action a, ta_escalate_to a) = chain_target DENY sample_chain i"
    using ex1_implies_ex [OF escalation_chain_steps [OF sample_chain_valid p a]] by blast
  have "i = 1" using i(1-3) by (auto simp: sample_chain_def le_Suc_eq chain_end_def)
  then show ?thesis using i(4) p a by (simp add: chain_target_def sample_chain_def)
qed



end
