(* ===== verification/Security_Rules.thy ===== *)
theory Security_Rules
  imports Approval_Timeouts
begin

text \<open>
  The synchronous security rules (\<^verbatim>\<open>security/rules/\<close>, \<^verbatim>\<open>security/models.py\<close>, \<^verbatim>\<open>security/config.py\<close>): verdicts, the
  policy validator, custom policies, detectors over nested tool arguments, the rule engine and its
  assembly from the configuration (\<^verbatim>\<open>engine/_security_factory.py\<close>).

  A rule is a name and an evaluation that may raise (\<open>Inl\<close>). The path traversal detector is modelled with
  its patterns. The credential, destructive operation and data leak detectors take what their regular
  expressions find in one string as an argument. Clock readings are arguments.
\<close>

subsection \<open>Verdicts\<close>

datatype SecurityVerdictType = VERDICT_ALLOW | VERDICT_DENY | VERDICT_ESCALATE

datatype EvaluationConfidence = CONFIDENCE_HIGH | CONFIDENCE_LOW

record SecurityVerdict =
  v_verdict :: SecurityVerdictType
  v_reason :: string
  v_risk_level :: ApprovalRiskLevel
  v_confidence :: EvaluationConfidence
  v_matched_rules :: "string list"
  v_evaluated_at :: time
  v_duration_ms :: rat
  v_approval_id :: "string option"
  v_agent_visible_reason :: "string option"

definition valid_verdict :: "SecurityVerdict \<Rightarrow> bool" where
  "valid_verdict v \<longleftrightarrow> not_blank (v_reason v) \<and> list_all not_blank (v_matched_rules v) \<and> 0 \<le> v_duration_ms v \<and>
     opt_not_blank (v_approval_id v) \<and> opt_not_blank (v_agent_visible_reason v) \<and>
     (v_verdict v \<noteq> VERDICT_ESCALATE \<longrightarrow> v_approval_id v = None)"

definition mk_verdict :: "SecurityVerdictType \<Rightarrow> string \<Rightarrow> ApprovalRiskLevel \<Rightarrow> string list \<Rightarrow> time \<Rightarrow> SecurityVerdict" where
  "mk_verdict t why risk rules now = \<lparr>v_verdict = t, v_reason = why, v_risk_level = risk, v_confidence = CONFIDENCE_HIGH,
     v_matched_rules = rules, v_evaluated_at = now, v_duration_ms = 0, v_approval_id = None, v_agent_visible_reason = None\<rparr>"

text \<open>Tool arguments: strings, nested dictionaries and lists; other values are skipped by the scans.\<close>

datatype argument = StrArg string | DictArg "(string \<times> argument) list" | ListArg "argument list" | OtherArg

record SecurityContext =
  cx_tool_name :: string
  cx_tool_category :: string
  cx_action_type :: string
  cx_arguments :: "(string \<times> argument) list"
  cx_agent_id :: "string option"
  cx_task_id :: "string option"

definition valid_security_context :: "SecurityContext \<Rightarrow> bool" where
  "valid_security_context c \<longleftrightarrow> not_blank (cx_tool_name c) \<and> opt_not_blank (cx_agent_id c) \<and> opt_not_blank (cx_task_id c) \<and>
     CHR '':'' \<in> set (cx_action_type c)"

subsection \<open>Scanning the arguments\<close>

definition MAX_RECURSION_DEPTH :: nat where
  "MAX_RECURSION_DEPTH = 20"

function walk_value :: "nat \<Rightarrow> argument \<Rightarrow> string list" where
  "walk_value d v =
     (if d \<ge> MAX_RECURSION_DEPTH then []
      else case v of
             StrArg s \<Rightarrow> [s]
           | DictArg kvs \<Rightarrow>
               if d + 1 \<ge> MAX_RECURSION_DEPTH then [] else concat (List.map (\<lambda>kv. walk_value (d + 1) (snd kv)) kvs)
           | ListArg vs \<Rightarrow> concat (List.map (walk_value (d + 1)) vs)
           | OtherArg \<Rightarrow> [])"
  by pat_completeness auto

termination walk_value
  by (relation "measure (\<lambda>(d, _). MAX_RECURSION_DEPTH - d)") auto

declare walk_value.simps [simp del]

definition walk_string_values :: "(string \<times> argument) list \<Rightarrow> string list" where
  "walk_string_values args = concat (List.map (\<lambda>kv. walk_value 0 (snd kv)) args)"

subsection \<open>The path traversal detector\<close>

definition is_sep :: "char \<Rightarrow> bool" where
  "is_sep c \<longleftrightarrow> c = CHR ''/'' \<or> c = CHR 0x5C"

text \<open>\<open>$\<close>: at the end, or before a final newline.\<close>

definition at_end :: "string \<Rightarrow> bool" where
  "at_end rest \<longleftrightarrow> rest = [] \<or> rest = [CHR 0x0A]"

definition lit_here :: "string \<Rightarrow> string \<Rightarrow> bool" where
  "lit_here l s \<longleftrightarrow> List.map ascii_lower (take (length l) s) = l"

definition suffixes_of :: "string \<Rightarrow> string list" where
  "suffixes_of s = List.map (\<lambda>n. drop n s) [0 ..< length s + 1]"

definition dots_here :: "string \<Rightarrow> bool" where
  "dots_here s \<longleftrightarrow> take 2 s = ''..'' \<and> (at_end (drop 2 s) \<or> (drop 2 s \<noteq> [] \<and> is_sep (hd (drop 2 s))))"

definition directory_traversal :: "string \<Rightarrow> bool" where
  "directory_traversal s \<longleftrightarrow> dots_here s \<or> list_ex (\<lambda>t. t \<noteq> [] \<and> is_sep (hd t) \<and> dots_here (tl t)) (suffixes_of s)"

definition encoded_traversal :: "string \<Rightarrow> bool" where
  "encoded_traversal s \<longleftrightarrow> list_ex (\<lambda>t.
     lit_here ''%2e%2e'' t \<and> drop 6 t \<noteq> [] \<and> (hd (drop 6 t) = CHR ''%'' \<or> is_sep (hd (drop 6 t))) \<or>
     t \<noteq> [] \<and> is_sep (hd t) \<and> lit_here ''%2e%2e'' (tl t)) (suffixes_of s)"

definition contains_lit :: "string \<Rightarrow> string \<Rightarrow> bool" where
  "contains_lit l s \<longleftrightarrow> list_ex (lit_here l) (suffixes_of s)"

definition unc_path :: "string \<Rightarrow> bool" where
  "unc_path s \<longleftrightarrow> take 2 s = [CHR 0x5C, CHR 0x5C] \<and> drop 2 s \<noteq> [] \<and> hd (drop 2 s) \<noteq> CHR 0x5C"

definition TRAVERSAL_PATTERNS :: "(string \<times> (string \<Rightarrow> bool)) list" where
  "TRAVERSAL_PATTERNS =
     [(''directory traversal (../)'', directory_traversal),
      (''null byte injection'', \<lambda>s. CHR 0x00 \<in> set s),
      (''URL-encoded traversal (%2e%2e)'', encoded_traversal),
      (''double-encoded traversal'', contains_lit ''%252e%252e''),
      (''overlong UTF-8 traversal'', contains_lit ''%c0%ae''),
      (''Windows UNC path'', unc_path)]"

definition traversal_scan_value :: "string \<Rightarrow> string option" where
  "traversal_scan_value s = map_option fst (find (\<lambda>np. snd np s) TRAVERSAL_PATTERNS)"

fun py_join :: "string \<Rightarrow> string list \<Rightarrow> string" where
  "py_join sep [] = []"
| "py_join sep [x] = x"
| "py_join sep (x # xs) = x @ sep @ py_join sep xs"

definition sorted_unique :: "string list \<Rightarrow> string list" where
  "sorted_unique xs = sort (remdups xs)"

definition path_traversal_evaluate :: "time \<Rightarrow> SecurityContext \<Rightarrow> SecurityVerdict option" where
  "path_traversal_evaluate now c =
     (let findings = List.map_filter traversal_scan_value (walk_string_values (cx_arguments c)) in
      if findings = [] then None
      else Some (mk_verdict VERDICT_DENY (''Path traversal detected: '' @ py_join '', '' (sorted_unique findings))
             RISK_CRITICAL [''path_traversal_detector''] now))"

text \<open>
  The other detectors, over what their patterns find in one string: the first match for credentials and
  data leaks, all matches with their verdicts for destructive operations.
\<close>

definition credential_evaluate :: "(string \<Rightarrow> string option) \<Rightarrow> time \<Rightarrow> SecurityContext \<Rightarrow> SecurityVerdict option" where
  "credential_evaluate scan now c =
     (let findings = List.map_filter scan (walk_string_values (cx_arguments c)) in
      if findings = [] then None
      else Some (mk_verdict VERDICT_DENY (''Credential detected in arguments: '' @ py_join '', '' (sorted_unique findings))
             RISK_CRITICAL [''credential_detector''] now))"

definition destructive_evaluate ::
  "(string \<Rightarrow> (string \<times> SecurityVerdictType) list) \<Rightarrow> time \<Rightarrow> SecurityContext \<Rightarrow> SecurityVerdict option" where
  "destructive_evaluate scan now c =
     (let findings = concat (List.map scan (walk_string_values (cx_arguments c))) in
      if findings = [] then None
      else let has_deny = list_ex (\<lambda>f. snd f = VERDICT_DENY) findings in
        Some (mk_verdict (if has_deny then VERDICT_DENY else VERDICT_ESCALATE)
          (''Destructive operation detected: '' @ py_join '', '' (sorted_unique (List.map fst findings)))
          (if has_deny then RISK_CRITICAL else RISK_HIGH) [''destructive_op_detector''] now))"

text \<open>Data leaks: the label of the first sensitive path pattern, and the names of all matching PII patterns.\<close>

definition check_sensitive_paths :: "(string \<Rightarrow> string option) \<Rightarrow> (string \<times> argument) list \<Rightarrow> string list" where
  "check_sensitive_paths path_label args =
     List.map (\<lambda>l. ''sensitive path detected ('' @ l @ '')'') (List.map_filter path_label (walk_string_values args))"

definition check_pii :: "(string \<Rightarrow> string list) \<Rightarrow> (string \<times> argument) list \<Rightarrow> string list" where
  "check_pii pii_names args = concat (List.map pii_names (walk_string_values args))"

definition data_leak_evaluate ::
  "(string \<Rightarrow> string option) \<Rightarrow> (string \<Rightarrow> string list) \<Rightarrow> time \<Rightarrow> SecurityContext \<Rightarrow> SecurityVerdict option" where
  "data_leak_evaluate path_label pii_names now c =
     (let findings = check_sensitive_paths path_label (cx_arguments c) @ check_pii pii_names (cx_arguments c) in
      if findings = [] then None
      else Some (mk_verdict VERDICT_DENY (''Data leak risk: '' @ py_join '', '' (sorted_unique findings))
             RISK_HIGH [''data_leak_detector''] now))"

subsection \<open>Configured rules\<close>

definition policy_validator_evaluate :: "string list \<Rightarrow> string list \<Rightarrow> time \<Rightarrow> SecurityContext \<Rightarrow> SecurityVerdict option" where
  "policy_validator_evaluate hard_deny auto_approve now c =
     (if cx_action_type c \<in> set hard_deny then
        Some (mk_verdict VERDICT_DENY (''Action type '' @ py_repr (cx_action_type c) @ '' is in the hard-deny list'')
                RISK_CRITICAL [''policy_validator''] now)
      else if cx_action_type c \<in> set auto_approve then
        Some (mk_verdict VERDICT_ALLOW (''Action type '' @ py_repr (cx_action_type c) @ '' is in the auto-approve list'')
                RISK_LOW [''policy_validator''] now)
      else None)"

record SecurityPolicyRule =
  pol_name :: string
  pol_description :: string
  pol_action_types :: "string list"
  pol_verdict :: SecurityVerdictType
  pol_risk_level :: ApprovalRiskLevel
  pol_enabled :: bool

definition valid_policy_rule :: "SecurityPolicyRule \<Rightarrow> bool" where
  "valid_policy_rule p \<longleftrightarrow> not_blank (pol_name p) \<and>
     list_all (\<lambda>a. case split_on (CHR '':'') a of [cat, act] \<Rightarrow> not_blank cat \<and> not_blank act | _ \<Rightarrow> False) (pol_action_types p)"

definition custom_rule_name :: "SecurityPolicyRule \<Rightarrow> string" where
  "custom_rule_name p = ''custom_policy:'' @ pol_name p"

definition custom_policy_evaluate :: "SecurityPolicyRule \<Rightarrow> time \<Rightarrow> SecurityContext \<Rightarrow> SecurityVerdict option" where
  "custom_policy_evaluate p now c =
     (if \<not> pol_enabled p then None
      else if cx_action_type c \<notin> set (pol_action_types p) then None
      else let why = ''Custom policy '' @ py_repr (pol_name p) @ '' matched action_type '' @ py_repr (cx_action_type c) in
        Some (mk_verdict (pol_verdict p) (if pol_description p \<noteq> [] then why @ '' -- '' @ pol_description p else why)
                (pol_risk_level p) [custom_rule_name p] now))"

definition SECURITY_RISK_MAP :: "(string, ApprovalRiskLevel) dict" where
  "SECURITY_RISK_MAP =
     [(''deploy:production'', RISK_CRITICAL), (''db:admin'', RISK_CRITICAL), (''org:fire'', RISK_CRITICAL),
      (''deploy:staging'', RISK_HIGH), (''db:mutate'', RISK_HIGH), (''code:delete'', RISK_HIGH), (''vcs:push'', RISK_HIGH),
      (''comms:external'', RISK_HIGH), (''budget:exceed'', RISK_HIGH),
      (''code:create'', RISK_MEDIUM), (''code:write'', RISK_MEDIUM), (''code:refactor'', RISK_MEDIUM),
      (''vcs:commit'', RISK_MEDIUM), (''arch:decide'', RISK_MEDIUM), (''org:hire'', RISK_MEDIUM),
      (''org:promote'', RISK_MEDIUM), (''budget:spend'', RISK_MEDIUM),
      (''code:read'', RISK_LOW), (''vcs:read'', RISK_LOW), (''test:run'', RISK_LOW), (''test:write'', RISK_LOW),
      (''docs:write'', RISK_LOW), (''vcs:branch'', RISK_LOW), (''comms:internal'', RISK_LOW), (''db:query'', RISK_LOW),
      (''memory:read'', RISK_LOW)]"

definition classify_risk :: "(string, ApprovalRiskLevel) dict option \<Rightarrow> string \<Rightarrow> ApprovalRiskLevel" where
  "classify_risk custom act =
     dget_or (case custom of None \<Rightarrow> SECURITY_RISK_MAP | Some m \<Rightarrow> AList.updates (List.map fst m) (List.map snd m) SECURITY_RISK_MAP)
       act RISK_HIGH"

subsection \<open>The rule engine\<close>

record security_rule =
  rule_name :: string
  rule_evaluate :: "SecurityContext \<Rightarrow> unit + SecurityVerdict option"

text \<open>The wall clock, and the milliseconds since the start after each rule.\<close>

record engine_clock =
  ec_now :: time
  ec_ms :: "nat \<Rightarrow> rat"

definition SOFT_ALLOW_RULES :: "string list" where
  "SOFT_ALLOW_RULES = [''policy_validator'']"

definition safe_evaluate :: "engine_clock \<Rightarrow> security_rule \<Rightarrow> SecurityContext \<Rightarrow> SecurityVerdict option" where
  "safe_evaluate clk r c =
     (case rule_evaluate r c of
        Inr v \<Rightarrow> v
      | Inl _ \<Rightarrow> Some (mk_verdict VERDICT_DENY (''Security rule '' @ py_repr (rule_name r) @ '' failed (fail-closed)'')
                        RISK_CRITICAL [rule_name r] (ec_now clk)))"

text \<open>\<open>Inr\<close> is the verdict that ends the loop, \<open>Inl\<close> the recorded soft allow after the last rule.\<close>

fun run_rules ::
  "engine_clock \<Rightarrow> SecurityContext \<Rightarrow> nat \<Rightarrow> SecurityVerdict option \<Rightarrow> security_rule list \<Rightarrow> SecurityVerdict option + SecurityVerdict" where
  "run_rules clk c idx soft [] = Inl soft"
| "run_rules clk c idx soft (r # rs) =
     (case safe_evaluate clk r c of
        None \<Rightarrow> run_rules clk c (idx + 1) soft rs
      | Some v \<Rightarrow>
          if v_verdict v = VERDICT_ALLOW \<and> rule_name r \<in> set SOFT_ALLOW_RULES
          then run_rules clk c (idx + 1) (Some (v\<lparr>v_duration_ms := ec_ms clk idx\<rparr>)) rs
          else Inr (v\<lparr>v_duration_ms := ec_ms clk idx\<rparr>))"

definition engine_evaluate :: "engine_clock \<Rightarrow> security_rule list \<Rightarrow> SecurityContext \<Rightarrow> SecurityVerdict" where
  "engine_evaluate clk rules c =
     (case run_rules clk c 0 None rules of
        Inr v \<Rightarrow> v
      | Inl (Some v) \<Rightarrow> v\<lparr>v_duration_ms := ec_ms clk (length rules)\<rparr>
      | Inl None \<Rightarrow>
          (mk_verdict VERDICT_ALLOW ''No security rule triggered'' (classify_risk None (cx_action_type c)) [] (ec_now clk))
            \<lparr>v_confidence := CONFIDENCE_LOW, v_duration_ms := ec_ms clk (length rules)\<rparr>)"

subsection \<open>Configuration and assembly\<close>

datatype SecurityEnforcementMode = ACTIVE_MODE | SHADOW_MODE | DISABLED_MODE

datatype LlmFallbackErrorPolicy = USE_RULE_VERDICT | ESCALATE_ON_ERROR | DENY_ON_ERROR

datatype OutputScanPolicyType = SCAN_REDACT | SCAN_WITHHOLD | SCAN_LOG_ONLY | SCAN_AUTONOMY_TIERED

record RuleEngineConfig =
  credential_patterns_enabled :: bool
  data_leak_detection_enabled :: bool
  destructive_op_detection_enabled :: bool
  path_traversal_detection_enabled :: bool
  custom_allow_bypasses_detectors :: bool

record SecurityConfig =
  sc_enabled :: bool
  sc_enforcement_mode :: SecurityEnforcementMode
  sc_rule_engine :: RuleEngineConfig
  sc_llm_enabled :: bool
  sc_llm_on_error :: LlmFallbackErrorPolicy
  sc_audit_enabled :: bool
  sc_post_tool_scanning_enabled :: bool
  sc_hard_deny :: "string list"
  sc_auto_approve :: "string list"
  sc_output_scan_policy_type :: OutputScanPolicyType
  sc_custom_policies :: "SecurityPolicyRule list"
  sc_auto_reject_blocked :: bool
  sc_safe_tool_categories :: "string list"
  sc_low_confidence_threshold :: rat

definition check_disjoint_action_types :: "SecurityConfig \<Rightarrow> bool" where
  "check_disjoint_action_types cfg \<longleftrightarrow> set (sc_hard_deny cfg) \<inter> set (sc_auto_approve cfg) = {}"

definition check_unique_policy_names :: "SecurityConfig \<Rightarrow> bool" where
  "check_unique_policy_names cfg \<longleftrightarrow> distinct (List.map pol_name (sc_custom_policies cfg))"

definition check_no_bypass :: "SecurityConfig \<Rightarrow> bool" where
  "check_no_bypass cfg \<longleftrightarrow> \<not> custom_allow_bypasses_detectors (sc_rule_engine cfg) \<or>
     list_all (\<lambda>p. pol_enabled p \<longrightarrow> pol_verdict p \<notin> {VERDICT_ALLOW, VERDICT_ESCALATE}) (sc_custom_policies cfg)"

definition valid_security_config :: "SecurityConfig \<Rightarrow> bool" where
  "valid_security_config cfg \<longleftrightarrow> list_all valid_policy_rule (sc_custom_policies cfg) \<and>
     check_disjoint_action_types cfg \<and> check_unique_policy_names cfg \<and> check_no_bypass cfg"

text \<open>What the regular expressions of the detectors find in one string.\<close>

record patterns =
  credential_scan :: "string \<Rightarrow> string option"
  destructive_scan :: "string \<Rightarrow> (string \<times> SecurityVerdictType) list"
  path_label :: "string \<Rightarrow> string option"
  pii_names :: "string \<Rightarrow> string list"

definition detectors :: "patterns \<Rightarrow> time \<Rightarrow> RuleEngineConfig \<Rightarrow> security_rule list" where
  "detectors pt now re =
     (if credential_patterns_enabled re
      then [\<lparr>rule_name = ''credential_detector'', rule_evaluate = (\<lambda>c. Inr (credential_evaluate (credential_scan pt) now c))\<rparr>] else []) @
     (if path_traversal_detection_enabled re
      then [\<lparr>rule_name = ''path_traversal_detector'', rule_evaluate = (\<lambda>c. Inr (path_traversal_evaluate now c))\<rparr>] else []) @
     (if destructive_op_detection_enabled re
      then [\<lparr>rule_name = ''destructive_op_detector'', rule_evaluate = (\<lambda>c. Inr (destructive_evaluate (destructive_scan pt) now c))\<rparr>] else []) @
     (if data_leak_detection_enabled re
      then [\<lparr>rule_name = ''data_leak_detector'', rule_evaluate = (\<lambda>c. Inr (data_leak_evaluate (path_label pt) (pii_names pt) now c))\<rparr>] else [])"

definition build_rule_engine :: "patterns \<Rightarrow> time \<Rightarrow> SecurityConfig \<Rightarrow> security_rule list" where
  "build_rule_engine pt now cfg =
     (let validator = \<lparr>rule_name = ''policy_validator'',
            rule_evaluate = (\<lambda>c. Inr (policy_validator_evaluate (sc_hard_deny cfg) (sc_auto_approve cfg) now c))\<rparr>;
          custom = List.map (\<lambda>p. \<lparr>rule_name = custom_rule_name p, rule_evaluate = (\<lambda>c. Inr (custom_policy_evaluate p now c))\<rparr>)
            (filter pol_enabled (sc_custom_policies cfg));
          bypass = custom_allow_bypasses_detectors (sc_rule_engine cfg)
      in [validator] @ (if bypass then custom else []) @ detectors pt now (sc_rule_engine cfg) @ (if bypass then [] else custom))"

subsection \<open>Nested arguments\<close>

text \<open>A string that occurs in an argument under a number of containers.\<close>

inductive occurs :: "nat \<Rightarrow> argument \<Rightarrow> string \<Rightarrow> bool" where
  here: "occurs 0 (StrArg s) s"
| in_dict: "(k, v) \<in> set kvs \<Longrightarrow> occurs n v s \<Longrightarrow> occurs (Suc n) (DictArg kvs) s"
| in_list: "v \<in> set vs \<Longrightarrow> occurs n v s \<Longrightarrow> occurs (Suc n) (ListArg vs) s"

inductive_simps occurs_simps: "occurs n (StrArg t) s" "occurs n (DictArg kvs) s" "occurs n (ListArg vs) s" "occurs n OtherArg s"

lemma occurs_dict: "occurs m (DictArg kvs) s \<longleftrightarrow> (\<exists>n. m = Suc n \<and> (\<exists>kv \<in> set kvs. occurs n (snd kv) s))"
  by (force simp: occurs_simps)

lemma occurs_list: "occurs m (ListArg vs) s \<longleftrightarrow> (\<exists>n. m = Suc n \<and> (\<exists>v \<in> set vs. occurs n v s))"
  by (auto simp: occurs_simps)

lemma occurs_containers:
  "(\<exists>m. occurs m (DictArg kvs) s \<and> d + m < M) \<longleftrightarrow> (\<exists>kv \<in> set kvs. \<exists>n. occurs n (snd kv) s \<and> d + 1 + n < M)"
  "(\<exists>m. occurs m (ListArg vs) s \<and> d + m < M) \<longleftrightarrow> (\<exists>v \<in> set vs. \<exists>n. occurs n v s \<and> d + 1 + n < M)"
  unfolding occurs_dict occurs_list by (simp_all only: ex_simps(1) [symmetric] conj_assoc) (simp; blast)+

lemma find_not_None: "find P xs \<noteq> None \<longleftrightarrow> (\<exists>x \<in> set xs. P x)"
  by (induction xs) auto

lemma walk_value_simps:
  "walk_value d (StrArg s) = (if d \<ge> MAX_RECURSION_DEPTH then [] else [s])"
  "walk_value d (DictArg kvs) = (if d + 1 \<ge> MAX_RECURSION_DEPTH then [] else concat (List.map (\<lambda>kv. walk_value (d + 1) (snd kv)) kvs))"
  "walk_value d (ListArg vs) = (if d \<ge> MAX_RECURSION_DEPTH then [] else concat (List.map (walk_value (d + 1)) vs))"
  "walk_value d OtherArg = []"
  by (subst walk_value.simps, simp)+

lemma walk_value_iff: "s \<in> set (walk_value d v) \<longleftrightarrow> (\<exists>n. occurs n v s \<and> d + n < MAX_RECURSION_DEPTH)"
proof (induction d v rule: walk_value.induct)
  case (1 d v)
  show ?case
  proof (cases "d \<ge> MAX_RECURSION_DEPTH")
    case False
    show ?thesis
    proof (cases v)
      case (StrArg t)
      then show ?thesis using False by (auto simp: walk_value_simps occurs_simps)
    next
      case (DictArg kvs)
      have IH: "s \<in> set (walk_value (d + 1) (snd kv)) \<longleftrightarrow> (\<exists>n. occurs n (snd kv) s \<and> d + 1 + n < MAX_RECURSION_DEPTH)"
        if "kv \<in> set kvs" "\<not> d + 1 \<ge> MAX_RECURSION_DEPTH" for kv using "1.IH"(1) [OF False DictArg that(2,1)] .
      have "s \<in> set (walk_value d v) \<longleftrightarrow> \<not> d + 1 \<ge> MAX_RECURSION_DEPTH \<and> (\<exists>kv \<in> set kvs. s \<in> set (walk_value (d + 1) (snd kv)))"
        using DictArg by (auto simp: walk_value_simps)
      also have "\<dots> \<longleftrightarrow> (\<exists>kv \<in> set kvs. \<exists>n. occurs n (snd kv) s \<and> d + 1 + n < MAX_RECURSION_DEPTH)"
        using IH by (cases "d + 1 \<ge> MAX_RECURSION_DEPTH") auto
      finally show ?thesis unfolding DictArg occurs_containers .
    next
      case (ListArg vs)
      have "s \<in> set (walk_value d v) \<longleftrightarrow> (\<exists>w \<in> set vs. s \<in> set (walk_value (d + 1) w))"
        using ListArg False by (simp add: walk_value_simps)
      also have "\<dots> \<longleftrightarrow> (\<exists>w \<in> set vs. \<exists>n. occurs n w s \<and> d + 1 + n < MAX_RECURSION_DEPTH)"
        using "1.IH"(2) [OF False ListArg] by simp
      finally show ?thesis unfolding ListArg occurs_containers .
    next
      case OtherArg
      then show ?thesis using False by (auto simp: walk_value_simps occurs_simps)
    qed
  qed (simp add: walk_value.simps [of d v])
qed

lemma walk_string_values_iff:
  "s \<in> set (walk_string_values args) \<longleftrightarrow> (\<exists>k v n. (k, v) \<in> set args \<and> occurs n v s \<and> n < 20)"
  by (force simp: walk_string_values_def walk_value_iff MAX_RECURSION_DEPTH_def)

lemma set_suffixes_of: "t \<in> set (suffixes_of s) \<longleftrightarrow> (\<exists>p. s = p @ t)"
proof
  assume "t \<in> set (suffixes_of s)"
  then show "\<exists>p. s = p @ t" unfolding suffixes_of_def by (auto simp del: upt_Suc) (metis append_take_drop_id)
next
  assume "\<exists>p. s = p @ t"
  then obtain p where "s = p @ t" by blast
  then have "t = drop (length p) s" "length p \<in> set [0 ..< length s + 1]" by auto
  then show "t \<in> set (suffixes_of s)" unfolding suffixes_of_def by (metis image_eqI list.set_map)
qed

lemma dots_between: "is_sep a \<Longrightarrow> is_sep b \<Longrightarrow> directory_traversal (x @ [a] @ ''..'' @ [b] @ y)"
proof -
  assume s: "is_sep a" "is_sep b"
  let ?t = "a # ''..'' @ [b] @ y"
  have "?t \<in> set (suffixes_of (x @ [a] @ ''..'' @ [b] @ y))" by (auto simp: set_suffixes_of)
  moreover have "dots_here (tl ?t)" using s(2) by (simp add: dots_here_def)
  ultimately show ?thesis using s(1) unfolding directory_traversal_def list_ex_iff by (metis hd_append2 list.discI list.sel(1))
qed

text \<open>
  The path traversal detector denies exactly when a string argument nested in fewer than twenty
  containers matches one of its patterns, and then with CRITICAL risk; a path with a separator, two
  dots and a separator always matches.
\<close>

theorem path_traversal_exact:
  "(path_traversal_evaluate now c \<noteq> None \<longleftrightarrow>
      (\<exists>k v n s. (k, v) \<in> set (cx_arguments c) \<and> occurs n v s \<and> n < 20 \<and>
         (\<exists>np \<in> set TRAVERSAL_PATTERNS. snd np s))) \<and>
   (case path_traversal_evaluate now c of None \<Rightarrow> True | Some w \<Rightarrow> v_verdict w = VERDICT_DENY \<and> v_risk_level w = RISK_CRITICAL) \<and>
   (\<exists>np \<in> set TRAVERSAL_PATTERNS. snd np (x @ ''/../'' @ y))"
proof -
  have "List.map_filter traversal_scan_value xs \<noteq> [] \<longleftrightarrow> (\<exists>s \<in> set xs. traversal_scan_value s \<noteq> None)" for xs
    by (induction xs) (auto simp: List.map_filter_simps split: option.splits)
  moreover have "traversal_scan_value s \<noteq> None \<longleftrightarrow> (\<exists>np \<in> set TRAVERSAL_PATTERNS. snd np s)" for s
    
    using find_not_None [of "\<lambda>np. snd np s" TRAVERSAL_PATTERNS] by (simp add: traversal_scan_value_def)
  ultimately have iff: "path_traversal_evaluate now c \<noteq> None \<longleftrightarrow>
      (\<exists>s \<in> set (walk_string_values (cx_arguments c)). \<exists>np \<in> set TRAVERSAL_PATTERNS. snd np s)"
    by (auto simp: path_traversal_evaluate_def Let_def)
  have "directory_traversal (x @ ''/../'' @ y)"
    using dots_between [of "CHR ''/''" "CHR ''/''" x y] by (simp add: is_sep_def)
  then have "\<exists>np \<in> set TRAVERSAL_PATTERNS. snd np (x @ ''/../'' @ y)" by (simp add: TRAVERSAL_PATTERNS_def)
  moreover have "case path_traversal_evaluate now c of None \<Rightarrow> True | Some w \<Rightarrow> v_verdict w = VERDICT_DENY \<and> v_risk_level w = RISK_CRITICAL"
    by (simp add: path_traversal_evaluate_def Let_def mk_verdict_def)
  ultimately show ?thesis unfolding iff Bex_def walk_string_values_iff by blast
qed

subsection \<open>The rule engine\<close>

text \<open>A rule that ends the evaluation: it fails, denies, escalates, or allows without being a soft rule.\<close>

definition decisive :: "engine_clock \<Rightarrow> SecurityContext \<Rightarrow> security_rule \<Rightarrow> bool" where
  "decisive clk c r = (case safe_evaluate clk r c of
     None \<Rightarrow> False | Some v \<Rightarrow> \<not> (v_verdict v = VERDICT_ALLOW \<and> rule_name r \<in> set SOFT_ALLOW_RULES))"

lemma run_rules_decisive:
  assumes "find (decisive clk c) rules = Some r"
  shows "\<exists>v d. safe_evaluate clk r c = Some v \<and> run_rules clk c idx soft rules = Inr (v\<lparr>v_duration_ms := d\<rparr>)"
  using assms
  by (induction clk c idx soft rules rule: run_rules.induct)
    (auto simp: decisive_def split: option.splits if_splits)

lemma engine_decisive:
  assumes "find (decisive clk c) rules = Some r"
  shows "\<exists>w d. safe_evaluate clk r c = Some w \<and> engine_evaluate clk rules c = w\<lparr>v_duration_ms := d\<rparr>"
  using run_rules_decisive [OF assms, of 0 None] by (auto simp: engine_evaluate_def)

lemma run_rules_open:
  assumes "find (decisive clk c) rules = None"
  shows "run_rules clk c idx soft rules = Inl soft \<and> list_all (\<lambda>r. safe_evaluate clk r c = None) rules \<or>
    (\<exists>r v d. r \<in> set rules \<and> safe_evaluate clk r c = Some v \<and> v_verdict v = VERDICT_ALLOW \<and>
       run_rules clk c idx soft rules = Inl (Some (v\<lparr>v_duration_ms := d\<rparr>)))"
  using assms
proof (induction clk c idx soft rules rule: run_rules.induct)
  case (2 clk c idx soft r rs)
  show ?case
  proof (cases "safe_evaluate clk r c")
    case None
    then show ?thesis using 2 by (auto split: if_splits)
  next
    case (Some v)
    then have "v_verdict v = VERDICT_ALLOW" "rule_name r \<in> set SOFT_ALLOW_RULES" "find (decisive clk c) rs = None"
      using "2.prems" Some decisive_def [of clk c r] by (auto split: if_splits)
    then show ?thesis using "2.IH"(2) [OF Some] Some by fastforce
  qed
qed simp

text \<open>
  C26: the verdict of the rule engine. The first decisive rule (one that raises, denies, escalates, or
  allows without being the policy validator) gives the verdict, and a rule that raises counts as a DENY
  with CRITICAL risk. Without a decisive rule the verdict is ALLOW: with high confidence when some rule
  spoke, and with low confidence and the classified risk of the action type when none did.
\<close>

theorem rule_engine_outcome:
  "case find (decisive clk c) rules of
     Some r \<Rightarrow> \<exists>d. engine_evaluate clk rules c = (the (safe_evaluate clk r c))\<lparr>v_duration_ms := d\<rparr> \<and>
       (rule_evaluate r c = Inl () \<longrightarrow>
          v_verdict (engine_evaluate clk rules c) = VERDICT_DENY \<and> v_risk_level (engine_evaluate clk rules c) = RISK_CRITICAL)
   | None \<Rightarrow> v_verdict (engine_evaluate clk rules c) = VERDICT_ALLOW \<and>
       (list_all (\<lambda>r. rule_evaluate r c = Inr None) rules \<longrightarrow>
          v_confidence (engine_evaluate clk rules c) = CONFIDENCE_LOW \<and>
          v_risk_level (engine_evaluate clk rules c) = classify_risk None (cx_action_type c)) \<and>
       (\<not> list_all (\<lambda>r. rule_evaluate r c = Inr None) rules \<longrightarrow>
          (\<exists>r v d. r \<in> set rules \<and> rule_evaluate r c = Inr (Some v) \<and> v_verdict v = VERDICT_ALLOW \<and>
             engine_evaluate clk rules c = v\<lparr>v_duration_ms := d\<rparr>))"
proof (cases "find (decisive clk c) rules")
  case None
  have fails: "safe_evaluate clk r c = Some v \<Longrightarrow> v_verdict v = VERDICT_ALLOW \<Longrightarrow> rule_evaluate r c = Inr (Some v)" for r v
    by (auto simp: safe_evaluate_def mk_verdict_def split: sum.splits)
  have quiet: "safe_evaluate clk r c = None \<longleftrightarrow> rule_evaluate r c = Inr None" for r
    by (auto simp: safe_evaluate_def split: sum.splits)
  from run_rules_open [OF None, of 0 None] show ?thesis
  proof
    assume "run_rules clk c 0 None rules = Inl None \<and> list_all (\<lambda>r. safe_evaluate clk r c = None) rules"
    then show ?thesis using None by (simp add: engine_evaluate_def mk_verdict_def quiet)
  next
    assume "\<exists>r v d. r \<in> set rules \<and> safe_evaluate clk r c = Some v \<and> v_verdict v = VERDICT_ALLOW \<and>
      run_rules clk c 0 None rules = Inl (Some (v\<lparr>v_duration_ms := d\<rparr>))"
    then obtain r v d where r: "r \<in> set rules" "rule_evaluate r c = Inr (Some v)" "v_verdict v = VERDICT_ALLOW"
      "run_rules clk c 0 None rules = Inl (Some (v\<lparr>v_duration_ms := d\<rparr>))" using fails by blast
    moreover from r have "\<not> list_all (\<lambda>r. rule_evaluate r c = Inr None) rules" by (auto simp: list_all_iff intro!: bexI [of _ r])
    moreover have "engine_evaluate clk rules c = v\<lparr>v_duration_ms := ec_ms clk (length rules)\<rparr>" using r(4) by (simp add: engine_evaluate_def)
    ultimately show ?thesis using None by auto
  qed
next
  case (Some r)
  then obtain v d where v: "safe_evaluate clk r c = Some v" "engine_evaluate clk rules c = v\<lparr>v_duration_ms := d\<rparr>"
    using engine_decisive by blast
  then show ?thesis using Some by (auto simp: safe_evaluate_def mk_verdict_def)
qed

lemma find_earlier:
  assumes "find P (xs @ ys) = Some r" and "\<exists>x \<in> set xs. P x"
  shows "r \<in> set xs \<and> P r"
  using assms by (induction xs) (auto split: if_splits)

lemma detector_verdicts:
  assumes "r \<in> set (detectors pt now re)" and "rule_evaluate r c = Inr (Some v)"
  shows "v_verdict v \<noteq> VERDICT_ALLOW"
  using assms
  by (auto simp: detectors_def credential_evaluate_def path_traversal_evaluate_def destructive_evaluate_def
      data_leak_evaluate_def mk_verdict_def Let_def split: if_splits)

lemma detector_decides:
  assumes "r \<in> set (detectors pt now re)" and "rule_evaluate r c \<noteq> Inr None"
  shows "\<exists>w. safe_evaluate clk r c = Some w \<and> v_verdict w \<noteq> VERDICT_ALLOW"
proof (cases "rule_evaluate r c")
  case (Inr x)
  then show ?thesis using assms detector_verdicts [OF assms(1)] by (cases x) (auto simp: safe_evaluate_def)
qed (simp add: safe_evaluate_def mk_verdict_def)

definition validator_rule :: "time \<Rightarrow> SecurityConfig \<Rightarrow> security_rule" where
  "validator_rule now cfg = \<lparr>rule_name = ''policy_validator'',
     rule_evaluate = (\<lambda>c. Inr (policy_validator_evaluate (sc_hard_deny cfg) (sc_auto_approve cfg) now c))\<rparr>"

definition custom_rules :: "time \<Rightarrow> SecurityConfig \<Rightarrow> security_rule list" where
  "custom_rules now cfg = List.map (\<lambda>p. \<lparr>rule_name = custom_rule_name p, rule_evaluate = (\<lambda>c. Inr (custom_policy_evaluate p now c))\<rparr>)
     (filter pol_enabled (sc_custom_policies cfg))"

abbreviation bypassing :: "SecurityConfig \<Rightarrow> bool" where
  "bypassing cfg \<equiv> custom_allow_bypasses_detectors (sc_rule_engine cfg)"

lemma build_rule_engine_eq:
  "build_rule_engine pt now cfg =
     ([validator_rule now cfg] @ (if bypassing cfg then custom_rules now cfg else []) @ detectors pt now (sc_rule_engine cfg)) @
     (if bypassing cfg then [] else custom_rules now cfg)"
  by (simp add: build_rule_engine_def Let_def validator_rule_def custom_rules_def)

lemma validator_decisive:
  "decisive clk c (validator_rule now cfg) \<longleftrightarrow> cx_action_type c \<in> set (sc_hard_deny cfg)"
  "cx_action_type c \<in> set (sc_hard_deny cfg) \<Longrightarrow>
     \<exists>w. safe_evaluate clk (validator_rule now cfg) c = Some w \<and> v_verdict w = VERDICT_DENY \<and> v_risk_level w = RISK_CRITICAL"
  by (auto simp: decisive_def validator_rule_def safe_evaluate_def policy_validator_evaluate_def mk_verdict_def SOFT_ALLOW_RULES_def)

text \<open>Only a DENY policy may stand before the detectors.\<close>

lemma custom_before_detectors:
  assumes "valid_security_config cfg" and "bypassing cfg" and "q \<in> set (custom_rules now cfg)" and "decisive clk c q"
  shows "\<exists>w. safe_evaluate clk q c = Some w \<and> v_verdict w \<noteq> VERDICT_ALLOW"
proof -
  obtain p where p: "p \<in> set (sc_custom_policies cfg)" "pol_enabled p" "rule_evaluate q c = Inr (custom_policy_evaluate p now c)"
    using assms(3) by (auto simp: custom_rules_def)
  then have "pol_verdict p \<noteq> VERDICT_ALLOW" using assms(1,2)
    by (auto simp: valid_security_config_def check_no_bypass_def list_all_iff)
  then show ?thesis using assms(4) p(3)
    by (auto simp: decisive_def safe_evaluate_def custom_policy_evaluate_def mk_verdict_def Let_def split: option.splits if_splits)
qed

lemma first_rules_decide:
  assumes "valid_security_config cfg" and "decisive clk c q"
    and "q \<in> set ([validator_rule now cfg] @ (if bypassing cfg then custom_rules now cfg else []) @ detectors pt now (sc_rule_engine cfg))"
  shows "\<exists>w. safe_evaluate clk q c = Some w \<and> v_verdict w \<noteq> VERDICT_ALLOW"
proof -
  consider "q = validator_rule now cfg" | "bypassing cfg" "q \<in> set (custom_rules now cfg)" | "q \<in> set (detectors pt now (sc_rule_engine cfg))"
    using assms(3) by (auto split: if_splits)
  then show ?thesis
  proof cases
    case 1
    then show ?thesis using assms(2) validator_decisive by fastforce
  next
    case 2
    then show ?thesis by (rule custom_before_detectors [OF assms(1) _ _ assms(2)])
  next
    case 3
    have "rule_evaluate q c \<noteq> Inr None" using assms(2) by (auto simp: decisive_def safe_evaluate_def)
    then show ?thesis by (rule detector_decides [OF 3])
  qed
qed

text \<open>
  No configuration lets a tool call past the detectors. With a valid security configuration the
  assembled engine denies every action type of the hard-deny list with CRITICAL risk, and whenever an
  enabled detector finds something its verdict is not ALLOW, even for auto-approved action types, custom
  ALLOW policies, and custom policies placed before the detectors.
\<close>

theorem detectors_not_bypassed:
  assumes "valid_security_config cfg" and "v = engine_evaluate clk (build_rule_engine pt now cfg) c"
  shows "(cx_action_type c \<in> set (sc_hard_deny cfg) \<longrightarrow> v_verdict v = VERDICT_DENY \<and> v_risk_level v = RISK_CRITICAL) \<and>
    ((\<exists>r \<in> set (detectors pt now (sc_rule_engine cfg)). rule_evaluate r c \<noteq> Inr None) \<longrightarrow> v_verdict v \<noteq> VERDICT_ALLOW)"
proof -
  let ?rules = "build_rule_engine pt now cfg"
  have hard: "v_verdict v = VERDICT_DENY \<and> v_risk_level v = RISK_CRITICAL" if "cx_action_type c \<in> set (sc_hard_deny cfg)"
  proof -
    have "find (decisive clk c) ?rules = Some (validator_rule now cfg)"
      using that by (simp add: build_rule_engine_eq validator_decisive(1))
    from engine_decisive [OF this] validator_decisive(2) [OF that, of clk now] show ?thesis by (auto simp: assms(2))
  qed
  have det: "v_verdict v \<noteq> VERDICT_ALLOW" if r: "r \<in> set (detectors pt now (sc_rule_engine cfg))" "rule_evaluate r c \<noteq> Inr None" for r
  proof -
    have dec: "decisive clk c r" using detector_decides [OF r, of clk] by (auto simp: decisive_def)
    then obtain q where q: "find (decisive clk c) ?rules = Some q"
      using r(1) find_not_None [of "decisive clk c" ?rules] by (auto simp: build_rule_engine_eq)
    have "q \<in> set ([validator_rule now cfg] @ (if bypassing cfg then custom_rules now cfg else []) @ detectors pt now (sc_rule_engine cfg))
      \<and> decisive clk c q"
      by (rule find_earlier [OF q [unfolded build_rule_engine_eq]]) (use dec r(1) in auto)
    then have "\<exists>w. safe_evaluate clk q c = Some w \<and> v_verdict w \<noteq> VERDICT_ALLOW" using first_rules_decide [OF assms(1)] by blast
    with engine_decisive [OF q] show ?thesis by (auto simp: assms(2))
  qed
  show ?thesis using hard det by blast
qed

subsection \<open>Examples\<close>

definition sample_call :: SecurityContext where
  "sample_call = \<lparr>cx_tool_name = ''write'', cx_tool_category = ''file_system'', cx_action_type = ''docs:write'',
     cx_arguments = [(''files'', ListArg [DictArg [(''path'', StrArg ''a/../b'')]])], cx_agent_id = Some ''dev'', cx_task_id = None\<rparr>"

definition sample_patterns :: patterns where
  "sample_patterns = \<lparr>credential_scan = (\<lambda>_. None), destructive_scan = (\<lambda>_. []), path_label = (\<lambda>_. None), pii_names = (\<lambda>_. [])\<rparr>"

definition sample_rule :: "string \<Rightarrow> SecurityVerdictType \<Rightarrow> SecurityPolicyRule" where
  "sample_rule n v = \<lparr>pol_name = n, pol_description = [], pol_action_types = [''docs:write''], pol_verdict = v,
     pol_risk_level = RISK_MEDIUM, pol_enabled = True\<rparr>"

definition sample_security :: SecurityConfig where
  "sample_security = \<lparr>sc_enabled = True, sc_enforcement_mode = ACTIVE_MODE,
     sc_rule_engine = \<lparr>credential_patterns_enabled = True, data_leak_detection_enabled = True, destructive_op_detection_enabled = True,
       path_traversal_detection_enabled = True, custom_allow_bypasses_detectors = False\<rparr>,
     sc_llm_enabled = False, sc_llm_on_error = ESCALATE_ON_ERROR, sc_audit_enabled = True,
     sc_post_tool_scanning_enabled = True,
     sc_hard_deny = [''deploy:production'', ''db:admin'', ''org:fire''], sc_auto_approve = [''code:read'', ''docs:write''],
     sc_output_scan_policy_type = SCAN_AUTONOMY_TIERED, sc_custom_policies = [sample_rule ''trust'' VERDICT_ALLOW], sc_auto_reject_blocked = True,
     sc_safe_tool_categories = [''code:read'', ''docs:write''], sc_low_confidence_threshold = 1 / 2\<rparr>"

definition sample_clock :: engine_clock where
  "sample_clock = \<lparr>ec_now = 0, ec_ms = (\<lambda>n. of_nat n)\<rparr>"

lemma sample_traversal: "path_traversal_evaluate 0 sample_call \<noteq> None"
  by (simp add: path_traversal_evaluate_def Let_def walk_string_values_def sample_call_def walk_value_simps MAX_RECURSION_DEPTH_def
      traversal_scan_value_def TRAVERSAL_PATTERNS_def directory_traversal_def suffixes_of_def dots_here_def is_sep_def at_end_def
      List.map_filter_simps upt_rec)

theorem path_traversal_exact_witness:
  "\<exists>k v n s. (k, v) \<in> set (cx_arguments sample_call) \<and> occurs n v s \<and> n < 20 \<and> (\<exists>np \<in> set TRAVERSAL_PATTERNS. snd np s)"
  using path_traversal_exact [of 0 sample_call "[]" "[]"] sample_traversal by blast

theorem rule_engine_outcome_witness:
  "v_verdict (engine_evaluate sample_clock [\<lparr>rule_name = ''broken'', rule_evaluate = (\<lambda>_. Inl ())\<rparr>] sample_call) = VERDICT_DENY"
  using rule_engine_outcome [where clk = sample_clock and c = sample_call and rules = "[\<lparr>rule_name = ''broken'', rule_evaluate = (\<lambda>_. Inl ())\<rparr>]"]
  by (simp add: decisive_def safe_evaluate_def mk_verdict_def)

theorem detectors_not_bypassed_witness:
  "v_verdict (engine_evaluate sample_clock (build_rule_engine sample_patterns 0 sample_security) sample_call) \<noteq> VERDICT_ALLOW"
proof -
  have "valid_security_config sample_security"
    by (simp add: valid_security_config_def sample_security_def check_disjoint_action_types_def check_unique_policy_names_def
        check_no_bypass_def sample_rule_def valid_policy_rule_def py_isspace_def)
  moreover let ?r = "\<lparr>rule_name = ''path_traversal_detector'', rule_evaluate = (\<lambda>c. Inr (path_traversal_evaluate 0 c))\<rparr>"
  have "?r \<in> set (detectors sample_patterns 0 (sc_rule_engine sample_security))"
    by (simp add: detectors_def sample_security_def)
  moreover have "rule_evaluate ?r sample_call \<noteq> Inr None" using sample_traversal by simp
  ultimately show ?thesis using detectors_not_bypassed [OF _ refl] by blast
qed

end
