(* ===== verification/Autonomy.thy ===== *)
theory Autonomy
  imports Assignment
begin

text \<open>
  Autonomy of agents (\<^verbatim>\<open>security/autonomy/\<close>, \<^verbatim>\<open>security/action_types.py\<close>): the registry of action types, the
  presets, the resolution of an agent's effective autonomy through agent, department and company, and
  the strategy that downgrades agents at run time. Frozen sets are sets; raised errors are \<open>Inl\<close>.
\<close>

subsection \<open>Levels\<close>

datatype AutonomyLevel = FULL | SEMI | SUPERVISED | LOCKED

definition autonomy_value :: "AutonomyLevel \<Rightarrow> string" where
  "autonomy_value l = (case l of FULL \<Rightarrow> ''full'' | SEMI \<Rightarrow> ''semi'' | SUPERVISED \<Rightarrow> ''supervised'' | LOCKED \<Rightarrow> ''locked'')"

definition AUTONOMY_RANK :: "AutonomyLevel \<Rightarrow> int" where
  "AUTONOMY_RANK l = (case l of LOCKED \<Rightarrow> 0 | SUPERVISED \<Rightarrow> 1 | SEMI \<Rightarrow> 2 | FULL \<Rightarrow> 3)"

definition compare_autonomy :: "AutonomyLevel \<Rightarrow> AutonomyLevel \<Rightarrow> int" where
  "compare_autonomy a b = AUTONOMY_RANK a - AUTONOMY_RANK b"

definition SENIORITY_RANK :: "SeniorityLevel \<Rightarrow> int" where
  "SENIORITY_RANK l = (case l of JUNIOR \<Rightarrow> 0 | MID \<Rightarrow> 1 | SENIOR \<Rightarrow> 2 | LEAD \<Rightarrow> 3 | PRINCIPAL \<Rightarrow> 4 | DIRECTOR \<Rightarrow> 5 | VP \<Rightarrow> 6 | C_SUITE \<Rightarrow> 7)"

definition compare_seniority :: "SeniorityLevel \<Rightarrow> SeniorityLevel \<Rightarrow> int" where
  "compare_seniority a b = SENIORITY_RANK a - SENIORITY_RANK b"

subsection \<open>Action types\<close>

definition BUILTIN_TYPES :: "string list" where
  "BUILTIN_TYPES =
     [''code:read'', ''code:write'', ''code:create'', ''code:delete'', ''code:refactor'', ''test:write'', ''test:run'',
      ''docs:write'', ''vcs:commit'', ''vcs:push'', ''vcs:branch'', ''deploy:staging'', ''deploy:production'',
      ''comms:internal'', ''comms:external'', ''budget:spend'', ''budget:exceed'', ''org:hire'', ''org:fire'',
      ''org:promote'', ''vcs:read'', ''db:query'', ''db:mutate'', ''db:admin'', ''arch:decide'', ''memory:read'']"

definition category_of :: "string \<Rightarrow> string" where
  "category_of a = hd (split_on (CHR '':'') a)"

text \<open>The map from a category to its built-in types.\<close>

definition CATEGORY_MAP :: "string \<Rightarrow> string set" where
  "CATEGORY_MAP cat = {a \<in> set BUILTIN_TYPES. category_of a = cat}"

datatype autonomy_error = BadActionType string | UnknownActionType string | SeniorityViolation | NoPreset | OverlappingActions | InvalidOverride

definition custom_type_ok :: "string \<Rightarrow> bool" where
  "custom_type_ok ct \<longleftrightarrow> length (filter (\<lambda>c. c = CHR '':'') ct) = 1 \<and> hd ct \<noteq> CHR '':'' \<and> last ct \<noteq> CHR '':''"

definition ActionTypeRegistry :: "string list \<Rightarrow> autonomy_error + string set" where
  "ActionTypeRegistry custom = guard_with (set custom) (List.map (\<lambda>ct. (\<not> custom_type_ok ct, BadActionType ct)) custom)"

definition all_types :: "string set \<Rightarrow> string set" where
  "all_types custom = set BUILTIN_TYPES \<union> custom"

definition is_registered :: "string set \<Rightarrow> string \<Rightarrow> bool" where
  "is_registered custom a \<longleftrightarrow> a \<in> all_types custom"

definition validate_action_type :: "string set \<Rightarrow> string \<Rightarrow> autonomy_error + unit" where
  "validate_action_type custom a = (if is_registered custom a then Inr () else Inl (UnknownActionType a))"

definition expand_category :: "string set \<Rightarrow> string \<Rightarrow> string set" where
  "expand_category custom cat = CATEGORY_MAP cat \<union> {ct \<in> custom. category_of ct = cat}"

definition get_category :: "string \<Rightarrow> autonomy_error + string" where
  "get_category a =
     (case split_on (CHR '':'') a of
        [cat, act] \<Rightarrow> if cat = [] \<or> act = [] then Inl (BadActionType a) else Inr cat
      | _ \<Rightarrow> Inl (BadActionType a))"

subsection \<open>Presets and resolution\<close>

record AutonomyPreset =
  pre_level :: AutonomyLevel
  auto_approve :: "string list"
  human_approval :: "string list"
  pre_security_agent :: bool

definition valid_preset :: "AutonomyPreset \<Rightarrow> bool" where
  "valid_preset p \<longleftrightarrow> list_all not_blank (auto_approve p) \<and> list_all not_blank (human_approval p) \<and>
     set (auto_approve p) \<inter> set (human_approval p) = {}"

definition BUILTIN_PRESETS :: "(string, AutonomyPreset) dict" where
  "BUILTIN_PRESETS =
     [(''full'', \<lparr>pre_level = FULL, auto_approve = [''all''], human_approval = [], pre_security_agent = False\<rparr>),
      (''semi'', \<lparr>pre_level = SEMI,
         auto_approve = [''code'', ''test'', ''docs'', ''vcs'', ''comms:internal'', ''db:query''],
         human_approval = [''deploy'', ''org'', ''budget'', ''comms:external''], pre_security_agent = True\<rparr>),
      (''supervised'', \<lparr>pre_level = SUPERVISED,
         auto_approve = [''code:read'', ''vcs:read'', ''test:run'', ''db:query''],
         human_approval = [''code:write'', ''code:create'', ''code:delete'', ''code:refactor'', ''test:write'', ''docs:write'',
           ''vcs:commit'', ''vcs:push'', ''vcs:branch'', ''deploy'', ''comms'', ''budget'', ''org'', ''db:mutate'', ''db:admin'',
           ''arch:decide''],
         pre_security_agent = True\<rparr>),
      (''locked'', \<lparr>pre_level = LOCKED, auto_approve = [], human_approval = [''all''], pre_security_agent = True\<rparr>)]"

record AutonomyConfig =
  ac_level :: AutonomyLevel
  ac_presets :: "(string, AutonomyPreset) dict"

definition valid_autonomy_config :: "AutonomyConfig \<Rightarrow> bool" where
  "valid_autonomy_config c \<longleftrightarrow> dget (ac_presets c) (autonomy_value (ac_level c)) \<noteq> None \<and> list_all (valid_preset \<circ> snd) (ac_presets c)"

record EffectiveAutonomy =
  ea_level :: AutonomyLevel
  auto_approve_actions :: "string set"
  human_approval_actions :: "string set"
  ea_security_agent :: bool

definition expand_pattern :: "string set \<Rightarrow> string \<Rightarrow> string set" where
  "expand_pattern custom p =
     (if p = ''all'' then all_types custom
      else if expand_category custom p \<noteq> {} then expand_category custom p
      else {p})"

definition expand_patterns :: "string set \<Rightarrow> string list \<Rightarrow> string set" where
  "expand_patterns custom ps = \<Union> (expand_pattern custom ` set ps)"

definition validate_seniority :: "SeniorityLevel \<Rightarrow> AutonomyLevel \<Rightarrow> autonomy_error option" where
  "validate_seniority s l = (if compare_seniority s JUNIOR \<le> 0 \<and> l = FULL then Some SeniorityViolation else None)"

definition resolve_level :: "AutonomyConfig \<Rightarrow> AutonomyLevel option \<Rightarrow> AutonomyLevel option \<Rightarrow> AutonomyLevel" where
  "resolve_level c agent department =
     (case agent of Some l \<Rightarrow> l | None \<Rightarrow> (case department of Some l \<Rightarrow> l | None \<Rightarrow> ac_level c))"

definition resolve ::
  "string set \<Rightarrow> AutonomyConfig \<Rightarrow> AutonomyLevel option \<Rightarrow> AutonomyLevel option \<Rightarrow> SeniorityLevel option
   \<Rightarrow> autonomy_error + EffectiveAutonomy" where
  "resolve custom c agent department seniority =
     (let level = resolve_level c agent department in
      case (case seniority of None \<Rightarrow> None | Some s \<Rightarrow> validate_seniority s level) of
        Some e \<Rightarrow> Inl e
      | None \<Rightarrow>
          (case dget (ac_presets c) (autonomy_value level) of
             None \<Rightarrow> Inl NoPreset
           | Some p \<Rightarrow>
               (let auto = expand_patterns custom (auto_approve p); human = expand_patterns custom (human_approval p) in
                if auto \<inter> human \<noteq> {} then Inl OverlappingActions
                else Inr \<lparr>ea_level = level, auto_approve_actions = auto, human_approval_actions = human,
                          ea_security_agent = pre_security_agent p\<rparr>)))"

subsection \<open>Changes at run time\<close>

datatype DowngradeReason = HIGH_ERROR_RATE | BUDGET_EXHAUSTED | RISK_BUDGET_EXHAUSTED | SECURITY_INCIDENT

definition DOWNGRADE_MAP :: "DowngradeReason \<Rightarrow> AutonomyLevel" where
  "DOWNGRADE_MAP r = (case r of SECURITY_INCIDENT \<Rightarrow> LOCKED | _ \<Rightarrow> SUPERVISED)"

record AutonomyOverride =
  ov_agent_id :: string
  original_level :: AutonomyLevel
  current_level :: AutonomyLevel
  ov_reason :: DowngradeReason
  downgraded_at :: time

definition valid_override :: "AutonomyOverride \<Rightarrow> bool" where
  "valid_override o' \<longleftrightarrow> not_blank (ov_agent_id o') \<and> compare_autonomy (current_level o') (original_level o') \<le> 0"

type_synonym overrides = "(string, AutonomyOverride) dict"

definition request_promotion :: "string \<Rightarrow> AutonomyLevel \<Rightarrow> overrides \<Rightarrow> bool \<times> overrides" where
  "request_promotion agent target ovs = (False, ovs)"

definition request_recovery :: "string \<Rightarrow> overrides \<Rightarrow> bool \<times> overrides" where
  "request_recovery agent ovs = (False, ovs)"

definition auto_downgrade ::
  "time \<Rightarrow> string \<Rightarrow> DowngradeReason \<Rightarrow> AutonomyLevel option \<Rightarrow> overrides \<Rightarrow> (autonomy_error + AutonomyLevel) \<times> overrides" where
  "auto_downgrade now agent reason cur ovs =
     (let target = DOWNGRADE_MAP reason;
          existing = dget ovs agent;
          original = (case existing of Some e \<Rightarrow> original_level e | None \<Rightarrow> (case cur of Some l \<Rightarrow> l | None \<Rightarrow> SEMI));
          effective = (case existing of Some e \<Rightarrow> current_level e | None \<Rightarrow> original);
          new = (if compare_autonomy effective target \<le> 0 then effective else target);
          ov = \<lparr>ov_agent_id = agent, original_level = original, current_level = new, ov_reason = reason, downgraded_at = now\<rparr>
      in if valid_override ov then (Inr new, dput agent ov ovs) else (Inl InvalidOverride, ovs))"

definition get_override :: "string \<Rightarrow> overrides \<Rightarrow> AutonomyOverride option" where
  "get_override agent ovs = dget ovs agent"

definition clear_override :: "string \<Rightarrow> overrides \<Rightarrow> bool \<times> overrides" where
  "clear_override agent ovs = (dget ovs agent \<noteq> None, dpop agent ovs)"

subsection \<open>Patterns\<close>

lemma category_no_colon: "CHR '':'' \<notin> set (category_of a)"
  unfolding category_of_def using split_on_nonempty by (induction a) (auto split: list.splits)

lemma category_plain: "CHR '':'' \<notin> set a \<Longrightarrow> category_of a = a"
proof -
  assume "CHR '':'' \<notin> set a"
  then have "split_on (CHR '':'') a = [a]" by (induction a) auto
  then show ?thesis by (simp add: category_of_def)
qed

lemma category_of_colon: "CHR '':'' \<notin> set cat \<Longrightarrow> category_of (cat @ CHR '':'' # act) = cat"
proof -
  assume a: "CHR '':'' \<notin> set cat"
  obtain w ws where "split_on (CHR '':'') act = w # ws" using split_on_nonempty by (meson list.exhaust)
  then have "split_on (CHR '':'') (cat @ CHR '':'' # act) = cat # w # ws" using a by (induction cat) auto
  then show ?thesis by (simp add: category_of_def)
qed

lemma expand_concrete: "CHR '':'' \<in> set p \<Longrightarrow> expand_pattern reg p = {p}"
  using category_no_colon by (auto simp: expand_pattern_def expand_category_def CATEGORY_MAP_def)

lemma expand_category_of: "a \<in> expand_pattern reg p \<Longrightarrow> p \<noteq> ''all'' \<Longrightarrow> category_of a = category_of p"
  using category_plain category_no_colon
  by (auto simp: expand_pattern_def expand_category_def CATEGORY_MAP_def split: if_splits)

definition apart :: "string \<Rightarrow> string \<Rightarrow> bool" where
  "apart p q \<longleftrightarrow> p \<noteq> ''all'' \<and> q \<noteq> ''all'' \<and>
     (category_of p \<noteq> category_of q \<or> CHR '':'' \<in> set p \<and> CHR '':'' \<in> set q \<and> p \<noteq> q)"

lemma expand_apart:
  assumes "list_all (\<lambda>p. list_all (apart p) qs) ps"
  shows "expand_patterns reg ps \<inter> expand_patterns reg qs = {}"
proof -
  have "expand_pattern reg p \<inter> expand_pattern reg q = {}" if "p \<in> set ps" "q \<in> set qs" for p q
  proof -
    have "apart p q" using assms that by (simp add: list_all_iff)
    then have nall: "p \<noteq> ''all''" "q \<noteq> ''all''" and
      alt: "category_of p \<noteq> category_of q \<or> CHR '':'' \<in> set p \<and> CHR '':'' \<in> set q \<and> p \<noteq> q"
      by (simp_all add: apart_def)
    from alt show ?thesis
    proof
      assume ne: "category_of p \<noteq> category_of q"
      have "category_of a = category_of p" if "a \<in> expand_pattern reg p" for a by (rule expand_category_of [OF that nall(1)])
      moreover have "category_of a = category_of q" if "a \<in> expand_pattern reg q" for a by (rule expand_category_of [OF that nall(2)])
      ultimately show ?thesis using ne by (metis disjoint_iff)
    next
      assume "CHR '':'' \<in> set p \<and> CHR '':'' \<in> set q \<and> p \<noteq> q"
      then show ?thesis by (simp add: expand_concrete)
    qed
  qed
  then show ?thesis unfolding expand_patterns_def by blast
qed

lemma expand_patterns_simps [simp]:
  "expand_patterns reg [] = {}" "expand_patterns reg (p # ps) = expand_pattern reg p \<union> expand_patterns reg ps"
  by (auto simp: expand_patterns_def)

lemma builtin_apart:
  "dget BUILTIN_PRESETS (autonomy_value l) = Some p \<Longrightarrow> list_all (\<lambda>a. list_all (apart a) (human_approval p)) (auto_approve p)"
  by (cases l) (auto simp: BUILTIN_PRESETS_def autonomy_value_def apart_def category_of_def)

lemma builtin_present: "\<exists>p. dget BUILTIN_PRESETS (autonomy_value l) = Some p"
  by (cases l) (auto simp: BUILTIN_PRESETS_def autonomy_value_def)

lemma category_in: "expand_pattern reg p \<supseteq> {a \<in> set BUILTIN_TYPES. category_of a = p}" if "p \<noteq> ''all''"
  using that by (auto simp: expand_pattern_def expand_category_def CATEGORY_MAP_def)

text \<open>The four categories SUPERVISED hands to a human as a whole.\<close>

definition supervised_preset :: AutonomyPreset where
  "supervised_preset = the (dget BUILTIN_PRESETS (autonomy_value SUPERVISED))"

definition GUARDED_CATEGORIES :: "string set" where
  "GUARDED_CATEGORIES = {''deploy'', ''comms'', ''budget'', ''org''}"

lemma supervised_human:
  "q \<in> set (human_approval supervised_preset) \<Longrightarrow> q \<noteq> ''all'' \<and> (CHR '':'' \<in> set q \<and> q \<in> set BUILTIN_TYPES \<or> CHR '':'' \<notin> set q \<and> q \<in> GUARDED_CATEGORIES)"
proof -
  have "list_all (\<lambda>q. q \<noteq> ''all'' \<and> (if CHR '':'' \<in> set q then q \<in> set BUILTIN_TYPES else q \<in> GUARDED_CATEGORIES)) (human_approval supervised_preset)"
    by code_simp
  then show "q \<in> set (human_approval supervised_preset) \<Longrightarrow> ?thesis" by (auto simp: list_all_iff split: if_splits)
qed

definition APPROVED_TYPES :: "string set" where
  "APPROVED_TYPES = {''code:read'', ''vcs:read'', ''test:run'', ''db:query''}"

lemma approved_builtin: "APPROVED_TYPES \<subseteq> set BUILTIN_TYPES" by code_simp

lemma supervised_covers:
  "list_all (\<lambda>a. a \<in> APPROVED_TYPES \<or> a = ''memory:read'' \<or> (\<exists>q \<in> set (human_approval supervised_preset). q = a \<or> q = category_of a)) BUILTIN_TYPES"
  by code_simp

lemma supervised_approves: "expand_patterns reg (auto_approve supervised_preset) = APPROVED_TYPES"
proof -
  have "list_all (\<lambda>p. CHR '':'' \<in> set p) (auto_approve supervised_preset)" by code_simp
  then have "expand_patterns reg (auto_approve supervised_preset) = set (auto_approve supervised_preset)"
    by (auto simp: expand_patterns_def list_all_iff expand_concrete)
  moreover have "set (auto_approve supervised_preset) = APPROVED_TYPES" by code_simp
  ultimately show ?thesis by simp
qed

lemma supervised_asks: "set BUILTIN_TYPES - APPROVED_TYPES - {''memory:read''} \<subseteq> expand_patterns reg (human_approval supervised_preset)"
proof
  fix a assume a: "a \<in> set BUILTIN_TYPES - APPROVED_TYPES - {''memory:read''}"
  then obtain q where q: "q \<in> set (human_approval supervised_preset)" "q = a \<or> q = category_of a"
    using supervised_covers unfolding list_all_iff by blast
  have "a \<in> expand_pattern reg q"
  proof (cases "q = category_of a")
    case True
    then show ?thesis using category_in [of q reg] supervised_human [OF q(1)] a by blast
  next
    case False
    then have "q = a" using q(2) by simp
    moreover have "CHR '':'' \<in> set a" using category_plain [of a] False q(2) by auto
    ultimately show ?thesis by (simp add: expand_concrete)
  qed
  then show "a \<in> expand_patterns reg (human_approval supervised_preset)" using q(1) by (auto simp: expand_patterns_def)
qed

lemma supervised_ignores:
  assumes "a \<notin> set BUILTIN_TYPES" and "category_of a \<notin> GUARDED_CATEGORIES"
  shows "a \<notin> expand_patterns reg (human_approval supervised_preset)"
proof
  assume "a \<in> expand_patterns reg (human_approval supervised_preset)"
  then obtain q where q: "q \<in> set (human_approval supervised_preset)" "a \<in> expand_pattern reg q" by (auto simp: expand_patterns_def)
  note h = supervised_human [OF q(1)]
  show False
  proof (cases "CHR '':'' \<in> set q")
    case True
    then have "a = q" using q(2) by (simp add: expand_concrete)
    then show False using h True assms(1) by blast
  next
    case False
    then have "category_of a = q" using expand_category_of [OF q(2)] h category_plain [OF False] by simp
    then show False using h False assms(2) by blast
  qed
qed

text \<open>
  The built-in presets. With any registry of custom action types and for any levels of agent,
  department and company, resolution fails only for a JUNIOR agent at FULL autonomy. Otherwise it gives
  the agent's level, else the department's, else the company's, with disjoint sets; FULL approves every
  registered type, LOCKED none. At SUPERVISED every built-in type but \<open>memory:read\<close> is either one of four
  read and test types that are approved or needs a human, while a custom type outside the categories
  deploy, comms, budget and org is in neither set.
\<close>

theorem presets_resolve:
  assumes "ac_presets c = BUILTIN_PRESETS" and "ActionTypeRegistry custom = Inr reg" and "level = resolve_level c agent dept"
  shows "(resolve reg c agent dept seniority = Inl SeniorityViolation \<and> seniority = Some JUNIOR \<and> level = FULL) \<or>
    (\<exists>ea. resolve reg c agent dept seniority = Inr ea \<and> ea_level ea = level \<and> \<not> (seniority = Some JUNIOR \<and> level = FULL) \<and>
       auto_approve_actions ea \<inter> human_approval_actions ea = {} \<and>
       (level = FULL \<longrightarrow> auto_approve_actions ea = all_types reg) \<and> (level = LOCKED \<longrightarrow> human_approval_actions ea = all_types reg) \<and>
       (level = SUPERVISED \<longrightarrow>
          auto_approve_actions ea = {''code:read'', ''vcs:read'', ''test:run'', ''db:query''} \<and>
          set BUILTIN_TYPES - auto_approve_actions ea - {''memory:read''} \<subseteq> human_approval_actions ea \<and>
          (\<forall>a \<in> reg - set BUILTIN_TYPES. category_of a \<notin> {''deploy'', ''comms'', ''budget'', ''org''} \<longrightarrow>
             a \<notin> auto_approve_actions ea \<union> human_approval_actions ea)))"
proof -
  have jun: "validate_seniority s level = (if s = JUNIOR \<and> level = FULL then Some SeniorityViolation else None)" for s
    by (cases s) (auto simp: validate_seniority_def compare_seniority_def SENIORITY_RANK_def)
  obtain p where p: "dget BUILTIN_PRESETS (autonomy_value level) = Some p" using builtin_present by blast
  let ?a = "expand_patterns reg (auto_approve p)" and ?h = "expand_patterns reg (human_approval p)"
  have dis: "?a \<inter> ?h = {}" by (rule expand_apart [OF builtin_apart [OF p]])
  have full: "level = FULL \<Longrightarrow> ?a = all_types reg" "level = LOCKED \<Longrightarrow> ?h = all_types reg"
    using p by (auto simp: BUILTIN_PRESETS_def autonomy_value_def expand_pattern_def)
  show ?thesis
  proof (cases "seniority = Some JUNIOR \<and> level = FULL")
    case True
    then show ?thesis using jun assms(3) by (simp add: resolve_def Let_def)
  next
    case False
    then have res: "resolve reg c agent dept seniority = Inr \<lparr>ea_level = level, auto_approve_actions = ?a, human_approval_actions = ?h,
        ea_security_agent = pre_security_agent p\<rparr>"
      using jun p dis assms(1,3) by (cases seniority) (auto simp: resolve_def Let_def)
    have sup: "p = supervised_preset" if "level = SUPERVISED" using p that by (simp add: supervised_preset_def)
    have "?a = APPROVED_TYPES \<and> set BUILTIN_TYPES - ?a - {''memory:read''} \<subseteq> ?h \<and>
        (\<forall>a \<in> reg - set BUILTIN_TYPES. category_of a \<notin> GUARDED_CATEGORIES \<longrightarrow> a \<notin> ?a \<union> ?h)"
      if l: "level = SUPERVISED"
      unfolding sup [OF l] supervised_approves using supervised_asks [of reg] supervised_ignores [where reg = reg] approved_builtin by blast
    note sv = this [unfolded APPROVED_TYPES_def GUARDED_CATEGORIES_def]
    define ea where "ea = \<lparr>ea_level = level, auto_approve_actions = ?a, human_approval_actions = ?h,
      ea_security_agent = pre_security_agent p\<rparr>"
    have ea: "ea_level ea = level" "auto_approve_actions ea = ?a" "human_approval_actions ea = ?h" by (simp_all add: ea_def)
    show ?thesis
      by (rule disjI2, rule exI [of _ ea], unfold ea) (use res [folded ea_def] dis full False sv in blast)
  qed
qed

theorem presets_resolve_witness:
  "\<exists>ea. resolve {''db:dump''} \<lparr>ac_level = SUPERVISED, ac_presets = BUILTIN_PRESETS\<rparr> None None (Some JUNIOR) = Inr ea \<and>
     ''code:write'' \<in> human_approval_actions ea \<and> ''db:dump'' \<notin> human_approval_actions ea"
proof -
  let ?c = "\<lparr>ac_level = SUPERVISED, ac_presets = BUILTIN_PRESETS\<rparr>"
  have l: "SUPERVISED = resolve_level ?c None None" by (simp add: resolve_level_def)
  have reg: "ActionTypeRegistry [''db:dump''] = Inr {''db:dump''}" by code_simp
  have mem: "''code:write'' \<in> set BUILTIN_TYPES" "''db:dump'' \<notin> set BUILTIN_TYPES" "category_of ''db:dump'' = ''db''" by code_simp+
  have pre: "ac_presets ?c = BUILTIN_PRESETS" by simp
  from presets_resolve [OF pre reg l, of "Some JUNIOR"] show ?thesis
  proof (elim disjE exE conjE, goal_cases)
    case 1
    then show ?case by simp
  next
    case (2 ea)
    note sv = mp [OF 2(7) refl]
    have "''code:write'' \<notin> auto_approve_actions ea" "''code:write'' \<noteq> ''memory:read''"
      unfolding conjunct1 [OF sv] by simp_all
    then have "''code:write'' \<in> human_approval_actions ea"
      using subsetD [OF conjunct1 [OF conjunct2 [OF sv]]] mem(1) by simp
    moreover have "''db:dump'' \<notin> human_approval_actions ea" using conjunct2 [OF conjunct2 [OF sv]] mem(2,3) by simp
    ultimately show ?case by (intro exI [of _ ea] conjI 2(1))
  qed
qed

subsection \<open>Downgrades\<close>

datatype autonomy_event = Downgrade time string DowngradeReason "AutonomyLevel option" | AskPromotion string AutonomyLevel
  | AskRecovery string | Clear string

definition autonomy_step :: "autonomy_event \<Rightarrow> overrides \<Rightarrow> overrides" where
  "autonomy_step e ovs = (case e of
       Downgrade now agent reason cur \<Rightarrow> snd (auto_downgrade now agent reason cur ovs)
     | AskPromotion agent target \<Rightarrow> snd (request_promotion agent target ovs)
     | AskRecovery agent \<Rightarrow> snd (request_recovery agent ovs)
     | Clear agent \<Rightarrow> snd (clear_override agent ovs))"

lemma compare_autonomy_iff: "compare_autonomy a b \<le> 0 \<longleftrightarrow> AUTONOMY_RANK a \<le> AUTONOMY_RANK b"
  by (simp add: compare_autonomy_def)

definition overrides_ok :: "overrides \<Rightarrow> bool" where
  "overrides_ok ovs \<longleftrightarrow> (\<forall>agent ov. dget ovs agent = Some ov \<longrightarrow> ov_agent_id ov = agent \<and> valid_override ov)"

text \<open>What a downgrade stores: the lower of the effective level and the reason's target.\<close>

lemma auto_downgrade_result:
  assumes "overrides_ok ovs" and named: "not_blank agent"
  shows "\<exists>ov. auto_downgrade now agent reason cur ovs = (Inr (current_level ov), dput agent ov ovs) \<and>
    ov_agent_id ov = agent \<and> valid_override ov \<and>
    AUTONOMY_RANK (current_level ov) \<le> AUTONOMY_RANK (DOWNGRADE_MAP reason) \<and>
    (\<forall>old. dget ovs agent = Some old \<longrightarrow> original_level ov = original_level old \<and>
       AUTONOMY_RANK (current_level ov) \<le> AUTONOMY_RANK (current_level old)) \<and>
    (dget ovs agent = None \<longrightarrow> original_level ov = (case cur of Some l \<Rightarrow> l | None \<Rightarrow> SEMI))"
proof -
  have "valid_override old" if "dget ovs agent = Some old" for old using assms that by (simp add: overrides_ok_def)
  then have valid: "AUTONOMY_RANK (current_level old) \<le> AUTONOMY_RANK (original_level old)" if "dget ovs agent = Some old" for old
    using that by (simp add: valid_override_def compare_autonomy_iff)
  define orig where "orig = (case dget ovs agent of Some e \<Rightarrow> original_level e | None \<Rightarrow> (case cur of Some l \<Rightarrow> l | None \<Rightarrow> SEMI))"
  define eff where "eff = (case dget ovs agent of Some e \<Rightarrow> current_level e | None \<Rightarrow> orig)"
  define new where "new = (if compare_autonomy eff (DOWNGRADE_MAP reason) \<le> 0 then eff else DOWNGRADE_MAP reason)"
  define ov where "ov = \<lparr>ov_agent_id = agent, original_level = orig, current_level = new, ov_reason = reason, downgraded_at = now\<rparr>"
  have ov: "ov_agent_id ov = agent" "original_level ov = orig" "current_level ov = new" by (simp_all add: ov_def)
  have rank: "AUTONOMY_RANK new \<le> AUTONOMY_RANK (DOWNGRADE_MAP reason)" "AUTONOMY_RANK new \<le> AUTONOMY_RANK eff"
    by (simp_all add: new_def compare_autonomy_iff)
  have eff: "AUTONOMY_RANK eff \<le> AUTONOMY_RANK orig" using valid by (cases "dget ovs agent") (simp_all add: eff_def orig_def)
  then have v: "valid_override ov" using rank(2) named by (simp add: valid_override_def compare_autonomy_iff ov)
  have "auto_downgrade now agent reason cur ovs = (Inr new, dput agent ov ovs)"
    unfolding auto_downgrade_def Let_def orig_def [symmetric] unfolding eff_def [symmetric] unfolding new_def [symmetric]
    unfolding ov_def [symmetric] using v by simp
  then show ?thesis using v rank ov eff_def orig_def by (intro exI [of _ ov]) auto
qed

lemma auto_downgrade_blank: "\<not> not_blank agent \<Longrightarrow> auto_downgrade now agent reason cur ovs = (Inl InvalidOverride, ovs)"
  by (simp add: auto_downgrade_def valid_override_def Let_def)

lemma autonomy_step_keeps:
  assumes "overrides_ok ovs"
  shows "overrides_ok (autonomy_step e ovs)"
    and "dget ovs agent = Some old \<Longrightarrow> e \<noteq> Clear agent \<Longrightarrow>
      \<exists>new. dget (autonomy_step e ovs) agent = Some new \<and> original_level new = original_level old \<and>
        AUTONOMY_RANK (current_level new) \<le> AUTONOMY_RANK (current_level old)"
proof -
  show "overrides_ok (autonomy_step e ovs)"
  proof (cases e)
    case (Downgrade now ag reason cur)
    then show ?thesis using auto_downgrade_result [OF assms, of ag now reason cur] auto_downgrade_blank [of ag now reason cur ovs] assms
      by (cases "not_blank ag") (auto simp: autonomy_step_def overrides_ok_def split: if_splits)
  qed (use assms in \<open>auto simp: autonomy_step_def overrides_ok_def request_promotion_def request_recovery_def clear_override_def split: if_splits\<close>)
  assume o: "dget ovs agent = Some old" "e \<noteq> Clear agent"
  show "\<exists>new. dget (autonomy_step e ovs) agent = Some new \<and> original_level new = original_level old \<and>
        AUTONOMY_RANK (current_level new) \<le> AUTONOMY_RANK (current_level old)"
  proof (cases e)
    case (Downgrade now ag reason cur)
    then show ?thesis using auto_downgrade_result [OF assms, of ag now reason cur] auto_downgrade_blank [of ag now reason cur ovs] o
      by (cases "not_blank ag"; cases "ag = agent") (auto simp: autonomy_step_def)
  qed (use o in \<open>auto simp: autonomy_step_def request_promotion_def request_recovery_def clear_override_def\<close>)
qed

text \<open>
  C27: no automatic promotion. In any run of downgrades, promotion requests, recovery requests and
  clearings of overrides that starts without overrides, every stored override is a downgrade. From there on, as long as the
  agent's override is not cleared by a human, no further sequence of events raises its level or changes
  the level recorded as its original one; a downgrade of any named agent succeeds and gives at most its reason's
  level, and one for a blank agent id is refused and changes nothing.
\<close>

theorem downgrades_are_sticky:
  fixes before later :: "autonomy_event list"
  defines "ovs \<equiv> fold autonomy_step before []"
  assumes "dget ovs agent = Some old" and "Clear agent \<notin> set later"
  shows "compare_autonomy (current_level old) (original_level old) \<le> 0 \<and>
    (\<exists>new. get_override agent (fold autonomy_step later ovs) = Some new \<and> original_level new = original_level old \<and>
       compare_autonomy (current_level new) (current_level old) \<le> 0) \<and>
    (case auto_downgrade now ag reason cur (fold autonomy_step later ovs) of
       (Inl _, ovs') \<Rightarrow> \<not> not_blank ag \<and> ovs' = fold autonomy_step later ovs
     | (Inr l, ovs') \<Rightarrow> not_blank ag \<and> compare_autonomy l (DOWNGRADE_MAP reason) \<le> 0)"
proof -
  have run: "overrides_ok (fold autonomy_step es s)" if "overrides_ok s" for es s
    using that by (induction es arbitrary: s) (auto intro: autonomy_step_keeps(1))
  have ok: "overrides_ok ovs" unfolding ovs_def by (rule run) (simp add: overrides_ok_def)
  have keep: "\<exists>new. dget (fold autonomy_step later s) agent = Some new \<and> original_level new = original_level old' \<and>
      AUTONOMY_RANK (current_level new) \<le> AUTONOMY_RANK (current_level old')"
    if "overrides_ok s" "dget s agent = Some old'" for s old'
    using that assms(3)
  proof (induction later arbitrary: s old')
    case (Cons e es)
    then obtain mid where mid: "dget (autonomy_step e s) agent = Some mid" "original_level mid = original_level old'"
        "AUTONOMY_RANK (current_level mid) \<le> AUTONOMY_RANK (current_level old')"
      using autonomy_step_keeps(2) [of s agent old' e] by auto
    from Cons.IH [OF autonomy_step_keeps(1) [OF Cons.prems(1)] mid(1)] Cons.prems(3) mid show ?case by fastforce
  qed auto
  show ?thesis
    using ok assms(2) keep [OF ok assms(2)] auto_downgrade_result [OF run [OF ok], of ag now reason cur later]
      auto_downgrade_blank [of ag now reason cur "fold autonomy_step later ovs"]
    by (cases "not_blank ag") (auto simp: overrides_ok_def valid_override_def compare_autonomy_iff get_override_def)
qed

theorem downgrades_are_sticky_witness:
  "\<exists>new. get_override ''bob'' (fold autonomy_step [AskPromotion ''bob'' FULL, Downgrade 9 ''bob'' BUDGET_EXHAUSTED (Some FULL), AskRecovery ''bob'']
      (fold autonomy_step [Downgrade 5 ''bob'' SECURITY_INCIDENT (Some SEMI)] [])) = Some new \<and> original_level new = SEMI \<and> current_level new = LOCKED"
proof -
  let ?ovs = "fold autonomy_step [Downgrade 5 ''bob'' SECURITY_INCIDENT (Some SEMI)] []"
  have o: "dget ?ovs ''bob'' = Some \<lparr>ov_agent_id = ''bob'', original_level = SEMI, current_level = LOCKED, ov_reason = SECURITY_INCIDENT, downgraded_at = 5\<rparr>"
    by code_simp
  let ?later = "[AskPromotion ''bob'' FULL, Downgrade 9 ''bob'' BUDGET_EXHAUSTED (Some FULL), AskRecovery ''bob'']"
  have "Clear ''bob'' \<notin> set ?later" by simp
  from conjunct1 [OF conjunct2 [OF downgrades_are_sticky [OF o this]]]
  obtain new where new: "get_override ''bob'' (fold autonomy_step ?later ?ovs) = Some new"
    "original_level new = SEMI" "compare_autonomy (current_level new) LOCKED \<le> 0"
    unfolding AutonomyOverride.simps by blast
  have "current_level new = LOCKED" using new(3) by (cases "current_level new") (simp_all add: compare_autonomy_def AUTONOMY_RANK_def)
  then show ?thesis using new by blast
qed

end
