(* ===== verification/Security_Gate.thy ===== *)
theory Security_Gate
  imports Security_Rules Autonomy
begin

text \<open>
  The security service that stands before and after every tool call (\<^verbatim>\<open>security/service.py\<close>,
  \<^verbatim>\<open>security/service_safety.py\<close>), with its denial tracker (\<^verbatim>\<open>security/denial_tracker.py\<close>), its audit log
  (\<^verbatim>\<open>security/audit.py\<close>) and the output scan policies (\<^verbatim>\<open>security/output_scan_policy.py\<close>).

  The injected services are arguments that may raise (\<open>Inl\<close>): the rule engine, the model-based evaluator,
  the safety classifier, the uncertainty checker and what the output patterns find and replace. The approval
  store is the one of \<open>Approvals\<close>. An exception that leaves a call is \<open>Inl\<close> with the state it left behind.
\<close>

subsection \<open>Denials\<close>

datatype DenialAction = RETRY | ESCALATE_DENIALS

definition denial_action_value :: "DenialAction \<Rightarrow> string" where
  "denial_action_value a = (case a of RETRY \<Rightarrow> ''retry'' | ESCALATE_DENIALS \<Rightarrow> ''escalate'')"

record denial_tracker =
  dt_max_consecutive :: int
  dt_max_total :: int
  dt_counts :: "(string, int \<times> int) dict"

definition DenialTracker :: "int \<Rightarrow> int \<Rightarrow> string + denial_tracker" where
  "DenialTracker max_consecutive max_total =
     (if max_consecutive < 1 then Inl ''max_consecutive must be >= 1''
      else if max_total < 1 then Inl ''max_total must be >= 1''
      else Inr \<lparr>dt_max_consecutive = max_consecutive, dt_max_total = max_total, dt_counts = []\<rparr>)"

definition get_counts :: "string \<Rightarrow> denial_tracker \<Rightarrow> int \<times> int" where
  "get_counts agent dt = (case dget (dt_counts dt) agent of None \<Rightarrow> (0, 0) | Some c \<Rightarrow> c)"

definition record_denial :: "string \<Rightarrow> denial_tracker \<Rightarrow> DenialAction \<times> denial_tracker" where
  "record_denial agent dt =
     (let (c, t) = (case dget (dt_counts dt) agent of None \<Rightarrow> (0, 0) | Some n \<Rightarrow> n);
          consecutive = c + 1; total = t + 1;
          dt' = dt\<lparr>dt_counts := dput agent (consecutive, total) (dt_counts dt)\<rparr>
      in (if consecutive \<ge> dt_max_consecutive dt \<or> total \<ge> dt_max_total dt then ESCALATE_DENIALS else RETRY, dt'))"

definition reset_consecutive :: "string \<Rightarrow> denial_tracker \<Rightarrow> denial_tracker" where
  "reset_consecutive agent dt =
     (case dget (dt_counts dt) agent of
        None \<Rightarrow> dt
      | Some (c, t) \<Rightarrow> if c > 0 then dt\<lparr>dt_counts := dput agent (0, t) (dt_counts dt)\<rparr> else dt)"

subsection \<open>The audit log\<close>

record AuditEntry =
  ae_id :: string
  ae_timestamp :: time
  ae_agent_id :: "string option"
  ae_task_id :: "string option"
  ae_tool_name :: string
  ae_tool_category :: string
  ae_action_type :: string
  ae_arguments_hash :: string
  ae_verdict :: string
  ae_risk_level :: ApprovalRiskLevel
  ae_reason :: string
  ae_matched_rules :: "string list"
  ae_duration_ms :: rat
  ae_confidence :: EvaluationConfidence
  ae_approval_id :: "string option"

definition is_hex :: "char \<Rightarrow> bool" where
  "is_hex c \<longleftrightarrow> c \<in> set ''0123456789abcdef''"

definition hex_sha256 :: "string \<Rightarrow> bool" where
  "hex_sha256 h \<longleftrightarrow> length h = 64 \<and> list_all is_hex h"

definition valid_audit_entry :: "AuditEntry \<Rightarrow> bool" where
  "valid_audit_entry e \<longleftrightarrow> not_blank (ae_id e) \<and> opt_not_blank (ae_agent_id e) \<and> opt_not_blank (ae_task_id e) \<and>
     not_blank (ae_tool_name e) \<and> hex_sha256 (ae_arguments_hash e) \<and>
     ae_verdict e \<in> {''allow'', ''deny'', ''escalate'', ''output_scan''} \<and> not_blank (ae_reason e) \<and>
     list_all not_blank (ae_matched_rules e) \<and> 0 \<le> ae_duration_ms e \<and> opt_not_blank (ae_approval_id e)"

record audit_log =
  al_max_entries :: int
  al_entries :: "AuditEntry list"
  al_total_recorded :: int

definition AuditLog :: "int \<Rightarrow> string + audit_log" where
  "AuditLog max_entries =
     (if max_entries < 1 then Inl ''max_entries must be >= 1''
      else Inr \<lparr>al_max_entries = max_entries, al_entries = [], al_total_recorded = 0\<rparr>)"

definition audit_clear :: "audit_log \<Rightarrow> audit_log" where
  "audit_clear al = al\<lparr>al_entries := [], al_total_recorded := 0\<rparr>"

definition log_record :: "AuditEntry \<Rightarrow> audit_log \<Rightarrow> audit_log" where
  "log_record e al = al\<lparr>al_entries := deque_append (nat (al_max_entries al)) (al_entries al) e,
     al_total_recorded := al_total_recorded al + 1\<rparr>"

record audit_filter =
  q_agent_id :: "string option"
  q_tool_name :: "string option"
  q_verdict :: "string option"
  q_risk_level :: "ApprovalRiskLevel option"
  q_action_type :: "string option"
  q_since :: "time option"
  q_until :: "time option"

definition audit_matches :: "audit_filter \<Rightarrow> AuditEntry \<Rightarrow> bool" where
  "audit_matches q e \<longleftrightarrow>
     (q_agent_id q \<noteq> None \<longrightarrow> ae_agent_id e = q_agent_id q) \<and>
     (case q_tool_name q of None \<Rightarrow> True | Some n \<Rightarrow> ae_tool_name e = n) \<and>
     (case q_verdict q of None \<Rightarrow> True | Some v \<Rightarrow> ae_verdict e = v) \<and>
     (case q_risk_level q of None \<Rightarrow> True | Some r \<Rightarrow> ae_risk_level e = r) \<and>
     (case q_action_type q of None \<Rightarrow> True | Some a \<Rightarrow> ae_action_type e = a) \<and>
     (case q_since q of None \<Rightarrow> True | Some t \<Rightarrow> \<not> ae_timestamp e < t) \<and>
     (case q_until q of None \<Rightarrow> True | Some t \<Rightarrow> \<not> ae_timestamp e > t)"

text \<open>The loop over the reversed entries, with the results collected so far; it breaks at the limit.\<close>

fun query_loop :: "audit_filter \<Rightarrow> int \<Rightarrow> AuditEntry list \<Rightarrow> AuditEntry list \<Rightarrow> AuditEntry list" where
  "query_loop q n results [] = results"
| "query_loop q n results (e # es) =
     (if \<not> audit_matches q e then query_loop q n results es
      else if int (length (results @ [e])) \<ge> n then results @ [e]
      else query_loop q n (results @ [e]) es)"

definition audit_query :: "audit_filter \<Rightarrow> int \<Rightarrow> audit_log \<Rightarrow> string + AuditEntry list" where
  "audit_query q n al =
     (if n < 1 then Inl ''limit must be >= 1''
      else if (case (q_since q, q_until q) of (Some s, Some u) \<Rightarrow> s > u | _ \<Rightarrow> False) then Inl ''since must not be after until''
      else Inr (query_loop q n [] (rev (al_entries al))))"

definition audit_count :: "audit_log \<Rightarrow> int" where
  "audit_count al = int (length (al_entries al))"

subsection \<open>Safety classification and uncertainty\<close>

datatype SafetyClassification = SAFE | SUSPICIOUS | BLOCKED_ACTION

definition classification_value :: "SafetyClassification \<Rightarrow> string" where
  "classification_value c = (case c of SAFE \<Rightarrow> ''safe'' | SUSPICIOUS \<Rightarrow> ''suspicious'' | BLOCKED_ACTION \<Rightarrow> ''blocked'')"

datatype PermissionTier = SAFE_TOOL | IN_PROJECT | CLASSIFIER_GATED

record SafetyClassifierResult =
  sr_classification :: SafetyClassification
  sr_stripped_description :: string
  sr_reason :: string

record UncertaintyResult =
  ur_confidence_score :: rat
  ur_provider_count :: int
  ur_keyword_overlap :: "rat option"
  ur_embedding_similarity :: "rat option"

definition classify_tier :: "SecurityConfig \<Rightarrow> string \<Rightarrow> PermissionTier" where
  "classify_tier cfg act = (if act \<in> set (sc_safe_tool_categories cfg) then SAFE_TOOL else CLASSIFIER_GATED)"

subsection \<open>The service\<close>

text \<open>The services one call uses, the ids and clock readings it draws, and what the database does to it.\<close>

record gate_env =
  ge_engine :: "SecurityContext \<Rightarrow> unit + SecurityVerdict"
  ge_llm :: "(SecurityContext \<Rightarrow> SecurityVerdict \<Rightarrow> unit + SecurityVerdict) option"
  ge_autonomy :: "EffectiveAutonomy option"
  ge_risk_classifier :: "(string \<Rightarrow> ApprovalRiskLevel) option"
  ge_classifier :: "(string \<Rightarrow> string \<Rightarrow> string \<Rightarrow> ApprovalRiskLevel \<Rightarrow> unit + SafetyClassifierResult) option"
  ge_uncertainty :: "(string \<Rightarrow> unit + UncertaintyResult) option"
  ge_str_float :: "rat \<Rightarrow> string"
  ge_hash :: "(string \<times> argument) list \<Rightarrow> string"
  ge_approval_uuid :: string
  ge_audit_uuid :: string
  ge_now :: time
  ge_store_env :: store_env

record gate =
  g_store :: "approval_store option"
  g_tracker :: "denial_tracker option"
  g_audit :: audit_log

datatype gate_error = InvalidItem item_error | InvalidAuditEntry | GateCancelled | InvalidScanResult

definition verdict_value :: "SecurityVerdictType \<Rightarrow> string" where
  "verdict_value v = (case v of VERDICT_ALLOW \<Rightarrow> ''allow'' | VERDICT_DENY \<Rightarrow> ''deny'' | VERDICT_ESCALATE \<Rightarrow> ''escalate'')"

type_synonym metadata = "(string, string) dict"

definition build_deny_reason :: "string \<Rightarrow> metadata \<Rightarrow> string" where
  "build_deny_reason base md =
     (if dget md ''denial_action'' = Some (denial_action_value RETRY)
      then base @ '' (blocked -- agent may retry with safer approach)''
      else base @ '' (auto-rejected: safety classifier blocked)'')"

text \<open>Each helper returns whether the action is rejected, with the metadata and the tracker.\<close>

definition handle_blocked_denial :: "string \<Rightarrow> metadata \<Rightarrow> denial_tracker option \<Rightarrow> bool \<times> metadata \<times> denial_tracker option" where
  "handle_blocked_denial agent md tracker =
     (case tracker of
        None \<Rightarrow> (True, md, None)
      | Some dt \<Rightarrow>
          (let (action, dt') = record_denial agent dt;
               (consecutive, total) = get_counts agent dt';
               md' = dput ''denial_total'' (py_str_int total) (dput ''denial_consecutive'' (py_str_int consecutive)
                       (dput ''denial_action'' (denial_action_value action) md))
           in (action \<noteq> ESCALATE_DENIALS, md', Some dt')))"

definition process_classification ::
  "SecurityConfig \<Rightarrow> SafetyClassification \<Rightarrow> SecurityContext \<Rightarrow> metadata \<Rightarrow> denial_tracker option
   \<Rightarrow> bool \<times> metadata \<times> denial_tracker option" where
  "process_classification cfg cl cx md tracker =
     (let agent = (case cx_agent_id cx of Some a \<Rightarrow> if a = [] then ''unknown'' else a | None \<Rightarrow> ''unknown'') in
      if cl = BLOCKED_ACTION \<and> sc_auto_reject_blocked cfg then handle_blocked_denial agent md tracker
      else (False, md, map_option (reset_consecutive agent) tracker))"

definition run_safety_classifier ::
  "SecurityConfig \<Rightarrow> (string \<Rightarrow> string \<Rightarrow> string \<Rightarrow> ApprovalRiskLevel \<Rightarrow> unit + SafetyClassifierResult)
   \<Rightarrow> SecurityContext \<Rightarrow> SecurityVerdict \<Rightarrow> metadata \<Rightarrow> denial_tracker option \<Rightarrow> bool \<times> metadata \<times> denial_tracker option" where
  "run_safety_classifier cfg cls cx v md tracker =
     (if classify_tier cfg (cx_action_type cx) = SAFE_TOOL then (False, md, tracker)
      else case cls (v_reason v) (cx_action_type cx) (cx_tool_name cx) (v_risk_level v) of
             Inl _ \<Rightarrow> (False, md, tracker)
           | Inr r \<Rightarrow>
               process_classification cfg (sr_classification r) cx
                 (dput ''safety_reason'' (sr_reason r) (dput ''stripped_description'' (sr_stripped_description r)
                    (dput ''safety_classification'' (classification_value (sr_classification r)) md))) tracker)"

definition put_float :: "(rat \<Rightarrow> string) \<Rightarrow> string \<Rightarrow> rat option \<Rightarrow> metadata \<Rightarrow> metadata" where
  "put_float str k x md = (case x of None \<Rightarrow> md | Some f \<Rightarrow> dput k (str f) md)"

definition run_uncertainty_check ::
  "SecurityConfig \<Rightarrow> (rat \<Rightarrow> string) \<Rightarrow> (string \<Rightarrow> unit + UncertaintyResult) \<Rightarrow> string \<Rightarrow> metadata \<Rightarrow> metadata" where
  "run_uncertainty_check cfg str check prompt md =
     (case check prompt of
        Inl _ \<Rightarrow> dput ''uncertainty_check_error'' ''true'' md
      | Inr r \<Rightarrow>
          (let md1 = dput ''uncertainty_provider_count'' (py_str_int (ur_provider_count r)) md;
               md2 = (if ur_provider_count r \<ge> 2
                      then (let m = dput ''confidence_score'' (str (ur_confidence_score r)) md1 in
                            if ur_confidence_score r < sc_low_confidence_threshold cfg then dput ''low_confidence'' ''true'' m else m)
                      else dput ''uncertainty_check_skipped'' ''true'' md1)
           in put_float str ''embedding_similarity'' (ur_embedding_similarity r)
                (put_float str ''keyword_overlap'' (ur_keyword_overlap r) md2)))"

definition maybe_llm_fallback :: "SecurityConfig \<Rightarrow> gate_env \<Rightarrow> SecurityContext \<Rightarrow> SecurityVerdict \<Rightarrow> SecurityVerdict" where
  "maybe_llm_fallback cfg env cx v =
     (if v_confidence v \<noteq> CONFIDENCE_LOW then v
      else if v_verdict v \<noteq> VERDICT_ALLOW then v
      else if \<not> sc_llm_enabled cfg then v
      else case ge_llm env of
             None \<Rightarrow> v
           | Some llm \<Rightarrow>
               if (case ge_autonomy env of None \<Rightarrow> False | Some a \<Rightarrow> ea_level a = FULL) then v
               else (case llm cx v of
                       Inr w \<Rightarrow> w
                     | Inl _ \<Rightarrow>
                        (case sc_llm_on_error cfg of
                           DENY_ON_ERROR \<Rightarrow> v\<lparr>v_verdict := VERDICT_DENY,
                             v_reason := v_reason v @ '' (LLM evaluator error -- denied per policy)'', v_risk_level := RISK_HIGH\<rparr>
                         | ESCALATE_ON_ERROR \<Rightarrow> v\<lparr>v_verdict := VERDICT_ESCALATE,
                             v_reason := v_reason v @ '' (LLM evaluator error -- escalated per policy)'', v_risk_level := RISK_HIGH\<rparr>
                         | USE_RULE_VERDICT \<Rightarrow> v)))"

definition apply_autonomy_augmentation :: "gate_env \<Rightarrow> SecurityContext \<Rightarrow> SecurityVerdict \<Rightarrow> SecurityVerdict" where
  "apply_autonomy_augmentation env cx v =
     (case ge_autonomy env of
        None \<Rightarrow> v
      | Some a \<Rightarrow>
          if v_verdict v \<noteq> VERDICT_ALLOW then v
          else if cx_action_type cx \<in> auto_approve_actions a then v
          else if cx_action_type cx \<in> human_approval_actions a then
            v\<lparr>v_verdict := VERDICT_ESCALATE,
              v_reason := ''Human approval required by autonomy level '' @ [CHR 0x27] @ autonomy_value (ea_level a) @ [CHR 0x27],
              v_risk_level := (case ge_risk_classifier env of Some cl \<Rightarrow> cl (cx_action_type cx) | None \<Rightarrow> RISK_HIGH)\<rparr>
          else v)"

definition audit_entry_of :: "gate_env \<Rightarrow> SecurityContext \<Rightarrow> SecurityVerdict \<Rightarrow> AuditEntry" where
  "audit_entry_of env cx v =
     \<lparr>ae_id = ge_audit_uuid env, ae_timestamp = v_evaluated_at v, ae_agent_id = cx_agent_id cx, ae_task_id = cx_task_id cx,
      ae_tool_name = cx_tool_name cx, ae_tool_category = cx_tool_category cx, ae_action_type = cx_action_type cx,
      ae_arguments_hash = ge_hash env (cx_arguments cx), ae_verdict = verdict_value (v_verdict v), ae_risk_level = v_risk_level v,
      ae_reason = v_reason v, ae_matched_rules = v_matched_rules v, ae_duration_ms = v_duration_ms v,
      ae_confidence = v_confidence v, ae_approval_id = v_approval_id v\<rparr>"

definition record_audit :: "gate_env \<Rightarrow> SecurityContext \<Rightarrow> SecurityVerdict \<Rightarrow> gate \<Rightarrow> (gate_error + unit) \<times> gate" where
  "record_audit env cx v g =
     (let e = audit_entry_of env cx v in
      if valid_audit_entry e then (Inr (), g\<lparr>g_audit := log_record e (g_audit g)\<rparr>) else (Inl InvalidAuditEntry, g))"

definition escalation_item :: "gate_env \<Rightarrow> SecurityContext \<Rightarrow> SecurityVerdict \<Rightarrow> string \<Rightarrow> metadata \<Rightarrow> ApprovalItem" where
  "escalation_item env cx v description md =
     \<lparr>ap_id = ge_approval_uuid env, ap_action_type = cx_action_type cx, ap_title = ''Security escalation: '' @ cx_tool_name cx,
      ap_description = description,
      ap_requested_by = (case cx_agent_id cx of Some a \<Rightarrow> if a = [] then ''system'' else a | None \<Rightarrow> ''system''),
      ap_risk_level = v_risk_level v, ap_status = PENDING, ap_created_at = ge_now env, ap_expires_at = None, ap_decided_at = None,
      ap_decided_by = None, ap_decision_reason = None, ap_task_id = cx_task_id cx, ap_evidence_package = None, ap_metadata = md\<rparr>"

text \<open>The store's part of an escalation: the item is built outside the handler that turns errors into DENY.\<close>

definition store_escalation ::
  "gate_env \<Rightarrow> ApprovalItem \<Rightarrow> SecurityVerdict \<Rightarrow> approval_store \<Rightarrow> gate \<Rightarrow> (gate_error + SecurityVerdict) \<times> gate" where
  "store_escalation env item v s g =
     (case item_check item of
        Some e \<Rightarrow> (Inl (InvalidItem e), g)
      | None \<Rightarrow>
          (case store_add (ge_store_env env) item s of
             (Inl e, s') \<Rightarrow>
               if e = CancelledError then (Inl GateCancelled, g\<lparr>g_store := Some s'\<rparr>)
               else (Inr (v\<lparr>v_verdict := VERDICT_DENY, v_reason := v_reason v @ '' (escalation store error -- denied)''\<rparr>),
                     g\<lparr>g_store := Some s'\<rparr>)
           | (Inr _, s') \<Rightarrow> (Inr (v\<lparr>v_approval_id := Some (ge_approval_uuid env)\<rparr>), g\<lparr>g_store := Some s'\<rparr>)))"

definition handle_escalation ::
  "SecurityConfig \<Rightarrow> gate_env \<Rightarrow> SecurityContext \<Rightarrow> SecurityVerdict \<Rightarrow> gate \<Rightarrow> (gate_error + SecurityVerdict) \<times> gate" where
  "handle_escalation cfg env cx v g =
     (case g_store g of
        None \<Rightarrow> (Inr (v\<lparr>v_verdict := VERDICT_DENY, v_reason := v_reason v @ '' (escalation unavailable -- denied)''\<rparr>), g)
      | Some s \<Rightarrow>
          (let md0 = [(''tool_name'', cx_tool_name cx), (''tool_category'', cx_tool_category cx)];
               (rejected, md1, tracker) = (case ge_classifier env of
                  None \<Rightarrow> (False, md0, g_tracker g)
                | Some cls \<Rightarrow> run_safety_classifier cfg cls cx v md0 (g_tracker g));
               g1 = g\<lparr>g_tracker := tracker\<rparr>;
               stripped = dget_or md1 ''stripped_description'' []
           in if rejected then (Inr (v\<lparr>v_verdict := VERDICT_DENY, v_reason := build_deny_reason (v_reason v) md1\<rparr>), g1)
              else let description = (if stripped \<noteq> [] then stripped else v_reason v);
                       md2 = (case ge_uncertainty env of
                          None \<Rightarrow> md1
                        | Some check \<Rightarrow> if stripped \<noteq> [] then run_uncertainty_check cfg (ge_str_float env) check stripped md1 else md1)
                   in store_escalation env (escalation_item env cx v description md2) v s g1))"

definition apply_shadow :: "SecurityConfig \<Rightarrow> SecurityVerdict \<Rightarrow> SecurityVerdict" where
  "apply_shadow cfg v =
     (if sc_enforcement_mode cfg = SHADOW_MODE \<and> v_verdict v \<noteq> VERDICT_ALLOW
      then v\<lparr>v_verdict := VERDICT_ALLOW, v_reason := ''Shadow mode (original: '' @ verdict_value (v_verdict v) @ '')'',
             v_approval_id := None, v_agent_visible_reason := None\<rparr>
      else v)"

definition audit_if_enabled ::
  "SecurityConfig \<Rightarrow> gate_env \<Rightarrow> SecurityContext \<Rightarrow> SecurityVerdict \<Rightarrow> gate \<Rightarrow> (gate_error + unit) \<times> gate" where
  "audit_if_enabled cfg env cx v g = (if sc_audit_enabled cfg then record_audit env cx v g else (Inr (), g))"

definition rule_verdict :: "gate_env \<Rightarrow> SecurityContext \<Rightarrow> SecurityVerdict" where
  "rule_verdict env cx =
     (case ge_engine env cx of
        Inr v \<Rightarrow> v
      | Inl _ \<Rightarrow> mk_verdict VERDICT_DENY ''Rule engine evaluation failed (fail-closed)'' RISK_CRITICAL [] (ge_now env))"

definition evaluate_pre_tool ::
  "SecurityConfig \<Rightarrow> gate_env \<Rightarrow> SecurityContext \<Rightarrow> gate \<Rightarrow> (gate_error + SecurityVerdict) \<times> gate" where
  "evaluate_pre_tool cfg env cx g =
     (if \<not> sc_enabled cfg \<or> sc_enforcement_mode cfg = DISABLED_MODE then
        (let v = mk_verdict VERDICT_ALLOW ''Security subsystem disabled'' RISK_LOW [] (ge_now env) in
         case audit_if_enabled cfg env cx v g of (Inl e, g') \<Rightarrow> (Inl e, g') | (Inr _, g') \<Rightarrow> (Inr v, g'))
      else
        (let v = apply_autonomy_augmentation env cx (maybe_llm_fallback cfg env cx (rule_verdict env cx)) in
         case (if v_verdict v = VERDICT_ESCALATE then handle_escalation cfg env cx v g else (Inr v, g)) of
           (Inl e, g') \<Rightarrow> (Inl e, g')
         | (Inr w, g') \<Rightarrow>
             (case audit_if_enabled cfg env cx w g' of
                (Inl e, g'') \<Rightarrow> (Inl e, g'')
              | (Inr _, g'') \<Rightarrow> (Inr (apply_shadow cfg w), g''))))"

subsection \<open>Output scanning\<close>

datatype ScanOutcome = CLEAN | REDACTED | WITHHELD | LOG_ONLY

record OutputScanResult =
  has_sensitive_data :: bool
  findings :: "string list"
  redacted_content :: "string option"
  scan_outcome :: ScanOutcome

definition clean_scan :: OutputScanResult where
  "clean_scan = \<lparr>has_sensitive_data = False, findings = [], redacted_content = None, scan_outcome = CLEAN\<rparr>"

definition valid_scan_result :: "OutputScanResult \<Rightarrow> bool" where
  "valid_scan_result r \<longleftrightarrow> list_all not_blank (findings r) \<and>
     (if \<not> has_sensitive_data r
      then findings r = [] \<and> redacted_content r = None \<and> scan_outcome r \<notin> {REDACTED, WITHHELD}
      else scan_outcome r \<noteq> CLEAN \<and> findings r \<noteq> []) \<and>
     \<not> (scan_outcome r = REDACTED \<and> redacted_content r = None) \<and>
     \<not> (scan_outcome r = WITHHELD \<and> redacted_content r \<noteq> None) \<and>
     \<not> (scan_outcome r = LOG_ONLY \<and> has_sensitive_data r)"

text \<open>A pattern: its name, whether it matches, and the text with its matches replaced.\<close>

type_synonym output_pattern = "string \<times> (string \<Rightarrow> bool) \<times> (string \<Rightarrow> string)"

fun scan_patterns :: "output_pattern list \<Rightarrow> string \<Rightarrow> string list \<Rightarrow> string \<Rightarrow> string list \<times> string" where
  "scan_patterns [] output fs redacted = (fs, redacted)"
| "scan_patterns ((n, search, sub) # ps) output fs redacted =
     (if search output then scan_patterns ps output (fs @ [n]) (sub redacted) else scan_patterns ps output fs redacted)"

definition output_scanner_scan :: "output_pattern list \<Rightarrow> string \<Rightarrow> OutputScanResult" where
  "output_scanner_scan ps output =
     (let (fs, redacted) = scan_patterns ps output [] output in
      if fs = [] then clean_scan
      else \<lparr>has_sensitive_data = True, findings = sorted_unique fs, redacted_content = Some redacted, scan_outcome = REDACTED\<rparr>)"

definition redact_apply :: "OutputScanResult \<Rightarrow> OutputScanResult" where
  "redact_apply r = r"

definition withhold_apply :: "OutputScanResult \<Rightarrow> OutputScanResult" where
  "withhold_apply r = (if \<not> has_sensitive_data r then r else r\<lparr>redacted_content := None, scan_outcome := WITHHELD\<rparr>)"

definition log_only_apply :: "OutputScanResult \<Rightarrow> OutputScanResult" where
  "log_only_apply r = (if has_sensitive_data r then clean_scan\<lparr>scan_outcome := LOG_ONLY\<rparr> else clean_scan)"

definition DEFAULT_AUTONOMY_POLICY_MAP :: "AutonomyLevel \<Rightarrow> OutputScanResult \<Rightarrow> OutputScanResult" where
  "DEFAULT_AUTONOMY_POLICY_MAP l =
     (case l of FULL \<Rightarrow> log_only_apply | SEMI \<Rightarrow> redact_apply | SUPERVISED \<Rightarrow> redact_apply | LOCKED \<Rightarrow> withhold_apply)"

definition autonomy_tiered_apply :: "EffectiveAutonomy option \<Rightarrow> OutputScanResult \<Rightarrow> OutputScanResult" where
  "autonomy_tiered_apply a r = (case a of None \<Rightarrow> redact_apply r | Some ea \<Rightarrow> DEFAULT_AUTONOMY_POLICY_MAP (ea_level ea) r)"

definition build_output_scan_policy :: "OutputScanPolicyType \<Rightarrow> EffectiveAutonomy option \<Rightarrow> OutputScanResult \<Rightarrow> OutputScanResult" where
  "build_output_scan_policy t a =
     (case t of SCAN_REDACT \<Rightarrow> redact_apply | SCAN_WITHHOLD \<Rightarrow> withhold_apply | SCAN_LOG_ONLY \<Rightarrow> log_only_apply
      | SCAN_AUTONOMY_TIERED \<Rightarrow> autonomy_tiered_apply a)"

definition scan_audit_entry :: "gate_env \<Rightarrow> SecurityContext \<Rightarrow> OutputScanResult \<Rightarrow> AuditEntry" where
  "scan_audit_entry env cx r =
     \<lparr>ae_id = ge_audit_uuid env, ae_timestamp = ge_now env, ae_agent_id = cx_agent_id cx, ae_task_id = cx_task_id cx,
      ae_tool_name = cx_tool_name cx, ae_tool_category = cx_tool_category cx, ae_action_type = cx_action_type cx,
      ae_arguments_hash = ge_hash env (cx_arguments cx), ae_verdict = ''output_scan'', ae_risk_level = RISK_HIGH,
      ae_reason = ''Sensitive data in output: '' @ py_join '', '' (findings r), ae_matched_rules = [], ae_duration_ms = 0,
      ae_confidence = CONFIDENCE_HIGH, ae_approval_id = None\<rparr>"

definition scan_output ::
  "SecurityConfig \<Rightarrow> gate_env \<Rightarrow> output_pattern list \<Rightarrow> SecurityContext \<Rightarrow> string \<Rightarrow> gate \<Rightarrow> (gate_error + OutputScanResult) \<times> gate" where
  "scan_output cfg env ps cx output g =
     (if \<not> sc_post_tool_scanning_enabled cfg then (Inr clean_scan, g)
      else let r = output_scanner_scan ps output;
               e = scan_audit_entry env cx r;
               policy = build_output_scan_policy (sc_output_scan_policy_type cfg) (ge_autonomy env)
           in if \<not> valid_scan_result r then (Inl InvalidScanResult, g)
              else if has_sensitive_data r \<and> sc_audit_enabled cfg then
                if valid_audit_entry e then (Inr (policy r), g\<lparr>g_audit := log_record e (g_audit g)\<rparr>) else (Inl InvalidAuditEntry, g)
              else (Inr (policy r), g))"

subsection \<open>Counting denials\<close>

datatype denial_event = Denied string | Succeeded string

fun event_agent :: "denial_event \<Rightarrow> string" where
  "event_agent (Denied a) = a"
| "event_agent (Succeeded a) = a"

fun denial_step :: "denial_event \<Rightarrow> denial_tracker \<Rightarrow> denial_tracker" where
  "denial_step (Denied a) dt = snd (record_denial a dt)"
| "denial_step (Succeeded a) dt = reset_consecutive a dt"

text \<open>The denials of an agent since its last success, and all its denials.\<close>

definition consecutive_denials :: "string \<Rightarrow> denial_event list \<Rightarrow> nat" where
  "consecutive_denials a es = length (takeWhile ((=) (Denied a)) (rev (filter (\<lambda>e. event_agent e = a) es)))"

definition total_denials :: "string \<Rightarrow> denial_event list \<Rightarrow> nat" where
  "total_denials a es = length (filter ((=) (Denied a)) es)"

lemma denial_counts_snoc [simp]:
  "consecutive_denials a (es @ [Denied b]) = (if a = b then Suc (consecutive_denials a es) else consecutive_denials a es)"
  "consecutive_denials a (es @ [Succeeded b]) = (if a = b then 0 else consecutive_denials a es)"
  "total_denials a (es @ [Denied b]) = (if a = b then Suc (total_denials a es) else total_denials a es)"
  "total_denials a (es @ [Succeeded b]) = total_denials a es"
  by (auto simp: consecutive_denials_def total_denials_def)

lemma get_counts_steps [simp]:
  "get_counts a (snd (record_denial b dt)) = (if a = b then (fst (get_counts a dt) + 1, snd (get_counts a dt) + 1) else get_counts a dt)"
  "0 \<le> fst (get_counts b dt) \<Longrightarrow>
     get_counts a (reset_consecutive b dt) = (if a = b then (0, snd (get_counts a dt)) else get_counts a dt)"
  by (auto simp: get_counts_def record_denial_def reset_consecutive_def Let_def split: option.splits prod.splits)

lemma limits_kept [simp]:
  "dt_max_consecutive (denial_step e dt) = dt_max_consecutive dt" "dt_max_total (denial_step e dt) = dt_max_total dt"
  by (cases e; auto simp: record_denial_def reset_consecutive_def Let_def split: option.splits prod.splits)+

lemma record_denial_action:
  "fst (record_denial a dt) =
     (if fst (get_counts a dt) + 1 \<ge> dt_max_consecutive dt \<or> snd (get_counts a dt) + 1 \<ge> dt_max_total dt then ESCALATE_DENIALS else RETRY)"
  by (auto simp: get_counts_def record_denial_def Let_def split: option.splits prod.splits)

lemma limits_run:
  "dt_max_consecutive (fold denial_step es dt) = dt_max_consecutive dt" "dt_max_total (fold denial_step es dt) = dt_max_total dt"
  by (induction es arbitrary: dt) simp_all

lemma get_counts_run:
  assumes "dt_counts dt = []"
  shows "get_counts a (fold denial_step es dt) = (int (consecutive_denials a es), int (total_denials a es))"
proof (induction es arbitrary: a rule: rev_induct)
  case Nil
  then show ?case using assms by (simp add: get_counts_def consecutive_denials_def total_denials_def)
next
  case (snoc e es)
  then show ?case by (cases e) simp_all
qed

text \<open>
  The denial tracker. After any sequence of denials and successes, the counts of an agent are its
  denials since its last success and all its denials, unaffected by other agents; the next denial
  escalates exactly when it reaches one of the two limits.
\<close>

theorem denial_counts_exact:
  assumes "DenialTracker mc mt = Inr dt"
  shows "get_counts a (fold denial_step es dt) = (int (consecutive_denials a es), int (total_denials a es)) \<and>
    fst (record_denial a (fold denial_step es dt)) =
      (if int (consecutive_denials a es) + 1 \<ge> mc \<or> int (total_denials a es) + 1 \<ge> mt then ESCALATE_DENIALS else RETRY)"
proof -
  have dt: "dt_counts dt = []" "dt_max_consecutive dt = mc" "dt_max_total dt = mt"
    using assms by (auto simp: DenialTracker_def split: if_splits)
  show ?thesis by (simp add: record_denial_action get_counts_run [OF dt(1)] limits_run dt)
qed

theorem denial_counts_exact_witness:
  "fst (record_denial ''a'' (fold denial_step [Denied ''a'', Denied ''b'', Succeeded ''a'', Denied ''a''] (projr (DenialTracker 3 20)))) = RETRY"
proof -
  have "DenialTracker 3 20 = Inr (projr (DenialTracker 3 20))" by (simp add: DenialTracker_def)
  from denial_counts_exact [OF this, of "''a''" "[Denied ''a'', Denied ''b'', Succeeded ''a'', Denied ''a'']"]
  show ?thesis by (simp add: consecutive_denials_def total_denials_def)
qed

subsection \<open>The audit log\<close>

lemma query_loop_take:
  assumes "0 < n" and "int (length acc) < n"
  shows "query_loop q n acc es = acc @ take (nat n - length acc) (filter (audit_matches q) es)"
  using assms(2)
proof (induction es arbitrary: acc)
  case (Cons e es)
  show ?case
  proof (cases "audit_matches q e")
    case True
    show ?thesis
    proof (cases "int (length acc) + 1 \<ge> n")
      case True
      then have "nat n - length acc = 1" using Cons.prems by linarith
      then show ?thesis using \<open>audit_matches q e\<close> True by simp
    next
      case False
      then have "nat n - length acc = Suc (nat n - Suc (length acc))" using Cons.prems by linarith
      then show ?thesis using \<open>audit_matches q e\<close> False Cons.IH [of "acc @ [e]"] by simp
    qed
  qed (use Cons in simp)
qed simp

lemma audit_log_run:
  assumes "AuditLog m = Inr al"
  shows "al_entries (fold log_record es al) = drop (length es - nat m) es \<and>
    al_total_recorded (fold log_record es al) = int (length es) \<and> al_max_entries (fold log_record es al) = m"
proof (induction es rule: rev_induct)
  case Nil
  then show ?case using assms by (auto simp: AuditLog_def split: if_splits)
next
  case (snoc e es)
  then show ?case using deque_append_drop [of "nat m" es e] by (simp add: log_record_def)
qed

text \<open>
  The audit log. After recording any entries it holds the newest ones up to its capacity, in order,
  and counts all; a query returns the newest matching entries up to its limit and fails exactly for a
  limit below one or a window that ends before it starts.
\<close>

theorem audit_log_exact:
  fixes es :: "AuditEntry list"
  assumes "AuditLog m = Inr al"
  defines "kept \<equiv> drop (length es - nat m) es"
  shows "al_entries (fold log_record es al) = kept \<and> int (length kept) = min m (int (length es)) \<and>
    al_total_recorded (fold log_record es al) = int (length es) \<and>
    audit_query q n (fold log_record es al) =
      (if n < 1 then Inl ''limit must be >= 1''
       else if (\<exists>s u. q_since q = Some s \<and> q_until q = Some u \<and> u < s) then Inl ''since must not be after until''
       else Inr (take (nat n) (filter (audit_matches q) (rev kept))))"
proof -
  have m: "1 \<le> m" using assms(1) by (auto simp: AuditLog_def split: if_splits)
  have len: "int (length kept) = min m (int (length es))" using m unfolding kept_def by auto
  have window: "(case (q_since q, q_until q) of (Some s, Some u) \<Rightarrow> s > u | _ \<Rightarrow> False) \<longleftrightarrow>
      (\<exists>s u. q_since q = Some s \<and> q_until q = Some u \<and> u < s)"
    by (auto split: option.splits)
  show ?thesis using audit_log_run [OF assms(1), of es] len window query_loop_take [of n "[]" q "rev kept"]
    by (auto simp: audit_query_def kept_def)
qed

definition sample_entry :: "string \<Rightarrow> time \<Rightarrow> AuditEntry" where
  "sample_entry k t = \<lparr>ae_id = k, ae_timestamp = t, ae_agent_id = None, ae_task_id = None, ae_tool_name = ''ls'', ae_tool_category = ''other'',
     ae_action_type = ''code:read'', ae_arguments_hash = replicate 64 (CHR ''0''), ae_verdict = ''allow'', ae_risk_level = RISK_LOW,
     ae_reason = ''ok'', ae_matched_rules = [], ae_duration_ms = 0, ae_confidence = CONFIDENCE_HIGH, ae_approval_id = None\<rparr>"

theorem audit_log_exact_witness:
  "al_entries (fold log_record [sample_entry ''1'' 1, sample_entry ''2'' 2, sample_entry ''3'' 3] (projr (AuditLog 2))) =
     [sample_entry ''2'' 2, sample_entry ''3'' 3]"
proof -
  have "AuditLog 2 = Inr (projr (AuditLog 2))" by (simp add: AuditLog_def)
  from audit_log_exact [OF this, where es = "[sample_entry ''1'' 1, sample_entry ''2'' 2, sample_entry ''3'' 3]"] show ?thesis by simp
qed

subsection \<open>Verdicts along the pipeline\<close>

lemma llm_allow: "v_verdict (maybe_llm_fallback cfg env cx v) = VERDICT_ALLOW \<Longrightarrow> v_verdict v = VERDICT_ALLOW"
  by (auto simp: maybe_llm_fallback_def split: if_splits)

lemma llm_blocked: "v_verdict v \<noteq> VERDICT_ALLOW \<Longrightarrow> maybe_llm_fallback cfg env cx v = v"
  by (simp add: maybe_llm_fallback_def)

lemma autonomy_allow:
  "v_verdict (apply_autonomy_augmentation env cx v) = VERDICT_ALLOW \<Longrightarrow>
     v_verdict v = VERDICT_ALLOW \<and>
     (\<forall>a. ge_autonomy env = Some a \<longrightarrow> cx_action_type cx \<in> auto_approve_actions a \<or> cx_action_type cx \<notin> human_approval_actions a)"
  by (auto simp: apply_autonomy_augmentation_def split: option.splits if_splits)

lemma autonomy_blocked: "v_verdict v \<noteq> VERDICT_ALLOW \<Longrightarrow> apply_autonomy_augmentation env cx v = v"
  by (simp add: apply_autonomy_augmentation_def split: option.splits)

text \<open>What an escalation can end in.\<close>

lemma store_escalation_outcome:
  assumes "store_escalation env item v s g = (Inr w, g')" and "v_verdict v = VERDICT_ESCALATE"
  shows "(v_verdict w = VERDICT_DENY \<or>
      v_verdict w = VERDICT_ESCALATE \<and> v_approval_id w = Some (ge_approval_uuid env) \<and> v_risk_level w = v_risk_level v \<and> item_check item = None \<and>
      (\<exists>s'. store_add (ge_store_env env) item s = (Inr (), s') \<and> g_store g' = Some s')) \<and>
    g_audit g' = g_audit g"
  using assms by (auto simp: store_escalation_def split: option.splits prod.splits sum.splits if_splits)

lemma handle_escalation_outcome:
  assumes "handle_escalation cfg env cx v g = (Inr w, g')" and "v_verdict v = VERDICT_ESCALATE"
  shows "(v_verdict w = VERDICT_DENY \<or>
      v_verdict w = VERDICT_ESCALATE \<and> v_approval_id w = Some (ge_approval_uuid env) \<and> v_risk_level w = v_risk_level v \<and>
      (\<exists>s s' d md. g_store g = Some s \<and> item_check (escalation_item env cx v d md) = None \<and>
         store_add (ge_store_env env) (escalation_item env cx v d md) s = (Inr (), s') \<and> g_store g' = Some s')) \<and>
    g_audit g' = g_audit g"
proof (cases "g_store g")
  case None
  then show ?thesis using assms by (auto simp: handle_escalation_def)
next
  case (Some s)
  let ?md = "[(''tool_name'', cx_tool_name cx), (''tool_category'', cx_tool_category cx)]"
  obtain rej md tr where c: "(case ge_classifier env of None \<Rightarrow> (False, ?md, g_tracker g)
      | Some cls \<Rightarrow> run_safety_classifier cfg cls cx v ?md (g_tracker g)) = (rej, md, tr)" by (metis prod_cases3)
  show ?thesis
  proof (cases rej)
    case True
    then show ?thesis using assms Some c by (auto simp: handle_escalation_def Let_def)
  next
    case False
    then obtain d md' where "store_escalation env (escalation_item env cx v d md') v s (g\<lparr>g_tracker := tr\<rparr>) = (Inr w, g')"
      using assms(1) Some c by (auto simp: handle_escalation_def Let_def)
    from store_escalation_outcome [OF this assms(2)] show ?thesis using Some by auto
  qed
qed

text \<open>A returned verdict is the decided one, recorded if auditing is on, and changed only by shadow mode.\<close>

definition final_verdict :: "SecurityConfig \<Rightarrow> gate_env \<Rightarrow> SecurityContext \<Rightarrow> SecurityVerdict" where
  "final_verdict cfg env cx = apply_autonomy_augmentation env cx (maybe_llm_fallback cfg env cx (rule_verdict env cx))"

lemma audit_if_enabled_outcome:
  assumes "audit_if_enabled cfg env cx v g = (Inr u, g')"
  shows "g_store g' = g_store g \<and> g_tracker g' = g_tracker g \<and>
    (if sc_audit_enabled cfg then valid_audit_entry (audit_entry_of env cx v) \<and> g_audit g' = log_record (audit_entry_of env cx v) (g_audit g)
     else g_audit g' = g_audit g)"
  using assms by (auto simp: audit_if_enabled_def record_audit_def Let_def split: if_splits)

lemma evaluate_steps:
  assumes "evaluate_pre_tool cfg env cx g = (Inr v, g')" and "sc_enabled cfg" and "sc_enforcement_mode cfg \<noteq> DISABLED_MODE"
  obtains w g1 where "v = apply_shadow cfg w"
    and "(if v_verdict (final_verdict cfg env cx) = VERDICT_ESCALATE then handle_escalation cfg env cx (final_verdict cfg env cx) g
          else (Inr (final_verdict cfg env cx), g)) = (Inr w, g1)"
    and "audit_if_enabled cfg env cx w g1 = (Inr (), g')"
proof -
  obtain r g1 where r: "(if v_verdict (final_verdict cfg env cx) = VERDICT_ESCALATE then handle_escalation cfg env cx (final_verdict cfg env cx) g
          else (Inr (final_verdict cfg env cx), g)) = (r, g1)" by (rule prod.exhaust)
  then show ?thesis using assms that
    by (auto simp: evaluate_pre_tool_def Let_def final_verdict_def [symmetric] split: sum.splits prod.splits)
qed

lemma engine_silent_unless_safe:
  assumes "valid_security_config cfg" and "v_verdict (engine_evaluate clk (build_rule_engine pt now cfg) cx) = VERDICT_ALLOW"
  shows "cx_action_type cx \<notin> set (sc_hard_deny cfg) \<and> list_all (\<lambda>r. rule_evaluate r cx = Inr None) (detectors pt now (sc_rule_engine cfg))"
  using detectors_not_bypassed [OF assms(1) refl, where clk = clk and pt = pt and now = now and c = cx] assms(2) by (auto simp: list_all_iff)

lemma gate_allow:
  assumes "evaluate_pre_tool cfg env cx g = (Inr v, g')" and "sc_enabled cfg" and "sc_enforcement_mode cfg = ACTIVE_MODE"
    and "v_verdict v = VERDICT_ALLOW"
  shows "v_verdict (rule_verdict env cx) = VERDICT_ALLOW \<and>
    (\<forall>a. ge_autonomy env = Some a \<longrightarrow> cx_action_type cx \<in> auto_approve_actions a \<or> cx_action_type cx \<notin> human_approval_actions a)"
proof -
  from evaluate_steps [OF assms(1,2)] assms(3) obtain w g1 where st: "v = apply_shadow cfg w"
      "(if v_verdict (final_verdict cfg env cx) = VERDICT_ESCALATE then handle_escalation cfg env cx (final_verdict cfg env cx) g
        else (Inr (final_verdict cfg env cx), g)) = (Inr w, g1)" "audit_if_enabled cfg env cx w g1 = (Inr (), g')" by auto
  have "v = w" using st(1) assms(3) by (simp add: apply_shadow_def)
  then have "v_verdict (final_verdict cfg env cx) = VERDICT_ALLOW"
    using assms(4) st(2) handle_escalation_outcome [of cfg env cx "final_verdict cfg env cx" g w g1] by (auto split: if_splits)
  then show ?thesis
    using autonomy_allow [of env cx "maybe_llm_fallback cfg env cx (rule_verdict env cx)"] llm_allow [of cfg env cx "rule_verdict env cx"]
    unfolding final_verdict_def by blast
qed

text \<open>
  C25: the gate before every tool call. With security enabled in ACTIVE mode, a valid configuration and the
  rule engine assembled from it, whatever the language model, the classifiers and the autonomy say, the
  verdict is ALLOW only for an action type that is not hard-denied, when no enabled detector finds
  anything in the arguments and the agent's autonomy does not demand a human; a hard-denied action type
  is denied with CRITICAL risk and leaves approvals and denial counts alone.
\<close>

theorem gate_enforces_policy:
  assumes "valid_security_config cfg" and "sc_enabled cfg" and "sc_enforcement_mode cfg = ACTIVE_MODE"
    and "ge_engine env = (\<lambda>c. Inr (engine_evaluate clk (build_rule_engine pt now cfg) c))"
    and "evaluate_pre_tool cfg env cx g = (Inr v, g')"
  shows "(v_verdict v = VERDICT_ALLOW \<longrightarrow>
      cx_action_type cx \<notin> set (sc_hard_deny cfg) \<and>
      list_all (\<lambda>r. rule_evaluate r cx = Inr None) (detectors pt now (sc_rule_engine cfg)) \<and>
      (\<forall>a. ge_autonomy env = Some a \<longrightarrow> cx_action_type cx \<in> auto_approve_actions a \<or> cx_action_type cx \<notin> human_approval_actions a)) \<and>
    (cx_action_type cx \<in> set (sc_hard_deny cfg) \<longrightarrow>
      v_verdict v = VERDICT_DENY \<and> v_risk_level v = RISK_CRITICAL \<and> g_store g' = g_store g \<and> g_tracker g' = g_tracker g)"
proof -
  let ?r = "engine_evaluate clk (build_rule_engine pt now cfg) cx"
  have rv: "rule_verdict env cx = ?r" using assms(4) by (simp add: rule_verdict_def)
  from evaluate_steps [OF assms(5,2)] assms(3) obtain w g1 where st: "v = apply_shadow cfg w"
      "(if v_verdict (final_verdict cfg env cx) = VERDICT_ESCALATE then handle_escalation cfg env cx (final_verdict cfg env cx) g
        else (Inr (final_verdict cfg env cx), g)) = (Inr w, g1)" "audit_if_enabled cfg env cx w g1 = (Inr (), g')" by auto
  have v: "v = w" using st(1) assms(3) by (simp add: apply_shadow_def)
  have deny: "v_verdict ?r = VERDICT_DENY \<and> v_risk_level ?r = RISK_CRITICAL" if "cx_action_type cx \<in> set (sc_hard_deny cfg)"
    using detectors_not_bypassed [OF assms(1) refl, where clk = clk and pt = pt and now = now and c = cx] that by blast
  have "final_verdict cfg env cx = ?r" if "v_verdict ?r = VERDICT_DENY"
    using that by (simp add: final_verdict_def rv llm_blocked autonomy_blocked)
  then have hard: "w = ?r \<and> g1 = g \<and> v_verdict ?r = VERDICT_DENY \<and> v_risk_level ?r = RISK_CRITICAL" if "cx_action_type cx \<in> set (sc_hard_deny cfg)"
    using deny [OF that] st(2) by simp
  show ?thesis
    using gate_allow [OF assms(5,2,3)] engine_silent_unless_safe [OF assms(1), of clk pt now cx] hard audit_if_enabled_outcome [OF st(3)]
    unfolding v rv by blast
qed

text \<open>
  An escalation can be decided. Whenever the gate answers ESCALATE, the verdict carries the id of a
  valid PENDING approval item for this call, which the store did not have before and now has durably,
  with the verdict's risk level; no other item changes.
\<close>

theorem escalation_reaches_store:
  assumes "evaluate_pre_tool cfg env cx g = (Inr v, g')" and "v_verdict v = VERDICT_ESCALATE"
  shows "\<exists>s s' item. g_store g = Some s \<and> g_store g' = Some s' \<and> v_approval_id v = Some (ap_id item) \<and>
    durable s (ap_id item) = None \<and> durable s' (ap_id item) = Some item \<and> valid_item item \<and> ap_status item = PENDING \<and>
    ap_action_type item = cx_action_type cx \<and> ap_risk_level item = v_risk_level v \<and> ap_task_id item = cx_task_id cx \<and>
    (\<forall>k. k \<noteq> ap_id item \<longrightarrow> durable s' k = durable s k)"
proof -
  have on: "sc_enabled cfg" "sc_enforcement_mode cfg \<noteq> DISABLED_MODE"
    using assms by (auto simp: evaluate_pre_tool_def Let_def mk_verdict_def split: if_splits sum.splits prod.splits)
  from evaluate_steps [OF assms(1) on] obtain w g1 where st: "v = apply_shadow cfg w"
      "(if v_verdict (final_verdict cfg env cx) = VERDICT_ESCALATE then handle_escalation cfg env cx (final_verdict cfg env cx) g
        else (Inr (final_verdict cfg env cx), g)) = (Inr w, g1)" "audit_if_enabled cfg env cx w g1 = (Inr (), g')" by auto
  have v: "v = w" using st(1) assms(2) by (auto simp: apply_shadow_def split: if_splits)
  have esc: "v_verdict (final_verdict cfg env cx) = VERDICT_ESCALATE" using st(2) assms(2) v by (auto split: if_splits)
  with st(2) handle_escalation_outcome [of cfg env cx "final_verdict cfg env cx" g w g1] assms(2) v
  obtain s s' d md where h: "g_store g = Some s" "item_check (escalation_item env cx (final_verdict cfg env cx) d md) = None"
      "store_add (ge_store_env env) (escalation_item env cx (final_verdict cfg env cx) d md) s = (Inr (), s')" "g_store g1 = Some s'"
      "v_approval_id v = Some (ge_approval_uuid env)" "v_risk_level v = v_risk_level (final_verdict cfg env cx)" by auto
  let ?item = "escalation_item env cx (final_verdict cfg env cx) d md"
  have item: "ap_id ?item = ge_approval_uuid env" "ap_status ?item = PENDING" "ap_action_type ?item = cx_action_type cx"
      "ap_risk_level ?item = v_risk_level v" "ap_task_id ?item = cx_task_id cx" using h(6) by (simp_all add: escalation_item_def)
  have "g_store g' = Some s'" using audit_if_enabled_outcome [OF st(3)] h(4) by simp
  then show ?thesis using h item store.add_fresh [OF h(3)] store.add_found [OF h(3)] store.add_others [OF h(3)]
    by (intro exI [of _ s] exI [of _ s'] exI [of _ ?item]) (simp add: valid_item_def)
qed

text \<open>
  Every evaluation is on record. With auditing enabled, a returned verdict has added exactly one valid
  entry to the log, the newest one, for this call. The entry carries the verdict that was decided: the
  returned one, except in shadow mode, where the returned verdict is always ALLOW.
\<close>

theorem gate_audits_verdict:
  assumes "evaluate_pre_tool cfg env cx g = (Inr v, g')" and "sc_audit_enabled cfg" and "1 \<le> al_max_entries (g_audit g)"
  shows "\<exists>e. g_audit g' = log_record e (g_audit g) \<and> valid_audit_entry e \<and> last (al_entries (g_audit g')) = e \<and>
    ae_tool_name e = cx_tool_name cx \<and> ae_action_type e = cx_action_type cx \<and> ae_agent_id e = cx_agent_id cx \<and>
    ae_risk_level e = v_risk_level v \<and>
    (if sc_enforcement_mode cfg = SHADOW_MODE \<and> sc_enabled cfg then v_verdict v = VERDICT_ALLOW
     else ae_verdict e = verdict_value (v_verdict v) \<and> ae_approval_id e = v_approval_id v)"
proof -
  have newest: "last (al_entries (log_record e (g_audit g))) = e" for e
    using assms(3) by (simp add: log_record_def deque_append_def last_drop)
  have entry: "ae_tool_name (audit_entry_of env cx w) = cx_tool_name cx" "ae_action_type (audit_entry_of env cx w) = cx_action_type cx"
      "ae_agent_id (audit_entry_of env cx w) = cx_agent_id cx" "ae_risk_level (audit_entry_of env cx w) = v_risk_level w"
      "ae_verdict (audit_entry_of env cx w) = verdict_value (v_verdict w)" "ae_approval_id (audit_entry_of env cx w) = v_approval_id w" for w
    by (simp_all add: audit_entry_of_def)
  show ?thesis
  proof (cases "sc_enabled cfg \<and> sc_enforcement_mode cfg \<noteq> DISABLED_MODE")
    case True
    then obtain w g1 where st: "v = apply_shadow cfg w" "audit_if_enabled cfg env cx w g1 = (Inr (), g')"
        "(if v_verdict (final_verdict cfg env cx) = VERDICT_ESCALATE then handle_escalation cfg env cx (final_verdict cfg env cx) g
          else (Inr (final_verdict cfg env cx), g)) = (Inr w, g1)" using evaluate_steps [OF assms(1)] by metis
    have g1: "g_audit g1 = g_audit g"
      using st(3) handle_escalation_outcome [of cfg env cx "final_verdict cfg env cx" g w g1] by (auto split: if_splits)
    have rec: "valid_audit_entry (audit_entry_of env cx w)" "g_audit g' = log_record (audit_entry_of env cx w) (g_audit g)"
      using audit_if_enabled_outcome [OF st(2)] assms(2) g1 by auto
    have sh: "v_risk_level v = v_risk_level w" "sc_enforcement_mode cfg = SHADOW_MODE \<longrightarrow> v_verdict v = VERDICT_ALLOW"
        "sc_enforcement_mode cfg \<noteq> SHADOW_MODE \<longrightarrow> v = w"
      using st(1) by (simp_all add: apply_shadow_def)
    show ?thesis using rec newest entry sh True by (intro exI [of _ "audit_entry_of env cx w"]) auto
  next
    case False
    then obtain u where "audit_if_enabled cfg env cx v g = (Inr u, g')"
      using assms(1) by (auto simp: evaluate_pre_tool_def Let_def split: sum.splits prod.splits)
    from audit_if_enabled_outcome [OF this] assms(2) False show ?thesis
      using newest entry by (intro exI [of _ "audit_entry_of env cx v"]) auto
  qed
qed

subsection \<open>The gate answers\<close>

text \<open>A usable environment: well-formed services, ids and digests, and a store that is not cancelled.\<close>

definition env_ok :: "gate_env \<Rightarrow> SecurityContext \<Rightarrow> bool" where
  "env_ok env cx \<longleftrightarrow>
     (\<forall>v. ge_engine env cx = Inr v \<longrightarrow> valid_verdict v \<and> v_approval_id v = None) \<and>
     (\<forall>llm v w. ge_llm env = Some llm \<longrightarrow> llm cx v = Inr w \<longrightarrow> valid_verdict w \<and> v_approval_id w = None) \<and>
     (\<forall>cls d t n r s. ge_classifier env = Some cls \<longrightarrow> cls d t n r = Inr s \<longrightarrow>
        sr_stripped_description s = [] \<or> not_blank (sr_stripped_description s)) \<and>
     hex_sha256 (ge_hash env (cx_arguments cx)) \<and> not_blank (ge_approval_uuid env) \<and> not_blank (ge_audit_uuid env) \<and>
     (\<forall>landed. item_write (ge_store_env env) \<noteq> Cancelled landed)"

lemma final_verdict_valid:
  assumes "env_ok env cx"
  shows "valid_verdict (final_verdict cfg env cx) \<and> v_approval_id (final_verdict cfg env cx) = None"
proof -
  have rule: "valid_verdict (rule_verdict env cx) \<and> v_approval_id (rule_verdict env cx) = None"
    using assms by (auto simp: rule_verdict_def env_ok_def valid_verdict_def mk_verdict_def not_blank_def py_isspace_def split: sum.splits)
  have llm: "valid_verdict (maybe_llm_fallback cfg env cx v) \<and> v_approval_id (maybe_llm_fallback cfg env cx v) = None"
    if "valid_verdict v \<and> v_approval_id v = None" for v
    using that assms by (auto simp: maybe_llm_fallback_def env_ok_def valid_verdict_def split: option.splits sum.splits LlmFallbackErrorPolicy.splits)
  have "valid_verdict (apply_autonomy_augmentation env cx v) \<and> v_approval_id (apply_autonomy_augmentation env cx v) = None"
    if "valid_verdict v \<and> v_approval_id v = None" for v
    using that by (auto simp: apply_autonomy_augmentation_def valid_verdict_def not_blank_def py_isspace_def split: option.splits)
  then show ?thesis unfolding final_verdict_def using rule llm by blast
qed

lemma process_keeps_description:
  assumes "process_classification cfg cl cx md tr = (rej, md', tr')"
  shows "dget md' ''stripped_description'' = dget md ''stripped_description''"
  using assms by (auto simp: process_classification_def handle_blocked_denial_def Let_def split: if_splits option.splits prod.splits)

lemma stripped_not_blank:
  assumes "env_ok env cx" and "ge_classifier env = Some cls"
    and "run_safety_classifier cfg cls cx v md tr = (rej, md', tr')" and "dget md ''stripped_description'' = None"
  shows "dget_or md' ''stripped_description'' [] = [] \<or> not_blank (dget_or md' ''stripped_description'' [])"
proof (cases "cls (v_reason v) (cx_action_type cx) (cx_tool_name cx) (v_risk_level v)")
  case (Inl e)
  then have "md' = md" using assms(3) by (auto simp: run_safety_classifier_def split: if_splits)
  then show ?thesis using assms(4) by (simp add: dget_or_def)
next
  case (Inr r)
  have r: "sr_stripped_description r = [] \<or> not_blank (sr_stripped_description r)"
    using assms(1,2) Inr unfolding env_ok_def by blast
  show ?thesis
  proof (cases "classify_tier cfg (cx_action_type cx) = SAFE_TOOL")
    case True
    then show ?thesis using assms(3,4) by (simp add: run_safety_classifier_def dget_or_def)
  next
    case False
    then have "dget md' ''stripped_description'' = Some (sr_stripped_description r)"
      using assms(3) Inr process_keeps_description by (fastforce simp: run_safety_classifier_def)
    then show ?thesis using r by (simp add: dget_or_def)
  qed
qed

lemma escalation_item_valid:
  assumes "env_ok env cx" and "valid_security_context cx" and "not_blank d"
  shows "item_check (escalation_item env cx v d md) = None"
proof -
  have "not_blank (cx_action_type cx)" 
  proof -
    have "\<not> py_isspace (CHR '':'')" "CHR '':'' \<in> set (cx_action_type cx)"
      using assms(2) by (simp_all add: py_isspace_def valid_security_context_def)
    then show ?thesis unfolding not_blank_def list_ex_iff by blast
  qed
  then show ?thesis using assms
    by (auto simp: item_check_def item_fields_def escalation_item_def validate_decision_fields_def validate_expiry_def env_ok_def
        valid_security_context_def split: option.splits) (auto simp: not_blank_def py_isspace_def)
qed

lemma store_escalation_returns:
  assumes "env_ok env cx" and "item_check item = None" and "valid_verdict v" and "v_verdict v = VERDICT_ESCALATE" and "v_approval_id v = None"
  shows "\<exists>w g'. store_escalation env item v s g = (Inr w, g') \<and> valid_verdict w"
proof -
  have "fst (store_add (ge_store_env env) item s) \<noteq> Inl CancelledError"
    using assms(1) by (auto simp: store_add_def env_ok_def approval_get_def repo_write_def approval_save_def
        split: option.splits if_splits sum.splits prod.splits write_outcome.splits)
  then show ?thesis using assms
    by (auto simp: store_escalation_def env_ok_def valid_verdict_def split: prod.splits sum.splits)
qed

lemma handle_escalation_returns:
  assumes "env_ok env cx" and "valid_security_context cx" and "valid_verdict v" and "v_verdict v = VERDICT_ESCALATE" and "v_approval_id v = None"
  shows "\<exists>w g'. handle_escalation cfg env cx v g = (Inr w, g') \<and> valid_verdict w"
proof (cases "g_store g")
  case None
  then show ?thesis using assms by (auto simp: handle_escalation_def valid_verdict_def)
next
  case (Some s)
  let ?md = "[(''tool_name'', cx_tool_name cx), (''tool_category'', cx_tool_category cx)]"
  obtain rej md tr where c: "(case ge_classifier env of None \<Rightarrow> (False, ?md, g_tracker g)
      | Some cls \<Rightarrow> run_safety_classifier cfg cls cx v ?md (g_tracker g)) = (rej, md, tr)" by (metis prod_cases3)
  have str: "dget_or md ''stripped_description'' [] = [] \<or> not_blank (dget_or md ''stripped_description'' [])"
  proof (cases "ge_classifier env")
    case None
    then have "md = ?md" using c by simp
    then show ?thesis by (simp add: dget_or_def)
  next
    case (Some cls)
    then show ?thesis using stripped_not_blank [OF assms(1) Some, of cfg v ?md "g_tracker g" rej md tr] c by simp
  qed
  have reason: "not_blank (v_reason v)" using assms(3) by (simp add: valid_verdict_def)
  show ?thesis
  proof (cases rej)
    case True
    then show ?thesis using assms Some c by (auto simp: handle_escalation_def Let_def valid_verdict_def build_deny_reason_def)
  next
    case False
    then obtain d md' where "handle_escalation cfg env cx v g = store_escalation env (escalation_item env cx v d md') v s (g\<lparr>g_tracker := tr\<rparr>)"
        "not_blank d"
      using Some c str reason by (auto simp: handle_escalation_def Let_def)
    then show ?thesis using store_escalation_returns [OF assms(1) escalation_item_valid [OF assms(1,2)] assms(3-5)] by simp
  qed
qed

text \<open>
  The gate always answers. In a usable environment every evaluation of a valid call returns a verdict,
  and the verdict satisfies its model, in every mode and whatever fails inside: the rule engine, the
  language model, the classifiers or the approval store.
\<close>

theorem gate_returns_verdict:
  assumes "env_ok env cx" and "valid_security_context cx"
  shows "\<exists>v g'. evaluate_pre_tool cfg env cx g = (Inr v, g') \<and> valid_verdict v"
proof -
  have entry: "valid_audit_entry (audit_entry_of env cx w)" if "valid_verdict w" for w
    using that assms by (cases "v_verdict w") (simp_all add: valid_audit_entry_def audit_entry_of_def env_ok_def valid_security_context_def
        valid_verdict_def verdict_value_def)
  have audit: "\<exists>g'. audit_if_enabled cfg env cx w h = (Inr (), g')" if "valid_verdict w" for w h
    using entry [OF that] by (simp add: audit_if_enabled_def record_audit_def)
  have shadow: "valid_verdict (apply_shadow cfg w)" if "valid_verdict w" for w
    using that by (auto simp: apply_shadow_def valid_verdict_def) (auto simp: not_blank_def py_isspace_def)
  have off: "valid_verdict (mk_verdict VERDICT_ALLOW ''Security subsystem disabled'' RISK_LOW [] (ge_now env))"
    by (simp add: valid_verdict_def mk_verdict_def not_blank_def py_isspace_def)
  note d = final_verdict_valid [OF assms(1), of cfg]
  have "\<exists>w g1. (if v_verdict (final_verdict cfg env cx) = VERDICT_ESCALATE then handle_escalation cfg env cx (final_verdict cfg env cx) g
      else (Inr (final_verdict cfg env cx), g)) = (Inr w, g1) \<and> valid_verdict w"
    using d handle_escalation_returns [OF assms, of "final_verdict cfg env cx"] by simp
  then obtain w g1 where w: "(if v_verdict (final_verdict cfg env cx) = VERDICT_ESCALATE then handle_escalation cfg env cx (final_verdict cfg env cx) g
      else (Inr (final_verdict cfg env cx), g)) = (Inr w, g1)" "valid_verdict w" by blast
  obtain g2 where g2: "audit_if_enabled cfg env cx w g1 = (Inr (), g2)" using audit [OF w(2)] by blast
  obtain g3 where g3: "audit_if_enabled cfg env cx (mk_verdict VERDICT_ALLOW ''Security subsystem disabled'' RISK_LOW [] (ge_now env)) g = (Inr (), g3)"
    using audit [OF off] by blast
  show ?thesis
  proof (cases "\<not> sc_enabled cfg \<or> sc_enforcement_mode cfg = DISABLED_MODE")
    case True
    then show ?thesis using off g3 by (simp add: evaluate_pre_tool_def Let_def)
  next
    case False
    then have "evaluate_pre_tool cfg env cx g = (Inr (apply_shadow cfg w), g2)"
      using w(1) g2 by (simp add: evaluate_pre_tool_def Let_def final_verdict_def [symmetric])
    then show ?thesis using shadow [OF w(2)] by blast
  qed
qed

subsection \<open>Scanned output\<close>

lemma scan_patterns_result:
  "scan_patterns ps output fs red =
     (fs @ List.map fst (filter (\<lambda>(n, search, sub). search output) ps),
      fold (\<lambda>(n, search, sub) r. if search output then sub r else r) ps red)"
  by (induction ps arbitrary: fs red) (auto split: prod.splits)

lemma sorted_unique_set [simp]: "set (sorted_unique xs) = set xs"
  by (simp add: sorted_unique_def)

lemma sorted_unique_Nil [simp]: "sorted_unique xs = [] \<longleftrightarrow> xs = []"
  by (metis set_empty sorted_unique_set)

definition policy_of :: "SecurityConfig \<Rightarrow> gate_env \<Rightarrow> OutputScanResult \<Rightarrow> OutputScanResult" where
  "policy_of cfg env = build_output_scan_policy (sc_output_scan_policy_type cfg) (ge_autonomy env)"

text \<open>What the service relies on from a scan policy: results stay valid, and a flagged result keeps its findings and shows no new content.\<close>

locale scan_policy =
  fixes apply_policy :: "OutputScanResult \<Rightarrow> OutputScanResult"
  assumes keeps_valid: "valid_scan_result r \<Longrightarrow> valid_scan_result (apply_policy r)"
    and keeps_clean: "apply_policy clean_scan = clean_scan"
    and flagged_findings: "has_sensitive_data (apply_policy r) \<Longrightarrow> findings (apply_policy r) = findings r"
    and flagged_content: "has_sensitive_data (apply_policy r) \<Longrightarrow> redacted_content (apply_policy r) \<in> {None, redacted_content r}"

interpretation redact: scan_policy redact_apply
  by unfold_locales (simp_all add: redact_apply_def)

interpretation withhold: scan_policy withhold_apply
  by unfold_locales (auto simp: withhold_apply_def valid_scan_result_def clean_scan_def split: if_splits)

interpretation log_only: scan_policy log_only_apply
  by unfold_locales (auto simp: log_only_apply_def valid_scan_result_def clean_scan_def split: if_splits)

interpretation tiered: scan_policy "autonomy_tiered_apply a" for a
proof -
  have by_level: "scan_policy (DEFAULT_AUTONOMY_POLICY_MAP l)" for l
    by (cases l) (simp_all add: DEFAULT_AUTONOMY_POLICY_MAP_def redact.scan_policy_axioms withhold.scan_policy_axioms log_only.scan_policy_axioms)
  have "autonomy_tiered_apply a = (case a of None \<Rightarrow> redact_apply | Some ea \<Rightarrow> DEFAULT_AUTONOMY_POLICY_MAP (ea_level ea))"
    by (rule ext) (simp add: autonomy_tiered_apply_def split: option.splits)
  then show "scan_policy (autonomy_tiered_apply a)"
    by (cases a) (simp_all add: by_level redact.scan_policy_axioms)
qed

interpretation configured: scan_policy "policy_of cfg env" for cfg env
  unfolding policy_of_def build_output_scan_policy_def
  by (cases "sc_output_scan_policy_type cfg")
    (simp_all add: redact.scan_policy_axioms withhold.scan_policy_axioms log_only.scan_policy_axioms tiered.scan_policy_axioms)

lemma policy_discards:
  assumes "valid_scan_result r" and "has_sensitive_data r"
  shows "\<not> has_sensitive_data (policy_of cfg env r) \<longleftrightarrow>
    sc_output_scan_policy_type cfg = SCAN_LOG_ONLY \<or>
    sc_output_scan_policy_type cfg = SCAN_AUTONOMY_TIERED \<and> (\<exists>a. ge_autonomy env = Some a \<and> ea_level a = FULL)"
  using assms
  by (auto simp: policy_of_def build_output_scan_policy_def autonomy_tiered_apply_def DEFAULT_AUTONOMY_POLICY_MAP_def redact_apply_def
      withhold_apply_def log_only_apply_def clean_scan_def
      split: OutputScanPolicyType.splits option.splits AutonomyLevel.splits)

text \<open>
  Scanning of tool output. For patterns with names, a valid call and scanning enabled the scan always returns a
  valid result. Output that no pattern matches is clean and leaves the state alone. Output with a match is
  recorded in the audit log under the sorted names of the matching patterns; the result keeps it flagged,
  without content or with every matching pattern replaced in order, unless the policy is LOG_ONLY or the tiered
  policy meets FULL autonomy.
\<close>

theorem scan_output_outcome:
  fixes content :: string
  assumes "env_ok env cx" and "valid_security_context cx" and "list_all (not_blank \<circ> fst) ps"
    and "sc_post_tool_scanning_enabled cfg" and "sc_audit_enabled cfg"
  defines "hits \<equiv> List.map fst (filter (\<lambda>(n, search, sub). search content) ps)"
  shows "\<exists>r g'. scan_output cfg env ps cx content g = (Inr r, g') \<and> valid_scan_result r \<and>
    (if hits = [] then r = clean_scan \<and> g' = g
     else (\<exists>e. g' = g\<lparr>g_audit := log_record e (g_audit g)\<rparr> \<and> ae_verdict e = ''output_scan'' \<and>
             ae_reason e = ''Sensitive data in output: '' @ py_join '', '' (sorted_unique hits)) \<and>
       (has_sensitive_data r \<longrightarrow> findings r = sorted_unique hits \<and>
          (redacted_content r = None \<or> redacted_content r = Some (fold (\<lambda>(n, search, sub) x. if search content then sub x else x) ps content))) \<and>
       (\<not> has_sensitive_data r \<longleftrightarrow> sc_output_scan_policy_type cfg = SCAN_LOG_ONLY \<or>
          sc_output_scan_policy_type cfg = SCAN_AUTONOMY_TIERED \<and> (\<exists>a. ge_autonomy env = Some a \<and> ea_level a = FULL)))"
proof (cases "hits = []")
  case True
  then have "output_scanner_scan ps content = clean_scan" by (simp add: output_scanner_scan_def scan_patterns_result hits_def)
  moreover have v: "valid_scan_result clean_scan" "\<not> has_sensitive_data clean_scan" by (simp_all add: valid_scan_result_def clean_scan_def)
  ultimately have "scan_output cfg env ps cx content g = (Inr clean_scan, g)"
    using assms(4) configured.keeps_clean by (simp add: scan_output_def Let_def flip: policy_of_def)
  then show ?thesis using True v by simp
next
  case False
  define red where "red = fold (\<lambda>(n, search, sub) x. if search content then sub x else x) ps content"
  define r where "r = \<lparr>has_sensitive_data = True, findings = sorted_unique hits, redacted_content = Some red, scan_outcome = REDACTED\<rparr>"
  define e where "e = scan_audit_entry env cx r"
  have scan: "output_scanner_scan ps content = r"
    using False by (simp add: output_scanner_scan_def scan_patterns_result hits_def r_def red_def)
  have names: "list_all not_blank hits" using assms(3) unfolding hits_def by (auto simp: list_all_iff)
  have vr: "valid_scan_result r" "has_sensitive_data r"
    using False names by (simp_all add: valid_scan_result_def r_def list_all_iff)
  have ve: "valid_audit_entry e" "ae_verdict e = ''output_scan''" "ae_reason e = ''Sensitive data in output: '' @ py_join '', '' (sorted_unique hits)"
    using assms(1,2) by (simp_all add: e_def scan_audit_entry_def valid_audit_entry_def env_ok_def valid_security_context_def r_def)
      (simp add: not_blank_def py_isspace_def)
  have run: "scan_output cfg env ps cx content g = (Inr (policy_of cfg env r), g\<lparr>g_audit := log_record e (g_audit g)\<rparr>)"
    using assms(4,5) scan vr ve by (simp add: scan_output_def Let_def e_def flip: policy_of_def)
  have keep: "findings (policy_of cfg env r) = sorted_unique hits \<and> redacted_content (policy_of cfg env r) \<in> {None, Some red}"
    if "has_sensitive_data (policy_of cfg env r)"
    using configured.flagged_findings [OF that] configured.flagged_content [OF that] by (simp add: r_def)
  show ?thesis
    using run False ve(2,3) keep configured.keeps_valid [OF vr(1)] policy_discards [OF vr]
    by (intro exI [of _ "policy_of cfg env r"] exI [of _ "g\<lparr>g_audit := log_record e (g_audit g)\<rparr>"]) (auto simp: red_def)
qed

subsection \<open>Examples\<close>

definition sample_gate_env :: gate_env where
  "sample_gate_env = \<lparr>ge_engine = (\<lambda>c. Inr (engine_evaluate sample_clock (build_rule_engine sample_patterns 0 sample_security) c)),
     ge_llm = None, ge_autonomy = None, ge_risk_classifier = None, ge_classifier = None, ge_uncertainty = None, ge_str_float = (\<lambda>_. ''0''),
     ge_hash = (\<lambda>_. replicate 64 (CHR ''0'')), ge_approval_uuid = ''ap-1'', ge_audit_uuid = ''au-1'', ge_now = 0,
     ge_store_env = \<lparr>read_fault = False, expiry_write = (\<lambda>_. Written), item_write = Written\<rparr>\<rparr>"

definition supervised_env :: gate_env where
  "supervised_env = sample_gate_env\<lparr>ge_autonomy := Some \<lparr>ea_level = SUPERVISED, auto_approve_actions = {''code:read''},
     human_approval_actions = {''code:write''}, ea_security_agent = True\<rparr>\<rparr>"

definition sample_gate :: gate where
  "sample_gate = \<lparr>g_store = Some (new_store (Some [])), g_tracker = None,
     g_audit = \<lparr>al_max_entries = 10, al_entries = [], al_total_recorded = 0\<rparr>\<rparr>"

definition clean_call :: "string \<Rightarrow> SecurityContext" where
  "clean_call act = \<lparr>cx_tool_name = ''edit'', cx_tool_category = ''file_system'', cx_action_type = act,
     cx_arguments = [(''path'', StrArg ''a.py'')], cx_agent_id = Some ''dev'', cx_task_id = None\<rparr>"

lemma sample_security_valid: "valid_security_config sample_security"
  by (simp add: valid_security_config_def sample_security_def check_disjoint_action_types_def check_unique_policy_names_def
        check_no_bypass_def sample_rule_def valid_policy_rule_def py_isspace_def)

lemma sample_denied:
  "v_verdict (engine_evaluate sample_clock (build_rule_engine sample_patterns 0 sample_security) (clean_call ''db:admin'')) = VERDICT_DENY"
  using detectors_not_bypassed [OF sample_security_valid refl, where c = "clean_call ''db:admin''" and clk = sample_clock and pt = sample_patterns and now = 0]
  by (simp add: clean_call_def sample_security_def)

lemma returned: "(case p of (Inr v, g) \<Rightarrow> P v | _ \<Rightarrow> False) \<Longrightarrow> \<exists>v g. p = (Inr v, g) \<and> P v"
  by (auto split: prod.splits sum.splits)

definition gate_verdict :: "SecurityVerdictType \<Rightarrow> SecurityConfig \<Rightarrow> gate_env \<Rightarrow> SecurityContext \<Rightarrow> gate \<Rightarrow> bool" where
  "gate_verdict t cfg env cx g = (case evaluate_pre_tool cfg env cx g of (Inr v, _) \<Rightarrow> v_verdict v = t | _ \<Rightarrow> False)"

lemma gate_verdict_returned: "gate_verdict t cfg env cx g \<Longrightarrow> \<exists>v g'. evaluate_pre_tool cfg env cx g = (Inr v, g') \<and> v_verdict v = t"
  unfolding gate_verdict_def by (rule returned)

lemma sample_verdicts:
  "gate_verdict VERDICT_DENY sample_security sample_gate_env (clean_call ''db:admin'') sample_gate"
  "gate_verdict VERDICT_ESCALATE sample_security supervised_env (clean_call ''code:write'') sample_gate"
  "gate_verdict VERDICT_ALLOW (sample_security\<lparr>sc_enforcement_mode := SHADOW_MODE\<rparr>) sample_gate_env (clean_call ''db:admin'') sample_gate"
  by code_simp+

theorem gate_enforces_policy_witness:
  "\<exists>v g'. evaluate_pre_tool sample_security sample_gate_env (clean_call ''db:admin'') sample_gate = (Inr v, g') \<and>
     v_verdict v = VERDICT_DENY \<and> v_risk_level v = RISK_CRITICAL \<and> g_store g' = g_store sample_gate"
proof -
  obtain v g' where v: "evaluate_pre_tool sample_security sample_gate_env (clean_call ''db:admin'') sample_gate = (Inr v, g')"
    using gate_verdict_returned [OF sample_verdicts(1)] by blast
  have cfg: "sc_enabled sample_security" "sc_enforcement_mode sample_security = ACTIVE_MODE"
    and hard: "cx_action_type (clean_call ''db:admin'') \<in> set (sc_hard_deny sample_security)"
    and eng: "ge_engine sample_gate_env = (\<lambda>c. Inr (engine_evaluate sample_clock (build_rule_engine sample_patterns 0 sample_security) c))"
    by (simp_all add: sample_security_def clean_call_def sample_gate_env_def)
  from gate_enforces_policy [OF sample_security_valid cfg eng v] hard v show ?thesis by blast
qed

theorem escalation_reaches_store_witness:
  "\<exists>v g' s' item. evaluate_pre_tool sample_security supervised_env (clean_call ''code:write'') sample_gate = (Inr v, g') \<and>
     g_store g' = Some s' \<and> v_approval_id v = Some (ap_id item) \<and> durable s' (ap_id item) = Some item \<and> ap_status item = PENDING"
proof -
  obtain v g' where v: "evaluate_pre_tool sample_security supervised_env (clean_call ''code:write'') sample_gate = (Inr v, g')"
      "v_verdict v = VERDICT_ESCALATE"
    using gate_verdict_returned [OF sample_verdicts(2)] by blast
  from escalation_reaches_store [OF v] v(1) show ?thesis by blast
qed

theorem gate_audits_verdict_witness:
  "\<exists>v g' e. evaluate_pre_tool (sample_security\<lparr>sc_enforcement_mode := SHADOW_MODE\<rparr>) sample_gate_env (clean_call ''db:admin'') sample_gate = (Inr v, g') \<and>
     v_verdict v = VERDICT_ALLOW \<and> g_audit g' = log_record e (g_audit sample_gate) \<and> ae_risk_level e = v_risk_level v"
proof -
  let ?cfg = "sample_security\<lparr>sc_enforcement_mode := SHADOW_MODE\<rparr>"
  obtain v g' where v: "evaluate_pre_tool ?cfg sample_gate_env (clean_call ''db:admin'') sample_gate = (Inr v, g')" "v_verdict v = VERDICT_ALLOW"
    using gate_verdict_returned [OF sample_verdicts(3)] by blast
  have "sc_audit_enabled ?cfg" "1 \<le> al_max_entries (g_audit sample_gate)" by (simp_all add: sample_security_def sample_gate_def)
  from gate_audits_verdict [OF v(1) this] v show ?thesis by blast
qed

lemma sample_env_ok: "env_ok sample_gate_env (clean_call ''code:write'')"
proof -
  have "(case ge_engine sample_gate_env (clean_call ''code:write'') of Inr v \<Rightarrow> valid_verdict v \<and> v_approval_id v = None | Inl _ \<Rightarrow> True)"
    by code_simp
  moreover have "hex_sha256 (ge_hash sample_gate_env (cx_arguments (clean_call ''code:write'')))" by code_simp
  ultimately show ?thesis by (auto simp: env_ok_def sample_gate_env_def not_blank_def py_isspace_def)
qed

lemma sample_call_valid: "valid_security_context (clean_call ''code:write'')"
  by (simp add: valid_security_context_def clean_call_def not_blank_def py_isspace_def)

theorem gate_returns_verdict_witness:
  "\<exists>v g'. evaluate_pre_tool sample_security sample_gate_env (clean_call ''code:write'') sample_gate = (Inr v, g') \<and> valid_verdict v"
  by (rule gate_returns_verdict [OF sample_env_ok sample_call_valid])

definition key_pattern :: output_pattern where
  "key_pattern = (''AWS access key'', contains_lit ''akia'', \<lambda>_. ''[REDACTED]'')"

theorem scan_output_outcome_witness:
  "\<exists>r g'. scan_output sample_security sample_gate_env [key_pattern] (clean_call ''code:write'') ''AKIA1'' sample_gate = (Inr r, g') \<and>
     valid_scan_result r \<and> has_sensitive_data r"
proof -
  have p: "list_all (not_blank \<circ> fst) [key_pattern]" and c: "sc_post_tool_scanning_enabled sample_security" "sc_audit_enabled sample_security"
    and h: "List.map fst (filter (\<lambda>(n, search, sub). search ''AKIA1'') [key_pattern]) = [''AWS access key'']"
    by (code_simp, simp_all add: sample_security_def, code_simp)
  from scan_output_outcome [OF sample_env_ok sample_call_valid p c, where content = "''AKIA1''" and g = sample_gate] show ?thesis
    unfolding h by (auto simp: sample_security_def sample_gate_env_def)
qed

end
