(* ===== verification/Tool_Invoker.thy ===== *)
theory Tool_Invoker
  imports Security_Gate
begin

text \<open>
  Tool invocation (\<^verbatim>\<open>tools/invoker.py\<close> and its mixins): the registry, access levels and explicit lists
  (\<^verbatim>\<open>tools/permissions.py\<close>), sub-constraints (\<^verbatim>\<open>tools/sub_constraints.py\<close>, \<^verbatim>\<open>tools/sub_constraint_enforcer.py\<close>),
  parameter validation, the security gate of \<open>Security_Gate\<close>, execution, parking and output scanning.

  What a tool does is an argument of the call, and so are the JSON schema check, the HTML sanitiser and a
  failure of the deep copy of the arguments. The calls handed to tools are collected in \<open>executed\<close>. In a
  batch every call runs to its end before the next one starts; the order is an argument.
\<close>

subsection \<open>Tools and categories\<close>

datatype ToolCategory = FILE_SYSTEM | CODE_EXECUTION | VERSION_CONTROL | WEB | DATABASE | TERMINAL | DESIGN | COMMUNICATION
  | ANALYTICS | DEPLOYMENT | MEMORY | ONTOLOGY | MCP | OTHER

definition tool_category_value :: "ToolCategory \<Rightarrow> string" where
  "tool_category_value c = (case c of FILE_SYSTEM \<Rightarrow> ''file_system'' | CODE_EXECUTION \<Rightarrow> ''code_execution''
     | VERSION_CONTROL \<Rightarrow> ''version_control'' | WEB \<Rightarrow> ''web'' | DATABASE \<Rightarrow> ''database'' | TERMINAL \<Rightarrow> ''terminal''
     | DESIGN \<Rightarrow> ''design'' | COMMUNICATION \<Rightarrow> ''communication'' | ANALYTICS \<Rightarrow> ''analytics'' | DEPLOYMENT \<Rightarrow> ''deployment''
     | MEMORY \<Rightarrow> ''memory'' | ONTOLOGY \<Rightarrow> ''ontology'' | MCP \<Rightarrow> ''mcp'' | OTHER \<Rightarrow> ''other'')"

definition DEFAULT_CATEGORY_ACTION_MAP :: "ToolCategory \<Rightarrow> string" where
  "DEFAULT_CATEGORY_ACTION_MAP c = (case c of FILE_SYSTEM \<Rightarrow> ''code:write'' | CODE_EXECUTION \<Rightarrow> ''code:write''
     | VERSION_CONTROL \<Rightarrow> ''vcs:commit'' | WEB \<Rightarrow> ''comms:external'' | DATABASE \<Rightarrow> ''db:query'' | TERMINAL \<Rightarrow> ''code:write''
     | DESIGN \<Rightarrow> ''docs:write'' | COMMUNICATION \<Rightarrow> ''comms:internal'' | ANALYTICS \<Rightarrow> ''code:read''
     | DEPLOYMENT \<Rightarrow> ''deploy:staging'' | MEMORY \<Rightarrow> ''memory:read'' | ONTOLOGY \<Rightarrow> ''memory:read'' | MCP \<Rightarrow> ''code:write''
     | OTHER \<Rightarrow> ''code:read'')"

type_synonym arguments = "(string \<times> argument) list"

datatype schema_check = Conforms | SchemaError string | ValidationError string | UnexpectedError string

record tool =
  tl_name :: string
  tl_category :: ToolCategory
  tl_action_type :: string
  tl_schema :: "(arguments \<Rightarrow> schema_check) option"

datatype tool_error = BlankName | BadFormat

definition BaseTool ::
  "string \<Rightarrow> (arguments \<Rightarrow> schema_check) option \<Rightarrow> ToolCategory \<Rightarrow> string option \<Rightarrow> tool_error + tool" where
  "BaseTool name schema cat action =
     (if \<not> not_blank name then Inl BlankName
      else case action of
             None \<Rightarrow> Inr \<lparr>tl_name = name, tl_category = cat, tl_action_type = DEFAULT_CATEGORY_ACTION_MAP cat, tl_schema = schema\<rparr>
           | Some a \<Rightarrow>
               (case split_on (CHR '':'') a of
                  [x, y] \<Rightarrow> if x = [] \<or> y = [] then Inl BadFormat
                            else Inr \<lparr>tl_name = name, tl_category = cat, tl_action_type = a, tl_schema = schema\<rparr>
                | _ \<Rightarrow> Inl BadFormat))"

type_synonym tool_registry = "(string, tool) dict"

fun add_tools :: "tool list \<Rightarrow> tool_registry \<Rightarrow> string + tool_registry" where
  "add_tools [] m = Inr m"
| "add_tools (t # ts) m = (if dget m (tl_name t) \<noteq> None then Inl (tl_name t) else add_tools ts (dput (tl_name t) t m))"

definition ToolRegistry :: "tool list \<Rightarrow> string + tool_registry" where
  "ToolRegistry ts = add_tools ts []"

definition list_tools :: "tool_registry \<Rightarrow> string list" where
  "list_tools reg = sort (dkeys reg)"

subsection \<open>Sub-constraints\<close>

datatype FileSystemScope = WORKSPACE_ONLY | PROJECT_DIRECTORY | FS_FULL

datatype NetworkMode = NET_NONE | ALLOWLIST_ONLY | NET_OPEN

datatype GitAccess = LOCAL_ONLY | READ_AND_BRANCH | GIT_FULL

datatype CodeExecutionIsolation = CONTAINERIZED | PROCESS

datatype TerminalAccess = TERM_NONE | RESTRICTED_COMMANDS | TERM_FULL

record ToolSubConstraints =
  file_system :: FileSystemScope
  network :: NetworkMode
  git :: GitAccess
  code_execution :: CodeExecutionIsolation
  terminal :: TerminalAccess
  requires_approval :: "string list"
  network_allowlist :: "string list"

text \<open>The fields given when constraints are constructed; the others take the defaults of the model.\<close>

record sub_fields =
  set_file_system :: "FileSystemScope option"
  set_network :: "NetworkMode option"
  set_git :: "GitAccess option"
  set_code_execution :: "CodeExecutionIsolation option"
  set_terminal :: "TerminalAccess option"
  set_requires_approval :: "string list option"
  set_network_allowlist :: "string list option"

definition or_else :: "'a option \<Rightarrow> 'a \<Rightarrow> 'a" where
  "or_else x d = (case x of Some v \<Rightarrow> v | None \<Rightarrow> d)"

definition overlay :: "ToolSubConstraints \<Rightarrow> sub_fields \<Rightarrow> ToolSubConstraints" where
  "overlay b f = \<lparr>file_system = or_else (set_file_system f) (file_system b), network = or_else (set_network f) (network b),
     git = or_else (set_git f) (git b), code_execution = or_else (set_code_execution f) (code_execution b),
     terminal = or_else (set_terminal f) (terminal b), requires_approval = or_else (set_requires_approval f) (requires_approval b),
     network_allowlist = or_else (set_network_allowlist f) (network_allowlist b)\<rparr>"

definition default_sub_constraints :: ToolSubConstraints where
  "default_sub_constraints = \<lparr>file_system = PROJECT_DIRECTORY, network = NET_OPEN, git = GIT_FULL, code_execution = CONTAINERIZED,
     terminal = RESTRICTED_COMMANDS, requires_approval = [], network_allowlist = []\<rparr>"

datatype ToolAccessLevel = SANDBOXED | RESTRICTED | STANDARD | ELEVATED | CUSTOM

definition LEVEL_SUB_CONSTRAINTS :: "(ToolAccessLevel, ToolSubConstraints) dict" where
  "LEVEL_SUB_CONSTRAINTS =
     [(SANDBOXED, \<lparr>file_system = WORKSPACE_ONLY, network = NET_NONE, git = LOCAL_ONLY, code_execution = CONTAINERIZED,
         terminal = TERM_NONE, requires_approval = [], network_allowlist = []\<rparr>),
      (RESTRICTED, \<lparr>file_system = PROJECT_DIRECTORY, network = ALLOWLIST_ONLY, git = READ_AND_BRANCH, code_execution = CONTAINERIZED,
         terminal = TERM_NONE, requires_approval = [''deploy:'', ''db:mutate''], network_allowlist = []\<rparr>),
      (STANDARD, \<lparr>file_system = PROJECT_DIRECTORY, network = NET_OPEN, git = GIT_FULL, code_execution = CONTAINERIZED,
         terminal = RESTRICTED_COMMANDS, requires_approval = [], network_allowlist = []\<rparr>),
      (ELEVATED, \<lparr>file_system = FS_FULL, network = NET_OPEN, git = GIT_FULL, code_execution = CONTAINERIZED,
         terminal = TERM_FULL, requires_approval = [], network_allowlist = []\<rparr>)]"

definition get_sub_constraints :: "ToolAccessLevel \<Rightarrow> sub_fields option \<Rightarrow> unit + ToolSubConstraints" where
  "get_sub_constraints level custom =
     (case custom of
        Some f \<Rightarrow> if level = CUSTOM then Inr (overlay default_sub_constraints f)
                  else Inr (overlay (dget_or LEVEL_SUB_CONSTRAINTS level default_sub_constraints) f)
      | None \<Rightarrow> if level = CUSTOM then Inl ()
                else (case dget LEVEL_SUB_CONSTRAINTS level of None \<Rightarrow> Inl () | Some c \<Rightarrow> Inr c))"

record SubConstraintViolation =
  viol_constraint :: string
  viol_reason :: string
  viol_requires_approval :: bool

definition quoted :: "string \<Rightarrow> string" where
  "quoted s = CHR 0x27 # s @ [CHR 0x27]"

definition check_network :: "ToolSubConstraints \<Rightarrow> string \<Rightarrow> string \<Rightarrow> SubConstraintViolation option" where
  "check_network c name act =
     (if network c \<noteq> NET_NONE then None
      else if act \<in> {''comms:external''} \<or> name \<in> {''git_clone''} then
        Some \<lparr>viol_constraint = ''network'',
          viol_reason = ''Tool '' @ py_repr name @ '' requires network access, but network mode is '' @ quoted ''none'',
          viol_requires_approval = False\<rparr>
      else None)"

definition check_terminal :: "ToolSubConstraints \<Rightarrow> string \<Rightarrow> ToolCategory \<Rightarrow> SubConstraintViolation option" where
  "check_terminal c name cat =
     (if terminal c = TERM_NONE \<and> cat = TERMINAL then
        Some \<lparr>viol_constraint = ''terminal'',
          viol_reason = ''Tool '' @ py_repr name @ '' requires terminal access, but terminal access is '' @ quoted ''none'',
          viol_requires_approval = False\<rparr>
      else None)"

definition git_violation :: "string \<Rightarrow> string \<Rightarrow> string \<Rightarrow> SubConstraintViolation" where
  "git_violation name what access = \<lparr>viol_constraint = ''git'',
     viol_reason = ''Tool '' @ py_repr name @ '' performs git '' @ what @ '', but git access is '' @ quoted access,
     viol_requires_approval = False\<rparr>"

definition check_git :: "ToolSubConstraints \<Rightarrow> string \<Rightarrow> string \<Rightarrow> SubConstraintViolation option" where
  "check_git c name act =
     (if git c = GIT_FULL then None
      else if git c = LOCAL_ONLY \<and> act \<in> {''vcs:push''} then Some (git_violation name ''push'' ''local_only'')
      else if git c = LOCAL_ONLY \<and> name \<in> {''git_clone''} then Some (git_violation name ''clone'' ''local_only'')
      else if git c = READ_AND_BRANCH \<and> act \<in> {''vcs:push''} then Some (git_violation name ''push'' ''read_and_branch'')
      else None)"

definition check_requires_approval :: "ToolSubConstraints \<Rightarrow> string \<Rightarrow> string \<Rightarrow> SubConstraintViolation option" where
  "check_requires_approval c name act =
     (if list_ex (\<lambda>p. take (length p) act = p) (requires_approval c) then
        Some \<lparr>viol_constraint = ''requires_approval'',
          viol_reason = ''Tool '' @ py_repr name @ '' with action type '' @ py_repr act @ '' requires human approval'',
          viol_requires_approval = True\<rparr>
      else None)"

definition enforcer_check :: "ToolSubConstraints \<Rightarrow> string \<Rightarrow> ToolCategory \<Rightarrow> string \<Rightarrow> SubConstraintViolation option" where
  "enforcer_check c name cat act =
     (case check_network c name act of Some v \<Rightarrow> Some v | None \<Rightarrow>
      case check_terminal c name cat of Some v \<Rightarrow> Some v | None \<Rightarrow>
      case check_git c name act of Some v \<Rightarrow> Some v | None \<Rightarrow> check_requires_approval c name act)"

subsection \<open>Permissions\<close>

definition LEVEL_CATEGORIES :: "ToolAccessLevel \<Rightarrow> ToolCategory set" where
  "LEVEL_CATEGORIES l = (case l of
     SANDBOXED \<Rightarrow> {FILE_SYSTEM, CODE_EXECUTION, VERSION_CONTROL, MEMORY}
   | RESTRICTED \<Rightarrow> {FILE_SYSTEM, CODE_EXECUTION, VERSION_CONTROL, WEB, MEMORY}
   | STANDARD \<Rightarrow> {FILE_SYSTEM, CODE_EXECUTION, VERSION_CONTROL, WEB, TERMINAL, ANALYTICS, MEMORY}
   | ELEVATED \<Rightarrow> {FILE_SYSTEM, CODE_EXECUTION, VERSION_CONTROL, WEB, DATABASE, TERMINAL, DESIGN, COMMUNICATION,
       ANALYTICS, DEPLOYMENT, MEMORY, ONTOLOGY, MCP, OTHER}
   | CUSTOM \<Rightarrow> {})"

definition access_level_value :: "ToolAccessLevel \<Rightarrow> string" where
  "access_level_value l = (case l of SANDBOXED \<Rightarrow> ''sandboxed'' | RESTRICTED \<Rightarrow> ''restricted'' | STANDARD \<Rightarrow> ''standard''
     | ELEVATED \<Rightarrow> ''elevated'' | CUSTOM \<Rightarrow> ''custom'')"

record permission_checker =
  pc_access_level :: ToolAccessLevel
  pc_allowed :: "string set"
  pc_denied :: "string set"
  pc_enforcer :: "ToolSubConstraints option"

definition normalise_name :: "string \<Rightarrow> string" where
  "normalise_name n = casefold (py_strip n)"

definition ToolPermissionChecker ::
  "ToolAccessLevel \<Rightarrow> string list \<Rightarrow> string list \<Rightarrow> sub_fields option \<Rightarrow> permission_checker" where
  "ToolPermissionChecker level allowed denied sub =
     \<lparr>pc_access_level = level, pc_allowed = normalise_name ` set allowed, pc_denied = normalise_name ` set denied,
      pc_enforcer = (if level = CUSTOM \<and> sub = None then None
                     else case get_sub_constraints level sub of Inr c \<Rightarrow> Some c | Inl _ \<Rightarrow> None)\<rparr>"

definition is_permitted :: "permission_checker \<Rightarrow> string \<Rightarrow> ToolCategory \<Rightarrow> bool" where
  "is_permitted pc name cat =
     (let n = normalise_name name in
      if n \<in> pc_denied pc then False
      else if n \<in> pc_allowed pc then True
      else if pc_access_level pc = CUSTOM then False
      else cat \<in> LEVEL_CATEGORIES (pc_access_level pc))"

definition denial_reason :: "permission_checker \<Rightarrow> string \<Rightarrow> ToolCategory \<Rightarrow> string" where
  "denial_reason pc name cat =
     (if normalise_name name \<in> pc_denied pc then ''Tool '' @ py_repr name @ '' is explicitly denied''
      else if pc_access_level pc = CUSTOM then ''Tool '' @ py_repr name @ '' is not in the allowed list (access level: custom)''
      else ''Category '' @ py_repr (tool_category_value cat) @ '' is not permitted at access level '' @
        py_repr (access_level_value (pc_access_level pc)))"

definition check_sub_constraints :: "permission_checker \<Rightarrow> string \<Rightarrow> ToolCategory \<Rightarrow> string \<Rightarrow> SubConstraintViolation option" where
  "check_sub_constraints pc name cat act =
     (case pc_enforcer pc of None \<Rightarrow> None | Some c \<Rightarrow> enforcer_check c name cat act)"

definition filter_definitions :: "permission_checker \<Rightarrow> tool_registry \<Rightarrow> string list" where
  "filter_definitions pc reg =
     sort (filter (\<lambda>n. case dget reg n of None \<Rightarrow> False | Some t \<Rightarrow> is_permitted pc n (tl_category t)) (list_tools reg))"

subsection \<open>The invoker\<close>

record ToolCall =
  tc_id :: string
  tc_name :: string
  tc_arguments :: arguments

record ToolResult =
  tr_tool_call_id :: string
  tr_content :: string
  tr_is_error :: bool

text \<open>Values of the metadata of a tool: booleans, strings, and others with their truth value and text.\<close>

datatype meta_value = MBool bool | MStr string | MOther bool string

fun meta_true :: "meta_value \<Rightarrow> bool" where
  "meta_true (MBool b) = b"
| "meta_true (MStr s) = (s \<noteq> [])"
| "meta_true (MOther b s) = b"

fun meta_str :: "meta_value \<Rightarrow> string" where
  "meta_str (MBool b) = (if b then ''True'' else ''False'')"
| "meta_str (MStr s) = s"
| "meta_str (MOther b s) = s"

record ToolExecutionResult =
  er_content :: string
  er_is_error :: bool
  er_metadata :: "(string, meta_value) dict"

record EscalationInfo =
  ei_approval_id :: string
  ei_tool_call_id :: string
  ei_tool_name :: string
  ei_action_type :: string
  ei_risk_level :: ApprovalRiskLevel
  ei_reason :: string

definition valid_escalation :: "EscalationInfo \<Rightarrow> bool" where
  "valid_escalation e \<longleftrightarrow> not_blank (ei_approval_id e) \<and> not_blank (ei_tool_call_id e) \<and> not_blank (ei_tool_name e) \<and>
     not_blank (ei_action_type e) \<and> not_blank (ei_reason e)"

record ToolInvocationRecord =
  ir_agent_id :: string
  ir_task_id :: "string option"
  ir_tool_name :: string
  ir_is_success :: bool
  ir_timestamp :: time
  ir_error_message :: "string option"

record invoker =
  inv_registry :: tool_registry
  inv_checker :: "permission_checker option"
  inv_security :: "SecurityConfig option"
  inv_patterns :: "output_pattern list"
  inv_agent_id :: "string option"
  inv_task_id :: "string option"
  inv_sanitize :: "string \<Rightarrow> string"

record call_env =
  ce_gate :: gate_env
  ce_copy_error :: "string option"
  ce_execute :: "string \<Rightarrow> arguments \<Rightarrow> string + ToolExecutionResult"
  ce_record_fails :: bool

record invoker_state =
  is_gate :: gate
  pending_escalations :: "EscalationInfo list"
  executed :: "(string \<times> arguments) list"
  tracked :: "(nat \<times> ToolInvocationRecord list) option"

datatype invoke_error = InvokeCancelled | BadEscalationInfo

definition error_result :: "ToolCall \<Rightarrow> string \<Rightarrow> ToolResult" where
  "error_result call msg = \<lparr>tr_tool_call_id = tc_id call, tr_content = msg, tr_is_error = True\<rparr>"

definition str_tool_error :: "string \<Rightarrow> string \<Rightarrow> string" where
  "str_tool_error msg name = msg @ '' (tool='' @ py_repr name @ '')''"

definition lookup_tool :: "invoker \<Rightarrow> ToolCall \<Rightarrow> ToolResult + tool" where
  "lookup_tool iv call =
     (case dget (inv_registry iv) (tc_name call) of
        Some t \<Rightarrow> Inr t
      | None \<Rightarrow> Inl (error_result call (str_tool_error (''Tool '' @ py_repr (tc_name call) @ '' is not registered. Available tools: '' @
                 py_join '', '' (if inv_registry iv = [] then [''(none)''] else list_tools (inv_registry iv))) (tc_name call))))"

definition check_permission :: "invoker \<Rightarrow> tool \<Rightarrow> ToolCall \<Rightarrow> ToolResult option" where
  "check_permission iv t call =
     (case inv_checker iv of
        None \<Rightarrow> None
      | Some pc \<Rightarrow> if is_permitted pc (tl_name t) (tl_category t) then None
                   else Some (error_result call (''Permission denied: '' @ denial_reason pc (tl_name t) (tl_category t))))"

definition deepcopy_error :: "ToolCall \<Rightarrow> string \<Rightarrow> ToolResult" where
  "deepcopy_error call msg = error_result call (''Tool '' @ py_repr (tc_name call) @ '' arguments could not be safely copied: '' @ msg)"

definition push_escalation :: "EscalationInfo \<Rightarrow> invoker_state \<Rightarrow> (invoke_error + unit) \<times> invoker_state" where
  "push_escalation e st =
     (if valid_escalation e then (Inr (), st\<lparr>pending_escalations := pending_escalations st @ [e]\<rparr>) else (Inl BadEscalationInfo, st))"

text \<open>The escalation of a sub-constraint; its approval id is made from the id of the call.\<close>

definition sub_approval_id :: "ToolCall \<Rightarrow> string" where
  "sub_approval_id call = ''sub-constraint-'' @ tc_id call"

definition sub_escalation :: "tool \<Rightarrow> ToolCall \<Rightarrow> SubConstraintViolation \<Rightarrow> EscalationInfo" where
  "sub_escalation t call v = \<lparr>ei_approval_id = sub_approval_id call, ei_tool_call_id = tc_id call, ei_tool_name = tc_name call,
     ei_action_type = tl_action_type t, ei_risk_level = RISK_HIGH, ei_reason = viol_reason v\<rparr>"

definition sub_escalation_text :: "ToolCall \<Rightarrow> SubConstraintViolation \<Rightarrow> string" where
  "sub_escalation_text call v =
     ''Sub-constraint escalation: '' @ viol_reason v @ ''. Human approval required (id='' @ sub_approval_id call @ '')''"

definition check_sub :: "invoker \<Rightarrow> call_env \<Rightarrow> tool \<Rightarrow> ToolCall \<Rightarrow> invoker_state \<Rightarrow> (invoke_error + ToolResult option) \<times> invoker_state" where
  "check_sub iv env t call st =
     (case inv_checker iv of
        None \<Rightarrow> (Inr None, st)
      | Some pc \<Rightarrow>
         (case ce_copy_error env of
            Some msg \<Rightarrow> (Inr (Some (deepcopy_error call msg)), st)
          | None \<Rightarrow>
             (case check_sub_constraints pc (tl_name t) (tl_category t) (tl_action_type t) of
                None \<Rightarrow> (Inr None, st)
              | Some v \<Rightarrow>
                  if viol_requires_approval v then
                    (case push_escalation (sub_escalation t call v) st of
                       (Inl x, st') \<Rightarrow> (Inl x, st')
                     | (Inr _, st') \<Rightarrow> (Inr (Some (error_result call (sub_escalation_text call v))), st'))
                  else (Inr (Some (error_result call (''Sub-constraint denied: '' @ viol_reason v))), st))))"

definition validate_params :: "tool \<Rightarrow> ToolCall \<Rightarrow> ToolResult option" where
  "validate_params t call =
     (case tl_schema t of
        None \<Rightarrow> None
      | Some check \<Rightarrow>
         (case check (tc_arguments call) of
            Conforms \<Rightarrow> None
          | SchemaError m \<Rightarrow> Some (error_result call (''Tool '' @ py_repr (tc_name call) @ '' has an invalid parameter schema: '' @ m))
          | ValidationError m \<Rightarrow> Some (error_result call (str_tool_error m (tc_name call)))
          | UnexpectedError m \<Rightarrow> Some (error_result call (''Tool '' @ py_repr (tc_name call) @ '' parameter validation failed: '' @ m))))"

definition build_security_context :: "invoker \<Rightarrow> tool \<Rightarrow> ToolCall \<Rightarrow> SecurityContext" where
  "build_security_context iv t call =
     \<lparr>cx_tool_name = tl_name t, cx_tool_category = tool_category_value (tl_category t), cx_action_type = tl_action_type t,
      cx_arguments = tc_arguments call, cx_agent_id = inv_agent_id iv, cx_task_id = inv_task_id iv\<rparr>"

definition agent_reason :: "SecurityVerdict \<Rightarrow> string" where
  "agent_reason v = (case v_agent_visible_reason v of Some r \<Rightarrow> if r = [] then v_reason v else r | None \<Rightarrow> v_reason v)"

definition FAIL_CLOSED :: string where
  "FAIL_CLOSED = ''Security evaluation failed (fail-closed). Tool execution blocked.''"

text \<open>The answer to a verdict: \<open>None\<close> lets the call through.\<close>

definition answer_verdict :: "tool \<Rightarrow> ToolCall \<Rightarrow> SecurityVerdict \<Rightarrow> invoker_state \<Rightarrow> (invoke_error + ToolResult option) \<times> invoker_state" where
  "answer_verdict t call v st =
     (case v_verdict v of
        VERDICT_ALLOW \<Rightarrow> (Inr None, st)
      | VERDICT_DENY \<Rightarrow> (Inr (Some (error_result call (''Security denied: '' @ agent_reason v))), st)
      | VERDICT_ESCALATE \<Rightarrow>
          (let (r, st') = (case v_approval_id v of
                 None \<Rightarrow> (Inr (), st)
               | Some k \<Rightarrow> push_escalation \<lparr>ei_approval_id = k, ei_tool_call_id = tc_id call, ei_tool_name = tc_name call,
                   ei_action_type = tl_action_type t, ei_risk_level = v_risk_level v, ei_reason = v_reason v\<rparr> st)
           in case r of
                Inl x \<Rightarrow> (Inl x, st')
              | Inr _ \<Rightarrow> (Inr (Some (error_result call (''Security escalation: '' @ agent_reason v @ ''. Approval required (id='' @
                          (case v_approval_id v of None \<Rightarrow> ''None'' | Some k \<Rightarrow> k) @ '')''))), st')))"

definition check_security ::
  "invoker \<Rightarrow> call_env \<Rightarrow> tool \<Rightarrow> ToolCall \<Rightarrow> invoker_state
   \<Rightarrow> (invoke_error + SecurityContext option \<times> ToolResult option) \<times> invoker_state" where
  "check_security iv env t call st =
     (case inv_security iv of
        None \<Rightarrow> (Inr (None, None), st)
      | Some cfg \<Rightarrow>
         (let cx = build_security_context iv t call in
          if ce_copy_error env \<noteq> None \<or> \<not> valid_security_context cx then (Inr (None, Some (error_result call FAIL_CLOSED)), st)
          else case evaluate_pre_tool cfg (ce_gate env) cx (is_gate st) of
                 (Inl e, g) \<Rightarrow>
                   if e = GateCancelled then (Inl InvokeCancelled, st\<lparr>is_gate := g\<rparr>)
                   else (Inr (None, Some (error_result call FAIL_CLOSED)), st\<lparr>is_gate := g\<rparr>)
               | (Inr v, g) \<Rightarrow>
                   (case answer_verdict t call v (st\<lparr>is_gate := g\<rparr>) of
                      (Inl x, st') \<Rightarrow> (Inl x, st')
                    | (Inr r, st') \<Rightarrow> (Inr (Some cx, r), st'))))"

definition execute_tool :: "call_env \<Rightarrow> tool \<Rightarrow> ToolCall \<Rightarrow> invoker_state \<Rightarrow> (ToolResult + ToolExecutionResult) \<times> invoker_state" where
  "execute_tool env t call st =
     (case ce_copy_error env of
        Some msg \<Rightarrow> (Inl (deepcopy_error call msg), st)
      | None \<Rightarrow>
         (let st' = st\<lparr>executed := executed st @ [(tl_name t, tc_arguments call)]\<rparr> in
          case ce_execute env (tl_name t) (tc_arguments call) of
            Inl msg \<Rightarrow> (Inl (error_result call (str_tool_error msg (tc_name call))), st')
          | Inr r \<Rightarrow> (Inr r, st')))"

definition apply_html_guard :: "invoker \<Rightarrow> ToolExecutionResult \<Rightarrow> ToolExecutionResult" where
  "apply_html_guard iv r =
     (if er_is_error r \<or> er_content r = [] then r
      else let cleaned = inv_sanitize iv (er_content r) in
        if cleaned = er_content r then r
        else \<lparr>er_content = cleaned, er_is_error = er_is_error r, er_metadata = dput ''html_guard'' (MOther True ''html_guard'') (er_metadata r)\<rparr>)"

definition parking_info :: "tool \<Rightarrow> ToolCall \<Rightarrow> meta_value \<Rightarrow> (string, meta_value) dict \<Rightarrow> EscalationInfo option" where
  "parking_info t call k md =
     (let level = (case dget md ''risk_level'' of None \<Rightarrow> Some ''high'' | Some (MStr s) \<Rightarrow> Some s | Some _ \<Rightarrow> None) in
      case (case level of None \<Rightarrow> None | Some s \<Rightarrow> risk_of_value s) of
        None \<Rightarrow> None
      | Some risk \<Rightarrow>
         (let e = \<lparr>ei_approval_id = meta_str k, ei_tool_call_id = tc_id call, ei_tool_name = tl_name t,
               ei_action_type = (case dget md ''action_type'' of None \<Rightarrow> tl_action_type t | Some a \<Rightarrow> meta_str a),
               ei_risk_level = risk, ei_reason = ''Agent requested human approval''\<rparr>
          in if valid_escalation e then Some e else None))"

definition track_parking_metadata :: "tool \<Rightarrow> ToolCall \<Rightarrow> ToolExecutionResult \<Rightarrow> invoker_state \<Rightarrow> ToolResult option \<times> invoker_state" where
  "track_parking_metadata t call r st =
     (if dget (er_metadata r) ''requires_parking'' \<noteq> Some (MBool True) then (None, st)
      else case dget (er_metadata r) ''approval_id'' of
             None \<Rightarrow> (Some (error_result call ''Tool signalled requires_parking=True but did not provide an approval_id -- cannot track escalation''), st)
           | Some k \<Rightarrow>
               if \<not> meta_true k then
                 (Some (error_result call ''Tool signalled requires_parking=True but did not provide an approval_id -- cannot track escalation''), st)
               else case parking_info t call k (er_metadata r) of
                      None \<Rightarrow> (Some (error_result call ''Approval escalation tracking failed''), st)
                    | Some e \<Rightarrow> (None, st\<lparr>pending_escalations := pending_escalations st @ [e]\<rparr>))"

definition handle_sensitive_scan :: "ToolExecutionResult \<Rightarrow> OutputScanResult \<Rightarrow> ToolExecutionResult" where
  "handle_sensitive_scan r s =
     (if scan_outcome s = WITHHELD then
        \<lparr>er_content = ''Sensitive data detected -- content withheld by security policy.'', er_is_error = True,
         er_metadata = dput ''output_withheld'' (MBool True) (er_metadata r)\<rparr>
      else case redacted_content s of
             Some c \<Rightarrow> \<lparr>er_content = c, er_is_error = er_is_error r,
               er_metadata = dput ''redaction_findings'' (MOther (findings s \<noteq> []) ''findings'') (dput ''output_redacted'' (MBool True) (er_metadata r))\<rparr>
           | None \<Rightarrow> \<lparr>er_content = ''Sensitive data detected (fail-closed). Tool output withheld.'', er_is_error = True,
               er_metadata = dput ''output_scan_failed'' (MBool True) (er_metadata r)\<rparr>)"

definition invoker_scan ::
  "SecurityConfig \<Rightarrow> invoker \<Rightarrow> call_env \<Rightarrow> ToolExecutionResult \<Rightarrow> SecurityContext \<Rightarrow> invoker_state \<Rightarrow> ToolExecutionResult \<times> invoker_state" where
  "invoker_scan cfg iv env r cx st =
     (case scan_output cfg (ce_gate env) (inv_patterns iv) cx (er_content r) (is_gate st) of
        (Inl _, g) \<Rightarrow>
          (\<lparr>er_content = ''Output scan failed (fail-closed). Tool output withheld.'', er_is_error = True,
            er_metadata = dput ''output_scan_failed'' (MBool True) (er_metadata r)\<rparr>, st\<lparr>is_gate := g\<rparr>)
      | (Inr s, g) \<Rightarrow> (if has_sensitive_data s then handle_sensitive_scan r s else r, st\<lparr>is_gate := g\<rparr>))"

definition invocation_record :: "string \<Rightarrow> invoker \<Rightarrow> call_env \<Rightarrow> ToolCall \<Rightarrow> ToolResult \<Rightarrow> ToolInvocationRecord" where
  "invocation_record agent iv env call r =
     \<lparr>ir_agent_id = agent, ir_task_id = inv_task_id iv, ir_tool_name = tc_name call, ir_is_success = (\<not> tr_is_error r),
      ir_timestamp = ge_now (ce_gate env), ir_error_message = (if tr_is_error r then Some (take 2048 (tr_content r)) else None)\<rparr>"

definition record_tool_invocation :: "invoker \<Rightarrow> call_env \<Rightarrow> ToolCall \<Rightarrow> ToolResult \<Rightarrow> invoker_state \<Rightarrow> invoker_state" where
  "record_tool_invocation iv env call r st =
     (case (tracked st, inv_agent_id iv) of
        (Some (n, rs), Some agent) \<Rightarrow>
          if ce_record_fails env then st
          else st\<lparr>tracked := Some (n, deque_append n rs (invocation_record agent iv env call r))\<rparr>
      | _ \<Rightarrow> st)"

definition finish_call ::
  "invoker \<Rightarrow> call_env \<Rightarrow> tool \<Rightarrow> ToolCall \<Rightarrow> SecurityContext option \<Rightarrow> invoker_state \<Rightarrow> ToolResult \<times> invoker_state" where
  "finish_call iv env t call cx st =
     (case execute_tool env t call st of
        (Inl r, st1) \<Rightarrow> (r, st1)
      | (Inr raw, st1) \<Rightarrow>
         (let er = apply_html_guard iv raw in
          case track_parking_metadata t call er st1 of
            (Some r, st2) \<Rightarrow> (r, st2)
          | (None, st2) \<Rightarrow>
             (let (er', st3) = (case (inv_security iv, cx) of
                    (Some cfg, Some c) \<Rightarrow> invoker_scan cfg iv env er c st2
                  | _ \<Rightarrow> (er, st2));
                  r = \<lparr>tr_tool_call_id = tc_id call, tr_content = er_content er', tr_is_error = er_is_error er'\<rparr>
              in (r, record_tool_invocation iv env call r st3))))"

definition invoke_single :: "invoker \<Rightarrow> call_env \<Rightarrow> ToolCall \<Rightarrow> invoker_state \<Rightarrow> (invoke_error + ToolResult) \<times> invoker_state" where
  "invoke_single iv env call st =
     (case lookup_tool iv call of
        Inl r \<Rightarrow> (Inr r, st)
      | Inr t \<Rightarrow>
         (case check_permission iv t call of
            Some r \<Rightarrow> (Inr r, st)
          | None \<Rightarrow>
             (case check_sub iv env t call st of
                (Inl x, st1) \<Rightarrow> (Inl x, st1)
              | (Inr (Some r), st1) \<Rightarrow> (Inr r, st1)
              | (Inr None, st1) \<Rightarrow>
                 (case validate_params t call of
                    Some r \<Rightarrow> (Inr r, st1)
                  | None \<Rightarrow>
                     (case check_security iv env t call st1 of
                        (Inl x, st2) \<Rightarrow> (Inl x, st2)
                      | (Inr (_, Some r), st2) \<Rightarrow> (Inr r, st2)
                      | (Inr (cx, None), st2) \<Rightarrow> (case finish_call iv env t call cx st2 of (r, st3) \<Rightarrow> (Inr r, st3)))))))"

definition invoke :: "invoker \<Rightarrow> call_env \<Rightarrow> ToolCall \<Rightarrow> invoker_state \<Rightarrow> (invoke_error + ToolResult) \<times> invoker_state" where
  "invoke iv env call st = invoke_single iv env call (st\<lparr>pending_escalations := []\<rparr>)"

subsection \<open>Batches\<close>

text \<open>The calls in the order in which they run, with their results by index; an escaping exception ends the group.\<close>

fun run_batch ::
  "invoker \<Rightarrow> (nat \<Rightarrow> call_env) \<Rightarrow> ToolCall list \<Rightarrow> nat list \<Rightarrow> (nat, ToolResult) dict \<Rightarrow> invoker_state
   \<Rightarrow> (invoke_error + (nat, ToolResult) dict) \<times> invoker_state" where
  "run_batch iv envs calls [] results st = (Inr results, st)"
| "run_batch iv envs calls (i # is) results st =
     (case invoke_single iv (envs i) (calls ! i) st of
        (Inl x, st') \<Rightarrow> (Inl x, st')
      | (Inr r, st') \<Rightarrow> run_batch iv envs calls is (dput i r results) st')"

text \<open>The position of a call id; of equal ids the last one counts.\<close>

definition call_id_order :: "ToolCall list \<Rightarrow> (string, nat) dict" where
  "call_id_order calls = fold (\<lambda>i d. dput (tc_id (calls ! i)) i d) [0 ..< length calls] []"

definition sort_escalations :: "ToolCall list \<Rightarrow> EscalationInfo list \<Rightarrow> EscalationInfo list" where
  "sort_escalations calls es =
     (if length es > 1 then sort_key (\<lambda>e. dget_or (call_id_order calls) (ei_tool_call_id e) (length calls)) es else es)"

datatype batch_error = BadConcurrency | Escaped invoke_error

definition invoke_all ::
  "invoker \<Rightarrow> (nat \<Rightarrow> call_env) \<Rightarrow> int option \<Rightarrow> nat list \<Rightarrow> ToolCall list \<Rightarrow> invoker_state
   \<Rightarrow> (batch_error + ToolResult list) \<times> invoker_state" where
  "invoke_all iv envs max_concurrency order calls st =
     (let st0 = st\<lparr>pending_escalations := []\<rparr> in
      if (case max_concurrency of None \<Rightarrow> False | Some n \<Rightarrow> n < 1) then (Inl BadConcurrency, st0)
      else if calls = [] then (Inr [], st0)
      else case run_batch iv envs calls order [] st0 of
             (Inl x, st1) \<Rightarrow> (Inl (Escaped x), st1)
           | (Inr results, st1) \<Rightarrow>
               (Inr (List.map (\<lambda>i. the (dget results i)) [0 ..< length calls]),
                st1\<lparr>pending_escalations := sort_escalations calls (pending_escalations st1)\<rparr>))"

subsection \<open>Nothing runs unchecked\<close>

lemma push_keeps: "push_escalation e st = (r, st') \<Longrightarrow> executed st' = executed st \<and> is_gate st' = is_gate st"
  by (auto simp: push_escalation_def split: if_splits)

lemma check_sub_keeps:
  assumes "check_sub iv env t call st = (r, st')"
  shows "executed st' = executed st \<and> is_gate st' = is_gate st"
  using assms push_keeps by (auto simp: check_sub_def split: option.splits if_splits prod.splits sum.splits)

lemma answer_verdict_keeps:
  assumes "answer_verdict t call v st = (r, st')"
  shows "executed st' = executed st \<and> (r = Inr None \<longrightarrow> v_verdict v = VERDICT_ALLOW)"
  using assms push_keeps by (auto simp: answer_verdict_def Let_def split: SecurityVerdictType.splits option.splits prod.splits sum.splits)

lemma check_security_keeps:
  assumes "check_security iv env t call st = (r, st')"
  shows "executed st' = executed st"
  using assms answer_verdict_keeps
  by (auto simp: check_security_def Let_def split: option.splits if_splits prod.splits sum.splits)

lemma check_security_passes:
  assumes "check_security iv env t call st = (Inr (cx, None), st')" and "inv_security iv = Some cfg"
  shows "\<exists>v g. evaluate_pre_tool cfg (ce_gate env) (build_security_context iv t call) (is_gate st) = (Inr v, g) \<and>
    v_verdict v = VERDICT_ALLOW \<and> cx = Some (build_security_context iv t call)"
  using assms answer_verdict_keeps
  by (auto simp: check_security_def Let_def split: if_splits prod.splits sum.splits)

lemma track_parking_keeps:
  assumes "track_parking_metadata t call r st = (x, st')"
  shows "executed st' = executed st"
  using assms by (auto simp: track_parking_metadata_def split: if_splits option.splits)

lemma scan_keeps: "invoker_scan cfg iv env r cx st = (r', st') \<Longrightarrow> executed st' = executed st"
  by (auto simp: invoker_scan_def split: prod.splits sum.splits)

lemma record_keeps [simp]: "executed (record_tool_invocation iv env call r st) = executed st"
  by (auto simp: record_tool_invocation_def split: option.splits prod.splits)

lemma finish_call_executed:
  assumes "finish_call iv env t call cx st = (r, st')"
  shows "executed st' = executed st \<or> executed st' = executed st @ [(tl_name t, tc_arguments call)]"
  using assms track_parking_keeps scan_keeps
  by (fastforce simp: finish_call_def execute_tool_def Let_def split: option.splits prod.splits sum.splits)

text \<open>The checks a call has passed when its tool runs.\<close>

definition cleared :: "invoker \<Rightarrow> call_env \<Rightarrow> tool \<Rightarrow> ToolCall \<Rightarrow> bool" where
  "cleared iv env t call \<longleftrightarrow>
     (\<forall>pc. inv_checker iv = Some pc \<longrightarrow> is_permitted pc (tl_name t) (tl_category t) \<and>
        check_sub_constraints pc (tl_name t) (tl_category t) (tl_action_type t) = None) \<and>
     (\<forall>check. tl_schema t = Some check \<longrightarrow> check (tc_arguments call) = Conforms)"

lemma invoke_single_steps:
  assumes "invoke_single iv env call st = (r, st')" and "executed st' \<noteq> executed st"
  shows "\<exists>t st1 cx. dget (inv_registry iv) (tc_name call) = Some t \<and> cleared iv env t call \<and> executed st1 = executed st \<and> is_gate st1 = is_gate st \<and>
    executed st' = executed st @ [(tl_name t, tc_arguments call)] \<and> (\<exists>st2. check_security iv env t call st1 = (Inr (cx, None), st2))"
proof -
  obtain t where t: "lookup_tool iv call = Inr t" "check_permission iv t call = None"
    using assms by (auto simp: invoke_single_def split: sum.splits option.splits)
  obtain x st1 where sub: "check_sub iv env t call st = (x, st1)" by (rule prod.exhaust)
  note k1 = check_sub_keeps [OF sub]
  have x: "x = Inr None" "validate_params t call = None"
    using assms t sub k1 by (auto simp: invoke_single_def split: sum.splits option.splits)
  obtain y st2 where sec: "check_security iv env t call st1 = (y, st2)" by (rule prod.exhaust)
  note k2 = check_security_keeps [OF sec]
  obtain cx where y: "y = Inr (cx, None)"
    using assms t sub k1 x sec k2 by (auto simp: invoke_single_def split: sum.splits option.splits)
  obtain res st3 where fin: "finish_call iv env t call cx st2 = (res, st3)" by (rule prod.exhaust)
  have "st' = st3" using assms(1) t sub x sec y fin by (simp add: invoke_single_def)
  then have "executed st' = executed st @ [(tl_name t, tc_arguments call)]"
    using finish_call_executed [OF fin] k1 k2 assms(2) by auto
  moreover have "cleared iv env t call"
    using t x sub by (auto simp: cleared_def check_permission_def check_sub_def validate_params_def Let_def
        split: if_splits option.splits schema_check.splits prod.splits sum.splits)
  moreover have "dget (inv_registry iv) (tc_name call) = Some t" using t(1) by (auto simp: lookup_tool_def split: option.splits)
  ultimately show ?thesis using k1 sec y by blast
qed

lemma security_passed:
  assumes "check_security iv env t call st1 = (Inr (cx, None), st2)" and "inv_security iv = Some cfg" and "valid_security_config cfg"
    and "sc_enabled cfg" and "sc_enforcement_mode cfg = ACTIVE_MODE"
    and "ge_engine (ce_gate env) = (\<lambda>c. Inr (engine_evaluate clk (build_rule_engine pt now cfg) c))"
  shows "tl_action_type t \<notin> set (sc_hard_deny cfg) \<and>
    list_all (\<lambda>d. rule_evaluate d (build_security_context iv t call) = Inr None) (detectors pt now (sc_rule_engine cfg)) \<and>
    (\<forall>a. ge_autonomy (ce_gate env) = Some a \<longrightarrow> tl_action_type t \<in> auto_approve_actions a \<or> tl_action_type t \<notin> human_approval_actions a)"
proof -
  let ?cx = "build_security_context iv t call"
  from check_security_passes [OF assms(1,2)] obtain v g where
    v: "evaluate_pre_tool cfg (ce_gate env) ?cx (is_gate st1) = (Inr v, g)" "v_verdict v = VERDICT_ALLOW" by blast
  have act: "cx_action_type ?cx = tl_action_type t" by (simp add: build_security_context_def)
  have rv: "rule_verdict (ce_gate env) ?cx = engine_evaluate clk (build_rule_engine pt now cfg) ?cx"
    using assms(6) by (simp add: rule_verdict_def)
  note al = gate_allow [OF v(1) assms(4,5) v(2), unfolded rv act]
  from engine_silent_unless_safe [OF assms(3) conjunct1 [OF al], unfolded act] conjunct2 [OF al] show ?thesis by blast
qed

text \<open>
  C23: no tool runs unchecked. Whatever the security configuration, if a call makes a tool run, it runs once, is the
  registered tool of that name, and gets the arguments of the call; a permission checker permits it and finds no
  violated sub-constraint, and the arguments conform to its schema. When moreover the security service is enabled in
  ACTIVE mode over the assembled rule engine, its action type is not hard-denied, no enabled detector found anything
  in the arguments, and the agent's autonomy does not demand a human.
\<close>

theorem tool_runs_only_if_cleared:
  assumes "invoke_single iv env call st = (r, st')" and "executed st' \<noteq> executed st"
  shows "\<exists>t. dget (inv_registry iv) (tc_name call) = Some t \<and> executed st' = executed st @ [(tl_name t, tc_arguments call)] \<and>
    (\<forall>pc. inv_checker iv = Some pc \<longrightarrow> is_permitted pc (tl_name t) (tl_category t) \<and>
       check_sub_constraints pc (tl_name t) (tl_category t) (tl_action_type t) = None) \<and>
    (\<forall>check. tl_schema t = Some check \<longrightarrow> check (tc_arguments call) = Conforms) \<and>
    (\<forall>cfg clk pt now. inv_security iv = Some cfg \<and> valid_security_config cfg \<and> sc_enabled cfg \<and> sc_enforcement_mode cfg = ACTIVE_MODE \<and>
       ge_engine (ce_gate env) = (\<lambda>c. Inr (engine_evaluate clk (build_rule_engine pt now cfg) c)) \<longrightarrow>
       tl_action_type t \<notin> set (sc_hard_deny cfg) \<and>
       list_all (\<lambda>d. rule_evaluate d (build_security_context iv t call) = Inr None) (detectors pt now (sc_rule_engine cfg)) \<and>
       (\<forall>a. ge_autonomy (ce_gate env) = Some a \<longrightarrow> tl_action_type t \<in> auto_approve_actions a \<or> tl_action_type t \<notin> human_approval_actions a))"
proof -
  from invoke_single_steps [OF assms] obtain t st1 cx st2 where t: "dget (inv_registry iv) (tc_name call) = Some t"
      "cleared iv env t call" "executed st' = executed st @ [(tl_name t, tc_arguments call)]"
      "check_security iv env t call st1 = (Inr (cx, None), st2)" by blast
  have "tl_action_type t \<notin> set (sc_hard_deny cfg) \<and>
      list_all (\<lambda>d. rule_evaluate d (build_security_context iv t call) = Inr None) (detectors pt now (sc_rule_engine cfg)) \<and>
      (\<forall>a. ge_autonomy (ce_gate env) = Some a \<longrightarrow> tl_action_type t \<in> auto_approve_actions a \<or> tl_action_type t \<notin> human_approval_actions a)"
    if sec: "inv_security iv = Some cfg" "valid_security_config cfg" "sc_enabled cfg" "sc_enforcement_mode cfg = ACTIVE_MODE"
      "ge_engine (ce_gate env) = (\<lambda>c. Inr (engine_evaluate clk (build_rule_engine pt now cfg) c))" for cfg clk pt now
    by (rule security_passed [OF t(4) sec])
  then show ?thesis using t unfolding cleared_def by blast
qed

text \<open>
  Escalations of sub-constraints cannot be decided. A call that a sub-constraint sends to a human
  ends in an error with a pending escalation whose approval id is made from the call's own id; the
  approval store, the audit log and the denial counts stay as they were, so nothing is stored under that id.
\<close>

theorem sub_constraint_escalation_unstored:
  assumes "lookup_tool iv call = Inr t" and "check_permission iv t call = None" and "inv_checker iv = Some pc" and "ce_copy_error env = None"
    and "check_sub_constraints pc (tl_name t) (tl_category t) (tl_action_type t) = Some viol" and "viol_requires_approval viol"
    and "invoke_single iv env call st = (Inr res, st')"
  shows "tr_is_error res \<and> is_gate st' = is_gate st \<and> executed st' = executed st \<and>
    (\<exists>e. pending_escalations st' = pending_escalations st @ [e] \<and> ei_approval_id e = ''sub-constraint-'' @ tc_id call)"
proof -
  let ?e = "sub_escalation t call viol"
  have sub: "check_sub iv env t call st = (case push_escalation ?e st of (Inl x, st') \<Rightarrow> (Inl x, st')
      | (Inr _, st') \<Rightarrow> (Inr (Some (error_result call (sub_escalation_text call viol))), st'))"
    using assms(3-6) by (simp add: check_sub_def)
  have ok: "valid_escalation ?e" using assms(1,2,7) sub by (rule_tac ccontr) (simp add: invoke_single_def push_escalation_def)
  then have "res = error_result call (sub_escalation_text call viol)" "st' = st\<lparr>pending_escalations := pending_escalations st @ [?e]\<rparr>"
    using assms(1,2,7) sub by (simp_all add: invoke_single_def push_escalation_def)
  moreover have "ei_approval_id ?e = ''sub-constraint-'' @ tc_id call" by (simp add: sub_escalation_def sub_approval_id_def)
  ultimately show ?thesis by (simp add: error_result_def)
qed

text \<open>
  Texts of exceptions bypass the output scan. When a tool raises, the message of the exception reaches the
  agent as it is, whatever the output patterns and the scan policy are, and no audit entry is written.
\<close>

theorem exception_text_unscanned:
  assumes "ce_copy_error env = None" and "ce_execute env (tl_name t) (tc_arguments call) = Inl msg"
  shows "finish_call iv env t call cx st =
    (\<lparr>tr_tool_call_id = tc_id call, tr_content = msg @ '' (tool='' @ py_repr (tc_name call) @ '')'', tr_is_error = True\<rparr>,
     st\<lparr>executed := executed st @ [(tl_name t, tc_arguments call)]\<rparr>)"
  using assms by (simp add: finish_call_def execute_tool_def Let_def error_result_def str_tool_error_def)

subsection \<open>Scanned results\<close>

text \<open>
  What the agent sees of sensitive output. When a tool of an allowed call returns content and the scan flags
  it, the content of the result is the redacted one or a fixed notice, never the raw content; a scan that
  fails also gives a notice.
\<close>

theorem flagged_output_withheld:
  assumes "ce_copy_error env = None" and "ce_execute env (tl_name t) (tc_arguments call) = Inr raw" and "inv_security iv = Some cfg"
    and "dget (er_metadata raw) ''requires_parking'' = None" and "content = er_content (apply_html_guard iv raw)"
    and "scan_output cfg (ce_gate env) (inv_patterns iv) cx content (is_gate st) = (s, g)" and "\<forall>r. s = Inr r \<longrightarrow> has_sensitive_data r"
    and "finish_call iv env t call (Some cx) st = (res, st')"
  shows "tr_content res \<in> {''Sensitive data detected -- content withheld by security policy.'',
      ''Sensitive data detected (fail-closed). Tool output withheld.'', ''Output scan failed (fail-closed). Tool output withheld.''} \<and> tr_is_error res \<or>
    (\<exists>r. s = Inr r \<and> redacted_content r = Some (tr_content res))"
proof -
  let ?er = "apply_html_guard iv raw"
  let ?st1 = "st\<lparr>executed := executed st @ [(tl_name t, tc_arguments call)]\<rparr>"
  have park: "track_parking_metadata t call ?er ?st1 = (None, ?st1)"
    using assms(4) by (auto simp: track_parking_metadata_def apply_html_guard_def Let_def)
  obtain er' st3 where sc: "invoker_scan cfg iv env ?er cx ?st1 = (er', st3)" by (rule prod.exhaust)
  have res: "tr_content res = er_content er'" "tr_is_error res = er_is_error er'"
    using assms(1-3,8) park sc by (auto simp: finish_call_def execute_tool_def Let_def)
  show ?thesis
  proof (cases s)
    case (Inl e)
    then show ?thesis using sc assms(5,6) res by (auto simp: invoker_scan_def)
  next
    case (Inr r)
    then have "er' = handle_sensitive_scan ?er r" using sc assms(5-7) by (auto simp: invoker_scan_def)
    then show ?thesis using res Inr by (auto simp: handle_sensitive_scan_def split: if_splits option.splits)
  qed
qed

subsection \<open>The sandbox\<close>

text \<open>
  C24: the sandbox holds. For an agent with SANDBOXED access whose overrides, if any, leave network, git and
  terminal alone, no call runs a tool that reaches out, pushes, clones or belongs to the terminal
  category, even a tool that is explicitly allowed by name.
\<close>

theorem sandbox_holds:
  assumes "inv_checker iv = Some (ToolPermissionChecker SANDBOXED allowed denied sub)"
    and "\<forall>f. sub = Some f \<longrightarrow> set_network f = None \<and> set_git f = None \<and> set_terminal f = None"
    and "dget (inv_registry iv) (tc_name call) = Some t"
    and "tl_action_type t \<in> {''comms:external'', ''vcs:push''} \<or> tl_name t = ''git_clone'' \<or> tl_category t = TERMINAL"
  shows "executed (snd (invoke iv env call st)) = executed st"
proof (rule ccontr)
  let ?pc = "ToolPermissionChecker SANDBOXED allowed denied sub"
  obtain r st' where run: "invoke_single iv env call (st\<lparr>pending_escalations := []\<rparr>) = (r, st')" by (rule prod.exhaust)
  assume "executed (snd (invoke iv env call st)) \<noteq> executed st"
  then have "executed st' \<noteq> executed (st\<lparr>pending_escalations := []\<rparr>)" using run by (simp add: invoke_def)
  from invoke_single_steps [OF run this] have "cleared iv env t call" using assms(3) by auto
  then have none: "check_sub_constraints ?pc (tl_name t) (tl_category t) (tl_action_type t) = None"
    using assms(1) by (simp add: cleared_def)
  obtain c where c: "pc_enforcer ?pc = Some c" "network c = NET_NONE" "git c = LOCAL_ONLY" "terminal c = TERM_NONE"
    using assms(2) by (cases sub)
      (auto simp: ToolPermissionChecker_def get_sub_constraints_def LEVEL_SUB_CONSTRAINTS_def overlay_def or_else_def dget_or_def)
  show False using none c assms(4)
    by (auto simp: check_sub_constraints_def enforcer_check_def check_network_def check_terminal_def check_git_def split: option.splits if_splits)
qed

subsection \<open>Batches\<close>

lemma push_escalations:
  "push_escalation e st = (r, st') \<Longrightarrow> \<exists>es. pending_escalations st' = pending_escalations st @ es \<and> set es \<subseteq> {e}"
  by (auto simp: push_escalation_def split: if_splits)

definition own_escalations :: "ToolCall \<Rightarrow> invoker_state \<Rightarrow> invoker_state \<Rightarrow> bool" where
  "own_escalations call st st' \<longleftrightarrow>
     (\<exists>es. pending_escalations st' = pending_escalations st @ es \<and> (\<forall>e \<in> set es. ei_tool_call_id e = tc_id call))"

lemma own_refl [simp]: "pending_escalations st' = pending_escalations st \<Longrightarrow> own_escalations call st st'"
  by (simp add: own_escalations_def)

lemma own_trans: "own_escalations call st st1 \<Longrightarrow> own_escalations call st1 st2 \<Longrightarrow> own_escalations call st st2"
  unfolding own_escalations_def by fastforce

lemma push_own: "push_escalation e st = (r, st') \<Longrightarrow> ei_tool_call_id e = tc_id call \<Longrightarrow> own_escalations call st st'"
  using push_escalations unfolding own_escalations_def by blast

lemma check_sub_own:
  assumes "check_sub iv env t call st = (r, st')"
  shows "own_escalations call st st' \<and> (\<forall>x. r = Inr (Some x) \<longrightarrow> tr_tool_call_id x = tc_id call)"
proof -
  have "ei_tool_call_id (sub_escalation t call v) = tc_id call" for v by (simp add: sub_escalation_def)
  then show ?thesis using assms push_own
    by (auto simp: check_sub_def deepcopy_error_def error_result_def split: option.splits if_splits prod.splits sum.splits)
qed

lemma answer_verdict_own:
  assumes "answer_verdict t call v st = (r, st')"
  shows "own_escalations call st st' \<and> (\<forall>x. r = Inr (Some x) \<longrightarrow> tr_tool_call_id x = tc_id call)"
proof (cases "v_verdict v")
  case VERDICT_ESCALATE
  show ?thesis
  proof (cases "v_approval_id v")
    case None
    then show ?thesis using assms VERDICT_ESCALATE by (auto simp: answer_verdict_def Let_def error_result_def)
  next
    case (Some k)
    define e where "e = \<lparr>ei_approval_id = k, ei_tool_call_id = tc_id call, ei_tool_name = tc_name call,
      ei_action_type = tl_action_type t, ei_risk_level = v_risk_level v, ei_reason = v_reason v\<rparr>"
    obtain x st1 where p: "push_escalation e st = (x, st1)" by (rule prod.exhaust)
    have "own_escalations call st st1" by (rule push_own [OF p]) (simp add: e_def)
    moreover have "st' = st1 \<and> (\<forall>x. r = Inr (Some x) \<longrightarrow> tr_tool_call_id x = tc_id call)"
      using assms VERDICT_ESCALATE Some p by (cases x) (auto simp: answer_verdict_def Let_def error_result_def e_def [symmetric])
    ultimately show ?thesis by simp
  qed
qed (use assms in \<open>auto simp: answer_verdict_def error_result_def\<close>)

lemma check_security_own:
  assumes "check_security iv env t call st = (r, st')"
  shows "own_escalations call st st' \<and> (\<forall>cx x. r = Inr (cx, Some x) \<longrightarrow> tr_tool_call_id x = tc_id call)"
proof -
  have shift: "own_escalations call (st\<lparr>is_gate := g\<rparr>) s \<longleftrightarrow> own_escalations call st s" for g s by (simp add: own_escalations_def)
  show ?thesis using assms answer_verdict_own unfolding shift [symmetric]
    by (fastforce simp: check_security_def Let_def error_result_def shift split: option.splits if_splits prod.splits sum.splits)
qed

lemma track_parking_own:
  assumes "track_parking_metadata t call r st = (x, st')"
  shows "own_escalations call st st' \<and> (\<forall>y. x = Some y \<longrightarrow> tr_tool_call_id y = tc_id call)"
proof -
  have "parking_info t call k md = Some e \<Longrightarrow> ei_tool_call_id e = tc_id call" for k md e
    by (auto simp: parking_info_def Let_def split: option.splits if_splits)
  then show ?thesis using assms
    by (auto simp: track_parking_metadata_def error_result_def own_escalations_def split: if_splits option.splits)
qed

lemma scan_record_escalations [simp]:
  "pending_escalations (snd (invoker_scan cfg iv env r cx st)) = pending_escalations st"
  "pending_escalations (record_tool_invocation iv env call res st) = pending_escalations st"
  by (auto simp: invoker_scan_def record_tool_invocation_def split: prod.splits sum.splits option.splits)

lemma execute_tool_own:
  assumes "execute_tool env t call st = (r, st')"
  shows "pending_escalations st' = pending_escalations st \<and> (\<forall>y. r = Inl y \<longrightarrow> tr_tool_call_id y = tc_id call)"
  using assms by (auto simp: execute_tool_def deepcopy_error_def error_result_def Let_def split: option.splits sum.splits)

lemma finish_call_own:
  assumes "finish_call iv env t call cx st = (r, st')"
  shows "own_escalations call st st' \<and> tr_tool_call_id r = tc_id call"
proof -
  obtain x st1 where ex: "execute_tool env t call st = (x, st1)" by (rule prod.exhaust)
  note e = execute_tool_own [OF ex]
  show ?thesis
  proof (cases x)
    case (Inl y)
    then show ?thesis using assms ex e by (simp add: finish_call_def)
  next
    case (Inr raw)
    let ?er = "apply_html_guard iv raw"
    obtain p st2 where tp: "track_parking_metadata t call ?er st1 = (p, st2)" by (rule prod.exhaust)
    note k = track_parking_own [OF tp]
    have own: "own_escalations call st st2" using k e own_trans own_refl by metis
    show ?thesis
    proof (cases p)
      case (Some y)
      then show ?thesis using assms ex Inr tp own k by (simp add: finish_call_def)
    next
      case None
      let ?sc = "case (inv_security iv, cx) of (Some cfg, Some c) \<Rightarrow> invoker_scan cfg iv env ?er c st2 | _ \<Rightarrow> (?er, st2)"
      obtain er' st3 where sc: "?sc = (er', st3)" by (rule prod.exhaust)
      have "pending_escalations (snd ?sc) = pending_escalations st2" by (auto split: option.splits)
      then have "pending_escalations st3 = pending_escalations st2" using sc by simp
      moreover have "pending_escalations st' = pending_escalations st3 \<and> tr_tool_call_id r = tc_id call"
        using assms ex Inr tp None sc by (auto simp: finish_call_def Let_def)
      ultimately show ?thesis using own by (simp add: own_escalations_def)
    qed
  qed
qed

lemma invoke_single_own:
  assumes "invoke_single iv env call st = (r, st')"
  shows "own_escalations call st st' \<and> (\<forall>x. r = Inr x \<longrightarrow> tr_tool_call_id x = tc_id call)"
proof (cases "lookup_tool iv call")
  case (Inl y)
  then show ?thesis using assms by (auto simp: invoke_single_def lookup_tool_def error_result_def split: option.splits)
next
  case (Inr t)
  show ?thesis
  proof (cases "check_permission iv t call")
    case (Some y)
    then show ?thesis using assms Inr by (auto simp: invoke_single_def check_permission_def error_result_def split: option.splits if_splits)
  next
    case None
    obtain x st1 where sub: "check_sub iv env t call st = (x, st1)" by (rule prod.exhaust)
    obtain y st2 where sec: "check_security iv env t call st1 = (y, st2)" by (rule prod.exhaust)
    note o1 = check_sub_own [OF sub] and o2 = check_security_own [OF sec]
    have o3: "validate_params t call = Some z \<Longrightarrow> tr_tool_call_id z = tc_id call" for z
      by (auto simp: validate_params_def error_result_def split: option.splits schema_check.splits)
    show ?thesis
    proof (cases "x = Inr None \<and> validate_params t call = None \<and> (\<exists>cx. y = Inr (cx, None))")
      case True
      then obtain cx where y: "y = Inr (cx, None)" by blast
      obtain res st3 where fin: "finish_call iv env t call cx st2 = (res, st3)" by (rule prod.exhaust)
      have "r = Inr res \<and> st' = st3" using assms Inr None sub sec True y fin by (simp add: invoke_single_def)
      moreover have "own_escalations call st st3"
        using o1 o2 finish_call_own [OF fin] by (blast intro: own_trans)
      ultimately show ?thesis using finish_call_own [OF fin] by simp
    next
      case False
      have "own_escalations call st st2" using o1 o2 by (blast intro: own_trans)
      then show ?thesis using assms Inr None sub sec o1 o2 o3 False
        by (auto simp: invoke_single_def split: sum.splits option.splits prod.splits)
    qed
  qed
qed

lemma run_batch_results:
  assumes "run_batch iv envs calls order results st = (Inr res, st')"
  shows "(\<forall>i \<in> set order. \<exists>r. dget res i = Some r \<and> tr_tool_call_id r = tc_id (calls ! i)) \<and>
    (\<forall>i. i \<notin> set order \<longrightarrow> dget res i = dget results i) \<and>
    (\<exists>es. pending_escalations st' = pending_escalations st @ es \<and> (\<forall>e \<in> set es. \<exists>i \<in> set order. ei_tool_call_id e = tc_id (calls ! i)))"
  using assms
proof (induction order arbitrary: results st)
  case (Cons i rest)
  obtain r st1 where one: "invoke_single iv (envs i) (calls ! i) st = (Inr r, st1)"
      "run_batch iv envs calls rest (dput i r results) st1 = (Inr res, st')"
    using Cons.prems by (auto split: prod.splits sum.splits)
  from invoke_single_own [OF one(1)] obtain es where es: "pending_escalations st1 = pending_escalations st @ es"
      "\<forall>e \<in> set es. ei_tool_call_id e = tc_id (calls ! i)" "tr_tool_call_id r = tc_id (calls ! i)"
    by (auto simp: own_escalations_def)
  note IH = Cons.IH [OF one(2)]
  then obtain fs where fs: "pending_escalations st' = pending_escalations st1 @ fs" "\<forall>e \<in> set fs. \<exists>j \<in> set rest. ei_tool_call_id e = tc_id (calls ! j)"
    by blast
  have "\<exists>r. dget res i = Some r \<and> tr_tool_call_id r = tc_id (calls ! i)"
    using IH es(3) by (cases "i \<in> set rest") auto
  then show ?case using IH es fs by (auto intro!: exI [of _ "es @ fs"])
qed simp

text \<open>
  Batches keep their order. In whatever order the calls of a batch run, the results come back in the order of
  the calls, each with the id of its call; the pending escalations all belong to calls of the batch
  and are sorted by their position in it.
\<close>

theorem batch_results_aligned:
  assumes "set order = {..< length calls}" and "invoke_all iv envs mc order calls st = (Inr rs, st')"
  shows "List.map tr_tool_call_id rs = List.map tc_id calls \<and>
    (\<forall>e \<in> set (pending_escalations st'). ei_tool_call_id e \<in> tc_id ` set calls) \<and>
    sorted (List.map (\<lambda>e. dget_or (call_id_order calls) (ei_tool_call_id e) (length calls)) (pending_escalations st'))"
proof (cases "calls = []")
  case True
  then show ?thesis using assms(2) by (auto simp: invoke_all_def Let_def split: option.splits if_splits)
next
  case False
  then obtain res st1 where run: "run_batch iv envs calls order [] (st\<lparr>pending_escalations := []\<rparr>) = (Inr res, st1)"
      "rs = List.map (\<lambda>i. the (dget res i)) [0 ..< length calls]"
      "pending_escalations st' = sort_escalations calls (pending_escalations st1)"
    using assms(2) by (auto simp: invoke_all_def Let_def split: option.splits if_splits prod.splits sum.splits)
  note b = run_batch_results [OF run(1)]
  have id: "tr_tool_call_id (the (dget res i)) = tc_id (calls ! i)" if "i < length calls" for i
  proof -
    have "i \<in> set order" using that assms(1) by simp
    then obtain r where "dget res i = Some r" "tr_tool_call_id r = tc_id (calls ! i)" using b by blast
    then show ?thesis by simp
  qed
  have "List.map tr_tool_call_id rs = List.map tc_id calls"
    by (rule nth_equalityI) (simp_all add: run(2) id)
  moreover have "set (pending_escalations st') = set (pending_escalations st1)" using run(3) by (simp add: sort_escalations_def)
  moreover have "\<forall>e \<in> set (pending_escalations st1). ei_tool_call_id e \<in> tc_id ` set calls" 
  proof
    fix e assume "e \<in> set (pending_escalations st1)"
    then obtain i where "i \<in> set order" "ei_tool_call_id e = tc_id (calls ! i)" using b by auto
    then show "ei_tool_call_id e \<in> tc_id ` set calls" using assms(1) by auto
  qed
  moreover have "sorted (List.map (\<lambda>e. dget_or (call_id_order calls) (ei_tool_call_id e) (length calls)) (pending_escalations st'))"
  proof (cases "length (pending_escalations st1) > 1")
    case True
    then show ?thesis unfolding run(3) sort_escalations_def by simp
  next
    case False
    then show ?thesis unfolding run(3) sort_escalations_def by (cases "pending_escalations st1") auto
  qed
  ultimately show ?thesis by simp
qed

subsection \<open>Examples\<close>

definition mk_tool :: "string \<Rightarrow> ToolCategory \<Rightarrow> string \<Rightarrow> tool" where
  "mk_tool n c a = \<lparr>tl_name = n, tl_category = c, tl_action_type = a, tl_schema = None\<rparr>"

definition sample_registry :: tool_registry where
  "sample_registry = [(''read'', mk_tool ''read'' FILE_SYSTEM ''code:read''), (''deploy'', mk_tool ''deploy'' DEPLOYMENT ''deploy:staging''),
     (''git_push'', mk_tool ''git_push'' VERSION_CONTROL ''vcs:push'')]"

definition sample_invoker :: "ToolAccessLevel \<Rightarrow> invoker" where
  "sample_invoker l = \<lparr>inv_registry = sample_registry, inv_checker = Some (ToolPermissionChecker l [''deploy'', ''git_push''] [] None),
     inv_security = Some sample_security, inv_patterns = [key_pattern], inv_agent_id = Some ''dev'', inv_task_id = None, inv_sanitize = id\<rparr>"

definition sample_call_env :: "string + ToolExecutionResult \<Rightarrow> call_env" where
  "sample_call_env x = \<lparr>ce_gate = sample_gate_env, ce_copy_error = None, ce_execute = (\<lambda>_ _. x), ce_record_fails = False\<rparr>"

definition sample_output :: "string \<Rightarrow> ToolExecutionResult" where
  "sample_output s = \<lparr>er_content = s, er_is_error = False, er_metadata = []\<rparr>"

definition sample_state :: invoker_state where
  "sample_state = \<lparr>is_gate = sample_gate, pending_escalations = [], executed = [], tracked = None\<rparr>"

definition tool_call :: "string \<Rightarrow> string \<Rightarrow> ToolCall" where
  "tool_call k n = \<lparr>tc_id = k, tc_name = n, tc_arguments = [(''path'', StrArg ''a.py'')]\<rparr>"

lemma sample_checker: "inv_checker (sample_invoker l) = Some (ToolPermissionChecker l [''deploy'', ''git_push''] [] None)"
  "inv_security (sample_invoker l) = Some sample_security" "ce_copy_error (sample_call_env x) = None"
  "ge_engine (ce_gate (sample_call_env x)) = (\<lambda>c. Inr (engine_evaluate sample_clock (build_rule_engine sample_patterns 0 sample_security) c))"
  by (simp_all add: sample_invoker_def sample_call_env_def sample_gate_env_def)

lemma sample_mode: "sc_enabled sample_security" "sc_enforcement_mode sample_security = ACTIVE_MODE"
  by (simp_all add: sample_security_def)

lemma sample_runs:
  "executed (snd (invoke_single (sample_invoker RESTRICTED) (sample_call_env (Inr (sample_output ''ok''))) (tool_call ''c1'' ''read'') sample_state)) \<noteq> []"
  by code_simp

theorem tool_runs_only_if_cleared_witness:
  "executed (snd (invoke_single (sample_invoker RESTRICTED) (sample_call_env (Inr (sample_output ''ok''))) (tool_call ''c1'' ''read'') sample_state)) =
     [(''read'', [(''path'', StrArg ''a.py'')])] \<and>
   tl_action_type (the (dget (inv_registry (sample_invoker RESTRICTED)) ''read'')) \<notin> set (sc_hard_deny sample_security)"
proof -
  let ?env = "sample_call_env (Inr (sample_output ''ok''))"
  obtain r st' where run: "invoke_single (sample_invoker RESTRICTED) ?env (tool_call ''c1'' ''read'') sample_state = (r, st')" by (rule prod.exhaust)
  have ne: "executed st' \<noteq> executed sample_state" using sample_runs run by (simp add: sample_state_def)
  from tool_runs_only_if_cleared [OF run ne] obtain t where t: "dget (inv_registry (sample_invoker RESTRICTED)) ''read'' = Some t"
      "executed st' = executed sample_state @ [(tl_name t, tc_arguments (tool_call ''c1'' ''read''))]"
      "tl_action_type t \<notin> set (sc_hard_deny sample_security)"
    using sample_checker(2) [of RESTRICTED] sample_security_valid sample_mode sample_checker(4) by (auto simp: tool_call_def)
  then show ?thesis using run by (auto simp: sample_invoker_def sample_registry_def mk_tool_def tool_call_def sample_state_def)
qed

lemma sample_sub:
  "lookup_tool (sample_invoker RESTRICTED) (tool_call ''c1'' ''deploy'') = Inr (mk_tool ''deploy'' DEPLOYMENT ''deploy:staging'')"
  by (simp add: lookup_tool_def sample_invoker_def tool_call_def sample_registry_def)

theorem sub_constraint_escalation_unstored_witness:
  "\<exists>res st' e. invoke_single (sample_invoker RESTRICTED) (sample_call_env (Inr (sample_output ''ok''))) (tool_call ''c1'' ''deploy'') sample_state = (Inr res, st') \<and>
     is_gate st' = is_gate sample_state \<and> pending_escalations st' = [e] \<and> ei_approval_id e = ''sub-constraint-c1''"
proof -
  let ?iv = "sample_invoker RESTRICTED" and ?call = "tool_call ''c1'' ''deploy''" and ?t = "mk_tool ''deploy'' DEPLOYMENT ''deploy:staging''"
  let ?env = "sample_call_env (Inr (sample_output ''ok''))"
  let ?pc = "ToolPermissionChecker RESTRICTED [''deploy'', ''git_push''] [] None"
  have perm: "check_permission ?iv ?t ?call = None" by code_simp
  have viol: "(case check_sub_constraints ?pc (tl_name ?t) (tl_category ?t) (tl_action_type ?t) of Some v \<Rightarrow> viol_requires_approval v | None \<Rightarrow> False)"
    by code_simp
  then obtain v where v: "check_sub_constraints ?pc (tl_name ?t) (tl_category ?t) (tl_action_type ?t) = Some v" "viol_requires_approval v"
    by (auto split: option.splits)
  have "case invoke_single ?iv ?env ?call sample_state of (Inr r, _) \<Rightarrow> True | _ \<Rightarrow> False" by code_simp
  then obtain res st' where run: "invoke_single ?iv ?env ?call sample_state = (Inr res, st')" by (auto split: prod.splits sum.splits)
  from sub_constraint_escalation_unstored [OF sample_sub perm sample_checker(1) sample_checker(3) v run] run show ?thesis
    by (auto simp: sample_state_def tool_call_def)
qed

theorem exception_text_unscanned_witness:
  "tr_content (fst (finish_call (sample_invoker STANDARD) (sample_call_env (Inl ''AKIA1'')) (mk_tool ''read'' FILE_SYSTEM ''code:read'')
     (tool_call ''c1'' ''read'') None sample_state)) = ''AKIA1'' @ '' (tool='' @ py_repr ''read'' @ '')''"
proof -
  let ?env = "sample_call_env (Inl ''AKIA1'')"
  have x: "ce_execute ?env (tl_name (mk_tool ''read'' FILE_SYSTEM ''code:read'')) (tc_arguments (tool_call ''c1'' ''read'')) = Inl ''AKIA1''"
    by (simp add: sample_call_env_def)
  from exception_text_unscanned [OF sample_checker(3) x] show ?thesis by (simp add: tool_call_def)
qed

theorem sandbox_holds_witness:
  "executed (snd (invoke (sample_invoker SANDBOXED) (sample_call_env (Inr (sample_output ''ok''))) (tool_call ''c1'' ''git_push'') sample_state)) = []"
proof -
  have g: "dget (inv_registry (sample_invoker SANDBOXED)) (tc_name (tool_call ''c1'' ''git_push'')) = Some (mk_tool ''git_push'' VERSION_CONTROL ''vcs:push'')"
    by (simp add: sample_invoker_def tool_call_def sample_registry_def)
  from sandbox_holds [OF sample_checker(1) _ g] show ?thesis by (simp add: mk_tool_def sample_state_def)
qed

theorem batch_results_aligned_witness:
  "\<exists>rs st'. invoke_all (sample_invoker RESTRICTED) (\<lambda>_. sample_call_env (Inr (sample_output ''ok''))) None [1, 0]
     [tool_call ''c1'' ''read'', tool_call ''c2'' ''deploy''] sample_state = (Inr rs, st') \<and> List.map tr_tool_call_id rs = [''c1'', ''c2'']"
proof -
  let ?calls = "[tool_call ''c1'' ''read'', tool_call ''c2'' ''deploy'']"
  have "case invoke_all (sample_invoker RESTRICTED) (\<lambda>_. sample_call_env (Inr (sample_output ''ok''))) None [1, 0] ?calls sample_state of
      (Inr r, _) \<Rightarrow> True | _ \<Rightarrow> False" by code_simp
  then obtain rs st' where run: "invoke_all (sample_invoker RESTRICTED) (\<lambda>_. sample_call_env (Inr (sample_output ''ok''))) None [1, 0] ?calls sample_state
      = (Inr rs, st')" by (auto split: prod.splits sum.splits)
  have "set [1, 0] = {..< length ?calls}" by auto
  from batch_results_aligned [OF this run] run show ?thesis by (simp add: tool_call_def)
qed

theorem flagged_output_withheld_witness:
  "\<exists>res st'. finish_call (sample_invoker STANDARD) (sample_call_env (Inr (sample_output ''AKIA1''))) (mk_tool ''read'' FILE_SYSTEM ''code:read'')
     (tool_call ''c1'' ''read'') (Some (clean_call ''code:write'')) sample_state = (res, st') \<and> tr_content res \<noteq> ''AKIA1''"
proof -
  let ?iv = "sample_invoker STANDARD" and ?env = "sample_call_env (Inr (sample_output ''AKIA1''))" and ?cx = "clean_call ''code:write''"
  let ?t = "mk_tool ''read'' FILE_SYSTEM ''code:read''" and ?call = "tool_call ''c1'' ''read''"
  have x: "ce_execute ?env (tl_name ?t) (tc_arguments ?call) = Inr (sample_output ''AKIA1'')" by (simp add: sample_call_env_def)
  have m: "dget (er_metadata (sample_output ''AKIA1'')) ''requires_parking'' = None" by (simp add: sample_output_def)
  obtain s g where s: "scan_output sample_security (ce_gate ?env) (inv_patterns ?iv) ?cx
      (er_content (apply_html_guard ?iv (sample_output ''AKIA1''))) (is_gate sample_state) = (s, g)" by (rule prod.exhaust)
  have "case fst (scan_output sample_security (ce_gate ?env) (inv_patterns ?iv) ?cx (er_content (apply_html_guard ?iv (sample_output ''AKIA1'')))
      (is_gate sample_state)) of Inr r \<Rightarrow> has_sensitive_data r \<and> redacted_content r \<noteq> Some ''AKIA1'' | Inl _ \<Rightarrow> False" by code_simp
  then have sens: "\<forall>r. s = Inr r \<longrightarrow> has_sensitive_data r" and red: "\<forall>r. s = Inr r \<longrightarrow> redacted_content r \<noteq> Some ''AKIA1''"
    using s by (auto split: sum.splits)
  obtain res st' where run: "finish_call ?iv ?env ?t ?call (Some ?cx) sample_state = (res, st')" by (rule prod.exhaust)
  from flagged_output_withheld [OF sample_checker(3) x sample_checker(2) m refl s sens run] red have "tr_content res \<noteq> ''AKIA1''" by auto
  then show ?thesis using run by blast
qed

end
