(* ===== verification/Conflict_Resolution.thy ===== *)
theory Conflict_Resolution
  imports Autonomy
begin

text \<open>
  Conflicts between agents (\<^verbatim>\<open>communication/conflict_resolution/\<close>): the conflict, resolution and dissent models
  with their validators, the helpers, and the strategies that decide by authority and by debate. Both
  strategies ask the hierarchy resolver of \<open>Hierarchy\<close>, whose walks are partial: an outer \<open>None\<close> is a walk
  that does not end (it ends on every constructed resolver).

  A judge is a parameter: what its evaluation returns or raises. Identifiers and clock readings are
  arguments; log calls are left out.
\<close>

subsection \<open>Models\<close>

datatype ConflictType = ARCHITECTURE | IMPLEMENTATION | PRIORITY | RESOURCE | PROCESS | OTHER_CONFLICT

datatype ConflictResolutionStrategy = AUTHORITY | DEBATE | HUMAN | HYBRID

datatype ConflictResolutionOutcome = RESOLVED_BY_AUTHORITY | RESOLVED_BY_DEBATE | RESOLVED_BY_HYBRID
  | RESOLVED_BY_HUMAN | REJECTED_BY_HUMAN | ESCALATED_TO_HUMAN

record ConflictPosition =
  cp_agent_id :: agent
  cp_department :: string
  cp_level :: SeniorityLevel
  cp_position :: string
  cp_reasoning :: string
  cp_timestamp :: time

record Conflict =
  cf_id :: string
  cf_type :: ConflictType
  cf_task_id :: "string option"
  cf_subject :: string
  cf_positions :: "ConflictPosition list"
  cf_detected_at :: time

record ConflictResolution =
  cr_conflict_id :: string
  cr_outcome :: ConflictResolutionOutcome
  cr_winning_agent_id :: "agent option"
  cr_winning_position :: "string option"
  cr_decided_by :: string
  cr_reasoning :: string
  cr_resolved_at :: time

record DissentRecord =
  dr_id :: string
  dr_conflict :: Conflict
  dr_resolution :: ConflictResolution
  dr_agent_id :: agent
  dr_position :: string
  dr_strategy :: ConflictResolutionStrategy
  dr_timestamp :: time
  dr_metadata :: "(string \<times> string) list"

datatype hierarchy_problem = NoCommonManager agent agent | Unreachable agent agent | NoSharedManager "agent list"

datatype strategy_problem = WinnerNotFound "agent option" | NoLosingPosition | AgentNotFound agent

datatype conflict_problem = BlankField | TooFewPositions | DuplicateAgent | WinnerForbidden | PositionForbidden
  | WinnerRequired | PositionRequired | DissenterUnknown | OtherConflict | DissenterWon | NotAWinnerDecision | WinnerNotInConflict

text \<open>
  \<open>Invalid\<close> is a pydantic \<open>ValidationError\<close> or another \<open>ValueError\<close>; a judge may raise an ordinary
  exception or one of the two that are never caught.
\<close>

datatype conflict_error = Invalid conflict_problem | ConflictResolutionError conflict_problem
  | ConflictStrategyError strategy_problem | ConflictHierarchyError hierarchy_problem | NoResolver ConflictResolutionStrategy
  | JudgeError | JudgeFatal | IndexError

definition position_fields :: "ConflictPosition \<Rightarrow> bool" where
  "position_fields p \<longleftrightarrow> not_blank (cp_agent_id p) \<and> not_blank (cp_department p) \<and> not_blank (cp_position p) \<and>
     not_blank (cp_reasoning p)"

definition is_cross_department :: "Conflict \<Rightarrow> bool" where
  "is_cross_department c \<longleftrightarrow> card (set (List.map cp_department (cf_positions c))) > 1"

definition validate_positions :: "ConflictPosition list \<Rightarrow> conflict_problem option" where
  "validate_positions ps = first_error
     [(length ps < 2, TooFewPositions), (\<not> distinct (List.map cp_agent_id ps), DuplicateAgent)]"

definition Conflict_check :: "Conflict \<Rightarrow> conflict_problem option" where
  "Conflict_check c =
     (if \<not> (not_blank (cf_id c) \<and> opt_not_blank (cf_task_id c) \<and> not_blank (cf_subject c) \<and> list_all position_fields (cf_positions c))
      then Some BlankField else validate_positions (cf_positions c))"

definition valid_conflict :: "Conflict \<Rightarrow> bool" where
  "valid_conflict c \<longleftrightarrow> Conflict_check c = None"

definition no_winner_outcome :: "ConflictResolutionOutcome \<Rightarrow> bool" where
  "no_winner_outcome out \<longleftrightarrow> out = ESCALATED_TO_HUMAN \<or> out = REJECTED_BY_HUMAN"

definition validate_outcome_consistency :: "ConflictResolution \<Rightarrow> conflict_problem option" where
  "validate_outcome_consistency r =
     (if no_winner_outcome (cr_outcome r)
      then first_error [(cr_winning_agent_id r \<noteq> None, WinnerForbidden), (cr_winning_position r \<noteq> None, PositionForbidden)]
      else first_error [(cr_winning_agent_id r = None, WinnerRequired), (cr_winning_position r = None, PositionRequired)])"

definition resolution_check :: "ConflictResolution \<Rightarrow> conflict_problem option" where
  "resolution_check r =
     (if \<not> (not_blank (cr_conflict_id r) \<and> opt_not_blank (cr_winning_agent_id r) \<and> opt_not_blank (cr_winning_position r) \<and>
            not_blank (cr_decided_by r) \<and> not_blank (cr_reasoning r))
      then Some BlankField else validate_outcome_consistency r)"

definition valid_resolution :: "ConflictResolution \<Rightarrow> bool" where
  "valid_resolution r \<longleftrightarrow> resolution_check r = None"

text \<open>Construction of a resolution: the validated model or the validation error.\<close>

definition make_resolution :: "ConflictResolution \<Rightarrow> conflict_error + ConflictResolution" where
  "make_resolution r = (case resolution_check r of None \<Rightarrow> Inr r | Some e \<Rightarrow> Inl (Invalid e))"

definition validate_dissent_consistency :: "DissentRecord \<Rightarrow> conflict_problem option" where
  "validate_dissent_consistency d = first_error
     [(dr_agent_id d \<notin> set (List.map cp_agent_id (cf_positions (dr_conflict d))), DissenterUnknown),
      (cr_conflict_id (dr_resolution d) \<noteq> cf_id (dr_conflict d), OtherConflict),
      (\<not> no_winner_outcome (cr_outcome (dr_resolution d)) \<and> Some (dr_agent_id d) = cr_winning_agent_id (dr_resolution d), DissenterWon)]"

definition dissent_check :: "DissentRecord \<Rightarrow> conflict_problem option" where
  "dissent_check d =
     (if \<not> (not_blank (dr_id d) \<and> not_blank (dr_agent_id d) \<and> not_blank (dr_position d) \<and>
            list_all (\<lambda>(k, v). not_blank k \<and> not_blank v) (dr_metadata d))
      then Some BlankField else validate_dissent_consistency d)"

definition make_dissent :: "DissentRecord \<Rightarrow> conflict_error + DissentRecord" where
  "make_dissent d = (case dissent_check d of None \<Rightarrow> Inr d | Some e \<Rightarrow> Inl (Invalid e))"

subsection \<open>Helpers\<close>

definition find_losers :: "Conflict \<Rightarrow> ConflictResolution \<Rightarrow> conflict_error + ConflictPosition list" where
  "find_losers c r =
     (if cr_winning_agent_id r \<notin> Some ` set (List.map cp_agent_id (cf_positions c))
      then Inl (ConflictStrategyError (WinnerNotFound (cr_winning_agent_id r)))
      else let losers = filter (\<lambda>p. Some (cp_agent_id p) \<noteq> cr_winning_agent_id r) (cf_positions c) in
        if losers = [] then Inl (ConflictStrategyError NoLosingPosition) else Inr losers)"

definition find_position :: "Conflict \<Rightarrow> agent \<Rightarrow> ConflictPosition option" where
  "find_position c a = List.find (\<lambda>p. cp_agent_id p = a) (cf_positions c)"

definition find_position_or_raise :: "Conflict \<Rightarrow> agent \<Rightarrow> conflict_error + ConflictPosition" where
  "find_position_or_raise c a =
     (case find_position c a of Some p \<Rightarrow> Inr p | None \<Rightarrow> Inl (ConflictStrategyError (AgentNotFound a)))"

definition hierarchy_tiebreak :: "charts \<Rightarrow> ConflictPosition \<Rightarrow> ConflictPosition \<Rightarrow> ConflictPosition option" where
  "hierarchy_tiebreak h incumbent challenger =
     Option.bind (get_ancestors h (cp_agent_id incumbent)) (\<lambda>ai.
     Option.bind (get_ancestors h (cp_agent_id challenger)) (\<lambda>ac.
       Some (if length ac < length ai then challenger else incumbent)))"

fun seniority_loop :: "charts option \<Rightarrow> ConflictPosition \<Rightarrow> ConflictPosition list \<Rightarrow> ConflictPosition option" where
  "seniority_loop hierarchy best [] = Some best"
| "seniority_loop hierarchy best (p # ps) =
     (let cmp = compare_seniority (cp_level p) (cp_level best) in
      if cmp > 0 then seniority_loop hierarchy p ps
      else case hierarchy of
             Some h \<Rightarrow>
               if cmp = 0 then Option.bind (hierarchy_tiebreak h best p) (\<lambda>b. seniority_loop hierarchy b ps)
               else seniority_loop hierarchy best ps
           | None \<Rightarrow> seniority_loop hierarchy best ps)"

definition pick_highest_seniority :: "charts option \<Rightarrow> Conflict \<Rightarrow> (conflict_error + ConflictPosition) option" where
  "pick_highest_seniority hierarchy c =
     (case cf_positions c of
        [] \<Rightarrow> Some (Inl IndexError)
      | p # ps \<Rightarrow> map_option Inr (seniority_loop hierarchy p ps))"

text \<open>
  The records of a strategy, one per given position. \<open>draws i\<close> is the identifier and the clock reading
  of the \<open>i\<close>-th record.
\<close>

definition dissent_of ::
  "string \<times> time \<Rightarrow> ConflictResolutionStrategy \<Rightarrow> (string \<times> string) list \<Rightarrow> Conflict \<Rightarrow> ConflictResolution
   \<Rightarrow> ConflictPosition \<Rightarrow> DissentRecord" where
  "dissent_of draw strategy meta c r p =
     \<lparr>dr_id = ''dissent-'' @ fst draw, dr_conflict = c, dr_resolution = r, dr_agent_id = cp_agent_id p,
      dr_position = cp_position p, dr_strategy = strategy, dr_timestamp = snd draw, dr_metadata = meta\<rparr>"

fun make_dissents ::
  "(nat \<Rightarrow> string \<times> time) \<Rightarrow> ConflictResolutionStrategy \<Rightarrow> (string \<times> string) list \<Rightarrow> Conflict \<Rightarrow> ConflictResolution
   \<Rightarrow> nat \<Rightarrow> ConflictPosition list \<Rightarrow> conflict_error + DissentRecord list" where
  "make_dissents draws strategy meta c r i [] = Inr []"
| "make_dissents draws strategy meta c r i (p # ps) =
     rbind (make_dissent (dissent_of (draws i) strategy meta c r p)) (\<lambda>d.
     rbind (make_dissents draws strategy meta c r (Suc i) ps) (\<lambda>ds. Inr (d # ds)))"

subsection \<open>Authority\<close>

definition seniority_value :: "SeniorityLevel \<Rightarrow> string" where
  "seniority_value l = (case l of JUNIOR \<Rightarrow> ''junior'' | MID \<Rightarrow> ''mid'' | SENIOR \<Rightarrow> ''senior'' | LEAD \<Rightarrow> ''lead''
     | PRINCIPAL \<Rightarrow> ''principal'' | DIRECTOR \<Rightarrow> ''director'' | VP \<Rightarrow> ''vp'' | C_SUITE \<Rightarrow> ''c_suite'')"

definition agent_and_level :: "ConflictPosition \<Rightarrow> string" where
  "agent_and_level p = cp_agent_id p @ '' ('' @ seniority_value (cp_level p) @ '')''"

definition resolve_depth :: "charts \<Rightarrow> agent \<Rightarrow> ConflictPosition \<Rightarrow> (conflict_error + int) option" where
  "resolve_depth h mgr p =
     Option.bind (get_delegation_depth h mgr (cp_agent_id p)) (\<lambda>depth.
       Some (case depth of
               Some n \<Rightarrow> Inr n
             | None \<Rightarrow> if cp_agent_id p = mgr then Inr 0
                       else Inl (ConflictHierarchyError (Unreachable (cp_agent_id p) mgr))))"

definition resolve_by_hierarchy ::
  "charts \<Rightarrow> ConflictPosition \<Rightarrow> ConflictPosition \<Rightarrow> (conflict_error + ConflictPosition \<times> ConflictPosition) option" where
  "resolve_by_hierarchy h pos_a pos_b =
     Option.bind (get_lowest_common_manager h (cp_agent_id pos_a) (cp_agent_id pos_b)) (\<lambda>found.
       case found of
         None \<Rightarrow> Some (Inl (ConflictHierarchyError (NoCommonManager (cp_agent_id pos_a) (cp_agent_id pos_b))))
       | Some mgr \<Rightarrow>
           Option.bind (resolve_depth h mgr pos_a) (\<lambda>da.
           Option.bind (resolve_depth h mgr pos_b) (\<lambda>db.
             Some (rbind da (\<lambda>depth_a. rbind db (\<lambda>depth_b.
               Inr (if depth_a \<le> depth_b then (pos_a, pos_b) else (pos_b, pos_a))))))))"

fun winner_loop :: "charts \<Rightarrow> ConflictPosition \<Rightarrow> ConflictPosition list \<Rightarrow> (conflict_error + ConflictPosition) option" where
  "winner_loop h best [] = Some (Inr best)"
| "winner_loop h best (p # ps) =
     (let cmp = compare_seniority (cp_level p) (cp_level best) in
      if cmp > 0 then winner_loop h p ps
      else if cmp = 0 then
        Option.bind (resolve_by_hierarchy h best p) (\<lambda>r.
          case r of Inl e \<Rightarrow> Some (Inl e) | Inr (winner, _) \<Rightarrow> winner_loop h winner ps)
      else winner_loop h best ps)"

definition pick_winner :: "charts \<Rightarrow> Conflict \<Rightarrow> (conflict_error + ConflictPosition) option" where
  "pick_winner h c = (case cf_positions c of [] \<Rightarrow> Some (Inl IndexError) | p # ps \<Rightarrow> winner_loop h p ps)"

definition authority_resolution :: "time \<Rightarrow> Conflict \<Rightarrow> ConflictPosition \<Rightarrow> ConflictResolution" where
  "authority_resolution now c winner =
     \<lparr>cr_conflict_id = cf_id c, cr_outcome = RESOLVED_BY_AUTHORITY, cr_winning_agent_id = Some (cp_agent_id winner),
      cr_winning_position = Some (cp_position winner), cr_decided_by = cp_agent_id winner,
      cr_reasoning = ''Authority decision: '' @ agent_and_level winner @ '' outranks '' @
        py_join '', '' (List.map agent_and_level (filter (\<lambda>p. cp_agent_id p \<noteq> cp_agent_id winner) (cf_positions c))),
      cr_resolved_at = now\<rparr>"

definition authority_resolve :: "charts \<Rightarrow> time \<Rightarrow> Conflict \<Rightarrow> (conflict_error + ConflictResolution) option" where
  "authority_resolve h now c =
     map_option (\<lambda>r. rbind r (\<lambda>winner. make_resolution (authority_resolution now c winner))) (pick_winner h c)"

definition authority_dissents ::
  "(nat \<Rightarrow> string \<times> time) \<Rightarrow> Conflict \<Rightarrow> ConflictResolution \<Rightarrow> conflict_error + DissentRecord list" where
  "authority_dissents draws c r = rbind (find_losers c r) (make_dissents draws AUTHORITY [] c r 0)"

subsection \<open>Debate\<close>

type_synonym judge_evaluator = "Conflict \<Rightarrow> agent \<Rightarrow> conflict_error + agent \<times> string"

fun shared_manager_loop :: "charts \<Rightarrow> agent option \<Rightarrow> ConflictPosition list \<Rightarrow> agent option option" where
  "shared_manager_loop h mgr [] = Some mgr"
| "shared_manager_loop h None (p # ps) = Some None"
| "shared_manager_loop h (Some m) (p # ps) =
     Option.bind (get_lowest_common_manager h m (cp_agent_id p)) (\<lambda>mgr. shared_manager_loop h mgr ps)"

fun ceo_loop :: "charts \<Rightarrow> ConflictPosition list \<Rightarrow> agent option option" where
  "ceo_loop h [] = Some None"
| "ceo_loop h (p # ps) = Option.bind (get_ancestors h (cp_agent_id p)) (\<lambda>ancestors.
     if ancestors \<noteq> [] then Some (Some (last ancestors)) else ceo_loop h ps)"

definition determine_judge :: "charts \<Rightarrow> string \<Rightarrow> Conflict \<Rightarrow> (conflict_error + agent) option" where
  "determine_judge h judge c =
     (if judge = ''shared_manager'' then
        (case cf_positions c of
           p # q # ps \<Rightarrow>
             Option.bind (get_lowest_common_manager h (cp_agent_id p) (cp_agent_id q)) (\<lambda>found.
             Option.bind (shared_manager_loop h found ps) (\<lambda>mgr.
               Some (case mgr of
                       None \<Rightarrow> Inl (ConflictHierarchyError (NoSharedManager (List.map cp_agent_id (cf_positions c))))
                     | Some m \<Rightarrow> Inr m)))
         | _ \<Rightarrow> Some (Inl IndexError))
      else if judge = ''ceo'' then
        Option.bind (ceo_loop h (cf_positions c)) (\<lambda>root.
          Some (case root of
                  Some r \<Rightarrow> Inr r
                | None \<Rightarrow> (case cf_positions c of [] \<Rightarrow> Inl IndexError | p # _ \<Rightarrow> Inr (cp_agent_id p))))
      else Some (Inr judge))"

definition fallback_decision :: "string \<Rightarrow> ConflictPosition \<Rightarrow> agent \<times> string" where
  "fallback_decision note best =
     (cp_agent_id best, ''Debate fallback: authority-based judging'' @ note @ '' -- '' @ agent_and_level best @ '' has highest seniority'')"

definition authority_fallback :: "charts \<Rightarrow> Conflict \<Rightarrow> (conflict_error + agent \<times> string) option" where
  "authority_fallback h c =
     map_option (\<lambda>r. rbind r (\<lambda>best. Inr (fallback_decision [] best))) (pick_highest_seniority (Some h) c)"

text \<open>The fallback of a failed evaluation has a second fallback, without the hierarchy.\<close>

definition debate_decision :: "charts \<Rightarrow> judge_evaluator option \<Rightarrow> agent \<Rightarrow> Conflict \<Rightarrow> (conflict_error + agent \<times> string) option" where
  "debate_decision h evaluator judge_id c =
     (case evaluator of
        None \<Rightarrow> authority_fallback h c
      | Some evaluate \<Rightarrow>
         (case evaluate c judge_id of
            Inr decision \<Rightarrow> Some (Inr decision)
          | Inl e \<Rightarrow>
             if e = JudgeFatal then Some (Inl e)
             else Option.bind (authority_fallback h c) (\<lambda>r.
               case r of
                 Inl (ConflictHierarchyError _) \<Rightarrow>
                   map_option (\<lambda>r. rbind r (\<lambda>best. Inr (fallback_decision '' (no hierarchy)'' best))) (pick_highest_seniority None c)
               | _ \<Rightarrow> Some r)))"

definition debate_resolution :: "time \<Rightarrow> Conflict \<Rightarrow> agent \<Rightarrow> ConflictPosition \<Rightarrow> string \<Rightarrow> ConflictResolution" where
  "debate_resolution now c judge_id winning_pos reasoning =
     \<lparr>cr_conflict_id = cf_id c, cr_outcome = RESOLVED_BY_DEBATE, cr_winning_agent_id = Some (cp_agent_id winning_pos),
      cr_winning_position = Some (cp_position winning_pos), cr_decided_by = judge_id, cr_reasoning = reasoning, cr_resolved_at = now\<rparr>"

definition debate_resolve ::
  "charts \<Rightarrow> string \<Rightarrow> judge_evaluator option \<Rightarrow> time \<Rightarrow> Conflict \<Rightarrow> (conflict_error + ConflictResolution) option" where
  "debate_resolve h judge evaluator now c =
     Option.bind (determine_judge h judge c) (\<lambda>j.
       case j of
         Inl e \<Rightarrow> Some (Inl e)
       | Inr judge_id \<Rightarrow>
           map_option (\<lambda>d. rbind d (\<lambda>(winning_agent_id, reasoning).
               rbind (find_position_or_raise c winning_agent_id) (\<lambda>winning_pos.
                 make_resolution (debate_resolution now c judge_id winning_pos reasoning))))
             (debate_decision h evaluator judge_id c))"

definition debate_dissents ::
  "(nat \<Rightarrow> string \<times> time) \<Rightarrow> Conflict \<Rightarrow> ConflictResolution \<Rightarrow> conflict_error + DissentRecord list" where
  "debate_dissents draws c r =
     rbind (find_losers c r) (make_dissents draws DEBATE [(''judge'', cr_decided_by r)] c r 0)"

declare ancestors_loop.simps [code] depth_loop.simps [code]

subsection \<open>Depth in the chart\<close>

definition chart_depth :: "charts \<Rightarrow> agent \<Rightarrow> nat" where
  "chart_depth h a = (case get_ancestors h a of None \<Rightarrow> 0 | Some l \<Rightarrow> length l)"

lemma ancestors_loop_shift:
  assumes "wf ((up (supervisor_of h))\<inverse>)"
  shows "ancestors_loop h acc a = map_option ((@) acc) (ancestors_loop h [] a)"
  using assms
proof (induction a arbitrary: acc rule: wf_induct_rule)
  case (less a)
  show ?case
  proof (cases "dget (supervisor_of h) a")
    case (Some c)
    then show ?thesis
      using less [of c "acc @ [c]"] less [of c "[c]"]
      by (simp add: ancestors_loop.simps [of h _ a] option.map_comp comp_def)
  qed (simp add: ancestors_loop.simps [of h _ a])
qed

lemma chart_depth_step:
  assumes "wf ((up (supervisor_of h))\<inverse>)" and "dget (supervisor_of h) a = Some m"
  shows "chart_depth h a = Suc (chart_depth h m)"
proof -
  obtain l where "get_ancestors h m = Some l" using get_ancestors_eq [OF assms(1)] by blast
  then show ?thesis
    using assms(2) ancestors_loop_shift [OF assms(1), of "[m]" m]
    by (simp add: chart_depth_def get_ancestors_def ancestors_loop.simps [of h "[]" a])
qed

lemma chart_depth_relpow:
  assumes "wf ((up (supervisor_of h))\<inverse>)"
  shows "(a, m) \<in> up (supervisor_of h) ^^ k \<Longrightarrow> chart_depth h a = k + chart_depth h m"
proof (induction k arbitrary: a)
  case (Suc k)
  then obtain c where "dget (supervisor_of h) a = Some c" "(c, m) \<in> up (supervisor_of h) ^^ k"
    by (auto simp: relpow_commute [symmetric])
  then show ?case using Suc.IH chart_depth_step [OF assms] by simp
qed simp

lemma resolve_depth_eq:
  assumes wf: "wf ((up (supervisor_of h))\<inverse>)" and above: "(cp_agent_id p, m) \<in> (up (supervisor_of h))\<^sup>*"
  shows "resolve_depth h m p = Some (Inr (int (chart_depth h (cp_agent_id p)) - int (chart_depth h m)))"
proof -
  obtain k where k: "(cp_agent_id p, m) \<in> up (supervisor_of h) ^^ k" using above by (auto simp: rtrancl_power)
  have diff: "int (chart_depth h (cp_agent_id p)) - int (chart_depth h m) = int k"
    using chart_depth_relpow [OF wf k] by simp
  obtain r where r: "get_delegation_depth h m (cp_agent_id p) = Some r"
    "\<And>n. r = Some n \<longleftrightarrow> 0 < n \<and> (cp_agent_id p, m) \<in> up (supervisor_of h) ^^ nat n"
    using depth_loop_eq [OF wf, of m 0 "cp_agent_id p"] by (auto simp: get_delegation_depth_def)
  show ?thesis
  proof (cases k)
    case 0
    then have self: "cp_agent_id p = m" using k by simp
    then have "r \<noteq> Some n" for n using r(2) [of n] relpow_self [OF wf, of m "nat n"] by simp
    then have "r = None" by (cases r) auto
    then show ?thesis using self r(1) diff 0 by (simp add: resolve_depth_def)
  next
    case (Suc j)
    then have "0 < k" by simp
    then have "r = Some (int k)" using r(2) [of "int k"] k by (simp del: relpow.simps)
    then show ?thesis using r(1) diff by (simp add: resolve_depth_def)
  qed
qed

text \<open>
  Breaking a tie through the lowest common manager is comparing the depth in the chart.
\<close>

lemma resolve_by_hierarchy_eq:
  assumes wf: "wf ((up (supervisor_of h))\<inverse>)" and ne: "cp_agent_id a \<noteq> cp_agent_id b"
  shows "resolve_by_hierarchy h a b = Some
    (if common_managers h (cp_agent_id a) (cp_agent_id b) = {}
     then Inl (ConflictHierarchyError (NoCommonManager (cp_agent_id a) (cp_agent_id b)))
     else Inr (if chart_depth h (cp_agent_id a) \<le> chart_depth h (cp_agent_id b) then (a, b) else (b, a)))"
proof -
  obtain r where r: "get_lowest_common_manager h (cp_agent_id a) (cp_agent_id b) = Some r"
    "r = None \<longleftrightarrow> common_managers h (cp_agent_id a) (cp_agent_id b) = {}"
    "\<And>m. r = Some m \<Longrightarrow> m \<in> common_managers h (cp_agent_id a) (cp_agent_id b)"
    using lowest_common_manager_cases [OF wf ne] by blast
  show ?thesis
  proof (cases r)
    case None
    then show ?thesis using r by (simp add: resolve_by_hierarchy_def)
  next
    case (Some m)
    then have "(cp_agent_id a, m) \<in> (up (supervisor_of h))\<^sup>*" "(cp_agent_id b, m) \<in> (up (supervisor_of h))\<^sup>*"
      using r(3) by (auto simp: common_managers_def)
    then show ?thesis using r Some by (simp add: resolve_by_hierarchy_def resolve_depth_eq [OF wf])
  qed
qed

lemma hierarchy_tiebreak_eq:
  assumes "wf ((up (supervisor_of h))\<inverse>)"
  shows "hierarchy_tiebreak h a b =
    Some (if chart_depth h (cp_agent_id b) < chart_depth h (cp_agent_id a) then b else a)"
proof -
  obtain as bs where "get_ancestors h (cp_agent_id a) = Some as" "get_ancestors h (cp_agent_id b) = Some bs"
    using get_ancestors_eq [OF assms] by metis
  then show ?thesis by (simp add: hierarchy_tiebreak_def chart_depth_def)
qed

subsection \<open>The reference: least rank first, least depth second\<close>

text \<open>
  \<open>arg_min_list\<close> chooses the first element with a minimal key; the loops of the strategies keep the
  incumbent unless the challenger's key is strictly smaller.
\<close>

definition authority_key :: "charts \<Rightarrow> ConflictPosition \<Rightarrow> int \<times> nat" where
  "authority_key h p = (- SENIORITY_RANK (cp_level p), chart_depth h (cp_agent_id p))"

fun keep_best :: "('a \<Rightarrow> 'k::linorder) \<Rightarrow> 'a \<Rightarrow> 'a list \<Rightarrow> 'a" where
  "keep_best f best [] = best"
| "keep_best f best (x # xs) = keep_best f (if f x < f best then x else best) xs"

lemma arg_min_list_Cons2:
  "arg_min_list f (x # y # zs) = arg_min_list f ((if f y < f x then y else x) # zs)"
  by (cases zs) (auto simp: Let_def not_less intro: order_trans)

lemma keep_best_arg_min: "keep_best f x xs = arg_min_list f (x # xs)"
proof (induction xs arbitrary: x)
  case (Cons y ys)
  then show ?case by (simp add: arg_min_list_Cons2 del: arg_min_list.simps(2))
qed simp

lemma authority_key_less:
  "authority_key h p < authority_key h q \<longleftrightarrow>
     compare_seniority (cp_level p) (cp_level q) > 0 \<or>
     compare_seniority (cp_level p) (cp_level q) = 0 \<and> chart_depth h (cp_agent_id p) < chart_depth h (cp_agent_id q)"
  by (auto simp: authority_key_def compare_seniority_def)

lemma seniority_loop_hierarchy:
  assumes "wf ((up (supervisor_of h))\<inverse>)"
  shows "seniority_loop (Some h) best ps = Some (keep_best (authority_key h) best ps)"
  by (induction ps arbitrary: best) (auto simp: authority_key_less hierarchy_tiebreak_eq [OF assms] Let_def)

lemma seniority_loop_flat:
  "seniority_loop None best ps = Some (keep_best (\<lambda>p. - SENIORITY_RANK (cp_level p)) best ps)"
  by (induction ps arbitrary: best) (auto simp: compare_seniority_def Let_def)

text \<open>Two positions that authority cannot compare.\<close>

definition incomparable :: "charts \<Rightarrow> ConflictPosition \<Rightarrow> ConflictPosition \<Rightarrow> bool" where
  "incomparable h a b \<longleftrightarrow> cp_level a = cp_level b \<and> common_managers h (cp_agent_id a) (cp_agent_id b) = {}"

lemma compare_seniority_0 [simp]: "compare_seniority a b = 0 \<longleftrightarrow> a = b"
  by (cases a; cases b) (simp_all add: compare_seniority_def SENIORITY_RANK_def)

lemma compare_seniority_refl [simp]: "compare_seniority a a = 0"
  by simp

definition authority_answer :: "charts \<Rightarrow> ConflictPosition \<Rightarrow> ConflictPosition list \<Rightarrow> conflict_error + ConflictPosition \<Rightarrow> bool" where
  "authority_answer h best ps r \<longleftrightarrow>
     (case r of
        Inr w \<Rightarrow> w = keep_best (authority_key h) best ps
      | Inl e \<Rightarrow> \<exists>a \<in> set (best # ps). \<exists>b \<in> set ps. cp_agent_id a \<noteq> cp_agent_id b \<and> incomparable h a b \<and>
                  e = ConflictHierarchyError (NoCommonManager (cp_agent_id a) (cp_agent_id b)))"

lemma authority_answer_Cons:
  "authority_answer h (if authority_key h p < authority_key h best then p else best) ps r \<Longrightarrow>
   authority_answer h best (p # ps) r"
  by (auto simp: authority_answer_def split: sum.splits if_splits)

lemma winner_loop_answer:
  assumes wf: "wf ((up (supervisor_of h))\<inverse>)"
  shows "distinct (List.map cp_agent_id (best # ps)) \<Longrightarrow>
    \<exists>r. winner_loop h best ps = Some r \<and> authority_answer h best ps r"
proof (induction ps arbitrary: best)
  case (Cons p ps)
  let ?best = "if authority_key h p < authority_key h best then p else best"
  have "distinct (List.map cp_agent_id (?best # ps))" using Cons(2) by simp
  then obtain r where r: "winner_loop h ?best ps = Some r" "authority_answer h ?best ps r"
    using Cons(1) by blast
  show ?case
  proof (cases "incomparable h best p")
    case True
    then have "winner_loop h best (p # ps) =
        Some (Inl (ConflictHierarchyError (NoCommonManager (cp_agent_id best) (cp_agent_id p))))"
      using Cons(2) by (simp add: resolve_by_hierarchy_eq [OF wf] incomparable_def Let_def)
    moreover have "cp_agent_id best \<noteq> cp_agent_id p" using Cons(2) by simp
    ultimately show ?thesis using True by (auto simp: authority_answer_def)
  next
    case False
    then have "winner_loop h best (p # ps) = winner_loop h ?best ps"
      using Cons(2) by (auto simp: resolve_by_hierarchy_eq [OF wf] incomparable_def authority_key_less Let_def)
    then show ?thesis using r authority_answer_Cons by auto
  qed
qed (simp add: authority_answer_def)

lemma valid_conflict_positions:
  assumes "valid_conflict c"
  obtains p q ps where "cf_positions c = p # q # ps" "distinct (List.map cp_agent_id (cf_positions c))"
    "list_all position_fields (cf_positions c)" "not_blank (cf_id c)"
proof -
  have *: "length (cf_positions c) \<ge> 2" "distinct (List.map cp_agent_id (cf_positions c))"
    "list_all position_fields (cf_positions c)" "not_blank (cf_id c)"
    using assms by (auto simp: valid_conflict_def Conflict_check_def validate_positions_def split: if_splits)
  then obtain p q ps where "cf_positions c = p # q # ps"
    by (cases "cf_positions c"; cases "List.tl (cf_positions c)") auto
  with * that show ?thesis by blast
qed

lemma pick_winner_cases:
  assumes "HierarchyResolver ds = Inr h" and "valid_conflict c"
  obtains (decided) "pick_winner h c = Some (Inr (arg_min_list (authority_key h) (cf_positions c)))"
  | (incomparable) a b where "a \<in> set (cf_positions c)" "b \<in> set (cf_positions c)" "cp_agent_id a \<noteq> cp_agent_id b"
      "incomparable h a b" "pick_winner h c = Some (Inl (ConflictHierarchyError (NoCommonManager (cp_agent_id a) (cp_agent_id b))))"
proof -
  obtain p ps where ps: "cf_positions c = p # ps" "distinct (List.map cp_agent_id (p # ps))"
    using valid_conflict_positions [OF assms(2)] by metis
  obtain r where r: "winner_loop h p ps = Some r" "authority_answer h p ps r"
    using winner_loop_answer [OF chart.made_wf [OF assms(1)] ps(2)] by blast
  show ?thesis
  proof (cases r)
    case (Inr w)
    then show ?thesis using r ps(1) decided by (simp add: pick_winner_def authority_answer_def keep_best_arg_min)
  next
    case (Inl e)
    then obtain a b where "a \<in> set (p # ps)" "b \<in> set ps" "cp_agent_id a \<noteq> cp_agent_id b" "incomparable h a b"
      "e = ConflictHierarchyError (NoCommonManager (cp_agent_id a) (cp_agent_id b))"
      using r(2) by (auto simp: authority_answer_def)
    then show ?thesis using r(1) Inl ps(1) incomparable [of a b] by (simp add: pick_winner_def)
  qed
qed

lemma pick_highest_seniority_eq:
  assumes "HierarchyResolver ds = Inr h" and "valid_conflict c"
  shows "pick_highest_seniority (Some h) c = Some (Inr (arg_min_list (authority_key h) (cf_positions c)))"
proof -
  obtain p ps where "cf_positions c = p # ps" using valid_conflict_positions [OF assms(2)] by metis
  then show ?thesis
    by (simp add: pick_highest_seniority_def seniority_loop_hierarchy [OF chart.made_wf [OF assms(1)]] keep_best_arg_min)
qed

subsection \<open>Properties of the choice by authority\<close>

text \<open>
  C19: on every constructed hierarchy and valid conflict the authority strategy and the fallback used
  by debate and hybrid choose the same position: the first of those with the highest seniority and,
  among them, the least depth in the chart, although authority measures the depth from the lowest
  common manager of each pair. The fallback always chooses; authority instead raises exactly in
  comparisons of two equally senior agents without a common manager, so it never raises when all
  equally senior participants share one.
\<close>

theorem authority_choice:
  assumes "HierarchyResolver ds = Inr h" and "valid_conflict c"
  shows "pick_highest_seniority (Some h) c = Some (Inr (arg_min_list (authority_key h) (cf_positions c))) \<and>
    (pick_winner h c = Some (Inr (arg_min_list (authority_key h) (cf_positions c))) \<or>
     (\<exists>a \<in> set (cf_positions c). \<exists>b \<in> set (cf_positions c). a \<noteq> b \<and> cp_level a = cp_level b \<and>
        common_managers h (cp_agent_id a) (cp_agent_id b) = {} \<and>
        pick_winner h c = Some (Inl (ConflictHierarchyError (NoCommonManager (cp_agent_id a) (cp_agent_id b))))))"
  using pick_winner_cases [OF assms] pick_highest_seniority_eq [OF assms] unfolding incomparable_def by metis

text \<open>Two departments without a common head.\<close>

definition split_company :: "Department list" where
  "split_company =
     [\<lparr>head = None, head_id = None, teams = [\<lparr>lead = ''anna'', members = [''carl'']\<rparr>], reporting_lines = []\<rparr>,
      \<lparr>head = None, head_id = None, teams = [\<lparr>lead = ''bert'', members = [''dora'']\<rparr>], reporting_lines = []\<rparr>]"

definition stance :: "agent \<Rightarrow> string \<Rightarrow> SeniorityLevel \<Rightarrow> ConflictPosition" where
  "stance a d l = \<lparr>cp_agent_id = a, cp_department = d, cp_level = l, cp_position = ''use '' @ a, cp_reasoning = ''r'', cp_timestamp = 0\<rparr>"

definition dispute :: "ConflictPosition list \<Rightarrow> Conflict" where
  "dispute ps = \<lparr>cf_id = ''conflict-1'', cf_type = ARCHITECTURE, cf_task_id = None, cf_subject = ''s'', cf_positions = ps, cf_detected_at = 0\<rparr>"

definition split_charts :: charts where
  "split_charts = link_company split_company"

lemma split_resolver: "HierarchyResolver split_company = Inr split_charts"
  by code_simp

theorem authority_choice_witness:
  "cp_agent_id (arg_min_list (authority_key split_charts) [stance ''carl'' ''x'' SENIOR, stance ''anna'' ''x'' SENIOR]) = ''anna'' \<and>
   pick_highest_seniority (Some split_charts) (dispute [stance ''carl'' ''x'' SENIOR, stance ''anna'' ''x'' SENIOR]) =
     Some (Inr (stance ''anna'' ''x'' SENIOR))"
proof -
  have "valid_conflict (dispute [stance ''carl'' ''x'' SENIOR, stance ''anna'' ''x'' SENIOR])" by code_simp
  from authority_choice [OF split_resolver this]
  have "pick_highest_seniority (Some split_charts) (dispute [stance ''carl'' ''x'' SENIOR, stance ''anna'' ''x'' SENIOR]) =
      Some (Inr (arg_min_list (authority_key split_charts) [stance ''carl'' ''x'' SENIOR, stance ''anna'' ''x'' SENIOR]))"
    by (simp add: dispute_def)
  moreover have "arg_min_list (authority_key split_charts) [stance ''carl'' ''x'' SENIOR, stance ''anna'' ''x'' SENIOR] = stance ''anna'' ''x'' SENIOR"
    by code_simp
  ultimately show ?thesis by (simp add: stance_def)
qed

text \<open>
  The order of the positions decides whether authority raises: two equally senior agents of separate
  departments are compared before the lead who outranks both, or after.
\<close>

theorem authority_depends_on_order:
  "pick_winner split_charts (dispute [stance ''carl'' ''x'' SENIOR, stance ''dora'' ''y'' SENIOR, stance ''anna'' ''x'' LEAD]) =
     Some (Inl (ConflictHierarchyError (NoCommonManager ''carl'' ''dora''))) \<and>
   pick_winner split_charts (dispute [stance ''anna'' ''x'' LEAD, stance ''carl'' ''x'' SENIOR, stance ''dora'' ''y'' SENIOR]) =
     Some (Inr (stance ''anna'' ''x'' LEAD))"
  by code_simp

subsection \<open>The judge of a debate\<close>

definition all_manage :: "charts \<Rightarrow> ConflictPosition list \<Rightarrow> agent set" where
  "all_manage h ps = {m. \<forall>p \<in> set ps. (cp_agent_id p, m) \<in> (up (supervisor_of h))\<^sup>*}"

text \<open>The least element of a set of managers, if it is not empty.\<close>

definition lowest :: "charts \<Rightarrow> agent set \<Rightarrow> agent option \<Rightarrow> bool" where
  "lowest h M r \<longleftrightarrow> (case r of None \<Rightarrow> M = {} | Some m \<Rightarrow> m \<in> M \<and> (\<forall>n \<in> M. (m, n) \<in> (up (supervisor_of h))\<^sup>*))"

lemma lowest_common_manager_lowest:
  assumes "wf ((up (supervisor_of h))\<inverse>)" and "a \<noteq> b"
  shows "\<exists>r. get_lowest_common_manager h a b = Some r \<and> lowest h (common_managers h a b) r"
  using lowest_common_manager_cases [OF assms] by (auto simp: lowest_def split: option.splits)

lemma lowest_step:
  assumes wf: "wf ((up (supervisor_of h))\<inverse>)" and low: "lowest h (all_manage h ps) (Some m)"
    and known: "m \<in> Hierarchy.known_agents h"
  shows "\<exists>r. get_lowest_common_manager h m (cp_agent_id p) = Some r \<and> lowest h (all_manage h (p # ps)) r"
proof -
  have eq: "all_manage h (p # ps) = common_managers h m (cp_agent_id p)"
    using low by (auto simp: lowest_def all_manage_def common_managers_def intro: rtrancl_trans)
  show ?thesis
  proof (cases "m = cp_agent_id p")
    case True
    have "lowest h (common_managers h m m) (Some m)" by (auto simp: lowest_def common_managers_def)
    then show ?thesis using True known eq by (simp add: get_lowest_common_manager_def)
  next
    case False
    then show ?thesis using lowest_common_manager_lowest [OF wf False] eq by simp
  qed
qed

lemma manager_known: "(a, m) \<in> (up (supervisor_of h))\<^sup>+ \<Longrightarrow> m \<in> Hierarchy.known_agents h"
  unfolding Hierarchy.known_agents_def by (drule tranclD2) (force dest!: dget_Some_in)

lemma shared_manager_known:
  assumes "m \<in> all_manage h ps" and "p \<in> set ps" "q \<in> set ps" "cp_agent_id p \<noteq> cp_agent_id q"
  shows "m \<in> Hierarchy.known_agents h"
proof -
  have "(cp_agent_id p, m) \<in> (up (supervisor_of h))\<^sup>*" "(cp_agent_id q, m) \<in> (up (supervisor_of h))\<^sup>*"
    using assms by (auto simp: all_manage_def)
  with assms(4) have "(cp_agent_id p, m) \<in> (up (supervisor_of h))\<^sup>+ \<or> (cp_agent_id q, m) \<in> (up (supervisor_of h))\<^sup>+"
    by (auto simp: rtrancl_eq_or_trancl)
  then show ?thesis using manager_known by blast
qed

lemma shared_manager_loop_lowest:
  assumes wf: "wf ((up (supervisor_of h))\<inverse>)" and ne: "cp_agent_id p \<noteq> cp_agent_id q"
  shows "lowest h (all_manage h seen) mgr \<Longrightarrow> p \<in> set seen \<Longrightarrow> q \<in> set seen \<Longrightarrow>
    \<exists>r. shared_manager_loop h mgr ps = Some r \<and> lowest h (all_manage h (rev ps @ seen)) r"
proof (induction ps arbitrary: seen mgr)
  case (Cons x ps)
  show ?case
  proof (cases mgr)
    case None
    have "all_manage h (rev (x # ps) @ seen) \<subseteq> all_manage h seen" by (auto simp: all_manage_def)
    then show ?thesis using Cons(2) None by (auto simp: lowest_def)
  next
    case (Some m)
    then have "m \<in> Hierarchy.known_agents h"
      using Cons(2) shared_manager_known [OF _ Cons(3,4) ne] by (simp add: lowest_def)
    then obtain r where r: "get_lowest_common_manager h m (cp_agent_id x) = Some r" "lowest h (all_manage h (x # seen)) r"
      using lowest_step [OF wf] Cons(2) Some by blast
    then show ?thesis using Cons(1) [OF r(2)] Cons(3,4) Some by simp
  qed
qed simp

lemma shared_manager_judge:
  assumes res: "HierarchyResolver ds = Inr h" and "valid_conflict c"
  shows "\<exists>r. lowest h (all_manage h (cf_positions c)) r \<and> determine_judge h ''shared_manager'' c =
    Some (case r of None \<Rightarrow> Inl (ConflictHierarchyError (NoSharedManager (List.map cp_agent_id (cf_positions c)))) | Some j \<Rightarrow> Inr j)"
proof -
  note wf = chart.made_wf [OF res]
  obtain p q ps where ps: "cf_positions c = p # q # ps" "distinct (List.map cp_agent_id (cf_positions c))"
    using valid_conflict_positions [OF assms(2)] by metis
  then have ne: "cp_agent_id p \<noteq> cp_agent_id q" by simp
  have two: "common_managers h (cp_agent_id p) (cp_agent_id q) = all_manage h [p, q]"
    by (auto simp: common_managers_def all_manage_def)
  obtain m where m: "get_lowest_common_manager h (cp_agent_id p) (cp_agent_id q) = Some m" "lowest h (all_manage h [p, q]) m"
    using lowest_common_manager_lowest [OF wf ne] unfolding two by blast
  obtain r where "shared_manager_loop h m ps = Some r" "lowest h (all_manage h (rev ps @ [p, q])) r"
    using shared_manager_loop_lowest [OF wf ne m(2), of ps] by auto
  moreover have "all_manage h (rev ps @ [p, q]) = all_manage h (cf_positions c)" using ps(1) by (auto simp: all_manage_def)
  ultimately show ?thesis using m(1) ps(1) by (auto simp: determine_judge_def)
qed

lemma valid_conflict_fields: "valid_conflict c \<Longrightarrow> list_all position_fields (cf_positions c)"
  by (erule valid_conflict_positions)

lemma valid_conflict_distinct: "valid_conflict c \<Longrightarrow> distinct (List.map cp_agent_id (cf_positions c))"
  by (erule valid_conflict_positions)

subsection \<open>What every strategy owes the service\<close>

text \<open>A resolution that fits its conflict: valid, for this conflict, and the winner (if any) is a participant with its own position.\<close>

definition resolution_for :: "Conflict \<Rightarrow> ConflictResolution \<Rightarrow> bool" where
  "resolution_for c r \<longleftrightarrow> valid_resolution r \<and> cr_conflict_id r = cf_id c \<and>
     (no_winner_outcome (cr_outcome r) \<or>
      (\<exists>p \<in> set (cf_positions c). cr_winning_agent_id r = Some (cp_agent_id p) \<and> cr_winning_position r = Some (cp_position p)))"

definition overruled :: "Conflict \<Rightarrow> ConflictResolution \<Rightarrow> ConflictPosition list" where
  "overruled c r = filter (\<lambda>p. no_winner_outcome (cr_outcome r) \<or> Some (cp_agent_id p) \<noteq> cr_winning_agent_id r) (cf_positions c)"

text \<open>The records of a resolution: one valid record per overruled position, in the order of the positions.\<close>

definition dissents_for :: "ConflictResolutionStrategy \<Rightarrow> Conflict \<Rightarrow> ConflictResolution \<Rightarrow> DissentRecord list \<Rightarrow> bool" where
  "dissents_for strategy c r ds \<longleftrightarrow>
     List.map (\<lambda>d. (dr_agent_id d, dr_position d)) ds = List.map (\<lambda>p. (cp_agent_id p, cp_position p)) (overruled c r) \<and>
     list_all (\<lambda>d. dissent_check d = None \<and> dr_conflict d = c \<and> dr_resolution d = r \<and> dr_strategy d = strategy) ds"

locale conflict_resolver =
  fixes strategy :: ConflictResolutionStrategy
    and answers :: "Conflict \<Rightarrow> conflict_error + ConflictResolution \<Rightarrow> bool"
    and dissents :: "Conflict \<Rightarrow> ConflictResolution \<Rightarrow> conflict_error + DissentRecord list"
  assumes resolution: "valid_conflict c \<Longrightarrow> answers c (Inr r) \<Longrightarrow> resolution_for c r"
    and recorded: "valid_conflict c \<Longrightarrow> answers c (Inr r) \<Longrightarrow> \<exists>ds. dissents c r = Inr ds \<and> dissents_for strategy c r ds"
begin

text \<open>The winner is never among the dissenters, and each other participant is exactly once.\<close>

lemma dissenters:
  assumes "valid_conflict c" and "answers c (Inr r)"
  obtains ds where "dissents c r = Inr ds" "distinct (List.map dr_agent_id ds)"
    "set (List.map dr_agent_id ds) = set (List.map cp_agent_id (cf_positions c)) - set_option (cr_winning_agent_id r)"
proof -
  obtain ds where ds: "dissents c r = Inr ds" "dissents_for strategy c r ds" using recorded [OF assms] by blast
  have "List.map fst (List.map (\<lambda>d. (dr_agent_id d, dr_position d)) ds) = List.map cp_agent_id (overruled c r)"
    using ds(2) by (simp add: dissents_for_def comp_def)
  then have ids: "List.map dr_agent_id ds = List.map cp_agent_id (overruled c r)" by (simp add: comp_def)
  have "distinct (List.map dr_agent_id ds)"
    unfolding ids overruled_def using valid_conflict_distinct [OF assms(1)] by (rule distinct_map_filter)
  moreover have "no_winner_outcome (cr_outcome r) \<Longrightarrow> cr_winning_agent_id r = None"
    using resolution [OF assms]
    by (auto simp: resolution_for_def valid_resolution_def resolution_check_def validate_outcome_consistency_def split: if_splits)
  then have "set (List.map dr_agent_id ds) = set (List.map cp_agent_id (cf_positions c)) - set_option (cr_winning_agent_id r)"
    unfolding ids by (auto simp: overruled_def)
  ultimately show ?thesis using ds(1) that by blast
qed

end

lemma make_dissents_ok:
  assumes "cr_conflict_id r = cf_id c" and "list_all (\<lambda>(k, v). not_blank k \<and> not_blank v) meta"
  shows "set ps \<subseteq> set (cf_positions c) \<Longrightarrow> list_all position_fields ps \<Longrightarrow>
    list_all (\<lambda>p. no_winner_outcome (cr_outcome r) \<or> Some (cp_agent_id p) \<noteq> cr_winning_agent_id r) ps \<Longrightarrow>
    \<exists>ds. make_dissents draws strategy meta c r i ps = Inr ds \<and>
      List.map (\<lambda>d. (dr_agent_id d, dr_position d)) ds = List.map (\<lambda>p. (cp_agent_id p, cp_position p)) ps \<and>
      list_all (\<lambda>d. dissent_check d = None \<and> dr_conflict d = c \<and> dr_resolution d = r \<and> dr_strategy d = strategy) ds"
proof (induction ps arbitrary: i)
  case (Cons p ps)
  have "dissent_check (dissent_of (draws i) strategy meta c r p) = None"
    using Cons(2-4) assms
    by (auto simp: dissent_check_def validate_dissent_consistency_def dissent_of_def position_fields_def not_blank_def py_isspace_def Let_def)
  moreover obtain ds where "make_dissents draws strategy meta c r (Suc i) ps = Inr ds"
      "List.map (\<lambda>d. (dr_agent_id d, dr_position d)) ds = List.map (\<lambda>p. (cp_agent_id p, cp_position p)) ps"
      "list_all (\<lambda>d. dissent_check d = None \<and> dr_conflict d = c \<and> dr_resolution d = r \<and> dr_strategy d = strategy) ds"
    using Cons by auto
  ultimately show ?case by (simp add: make_dissent_def) (simp add: dissent_of_def)
qed simp

lemma overruled_dissents:
  assumes "valid_conflict c" and "resolution_for c r" and "list_all (\<lambda>(k, v). not_blank k \<and> not_blank v) meta"
  shows "\<exists>ds. make_dissents draws strategy meta c r 0 (overruled c r) = Inr ds \<and> dissents_for strategy c r ds"
  unfolding dissents_for_def
proof (rule make_dissents_ok)
  show "list_all position_fields (overruled c r)"
    using valid_conflict_fields [OF assms(1)] by (auto simp: overruled_def list_all_iff)
qed (use assms in \<open>auto simp: overruled_def list_all_iff resolution_for_def\<close>)

lemma find_losers_overruled:
  assumes "valid_conflict c" and "resolution_for c r" and "\<not> no_winner_outcome (cr_outcome r)"
  shows "find_losers c r = Inr (overruled c r)"
proof -
  obtain p q ps where ps: "cf_positions c = p # q # ps" "distinct (List.map cp_agent_id (cf_positions c))"
    using valid_conflict_positions [OF assms(1)] by metis
  obtain w where w: "w \<in> set (cf_positions c)" "cr_winning_agent_id r = Some (cp_agent_id w)"
    using assms(2,3) by (auto simp: resolution_for_def)
  have "filter (\<lambda>p. Some (cp_agent_id p) \<noteq> cr_winning_agent_id r) (cf_positions c) \<noteq> []"
    using ps by (auto simp: w(2))
  moreover have "cr_winning_agent_id r \<in> Some ` set (List.map cp_agent_id (cf_positions c))" using w by auto
  moreover have "overruled c r = filter (\<lambda>p. Some (cp_agent_id p) \<noteq> cr_winning_agent_id r) (cf_positions c)"
    using assms(3) by (simp add: overruled_def)
  ultimately show ?thesis by (simp add: find_losers_def)
qed

lemma loser_dissents:
  assumes "valid_conflict c" and "resolution_for c r" and "\<not> no_winner_outcome (cr_outcome r)"
    and "list_all (\<lambda>(k, v). not_blank k \<and> not_blank v) meta"
  shows "\<exists>ds. rbind (find_losers c r) (make_dissents draws strategy meta c r 0) = Inr ds \<and> dissents_for strategy c r ds"
  using overruled_dissents [OF assms(1,2,4)] by (simp add: find_losers_overruled [OF assms(1-3)])

lemma make_resolution_Inr [result_simps]: "make_resolution r = Inr r' \<longleftrightarrow> r' = r \<and> valid_resolution r"
  by (auto simp: make_resolution_def valid_resolution_def split: option.splits)

lemma make_resolution_for:
  assumes "make_resolution r = Inr r'" and "cr_conflict_id r = cf_id c" and "p \<in> set (cf_positions c)"
    "cr_winning_agent_id r = Some (cp_agent_id p)" "cr_winning_position r = Some (cp_position p)"
  shows "r' = r \<and> resolution_for c r"
  using assms by (auto simp: make_resolution_Inr resolution_for_def)

subsubsection \<open>Authority\<close>

lemma authority_winner_in:
  assumes "HierarchyResolver ds = Inr h" and "valid_conflict c" and "pick_winner h c = Some (Inr w)"
  shows "w \<in> set (cf_positions c)"
proof -
  have "cf_positions c \<noteq> []" using assms(2) by (auto elim: valid_conflict_positions)
  with assms(1,2) show ?thesis
    by (cases rule: pick_winner_cases) (use assms(3) arg_min_list_in [of "cf_positions c" "authority_key h"] in auto)
qed

lemma authority_resolution_for:
  assumes "HierarchyResolver ds = Inr h" and "valid_conflict c" and "authority_resolve h now c = Some (Inr r)"
  shows "resolution_for c r \<and> cr_outcome r = RESOLVED_BY_AUTHORITY"
proof -
  obtain w where w: "pick_winner h c = Some (Inr w)" "make_resolution (authority_resolution now c w) = Inr r"
    using assms(3) by (auto simp: authority_resolve_def rbind_eq_Inr)
  have "w \<in> set (cf_positions c)" using authority_winner_in [OF assms(1,2) w(1)] .
  from make_resolution_for [OF w(2) _ this] show ?thesis by (simp add: authority_resolution_def)
qed

interpretation authority: conflict_resolver AUTHORITY
  "\<lambda>c r. \<exists>ds h now. HierarchyResolver ds = Inr h \<and> authority_resolve h now c = Some r"
  "authority_dissents draws" for draws
proof unfold_locales
  fix c r assume c: "valid_conflict c" and "\<exists>ds h now. HierarchyResolver ds = Inr h \<and> authority_resolve h now c = Some (Inr r)"
  then have r: "resolution_for c r" "cr_outcome r = RESOLVED_BY_AUTHORITY" using authority_resolution_for by blast+
  then show "resolution_for c r" by simp
  have "\<not> no_winner_outcome (cr_outcome r)" using r(2) by (simp add: no_winner_outcome_def)
  then show "\<exists>ds. authority_dissents draws c r = Inr ds \<and> dissents_for AUTHORITY c r ds"
    using loser_dissents [OF c r(1)] by (simp add: authority_dissents_def)
qed

subsubsection \<open>Debate\<close>

lemma find_position_Some: "find_position c a = Some p \<Longrightarrow> p \<in> set (cf_positions c) \<and> cp_agent_id p = a"
  by (auto simp: find_position_def find_Some_iff)

lemma debate_resolution_for:
  assumes "debate_resolve h judge ev now c = Some (Inr r)"
  shows "resolution_for c r \<and> cr_outcome r = RESOLVED_BY_DEBATE \<and> not_blank (cr_decided_by r)"
proof -
  obtain j where j: "determine_judge h judge c = Some (Inr j)"
    using assms by (cases "determine_judge h judge c") (auto simp: debate_resolve_def split: sum.split_asm)
  then obtain w t where wt: "rbind (find_position_or_raise c w) (\<lambda>p. make_resolution (debate_resolution now c j p t)) = Inr r"
    using assms by (auto simp: debate_resolve_def rbind_eq_Inr)
  then obtain p where p: "find_position c w = Some p" "make_resolution (debate_resolution now c j p t) = Inr r"
    by (auto simp: find_position_or_raise_def rbind_eq_Inr split: option.split_asm)
  have "p \<in> set (cf_positions c)" using find_position_Some [OF p(1)] by simp
  from make_resolution_for [OF p(2) _ this] p(2) show ?thesis
    by (auto simp: debate_resolution_def make_resolution_Inr valid_resolution_def resolution_check_def split: if_splits)
qed

interpretation debate: conflict_resolver DEBATE
  "\<lambda>c r. \<exists>h judge ev now. debate_resolve h judge ev now c = Some r" "debate_dissents draws" for draws
proof unfold_locales
  fix c r assume c: "valid_conflict c" and "\<exists>h judge ev now. debate_resolve h judge ev now c = Some (Inr r)"
  then have r: "resolution_for c r" "cr_outcome r = RESOLVED_BY_DEBATE" "not_blank (cr_decided_by r)"
    using debate_resolution_for by blast+
  then show "resolution_for c r" by simp
  have "\<not> no_winner_outcome (cr_outcome r)" "list_all (\<lambda>(k, v). not_blank k \<and> not_blank v) [(''judge'', cr_decided_by r)]"
    using r(2,3) by (simp_all add: no_winner_outcome_def not_blank_def py_isspace_def)
  then show "\<exists>ds. debate_dissents draws c r = Inr ds \<and> dissents_for DEBATE c r ds"
    using loser_dissents [OF c r(1)] by (simp add: debate_dissents_def)
qed

subsubsection \<open>Outcome of a debate\<close>

lemma find_position_of:
  assumes "valid_conflict c" and "p \<in> set (cf_positions c)"
  shows "find_position c (cp_agent_id p) = Some p"
  using assms(2) valid_conflict_distinct [OF assms(1)] find_rev_unique [of cp_agent_id "rev (cf_positions c)" p]
  by (simp add: find_position_def rev_map [symmetric])

lemma valid_winner_resolution:
  assumes "valid_conflict c" and "p \<in> set (cf_positions c)" and "not_blank j"
  shows "make_resolution (debate_resolution now c j p t) =
    (if not_blank t then Inr (debate_resolution now c j p t) else Inl (Invalid BlankField))"
proof -
  have "not_blank (cf_id c)" using assms(1) by (rule valid_conflict_positions)
  moreover have "position_fields p" using valid_conflict_fields [OF assms(1)] assms(2) by (auto simp: list_all_iff)
  ultimately show ?thesis using assms(3)
    by (simp add: make_resolution_def resolution_check_def validate_outcome_consistency_def debate_resolution_def no_winner_outcome_def position_fields_def)
qed

definition fallback_resolution :: "charts \<Rightarrow> time \<Rightarrow> agent \<Rightarrow> Conflict \<Rightarrow> ConflictResolution" where
  "fallback_resolution h now j c =
     (let best = arg_min_list (authority_key h) (cf_positions c) in debate_resolution now c j best (snd (fallback_decision [] best)))"

lemma debate_fallback_resolves:
  assumes "HierarchyResolver ds = Inr h" and "valid_conflict c" and "not_blank j"
  shows "\<exists>w t. authority_fallback h c = Some (Inr (w, t)) \<and>
    rbind (find_position_or_raise c w) (\<lambda>p. make_resolution (debate_resolution now c j p t)) = Inr (fallback_resolution h now j c)"
proof -
  let ?best = "arg_min_list (authority_key h) (cf_positions c)"
  have best: "?best \<in> set (cf_positions c)" using assms(2) by (auto elim!: valid_conflict_positions intro!: arg_min_list_in)
  have "not_blank (snd (fallback_decision [] ?best))" by (simp add: fallback_decision_def not_blank_def py_isspace_def)
  then show ?thesis
    using find_position_of [OF assms(2) best] valid_winner_resolution [OF assms(2) best assms(3)]
    by (simp add: authority_fallback_def pick_highest_seniority_eq [OF assms(1,2)] fallback_decision_def fallback_resolution_def
        find_position_or_raise_def Let_def)
qed

text \<open>
  Once a judge is found, a debate over a valid conflict always ends: the judge's choice decides if
  it names a participant and gives a reason, an unknown agent is a strategy error, and without an
  evaluator, or when it raises (anything but the two fatal errors), the position that authority ranks
  first wins, whether or not the participants have a common manager; the fallback never raises. If no judge is found
  the error is raised before any fallback.
\<close>

theorem debate_outcome:
  assumes "HierarchyResolver ds = Inr h" and "valid_conflict c" and "determine_judge h judge c = Some (Inr j)" and "not_blank j"
  shows "debate_resolve h judge None now c = Some (Inr (fallback_resolution h now j c)) \<and>
    debate_resolve h judge (Some evaluate) now c = Some (
      case evaluate c j of
        Inl e \<Rightarrow> if e = JudgeFatal then Inl e else Inr (fallback_resolution h now j c)
      | Inr (w, t) \<Rightarrow>
          (case find_position c w of
             None \<Rightarrow> Inl (ConflictStrategyError (AgentNotFound w))
           | Some p \<Rightarrow> if not_blank t then Inr (debate_resolution now c j p t) else Inl (Invalid BlankField)))"
proof -
  obtain w t where f: "authority_fallback h c = Some (Inr (w, t))"
    "rbind (find_position_or_raise c w) (\<lambda>p. make_resolution (debate_resolution now c j p t)) = Inr (fallback_resolution h now j c)"
    using debate_fallback_resolves [OF assms(1,2,4)] by blast
  have "make_resolution (debate_resolution now c j p t) = (if not_blank t then Inr (debate_resolution now c j p t) else Inl (Invalid BlankField))"
    if "find_position c w = Some p" for p w t
    using that by (intro valid_winner_resolution [OF assms(2) _ assms(4)]) (auto dest: find_position_Some)
  then show ?thesis
    using f by (auto simp: debate_resolve_def debate_decision_def assms(3) find_position_or_raise_def split: sum.splits option.splits)
qed

text \<open>
  With the default setting the judge of a debate is the lowest manager of all participants (a
  participant counts as its own manager, so one of the debaters can be the judge); there is none, and
  the debate raises before any judging or fallback, exactly when they share no manager.
\<close>

theorem debate_judge_lowest:
  assumes "HierarchyResolver ds = Inr h" and "valid_conflict c"
  shows "(determine_judge h ''shared_manager'' c = Some (Inr j) \<longleftrightarrow>
      (\<forall>p \<in> set (cf_positions c). (cp_agent_id p, j) \<in> (up (supervisor_of h))\<^sup>*) \<and>
      (\<forall>n. (\<forall>p \<in> set (cf_positions c). (cp_agent_id p, n) \<in> (up (supervisor_of h))\<^sup>*) \<longrightarrow> (j, n) \<in> (up (supervisor_of h))\<^sup>*)) \<and>
    ((\<exists>m. \<forall>p \<in> set (cf_positions c). (cp_agent_id p, m) \<in> (up (supervisor_of h))\<^sup>*) \<or>
     debate_resolve h ''shared_manager'' ev now c =
       Some (Inl (ConflictHierarchyError (NoSharedManager (List.map cp_agent_id (cf_positions c))))))"
proof -
  obtain r where r: "lowest h (all_manage h (cf_positions c)) r" "determine_judge h ''shared_manager'' c =
      Some (case r of None \<Rightarrow> Inl (ConflictHierarchyError (NoSharedManager (List.map cp_agent_id (cf_positions c)))) | Some j \<Rightarrow> Inr j)"
    using shared_manager_judge [OF assms] by blast
  show ?thesis
  proof (cases r)
    case None
    then have "all_manage h (cf_positions c) = {}" using r(1) by (simp add: lowest_def)
    then show ?thesis using None r(2) by (auto simp: all_manage_def debate_resolve_def)
  next
    case (Some m)
    then have m: "m \<in> all_manage h (cf_positions c)" "\<And>n. n \<in> all_manage h (cf_positions c) \<Longrightarrow> (m, n) \<in> (up (supervisor_of h))\<^sup>*"
      using r(1) by (simp_all add: lowest_def)
    have "j = m" if "j \<in> all_manage h (cf_positions c)" "(j, m) \<in> (up (supervisor_of h))\<^sup>*"
      using m(2) [OF that(1)] that(2) chart.no_mutual_supervision [OF assms(1)] by (auto simp: rtrancl_eq_or_trancl)
    then show ?thesis using m Some r(2) by (auto simp: all_manage_def)
  qed
qed

definition two_seniors :: Conflict where
  "two_seniors = dispute [stance ''carl'' ''x'' SENIOR, stance ''anna'' ''x'' SENIOR]"

theorem debate_outcome_witness:
  "debate_resolve split_charts ''anna'' (Some (\<lambda>_ _. Inl JudgeError)) 5 two_seniors =
     Some (Inr (fallback_resolution split_charts 5 ''anna'' two_seniors)) \<and>
   cr_winning_agent_id (fallback_resolution split_charts 5 ''anna'' two_seniors) = Some ''anna''"
proof -
  have "valid_conflict two_seniors" "determine_judge split_charts ''anna'' two_seniors = Some (Inr ''anna'')"
    "not_blank ''anna''" by code_simp+
  from debate_outcome [OF split_resolver this, of 5 "\<lambda>_ _. Inl JudgeError"]
  have "debate_resolve split_charts ''anna'' (Some (\<lambda>_ _. Inl JudgeError)) 5 two_seniors =
     Some (Inr (fallback_resolution split_charts 5 ''anna'' two_seniors))" by simp
  moreover have "cr_winning_agent_id (fallback_resolution split_charts 5 ''anna'' two_seniors) = Some ''anna''" by code_simp
  ultimately show ?thesis by blast
qed

theorem debate_judge_lowest_witness:
  "determine_judge split_charts ''shared_manager'' two_seniors = Some (Inr ''anna'') \<and>
   (''carl'', ''anna'') \<in> (up (supervisor_of split_charts))\<^sup>*"
proof -
  have v: "valid_conflict two_seniors" and j: "determine_judge split_charts ''shared_manager'' two_seniors = Some (Inr ''anna'')"
    by code_simp+
  from j show ?thesis using debate_judge_lowest [OF split_resolver v, of "''anna''" None 0]
    by (auto simp: two_seniors_def dispute_def stance_def)
qed

end
