(* ===== verification/Escalation_Queue.thy ===== *)
theory Escalation_Queue
  imports Conflict_Resolution
begin

text \<open>
  The human escalation queue (\<^verbatim>\<open>communication/conflict_resolution/escalation/\<close>), the resolver that waits for
  an operator (\<^verbatim>\<open>human_strategy.py\<close>) and the REST endpoints that decide (\<^verbatim>\<open>api/controllers/escalations.py\<close>).

  The store is the in-memory one: its operations hold an uncontended lock and run to their end, so each is
  one function, and so is an endpoint, which suspends nowhere else. The resolver suspends while it waits and, after a time-out, at
  each of its shielded clean-up calls; its code between two suspensions is one function, and \<open>esc_step\<close>
  interleaves these with the endpoints and the sweeper. A backend that can fail is represented by the
  arguments \<open>fault\<close> of the calls whose failure the resolver catches. Escalation identifiers are fresh, so a future is
  named by its escalation. Notifications to operators are left out.
\<close>

declare map_of_eq_Some_iff [simp del] Some_eq_map_of_iff [simp del]

subsection \<open>Models\<close>

datatype EscalationStatus = ESC_PENDING | ESC_DECIDED | ESC_EXPIRED | ESC_CANCELLED

datatype EscalationDecision = WinnerDecision agent string | RejectDecision string

record Escalation =
  es_id :: string
  es_conflict :: Conflict
  es_status :: EscalationStatus
  es_created_at :: time
  es_expires_at :: "time option"
  es_decided_at :: "time option"
  es_decided_by :: "string option"
  es_decision :: "EscalationDecision option"

definition decision_fields :: "EscalationDecision \<Rightarrow> bool" where
  "decision_fields d = (case d of
     WinnerDecision w t \<Rightarrow> not_blank w \<and> not_blank t \<and> length t \<le> 4096
   | RejectDecision t \<Rightarrow> not_blank t \<and> length t \<le> 4096)"

datatype escalation_problem = EscalationField | PendingWithDecision | DecisionMissing | DecidedAtMissing | DecidedByMissing
  | TerminalWithDecision | WinnerOutsideConflict | DecidedByFormat

definition check_status_shape :: "Escalation \<Rightarrow> escalation_problem option" where
  "check_status_shape e =
     (case es_status e of
        ESC_PENDING \<Rightarrow>
          if es_decision e \<noteq> None \<or> es_decided_at e \<noteq> None \<or> es_decided_by e \<noteq> None then Some PendingWithDecision else None
      | ESC_DECIDED \<Rightarrow> first_error
          [(es_decision e = None, DecisionMissing), (es_decided_at e = None, DecidedAtMissing), (es_decided_by e = None, DecidedByMissing)]
      | _ \<Rightarrow> if es_decision e \<noteq> None then Some TerminalWithDecision else None)"

definition check_winner_in_conflict :: "Escalation \<Rightarrow> escalation_problem option" where
  "check_winner_in_conflict e =
     (if es_status e \<noteq> ESC_DECIDED then None
      else case es_decision e of
             Some (WinnerDecision w t) \<Rightarrow>
               if w \<notin> set (List.map cp_agent_id (cf_positions (es_conflict e))) then Some WinnerOutsideConflict else None
           | _ \<Rightarrow> None)"

definition starts_with :: "string \<Rightarrow> string \<Rightarrow> bool" where
  "starts_with pre s \<longleftrightarrow> take (length pre) s = pre"

definition check_decided_by_format :: "Escalation \<Rightarrow> escalation_problem option" where
  "check_decided_by_format e =
     (case es_decided_by e of
        None \<Rightarrow> None
      | Some by \<Rightarrow> if starts_with ''human:'' by \<or> starts_with ''system:'' by then None else Some DecidedByFormat)"

definition escalation_check :: "Escalation \<Rightarrow> escalation_problem option" where
  "escalation_check e =
     (if \<not> (not_blank (es_id e) \<and> valid_conflict (es_conflict e) \<and> opt_not_blank (es_decided_by e) \<and>
            (case es_decision e of None \<Rightarrow> True | Some d \<Rightarrow> decision_fields d))
      then Some EscalationField
      else case check_status_shape e of
             Some p \<Rightarrow> Some p
           | None \<Rightarrow> (case check_winner_in_conflict e of Some p \<Rightarrow> Some p | None \<Rightarrow> check_decided_by_format e))"

subsection \<open>The in-memory store\<close>

datatype queue_error = CreateNotPending | DuplicateId string | DuplicatePending string | NotPendingRow EscalationStatus
  | UnknownEscalation | BadLimit | BadOffset | FutureRegistered

type_synonym escalation_rows = "(string, Escalation) dict"

definition esc_create :: "Escalation \<Rightarrow> escalation_rows \<Rightarrow> queue_error + escalation_rows" where
  "esc_create e rows =
     (if es_status e \<noteq> ESC_PENDING then Inl CreateNotPending
      else if dget rows (es_id e) \<noteq> None then Inl (DuplicateId (es_id e))
      else case List.find (\<lambda>x. es_status x = ESC_PENDING \<and> cf_id (es_conflict x) = cf_id (es_conflict e)) (List.map snd rows) of
             Some existing \<Rightarrow> Inl (DuplicatePending (es_id existing))
           | None \<Rightarrow> Inr (dput (es_id e) e rows))"

definition esc_get :: "string \<Rightarrow> escalation_rows \<Rightarrow> Escalation option" where
  "esc_get k rows = dget rows k"

definition esc_list_items ::
  "EscalationStatus option \<Rightarrow> int \<Rightarrow> int \<Rightarrow> escalation_rows \<Rightarrow> queue_error + Escalation list \<times> nat" where
  "esc_list_items status limit offset rows =
     (if limit \<le> 0 then Inl BadLimit
      else if offset < 0 then Inl BadOffset
      else let matching = sort_key es_created_at
             (filter (\<lambda>e. case status of None \<Rightarrow> True | Some st \<Rightarrow> es_status e = st) (List.map snd rows)) in
        Inr (take (nat limit) (drop (nat offset) matching), length matching))"

definition esc_apply_decision ::
  "time \<Rightarrow> string \<Rightarrow> EscalationDecision \<Rightarrow> string \<Rightarrow> escalation_rows \<Rightarrow> queue_error + Escalation \<times> escalation_rows" where
  "esc_apply_decision now k d by rows =
     (case dget rows k of
        None \<Rightarrow> Inl UnknownEscalation
      | Some row \<Rightarrow>
          if es_status row \<noteq> ESC_PENDING then Inl (NotPendingRow (es_status row))
          else let updated = row\<lparr>es_status := ESC_DECIDED, es_decided_at := Some now, es_decided_by := Some by, es_decision := Some d\<rparr>
               in Inr (updated, dput k updated rows))"

definition esc_cancel :: "time \<Rightarrow> string \<Rightarrow> string \<Rightarrow> escalation_rows \<Rightarrow> queue_error + Escalation \<times> escalation_rows" where
  "esc_cancel now k by rows =
     (case dget rows k of
        None \<Rightarrow> Inl UnknownEscalation
      | Some row \<Rightarrow>
          if es_status row \<noteq> ESC_PENDING then Inl (NotPendingRow (es_status row))
          else let updated = row\<lparr>es_status := ESC_CANCELLED, es_decided_at := Some now, es_decided_by := Some by\<rparr>
               in Inr (updated, dput k updated rows))"

definition is_overdue :: "time \<Rightarrow> Escalation \<Rightarrow> bool" where
  "is_overdue now e \<longleftrightarrow> es_status e = ESC_PENDING \<and> (case es_expires_at e of None \<Rightarrow> False | Some t \<Rightarrow> t \<le> now)"

definition mark_expired :: "time \<Rightarrow> escalation_rows \<Rightarrow> string list \<times> escalation_rows" where
  "mark_expired now rows =
     (List.map fst (filter (\<lambda>(k, e). is_overdue now e) rows),
      List.map (\<lambda>(k, e). (k, if is_overdue now e
        then e\<lparr>es_status := ESC_EXPIRED, es_decided_at := Some now, es_decided_by := Some ''system:expiry''\<rparr> else e)) rows)"

subsection \<open>The registry of futures\<close>

datatype future = Waiting | Result EscalationDecision | CancelledFuture

text \<open>The futures by identifier, and which of them the registry still holds.\<close>

record futures_registry =
  futures :: "(string, future) dict"
  registered :: "string set"

definition future_register :: "string \<Rightarrow> futures_registry \<Rightarrow> queue_error + futures_registry" where
  "future_register k g =
     (if k \<in> registered g then Inl FutureRegistered
      else Inr \<lparr>futures = dput k Waiting (futures g), registered = insert k (registered g)\<rparr>)"

definition finish_future :: "string \<Rightarrow> future \<Rightarrow> futures_registry \<Rightarrow> futures_registry" where
  "finish_future k f g = (if dget (futures g) k = Some Waiting then g\<lparr>futures := dput k f (futures g)\<rparr> else g)"

definition future_resolve :: "string \<Rightarrow> EscalationDecision \<Rightarrow> futures_registry \<Rightarrow> bool \<times> futures_registry" where
  "future_resolve k d g =
     (if k \<notin> registered g then (False, g)
      else (True, (finish_future k (Result d) g)\<lparr>registered := registered g - {k}\<rparr>))"

definition future_cancel :: "string \<Rightarrow> futures_registry \<Rightarrow> bool \<times> futures_registry" where
  "future_cancel k g =
     (if k \<notin> registered g then (False, g)
      else (True, (finish_future k CancelledFuture g)\<lparr>registered := registered g - {k}\<rparr>))"

definition futures_close :: "futures_registry \<Rightarrow> futures_registry" where
  "futures_close g = \<lparr>futures = List.map (\<lambda>(k, f). (k, if k \<in> registered g \<and> f = Waiting then CancelledFuture else f)) (futures g),
     registered = {}\<rparr>"

subsection \<open>Decision processors\<close>

datatype DecisionStrategy = WINNER_STRATEGY | HYBRID_STRATEGY

definition human_resolution ::
  "time \<Rightarrow> Conflict \<Rightarrow> ConflictResolutionOutcome \<Rightarrow> agent option \<Rightarrow> string option \<Rightarrow> string \<Rightarrow> string \<Rightarrow> ConflictResolution" where
  "human_resolution now c out w p by t =
     \<lparr>cr_conflict_id = cf_id c, cr_outcome = out, cr_winning_agent_id = w, cr_winning_position = p, cr_decided_by = by,
      cr_reasoning = t, cr_resolved_at = now\<rparr>"

definition winner_select :: "time \<Rightarrow> Conflict \<Rightarrow> EscalationDecision \<Rightarrow> string \<Rightarrow> conflict_error + ConflictResolution" where
  "winner_select now c d by =
     (case d of
        RejectDecision t \<Rightarrow> Inl (Invalid NotAWinnerDecision)
      | WinnerDecision w t \<Rightarrow>
          (case find_position c w of
             None \<Rightarrow> Inl (Invalid WinnerNotInConflict)
           | Some p \<Rightarrow> make_resolution (human_resolution now c RESOLVED_BY_HUMAN (Some w) (Some (cp_position p)) by t)))"

definition process_decision ::
  "DecisionStrategy \<Rightarrow> time \<Rightarrow> Conflict \<Rightarrow> EscalationDecision \<Rightarrow> string \<Rightarrow> conflict_error + ConflictResolution" where
  "process_decision strategy now c d by =
     (case (strategy, d) of
        (HYBRID_STRATEGY, RejectDecision t) \<Rightarrow> make_resolution (human_resolution now c REJECTED_BY_HUMAN None None by t)
      | _ \<Rightarrow> winner_select now c d by)"

definition human_dissents ::
  "(nat \<Rightarrow> string \<times> time) \<Rightarrow> Conflict \<Rightarrow> ConflictResolution \<Rightarrow> conflict_error + DissentRecord list" where
  "human_dissents draws c r =
     make_dissents draws HUMAN [(''escalation_reason'', ''human_review_required'')] c r 0
       (if no_winner_outcome (cr_outcome r) then cf_positions c
        else filter (\<lambda>p. Some (cp_agent_id p) \<noteq> cr_winning_agent_id r) (cf_positions c))"

subsection \<open>The resolver and the endpoints\<close>

datatype cleanup_cause = TimedOut | TaskCancelled

text \<open>Where the resolver of an escalation stands: waiting, before each of its two shielded calls, or done.\<close>

datatype phase = Awaiting Conflict | Unregistering cleanup_cause Conflict | Closing cleanup_cause Conflict
  | Returned "conflict_error + ConflictResolution"

record escalation_system =
  rows :: escalation_rows
  registry :: futures_registry
  resolvers :: "(string, phase) dict"

definition new_escalation_system :: escalation_system where
  "new_escalation_system = \<lparr>rows = [], registry = \<lparr>futures = [], registered = {}\<rparr>, resolvers = []\<rparr>"

definition build_escalation :: "int option \<Rightarrow> time \<Rightarrow> string \<Rightarrow> Conflict \<Rightarrow> Escalation" where
  "build_escalation timeout now k c =
     \<lparr>es_id = k, es_conflict = c, es_status = ESC_PENDING, es_created_at = now,
      es_expires_at = map_option (\<lambda>t. now + of_int t) timeout, es_decided_at = None, es_decided_by = None, es_decision = None\<rparr>"

definition escalation_id :: "string \<Rightarrow> string" where
  "escalation_id u = ''escalation-'' @ u"

text \<open>From the call to the wait. The future is registered before the row becomes visible.\<close>

definition human_resolve :: "int option \<Rightarrow> time \<Rightarrow> string \<Rightarrow> Conflict \<Rightarrow> escalation_system \<Rightarrow> (queue_error + unit) \<times> escalation_system" where
  "human_resolve timeout now u c s =
     (let k = escalation_id u in
      case future_register k (registry s) of
        Inl e \<Rightarrow> (Inl e, s)
      | Inr g \<Rightarrow>
         (case esc_create (build_escalation timeout now k c) (rows s) of
            Inl e \<Rightarrow> (Inl e, s\<lparr>registry := snd (future_cancel k g)\<rparr>)
          | Inr rs \<Rightarrow> (Inr (), s\<lparr>rows := rs, registry := g, resolvers := dput k (Awaiting c) (resolvers s)\<rparr>)))"

definition timeout_resolution :: "time \<Rightarrow> Conflict \<Rightarrow> conflict_error + ConflictResolution" where
  "timeout_resolution now c = make_resolution (human_resolution now c ESCALATED_TO_HUMAN None None ''human''
     (''No human decision was collected before the escalation timeout. '' @
      ''Conflict remains ESCALATED_TO_HUMAN; operators may still decide via the REST API.''))"

definition cancelled_resolution :: "time \<Rightarrow> Conflict \<Rightarrow> conflict_error + ConflictResolution" where
  "cancelled_resolution now c = make_resolution (human_resolution now c ESCALATED_TO_HUMAN None None ''human''
     ''Escalation resolver was cancelled before a human decision could be collected.'')"

definition resolve_decided_by :: "bool \<Rightarrow> string \<Rightarrow> escalation_rows \<Rightarrow> string" where
  "resolve_decided_by fault k rs =
     (if fault then ''human''
      else case esc_get k rs of
             None \<Rightarrow> ''human''
           | Some row \<Rightarrow> (case es_decided_by row of None \<Rightarrow> ''human'' | Some by \<Rightarrow> if by = [] then ''human'' else by))"

text \<open>The decision of a peer that the wait missed: the row read again after the time-out.\<close>

definition read_late_decision ::
  "DecisionStrategy \<Rightarrow> bool \<Rightarrow> time \<Rightarrow> string \<Rightarrow> Conflict \<Rightarrow> escalation_system \<Rightarrow> (conflict_error + ConflictResolution) option" where
  "read_late_decision strategy fault now k c s =
     (if fault then None
      else case esc_get k (rows s) of
             None \<Rightarrow> None
           | Some row \<Rightarrow>
              (case (es_status row, es_decision row) of
                 (ESC_DECIDED, Some d) \<Rightarrow>
                   Some (process_decision strategy now c d
                     (case es_decided_by row of None \<Rightarrow> ''human'' | Some by \<Rightarrow> if by = [] then ''human'' else by))
               | _ \<Rightarrow> None))"

definition set_phase :: "string \<Rightarrow> phase \<Rightarrow> escalation_system \<Rightarrow> escalation_system" where
  "set_phase k p s = s\<lparr>resolvers := dput k p (resolvers s)\<rparr>"

text \<open>The wait ends because the future is done.\<close>

definition resolver_wake :: "DecisionStrategy \<Rightarrow> bool \<Rightarrow> time \<Rightarrow> string \<Rightarrow> escalation_system \<Rightarrow> escalation_system" where
  "resolver_wake strategy fault now k s =
     (case (dget (resolvers s) k, dget (futures (registry s)) k) of
        (Some (Awaiting c), Some (Result d)) \<Rightarrow>
          set_phase k (Returned (process_decision strategy now c d (resolve_decided_by fault k (rows s)))) s
      | (Some (Awaiting c), Some CancelledFuture) \<Rightarrow> set_phase k (Unregistering TaskCancelled c) s
      | _ \<Rightarrow> s)"

text \<open>The wait ends by the time-out, which cancels the future; the row is read before any clean-up.\<close>

definition resolver_timeout :: "DecisionStrategy \<Rightarrow> bool \<Rightarrow> time \<Rightarrow> string \<Rightarrow> escalation_system \<Rightarrow> escalation_system" where
  "resolver_timeout strategy fault now k s =
     (case (dget (resolvers s) k, dget (futures (registry s)) k) of
        (Some (Awaiting c), Some Waiting) \<Rightarrow>
          (let s1 = s\<lparr>registry := finish_future k CancelledFuture (registry s)\<rparr> in
           case read_late_decision strategy fault now k c s1 of
             Some r \<Rightarrow> set_phase k (Returned r) (s1\<lparr>registry := snd (future_cancel k (registry s1))\<rparr>)
           | None \<Rightarrow> set_phase k (Unregistering TimedOut c) s1)
      | _ \<Rightarrow> s)"

text \<open>
  The task of the resolver is cancelled while it waits. A pending future is cancelled with it; when the future is
  already done, the \<open>CancelledError\<close> is still thrown at the await, before the resolver sees the result.
\<close>

definition resolver_cancel_task :: "string \<Rightarrow> escalation_system \<Rightarrow> escalation_system" where
  "resolver_cancel_task k s =
     (case (dget (resolvers s) k, dget (futures (registry s)) k) of
        (Some (Awaiting c), Some Waiting) \<Rightarrow>
          set_phase k (Unregistering TaskCancelled c) (s\<lparr>registry := finish_future k CancelledFuture (registry s)\<rparr>)
      | (Some (Awaiting c), _) \<Rightarrow> set_phase k (Unregistering TaskCancelled c) s
      | _ \<Rightarrow> s)"

text \<open>The next shielded call of the clean-up; errors of the store are swallowed.\<close>

definition resolver_cleanup :: "bool \<Rightarrow> time \<Rightarrow> string \<Rightarrow> escalation_system \<Rightarrow> escalation_system" where
  "resolver_cleanup fault now k s =
     (case dget (resolvers s) k of
        Some (Unregistering cause c) \<Rightarrow>
          set_phase k (Closing cause c) (s\<lparr>registry := snd (future_cancel k (registry s))\<rparr>)
      | Some (Closing TimedOut c) \<Rightarrow>
          set_phase k (Returned (timeout_resolution now c)) (s\<lparr>rows := (if fault then rows s else snd (mark_expired now (rows s)))\<rparr>)
      | Some (Closing TaskCancelled c) \<Rightarrow>
          set_phase k (Returned (cancelled_resolution now c))
            (s\<lparr>rows := (if fault then rows s
                else case esc_cancel now k ''system:resolver_cancelled'' (rows s) of Inl _ \<Rightarrow> rows s | Inr (_, rs) \<Rightarrow> rs)\<rparr>)
      | _ \<Rightarrow> s)"

datatype api_error = EscNotFound | EscUnauthorized | EscConflict | EscUnprocessable conflict_error

definition human_id :: "string \<Rightarrow> string" where
  "human_id u = ''human:'' @ u"

definition operator_id :: "string option \<Rightarrow> api_error + string" where
  "operator_id user = (case user of None \<Rightarrow> Inl EscUnauthorized | Some u \<Rightarrow> Inr (human_id u))"

definition api_error_of :: "queue_error \<Rightarrow> api_error" where
  "api_error_of e = (if e = UnknownEscalation then EscNotFound else EscConflict)"

definition submit_decision ::
  "DecisionStrategy \<Rightarrow> bool \<Rightarrow> string option \<Rightarrow> string \<Rightarrow> EscalationDecision \<Rightarrow> time \<Rightarrow> escalation_system
   \<Rightarrow> (api_error + Escalation) \<times> escalation_system" where
  "submit_decision strategy wired user k d now s =
     (if \<not> wired then (Inl EscNotFound, s)
      else case operator_id user of
        Inl e \<Rightarrow> (Inl e, s)
      | Inr by \<Rightarrow>
         (case esc_get k (rows s) of
            None \<Rightarrow> (Inl EscNotFound, s)
          | Some row \<Rightarrow>
              if es_status row \<noteq> ESC_PENDING then (Inl EscConflict, s)
              else case process_decision strategy now (es_conflict row) d by of
                     Inl e \<Rightarrow> (Inl (EscUnprocessable e), s)
                   | Inr _ \<Rightarrow>
                      (case esc_apply_decision now k d by (rows s) of
                         Inl e \<Rightarrow> (Inl (api_error_of e), s)
                       | Inr (updated, rs) \<Rightarrow>
                           (Inr updated, s\<lparr>rows := rs, registry := snd (future_resolve k d (registry s))\<rparr>))))"

definition cancel_escalation ::
  "bool \<Rightarrow> string option \<Rightarrow> string \<Rightarrow> time \<Rightarrow> escalation_system \<Rightarrow> (api_error + Escalation) \<times> escalation_system" where
  "cancel_escalation wired user k now s =
     (if \<not> wired then (Inl EscNotFound, s)
      else case operator_id user of
        Inl e \<Rightarrow> (Inl e, s)
      | Inr by \<Rightarrow>
         (case esc_cancel now k by (rows s) of
            Inl e \<Rightarrow> (Inl (api_error_of e), s)
          | Inr (updated, rs) \<Rightarrow>
              (Inr updated, s\<lparr>rows := rs, registry := snd (future_cancel k (registry s))\<rparr>)))"

definition get_escalation :: "bool \<Rightarrow> string \<Rightarrow> escalation_system \<Rightarrow> api_error + Escalation" where
  "get_escalation wired k s =
     (if \<not> wired then Inl EscNotFound
      else case esc_get k (rows s) of None \<Rightarrow> Inl EscNotFound | Some row \<Rightarrow> Inr row)"

definition sweep_once :: "time \<Rightarrow> escalation_system \<Rightarrow> escalation_system" where
  "sweep_once now s = s\<lparr>rows := snd (mark_expired now (rows s))\<rparr>"

subsection \<open>Interleavings\<close>

datatype esc_event = Open time string Conflict | Submit "string option" string EscalationDecision time
  | Abandon "string option" string time | Sweep time | Wake bool time string | TimeOut bool time string
  | CancelTask string | CleanUp bool time string

text \<open>A request body and a conflict are validated before the code runs, and a new escalation has a fresh identifier.\<close>

definition enabled :: "esc_event \<Rightarrow> escalation_system \<Rightarrow> bool" where
  "enabled ev s = (case ev of
     Open now u c \<Rightarrow> valid_conflict c \<and> dget (rows s) (escalation_id u) = None
   | Submit user k d now \<Rightarrow> decision_fields d
   | _ \<Rightarrow> True)"

definition esc_step :: "DecisionStrategy \<Rightarrow> int option \<Rightarrow> esc_event \<Rightarrow> escalation_system \<Rightarrow> escalation_system" where
  "esc_step strategy timeout ev s =
     (case ev of
        Open now u c \<Rightarrow> snd (human_resolve timeout now u c s)
      | Submit user k d now \<Rightarrow> snd (submit_decision strategy True user k d now s)
      | Abandon user k now \<Rightarrow> snd (cancel_escalation True user k now s)
      | Sweep now \<Rightarrow> sweep_once now s
      | Wake fault now k \<Rightarrow> resolver_wake strategy fault now k s
      | TimeOut fault now k \<Rightarrow> (if timeout = None then s else resolver_timeout strategy fault now k s)
      | CancelTask k \<Rightarrow> resolver_cancel_task k s
      | CleanUp fault now k \<Rightarrow> resolver_cleanup fault now k s)"

inductive esc_reach :: "DecisionStrategy \<Rightarrow> int option \<Rightarrow> escalation_system \<Rightarrow> bool" for strategy timeout where
  initial: "esc_reach strategy timeout new_escalation_system"
| event: "esc_reach strategy timeout s \<Longrightarrow> enabled ev s \<Longrightarrow> esc_reach strategy timeout (esc_step strategy timeout ev s)"

subsection \<open>Rows\<close>

definition rows_ok :: "escalation_rows \<Rightarrow> bool" where
  "rows_ok rs \<longleftrightarrow> distinct (dkeys rs) \<and> (\<forall>k e. dget rs k = Some e \<longrightarrow> es_id e = k \<and> escalation_check e = None) \<and>
     (\<forall>k k' e e'. dget rs k = Some e \<longrightarrow> dget rs k' = Some e' \<longrightarrow> es_status e = ESC_PENDING \<longrightarrow> es_status e' = ESC_PENDING \<longrightarrow>
        cf_id (es_conflict e) = cf_id (es_conflict e') \<longrightarrow> k = k')"

text \<open>What may happen to rows: new ones appear, a pending one is closed, a closed one stays as it is.\<close>

definition rows_step :: "escalation_rows \<Rightarrow> escalation_rows \<Rightarrow> bool" where
  "rows_step rs rs' \<longleftrightarrow> (\<forall>k e. dget rs k = Some e \<longrightarrow>
     (\<exists>e'. dget rs' k = Some e' \<and> es_conflict e' = es_conflict e \<and> (es_status e \<noteq> ESC_PENDING \<longrightarrow> e' = e)))"

lemma rows_step_refl [simp]: "rows_step rs rs"
  by (auto simp: rows_step_def)

lemma rows_step_trans: "rows_step rs rs' \<Longrightarrow> rows_step rs' rs'' \<Longrightarrow> rows_step rs rs''"
  unfolding rows_step_def by metis

lemma rows_step_closed: "rows_step rs rs' \<Longrightarrow> dget rs k = Some e \<Longrightarrow> es_status e \<noteq> ESC_PENDING \<Longrightarrow> dget rs' k = Some e"
  unfolding rows_step_def by metis

lemma esc_create_ok:
  assumes "rows_ok rs" and "esc_create e rs = Inr rs'" and "escalation_check e = None"
  shows "rows_ok rs' \<and> rows_step rs rs' \<and> dget rs' (es_id e) = Some e"
proof -
  have new: "dget rs (es_id e) = None" and rs': "rs' = dput (es_id e) e rs"
    and none: "List.find (\<lambda>x. es_status x = ESC_PENDING \<and> cf_id (es_conflict x) = cf_id (es_conflict e)) (List.map snd rs) = None"
    using assms(2) by (auto simp: esc_create_def split: if_splits option.splits)
  have other: "cf_id (es_conflict x) \<noteq> cf_id (es_conflict e)" if "dget rs k = Some x" "es_status x = ESC_PENDING" for k x
    using none that(2) dget_Some_in [OF that(1)] by (force simp: find_None_iff)
  then have "rows_ok rs'" using assms(1,3) new unfolding rs' rows_ok_def by (simp split: if_split) metis
  then show ?thesis using new by (auto simp: rs' rows_step_def)
qed

lemma close_row_ok:
  assumes "rows_ok rs" and "dget rs k = Some e" and "es_status e = ESC_PENDING"
    and "es_id e' = es_id e" "es_conflict e' = es_conflict e" "es_status e' \<noteq> ESC_PENDING" "escalation_check e' = None"
  shows "rows_ok (dput k e' rs) \<and> rows_step rs (dput k e' rs)"
  using assms by (auto simp: rows_ok_def rows_step_def)

lemma closed_check:
  assumes "escalation_check e = None" and "es_status e = ESC_PENDING" and "st \<in> {ESC_EXPIRED, ESC_CANCELLED}"
    and "starts_with ''human:'' by \<or> starts_with ''system:'' by" and "not_blank by"
  shows "escalation_check (e\<lparr>es_status := st, es_decided_at := Some now, es_decided_by := Some by\<rparr>) = None"
  using assms by (auto simp: escalation_check_def check_status_shape_def check_winner_in_conflict_def check_decided_by_format_def
      split: if_splits option.splits)

lemma esc_cancel_ok:
  assumes "rows_ok rs" and "esc_cancel now k by rs = Inr (e, rs')"
    and "starts_with ''human:'' by \<or> starts_with ''system:'' by" and "not_blank by"
  shows "rows_ok rs' \<and> rows_step rs rs'"
proof -
  obtain row where row: "dget rs k = Some row" "es_status row = ESC_PENDING"
    "rs' = dput k (row\<lparr>es_status := ESC_CANCELLED, es_decided_at := Some now, es_decided_by := Some by\<rparr>) rs"
    using assms(2) by (auto simp: esc_cancel_def Let_def split: option.splits if_splits)
  have "escalation_check row = None" using assms(1) row(1) by (simp add: rows_ok_def)
  then show ?thesis unfolding row(3)
    using closed_check [OF _ row(2)] assms(3,4) by (intro close_row_ok [OF assms(1) row(1,2)]) simp_all
qed

lemma esc_apply_decision_ok:
  assumes "rows_ok rs" and "esc_apply_decision now k d by rs = Inr (e, rs')" and "decision_fields d"
    and "starts_with ''human:'' by" and "not_blank by" and "dget rs k = Some row"
    and "process_decision strategy t (es_conflict row) d by = Inr r"
  shows "rows_ok rs' \<and> rows_step rs rs' \<and> dget rs' k = Some e \<and>
    e = row\<lparr>es_status := ESC_DECIDED, es_decided_at := Some now, es_decided_by := Some by, es_decision := Some d\<rparr> \<and> es_status row = ESC_PENDING"
proof -
  let ?e = "row\<lparr>es_status := ESC_DECIDED, es_decided_at := Some now, es_decided_by := Some by, es_decision := Some d\<rparr>"
  have row: "es_status row = ESC_PENDING" "e = ?e" "rs' = dput k ?e rs"
    using assms(2,6) by (auto simp: esc_apply_decision_def Let_def split: if_splits)
  have "escalation_check row = None" using assms(1,6) by (simp add: rows_ok_def)
  moreover have "w \<in> cp_agent_id ` set (cf_positions (es_conflict row))" if "d = WinnerDecision w m" for w m
    using assms(7) that find_position_Some by (auto simp: process_decision_def winner_select_def split: DecisionStrategy.splits option.splits)
  ultimately have "escalation_check ?e = None"
    using assms(3-5) by (auto simp: escalation_check_def check_status_shape_def check_winner_in_conflict_def check_decided_by_format_def
        split: if_splits option.splits EscalationDecision.splits)
  then show ?thesis unfolding row(2,3) using row(1) close_row_ok [OF assms(1,6) row(1), of ?e] by simp
qed

lemma dget_mark_expired:
  "dget (snd (mark_expired now rs)) k = map_option (\<lambda>e. if is_overdue now e
     then e\<lparr>es_status := ESC_EXPIRED, es_decided_at := Some now, es_decided_by := Some ''system:expiry''\<rparr> else e) (dget rs k)"
  by (simp add: mark_expired_def map_of_map)

lemma expired_check:
  assumes "escalation_check e = None" and "is_overdue now e"
  shows "escalation_check (e\<lparr>es_status := ESC_EXPIRED, es_decided_at := Some now, es_decided_by := Some ''system:expiry''\<rparr>) = None"
  using assms by (intro closed_check) (auto simp: is_overdue_def starts_with_def not_blank_def py_isspace_def)

lemma mark_expired_ok:
  assumes "rows_ok rs"
  shows "rows_ok (snd (mark_expired now rs)) \<and> rows_step rs (snd (mark_expired now rs))"
proof -
  have "dkeys (snd (mark_expired now rs)) = dkeys rs" by (induction rs) (auto simp: mark_expired_def)
  then show ?thesis using assms
    by (auto simp: rows_ok_def rows_step_def dget_mark_expired expired_check is_overdue_def split: if_splits)
qed

subsection \<open>The invariant\<close>

definition decided_with :: "Escalation \<Rightarrow> EscalationDecision \<Rightarrow> bool" where
  "decided_with e d \<longleftrightarrow> es_status e = ESC_DECIDED \<and> es_decision e = Some d"

text \<open>A resolution that reports a human decision reports the one stored in the row.\<close>

definition reports_row :: "DecisionStrategy \<Rightarrow> Escalation \<Rightarrow> ConflictResolution \<Rightarrow> bool" where
  "reports_row strategy e r \<longleftrightarrow> cr_outcome r = ESCALATED_TO_HUMAN \<or>
     (\<exists>d by now. decided_with e d \<and> (by = ''human'' \<or> es_decided_by e = Some by) \<and>
        process_decision strategy now (es_conflict e) d by = Inr r)"

definition phase_ok :: "DecisionStrategy \<Rightarrow> Escalation \<Rightarrow> phase \<Rightarrow> bool" where
  "phase_ok strategy e p = (case p of
     Awaiting c \<Rightarrow> es_conflict e = c
   | Unregistering cause c \<Rightarrow> es_conflict e = c
   | Closing cause c \<Rightarrow> es_conflict e = c
   | Returned r \<Rightarrow> (case r of Inl _ \<Rightarrow> True | Inr x \<Rightarrow> reports_row strategy e x \<and> resolution_for (es_conflict e) x))"

definition futures_ok :: "escalation_rows \<Rightarrow> futures_registry \<Rightarrow> bool" where
  "futures_ok rs g \<longleftrightarrow> (\<forall>k d. dget (futures g) k = Some (Result d) \<longrightarrow> (\<exists>e. dget rs k = Some e \<and> decided_with e d))"

definition phases_ok :: "DecisionStrategy \<Rightarrow> escalation_rows \<Rightarrow> (string, phase) dict \<Rightarrow> bool" where
  "phases_ok strategy rs ps \<longleftrightarrow> (\<forall>k p. dget ps k = Some p \<longrightarrow> (\<exists>e. dget rs k = Some e \<and> phase_ok strategy e p))"

definition system_ok :: "DecisionStrategy \<Rightarrow> escalation_system \<Rightarrow> bool" where
  "system_ok strategy s \<longleftrightarrow> rows_ok (rows s) \<and> futures_ok (rows s) (registry s) \<and> phases_ok strategy (rows s) (resolvers s)"

lemma decided_step: "rows_step rs rs' \<Longrightarrow> dget rs k = Some e \<Longrightarrow> decided_with e d \<Longrightarrow> dget rs' k = Some e"
  by (rule rows_step_closed) (auto simp: decided_with_def)

lemma phase_step:
  assumes "rows_step rs rs'" and "dget rs k = Some e" and "phase_ok strategy e p"
  shows "\<exists>e'. dget rs' k = Some e' \<and> phase_ok strategy e' p"
proof (cases "es_status e = ESC_PENDING")
  case True
  then have "reports_row strategy e r \<Longrightarrow> cr_outcome r = ESCALATED_TO_HUMAN" for r by (auto simp: reports_row_def decided_with_def)
  moreover obtain e' where "dget rs' k = Some e'" "es_conflict e' = es_conflict e" using assms(1,2) by (auto simp: rows_step_def)
  ultimately show ?thesis using assms(3) by (auto simp: phase_ok_def reports_row_def split: phase.splits sum.splits)
next
  case False
  then show ?thesis using rows_step_closed [OF assms(1,2)] assms(3) by blast
qed

text \<open>Changing the rows keeps the rest of the invariant; changing one phase needs that phase.\<close>

lemma futures_ok_step: "rows_step rs rs' \<Longrightarrow> futures_ok rs g \<Longrightarrow> futures_ok rs' g"
  unfolding futures_ok_def using decided_step by metis

lemma phases_ok_step: "rows_step rs rs' \<Longrightarrow> phases_ok strategy rs ps \<Longrightarrow> phases_ok strategy rs' ps"
  unfolding phases_ok_def using phase_step by metis

lemma system_ok_rows:
  assumes "system_ok strategy s" and "rows_ok rs" and "rows_step (rows s) rs"
  shows "system_ok strategy (s\<lparr>rows := rs\<rparr>)"
  using assms futures_ok_step phases_ok_step unfolding system_ok_def by auto

lemma system_ok_phase:
  assumes "system_ok strategy s" and "dget (rows s) k = Some e" and "phase_ok strategy e p"
  shows "system_ok strategy (set_phase k p s)"
  using assms by (auto simp: system_ok_def set_phase_def phases_ok_def)

text \<open>A registry without new results.\<close>

definition no_new_results :: "futures_registry \<Rightarrow> futures_registry \<Rightarrow> bool" where
  "no_new_results g g' \<longleftrightarrow> (\<forall>k d. dget (futures g') k = Some (Result d) \<longrightarrow> dget (futures g) k = Some (Result d))"

lemma system_ok_registry:
  "system_ok strategy s \<Longrightarrow> no_new_results (registry s) g \<Longrightarrow> system_ok strategy (s\<lparr>registry := g\<rparr>)"
  by (auto simp: system_ok_def no_new_results_def futures_ok_def)

lemma no_new_results_ops [simp]:
  "no_new_results g (snd (future_cancel k g))" "no_new_results g (finish_future k CancelledFuture g)"
  "future_register k g = Inr g' \<Longrightarrow> no_new_results g g'"
  "future_register k g = Inr g' \<Longrightarrow> no_new_results g (snd (future_cancel k g'))"
  by (auto simp: no_new_results_def future_cancel_def finish_future_def future_register_def split: if_splits)

lemma system_ok_phase_at:
  assumes "system_ok strategy s" and "dget (resolvers s) k = Some p"
  obtains e where "dget (rows s) k = Some e" "phase_ok strategy e p" "escalation_check e = None"
proof -
  obtain e where "dget (rows s) k = Some e" "phase_ok strategy e p"
    using assms unfolding system_ok_def phases_ok_def by blast
  moreover then have "escalation_check e = None" using assms(1) by (simp add: system_ok_def rows_ok_def)
  ultimately show ?thesis using that by blast
qed

lemma escalated_for:
  assumes "valid_conflict c" and "not_blank by" and "not_blank t"
  shows "make_resolution (human_resolution now c ESCALATED_TO_HUMAN None None by t) =
      Inr (human_resolution now c ESCALATED_TO_HUMAN None None by t) \<and>
    resolution_for c (human_resolution now c ESCALATED_TO_HUMAN None None by t)"
proof -
  have "not_blank (cf_id c)" using assms(1) by (rule valid_conflict_positions)
  then show ?thesis using assms(2,3)
    by (simp add: make_resolution_def resolution_for_def valid_resolution_def resolution_check_def validate_outcome_consistency_def
        human_resolution_def no_winner_outcome_def)
qed

lemma process_decision_for:
  assumes "process_decision strategy now c d by = Inr r"
  shows "resolution_for c r \<and> cr_decided_by r = by \<and>
    (case d of WinnerDecision w t \<Rightarrow> cr_outcome r = RESOLVED_BY_HUMAN \<and> cr_winning_agent_id r = Some w
     | RejectDecision t \<Rightarrow> strategy = HYBRID_STRATEGY \<and> cr_outcome r = REJECTED_BY_HUMAN)"
  using assms find_position_Some
  by (auto simp: process_decision_def winner_select_def result_simps resolution_for_def human_resolution_def no_winner_outcome_def
      split: DecisionStrategy.splits EscalationDecision.splits option.splits)

subsection \<open>Every event keeps the invariant\<close>

lemma timeout_resolution_for:
  assumes "valid_conflict c"
  shows "\<exists>r. timeout_resolution now c = Inr r \<and> cr_outcome r = ESCALATED_TO_HUMAN \<and> resolution_for c r"
proof -
  have "not_blank ''human''" "not_blank (''No human decision was collected before the escalation timeout. '' @
      ''Conflict remains ESCALATED_TO_HUMAN; operators may still decide via the REST API.'')" by code_simp+
  then show ?thesis using escalated_for [OF assms] unfolding timeout_resolution_def by (fastforce simp: human_resolution_def)
qed

lemma cancelled_resolution_for:
  assumes "valid_conflict c"
  shows "\<exists>r. cancelled_resolution now c = Inr r \<and> cr_outcome r = ESCALATED_TO_HUMAN \<and> resolution_for c r"
proof -
  have "not_blank ''human''" "not_blank ''Escalation resolver was cancelled before a human decision could be collected.''" by code_simp+
  then show ?thesis using escalated_for [OF assms] unfolding cancelled_resolution_def by (fastforce simp: human_resolution_def)
qed

lemma escalation_check_conflict: "escalation_check e = None \<Longrightarrow> valid_conflict (es_conflict e)"
  by (simp add: escalation_check_def split: if_splits)

lemma by_human_prefix: "starts_with ''human:'' (human_id u)" "not_blank (human_id u)"
  by (simp_all add: human_id_def starts_with_def not_blank_def py_isspace_def)

lemma human_resolve_ok:
  assumes "system_ok strategy s" and "valid_conflict c" and "dget (rows s) (escalation_id u) = None"
  shows "system_ok strategy (snd (human_resolve timeout now u c s)) \<and> rows_step (rows s) (rows (snd (human_resolve timeout now u c s)))"
proof -
  let ?k = "escalation_id u"
  let ?e = "build_escalation timeout now ?k c"
  have valid: "escalation_check ?e = None"
    using assms(2) by (simp add: escalation_check_def build_escalation_def check_status_shape_def check_winner_in_conflict_def
        check_decided_by_format_def escalation_id_def not_blank_def py_isspace_def)
  show ?thesis
  proof (cases "future_register ?k (registry s)")
    case (Inr g)
    show ?thesis
    proof (cases "esc_create ?e (rows s)")
      case (Inl e)
      then show ?thesis using Inr assms(1) by (simp add: human_resolve_def Let_def system_ok_registry)
    next
      case (Inr rs)
      have rs: "rows_ok rs" "rows_step (rows s) rs" "dget rs ?k = Some ?e"
        using esc_create_ok [OF _ Inr valid] assms(1) by (auto simp: system_ok_def build_escalation_def)
      have "system_ok strategy (set_phase ?k (Awaiting c) (s\<lparr>rows := rs, registry := g\<rparr>))"
        using system_ok_registry [OF system_ok_rows [OF assms(1) rs(1,2)], of g] rs(3) \<open>future_register ?k (registry s) = Inr g\<close>
        by (intro system_ok_phase [of _ _ _ ?e]) (simp_all add: phase_ok_def build_escalation_def)
      then show ?thesis using rs(2) Inr \<open>future_register ?k (registry s) = Inr g\<close>
        by (simp add: human_resolve_def Let_def set_phase_def)
    qed
  qed (use assms(1) in \<open>simp add: human_resolve_def Let_def\<close>)
qed

lemma submit_decision_cases:
  obtains (refused) e where "submit_decision strategy True user k d now s = (Inl e, s)"
  | (accepted) u row r e rs where "user = Some u" "dget (rows s) k = Some row" "es_status row = ESC_PENDING"
      "process_decision strategy now (es_conflict row) d (human_id u) = Inr r"
      "esc_apply_decision now k d (human_id u) (rows s) = Inr (e, rs)"
      "submit_decision strategy True user k d now s = (Inr e, s\<lparr>rows := rs, registry := snd (future_resolve k d (registry s))\<rparr>)"
  by (cases user; cases "dget (rows s) k"; cases "es_status (the (dget (rows s) k)) = ESC_PENDING"; cases "process_decision strategy now (es_conflict (the (dget (rows s) k))) d (human_id (the user))";
      cases "esc_apply_decision now k d (human_id (the user)) (rows s)")
    (auto simp: submit_decision_def operator_id_def esc_get_def split: if_splits)

lemma futures_ok_resolve:
  assumes "futures_ok rs g" and "dget rs k = Some e" and "decided_with e d"
  shows "futures_ok rs (snd (future_resolve k d g))"
  using assms by (auto simp: futures_ok_def future_resolve_def finish_future_def)

lemma submit_decision_ok:
  assumes "system_ok strategy s" and "decision_fields d"
  shows "system_ok strategy (snd (submit_decision strategy True user k d now s)) \<and>
    rows_step (rows s) (rows (snd (submit_decision strategy True user k d now s)))"
proof (cases rule: submit_decision_cases [of strategy user k d now s])
  case (accepted u row r e rs)
  have ok: "rows_ok rs" "rows_step (rows s) rs" "dget rs k = Some e" "decided_with e d"
    using esc_apply_decision_ok [OF _ accepted(5) assms(2) by_human_prefix accepted(2,4)] assms(1)
    by (auto simp: system_ok_def decided_with_def)
  have "system_ok strategy (s\<lparr>rows := rs\<rparr>)" using system_ok_rows [OF assms(1) ok(1,2)] .
  then show ?thesis using ok(2) futures_ok_resolve [OF _ ok(3,4)] by (auto simp: accepted(6) system_ok_def)
qed (use assms(1) in simp)

lemma cancel_escalation_ok:
  assumes "system_ok strategy s"
  shows "system_ok strategy (snd (cancel_escalation True user k now s)) \<and>
    rows_step (rows s) (rows (snd (cancel_escalation True user k now s)))"
proof (cases "\<exists>u e rs. user = Some u \<and> esc_cancel now k (human_id u) (rows s) = Inr (e, rs)")
  case True
  then obtain u e rs where c: "user = Some u" "esc_cancel now k (human_id u) (rows s) = Inr (e, rs)" by blast
  have "rows_ok rs \<and> rows_step (rows s) rs"
    using assms by (intro esc_cancel_ok [OF _ c(2)]) (simp_all add: system_ok_def by_human_prefix)
  then show ?thesis
    using c system_ok_registry [OF system_ok_rows [OF assms], of rs] by (simp add: cancel_escalation_def operator_id_def)
next
  case False
  then have "snd (cancel_escalation True user k now s) = s"
    by (auto simp: cancel_escalation_def operator_id_def split: option.splits sum.splits)
  then show ?thesis using assms by simp
qed

lemma live_row:
  assumes "system_ok strategy s" and "dget (resolvers s) k = Some p"
    and "p = Awaiting c \<or> p = Unregistering x c \<or> p = Closing x c"
  shows "\<exists>e. dget (rows s) k = Some e \<and> es_conflict e = c \<and> escalation_check e = None"
proof -
  obtain e where "dget (rows s) k = Some e" "phase_ok strategy e p" "escalation_check e = None"
    using system_ok_phase_at [OF assms(1,2)] .
  then show ?thesis using assms(3) by (auto simp: phase_ok_def)
qed

lemma row_by:
  assumes "system_ok strategy s" and "dget (rows s) k = Some e" and "decided_with e d"
  shows "case es_decided_by e of None \<Rightarrow> False | Some by \<Rightarrow> by \<noteq> []"
proof -
  have "escalation_check e = None" using assms(1,2) by (simp add: system_ok_def rows_ok_def)
  then show ?thesis using assms(3)
    by (auto simp: escalation_check_def check_status_shape_def decided_with_def split: if_splits option.splits)
qed

lemma phase_ok_process:
  assumes "decided_with e d" and "by = ''human'' \<or> es_decided_by e = Some by"
  shows "phase_ok strategy e (Returned (process_decision strategy now (es_conflict e) d by))"
  using assms process_decision_for unfolding phase_ok_def reports_row_def by (fastforce split: sum.splits)

lemma resolver_wake_ok:
  assumes "system_ok strategy s"
  shows "system_ok strategy (resolver_wake strategy fault now k s)"
proof (cases "\<exists>c. dget (resolvers s) k = Some (Awaiting c)")
  case True
  then obtain c e where c: "dget (resolvers s) k = Some (Awaiting c)" and e: "dget (rows s) k = Some e" "es_conflict e = c"
    using live_row [OF assms] by blast
  show ?thesis
  proof (cases "dget (futures (registry s)) k")
    case (Some f)
    show ?thesis
    proof (cases f)
      case (Result d)
      then have d: "decided_with e d" using assms Some e(1) by (fastforce simp: system_ok_def futures_ok_def)
      have "resolve_decided_by fault k (rows s) = ''human'' \<or> es_decided_by e = Some (resolve_decided_by fault k (rows s))"
        using row_by [OF assms e(1) d] by (auto simp: resolve_decided_by_def esc_get_def e(1) split: option.splits)
      from phase_ok_process [OF d this] show ?thesis
        using system_ok_phase [OF assms e(1)] c Some Result e(2) by (simp add: resolver_wake_def)
    next
      case CancelledFuture
      then show ?thesis using system_ok_phase [OF assms e(1)] c Some e(2) by (simp add: resolver_wake_def phase_ok_def)
    qed (use assms c Some in \<open>simp add: resolver_wake_def\<close>)
  qed (use assms c in \<open>simp add: resolver_wake_def\<close>)
qed (use assms in \<open>auto simp: resolver_wake_def split: option.splits phase.splits\<close>)

lemma read_late_decision_ok:
  assumes "system_ok strategy s" and "dget (rows s) k = Some e" and "read_late_decision strategy fault now k (es_conflict e) s = Some r"
  shows "phase_ok strategy e (Returned r)"
proof -
  obtain d where d: "decided_with e d" "r = process_decision strategy now (es_conflict e) d
      (case es_decided_by e of None \<Rightarrow> ''human'' | Some by \<Rightarrow> if by = [] then ''human'' else by)"
    using assms(2,3) by (auto simp: read_late_decision_def esc_get_def decided_with_def
        split: if_split_asm EscalationStatus.split_asm option.split_asm)
  show ?thesis unfolding d(2) using row_by [OF assms(1,2) d(1)] by (intro phase_ok_process [OF d(1)]) (auto split: option.splits)
qed

lemma resolver_timeout_ok:
  assumes "system_ok strategy s"
  shows "system_ok strategy (resolver_timeout strategy fault now k s)"
proof (cases "\<exists>c. dget (resolvers s) k = Some (Awaiting c) \<and> dget (futures (registry s)) k = Some Waiting")
  case True
  then obtain c e where c: "dget (resolvers s) k = Some (Awaiting c)" "dget (futures (registry s)) k = Some Waiting"
    and e: "dget (rows s) k = Some e" "es_conflict e = c"
    using live_row [OF assms] by blast
  let ?s1 = "s\<lparr>registry := finish_future k CancelledFuture (registry s)\<rparr>"
  have s1: "system_ok strategy ?s1" using system_ok_registry [OF assms] by simp
  show ?thesis
  proof (cases "read_late_decision strategy fault now k c ?s1")
    case None
    then show ?thesis using system_ok_phase [OF s1, of k e] c e by (simp add: resolver_timeout_def phase_ok_def)
  next
    case (Some r)
    then have "phase_ok strategy e (Returned r)" using read_late_decision_ok [OF s1, of k e fault now r] e by simp
    then have "system_ok strategy (set_phase k (Returned r) (?s1\<lparr>registry := snd (future_cancel k (registry ?s1))\<rparr>))"
      using system_ok_registry [OF s1] e(1) by (intro system_ok_phase [of _ _ _ e]) simp_all
    then show ?thesis using c Some by (simp add: resolver_timeout_def)
  qed
qed (use assms in \<open>auto simp: resolver_timeout_def split: option.splits phase.splits future.splits\<close>)

lemma resolver_cancel_task_ok:
  assumes "system_ok strategy s"
  shows "system_ok strategy (resolver_cancel_task k s)"
proof (cases "\<exists>c. dget (resolvers s) k = Some (Awaiting c)")
  case True
  then obtain c e where c: "dget (resolvers s) k = Some (Awaiting c)" and e: "dget (rows s) k = Some e" "es_conflict e = c"
    using live_row [OF assms] by blast
  then show ?thesis
    using system_ok_phase [OF system_ok_registry [OF assms, of "finish_future k CancelledFuture (registry s)"], of k e]
      system_ok_phase [OF assms, of k e]
    by (auto simp: resolver_cancel_task_def phase_ok_def split: option.split future.split)
qed (use assms in \<open>auto simp: resolver_cancel_task_def split: option.splits phase.splits future.splits\<close>)

lemma system_ok_close:
  assumes "system_ok strategy s" and "rows_ok rs" "rows_step (rows s) rs" "dget (rows s) k = Some e"
    and "cr_outcome r = ESCALATED_TO_HUMAN" "resolution_for (es_conflict e) r"
  shows "system_ok strategy (set_phase k (Returned (Inr r)) (s\<lparr>rows := rs\<rparr>))"
proof -
  obtain e' where "dget rs k = Some e'" "es_conflict e' = es_conflict e" using assms(3,4) by (auto simp: rows_step_def)
  then show ?thesis
    using system_ok_phase [OF system_ok_rows [OF assms(1-3)], of k e' "Returned (Inr r)"] assms(5,6)
    by (simp add: phase_ok_def reports_row_def)
qed

lemma resolver_cleanup_ok:
  assumes "system_ok strategy s"
  shows "system_ok strategy (resolver_cleanup fault now k s) \<and> rows_step (rows s) (rows (resolver_cleanup fault now k s))"
proof -
  note close = system_ok_close [OF assms]
  have rows: "rows_ok (rows s)" using assms by (simp add: system_ok_def)
  consider (unregister) x c where "dget (resolvers s) k = Some (Unregistering x c)" | (timed) c where "dget (resolvers s) k = Some (Closing TimedOut c)"
    | (cancelled) c where "dget (resolvers s) k = Some (Closing TaskCancelled c)" | (other) "resolver_cleanup fault now k s = s"
  proof (cases "\<exists>x c. dget (resolvers s) k = Some (Closing x c)")
    case True
    then show ?thesis using that(2,3) by (metis cleanup_cause.exhaust)
  next
    case False
    then show ?thesis using that(1,4)
      by (cases "dget (resolvers s) k"; cases "the (dget (resolvers s) k)") (auto simp: resolver_cleanup_def)
  qed
  then show ?thesis
  proof cases
    case unregister
    then obtain e where "dget (rows s) k = Some e" "es_conflict e = c" using live_row [OF assms] by blast
    then show ?thesis
      using unregister system_ok_phase [OF system_ok_registry [OF assms, of "snd (future_cancel k (registry s))"], of k e]
      by (simp add: resolver_cleanup_def phase_ok_def set_phase_def)
  next
    case timed
    then obtain e where e: "dget (rows s) k = Some e" "es_conflict e = c" "escalation_check e = None" using live_row [OF assms] by blast
    obtain r where r: "timeout_resolution now c = Inr r" "cr_outcome r = ESCALATED_TO_HUMAN" "resolution_for c r"
      using timeout_resolution_for escalation_check_conflict e(2,3) by blast
    let ?rs = "if fault then rows s else snd (mark_expired now (rows s))"
    have "rows_ok ?rs" "rows_step (rows s) ?rs" using mark_expired_ok [OF rows] rows by simp_all
    with close [of ?rs k e r] e(1,2) r timed show ?thesis by (simp add: resolver_cleanup_def set_phase_def)
  next
    case cancelled
    then obtain e where e: "dget (rows s) k = Some e" "es_conflict e = c" "escalation_check e = None" using live_row [OF assms] by blast
    obtain r where r: "cancelled_resolution now c = Inr r" "cr_outcome r = ESCALATED_TO_HUMAN" "resolution_for c r"
      using cancelled_resolution_for escalation_check_conflict e(2,3) by blast
    let ?rs = "if fault then rows s
      else case esc_cancel now k ''system:resolver_cancelled'' (rows s) of Inl _ \<Rightarrow> rows s | Inr (_, rs) \<Rightarrow> rs"
    have "starts_with ''system:'' ''system:resolver_cancelled''" "not_blank ''system:resolver_cancelled''" by code_simp+
    then have "rows_ok ?rs \<and> rows_step (rows s) ?rs" using esc_cancel_ok [OF rows] rows by (auto split: sum.split)
    with close [of ?rs k e r] e(1,2) r cancelled show ?thesis by (simp add: resolver_cleanup_def set_phase_def)
  qed (use assms in simp)
qed

lemma resolver_rows [simp]:
  "rows (resolver_wake strategy fault now k s) = rows s" "rows (resolver_timeout strategy fault now k s) = rows s"
  "rows (resolver_cancel_task k s) = rows s"
  by (auto simp: resolver_wake_def resolver_timeout_def resolver_cancel_task_def set_phase_def Let_def
      split: option.splits phase.splits future.splits)

lemma esc_step_ok:
  assumes "system_ok strategy s" and "enabled ev s"
  shows "system_ok strategy (esc_step strategy timeout ev s) \<and> rows_step (rows s) (rows (esc_step strategy timeout ev s))"
proof -
  have "rows_ok (rows s)" using assms(1) by (simp add: system_ok_def)
  note sweep = mark_expired_ok [OF this] and ok = assms(1)
  show ?thesis
    using assms(2) human_resolve_ok [OF ok] submit_decision_ok [OF ok] cancel_escalation_ok [OF ok] resolver_wake_ok [OF ok]
      resolver_timeout_ok [OF ok] resolver_cancel_task_ok [OF ok] resolver_cleanup_ok [OF ok] sweep system_ok_rows [OF ok] ok
    by (cases ev) (simp_all add: esc_step_def enabled_def sweep_once_def)
qed

lemma esc_reach_ok: "esc_reach strategy timeout s \<Longrightarrow> system_ok strategy s"
proof (induction rule: esc_reach.induct)
  case initial
  show ?case by (simp add: system_ok_def rows_ok_def futures_ok_def phases_ok_def new_escalation_system_def)
next
  case (event s ev)
  then show ?case using esc_step_ok by blast
qed

subsection \<open>A waiting resolver can be reached\<close>

text \<open>As long as the row of a waiting resolver is pending, its future is registered and not done.\<close>

definition listening :: "escalation_system \<Rightarrow> bool" where
  "listening s \<longleftrightarrow> (\<forall>k c e. dget (resolvers s) k = Some (Awaiting c) \<longrightarrow> dget (rows s) k = Some e \<longrightarrow> es_status e = ESC_PENDING \<longrightarrow>
     dget (futures (registry s)) k = Some Waiting \<and> k \<in> registered (registry s))"

text \<open>Enough: the step leaves every other resolver alone, and that of \<open>j\<close> waits for nothing pending any more.\<close>

lemma listening_other:
  assumes "listening s"
    and "\<And>k. k \<noteq> j \<Longrightarrow> dget (resolvers s') k = dget (resolvers s) k \<and> dget (futures (registry s')) k = dget (futures (registry s)) k \<and>
      (k \<in> registered (registry s') \<longleftrightarrow> k \<in> registered (registry s))"
    and "\<And>k e. dget (rows s') k = Some e \<Longrightarrow> es_status e = ESC_PENDING \<Longrightarrow> \<exists>e. dget (rows s) k = Some e \<and> es_status e = ESC_PENDING"
    and "\<And>c e. dget (resolvers s') j = Some (Awaiting c) \<Longrightarrow> dget (rows s') j = Some e \<Longrightarrow> es_status e \<noteq> ESC_PENDING"
  shows "listening s'"
  using assms unfolding listening_def by metis

lemma future_ops_other [simp]:
  "k \<noteq> j \<Longrightarrow> dget (futures (snd (future_cancel j g))) k = dget (futures g) k"
  "k \<noteq> j \<Longrightarrow> k \<in> registered (snd (future_cancel j g)) \<longleftrightarrow> k \<in> registered g"
  "k \<noteq> j \<Longrightarrow> dget (futures (snd (future_resolve j d g))) k = dget (futures g) k"
  "k \<noteq> j \<Longrightarrow> k \<in> registered (snd (future_resolve j d g)) \<longleftrightarrow> k \<in> registered g"
  "k \<noteq> j \<Longrightarrow> dget (futures (finish_future j f g)) k = dget (futures g) k"
  "registered (finish_future j f g) = registered g"
  by (auto simp: future_cancel_def future_resolve_def finish_future_def)

lemma listening_open:
  assumes "listening s" and "system_ok strategy s" and fresh: "dget (rows s) (escalation_id u) = None"
  shows "listening (snd (human_resolve timeout now u c s))"
proof -
  let ?k = "escalation_id u"
  have idle: "dget (resolvers s) ?k = None"
    using system_ok_phase_at [OF assms(2), of ?k] fresh by (metis option.distinct(1) option.exhaust)
  show ?thesis
  proof (cases "future_register ?k (registry s)")
    case (Inr g)
    then have g: "g = \<lparr>futures = dput ?k Waiting (futures (registry s)), registered = insert ?k (registered (registry s))\<rparr>"
      by (auto simp: future_register_def split: if_splits)
    show ?thesis
    proof (cases "esc_create (build_escalation timeout now ?k c) (rows s)")
      case (Inl e)
      have "k \<noteq> ?k" if "dget (resolvers s) k = Some p" for k p using that idle by auto
      then show ?thesis using Inl Inr g assms(1) by (auto simp: human_resolve_def Let_def listening_def)
    next
      case (Inr rs)
      then have "rs = dput ?k (build_escalation timeout now ?k c) (rows s)"
        by (auto simp: esc_create_def build_escalation_def split: if_splits option.splits)
      then show ?thesis using Inr \<open>future_register ?k (registry s) = Inr g\<close> g assms(1)
        by (auto simp: human_resolve_def Let_def listening_def split: if_splits)
    qed
  qed (use assms(1) in \<open>simp add: human_resolve_def Let_def\<close>)
qed

lemma listening_submit:
  assumes "listening s"
  shows "listening (snd (submit_decision strategy True user k d now s))"
proof (cases rule: submit_decision_cases [of strategy user k d now s])
  case (accepted u row r e rs)
  then have "rs = dput k e (rows s)" "es_status e = ESC_DECIDED"
    by (auto simp: esc_apply_decision_def Let_def)
  then show ?thesis unfolding accepted(6) by (intro listening_other [OF assms, of k]) (auto split: if_splits)
qed (use assms in simp)

lemma listening_abandon:
  assumes "listening s"
  shows "listening (snd (cancel_escalation True user k now s))"
proof (cases "\<exists>u e rs. user = Some u \<and> esc_cancel now k (human_id u) (rows s) = Inr (e, rs)")
  case True
  then obtain u e rs where c: "user = Some u" "esc_cancel now k (human_id u) (rows s) = Inr (e, rs)" by blast
  then have "rs = dput k e (rows s)" "es_status e = ESC_CANCELLED" by (auto simp: esc_cancel_def Let_def split: option.splits if_splits)
  then show ?thesis using c
    by (intro listening_other [OF assms, of k]) (auto simp: cancel_escalation_def operator_id_def split: if_splits)
next
  case False
  then have "snd (cancel_escalation True user k now s) = s"
    by (auto simp: cancel_escalation_def operator_id_def split: option.splits sum.splits)
  then show ?thesis using assms by simp
qed

lemma mark_expired_pending:
  "dget (snd (mark_expired now rs)) k = Some e \<Longrightarrow> es_status e = ESC_PENDING \<Longrightarrow> dget rs k = Some e"
  by (auto simp: dget_mark_expired split: if_splits)

lemma listening_sweep: "listening s \<Longrightarrow> listening (sweep_once now s)"
  by (auto simp: listening_def sweep_once_def dest: mark_expired_pending)

text \<open>A move of the resolver of \<open>k\<close>: it leaves the wait, and closes rows at most.\<close>

lemma listening_move:
  assumes "listening s" and "\<And>c. p \<noteq> Awaiting c"
    and "\<And>j. j \<noteq> k \<Longrightarrow> dget (futures g) j = dget (futures (registry s)) j \<and> (j \<in> registered g \<longleftrightarrow> j \<in> registered (registry s))"
    and "\<And>j e. dget rs j = Some e \<Longrightarrow> es_status e = ESC_PENDING \<Longrightarrow> \<exists>e. dget (rows s) j = Some e \<and> es_status e = ESC_PENDING"
  shows "listening (set_phase k p (s\<lparr>rows := rs, registry := g\<rparr>))"
  using assms(2-) by (intro listening_other [OF assms(1), of k]) (simp_all add: set_phase_def)

lemmas listening_phase = listening_move [where rs = "rows s" and g = "registry s" and s = s for s, simplified]
  and listening_registry = listening_move [where rs = "rows s" and s = s for s, simplified]
  and listening_rows = listening_move [where g = "registry s" and s = s for s, simplified]

lemma listening_wake: "listening s \<Longrightarrow> listening (resolver_wake strategy fault now k s)"
  by (auto simp: resolver_wake_def intro: listening_phase split: option.splits phase.splits future.splits)

lemma listening_timeout: "listening s \<Longrightarrow> listening (resolver_timeout strategy fault now k s)"
  by (auto simp: resolver_timeout_def Let_def intro!: listening_registry split: option.splits phase.splits future.splits)

lemma listening_cancel_task: "listening s \<Longrightarrow> listening (resolver_cancel_task k s)"
  by (auto simp: resolver_cancel_task_def intro!: listening_registry intro: listening_phase split: option.splits phase.splits future.splits)

lemma listening_cleanup: "listening s \<Longrightarrow> listening (resolver_cleanup fault now k s)"
  by (auto simp: resolver_cleanup_def esc_cancel_def Let_def intro!: listening_registry listening_rows intro: listening_phase dest: mark_expired_pending
      split: option.splits phase.splits cleanup_cause.splits if_splits)

lemma esc_reach_listening: "esc_reach strategy timeout s \<Longrightarrow> listening s"
proof (induction rule: esc_reach.induct)
  case initial
  show ?case by (simp add: listening_def new_escalation_system_def)
next
  case (event s ev)
  note ih = event.IH
  show ?case using event.hyps(2) esc_reach_ok [OF event.hyps(1)] ih listening_open [OF ih] listening_submit [OF ih] listening_abandon [OF ih]
      listening_sweep [OF ih] listening_wake [OF ih] listening_timeout [OF ih] listening_cancel_task [OF ih] listening_cleanup [OF ih]
    by (cases ev) (simp_all add: esc_step_def enabled_def)
qed

subsection \<open>Properties\<close>

text \<open>
  In every state reached by resolvers, operators, time-outs, cancellations and sweeps, however they
  interleave, each row of the queue passes the validators of its model (although the store copies rows
  without validating them), is stored under its identifier, and at most one row of a conflict is pending.
\<close>

theorem escalation_rows_valid:
  assumes "esc_reach strategy timeout s"
  shows "(dget (rows s) k = Some e \<longrightarrow> escalation_check e = None \<and> es_id e = k) \<and>
    (dget (rows s) k = Some e \<and> dget (rows s) k' = Some e' \<and> es_status e = ESC_PENDING \<and> es_status e' = ESC_PENDING \<and>
     cf_id (es_conflict e) = cf_id (es_conflict e') \<longrightarrow> k = k')"
  using esc_reach_ok [OF assms] unfolding system_ok_def rows_ok_def by blast

text \<open>An answer stays as it was given.\<close>

lemma returned_stays:
  assumes "system_ok strategy s" and "enabled ev s" and "dget (resolvers s) k = Some (Returned x)"
  shows "dget (resolvers (esc_step strategy timeout ev s)) k = Some (Returned x)"
proof (cases ev)
  case (Open now u c)
  obtain e where "dget (rows s) k = Some e" using system_ok_phase_at [OF assms(1,3)] .
  then have "k \<noteq> escalation_id u" using assms(2) by (auto simp: Open enabled_def)
  then show ?thesis using assms(3) by (auto simp: Open esc_step_def human_resolve_def Let_def set_phase_def split: sum.splits)
next
  case (Submit user j d now)
  then show ?thesis using assms(3)
    by (cases rule: submit_decision_cases [of strategy user j d now s]) (simp_all add: esc_step_def)
next
  case (Abandon user j now)
  then show ?thesis using assms(3)
    by (auto simp: esc_step_def cancel_escalation_def split: sum.splits prod.splits)
next
  case (CleanUp fault now j)
  then show ?thesis using assms(3)
    by (cases "j = k") (auto simp: esc_step_def resolver_cleanup_def set_phase_def split: option.splits phase.splits cleanup_cause.splits)
qed (use assms(3) in \<open>auto simp: esc_step_def sweep_once_def resolver_wake_def resolver_timeout_def
    resolver_cancel_task_def set_phase_def Let_def split: option.splits phase.splits future.splits\<close>)

text \<open>
  Who an answer names: the operator of the row, except after a wake-up whose look-up of the row failed, when it is the
  generic \<open>human\<close>.
\<close>

definition named_operator :: "esc_event \<Rightarrow> Escalation \<Rightarrow> string option" where
  "named_operator ev e = (case ev of Wake True now k \<Rightarrow> Some ''human'' | _ \<Rightarrow> es_decided_by e)"

lemma returned_by:
  assumes ok: "system_ok strategy s" and "dget (resolvers (esc_step strategy timeout ev s)) k = Some (Returned (Inr r))"
    and "dget (resolvers s) k \<noteq> Some (Returned (Inr r))" and e: "dget (rows s) k = Some e"
  shows "cr_outcome r = ESCALATED_TO_HUMAN \<or>
    (\<exists>d by now. decided_with e d \<and> named_operator ev e = Some by \<and> process_decision strategy now (es_conflict e) d by = Inr r)"
proof (cases ev)
  case (Wake fault now j)
  then obtain c d where w: "dget (resolvers s) k = Some (Awaiting c)" "dget (futures (registry s)) k = Some (Result d)"
      "process_decision strategy now c d (resolve_decided_by fault k (rows s)) = Inr r"
    using assms(2,3) by (cases "j = k") (auto simp: esc_step_def resolver_wake_def set_phase_def split: option.splits phase.splits future.splits)
  have c: "es_conflict e = c" using live_row [OF ok w(1)] e by auto
  have d: "decided_with e d" using ok w(2) e by (fastforce simp: system_ok_def futures_ok_def)
  have "named_operator ev e = Some (resolve_decided_by fault k (rows s))"
    using row_by [OF ok e d] by (auto simp: Wake named_operator_def resolve_decided_by_def esc_get_def e split: option.splits bool.splits)
  then show ?thesis using w(3) c d by blast
next
  case (TimeOut fault now j)
  then obtain c where w: "dget (resolvers s) k = Some (Awaiting c)" "read_late_decision strategy fault now k c (s\<lparr>registry := finish_future k CancelledFuture (registry s)\<rparr>) = Some (Inr r)"
    using assms(2,3) by (cases "j = k")
      (auto simp: esc_step_def resolver_timeout_def set_phase_def Let_def split: option.splits phase.splits future.splits if_splits)
  have c: "es_conflict e = c" using live_row [OF ok w(1)] e by auto
  obtain d where d: "decided_with e d" "process_decision strategy now c d
      (case es_decided_by e of None \<Rightarrow> ''human'' | Some by \<Rightarrow> if by = [] then ''human'' else by) = Inr r"
    using w(2) e by (auto simp: read_late_decision_def esc_get_def decided_with_def split: if_split_asm EscalationStatus.split_asm option.split_asm)
  show ?thesis using d c row_by [OF ok e d(1)] by (auto simp: TimeOut named_operator_def split: option.splits)
next
  case (CleanUp fault now j)
  have jk: "j = k" using assms(2,3) by (rule_tac ccontr) (auto simp: CleanUp esc_step_def resolver_cleanup_def set_phase_def
        split: option.splits phase.splits cleanup_cause.splits)
  obtain x c where w: "dget (resolvers s) k = Some (Closing x c)" "timeout_resolution now c = Inr r \<or> cancelled_resolution now c = Inr r"
    using assms(2,3) by (auto simp: CleanUp jk esc_step_def resolver_cleanup_def set_phase_def split: option.splits phase.splits cleanup_cause.splits)
  have "valid_conflict c" using live_row [OF ok w(1), of c x] escalation_check_conflict by auto
  then show ?thesis using w(2) timeout_resolution_for [of c now] cancelled_resolution_for [of c now] by auto
next
  case (Open now u c)
  then show ?thesis using assms(2,3)
    by (cases "k = escalation_id u") (auto simp: esc_step_def human_resolve_def Let_def set_phase_def split: sum.splits)
next
  case (Submit user j d now)
  then show ?thesis using assms(2,3)
    by (cases rule: submit_decision_cases [of strategy user j d now s]) (simp_all add: esc_step_def)
next
  case (Abandon user j now)
  then show ?thesis using assms(2,3)
    by (auto simp: esc_step_def cancel_escalation_def split: sum.splits prod.splits)
next
  case (CancelTask j)
  then show ?thesis using assms(2,3)
    by (cases "k = j") (auto simp: esc_step_def resolver_cancel_task_def set_phase_def split: option.splits phase.splits future.splits)
qed (use assms(2,3) in \<open>simp add: esc_step_def sweep_once_def\<close>)

text \<open>
  C17: an escalation leaves PENDING once, and its resolver answers once. No event changes a row that is decided,
  expired or cancelled, and no event changes an answer that a resolver has returned. The event that makes the resolver
  answer makes it answer with a resolution for its conflict that either says ESCALATED_TO_HUMAN or is the decision
  that the row stores, and names the operator that the row stores; only a wake-up whose look-up of the row failed
  names the generic \<open>human\<close> instead.
\<close>

theorem escalation_decided_once:
  assumes "esc_reach strategy timeout s" and "enabled ev s" and "dget (rows s) k = Some e"
    and "s' = esc_step strategy timeout ev s"
  shows "(es_status e \<noteq> ESC_PENDING \<longrightarrow> dget (rows s') k = Some e) \<and>
    (\<forall>x. dget (resolvers s) k = Some (Returned x) \<longrightarrow> dget (resolvers s') k = Some (Returned x)) \<and>
    (\<forall>r. dget (resolvers s') k = Some (Returned (Inr r)) \<and> dget (resolvers s) k \<noteq> Some (Returned (Inr r)) \<longrightarrow>
      resolution_for (es_conflict e) r \<and>
      (cr_outcome r = ESCALATED_TO_HUMAN \<or>
       es_status e = ESC_DECIDED \<and> named_operator ev e = Some (cr_decided_by r) \<and>
       (case es_decision e of
          None \<Rightarrow> False
        | Some (WinnerDecision w t) \<Rightarrow> cr_outcome r = RESOLVED_BY_HUMAN \<and> cr_winning_agent_id r = Some w
        | Some (RejectDecision t) \<Rightarrow> cr_outcome r = REJECTED_BY_HUMAN)))"
proof -
  note ok = esc_reach_ok [OF assms(1)]
  note step = esc_step_ok [OF ok assms(2), of timeout, folded assms(4)]
  have fits: "resolution_for (es_conflict e) r" if ret: "dget (resolvers s') k = Some (Returned (Inr r))" for r
  proof -
    obtain e' where e': "dget (rows s') k = Some e'" "phase_ok strategy e' (Returned (Inr r))"
      using system_ok_phase_at [OF conjunct1 [OF step] ret] .
    then have "es_conflict e' = es_conflict e" using step assms(3) unfolding rows_step_def by (metis option.inject)
    then show ?thesis using e'(2) by (simp add: phase_ok_def)
  qed
  have "es_status e \<noteq> ESC_PENDING \<longrightarrow> dget (rows s') k = Some e" using step rows_step_closed assms(3) by blast
  moreover have "\<forall>x. dget (resolvers s) k = Some (Returned x) \<longrightarrow> dget (resolvers s') k = Some (Returned x)"
    using returned_stays [OF ok assms(2)] assms(4) by blast
  moreover note returned_by [OF ok _ _ assms(3), of timeout ev, folded assms(4)]
  ultimately show ?thesis using fits
    by (fastforce simp: decided_with_def dest!: process_decision_for split: EscalationDecision.splits)
qed

lemma process_decision_time:
  "process_decision strategy now c d by = Inr r \<Longrightarrow> process_decision strategy t c d by = Inr (r\<lparr>cr_resolved_at := t\<rparr>)"
  by (auto simp: process_decision_def winner_select_def human_resolution_def make_resolution_def resolution_check_def
      validate_outcome_consistency_def split: DecisionStrategy.splits EscalationDecision.splits option.splits if_splits)

text \<open>
  C18: while a resolver waits, a decision that the endpoint accepts is the one it returns: when it wakes,
  it answers with the winner (or the rejection) and the operator's identity, whatever happened in
  between opening and deciding.
\<close>

theorem accepted_decision_delivered:
  assumes "esc_reach strategy timeout s" and "dget (resolvers s) k = Some (Awaiting c)" and "decision_fields d"
    and "submit_decision strategy True (Some u) k d now s = (Inr e, s')"
  shows "\<exists>r. dget (resolvers (resolver_wake strategy False t k s')) k = Some (Returned (Inr r)) \<and> resolution_for c r \<and>
    cr_decided_by r = human_id u \<and>
    (case d of WinnerDecision w _ \<Rightarrow> cr_outcome r = RESOLVED_BY_HUMAN \<and> cr_winning_agent_id r = Some w
     | RejectDecision _ \<Rightarrow> cr_outcome r = REJECTED_BY_HUMAN)"
proof (cases rule: submit_decision_cases [of strategy "Some u" k d now s])
  case (accepted u' row r x rs)
  note ok = esc_reach_ok [OF assms(1)]
  have s': "s' = s\<lparr>rows := rs, registry := snd (future_resolve k d (registry s))\<rparr>" "u' = u" using accepted assms(4) by auto
  have row: "dget rs k = Some x" "es_decided_by x = Some (human_id u)"
    using esc_apply_decision_ok [OF _ accepted(5) assms(3) by_human_prefix accepted(2,4)] ok s'(2) by (auto simp: system_ok_def)
  have c: "es_conflict row = c" using live_row [OF ok assms(2)] accepted(2) by auto
  have fut: "dget (futures (registry s)) k = Some Waiting" "k \<in> registered (registry s)"
    using esc_reach_listening [OF assms(1)] assms(2) accepted(2,3) by (auto simp: listening_def)
  have ne: "human_id u \<noteq> []" by (simp add: human_id_def)
  have "dget (resolvers (resolver_wake strategy False t k s')) k = Some (Returned (process_decision strategy t c d (human_id u)))"
    using fut row ne assms(2) by (simp add: s'(1) resolver_wake_def future_resolve_def finish_future_def set_phase_def resolve_decided_by_def esc_get_def)
  moreover have "process_decision strategy t c d (human_id u) = Inr (r\<lparr>cr_resolved_at := t\<rparr>)"
    using process_decision_time accepted(4) c s'(2) by blast
  ultimately show ?thesis using process_decision_for by (fastforce split: EscalationDecision.splits)
qed (use assms(4) in simp)

text \<open>Running a list of events from the start, as long as they are enabled.\<close>

fun esc_run :: "DecisionStrategy \<Rightarrow> int option \<Rightarrow> esc_event list \<Rightarrow> escalation_system \<Rightarrow> escalation_system option" where
  "esc_run strategy timeout [] s = Some s"
| "esc_run strategy timeout (ev # evs) s =
     (if enabled ev s then esc_run strategy timeout evs (esc_step strategy timeout ev s) else None)"

lemma esc_run_reach: "esc_run strategy timeout evs s = Some s' \<Longrightarrow> esc_reach strategy timeout s \<Longrightarrow> esc_reach strategy timeout s'"
  by (induction evs arbitrary: s) (auto split: if_splits intro: esc_reach.event)

definition state_after :: "DecisionStrategy \<Rightarrow> int option \<Rightarrow> esc_event list \<Rightarrow> escalation_system" where
  "state_after strategy timeout evs = the (esc_run strategy timeout evs new_escalation_system)"

lemma state_after_reach: "esc_run strategy timeout evs new_escalation_system \<noteq> None \<Longrightarrow> esc_reach strategy timeout (state_after strategy timeout evs)"
  by (auto simp: state_after_def intro: esc_run_reach esc_reach.initial)

definition opened :: "esc_event list" where
  "opened = [Open 0 ''1'' two_seniors]"

definition operator_choice :: EscalationDecision where
  "operator_choice = WinnerDecision ''carl'' ''cheaper''"

definition decided_run :: "esc_event list" where
  "decided_run = opened @ [Submit (Some ''eve'') (escalation_id ''1'') operator_choice 5, Wake False 6 (escalation_id ''1'')]"

lemma decided_reach: "esc_reach WINNER_STRATEGY (Some 60) (state_after WINNER_STRATEGY (Some 60) decided_run)"
  by (rule state_after_reach) code_simp

lemma opened_reach: "esc_reach WINNER_STRATEGY (Some 60) (state_after WINNER_STRATEGY (Some 60) opened)"
  by (rule state_after_reach) code_simp

theorem escalation_rows_valid_witness:
  "dget (rows (state_after WINNER_STRATEGY (Some 60) decided_run)) (escalation_id ''1'') \<noteq> None \<and>
   escalation_check (the (dget (rows (state_after WINNER_STRATEGY (Some 60) decided_run)) (escalation_id ''1''))) = None"
proof -
  have "dget (rows (state_after WINNER_STRATEGY (Some 60) decided_run)) (escalation_id ''1'') \<noteq> None" by code_simp
  with escalation_rows_valid [OF decided_reach, of "escalation_id ''1''"] show ?thesis by auto
qed

definition submitted_run :: "esc_event list" where
  "submitted_run = opened @ [Submit (Some ''eve'') (escalation_id ''1'') operator_choice 5]"

theorem escalation_decided_once_witness:
  "let s = state_after WINNER_STRATEGY (Some 60) submitted_run; k = escalation_id ''1''; s' = esc_step WINNER_STRATEGY (Some 60) (Wake False 6 k) s in
   dget (rows s') k = dget (rows s) k \<and>
   (\<exists>r. dget (resolvers s') k = Some (Returned (Inr r)) \<and> cr_decided_by r = ''human:eve'' \<and> cr_winning_agent_id r = Some ''carl'')"
proof -
  let ?s = "state_after WINNER_STRATEGY (Some 60) submitted_run" and ?k = "escalation_id ''1''"
  let ?s' = "esc_step WINNER_STRATEGY (Some 60) (Wake False 6 ?k) ?s"
  have reach: "esc_reach WINNER_STRATEGY (Some 60) ?s" by (rule state_after_reach) code_simp
  have "case dget (resolvers ?s') ?k of Some (Returned (Inr r)) \<Rightarrow> cr_outcome r \<noteq> ESCALATED_TO_HUMAN | _ \<Rightarrow> False"
    "dget (resolvers ?s) ?k = Some (Awaiting two_seniors)" "dget (rows ?s) ?k \<noteq> None"
    "es_decision (the (dget (rows ?s) ?k)) = Some operator_choice" "es_decided_by (the (dget (rows ?s) ?k)) = Some ''human:eve''"
    "es_status (the (dget (rows ?s) ?k)) \<noteq> ESC_PENDING" by code_simp+
  then obtain r e where "dget (resolvers ?s') ?k = Some (Returned (Inr r))" "cr_outcome r \<noteq> ESCALATED_TO_HUMAN"
    "dget (resolvers ?s) ?k = Some (Awaiting two_seniors)" "dget (rows ?s) ?k = Some e" "es_decision e = Some operator_choice"
    "es_decided_by e = Some ''human:eve''" "es_status e \<noteq> ESC_PENDING"
    by (auto split: option.split_asm phase.split_asm sum.split_asm)
  moreover have "enabled (Wake False 6 ?k) ?s" by (simp add: enabled_def)
  ultimately show ?thesis using escalation_decided_once [OF reach _ _ refl, of "Wake False 6 ?k" ?k e]
    by (auto simp: Let_def named_operator_def operator_choice_def)
qed

theorem accepted_decision_delivered_witness:
  "let s = state_after WINNER_STRATEGY (Some 60) opened; k = escalation_id ''1'' in
   \<exists>r. dget (resolvers (resolver_wake WINNER_STRATEGY False 6 k
       (snd (submit_decision WINNER_STRATEGY True (Some ''eve'') k operator_choice 5 s)))) k = Some (Returned (Inr r)) \<and>
     cr_winning_agent_id r = Some ''carl'' \<and> cr_decided_by r = ''human:eve''"
proof -
  let ?s = "state_after WINNER_STRATEGY (Some 60) opened" and ?k = "escalation_id ''1''"
  have w: "dget (resolvers ?s) ?k = Some (Awaiting two_seniors)" "decision_fields operator_choice"
    "is_ok (fst (submit_decision WINNER_STRATEGY True (Some ''eve'') ?k operator_choice 5 ?s))" by code_simp+
  then obtain e where e: "submit_decision WINNER_STRATEGY True (Some ''eve'') ?k operator_choice 5 ?s =
      (Inr e, snd (submit_decision WINNER_STRATEGY True (Some ''eve'') ?k operator_choice 5 ?s))"
    by (metis is_okE prod.collapse)
  from accepted_decision_delivered [OF opened_reach w(1,2) e, of 6] show ?thesis
    by (auto simp: operator_choice_def human_id_def Let_def)
qed

text \<open>
  A decision can be accepted and lost: the resolver has read the row after its time-out but has not
  closed it yet when the operator's decision arrives. The row says DECIDED, the resolver answers
  ESCALATED_TO_HUMAN.
\<close>

theorem decision_lost_after_timeout:
  "\<exists>s e r. esc_reach WINNER_STRATEGY (Some 60) s \<and> dget (rows s) (escalation_id ''1'') = Some e \<and>
     es_status e = ESC_DECIDED \<and> es_decision e = Some operator_choice \<and>
     dget (resolvers s) (escalation_id ''1'') = Some (Returned (Inr r)) \<and> cr_outcome r = ESCALATED_TO_HUMAN"
proof -
  let ?k = "escalation_id ''1''"
  define evs where "evs = opened @ [TimeOut False 60 ?k, Submit (Some ''eve'') ?k operator_choice 60, CleanUp False 60 ?k, CleanUp False 60 ?k]"
  have run: "esc_run WINNER_STRATEGY (Some 60) evs new_escalation_system \<noteq> None" unfolding evs_def by code_simp
  have "case (dget (rows (state_after WINNER_STRATEGY (Some 60) evs)) ?k, dget (resolvers (state_after WINNER_STRATEGY (Some 60) evs)) ?k) of
      (Some e, Some (Returned (Inr r))) \<Rightarrow> es_status e = ESC_DECIDED \<and> es_decision e = Some operator_choice \<and> cr_outcome r = ESCALATED_TO_HUMAN
    | _ \<Rightarrow> False" unfolding evs_def by code_simp
  then show ?thesis using state_after_reach [OF run] by (auto split: option.split_asm phase.split_asm sum.split_asm)
qed

text \<open>
  Once a resolver has timed out and cleaned up, the queue is closed for its conflict: every later
  decision of an operator is refused with a conflict error, in every state that follows (the text of
  the returned resolution says that operators may still decide).
\<close>

theorem timed_out_escalation_closed:
  assumes "esc_reach strategy timeout s" and "dget (resolvers s) k = Some (Closing TimedOut c)"
    and "dget (rows s) k = Some e" and "es_expires_at e = Some t" and "t \<le> now"
  shows "\<exists>e'. dget (rows (resolver_cleanup False now k s)) k = Some e' \<and> es_status e' \<noteq> ESC_PENDING \<and>
    (\<forall>evs s'. esc_run strategy timeout evs (resolver_cleanup False now k s) = Some s' \<longrightarrow>
      dget (rows s') k = Some e' \<and> submit_decision strategy True (Some u) k d later s' = (Inl EscConflict, s'))"
proof -
  have s1: "esc_reach strategy timeout (resolver_cleanup False now k s)"
    using esc_reach.event [OF assms(1), of "CleanUp False now k"] by (simp add: enabled_def esc_step_def)
  have "\<exists>e'. dget (rows (resolver_cleanup False now k s)) k = Some e' \<and> es_status e' \<noteq> ESC_PENDING"
    using assms(2-5) by (auto simp: resolver_cleanup_def set_phase_def dget_mark_expired is_overdue_def)
  then obtain e' where e': "dget (rows (resolver_cleanup False now k s)) k = Some e'" "es_status e' \<noteq> ESC_PENDING" by blast
  have stays: "dget (rows s'') k = Some e'"
    if "esc_run strategy timeout evs s' = Some s''" "esc_reach strategy timeout s'" "dget (rows s') k = Some e'" for evs s' s''
    using that
  proof (induction evs arbitrary: s')
    case (Cons ev evs)
    then have en: "enabled ev s'" "esc_run strategy timeout evs (esc_step strategy timeout ev s') = Some s''" by (auto split: if_splits)
    have "dget (rows (esc_step strategy timeout ev s')) k = Some e'"
      using esc_step_ok [OF esc_reach_ok [OF Cons.prems(2)] en(1)] rows_step_closed Cons.prems(3) e'(2) by blast
    then show ?case using Cons.IH [OF en(2) esc_reach.event [OF Cons.prems(2) en(1)]] by simp
  qed simp
  then show ?thesis using e' s1 by (fastforce simp: submit_decision_def operator_id_def esc_get_def)
qed

definition timed_out_run :: "esc_event list" where
  "timed_out_run = opened @ [TimeOut False 60 (escalation_id ''1''), CleanUp False 60 (escalation_id ''1'')]"

theorem timed_out_escalation_closed_witness:
  "let s = resolver_cleanup False 60 (escalation_id ''1'') (state_after WINNER_STRATEGY (Some 60) timed_out_run) in
   submit_decision WINNER_STRATEGY True (Some ''eve'') (escalation_id ''1'') operator_choice 61 s = (Inl EscConflict, s)"
proof -
  let ?s = "state_after WINNER_STRATEGY (Some 60) timed_out_run" and ?k = "escalation_id ''1''"
  have reach: "esc_reach WINNER_STRATEGY (Some 60) ?s" by (rule state_after_reach) code_simp
  have "dget (resolvers ?s) ?k = Some (Closing TimedOut two_seniors)" "dget (rows ?s) ?k \<noteq> None"
    "es_expires_at (the (dget (rows ?s) ?k)) = Some 60" by code_simp+
  then obtain e where "dget (resolvers ?s) ?k = Some (Closing TimedOut two_seniors)" "dget (rows ?s) ?k = Some e" "es_expires_at e = Some 60" by auto
  from timed_out_escalation_closed [OF reach this, of 60 "''eve''" operator_choice 61]
  have "esc_run WINNER_STRATEGY (Some 60) [] (resolver_cleanup False 60 ?k ?s) = Some s' \<Longrightarrow>
      submit_decision WINNER_STRATEGY True (Some ''eve'') ?k operator_choice 61 s' = (Inl EscConflict, s')" for s'
    by blast
  then show ?thesis by (simp add: Let_def)
qed

subsection \<open>The human strategy keeps the contract\<close>

definition human_answers :: "Conflict \<Rightarrow> conflict_error + ConflictResolution \<Rightarrow> bool" where
  "human_answers c r \<longleftrightarrow> (\<exists>strategy timeout s k e. esc_reach strategy timeout s \<and> dget (rows s) k = Some e \<and> es_conflict e = c \<and>
     dget (resolvers s) k = Some (Returned r))"

lemma human_answers_for:
  assumes "human_answers c (Inr r)"
  shows "resolution_for c r"
proof -
  obtain strategy timeout s k e where s: "esc_reach strategy timeout s" "dget (rows s) k = Some e" "es_conflict e = c"
    "dget (resolvers s) k = Some (Returned (Inr r))" using assms by (auto simp: human_answers_def)
  have "phase_ok strategy e (Returned (Inr r))"
    using system_ok_phase_at [OF esc_reach_ok [OF s(1)] s(4)] s(2) by (metis option.inject)
  then show ?thesis using s(3) by (simp add: phase_ok_def)
qed

lemma human_dissents_for:
  assumes "valid_conflict c" and "resolution_for c r"
  shows "\<exists>ds. human_dissents draws c r = Inr ds \<and> dissents_for HUMAN c r ds"
proof -
  have "list_all (\<lambda>(k, v). not_blank k \<and> not_blank v) [(''escalation_reason'', ''human_review_required'')]" by code_simp
  moreover have "(if no_winner_outcome (cr_outcome r) then cf_positions c
      else filter (\<lambda>p. Some (cp_agent_id p) \<noteq> cr_winning_agent_id r) (cf_positions c)) = overruled c r"
    by (simp add: overruled_def)
  ultimately show ?thesis using overruled_dissents [OF assms] by (simp add: human_dissents_def)
qed

interpretation human: conflict_resolver HUMAN human_answers "human_dissents draws" for draws
  by unfold_locales (simp_all add: human_answers_for human_dissents_for)

end
