(* ===== verification/Message_Bus.thy ===== *)
theory Message_Bus
  imports Python_Text "HOL-Library.Sublist"
begin

text \<open>
  The in-memory message bus, \<^verbatim>\<open>communication/bus/memory.py\<close>, with the channel and message models, the
  per-agent dispatcher (\<^verbatim>\<open>dispatcher.py\<close>, \<^verbatim>\<open>handler.py\<close>) and the messenger facade (\<^verbatim>\<open>messenger.py\<close>).

  Every operation holds the bus lock across code that does not suspend, so it is one step. A \<open>receive\<close>
  is two steps: entering (checks, the queue, a waiter token for the future) and finishing, at a message,
  a timeout, a shutdown or an unsubscription. A waiter's queue object is the one in the dictionary for as
  long as its token is registered, because both are dropped together. The clock and the outcomes of
  handlers are arguments; identifiers that the code draws at random are arguments as well.
\<close>

subsection \<open>Data\<close>

datatype MessageType = TASK_UPDATE | QUESTION | ANNOUNCEMENT | REVIEW_REQUEST | APPROVAL | DELEGATION |
  STATUS_REPORT | ESCALATION | MEETING_CONTRIBUTION | HR_NOTIFICATION | DISSENT | CONTEXT_INJECTION

datatype MessagePriority = PRIORITY_LOW | PRIORITY_NORMAL | PRIORITY_HIGH | PRIORITY_URGENT

datatype ChannelType = TOPIC | DIRECT | BROADCAST

text \<open>The JSON data of a part is opaque text; so is the metadata of a message.\<close>

datatype Part = TextPart string | DataPart string | FilePart string "string option" | UriPart string

record Message =
  msg_id :: string
  timestamp :: time
  sender :: string
  msg_to :: string
  msg_type :: MessageType
  msg_priority :: MessagePriority
  msg_channel :: string
  parts :: "Part list"
  metadata :: string

definition valid_part :: "Part \<Rightarrow> bool" where
  "valid_part p \<longleftrightarrow>
     (case p of TextPart t \<Rightarrow> not_blank t | DataPart _ \<Rightarrow> True
      | FilePart u m \<Rightarrow> not_blank u \<and> opt_not_blank m | UriPart u \<Rightarrow> not_blank u)"

definition valid_message :: "Message \<Rightarrow> bool" where
  "valid_message m \<longleftrightarrow> not_blank (sender m) \<and> not_blank (msg_to m) \<and> not_blank (msg_channel m) \<and>
     parts m \<noteq> [] \<and> list_all valid_part (parts m)"

text \<open>\<open>Message.text\<close>: the first text part.\<close>

fun text_of :: "Part list \<Rightarrow> string" where
  "text_of [] = []"
| "text_of (TextPart t # ps) = t"
| "text_of (p # ps) = text_of ps"

record Channel =
  ch_name :: string
  ch_type :: ChannelType
  subscribers :: "string list"

definition valid_channel :: "Channel \<Rightarrow> bool" where
  "valid_channel c \<longleftrightarrow> not_blank (ch_name c) \<and> list_all not_blank (subscribers c) \<and> distinct (subscribers c)"

record DeliveryEnvelope =
  message :: Message
  env_channel :: string
  delivered_at :: time

record Subscription =
  sub_channel :: string
  subscriber_id :: string

record bus_config =
  config_channels :: "string list"
  max_messages_per_channel :: nat
  max_subscriber_queue_size :: nat

definition valid_bus_config :: "bus_config \<Rightarrow> bool" where
  "valid_bus_config c \<longleftrightarrow> list_all not_blank (config_channels c) \<and> distinct (config_channels c) \<and>
     0 < max_messages_per_channel c \<and> 0 < max_subscriber_queue_size c"

type_synonym key = "string \<times> string"

record bus =
  chans :: "(string, Channel) dict"
  queues :: "(key, DeliveryEnvelope list) dict"
  history :: "(string, Message list) dict"
  known_agents :: "string list"
  waiters :: "(key, nat list) dict"
  running :: bool
  shutdown_set :: bool
  idle_poll_count :: int
  last_idle_summary :: time

datatype bus_error = BusAlreadyRunning | BusNotRunning | ChannelNotFound string | ChannelAlreadyExists string |
  NotSubscribed string string | RecipientMismatch | ReservedSeparator string | DuplicateSubscribers

definition new_bus :: "time \<Rightarrow> bus" where
  "new_bus now = \<lparr>chans = [], queues = [], history = [], known_agents = [], waiters = [], running = False,
     shutdown_set = False, idle_poll_count = 0, last_idle_summary = now\<rparr>"

subsection \<open>Queues and histories\<close>

text \<open>\<open>put_nowait\<close> of a bounded queue, dropping the newest on overflow, and \<open>append\<close> of a bounded deque.\<close>

definition put_or_drop :: "nat \<Rightarrow> 'a list \<Rightarrow> 'a \<Rightarrow> 'a list" where
  "put_or_drop cap q e = (if 0 < cap \<and> cap \<le> length q then q else q @ [e])"

definition get_queue :: "'a list \<Rightarrow> 'a option \<times> 'a list" where
  "get_queue q = (case q of [] \<Rightarrow> (None, []) | e # r \<Rightarrow> (Some e, r))"

subsection \<open>Lifecycle\<close>

definition add_topic :: "string \<Rightarrow> bus \<Rightarrow> bus" where
  "add_topic name s = s\<lparr>chans := dput name \<lparr>ch_name = name, ch_type = TOPIC, subscribers = []\<rparr> (chans s),
     history := dput name [] (history s)\<rparr>"

definition start :: "bus_config \<Rightarrow> time \<Rightarrow> bus \<Rightarrow> (bus_error + unit) \<times> bus" where
  "start cfg now s =
     (if running s then (Inl BusAlreadyRunning, s)
      else (Inr (), fold add_topic (config_channels cfg)
        \<lparr>chans = [], queues = [], history = [], known_agents = [], waiters = [], running = True,
         shutdown_set = False, idle_poll_count = 0, last_idle_summary = now\<rparr>))"

definition stop :: "bus \<Rightarrow> bus" where
  "stop s = (if \<not> running s then s else s\<lparr>running := False, shutdown_set := True\<rparr>)"

subsection \<open>Sending\<close>

definition ensure_queue :: "string \<Rightarrow> string \<Rightarrow> bus \<Rightarrow> bus" where
  "ensure_queue ch sub s =
     (case dget (queues s) (ch, sub) of None \<Rightarrow> s\<lparr>queues := dput (ch, sub) [] (queues s)\<rparr> | Some _ \<Rightarrow> s)"

definition enqueue_or_drop :: "bus_config \<Rightarrow> string \<Rightarrow> string \<Rightarrow> DeliveryEnvelope \<Rightarrow> bus \<Rightarrow> bus" where
  "enqueue_or_drop cfg ch sub e s =
     s\<lparr>queues := dput (ch, sub) (put_or_drop (max_subscriber_queue_size cfg) (dget_or (queues s) (ch, sub) []) e) (queues s)\<rparr>"

definition record_history :: "bus_config \<Rightarrow> string \<Rightarrow> Message \<Rightarrow> bus \<Rightarrow> bus" where
  "record_history cfg ch m s =
     s\<lparr>history := dput ch (deque_append (max_messages_per_channel cfg) (dget_or (history s) ch []) m) (history s)\<rparr>"

definition targets :: "Channel \<Rightarrow> bus \<Rightarrow> string list" where
  "targets c s = (if ch_type c = BROADCAST then known_agents s else remdups (subscribers c))"

definition deliver :: "bus_config \<Rightarrow> string \<Rightarrow> Message \<Rightarrow> time \<Rightarrow> string \<Rightarrow> bus \<Rightarrow> bus" where
  "deliver cfg ch m now sub s =
     enqueue_or_drop cfg ch sub \<lparr>message = m, env_channel = ch, delivered_at = now\<rparr> (ensure_queue ch sub s)"

definition publish :: "bus_config \<Rightarrow> Message \<Rightarrow> time \<Rightarrow> bus \<Rightarrow> (bus_error + unit) \<times> bus" where
  "publish cfg m now s =
     (if \<not> running s then (Inl BusNotRunning, s)
      else case dget (chans s) (msg_channel m) of
             None \<Rightarrow> (Inl (ChannelNotFound (msg_channel m)), s)
           | Some c \<Rightarrow>
               (Inr (), fold (deliver cfg (msg_channel m) m now) (targets c s) (record_history cfg (msg_channel m) m s)))"

fun publish_batch :: "bus_config \<Rightarrow> (Message \<times> time) list \<Rightarrow> bus \<Rightarrow> (bus_error + unit) \<times> bus" where
  "publish_batch cfg [] s = (Inr (), s)"
| "publish_batch cfg ((m, now) # ms) s =
     (case publish cfg m now s of (Inl e, s') \<Rightarrow> (Inl e, s') | (Inr _, s') \<Rightarrow> publish_batch cfg ms s')"

definition sorted_pair :: "string \<Rightarrow> string \<Rightarrow> string \<times> string" where
  "sorted_pair a b = (if b < a then (b, a) else (a, b))"

definition direct_channel_name :: "string \<Rightarrow> string \<Rightarrow> string" where
  "direct_channel_name a b = (let (x, y) = sorted_pair a b in ''@'' @ x @ '':'' @ y)"

definition add_known :: "string \<Rightarrow> bus \<Rightarrow> bus" where
  "add_known a s = s\<lparr>known_agents := (if a \<in> set (known_agents s) then known_agents s else known_agents s @ [a])\<rparr>"

text \<open>The direct channel of a pair: created if missing, its queues, its subscribers.\<close>

definition open_direct :: "string \<Rightarrow> string \<Rightarrow> string \<Rightarrow> bus \<Rightarrow> bus" where
  "open_direct ch a b s =
     (if dget (chans s) ch = None
      then s\<lparr>chans := dput ch \<lparr>ch_name = ch, ch_type = DIRECT, subscribers = [a, b]\<rparr> (chans s), history := dput ch [] (history s)\<rparr>
      else s)"

definition join_pair :: "string \<Rightarrow> string \<Rightarrow> string \<Rightarrow> bus \<Rightarrow> bus" where
  "join_pair ch a b s =
     (case dget (chans s) ch of
        None \<Rightarrow> s
      | Some c \<Rightarrow>
          if {a, b} \<subseteq> set (subscribers c) then s
          else s\<lparr>chans := dput ch (c\<lparr>subscribers := sort (remdups (subscribers c @ [a, b]))\<rparr>) (chans s)\<rparr>)"

definition ensure_direct_channel :: "string \<Rightarrow> string \<times> string \<Rightarrow> bus \<Rightarrow> bus_error + bus" where
  "ensure_direct_channel ch pair s =
     (let (a, b) = pair in
      if dget (chans s) ch = None \<and> a = b then Inl DuplicateSubscribers
      else Inr (join_pair ch a b (fold (\<lambda>x t. ensure_queue ch x (add_known x t)) [a, b] (open_direct ch a b s))))"

definition deliver_to_pair :: "bus_config \<Rightarrow> string \<Rightarrow> string \<times> string \<Rightarrow> Message \<Rightarrow> time \<Rightarrow> bus \<Rightarrow> bus" where
  "deliver_to_pair cfg ch pair m now s =
     fold (\<lambda>x. enqueue_or_drop cfg ch x \<lparr>message = m, env_channel = ch, delivered_at = now\<rparr>)
       [fst pair, snd pair] (record_history cfg ch m s)"

definition send_direct :: "bus_config \<Rightarrow> Message \<Rightarrow> string \<Rightarrow> time \<Rightarrow> bus \<Rightarrow> (bus_error + unit) \<times> bus" where
  "send_direct cfg m recipient now s =
     (if msg_to m \<noteq> recipient then (Inl RecipientMismatch, s)
      else if CHR '':'' \<in> set (sender m) then (Inl (ReservedSeparator (sender m)), s)
      else if CHR '':'' \<in> set recipient then (Inl (ReservedSeparator recipient), s)
      else
        let pair = sorted_pair (sender m) recipient; ch = direct_channel_name (sender m) recipient in
        if \<not> running s then (Inl BusNotRunning, s)
        else case ensure_direct_channel ch pair s of
               Inl e \<Rightarrow> (Inl e, s)
             | Inr s1 \<Rightarrow> (Inr (), deliver_to_pair cfg ch pair m now s1))"

subsection \<open>Subscriptions\<close>

definition subscribe :: "string \<Rightarrow> string \<Rightarrow> bus \<Rightarrow> (bus_error + Subscription) \<times> bus" where
  "subscribe ch sub s =
     (if \<not> running s then (Inl BusNotRunning, s)
      else case dget (chans s) ch of
             None \<Rightarrow> (Inl (ChannelNotFound ch), s)
           | Some c \<Rightarrow>
               let s1 = add_known sub s; r = Inr \<lparr>sub_channel = ch, subscriber_id = sub\<rparr> in
               if sub \<in> set (subscribers c) then (r, s1)
               else (r, ensure_queue ch sub (s1\<lparr>chans := dput ch (c\<lparr>subscribers := subscribers c @ [sub]\<rparr>) (chans s1)\<rparr>)))"

definition unsubscribe :: "string \<Rightarrow> string \<Rightarrow> bus \<Rightarrow> (bus_error + unit) \<times> bus" where
  "unsubscribe ch sub s =
     (if \<not> running s then (Inl BusNotRunning, s)
      else case dget (chans s) ch of
             None \<Rightarrow> (Inl (NotSubscribed ch sub), s)
           | Some c \<Rightarrow>
               if sub \<notin> set (subscribers c) then (Inl (NotSubscribed ch sub), s)
               else (Inr (), s\<lparr>chans := dput ch (c\<lparr>subscribers := filter (\<lambda>x. x \<noteq> sub) (subscribers c)\<rparr>) (chans s),
                               queues := dpop (ch, sub) (queues s), waiters := dpop (ch, sub) (waiters s)\<rparr>))"

subsection \<open>Receiving\<close>

definition IDLE_SUMMARY_INTERVAL_SECONDS :: rat where
  "IDLE_SUMMARY_INTERVAL_SECONDS = 60"

definition receive_enter :: "string \<Rightarrow> string \<Rightarrow> nat \<Rightarrow> bus \<Rightarrow> (bus_error + unit) \<times> bus" where
  "receive_enter ch sub w s =
     (if \<not> running s then (Inl BusNotRunning, s)
      else case dget (chans s) ch of
             None \<Rightarrow> (Inl (ChannelNotFound ch), s)
           | Some c \<Rightarrow>
               if ch_type c \<noteq> BROADCAST \<and> sub \<notin> set (subscribers c) then (Inl (NotSubscribed ch sub), s)
               else let s1 = ensure_queue ch sub s in
                    (Inr (), s1\<lparr>waiters := dput (ch, sub) (w # dget_or (waiters s1) (ch, sub) []) (waiters s1)\<rparr>))"

definition log_receive_null :: "string \<Rightarrow> string \<Rightarrow> time \<Rightarrow> bus \<Rightarrow> bus" where
  "log_receive_null ch sub now s =
     (if shutdown_set s then s
      else if dget (queues s) (ch, sub) = None then s
      else let s1 = s\<lparr>idle_poll_count := idle_poll_count s + 1\<rparr> in
           if now - last_idle_summary s1 \<ge> IDLE_SUMMARY_INTERVAL_SECONDS
           then s1\<lparr>idle_poll_count := 0, last_idle_summary := now\<rparr> else s1)"

definition drop_waiter :: "key \<Rightarrow> nat \<Rightarrow> bus \<Rightarrow> bus" where
  "drop_waiter k w s =
     (case dget (waiters s) k of
        None \<Rightarrow> s
      | Some ws \<Rightarrow>
          let ws' = filter (\<lambda>x. x \<noteq> w) ws in
          s\<lparr>waiters := (if ws' = [] then dpop k (waiters s) else dput k ws' (waiters s))\<rparr>)"

definition receive_finish :: "string \<Rightarrow> string \<Rightarrow> nat \<Rightarrow> time \<Rightarrow> bus \<Rightarrow> DeliveryEnvelope option \<times> bus" where
  "receive_finish ch sub w now s =
     (if w \<in> set (dget_or (waiters s) (ch, sub) [])
      then let (r, q) = get_queue (dget_or (queues s) (ch, sub) []);
               s1 = drop_waiter (ch, sub) w (s\<lparr>queues := dput (ch, sub) q (queues s)\<rparr>) in
           (r, if r = None then log_receive_null ch sub now s1 else s1)
      else (None, log_receive_null ch sub now (drop_waiter (ch, sub) w s)))"

subsection \<open>Channels and history\<close>

definition create_channel :: "Channel \<Rightarrow> bus \<Rightarrow> (bus_error + Channel) \<times> bus" where
  "create_channel c s =
     (if \<not> running s then (Inl BusNotRunning, s)
      else if dget (chans s) (ch_name c) \<noteq> None then (Inl (ChannelAlreadyExists (ch_name c)), s)
      else (Inr c, s\<lparr>chans := dput (ch_name c) c (chans s), history := dput (ch_name c) [] (history s)\<rparr>))"

definition get_channel :: "string \<Rightarrow> bus \<Rightarrow> bus_error + Channel" where
  "get_channel ch s = (case dget (chans s) ch of None \<Rightarrow> Inl (ChannelNotFound ch) | Some c \<Rightarrow> Inr c)"

definition list_channels :: "bus \<Rightarrow> Channel list" where
  "list_channels s = List.map snd (chans s)"

definition get_channel_history :: "string \<Rightarrow> int option \<Rightarrow> bus \<Rightarrow> bus_error + Message list" where
  "get_channel_history ch limit s =
     (case dget (chans s) ch of
        None \<Rightarrow> Inl (ChannelNotFound ch)
      | Some _ \<Rightarrow>
          let msgs = dget_or (history s) ch [] in
          Inr (case limit of
                 None \<Rightarrow> msgs
               | Some n \<Rightarrow> if n \<le> 0 then [] else if n < int (length msgs) then drop (length msgs - nat n) msgs else msgs))"

subsection \<open>Dispatcher\<close>

definition priority_rank :: "MessagePriority \<Rightarrow> nat" where
  "priority_rank p = (case p of PRIORITY_LOW \<Rightarrow> 0 | PRIORITY_NORMAL \<Rightarrow> 1 | PRIORITY_HIGH \<Rightarrow> 2 | PRIORITY_URGENT \<Rightarrow> 3)"

definition priority_at_least :: "MessagePriority \<Rightarrow> MessagePriority \<Rightarrow> bool" where
  "priority_at_least v m \<longleftrightarrow> priority_rank v \<ge> priority_rank m"

record HandlerRegistration =
  handler_id :: string
  message_types :: "MessageType list"
  min_priority :: MessagePriority
  reg_name :: string

record DispatchResult =
  dr_message_id :: string
  handlers_succeeded :: nat
  handlers_failed :: nat
  dr_errors :: "string list"

type_synonym dispatcher = "(string, HandlerRegistration) dict"

text \<open>Registration refuses a blank name; handlers are asynchronous by type.\<close>

definition register :: "HandlerRegistration \<Rightarrow> dispatcher \<Rightarrow> string option \<times> dispatcher" where
  "register r d = (if not_blank (reg_name r) then (Some (handler_id r), dput (handler_id r) r d) else (None, d))"

definition deregister :: "string \<Rightarrow> dispatcher \<Rightarrow> bool \<times> dispatcher" where
  "deregister h d = (dget d h \<noteq> None, dpop h d)"

definition matches :: "HandlerRegistration \<Rightarrow> Message \<Rightarrow> bool" where
  "matches r m \<longleftrightarrow>
     \<not> (message_types r \<noteq> [] \<and> msg_type m \<notin> set (message_types r)) \<and> priority_at_least (msg_priority m) (min_priority r)"

text \<open>The outcome of a handler is the text of its exception, if any.\<close>

definition dispatch :: "(string \<Rightarrow> Message \<Rightarrow> string option) \<Rightarrow> Message \<Rightarrow> dispatcher \<Rightarrow> DispatchResult" where
  "dispatch handle m d =
     (let matched = filter (\<lambda>r. matches r m) (List.map snd d) in
      if matched = [] then \<lparr>dr_message_id = msg_id m, handlers_succeeded = 0, handlers_failed = 0, dr_errors = []\<rparr>
      else let errors = List.map (\<lambda>r. handle (handler_id r) m) matched;
               error_msgs = List.map the (filter (\<lambda>e. e \<noteq> None) errors) in
           \<lparr>dr_message_id = msg_id m, handlers_succeeded = length matched - length error_msgs,
            handlers_failed = length error_msgs, dr_errors = error_msgs\<rparr>)"

definition handlers_matched :: "DispatchResult \<Rightarrow> nat" where
  "handlers_matched r = handlers_succeeded r + handlers_failed r"

subsection \<open>Messenger\<close>

datatype messenger_error = ContentAndParts | ContentBlank | PartsEmpty | NoContent | InvalidMessage | BusError bus_error

definition resolve_parts :: "string option \<Rightarrow> Part list option \<Rightarrow> messenger_error + Part list" where
  "resolve_parts content ps =
     (case (content, ps) of
        (Some _, Some _) \<Rightarrow> Inl ContentAndParts
      | (Some c, None) \<Rightarrow> if not_blank c then Inr [TextPart c] else Inl ContentBlank
      | (None, Some ps) \<Rightarrow> if ps = [] then Inl PartsEmpty else Inr ps
      | (None, None) \<Rightarrow> Inl NoContent)"

text \<open>The message of a sending method, with its id and timestamp drawn, and its validation.\<close>

definition build_message ::
  "string \<Rightarrow> string \<Rightarrow> time \<Rightarrow> string \<Rightarrow> string \<Rightarrow> MessageType \<Rightarrow> MessagePriority \<Rightarrow> Part list \<Rightarrow> messenger_error + Message" where
  "build_message agent_id uid now to ch ty pr ps =
     (let m = \<lparr>msg_id = uid, timestamp = now, sender = agent_id, msg_to = to, msg_type = ty, msg_priority = pr,
               msg_channel = ch, parts = ps, metadata = []\<rparr> in
      if valid_message m then Inr m else Inl InvalidMessage)"

definition messenger_send ::
  "bus_config \<Rightarrow> string \<Rightarrow> string \<Rightarrow> time \<Rightarrow> time \<Rightarrow> string \<Rightarrow> string \<Rightarrow> string option \<Rightarrow> Part list option \<Rightarrow> MessageType \<Rightarrow>
   MessagePriority \<Rightarrow> bus \<Rightarrow> (messenger_error + Message) \<times> bus" where
  "messenger_send cfg agent_id uid now sent to ch content ps ty pr s =
     (case resolve_parts content ps of
        Inl e \<Rightarrow> (Inl e, s)
      | Inr resolved \<Rightarrow>
          case build_message agent_id uid now to ch ty pr resolved of
            Inl e \<Rightarrow> (Inl e, s)
          | Inr m \<Rightarrow> case publish cfg m sent s of (Inl e, s') \<Rightarrow> (Inl (BusError e), s') | (Inr _, s') \<Rightarrow> (Inr m, s'))"

definition messenger_send_direct ::
  "bus_config \<Rightarrow> string \<Rightarrow> string \<Rightarrow> time \<Rightarrow> time \<Rightarrow> string \<Rightarrow> string option \<Rightarrow> Part list option \<Rightarrow> MessageType \<Rightarrow>
   MessagePriority \<Rightarrow> bus \<Rightarrow> (messenger_error + Message) \<times> bus" where
  "messenger_send_direct cfg agent_id uid now sent to content ps ty pr s =
     (case resolve_parts content ps of
        Inl e \<Rightarrow> (Inl e, s)
      | Inr resolved \<Rightarrow>
          case build_message agent_id uid now to (direct_channel_name agent_id to) ty pr resolved of
            Inl e \<Rightarrow> (Inl e, s)
          | Inr m \<Rightarrow> case send_direct cfg m to sent s of (Inl e, s') \<Rightarrow> (Inl (BusError e), s') | (Inr _, s') \<Rightarrow> (Inr m, s'))"

definition messenger_broadcast ::
  "bus_config \<Rightarrow> string \<Rightarrow> string \<Rightarrow> time \<Rightarrow> time \<Rightarrow> string option \<Rightarrow> Part list option \<Rightarrow> MessageType \<Rightarrow>
   MessagePriority \<Rightarrow> string \<Rightarrow> bus \<Rightarrow> (messenger_error + Message) \<times> bus" where
  "messenger_broadcast cfg agent_id uid now sent content ps ty pr ch s =
     messenger_send cfg agent_id uid now sent ch ch content ps ty pr s"

definition messenger_register :: "HandlerRegistration \<Rightarrow> dispatcher option \<Rightarrow> string option \<times> dispatcher option" where
  "messenger_register r d = (let (h, d') = register r (case d of None \<Rightarrow> [] | Some d \<Rightarrow> d) in (h, Some d'))"

definition messenger_deregister :: "string \<Rightarrow> dispatcher option \<Rightarrow> bool \<times> dispatcher option" where
  "messenger_deregister h d =
     (case d of None \<Rightarrow> (False, None) | Some d \<Rightarrow> let (r, d') = deregister h d in (r, Some d'))"

definition messenger_dispatch :: "(string \<Rightarrow> Message \<Rightarrow> string option) \<Rightarrow> Message \<Rightarrow> dispatcher option \<Rightarrow> DispatchResult" where
  "messenger_dispatch handle m d =
     (case d of
        None \<Rightarrow> \<lparr>dr_message_id = msg_id m, handlers_succeeded = 0, handlers_failed = 0, dr_errors = []\<rparr>
      | Some d \<Rightarrow> dispatch handle m d)"

subsection \<open>Steps\<close>

datatype bus_op = Publish Message time | SendDirect Message string time | Subscribe string string | Unsubscribe string string |
  ReceiveEnter string string nat | ReceiveFinish string string nat time | CreateChannel Channel | Start time | Stop

fun bus_step :: "bus_config \<Rightarrow> bus_op \<Rightarrow> bus \<Rightarrow> DeliveryEnvelope option \<times> bus" where
  "bus_step cfg (Publish m now) s = (None, snd (publish cfg m now s))"
| "bus_step cfg (SendDirect m recipient now) s = (None, snd (send_direct cfg m recipient now s))"
| "bus_step cfg (Subscribe ch sub) s = (None, snd (subscribe ch sub s))"
| "bus_step cfg (Unsubscribe ch sub) s = (None, snd (unsubscribe ch sub s))"
| "bus_step cfg (ReceiveEnter ch sub w) s = (None, snd (receive_enter ch sub w s))"
| "bus_step cfg (ReceiveFinish ch sub w now) s = receive_finish ch sub w now s"
| "bus_step cfg (CreateChannel c) s = (None, snd (create_channel c s))"
| "bus_step cfg (Start now) s = (None, snd (start cfg now s))"
| "bus_step cfg Stop s = (None, stop s)"

subsection \<open>A bounded queue\<close>

datatype 'a queue_event = Put 'a | Get

fun queue_run :: "('q \<Rightarrow> 'a \<Rightarrow> 'q) \<Rightarrow> ('q \<Rightarrow> 'a option \<times> 'q) \<Rightarrow> 'a queue_event list \<Rightarrow> 'q \<Rightarrow> 'a list \<times> 'q" where
  "queue_run put get [] q = ([], q)"
| "queue_run put get (Put x # es) q = queue_run put get es (put q x)"
| "queue_run put get (Get # es) q =
     (let (r, q1) = get q; (rs, q2) = queue_run put get es q1 in (case r of None \<Rightarrow> rs | Some x \<Rightarrow> x # rs, q2))"

fun puts :: "'a queue_event list \<Rightarrow> 'a list" where
  "puts [] = []"
| "puts (Put x # es) = x # puts es"
| "puts (Get # es) = puts es"

text \<open>What a subscriber relies on: a bounded queue that drops the newest element when it is full.\<close>

locale bounded_queue =
  fixes put :: "'q \<Rightarrow> 'a \<Rightarrow> 'q" and get :: "'q \<Rightarrow> 'a option \<times> 'q" and items :: "'q \<Rightarrow> 'a list" and cap :: nat
  assumes put_law: "items (put q x) = (if length (items q) < cap then items q @ [x] else items q)"
    and get_empty: "items q = [] \<Longrightarrow> get q = (r, q') \<Longrightarrow> r = None \<and> items q' = []"
    and get_head: "items q = x # xs \<Longrightarrow> get q = (r, q') \<Longrightarrow> r = Some x \<and> items q' = xs"
begin

lemma get_items: "get q = (r, q') \<Longrightarrow> items q = (case r of None \<Rightarrow> [] | Some x \<Rightarrow> [x]) @ items q'"
  by (cases "items q") (auto dest: get_empty get_head)

lemma run_fifo: "queue_run put get es q = (rs, q') \<Longrightarrow> subseq (rs @ items q') (items q @ puts es)"
proof (induction es arbitrary: q rs q')
  case (Cons e es)
  show ?case
  proof (cases e)
    case (Put x)
    then have "subseq (rs @ items q') (items (put q x) @ puts es)" using Cons by simp
    moreover have "subseq (items (put q x) @ puts es) (items q @ x # puts es)"
      by (auto simp: put_law intro: list_emb_append_mono)
    ultimately show ?thesis using Put subseq_order.order_trans by fastforce
  next
    case Get
    obtain r q1 rs1 where g: "get q = (r, q1)" "queue_run put get es q1 = (rs1, q')"
        "rs = (case r of None \<Rightarrow> [] | Some x \<Rightarrow> [x]) @ rs1"
      using Cons.prems Get by (auto split: prod.splits option.splits)
    show ?thesis using Cons.IH [OF g(2)] get_items [OF g(1)] g(3) Get by (auto intro: list_emb_append_mono)
  qed
qed simp

lemma run_lossless:
  "queue_run put get es q = (rs, q') \<Longrightarrow> length (items q) + length (puts es) \<le> cap \<Longrightarrow> rs @ items q' = items q @ puts es"
proof (induction es arbitrary: q rs q')
  case (Cons e es)
  show ?case
  proof (cases e)
    case (Put x)
    have "items (put q x) = items q @ [x]" using Cons.prems(2) Put by (simp add: put_law)
    then show ?thesis using Cons.IH [of "put q x" rs q'] Cons.prems Put by simp
  next
    case Get
    obtain r q1 rs1 where g: "get q = (r, q1)" "queue_run put get es q1 = (rs1, q')"
        "rs = (case r of None \<Rightarrow> [] | Some x \<Rightarrow> [x]) @ rs1"
      using Cons.prems Get by (auto split: prod.splits option.splits)
    show ?thesis using Cons.IH [OF g(2)] get_items [OF g(1)] g(3) Get Cons.prems(2) by (auto split: option.splits)
  qed
qed simp

lemma run_bounded: "queue_run put get es q = (rs, q') \<Longrightarrow> length (items q) \<le> cap \<Longrightarrow> length (items q') \<le> cap"
proof (induction es arbitrary: q rs q')
  case (Cons e es)
  show ?case
  proof (cases e)
    case (Put x)
    then show ?thesis using Cons.IH [of "put q x" rs q'] Cons.prems by (simp add: put_law)
  next
    case Get
    obtain r q1 rs1 where g: "get q = (r, q1)" "queue_run put get es q1 = (rs1, q')"
      using Cons.prems Get by (auto split: prod.splits)
    show ?thesis using Cons.IH [OF g(2)] get_items [OF g(1)] Cons.prems(2) by simp
  qed
qed simp

end

interpretation mailbox: bounded_queue "put_or_drop (Suc n)" get_queue "\<lambda>q. q" "Suc n" for n
  by unfold_locales (auto simp: put_or_drop_def get_queue_def)


subsection \<open>The queue of a subscription\<close>

definition mail :: "bus \<Rightarrow> key \<Rightarrow> DeliveryEnvelope list" where
  "mail s k = dget_or (queues s) k []"

text \<open>The envelopes an operation addresses to a subscription, and whether it takes one out.\<close>

fun key_events :: "key \<Rightarrow> bus_op \<Rightarrow> bus \<Rightarrow> DeliveryEnvelope queue_event list" where
  "key_events k (Publish m now) s =
     (case dget (chans s) (msg_channel m) of
        Some c \<Rightarrow> if running s \<and> (msg_channel m, snd k) = k \<and> snd k \<in> set (targets c s)
                  then [Put \<lparr>message = m, env_channel = msg_channel m, delivered_at = now\<rparr>] else []
      | None \<Rightarrow> [])"
| "key_events k (SendDirect m recipient now) s =
     (let ch = direct_channel_name (sender m) recipient in
      if running s \<and> msg_to m = recipient \<and> CHR '':'' \<notin> set (sender m) \<and> CHR '':'' \<notin> set recipient \<and>
         (sender m \<noteq> recipient \<or> dget (chans s) ch \<noteq> None)
      then List.map (\<lambda>_. Put \<lparr>message = m, env_channel = ch, delivered_at = now\<rparr>)
             (filter (\<lambda>x. (ch, x) = k) [sender m, recipient])
      else [])"
| "key_events k (ReceiveFinish ch sub w now) s = (if (ch, sub) = k \<and> w \<in> set (dget_or (waiters s) k []) then [Get] else [])"
| "key_events k op s = []"

lemma mail_simps [simp]:
  "mail (s\<lparr>chans := a\<rparr>) = mail s" "mail (s\<lparr>history := b\<rparr>) = mail s" "mail (s\<lparr>known_agents := c\<rparr>) = mail s"
  "mail (s\<lparr>waiters := d\<rparr>) = mail s" "mail (s\<lparr>running := e\<rparr>) = mail s" "mail (s\<lparr>shutdown_set := f\<rparr>) = mail s"
  "mail (s\<lparr>idle_poll_count := g\<rparr>) = mail s" "mail (s\<lparr>last_idle_summary := h\<rparr>) = mail s"
  "mail (s\<lparr>queues := dput k q (queues s)\<rparr>) = (mail s)(k := q)"
  by (auto simp: mail_def fun_eq_iff)

lemma mail_ensure_queue [simp]: "mail (ensure_queue ch sub s) = mail s"
  by (auto simp: ensure_queue_def mail_def dget_or_def fun_eq_iff split: option.splits)

lemma mail_add_known [simp]: "mail (add_known a s) = mail s"
  by (simp add: add_known_def)

lemma mail_record_history [simp]: "mail (record_history cfg ch m s) = mail s"
  by (simp add: record_history_def)

lemma mail_log_receive_null [simp]: "mail (log_receive_null ch sub now s) = mail s"
  by (simp add: log_receive_null_def Let_def)

lemma mail_drop_waiter [simp]: "mail (drop_waiter k w s) = mail s"
  by (simp add: drop_waiter_def Let_def split: option.splits)

lemma mail_enqueue [simp]:
  "mail (enqueue_or_drop cfg ch sub e s) = (mail s)((ch, sub) := put_or_drop (max_subscriber_queue_size cfg) (mail s (ch, sub)) e)"
  by (auto simp: enqueue_or_drop_def mail_def fun_eq_iff)

lemma mail_deliver_all:
  "distinct subs \<Longrightarrow> mail (fold (deliver cfg ch m now) subs s) k =
     (if fst k = ch \<and> snd k \<in> set subs
      then put_or_drop (max_subscriber_queue_size cfg) (mail s k) \<lparr>message = m, env_channel = ch, delivered_at = now\<rparr>
      else mail s k)"
proof (induction subs arbitrary: s)
  case (Cons x subs)
  then show ?case by (cases k) (auto simp: deliver_def)
qed simp

lemma mail_ensure_direct: "ensure_direct_channel ch pair s = Inr s1 \<Longrightarrow> mail s1 = mail s"
  by (auto simp: ensure_direct_channel_def open_direct_def join_pair_def split: prod.splits if_splits option.splits)

text \<open>What an operation hands to the subscriber of a key.\<close>

fun received :: "key \<Rightarrow> bus_op \<Rightarrow> DeliveryEnvelope option \<Rightarrow> DeliveryEnvelope list" where
  "received k (ReceiveFinish ch sub w now) (Some e) = (if (ch, sub) = k then [e] else [])"
| "received k op r = []"

text \<open>The operations that drop the queue of a subscription.\<close>

fun drops :: "key \<Rightarrow> bus_op \<Rightarrow> bool" where
  "drops k (Start now) = True"
| "drops k (Unsubscribe ch sub) = ((ch, sub) = k)"
| "drops k op = False"

abbreviation mail_run :: "bus_config \<Rightarrow> DeliveryEnvelope queue_event list \<Rightarrow> DeliveryEnvelope list \<Rightarrow>
    DeliveryEnvelope list \<times> DeliveryEnvelope list" where
  "mail_run cfg \<equiv> queue_run (put_or_drop (max_subscriber_queue_size cfg)) get_queue"

definition tidy :: "bus \<Rightarrow> bool" where
  "tidy s \<longleftrightarrow> distinct (known_agents s) \<and> (\<forall>ch c. dget (chans s) ch = Some c \<longrightarrow> distinct (subscribers c))"

lemma targets_distinct: "tidy s \<Longrightarrow> dget (chans s) ch = Some c \<Longrightarrow> distinct (targets c s)"
  by (simp add: targets_def tidy_def)

lemma mail_publish:
  assumes "tidy s"
  shows "mail_run cfg (key_events k (Publish m now) s) (mail s k) = ([], mail (snd (publish cfg m now s)) k)"
proof (cases "running s \<and> dget (chans s) (msg_channel m) \<noteq> None")
  case True
  then obtain c where c: "dget (chans s) (msg_channel m) = Some c" by auto
  then show ?thesis
    using True targets_distinct [OF assms c] by (cases k) (auto simp: publish_def mail_deliver_all)
qed (auto simp: publish_def split: option.splits)

lemma mail_deliver_to_pair:
  "mail_run cfg (List.map (\<lambda>_. Put e) (filter (\<lambda>x. (ch, x) = k) [a, b])) (mail s k) =
     ([], mail (fold (\<lambda>x. enqueue_or_drop cfg ch x e) [a, b] s) k)"
  by auto

lemma swap_pair:
  "mail_run cfg (List.map (\<lambda>_. Put e) (filter (\<lambda>x. (ch, x) = k) [b, a])) q =
   mail_run cfg (List.map (\<lambda>_. Put e) (filter (\<lambda>x. (ch, x) = k) [a, b])) q"
  by auto

lemma sorted_pair_self: "sorted_pair a a = (a, a)"
  by (simp add: sorted_pair_def)

lemma sorted_pair_eq [simp]: "fst (sorted_pair a b) = snd (sorted_pair a b) \<longleftrightarrow> a = b"
  by (auto simp: sorted_pair_def)

lemma ensure_direct_ok:
  "dget (chans s) ch \<noteq> None \<or> fst pair \<noteq> snd pair \<Longrightarrow> \<exists>s1. ensure_direct_channel ch pair s = Inr s1"
  by (cases pair; cases "dget (chans s) ch") (simp_all add: ensure_direct_channel_def Let_def)

lemma ensure_direct_self: "dget (chans s) ch = None \<Longrightarrow> ensure_direct_channel ch (a, a) s = Inl DuplicateSubscribers"
  by (simp add: ensure_direct_channel_def)

lemma mail_send_direct:
  "mail_run cfg (key_events k (SendDirect m recipient now) s) (mail s k) =
     ([], mail (snd (send_direct cfg m recipient now s)) k)"
proof -
  let ?ch = "direct_channel_name (sender m) recipient" and ?pair = "sorted_pair (sender m) recipient"
  show ?thesis
  proof (cases "running s \<and> msg_to m = recipient \<and> CHR '':'' \<notin> set (sender m) \<and> CHR '':'' \<notin> set recipient \<and>
      (sender m \<noteq> recipient \<or> dget (chans s) ?ch \<noteq> None)")
    case True
    then obtain s1 where s1: "ensure_direct_channel ?ch ?pair s = Inr s1"
      using ensure_direct_ok [of s ?ch ?pair] by (metis sorted_pair_eq)
    let ?e = "\<lparr>message = m, env_channel = ?ch, delivered_at = now\<rparr>"
    have "mail (snd (send_direct cfg m recipient now s)) k =
        mail (fold (\<lambda>x. enqueue_or_drop cfg ?ch x ?e) [fst ?pair, snd ?pair] (record_history cfg ?ch m s1)) k"
      using True s1 by (simp add: send_direct_def deliver_to_pair_def Let_def del: fold.simps)
    moreover have "mail_run cfg (List.map (\<lambda>_. Put ?e) (filter (\<lambda>x. (?ch, x) = k) [fst ?pair, snd ?pair])) (mail s k) =
        mail_run cfg (List.map (\<lambda>_. Put ?e) (filter (\<lambda>x. (?ch, x) = k) [sender m, recipient])) (mail s k)"
      using swap_pair by (simp add: sorted_pair_def)
    moreover have "key_events k (SendDirect m recipient now) s = List.map (\<lambda>_. Put ?e) (filter (\<lambda>x. (?ch, x) = k) [sender m, recipient])"
      using True by (simp only: key_events.simps Let_def) simp
    ultimately show ?thesis
      using mail_deliver_to_pair [of cfg ?e ?ch k "fst ?pair" "snd ?pair" "record_history cfg ?ch m s1"]
        mail_ensure_direct [OF s1] by (simp only: mail_record_history)
  next
    case False
    then have "snd (send_direct cfg m recipient now s) = s"
      by (auto simp: send_direct_def sorted_pair_def ensure_direct_self Let_def)
    then show ?thesis using False by (auto simp: Let_def)
  qed
qed

lemma mail_receive_finish:
  "mail_run cfg (key_events k (ReceiveFinish ch sub w now) s) (mail s k) =
     (received k (ReceiveFinish ch sub w now) (fst (receive_finish ch sub w now s)), mail (snd (receive_finish ch sub w now s)) k)"
proof (cases "w \<in> set (dget_or (waiters s) (ch, sub) [])")
  case True
  then show ?thesis
    by (cases "mail s (ch, sub)") (auto simp: receive_finish_def get_queue_def mail_def [symmetric] split: prod.splits)
qed (auto simp: receive_finish_def)

lemma mail_step:
  assumes "tidy s" and "\<not> drops k op" and "bus_step cfg op s = (r, s')"
  shows "mail_run cfg (key_events k op s) (mail s k) = (received k op r, mail s' k)"
proof (cases op)
  case (Publish m now)
  then show ?thesis using mail_publish [OF assms(1), of cfg k m now] assms(3) by (auto simp del: key_events.simps)
next
  case (SendDirect m recipient now)
  then show ?thesis using mail_send_direct [of cfg k m recipient now s] assms(3) by (auto simp del: key_events.simps)
next
  case (Subscribe ch sub)
  then show ?thesis using assms(3) by (auto simp: subscribe_def Let_def split: option.splits)
next
  case (Unsubscribe ch sub)
  then show ?thesis using assms(2,3) by (auto simp: unsubscribe_def mail_def split: option.splits)
next
  case (ReceiveEnter ch sub w)
  then show ?thesis using assms(3) by (auto simp: receive_enter_def Let_def split: option.splits)
next
  case (ReceiveFinish ch sub w now)
  then show ?thesis using mail_receive_finish [of cfg k ch sub w now s] assms(3) by (auto simp del: key_events.simps)
next
  case (CreateChannel c)
  then show ?thesis using assms(3) by (auto simp: create_channel_def)
next
  case Stop
  then show ?thesis using assms(3) by (auto simp: stop_def)
qed (use assms(2) in simp)

subsection \<open>Invariant\<close>

definition books_ok :: "bus_config \<Rightarrow> bus \<Rightarrow> bool" where
  "books_ok cfg s \<longleftrightarrow>
     (\<forall>ch c. dget (chans s) ch = Some c \<longrightarrow> ch_name c = ch \<and> distinct (subscribers c)) \<and>
     (\<forall>ch. dget (chans s) ch = None \<longleftrightarrow> dget (history s) ch = None) \<and>
     (\<forall>ch h. dget (history s) ch = Some h \<longrightarrow> length h \<le> max_messages_per_channel cfg) \<and>
     distinct (known_agents s)"

definition mail_ok :: "bus_config \<Rightarrow> bus \<Rightarrow> bool" where
  "mail_ok cfg s \<longleftrightarrow> (\<forall>k. length (mail s k) \<le> max_subscriber_queue_size cfg \<and> (\<forall>e \<in> set (mail s k). env_channel e = fst k))"

definition waiters_ok :: "bus \<Rightarrow> bool" where
  "waiters_ok s \<longleftrightarrow> (\<forall>k. dget (waiters s) k \<noteq> None \<longrightarrow> dget (queues s) k \<noteq> None)"

fun valid_op :: "bus_op \<Rightarrow> bool" where
  "valid_op (CreateChannel c) = valid_channel c"
| "valid_op op = True"

lemma books_tidy: "books_ok cfg s \<Longrightarrow> tidy s"
  by (auto simp: books_ok_def tidy_def)

lemma books_frame:
  "books_ok cfg (s\<lparr>queues := q\<rparr>) = books_ok cfg s" "books_ok cfg (s\<lparr>waiters := w\<rparr>) = books_ok cfg s"
  "books_ok cfg (s\<lparr>running := e\<rparr>) = books_ok cfg s" "books_ok cfg (s\<lparr>shutdown_set := f\<rparr>) = books_ok cfg s"
  "books_ok cfg (s\<lparr>idle_poll_count := g\<rparr>) = books_ok cfg s" "books_ok cfg (s\<lparr>last_idle_summary := h\<rparr>) = books_ok cfg s"
  by (simp_all add: books_ok_def)

lemma books_ensure_queue [simp]: "books_ok cfg (ensure_queue ch sub s) = books_ok cfg s"
  by (simp add: ensure_queue_def books_frame split: option.splits)

lemma books_enqueue [simp]: "books_ok cfg (enqueue_or_drop cfg ch sub e s) = books_ok cfg s"
  by (simp add: enqueue_or_drop_def books_frame)

lemma books_deliver_all [simp]: "books_ok cfg (fold (deliver cfg ch m now) subs s) = books_ok cfg s"
  by (induction subs arbitrary: s) (simp_all add: deliver_def)

lemma books_add_known [simp]: "books_ok cfg s \<Longrightarrow> books_ok cfg (add_known a s)"
  by (auto simp: books_ok_def add_known_def)

lemma books_record_history:
  "books_ok cfg s \<Longrightarrow> dget (chans s) ch \<noteq> None \<Longrightarrow> books_ok cfg (record_history cfg ch m s)"
  by (auto simp: books_ok_def record_history_def deque_append_def)

lemma books_chan:
  "books_ok cfg s \<Longrightarrow> dget (chans s) ch \<noteq> None \<Longrightarrow> ch_name c = ch \<Longrightarrow> distinct (subscribers c) \<Longrightarrow>
     books_ok cfg (s\<lparr>chans := dput ch c (chans s)\<rparr>)"
  by (auto simp: books_ok_def)

lemma books_new_chan:
  "books_ok cfg s \<Longrightarrow> ch_name c = ch \<Longrightarrow> distinct (subscribers c) \<Longrightarrow>
     books_ok cfg (s\<lparr>chans := dput ch c (chans s), history := dput ch [] (history s)\<rparr>)"
  by (auto simp: books_ok_def)

lemma chans_frame [simp]:
  "chans (ensure_queue ch sub s) = chans s" "chans (add_known a s) = chans s"
  by (auto simp: ensure_queue_def add_known_def split: option.splits)

lemma books_direct:
  assumes "books_ok cfg s" and "ensure_direct_channel ch pair s = Inr s1"
  shows "books_ok cfg s1" and "dget (chans s1) ch \<noteq> None"
proof -
  obtain a b where pair: "pair = (a, b)" by (cases pair)
  have ab: "dget (chans s) ch \<noteq> None \<or> a \<noteq> b"
    using assms(2) pair by (auto simp: ensure_direct_self)
  define t where "t = fold (\<lambda>x u. ensure_queue ch x (add_known x u)) [a, b] (open_direct ch a b s)"
  have "books_ok cfg (open_direct ch a b s)" using assms(1) ab by (auto simp: open_direct_def intro: books_new_chan)
  then have t: "books_ok cfg t" by (simp add: t_def)
  have "dget (chans (open_direct ch a b s)) ch \<noteq> None" by (simp add: open_direct_def)
  then obtain c where c: "dget (chans t) ch = Some c" by (auto simp: t_def)
  have s1: "s1 = join_pair ch a b t" using assms(2) ab pair by (auto simp: ensure_direct_channel_def t_def)
  have name: "ch_name c = ch" using t c by (simp add: books_ok_def)
  show "books_ok cfg s1" "dget (chans s1) ch \<noteq> None" using t c name by (simp_all add: s1 join_pair_def books_chan)
qed

lemma books_send_direct: "books_ok cfg s \<Longrightarrow> books_ok cfg (snd (send_direct cfg m recipient now s))"
proof -
  assume b: "books_ok cfg s"
  let ?ch = "direct_channel_name (sender m) recipient" and ?pair = "sorted_pair (sender m) recipient"
  show ?thesis
  proof (cases "ensure_direct_channel ?ch ?pair s")
    case (Inr s1)
    then show ?thesis using b books_record_history [OF books_direct [OF b Inr]]
      by (simp add: send_direct_def deliver_to_pair_def Let_def)
  qed (use b in \<open>simp add: send_direct_def Let_def\<close>)
qed

lemma books_start:
  assumes "books_ok cfg s"
  shows "books_ok cfg (snd (start cfg now s))"
proof -
  have "books_ok cfg t \<Longrightarrow> books_ok cfg (fold add_topic names t)" for names t
    by (induction names arbitrary: t) (simp_all add: add_topic_def books_new_chan)
  from this [of "\<lparr>chans = [], queues = [], history = [], known_agents = [], waiters = [], running = True,
      shutdown_set = False, idle_poll_count = 0, last_idle_summary = now\<rparr>" "config_channels cfg"]
  show ?thesis using assms by (simp add: start_def) (simp add: books_ok_def)
qed

lemma books_receive: "books_ok cfg s \<Longrightarrow> books_ok cfg (snd (receive_finish ch sub w now s))"
  by (auto simp: receive_finish_def drop_waiter_def log_receive_null_def Let_def books_frame split: prod.splits option.splits)

lemma books_subscribe:
  assumes "books_ok cfg s"
  shows "books_ok cfg (snd (subscribe ch sub s))"
proof (cases "dget (chans s) ch")
  case (Some c)
  then have "ch_name c = ch" "distinct (subscribers c)" using assms by (simp_all add: books_ok_def)
  then show ?thesis using assms Some books_chan [of cfg "add_known sub s" ch "c\<lparr>subscribers := subscribers c @ [sub]\<rparr>"]
    by (simp add: subscribe_def Let_def)
qed (use assms in \<open>simp add: subscribe_def\<close>)

lemma books_unsubscribe:
  assumes "books_ok cfg s"
  shows "books_ok cfg (snd (unsubscribe ch sub s))"
proof (cases "dget (chans s) ch")
  case (Some c)
  then have "ch_name c = ch" "distinct (subscribers c)" using assms by (simp_all add: books_ok_def)
  then show ?thesis using assms Some books_chan [of cfg s ch "c\<lparr>subscribers := filter (\<lambda>x. x \<noteq> sub) (subscribers c)\<rparr>"]
    by (simp add: unsubscribe_def books_frame)
qed (use assms in \<open>simp add: unsubscribe_def\<close>)

lemma books_step:
  assumes "books_ok cfg s" and "valid_op op"
  shows "books_ok cfg (snd (bus_step cfg op s))"
proof (cases op)
  case (Publish m now)
  then show ?thesis using assms by (auto simp: publish_def intro: books_record_history split: option.splits)
next
  case (Subscribe ch sub)
  then show ?thesis using books_subscribe [OF assms(1)] by simp
next
  case (Unsubscribe ch sub)
  then show ?thesis using books_unsubscribe [OF assms(1)] by simp
next
  case (ReceiveEnter ch sub w)
  then show ?thesis using assms by (auto simp: receive_enter_def Let_def books_frame split: option.splits)
next
  case (CreateChannel c)
  then show ?thesis using assms by (auto simp: create_channel_def valid_channel_def intro: books_new_chan)
next
  case Stop
  then show ?thesis using assms by (simp add: stop_def books_frame)
qed (use assms in \<open>simp_all add: books_send_direct books_start books_receive\<close>)


lemma events_channel: "e \<in> set (puts (key_events k op s)) \<Longrightarrow> env_channel e = fst k"
  by (cases k; cases op) (auto simp: Let_def split: option.splits if_splits)

lemma mail_dropped: "drops k op \<Longrightarrow> mail (snd (bus_step cfg op s)) k \<in> {mail s k, []}"
proof (cases op)
  case (Start now)
  have "queues (fold add_topic names t) = queues t" for names t
    by (induction names arbitrary: t) (simp_all add: add_topic_def)
  then show ?thesis using Start by (simp add: start_def mail_def)
qed (auto simp: unsubscribe_def mail_def split: option.splits)

lemma mail_ok_step:
  assumes "books_ok cfg s" and "mail_ok cfg s" and "0 < max_subscriber_queue_size cfg"
  shows "mail_ok cfg (snd (bus_step cfg op s))"
proof -
  obtain n where n: "max_subscriber_queue_size cfg = Suc n" using assms(3) gr0_implies_Suc by blast
  obtain r s' where step: "bus_step cfg op s = (r, s')" by fastforce
  have "length (mail s' k) \<le> max_subscriber_queue_size cfg \<and> (\<forall>e \<in> set (mail s' k). env_channel e = fst k)" for k
  proof (cases "drops k op")
    case True
    then show ?thesis using mail_dropped [OF True, of cfg s] assms(2) step by (cases k) (auto simp: mail_ok_def)
  next
    case False
    note run = mail_step [OF books_tidy [OF assms(1)] False step, unfolded n]
    have "set (mail s' k) \<subseteq> set (mail s k) \<union> set (puts (key_events k op s))"
      using mailbox.run_fifo [OF run] by (auto dest: list_emb_set)
    moreover have "length (mail s' k) \<le> Suc n" using mailbox.run_bounded [OF run] assms(2) n by (cases k) (simp add: mail_ok_def)
    ultimately show ?thesis using assms(2) n events_channel [of _ k op s] by (cases k) (auto simp: mail_ok_def)
  qed
  then show ?thesis by (simp add: mail_ok_def step)
qed

lemma waiters_frame [simp]:
  "waiters (ensure_queue ch sub s) = waiters s" "waiters (add_known a s) = waiters s"
  "waiters (enqueue_or_drop cfg ch sub e s) = waiters s" "waiters (record_history cfg ch m s) = waiters s"
  "waiters (open_direct ch a b s) = waiters s" "waiters (join_pair ch a b s) = waiters s"
  "waiters (log_receive_null ch sub now s) = waiters s"
  by (auto simp: ensure_queue_def add_known_def enqueue_or_drop_def record_history_def open_direct_def join_pair_def
      log_receive_null_def Let_def split: option.splits)

lemma queues_frame [simp]:
  "queues (add_known a s) = queues s" "queues (record_history cfg ch m s) = queues s"
  "queues (open_direct ch a b s) = queues s" "queues (join_pair ch a b s) = queues s"
  "queues (log_receive_null ch sub now s) = queues s" "queues (drop_waiter k w s) = queues s"
  by (auto simp: add_known_def record_history_def open_direct_def join_pair_def
      log_receive_null_def drop_waiter_def Let_def split: option.splits)

lemma waiters_ok_more:
  "waiters_ok s \<Longrightarrow> waiters_ok (ensure_queue ch sub s)" "waiters_ok s \<Longrightarrow> waiters_ok (enqueue_or_drop cfg ch sub e s)"
  "waiters_ok (add_known a s) = waiters_ok s" "waiters_ok (record_history cfg ch m s) = waiters_ok s"
  "waiters_ok (open_direct ch a b s) = waiters_ok s" "waiters_ok (join_pair ch a b s) = waiters_ok s"
  by (auto simp: waiters_ok_def ensure_queue_def enqueue_or_drop_def split: option.splits)

lemma waiters_deliver_all: "waiters_ok s \<Longrightarrow> waiters_ok (fold (deliver cfg ch m now) subs s)"
  by (induction subs arbitrary: s) (simp_all add: deliver_def waiters_ok_more)

lemma waiters_ok_step:
  assumes "waiters_ok s"
  shows "waiters_ok (snd (bus_step cfg op s))"
proof (cases op)
  case (Publish m now)
  then show ?thesis using assms by (auto simp: publish_def waiters_deliver_all waiters_ok_more split: option.splits)
next
  case (SendDirect m recipient now)
  then show ?thesis using assms
    by (auto simp: send_direct_def deliver_to_pair_def ensure_direct_channel_def waiters_ok_more Let_def split: sum.splits prod.splits if_splits)
next
  case (Subscribe ch sub)
  have "waiters_ok (t\<lparr>chans := c\<rparr>) = waiters_ok t" for t c by (simp add: waiters_ok_def)
  then show ?thesis using Subscribe assms by (auto simp: subscribe_def waiters_ok_more Let_def split: option.splits)
next
  case (ReceiveEnter ch sub w)
  have "dget (queues (ensure_queue ch sub s)) (ch, sub) \<noteq> None" by (auto simp: ensure_queue_def split: option.splits)
  then show ?thesis using ReceiveEnter waiters_ok_more(1) [OF assms, of ch sub] assms
    by (auto simp: receive_enter_def waiters_ok_def Let_def split: option.splits)
next
  case (ReceiveFinish ch sub w now)
  then show ?thesis using assms
    by (auto simp: receive_finish_def waiters_ok_def drop_waiter_def Let_def split: prod.splits option.splits if_splits)
next
  case (Start now)
  have "waiters (fold add_topic names t) = waiters t" for names t
    by (induction names arbitrary: t) (simp_all add: add_topic_def)
  then show ?thesis using Start assms by (auto simp: start_def waiters_ok_def)
qed (use assms in \<open>auto simp: unsubscribe_def create_channel_def stop_def waiters_ok_def split: option.splits\<close>)

fun bus_run :: "bus_config \<Rightarrow> bus_op list \<Rightarrow> bus \<Rightarrow> DeliveryEnvelope option list \<times> bus" where
  "bus_run cfg [] s = ([], s)"
| "bus_run cfg (op # ops) s = (let (r, s1) = bus_step cfg op s; (rs, s2) = bus_run cfg ops s1 in (r # rs, s2))"

lemma bus_run_invariant:
  assumes "valid_bus_config cfg" and "list_all valid_op ops" and "bus_run cfg ops s = (rs, s')"
    and "books_ok cfg s" and "mail_ok cfg s" and "waiters_ok s"
  shows "books_ok cfg s'" and "mail_ok cfg s'" and "waiters_ok s'"
proof -
  have "books_ok cfg s' \<and> mail_ok cfg s' \<and> waiters_ok s'"
    using assms(2-) 
  proof (induction ops arbitrary: s rs)
    case (Cons op ops)
    obtain r s1 rs1 where step: "bus_step cfg op s = (r, s1)" "bus_run cfg ops s1 = (rs1, s')"
      using Cons.prems(2) by (auto split: prod.splits)
    then show ?case
      using Cons books_step [of cfg s op] mail_ok_step [of cfg s op] waiters_ok_step [of s cfg op] assms(1)
      by (simp add: valid_bus_config_def)
  qed simp
  then show "books_ok cfg s'" "mail_ok cfg s'" "waiters_ok s'" by simp_all
qed

lemma new_bus_ok: "books_ok cfg (new_bus t)" "mail_ok cfg (new_bus t)" "waiters_ok (new_bus t)"
  by (simp_all add: books_ok_def mail_ok_def waiters_ok_def new_bus_def mail_def)


subsection \<open>Runs\<close>

definition taken :: "key \<Rightarrow> bus_op list \<Rightarrow> DeliveryEnvelope option list \<Rightarrow> DeliveryEnvelope list" where
  "taken k ops rs = concat (map2 (received k) ops rs)"

fun run_events :: "bus_config \<Rightarrow> key \<Rightarrow> bus_op list \<Rightarrow> bus \<Rightarrow> DeliveryEnvelope queue_event list" where
  "run_events cfg k [] s = []"
| "run_events cfg k (op # ops) s = key_events k op s @ run_events cfg k ops (snd (bus_step cfg op s))"

definition offered :: "bus_config \<Rightarrow> key \<Rightarrow> bus_op list \<Rightarrow> bus \<Rightarrow> DeliveryEnvelope list" where
  "offered cfg k ops s = puts (run_events cfg k ops s)"

lemma queue_run_append:
  "queue_run put get (es @ fs) q =
     (let (rs, q1) = queue_run put get es q; (rs', q2) = queue_run put get fs q1 in (rs @ rs', q2))"
  by (induction put get es q rule: queue_run.induct) (auto split: prod.splits option.splits)

lemma bus_run_mail:
  assumes "valid_bus_config cfg" and "list_all valid_op ops" and "\<forall>op \<in> set ops. \<not> drops k op"
    and "books_ok cfg s" and "bus_run cfg ops s = (rs, s')"
  shows "mail_run cfg (run_events cfg k ops s) (mail s k) = (taken k ops rs, mail s' k)"
  using assms(2-)
proof (induction ops arbitrary: s rs)
  case (Cons op ops)
  obtain r s1 rs1 where step: "bus_step cfg op s = (r, s1)" "bus_run cfg ops s1 = (rs1, s')" "rs = r # rs1"
    using Cons.prems(4) by (auto split: prod.splits)
  have "books_ok cfg s1" using books_step [OF Cons.prems(3), of op] Cons.prems(1) step(1) by simp
  then have "mail_run cfg (run_events cfg k ops s1) (mail s1 k) = (taken k ops rs1, mail s' k)"
    using Cons.IH Cons.prems step(2) by simp
  then show ?case
    using mail_step [OF books_tidy [OF Cons.prems(3)] _ step(1), of k] Cons.prems(2) step(1,3)
    by (simp add: queue_run_append taken_def)
qed (simp add: taken_def)

lemma puts_append [simp]: "puts (es @ fs) = puts es @ puts fs"
  by (induction es rule: puts.induct) simp_all

text \<open>What a step adds to the history of a channel.\<close>

fun posted :: "string \<Rightarrow> bus_op \<Rightarrow> bus \<Rightarrow> Message list" where
  "posted ch (Publish m now) s = (if running s \<and> msg_channel m = ch \<and> dget (chans s) ch \<noteq> None then [m] else [])"
| "posted ch (SendDirect m recipient now) s =
     (if running s \<and> msg_to m = recipient \<and> CHR '':'' \<notin> set (sender m) \<and> CHR '':'' \<notin> set recipient \<and>
         direct_channel_name (sender m) recipient = ch \<and> (sender m \<noteq> recipient \<or> dget (chans s) ch \<noteq> None)
      then [m] else [])"
| "posted ch op s = []"

fun run_posted :: "bus_config \<Rightarrow> string \<Rightarrow> bus_op list \<Rightarrow> bus \<Rightarrow> Message list" where
  "run_posted cfg ch [] s = []"
| "run_posted cfg ch (op # ops) s = posted ch op s @ run_posted cfg ch ops (snd (bus_step cfg op s))"

fun restarts :: "bus_op \<Rightarrow> bool" where
  "restarts (Start now) = True"
| "restarts op = False"

lemma history_frame [simp]:
  "history (ensure_queue ch sub s) = history s" "history (add_known a s) = history s"
  "history (enqueue_or_drop cfg ch sub e s) = history s" "history (join_pair ch a b s) = history s"
  "history (log_receive_null ch sub now s) = history s" "history (drop_waiter k w s) = history s"
  "history (fold (deliver cfg ch m now) subs s) = history s"
  by (auto simp: ensure_queue_def add_known_def enqueue_or_drop_def join_pair_def log_receive_null_def
      drop_waiter_def Let_def split: option.splits)
    (induction subs arbitrary: s, simp_all add: deliver_def ensure_queue_def enqueue_or_drop_def split: option.splits)

abbreviation chronicle :: "bus \<Rightarrow> string \<Rightarrow> Message list" where
  "chronicle s ch \<equiv> dget_or (history s) ch []"

lemma chronicle_record: "chronicle (record_history cfg ch m s) ch' =
    (if ch' = ch then deque_append (max_messages_per_channel cfg) (chronicle s ch) m else chronicle s ch')"
  by (simp add: record_history_def)

lemma chronicle_open: "books_ok cfg s \<Longrightarrow> chronicle (open_direct ch a b s) ch' = chronicle s ch'"
  by (auto simp: open_direct_def books_ok_def dget_or_def split: option.splits)

lemma chronicle_step:
  assumes "books_ok cfg s" and "\<not> restarts op"
  shows "chronicle (snd (bus_step cfg op s)) ch = foldl (deque_append (max_messages_per_channel cfg)) (chronicle s ch) (posted ch op s)"
proof (cases op)
  case (Publish m now)
  then show ?thesis by (auto simp: publish_def chronicle_record split: option.splits)
next
  case (SendDirect m recipient now)
  let ?ch = "direct_channel_name (sender m) recipient" and ?pair = "sorted_pair (sender m) recipient"
  show ?thesis
  proof (cases "ensure_direct_channel ?ch ?pair s")
    case (Inl e)
    then have "\<not> (sender m \<noteq> recipient \<or> dget (chans s) ?ch \<noteq> None)"
      using ensure_direct_ok [of s ?ch ?pair] by (metis Inl_Inr_False sorted_pair_eq)
    then show ?thesis using SendDirect Inl by (auto simp: send_direct_def Let_def)
  next
    case (Inr s1)
    then have "sender m \<noteq> recipient \<or> dget (chans s) ?ch \<noteq> None"
      using ensure_direct_self [of s ?ch "sender m"] sorted_pair_self by (metis Inl_Inr_False)
    moreover have "chronicle s1 ch = chronicle s ch"
      using Inr chronicle_open [OF assms(1)] by (auto simp: ensure_direct_channel_def split: prod.splits if_splits)
    ultimately show ?thesis using SendDirect Inr
      by (auto simp: send_direct_def Let_def deliver_to_pair_def chronicle_record)
  qed
next
  case (CreateChannel c)
  then show ?thesis using assms(1) by (auto simp: create_channel_def dget_or_def books_ok_def split: option.splits)
qed (use assms in \<open>auto simp: subscribe_def unsubscribe_def receive_enter_def receive_finish_def stop_def Let_def split: option.splits prod.splits\<close>)

lemma deque_appends:
  "length h \<le> n \<Longrightarrow> foldl (deque_append n) h ms = drop (length (h @ ms) - n) (h @ ms)"
proof (induction ms rule: rev_induct)
  case (snoc m ms)
  let ?xs = "h @ ms"
  have "deque_append n (drop (length ?xs - n) ?xs) m =
      drop (length (drop (length ?xs - n) ?xs) + 1 - n) (drop (length ?xs - n) (?xs @ [m]))"
    unfolding deque_append_def by (subst (3) drop_append) simp
  also have "\<dots> = drop (length (?xs @ [m]) - n) (?xs @ [m])"
    unfolding drop_drop by (rule arg_cong [where f = "\<lambda>i. drop i (?xs @ [m])"]) simp
  finally show ?case using snoc by simp
qed simp

lemma bus_run_chronicle:
  assumes "list_all valid_op ops" and "\<forall>op \<in> set ops. \<not> restarts op" and "books_ok cfg s" and "bus_run cfg ops s = (rs, s')"
  shows "chronicle s' ch = foldl (deque_append (max_messages_per_channel cfg)) (chronicle s ch) (run_posted cfg ch ops s)"
  using assms
proof (induction ops arbitrary: s rs)
  case (Cons op ops)
  obtain r s1 rs1 where step: "bus_step cfg op s = (r, s1)" "bus_run cfg ops s1 = (rs1, s')"
    using Cons.prems(4) by (auto split: prod.splits)
  have "books_ok cfg s1" using books_step [OF Cons.prems(3), of op] Cons.prems(1) step(1) by simp
  then show ?case using Cons step chronicle_step [OF Cons.prems(3), of op ch] by simp
qed simp

lemma not_blank_at: "not_blank (CHR ''@'' # s)"
  by (simp add: not_blank_def py_isspace_def)

lemma history_limit:
  "dget (chans s) ch \<noteq> None \<Longrightarrow> 0 < n \<Longrightarrow>
     get_channel_history ch (Some n) s = Inr (drop (length (chronicle s ch) - nat n) (chronicle s ch))"
  by (auto simp: get_channel_history_def Let_def)

lemma running_frame [simp]:
  "running (ensure_queue ch sub s) = running s" "running (add_known a s) = running s"
  "running (open_direct ch a b s) = running s" "running (join_pair ch a b s) = running s"
  by (auto simp: ensure_queue_def add_known_def open_direct_def join_pair_def split: option.splits)

lemma direct_subscribed:
  assumes "ensure_direct_channel ch (a, b) s = Inr s1"
  shows "\<exists>c. dget (chans s1) ch = Some c \<and> {a, b} \<subseteq> set (subscribers c)" and "running s1 = running s"
proof -
  let ?t = "fold (\<lambda>x t. ensure_queue ch x (add_known x t)) [a, b] (open_direct ch a b s)"
  have s1: "s1 = join_pair ch a b ?t" using assms by (auto simp: ensure_direct_channel_def split: if_splits)
  have "dget (chans (open_direct ch a b s)) ch \<noteq> None" by (simp add: open_direct_def)
  then obtain c where "dget (chans ?t) ch = Some c" by auto
  then show "\<exists>c. dget (chans s1) ch = Some c \<and> {a, b} \<subseteq> set (subscribers c)" unfolding s1 by (simp add: join_pair_def)
  show "running s1 = running s" unfolding s1 by simp
qed

lemma receive_next:
  assumes "running s" and "dget (chans s) ch = Some c" and "sub \<in> set (subscribers c)" and "mail s (ch, sub) = e # q"
    and "receive_enter ch sub w s = (r, s1)" and "receive_finish ch sub w now s1 = (got, s2)"
  shows "r = Inr ()" and "got = Some e" and "mail s2 (ch, sub) = q"
proof -
  have s1: "r = Inr ()" "mail s1 = mail s" "w \<in> set (dget_or (waiters s1) (ch, sub) [])"
    using assms(1-3,5) by (auto simp: receive_enter_def Let_def)
  then show "r = Inr ()" "got = Some e" "mail s2 (ch, sub) = q"
    using assms(4,6) by (auto simp: receive_finish_def get_queue_def Let_def mail_def [symmetric])
qed

subsection \<open>Properties\<close>

text \<open>
  C14: whatever operations are called, in whatever order, every channel has a history and only channels
  have one, histories and queues respect their configured bounds, a queue holds only envelopes of its
  channel, subscribers and known agents are listed once, and a waiting receiver's queue exists.
\<close>

theorem bus_invariant:
  assumes "valid_bus_config cfg" and "list_all valid_op ops" and "bus_run cfg ops (new_bus t) = (rs, s)"
  shows "(\<forall>ch c. dget (chans s) ch = Some c \<longrightarrow> ch_name c = ch \<and> distinct (subscribers c)) \<and>
    (\<forall>ch. dget (chans s) ch = None \<longleftrightarrow> dget (history s) ch = None) \<and>
    (\<forall>ch. length (chronicle s ch) \<le> max_messages_per_channel cfg) \<and>
    (\<forall>k. length (mail s k) \<le> max_subscriber_queue_size cfg \<and> (\<forall>e \<in> set (mail s k). env_channel e = fst k)) \<and>
    distinct (known_agents s) \<and> (\<forall>k. dget (waiters s) k \<noteq> None \<longrightarrow> dget (queues s) k \<noteq> None)"
proof -
  note ok = bus_run_invariant [OF assms(1,2,3) new_bus_ok]
  have "length (chronicle s ch) \<le> max_messages_per_channel cfg" for ch
    using ok(1) by (auto simp: books_ok_def dget_or_def split: option.splits)
  then show ?thesis using ok by (simp add: books_ok_def mail_ok_def waiters_ok_def)
qed

text \<open>
  C13: delivery is first in, first out, and loses only by overflow. Between two points of a run in which a
  subscription's queue is not dropped (no restart, no unsubscription of that agent from that channel), what
  its receive calls returned followed by what is still queued is a subsequence of what was queued followed by
  what was addressed to it, and nothing is missing when all of that fits the queue.
\<close>

theorem delivery_fifo:
  assumes "valid_bus_config cfg" and "list_all valid_op (pre @ ops)" and "\<forall>op \<in> set ops. \<not> drops k op"
    and "bus_run cfg pre (new_bus t) = (rs0, s)" and "bus_run cfg ops s = (rs, s')"
  shows "subseq (taken k ops rs @ mail s' k) (mail s k @ offered cfg k ops s) \<and>
    (length (mail s k) + length (offered cfg k ops s) \<le> max_subscriber_queue_size cfg \<longrightarrow>
       taken k ops rs @ mail s' k = mail s k @ offered cfg k ops s)"
proof -
  have ok: "books_ok cfg s" using bus_run_invariant(1) [OF assms(1) _ assms(4) new_bus_ok] assms(2) by simp
  obtain n where n: "max_subscriber_queue_size cfg = Suc n"
    using assms(1) gr0_implies_Suc by (auto simp: valid_bus_config_def)
  have "mail_run cfg (run_events cfg k ops s) (mail s k) = (taken k ops rs, mail s' k)"
    using bus_run_mail [OF assms(1) _ assms(3) ok assms(5)] assms(2) by simp
  note run = this [unfolded n]
  show ?thesis using mailbox.run_fifo [OF run] mailbox.run_lossless [OF run] by (simp add: offered_def n)
qed

text \<open>
  A channel's history is the most recent messages posted to it, as many as the retention allows, and a
  query with a positive limit returns the last ones of these in order.
\<close>

theorem history_keeps_latest:
  assumes "valid_bus_config cfg" and "list_all valid_op (pre @ ops)" and "\<forall>op \<in> set ops. \<not> restarts op"
    and "bus_run cfg pre (new_bus t) = (rs0, s)" and "bus_run cfg ops s = (rs, s')"
    and "dget (chans s') ch \<noteq> None" and "0 < n"
  shows "get_channel_history ch (Some n) s' =
    Inr (let all = chronicle s ch @ run_posted cfg ch ops s;
             kept = drop (length all - max_messages_per_channel cfg) all
         in drop (length kept - nat n) kept)"
proof -
  have ok: "books_ok cfg s" using bus_run_invariant(1) [OF assms(1) _ assms(4) new_bus_ok] assms(2) by simp
  have "length (chronicle s ch) \<le> max_messages_per_channel cfg"
    using ok by (auto simp: books_ok_def dget_or_def split: option.splits)
  then have "chronicle s' ch = (let all = chronicle s ch @ run_posted cfg ch ops s in drop (length all - max_messages_per_channel cfg) all)"
    using bus_run_chronicle [OF _ assms(3) ok assms(5)] assms(2) deque_appends by (simp add: Let_def)
  then show ?thesis unfolding history_limit [OF assms(6,7)] by (simp only: Let_def)
qed

text \<open>
  A direct message arrives. Sent by a messenger on a running bus to another agent whose queue of the pair's
  channel is empty, it is accepted, queued for both agents, and is what the recipient's next receive returns;
  the channel exists and both are subscribed to it afterwards even if they were not before.
\<close>

theorem direct_message_arrives:
  assumes "running s" and "0 < max_subscriber_queue_size cfg" and "a \<noteq> b"
    and "not_blank a" and "not_blank b" and "CHR '':'' \<notin> set a" and "CHR '':'' \<notin> set b" and "not_blank content"
    and "mail s (direct_channel_name a b, b) = []"
    and "messenger_send_direct cfg a uid now sent b (Some content) None ty pr s = (res, s1)"
    and "receive_enter (direct_channel_name a b) b w s1 = (r, s2)"
    and "receive_finish (direct_channel_name a b) b w later s2 = (got, s3)"
  shows "\<exists>m. res = Inr m \<and> sender m = a \<and> msg_to m = b \<and> text_of (parts m) = content \<and>
    r = Inr () \<and> got = Some \<lparr>message = m, env_channel = direct_channel_name a b, delivered_at = sent\<rparr> \<and>
    (\<exists>c. dget (chans s1) (direct_channel_name a b) = Some c \<and> {a, b} \<subseteq> set (subscribers c))"
proof -
  let ?ch = "direct_channel_name a b" and ?pair = "sorted_pair a b"
  define m where "m = \<lparr>msg_id = uid, timestamp = now, sender = a, msg_to = b, msg_type = ty, msg_priority = pr,
    msg_channel = ?ch, parts = [TextPart content], metadata = []\<rparr>"
  have "not_blank ?ch" using not_blank_at by (simp add: direct_channel_name_def split: prod.splits)
  then have build: "build_message a uid now b ?ch ty pr [TextPart content] = Inr m"
    using assms(4,5,8) by (simp add: build_message_def m_def valid_message_def valid_part_def Let_def)
  obtain t where t: "ensure_direct_channel ?ch ?pair s = Inr t" using ensure_direct_ok [of s ?ch ?pair] assms(3) by auto
  have sent: "send_direct cfg m b sent s = (Inr (), deliver_to_pair cfg ?ch ?pair m sent t)"
    using assms(1,6,7) t by (simp add: send_direct_def m_def Let_def)
  then have res: "res = Inr m" and s1: "s1 = deliver_to_pair cfg ?ch ?pair m sent t"
    using assms(8,10) build by (simp_all add: messenger_send_direct_def resolve_parts_def)
  have frame: "chans s1 = chans t" "running s1 = running t"
    by (simp_all add: s1 deliver_to_pair_def enqueue_or_drop_def record_history_def)
  obtain c where c: "dget (chans s1) ?ch = Some c" "{a, b} \<subseteq> set (subscribers c)" and "running s1"
    using direct_subscribed [of ?ch "fst ?pair" "snd ?pair" s t] t frame assms(1)
    by (auto simp: sorted_pair_def split: if_splits)
  moreover have "mail s1 (?ch, b) = [\<lparr>message = m, env_channel = ?ch, delivered_at = sent\<rparr>]"
    using mail_send_direct [of cfg "(?ch, b)" m b sent s] sent s1 assms(1,2,3,6,7,9)
    by (simp add: m_def put_or_drop_def Let_def)
  ultimately have "r = Inr ()" "got = Some \<lparr>message = m, env_channel = ?ch, delivered_at = sent\<rparr>"
    using receive_next [OF _ _ _ _ assms(11,12)] by auto
  then show ?thesis using res c by (auto simp: m_def)
qed


text \<open>A concrete run: a topic with one subscriber and room for one message.\<close>

definition sample_bus_config :: bus_config where
  "sample_bus_config = \<lparr>config_channels = [''#a''], max_messages_per_channel = 2, max_subscriber_queue_size = 1\<rparr>"

definition sample_message :: "string \<Rightarrow> Message" where
  "sample_message i = \<lparr>msg_id = i, timestamp = 0, sender = ''y'', msg_to = ''#a'', msg_type = QUESTION,
     msg_priority = PRIORITY_NORMAL, msg_channel = ''#a'', parts = [TextPart ''hi''], metadata = []\<rparr>"

definition sample_setup :: "bus_op list" where
  "sample_setup = [Start 0, Subscribe ''#a'' ''x'']"

definition sample_traffic :: "bus_op list" where
  "sample_traffic = [Publish (sample_message ''1'') 1, ReceiveEnter ''#a'' ''x'' 0, ReceiveFinish ''#a'' ''x'' 0 2,
     Publish (sample_message ''2'') 3, Publish (sample_message ''3'') 4]"

abbreviation sample_before :: bus where
  "sample_before \<equiv> snd (bus_run sample_bus_config sample_setup (new_bus 0))"

abbreviation sample_after :: bus where
  "sample_after \<equiv> snd (bus_run sample_bus_config sample_traffic sample_before)"

lemma sample_valid: "valid_bus_config sample_bus_config" "list_all valid_op (sample_setup @ sample_traffic)"
  by (code_simp, simp add: sample_setup_def sample_traffic_def)

theorem bus_invariant_witness: "length (mail sample_before (''#a'', ''x'')) \<le> 1 \<and> chans sample_before \<noteq> []"
proof -
  have "length (mail sample_before (''#a'', ''x'')) \<le> max_subscriber_queue_size sample_bus_config"
    using bus_invariant [OF sample_valid(1) _ surjective_pairing, of sample_setup 0] sample_valid(2) by simp
  moreover have "chans sample_before \<noteq> []" by code_simp
  ultimately show ?thesis by (simp add: sample_bus_config_def)
qed

theorem delivery_fifo_witness:
  "subseq (taken (''#a'', ''x'') sample_traffic (fst (bus_run sample_bus_config sample_traffic sample_before)) @ mail sample_after (''#a'', ''x''))
     (mail sample_before (''#a'', ''x'') @ offered sample_bus_config (''#a'', ''x'') sample_traffic sample_before) \<and>
   List.map (\<lambda>e. msg_id (message e)) (mail sample_after (''#a'', ''x'')) = [''2''] \<and>
   List.map (\<lambda>e. msg_id (message e)) (offered sample_bus_config (''#a'', ''x'') sample_traffic sample_before) = [''1'', ''2'', ''3'']"
proof -
  have "\<forall>op \<in> set sample_traffic. \<not> drops (''#a'', ''x'') op" by (simp add: sample_traffic_def)
  note fifo = delivery_fifo [OF sample_valid this surjective_pairing surjective_pairing, of 0]
  have "List.map (\<lambda>e. msg_id (message e)) (mail sample_after (''#a'', ''x'')) = [''2'']"
    and "List.map (\<lambda>e. msg_id (message e)) (offered sample_bus_config (''#a'', ''x'') sample_traffic sample_before) = [''1'', ''2'', ''3'']"
    by code_simp+
  then show ?thesis using fifo by blast
qed

theorem history_keeps_latest_witness:
  "get_channel_history ''#a'' (Some 5) sample_after = Inr [sample_message ''2'', sample_message ''3'']"
proof -
  have "\<forall>op \<in> set sample_traffic. \<not> restarts op" by (simp add: sample_traffic_def)
  moreover have "dget (chans sample_after) ''#a'' \<noteq> None" by code_simp
  ultimately have "get_channel_history ''#a'' (Some 5) sample_after =
      Inr (let all = chronicle sample_before ''#a'' @ run_posted sample_bus_config ''#a'' sample_traffic sample_before;
             kept = drop (length all - max_messages_per_channel sample_bus_config) all in drop (length kept - nat 5) kept)"
    by (intro history_keeps_latest [OF sample_valid _ surjective_pairing surjective_pairing, of 0]) simp_all
  moreover have "chronicle sample_before ''#a'' = []"
    and "run_posted sample_bus_config ''#a'' sample_traffic sample_before = [sample_message ''1'', sample_message ''2'', sample_message ''3'']"
    by code_simp+
  ultimately show ?thesis by (simp add: sample_bus_config_def)
qed

theorem direct_message_arrives_witness:
  "\<exists>m. fst (messenger_send_direct sample_bus_config ''a'' ''1'' 1 2 ''b'' (Some ''hi'') None QUESTION PRIORITY_LOW sample_before) = Inr m \<and>
     text_of (parts m) = ''hi''"
proof -
  let ?s1 = "snd (messenger_send_direct sample_bus_config ''a'' ''1'' 1 2 ''b'' (Some ''hi'') None QUESTION PRIORITY_LOW sample_before)"
  let ?s2 = "snd (receive_enter (direct_channel_name ''a'' ''b'') ''b'' 0 ?s1)"
  have "running sample_before" "mail sample_before (direct_channel_name ''a'' ''b'', ''b'') = []"
    "not_blank ''a''" "not_blank ''b''" "not_blank ''hi''" by code_simp+
  then show ?thesis
    using direct_message_arrives [of sample_before sample_bus_config "''a''" "''b''" "''hi''", OF _ _ _ _ _ _ _ _ _
        surjective_pairing surjective_pairing [of "receive_enter (direct_channel_name ''a'' ''b'') ''b'' 0 ?s1"]
        surjective_pairing [of "receive_finish (direct_channel_name ''a'' ''b'') ''b'' 0 3 ?s2"]]
    by (fastforce simp: sample_bus_config_def)
qed

subsection \<open>Other facts\<close>

text \<open>Unsubscribing from a broadcast channel does not stop its deliveries: the agent stays known.\<close>

lemma broadcast_after_unsubscribe:
  assumes "books_ok cfg s" and "unsubscribe ch sub s = (Inr (), s1)" and "sub \<in> set (known_agents s)"
    and "dget (chans s) ch = Some c" and "ch_type c = BROADCAST" and "msg_channel m = ch" and "0 < max_subscriber_queue_size cfg"
  shows "mail (snd (publish cfg m now s1)) (ch, sub) = [\<lparr>message = m, env_channel = ch, delivered_at = now\<rparr>]"
proof -
  have "running s" and sub: "sub \<in> set (subscribers c)" using assms(2,4) by (auto simp: unsubscribe_def split: if_splits)
  then have s1: "running s1" "dget (chans s1) ch = Some (c\<lparr>subscribers := filter (\<lambda>x. x \<noteq> sub) (subscribers c)\<rparr>)"
      "known_agents s1 = known_agents s" "mail s1 (ch, sub) = []"
    using assms(2,4) by (auto simp: unsubscribe_def mail_def)
  then have "snd (publish cfg m now s1) = fold (deliver cfg ch m now) (known_agents s) (record_history cfg ch m s1)"
    using assms(5,6) by (simp add: publish_def targets_def)
  then show ?thesis
    using mail_deliver_all [of "known_agents s" cfg ch m now "record_history cfg ch m s1" "(ch, sub)"] assms(1,3,7) s1(4)
    by (simp add: books_ok_def put_or_drop_def)
qed

text \<open>A dispatch reports one outcome per matching handler, and the exceptions in registration order.\<close>

lemma dispatch_counts:
  "handlers_matched (dispatch handle m d) = length (filter (\<lambda>(h, r). matches r m) d)"
  "dr_errors (dispatch handle m d) = List.map_filter (\<lambda>(h, r). if matches r m then handle (handler_id r) m else None) d"
proof -
  have "length (filter (\<lambda>x. P x \<and> Q x) xs) \<le> length (filter P xs)" for P Q and xs :: "(string \<times> HandlerRegistration) list"
    by (induction xs) auto
  then show "handlers_matched (dispatch handle m d) = length (filter (\<lambda>(h, r). matches r m) d)"
    by (auto simp: dispatch_def handlers_matched_def Let_def filter_map o_def case_prod_unfold)
  show "dr_errors (dispatch handle m d) = List.map_filter (\<lambda>(h, r). if matches r m then handle (handler_id r) m else None) d"
  proof -
    have "dr_errors (dispatch handle m d) =
        List.map the (filter (\<lambda>e. e \<noteq> None) (List.map (\<lambda>r. handle (handler_id r) m) (filter (\<lambda>r. matches r m) (List.map snd d))))"
      by (simp add: dispatch_def Let_def)
    also have "\<dots> = List.map_filter (\<lambda>(h, r). if matches r m then handle (handler_id r) m else None) d"
      by (induction d) (auto simp: List.map_filter_def)
    finally show ?thesis .
  qed
qed

end
