(* ===== verification/Conflict_Service.thy ===== *)
theory Conflict_Service
  imports Escalation_Queue Message_Bus
begin

text \<open>
  The hybrid strategy (\<^verbatim>\<open>hybrid_strategy.py\<close>), the conflict resolution service (\<^verbatim>\<open>service.py\<close>) with its audit trail,
  and the publication of dissent on the message bus and on the event stream hub
  (\<^verbatim>\<open>communication/event_stream/stream.py\<close>).

  The service calls its resolvers through a record of two functions, as the code does through a protocol;
  the strategies of \<open>Conflict_Resolution\<close> and \<open>Escalation_Queue\<close> and the hybrid one below are instances. The locale
  \<open>conflict_resolver\<close> is what the service relies on. The JSON form of a payload is a parameter.
\<close>

declare map_of_eq_Some_iff [simp del] Some_eq_map_of_iff [simp del]

subsection \<open>The hybrid strategy\<close>

record HybridConfig =
  review_agent :: agent
  escalate_on_ambiguity :: bool

definition hybrid_resolution :: "time \<Rightarrow> Conflict \<Rightarrow> ConflictPosition \<Rightarrow> string \<Rightarrow> string \<Rightarrow> ConflictResolution" where
  "hybrid_resolution now c p by reasoning =
     \<lparr>cr_conflict_id = cf_id c, cr_outcome = RESOLVED_BY_HYBRID, cr_winning_agent_id = Some (cp_agent_id p),
      cr_winning_position = Some (cp_position p), cr_decided_by = by, cr_reasoning = reasoning, cr_resolved_at = now\<rparr>"

definition hybrid_fallback :: "charts \<Rightarrow> time \<Rightarrow> Conflict \<Rightarrow> (conflict_error + ConflictResolution) option" where
  "hybrid_fallback h now c =
     map_option (\<lambda>r. rbind r (\<lambda>best. make_resolution (hybrid_resolution now c best (cp_agent_id best)
         (''Hybrid fallback: authority-based -- '' @ agent_and_level best @ '' has highest seniority''))))
       (pick_highest_seniority (Some h) c)"

text \<open>\<open>human\<close> is the call of the human resolver.\<close>

definition hybrid_resolve ::
  "charts \<Rightarrow> HybridConfig \<Rightarrow> judge_evaluator option \<Rightarrow> (Conflict \<Rightarrow> (conflict_error + ConflictResolution) option) \<Rightarrow> time \<Rightarrow> Conflict
   \<Rightarrow> (conflict_error + ConflictResolution) option" where
  "hybrid_resolve h cfg evaluator human now c =
     (case evaluator of
        None \<Rightarrow> hybrid_fallback h now c
      | Some evaluate \<Rightarrow>
         (case evaluate c (review_agent cfg) of
            Inl e \<Rightarrow> Some (Inl e)
          | Inr (winning_agent_id, reasoning) \<Rightarrow>
             (case find_position c winning_agent_id of
                Some p \<Rightarrow> Some (make_resolution (hybrid_resolution now c p (review_agent cfg) reasoning))
              | None \<Rightarrow> if escalate_on_ambiguity cfg then human c else hybrid_fallback h now c)))"

definition hybrid_dissents ::
  "(nat \<Rightarrow> string \<times> time) \<Rightarrow> Conflict \<Rightarrow> ConflictResolution \<Rightarrow> conflict_error + DissentRecord list" where
  "hybrid_dissents draws c r =
     (if cr_outcome r = ESCALATED_TO_HUMAN
      then make_dissents draws HYBRID [(''escalation_reason'', ''ambiguous_review'')] c r 0 (cf_positions c)
      else rbind (find_losers c r) (make_dissents draws HYBRID [] c r 0))"

subsection \<open>The event stream hub\<close>

record StreamEvent =
  sev_id :: string
  sev_type :: string
  sev_timestamp :: time
  sev_session_id :: string
  sev_correlation_id :: "string option"
  sev_agent_id :: "string option"
  sev_payload :: string

text \<open>A subscriber's queue has an identity; \<open>hub_next\<close> is the identity of the next one.\<close>

record event_hub =
  hub_max_queue_size :: nat
  hub_subscribers :: "(string, (nat \<times> StreamEvent list) list) dict"
  hub_next :: nat

definition hub_subscribe :: "string \<Rightarrow> event_hub \<Rightarrow> nat \<times> event_hub" where
  "hub_subscribe sid b =
     (hub_next b, b\<lparr>hub_subscribers := dput sid (dget_or (hub_subscribers b) sid [] @ [(hub_next b, [])]) (hub_subscribers b),
        hub_next := Suc (hub_next b)\<rparr>)"

definition hub_unsubscribe :: "string \<Rightarrow> nat \<Rightarrow> event_hub \<Rightarrow> event_hub" where
  "hub_unsubscribe sid q b =
     (case dget (hub_subscribers b) sid of
        None \<Rightarrow> b
      | Some qs \<Rightarrow>
          (let rest = filter (\<lambda>x. fst x \<noteq> q) qs in
           b\<lparr>hub_subscribers := (if rest = [] then dpop sid (hub_subscribers b) else dput sid rest (hub_subscribers b))\<rparr>))"

definition hub_publish :: "StreamEvent \<Rightarrow> event_hub \<Rightarrow> event_hub" where
  "hub_publish e b =
     (case dget (hub_subscribers b) (sev_session_id e) of
        None \<Rightarrow> b
      | Some qs \<Rightarrow> b\<lparr>hub_subscribers :=
          dput (sev_session_id e) (List.map (\<lambda>(q, evs). (q, put_or_drop (hub_max_queue_size b) evs e)) qs) (hub_subscribers b)\<rparr>)"

subsection \<open>The service\<close>

record DissentPayload =
  dp_dissent_id :: string
  dp_conflict_id :: string
  dp_agent_id :: agent
  dp_type :: ConflictType
  dp_strategy :: ConflictResolutionStrategy

definition from_record :: "DissentRecord \<Rightarrow> DissentPayload" where
  "from_record d = \<lparr>dp_dissent_id = dr_id d, dp_conflict_id = cf_id (dr_conflict d), dp_agent_id = dr_agent_id d,
     dp_type = cf_type (dr_conflict d), dp_strategy = dr_strategy d\<rparr>"

record conflict_service =
  cs_strategy :: ConflictResolutionStrategy
  audit_trail :: "DissentRecord list"
  cs_bus :: "bus option"
  cs_hub :: "event_hub option"

text \<open>What publishing draws: the bus configuration, the JSON writer, an identifier and a clock reading per record and transport.\<close>

record publish_env =
  pe_cfg :: bus_config
  pe_dump :: "DissentPayload \<Rightarrow> string"
  pe_id :: "nat \<Rightarrow> string"
  pe_now :: "nat \<Rightarrow> time"

definition CHANNEL_DISSENT :: string where
  "CHANNEL_DISSENT = ''#dissent''"

definition dissent_message :: "publish_env \<Rightarrow> nat \<Rightarrow> DissentRecord \<Rightarrow> Message" where
  "dissent_message env i d =
     \<lparr>msg_id = pe_id env (2 * i), timestamp = dr_timestamp d, sender = dr_agent_id d, msg_to = CHANNEL_DISSENT, msg_type = DISSENT,
      msg_priority = PRIORITY_NORMAL, msg_channel = CHANNEL_DISSENT, parts = [DataPart (pe_dump env (from_record d))], metadata = []\<rparr>"

text \<open>Best effort: an invalid message and an error of the bus leave the service as it was.\<close>

definition publish_dissent_message :: "publish_env \<Rightarrow> nat \<Rightarrow> DissentRecord \<Rightarrow> conflict_service \<Rightarrow> conflict_service" where
  "publish_dissent_message env i d s =
     (case cs_bus s of
        None \<Rightarrow> s
      | Some b \<Rightarrow>
          if valid_message (dissent_message env i d)
          then s\<lparr>cs_bus := Some (snd (publish (pe_cfg env) (dissent_message env i d) (pe_now env (2 * i)) b))\<rparr> else s)"

definition dissent_event :: "publish_env \<Rightarrow> nat \<Rightarrow> string \<Rightarrow> DissentRecord \<Rightarrow> StreamEvent" where
  "dissent_event env i sid d =
     \<lparr>sev_id = ''evt-'' @ pe_id env (2 * i + 1), sev_type = ''synthorg:dissent'', sev_timestamp = pe_now env (2 * i + 1), sev_session_id = sid,
      sev_correlation_id = None, sev_agent_id = Some (dr_agent_id d), sev_payload = pe_dump env (from_record d)\<rparr>"

text \<open>A conflict has no session of its own, so the session is its task.\<close>

definition publish_dissent_sse :: "publish_env \<Rightarrow> nat \<Rightarrow> DissentRecord \<Rightarrow> conflict_service \<Rightarrow> conflict_service" where
  "publish_dissent_sse env i d s =
     (case (cs_hub s, cf_task_id (dr_conflict d)) of
        (Some b, Some sid) \<Rightarrow> if sid = [] then s else s\<lparr>cs_hub := Some (hub_publish (dissent_event env i sid d) b)\<rparr>
      | _ \<Rightarrow> s)"

fun publish_dissent_events :: "publish_env \<Rightarrow> nat \<Rightarrow> DissentRecord list \<Rightarrow> conflict_service \<Rightarrow> conflict_service" where
  "publish_dissent_events env i [] s = s"
| "publish_dissent_events env i (d # ds) s =
     publish_dissent_events env (Suc i) ds (publish_dissent_sse env i d (publish_dissent_message env i d s))"

definition create_conflict ::
  "string \<Rightarrow> time \<Rightarrow> ConflictType \<Rightarrow> string \<Rightarrow> ConflictPosition list \<Rightarrow> string option \<Rightarrow> conflict_error + Conflict" where
  "create_conflict u now ty subject ps task =
     (case validate_positions ps of
        Some p \<Rightarrow> Inl (ConflictResolutionError p)
      | None \<Rightarrow>
          (let c = \<lparr>cf_id = ''conflict-'' @ u, cf_type = ty, cf_task_id = task, cf_subject = subject, cf_positions = ps, cf_detected_at = now\<rparr> in
           case Conflict_check c of Some p \<Rightarrow> Inl (Invalid p) | None \<Rightarrow> Inr c))"

record conflict_strategy =
  st_resolve :: "Conflict \<Rightarrow> (conflict_error + ConflictResolution) option"
  st_dissents :: "Conflict \<Rightarrow> ConflictResolution \<Rightarrow> conflict_error + DissentRecord list"

text \<open>An error of the strategy or of its dissent records is raised before the trail changes.\<close>

definition service_resolve ::
  "publish_env \<Rightarrow> (ConflictResolutionStrategy, conflict_strategy) dict \<Rightarrow> Conflict \<Rightarrow> conflict_service
   \<Rightarrow> ((conflict_error + ConflictResolution \<times> DissentRecord list) \<times> conflict_service) option" where
  "service_resolve env strategies c s =
     (case dget strategies (cs_strategy s) of
        None \<Rightarrow> Some (Inl (NoResolver (cs_strategy s)), s)
      | Some st \<Rightarrow>
          map_option (\<lambda>res.
            case rbind res (\<lambda>r. rbind (st_dissents st c r) (\<lambda>ds. Inr (r, ds))) of
              Inl e \<Rightarrow> (Inl e, s)
            | Inr (r, ds) \<Rightarrow> (Inr (r, ds), publish_dissent_events env 0 ds (s\<lparr>audit_trail := audit_trail s @ ds\<rparr>)))
          (st_resolve st c))"

definition query_dissent_records ::
  "agent option \<Rightarrow> ConflictType option \<Rightarrow> ConflictResolutionStrategy option \<Rightarrow> time option \<Rightarrow> conflict_service \<Rightarrow> DissentRecord list" where
  "query_dissent_records a ty st since s =
     filter (\<lambda>d. (case a of None \<Rightarrow> True | Some x \<Rightarrow> dr_agent_id d = x) \<and>
                 (case ty of None \<Rightarrow> True | Some x \<Rightarrow> cf_type (dr_conflict d) = x) \<and>
                 (case st of None \<Rightarrow> True | Some x \<Rightarrow> dr_strategy d = x) \<and>
                 (case since of None \<Rightarrow> True | Some t \<Rightarrow> dr_timestamp d \<ge> t)) (audit_trail s)"

subsection \<open>The hybrid strategy and its records\<close>

text \<open>
  The rejection of all positions by an operator has no winner, and the hybrid strategy builds its
  records from the losers of the winner.
\<close>

lemma hybrid_rejection_raises:
  assumes "valid_resolution r" and "cr_outcome r = REJECTED_BY_HUMAN"
  shows "hybrid_dissents draws c r = Inl (ConflictStrategyError (WinnerNotFound None))"
  using assms by (auto simp: hybrid_dissents_def find_losers_def valid_resolution_def resolution_check_def validate_outcome_consistency_def
      no_winner_outcome_def split: if_splits)

definition hybrid_answers :: "Conflict \<Rightarrow> conflict_error + ConflictResolution \<Rightarrow> bool" where
  "hybrid_answers c x \<longleftrightarrow> (\<exists>ds h cfg ev human now. HierarchyResolver ds = Inr h \<and> hybrid_resolve h cfg ev human now c = Some x \<and>
     (\<forall>y. human c = Some y \<longrightarrow> human_answers c y \<and> (\<forall>r. y = Inr r \<longrightarrow> cr_outcome r \<noteq> REJECTED_BY_HUMAN)))"

lemma hybrid_resolution_for:
  assumes "make_resolution (hybrid_resolution now c p by t) = Inr r" and "p \<in> set (cf_positions c)"
  shows "resolution_for c r \<and> cr_outcome r = RESOLVED_BY_HYBRID"
  using make_resolution_for [OF assms(1) _ assms(2)] by (simp add: hybrid_resolution_def)

lemma hybrid_fallback_for:
  assumes "HierarchyResolver ds = Inr h" and "valid_conflict c" and "hybrid_fallback h now c = Some (Inr r)"
  shows "resolution_for c r \<and> cr_outcome r = RESOLVED_BY_HYBRID"
proof -
  have "arg_min_list (authority_key h) (cf_positions c) \<in> set (cf_positions c)"
    using assms(2) by (auto elim!: valid_conflict_positions intro!: arg_min_list_in)
  then show ?thesis using assms(3) hybrid_resolution_for
    by (auto simp: hybrid_fallback_def pick_highest_seniority_eq [OF assms(1,2)])
qed

lemma hybrid_answers_for:
  assumes c: "valid_conflict c" and "hybrid_answers c (Inr r)"
  shows "resolution_for c r \<and> cr_outcome r \<noteq> REJECTED_BY_HUMAN"
proof -
  obtain ds h cfg ev human now where h: "HierarchyResolver ds = Inr h" "hybrid_resolve h cfg ev human now c = Some (Inr r)"
    and called: "\<forall>y. human c = Some y \<longrightarrow> human_answers c y \<and> (\<forall>r. y = Inr r \<longrightarrow> cr_outcome r \<noteq> REJECTED_BY_HUMAN)"
    using assms(2) unfolding hybrid_answers_def by (elim exE conjE)
  consider (fallback) "hybrid_fallback h now c = Some (Inr r)" | (human) "human c = Some (Inr r)"
    | (judged) p a t where "make_resolution (hybrid_resolution now c p a t) = Inr r" "p \<in> set (cf_positions c)"
    using h(2) find_position_Some
    by (cases ev; cases "the ev c (review_agent cfg)"; cases "find_position c (fst (projr (the ev c (review_agent cfg))))")
      (auto simp: hybrid_resolve_def split: if_split_asm)
  then show ?thesis
  proof cases
    case human
    then show ?thesis using human_answers_for called by blast
  next
    case fallback
    then show ?thesis using hybrid_fallback_for [OF h(1) c] by auto
  next
    case judged
    then show ?thesis using hybrid_resolution_for by auto
  qed
qed

lemma hybrid_dissents_for:
  assumes "valid_conflict c" and "resolution_for c r" and "cr_outcome r \<noteq> REJECTED_BY_HUMAN"
  shows "\<exists>ds. hybrid_dissents draws c r = Inr ds \<and> dissents_for HYBRID c r ds"
proof (cases "cr_outcome r = ESCALATED_TO_HUMAN")
  case True
  have "list_all (\<lambda>(k, v). not_blank k \<and> not_blank v) [(''escalation_reason'', ''ambiguous_review'')]" by code_simp
  moreover have "overruled c r = cf_positions c" using True by (simp add: overruled_def no_winner_outcome_def)
  ultimately show ?thesis using overruled_dissents [OF assms(1,2)] True by (simp add: hybrid_dissents_def)
next
  case False
  then have "\<not> no_winner_outcome (cr_outcome r)" using assms(3) by (simp add: no_winner_outcome_def)
  then show ?thesis using loser_dissents [OF assms(1,2)] False by (simp add: hybrid_dissents_def)
qed

interpretation hybrid: conflict_resolver HYBRID hybrid_answers "hybrid_dissents draws" for draws
  by unfold_locales (use hybrid_answers_for hybrid_dissents_for in blast)+

text \<open>With the default processor a rejection is refused at the endpoint, so the contract holds for the human resolver it escalates to.\<close>

lemma winner_strategy_never_rejects:
  assumes "esc_reach WINNER_STRATEGY timeout s" and "dget (resolvers s) k = Some (Returned (Inr r))"
  shows "cr_outcome r \<noteq> REJECTED_BY_HUMAN"
proof -
  obtain e where "phase_ok WINNER_STRATEGY e (Returned (Inr r))" using system_ok_phase_at [OF esc_reach_ok [OF assms(1)] assms(2)] .
  then show ?thesis
    by (auto simp: phase_ok_def reports_row_def dest!: process_decision_for split: EscalationDecision.splits)
qed

subsection \<open>Publication\<close>

lemma publish_keeps_trail [simp]:
  "audit_trail (publish_dissent_message env i d s) = audit_trail s" "audit_trail (publish_dissent_sse env i d s) = audit_trail s"
  "cs_strategy (publish_dissent_message env i d s) = cs_strategy s" "cs_strategy (publish_dissent_sse env i d s) = cs_strategy s"
  "cs_bus (publish_dissent_sse env i d s) = cs_bus s" "cs_hub (publish_dissent_message env i d s) = cs_hub s"
  by (auto simp: publish_dissent_message_def publish_dissent_sse_def split: option.splits)

lemma publish_events_keep_trail [simp]: "audit_trail (publish_dissent_events env i ds s) = audit_trail s"
  by (induction ds arbitrary: i s) simp_all

definition dissent_channel :: "bus \<Rightarrow> bool" where
  "dissent_channel b \<longleftrightarrow> running b \<and> dget (chans b) CHANNEL_DISSENT \<noteq> None"

definition dissent_log :: "bus \<Rightarrow> Message list" where
  "dissent_log b = dget_or (history b) CHANNEL_DISSENT []"

lemma fold_deliver_keeps:
  "history (fold (deliver cfg ch m now) subs b) = history b" "running (fold (deliver cfg ch m now) subs b) = running b"
  "chans (fold (deliver cfg ch m now) subs b) = chans b"
  by (induction subs arbitrary: b) (auto simp: deliver_def enqueue_or_drop_def ensure_queue_def split: option.splits)

lemma publish_dissent_log:
  assumes "dissent_channel b" and "msg_channel m = CHANNEL_DISSENT"
  shows "dissent_channel (snd (publish cfg m now b))"
    "dissent_log (snd (publish cfg m now b)) = deque_append (max_messages_per_channel cfg) (dissent_log b) m"
  using assms by (auto simp: publish_def dissent_channel_def dissent_log_def fold_deliver_keeps record_history_def split: option.splits)

lemma dissent_message_valid:
  assumes "dissent_check d = None"
  shows "valid_message (dissent_message env i d)"
proof -
  have "not_blank CHANNEL_DISSENT" by code_simp
  moreover have "not_blank (dr_agent_id d)" using assms by (simp add: dissent_check_def split: if_splits)
  ultimately show ?thesis by (simp add: valid_message_def dissent_message_def valid_part_def)
qed

fun dissent_messages :: "publish_env \<Rightarrow> nat \<Rightarrow> DissentRecord list \<Rightarrow> Message list" where
  "dissent_messages env i [] = []"
| "dissent_messages env i (d # ds) = dissent_message env i d # dissent_messages env (Suc i) ds"

text \<open>One message per record, in order, in the history of the channel (which keeps the latest messages).\<close>

lemma publish_events_bus:
  assumes "list_all (\<lambda>d. dissent_check d = None) ds" and "cs_bus s = Some b" and "dissent_channel b"
    and "dissent_log b = drop (length xs - max_messages_per_channel (pe_cfg env)) xs"
  shows "\<exists>b'. cs_bus (publish_dissent_events env i ds s) = Some b' \<and> dissent_channel b' \<and>
    dissent_log b' = (let ys = xs @ dissent_messages env i ds in drop (length ys - max_messages_per_channel (pe_cfg env)) ys)"
  using assms
proof (induction ds arbitrary: i s b xs)
  case (Cons d ds)
  let ?m = "dissent_message env i d"
  let ?b = "snd (publish (pe_cfg env) ?m (pe_now env (2 * i)) b)"
  have ch: "msg_channel ?m = CHANNEL_DISSENT" by (simp add: dissent_message_def)
  have "cs_bus (publish_dissent_message env i d s) = Some ?b"
    using Cons.prems(1,2) dissent_message_valid by (simp add: publish_dissent_message_def)
  then have "cs_bus (publish_dissent_sse env i d (publish_dissent_message env i d s)) = Some ?b" by simp
  moreover have "dissent_log ?b = drop (length (xs @ [?m]) - max_messages_per_channel (pe_cfg env)) (xs @ [?m])"
    using publish_dissent_log(2) [OF Cons.prems(3) ch] Cons.prems(4) by (simp add: deque_append_drop)
  ultimately show ?case
    using Cons.IH [of "publish_dissent_sse env i d (publish_dissent_message env i d s)" ?b "xs @ [?m]" "Suc i"]
      Cons.prems(1) publish_dissent_log(1) [OF Cons.prems(3) ch] by (simp add: Let_def)
qed (simp add: Let_def)

subsection \<open>What the service does with a strategy that keeps the contract\<close>

context conflict_resolver
begin

lemma service_records:
  assumes "valid_conflict c" and "answers c (Inr r)" and "dget strategies (cs_strategy s) = Some st"
    and "st_resolve st c = Some (Inr r)" and "st_dissents st = dissents"
  obtains ds s' where "service_resolve env strategies c s = Some (Inr (r, ds), s')" "audit_trail s' = audit_trail s @ ds"
    "dissents_for strategy c r ds" "s' = publish_dissent_events env 0 ds (s\<lparr>audit_trail := audit_trail s @ ds\<rparr>)"
    "set (List.map dr_agent_id ds) = set (List.map cp_agent_id (cf_positions c)) - set_option (cr_winning_agent_id r)"
    "distinct (List.map dr_agent_id ds)"
proof -
  obtain ds where ds: "dissents c r = Inr ds" "dissents_for strategy c r ds" using recorded [OF assms(1,2)] by blast
  obtain ds' where "dissents c r = Inr ds'" "distinct (List.map dr_agent_id ds')"
    "set (List.map dr_agent_id ds') = set (List.map cp_agent_id (cf_positions c)) - set_option (cr_winning_agent_id r)"
    using dissenters [OF assms(1,2)] .
  then show ?thesis using that ds assms(3-5) by (simp add: service_resolve_def)
qed

end

subsection \<open>Properties\<close>

lemma authority_resolution_valid:
  assumes "valid_conflict c" and "w \<in> set (cf_positions c)"
  shows "make_resolution (authority_resolution now c w) = Inr (authority_resolution now c w)"
proof -
  have "not_blank (cf_id c)" using assms(1) by (rule valid_conflict_positions)
  moreover have "position_fields w" using valid_conflict_fields [OF assms(1)] assms(2) by (auto simp: list_all_iff)
  moreover have "not_blank (cr_reasoning (authority_resolution now c w))" by (simp add: authority_resolution_def not_blank_def py_isspace_def)
  ultimately show ?thesis
    by (simp add: make_resolution_def resolution_check_def validate_outcome_consistency_def no_winner_outcome_def position_fields_def)
      (simp add: authority_resolution_def)
qed

definition authority_strategy :: "charts \<Rightarrow> time \<Rightarrow> (nat \<Rightarrow> string \<times> time) \<Rightarrow> conflict_strategy" where
  "authority_strategy h now draws = \<lparr>st_resolve = authority_resolve h now, st_dissents = authority_dissents draws\<rparr>"

text \<open>
  C20: with the default strategy on a constructed hierarchy the service decides every valid conflict in
  which equally senior participants share a manager: the first position of the highest seniority and
  least depth wins, the audit trail grows by exactly one valid record per other participant, and, when
  a bus with the dissent channel runs, one message per record joins the channel's history in order.
\<close>

theorem service_decides_by_authority:
  assumes h: "HierarchyResolver deps = Inr h" and c: "valid_conflict c"
    and share: "\<forall>a \<in> set (cf_positions c). \<forall>b \<in> set (cf_positions c). a \<noteq> b \<longrightarrow> cp_level a = cp_level b \<longrightarrow>
      common_managers h (cp_agent_id a) (cp_agent_id b) \<noteq> {}"
    and s: "cs_strategy s = AUTHORITY" "dget strategies AUTHORITY = Some (authority_strategy h now draws)"
  defines "w \<equiv> arg_min_list (authority_key h) (cf_positions c)"
  shows "\<exists>ds s'. service_resolve env strategies c s = Some (Inr (authority_resolution now c w, ds), s') \<and>
    audit_trail s' = audit_trail s @ ds \<and> list_all (\<lambda>d. dissent_check d = None) ds \<and> distinct (List.map dr_agent_id ds) \<and>
    set (List.map dr_agent_id ds) = set (List.map cp_agent_id (cf_positions c)) - {cp_agent_id w} \<and>
    (\<forall>b. cs_bus s = Some b \<and> dissent_channel b \<and> length (dissent_log b) + length ds \<le> max_messages_per_channel (pe_cfg env) \<longrightarrow>
       (\<exists>b'. cs_bus s' = Some b' \<and> dissent_log b' = dissent_log b @ dissent_messages env 0 ds))"
proof -
  have "pick_winner h c = Some (Inr w)"
    using h c by (cases rule: pick_winner_cases) (use share in \<open>auto simp: w_def incomparable_def\<close>)
  then have res: "authority_resolve h now c = Some (Inr (authority_resolution now c w))"
    using authority_resolution_valid [OF c authority_winner_in [OF h c]] by (simp add: authority_resolve_def)
  have ans: "\<exists>ds h now'. HierarchyResolver ds = Inr h \<and> authority_resolve h now' c = Some (Inr (authority_resolution now c w))"
    using h res by blast
  obtain ds s' where ds: "service_resolve env strategies c s = Some (Inr (authority_resolution now c w, ds), s')"
    "audit_trail s' = audit_trail s @ ds" "dissents_for AUTHORITY c (authority_resolution now c w) ds"
    "s' = publish_dissent_events env 0 ds (s\<lparr>audit_trail := audit_trail s @ ds\<rparr>)"
    "set (List.map dr_agent_id ds) = set (List.map cp_agent_id (cf_positions c)) - set_option (cr_winning_agent_id (authority_resolution now c w))"
    "distinct (List.map dr_agent_id ds)"
    by (rule authority.service_records [OF c ans, where strategies = strategies and s = s and env = env and draws = draws and st = "authority_strategy h now draws"])
      (use s res in \<open>simp_all add: authority_strategy_def\<close>)
  have valid: "list_all (\<lambda>d. dissent_check d = None) ds" using ds(3) by (auto simp: dissents_for_def list_all_iff)
  have len: "length (dissent_messages env i ds) = length ds" for i by (induction ds arbitrary: i) simp_all
  have "\<exists>b'. cs_bus s' = Some b' \<and> dissent_log b' = dissent_log b @ dissent_messages env 0 ds"
    if "cs_bus s = Some b" "dissent_channel b" "length (dissent_log b) + length ds \<le> max_messages_per_channel (pe_cfg env)" for b
    using publish_events_bus [OF valid, of "s\<lparr>audit_trail := audit_trail s @ ds\<rparr>" b "dissent_log b" env 0] that by (auto simp: ds(4) len Let_def)
  moreover have "cr_winning_agent_id (authority_resolution now c w) = Some (cp_agent_id w)" by (simp add: authority_resolution_def)
  ultimately show ?thesis using ds valid by auto
qed

definition sample_service :: conflict_service where
  "sample_service = \<lparr>cs_strategy = AUTHORITY, audit_trail = [], cs_bus = None, cs_hub = None\<rparr>"

definition sample_draws :: "nat \<Rightarrow> string \<times> time" where
  "sample_draws i = (''0'', 1)"

theorem service_decides_by_authority_witness:
  "\<forall>env. \<exists>ds s'. service_resolve env [(AUTHORITY, authority_strategy split_charts 3 sample_draws)] two_seniors sample_service =
       Some (Inr (authority_resolution 3 two_seniors (stance ''anna'' ''x'' SENIOR), ds), s') \<and>
     set (List.map dr_agent_id ds) = {''carl''}"
proof (rule allI)
  fix env :: publish_env
  have v: "valid_conflict two_seniors" by code_simp
  have up: "(''carl'', ''anna'') \<in> (up (supervisor_of split_charts))\<^sup>*"
    by (rule r_into_rtrancl) (simp, code_simp)
  then have "common_managers split_charts ''carl'' ''anna'' \<noteq> {}" "common_managers split_charts ''anna'' ''carl'' \<noteq> {}"
    by (auto simp: common_managers_def)
  then have share: "\<forall>a \<in> set (cf_positions two_seniors). \<forall>b \<in> set (cf_positions two_seniors). a \<noteq> b \<longrightarrow> cp_level a = cp_level b \<longrightarrow>
      common_managers split_charts (cp_agent_id a) (cp_agent_id b) \<noteq> {}"
    by (auto simp: two_seniors_def dispute_def stance_def)
  have w: "arg_min_list (authority_key split_charts) (cf_positions two_seniors) = stance ''anna'' ''x'' SENIOR" by code_simp
  have ids: "set (List.map cp_agent_id (cf_positions two_seniors)) - {cp_agent_id (stance ''anna'' ''x'' SENIOR)} = {''carl''}" by code_simp
  have "cs_strategy sample_service = AUTHORITY" "dget [(AUTHORITY, authority_strategy split_charts 3 sample_draws)] AUTHORITY =
      Some (authority_strategy split_charts 3 sample_draws)" by (simp_all add: sample_service_def)
  note main = service_decides_by_authority [OF split_resolver v share this, of env, unfolded w ids]
  obtain ds s' where "service_resolve env [(AUTHORITY, authority_strategy split_charts 3 sample_draws)] two_seniors sample_service =
       Some (Inr (authority_resolution 3 two_seniors (stance ''anna'' ''x'' SENIOR), ds), s')" "set (List.map dr_agent_id ds) = {''carl''}"
    using main by (elim exE conjE)
  then show "\<exists>ds s'. service_resolve env [(AUTHORITY, authority_strategy split_charts 3 sample_draws)] two_seniors sample_service =
       Some (Inr (authority_resolution 3 two_seniors (stance ''anna'' ''x'' SENIOR), ds), s') \<and>
     set (List.map dr_agent_id ds) = {''carl''}"
    by (intro exI conjI)
qed

text \<open>
  An operator's rejection is lost on the hybrid strategy: after an ambiguous review the human
  resolver returns REJECTED_BY_HUMAN, a valid resolution, but building the dissent records raises, so
  that the service raises and records nothing.
\<close>

theorem hybrid_rejection_lost:
  "\<exists>s r. esc_reach HYBRID_STRATEGY None s \<and> dget (resolvers s) (escalation_id ''1'') = Some (Returned (Inr r)) \<and>
     resolution_for two_seniors r \<and> cr_outcome r = REJECTED_BY_HUMAN \<and>
     (\<forall>svc env h reviewer t now draws.
        service_resolve env
          [(HYBRID, \<lparr>st_resolve = hybrid_resolve h \<lparr>review_agent = reviewer, escalate_on_ambiguity = True\<rparr>
                        (Some (\<lambda>_ _. Inr (''nobody'', t))) (\<lambda>_. Some (Inr r)) now,
                     st_dissents = hybrid_dissents draws\<rparr>)] two_seniors (svc\<lparr>cs_strategy := HYBRID\<rparr>) =
        Some (Inl (ConflictStrategyError (WinnerNotFound None)), svc\<lparr>cs_strategy := HYBRID\<rparr>))"
proof -
  let ?k = "escalation_id ''1''"
  define evs where "evs = opened @ [Submit (Some ''eve'') ?k (RejectDecision ''neither'') 5, Wake False 6 ?k]"
  let ?s = "state_after HYBRID_STRATEGY None evs"
  have "esc_run HYBRID_STRATEGY None evs new_escalation_system \<noteq> None" unfolding evs_def by code_simp
  then have reach: "esc_reach HYBRID_STRATEGY None ?s" by (rule state_after_reach)
  have "case (dget (resolvers ?s) ?k, dget (rows ?s) ?k) of
      (Some (Returned (Inr r)), Some e) \<Rightarrow> cr_outcome r = REJECTED_BY_HUMAN \<and> es_conflict e = two_seniors | _ \<Rightarrow> False"
    unfolding evs_def by code_simp
  then obtain r e where r: "dget (resolvers ?s) ?k = Some (Returned (Inr r))" "cr_outcome r = REJECTED_BY_HUMAN"
    "dget (rows ?s) ?k = Some e" "es_conflict e = two_seniors"
    by (auto split: option.split_asm phase.split_asm sum.split_asm)
  have for_c: "resolution_for two_seniors r" by (rule human_answers_for) (use reach r(1,3,4) in \<open>unfold human_answers_def, blast\<close>)
  then have "hybrid_dissents draws two_seniors r = Inl (ConflictStrategyError (WinnerNotFound None))" for draws
    using hybrid_rejection_raises r(2) by (simp add: resolution_for_def)
  moreover have "find_position two_seniors ''nobody'' = None" by code_simp
  ultimately show ?thesis using reach r(1,2) for_c
    by (intro exI [of _ ?s] exI [of _ r]) (simp add: service_resolve_def hybrid_resolve_def)
qed

end
