(* ===== verification/Cost_Tracker.thy ===== *)
theory Cost_Tracker
  imports Quota Python_Text
begin

text \<open>
  Costs of the calls to providers, \<^verbatim>\<open>budget/\<close>: the budget configuration, the cost records and their
  validators, the in-memory tracker with its retention window, the durable totals of projects in the SQLite
  repository, and the queries and summaries over them. The tracker's lock is only held across code that does not
  suspend, so every method is one step. Amounts are exact rationals, rounded where the source rounds; the
  timestamps of records are instants, as the comparisons of aware datetimes are. A failing database is an
  argument of the repository's operations.
\<close>

subsection \<open>Billing periods\<close>

text \<open>\<open>round(x, BUDGET_ROUNDING_PRECISION)\<close>, ten decimals.\<close>

definition BUDGET_ROUNDING_PRECISION :: nat where
  "BUDGET_ROUNDING_PRECISION = 10"

definition round_budget :: "rat \<Rightarrow> rat" where
  "round_budget x = of_int (round_half_even (x * 10 ^ BUDGET_ROUNDING_PRECISION)) / 10 ^ BUDGET_ROUNDING_PRECISION"

definition billing_period_start :: "int \<Rightarrow> datetime \<Rightarrow> datetime option" where
  "billing_period_start reset_day now =
     (if \<not> (1 \<le> reset_day \<and> reset_day \<le> 28) then None
      else if dy now \<ge> reset_day then Some (DateTime (yr now) (mo now) reset_day 0 0 0)
      else if mo now = 1 then Some (DateTime (yr now - 1) 12 reset_day 0 0 0)
      else Some (DateTime (yr now) (mo now - 1) reset_day 0 0 0))"

definition daily_period_start :: "datetime \<Rightarrow> datetime" where
  "daily_period_start now = DateTime (yr now) (mo now) (dy now) 0 0 0"

subsection \<open>Configuration\<close>

datatype BudgetAlertLevel = BUDGET_NORMAL | BUDGET_WARNING | BUDGET_CRITICAL | BUDGET_HARD_STOP

record BudgetAlertConfig =
  warn_at :: int
  critical_at :: int
  hard_stop_at :: int

definition valid_alerts :: "BudgetAlertConfig \<Rightarrow> bool" where
  "valid_alerts a \<longleftrightarrow> 0 \<le> warn_at a \<and> warn_at a \<le> 100 \<and> 0 \<le> critical_at a \<and> critical_at a \<le> 100 \<and>
     0 \<le> hard_stop_at a \<and> hard_stop_at a \<le> 100 \<and> warn_at a < critical_at a \<and> critical_at a < hard_stop_at a"

record AutoDowngradeConfig =
  dg_enabled :: bool
  dg_threshold :: int
  downgrade_map :: "(string \<times> string) list"

definition normalize_downgrade_map :: "(string \<times> string) list \<Rightarrow> (string \<times> string) list" where
  "normalize_downgrade_map m = List.map (\<lambda>(s, t). (py_strip s, py_strip t)) m"

datatype config_error = FieldError | SelfDowngrade string | DuplicateSources

fun self_downgrade :: "(string \<times> string) list \<Rightarrow> string option" where
  "self_downgrade [] = None"
| "self_downgrade ((s, t) # m) = (if s = t then Some s else self_downgrade m)"

definition make_auto_downgrade :: "bool \<Rightarrow> int \<Rightarrow> (string \<times> string) list \<Rightarrow> config_error + AutoDowngradeConfig" where
  "make_auto_downgrade enabled threshold raw =
     (let m = normalize_downgrade_map raw in
      if \<not> (0 \<le> threshold \<and> threshold \<le> 100 \<and> list_all (\<lambda>(s, t). not_blank s \<and> not_blank t) m) then Inl FieldError
      else case self_downgrade m of
             Some s \<Rightarrow> Inl (SelfDowngrade s)
           | None \<Rightarrow> if \<not> distinct (List.map fst m) then Inl DuplicateSources
                     else Inr \<lparr>dg_enabled = enabled, dg_threshold = threshold, downgrade_map = m\<rparr>)"

record RiskBudgetConfig =
  rb_enabled :: bool
  per_task_risk_limit :: rat
  per_agent_daily_risk_limit :: rat
  total_daily_risk_limit :: rat
  rb_warn_at :: int
  rb_critical_at :: int

definition valid_risk_config :: "RiskBudgetConfig \<Rightarrow> bool" where
  "valid_risk_config c \<longleftrightarrow> 0 \<le> per_task_risk_limit c \<and> 0 \<le> per_agent_daily_risk_limit c \<and> 0 \<le> total_daily_risk_limit c \<and>
     0 \<le> rb_warn_at c \<and> rb_warn_at c \<le> 100 \<and> 0 \<le> rb_critical_at c \<and> rb_critical_at c \<le> 100 \<and> rb_warn_at c < rb_critical_at c \<and>
     \<not> (per_agent_daily_risk_limit c > 0 \<and> per_task_risk_limit c > per_agent_daily_risk_limit c) \<and>
     \<not> (total_daily_risk_limit c > 0 \<and>
        (per_task_risk_limit c > total_daily_risk_limit c \<or> per_agent_daily_risk_limit c > total_daily_risk_limit c))"

text \<open>The codes with a symbol, then the other codes with a number of minor units.\<close>

definition KNOWN_ISO4217 :: "string list" where
  "KNOWN_ISO4217 =
     [''AUD'', ''BRL'', ''CAD'', ''CHF'', ''CNY'', ''CZK'', ''DKK'', ''EUR'', ''GBP'', ''HKD'', ''HUF'', ''IDR'', ''ILS'', ''INR'',
      ''JPY'', ''KRW'', ''MXN'', ''NOK'', ''NZD'', ''PLN'', ''SEK'', ''SGD'', ''THB'', ''TRY'', ''TWD'', ''USD'', ''VND'', ''ZAR'',
      ''BIF'', ''CLP'', ''DJF'', ''GNF'', ''ISK'', ''KMF'', ''MGA'', ''PYG'', ''RWF'', ''UGX'', ''VUV'', ''XAF'', ''XOF'', ''XPF'',
      ''BHD'', ''IQD'', ''JOD'', ''KWD'', ''LYD'', ''OMR'', ''TND'']"

definition valid_currency :: "string \<Rightarrow> bool" where
  "valid_currency c \<longleftrightarrow> length c = 3 \<and> list_all (\<lambda>x. 65 \<le> (of_char x :: nat) \<and> (of_char x :: nat) \<le> 90) c \<and> c \<in> set KNOWN_ISO4217"

record BudgetConfig =
  total_monthly :: rat
  alerts :: BudgetAlertConfig
  per_task_limit :: rat
  per_agent_daily_limit :: rat
  auto_downgrade :: AutoDowngradeConfig
  reset_day :: int
  budget_currency :: string
  risk_budget :: RiskBudgetConfig
  pte_tracking_enabled :: bool

definition valid_budget_config :: "BudgetConfig \<Rightarrow> bool" where
  "valid_budget_config c \<longleftrightarrow> 0 \<le> total_monthly c \<and> valid_alerts (alerts c) \<and> 0 \<le> per_task_limit c \<and> 0 \<le> per_agent_daily_limit c \<and>
     make_auto_downgrade (dg_enabled (auto_downgrade c)) (dg_threshold (auto_downgrade c)) (downgrade_map (auto_downgrade c)) =
       Inr (auto_downgrade c) \<and>
     1 \<le> reset_day c \<and> reset_day c \<le> 28 \<and> valid_currency (budget_currency c) \<and> valid_risk_config (risk_budget c) \<and>
     \<not> (total_monthly c > 0 \<and> per_task_limit c > total_monthly c) \<and>
     \<not> (total_monthly c > 0 \<and> per_agent_daily_limit c > total_monthly c)"

subsection \<open>Cost records\<close>

datatype LLMCallCategory = PRODUCTIVE | COORDINATION | SYSTEM | EMBEDDING

datatype FinishReason = FINISH_STOP | MAX_TOKENS | TOOL_USE | CONTENT_FILTER | FINISH_ERROR

record CostRecord =
  cr_agent_id :: string
  cr_task_id :: string
  cr_project_id :: "string option"
  cr_provider :: string
  cr_model :: string
  cr_input_tokens :: int
  cr_output_tokens :: int
  cr_cost :: rat
  cr_currency :: string
  cr_timestamp :: time
  cr_call_category :: "LLMCallCategory option"
  cr_accuracy_effort_ratio :: "rat option"
  cr_latency_ms :: "rat option"
  cr_cache_hit :: "bool option"
  cr_retry_count :: "int option"
  cr_retry_reason :: "string option"
  cr_finish_reason :: "FinishReason option"
  cr_success :: "bool option"

definition valid_cost_record :: "CostRecord \<Rightarrow> bool" where
  "valid_cost_record r \<longleftrightarrow> not_blank (cr_agent_id r) \<and> not_blank (cr_task_id r) \<and> opt_not_blank (cr_project_id r) \<and>
     not_blank (cr_provider r) \<and> not_blank (cr_model r) \<and> 0 \<le> cr_input_tokens r \<and> 0 \<le> cr_output_tokens r \<and> 0 \<le> cr_cost r \<and>
     valid_currency (cr_currency r) \<and> pred_option (\<lambda>x. 0 \<le> x) (cr_accuracy_effort_ratio r) \<and>
     pred_option (\<lambda>x. 0 \<le> x) (cr_latency_ms r) \<and> pred_option (\<lambda>x. 0 \<le> x) (cr_retry_count r) \<and>
     \<not> (cr_cost r > 0 \<and> cr_input_tokens r = 0 \<and> cr_output_tokens r = 0) \<and>
     \<not> (cr_retry_reason r \<noteq> None \<and> (cr_retry_count r = None \<or> cr_retry_count r = Some 0))"

subsection \<open>Filtering and aggregation\<close>

datatype cost_error = BadTimeRange | MixedCurrency "string set" | BadSpending

definition validate_cost_range :: "time option \<Rightarrow> time option \<Rightarrow> cost_error + unit" where
  "validate_cost_range start till =
     (case (start, till) of (Some a, Some b) \<Rightarrow> if a \<ge> b then Inl BadTimeRange else Inr () | _ \<Rightarrow> Inr ())"

record cost_filter =
  by_agent_id :: "string option"
  by_task_id :: "string option"
  by_project_id :: "string option"
  by_provider :: "string option"
  since :: "time option"
  until :: "time option"

definition all_records :: cost_filter where
  "all_records = \<lparr>by_agent_id = None, by_task_id = None, by_project_id = None, by_provider = None, since = None, until = None\<rparr>"

definition cost_matches :: "cost_filter \<Rightarrow> CostRecord \<Rightarrow> bool" where
  "cost_matches f r \<longleftrightarrow>
     (case by_agent_id f of None \<Rightarrow> True | Some a \<Rightarrow> cr_agent_id r = a) \<and>
     (case by_task_id f of None \<Rightarrow> True | Some a \<Rightarrow> cr_task_id r = a) \<and>
     (case by_project_id f of None \<Rightarrow> True | Some a \<Rightarrow> cr_project_id r = Some a) \<and>
     (case by_provider f of None \<Rightarrow> True | Some a \<Rightarrow> cr_provider r = a) \<and>
     (case since f of None \<Rightarrow> True | Some t \<Rightarrow> cr_timestamp r \<ge> t) \<and>
     (case until f of None \<Rightarrow> True | Some t \<Rightarrow> cr_timestamp r < t)"

definition filter_cost_records :: "cost_filter \<Rightarrow> CostRecord list \<Rightarrow> CostRecord list" where
  "filter_cost_records f rs = filter (cost_matches f) rs"

definition assert_single_currency :: "CostRecord list \<Rightarrow> cost_error + string option" where
  "assert_single_currency rs =
     (case rs of
        [] \<Rightarrow> Inr None
      | r # _ \<Rightarrow> let codes = set (List.map cr_currency rs) in
                 if card codes > 1 then Inl (MixedCurrency codes) else Inr (Some (cr_currency r)))"

record AggregateResult =
  agg_cost :: rat
  agg_currency :: "string option"
  agg_input_tokens :: int
  agg_output_tokens :: int
  agg_record_count :: nat

definition sum_cost :: "CostRecord list \<Rightarrow> rat" where
  "sum_cost rs = round_budget (sum_list (List.map cr_cost rs))"

definition aggregate :: "CostRecord list \<Rightarrow> cost_error + AggregateResult" where
  "aggregate rs = rbind (assert_single_currency rs) (\<lambda>cur.
     Inr \<lparr>agg_cost = sum_cost rs, agg_currency = cur, agg_input_tokens = sum_list (List.map cr_input_tokens rs),
          agg_output_tokens = sum_list (List.map cr_output_tokens rs), agg_record_count = length rs\<rparr>)"

subsection \<open>Durable totals of projects\<close>

record ProjectCostAggregate =
  pa_total_cost :: rat
  pa_input_tokens :: int
  pa_output_tokens :: int
  pa_record_count :: int
  pa_last_updated :: time

type_synonym project_rows = "(string, ProjectCostAggregate) dict"

datatype repo_fault = QueryFailed | BadRow | BadDelta

definition valid_aggregate :: "string \<Rightarrow> ProjectCostAggregate \<Rightarrow> bool" where
  "valid_aggregate p a \<longleftrightarrow> not_blank p \<and> 0 \<le> pa_total_cost a \<and> 0 \<le> pa_input_tokens a \<and> 0 \<le> pa_output_tokens a \<and> 0 \<le> pa_record_count a"

definition upsert :: "string \<Rightarrow> rat \<Rightarrow> int \<Rightarrow> int \<Rightarrow> time \<Rightarrow> project_rows \<Rightarrow> ProjectCostAggregate" where
  "upsert p c i t now rows =
     (case dget rows p of
        None \<Rightarrow> \<lparr>pa_total_cost = c, pa_input_tokens = i, pa_output_tokens = t, pa_record_count = 1, pa_last_updated = now\<rparr>
      | Some a \<Rightarrow> \<lparr>pa_total_cost = pa_total_cost a + c, pa_input_tokens = pa_input_tokens a + i,
                   pa_output_tokens = pa_output_tokens a + t, pa_record_count = pa_record_count a + 1, pa_last_updated = now\<rparr>)"

definition increment :: "bool \<Rightarrow> string \<Rightarrow> rat \<Rightarrow> int \<Rightarrow> int \<Rightarrow> time \<Rightarrow> project_rows \<Rightarrow>
    (repo_fault + ProjectCostAggregate) \<times> project_rows" where
  "increment fails p c i t now rows =
     (if c < 0 \<or> i < 0 \<or> t < 0 then (Inl BadDelta, rows)
      else if fails then (Inl QueryFailed, rows)
      else let a = upsert p c i t now rows in
           (if valid_aggregate p a then Inr a else Inl BadRow, dput p a rows))"

definition get_aggregate :: "bool \<Rightarrow> string \<Rightarrow> project_rows \<Rightarrow> repo_fault + ProjectCostAggregate option" where
  "get_aggregate fails p rows =
     (if fails then Inl QueryFailed
      else case dget rows p of
             None \<Rightarrow> Inr None
           | Some a \<Rightarrow> if valid_aggregate p a then Inr (Some a) else Inl BadRow)"

subsection \<open>Tracker\<close>

definition COST_WINDOW_HOURS :: nat where
  "COST_WINDOW_HOURS = 168"

definition AUTO_PRUNE_THRESHOLD :: nat where
  "AUTO_PRUNE_THRESHOLD = 100000"

record cost_tracker =
  ct_records :: "CostRecord list"
  ct_config :: "BudgetConfig option"
  ct_departments :: "(string \<Rightarrow> unit + string option) option"
  ct_prune_threshold :: int
  ct_repo :: "project_rows option"
  project_currencies :: "(string, string) dict"

definition new_cost_tracker :: "BudgetConfig option \<Rightarrow> (string \<Rightarrow> unit + string option) option \<Rightarrow> int \<Rightarrow> project_rows option \<Rightarrow>
    cost_tracker option" where
  "new_cost_tracker cfg depts threshold repo =
     (if threshold < 1 then None
      else Some \<lparr>ct_records = [], ct_config = cfg, ct_departments = depts, ct_prune_threshold = threshold, ct_repo = repo,
                 project_currencies = []\<rparr>)"

definition update_project_aggregate :: "bool \<Rightarrow> time \<Rightarrow> CostRecord \<Rightarrow> cost_tracker \<Rightarrow> cost_tracker" where
  "update_project_aggregate fails now r s =
     (case (ct_repo s, cr_project_id r) of
        (Some rows, Some p) \<Rightarrow>
          s\<lparr>ct_repo := Some (snd (increment fails p (cr_cost r) (cr_input_tokens r) (cr_output_tokens r) now rows))\<rparr>
      | _ \<Rightarrow> s)"

text \<open>The two currency guards: the configured currency, or the one the project's first record has pinned.\<close>

definition currency_conflict :: "CostRecord \<Rightarrow> cost_tracker \<Rightarrow> string option" where
  "currency_conflict r s =
     (case ct_config s of
        Some cfg \<Rightarrow> if cr_currency r \<noteq> budget_currency cfg then Some (budget_currency cfg) else None
      | None \<Rightarrow>
          (case (ct_repo s, cr_project_id r) of
             (Some _, Some p) \<Rightarrow> (case dget (project_currencies s) p of
                None \<Rightarrow> None | Some pinned \<Rightarrow> if pinned \<noteq> cr_currency r then Some pinned else None)
           | _ \<Rightarrow> None))"

definition pin_currency :: "CostRecord \<Rightarrow> cost_tracker \<Rightarrow> cost_tracker" where
  "pin_currency r s =
     (case (ct_config s, ct_repo s, cr_project_id r) of
        (None, Some _, Some p) \<Rightarrow>
          (if dget (project_currencies s) p = None then s\<lparr>project_currencies := dput p (cr_currency r) (project_currencies s)\<rparr> else s)
      | _ \<Rightarrow> s)"

definition record_cost :: "bool \<Rightarrow> time \<Rightarrow> CostRecord \<Rightarrow> cost_tracker \<Rightarrow> (cost_error + unit) \<times> cost_tracker" where
  "record_cost fails now r s =
     (case currency_conflict r s of
        Some other \<Rightarrow> (Inl (MixedCurrency {cr_currency r, other}), s)
      | None \<Rightarrow>
          let s1 = pin_currency r s; s2 = s1\<lparr>ct_records := ct_records s1 @ [r]\<rparr> in
          (Inr (), update_project_aggregate fails now r s2))"

definition prune_before :: "time \<Rightarrow> cost_tracker \<Rightarrow> nat \<times> cost_tracker" where
  "prune_before cutoff s =
     (let kept = filter (\<lambda>r. cr_timestamp r \<ge> cutoff) (ct_records s) in
      (length (ct_records s) - length kept, s\<lparr>ct_records := kept\<rparr>))"

definition cost_cutoff :: "time \<Rightarrow> time" where
  "cost_cutoff now = now - of_nat COST_WINDOW_HOURS * 3600"

definition prune_expired :: "time \<Rightarrow> cost_tracker \<Rightarrow> nat \<times> cost_tracker" where
  "prune_expired now s = prune_before (cost_cutoff now) s"

definition snapshot :: "time \<Rightarrow> cost_tracker \<Rightarrow> CostRecord list \<times> cost_tracker" where
  "snapshot now s =
     (let s' = (if int (length (ct_records s)) > ct_prune_threshold s then snd (prune_before (cost_cutoff now) s) else s)
      in (ct_records s', s'))"

definition clear :: "cost_tracker \<Rightarrow> cost_tracker" where
  "clear s = s\<lparr>ct_records := []\<rparr>"

subsection \<open>Queries\<close>

text \<open>Every query validates its range before it takes the snapshot.\<close>

definition query :: "(CostRecord list \<Rightarrow> cost_error + 'a) \<Rightarrow> cost_filter \<Rightarrow> time \<Rightarrow> cost_tracker \<Rightarrow> (cost_error + 'a) \<times> cost_tracker" where
  "query view f now s =
     (case validate_cost_range (since f) (until f) of
        Inl e \<Rightarrow> (Inl e, s)
      | Inr _ \<Rightarrow> let (rs, s') = snapshot now s in (view (filter_cost_records f rs), s'))"

definition cost_view :: "CostRecord list \<Rightarrow> cost_error + rat" where
  "cost_view rs = rbind (aggregate rs) (\<lambda>a. Inr (agg_cost a))"

definition get_total_cost :: "time option \<Rightarrow> time option \<Rightarrow> time \<Rightarrow> cost_tracker \<Rightarrow> (cost_error + rat) \<times> cost_tracker" where
  "get_total_cost start till now s = query cost_view (all_records\<lparr>since := start, until := till\<rparr>) now s"

definition get_agent_cost :: "string \<Rightarrow> time option \<Rightarrow> time option \<Rightarrow> time \<Rightarrow> cost_tracker \<Rightarrow> (cost_error + rat) \<times> cost_tracker" where
  "get_agent_cost a start till now s = query cost_view (all_records\<lparr>by_agent_id := Some a, since := start, until := till\<rparr>) now s"

definition get_project_cost :: "string \<Rightarrow> time option \<Rightarrow> time option \<Rightarrow> time \<Rightarrow> cost_tracker \<Rightarrow> (cost_error + rat) \<times> cost_tracker" where
  "get_project_cost p start till now s = query cost_view (all_records\<lparr>by_project_id := Some p, since := start, until := till\<rparr>) now s"

definition get_project_records :: "string \<Rightarrow> time option \<Rightarrow> time option \<Rightarrow> time \<Rightarrow> cost_tracker \<Rightarrow>
    (cost_error + CostRecord list) \<times> cost_tracker" where
  "get_project_records p start till now s = query Inr (all_records\<lparr>by_project_id := Some p, since := start, until := till\<rparr>) now s"

definition get_record_count :: "cost_tracker \<Rightarrow> nat" where
  "get_record_count s = length (ct_records s)"

definition get_records :: "string option \<Rightarrow> string option \<Rightarrow> string option \<Rightarrow> time option \<Rightarrow> time option \<Rightarrow> time \<Rightarrow> cost_tracker \<Rightarrow>
    (cost_error + CostRecord list) \<times> cost_tracker" where
  "get_records a t p start till now s =
     query Inr \<lparr>by_agent_id = a, by_task_id = t, by_project_id = None, by_provider = p, since = start, until = till\<rparr> now s"

record ProviderUsageSummary =
  pu_total_tokens :: int
  pu_total_cost :: rat

definition usage_view :: "CostRecord list \<Rightarrow> cost_error + ProviderUsageSummary" where
  "usage_view rs =
     (if rs = [] then Inr \<lparr>pu_total_tokens = 0, pu_total_cost = 0\<rparr>
      else rbind (aggregate rs) (\<lambda>a. Inr \<lparr>pu_total_tokens = agg_input_tokens a + agg_output_tokens a, pu_total_cost = agg_cost a\<rparr>))"

definition get_provider_usage :: "string \<Rightarrow> time option \<Rightarrow> time option \<Rightarrow> time \<Rightarrow> cost_tracker \<Rightarrow>
    (cost_error + ProviderUsageSummary) \<times> cost_tracker" where
  "get_provider_usage p start till now s = query usage_view (all_records\<lparr>by_provider := Some p, since := start, until := till\<rparr>) now s"

subsection \<open>Summaries\<close>

record SpendingTotals =
  sp_total_cost :: rat
  sp_currency :: "string option"
  sp_input_tokens :: int
  sp_output_tokens :: int
  sp_record_count :: nat

definition valid_totals :: "SpendingTotals \<Rightarrow> bool" where
  "valid_totals t \<longleftrightarrow> 0 \<le> sp_total_cost t \<and> pred_option valid_currency (sp_currency t) \<and> 0 \<le> sp_input_tokens t \<and>
     0 \<le> sp_output_tokens t \<and> \<not> (sp_record_count t > 0 \<and> sp_currency t = None)"

definition spending_of :: "AggregateResult \<Rightarrow> SpendingTotals" where
  "spending_of a = \<lparr>sp_total_cost = agg_cost a, sp_currency = agg_currency a, sp_input_tokens = agg_input_tokens a,
     sp_output_tokens = agg_output_tokens a, sp_record_count = agg_record_count a\<rparr>"

text \<open>A spending row names its agent or department.\<close>

type_synonym spending_row = "string \<times> SpendingTotals"

definition make_spending_row :: "string \<Rightarrow> SpendingTotals \<Rightarrow> cost_error + spending_row" where
  "make_spending_row name t = (if not_blank name \<and> valid_totals t then Inr (name, t) else Inl BadSpending)"

definition group_by :: "('a \<Rightarrow> string) \<Rightarrow> 'a list \<Rightarrow> (string, 'a list) dict" where
  "group_by key xs = fold (\<lambda>x d. dput (key x) (dget_or d (key x) [] @ [x]) d) xs []"

definition group_by_agent :: "CostRecord list \<Rightarrow> (string, CostRecord list) dict" where
  "group_by_agent rs = group_by cr_agent_id rs"

fun collect_rows :: "('a \<Rightarrow> cost_error + spending_row) \<Rightarrow> 'a list \<Rightarrow> cost_error + spending_row list" where
  "collect_rows f [] = Inr []"
| "collect_rows f (x # xs) = rbind (f x) (\<lambda>r. rbind (collect_rows f xs) (\<lambda>rs. Inr (r # rs)))"

definition build_agent_spendings :: "CostRecord list \<Rightarrow> cost_error + spending_row list" where
  "build_agent_spendings rs =
     (let by_agent = group_by_agent rs in
      collect_rows (\<lambda>a. rbind (aggregate (dget_or by_agent a [])) (\<lambda>g. make_spending_row a (spending_of g))) (sort (dkeys by_agent)))"

definition resolve_department :: "(string \<Rightarrow> unit + string option) option \<Rightarrow> string \<Rightarrow> string option" where
  "resolve_department resolver a =
     (case resolver of None \<Rightarrow> None | Some f \<Rightarrow> (case f a of Inl _ \<Rightarrow> None | Inr d \<Rightarrow> d))"

definition department_rows :: "(string \<Rightarrow> unit + string option) option \<Rightarrow> spending_row list \<Rightarrow> (string, spending_row list) dict" where
  "department_rows resolver rows =
     (let named = List.map_filter (\<lambda>r. map_option (\<lambda>d. (d, r)) (resolve_department resolver (fst r))) rows in
      List.map (\<lambda>(d, rs). (d, List.map snd rs)) (group_by fst named))"

definition department_spending :: "string \<Rightarrow> spending_row list \<Rightarrow> cost_error + spending_row" where
  "department_spending name rows =
     (let currencies = List.map_filter (\<lambda>r. sp_currency (snd r)) rows in
      if card (set currencies) > 1 then Inl (MixedCurrency (set currencies))
      else make_spending_row name
        \<lparr>sp_total_cost = round_budget (sum_list (List.map (sp_total_cost \<circ> snd) rows)),
         sp_currency = (case currencies of [] \<Rightarrow> None | c # _ \<Rightarrow> Some c),
         sp_input_tokens = sum_list (List.map (sp_input_tokens \<circ> snd) rows),
         sp_output_tokens = sum_list (List.map (sp_output_tokens \<circ> snd) rows),
         sp_record_count = sum_list (List.map (sp_record_count \<circ> snd) rows)\<rparr>)"

definition build_dept_spendings :: "(string \<Rightarrow> unit + string option) option \<Rightarrow> spending_row list \<Rightarrow> cost_error + spending_row list" where
  "build_dept_spendings resolver rows =
     (let d = department_rows resolver rows in collect_rows (\<lambda>n. department_spending n (dget_or d n [])) (sort (dkeys d)))"

definition compute_alert_level :: "BudgetConfig option \<Rightarrow> rat \<Rightarrow> BudgetAlertLevel" where
  "compute_alert_level cfg used_pct =
     (case cfg of
        None \<Rightarrow> BUDGET_NORMAL
      | Some c \<Rightarrow>
          if total_monthly c \<le> 0 then BUDGET_NORMAL
          else if used_pct \<ge> of_int (hard_stop_at (alerts c)) then BUDGET_HARD_STOP
          else if used_pct \<ge> of_int (critical_at (alerts c)) then BUDGET_CRITICAL
          else if used_pct \<ge> of_int (warn_at (alerts c)) then BUDGET_WARNING
          else BUDGET_NORMAL)"

definition build_budget_context :: "BudgetConfig option \<Rightarrow> rat \<Rightarrow> rat \<times> rat \<times> BudgetAlertLevel" where
  "build_budget_context cfg spent =
     (let monthly = (case cfg of None \<Rightarrow> 0 | Some c \<Rightarrow> total_monthly c);
          used_pct = (if monthly > 0 then round_budget (spent / monthly * 100) else 0)
      in (monthly, used_pct, compute_alert_level cfg used_pct))"

record SpendingSummary =
  sum_start :: time
  sum_end :: time
  sum_period :: SpendingTotals
  sum_by_agent :: "spending_row list"
  sum_by_department :: "spending_row list"
  budget_total_monthly :: rat
  budget_used_percent :: rat
  alert_level :: BudgetAlertLevel

definition make_summary :: "SpendingSummary \<Rightarrow> cost_error + SpendingSummary" where
  "make_summary m =
     (if valid_totals (sum_period m) \<and> sum_start m < sum_end m \<and> 0 \<le> budget_total_monthly m \<and> 0 \<le> budget_used_percent m \<and>
         distinct (List.map fst (sum_by_agent m)) \<and> distinct (List.map fst (sum_by_department m))
      then Inr m else Inl BadSpending)"

definition summary_view :: "cost_tracker \<Rightarrow> time \<Rightarrow> time \<Rightarrow> CostRecord list \<Rightarrow> cost_error + SpendingSummary" where
  "summary_view s start till rs =
     rbind (aggregate rs) (\<lambda>totals.
     rbind (build_agent_spendings rs) (\<lambda>agents.
     rbind (build_dept_spendings (ct_departments s) agents) (\<lambda>depts.
       let (monthly, used_pct, alert) = build_budget_context (ct_config s) (agg_cost totals) in
       make_summary \<lparr>sum_start = start, sum_end = till, sum_period = spending_of totals, sum_by_agent = agents,
         sum_by_department = depts, budget_total_monthly = monthly, budget_used_percent = used_pct, alert_level = alert\<rparr>)))"

definition build_summary :: "time \<Rightarrow> time \<Rightarrow> time \<Rightarrow> cost_tracker \<Rightarrow> (cost_error + SpendingSummary) \<times> cost_tracker" where
  "build_summary start till now s =
     query (summary_view s start till) (all_records\<lparr>since := Some start, until := Some till\<rparr>) now s"

text \<open>The cutoff \<open>build_summary\<close> warns about is the one of the mixin's own constant.\<close>

definition SUMMARY_WINDOW_HOURS :: nat where
  "SUMMARY_WINDOW_HOURS = 24 * 30"

definition warns_retention :: "time \<Rightarrow> time \<Rightarrow> bool" where
  "warns_retention start now \<longleftrightarrow> start < now - of_nat SUMMARY_WINDOW_HOURS * 3600"

subsection \<open>Categories of calls\<close>

type_synonym bucket = "rat list \<times> int \<times> int"

definition CATEGORIES :: "LLMCallCategory option list" where
  "CATEGORIES = [Some PRODUCTIVE, Some COORDINATION, Some SYSTEM, Some EMBEDDING, None]"

definition add_to_bucket :: "CostRecord \<Rightarrow> (LLMCallCategory option, bucket) dict \<Rightarrow> (LLMCallCategory option, bucket) dict" where
  "add_to_bucket r b =
     (let key = (if cr_call_category r \<in> set (dkeys b) then cr_call_category r else None);
          (costs, toks, n) = dget_or b key ([], 0, 0)
      in dput key (costs @ [cr_cost r], toks + cr_input_tokens r + cr_output_tokens r, n + 1) b)"

record CategoryRow =
  cat_cost :: rat
  cat_tokens :: int
  cat_count :: int

type_synonym CategoryBreakdown = "LLMCallCategory option \<Rightarrow> CategoryRow"

definition build_category_breakdown :: "CostRecord list \<Rightarrow> CategoryBreakdown" where
  "build_category_breakdown rs =
     (let b = fold add_to_bucket rs (List.map (\<lambda>c. (c, ([], 0, 0))) CATEGORIES) in
      (\<lambda>c. let (costs, toks, n) = dget_or b c ([], 0, 0) in
           \<lparr>cat_cost = round_budget (sum_list costs), cat_tokens = toks, cat_count = n\<rparr>))"

definition breakdown_cost :: "CategoryBreakdown \<Rightarrow> rat" where
  "breakdown_cost b = sum_list (List.map (\<lambda>c. cat_cost (b c)) CATEGORIES)"

definition breakdown_tokens :: "CategoryBreakdown \<Rightarrow> int" where
  "breakdown_tokens b = sum_list (List.map (\<lambda>c. cat_tokens (b c)) CATEGORIES)"

definition breakdown_count :: "CategoryBreakdown \<Rightarrow> int" where
  "breakdown_count b = sum_list (List.map (\<lambda>c. cat_count (b c)) CATEGORIES)"

datatype OrchestrationAlertLevel = ORCH_NORMAL | ORCH_INFO | ORCH_WARNING | ORCH_CRITICAL

record OrchestrationAlertThresholds =
  oth_info :: rat
  oth_warn :: rat
  oth_critical :: rat

definition valid_thresholds :: "OrchestrationAlertThresholds \<Rightarrow> bool" where
  "valid_thresholds t \<longleftrightarrow> 0 \<le> oth_info t \<and> oth_info t < oth_warn t \<and> oth_warn t < oth_critical t \<and> oth_critical t \<le> 1"

definition default_thresholds :: OrchestrationAlertThresholds where
  "default_thresholds = \<lparr>oth_info = 3 / 10, oth_warn = 1 / 2, oth_critical = 7 / 10\<rparr>"

definition ratio_to_alert :: "rat \<Rightarrow> OrchestrationAlertThresholds \<Rightarrow> OrchestrationAlertLevel" where
  "ratio_to_alert ratio t =
     (if ratio \<ge> oth_critical t then ORCH_CRITICAL else if ratio \<ge> oth_warn t then ORCH_WARNING
      else if ratio \<ge> oth_info t then ORCH_INFO else ORCH_NORMAL)"

record OrchestrationRatio =
  or_ratio :: rat
  or_alert :: OrchestrationAlertLevel
  or_total_tokens :: int
  or_productive :: int
  or_coordination :: int
  or_system :: int

definition make_ratio :: "OrchestrationRatio \<Rightarrow> cost_error + OrchestrationRatio" where
  "make_ratio x =
     (if 0 \<le> or_ratio x \<and> or_ratio x \<le> 1 \<and> 0 \<le> or_total_tokens x \<and> 0 \<le> or_productive x \<and> 0 \<le> or_coordination x \<and>
         0 \<le> or_system x \<and> \<not> or_total_tokens x < or_productive x + or_coordination x + or_system x
      then Inr x else Inl BadSpending)"

definition compute_orchestration_ratio :: "OrchestrationAlertThresholds option \<Rightarrow> CategoryBreakdown \<Rightarrow> cost_error + OrchestrationRatio" where
  "compute_orchestration_ratio th b =
     (let t = (case th of None \<Rightarrow> default_thresholds | Some t \<Rightarrow> t); toks = breakdown_tokens b in
      if toks = 0
      then make_ratio \<lparr>or_ratio = 0, or_alert = ORCH_NORMAL, or_total_tokens = 0, or_productive = 0, or_coordination = 0, or_system = 0\<rparr>
      else let overhead = cat_tokens (b (Some COORDINATION)) + cat_tokens (b (Some SYSTEM));
               ratio = of_int overhead / of_int toks
           in make_ratio \<lparr>or_ratio = round_budget ratio, or_alert = ratio_to_alert ratio t, or_total_tokens = toks,
                or_productive = cat_tokens (b (Some PRODUCTIVE)), or_coordination = cat_tokens (b (Some COORDINATION)),
                or_system = cat_tokens (b (Some SYSTEM))\<rparr>)"

definition get_category_breakdown :: "string option \<Rightarrow> string option \<Rightarrow> time option \<Rightarrow> time option \<Rightarrow> time \<Rightarrow> cost_tracker \<Rightarrow>
    (cost_error + CategoryBreakdown) \<times> cost_tracker" where
  "get_category_breakdown a t start till now s =
     query (\<lambda>rs. Inr (build_category_breakdown rs))
       \<lparr>by_agent_id = a, by_task_id = t, by_project_id = None, by_provider = None, since = start, until = till\<rparr> now s"

definition get_orchestration_ratio :: "OrchestrationAlertThresholds option \<Rightarrow> string option \<Rightarrow> string option \<Rightarrow> time option \<Rightarrow> time option \<Rightarrow>
    time \<Rightarrow> cost_tracker \<Rightarrow> (cost_error + OrchestrationRatio) \<times> cost_tracker" where
  "get_orchestration_ratio th a t start till now s =
     (let (b, s') = get_category_breakdown a t start till now s in (rbind b (compute_orchestration_ratio th), s'))"

subsection \<open>Rounding\<close>

lemma round_half_even_of_int [simp]: "round_half_even (of_int k) = k"
  by (simp add: round_half_even_def)

lemma round_half_even_mono: "x \<le> y \<Longrightarrow> round_half_even x \<le> round_half_even y"
proof -
  assume le: "x \<le> y"
  have f: "\<lfloor>x\<rfloor> \<le> \<lfloor>y\<rfloor>" using le by (rule floor_mono)
  consider "\<lfloor>x\<rfloor> = \<lfloor>y\<rfloor>" | "\<lfloor>x\<rfloor> + 1 \<le> \<lfloor>y\<rfloor>" using f by linarith
  then show ?thesis
  proof cases
    case 1
    then show ?thesis using le by (auto simp: round_half_even_def Let_def)
  next
    case 2
    then show ?thesis by (auto simp: round_half_even_def Let_def)
  qed
qed

lemma round_half_even_near: "\<bar>of_int (round_half_even x) - x\<bar> \<le> 1 / 2"
proof -
  have b: "of_int \<lfloor>x\<rfloor> \<le> x" "x < of_int \<lfloor>x\<rfloor> + 1" by linarith+
  consider "x - of_int \<lfloor>x\<rfloor> < 1 / 2" | "x - of_int \<lfloor>x\<rfloor> > 1 / 2" | "x - of_int \<lfloor>x\<rfloor> = 1 / 2" by linarith
  then show ?thesis using b by cases (simp_all add: round_half_even_def Let_def abs_le_iff)
qed

lemma round_budget_mono: "x \<le> y \<Longrightarrow> round_budget x \<le> round_budget y"
  by (simp add: round_budget_def divide_right_mono mult_right_mono round_half_even_mono)

lemma round_budget_0 [simp]: "round_budget 0 = 0"
  using round_half_even_of_int [of 0] by (simp add: round_budget_def)

lemma round_budget_nonneg: "0 \<le> x \<Longrightarrow> 0 \<le> round_budget x"
  using round_budget_mono [of 0 x] by simp

lemma round_budget_of_int [simp]: "round_budget (of_int k) = of_int k"
proof -
  have "(of_int k :: rat) * 10 ^ BUDGET_ROUNDING_PRECISION = of_int (k * 10 ^ BUDGET_ROUNDING_PRECISION)" by simp
  then show ?thesis unfolding round_budget_def by (simp only: round_half_even_of_int) simp
qed

lemma round_budget_le_int: "x \<le> of_int k \<Longrightarrow> round_budget x \<le> of_int k"
  using round_budget_mono [of x "of_int k"] by simp

lemma round_budget_near: "\<bar>round_budget x - x\<bar> \<le> 1 / (2 * 10 ^ BUDGET_ROUNDING_PRECISION)"
proof -
  let ?p = "10 ^ BUDGET_ROUNDING_PRECISION :: rat"
  have "round_budget x - x = (of_int (round_half_even (x * ?p)) - x * ?p) / ?p" by (simp add: round_budget_def diff_divide_distrib)
  then have "\<bar>round_budget x - x\<bar> = \<bar>of_int (round_half_even (x * ?p)) - x * ?p\<bar> / ?p" by (simp add: abs_divide)
  also have "\<dots> \<le> (1 / 2) / ?p" by (rule divide_right_mono [OF round_half_even_near]) simp
  finally show ?thesis by simp
qed

subsection \<open>Logs with a retention window\<close>

text \<open>
  What a log with a retention window promises, however its state is laid out: an operation appends entries, or
  drops those older than its own cutoff. Both the cost tracker and the risk tracker are such logs.
\<close>

fun log_added :: "('op \<Rightarrow> 's \<Rightarrow> 's) \<Rightarrow> ('op \<Rightarrow> 's \<Rightarrow> 'r list) \<Rightarrow> 'op list \<Rightarrow> 's \<Rightarrow> 'r list" where
  "log_added step added [] s = []"
| "log_added step added (p # ps) s = added p s @ log_added step added ps (step p s)"

text \<open>No operation of a run that drops entries has its cutoff after \<open>t\<close>.\<close>

fun log_kept :: "('op \<Rightarrow> 's \<Rightarrow> 's) \<Rightarrow> ('op \<Rightarrow> 's \<Rightarrow> bool) \<Rightarrow> ('op \<Rightarrow> time) \<Rightarrow> time \<Rightarrow> 'op list \<Rightarrow> 's \<Rightarrow> bool" where
  "log_kept step drops cutoff t [] s \<longleftrightarrow> True"
| "log_kept step drops cutoff t (p # ps) s \<longleftrightarrow> (drops p s \<longrightarrow> cutoff p \<le> t) \<and> log_kept step drops cutoff t ps (step p s)"

locale retained_log =
  fixes entries :: "'s \<Rightarrow> 'r list" and stamp :: "'r \<Rightarrow> time" and cutoff :: "'op \<Rightarrow> time"
    and step :: "'op \<Rightarrow> 's \<Rightarrow> 's" and added :: "'op \<Rightarrow> 's \<Rightarrow> 'r list" and drops :: "'op \<Rightarrow> 's \<Rightarrow> bool"
  assumes appends: "\<not> drops p s \<Longrightarrow> entries (step p s) = entries s @ added p s"
    and prunes: "drops p s \<Longrightarrow> added p s = [] \<and> entries (step p s) = filter (\<lambda>r. cutoff p \<le> stamp r) (entries s)"
begin

lemma step_since:
  "(drops p s \<longrightarrow> cutoff p \<le> t) \<Longrightarrow>
   filter (\<lambda>r. t \<le> stamp r) (entries (step p s)) = filter (\<lambda>r. t \<le> stamp r) (entries s @ added p s)"
  using appends [of p s] prunes [of p s] by (cases "drops p s") (auto intro!: filter_cong)

lemma run_since:
  "log_kept step drops cutoff t ps s \<Longrightarrow>
   filter (\<lambda>r. t \<le> stamp r) (entries (fold step ps s)) = filter (\<lambda>r. t \<le> stamp r) (entries s @ log_added step added ps s)"
proof (induction ps arbitrary: s)
  case (Cons p ps)
  then show ?case using step_since [of p s t] by simp
qed simp

lemma run_subset: "set (entries (fold step ps s)) \<subseteq> set (entries s) \<union> set (log_added step added ps s)"
proof (induction ps arbitrary: s)
  case (Cons p ps)
  have "set (entries (step p s)) \<subseteq> set (entries s) \<union> set (added p s)"
    using appends [of p s] prunes [of p s] by (cases "drops p s") auto
  then show ?case using Cons [of "step p s"] by auto
qed simp

end

subsection \<open>Runs of the tracker\<close>

datatype cost_op = RecordCost bool time CostRecord | PruneCosts time | QueryCosts time

primrec cost_step :: "cost_op \<Rightarrow> cost_tracker \<Rightarrow> cost_tracker" where
  "cost_step (RecordCost fails now r) s = snd (record_cost fails now r s)"
| "cost_step (PruneCosts now) s = snd (prune_expired now s)"
| "cost_step (QueryCosts now) s = snd (snapshot now s)"

primrec cost_added :: "cost_op \<Rightarrow> cost_tracker \<Rightarrow> CostRecord list" where
  "cost_added (RecordCost fails now r) s = (if currency_conflict r s = None then [r] else [])"
| "cost_added (PruneCosts now) s = []"
| "cost_added (QueryCosts now) s = []"

primrec cost_clock :: "cost_op \<Rightarrow> time" where
  "cost_clock (RecordCost _ now _) = now"
| "cost_clock (PruneCosts now) = now"
| "cost_clock (QueryCosts now) = now"

definition cost_run :: "cost_op list \<Rightarrow> cost_tracker \<Rightarrow> cost_tracker" where
  "cost_run ps s = fold cost_step ps s"

primrec cost_drops :: "cost_op \<Rightarrow> cost_tracker \<Rightarrow> bool" where
  "cost_drops (RecordCost fails now r) s \<longleftrightarrow> False"
| "cost_drops (PruneCosts now) s \<longleftrightarrow> True"
| "cost_drops (QueryCosts now) s \<longleftrightarrow> int (length (ct_records s)) > ct_prune_threshold s"

text \<open>No pruning of the run, explicit or by the size of the store, has removed records from \<open>t\<close> on.\<close>

definition costs_kept :: "time \<Rightarrow> cost_op list \<Rightarrow> cost_tracker \<Rightarrow> bool" where
  "costs_kept t ps s \<longleftrightarrow> log_kept cost_step cost_drops (\<lambda>p. cost_cutoff (cost_clock p)) t ps s"

lemma pin_currency_kept [simp]:
  "ct_records (pin_currency r s) = ct_records s" "ct_config (pin_currency r s) = ct_config s" "ct_repo (pin_currency r s) = ct_repo s"
  "ct_prune_threshold (pin_currency r s) = ct_prune_threshold s" "ct_departments (pin_currency r s) = ct_departments s"
  by (simp_all add: pin_currency_def split: option.splits)

lemma update_project_aggregate_kept [simp]:
  "ct_records (update_project_aggregate f now r s) = ct_records s" "ct_config (update_project_aggregate f now r s) = ct_config s"
  "project_currencies (update_project_aggregate f now r s) = project_currencies s"
  "ct_prune_threshold (update_project_aggregate f now r s) = ct_prune_threshold s"
  "ct_departments (update_project_aggregate f now r s) = ct_departments s"
  by (simp_all add: update_project_aggregate_def split: option.splits)

lemma snapshot_kept [simp]:
  "ct_config (snd (snapshot now s)) = ct_config s" "ct_repo (snd (snapshot now s)) = ct_repo s"
  "ct_departments (snd (snapshot now s)) = ct_departments s" "project_currencies (snd (snapshot now s)) = project_currencies s"
  "fst (snapshot now s) = ct_records (snd (snapshot now s))"
  by (simp_all add: snapshot_def prune_before_def Let_def)

lemma cost_step_kept [simp]: "ct_config (cost_step p s) = ct_config s" "ct_departments (cost_step p s) = ct_departments s"
  by (cases p; simp add: record_cost_def prune_expired_def prune_before_def Let_def split: option.splits)+

lemma cost_run_kept [simp]: "ct_config (cost_run ps s) = ct_config s" "ct_departments (cost_run ps s) = ct_departments s"
  by (induction ps arbitrary: s) (simp_all add: cost_run_def)

interpretation costs: retained_log ct_records cr_timestamp "\<lambda>p. cost_cutoff (cost_clock p)" cost_step cost_added cost_drops
proof unfold_locales
  fix p s
  show "\<not> cost_drops p s \<Longrightarrow> ct_records (cost_step p s) = ct_records s @ cost_added p s"
    by (cases p) (simp_all add: record_cost_def snapshot_def Let_def split: option.split)
  show "cost_drops p s \<Longrightarrow> cost_added p s = [] \<and>
      ct_records (cost_step p s) = filter (\<lambda>r. cost_cutoff (cost_clock p) \<le> cr_timestamp r) (ct_records s)"
    by (cases p) (simp_all add: prune_expired_def snapshot_def prune_before_def Let_def)
qed

text \<open>The records a tracker with a budget accepts: those in the configured currency.\<close>

definition billed :: "BudgetConfig \<Rightarrow> cost_op list \<Rightarrow> CostRecord list" where
  "billed cfg ps = List.map_filter (\<lambda>p. case p of RecordCost _ _ r \<Rightarrow> if cr_currency r = budget_currency cfg then Some r else None
     | _ \<Rightarrow> None) ps"

lemma billed_simps [simp]:
  "billed cfg [] = []" "billed cfg (PruneCosts t # ps) = billed cfg ps" "billed cfg (QueryCosts t # ps) = billed cfg ps"
  "billed cfg (RecordCost f t r # ps) = (if cr_currency r = budget_currency cfg then r # billed cfg ps else billed cfg ps)"
  by (simp_all add: billed_def List.map_filter_def)

lemma added_billed: "ct_config s = Some cfg \<Longrightarrow> log_added cost_step cost_added ps s = billed cfg ps"
proof (induction ps arbitrary: s)
  case (Cons p ps)
  have "log_added cost_step cost_added ps (cost_step p s) = billed cfg ps" by (rule Cons.IH) (simp add: Cons.prems)
  then show ?case using Cons.prems by (cases p) (auto simp: currency_conflict_def)
qed simp

lemma billed_currency: "r \<in> set (billed cfg ps) \<Longrightarrow> cr_currency r = budget_currency cfg"
proof (induction ps)
  case (Cons p ps)
  then show ?case by (cases p) (auto split: if_splits)
qed simp

lemma single_currency: "(\<And>r. r \<in> set rs \<Longrightarrow> cr_currency r = c) \<Longrightarrow> assert_single_currency rs = Inr (if rs = [] then None else Some c)"
proof (cases rs)
  case (Cons r rs')
  assume same: "\<And>r. r \<in> set rs \<Longrightarrow> cr_currency r = c"
  then have "set (List.map cr_currency rs) = {c}" using Cons by auto
  then have "card (set (List.map cr_currency rs)) = 1" by (simp only: card.insert card.empty finite.emptyI) simp
  moreover have "cr_currency r = c" using same Cons by simp
  ultimately show ?thesis unfolding assert_single_currency_def by (simp only: Cons list.case Let_def) simp
qed (simp add: assert_single_currency_def)

lemma aggregate_one_currency:
  "(\<And>r. r \<in> set rs \<Longrightarrow> cr_currency r = c) \<Longrightarrow> aggregate rs =
     Inr \<lparr>agg_cost = sum_cost rs, agg_currency = (if rs = [] then None else Some c), agg_input_tokens = sum_list (List.map cr_input_tokens rs),
          agg_output_tokens = sum_list (List.map cr_output_tokens rs), agg_record_count = length rs\<rparr>"
  using single_currency [of rs c] by (simp add: aggregate_def)

lemma run_snoc: "cost_run (ps @ [p]) s = cost_step p (cost_run ps s)"
  by (simp add: cost_run_def)

lemma run_one_currency:
  assumes "ct_config s = Some cfg" and "ct_records s = []" and "r \<in> set (ct_records (cost_run ps s))"
  shows "cr_currency r = budget_currency cfg"
  using costs.run_subset [of ps s] added_billed [OF assms(1), of ps] assms(2,3) billed_currency
  by (auto simp: cost_run_def)

text \<open>The answer of a query that starts inside the retention window.\<close>

lemma query_since:
  assumes "ct_config s = Some cfg" and "ct_records s = []" and "costs_kept t (ps @ [QueryCosts now]) s"
    and "since f = Some t" and "until f = None"
  shows "fst (query view f now (cost_run ps s)) = view (filter (cost_matches f) (billed cfg ps))"
proof -
  have m: "cost_matches f r \<longleftrightarrow> t \<le> cr_timestamp r \<and> cost_matches f r" for r
    using assms(4) by (auto simp: cost_matches_def)
  have f: "filter (cost_matches f) rs = filter (cost_matches f) (filter (\<lambda>r. t \<le> cr_timestamp r) rs)" for rs
    unfolding filter_filter by (rule filter_cong [OF refl]) (use m in blast)
  have step: "snd (snapshot now (cost_run ps s)) = cost_run (ps @ [QueryCosts now]) s" by (simp add: run_snoc)
  have "filter (\<lambda>r. t \<le> cr_timestamp r) (ct_records (cost_run (ps @ [QueryCosts now]) s)) =
      filter (\<lambda>r. t \<le> cr_timestamp r) (ct_records s @ log_added cost_step cost_added (ps @ [QueryCosts now]) s)"
    unfolding cost_run_def by (rule costs.run_since) (use assms(3) in \<open>simp add: costs_kept_def\<close>)
  also have "\<dots> = filter (\<lambda>r. t \<le> cr_timestamp r) (billed cfg ps)"
    using added_billed [OF assms(1), of "ps @ [QueryCosts now]"] assms(2) by (simp add: billed_def List.map_filter_def)
  finally have "filter (cost_matches f) (ct_records (snd (snapshot now (cost_run ps s)))) = filter (cost_matches f) (billed cfg ps)"
    unfolding step by (metis f)
  then show ?thesis
    using assms(4,5) by (simp add: query_def validate_cost_range_def filter_cost_records_def case_prod_beta Let_def)
qed

lemma cost_view_since:
  assumes "ct_config s = Some cfg" and "ct_records s = []" and "costs_kept t (ps @ [QueryCosts now]) s"
    and "since f = Some t" and "until f = None"
  shows "fst (query cost_view f now (cost_run ps s)) = Inr (sum_cost (filter (cost_matches f) (billed cfg ps)))"
proof -
  have "aggregate (filter (cost_matches f) (billed cfg ps)) = Inr \<lparr>agg_cost = sum_cost (filter (cost_matches f) (billed cfg ps)),
      agg_currency = (if filter (cost_matches f) (billed cfg ps) = [] then None else Some (budget_currency cfg)),
      agg_input_tokens = sum_list (List.map cr_input_tokens (filter (cost_matches f) (billed cfg ps))),
      agg_output_tokens = sum_list (List.map cr_output_tokens (filter (cost_matches f) (billed cfg ps))),
      agg_record_count = length (filter (cost_matches f) (billed cfg ps))\<rparr>"
    by (rule aggregate_one_currency) (auto intro: billed_currency)
  then show ?thesis using query_since [OF assms, where view = cost_view] by (simp add: cost_view_def)
qed

subsection \<open>Durable totals and pinned currencies\<close>

text \<open>What the durable total of a project has to hold: its billed records whose update reached the database.\<close>

definition durable :: "BudgetConfig \<Rightarrow> string \<Rightarrow> cost_op list \<Rightarrow> CostRecord list" where
  "durable cfg pid ps = List.map_filter (\<lambda>p. case p of
     RecordCost fails _ r \<Rightarrow> if \<not> fails \<and> cr_currency r = budget_currency cfg \<and> cr_project_id r = Some pid then Some r else None
   | _ \<Rightarrow> None) ps"

lemma durable_simps [simp]:
  "durable cfg pid [] = []" "durable cfg pid (PruneCosts t # ps) = durable cfg pid ps" "durable cfg pid (QueryCosts t # ps) = durable cfg pid ps"
  "durable cfg pid (RecordCost f t r # ps) =
     (if \<not> f \<and> cr_currency r = budget_currency cfg \<and> cr_project_id r = Some pid then r # durable cfg pid ps else durable cfg pid ps)"
  by (simp_all add: durable_def List.map_filter_def)

text \<open>A row holds the totals of a list of records; no row is an empty list.\<close>

definition row_totals :: "CostRecord list \<Rightarrow> ProjectCostAggregate option \<Rightarrow> bool" where
  "row_totals rs row \<longleftrightarrow>
     (case row of
        None \<Rightarrow> rs = []
      | Some a \<Rightarrow> rs \<noteq> [] \<and> pa_total_cost a = sum_list (List.map cr_cost rs) \<and> pa_input_tokens a = sum_list (List.map cr_input_tokens rs) \<and>
                  pa_output_tokens a = sum_list (List.map cr_output_tokens rs) \<and> pa_record_count a = int (length rs))"

primrec op_valid :: "cost_op \<Rightarrow> bool" where
  "op_valid (RecordCost fails now r) \<longleftrightarrow> valid_cost_record r"
| "op_valid (PruneCosts now) \<longleftrightarrow> True"
| "op_valid (QueryCosts now) \<longleftrightarrow> True"

lemma upsert_totals:
  "row_totals rs (dget rows p) \<Longrightarrow> row_totals (rs @ [r]) (Some (upsert p (cr_cost r) (cr_input_tokens r) (cr_output_tokens r) now rows))"
  by (auto simp: row_totals_def upsert_def split: option.splits)

lemma cost_step_rows:
  assumes "ct_config s = Some cfg" and "ct_repo s = Some rows" and "op_valid p" and "row_totals rs (dget rows pid)"
  shows "\<exists>rows'. ct_repo (cost_step p s) = Some rows' \<and> row_totals (rs @ durable cfg pid [p]) (dget rows' pid)"
proof (cases p)
  case (RecordCost fails now r)
  have nonneg: "\<not> (cr_cost r < 0 \<or> cr_input_tokens r < 0 \<or> cr_output_tokens r < 0)"
    using assms(3) RecordCost by (simp add: valid_cost_record_def)
  then show ?thesis
    using assms RecordCost upsert_totals [OF assms(4), of r now]
    by (auto simp: record_cost_def currency_conflict_def update_project_aggregate_def increment_def Let_def split: option.splits)
qed (use assms in \<open>auto simp: prune_expired_def prune_before_def Let_def\<close>)

lemma cost_run_rows:
  assumes "ct_config s = Some cfg" and "ct_repo s = Some rows" and "list_all op_valid ps" and "row_totals rs (dget rows pid)"
  shows "\<exists>rows'. ct_repo (cost_run ps s) = Some rows' \<and> row_totals (rs @ durable cfg pid ps) (dget rows' pid)"
  using assms
proof (induction ps arbitrary: s rows rs)
  case (Cons p ps)
  obtain rows1 where r1: "ct_repo (cost_step p s) = Some rows1" "row_totals (rs @ durable cfg pid [p]) (dget rows1 pid)"
    using cost_step_rows [of s cfg rows p rs pid] Cons.prems by auto
  have "\<exists>rows'. ct_repo (cost_run ps (cost_step p s)) = Some rows' \<and> row_totals ((rs @ durable cfg pid [p]) @ durable cfg pid ps) (dget rows' pid)"
    by (rule Cons.IH [OF _ r1(1) _ r1(2)]) (use Cons.prems in simp_all)
  moreover have "durable cfg pid [p] @ durable cfg pid ps = durable cfg pid (p # ps)" by (cases p) auto
  ultimately show ?case by (simp add: cost_run_def)
qed (simp add: cost_run_def)

text \<open>Without a budget the first record of a project pins its currency.\<close>

lemma pinned_step:
  assumes "ct_config s = None" and "ct_repo s \<noteq> None"
  shows "r \<in> set (cost_added p s) \<Longrightarrow> cr_project_id r = Some pid \<Longrightarrow> dget (project_currencies (cost_step p s)) pid = Some (cr_currency r)"
    and "dget (project_currencies s) pid = Some c \<Longrightarrow> dget (project_currencies (cost_step p s)) pid = Some c"
    and "ct_repo (cost_step p s) \<noteq> None"
  using assms
  by (cases p; auto simp: record_cost_def currency_conflict_def pin_currency_def update_project_aggregate_def prune_expired_def
      prune_before_def Let_def split: option.splits if_splits)+

lemma pinned_run:
  assumes "ct_config s = None" and "ct_repo s \<noteq> None" and "dget (project_currencies s) pid = Some c"
    and "r \<in> set (log_added cost_step cost_added ps s)" and "cr_project_id r = Some pid"
  shows "cr_currency r = c"
  using assms
proof (induction ps arbitrary: s)
  case (Cons p ps)
  have kept: "dget (project_currencies (cost_step p s)) pid = Some c" using pinned_step(2) Cons.prems by blast
  show ?case
  proof (cases "r \<in> set (cost_added p s)")
    case True
    then show ?thesis using pinned_step(1) [OF Cons.prems(1,2) True Cons.prems(5)] kept by simp
  next
    case False
    then have "r \<in> set (log_added cost_step cost_added ps (cost_step p s))" using Cons.prems(4) by simp
    then show ?thesis using Cons.IH [of "cost_step p s"] kept pinned_step(3) Cons.prems by simp
  qed
qed simp

lemma same_project_same_currency:
  assumes "ct_config s = None" and "ct_repo s \<noteq> None"
    and "r \<in> set (log_added cost_step cost_added ps s)" and "r' \<in> set (log_added cost_step cost_added ps s)"
    and "cr_project_id r = Some pid" and "cr_project_id r' = Some pid"
  shows "cr_currency r = cr_currency r'"
  using assms
proof (induction ps arbitrary: s)
  case (Cons p ps)
  let ?s = "cost_step p s"
  have later: "cr_currency x = cr_currency y" if "x \<in> set (cost_added p s)" "cr_project_id x = Some pid"
    "y \<in> set (log_added cost_step cost_added ps ?s)" "cr_project_id y = Some pid" for x y
    using pinned_run [of ?s pid "cr_currency x" y ps] pinned_step(1) [OF Cons.prems(1,2), of x p pid] pinned_step(3) [OF Cons.prems(1,2), of p] that Cons.prems(1) by simp
  have one: "x = y" if "x \<in> set (cost_added p s)" "y \<in> set (cost_added p s)" for x y
    using that by (cases p) (auto split: if_splits)
  show ?case
    using Cons.IH [of ?s] Cons.prems pinned_step(3) [OF Cons.prems(1,2)] later [of r r'] later [of r' r] one [of r r'] by auto
qed simp

subsection \<open>Groups and rows\<close>

lemma group_by_fold:
  "dget (fold (\<lambda>x d. dput (key x) (dget_or d (key x) [] @ [x]) d) xs d) k =
     (let ys = filter (\<lambda>x. key x = k) xs in if ys = [] then dget d k else Some (dget_or d k [] @ ys))"
proof (induction xs arbitrary: d)
  case (Cons x xs)
  then show ?case by (auto simp: Let_def dget_or_def)
qed (simp add: Let_def)

lemma dget_group_by: "dget (group_by key xs) k = (let ys = filter (\<lambda>x. key x = k) xs in if ys = [] then None else Some ys)"
  using group_by_fold [of key xs "[]" k] by (simp add: group_by_def Let_def)

lemma dget_or_group_by [simp]: "dget_or (group_by key xs) k [] = filter (\<lambda>x. key x = k) xs"
  by (simp add: dget_or_def dget_group_by Let_def)

lemma group_by_keys [simp]: "set (dkeys (group_by key xs)) = key ` set xs" "distinct (dkeys (group_by key xs))"
proof -
  show "set (dkeys (group_by key xs)) = key ` set xs"
  proof (rule set_eqI)
    fix k
    have "k \<in> set (dkeys (group_by key xs)) \<longleftrightarrow> dget (group_by key xs) k \<noteq> None" using dget_None_iff by metis
    also have "\<dots> \<longleftrightarrow> k \<in> key ` set xs" by (auto simp: dget_group_by Let_def filter_empty_conv)
    finally show "k \<in> set (dkeys (group_by key xs)) \<longleftrightarrow> k \<in> key ` set xs" .
  qed
  have "distinct (dkeys d) \<Longrightarrow> distinct (dkeys (fold (\<lambda>x d. dput (key x) (dget_or d (key x) [] @ [x]) d) xs d))" for d
    by (induction xs arbitrary: d) simp_all
  then show "distinct (dkeys (group_by key xs))" by (simp add: group_by_def)
qed

lemma collect_rows_all: "(\<And>x. x \<in> set xs \<Longrightarrow> f x = Inr (g x)) \<Longrightarrow> collect_rows f xs = Inr (List.map g xs)"
  by (induction xs) simp_all

text \<open>Sums over the groups of a list add up to the sum over the list.\<close>

lemma sum_groups:
  fixes h :: "'a \<Rightarrow> 'b :: comm_monoid_add"
  shows "distinct ks \<Longrightarrow> key ` set xs \<subseteq> set ks \<Longrightarrow>
    sum_list (List.map (\<lambda>k. sum_list (List.map h (filter (\<lambda>x. key x = k) xs))) ks) = sum_list (List.map h xs)"
proof (induction xs)
  case (Cons x xs)
  have "sum_list (List.map (\<lambda>k. sum_list (List.map h (filter (\<lambda>y. key y = k) (x # xs)))) ks) =
      sum_list (List.map (\<lambda>k. (if key x = k then h x else 0) + sum_list (List.map h (filter (\<lambda>y. key y = k) xs))) ks)"
    by (rule arg_cong [where f = sum_list]) simp
  also have "\<dots> = sum_list (List.map (\<lambda>k. if key x = k then h x else 0) ks) + sum_list (List.map h xs)"
    using Cons by (simp add: sum_list_addf)
  also have "sum_list (List.map (\<lambda>k. if key x = k then h x else 0) ks) = h x"
    using Cons.prems by (simp add: sum_list_distinct_conv_sum_set sum.delta')
  finally show ?case by simp
qed (simp add: sum_list_0)

lemma rounded_sum_near: "\<bar>sum_list (List.map (\<lambda>k. round_budget (h k)) ks) - sum_list (List.map h ks)\<bar>
    \<le> of_nat (length ks) / (2 * 10 ^ BUDGET_ROUNDING_PRECISION)"
proof (induction ks)
  case (Cons k ks)
  have split: "\<bar>a + b - (c + d)\<bar> \<le> \<bar>a - c\<bar> + \<bar>b - d\<bar>" for a b c d :: rat by linarith
  have "\<bar>round_budget (h k) + sum_list (List.map (\<lambda>k. round_budget (h k)) ks) - (h k + sum_list (List.map h ks))\<bar>
      \<le> 1 / (2 * 10 ^ BUDGET_ROUNDING_PRECISION) + of_nat (length ks) / (2 * 10 ^ BUDGET_ROUNDING_PRECISION)"
    using split [of "round_budget (h k)"] round_budget_near [of "h k"] Cons by (meson add_mono order.trans)
  then show ?case by (simp add: add_divide_distrib add.commute)
qed simp

subsection \<open>The rows of a summary\<close>

definition agent_totals :: "string \<Rightarrow> CostRecord list \<Rightarrow> SpendingTotals" where
  "agent_totals c rs = \<lparr>sp_total_cost = sum_cost rs, sp_currency = (if rs = [] then None else Some c),
     sp_input_tokens = sum_list (List.map cr_input_tokens rs), sp_output_tokens = sum_list (List.map cr_output_tokens rs),
     sp_record_count = length rs\<rparr>"

lemma agent_totals_valid:
  "list_all valid_cost_record rs \<Longrightarrow> valid_currency c \<Longrightarrow> valid_totals (agent_totals c rs)"
  by (auto simp: agent_totals_def valid_totals_def sum_cost_def list_all_iff valid_cost_record_def
      intro!: sum_list_nonneg round_budget_nonneg)

lemma build_agent_spendings_rows:
  assumes "\<And>r. r \<in> set rs \<Longrightarrow> cr_currency r = c" and "list_all valid_cost_record rs" and "valid_currency c"
  shows "build_agent_spendings rs =
    Inr (List.map (\<lambda>a. (a, agent_totals c (filter (\<lambda>r. cr_agent_id r = a) rs))) (sort (dkeys (group_by_agent rs))))"
  unfolding build_agent_spendings_def Let_def
proof (rule collect_rows_all)
  fix a assume "a \<in> set (sort (dkeys (group_by_agent rs)))"
  then have "a \<in> cr_agent_id ` set rs" by (simp only: set_sort group_by_agent_def group_by_keys)
  then have "not_blank a" using assms(2) by (auto simp: list_all_iff valid_cost_record_def)
  moreover have "aggregate (filter (\<lambda>r. cr_agent_id r = a) rs) = Inr \<lparr>agg_cost = sum_cost (filter (\<lambda>r. cr_agent_id r = a) rs),
      agg_currency = (if filter (\<lambda>r. cr_agent_id r = a) rs = [] then None else Some c),
      agg_input_tokens = sum_list (List.map cr_input_tokens (filter (\<lambda>r. cr_agent_id r = a) rs)),
      agg_output_tokens = sum_list (List.map cr_output_tokens (filter (\<lambda>r. cr_agent_id r = a) rs)),
      agg_record_count = length (filter (\<lambda>r. cr_agent_id r = a) rs)\<rparr>"
    by (rule aggregate_one_currency) (simp add: assms(1))
  moreover have "valid_totals (agent_totals c (filter (\<lambda>r. cr_agent_id r = a) rs))"
    by (rule agent_totals_valid) (use assms in \<open>auto simp: list_all_iff\<close>)
  ultimately show "rbind (aggregate (dget_or (group_by_agent rs) a [])) (\<lambda>g. make_spending_row a (spending_of g)) =
      Inr (a, agent_totals c (filter (\<lambda>r. cr_agent_id r = a) rs))"
    by (simp add: group_by_agent_def make_spending_row_def spending_of_def agent_totals_def)
qed

text \<open>Rows that may share a department: valid, and in no other currency.\<close>

definition rows_in :: "string \<Rightarrow> spending_row list \<Rightarrow> bool" where
  "rows_in c rows \<longleftrightarrow> (\<forall>r \<in> set rows. valid_totals (snd r) \<and> sp_currency (snd r) \<in> {None, Some c})"

lemma department_spending_ok:
  assumes "rows_in c rows" and "valid_currency c" and "not_blank name"
  shows "\<exists>t. department_spending name rows = Inr (name, t)"
proof -
  let ?cs = "List.map_filter (\<lambda>r. sp_currency (snd r)) rows"
  have cs: "set ?cs \<subseteq> {c}" using assms(1) by (fastforce simp: rows_in_def List.map_filter_def)
  then have "card (set ?cs) \<le> 1" using card_mono [of "{c}" "set ?cs"] by simp
  moreover have "0 \<le> sum_list (List.map (sp_total_cost \<circ> snd) rows)" "0 \<le> sum_list (List.map (sp_input_tokens \<circ> snd) rows)"
      "0 \<le> sum_list (List.map (sp_output_tokens \<circ> snd) rows)"
    using assms(1) by (auto simp: rows_in_def valid_totals_def intro!: sum_list_nonneg)
  moreover have "sp_record_count (snd r) = 0" if "?cs = []" "r \<in> set rows" for r
    using that assms(1) by (auto simp: rows_in_def valid_totals_def List.map_filter_def filter_empty_conv)
  then have "?cs = [] \<Longrightarrow> sum_list (List.map (sp_record_count \<circ> snd) rows) = 0" by (simp add: sum_list_eq_0_iff)
  ultimately show ?thesis
    using assms(2,3) cs by (cases ?cs) (auto simp: department_spending_def Let_def make_spending_row_def valid_totals_def round_budget_nonneg)
qed

lemma department_rows_in:
  assumes "rows_in c rows" and "(n, rs) \<in> set (department_rows d rows)"
  shows "rows_in c rs"
proof -
  let ?named = "List.map_filter (\<lambda>r. map_option (\<lambda>d. (d, r)) (resolve_department d (fst r))) rows"
  obtain g where g: "(n, g) \<in> set (group_by fst ?named)" "rs = List.map snd g"
    using assms(2) by (auto simp: department_rows_def Let_def)
  have "dget (group_by fst ?named) n = Some g" using g(1) by (intro map_of_is_SomeI) simp_all
  then have "set g \<subseteq> set ?named" by (auto simp: dget_group_by Let_def split: if_splits)
  then show ?thesis using assms(1) g(2) by (fastforce simp: rows_in_def List.map_filter_def)
qed

lemma build_dept_spendings_ok:
  assumes "rows_in c rows" and "valid_currency c" and "\<And>a n. resolve_department d a = Some n \<Longrightarrow> not_blank n"
  shows "\<exists>out. build_dept_spendings d rows = Inr out \<and> List.map fst out = sort (dkeys (department_rows d rows)) \<and> distinct (List.map fst out)"
proof -
  let ?d = "department_rows d rows"
  have keys: "dkeys ?d = dkeys (group_by fst (List.map_filter (\<lambda>r. map_option (\<lambda>d. (d, r)) (resolve_department d (fst r))) rows))"
    by (simp add: department_rows_def Let_def comp_def case_prod_beta)
  have "\<exists>t. department_spending n (dget_or ?d n []) = Inr (n, t)" if n: "n \<in> set (dkeys ?d)" for n
  proof (rule department_spending_ok [OF _ assms(2)])
    obtain rs where "dget ?d n = Some rs" using n by (metis dget_None_iff not_None_eq)
    then show "rows_in c (dget_or ?d n [])" using department_rows_in [OF assms(1) dget_Some_in] by (simp add: dget_or_def)
    have "n \<in> fst ` set (List.map_filter (\<lambda>r. map_option (\<lambda>d. (d, r)) (resolve_department d (fst r))) rows)"
      using n by (simp only: keys group_by_keys)
    then show "not_blank n" using assms(3) by (auto simp: List.map_filter_def)
  qed
  then obtain g where g: "\<And>n. n \<in> set (sort (dkeys ?d)) \<Longrightarrow> department_spending n (dget_or ?d n []) = Inr (n, g n)"
    unfolding set_sort by metis
  have "build_dept_spendings d rows = Inr (List.map (\<lambda>n. (n, g n)) (sort (dkeys ?d)))"
    unfolding build_dept_spendings_def Let_def by (rule collect_rows_all) (rule g)
  then show ?thesis by (simp add: comp_def keys)
qed

subsection \<open>Properties of the tracker\<close>

lemma new_cost_tracker_fields:
  "new_cost_tracker cfg d n repo = Some s \<Longrightarrow> ct_config s = cfg \<and> ct_records s = [] \<and> ct_departments s = d \<and> ct_repo s = repo \<and>
     project_currencies s = []"
  by (auto simp: new_cost_tracker_def split: if_splits)

lemma matches_since:
  "cost_matches \<lparr>by_agent_id = None, by_task_id = None, by_project_id = None, by_provider = None, since = Some t, until = None\<rparr> =
     (\<lambda>r. t \<le> cr_timestamp r)"
  "cost_matches \<lparr>by_agent_id = Some a, by_task_id = None, by_project_id = None, by_provider = None, since = Some t, until = None\<rparr> =
     (\<lambda>r. cr_agent_id r = a \<and> t \<le> cr_timestamp r)"
  by (simp_all add: cost_matches_def fun_eq_iff)

text \<open>
  C38: the totals of the tracker are exact inside its retention window. After any sequence of records, queries and
  prunings, a query whose start no pruning has passed, its own included, sums exactly the records in the budget's currency that are
  not older, over the company and for one agent, whether or not the store was pruned in between; records in another
  currency are refused and no query raises.
\<close>

theorem tracker_totals_exact:
  assumes "new_cost_tracker (Some cfg) d n repo = Some s" and "costs_kept t (ps @ [QueryCosts now]) s"
  shows "fst (get_total_cost (Some t) None now (cost_run ps s)) =
      Inr (round_budget (sum_list (List.map cr_cost (filter (\<lambda>r. t \<le> cr_timestamp r) (billed cfg ps))))) \<and>
    fst (get_agent_cost a (Some t) None now (cost_run ps s)) =
      Inr (round_budget (sum_list (List.map cr_cost (filter (\<lambda>r. cr_agent_id r = a \<and> t \<le> cr_timestamp r) (billed cfg ps)))))"
  using new_cost_tracker_fields [OF assms(1)] cost_view_since [OF _ _ assms(2)]
  by (simp add: get_total_cost_def get_agent_cost_def sum_cost_def matches_since all_records_def)

text \<open>
  The durable totals of a project never mix currencies. Without a budget configuration but with a repository,
  all records of a project that the tracker accepts in its lifetime carry one currency, pruning included.
\<close>

theorem project_currency_pinned:
  assumes "new_cost_tracker None d n (Some rows) = Some s"
    and "r \<in> set (log_added cost_step cost_added ps s)" and "r' \<in> set (log_added cost_step cost_added ps s)"
    and "cr_project_id r = Some pid" and "cr_project_id r' = Some pid"
  shows "cr_currency r = cr_currency r'"
  using same_project_same_currency [of s r ps r' pid] new_cost_tracker_fields [OF assms(1)] assms(2-) by simp

lemma op_valid_billed: "list_all op_valid ps \<Longrightarrow> list_all valid_cost_record (billed cfg ps)"
proof (induction ps)
  case (Cons p ps)
  then show ?case by (cases p) auto
qed simp

lemma build_budget_context_nonneg:
  "0 \<le> x \<Longrightarrow> valid_budget_config cfg \<Longrightarrow> fst (build_budget_context (Some cfg) x) = total_monthly cfg \<and>
     0 \<le> total_monthly cfg \<and> 0 \<le> fst (snd (build_budget_context (Some cfg) x))"
  by (simp add: build_budget_context_def Let_def valid_budget_config_def round_budget_nonneg)

text \<open>The summary of records in one currency: the rows of the agents, and that no validator of a row or of the whole raises.\<close>

lemma summary_view_ok:
  assumes "\<And>r. r \<in> set rs \<Longrightarrow> cr_currency r = budget_currency cfg" and "list_all valid_cost_record rs" and "valid_budget_config cfg"
    and "ct_config s = Some cfg" and "start < till" and "\<And>a x. resolve_department (ct_departments s) a = Some x \<Longrightarrow> not_blank x"
  shows "\<exists>m. summary_view s start till rs = Inr m \<and> sum_period m = agent_totals (budget_currency cfg) rs \<and>
    sum_by_agent m = List.map (\<lambda>a. (a, agent_totals (budget_currency cfg) (filter (\<lambda>r. cr_agent_id r = a) rs))) (sort (dkeys (group_by_agent rs)))"
proof -
  let ?c = "budget_currency cfg"
  let ?rows = "List.map (\<lambda>a. (a, agent_totals ?c (filter (\<lambda>r. cr_agent_id r = a) rs))) (sort (dkeys (group_by_agent rs)))"
  have c: "valid_currency ?c" using assms(3) by (simp add: valid_budget_config_def)
  have valid: "valid_totals (agent_totals ?c (filter P rs))" for P
    by (rule agent_totals_valid) (use assms(2) c in \<open>auto simp: list_all_iff\<close>)
  have agents: "build_agent_spendings rs = Inr ?rows" by (rule build_agent_spendings_rows [OF assms(1,2) c])
  have "rows_in ?c ?rows" using valid by (simp add: rows_in_def) (simp add: agent_totals_def)
  then obtain depts where depts: "build_dept_spendings (ct_departments s) ?rows = Inr depts" "distinct (List.map fst depts)"
    using build_dept_spendings_ok [where d = "ct_departments s", OF _ c] assms(6) by blast
  obtain g where g: "aggregate rs = Inr g" "spending_of g = agent_totals ?c rs" "agg_cost g = sum_cost rs"
    by (rule that [OF aggregate_one_currency [OF assms(1)]]) (simp_all add: spending_of_def agent_totals_def)
  have pos: "0 \<le> sum_cost rs" using valid [of "\<lambda>_. True"] by (simp add: valid_totals_def agent_totals_def)
  have keys: "distinct (List.map fst ?rows)" by (simp add: comp_def group_by_agent_def)
  obtain monthly used alert where ctx: "build_budget_context (Some cfg) (sum_cost rs) = (monthly, used, alert)" "0 \<le> monthly" "0 \<le> used"
    using build_budget_context_nonneg [OF pos assms(3)] by (cases "build_budget_context (Some cfg) (sum_cost rs)") auto
  have "make_summary \<lparr>sum_start = start, sum_end = till, sum_period = agent_totals ?c rs, sum_by_agent = ?rows, sum_by_department = depts,
      budget_total_monthly = monthly, budget_used_percent = used, alert_level = alert\<rparr> =
    Inr \<lparr>sum_start = start, sum_end = till, sum_period = agent_totals ?c rs, sum_by_agent = ?rows, sum_by_department = depts,
      budget_total_monthly = monthly, budget_used_percent = used, alert_level = alert\<rparr>"
    unfolding make_summary_def using valid [of "\<lambda>_. True"] keys depts(2) ctx(2,3) assms(5) by (simp del: map_map)
  then show ?thesis by (simp add: summary_view_def g agents depts(1) assms(4) ctx(1))
qed

text \<open>
  A summary accounts for every record. For any run of a tracker with a valid budget and valid records, and a
  resolver that returns no blank department, \<open>build_summary\<close> returns: one row per agent, in the order of the
  identifiers, whose record counts and token counts add up to those of the period, and whose costs add up to the
  period's but for the rounding of the rows and of the total.
\<close>

theorem summary_accounts_for_all:
  assumes "new_cost_tracker (Some cfg) d n repo = Some s" and "valid_budget_config cfg" and "list_all op_valid ps" and "start < till"
    and "\<And>a x. resolve_department d a = Some x \<Longrightarrow> not_blank x"
  shows "\<exists>m. fst (build_summary start till now (cost_run ps s)) = Inr m \<and>
    sorted (List.map fst (sum_by_agent m)) \<and> distinct (List.map fst (sum_by_agent m)) \<and>
    sum_list (List.map (\<lambda>r. sp_record_count (snd r)) (sum_by_agent m)) = sp_record_count (sum_period m) \<and>
    sum_list (List.map (\<lambda>r. sp_input_tokens (snd r)) (sum_by_agent m)) = sp_input_tokens (sum_period m) \<and>
    sum_list (List.map (\<lambda>r. sp_output_tokens (snd r)) (sum_by_agent m)) = sp_output_tokens (sum_period m) \<and>
    \<bar>sum_list (List.map (\<lambda>r. sp_total_cost (snd r)) (sum_by_agent m)) - sp_total_cost (sum_period m)\<bar>
      \<le> of_nat (length (sum_by_agent m) + 1) / (2 * 10 ^ BUDGET_ROUNDING_PRECISION)"
proof -
  note fields = new_cost_tracker_fields [OF assms(1)]
  let ?s' = "snd (snapshot now (cost_run ps s))" and ?c = "budget_currency cfg"
  define rs where "rs = filter_cost_records (all_records\<lparr>since := Some start, until := Some till\<rparr>) (ct_records ?s')"
  have s': "?s' = cost_run (ps @ [QueryCosts now]) s" by (simp add: run_snoc)
  have "set (ct_records ?s') \<subseteq> set (billed cfg ps)"
    unfolding s' using costs.run_subset [of "ps @ [QueryCosts now]" s] added_billed [of s cfg "ps @ [QueryCosts now]"] fields
    by (simp add: cost_run_def billed_def List.map_filter_def)
  then have rs: "set rs \<subseteq> set (billed cfg ps)" by (auto simp: rs_def filter_cost_records_def)
  then have cur: "cr_currency r = ?c" if "r \<in> set rs" for r using that billed_currency by blast
  have valid: "list_all valid_cost_record rs" using op_valid_billed [OF assms(3), of cfg] rs by (auto simp: list_all_iff)
  obtain m where m: "summary_view (cost_run ps s) start till rs = Inr m" "sum_period m = agent_totals ?c rs"
    "sum_by_agent m = List.map (\<lambda>a. (a, agent_totals ?c (filter (\<lambda>r. cr_agent_id r = a) rs))) (sort (dkeys (group_by_agent rs)))"
    using summary_view_ok [OF cur valid assms(2) _ assms(4), of "cost_run ps s"] fields assms(5) by auto
  have "fst (build_summary start till now (cost_run ps s)) = Inr m"
    using m(1) assms(4) by (simp add: build_summary_def query_def validate_cost_range_def all_records_def rs_def case_prod_beta)
  moreover have "distinct (sort (dkeys (group_by_agent rs)))" "cr_agent_id ` set rs \<subseteq> set (sort (dkeys (group_by_agent rs)))"
    unfolding group_by_agent_def set_sort group_by_keys by simp_all
  note parts = sum_groups [OF this]
  moreover have "\<bar>sum_list (List.map (\<lambda>a. sum_cost (filter (\<lambda>r. cr_agent_id r = a) rs)) (sort (dkeys (group_by_agent rs)))) - sum_cost rs\<bar>
      \<le> of_nat (length (sort (dkeys (group_by_agent rs))) + 1) / (2 * 10 ^ BUDGET_ROUNDING_PRECISION)"
    using rounded_sum_near [of "\<lambda>a. sum_list (List.map cr_cost (filter (\<lambda>r. cr_agent_id r = a) rs))" "sort (dkeys (group_by_agent rs))"]
      round_budget_near [of "sum_list (List.map cr_cost rs)"] parts [of cr_cost]
    unfolding sum_cost_def by (simp only: of_nat_add add_divide_distrib of_nat_1)
  ultimately show ?thesis using parts [of "\<lambda>_. 1 :: nat"] parts [of cr_input_tokens] parts [of cr_output_tokens] m(2,3)
    by (intro exI [of _ m]) (simp add: agent_totals_def comp_def group_by_agent_def sum_list_triv)
qed

subsection \<open>Witnesses\<close>

definition plain_budget :: BudgetConfig where
  "plain_budget = \<lparr>total_monthly = 100, alerts = \<lparr>warn_at = 75, critical_at = 90, hard_stop_at = 100\<rparr>, per_task_limit = 5,
     per_agent_daily_limit = 10, auto_downgrade = \<lparr>dg_enabled = False, dg_threshold = 85, downgrade_map = []\<rparr>, reset_day = 1,
     budget_currency = ''USD'',
     risk_budget = \<lparr>rb_enabled = True, per_task_risk_limit = 5, per_agent_daily_risk_limit = 20, total_daily_risk_limit = 100,
       rb_warn_at = 75, rb_critical_at = 90\<rparr>, pte_tracking_enabled = False\<rparr>"

definition call_cost :: "string \<Rightarrow> string \<Rightarrow> rat \<Rightarrow> time \<Rightarrow> CostRecord" where
  "call_cost a cur c t = \<lparr>cr_agent_id = a, cr_task_id = ''t1'', cr_project_id = Some ''p1'', cr_provider = ''acme'', cr_model = ''m'',
     cr_input_tokens = 10, cr_output_tokens = 5, cr_cost = c, cr_currency = cur, cr_timestamp = t, cr_call_category = Some PRODUCTIVE,
     cr_accuracy_effort_ratio = None, cr_latency_ms = None, cr_cache_hit = None, cr_retry_count = None, cr_retry_reason = None,
     cr_finish_reason = None, cr_success = None\<rparr>"

definition plain_tracker :: "BudgetConfig option \<Rightarrow> cost_tracker" where
  "plain_tracker cfg = \<lparr>ct_records = [], ct_config = cfg, ct_departments = Some (\<lambda>a. Inr (Some ''eng'')), ct_prune_threshold = 2,
     ct_repo = Some [], project_currencies = []\<rparr>"

definition some_calls :: "cost_op list" where
  "some_calls = [RecordCost False 0 (call_cost ''anna'' ''USD'' 2 0), RecordCost True 0 (call_cost ''bert'' ''USD'' 3 0),
     RecordCost False 0 (call_cost ''anna'' ''EUR'' 9 0), PruneCosts 604800, RecordCost False 604800 (call_cost ''anna'' ''USD'' 4 604800)]"

lemma plain_tracker_new:
  "new_cost_tracker cfg (Some (\<lambda>a. Inr (Some ''eng''))) 2 (Some []) = Some (plain_tracker cfg)"
  by (simp add: new_cost_tracker_def plain_tracker_def)

lemma call_cost_valid: "not_blank a \<Longrightarrow> valid_currency cur \<Longrightarrow> 0 \<le> c \<Longrightarrow> valid_cost_record (call_cost a cur c t)"
  by (simp add: valid_cost_record_def call_cost_def not_blank_def py_isspace_def)

lemma plain_budget_valid: "valid_budget_config plain_budget"
  by code_simp

theorem tracker_totals_exact_witness:
  "fst (get_total_cost (Some 0) None 604800 (cost_run some_calls (plain_tracker (Some plain_budget)))) = Inr 9 \<and>
   fst (get_agent_cost ''anna'' (Some 0) None 604800 (cost_run some_calls (plain_tracker (Some plain_budget)))) = Inr 6"
proof -
  have "costs_kept 0 (some_calls @ [QueryCosts 604800]) (plain_tracker (Some plain_budget))" by code_simp
  moreover have "round_budget (sum_list (List.map cr_cost (filter (\<lambda>r. 0 \<le> cr_timestamp r) (billed plain_budget some_calls)))) = 9 \<and>
      round_budget (sum_list (List.map cr_cost (filter (\<lambda>r. cr_agent_id r = ''anna'' \<and> 0 \<le> cr_timestamp r) (billed plain_budget some_calls)))) = 6"
    by code_simp
  ultimately show ?thesis using tracker_totals_exact [OF plain_tracker_new, of 0 some_calls 604800 plain_budget "''anna''"] by simp
qed

theorem project_currency_pinned_witness:
  "cr_currency (call_cost ''anna'' ''USD'' 2 0) = cr_currency (call_cost ''anna'' ''USD'' 4 604800)"
proof -
  have "call_cost ''anna'' ''USD'' 2 0 \<in> set (log_added cost_step cost_added some_calls (plain_tracker None)) \<and>
      call_cost ''anna'' ''USD'' 4 604800 \<in> set (log_added cost_step cost_added some_calls (plain_tracker None))" by code_simp
  then show ?thesis
    using project_currency_pinned [OF plain_tracker_new, of "call_cost ''anna'' ''USD'' 2 0" some_calls "call_cost ''anna'' ''USD'' 4 604800" "''p1''"]
    by (simp add: call_cost_def)
qed

theorem summary_accounts_for_all_witness:
  "\<exists>m. fst (build_summary 0 700000 604800 (cost_run some_calls (plain_tracker (Some plain_budget)))) = Inr m \<and>
    sum_list (List.map (\<lambda>r. sp_record_count (snd r)) (sum_by_agent m)) = sp_record_count (sum_period m)"
proof -
  have "not_blank ''anna'' \<and> not_blank ''bert'' \<and> valid_currency ''USD'' \<and> valid_currency ''EUR''" by code_simp
  then have "list_all op_valid some_calls" by (simp add: some_calls_def call_cost_valid)
  then show ?thesis
    using summary_accounts_for_all [OF plain_tracker_new plain_budget_valid, of some_calls 0 700000 604800]
    by (auto simp: resolve_department_def not_blank_def py_isspace_def)
qed

subsection \<open>Categories and the orchestration ratio\<close>

text \<open>The buckets are those of a filter by category, with the uncategorised calls in their own.\<close>

lemma categories_all: "set CATEGORIES = UNIV"
proof -
  have "x \<in> set CATEGORIES" for x
  proof (cases x)
    case (Some c)
    then show ?thesis by (cases c) (simp_all add: CATEGORIES_def)
  qed (simp add: CATEGORIES_def)
  then show ?thesis by blast
qed

lemma add_to_bucket_get:
  assumes "set (dkeys b) = UNIV"
  shows "set (dkeys (add_to_bucket r b)) = UNIV"
    and "dget_or (add_to_bucket r b) c ([], 0, 0) =
      (let (costs, toks, n) = dget_or b c ([], 0, 0) in
       if cr_call_category r = c then (costs @ [cr_cost r], toks + cr_input_tokens r + cr_output_tokens r, n + 1) else (costs, toks, n))"
proof -
  have "cr_call_category r \<in> set (dkeys b)" by (simp only: assms UNIV_I)
  then have add: "add_to_bucket r b = (case dget_or b (cr_call_category r) ([], 0, 0) of (costs, toks, n) \<Rightarrow>
      dput (cr_call_category r) (costs @ [cr_cost r], toks + cr_input_tokens r + cr_output_tokens r, n + 1) b)"
    unfolding add_to_bucket_def Let_def by (simp only: if_True)
  show "set (dkeys (add_to_bucket r b)) = UNIV" unfolding add by (simp only: set_dkeys_dput assms split: prod.split) simp
  show "dget_or (add_to_bucket r b) c ([], 0, 0) =
      (let (costs, toks, n) = dget_or b c ([], 0, 0) in
       if cr_call_category r = c then (costs @ [cr_cost r], toks + cr_input_tokens r + cr_output_tokens r, n + 1) else (costs, toks, n))"
    unfolding add by (auto simp: Let_def split: prod.splits)
qed

lemma buckets_filter:
  "set (dkeys b) = UNIV \<Longrightarrow> dget_or b c ([], 0, 0) = (costs, toks, n) \<Longrightarrow>
   dget_or (fold add_to_bucket rs b) c ([], 0, 0) =
     (let mine = filter (\<lambda>r. cr_call_category r = c) rs in
      (costs @ List.map cr_cost mine, toks + sum_list (List.map (\<lambda>r. cr_input_tokens r + cr_output_tokens r) mine), n + int (length mine)))"
proof (induction rs arbitrary: b costs toks n)
  case (Cons r rs)
  show ?case using Cons.prems Cons.IH [OF add_to_bucket_get(1) [OF Cons.prems(1), of r]] add_to_bucket_get(2) [OF Cons.prems(1), of r c]
    by (simp add: Let_def)
qed (simp add: Let_def)

lemma breakdown_filter:
  "build_category_breakdown rs c =
     (let mine = filter (\<lambda>r. cr_call_category r = c) rs in
      \<lparr>cat_cost = sum_cost mine, cat_tokens = sum_list (List.map (\<lambda>r. cr_input_tokens r + cr_output_tokens r) mine),
       cat_count = int (length mine)\<rparr>)"
proof -
  let ?b = "List.map (\<lambda>c. (c, ([], 0, 0))) CATEGORIES :: (LLMCallCategory option, bucket) dict"
  have keys: "dkeys ?b = CATEGORIES" by (simp add: comp_def)
  have "dget ?b c = Some ([], 0, 0)" for c
    using categories_all by (intro map_of_is_SomeI) (auto simp: comp_def CATEGORIES_def)
  then have "dget_or (fold add_to_bucket rs ?b) c ([], 0, 0) =
      (let mine = filter (\<lambda>r. cr_call_category r = c) rs in
       ([] @ List.map cr_cost mine, 0 + sum_list (List.map (\<lambda>r. cr_input_tokens r + cr_output_tokens r) mine), 0 + int (length mine)))"
    by (intro buckets_filter) (simp only: keys categories_all, simp add: dget_or_def)
  then show ?thesis by (simp add: build_category_breakdown_def sum_cost_def Let_def)
qed

lemma breakdown_tokens_total:
  "breakdown_tokens (build_category_breakdown rs) = sum_list (List.map (\<lambda>r. cr_input_tokens r + cr_output_tokens r) rs)"
proof -
  have "distinct CATEGORIES" by (simp add: CATEGORIES_def)
  then have "sum_list (List.map (\<lambda>k. sum_list (List.map (\<lambda>r. cr_input_tokens r + cr_output_tokens r) (filter (\<lambda>x. cr_call_category x = k) rs))) CATEGORIES) =
      sum_list (List.map (\<lambda>r. cr_input_tokens r + cr_output_tokens r) rs)"
    by (intro sum_groups) (simp_all only: categories_all subset_UNIV)
  then show ?thesis by (simp add: breakdown_tokens_def breakdown_filter Let_def)
qed

text \<open>On valid records the ratio is defined, lies between 0 and 1, and passes its own validators.\<close>

lemma orchestration_ratio_defined:
  assumes "list_all valid_cost_record rs"
  shows "is_ok (compute_orchestration_ratio th (build_category_breakdown rs))"
proof -
  let ?b = "build_category_breakdown rs"
  have pos: "0 \<le> cat_tokens (?b c)" for c
    using assms by (auto simp: breakdown_filter Let_def list_all_iff valid_cost_record_def intro!: sum_list_nonneg add_nonneg_nonneg)
  have tot: "breakdown_tokens ?b = cat_tokens (?b (Some PRODUCTIVE)) + cat_tokens (?b (Some COORDINATION)) + cat_tokens (?b (Some SYSTEM)) +
      cat_tokens (?b (Some EMBEDDING)) + cat_tokens (?b None)"
    by (simp add: breakdown_tokens_def CATEGORIES_def)
  have le: "cat_tokens (?b (Some COORDINATION)) + cat_tokens (?b (Some SYSTEM)) \<le> breakdown_tokens ?b"
    unfolding tot using pos [of "Some PRODUCTIVE"] pos [of "Some EMBEDDING"] pos [of None] by linarith
  have r: "0 \<le> round_budget (of_int a / of_int b) \<and> round_budget (of_int a / of_int b) \<le> 1" if "0 \<le> a" "a \<le> b" "b \<noteq> 0" for a b
  proof -
    have "(of_int a :: rat) / of_int b \<le> of_int 1" using that by (simp add: divide_le_eq_1)
    then show ?thesis using round_budget_le_int [of "of_int a / of_int b" 1] round_budget_nonneg [of "of_int a / of_int b"] that by simp
  qed
  show ?thesis
    using r [OF add_nonneg_nonneg [OF pos pos] le] pos [of "Some PRODUCTIVE"] pos [of "Some COORDINATION"] pos [of "Some SYSTEM"]
      pos [of "Some EMBEDDING"] pos [of None] tot
    by (simp add: compute_orchestration_ratio_def make_ratio_def Let_def)
qed

end
