(* ===== verification/Model_Router.thy ===== *)
theory Model_Router
  imports Assignment
begin

text \<open>
  Choosing a model for a call, \<^verbatim>\<open>providers/routing/\<close>: the index of model references, the selectors among
  several providers of one model, the resolver, the five routing strategies with their helpers and registry, and the
  router. Costs are exact rationals; the texts of reasons are left out. A selector is the interface
  \<open>candidate_selector\<close>, and the resolver is proved over it.
\<close>

declare map_of_eq_Some_iff [simp del] Some_eq_map_of_iff [simp del]

subsection \<open>Models and candidates\<close>

record ResolvedModel =
  rm_provider :: string
  rm_model_id :: string
  rm_alias :: "string option"
  rm_cost_input :: rat
  rm_cost_output :: rat
  rm_max_context :: int
  rm_latency_ms :: "int option"

definition total_cost_per_1k :: "ResolvedModel \<Rightarrow> rat" where
  "total_cost_per_1k m = rm_cost_input m + rm_cost_output m"

definition cost_key :: "ResolvedModel \<Rightarrow> rat \<times> string" where
  "cost_key m = (total_cost_per_1k m, rm_provider m)"

datatype model_routing_error =
  ModelNotFound string | NoCandidates | SelectorFailed string | EmptyCandidateList string | OverrideNotSet | LevelNotSet
  | NoModelsRegistered | CandidatesExhausted "string list" | NoModelForLevel SeniorityLevel | SignalsExhausted | UnknownRoutingStrategy string

type_synonym selector = "ResolvedModel list \<Rightarrow> model_routing_error + ResolvedModel"

text \<open>\<open>min\<close> with a key: the first element of least key, which a stable sort puts in front.\<close>

definition min_by_cost :: "ResolvedModel list \<Rightarrow> ResolvedModel" where
  "min_by_cost ms = List.hd (sort_key cost_key ms)"

definition quota_aware_select :: "(string, bool) dict \<Rightarrow> selector" where
  "quota_aware_select quota cs =
     (if cs = [] then Inl NoCandidates
      else let with_quota = filter (\<lambda>m. dget_or quota (rm_provider m) True) cs;
               pool = (if with_quota = [] then cs else with_quota)
           in Inr (min_by_cost pool))"

definition cheapest_select :: selector where
  "cheapest_select cs = (if cs = [] then Inl NoCandidates else Inr (min_by_cost cs))"

subsection \<open>Resolver\<close>

record ModelResolver =
  mr_index :: "(string, ResolvedModel list) dict"
  mr_selector :: selector

definition new_resolver :: "(string, ResolvedModel list) dict \<Rightarrow> selector option \<Rightarrow> model_routing_error + ModelResolver" where
  "new_resolver index sel =
     (case find (\<lambda>(k, v). v = []) index of
        Some (k, _) \<Rightarrow> Inl (EmptyCandidateList k)
      | None \<Rightarrow> Inr \<lparr>mr_index = index, mr_selector = (case sel of None \<Rightarrow> quota_aware_select [] | Some f \<Rightarrow> f)\<rparr>)"

record ProviderModelConfig =
  pm_id :: string
  pm_alias :: "string option"
  pm_cost_input :: rat
  pm_cost_output :: rat
  pm_max_context :: int
  pm_latency_ms :: "int option"

definition index_ref :: "string \<Rightarrow> ResolvedModel \<Rightarrow> (string, ResolvedModel list) dict \<Rightarrow> (string, ResolvedModel list) dict" where
  "index_ref ref m index =
     (case dget index ref of
        None \<Rightarrow> dput ref [m] index
      | Some existing \<Rightarrow> if m \<in> set existing then index else dput ref (existing @ [m]) index)"

definition resolved_of :: "string \<Rightarrow> ProviderModelConfig \<Rightarrow> ResolvedModel" where
  "resolved_of p c = \<lparr>rm_provider = p, rm_model_id = pm_id c, rm_alias = pm_alias c, rm_cost_input = pm_cost_input c,
     rm_cost_output = pm_cost_output c, rm_max_context = pm_max_context c, rm_latency_ms = pm_latency_ms c\<rparr>"

definition refs_of :: "ResolvedModel \<Rightarrow> string list" where
  "refs_of m = rm_model_id m # (case rm_alias m of None \<Rightarrow> [] | Some a \<Rightarrow> [a])"

definition index_model :: "ResolvedModel \<Rightarrow> (string, ResolvedModel list) dict \<Rightarrow> (string, ResolvedModel list) dict" where
  "index_model m index = fold (\<lambda>ref ix. index_ref ref m ix) (refs_of m) index"

definition provider_models :: "(string \<times> ProviderModelConfig list) list \<Rightarrow> ResolvedModel list" where
  "provider_models providers = concat (List.map (\<lambda>(p, cs). List.map (resolved_of p) cs) providers)"

definition resolver_from_config :: "(string \<times> ProviderModelConfig list) list \<Rightarrow> selector option \<Rightarrow> model_routing_error + ModelResolver" where
  "resolver_from_config providers sel = new_resolver (fold index_model (provider_models providers) []) sel"

definition resolve_ref :: "ModelResolver \<Rightarrow> string \<Rightarrow> model_routing_error + ResolvedModel" where
  "resolve_ref r ref =
     (case dget (mr_index r) ref of
        None \<Rightarrow> Inl (ModelNotFound ref)
      | Some cs \<Rightarrow> (case mr_selector r cs of Inl _ \<Rightarrow> Inl (SelectorFailed ref) | Inr m \<Rightarrow> Inr m))"

definition resolve_safe :: "ModelResolver \<Rightarrow> string \<Rightarrow> ResolvedModel option" where
  "resolve_safe r ref =
     (case dget (mr_index r) ref of
        None \<Rightarrow> None
      | Some cs \<Rightarrow> (case mr_selector r cs of Inl _ \<Rightarrow> None | Inr m \<Rightarrow> Some m))"

definition resolve_all :: "ModelResolver \<Rightarrow> string \<Rightarrow> ResolvedModel list" where
  "resolve_all r ref = dget_or (mr_index r) ref []"

fun dedup_models :: "(string \<times> string) list \<Rightarrow> ResolvedModel list \<Rightarrow> ResolvedModel list" where
  "dedup_models seen [] = []"
| "dedup_models seen (m # ms) =
     (let key = (rm_provider m, rm_model_id m) in
      if key \<in> set seen then dedup_models seen ms else m # dedup_models (key # seen) ms)"

definition all_models :: "ModelResolver \<Rightarrow> ResolvedModel list" where
  "all_models r = dedup_models [] (concat (List.map snd (mr_index r)))"

definition all_models_sorted_by_cost :: "ModelResolver \<Rightarrow> ResolvedModel list" where
  "all_models_sorted_by_cost r = sort_key total_cost_per_1k (all_models r)"

text \<open>Models without a latency sort last.\<close>

definition latency_key :: "ResolvedModel \<Rightarrow> bool \<times> int" where
  "latency_key m = (case rm_latency_ms m of Some l \<Rightarrow> (False, l) | None \<Rightarrow> (True, 0))"

definition all_models_sorted_by_latency :: "ModelResolver \<Rightarrow> ResolvedModel list" where
  "all_models_sorted_by_latency r = sort_key latency_key (all_models r)"

subsection \<open>Requests, rules and decisions\<close>

record RoutingRequest =
  rq_agent_level :: "SeniorityLevel option"
  rq_task_type :: "string option"
  rq_model_override :: "string option"
  rq_remaining_budget :: "rat option"

record RoutingRuleConfig =
  rl_role_level :: "SeniorityLevel option"
  rl_task_type :: "string option"
  rl_preferred_model :: string
  rl_fallback :: "string option"

definition valid_rule :: "RoutingRuleConfig \<Rightarrow> bool" where
  "valid_rule rl \<longleftrightarrow> opt_not_blank (rl_task_type rl) \<and> not_blank (rl_preferred_model rl) \<and> opt_not_blank (rl_fallback rl) \<and>
     \<not> (rl_role_level rl = None \<and> rl_task_type rl = None)"

record RoutingConfig =
  rc_strategy :: string
  rc_rules :: "RoutingRuleConfig list"
  rc_fallback_chain :: "string list"

datatype decision_source = ExplicitOverride | TaskTypeRule | RoleRule | SeniorityDefault | CheapestAvailable bool | FastestAvailable bool
  | GlobalChain

record ModelDecision =
  md_model :: ResolvedModel
  md_strategy :: string
  md_source :: decision_source
  md_fallbacks_tried :: "string list"

definition decide :: "string \<Rightarrow> decision_source \<Rightarrow> ResolvedModel \<times> string list \<Rightarrow> ModelDecision" where
  "decide name src mt = \<lparr>md_model = fst mt, md_strategy = name, md_source = src, md_fallbacks_tried = snd mt\<rparr>"

definition typical_model_tier :: "SeniorityLevel \<Rightarrow> string" where
  "typical_model_tier l =
     (case l of JUNIOR \<Rightarrow> ''small'' | MID \<Rightarrow> ''medium'' | SENIOR \<Rightarrow> ''medium'' | LEAD \<Rightarrow> ''large'' | PRINCIPAL \<Rightarrow> ''large''
      | DIRECTOR \<Rightarrow> ''large'' | VP \<Rightarrow> ''large'' | C_SUITE \<Rightarrow> ''large'')"

subsection \<open>Fallbacks and budgets\<close>

text \<open>The references that failed are the ones already tried; a reference seen before is skipped.\<close>

fun try_candidates :: "ModelResolver \<Rightarrow> string list \<Rightarrow> string list \<Rightarrow> model_routing_error + (ResolvedModel \<times> string list)" where
  "try_candidates r tried [] = Inl (CandidatesExhausted tried)"
| "try_candidates r tried (ref # refs) =
     (if ref \<in> set tried then try_candidates r tried refs
      else case resolve_safe r ref of
             Some m \<Rightarrow> Inr (m, tried)
           | None \<Rightarrow> try_candidates r (tried @ [ref]) refs)"

definition try_resolve_with_fallback :: "string \<Rightarrow> RoutingRuleConfig option \<Rightarrow> RoutingConfig \<Rightarrow> ModelResolver \<Rightarrow>
    model_routing_error + (ResolvedModel \<times> string list)" where
  "try_resolve_with_fallback ref rl cfg r =
     try_candidates r []
       (ref # (case rl of None \<Rightarrow> [] | Some x \<Rightarrow> (case rl_fallback x of None \<Rightarrow> [] | Some f \<Rightarrow> [f])) @ rc_fallback_chain cfg)"

definition try_resolve_with_fallback_safe :: "string \<Rightarrow> RoutingRuleConfig option \<Rightarrow> RoutingConfig \<Rightarrow> ModelResolver \<Rightarrow>
    (ResolvedModel \<times> string list) option" where
  "try_resolve_with_fallback_safe ref rl cfg r =
     (case try_resolve_with_fallback ref rl cfg r of Inl _ \<Rightarrow> None | Inr x \<Rightarrow> Some x)"

fun walk_chain :: "ModelResolver \<Rightarrow> string list \<Rightarrow> string list \<Rightarrow> (ResolvedModel \<times> string list) option" where
  "walk_chain r tried [] = None"
| "walk_chain r tried (ref # refs) =
     (case resolve_safe r ref of Some m \<Rightarrow> Some (m, tried) | None \<Rightarrow> walk_chain r (tried @ [ref]) refs)"

definition walk_fallback_chain :: "RoutingConfig \<Rightarrow> ModelResolver \<Rightarrow> (ResolvedModel \<times> string list) option" where
  "walk_fallback_chain cfg r = walk_chain r [] (rc_fallback_chain cfg)"

definition within_budget :: "ResolvedModel \<Rightarrow> rat option \<Rightarrow> bool" where
  "within_budget m b \<longleftrightarrow> (case b of None \<Rightarrow> True | Some x \<Rightarrow> total_cost_per_1k m \<le> x)"

definition first_within :: "rat option \<Rightarrow> ResolvedModel list \<Rightarrow> model_routing_error + (ResolvedModel \<times> bool)" where
  "first_within b ms =
     (case ms of
        [] \<Rightarrow> Inl NoModelsRegistered
      | m # _ \<Rightarrow> (case find (\<lambda>x. within_budget x b) ms of Some x \<Rightarrow> Inr (x, False) | None \<Rightarrow> Inr (m, True)))"

definition cheapest_within_budget :: "ModelResolver \<Rightarrow> rat option \<Rightarrow> model_routing_error + (ResolvedModel \<times> bool)" where
  "cheapest_within_budget r b = first_within b (all_models_sorted_by_cost r)"

definition fastest_within_budget :: "ModelResolver \<Rightarrow> rat option \<Rightarrow> model_routing_error + (ResolvedModel \<times> bool)" where
  "fastest_within_budget r b =
     (let ms = all_models_sorted_by_latency r in
      if ms = [] then Inl NoModelsRegistered
      else let timed = filter (\<lambda>m. rm_latency_ms m \<noteq> None) ms in
           if timed = [] then cheapest_within_budget r b else first_within b timed)"

fun try_rules :: "string \<Rightarrow> decision_source \<Rightarrow> RoutingConfig \<Rightarrow> ModelResolver \<Rightarrow> RoutingRuleConfig list \<Rightarrow> ModelDecision option" where
  "try_rules name src cfg r [] = None"
| "try_rules name src cfg r (rl # rls) =
     (case try_resolve_with_fallback_safe (rl_preferred_model rl) (Some rl) cfg r of
        Some mt \<Rightarrow> Some (decide name src mt)
      | None \<Rightarrow> try_rules name src cfg r rls)"

definition try_task_type_rules :: "string \<Rightarrow> RoutingRequest \<Rightarrow> RoutingConfig \<Rightarrow> ModelResolver \<Rightarrow> ModelDecision option" where
  "try_task_type_rules name rq cfg r =
     (case rq_task_type rq of None \<Rightarrow> None
      | Some t \<Rightarrow> try_rules name TaskTypeRule cfg r (filter (\<lambda>rl. rl_task_type rl = Some t) (rc_rules cfg)))"

definition try_role_rules :: "string \<Rightarrow> RoutingRequest \<Rightarrow> RoutingConfig \<Rightarrow> ModelResolver \<Rightarrow> ModelDecision option" where
  "try_role_rules name rq cfg r =
     (case rq_agent_level rq of None \<Rightarrow> None
      | Some l \<Rightarrow> try_rules name RoleRule cfg r (filter (\<lambda>rl. rl_role_level rl = Some l) (rc_rules cfg)))"

definition try_seniority_default :: "string \<Rightarrow> RoutingRequest \<Rightarrow> ModelResolver \<Rightarrow> ModelDecision option" where
  "try_seniority_default name rq r =
     (case rq_agent_level rq of None \<Rightarrow> None
      | Some l \<Rightarrow> map_option (\<lambda>m. decide name SeniorityDefault (m, [])) (resolve_safe r (typical_model_tier l)))"

subsection \<open>Strategies\<close>

definition manual_select :: "RoutingRequest \<Rightarrow> RoutingConfig \<Rightarrow> ModelResolver \<Rightarrow> model_routing_error + ModelDecision" where
  "manual_select rq cfg r =
     (case rq_model_override rq of
        None \<Rightarrow> Inl OverrideNotSet
      | Some ref \<Rightarrow> rbind (resolve_ref r ref) (\<lambda>m. Inr (decide ''manual'' ExplicitOverride (m, []))))"

text \<open>The first rule of the level decides: when none of its candidates resolves, it raises.\<close>

definition role_based_select :: "RoutingRequest \<Rightarrow> RoutingConfig \<Rightarrow> ModelResolver \<Rightarrow> model_routing_error + ModelDecision" where
  "role_based_select rq cfg r =
     (case rq_agent_level rq of
        None \<Rightarrow> Inl LevelNotSet
      | Some l \<Rightarrow>
          (case find (\<lambda>rl. rl_role_level rl = Some l) (rc_rules cfg) of
             Some rl \<Rightarrow> rbind (try_resolve_with_fallback (rl_preferred_model rl) (Some rl) cfg r) (\<lambda>mt. Inr (decide ''role_based'' RoleRule mt))
           | None \<Rightarrow>
               (case try_resolve_with_fallback_safe (typical_model_tier l) None cfg r of
                  Some mt \<Rightarrow> Inr (decide ''role_based'' SeniorityDefault mt)
                | None \<Rightarrow> Inl (NoModelForLevel l))))"

definition cost_aware_select :: "RoutingRequest \<Rightarrow> RoutingConfig \<Rightarrow> ModelResolver \<Rightarrow> model_routing_error + ModelDecision" where
  "cost_aware_select rq cfg r =
     (let cheapest = rbind (cheapest_within_budget r (rq_remaining_budget rq)) (\<lambda>(m, over). Inr (decide ''cost_aware'' (CheapestAvailable over) (m, [])))
      in case try_task_type_rules ''cost_aware'' rq cfg r of
           Some d \<Rightarrow> if within_budget (md_model d) (rq_remaining_budget rq) then Inr d else cheapest
         | None \<Rightarrow> cheapest)"

definition fastest_select :: "RoutingRequest \<Rightarrow> RoutingConfig \<Rightarrow> ModelResolver \<Rightarrow> model_routing_error + ModelDecision" where
  "fastest_select rq cfg r =
     (let fastest = rbind (fastest_within_budget r (rq_remaining_budget rq)) (\<lambda>(m, over). Inr (decide ''fastest'' (FastestAvailable over) (m, [])))
      in case try_task_type_rules ''fastest'' rq cfg r of
           Some d \<Rightarrow> if within_budget (md_model d) (rq_remaining_budget rq) then Inr d else fastest
         | None \<Rightarrow> fastest)"

definition first_of :: "'a option \<Rightarrow> 'a option \<Rightarrow> 'a option" where
  "first_of a b = (case a of Some x \<Rightarrow> Some x | None \<Rightarrow> b)"

definition try_override :: "RoutingRequest \<Rightarrow> ModelResolver \<Rightarrow> ModelDecision option" where
  "try_override rq r =
     (case rq_model_override rq of None \<Rightarrow> None
      | Some ref \<Rightarrow> map_option (\<lambda>m. decide ''smart'' ExplicitOverride (m, [])) (resolve_safe r ref))"

definition try_cheapest :: "RoutingRequest \<Rightarrow> ModelResolver \<Rightarrow> ModelDecision option" where
  "try_cheapest rq r =
     (case cheapest_within_budget r (rq_remaining_budget rq) of
        Inl _ \<Rightarrow> None | Inr (m, over) \<Rightarrow> Some (decide ''smart'' (CheapestAvailable over) (m, [])))"

definition try_global_chain :: "RoutingConfig \<Rightarrow> ModelResolver \<Rightarrow> ModelDecision option" where
  "try_global_chain cfg r = map_option (decide ''smart'' GlobalChain) (walk_fallback_chain cfg r)"

definition smart_select :: "RoutingRequest \<Rightarrow> RoutingConfig \<Rightarrow> ModelResolver \<Rightarrow> model_routing_error + ModelDecision" where
  "smart_select rq cfg r =
     (case first_of (try_override rq r) (first_of (try_task_type_rules ''smart'' rq cfg r) (first_of (try_role_rules ''smart'' rq cfg r)
         (first_of (try_seniority_default ''smart'' rq r) (first_of (try_cheapest rq r) (try_global_chain cfg r))))) of
        Some d \<Rightarrow> Inr d
      | None \<Rightarrow> Inl SignalsExhausted)"

type_synonym routing_strategy = "RoutingRequest \<Rightarrow> RoutingConfig \<Rightarrow> ModelResolver \<Rightarrow> model_routing_error + ModelDecision"

definition STRATEGY_MAP :: "(string, routing_strategy) dict" where
  "STRATEGY_MAP = [(''manual'', manual_select), (''role_based'', role_based_select), (''cost_aware'', cost_aware_select),
     (''fastest'', fastest_select), (''smart'', smart_select), (''cheapest'', cost_aware_select)]"

subsection \<open>Router\<close>

record ModelRouter =
  ro_config :: RoutingConfig
  ro_resolver :: ModelResolver
  ro_strategy :: routing_strategy

definition new_router :: "RoutingConfig \<Rightarrow> (string \<times> ProviderModelConfig list) list \<Rightarrow> selector option \<Rightarrow> model_routing_error + ModelRouter" where
  "new_router cfg providers sel =
     rbind (resolver_from_config providers sel) (\<lambda>r.
       case dget STRATEGY_MAP (rc_strategy cfg) of
         None \<Rightarrow> Inl (UnknownRoutingStrategy (rc_strategy cfg))
       | Some f \<Rightarrow> Inr \<lparr>ro_config = cfg, ro_resolver = r, ro_strategy = f\<rparr>)"

definition route_model :: "ModelRouter \<Rightarrow> RoutingRequest \<Rightarrow> model_routing_error + ModelDecision" where
  "route_model ro rq = ro_strategy ro rq (ro_config ro) (ro_resolver ro)"

subsection \<open>Selectors\<close>

text \<open>What the resolver relies on: a selector returns one of its candidates when there are any.\<close>

locale candidate_selector =
  fixes select :: selector
  assumes picks: "cs \<noteq> [] \<Longrightarrow> \<exists>m \<in> set cs. select cs = Inr m"

lemma min_by_cost:
  assumes "ms \<noteq> []"
  shows "min_by_cost ms \<in> set ms" and "m \<in> set ms \<Longrightarrow> cost_key (min_by_cost ms) \<le> cost_key m"
proof -
  obtain y ys where s: "sort_key cost_key ms = y # ys" using assms by (metis list.exhaust set_sort set_empty)
  then have "min_by_cost ms = y" by (simp add: min_by_cost_def)
  then show "min_by_cost ms \<in> set ms" "m \<in> set ms \<Longrightarrow> cost_key (min_by_cost ms) \<le> cost_key m"
    using sort_key_head(2,3) [OF s] by auto
qed

interpretation quota_aware: candidate_selector "quota_aware_select q"
proof unfold_locales
  fix cs :: "ResolvedModel list" assume "cs \<noteq> []"
  then show "\<exists>m \<in> set cs. quota_aware_select q cs = Inr m"
    using min_by_cost(1) [of cs] min_by_cost(1) [of "filter (\<lambda>m. dget_or q (rm_provider m) True) cs"]
    by (auto simp: quota_aware_select_def Let_def)
qed

interpretation cheapest: candidate_selector cheapest_select
  by unfold_locales (use min_by_cost(1) in \<open>auto simp: cheapest_select_def\<close>)

text \<open>
  Among the candidates with quota, or among all when none has any, the selected one is the cheapest, ties going to the
  smaller provider name.
\<close>

lemma quota_aware_choice:
  assumes "quota_aware_select q cs = Inr m"
  shows "m \<in> set cs" and "m' \<in> set cs \<Longrightarrow> dget_or q (rm_provider m') True \<Longrightarrow>
      dget_or q (rm_provider m) True \<and> cost_key m \<le> cost_key m'"
proof -
  let ?w = "filter (\<lambda>m. dget_or q (rm_provider m) True) cs"
  have cs: "cs \<noteq> []" and m: "m = min_by_cost (if ?w = [] then cs else ?w)"
    using assms by (auto simp: quota_aware_select_def Let_def split: if_splits)
  show "m \<in> set cs" using m cs min_by_cost(1) [of cs] min_by_cost(1) [of ?w] by (auto split: if_splits)
  show "dget_or q (rm_provider m) True \<and> cost_key m \<le> cost_key m'" if "m' \<in> set cs" "dget_or q (rm_provider m') True"
  proof -
    have w: "m' \<in> set ?w" "?w \<noteq> []" using that by (auto simp: filter_empty_conv)
    then show ?thesis using m min_by_cost(1) [of ?w] min_by_cost(2) [of ?w m'] by auto
  qed
qed

subsection \<open>The index\<close>

definition index_ok :: "ResolvedModel list \<Rightarrow> (string, ResolvedModel list) dict \<Rightarrow> bool" where
  "index_ok ms ix \<longleftrightarrow> distinct (dkeys ix) \<and>
     (\<forall>ref. case dget ix ref of None \<Rightarrow> \<forall>m \<in> set ms. ref \<notin> set (refs_of m)
            | Some cs \<Rightarrow> cs \<noteq> [] \<and> set cs = {m \<in> set ms. ref \<in> set (refs_of m)})"

lemma dget_index_ref:
  "dget (index_ref ref m ix) k =
     (if k = ref then Some (case dget ix ref of None \<Rightarrow> [m] | Some cs \<Rightarrow> if m \<in> set cs then cs else cs @ [m]) else dget ix k)"
  by (auto simp: index_ref_def split: option.splits)

lemma index_ref_facts:
  "distinct (dkeys ix) \<Longrightarrow> distinct (dkeys (index_ref ref m ix))"
  "set (dget_or (index_ref ref m ix) k []) = set (dget_or ix k []) \<union> (if k = ref then {m} else {})"
  "dget ix k \<noteq> Some [] \<Longrightarrow> dget (index_ref ref m ix) k \<noteq> Some []"
  by (auto simp: dget_or_def dget_index_ref split: option.splits) (simp add: index_ref_def split: option.splits)

lemma fold_index_keys: "distinct (dkeys ix) \<Longrightarrow> distinct (dkeys (fold (\<lambda>ref ix. index_ref ref m ix) refs ix))"
  by (induction refs arbitrary: ix) (simp_all add: index_ref_facts(1))

lemma fold_index_refs:
  "set (dget_or (fold (\<lambda>ref ix. index_ref ref m ix) refs ix) k []) = set (dget_or ix k []) \<union> (if k \<in> set refs then {m} else {})"
  by (induction refs arbitrary: ix) (auto simp: index_ref_facts(2) split: if_splits)

lemma fold_index_nonempty: "dget ix k \<noteq> Some [] \<Longrightarrow> dget (fold (\<lambda>ref ix. index_ref ref m ix) refs ix) k \<noteq> Some []"
proof (induction refs arbitrary: ix)
  case (Cons ref refs)
  then show ?case using index_ref_facts(3) [of ix k ref m] by simp
qed simp

lemma index_ok_alt:
  "index_ok ms ix \<longleftrightarrow> distinct (dkeys ix) \<and> (\<forall>ref. dget ix ref \<noteq> Some [] \<and> set (dget_or ix ref []) = {m \<in> set ms. ref \<in> set (refs_of m)})"
proof -
  have "(case dget ix ref of None \<Rightarrow> \<forall>m \<in> set ms. ref \<notin> set (refs_of m) | Some cs \<Rightarrow> cs \<noteq> [] \<and> set cs = {m \<in> set ms. ref \<in> set (refs_of m)}) \<longleftrightarrow>
      dget ix ref \<noteq> Some [] \<and> set (dget_or ix ref []) = {m \<in> set ms. ref \<in> set (refs_of m)}" for ref
    by (auto simp: dget_or_def split: option.splits)
  then show ?thesis by (simp only: index_ok_def)
qed

lemma index_ok_model: "index_ok ms ix \<Longrightarrow> index_ok (ms @ [m]) (index_model m ix)"
  unfolding index_ok_alt index_model_def by (auto simp: fold_index_refs fold_index_keys fold_index_nonempty split: if_splits)

lemma index_ok_fold: "index_ok ms ix \<Longrightarrow> index_ok (ms @ ns) (fold index_model ns ix)"
proof (induction ns arbitrary: ms ix)
  case (Cons n ns)
  then show ?case using Cons.IH [OF index_ok_model [OF Cons.prems, of n]] by simp
qed simp

definition resolver_ok :: "ResolvedModel list \<Rightarrow> ModelResolver \<Rightarrow> bool" where
  "resolver_ok ms r \<longleftrightarrow> index_ok ms (mr_index r) \<and> candidate_selector (mr_selector r)"

lemma resolver_from_config_ok:
  assumes "case sel of None \<Rightarrow> True | Some f \<Rightarrow> candidate_selector f"
  shows "\<exists>r. resolver_from_config providers sel = Inr r \<and> resolver_ok (provider_models providers) r"
proof -
  let ?ix = "fold index_model (provider_models providers) []"
  have ok: "index_ok (provider_models providers) ?ix" using index_ok_fold [of "[]" "[]" "provider_models providers"] by (simp add: index_ok_def)
  have "v \<noteq> []" if "(k, v) \<in> set ?ix" for k v
  proof -
    have "dget ?ix k = Some v" using ok that by (intro map_of_is_SomeI) (simp_all add: index_ok_def)
    then show ?thesis using ok by (auto simp: index_ok_alt)
  qed
  then have "find (\<lambda>(k, v). v = []) ?ix = None" by (auto simp: find_None_iff)
  then show ?thesis using ok assms quota_aware.candidate_selector_axioms [of "[]"]
    by (auto simp: resolver_from_config_def new_resolver_def resolver_ok_def split: option.splits)
qed

lemma resolve_safe_sound: "resolver_ok ms r \<Longrightarrow> resolve_safe r ref = Some m \<Longrightarrow> m \<in> set ms \<and> ref \<in> set (refs_of m)"
proof -
  assume a: "resolver_ok ms r" "resolve_safe r ref = Some m"
  then obtain cs where cs: "dget (mr_index r) ref = Some cs" "mr_selector r cs = Inr m"
    by (auto simp: resolve_safe_def split: option.splits sum.splits)
  moreover have "cs \<noteq> []" "set cs = {m \<in> set ms. ref \<in> set (refs_of m)}"
    using a(1) cs(1) by (auto simp: resolver_ok_def index_ok_def split: option.splits dest!: spec [of _ ref])
  ultimately show ?thesis using candidate_selector.picks [of "mr_selector r" cs] a(1) by (auto simp: resolver_ok_def)
qed

lemma resolve_safe_complete: "resolver_ok ms r \<Longrightarrow> resolve_safe r ref = None \<longleftrightarrow> (\<forall>m \<in> set ms. ref \<notin> set (refs_of m))"
proof -
  assume a: "resolver_ok ms r"
  show ?thesis
  proof (cases "dget (mr_index r) ref")
    case None
    then show ?thesis using a by (auto simp: resolve_safe_def resolver_ok_def index_ok_def split: option.splits dest!: spec [of _ ref])
  next
    case (Some cs)
    then have "cs \<noteq> []" "set cs = {m \<in> set ms. ref \<in> set (refs_of m)}"
      using a by (auto simp: resolver_ok_def index_ok_def split: option.splits dest!: spec [of _ ref])
    moreover obtain m where "m \<in> set cs" "mr_selector r cs = Inr m"
      using candidate_selector.picks [of "mr_selector r" cs] a calculation(1) by (auto simp: resolver_ok_def)
    ultimately show ?thesis using Some by (auto simp: resolve_safe_def)
  qed
qed

lemma resolve_ref_safe: "resolve_ref r ref = Inr m \<longleftrightarrow> resolve_safe r ref = Some m"
  by (auto simp: resolve_ref_def resolve_safe_def split: option.splits sum.splits)

subsection \<open>Registered models\<close>

lemma dedup_subset: "set (dedup_models seen ms) \<subseteq> set ms"
  by (induction seen ms rule: dedup_models.induct) (auto simp: Let_def)

lemma dedup_covers: "m \<in> set ms \<Longrightarrow> (rm_provider m, rm_model_id m) \<in> set seen \<or>
    (\<exists>x \<in> set (dedup_models seen ms). rm_provider x = rm_provider m \<and> rm_model_id x = rm_model_id m)"
proof (induction seen ms rule: dedup_models.induct)
  case (2 seen x ms)
  then show ?case by (cases "(rm_provider x, rm_model_id x) \<in> set seen") (auto simp: Let_def)
qed simp

lemma index_values:
  assumes "index_ok ms ix"
  shows "set (concat (List.map snd ix)) = set ms"
proof
  have get: "dget ix k = Some v" if "(k, v) \<in> set ix" for k v
    using assms that by (intro map_of_is_SomeI) (simp_all add: index_ok_def)
  show "set (concat (List.map snd ix)) \<subseteq> set ms"
  proof
    fix m assume "m \<in> set (concat (List.map snd ix))"
    then obtain k v where "(k, v) \<in> set ix" "m \<in> set v" by auto
    then have "m \<in> set (dget_or ix k [])" using get by (simp add: dget_or_def)
    then show "m \<in> set ms" using assms by (simp add: index_ok_alt)
  qed
  show "set ms \<subseteq> set (concat (List.map snd ix))"
  proof
    fix m assume "m \<in> set ms"
    then have "m \<in> set (dget_or ix (rm_model_id m) [])" using assms by (simp add: index_ok_alt refs_of_def)
    then obtain v where "dget ix (rm_model_id m) = Some v" "m \<in> set v" by (cases "dget ix (rm_model_id m)") (auto simp: dget_or_def)
    then show "m \<in> set (concat (List.map snd ix))" using dget_Some_in [of ix "rm_model_id m" v] by force
  qed
qed

lemma all_models_registered: "resolver_ok ms r \<Longrightarrow> set (all_models r) \<subseteq> set ms"
  using dedup_subset [of "[]" "concat (List.map snd (mr_index r))"] index_values [of ms "mr_index r"]
  by (simp add: all_models_def resolver_ok_def del: set_concat)

lemma all_models_covers:
  "resolver_ok ms r \<Longrightarrow> m \<in> set ms \<Longrightarrow> \<exists>x \<in> set (all_models r). rm_provider x = rm_provider m \<and> rm_model_id x = rm_model_id m"
  using dedup_covers [of m "concat (List.map snd (mr_index r))" "[]"] index_values [of ms "mr_index r"]
  by (simp add: all_models_def resolver_ok_def del: set_concat)

lemma all_models_empty: "resolver_ok ms r \<Longrightarrow> all_models r = [] \<longleftrightarrow> ms = []"
  using all_models_registered [of ms r] all_models_covers [of ms r] by (cases ms) fastforce+

text \<open>The first model of a list sorted by a key that the budget lets through, or the first one.\<close>

lemma first_within_sorted:
  assumes "first_within b (sort_key f ms) = Inr (m, over)"
  shows "m \<in> set ms" and "over \<longleftrightarrow> (\<forall>x \<in> set ms. \<not> within_budget x b)" and "\<not> over \<Longrightarrow> within_budget m b"
    and "x \<in> set ms \<Longrightarrow> over \<or> within_budget x b \<Longrightarrow> f m \<le> f x"
proof -
  obtain y ys where s: "sort_key f ms = y # ys"
    using assms by (cases "sort_key f ms") (auto simp: first_within_def)
  have set: "set (y # ys) = set ms" and srt: "sorted (List.map f (y # ys))" using s by (metis set_sort, metis sorted_sort_key)
  consider (found) "find (\<lambda>x. within_budget x b) (y # ys) = Some m" "\<not> over"
    | (none) "find (\<lambda>x. within_budget x b) (y # ys) = None" "over" "m = y"
    using assms s by (auto simp: first_within_def split: option.splits)
  then have "m \<in> set ms \<and> over = (\<forall>x \<in> set ms. \<not> within_budget x b) \<and> (\<not> over \<longrightarrow> within_budget m b) \<and>
      (\<forall>x \<in> set ms. over \<or> within_budget x b \<longrightarrow> f m \<le> f x)"
  proof cases
    case found
    obtain i where i: "i < length (y # ys)" "within_budget m b" "m = (y # ys) ! i" "\<forall>j < i. \<not> within_budget ((y # ys) ! j) b"
      using found(1) [unfolded find_Some_iff] by blast
    have "f m \<le> f x" if x: "x \<in> set ms" "within_budget x b" for x
    proof -
      obtain j where j: "j < length (y # ys)" "x = (y # ys) ! j" using x(1) set by (metis in_set_conv_nth)
      then have "i \<le> j" using i(4) x(2) by (metis not_le_imp_less)
      then have "List.map f (y # ys) ! i \<le> List.map f (y # ys) ! j" using srt j(1) by (intro sorted_nth_mono) simp_all
      then show ?thesis using i(1,3) j by (simp only: nth_map)
    qed
    moreover have "m \<in> set ms" using i(1,3) set nth_mem by metis
    ultimately show ?thesis using found(2) i(2) by auto
  next
    case none
    have "\<forall>x \<in> set ms. \<not> within_budget x b" using none(1) [unfolded find_None_iff] set by blast
    moreover have "f y \<le> f x" if "x \<in> set ms" for x using that set srt by auto
    moreover have "y \<in> set ms" using set by auto
    ultimately show ?thesis using none(2,3) by auto
  qed
  then show "m \<in> set ms" "over \<longleftrightarrow> (\<forall>x \<in> set ms. \<not> within_budget x b)" "\<not> over \<Longrightarrow> within_budget m b"
    "x \<in> set ms \<Longrightarrow> over \<or> within_budget x b \<Longrightarrow> f m \<le> f x" by blast+
qed

lemma first_within_defined: "first_within b ms = Inl e \<longleftrightarrow> ms = [] \<and> e = NoModelsRegistered"
  by (auto simp: first_within_def split: list.splits option.splits)

lemma sort_key_Nil [simp]: "sort_key f xs = [] \<longleftrightarrow> xs = []"
  by (metis set_empty set_sort)

lemma cheapest_defined: "cheapest_within_budget r b = Inl e \<Longrightarrow> all_models r = []"
  by (simp add: cheapest_within_budget_def first_within_defined all_models_sorted_by_cost_def)

lemma fastest_defined: "fastest_within_budget r b = Inl e \<Longrightarrow> all_models r = []"
  by (auto simp: fastest_within_budget_def Let_def first_within_defined all_models_sorted_by_latency_def dest: cheapest_defined split: if_splits)

lemma cheapest_in: "cheapest_within_budget r b = Inr (m, over) \<Longrightarrow> m \<in> set (all_models r)"
  unfolding cheapest_within_budget_def all_models_sorted_by_cost_def by (rule first_within_sorted(1))

lemma filter_sort_latency: "filter P (sort_key latency_key ms) = sort_key latency_key (filter P ms)"
  by (simp add: filter_sort)

lemma fastest_in: "fastest_within_budget r b = Inr (m, over) \<Longrightarrow> m \<in> set (all_models r)"
  by (auto simp: fastest_within_budget_def Let_def all_models_sorted_by_latency_def filter_sort_latency
      dest: cheapest_in first_within_sorted(1) split: if_splits)

subsection \<open>Soundness of the strategies\<close>

lemma try_candidates_sound: "resolver_ok ms r \<Longrightarrow> try_candidates r tried refs = Inr (m, t) \<Longrightarrow> m \<in> set ms \<and> (\<exists>ref \<in> set refs. ref \<in> set (refs_of m))"
  by (induction r tried refs rule: try_candidates.induct) (auto split: if_splits option.splits dest: resolve_safe_sound)

lemma try_candidates_fails:
  "resolver_ok ms r \<Longrightarrow> \<forall>ref \<in> set tried. resolve_safe r ref = None \<Longrightarrow>
   (\<exists>e. try_candidates r tried refs = Inl e) \<longleftrightarrow> (\<forall>ref \<in> set refs. \<forall>m \<in> set ms. ref \<notin> set (refs_of m))"
  by (induction r tried refs rule: try_candidates.induct) (auto simp: resolve_safe_complete split: option.splits dest: resolve_safe_sound)

lemma fallback_sound:
  "resolver_ok ms r \<Longrightarrow> try_resolve_with_fallback ref rl cfg r = Inr (m, t) \<Longrightarrow> m \<in> set ms"
  unfolding try_resolve_with_fallback_def using try_candidates_sound by blast

lemma fallback_safe_sound:
  "resolver_ok ms r \<Longrightarrow> try_resolve_with_fallback_safe ref rl cfg r = Some (m, t) \<Longrightarrow> m \<in> set ms"
  by (auto simp: try_resolve_with_fallback_safe_def split: sum.splits dest: fallback_sound)

lemma try_rules_sound: "resolver_ok ms r \<Longrightarrow> try_rules name src cfg r rls = Some d \<Longrightarrow> md_model d \<in> set ms \<and> md_source d = src"
proof (induction rls)
  case (Cons rl rls)
  then show ?case
    by (auto simp: decide_def split: option.splits dest: fallback_sound fallback_safe_sound)
qed simp

lemma walk_chain_sound: "resolver_ok ms r \<Longrightarrow> walk_chain r tried refs = Some (m, t) \<Longrightarrow> m \<in> set ms"
  by (induction r tried refs rule: walk_chain.induct) (auto split: option.splits dest: resolve_safe_sound)

text \<open>What a strategy promises: every decision names a registered model, and its failures are errors.\<close>

locale model_strategy =
  fixes select :: routing_strategy
  assumes registered: "resolver_ok ms r \<Longrightarrow> select rq cfg r = Inr d \<Longrightarrow> md_model d \<in> set ms"

interpretation manual: model_strategy manual_select
  by unfold_locales (auto simp: manual_select_def decide_def resolve_ref_safe result_simps split: option.splits dest: resolve_safe_sound)

interpretation role_based: model_strategy role_based_select
  by unfold_locales
    (auto simp: role_based_select_def decide_def result_simps split: option.splits dest: fallback_sound fallback_safe_sound)

lemma task_rules_sound: "resolver_ok ms r \<Longrightarrow> try_task_type_rules name rq cfg r = Some d \<Longrightarrow> md_model d \<in> set ms \<and> md_source d = TaskTypeRule"
  by (auto simp: try_task_type_rules_def split: option.splits dest: try_rules_sound)

lemma role_rules_sound: "resolver_ok ms r \<Longrightarrow> try_role_rules name rq cfg r = Some d \<Longrightarrow> md_model d \<in> set ms \<and> md_source d = RoleRule"
  by (auto simp: try_role_rules_def split: option.splits dest: try_rules_sound)

interpretation cost_aware: model_strategy cost_aware_select
proof unfold_locales
  fix ms r rq cfg d assume a: "resolver_ok ms r" "cost_aware_select rq cfg r = Inr d"
  show "md_model d \<in> set ms"
    using a(2) all_models_registered [OF a(1)]
    by (auto simp: cost_aware_select_def Let_def decide_def result_simps split: option.splits if_splits
        dest: cheapest_in task_rules_sound [OF a(1)])
qed

interpretation fastest: model_strategy fastest_select
proof unfold_locales
  fix ms r rq cfg d assume a: "resolver_ok ms r" "fastest_select rq cfg r = Inr d"
  show "md_model d \<in> set ms"
    using a(2) all_models_registered [OF a(1)]
    by (auto simp: fastest_select_def Let_def decide_def result_simps split: option.splits if_splits
        dest: fastest_in task_rules_sound [OF a(1)])
qed

interpretation smart: model_strategy smart_select
proof unfold_locales
  fix ms r rq cfg d assume a: "resolver_ok ms r" "smart_select rq cfg r = Inr d"
  show "md_model d \<in> set ms"
    using a(2) all_models_registered [OF a(1)]
    by (auto simp: smart_select_def first_of_def try_override_def try_seniority_default_def try_cheapest_def try_global_chain_def
        walk_fallback_chain_def decide_def split: option.splits sum.splits
        dest: cheapest_in task_rules_sound [OF a(1)] role_rules_sound [OF a(1)] resolve_safe_sound [OF a(1)] walk_chain_sound [OF a(1)])
qed

subsection \<open>Properties of the router\<close>

text \<open>A router on its own selectors: the default one, or one of the two of the package.\<close>

definition known_selector :: "selector option \<Rightarrow> bool" where
  "known_selector sel \<longleftrightarrow> (case sel of None \<Rightarrow> True | Some f \<Rightarrow> f = cheapest_select \<or> (\<exists>q. f = quota_aware_select q))"

lemma known_selector_ok: "known_selector sel \<Longrightarrow> case sel of None \<Rightarrow> True | Some f \<Rightarrow> candidate_selector f"
  by (auto simp: known_selector_def cheapest.candidate_selector_axioms quota_aware.candidate_selector_axioms split: option.splits)

lemma new_router_ok:
  assumes "known_selector sel" and "new_router cfg providers sel = Inr ro"
  shows "resolver_ok (provider_models providers) (ro_resolver ro)" and "ro_config ro = cfg" and "dget STRATEGY_MAP (rc_strategy cfg) = Some (ro_strategy ro)"
  using resolver_from_config_ok [OF known_selector_ok [OF assms(1)], of providers] assms(2)
  by (auto simp: new_router_def split: option.splits)

lemma strategies_sound: "dget STRATEGY_MAP name = Some f \<Longrightarrow> model_strategy f"
  using manual.model_strategy_axioms role_based.model_strategy_axioms cost_aware.model_strategy_axioms fastest.model_strategy_axioms
    smart.model_strategy_axioms by (auto simp: STRATEGY_MAP_def split: if_splits)

lemma smart_defined: "all_models r \<noteq> [] \<Longrightarrow> \<exists>d. smart_select rq cfg r = Inr d"
  by (auto simp: smart_select_def first_of_def try_cheapest_def split: option.splits sum.splits dest: cheapest_defined)

lemma cost_aware_defined: "all_models r \<noteq> [] \<Longrightarrow> \<exists>d. cost_aware_select rq cfg r = Inr d"
  by (cases "cheapest_within_budget r (rq_remaining_budget rq)")
    (auto simp: cost_aware_select_def Let_def split: option.splits prod.splits dest: cheapest_defined)

lemma fastest_select_defined: "all_models r \<noteq> [] \<Longrightarrow> \<exists>d. fastest_select rq cfg r = Inr d"
  by (cases "fastest_within_budget r (rq_remaining_budget rq)")
    (auto simp: fastest_select_def Let_def split: option.splits prod.splits dest: fastest_defined)

text \<open>
  C39: routing is sound for every strategy and total for the open ones. A decision always names a model that some
  provider registers; with the smart, the cost-aware (or cheapest) or the fastest strategy every request gets one as
  soon as any model is registered, whatever its override, rules, level and budget, and raises when none is.
\<close>

theorem router_finds_registered_model:
  assumes "known_selector sel" and "new_router cfg providers sel = Inr ro"
  shows "(\<forall>d. route_model ro rq = Inr d \<longrightarrow> md_model d \<in> set (provider_models providers)) \<and>
    (rc_strategy cfg \<in> {''smart'', ''cost_aware'', ''cheapest'', ''fastest''} \<longrightarrow>
      (is_ok (route_model ro rq) \<longleftrightarrow> provider_models providers \<noteq> []))"
proof -
  note ok = new_router_ok [OF assms]
  have sound: "md_model d \<in> set (provider_models providers)" if "route_model ro rq = Inr d" for d
    using model_strategy.registered [OF strategies_sound [OF ok(3)] ok(1)] that by (simp add: route_model_def)
  moreover have "\<exists>d. route_model ro rq = Inr d"
    if "rc_strategy cfg \<in> {''smart'', ''cost_aware'', ''cheapest'', ''fastest''}" "provider_models providers \<noteq> []"
  proof -
    have "all_models (ro_resolver ro) \<noteq> []" using all_models_empty [OF ok(1)] that(2) by simp
    moreover have "ro_strategy ro \<in> {smart_select, cost_aware_select, fastest_select}" using ok(3) that(1) by (auto simp: STRATEGY_MAP_def)
    ultimately show ?thesis using smart_defined cost_aware_defined fastest_select_defined by (auto simp: route_model_def)
  qed
  moreover have "provider_models providers \<noteq> []" if "is_ok (route_model ro rq)"
    using that sound by (cases "route_model ro rq") (auto simp: is_ok_def)
  ultimately show ?thesis by (metis is_ok_simps(1))
qed

text \<open>
  C40: the cost-aware strategy spends least. When no rule for the task type decides, the chosen model is the cheapest
  of all, it exceeds the request's budget only when every model does, and then the decision says so; when a rule
  decides, its model fits the budget.
\<close>

theorem cost_aware_is_cheapest:
  assumes "cost_aware_select rq cfg r = Inr d"
  shows "case md_source d of
      CheapestAvailable over \<Rightarrow> (\<forall>m \<in> set (all_models r). total_cost_per_1k (md_model d) \<le> total_cost_per_1k m) \<and>
        (over \<longleftrightarrow> (\<forall>m \<in> set (all_models r). \<not> within_budget m (rq_remaining_budget rq))) \<and>
        (\<not> over \<longrightarrow> within_budget (md_model d) (rq_remaining_budget rq))
    | src \<Rightarrow> src = TaskTypeRule \<and> within_budget (md_model d) (rq_remaining_budget rq)"
proof -
  let ?b = "rq_remaining_budget rq"
  have rules: "md_source d' = TaskTypeRule" if "try_task_type_rules ''cost_aware'' rq cfg r = Some d'" for d'
  proof -
    have "try_rules n s cfg r rls = Some d' \<Longrightarrow> md_source d' = s" for n s rls
      by (induction rls) (auto simp: decide_def split: option.splits)
    then show ?thesis using that by (auto simp: try_task_type_rules_def split: option.splits)
  qed
  have cheap: "total_cost_per_1k m \<le> total_cost_per_1k x" "over \<longleftrightarrow> (\<forall>m \<in> set (all_models r). \<not> within_budget m ?b)" "\<not> over \<Longrightarrow> within_budget m ?b"
    if c: "cheapest_within_budget r ?b = Inr (m, over)" "x \<in> set (all_models r)" for m over x
  proof -
    note f = first_within_sorted [OF c(1) [unfolded cheapest_within_budget_def all_models_sorted_by_cost_def]]
    show "over \<longleftrightarrow> (\<forall>m \<in> set (all_models r). \<not> within_budget m ?b)" by (rule f(2))
    show "\<not> over \<Longrightarrow> within_budget m ?b" by (rule f(3))
    show "total_cost_per_1k m \<le> total_cost_per_1k x"
    proof (cases "over \<or> within_budget x ?b")
      case False
      then show ?thesis using f(3) by (auto simp: within_budget_def split: option.splits)
    qed (rule f(4) [OF c(2)])
  qed
  consider (rule) "try_task_type_rules ''cost_aware'' rq cfg r = Some d" "within_budget (md_model d) ?b"
    | (cheapest) m over where "cheapest_within_budget r ?b = Inr (m, over)" "d = decide ''cost_aware'' (CheapestAvailable over) (m, [])"
    using assms by (auto simp: cost_aware_select_def Let_def result_simps split: option.splits if_splits)
  then show ?thesis
  proof cases
    case rule
    then show ?thesis using rules by simp
  next
    case cheapest
    then show ?thesis using cheap [OF cheapest(1) cheapest_in [OF cheapest(1)]] cheap(1) [OF cheapest(1)] by (simp add: decide_def)
  qed
qed

text \<open>
  The global fallback chain of the smart strategy is never reached. The cheapest registered model is taken
  first, and when there is none the chain has nothing to resolve either: no decision has the chain as its source.
\<close>

theorem smart_chain_unreachable:
  assumes "known_selector sel" and "new_router cfg providers sel = Inr ro" and "rc_strategy cfg = ''smart''" and "route_model ro rq = Inr d"
  shows "md_source d \<noteq> GlobalChain"
proof
  assume chain: "md_source d = GlobalChain"
  note ok = new_router_ok [OF assms(1,2)]
  have sm: "ro_strategy ro = smart_select" using ok(3) assms(3) by (simp add: STRATEGY_MAP_def)
  have "try_cheapest rq (ro_resolver ro) = None"
    using assms(4) chain task_rules_sound [OF ok(1)] role_rules_sound [OF ok(1)] unfolding route_model_def sm smart_select_def
    by (auto simp: first_of_def try_override_def try_seniority_default_def try_cheapest_def decide_def split: option.splits sum.splits)
  then have "all_models (ro_resolver ro) = []" by (auto simp: try_cheapest_def split: sum.splits dest: cheapest_defined)
  then have "provider_models providers = []" using all_models_empty [OF ok(1)] by simp
  then show False using model_strategy.registered [OF strategies_sound [OF ok(3)] ok(1)] assms(4) by (simp add: route_model_def)
qed

subsection \<open>Witnesses of the router\<close>

definition model_of :: "string \<Rightarrow> string option \<Rightarrow> rat \<Rightarrow> ProviderModelConfig" where
  "model_of i al c = \<lparr>pm_id = i, pm_alias = al, pm_cost_input = c, pm_cost_output = c, pm_max_context = 200000, pm_latency_ms = None\<rparr>"

definition two_providers :: "(string \<times> ProviderModelConfig list) list" where
  "two_providers = [(''acme'', [model_of ''big-1'' (Some ''large'') 3, model_of ''mini-1'' (Some ''small'') 1]),
     (''globex'', [model_of ''mini-1'' (Some ''small'') (1 / 2)])]"

definition routed_by :: "string \<Rightarrow> RoutingConfig" where
  "routed_by name = \<lparr>rc_strategy = name, rc_rules = [], rc_fallback_chain = [''large'']\<rparr>"

definition open_request :: RoutingRequest where
  "open_request = \<lparr>rq_agent_level = None, rq_task_type = None, rq_model_override = None, rq_remaining_budget = Some (1 / 10)\<rparr>"

definition sample_router :: "string \<Rightarrow> routing_strategy \<Rightarrow> ModelRouter" where
  "sample_router name f = \<lparr>ro_config = routed_by name,
     ro_resolver = \<lparr>mr_index = fold index_model (provider_models two_providers) [], mr_selector = quota_aware_select []\<rparr>, ro_strategy = f\<rparr>"

lemma sample_router_built: "new_router (routed_by ''smart'') two_providers None = Inr (sample_router ''smart'' smart_select)"
proof -
  have "find (\<lambda>(k, v). v = []) (fold index_model (provider_models two_providers) []) = None" by code_simp
  then show ?thesis
    by (simp add: new_router_def resolver_from_config_def new_resolver_def sample_router_def) (simp add: routed_by_def STRATEGY_MAP_def)
qed

theorem router_finds_registered_model_witness:
  "is_ok (route_model (sample_router ''smart'' smart_select) open_request)"
proof -
  have "provider_models two_providers \<noteq> []" by code_simp
  then show ?thesis
    using router_finds_registered_model [OF _ sample_router_built, of open_request] by (simp add: known_selector_def routed_by_def)
qed

definition least_cost :: ModelDecision where
  "least_cost = decide ''cost_aware'' (CheapestAvailable True) (resolved_of ''globex'' (model_of ''mini-1'' (Some ''small'') (1 / 2)), [])"

theorem cost_aware_is_cheapest_witness:
  "list_all (\<lambda>m. total_cost_per_1k (md_model least_cost) \<le> total_cost_per_1k m) (all_models (ro_resolver (sample_router ''smart'' smart_select)))"
proof -
  have "cost_aware_select open_request (routed_by ''smart'') (ro_resolver (sample_router ''smart'' smart_select)) = Inr least_cost" by code_simp
  then show ?thesis using cost_aware_is_cheapest [of open_request "routed_by ''smart''" _ least_cost] by (simp add: least_cost_def decide_def list_all_iff)
qed

definition smart_choice :: ModelDecision where
  "smart_choice = decide ''smart'' (CheapestAvailable True) (resolved_of ''globex'' (model_of ''mini-1'' (Some ''small'') (1 / 2)), [])"

theorem smart_chain_unreachable_witness: "md_source smart_choice \<noteq> GlobalChain"
proof -
  have "route_model (sample_router ''smart'' smart_select) open_request = Inr smart_choice" by code_simp
  then show ?thesis using smart_chain_unreachable [OF _ sample_router_built] by (simp add: known_selector_def routed_by_def)
qed

end
