(* ===== verification/Budget_Enforcer.thy ===== *)
theory Budget_Enforcer
  imports Cost_Tracker Model_Router
begin

text \<open>
  Enforcing budgets, \<^verbatim>\<open>budget/enforcer.py\<close> with its helpers and \<^verbatim>\<open>budget/risk_tracker.py\<close>,
  \<^verbatim>\<open>budget/risk_enforcer.py\<close>: the pre-flight check over the cost tracker and the provider quotas, the
  project budget, the downgrade of models at the start of a task, the in-flight checker with its alerts, and the
  budget of risk units. The trackers do not suspend, so a check is one step but for the wait of a degradation, after
  which the quota tracker is an argument. The clock is a sequence of readings, the risk scorer a function that may
  raise. Texts of messages are left out; the notifications spawned are kept in the state.
\<close>

declare map_of_eq_Some_iff [simp del] Some_eq_map_of_iff [simp del]

subsection \<open>Risk records\<close>

record RiskScorerWeights =
  w_reversibility :: rat
  w_blast_radius :: rat
  w_data_sensitivity :: rat
  w_external_visibility :: rat

definition valid_weights :: "RiskScorerWeights \<Rightarrow> bool" where
  "valid_weights w \<longleftrightarrow> (\<forall>x \<in> {w_reversibility w, w_blast_radius w, w_data_sensitivity w, w_external_visibility w}. 0 \<le> x \<and> x \<le> 1) \<and>
     \<bar>w_reversibility w + w_blast_radius w + w_data_sensitivity w + w_external_visibility w - 1\<bar> \<le> 1 / 10 ^ 6"

definition DEFAULT_WEIGHTS :: RiskScorerWeights where
  "DEFAULT_WEIGHTS = \<lparr>w_reversibility = 3 / 10, w_blast_radius = 3 / 10, w_data_sensitivity = 1 / 5, w_external_visibility = 1 / 5\<rparr>"

record RiskScore =
  s_reversibility :: rat
  s_blast_radius :: rat
  s_data_sensitivity :: rat
  s_external_visibility :: rat
  s_weights :: RiskScorerWeights

definition valid_score :: "RiskScore \<Rightarrow> bool" where
  "valid_score s \<longleftrightarrow> (\<forall>x \<in> {s_reversibility s, s_blast_radius s, s_data_sensitivity s, s_external_visibility s}. 0 \<le> x \<and> x \<le> 1) \<and>
     valid_weights (s_weights s)"

definition risk_units :: "RiskScore \<Rightarrow> rat" where
  "risk_units s = s_reversibility s * w_reversibility (s_weights s) + s_blast_radius s * w_blast_radius (s_weights s) +
     s_data_sensitivity s * w_data_sensitivity (s_weights s) + s_external_visibility s * w_external_visibility (s_weights s)"

definition plain_score :: "rat \<Rightarrow> rat \<Rightarrow> rat \<Rightarrow> rat \<Rightarrow> RiskScore" where
  "plain_score a b c d = \<lparr>s_reversibility = a, s_blast_radius = b, s_data_sensitivity = c, s_external_visibility = d, s_weights = DEFAULT_WEIGHTS\<rparr>"

definition CRITICAL_SCORE :: RiskScore where "CRITICAL_SCORE = plain_score (9 / 10) (9 / 10) (8 / 10) (9 / 10)"

definition HIGH_SCORE :: RiskScore where "HIGH_SCORE = plain_score (7 / 10) (6 / 10) (5 / 10) (6 / 10)"

definition MEDIUM_SCORE :: RiskScore where "MEDIUM_SCORE = plain_score (4 / 10) (3 / 10) (3 / 10) (2 / 10)"

definition LOW_SCORE :: RiskScore where "LOW_SCORE = plain_score (1 / 10) (1 / 20) (1 / 20) 0"

definition UNKNOWN_SCORE :: RiskScore where "UNKNOWN_SCORE = plain_score (8 / 10) (7 / 10) (6 / 10) (7 / 10)"

definition DEFAULT_SCORE_MAP :: "(string, RiskScore) dict" where
  "DEFAULT_SCORE_MAP =
     [(''deploy:production'', CRITICAL_SCORE), (''db:admin'', CRITICAL_SCORE), (''org:fire'', CRITICAL_SCORE),
      (''deploy:staging'', HIGH_SCORE), (''db:mutate'', HIGH_SCORE), (''code:delete'', HIGH_SCORE), (''vcs:push'', HIGH_SCORE),
      (''comms:external'', HIGH_SCORE), (''budget:exceed'', HIGH_SCORE),
      (''code:create'', MEDIUM_SCORE), (''code:write'', MEDIUM_SCORE), (''code:refactor'', MEDIUM_SCORE), (''vcs:commit'', MEDIUM_SCORE),
      (''arch:decide'', MEDIUM_SCORE), (''org:hire'', MEDIUM_SCORE), (''org:promote'', MEDIUM_SCORE), (''budget:spend'', MEDIUM_SCORE),
      (''code:read'', LOW_SCORE), (''vcs:read'', LOW_SCORE), (''test:run'', LOW_SCORE), (''test:write'', LOW_SCORE), (''docs:write'', LOW_SCORE),
      (''vcs:branch'', LOW_SCORE), (''comms:internal'', LOW_SCORE), (''db:query'', LOW_SCORE), (''memory:read'', LOW_SCORE)]"

text \<open>Later entries of the merged map override earlier ones.\<close>

definition default_scorer :: "(string, RiskScore) dict \<Rightarrow> RiskScorerWeights option \<Rightarrow> string \<Rightarrow> RiskScore" where
  "default_scorer custom weights a =
     (let base = (case dget custom a of Some s \<Rightarrow> s | None \<Rightarrow> dget_or DEFAULT_SCORE_MAP a UNKNOWN_SCORE) in
      case weights of None \<Rightarrow> base | Some w \<Rightarrow> base\<lparr>s_weights := w\<rparr>)"

record RiskRecord =
  rr_agent_id :: string
  rr_task_id :: string
  rr_action_type :: string
  rr_score :: RiskScore
  rr_units :: rat
  rr_timestamp :: time

definition valid_action_type :: "string \<Rightarrow> bool" where
  "valid_action_type a \<longleftrightarrow> (case partition_at '':'' a of None \<Rightarrow> False | Some (c, x) \<Rightarrow> py_strip c \<noteq> [] \<and> py_strip x \<noteq> [])"

definition make_risk_record :: "string \<Rightarrow> string \<Rightarrow> string \<Rightarrow> RiskScore \<Rightarrow> time \<Rightarrow> RiskRecord option" where
  "make_risk_record agent task action s now =
     (if not_blank agent \<and> not_blank task \<and> not_blank action \<and> 0 \<le> risk_units s \<and> valid_action_type action
      then Some \<lparr>rr_agent_id = agent, rr_task_id = task, rr_action_type = action, rr_score = s, rr_units = risk_units s, rr_timestamp = now\<rparr>
      else None)"

subsection \<open>Risk tracker\<close>

definition RISK_WINDOW_HOURS :: nat where
  "RISK_WINDOW_HOURS = 168"

record risk_tracker =
  rt_records :: "RiskRecord list"
  rt_prune_threshold :: int

definition new_risk_tracker :: "int \<Rightarrow> risk_tracker option" where
  "new_risk_tracker threshold = (if threshold < 1 then None else Some \<lparr>rt_records = [], rt_prune_threshold = threshold\<rparr>)"

definition risk_record_add :: "RiskRecord \<Rightarrow> risk_tracker \<Rightarrow> risk_tracker" where
  "risk_record_add r t = t\<lparr>rt_records := rt_records t @ [r]\<rparr>"

definition risk_cutoff :: "time \<Rightarrow> time" where
  "risk_cutoff now = now - of_nat RISK_WINDOW_HOURS * 3600"

definition risk_prune_before :: "time \<Rightarrow> risk_tracker \<Rightarrow> nat \<times> risk_tracker" where
  "risk_prune_before cutoff t =
     (let kept = filter (\<lambda>r. rr_timestamp r \<ge> cutoff) (rt_records t) in (length (rt_records t) - length kept, t\<lparr>rt_records := kept\<rparr>))"

definition risk_prune_expired :: "time \<Rightarrow> risk_tracker \<Rightarrow> nat \<times> risk_tracker" where
  "risk_prune_expired now t = risk_prune_before (risk_cutoff now) t"

definition risk_snapshot :: "time \<Rightarrow> risk_tracker \<Rightarrow> RiskRecord list \<times> risk_tracker" where
  "risk_snapshot now t =
     (let t' = (if int (length (rt_records t)) > rt_prune_threshold t then snd (risk_prune_before (risk_cutoff now) t) else t)
      in (rt_records t', t'))"

record risk_filter =
  rf_agent :: "string option"
  rf_task :: "string option"
  rf_action :: "string option"
  rf_start :: "time option"
  rf_end :: "time option"

definition risk_matches :: "risk_filter \<Rightarrow> RiskRecord \<Rightarrow> bool" where
  "risk_matches f r \<longleftrightarrow>
     (case rf_agent f of None \<Rightarrow> True | Some a \<Rightarrow> rr_agent_id r = a) \<and> (case rf_task f of None \<Rightarrow> True | Some a \<Rightarrow> rr_task_id r = a) \<and>
     (case rf_action f of None \<Rightarrow> True | Some a \<Rightarrow> rr_action_type r = a) \<and>
     (case rf_start f of None \<Rightarrow> True | Some t \<Rightarrow> rr_timestamp r \<ge> t) \<and> (case rf_end f of None \<Rightarrow> True | Some t \<Rightarrow> rr_timestamp r < t)"

definition sum_risk_units :: "RiskRecord list \<Rightarrow> rat" where
  "sum_risk_units rs = sum_list (List.map rr_units rs)"

definition get_risk_records :: "risk_filter \<Rightarrow> time \<Rightarrow> risk_tracker \<Rightarrow> (cost_error + RiskRecord list) \<times> risk_tracker" where
  "get_risk_records f now t =
     (case validate_cost_range (rf_start f) (rf_end f) of
        Inl e \<Rightarrow> (Inl e, t)
      | Inr _ \<Rightarrow> let (rs, t') = risk_snapshot now t in (Inr (filter (risk_matches f) rs), t'))"

definition get_risk :: "risk_filter \<Rightarrow> time \<Rightarrow> risk_tracker \<Rightarrow> (cost_error + rat) \<times> risk_tracker" where
  "get_risk f now t = (let (r, t') = get_risk_records f now t in (rbind r (\<lambda>rs. Inr (sum_risk_units rs)), t'))"

definition get_total_risk :: "time option \<Rightarrow> time option \<Rightarrow> time \<Rightarrow> risk_tracker \<Rightarrow> (cost_error + rat) \<times> risk_tracker" where
  "get_total_risk start till now t = get_risk \<lparr>rf_agent = None, rf_task = None, rf_action = None, rf_start = start, rf_end = till\<rparr> now t"

definition get_agent_risk :: "string \<Rightarrow> time option \<Rightarrow> time option \<Rightarrow> time \<Rightarrow> risk_tracker \<Rightarrow> (cost_error + rat) \<times> risk_tracker" where
  "get_agent_risk a start till now t = get_risk \<lparr>rf_agent = Some a, rf_task = None, rf_action = None, rf_start = start, rf_end = till\<rparr> now t"

definition get_task_risk :: "string \<Rightarrow> time option \<Rightarrow> time option \<Rightarrow> time \<Rightarrow> risk_tracker \<Rightarrow> (cost_error + rat) \<times> risk_tracker" where
  "get_task_risk k start till now t = get_risk \<lparr>rf_agent = None, rf_task = Some k, rf_action = None, rf_start = start, rf_end = till\<rparr> now t"

subsection \<open>Errors, notifications and the enforcer\<close>

datatype risk_scope = PER_TASK | PER_AGENT_DAILY | TOTAL_DAILY

datatype budget_error =
  BudgetExhausted rat rat | DailyLimitExceeded string rat rat | QuotaExhausted string DegradationAction
  | ProjectBudgetExhausted string rat rat | RiskBudgetExhausted risk_scope rat rat

text \<open>An exception inside the pre-flight check is a budget error or an unexpected one.\<close>

datatype preflight_exception = BudgetSignal budget_error | UnexpectedError

datatype budget_note = MonthlyBudgetExhausted rat rat | DailyAgentLimitExceeded string rat rat

record enforcer =
  en_config :: BudgetConfig
  en_costs :: cost_tracker
  en_resolver :: "ModelResolver option"
  en_quota :: "tracker option"
  en_degradation :: "(string, DegradationConfig) dict option"
  en_risk :: "risk_tracker option"
  en_scorer :: "(string \<Rightarrow> unit + RiskScore) option"
  en_notes :: "budget_note list"

subsection \<open>Pre-flight\<close>

definition hard_stop_limit :: "BudgetConfig \<Rightarrow> rat" where
  "hard_stop_limit cfg = round_budget (total_monthly cfg * of_int (hard_stop_at (alerts cfg)) / 100)"

definition spent_this_period :: "datetime \<Rightarrow> datetime \<Rightarrow> enforcer \<Rightarrow> (preflight_exception + rat) \<times> enforcer" where
  "spent_this_period now snap e =
     (case billing_period_start (reset_day (en_config e)) now of
        None \<Rightarrow> (Inl UnexpectedError, e)
      | Some start \<Rightarrow>
          let (r, ct) = get_total_cost (Some (epoch start)) None (epoch snap) (en_costs e); e' = e\<lparr>en_costs := ct\<rparr> in
          (case r of Inl _ \<Rightarrow> (Inl UnexpectedError, e') | Inr c \<Rightarrow> (Inr c, e')))"

definition get_budget_utilization_pct :: "datetime \<Rightarrow> datetime \<Rightarrow> enforcer \<Rightarrow> rat option \<times> enforcer" where
  "get_budget_utilization_pct now snap e =
     (if total_monthly (en_config e) \<le> 0 then (None, e)
      else case spent_this_period now snap e of
             (Inl _, e') \<Rightarrow> (None, e')
           | (Inr c, e') \<Rightarrow> (Some (c / total_monthly (en_config e) * 100), e'))"

definition check_monthly_hard_stop :: "datetime \<Rightarrow> datetime \<Rightarrow> enforcer \<Rightarrow> (preflight_exception + unit) \<times> enforcer" where
  "check_monthly_hard_stop now snap e =
     (case spent_this_period now snap e of
        (Inl x, e') \<Rightarrow> (Inl x, e')
      | (Inr c, e') \<Rightarrow>
          let stop = hard_stop_limit (en_config e) in
          if c \<ge> stop then (Inl (BudgetSignal (BudgetExhausted c stop)), e'\<lparr>en_notes := en_notes e' @ [MonthlyBudgetExhausted c stop]\<rparr>)
          else (Inr (), e'))"

definition check_agent_daily_limit :: "datetime \<Rightarrow> datetime \<Rightarrow> string \<Rightarrow> enforcer \<Rightarrow> (preflight_exception + unit) \<times> enforcer" where
  "check_agent_daily_limit now snap a e =
     (let daily = per_agent_daily_limit (en_config e) in
      if daily \<le> 0 then (Inr (), e)
      else let (r, ct) = get_agent_cost a (Some (epoch (daily_period_start now))) None (epoch snap) (en_costs e); e' = e\<lparr>en_costs := ct\<rparr> in
           case r of
             Inl _ \<Rightarrow> (Inl UnexpectedError, e')
           | Inr c \<Rightarrow>
               if c \<ge> daily
               then (Inl (BudgetSignal (DailyLimitExceeded a c daily)), e'\<lparr>en_notes := en_notes e' @ [DailyAgentLimitExceeded a c daily]\<rparr>)
               else (Inr (), e'))"

definition enforcer_check_quota :: "string \<Rightarrow> int \<Rightarrow> datetime \<Rightarrow> enforcer \<Rightarrow> quota_error + QuotaCheckResult" where
  "enforcer_check_quota p est now e =
     (case en_quota e of None \<Rightarrow> Inr (always_allowed_result p) | Some q \<Rightarrow> check_quota p est now q)"

definition default_degradation :: DegradationConfig where
  "default_degradation = \<lparr>strategy = ALERT, fallback_providers = [], queue_max_wait_seconds = 300\<rparr>"

definition get_degradation_config :: "string \<Rightarrow> enforcer \<Rightarrow> DegradationConfig" where
  "get_degradation_config p e =
     (case en_degradation e of None \<Rightarrow> default_degradation | Some d \<Rightarrow> dget_or d p default_degradation)"

definition check_provider_quota :: "string \<Rightarrow> int \<Rightarrow> datetime \<Rightarrow> (nat \<Rightarrow> datetime) \<Rightarrow> tracker \<Rightarrow> enforcer \<Rightarrow>
    preflight_exception + DegradationResult option" where
  "check_provider_quota p est now clock later e =
     (case enforcer_check_quota p est now e of
        Inl _ \<Rightarrow> Inl UnexpectedError
      | Inr res \<Rightarrow>
          if q_allowed res then Inr None
          else let cfg = get_degradation_config p e in
               if strategy cfg = ALERT then Inl (BudgetSignal (QuotaExhausted p ALERT))
               else case en_quota e of
                      None \<Rightarrow> Inl UnexpectedError
                    | Some q \<Rightarrow>
                        (case resolve_degradation p res cfg est clock q later of
                           Inl _ \<Rightarrow> Inl (BudgetSignal (QuotaExhausted p (strategy cfg)))
                         | Inr d \<Rightarrow> Inr (Some d)))"

record PreFlightResult =
  degradation :: "DegradationResult option"

definition pf_effective_provider :: "PreFlightResult \<Rightarrow> string option" where
  "pf_effective_provider r = map_option effective_provider (degradation r)"

text \<open>The clock is read for the period, its snapshot, the day, its snapshot, the quota and then by the degradation.\<close>

definition run_checks :: "(nat \<Rightarrow> datetime) \<Rightarrow> tracker \<Rightarrow> string \<Rightarrow> string option \<Rightarrow> int \<Rightarrow> enforcer \<Rightarrow>
    (preflight_exception + DegradationResult option) \<times> enforcer" where
  "run_checks clock later a provider est e =
     (let (r1, e1) = (if total_monthly (en_config e) > 0 then check_monthly_hard_stop (clock 0) (clock 1) e else (Inr (), e)) in
      case r1 of
        Inl x \<Rightarrow> (Inl x, e1)
      | Inr _ \<Rightarrow>
          let (r2, e2) = check_agent_daily_limit (clock 2) (clock 3) a e1 in
          case r2 of
            Inl x \<Rightarrow> (Inl x, e2)
          | Inr _ \<Rightarrow>
              (case provider of None \<Rightarrow> (Inr None, e2)
               | Some p \<Rightarrow> (check_provider_quota p est (clock 4) (\<lambda>i. clock (5 + i)) later e2, e2)))"

definition check_can_execute :: "(nat \<Rightarrow> datetime) \<Rightarrow> tracker \<Rightarrow> string \<Rightarrow> string option \<Rightarrow> int \<Rightarrow> enforcer \<Rightarrow>
    (budget_error + PreFlightResult) \<times> enforcer" where
  "check_can_execute clock later a provider est e =
     (case run_checks clock later a provider est e of
        (Inl (BudgetSignal x), e') \<Rightarrow> (Inl x, e')
      | (Inl UnexpectedError, e') \<Rightarrow> (Inr \<lparr>degradation = None\<rparr>, e')
      | (Inr d, e') \<Rightarrow> (Inr \<lparr>degradation = d\<rparr>, e'))"

text \<open>The repository of project totals, with its rows and whether the query fails, is an argument.\<close>

definition get_project_cost_for :: "string \<Rightarrow> (bool \<times> project_rows) option \<Rightarrow> datetime \<Rightarrow> enforcer \<Rightarrow> rat option \<times> enforcer" where
  "get_project_cost_for p repo now e =
     (let from_tracker = (let (r, ct) = get_project_cost p None None (epoch now) (en_costs e)
                          in (case r of Inl _ \<Rightarrow> None | Inr c \<Rightarrow> Some c, e\<lparr>en_costs := ct\<rparr>))
      in case repo of
           None \<Rightarrow> from_tracker
         | Some (fails, rows) \<Rightarrow>
             (case get_aggregate fails p rows of
                Inl _ \<Rightarrow> from_tracker
              | Inr agg \<Rightarrow> (Some (round_budget (case agg of None \<Rightarrow> 0 | Some a \<Rightarrow> pa_total_cost a)), e)))"

definition check_project_budget :: "string \<Rightarrow> rat \<Rightarrow> (bool \<times> project_rows) option \<Rightarrow> datetime \<Rightarrow> enforcer \<Rightarrow> (budget_error + unit) \<times> enforcer" where
  "check_project_budget p budget repo now e =
     (if budget \<le> 0 then (Inr (), e)
      else let (c, e') = get_project_cost_for p repo now e in
           case c of
             None \<Rightarrow> (Inr (), e')
           | Some x \<Rightarrow> if x \<ge> budget then (Inl (ProjectBudgetExhausted p budget x), e') else (Inr (), e'))"

subsection \<open>Downgrading models\<close>

record ModelConfig =
  mc_provider :: string
  mc_model_id :: string
  mc_temperature :: rat
  mc_max_tokens :: int
  mc_fallback_model :: "string option"
  mc_model_tier :: "string option"

record ModelledAgent = AgentIdentity +
  a_model :: ModelConfig

definition VALID_TIERS :: "string list" where
  "VALID_TIERS = [''large'', ''medium'', ''small'']"

fun find_downgrade_target :: "string \<Rightarrow> (string \<times> string) list \<Rightarrow> string option" where
  "find_downgrade_target a [] = None"
| "find_downgrade_target a ((src, tgt) # m) = (if src = a then Some tgt else find_downgrade_target a m)"

definition build_downgraded_model_config :: "ModelConfig \<Rightarrow> ResolvedModel \<Rightarrow> string \<Rightarrow> ModelConfig" where
  "build_downgraded_model_config cur target alias =
     (let m = cur\<lparr>mc_provider := rm_provider target, mc_model_id := rm_model_id target\<rparr> in
      if alias \<in> set VALID_TIERS then m\<lparr>mc_model_tier := Some alias\<rparr> else m)"

definition apply_downgrade :: "ModelledAgent \<Rightarrow> ModelResolver \<Rightarrow> (string \<times> string) list \<Rightarrow> ModelledAgent" where
  "apply_downgrade ident r dmap =
     (case resolve_safe r (mc_model_id (a_model ident)) of
        None \<Rightarrow> ident
      | Some resolved \<Rightarrow>
          (case rm_alias resolved of
             None \<Rightarrow> ident
           | Some source_alias \<Rightarrow>
               (case find_downgrade_target source_alias dmap of
                  None \<Rightarrow> ident
                | Some target_alias \<Rightarrow>
                    (case resolve_safe r target_alias of
                       None \<Rightarrow> ident
                     | Some target \<Rightarrow> ident\<lparr>a_model := build_downgraded_model_config (a_model ident) target target_alias\<rparr>))))"

definition resolve_model :: "datetime \<Rightarrow> datetime \<Rightarrow> ModelledAgent \<Rightarrow> enforcer \<Rightarrow> ModelledAgent \<times> enforcer" where
  "resolve_model now snap ident e =
     (let cfg = en_config e; dg = auto_downgrade cfg in
      case en_resolver e of
        None \<Rightarrow> (ident, e)
      | Some r \<Rightarrow>
          if \<not> dg_enabled dg \<or> total_monthly cfg \<le> 0 then (ident, e)
          else case spent_this_period now snap e of
                 (Inl _, e') \<Rightarrow> (ident, e')
               | (Inr c, e') \<Rightarrow>
                   let used_pct = round_budget (c / total_monthly cfg * 100) in
                   if used_pct < of_int (dg_threshold dg) then (ident, e')
                   else (apply_downgrade ident r (downgrade_map dg), e'))"

subsection \<open>In-flight checker\<close>













subsection \<open>Risk budget\<close>

record RiskCheckResult =
  rk_allowed :: bool
  rk_units :: rat

definition enforce_risk_limit :: "risk_scope \<Rightarrow> rat \<Rightarrow> rat \<Rightarrow> rat \<Rightarrow> budget_error + unit" where
  "enforce_risk_limit scope bound current projected =
     (if bound \<le> 0 then Inr ()
      else if current + projected \<ge> bound then Inl (RiskBudgetExhausted scope (current + projected) bound)
      else Inr ())"

type_synonym risk_query = "risk_tracker \<Rightarrow> (cost_error + rat) \<times> risk_tracker"

fun run_risk_checks :: "rat \<Rightarrow> (risk_scope \<times> rat \<times> risk_query) list \<Rightarrow> risk_tracker \<Rightarrow> (preflight_exception + unit) \<times> risk_tracker" where
  "run_risk_checks projected [] t = (Inr (), t)"
| "run_risk_checks projected ((scope, bound, q) # cs) t =
     (case q t of
        (Inl _, t') \<Rightarrow> (Inl UnexpectedError, t')
      | (Inr current, t') \<Rightarrow>
          (case enforce_risk_limit scope bound current projected of
             Inl x \<Rightarrow> (Inl (BudgetSignal x), t')
           | Inr _ \<Rightarrow> run_risk_checks projected cs t'))"

definition risk_checks :: "RiskBudgetConfig \<Rightarrow> (nat \<Rightarrow> datetime) \<Rightarrow> string \<Rightarrow> string \<Rightarrow> (risk_scope \<times> rat \<times> risk_query) list" where
  "risk_checks cfg clock a k =
     (let day = Some (epoch (daily_period_start (clock 0))) in
      [(PER_TASK, per_task_risk_limit cfg, get_task_risk k None None (epoch (clock 1))),
       (PER_AGENT_DAILY, per_agent_daily_risk_limit cfg, get_agent_risk a day None (epoch (clock 2))),
       (TOTAL_DAILY, total_daily_risk_limit cfg, get_total_risk day None (epoch (clock 3)))])"

definition check_risk_budget :: "(nat \<Rightarrow> datetime) \<Rightarrow> string \<Rightarrow> string \<Rightarrow> string \<Rightarrow> enforcer \<Rightarrow> (budget_error + RiskCheckResult) \<times> enforcer" where
  "check_risk_budget clock a k action e =
     (let cfg = risk_budget (en_config e) in
      case en_risk e of
        None \<Rightarrow> (Inr \<lparr>rk_allowed = True, rk_units = 0\<rparr>, e)
      | Some t \<Rightarrow>
          if \<not> rb_enabled cfg then (Inr \<lparr>rk_allowed = True, rk_units = 0\<rparr>, e)
          else let score = (case en_scorer e of None \<Rightarrow> Inr 0 | Some f \<Rightarrow> rbind (f action) (\<lambda>s. Inr (risk_units s))) in
               case score of
                 Inl _ \<Rightarrow> (Inr \<lparr>rk_allowed = True, rk_units = 0\<rparr>, e)
               | Inr projected \<Rightarrow>
                   (case run_risk_checks projected (risk_checks cfg clock a k) t of
                      (Inl (BudgetSignal x), t') \<Rightarrow> (Inl x, e\<lparr>en_risk := Some t'\<rparr>)
                    | (_, t') \<Rightarrow> (Inr \<lparr>rk_allowed = True, rk_units = projected\<rparr>, e\<lparr>en_risk := Some t'\<rparr>)))"

definition record_risk :: "datetime \<Rightarrow> string \<Rightarrow> string \<Rightarrow> string \<Rightarrow> enforcer \<Rightarrow> RiskRecord option \<times> enforcer" where
  "record_risk now a k action e =
     (case (en_risk e, en_scorer e) of
        (Some t, Some f) \<Rightarrow>
          if \<not> rb_enabled (risk_budget (en_config e)) then (None, e)
          else (case f action of
                  Inl _ \<Rightarrow> (None, e)
                | Inr s \<Rightarrow>
                    (case make_risk_record a k action s (epoch now) of
                       None \<Rightarrow> (None, e)
                     | Some r \<Rightarrow> (Some r, e\<lparr>en_risk := Some (risk_record_add r t)\<rparr>)))
      | _ \<Rightarrow> (None, e))"

subsection \<open>Pre-flight over the history of costs\<close>

lemma query_step: "snd (query view f now s) = s \<or> snd (query view f now s) = cost_step (QueryCosts now) s"
  by (simp add: query_def case_prod_beta Let_def split: sum.split)

lemma query_state: "since f = None \<or> until f = None \<Longrightarrow> snd (query view f now s) = cost_step (QueryCosts now) s"
  by (auto simp: query_def validate_cost_range_def case_prod_beta Let_def split: option.splits)

lemma costs_kept_append:
  "costs_kept t (ps @ qs) s \<longleftrightarrow> costs_kept t ps s \<and> costs_kept t qs (cost_run ps s)"
  by (induction ps arbitrary: s) (simp_all add: costs_kept_def cost_run_def)

lemma spent_this_period_exact:
  assumes "new_cost_tracker (Some cfg) d n repo = Some s" and "en_costs e = cost_run ps s" and "en_config e = cfg"
    and "billing_period_start (reset_day cfg) now = Some start" and "costs_kept (epoch start) (ps @ [QueryCosts (epoch snap)]) s"
  shows "spent_this_period now snap e =
    (Inr (round_budget (sum_list (List.map cr_cost (filter (\<lambda>r. epoch start \<le> cr_timestamp r) (billed cfg ps))))),
     e\<lparr>en_costs := cost_run (ps @ [QueryCosts (epoch snap)]) s\<rparr>)"
proof -
  have "fst (get_total_cost (Some (epoch start)) None (epoch snap) (en_costs e)) =
      Inr (round_budget (sum_list (List.map cr_cost (filter (\<lambda>r. epoch start \<le> cr_timestamp r) (billed cfg ps)))))"
    using cost_view_since [OF _ _ assms(5), of cfg] new_cost_tracker_fields [OF assms(1)] assms(2)
    by (simp add: get_total_cost_def all_records_def matches_since sum_cost_def)
  moreover have "snd (get_total_cost (Some (epoch start)) None (epoch snap) (en_costs e)) = cost_run (ps @ [QueryCosts (epoch snap)]) s"
    using assms(2) by (simp add: get_total_cost_def query_state all_records_def run_snoc)
  ultimately show ?thesis using assms(3,4) by (simp add: spent_this_period_def case_prod_beta Let_def)
qed


definition month_spend :: "BudgetConfig \<Rightarrow> datetime \<Rightarrow> cost_op list \<Rightarrow> rat" where
  "month_spend cfg start ps = round_budget (sum_list (List.map cr_cost (filter (\<lambda>r. epoch start \<le> cr_timestamp r) (billed cfg ps))))"

definition day_spend :: "BudgetConfig \<Rightarrow> string \<Rightarrow> datetime \<Rightarrow> cost_op list \<Rightarrow> rat" where
  "day_spend cfg a now ps =
     round_budget (sum_list (List.map cr_cost (filter (\<lambda>r. cr_agent_id r = a \<and> epoch (daily_period_start now) \<le> cr_timestamp r) (billed cfg ps))))"

lemma billed_query [simp]: "billed cfg (ps @ [QueryCosts t]) = billed cfg ps"
  by (simp add: billed_def List.map_filter_def)







subsection \<open>Project budgets over the whole life of a project\<close>

text \<open>The durable totals answer with the whole history of a project.\<close>

definition project_spend :: "BudgetConfig \<Rightarrow> string \<Rightarrow> cost_op list \<Rightarrow> rat" where
  "project_spend cfg pid ps = round_budget (sum_list (List.map cr_cost (durable cfg pid ps)))"

lemma durable_project_cost:
  assumes "new_cost_tracker (Some cfg) d n (Some []) = Some s" and "list_all op_valid ps" and "ct_repo (cost_run ps s) = Some rows" and "not_blank pid"
  shows "get_project_cost_for pid (Some (False, rows)) now e = (Some (project_spend cfg pid ps), e)"
proof -
  have "\<exists>rows'. ct_repo (cost_run ps s) = Some rows' \<and> row_totals ([] @ durable cfg pid ps) (dget rows' pid)"
    by (rule cost_run_rows [where rows = "[]", OF _ _ assms(2)]) (use new_cost_tracker_fields [OF assms(1)] in \<open>simp_all add: row_totals_def\<close>)
  then have tot: "row_totals (durable cfg pid ps) (dget rows pid)" using assms(3) by simp
  have "list_all valid_cost_record (durable cfg pid ps)" using assms(2)
  proof (induction ps)
    case (Cons p ps)
    then show ?case by (cases p) auto
  qed simp
  then have "0 \<le> sum_list (List.map cr_cost (durable cfg pid ps))" "0 \<le> sum_list (List.map cr_input_tokens (durable cfg pid ps))"
    "0 \<le> sum_list (List.map cr_output_tokens (durable cfg pid ps))"
    by (auto simp: list_all_iff valid_cost_record_def intro!: sum_list_nonneg)
  then have "get_aggregate False pid rows = Inr (dget rows pid)" "(case dget rows pid of None \<Rightarrow> 0 | Some a \<Rightarrow> pa_total_cost a) = sum_list (List.map cr_cost (durable cfg pid ps))"
    using tot assms(4) by (auto simp: get_aggregate_def row_totals_def valid_aggregate_def split: option.splits)
  then show ?thesis by (simp add: get_project_cost_for_def project_spend_def Let_def)
qed

text \<open>
  C33: a project's budget is enforced over the whole life of the project. With the durable totals, after any history
  of valid records and whatever was pruned in between, the check raises exactly when the budget is positive and the
  billed costs of the project that reached the database, rounded, have reached it; and it never touches the tracker.
\<close>

theorem project_budget_lifetime:
  assumes "new_cost_tracker (Some cfg) d n (Some []) = Some s" and "list_all op_valid ps" and "ct_repo (cost_run ps s) = Some rows" and "not_blank pid"
  shows "check_project_budget pid budget (Some (False, rows)) now e =
    (let spent = round_budget (sum_list (List.map cr_cost (durable cfg pid ps))) in
     (if budget > 0 \<and> spent \<ge> budget then Inl (ProjectBudgetExhausted pid budget spent) else Inr ()), e)"
  using durable_project_cost [OF assms] by (simp add: check_project_budget_def project_spend_def Let_def)

subsection \<open>The in-flight checker\<close>












subsection \<open>Where the enforcement is open\<close>

lemma spent_after_pruning:
  assumes "new_cost_tracker (Some cfg) d n repo = Some s" and "en_costs e = cost_run (ps @ [PruneCosts p]) s" and "en_config e = cfg"
    and "billing_period_start (reset_day cfg) now = Some start" and "epoch start \<le> cost_cutoff p"
    and "costs_kept (cost_cutoff p) (ps @ [PruneCosts p, QueryCosts (epoch snap)]) s"
  shows "fst (spent_this_period now snap e) =
    Inr (round_budget (sum_list (List.map cr_cost (filter (\<lambda>r. cost_cutoff p \<le> cr_timestamp r) (billed cfg ps)))))"
proof -
  let ?run = "\<lambda>qs. ct_records (cost_run qs s)" and ?since = "\<lambda>r. cost_cutoff p \<le> cr_timestamp r"
  have s: "ct_records s = []" "ct_config s = Some cfg" using new_cost_tracker_fields [OF assms(1)] by simp_all
  have kept: "filter ?since (?run (ps @ [PruneCosts p, QueryCosts (epoch snap)])) = filter ?since (billed cfg ps)"
    using costs.run_since [of "cost_cutoff p" "ps @ [PruneCosts p, QueryCosts (epoch snap)]" s] assms(6) s
      added_billed [OF s(2), of "ps @ [PruneCosts p, QueryCosts (epoch snap)]"]
    by (simp add: costs_kept_def cost_run_def billed_def List.map_filter_def)
  have late: "\<forall>r \<in> set (?run (ps @ [PruneCosts p])). ?since r"
    by (simp add: cost_run_def prune_expired_def prune_before_def Let_def)
  have sub: "set (?run (ps @ [PruneCosts p, QueryCosts (epoch snap)])) \<subseteq> set (?run (ps @ [PruneCosts p]))"
    by (auto simp: cost_run_def snapshot_def prune_before_def Let_def)
  have "?run (ps @ [PruneCosts p, QueryCosts (epoch snap)]) = filter ?since (billed cfg ps)"
    using kept late sub by (metis filter_True subsetD)
  then have snap: "fst (snapshot (epoch snap) (en_costs e)) = filter ?since (billed cfg ps)"
    unfolding assms(2) by (simp add: cost_run_def snapshot_def Let_def)
  have "filter (\<lambda>r. epoch start \<le> cr_timestamp r) (filter ?since (billed cfg ps)) = filter ?since (billed cfg ps)"
    unfolding filter_filter by (rule filter_cong [OF refl]) (use assms(5) in auto)
  moreover have "aggregate (filter ?since (billed cfg ps)) = Inr \<lparr>agg_cost = sum_cost (filter ?since (billed cfg ps)),
      agg_currency = (if filter ?since (billed cfg ps) = [] then None else Some (budget_currency cfg)),
      agg_input_tokens = sum_list (List.map cr_input_tokens (filter ?since (billed cfg ps))),
      agg_output_tokens = sum_list (List.map cr_output_tokens (filter ?since (billed cfg ps))), agg_record_count = length (filter ?since (billed cfg ps))\<rparr>"
    by (rule aggregate_one_currency) (auto intro: billed_currency)
  ultimately have "fst (get_total_cost (Some (epoch start)) None (epoch snap) (en_costs e)) = Inr (sum_cost (filter ?since (billed cfg ps)))"
    using snap by (simp add: get_total_cost_def query_def validate_cost_range_def all_records_def filter_cost_records_def matches_since cost_view_def
        case_prod_beta)
  then show ?thesis using assms(3,4) by (simp add: spent_this_period_def case_prod_beta Let_def sum_cost_def)
qed

text \<open>
  C37: pruning makes the monthly check forget. After any history of valid records and a pruning whose cutoff lies inside
  the billing period, as long as no other pruning went further, the monthly check counts only what was billed from the
  cutoff on: it refuses exactly when that has reached the hard stop, so a month that was exhausted before the cutoff
  is open again. What it counts is never more than what the period has cost.
\<close>

theorem pruning_reopens_month:
  assumes "new_cost_tracker (Some (en_config e)) d n repo = Some s" and "en_costs e = cost_run (ps @ [PruneCosts p]) s" and "list_all op_valid ps"
    and "billing_period_start (reset_day (en_config e)) now = Some start" and "epoch start \<le> cost_cutoff p"
    and "costs_kept (cost_cutoff p) (ps @ [PruneCosts p, QueryCosts (epoch snap)]) s"
  shows "let cfg = en_config e;
      recent = round_budget (sum_list (List.map cr_cost (filter (\<lambda>r. cost_cutoff p \<le> cr_timestamp r) (billed cfg ps)))) in
    recent \<le> month_spend cfg start ps \<and>
    fst (check_monthly_hard_stop now snap e) =
      (if recent \<ge> hard_stop_limit cfg then Inl (BudgetSignal (BudgetExhausted recent (hard_stop_limit cfg))) else Inr ())"
proof -
  note spent = spent_after_pruning [OF assms(1,2) refl assms(4-6)]
  have valid: "list_all valid_cost_record (billed (en_config e) ps)" using assms(3)
  proof (induction ps)
    case (Cons q ps)
    then show ?case by (cases q) auto
  qed simp
  have "sum_list (List.map cr_cost (filter (\<lambda>r. cost_cutoff p \<le> cr_timestamp r) rs)) \<le> sum_list (List.map cr_cost (filter (\<lambda>r. epoch start \<le> cr_timestamp r) rs))"
    if "list_all valid_cost_record rs" for rs using that
  proof (induction rs)
    case (Cons r rs)
    then have "0 \<le> cr_cost r" by (simp add: valid_cost_record_def)
    then show ?case using Cons assms(5) by auto
  qed simp
  then show ?thesis using spent round_budget_mono valid
    by (cases "spent_this_period now snap e") (auto simp: check_monthly_hard_stop_def month_spend_def Let_def)
qed

definition march :: "int \<Rightarrow> datetime" where
  "march day = DateTime 2026 3 day 12 0 0"

definition no_quotas :: tracker where
  "no_quotas = \<lparr>subscriptions = [], usage_of = []\<rparr>"

definition enforcing :: "BudgetConfig \<Rightarrow> cost_tracker \<Rightarrow> enforcer" where
  "enforcing cfg ct = \<lparr>en_config = cfg, en_costs = ct, en_resolver = None, en_quota = None, en_degradation = None, en_risk = None,
     en_scorer = None, en_notes = []\<rparr>"

lemma enforcing_fields [simp]: "en_config (enforcing cfg ct) = cfg" "en_costs (enforcing cfg ct) = ct"
  by (simp_all add: enforcing_def)

lemma plain_budget_fields: "total_monthly plain_budget = 100" "per_agent_daily_limit plain_budget = 10" "reset_day plain_budget = 1"
  by (simp_all add: plain_budget_def)

definition spent_on :: "int \<Rightarrow> rat \<Rightarrow> cost_op" where
  "spent_on day c = RecordCost False (epoch (march day)) (call_cost ''anna'' ''USD'' c (epoch (march day)))"

text \<open>
  With a monthly budget of 0 the daily limit is still enforced, and the records of a tracker without a budget
  configuration can be in two currencies, after which every pre-flight check allows execution whatever was spent.
\<close>

theorem limits_without_monthly_budget:
  "fst (check_can_execute (\<lambda>_. march 20) no_quotas ''anna'' None 0
       (enforcing (plain_budget\<lparr>total_monthly := 0\<rparr>) (cost_run [spent_on 20 10] (plain_tracker (Some plain_budget)))))
     = Inl (DailyLimitExceeded ''anna'' 10 10) \<and>
   fst (check_can_execute (\<lambda>_. march 20) no_quotas ''anna'' None 0
       (enforcing plain_budget (cost_run [spent_on 20 1000, RecordCost False 0 ((call_cost ''bert'' ''EUR'' 1 (epoch (march 20)))\<lparr>cr_project_id := None\<rparr>)]
          (plain_tracker None))))
     = Inr \<lparr>degradation = None\<rparr>"
  by code_simp

subsection \<open>Witnesses of the enforcer\<close>

definition some_history :: "cost_op list" where
  "some_history = [spent_on 2 50, spent_on 20 4]"


lemma history_spend:
  "month_spend plain_budget (DateTime 2026 3 1 0 0 0) some_history = 54" "day_spend plain_budget ''anna'' (march 20) some_history = 4"
  "hard_stop_limit plain_budget = 100" "billing_period_start 1 (march 20) = Some (DateTime 2026 3 1 0 0 0)"
  by code_simp+


theorem pruning_reopens_month_witness:
  "fst (check_monthly_hard_stop (march 20) (march 20)
      (enforcing plain_budget (cost_run [spent_on 2 100, spent_on 20 4] (plain_tracker (Some plain_budget))))) = Inl (BudgetSignal (BudgetExhausted 104 100)) \<and>
   fst (check_monthly_hard_stop (march 20) (march 20)
      (enforcing plain_budget (cost_run ([spent_on 2 100, spent_on 20 4] @ [PruneCosts (epoch (march 20))]) (plain_tracker (Some plain_budget))))) = Inr ()"
proof -
  let ?e = "enforcing plain_budget (cost_run ([spent_on 2 100, spent_on 20 4] @ [PruneCosts (epoch (march 20))]) (plain_tracker (Some plain_budget)))"
  have "not_blank ''anna'' \<and> valid_currency ''USD'' \<and> not_blank ''p1''" by code_simp
  then have "list_all op_valid [spent_on 2 100, spent_on 20 4]" by (simp add: spent_on_def call_cost_valid)
  moreover have "epoch (DateTime 2026 3 1 0 0 0) \<le> cost_cutoff (epoch (march 20))" by code_simp
  moreover have "costs_kept (cost_cutoff (epoch (march 20))) ([spent_on 2 100, spent_on 20 4] @ [PruneCosts (epoch (march 20)), QueryCosts (epoch (march 20))])
      (plain_tracker (Some plain_budget))" by code_simp
  moreover have "round_budget (sum_list (List.map cr_cost (filter (\<lambda>r. cost_cutoff (epoch (march 20)) \<le> cr_timestamp r) (billed plain_budget [spent_on 2 100, spent_on 20 4])))) = 4"
    by code_simp
  ultimately have "fst (check_monthly_hard_stop (march 20) (march 20) ?e) = Inr ()"
    using pruning_reopens_month [of ?e "Some (\<lambda>a. Inr (Some ''eng''))" 2 "Some []" "plain_tracker (Some plain_budget)" "[spent_on 2 100, spent_on 20 4]"
        "epoch (march 20)" "march 20" "DateTime 2026 3 1 0 0 0" "march 20"] plain_tracker_new history_spend(3,4)
    by (simp add: plain_budget_fields Let_def)
  moreover have "fst (check_monthly_hard_stop (march 20) (march 20)
      (enforcing plain_budget (cost_run [spent_on 2 100, spent_on 20 4] (plain_tracker (Some plain_budget))))) = Inl (BudgetSignal (BudgetExhausted 104 100))"
    by code_simp
  ultimately show ?thesis by simp
qed



lemma some_history_valid: "list_all op_valid some_history"
proof -
  have "not_blank ''anna'' \<and> valid_currency ''USD'' \<and> not_blank ''p1''" by code_simp
  then show ?thesis by (simp add: some_history_def spent_on_def call_cost_valid)
qed



theorem project_budget_lifetime_witness:
  "\<exists>rows. check_project_budget ''p1'' 54 (Some (False, rows)) (march 20) (enforcing plain_budget (plain_tracker (Some plain_budget))) =
     (Inl (ProjectBudgetExhausted ''p1'' 54 54), enforcing plain_budget (plain_tracker (Some plain_budget)))"
proof -
  have "ct_repo (cost_run some_history (plain_tracker (Some plain_budget))) \<noteq> None" by code_simp
  then obtain rows where "ct_repo (cost_run some_history (plain_tracker (Some plain_budget))) = Some rows" by auto
  moreover have "not_blank ''p1''" by code_simp
  moreover note some_history_valid
  moreover have "round_budget (sum_list (List.map cr_cost (durable plain_budget ''p1'' some_history))) = 54" by code_simp
  ultimately show ?thesis
    using project_budget_lifetime [OF plain_tracker_new, of some_history plain_budget rows "''p1''" 54 "march 20"] by (auto simp: Let_def)
qed

subsection \<open>The budget of risk units\<close>

datatype risk_op = AddRisk RiskRecord | PruneRisks time | QueryRisks time

primrec risk_step :: "risk_op \<Rightarrow> risk_tracker \<Rightarrow> risk_tracker" where
  "risk_step (AddRisk r) t = risk_record_add r t"
| "risk_step (PruneRisks now) t = snd (risk_prune_expired now t)"
| "risk_step (QueryRisks now) t = snd (risk_snapshot now t)"

primrec risk_added :: "risk_op \<Rightarrow> risk_tracker \<Rightarrow> RiskRecord list" where
  "risk_added (AddRisk r) t = [r]"
| "risk_added (PruneRisks now) t = []"
| "risk_added (QueryRisks now) t = []"

primrec risk_drops :: "risk_op \<Rightarrow> risk_tracker \<Rightarrow> bool" where
  "risk_drops (AddRisk r) t \<longleftrightarrow> False"
| "risk_drops (PruneRisks now) t \<longleftrightarrow> True"
| "risk_drops (QueryRisks now) t \<longleftrightarrow> int (length (rt_records t)) > rt_prune_threshold t"

primrec risk_op_cutoff :: "risk_op \<Rightarrow> time" where
  "risk_op_cutoff (AddRisk r) = rr_timestamp r"
| "risk_op_cutoff (PruneRisks now) = risk_cutoff now"
| "risk_op_cutoff (QueryRisks now) = risk_cutoff now"

interpretation risks: retained_log rt_records rr_timestamp risk_op_cutoff risk_step risk_added risk_drops
proof unfold_locales
  fix p t
  show "\<not> risk_drops p t \<Longrightarrow> rt_records (risk_step p t) = rt_records t @ risk_added p t"
    by (cases p) (simp_all add: risk_record_add_def risk_snapshot_def Let_def)
  show "risk_drops p t \<Longrightarrow> risk_added p t = [] \<and> rt_records (risk_step p t) = filter (\<lambda>r. risk_op_cutoff p \<le> rr_timestamp r) (rt_records t)"
    by (cases p) (simp_all add: risk_prune_expired_def risk_snapshot_def risk_prune_before_def Let_def)
qed

definition recorded_risks :: "risk_op list \<Rightarrow> RiskRecord list" where
  "recorded_risks ps = List.map_filter (\<lambda>p. case p of AddRisk r \<Rightarrow> Some r | _ \<Rightarrow> None) ps"

definition risk_run :: "risk_op list \<Rightarrow> risk_tracker \<Rightarrow> risk_tracker" where
  "risk_run ps t = fold risk_step ps t"

text \<open>No pruning of the run has removed the risks recorded from \<open>d\<close> on.\<close>

definition risks_kept :: "time \<Rightarrow> risk_op list \<Rightarrow> risk_tracker \<Rightarrow> bool" where
  "risks_kept d ps t \<longleftrightarrow> log_kept risk_step risk_drops risk_op_cutoff d ps t"

lemma recorded_append [simp]: "recorded_risks (ps @ qs) = recorded_risks ps @ recorded_risks qs"
  "recorded_risks [] = []" "recorded_risks [QueryRisks now] = []" "recorded_risks [AddRisk r] = [r]"
  "recorded_risks (QueryRisks now # ps) = recorded_risks ps"
  by (simp_all add: recorded_risks_def List.map_filter_def)

lemma log_added_risks: "log_added risk_step risk_added ps t = recorded_risks ps"
proof (induction ps arbitrary: t)
  case (Cons p ps)
  then show ?case by (cases p) (simp_all add: recorded_risks_def List.map_filter_def)
qed simp

lemma log_kept_append: "log_kept st dr c d (ps @ qs) t \<longleftrightarrow> log_kept st dr c d ps t \<and> log_kept st dr c d qs (fold st ps t)"
  by (induction ps arbitrary: t) simp_all

text \<open>The daily queries answer over everything recorded, for a tracker that has kept the day.\<close>

lemma get_risk_exact:
  assumes "rt_records t = []" and "risks_kept d (ps @ [QueryRisks now]) t" and "rf_start f = Some d" and "rf_end f = None"
  shows "get_risk f now (risk_run ps t) = (Inr (sum_risk_units (filter (risk_matches f) (recorded_risks ps))), risk_run (ps @ [QueryRisks now]) t)"
proof -
  let ?s = "risk_run (ps @ [QueryRisks now]) t"
  have s: "snd (risk_snapshot now (risk_run ps t)) = ?s" "fst (risk_snapshot now (risk_run ps t)) = rt_records ?s"
    by (simp_all add: risk_run_def risk_snapshot_def Let_def)
  have f: "filter (risk_matches f) rs = filter (risk_matches f) (filter (\<lambda>r. d \<le> rr_timestamp r) rs)" for rs
    using assms(3) by (auto simp: risk_matches_def intro!: filter_cong)
  have "filter (\<lambda>r. d \<le> rr_timestamp r) (rt_records ?s) = filter (\<lambda>r. d \<le> rr_timestamp r) (recorded_risks ps)"
    using risks.run_since [of d "ps @ [QueryRisks now]" t] assms(1,2) by (simp add: risk_run_def risks_kept_def log_added_risks)
  then have "filter (risk_matches f) (rt_records ?s) = filter (risk_matches f) (recorded_risks ps)" by (metis f)
  then show ?thesis using assms(3,4) s
    by (simp add: get_risk_def get_risk_records_def validate_cost_range_def case_prod_beta)
qed

lemma get_task_risk_state: "snd (get_task_risk k None None now t) = risk_step (QueryRisks now) t"
  by (simp add: get_task_risk_def get_risk_def get_risk_records_def validate_cost_range_def case_prod_beta)

lemma get_task_risk_ok: "\<exists>c. fst (get_task_risk k None None now t) = Inr c"
  by (simp add: get_task_risk_def get_risk_def get_risk_records_def validate_cost_range_def case_prod_beta)

definition day_risk :: "string option \<Rightarrow> time \<Rightarrow> RiskRecord list \<Rightarrow> rat" where
  "day_risk a d rs = sum_risk_units (filter (\<lambda>r. d \<le> rr_timestamp r \<and> (case a of None \<Rightarrow> True | Some x \<Rightarrow> rr_agent_id r = x)) rs)"

lemma day_risk_matches:
  "sum_risk_units (filter (risk_matches \<lparr>rf_agent = a, rf_task = None, rf_action = None, rf_start = Some d, rf_end = None\<rparr>) rs) = day_risk a d rs"
  unfolding day_risk_def by (rule arg_cong [where f = sum_risk_units]) (auto simp: risk_matches_def intro!: filter_cong split: option.splits)

lemma enforce_risk_limit_ok: "enforce_risk_limit s b c p = Inr u \<longleftrightarrow> (0 < b \<longrightarrow> c + p < b)"
  by (auto simp: enforce_risk_limit_def)

text \<open>When the checks pass, the daily limits hold with the projected units added.\<close>

lemma risk_checks_pass:
  assumes "rt_records t = []" and "risks_kept (epoch (daily_period_start (clock 0)))
      (ps @ [QueryRisks (epoch (clock 1)), QueryRisks (epoch (clock 2)), QueryRisks (epoch (clock 3))]) t"
    and "run_risk_checks projected (risk_checks cfg clock a k) (risk_run ps t) = (r, t')" and "\<And>x. r \<noteq> Inl (BudgetSignal x)"
  shows "per_agent_daily_risk_limit cfg > 0 \<longrightarrow>
      day_risk (Some a) (epoch (daily_period_start (clock 0))) (recorded_risks ps) + projected < per_agent_daily_risk_limit cfg"
    and "total_daily_risk_limit cfg > 0 \<longrightarrow>
      day_risk None (epoch (daily_period_start (clock 0))) (recorded_risks ps) + projected < total_daily_risk_limit cfg"
    and "t' = risk_run (ps @ [QueryRisks (epoch (clock 1)), QueryRisks (epoch (clock 2)), QueryRisks (epoch (clock 3))]) t"
proof -
  let ?d = "epoch (daily_period_start (clock 0))" and ?q = "\<lambda>i. QueryRisks (epoch (clock i))"
  have kept: "risks_kept ?d (ps @ [?q 1, ?q 2]) t"
    using assms(2) by (simp add: risks_kept_def log_kept_append)
  obtain c where c: "get_task_risk k None None (epoch (clock 1)) (risk_run ps t) = (Inr c, risk_run (ps @ [?q 1]) t)"
    using get_task_risk_ok [of k "epoch (clock 1)" "risk_run ps t"] get_task_risk_state [of k "epoch (clock 1)" "risk_run ps t"]
    by (cases "get_task_risk k None None (epoch (clock 1)) (risk_run ps t)") (auto simp: risk_run_def)
  have agent: "get_agent_risk a (Some ?d) None (epoch (clock 2)) (risk_run (ps @ [?q 1]) t) =
      (Inr (day_risk (Some a) ?d (recorded_risks ps)), risk_run (ps @ [?q 1, ?q 2]) t)"
    using get_risk_exact [OF assms(1), of ?d "ps @ [?q 1]" "epoch (clock 2)"] kept
    by (simp add: get_agent_risk_def day_risk_matches)
  have all: "get_total_risk (Some ?d) None (epoch (clock 3)) (risk_run (ps @ [?q 1, ?q 2]) t) =
      (Inr (day_risk None ?d (recorded_risks ps)), risk_run (ps @ [?q 1, ?q 2, ?q 3]) t)"
    using get_risk_exact [OF assms(1), of ?d "ps @ [?q 1, ?q 2]" "epoch (clock 3)"] assms(2)
    by (simp add: get_total_risk_def day_risk_matches)
  have "(r, t') = (case enforce_risk_limit PER_TASK (per_task_risk_limit cfg) c projected of
      Inl x \<Rightarrow> (Inl (BudgetSignal x), risk_run (ps @ [?q 1]) t)
    | Inr _ \<Rightarrow> (case enforce_risk_limit PER_AGENT_DAILY (per_agent_daily_risk_limit cfg) (day_risk (Some a) ?d (recorded_risks ps)) projected of
        Inl x \<Rightarrow> (Inl (BudgetSignal x), risk_run (ps @ [?q 1, ?q 2]) t)
      | Inr _ \<Rightarrow> (case enforce_risk_limit TOTAL_DAILY (total_daily_risk_limit cfg) (day_risk None ?d (recorded_risks ps)) projected of
          Inl x \<Rightarrow> (Inl (BudgetSignal x), risk_run (ps @ [?q 1, ?q 2, ?q 3]) t)
        | Inr _ \<Rightarrow> (Inr (), risk_run (ps @ [?q 1, ?q 2, ?q 3]) t))))"
    using assms(3) [symmetric] by (simp only: risk_checks_def Let_def run_risk_checks.simps c agent all prod.case sum.case)
  then show "per_agent_daily_risk_limit cfg > 0 \<longrightarrow> day_risk (Some a) ?d (recorded_risks ps) + projected < per_agent_daily_risk_limit cfg"
    "total_daily_risk_limit cfg > 0 \<longrightarrow> day_risk None ?d (recorded_risks ps) + projected < total_daily_risk_limit cfg"
    "t' = risk_run (ps @ [?q 1, ?q 2, ?q 3]) t"
    using assms(4) by (auto simp: enforce_risk_limit_ok split: sum.splits)
qed

lemma day_risk_append: "day_risk a d (rs @ qs) = day_risk a d rs + day_risk a d qs"
  by (simp add: day_risk_def sum_risk_units_def)

lemma day_risk_snoc:
  "0 \<le> rr_units r \<Longrightarrow> day_risk a d (rs @ [r]) \<le> day_risk a d rs + rr_units r"
  by (simp add: day_risk_def sum_risk_units_def)

lemma check_risk_budget_pass:
  assumes "check_risk_budget clock a k action e = (Inr res, e1)" and "en_risk e = Some t" and "rb_enabled (risk_budget (en_config e))"
    and "en_scorer e = Some f" and "f action = Inr sc"
  shows "\<exists>r t'. run_risk_checks (risk_units sc) (risk_checks (risk_budget (en_config e)) clock a k) t = (r, t') \<and>
    (\<forall>x. r \<noteq> Inl (BudgetSignal x)) \<and> e1 = e\<lparr>en_risk := Some t'\<rparr> \<and> rk_units res = risk_units sc"
  using assms
  by (cases "run_risk_checks (risk_units sc) (risk_checks (risk_budget (en_config e)) clock a k) t")
    (auto simp: check_risk_budget_def Let_def split: sum.splits preflight_exception.splits)

text \<open>
  C35: actions that ask first keep the risk units of a day below the limits, up to what others record in between.
  Whatever was recorded and pruned before, as long as the day's records are kept when the check runs, take an action that
  passes the check and is then recorded, while any other records, queries and prunings happen between the two: the
  risk units of the day, over the company and for the agent, stay below their limits plus the units that were recorded
  in between. When nothing is recorded in between they stay below the limits.
\<close>

theorem risk_budget_never_used_up:
  assumes "new_risk_tracker n = Some t" and "en_risk e = Some (risk_run ps t)" and "rb_enabled (risk_budget (en_config e))"
    and "en_scorer e = Some f" and "f action = Inr sc"
    and "risks_kept (epoch (daily_period_start (clock 0)))
      (ps @ [QueryRisks (epoch (clock 1)), QueryRisks (epoch (clock 2)), QueryRisks (epoch (clock 3))]) t"
    and "check_risk_budget clock a k action e = (Inr res, e1)" and "en_risk e1 = Some t1"
    and "record_risk now a k action (e1\<lparr>en_risk := Some (risk_run qs t1)\<rparr>) = (Some r, e2)"
  shows "\<exists>ops. en_risk e2 = Some (risk_run (ps @ ops @ qs @ [AddRisk r]) t) \<and> recorded_risks ops = [] \<and>
    (let cfg = risk_budget (en_config e); day = epoch (daily_period_start (clock 0)); all = recorded_risks ps @ recorded_risks qs @ [r] in
     (total_daily_risk_limit cfg > 0 \<longrightarrow> day_risk None day all < total_daily_risk_limit cfg + day_risk None day (recorded_risks qs)) \<and>
     (per_agent_daily_risk_limit cfg > 0 \<longrightarrow>
       day_risk (Some a) day all < per_agent_daily_risk_limit cfg + day_risk (Some a) day (recorded_risks qs)))"
proof -
  have t: "rt_records t = []" using assms(1) by (auto simp: new_risk_tracker_def split: if_splits)
  obtain x t' where c: "run_risk_checks (risk_units sc) (risk_checks (risk_budget (en_config e)) clock a k) (risk_run ps t) = (x, t')"
      "\<And>y. x \<noteq> Inl (BudgetSignal y)" "e1 = e\<lparr>en_risk := Some t'\<rparr>"
    using check_risk_budget_pass [OF assms(7,2,3,4,5)] by blast
  have t1: "t1 = t'" using assms(8) c(3) by simp
  note pass = risk_checks_pass [OF t assms(6) c(1,2)]
  have r: "rr_units r = risk_units sc" "0 \<le> rr_units r" "en_risk e2 = Some (risk_record_add r (risk_run qs t'))"
    using assms(3,4,5,9) c(3) t1 by (auto simp: record_risk_def make_risk_record_def split: option.splits if_splits)
  let ?ops = "[QueryRisks (epoch (clock 1)), QueryRisks (epoch (clock 2)), QueryRisks (epoch (clock 3))]"
  have "en_risk e2 = Some (risk_run (ps @ ?ops @ qs @ [AddRisk r]) t)" using r(3) pass(3) by (simp add: risk_run_def)
  moreover have "day_risk b d (recorded_risks ps @ recorded_risks qs @ [r]) \<le>
      day_risk b d (recorded_risks ps) + risk_units sc + day_risk b d (recorded_risks qs)" for b d
    using day_risk_snoc [OF r(2), of b d "[]"] by (simp add: r(1) day_risk_append day_risk_def [of b d "[]"] sum_risk_units_def)
  note le_less_trans [OF this]
  ultimately show ?thesis using pass(1,2) by (intro exI [of _ ?ops]) (simp add: Let_def)
qed

definition risky :: enforcer where
  "risky = (enforcing plain_budget (plain_tracker (Some plain_budget)))
     \<lparr>en_risk := Some \<lparr>rt_records = [], rt_prune_threshold = 100000\<rparr>, en_scorer := Some (\<lambda>a. Inr (default_scorer [] None a))\<rparr>"

definition pushed :: RiskRecord where
  "pushed = \<lparr>rr_agent_id = ''anna'', rr_task_id = ''t1'', rr_action_type = ''vcs:push'', rr_score = HIGH_SCORE, rr_units = risk_units HIGH_SCORE,
     rr_timestamp = epoch (march 20)\<rparr>"

theorem risk_budget_never_used_up_witness:
  "day_risk None (epoch (daily_period_start (march 20))) [pushed, pushed] < 100 + day_risk None (epoch (daily_period_start (march 20))) [pushed]"
proof -
  let ?t = "\<lparr>rt_records = [], rt_prune_threshold = 100000\<rparr> :: risk_tracker"
  let ?check = "check_risk_budget (\<lambda>_. march 20) ''anna'' ''t1'' ''vcs:push'' risky" and ?qs = "[AddRisk pushed]"
  let ?e1 = "snd ?check" and ?t1 = "the (en_risk (snd (check_risk_budget (\<lambda>_. march 20) ''anna'' ''t1'' ''vcs:push'' risky)))"
  let ?rec = "record_risk (march 20) ''anna'' ''t1'' ''vcs:push'' (?e1\<lparr>en_risk := Some (risk_run ?qs ?t1)\<rparr>)"
  have "fst ?check = Inr \<lparr>rk_allowed = True, rk_units = 61 / 100\<rparr>" "fst ?rec = Some pushed" by code_simp+
  then have run: "?check = (Inr \<lparr>rk_allowed = True, rk_units = 61 / 100\<rparr>, ?e1)" "?rec = (Some pushed, snd ?rec)"
    by (metis prod.collapse)+
  have "\<not> Option.is_none (en_risk ?e1)" by code_simp
  then have t1: "en_risk ?e1 = Some ?t1" by (simp add: Option.is_none_def)
  have "new_risk_tracker 100000 = Some ?t" "en_risk risky = Some (risk_run [] ?t)" "en_config risky = plain_budget"
    by (simp_all add: new_risk_tracker_def risky_def risk_run_def)
  moreover have "rb_enabled (risk_budget plain_budget)" "total_daily_risk_limit (risk_budget plain_budget) = 100"
    by (simp_all add: plain_budget_def)
  moreover have "risks_kept (epoch (daily_period_start (march 20)))
      ([] @ [QueryRisks (epoch (march 20)), QueryRisks (epoch (march 20)), QueryRisks (epoch (march 20))]) ?t" by code_simp
  moreover have "en_scorer risky = Some (\<lambda>a. Inr (default_scorer [] None a))" by (simp add: risky_def)
  ultimately show ?thesis
    using risk_budget_never_used_up [of 100000 ?t risky "[]" "\<lambda>a. Inr (default_scorer [] None a)" "''vcs:push''"
        "default_scorer [] None ''vcs:push''" "\<lambda>_. march 20" "''anna''" "''t1''" "\<lparr>rk_allowed = True, rk_units = 61 / 100\<rparr>" ?e1 ?t1 "march 20" ?qs pushed "snd ?rec",
        OF _ _ _ _ _ _ run(1) t1 run(2)]
    by (auto simp: Let_def)
qed

subsection \<open>Downgrades\<close>

lemma find_downgrade_target_in: "find_downgrade_target a m = Some b \<Longrightarrow> (a, b) \<in> set m"
  by (induction a m rule: find_downgrade_target.induct) (auto split: if_splits)

lemma valid_map_moves: "valid_budget_config cfg \<Longrightarrow> (s, t) \<in> set (downgrade_map (auto_downgrade cfg)) \<Longrightarrow> s \<noteq> t"
proof -
  have self: "self_downgrade m = None \<Longrightarrow> (s, t) \<in> set m \<Longrightarrow> s \<noteq> t" for m
    by (induction m rule: self_downgrade.induct) (auto split: if_splits)
  assume v: "valid_budget_config cfg" and st: "(s, t) \<in> set (downgrade_map (auto_downgrade cfg))"
  let ?m = "normalize_downgrade_map (downgrade_map (auto_downgrade cfg))"
  have "self_downgrade ?m = None \<and> downgrade_map (auto_downgrade cfg) = ?m"
    using v by (auto simp: valid_budget_config_def make_auto_downgrade_def Let_def split: if_splits option.splits dest!: arg_cong [where f = downgrade_map])
  then show "s \<noteq> t" using self st by metis
qed

lemma apply_downgrade_cases:
  assumes "resolver_ok ms r"
  shows "apply_downgrade ident r m = ident \<or>
    (\<exists>src tgt x. (src, tgt) \<in> set m \<and> x \<in> set ms \<and> tgt \<in> set (refs_of x) \<and>
       apply_downgrade ident r m = ident\<lparr>a_model := build_downgraded_model_config (a_model ident) x tgt\<rparr>)"
proof (cases "apply_downgrade ident r m = ident")
  case False
  then obtain src tgt y where d: "find_downgrade_target src m = Some tgt" "resolve_safe r tgt = Some y"
      "apply_downgrade ident r m = ident\<lparr>a_model := build_downgraded_model_config (a_model ident) y tgt\<rparr>"
    unfolding apply_downgrade_def by (simp split: option.split_asm)
  then show ?thesis using resolve_safe_sound [OF assms d(2)] find_downgrade_target_in [OF d(1)] by blast
qed simp

text \<open>
  C36: a model is only downgraded over the threshold, and only to what the map says. After any history whose billing
  period the tracker has kept, the agent keeps its model while the used share of the monthly budget is below the
  threshold or the feature is off; otherwise it may move to a registered model that the alias of another entry of the
  map names, with nothing but provider, model and tier changed and the tier set to that alias when it is one.
\<close>

theorem downgrade_over_threshold_only:
  assumes "new_cost_tracker (Some (en_config e)) d n repo = Some s" and "en_costs e = cost_run ps s" and "valid_budget_config (en_config e)"
    and "billing_period_start (reset_day (en_config e)) now = Some start"
    and "costs_kept (epoch start) (ps @ [QueryCosts (epoch snap)]) s"
    and "en_resolver e = Some r" and "resolver_ok ms r" and "fst (resolve_model now snap ident e) \<noteq> ident"
  shows "dg_enabled (auto_downgrade (en_config e)) \<and>
    of_int (dg_threshold (auto_downgrade (en_config e))) \<le> round_budget (month_spend (en_config e) start ps / total_monthly (en_config e) * 100) \<and>
    (\<exists>src tgt m. (src, tgt) \<in> set (downgrade_map (auto_downgrade (en_config e))) \<and> src \<noteq> tgt \<and> m \<in> set ms \<and> tgt \<in> set (refs_of m) \<and>
      fst (resolve_model now snap ident e) = ident\<lparr>a_model := (a_model ident)\<lparr>mc_provider := rm_provider m, mc_model_id := rm_model_id m,
        mc_model_tier := (if tgt \<in> set VALID_TIERS then Some tgt else mc_model_tier (a_model ident))\<rparr>\<rparr>)"
proof -
  have spent: "fst (spent_this_period now snap e) = Inr (month_spend (en_config e) start ps)"
    using spent_this_period_exact [OF assms(1,2) refl assms(4,5)] by (simp add: month_spend_def)
  let ?c = "en_config e"
  have on: "dg_enabled (auto_downgrade ?c)" "of_int (dg_threshold (auto_downgrade ?c)) \<le> round_budget (month_spend ?c start ps / total_monthly ?c * 100)"
    and down: "fst (resolve_model now snap ident e) = apply_downgrade ident r (downgrade_map (auto_downgrade ?c))"
    using assms(6,8) spent by (auto simp: resolve_model_def Let_def split: if_splits prod.splits sum.splits)
  then obtain src tgt m where m: "(src, tgt) \<in> set (downgrade_map (auto_downgrade ?c))" "m \<in> set ms" "tgt \<in> set (refs_of m)"
      "fst (resolve_model now snap ident e) = ident\<lparr>a_model := build_downgraded_model_config (a_model ident) m tgt\<rparr>"
    using apply_downgrade_cases [OF assms(7), of ident "downgrade_map (auto_downgrade ?c)"] assms(8) by auto
  have "build_downgraded_model_config (a_model ident) m tgt = (a_model ident)\<lparr>mc_provider := rm_provider m, mc_model_id := rm_model_id m,
      mc_model_tier := (if tgt \<in> set VALID_TIERS then Some tgt else mc_model_tier (a_model ident))\<rparr>"
    by (simp add: build_downgraded_model_config_def Let_def)
  then show ?thesis using on m valid_map_moves [OF assms(3) m(1)] by (intro conjI exI [of _ src] exI [of _ tgt] exI [of _ m]) simp_all
qed

definition thrifty :: BudgetConfig where
  "thrifty = plain_budget\<lparr>auto_downgrade := \<lparr>dg_enabled = True, dg_threshold = 50, downgrade_map = [(''large'', ''small'')]\<rparr>\<rparr>"

definition anna :: ModelledAgent where
  "anna = \<lparr>a_id = ''anna'', a_name = ''Anna'', a_role = ''dev'', a_level = SENIOR, a_primary = [], a_secondary = [], a_status = ACTIVE,
     a_model = \<lparr>mc_provider = ''acme'', mc_model_id = ''big-1'', mc_temperature = 7 / 10, mc_max_tokens = 4096, mc_fallback_model = None,
       mc_model_tier = Some ''large''\<rparr>\<rparr>"

definition thrifty_enforcer :: enforcer where
  "thrifty_enforcer = (enforcing thrifty (cost_run some_history (plain_tracker (Some thrifty))))
     \<lparr>en_resolver := Some (ro_resolver (sample_router ''smart'' smart_select))\<rparr>"

theorem downgrade_over_threshold_only_witness:
  "\<exists>m \<in> set (provider_models two_providers). ''small'' \<in> set (refs_of m) \<and>
     mc_model_id (a_model (fst (resolve_model (march 20) (march 20) anna thrifty_enforcer))) = rm_model_id m"
proof -
  have "fst (resolve_model (march 20) (march 20) anna thrifty_enforcer) \<noteq> anna" by code_simp
  moreover have "resolver_ok (provider_models two_providers) (ro_resolver (sample_router ''smart'' smart_select))"
    using new_router_ok(1) [OF _ sample_router_built] by (simp add: known_selector_def)
  moreover have "valid_budget_config thrifty" "billing_period_start (reset_day thrifty) (march 20) = Some (DateTime 2026 3 1 0 0 0)" by code_simp+
  moreover have "costs_kept (epoch (DateTime 2026 3 1 0 0 0)) (some_history @ [QueryCosts (epoch (march 20))]) (plain_tracker (Some thrifty))" by code_simp
  moreover have "en_config thrifty_enforcer = thrifty" "en_costs thrifty_enforcer = cost_run some_history (plain_tracker (Some thrifty))"
    "en_resolver thrifty_enforcer = Some (ro_resolver (sample_router ''smart'' smart_select))" by (simp_all add: thrifty_enforcer_def)
  moreover have "downgrade_map (auto_downgrade thrifty) = [(''large'', ''small'')]" by (simp add: thrifty_def)
  ultimately show ?thesis
    using downgrade_over_threshold_only [of thrifty_enforcer "Some (\<lambda>a. Inr (Some ''eng''))" 2 "Some []" "plain_tracker (Some thrifty)" some_history
        "march 20" "DateTime 2026 3 1 0 0 0" "march 20" "ro_resolver (sample_router ''smart'' smart_select)" "provider_models two_providers" anna]
      plain_tracker_new [of "Some thrifty"] by auto
qed

end
