(* ===== verification/Spec2Isabelle.thy ===== *)
theory Spec2Isabelle
  imports Task_Engine Task_Execution Delegation Decomposition Workflow Audit_Chain Condition_Eval Rate_Limits
    Quota Assignment Tool_Invoker Conflict_Service Budget_Enforcer
begin

text \<open>
  SynthOrg: a verified model of the coordination core.

  \<^bold>\<open>The program.\<close> SynthOrg (\<^verbatim>\<open>src/src/synthorg/\<close>) runs organisations of language-model agents.
  Work is a \<open>Task\<close> (\<^verbatim>\<open>core/task.py\<close>) that moves through a status lifecycle. A single-writer engine
  (\<^verbatim>\<open>engine/task_engine*.py\<close>) owns all tasks: requests are queued, applied one at a time to a SQLite
  repository (\<^verbatim>\<open>persistence/sqlite/repositories.py\<close>) under optimistic version checks, and answered.
  Agents are matched to tasks by scores (\<^verbatim>\<open>engine/assignment/\<close>, \<^verbatim>\<open>engine/routing/\<close>), execute them
  (\<^verbatim>\<open>engine/task_execution.py\<close>), delegate them down the company's hierarchy
  (\<^verbatim>\<open>communication/delegation/\<close>) under five loop prevention mechanisms
  (\<^verbatim>\<open>communication/loop_prevention/\<close>), split them into dependency graphs of subtasks
  (\<^verbatim>\<open>engine/decomposition/\<close>), and talk over a message bus (\<^verbatim>\<open>communication/bus/\<close>). Kanban boards and
  sprints (\<^verbatim>\<open>engine/workflow/\<close>) sit on top of the lifecycle. Every tool call passes permissions
  and a security gate (\<^verbatim>\<open>tools/invoker.py\<close>, \<^verbatim>\<open>security/\<close>), which may send it to a human through the
  approval store (\<^verbatim>\<open>api/approval_store.py\<close>); pending approvals time out by policy
  (\<^verbatim>\<open>security/timeout/\<close>). Provider quotas (\<^verbatim>\<open>budget/quota*.py\<close>) and API limits
  (\<^verbatim>\<open>api/rate_limits/\<close>) bound what is asked for. What a model call costs is recorded
  (\<^verbatim>\<open>budget/tracker.py\<close>), the budget enforcer stops agents, tasks and projects at their limits
  (\<^verbatim>\<open>budget/enforcer.py\<close>), a second budget counts the risk of actions (\<^verbatim>\<open>budget/risk_tracker.py\<close>), and a
  router picks the model of a call (\<^verbatim>\<open>providers/routing/\<close>). Security events are written to a signed hash chain
  (\<^verbatim>\<open>observability/audit_chain/\<close>). Disputes between agents are settled by authority, by a judge, by a human
  or by a mixture (\<^verbatim>\<open>communication/conflict_resolution/\<close>).

  \<^bold>\<open>Theories.\<close>

  \<^item> \<^verbatim>\<open>Prelude\<close>: dictionaries as association lists, the result monad on sums, validation as a list of
    checks, bounded deques, numbers and strings. Floats are exact rationals, Python integers are \<open>int\<close>.
    \<^verbatim>\<open>Python_Text\<close>: stripping, case folding, \<open>repr\<close>, integer formatting. \<^verbatim>\<open>Calendar\<close>: dates and time zones.
  \<^item> \<^verbatim>\<open>State_Machine\<close>: \<open>core/state_machine.py\<close>; walks, reachability, and the locale
    \<open>covered_machine\<close> of machines whose table covers every status, interpreted for tasks, Kanban
    columns and sprints.
  \<^item> \<^verbatim>\<open>Task_Model\<close>: the \<open>Task\<close> model field by field, its validators in the order pydantic runs
    them, the transition table, \<open>with_transition\<close> with overrides of any fields.
  \<^item> \<^verbatim>\<open>Task_Repo\<close>: the \<open>tasks\<close> table and \<open>SQLiteTaskRepository\<close>; the locale \<open>task_store\<close> is the
    contract the engine relies on, interpreted on the repository.
  \<^item> \<^verbatim>\<open>Task_Engine\<close>: the version tracker, the five mutations with their validation, dispatch,
    \<open>_process_one\<close> and the processing loop. Each request comes with what its environment does to
    it (a fresh id, faults of the database), so a run is any list of requests with any faults.
  \<^item> \<^verbatim>\<open>Task_Execution\<close>: the frozen execution state, its transition log and cost totals.
  \<^item> \<^verbatim>\<open>Assignment\<close>: agent scoring, the six assignment strategies behind the locales
    \<open>assignment_strategy\<close> and \<open>scored_strategy\<close>, the assignment service, and routing of subtasks.
  \<^item> \<^verbatim>\<open>Loop_Prevention\<close>: ancestry, depth, deduplication, rate limit and circuit breaker as explicit
    states with the clock readings as arguments, and the guard that chains them.
  \<^item> \<^verbatim>\<open>Hierarchy\<close>: \<open>HierarchyResolver\<close> built from departments, teams and reporting lines; the
    locale \<open>org_chart\<close> of a supervision map without cycles carries the query lemmas.
  \<^item> \<^verbatim>\<open>Delegation\<close>: authority, entity guard, record store and \<open>DelegationService.delegate\<close>, split
    at its await into \<open>delegate_begin\<close> and \<open>delegate_finish\<close> so that interleavings are sequences of
    the two; the locale \<open>chain_guard\<close> states what the service relies on from a loop guard.
  \<^item> \<^verbatim>\<open>Dependency_Graph\<close>: \<open>dag.py\<close>, with the depth-first cycle search, Kahn's sort and the
    parallel groups; the locale \<open>dependency_provider\<close> states what the service relies on.
  \<^item> \<^verbatim>\<open>Decomposition\<close>: plans, classifier (with a matcher for its regular expressions), service
    and status rollup.
  \<^item> \<^verbatim>\<open>Workflow\<close>: Kanban columns, work-in-progress limits, sprints, backlog and velocity.
    \<^verbatim>\<open>Condition_Eval\<close>: the condition language of workflow edges, its tokenizer and recursive evaluation.
  \<^item> \<^verbatim>\<open>Message_Bus\<close>: the in-memory bus (channels, bounded mailboxes, history, request and reply) and the
    messenger with its handlers; the locale \<open>bounded_queue\<close> is the contract of a mailbox.
  \<^item> \<^verbatim>\<open>Quota\<close>: quota windows, usage tracking and the check before a provider call.
    \<^verbatim>\<open>Rate_Limits\<close>: the sliding-window store and the in-flight store of the API.
  \<^item> \<^verbatim>\<open>Cost_Tracker\<close>: billing periods, the budget configuration, cost records, the tracker with its pruning and
    its durable project totals, queries, summaries and the analytics of call categories. The locale
    \<open>retained_log\<close> is a log that is only pruned from the old end; it carries the lemma that what is left is exact
    inside the window kept, and is interpreted for cost records and for risk records.
    \<^verbatim>\<open>Model_Router\<close>: selectors, resolver, the five routing strategies and the router; the locales
    \<open>candidate_selector\<close> and \<open>model_strategy\<close> are interpreted for each of them. \<^verbatim>\<open>Budget_Enforcer\<close>: the
    pre-flight checks, the project budget, the checker that runs inside an execution, automatic downgrades, the
    risk scorer and the risk budget. A clock read is an argument, one per read.
  \<^item> \<^verbatim>\<open>Approvals\<close>: the approval item, its SQLite repository and the approval store with cache and lazy
    expiration; \<open>save\<close> is split at its await. The locale \<open>approval_sink\<close> is what clients rely on.
    \<^verbatim>\<open>Approval_Timeouts\<close>: the four time-out policies, the checker and the scheduler's tick.
  \<^item> \<^verbatim>\<open>Security_Rules\<close>: verdicts, detectors over nested arguments, policy rules, the rule engine and its
    assembly. \<^verbatim>\<open>Autonomy\<close>: action types, presets, resolution and run-time downgrades.
    \<^verbatim>\<open>Security_Gate\<close>: the security service around a tool call, the denial tracker, the audit log and output
    scanning; the locale \<open>scan_policy\<close> is interpreted for every policy. \<^verbatim>\<open>Tool_Invoker\<close>: registry,
    permissions, sub-constraints and the invocation of tools, one by one and in batches.
  \<^item> \<^verbatim>\<open>Conflict_Resolution\<close>: conflicts, resolutions and dissent records, the authority and the debate strategy;
    the locale \<open>conflict_resolver\<close> is what a strategy owes the service, interpreted for all four.
    \<^verbatim>\<open>Escalation_Queue\<close>: the queue of conflicts that wait for a human, with the futures registry, the resolver
    between its suspensions, the sweeper and the endpoints; \<open>esc_reach\<close> is the set of states their
    interleavings reach. \<^verbatim>\<open>Conflict_Service\<close>: the hybrid strategy, the service with its audit trail, and the
    publication of dissent on the bus and the event stream.
  \<^item> \<^verbatim>\<open>Audit_Chain\<close>: hash chain, verifier, timestamp fallback and logging sink.

  \<^bold>\<open>What is shown.\<close> Tasks: completion needs a review, the lifecycle has no dead ends, transitions
  are characterised branch by branch, and every returned task is valid. Storage and engine: what a
  save and a read keep and lose; pages partition a listing; every run of the engine keeps every row
  valid, answers every request once, moves statuses only along the table and loses no versioned
  update; outcomes of create and cancel. Assignment: strategies choose the best eligible agent and the
  service returns valid assignments. Execution: the log is a gapless walk and the totals are
  those of the turns. Delegation: outcome of a call on every branch, bounded chains, and the two
  interleaved duplicates the checks let through. Hierarchy: cycle detection is exact, queries
  terminate and answer the supervision relation, the lowest common manager is the lowest. Loop
  prevention: exact bounds for each mechanism. Decomposition: validation, sorting and grouping
  are correct and total, a decomposition succeeds under exact conditions. Workflow: column moves are
  lifecycle walks, backlog operations and sprint transitions keep a sprint valid under exact
  conditions; the condition evaluator agrees with a grammar or runs out of stack, which a
  bound on the nesting excludes, and printed conditions read back. Bus:
  deliveries are in order and never exceed capacity, an invariant of all operations. Quotas and
  limits: usage is exact, a quota is overshot at most by the calls that overlap, and the pruned stores refine plain event logs. Budgets:
  totals are those of all records inside the window kept, the durable totals of a project are those of its
  whole life, the pre-flight checks and the checker of a run stop exactly at the limits over what was really
  spent, actions that ask first use up the risk units of a day at most by what is recorded between question and
  record, a model is downgraded only over the
  threshold and only to what the map says, and pruning can reopen an exhausted month. Routing: every strategy
  returns a registered model, a registered model is always found, the cost-aware choice is the cheapest. Approvals:
  a decision is final unless an unconditional \<open>save\<close> writes over it, as in its race with an expiry; policies and ticks decide as
  configured. Security: no tool runs unless registered, permitted and with arguments of its schema, nor past an active
  security service that did not let it pass, no configuration lets a call past the
  detectors, an escalation is filed before it is answered, autonomy never rises by itself, every
  evaluation returns and is on record, flagged output is not shown. Conflicts: authority and the
  fallback of the other strategies choose by rank and depth in the chart, every other participant is on
  record once, a debate always ends, an escalation is decided once, an accepted decision reaches the
  resolver that waits, and the windows in which one is lost. Audit: tamper evidence up to explicit
  collisions, for all but a chain emptied altogether, which the verifier accepts, and the stale tail two concurrent emits can bind. This theory adds what spans components:
  board moves sent to the engine, and the storage of a decomposed task.

  \<^bold>\<open>Termination.\<close> No definition uses fuel. The condition evaluator takes the stack frames that are left,
  as the interpreter does, and \<open>frames_enough\<close> bounds what an expression needs. The loops over supervisors and graphs are functions with
  a measure (cycle search, Kahn's sort, groups, condition evaluation, the walk through nested arguments,
  which stops at depth twenty as the code does) or \<open>partial_function (option)\<close> where the code's own
  loop can run for ever on a bad input (queries of a chart with a cycle, the iterative depth-first
  search); there the theorems show that the result is \<open>Some\<close>.

  \<^bold>\<open>Outside the model.\<close> Logging and metrics; the text of error messages where nothing depends on it;
  rounding of floats (the explicit \<open>round(x, 10)\<close> of the budget code is modelled, half to even, on exact
  rationals); asyncio scheduling beyond the modelled await points; SQL text and JSON
  columns (rows carry the decoded lists); \<open>uuid4\<close>, clocks, SHA-256, signatures, ISO date parsing, JSON
  schemas, regular expressions of the credential and leak detectors, and language models, which are
  arguments. Strings have code points below 256. Not modelled as components: the agent loops and
  providers (they call language models), the web API, memory, human resources, budget reports and optimiser,
  the other repositories, and the dashboard.

  \<^bold>\<open>Next.\<close> In this order: parking and resuming of agents, entity versioning, the
  claim protocol of the workers, provider retry, promotion of agents.
\<close>

section \<open>Properties across components\<close>

type_synonym board_step = "TaskStatus \<times> string \<times> string \<times> string \<times> env"

text \<open>The requests that carry out a column move: one transition per status of the path, in order.\<close>

definition board_requests :: "string \<Rightarrow> board_step list \<Rightarrow> (TaskMutation \<times> env) list" where
  "board_requests k steps = List.map (\<lambda>(s, rid, u, why, ev). (TransitionTaskMutation rid u k s why [] None, ev)) steps"

definition smooth :: "string \<Rightarrow> board_step list \<Rightarrow> bool" where
  "smooth k steps = list_all (\<lambda>(s, rid, u, why, ev). \<not> get_fault ev \<and> \<not> save_fault ev \<and>
     valid_mutation (TransitionTaskMutation rid u k s why [] None)) steps"

text \<open>
  A Kanban move through the engine. For a stored task with an assignee that is on the board, the
  transition requests along the status path of an allowed column move, sent in order without
  database faults, all succeed; afterwards the task differs only in its status, which is in the
  target column (off the board for a move back to BACKLOG).
\<close>

theorem board_move_through_engine:
  assumes "engine_ok isofmt es" and "lookup_task isofmt es k = Some t" and "t_assigned_to t \<noteq> None"
    and "dget STATUS_TO_COLUMN (t_status t) = Some (Some a)"
    and "resolve_task_transitions a b = Inr (List.map fst steps)" and "smooth k steps"
    and "processing_loop isofmt (board_requests k steps) es = (rs, es')"
  shows "list_all res_success rs \<and>
    (\<exists>s. lookup_task isofmt es' k = Some (t\<lparr>t_status := s\<rparr>) \<and>
       dget STATUS_TO_COLUMN s = Some (if b = BACKLOG then None else Some b))"
proof -
  note path = status_path_walk [OF assms(5) on_board [OF assms(4)]]
  from walk_through_engine [OF assms(1-3) path(1) assms(6) [unfolded smooth_def] assms(7) [unfolded board_requests_def]]
  show ?thesis using path(2,3) by auto
qed

definition board_task :: Task where
  "board_task = sample_task\<lparr>t_status := ASSIGNED, t_assigned_to := Some ''bob''\<rparr>"

definition board_engine :: engine where
  "board_engine = \<lparr>tasks = [(''task-1'', task_to_row board_task)], versions = []\<rparr>"

lemma board_engine_ok: "engine_ok (\<lambda>_. True) board_engine" "lookup_task (\<lambda>_. True) board_engine ''task-1'' = Some board_task"
proof -
  have v: "valid_task (\<lambda>_. True) board_task"
    by (simp add: board_task_def valid_task_def field_constraints_def sample_task_def not_blank_def py_isspace_def
        requires_assignee_def)
  have st: "stored_task board_task = board_task" "t_id board_task = ''task-1''"
    by (simp_all add: board_task_def sample_task_def stored_task_def)
  show "engine_ok (\<lambda>_. True) board_engine"
    using v st by (simp add: engine_ok_def board_engine_def valid_table_def versions_ok_def row_fields_task_to_row)
  show "lookup_task (\<lambda>_. True) board_engine ''task-1'' = Some board_task"
    using row_to_task_saved [OF v] st by (simp add: lookup_task_def sqlite_get_def repo_get_def board_engine_def)
qed

theorem board_move_through_engine_witness:
  "list_all res_success (fst (processing_loop (\<lambda>_. True)
     (board_requests ''task-1'' [(BLOCKED, ''r1'', ''u'', ''back'', Task_Engine.sample_env), (ASSIGNED, ''r2'', ''u'', ''back'', Task_Engine.sample_env),
        (BLOCKED, ''r3'', ''u'', ''back'', Task_Engine.sample_env)]) board_engine))"
proof -
  let ?steps = "[(BLOCKED, ''r1'', ''u'', ''back'', Task_Engine.sample_env), (ASSIGNED, ''r2'', ''u'', ''back'', Task_Engine.sample_env),
    (BLOCKED, ''r3'', ''u'', ''back'', Task_Engine.sample_env)]"
  have board: "t_assigned_to board_task \<noteq> None" "dget STATUS_TO_COLUMN (t_status board_task) = Some (Some READY)"
    by (simp_all add: board_task_def STATUS_TO_COLUMN_def)
  have path: "resolve_task_transitions READY BACKLOG = Inr (List.map fst ?steps)"
    by (simp add: resolve_task_transitions_def COLUMN_MOVE_STATUS_PATH_def)
  have ok: "smooth ''task-1'' ?steps"
    by (simp add: smooth_def Task_Engine.sample_env_def not_blank_def py_isspace_def reject_immutable_def expected_ok_def)
  obtain rs es' where run: "processing_loop (\<lambda>_. True) (board_requests ''task-1'' ?steps) board_engine = (rs, es')"
    by (rule prod.exhaust)
  from board_move_through_engine [OF board_engine_ok board path ok run] show ?thesis using run by simp
qed

text \<open>
  C30: the children of a decomposition can be stored. Saving the created tasks one after the other
  into a valid table gives a valid table from which every child is read back unchanged, in which
  every dependency of a child is a stored child, and which agrees with the old one elsewhere.
\<close>

theorem decomposed_children_persist:
  assumes "planner task ctx = Inr plan" and "valid_plan plan"
    and "decompose_task isofmt planner task ctx = Some (Inr res)" and "valid_table isofmt tbl"
  shows "let tbl' = fold sqlite_save (res_created_tasks res) tbl in
    valid_table isofmt tbl' \<and>
    (\<forall>c \<in> set (res_created_tasks res). repo_get False isofmt (t_id c) tbl' = Inr (Some c) \<and>
       (\<forall>d \<in> set (t_dependencies c). \<exists>c'. repo_get False isofmt d tbl' = Inr (Some c') \<and> t_id c' = d)) \<and>
    (\<forall>k. k \<notin> sd_id ` set (plan_subtasks plan) \<longrightarrow> repo_get False isofmt k tbl' = repo_get False isofmt k tbl)"
proof -
  define cs where "cs = res_created_tasks res"
  let ?tbl = "fold sqlite_save cs tbl"
  have subs: "unique_ids (plan_subtasks plan)" "closed (plan_subtasks plan)"
    using assms(2) by (simp_all add: valid_plan_def validate_subtasks_None)
  have cs: "cs = List.map (child_task task) (plan_subtasks plan)" "list_all (valid_task isofmt) cs"
    using decompose_success [OF assms(3,1)] by (simp_all add: cs_def)
  have ids: "List.map t_id cs = List.map sd_id (plan_subtasks plan)" by (simp add: cs(1) child_task_def)
  have v: "valid_table isofmt ?tbl" by (rule sqlite.invar_saves [OF assms(4) cs(2)])
  have get: "repo_get False isofmt k T = Inr (sqlite_get isofmt T k)" if "valid_table isofmt T" for k T
    using that by (simp add: repo_get_valid sqlite_get_valid)
  have stored: "sqlite_get isofmt ?tbl (t_id c) = Some c" if "c \<in> set cs" for c
  proof -
    have "find (\<lambda>t. t_id t = t_id c) (rev cs) = Some c"
      using that subs(1) ids find_rev_unique [of t_id cs c] by (simp add: unique_ids_def)
    moreover have "stored_task c = c" using that by (auto simp: cs(1) child_task_def stored_task_def)
    ultimately show ?thesis using sqlite.get_after_saves [OF assms(4) cs(2), of "t_id c"] by simp
  qed
  have dep: "\<exists>c'. repo_get False isofmt d ?tbl = Inr (Some c') \<and> t_id c' = d" if "c \<in> set cs" "d \<in> set (t_dependencies c)" for c d
  proof -
    have "d \<in> set (List.map t_id cs)" using that subs(2) unfolding ids by (fastforce simp: cs(1) child_task_def closed_def)
    then obtain c' where "c' \<in> set cs" "t_id c' = d" by auto
    then show ?thesis using stored get [OF v] by auto
  qed
  have other: "repo_get False isofmt k ?tbl = repo_get False isofmt k tbl" if "k \<notin> sd_id ` set (plan_subtasks plan)" for k
  proof -
    have "k \<notin> set (List.map t_id cs)" using that unfolding ids by simp
    then have "find (\<lambda>t. t_id t = k) (rev cs) = None" by (auto simp: find_None_iff)
    then show ?thesis using sqlite.get_after_saves [OF assms(4) cs(2), of k] by (simp add: get [OF v] get [OF assms(4)])
  qed
  show ?thesis unfolding Let_def cs_def [symmetric] using v stored dep other get [OF v] by simp
qed

theorem decomposed_children_persist_witness:
  "\<exists>res. decompose_task (\<lambda>_. True) (manual_decompose sample_plan) sample_task sample_context = Some (Inr res) \<and>
     valid_table (\<lambda>_. True) (fold sqlite_save (res_created_tasks res) [])"
proof -
  obtain res where res: "decompose_task (\<lambda>_. True) (manual_decompose sample_plan) sample_task sample_context = Some (Inr res)"
    using sample_decomposes by blast
  have "valid_table (\<lambda>_. True) []" by (simp add: valid_table_def)
  from decomposed_children_persist [of "manual_decompose sample_plan", OF sample_manual sample_plan_valid res this]
  show ?thesis using res unfolding Let_def by blast
qed

end
